(* ===== verification/Prelude.thy ===== *)
theory Prelude
  imports Main "HOL-Library.Word"
begin

text \<open>
  Shared vocabulary of the development.

  \<^item> Machine integers. An unsigned C++ integer whose width matters is a word
    (\<open>u8\<close>, \<open>u32\<close>, \<open>u64\<close>). A signed 32-bit integer (\<open>i32\<close> in \<^verbatim>\<open>common/types.hpp\<close>) is an
    \<open>int\<close>: the code's signed arithmetic has no defined wrap-around, so every cast between
    the two is written out (\<open>sint\<close>, \<open>word_of_int\<close>). A container size or index
    (\<open>usize\<close>) is a \<open>nat\<close> where the code only counts elements it owns.
  \<^item> Results. A C++ function that throws or returns \<open>std::unexpected\<close> is modelled by a sum
    whose left side is the error; \<open>bindE\<close> runs a second computation when the first succeeded.
  \<^item> Facts on words, bits and lists that several components use.
\<close>

unbundle bit_operations_syntax

named_theorems layout_simps
  \<open>bit-field equations of the instruction word\<close>

named_theorems frame_simps
  \<open>fields that an operation leaves unchanged\<close>

section \<open>Machine integers\<close>

type_synonym u8 = "8 word"
type_synonym u32 = "32 word"
type_synonym u64 = "64 word"

definition i32_max :: int where
  "i32_max = 2147483647"

definition i32_min :: int where
  "i32_min = -2147483648"

abbreviation in_i32 :: "int \<Rightarrow> bool" where
  "in_i32 x \<equiv> i32_min \<le> x \<and> x \<le> i32_max"

lemma take_bit_word_of_int_small:
  assumes "0 \<le> a" "a < 2 ^ n"
  shows "take_bit n (word_of_int a :: 'a::len word) = word_of_int a"
  using assms by (metis of_int_take_bit take_bit_int_eq_self_iff)

lemma take_bit_word_of_nat_small:
  assumes "m < 2 ^ n"
  shows "take_bit n (word_of_nat m :: 'a::len word) = word_of_nat m"
  using assms by (metis of_nat_take_bit take_bit_nat_eq_self_iff)

lemma bit_word_of_int_small:
  assumes "0 \<le> a" "a < 2 ^ n"
  shows "bit (word_of_int a :: 'a::len word) k \<longleftrightarrow> k < n \<and> bit (word_of_int a :: 'a::len word) k"
  by (subst take_bit_word_of_int_small [OF assms, symmetric]) (simp add: bit_take_bit_iff)

lemma bit_word_of_nat_small:
  assumes "m < 2 ^ n"
  shows "bit (word_of_nat m :: 'a::len word) k \<longleftrightarrow> k < n \<and> bit (word_of_nat m :: 'a::len word) k"
  by (subst take_bit_word_of_nat_small [OF assms, symmetric]) (simp add: bit_take_bit_iff)

text \<open>A 32-bit word whose top bit is clear reads the same signed and unsigned.\<close>

lemma sint_take_bit_u32: "n < 32 \<Longrightarrow> sint (take_bit n (x :: u32)) = uint (take_bit n x)"
  unfolding sint_uint
  by (subst signed_take_bit_eq_if_positive)
    (auto simp: bit_simps unsigned_take_bit_eq)

lemma sint_word_of_int_u32:
  assumes "in_i32 a"
  shows "sint (word_of_int a :: u32) = a"
  using assms
  by (simp add: i32_min_def i32_max_def signed_of_int signed_take_bit_int_eq_self)

lemma uint_word_of_int_u32:
  assumes "0 \<le> a" "a < 2 ^ 32"
  shows "uint (word_of_int a :: u32) = a"
  using assms by (simp add: unsigned_of_int take_bit_int_eq_self)

lemma uint_take_bit_bound: "n < LENGTH('a) \<Longrightarrow> uint (take_bit n (x :: 'a::len word)) < 2 ^ n"
  by (simp add: unsigned_take_bit_eq take_bit_int_less_exp)

section \<open>Results and errors\<close>

type_synonym ('e, 'a) result = "'e + 'a"

definition bindE :: "('e, 'a) result \<Rightarrow> ('a \<Rightarrow> ('e, 'b) result) \<Rightarrow> ('e, 'b) result" where
  "bindE r f = (case r of Inl e \<Rightarrow> Inl e | Inr a \<Rightarrow> f a)"

lemma bindE_simps [simp]:
  "bindE (Inl e) f = Inl e"
  "bindE (Inr a) f = f a"
  by (simp_all add: bindE_def)

lemma bindE_eq_Inr: "bindE r f = Inr b \<longleftrightarrow> (\<exists>a. r = Inr a \<and> f a = Inr b)"
  by (cases r) simp_all

lemma bindE_eq_Inl: "bindE r f = Inl e \<longleftrightarrow> r = Inl e \<or> (\<exists>a. r = Inr a \<and> f a = Inl e)"
  by (cases r) simp_all

text \<open>\<open>check b e\<close> is the pattern ``if the test fails, report \<open>e\<close>''.\<close>

definition check :: "bool \<Rightarrow> 'e \<Rightarrow> ('e, unit) result" where
  "check b e = (if b then Inr () else Inl e)"

lemma check_eq_Inr [simp]: "check b e = Inr u \<longleftrightarrow> b"
  by (simp add: check_def)

lemma check_eq_Inl [simp]: "check b e = Inl e' \<longleftrightarrow> \<not> b \<and> e' = e"
  by (auto simp: check_def)

text \<open>Running a check over a list stops at the first failure.\<close>

fun forE :: "'a list \<Rightarrow> ('a \<Rightarrow> ('e, unit) result) \<Rightarrow> ('e, unit) result" where
  "forE [] f = Inr ()"
| "forE (x # xs) f = bindE (f x) (\<lambda>_. forE xs f)"

lemma forE_Inr: "forE xs f = Inr u \<longleftrightarrow> (\<forall>x \<in> set xs. f x = Inr ())"
  by (induction xs) (auto simp: bindE_eq_Inr)

section \<open>C strings\<close>

definition c_str :: "string \<Rightarrow> string" where
  "c_str s = takeWhile (\<lambda>c. c \<noteq> CHR 0x00) s"

definition isspace :: "char \<Rightarrow> bool" where
  "isspace c \<longleftrightarrow> c \<in> {CHR '' '', CHR 0x09, CHR 0x0A, CHR 0x0B, CHR 0x0C, CHR 0x0D}"

section \<open>Lists\<close>

lemma card_filter_update:
  assumes "i < length xs"
  shows "card {j. j < length xs \<and> P (xs[i := x] ! j)} =
    (if P x then 1 else 0) + card {j. j < length xs \<and> j \<noteq> i \<and> P (xs ! j)}"
proof -
  have "{j. j < length xs \<and> P (xs[i := x] ! j)} =
    (if P x then {i} else {}) \<union> {j. j < length xs \<and> j \<noteq> i \<and> P (xs ! j)}"
    using assms by (auto simp: nth_list_update split: if_splits)
  then show ?thesis by (auto simp: card_insert_if)
qed

lemma card_index_split:
  assumes "i < length xs"
  shows "card {j. j < length xs \<and> P (xs ! j)} =
    (if P (xs ! i) then 1 else 0) + card {j. j < length xs \<and> j \<noteq> i \<and> P (xs ! j)}"
proof -
  have "{j. j < length xs \<and> P (xs ! j)} =
    (if P (xs ! i) then {i} else {}) \<union> {j. j < length xs \<and> j \<noteq> i \<and> P (xs ! j)}"
    using assms by auto
  then show ?thesis by (auto simp: card_insert_if)
qed

section \<open>Decimal numbers\<close>

text \<open>\<open>std::to_string\<close> of an integer.\<close>

fun digits :: "nat \<Rightarrow> string" where
  "digits n = (if n < 10 then [char_of (48 + n)] else digits (n div 10) @ [char_of (48 + n mod 10)])"

declare digits.simps [simp del]

definition to_string :: "int \<Rightarrow> string" where
  "to_string i = (if i < 0 then CHR ''-'' # digits (nat (- i)) else digits (nat i))"

end
