(* ===== verification/Opcode.thy ===== *)
theory Opcode
  imports Prelude
begin

text \<open>
  The instruction word of \<^verbatim>\<open>compiler/opcode.hpp\<close> and \<^verbatim>\<open>compiler/opcode.cpp\<close>.

  An instruction is a 32-bit word; its layout is opcode (6 bits, at 0), A (8 bits, at 6),
  C (9 bits, at 14), B (9 bits, at 23) and, overlapping C and B, Bx (18 bits, at 14).
  \<open>opcode\<close> holds the 38 enumerators; the C++ enumeration also has unnamed values (the six
  opcode bits reach 63), which \<open>GET_OPCODE\<close> reports as \<open>None\<close>. The lemmas give the field
  that each accessor reads after each constructor and each setter, the ranges of the
  decoded operands, and the agreement of the metadata table with the enumeration.
\<close>

section \<open>Formats and opcodes\<close>

type_synonym instruction = u32

datatype op_mode = iABC | iABx | iAsBx

datatype op_arg_mask = OpArgN | OpArgU | OpArgR | OpArgK

datatype opcode_group =
  G_Unknown | G_DataMove | G_Global | G_Upvalue | G_Table | G_Arithmetic | G_Unary |
  G_Branch | G_Comparison | G_Call | G_Loop | G_Closure | G_Vararg

datatype opcode =
  OP_MOVE | OP_LOADK | OP_LOADBOOL | OP_LOADNIL | OP_GETUPVAL | OP_GETGLOBAL
  | OP_GETTABLE | OP_SETGLOBAL | OP_SETUPVAL | OP_SETTABLE | OP_NEWTABLE | OP_SELF
  | OP_ADD | OP_SUB | OP_MUL | OP_DIV | OP_MOD | OP_POW
  | OP_UNM | OP_NOT | OP_LEN | OP_CONCAT | OP_JMP | OP_EQ
  | OP_LT | OP_LE | OP_TEST | OP_TESTSET | OP_CALL | OP_TAILCALL
  | OP_RETURN | OP_FORLOOP | OP_FORPREP | OP_TFORLOOP | OP_SETLIST | OP_CLOSE
  | OP_CLOSURE | OP_VARARG

definition SIZE_C :: nat where "SIZE_C = 9"
definition SIZE_B :: nat where "SIZE_B = 9"
definition SIZE_Bx :: nat where "SIZE_Bx = SIZE_C + SIZE_B"
definition SIZE_A :: nat where "SIZE_A = 8"
definition SIZE_OP :: nat where "SIZE_OP = 6"

definition POS_OP :: nat where "POS_OP = 0"
definition POS_A :: nat where "POS_A = POS_OP + SIZE_OP"
definition POS_C :: nat where "POS_C = POS_A + SIZE_A"
definition POS_B :: nat where "POS_B = POS_C + SIZE_C"
definition POS_Bx :: nat where "POS_Bx = POS_C"

definition MAXARG_Bx :: int where "MAXARG_Bx = push_bit SIZE_Bx 1 - 1"
definition MAXARG_sBx :: int where "MAXARG_sBx = drop_bit 1 MAXARG_Bx"
definition MAXARG_A :: int where "MAXARG_A = push_bit SIZE_A 1 - 1"
definition MAXARG_B :: int where "MAXARG_B = push_bit SIZE_B 1 - 1"
definition MAXARG_C :: int where "MAXARG_C = push_bit SIZE_C 1 - 1"

definition BITRK :: int where "BITRK = push_bit (SIZE_B - 1) 1"
definition MAXINDEXRK :: int where "MAXINDEXRK = BITRK - 1"
definition NO_REG :: int where "NO_REG = MAXARG_A"

definition LFIELDS_PER_FLUSH :: int where "LFIELDS_PER_FLUSH = 50"

definition all_opcodes :: "opcode list" where
  "all_opcodes =
   [OP_MOVE, OP_LOADK, OP_LOADBOOL, OP_LOADNIL, OP_GETUPVAL, OP_GETGLOBAL,
    OP_GETTABLE, OP_SETGLOBAL, OP_SETUPVAL, OP_SETTABLE, OP_NEWTABLE, OP_SELF,
    OP_ADD, OP_SUB, OP_MUL, OP_DIV, OP_MOD, OP_POW,
    OP_UNM, OP_NOT, OP_LEN, OP_CONCAT, OP_JMP, OP_EQ,
    OP_LT, OP_LE, OP_TEST, OP_TESTSET, OP_CALL, OP_TAILCALL,
    OP_RETURN, OP_FORLOOP, OP_FORPREP, OP_TFORLOOP, OP_SETLIST, OP_CLOSE,
    OP_CLOSURE, OP_VARARG]"

definition NUM_OPCODES :: nat where "NUM_OPCODES = length all_opcodes"

primrec op_index :: "opcode \<Rightarrow> nat" where
  "op_index OP_MOVE = 0"
| "op_index OP_LOADK = 1"
| "op_index OP_LOADBOOL = 2"
| "op_index OP_LOADNIL = 3"
| "op_index OP_GETUPVAL = 4"
| "op_index OP_GETGLOBAL = 5"
| "op_index OP_GETTABLE = 6"
| "op_index OP_SETGLOBAL = 7"
| "op_index OP_SETUPVAL = 8"
| "op_index OP_SETTABLE = 9"
| "op_index OP_NEWTABLE = 10"
| "op_index OP_SELF = 11"
| "op_index OP_ADD = 12"
| "op_index OP_SUB = 13"
| "op_index OP_MUL = 14"
| "op_index OP_DIV = 15"
| "op_index OP_MOD = 16"
| "op_index OP_POW = 17"
| "op_index OP_UNM = 18"
| "op_index OP_NOT = 19"
| "op_index OP_LEN = 20"
| "op_index OP_CONCAT = 21"
| "op_index OP_JMP = 22"
| "op_index OP_EQ = 23"
| "op_index OP_LT = 24"
| "op_index OP_LE = 25"
| "op_index OP_TEST = 26"
| "op_index OP_TESTSET = 27"
| "op_index OP_CALL = 28"
| "op_index OP_TAILCALL = 29"
| "op_index OP_RETURN = 30"
| "op_index OP_FORLOOP = 31"
| "op_index OP_FORPREP = 32"
| "op_index OP_TFORLOOP = 33"
| "op_index OP_SETLIST = 34"
| "op_index OP_CLOSE = 35"
| "op_index OP_CLOSURE = 36"
| "op_index OP_VARARG = 37"

definition opcode_of_index :: "nat \<Rightarrow> opcode option" where
  "opcode_of_index n = (if n < NUM_OPCODES then Some (all_opcodes ! n) else None)"

section \<open>Encoding and decoding\<close>

definition MASK1 :: "nat \<Rightarrow> nat \<Rightarrow> instruction" where
  "MASK1 n p = push_bit p (NOT (push_bit n (NOT 0)))"

definition opcode_field :: "instruction \<Rightarrow> nat" where
  "opcode_field i = unat (drop_bit POS_OP i AND MASK1 SIZE_OP 0)"

definition GET_OPCODE :: "instruction \<Rightarrow> opcode option" where
  "GET_OPCODE i = opcode_of_index (opcode_field i)"

definition GETARG_A :: "instruction \<Rightarrow> int" where
  "GETARG_A i = sint (drop_bit POS_A i AND MASK1 SIZE_A 0)"

definition GETARG_B :: "instruction \<Rightarrow> int" where
  "GETARG_B i = sint (drop_bit POS_B i AND MASK1 SIZE_B 0)"

definition GETARG_C :: "instruction \<Rightarrow> int" where
  "GETARG_C i = sint (drop_bit POS_C i AND MASK1 SIZE_C 0)"

definition GETARG_Bx :: "instruction \<Rightarrow> int" where
  "GETARG_Bx i = sint (drop_bit POS_Bx i AND MASK1 SIZE_Bx 0)"

definition GETARG_sBx :: "instruction \<Rightarrow> int" where
  "GETARG_sBx i = GETARG_Bx i - MAXARG_sBx"

definition CREATE_ABC :: "opcode \<Rightarrow> int \<Rightarrow> int \<Rightarrow> int \<Rightarrow> instruction" where
  "CREATE_ABC oc a b c =
     ((push_bit POS_OP (word_of_nat (op_index oc)) OR push_bit POS_A (word_of_int a)) OR
      push_bit POS_B (word_of_int b)) OR push_bit POS_C (word_of_int c)"

definition CREATE_ABx :: "opcode \<Rightarrow> int \<Rightarrow> int \<Rightarrow> instruction" where
  "CREATE_ABx oc a bx =
     (push_bit POS_OP (word_of_nat (op_index oc)) OR push_bit POS_A (word_of_int a)) OR
      push_bit POS_Bx (word_of_int bx)"

definition CREATE_AsBx :: "opcode \<Rightarrow> int \<Rightarrow> int \<Rightarrow> instruction" where
  "CREATE_AsBx oc a sbx = CREATE_ABx oc a (sbx + MAXARG_sBx)"

definition SETARG_A :: "instruction \<Rightarrow> int \<Rightarrow> instruction" where
  "SETARG_A i a = (i AND NOT (MASK1 SIZE_A POS_A)) OR
     (push_bit POS_A (word_of_int a) AND MASK1 SIZE_A POS_A)"

definition SETARG_B :: "instruction \<Rightarrow> int \<Rightarrow> instruction" where
  "SETARG_B i b = (i AND NOT (MASK1 SIZE_B POS_B)) OR
     (push_bit POS_B (word_of_int b) AND MASK1 SIZE_B POS_B)"

definition SETARG_C :: "instruction \<Rightarrow> int \<Rightarrow> instruction" where
  "SETARG_C i c = (i AND NOT (MASK1 SIZE_C POS_C)) OR
     (push_bit POS_C (word_of_int c) AND MASK1 SIZE_C POS_C)"

definition SETARG_sBx :: "instruction \<Rightarrow> int \<Rightarrow> instruction" where
  "SETARG_sBx i sbx = (i AND NOT (MASK1 SIZE_Bx POS_Bx)) OR
     (push_bit POS_Bx (word_of_int (sbx + MAXARG_sBx)) AND MASK1 SIZE_Bx POS_Bx)"

definition ISK :: "int \<Rightarrow> bool" where
  "ISK x \<longleftrightarrow> x AND BITRK \<noteq> 0"

definition INDEXK :: "int \<Rightarrow> int" where
  "INDEXK r = r AND NOT BITRK"

definition RKASK :: "int \<Rightarrow> int" where
  "RKASK x = x OR BITRK"

section \<open>Metadata\<close>

record opcode_metadata =
  md_opcode :: opcode
  md_name :: string
  md_mode :: op_mode
  md_bMode :: op_arg_mask
  md_cMode :: op_arg_mask
  md_setsA :: bool
  md_isTest :: bool
  md_group :: opcode_group
  md_mayInvokeMetamethod :: bool

definition makeOpcodeMetadata ::
  "opcode \<Rightarrow> string \<Rightarrow> op_mode \<Rightarrow> op_arg_mask \<Rightarrow> op_arg_mask \<Rightarrow> bool \<Rightarrow> bool \<Rightarrow>
   opcode_group \<Rightarrow> bool \<Rightarrow> opcode_metadata" where
  "makeOpcodeMetadata oc name mode bm cm setsA isTest grp mm =
     \<lparr>md_opcode = oc, md_name = name, md_mode = mode, md_bMode = bm, md_cMode = cm,
      md_setsA = setsA, md_isTest = isTest, md_group = grp, md_mayInvokeMetamethod = mm\<rparr>"

definition kOpcodeMetadata :: "opcode_metadata list" where
  "kOpcodeMetadata =
   [makeOpcodeMetadata OP_MOVE ''MOVE'' iABC OpArgR OpArgN True False G_DataMove False,
    makeOpcodeMetadata OP_LOADK ''LOADK'' iABx OpArgK OpArgN True False G_DataMove False,
    makeOpcodeMetadata OP_LOADBOOL ''LOADBOOL'' iABC OpArgU OpArgU True False G_DataMove False,
    makeOpcodeMetadata OP_LOADNIL ''LOADNIL'' iABC OpArgR OpArgN True False G_DataMove False,
    makeOpcodeMetadata OP_GETUPVAL ''GETUPVAL'' iABC OpArgU OpArgN True False G_Upvalue False,
    makeOpcodeMetadata OP_GETGLOBAL ''GETGLOBAL'' iABx OpArgK OpArgN True False G_Global False,
    makeOpcodeMetadata OP_GETTABLE ''GETTABLE'' iABC OpArgR OpArgK True False G_Table True,
    makeOpcodeMetadata OP_SETGLOBAL ''SETGLOBAL'' iABx OpArgK OpArgN False False G_Global False,
    makeOpcodeMetadata OP_SETUPVAL ''SETUPVAL'' iABC OpArgU OpArgN False False G_Upvalue False,
    makeOpcodeMetadata OP_SETTABLE ''SETTABLE'' iABC OpArgK OpArgK False False G_Table True,
    makeOpcodeMetadata OP_NEWTABLE ''NEWTABLE'' iABC OpArgU OpArgU True False G_Table False,
    makeOpcodeMetadata OP_SELF ''SELF'' iABC OpArgR OpArgK True False G_Table True,
    makeOpcodeMetadata OP_ADD ''ADD'' iABC OpArgK OpArgK True False G_Arithmetic True,
    makeOpcodeMetadata OP_SUB ''SUB'' iABC OpArgK OpArgK True False G_Arithmetic True,
    makeOpcodeMetadata OP_MUL ''MUL'' iABC OpArgK OpArgK True False G_Arithmetic True,
    makeOpcodeMetadata OP_DIV ''DIV'' iABC OpArgK OpArgK True False G_Arithmetic True,
    makeOpcodeMetadata OP_MOD ''MOD'' iABC OpArgK OpArgK True False G_Arithmetic True,
    makeOpcodeMetadata OP_POW ''POW'' iABC OpArgK OpArgK True False G_Arithmetic True,
    makeOpcodeMetadata OP_UNM ''UNM'' iABC OpArgR OpArgN True False G_Unary True,
    makeOpcodeMetadata OP_NOT ''NOT'' iABC OpArgR OpArgN True False G_Unary False,
    makeOpcodeMetadata OP_LEN ''LEN'' iABC OpArgR OpArgN True False G_Unary True,
    makeOpcodeMetadata OP_CONCAT ''CONCAT'' iABC OpArgR OpArgR True False G_Unary True,
    makeOpcodeMetadata OP_JMP ''JMP'' iAsBx OpArgR OpArgN False False G_Branch False,
    makeOpcodeMetadata OP_EQ ''EQ'' iABC OpArgK OpArgK False True G_Comparison True,
    makeOpcodeMetadata OP_LT ''LT'' iABC OpArgK OpArgK False True G_Comparison True,
    makeOpcodeMetadata OP_LE ''LE'' iABC OpArgK OpArgK False True G_Comparison True,
    makeOpcodeMetadata OP_TEST ''TEST'' iABC OpArgR OpArgU True True G_Branch False,
    makeOpcodeMetadata OP_TESTSET ''TESTSET'' iABC OpArgR OpArgU True True G_Branch False,
    makeOpcodeMetadata OP_CALL ''CALL'' iABC OpArgU OpArgU True False G_Call True,
    makeOpcodeMetadata OP_TAILCALL ''TAILCALL'' iABC OpArgU OpArgU True False G_Call True,
    makeOpcodeMetadata OP_RETURN ''RETURN'' iABC OpArgU OpArgN False False G_Call False,
    makeOpcodeMetadata OP_FORLOOP ''FORLOOP'' iAsBx OpArgR OpArgN True False G_Loop False,
    makeOpcodeMetadata OP_FORPREP ''FORPREP'' iAsBx OpArgR OpArgN True False G_Loop False,
    makeOpcodeMetadata OP_TFORLOOP ''TFORLOOP'' iABC OpArgN OpArgU False True G_Loop False,
    makeOpcodeMetadata OP_SETLIST ''SETLIST'' iABC OpArgU OpArgU False False G_Table False,
    makeOpcodeMetadata OP_CLOSE ''CLOSE'' iABC OpArgN OpArgN False False G_Branch False,
    makeOpcodeMetadata OP_CLOSURE ''CLOSURE'' iABx OpArgU OpArgN True False G_Closure False,
    makeOpcodeMetadata OP_VARARG ''VARARG'' iABC OpArgU OpArgN True False G_Vararg False]"

definition kUnknownOpcodeMetadata :: opcode_metadata where
  "kUnknownOpcodeMetadata =
     makeOpcodeMetadata OP_MOVE ''UNKNOWN'' iABC OpArgN OpArgN False False G_Unknown False"

text \<open>The enumeration value is the number stored in the opcode field, named or not.\<close>

definition isValidOpcode :: "nat \<Rightarrow> bool" where
  "isValidOpcode n \<longleftrightarrow> n < length kOpcodeMetadata"

definition opcodeMetadata :: "nat \<Rightarrow> opcode_metadata" where
  "opcodeMetadata n = (if isValidOpcode n then kOpcodeMetadata ! n else kUnknownOpcodeMetadata)"

definition getOpMode :: "nat \<Rightarrow> op_mode" where
  "getOpMode n = md_mode (opcodeMetadata n)"

definition getBMode :: "nat \<Rightarrow> op_arg_mask" where
  "getBMode n = md_bMode (opcodeMetadata n)"

definition getCMode :: "nat \<Rightarrow> op_arg_mask" where
  "getCMode n = md_cMode (opcodeMetadata n)"

definition testAMode :: "nat \<Rightarrow> bool" where
  "testAMode n = md_setsA (opcodeMetadata n)"

definition testTMode :: "nat \<Rightarrow> bool" where
  "testTMode n = md_isTest (opcodeMetadata n)"

definition getOpName :: "nat \<Rightarrow> string" where
  "getOpName n = md_name (opcodeMetadata n)"

text \<open>The static assertion over the table: enumeration order, names and groups present.\<close>

definition opcodeMetadataMatchesEnumOrder :: bool where
  "opcodeMetadataMatchesEnumOrder \<longleftrightarrow>
     list_all (\<lambda>index. md_opcode (kOpcodeMetadata ! index) = all_opcodes ! index \<and>
        md_name (kOpcodeMetadata ! index) \<noteq> [] \<and>
        md_group (kOpcodeMetadata ! index) \<noteq> G_Unknown) [0..<length kOpcodeMetadata]"

definition opcodeGroup :: "nat \<Rightarrow> opcode_group" where
  "opcodeGroup n = md_group (opcodeMetadata n)"

definition isDataMoveOpcode :: "nat \<Rightarrow> bool" where
  "isDataMoveOpcode n \<longleftrightarrow> opcodeGroup n = G_DataMove"

definition isTableOpcode :: "nat \<Rightarrow> bool" where
  "isTableOpcode n \<longleftrightarrow> opcodeGroup n = G_Table"

definition isArithmeticOpcode :: "nat \<Rightarrow> bool" where
  "isArithmeticOpcode n \<longleftrightarrow> opcodeGroup n = G_Arithmetic"

definition isComparisonOpcode :: "nat \<Rightarrow> bool" where
  "isComparisonOpcode n \<longleftrightarrow> opcodeGroup n = G_Comparison"

definition isCallOpcode :: "nat \<Rightarrow> bool" where
  "isCallOpcode n \<longleftrightarrow> opcodeGroup n = G_Call"

definition mayInvokeMetamethod :: "nat \<Rightarrow> bool" where
  "mayInvokeMetamethod n = md_mayInvokeMetamethod (opcodeMetadata n)"

section \<open>Layout facts\<close>

lemma layout_numerals [layout_simps]:
  "SIZE_OP = 6" "SIZE_A = 8" "SIZE_B = 9" "SIZE_C = 9" "SIZE_Bx = 18"
  "POS_OP = 0" "POS_A = 6" "POS_C = 14" "POS_B = 23" "POS_Bx = 14"
  "MAXARG_Bx = 262143" "MAXARG_sBx = 131071" "MAXARG_A = 255" "MAXARG_B = 511" "MAXARG_C = 511"
  "BITRK = 256" "MAXINDEXRK = 255" "NO_REG = 255" "LFIELDS_PER_FLUSH = 50"
  by (simp_all add: SIZE_OP_def SIZE_A_def SIZE_B_def SIZE_C_def SIZE_Bx_def POS_OP_def POS_A_def
      POS_C_def POS_B_def POS_Bx_def MAXARG_Bx_def MAXARG_sBx_def MAXARG_A_def MAXARG_B_def
      MAXARG_C_def BITRK_def MAXINDEXRK_def NO_REG_def LFIELDS_PER_FLUSH_def)

lemma NUM_OPCODES_eq [layout_simps]: "NUM_OPCODES = 38"
  by (simp add: NUM_OPCODES_def all_opcodes_def)

lemma AND_MASK1: "n < 32 \<Longrightarrow> x AND MASK1 n 0 = take_bit n x"
  unfolding MASK1_def by (rule bit_word_eqI) (auto simp: bit_simps)

lemma op_index_less [simp]: "op_index oc < 38"
  by (cases oc) simp_all

lemma all_opcodes_op_index: "all_opcodes ! op_index oc = oc"
  by (cases oc) (simp_all add: all_opcodes_def)

lemma opcode_of_index_op_index [simp]: "opcode_of_index (op_index oc) = Some oc"
  by (simp add: opcode_of_index_def all_opcodes_op_index layout_simps)

lemma inj_op_index: "inj op_index"
  by (rule inj_on_inverseI [where g = "\<lambda>n. all_opcodes ! n"]) (rule all_opcodes_op_index)

lemma op_index_all_opcodes: "n < 38 \<Longrightarrow> op_index (all_opcodes ! n) = n"
  unfolding all_opcodes_def by (auto simp: less_Suc_eq numeral_eq_Suc)

lemma opcode_of_index_Some: "opcode_of_index n = Some oc \<longleftrightarrow> n = op_index oc"
  by (auto simp: opcode_of_index_def layout_simps op_index_all_opcodes all_opcodes_op_index)

text \<open>A field of an \<open>OR\<close> of shifted fields, bit by bit.\<close>

lemmas field_bit_simps =
  bit_take_bit_iff bit_drop_bit_eq bit_or_iff bit_and_iff bit_push_bit_iff bit_not_iff MASK1_def

lemma GETARG_take: 
  "GETARG_A i = uint (take_bit 8 (drop_bit 6 i))"
  "GETARG_B i = uint (take_bit 9 (drop_bit 23 i))"
  "GETARG_C i = uint (take_bit 9 (drop_bit 14 i))"
  "GETARG_Bx i = uint (take_bit 18 (drop_bit 14 i))"
  "opcode_field i = unat (take_bit 6 i)"
  by (simp_all add: GETARG_A_def GETARG_B_def GETARG_C_def GETARG_Bx_def opcode_field_def
      layout_simps AND_MASK1 sint_take_bit_u32)

lemma GETARG_bounds:
  "0 \<le> GETARG_A i" "GETARG_A i \<le> MAXARG_A"
  "0 \<le> GETARG_B i" "GETARG_B i \<le> MAXARG_B"
  "0 \<le> GETARG_C i" "GETARG_C i \<le> MAXARG_C"
  "0 \<le> GETARG_Bx i" "GETARG_Bx i \<le> MAXARG_Bx"
  using uint_take_bit_bound [of 8 "drop_bit 6 i"] uint_take_bit_bound [of 9 "drop_bit 23 i"]
    uint_take_bit_bound [of 9 "drop_bit 14 i"] uint_take_bit_bound [of 18 "drop_bit 14 i"]
  by (simp_all add: GETARG_take layout_simps)

lemma CREATE_ABC_fields:
  assumes a: "0 \<le> a" "a \<le> MAXARG_A" and b: "0 \<le> b" "b \<le> MAXARG_B" and c: "0 \<le> c" "c \<le> MAXARG_C"
  shows "take_bit 6 (CREATE_ABC oc a b c) = word_of_nat (op_index oc)"
    and "take_bit 8 (drop_bit 6 (CREATE_ABC oc a b c)) = word_of_int a"
    and "take_bit 9 (drop_bit 23 (CREATE_ABC oc a b c)) = word_of_int b"
    and "take_bit 9 (drop_bit 14 (CREATE_ABC oc a b c)) = word_of_int c"
proof -
  have A: "bit (word_of_int a :: u32) k \<Longrightarrow> k < 8" for k
    using bit_word_of_int_small [of a 8 k, where 'a = 32] a by (simp add: layout_simps)
  have B: "bit (word_of_int b :: u32) k \<Longrightarrow> k < 9" for k
    using bit_word_of_int_small [of b 9 k, where 'a = 32] b by (simp add: layout_simps)
  have C: "bit (word_of_int c :: u32) k \<Longrightarrow> k < 9" for k
    using bit_word_of_int_small [of c 9 k, where 'a = 32] c by (simp add: layout_simps)
  have O: "bit (word_of_nat (op_index oc) :: u32) k \<Longrightarrow> k < 6" for k
    using bit_word_of_nat_small [of "op_index oc" 6 k, where 'a = 32] op_index_less [of oc] by auto
  note [dest] = A B C O
  show "take_bit 6 (CREATE_ABC oc a b c) = word_of_nat (op_index oc)"
    by (rule bit_word_eqI) (auto simp: CREATE_ABC_def layout_simps field_bit_simps simp del: bit_of_nat_iff)
  show "take_bit 8 (drop_bit 6 (CREATE_ABC oc a b c)) = word_of_int a"
    by (rule bit_word_eqI) (auto simp: CREATE_ABC_def layout_simps field_bit_simps)
  show "take_bit 9 (drop_bit 23 (CREATE_ABC oc a b c)) = word_of_int b"
    by (rule bit_word_eqI) (auto simp: CREATE_ABC_def layout_simps field_bit_simps)
  show "take_bit 9 (drop_bit 14 (CREATE_ABC oc a b c)) = word_of_int c"
    by (rule bit_word_eqI) (auto simp: CREATE_ABC_def layout_simps field_bit_simps)
qed

lemma CREATE_ABx_fields:
  assumes a: "0 \<le> a" "a \<le> MAXARG_A" and bx: "0 \<le> bx" "bx \<le> MAXARG_Bx"
  shows "take_bit 6 (CREATE_ABx oc a bx) = word_of_nat (op_index oc)"
    and "take_bit 8 (drop_bit 6 (CREATE_ABx oc a bx)) = word_of_int a"
    and "take_bit 18 (drop_bit 14 (CREATE_ABx oc a bx)) = word_of_int bx"
proof -
  have A: "bit (word_of_int a :: u32) k \<Longrightarrow> k < 8" for k
    using bit_word_of_int_small [of a 8 k, where 'a = 32] a by (simp add: layout_simps)
  have B: "bit (word_of_int bx :: u32) k \<Longrightarrow> k < 18" for k
    using bit_word_of_int_small [of bx 18 k, where 'a = 32] bx by (simp add: layout_simps)
  have O: "bit (word_of_nat (op_index oc) :: u32) k \<Longrightarrow> k < 6" for k
    using bit_word_of_nat_small [of "op_index oc" 6 k, where 'a = 32] op_index_less [of oc] by auto
  note [dest] = A B O
  show "take_bit 6 (CREATE_ABx oc a bx) = word_of_nat (op_index oc)"
    by (rule bit_word_eqI) (auto simp: CREATE_ABx_def layout_simps field_bit_simps simp del: bit_of_nat_iff)
  show "take_bit 8 (drop_bit 6 (CREATE_ABx oc a bx)) = word_of_int a"
    by (rule bit_word_eqI) (auto simp: CREATE_ABx_def layout_simps field_bit_simps)
  show "take_bit 18 (drop_bit 14 (CREATE_ABx oc a bx)) = word_of_int bx"
    by (rule bit_word_eqI) (auto simp: CREATE_ABx_def layout_simps field_bit_simps)
qed

lemma opcode_field_of_nat:
  "take_bit 6 i = word_of_nat (op_index oc) \<Longrightarrow> GET_OPCODE i = Some oc"
  using less_le_trans [OF op_index_less, of "2 ^ 32" oc]
  by (simp add: GET_OPCODE_def GETARG_take opcode_of_index_Some unsigned_of_nat take_bit_nat_eq_self)

lemma decode_CREATE_ABC:
  assumes "0 \<le> a" "a \<le> MAXARG_A" "0 \<le> b" "b \<le> MAXARG_B" "0 \<le> c" "c \<le> MAXARG_C"
  shows "GET_OPCODE (CREATE_ABC oc a b c) = Some oc"
    and "GETARG_A (CREATE_ABC oc a b c) = a"
    and "GETARG_B (CREATE_ABC oc a b c) = b"
    and "GETARG_C (CREATE_ABC oc a b c) = c"
  using assms
  by (simp_all add: opcode_field_of_nat GETARG_take CREATE_ABC_fields uint_word_of_int_u32 layout_simps)

lemma decode_CREATE_ABx:
  assumes "0 \<le> a" "a \<le> MAXARG_A" "0 \<le> bx" "bx \<le> MAXARG_Bx"
  shows "GET_OPCODE (CREATE_ABx oc a bx) = Some oc"
    and "GETARG_A (CREATE_ABx oc a bx) = a"
    and "GETARG_Bx (CREATE_ABx oc a bx) = bx"
  using assms
  by (simp_all add: opcode_field_of_nat GETARG_take CREATE_ABx_fields uint_word_of_int_u32 layout_simps)

lemma decode_CREATE_AsBx:
  assumes "0 \<le> a" "a \<le> MAXARG_A" "- MAXARG_sBx \<le> sbx" "sbx \<le> MAXARG_sBx + 1"
  shows "GET_OPCODE (CREATE_AsBx oc a sbx) = Some oc"
    and "GETARG_A (CREATE_AsBx oc a sbx) = a"
    and "GETARG_sBx (CREATE_AsBx oc a sbx) = sbx"
  using assms
  by (simp_all add: CREATE_AsBx_def GETARG_sBx_def decode_CREATE_ABx layout_simps)

text \<open>Every setter replaces one field of the word and keeps the disjoint ones.\<close>

definition set_field :: "nat \<Rightarrow> nat \<Rightarrow> instruction \<Rightarrow> instruction \<Rightarrow> instruction" where
  "set_field n p i v = (i AND NOT (MASK1 n p)) OR (push_bit p v AND MASK1 n p)"

lemma SETARG_set_field:
  "SETARG_A i a = set_field 8 6 i (word_of_int a)"
  "SETARG_B i b = set_field 9 23 i (word_of_int b)"
  "SETARG_C i c = set_field 9 14 i (word_of_int c)"
  "SETARG_sBx i s = set_field 18 14 i (word_of_int (s + MAXARG_sBx))"
  by (simp_all add: SETARG_A_def SETARG_B_def SETARG_C_def SETARG_sBx_def set_field_def layout_simps)

lemma set_field_same:
  "p + n \<le> 32 \<Longrightarrow> n < 32 \<Longrightarrow> take_bit n (drop_bit p (set_field n p i v)) = take_bit n v"
  unfolding set_field_def by (rule bit_word_eqI) (auto simp: field_bit_simps bit_mask_iff)

lemma set_field_other:
  "q + m \<le> p \<or> p + n \<le> q \<Longrightarrow>
   take_bit m (drop_bit q (set_field n p i v)) = take_bit m (drop_bit q i)"
  unfolding set_field_def
  by (rule bit_word_eqI) (auto simp: field_bit_simps bit_mask_iff dest: bit_imp_le_length)

lemma set_field_take:
  "m \<le> p \<Longrightarrow> take_bit m (set_field n p i v) = take_bit m i"
  using set_field_other [of 0 m p n i v] by simp

lemma SETARG_decode:
  "0 \<le> a \<Longrightarrow> a \<le> MAXARG_A \<Longrightarrow> GETARG_A (SETARG_A i a) = a"
  "0 \<le> b \<Longrightarrow> b \<le> MAXARG_B \<Longrightarrow> GETARG_B (SETARG_B i b) = b"
  "0 \<le> c \<Longrightarrow> c \<le> MAXARG_C \<Longrightarrow> GETARG_C (SETARG_C i c) = c"
  by (simp_all add: SETARG_set_field GETARG_take set_field_same layout_simps
      take_bit_word_of_int_small uint_word_of_int_u32)

lemma SETARG_sBx_decode:
  assumes "- MAXARG_sBx \<le> s" "s \<le> MAXARG_sBx + 1"
  shows "GETARG_sBx (SETARG_sBx i s) = s"
proof -
  have "take_bit 18 (word_of_int (s + MAXARG_sBx) :: u32) = word_of_int (s + MAXARG_sBx)"
    using assms by (intro take_bit_word_of_int_small) (simp_all add: layout_simps)
  moreover have "uint (word_of_int (s + MAXARG_sBx) :: u32) = s + MAXARG_sBx"
    using assms by (intro uint_word_of_int_u32) (simp_all add: layout_simps)
  ultimately show ?thesis
    by (simp add: SETARG_set_field GETARG_take GETARG_sBx_def set_field_same del: of_int_add)
qed

lemma SETARG_opcode [simp]:
  "GET_OPCODE (SETARG_A i a) = GET_OPCODE i"
  "GET_OPCODE (SETARG_B i b) = GET_OPCODE i"
  "GET_OPCODE (SETARG_C i c) = GET_OPCODE i"
  "GET_OPCODE (SETARG_sBx i s) = GET_OPCODE i"
  by (simp_all add: GET_OPCODE_def GETARG_take SETARG_set_field set_field_take)

lemma SETARG_keeps [simp]:
  "GETARG_B (SETARG_A i a) = GETARG_B i" "GETARG_C (SETARG_A i a) = GETARG_C i"
  "GETARG_Bx (SETARG_A i a) = GETARG_Bx i" "GETARG_sBx (SETARG_A i a) = GETARG_sBx i"
  "GETARG_A (SETARG_B i b) = GETARG_A i" "GETARG_C (SETARG_B i b) = GETARG_C i"
  "GETARG_A (SETARG_C i c) = GETARG_A i" "GETARG_B (SETARG_C i c) = GETARG_B i"
  "GETARG_A (SETARG_sBx i s) = GETARG_A i"
  by (simp_all add: GETARG_take GETARG_sBx_def SETARG_set_field set_field_other)

text \<open>Register-or-constant operands: bit 8 tells a constant index from a register.\<close>

lemma bit_BITRK: "bit BITRK n \<longleftrightarrow> n = 8"
proof -
  have "BITRK = 2 ^ 8" by (simp add: layout_simps)
  show ?thesis unfolding \<open>BITRK = 2 ^ 8\<close> bit_exp_iff by auto
qed

lemma ISK_bit: "ISK x \<longleftrightarrow> bit x 8"
  unfolding ISK_def bit_eq_iff [of "x AND BITRK" 0] by (auto simp: bit_and_iff bit_BITRK)

lemma small_int_bit:
  assumes "0 \<le> x" "x < 256" "bit (x :: int) n" shows "n < 8"
proof -
  from assms have "bit (take_bit 8 x) n" by (simp add: take_bit_int_eq_self)
  then show ?thesis by (simp add: bit_take_bit_iff)
qed

lemma RK_register: "0 \<le> r \<Longrightarrow> r \<le> MAXINDEXRK \<Longrightarrow> \<not> ISK r"
  using small_int_bit [of r 8] by (auto simp: ISK_bit layout_simps)

lemma RK_constant:
  assumes "0 \<le> k" "k \<le> MAXINDEXRK"
  shows "ISK (RKASK k)" and "INDEXK (RKASK k) = k" and "0 \<le> RKASK k" and "RKASK k \<le> MAXARG_B"
proof -
  show "ISK (RKASK k)" by (simp add: ISK_bit RKASK_def bit_or_iff bit_BITRK)
  have k8: "\<not> bit k 8" using assms small_int_bit [of k 8] by (auto simp: layout_simps)
  show "INDEXK (RKASK k) = k"
    using k8 unfolding INDEXK_def RKASK_def
    by (intro bit_eqI) (auto simp: bit_simps bit_BITRK)
  show "0 \<le> RKASK k" using assms by (simp add: RKASK_def layout_simps)
  have "RKASK k = k + BITRK"
    unfolding RKASK_def using k8
    by (intro disjunctive_add [symmetric]) (auto simp: bit_BITRK)
  then show "RKASK k \<le> MAXARG_B" using assms by (simp add: layout_simps)
qed

lemma INDEXK_bounds: "0 \<le> x \<Longrightarrow> 0 \<le> INDEXK x"
  by (simp add: INDEXK_def)

text \<open>The metadata table is in enumeration order, and every named opcode is valid.\<close>

lemma length_kOpcodeMetadata: "length kOpcodeMetadata = 38"
  by (simp add: kOpcodeMetadata_def)

lemma metadata_op_index: "md_opcode (opcodeMetadata (op_index oc)) = oc"
  by (cases oc) (simp_all add: opcodeMetadata_def isValidOpcode_def length_kOpcodeMetadata
      kOpcodeMetadata_def makeOpcodeMetadata_def)

lemma metadata_complete: "opcodeMetadataMatchesEnumOrder"
  unfolding opcodeMetadataMatchesEnumOrder_def length_kOpcodeMetadata
  by (simp add: kOpcodeMetadata_def all_opcodes_def makeOpcodeMetadata_def upt_rec)

lemma isValidOpcode_iff: "isValidOpcode n \<longleftrightarrow> (\<exists>oc. n = op_index oc)"
  unfolding isValidOpcode_def length_kOpcodeMetadata
  by (metis op_index_all_opcodes op_index_less)

lemma GET_OPCODE_valid: "GET_OPCODE i \<noteq> None \<longleftrightarrow> isValidOpcode (opcode_field i)"
  by (auto simp: GET_OPCODE_def isValidOpcode_iff opcode_of_index_Some)

section \<open>Properties\<close>

text \<open>C7. An instruction word gives back the opcode and the operands it was built from, in each of
  the three formats, for every operand within its field; the jump offset of the third format is
  stored with an excess of 131071.\<close>

theorem instruction_roundtrip:
  assumes "0 \<le> a" "a \<le> MAXARG_A" "0 \<le> b" "b \<le> MAXARG_B" "0 \<le> c" "c \<le> MAXARG_C"
    "0 \<le> bx" "bx \<le> MAXARG_Bx" "- MAXARG_sBx \<le> sbx" "sbx \<le> MAXARG_sBx + 1"
  shows "GET_OPCODE (CREATE_ABC oc a b c) = Some oc \<and> GETARG_A (CREATE_ABC oc a b c) = a \<and>
      GETARG_B (CREATE_ABC oc a b c) = b \<and> GETARG_C (CREATE_ABC oc a b c) = c \<and>
    GET_OPCODE (CREATE_ABx oc a bx) = Some oc \<and> GETARG_A (CREATE_ABx oc a bx) = a \<and>
      GETARG_Bx (CREATE_ABx oc a bx) = bx \<and>
    GET_OPCODE (CREATE_AsBx oc a sbx) = Some oc \<and> GETARG_A (CREATE_AsBx oc a sbx) = a \<and>
      GETARG_sBx (CREATE_AsBx oc a sbx) = sbx"
  using decode_CREATE_ABC [OF assms(1-6)] decode_CREATE_ABx [OF assms(1,2,7,8)]
    decode_CREATE_AsBx [OF assms(1,2,9,10)] by blast

theorem instruction_roundtrip_witness:
  "GETARG_sBx (CREATE_AsBx OP_JMP 0 (- 131071)) = - 131071 \<and> GETARG_B (CREATE_ABC OP_CALL 0 511 0) = 511"
  using instruction_roundtrip [of 0 511 0 0 "- 131071" OP_JMP]
    instruction_roundtrip [of 0 511 0 0 "- 131071" OP_CALL] by (simp add: layout_simps)

text \<open>Patching one field of an instruction stores the new operand and leaves the opcode and the
  disjoint fields as they were.\<close>

theorem instruction_patch:
  assumes "0 \<le> a" "a \<le> MAXARG_A" "0 \<le> b" "b \<le> MAXARG_B" "0 \<le> c" "c \<le> MAXARG_C"
    "- MAXARG_sBx \<le> s" "s \<le> MAXARG_sBx + 1"
  shows "GETARG_A (SETARG_A i a) = a \<and> GETARG_B (SETARG_B i b) = b \<and> GETARG_C (SETARG_C i c) = c \<and>
      GETARG_sBx (SETARG_sBx i s) = s \<and>
    GET_OPCODE (SETARG_A i a) = GET_OPCODE i \<and> GET_OPCODE (SETARG_B i b) = GET_OPCODE i \<and>
      GET_OPCODE (SETARG_C i c) = GET_OPCODE i \<and> GET_OPCODE (SETARG_sBx i s) = GET_OPCODE i \<and>
    GETARG_B (SETARG_A i a) = GETARG_B i \<and> GETARG_C (SETARG_A i a) = GETARG_C i \<and>
      GETARG_sBx (SETARG_A i a) = GETARG_sBx i \<and> GETARG_A (SETARG_B i b) = GETARG_A i \<and>
      GETARG_C (SETARG_B i b) = GETARG_C i \<and> GETARG_A (SETARG_C i c) = GETARG_A i \<and>
      GETARG_B (SETARG_C i c) = GETARG_B i \<and> GETARG_A (SETARG_sBx i s) = GETARG_A i"
  using SETARG_decode assms(1-6) SETARG_sBx_decode [OF assms(7,8)] by simp

theorem instruction_patch_witness:
  "GETARG_sBx (SETARG_sBx (CREATE_AsBx OP_JMP 3 (- 1)) 9) = 9"
  using instruction_patch [of 0 0 0 9 "CREATE_AsBx OP_JMP 3 (- 1)"] by (simp add: layout_simps)

text \<open>Decoding is total and agrees with the metadata: an instruction word has an opcode exactly
  when its opcode field is a valid index, the metadata row of every opcode is its own, its operand
  fields are always within the limits of the format, and register operands are never taken for
  constants.\<close>

theorem decoding_total:
  "(GET_OPCODE i \<noteq> None \<longleftrightarrow> isValidOpcode (opcode_field i)) \<and>
   opcodeMetadataMatchesEnumOrder \<and> md_opcode (opcodeMetadata (op_index oc)) = oc \<and>
   GETARG_A i \<in> {0..MAXARG_A} \<and> GETARG_B i \<in> {0..MAXARG_B} \<and> GETARG_C i \<in> {0..MAXARG_C} \<and>
   GETARG_Bx i \<in> {0..MAXARG_Bx} \<and> GETARG_sBx i \<in> {- MAXARG_sBx..MAXARG_sBx + 1}"
proof -
  have "GETARG_sBx i \<in> {- MAXARG_sBx..MAXARG_sBx + 1}"
    using GETARG_bounds(7,8) [of i] by (simp add: GETARG_sBx_def layout_simps)
  then show ?thesis
    using GETARG_bounds [of i] GET_OPCODE_valid metadata_complete metadata_op_index by simp
qed

text \<open>A constant index up to 255 survives the register-or-constant encoding, and a register is
  never read as a constant.\<close>

theorem rk_roundtrip:
  assumes "0 \<le> k" "k \<le> MAXINDEXRK"
  shows "ISK (RKASK k) \<and> INDEXK (RKASK k) = k \<and> RKASK k \<in> {0..MAXARG_B} \<and> \<not> ISK k"
  using RK_constant [OF assms] RK_register [OF assms] by simp

theorem rk_roundtrip_witness: "INDEXK (RKASK 255) = 255"
  using rk_roundtrip [of 255] by (simp add: layout_simps)

end
