(* ===== verification/Float64.thy ===== *)
theory Float64
  imports Prelude
begin

text \<open>
  The double-precision numbers of the language (\<open>f64\<close>, \<open>LuaNumber\<close> in
  \<^verbatim>\<open>common/types.hpp\<close>) under round-to-nearest-even.

  A finite double is kept in a unique form \<open>F_Fin neg m e\<close> of value \<open>m * 2 ^ e\<close> with \<open>m\<close> odd
  (or \<open>m = 0\<close> and \<open>e = 0\<close>, for the two zeros); \<open>f64_wf\<close> says which such triples are
  binary64 values (at most 53 significant bits, exponent at least -1074, magnitude below
  \<open>2 ^ 1024\<close>). NaN payloads are not distinguished, as no operation of the interpreter reads
  them. Every arithmetic operation computes the exact result and rounds it once. All
  definitions compute. The lemmas show that operations return binary64 values and
  that they agree with integer arithmetic on integers below \<open>2 ^ 53\<close>.
\<close>

section \<open>Representation\<close>

datatype f64 = F_NaN | F_Inf bool | F_Fin bool nat int

fun nbits :: "nat \<Rightarrow> nat" where
  "nbits n = (if n = 0 then 0 else Suc (nbits (n div 2)))"

fun strip :: "nat \<Rightarrow> int \<Rightarrow> nat \<times> int" where
  "strip m e = (if m = 0 then (0, 0) else if even m then strip (m div 2) (e + 1) else (m, e))"

declare nbits.simps [simp del] strip.simps [simp del]

definition f64_fin :: "bool \<Rightarrow> nat \<Rightarrow> int \<Rightarrow> f64" where
  "f64_fin neg m e = (case strip m e of (m', e') \<Rightarrow> F_Fin neg m' e')"

definition round_half_even :: "nat \<Rightarrow> nat \<Rightarrow> nat" where
  "round_half_even m d =
     (let q = m div 2 ^ d; r = m mod 2 ^ d
      in if 2 * r > 2 ^ d \<or> (2 * r = 2 ^ d \<and> odd q) then q + 1 else q)"

text \<open>The binary64 value nearest to \<open>m * 2 ^ e\<close>, with the given sign.\<close>

definition round_pack :: "bool \<Rightarrow> nat \<Rightarrow> int \<Rightarrow> f64" where
  "round_pack neg m e =
     (let d = max 0 (max (int (nbits m) - 53) (- 1074 - e));
          m' = round_half_even m (nat d)
      in if m' \<noteq> 0 \<and> int (nbits m') + (e + d) > 1024 then F_Inf neg else f64_fin neg m' (e + d))"

definition f64_wf :: "f64 \<Rightarrow> bool" where
  "f64_wf x = (case x of
     F_NaN \<Rightarrow> True
   | F_Inf _ \<Rightarrow> True
   | F_Fin _ m e \<Rightarrow> (m = 0 \<and> e = 0) \<or>
       (odd m \<and> nbits m \<le> 53 \<and> - 1074 \<le> e \<and> int (nbits m) + e \<le> 1024))"

definition sval :: "bool \<Rightarrow> nat \<Rightarrow> int" where
  "sval neg m = (if neg then - int m else int m)"

section \<open>Operations\<close>

definition f64_zero :: f64 where "f64_zero = F_Fin False 0 0"

definition f64_of_int :: "int \<Rightarrow> f64" where
  "f64_of_int n = round_pack (n < 0) (nat \<bar>n\<bar>) 0"

definition f64_isnan :: "f64 \<Rightarrow> bool" where
  "f64_isnan x \<longleftrightarrow> x = F_NaN"

definition f64_isfinite :: "f64 \<Rightarrow> bool" where
  "f64_isfinite x = (case x of F_Fin _ _ _ \<Rightarrow> True | _ \<Rightarrow> False)"

definition f64_neg :: "f64 \<Rightarrow> f64" where
  "f64_neg x = (case x of F_NaN \<Rightarrow> F_NaN | F_Inf s \<Rightarrow> F_Inf (\<not> s) | F_Fin s m e \<Rightarrow> F_Fin (\<not> s) m e)"

text \<open>Both mantissas over the smaller exponent.\<close>

definition align :: "bool \<Rightarrow> nat \<Rightarrow> int \<Rightarrow> bool \<Rightarrow> nat \<Rightarrow> int \<Rightarrow> int \<times> int" where
  "align s m e s' m' e' =
     (sval s m * 2 ^ nat (e - min e e'), sval s' m' * 2 ^ nat (e' - min e e'))"

fun f64_lt :: "f64 \<Rightarrow> f64 \<Rightarrow> bool" where
  "f64_lt (F_Fin s m e) (F_Fin s' m' e') = (case align s m e s' m' e' of (a, b) \<Rightarrow> a < b)"
| "f64_lt (F_Inf s) (F_Inf s') = (s \<and> \<not> s')"
| "f64_lt (F_Inf s) (F_Fin _ _ _) = s"
| "f64_lt (F_Fin _ _ _) (F_Inf s) = (\<not> s)"
| "f64_lt _ _ = False"

fun f64_eq :: "f64 \<Rightarrow> f64 \<Rightarrow> bool" where
  "f64_eq (F_Fin s m e) (F_Fin s' m' e') = (case align s m e s' m' e' of (a, b) \<Rightarrow> a = b)"
| "f64_eq (F_Inf s) (F_Inf s') = (s = s')"
| "f64_eq _ _ = False"

definition f64_le :: "f64 \<Rightarrow> f64 \<Rightarrow> bool" where
  "f64_le x y \<longleftrightarrow> f64_lt x y \<or> f64_eq x y"

fun f64_add :: "f64 \<Rightarrow> f64 \<Rightarrow> f64" where
  "f64_add (F_Fin s m e) (F_Fin s' m' e') =
     (case align s m e s' m' e' of (a, b) \<Rightarrow>
        if a + b = 0 then F_Fin (s \<and> s') 0 0
        else round_pack (a + b < 0) (nat \<bar>a + b\<bar>) (min e e'))"
| "f64_add (F_Inf s) (F_Inf s') = (if s = s' then F_Inf s else F_NaN)"
| "f64_add (F_Inf s) (F_Fin _ _ _) = F_Inf s"
| "f64_add (F_Fin _ _ _) (F_Inf s) = F_Inf s"
| "f64_add _ _ = F_NaN"

definition f64_sub :: "f64 \<Rightarrow> f64 \<Rightarrow> f64" where
  "f64_sub x y = f64_add x (f64_neg y)"

fun f64_mul :: "f64 \<Rightarrow> f64 \<Rightarrow> f64" where
  "f64_mul (F_Fin s m e) (F_Fin s' m' e') = round_pack (s \<noteq> s') (m * m') (e + e')"
| "f64_mul (F_Inf s) (F_Inf s') = F_Inf (s \<noteq> s')"
| "f64_mul (F_Inf s) (F_Fin s' m _) = (if m = 0 then F_NaN else F_Inf (s \<noteq> s'))"
| "f64_mul (F_Fin s m _) (F_Inf s') = (if m = 0 then F_NaN else F_Inf (s \<noteq> s'))"
| "f64_mul _ _ = F_NaN"

text \<open>
  Division: a quotient with at least 55 significant bits and a sticky bit for the
  remainder, rounded once.
\<close>

fun f64_div :: "f64 \<Rightarrow> f64 \<Rightarrow> f64" where
  "f64_div (F_Fin s m e) (F_Fin s' m' e') =
     (if m' = 0 then (if m = 0 then F_NaN else F_Inf (s \<noteq> s'))
      else let k = 55 + nbits m';
               q = (m * 2 ^ k) div m';
               r = (m * 2 ^ k) mod m'
           in round_pack (s \<noteq> s') (2 * q + (if r = 0 then 0 else 1)) (e - e' - int k - 1))"
| "f64_div (F_Inf s) (F_Fin s' _ _) = F_Inf (s \<noteq> s')"
| "f64_div (F_Fin s _ _) (F_Inf s') = F_Fin (s \<noteq> s') 0 0"
| "f64_div _ _ = F_NaN"

fun f64_floor :: "f64 \<Rightarrow> f64" where
  "f64_floor (F_Fin s m e) =
     (if 0 \<le> e then F_Fin s m e
      else let q = m div 2 ^ nat (- e); r = m mod 2 ^ nat (- e)
           in f64_fin s (if s \<and> r \<noteq> 0 then q + 1 else q) 0)"
| "f64_floor x = x"

fun f64_trunc :: "f64 \<Rightarrow> f64" where
  "f64_trunc (F_Fin s m e) =
     (if 0 \<le> e then F_Fin s m e else f64_fin s (m div 2 ^ nat (- e)) 0)"
| "f64_trunc x = x"

text \<open>
  The integer a C++ cast would truncate to; the cast itself is defined only when the
  result fits the target type.
\<close>

fun f64_to_int :: "f64 \<Rightarrow> int option" where
  "f64_to_int (F_Fin s m e) =
     Some (if 0 \<le> e then sval s m * 2 ^ nat e else sval s (m div 2 ^ nat (- e)))"
| "f64_to_int _ = None"

section \<open>Normal forms\<close>

lemma nbits_0 [simp]: "nbits 0 = 0"
  by (simp add: nbits.simps)

lemma nbits_pos: "0 < n \<Longrightarrow> nbits n = Suc (nbits (n div 2))"
  by (simp add: nbits.simps)

lemma nbits_eq_0 [simp]: "nbits n = 0 \<longleftrightarrow> n = 0"
  by (subst nbits.simps) simp

lemma nbits_le_iff: "nbits n \<le> k \<longleftrightarrow> n < 2 ^ k"
proof (induction n arbitrary: k rule: nbits.induct)
  case (1 n)
  show ?case
  proof (cases "n = 0")
    case False
    then show ?thesis
      using "1" by (cases k) (simp_all add: nbits_pos div_less_iff_less_mult mult.commute)
  qed simp
qed

lemma nbits_double: "0 < n \<Longrightarrow> nbits (2 * n) = Suc (nbits n)"
  by (simp add: nbits_pos [of "2 * n"])

lemma nbits_half_even: "0 < m \<Longrightarrow> even m \<Longrightarrow> nbits (m div 2) + 1 = nbits m"
  by (simp add: nbits_pos [of m])

lemma strip_0 [simp]: "strip 0 e = (0, 0)"
  by (simp add: strip.simps)

lemma strip_spec_conj:
  "0 < m \<Longrightarrow> strip m e = (m', e') \<Longrightarrow>
   odd m' \<and> e \<le> e' \<and> m = m' * 2 ^ nat (e' - e) \<and> int (nbits m') + e' = int (nbits m) + e"
proof (induction m e rule: strip.induct)
  case (1 m e)
  show ?case
  proof (cases "even m")
    case True
    with "1.prems" have half: "0 < m div 2" and s: "strip (m div 2) (e + 1) = (m', e')"
      by (auto simp: strip.simps [of m e] split: if_splits)
    from "1.IH" [OF _ True half s] "1.prems"
    have IH: "odd m'" "e + 1 \<le> e'" "m div 2 = m' * 2 ^ nat (e' - (e + 1))"
      "int (nbits m') + e' = int (nbits (m div 2)) + (e + 1)"
      by simp_all
    have "nat (e' - e) = Suc (nat (e' - (e + 1)))" using IH(2) by simp
    then have "m = m' * 2 ^ nat (e' - e)" using IH(3) True by (auto elim!: evenE)
    moreover have "int (nbits m') + e' = int (nbits m) + e"
      using IH(4) nbits_half_even [of m] True "1.prems"(1) by linarith
    ultimately show ?thesis using IH by simp
  next
    case False
    with "1.prems" show ?thesis by (auto simp: strip.simps [of m e] split: if_splits)
  qed
qed

lemma strip_spec:
  assumes "0 < m" "strip m e = (m', e')"
  shows "odd m'" "e \<le> e'" "m = m' * 2 ^ nat (e' - e)" "int (nbits m') + e' = int (nbits m) + e"
  using strip_spec_conj [OF assms] by simp_all

lemma strip_odd: "odd m \<Longrightarrow> strip m e = (m, e)"
  by (cases "m = 0") (simp_all add: strip.simps)

lemma strip_mult_pow: "0 < m \<Longrightarrow> strip (m * 2 ^ j) e = strip m (e + int j)"
  by (induction j arbitrary: e) (simp_all add: strip.simps [of "m * (2 * _)"] algebra_simps)

lemma f64_fin_0 [simp]: "f64_fin s 0 e = F_Fin s 0 0"
  by (simp add: f64_fin_def)

lemma f64_fin_mult_pow: "f64_fin s (m * 2 ^ j) e = f64_fin s m (e + int j)"
  by (cases "m = 0") (simp_all add: f64_fin_def strip_mult_pow)

lemma f64_fin_cases:
  assumes "0 < m"
  obtains m' e' where "f64_fin s m e = F_Fin s m' e'" "odd m'" "e \<le> e'" "m = m' * 2 ^ nat (e' - e)"
    "int (nbits m') + e' = int (nbits m) + e"
proof -
  obtain m' e' where st: "strip m e = (m', e')" by (cases "strip m e")
  show thesis by (rule that [of m' e']) (use strip_spec [OF assms st] st in \<open>simp_all add: f64_fin_def\<close>)
qed

section \<open>Rounding\<close>

lemma round_half_even_0 [simp]: "round_half_even m 0 = m"
  by (simp add: round_half_even_def)

lemma round_half_even_le: "round_half_even m d \<le> m div 2 ^ d + 1"
  by (simp add: round_half_even_def Let_def)

lemma round_half_even_exact: "2 ^ d dvd m \<Longrightarrow> round_half_even m d = m div 2 ^ d"
  by (simp add: round_half_even_def Let_def)

text \<open>Rounding never moves a number by more than half of the last kept place.\<close>

lemma round_half_even_close:
  "2 * \<bar>int m - int (round_half_even m d) * 2 ^ d\<bar> \<le> 2 ^ d"
proof -
  define B q r where "B = (2::nat) ^ d" and "q = m div B" and "r = m mod B"
  have B: "int B = 2 ^ d" by (simp add: B_def)
  have m: "int m = int q * int B + int r"
    unfolding q_def r_def by (simp flip: of_nat_mult of_nat_add)
  have r: "r < B" by (simp add: r_def B_def)
  have rnd: "round_half_even m d = (if 2 * r > B \<or> (2 * r = B \<and> odd q) then q + 1 else q)"
    by (simp add: round_half_even_def Let_def B_def q_def r_def)
  show ?thesis
  proof (cases "2 * r > B \<or> (2 * r = B \<and> odd q)")
    case True
    then have "int m - int (round_half_even m d) * int B = int r - int B"
      using m rnd by (simp add: algebra_simps)
    then show ?thesis using True r by (auto simp flip: B)
  next
    case False
    then have "round_half_even m d = q" using rnd by auto
    then have "int m - int (round_half_even m d) * int B = int r" using m by simp
    then show ?thesis using False by (auto simp flip: B)
  qed
qed

lemma f64_wf_fin:
  assumes "nbits m \<le> 53 \<or> m = 2 ^ 53" "- 1074 \<le> e" "int (nbits m) + e \<le> 1024"
  shows "f64_wf (f64_fin s m e)"
proof (cases "m = 0")
  case False
  then obtain m' e' where fin: "f64_fin s m e = F_Fin s m' e'" "odd m'" "e \<le> e'"
    "m = m' * 2 ^ nat (e' - e)" "int (nbits m') + e' = int (nbits m) + e"
    by (auto elim: f64_fin_cases [of m s e])
  have "nbits m' \<le> 53"
  proof (cases "nbits m \<le> 53")
    case True
    with fin(3,5) show ?thesis by linarith
  next
    case False
    with assms have m: "m = 2 ^ 53" by simp
    then have "nbits m \<le> 54" by (simp add: nbits_le_iff)
    moreover have "e' \<noteq> e"
    proof
      assume "e' = e"
      with fin(4) have "m' = m" by simp
      with m fin(2) show False by simp
    qed
    ultimately show ?thesis using fin(3,5) by linarith
  qed
  with fin assms show ?thesis by (auto simp: f64_wf_def)
qed (simp add: f64_wf_def)

lemma f64_wf_round_pack: "f64_wf (round_pack s m e)"
proof -
  define d where "d = max 0 (max (int (nbits m) - 53) (- 1074 - e))"
  define m' where "m' = round_half_even m (nat d)"
  have d: "0 \<le> d" "int (nbits m) - 53 \<le> d" "- 1074 \<le> e + d"
    by (simp_all add: d_def)
  have "m < 2 ^ (53 + nat d)"
    using d by (subst nbits_le_iff [symmetric]) linarith
  then have "m div 2 ^ nat d < 2 ^ 53"
    by (simp add: div_less_iff_less_mult power_add mult.commute)
  then have "m' < 2 ^ 53 \<or> m' = 2 ^ 53"
    using round_half_even_le [of m "nat d"] by (auto simp: m'_def)
  then have m': "nbits m' \<le> 53 \<or> m' = 2 ^ 53"
    by (simp add: nbits_le_iff)
  show ?thesis
  proof (cases "m' \<noteq> 0 \<and> int (nbits m') + (e + d) > 1024")
    case True
    then show ?thesis
      by (simp add: round_pack_def Let_def d_def [symmetric] m'_def [symmetric] f64_wf_def)
  next
    case False
    then have "round_pack s m e = f64_fin s m' (e + d)"
      unfolding round_pack_def Let_def d_def [symmetric] m'_def [symmetric] by (rule if_not_P)
    moreover have "f64_wf (f64_fin s m' (e + d))"
    proof (cases "m' = 0")
      case True
      then show ?thesis by (simp add: f64_wf_def)
    next
      case m'0: False
      with False show ?thesis using m' d(3) by (intro f64_wf_fin) auto
    qed
    ultimately show ?thesis by simp
  qed
qed

lemma round_pack_exact:
  assumes "nbits m \<le> 53" "- 1074 \<le> e" "int (nbits m) + e \<le> 1024"
  shows "round_pack s m e = f64_fin s m e"
proof -
  have "max 0 (max (int (nbits m) - 53) (- 1074 - e)) = 0" using assms by simp
  then show ?thesis using assms by (simp add: round_pack_def Let_def)
qed

section \<open>Operations return binary64 values\<close>

lemma f64_wf_simps [simp]:
  "f64_wf F_NaN" "f64_wf (F_Inf s)" "f64_wf (F_Fin s 0 0)"
  by (simp_all add: f64_wf_def)

lemma f64_wf_of_int [simp]: "f64_wf (f64_of_int n)"
  by (simp add: f64_of_int_def f64_wf_round_pack)

lemma f64_wf_neg: "f64_wf x \<Longrightarrow> f64_wf (f64_neg x)"
  by (auto simp: f64_neg_def f64_wf_def split: f64.splits)

lemma f64_wf_add: "f64_wf (f64_add x y)"
  by (induction x y rule: f64_add.induct) (auto simp: f64_wf_round_pack split: prod.splits)

lemma f64_wf_sub: "f64_wf (f64_sub x y)"
  by (simp add: f64_sub_def f64_wf_add)

lemma f64_wf_mul: "f64_wf (f64_mul x y)"
  by (induction x y rule: f64_mul.induct) (auto simp: f64_wf_round_pack)

lemma f64_wf_div: "f64_wf (f64_div x y)"
  by (induction x y rule: f64_div.induct) (auto simp: f64_wf_round_pack Let_def)

lemma f64_wf_finE:
  assumes "f64_wf (F_Fin s m e)"
  shows "m < 2 ^ 53" "- 1074 \<le> e" "m = 0 \<Longrightarrow> e = 0" "m = 0 \<or> odd m" "int (nbits m) + e \<le> 1024"
  using assms by (auto simp: f64_wf_def nbits_le_iff)

lemma f64_wf_fin_int: "m \<le> 2 ^ 53 \<Longrightarrow> f64_wf (f64_fin s m 0)"
proof -
  assume m: "m \<le> 2 ^ 53"
  then have "nbits m \<le> 54" by (simp add: nbits_le_iff)
  moreover have "nbits m \<le> 53 \<or> m = 2 ^ 53" using m by (auto simp: nbits_le_iff)
  ultimately show ?thesis by (intro f64_wf_fin) auto
qed

lemma f64_wf_floor: "f64_wf x \<Longrightarrow> f64_wf (f64_floor x)"
proof (cases x)
  case (F_Fin s m e)
  assume wf: "f64_wf x"
  show ?thesis
  proof (cases "0 \<le> e")
    case False
    have "m div 2 ^ nat (- e) < 2 ^ 53"
      by (rule le_less_trans [OF div_le_dividend]) (use f64_wf_finE(1) [of s m e] wf F_Fin in simp)
    then show ?thesis using False F_Fin by (auto simp: Let_def intro!: f64_wf_fin_int)
  qed (use wf F_Fin in simp)
qed simp_all

lemma f64_wf_trunc: "f64_wf x \<Longrightarrow> f64_wf (f64_trunc x)"
proof (cases x)
  case (F_Fin s m e)
  assume wf: "f64_wf x"
  have "m div 2 ^ nat (- e) \<le> 2 ^ 53"
    by (rule order_trans [OF div_le_dividend]) (use f64_wf_finE(1) [of s m e] wf F_Fin in simp)
  then show ?thesis using wf F_Fin by (auto intro!: f64_wf_fin_int)
qed simp_all

section \<open>Comparisons\<close>

lemma align_swap: "align s m e s' m' e' = (a, b) \<longleftrightarrow> align s' m' e' s m e = (b, a)"
  by (auto simp: align_def min.commute)

lemma f64_eq_sym: "f64_eq x y \<longleftrightarrow> f64_eq y x"
  by (cases x; cases y) (auto simp: align_def min.commute)

lemma f64_eq_refl: "f64_eq x x \<longleftrightarrow> x \<noteq> F_NaN"
  by (cases x) (simp_all add: align_def)

lemma f64_lt_irrefl [simp]: "\<not> f64_lt x x"
  by (cases x) (simp_all add: align_def)

text \<open>Aligning with a third number scales both sides by the same power of two.\<close>

definition fval :: "bool \<Rightarrow> nat \<Rightarrow> int \<Rightarrow> int \<Rightarrow> int" where
  "fval s m e E = sval s m * 2 ^ nat (e - E)"

lemma fval_shift: "E \<le> E' \<Longrightarrow> E' \<le> e \<Longrightarrow> fval s m e E = fval s m e E' * 2 ^ nat (E' - E)"
  by (simp add: fval_def mult.assoc flip: power_add nat_add_distrib)

lemma align_fval: "align s m e s' m' e' = (fval s m e (min e e'), fval s' m' e' (min e e'))"
  by (simp add: align_def fval_def)

lemma f64_lt_fval:
  "E \<le> e \<Longrightarrow> E \<le> e' \<Longrightarrow> f64_lt (F_Fin s m e) (F_Fin s' m' e') \<longleftrightarrow> fval s m e E < fval s' m' e' E"
  by (simp add: align_fval fval_shift [of E "min e e'"])

lemma f64_eq_fval:
  "E \<le> e \<Longrightarrow> E \<le> e' \<Longrightarrow> f64_eq (F_Fin s m e) (F_Fin s' m' e') \<longleftrightarrow> fval s m e E = fval s' m' e' E"
  by (simp add: align_fval fval_shift [of E "min e e'"])

lemma f64_eq_trans: "f64_eq x y \<Longrightarrow> f64_eq y z \<Longrightarrow> f64_eq x z"
proof (cases x; cases y; cases z)
  fix s m e s' m' e' s'' m'' e''
  assume xyz: "x = F_Fin s m e" "y = F_Fin s' m' e'" "z = F_Fin s'' m'' e''"
    and "f64_eq x y" "f64_eq y z"
  define E where "E = min e (min e' e'')"
  have "E \<le> e" "E \<le> e'" "E \<le> e''" by (auto simp: E_def)
  then show "f64_eq x z"
    using \<open>f64_eq x y\<close> \<open>f64_eq y z\<close> unfolding xyz by (simp add: f64_eq_fval [where E = E] del: f64_eq.simps)
qed auto

lemma f64_lt_trans: "f64_lt x y \<Longrightarrow> f64_lt y z \<Longrightarrow> f64_lt x z"
proof (cases x; cases y; cases z)
  fix s m e s' m' e' s'' m'' e''
  assume xyz: "x = F_Fin s m e" "y = F_Fin s' m' e'" "z = F_Fin s'' m'' e''"
    and "f64_lt x y" "f64_lt y z"
  define E where "E = min e (min e' e'')"
  have "E \<le> e" "E \<le> e'" "E \<le> e''" by (auto simp: E_def)
  then show "f64_lt x z"
    using \<open>f64_lt x y\<close> \<open>f64_lt y z\<close> unfolding xyz by (simp add: f64_lt_fval [where E = E] del: f64_lt.simps)
qed auto

lemma f64_trichotomy:
  "x \<noteq> F_NaN \<Longrightarrow> y \<noteq> F_NaN \<Longrightarrow> f64_lt x y \<or> f64_eq x y \<or> f64_lt y x"
  by (cases x; cases y) (auto simp: align_def min.commute)

section \<open>Integers\<close>

text \<open>\<open>x\<close> is an integer-valued double of value \<open>n\<close>.\<close>

definition is_int_f64 :: "f64 \<Rightarrow> int \<Rightarrow> bool" where
  "is_int_f64 x n \<longleftrightarrow> (\<exists>s m e. x = F_Fin s m e \<and> 0 \<le> e \<and> fval s m e 0 = n)"

lemma f64_fin_is_int:
  "is_int_f64 (f64_fin s m 0) (sval s m)"
proof (cases "m = 0")
  case False
  then obtain m' e' where fin: "f64_fin s m 0 = F_Fin s m' e'" "0 \<le> e'" "m = m' * 2 ^ nat (e' - 0)"
    by (auto elim: f64_fin_cases [of m s 0])
  then show ?thesis by (auto simp: is_int_f64_def fval_def sval_def)
qed (simp add: is_int_f64_def fval_def sval_def)

lemma f64_of_int_small: "\<bar>n\<bar> < 2 ^ 53 \<Longrightarrow> f64_of_int n = f64_fin (n < 0) (nat \<bar>n\<bar>) 0"
proof -
  assume n: "\<bar>n\<bar> < 2 ^ 53"
  have "nat \<bar>n\<bar> < 2 ^ 53"
    using n by (metis abs_ge_zero nat_less_iff of_nat_numeral of_nat_power)
  then have "nbits (nat \<bar>n\<bar>) \<le> 53" by (simp add: nbits_le_iff)
  then show ?thesis unfolding f64_of_int_def by (intro round_pack_exact) auto
qed

lemma f64_of_int_is_int: "\<bar>n\<bar> < 2 ^ 53 \<Longrightarrow> is_int_f64 (f64_of_int n) n"
  using f64_fin_is_int [of "n < 0" "nat \<bar>n\<bar>"] by (simp add: f64_of_int_small sval_def split: if_splits)

lemma is_int_f64_to_int: "is_int_f64 x n \<Longrightarrow> f64_to_int x = Some n"
  by (auto simp: is_int_f64_def fval_def)

lemma is_int_f64_floor: "is_int_f64 x n \<Longrightarrow> f64_floor x = x"
  by (auto simp: is_int_f64_def)

lemma is_int_f64_trunc: "is_int_f64 x n \<Longrightarrow> f64_trunc x = x"
  by (auto simp: is_int_f64_def)

lemma is_int_f64_lt: "is_int_f64 x a \<Longrightarrow> is_int_f64 y b \<Longrightarrow> f64_lt x y \<longleftrightarrow> a < b"
  by (auto simp: is_int_f64_def f64_lt_fval [where E = 0] simp del: f64_lt.simps)

lemma is_int_f64_eq: "is_int_f64 x a \<Longrightarrow> is_int_f64 y b \<Longrightarrow> f64_eq x y \<longleftrightarrow> a = b"
  by (auto simp: is_int_f64_def f64_eq_fval [where E = 0] simp del: f64_eq.simps)

lemma is_int_f64_le: "is_int_f64 x a \<Longrightarrow> is_int_f64 y b \<Longrightarrow> f64_le x y \<longleftrightarrow> a \<le> b"
  by (auto simp: f64_le_def is_int_f64_lt is_int_f64_eq)

lemma is_int_f64_not_nan: "is_int_f64 x n \<Longrightarrow> x \<noteq> F_NaN"
  by (auto simp: is_int_f64_def)

lemma nbits_mult_pow: "0 < k \<Longrightarrow> nbits (k * 2 ^ j) = nbits k + j"
  by (induction j) (simp_all add: nbits_pos [of "k * (2 * _)"])

lemma nat_abs_less_2_53: "\<bar>n\<bar> < 2 ^ 53 \<longleftrightarrow> nat \<bar>n\<bar> < 2 ^ 53"
  by (metis abs_ge_zero nat_less_iff of_nat_numeral of_nat_power)

lemma round_pack_of_int:
  assumes n: "\<bar>n\<bar> < 2 ^ 53" and "0 \<le> E" and k: "nat \<bar>n\<bar> = k * 2 ^ nat E" and "0 < k"
  shows "round_pack (n < 0) k E = f64_of_int n"
proof -
  have "nbits (k * 2 ^ nat E) \<le> 53"
    using n k by (simp add: nat_abs_less_2_53 nbits_le_iff)
  then have "nbits k + nat E \<le> 53"
    using \<open>0 < k\<close> by (simp only: nbits_mult_pow)
  then have "round_pack (n < 0) k E = f64_fin (n < 0) k E"
    using \<open>0 \<le> E\<close> by (intro round_pack_exact) auto
  moreover have "f64_of_int n = f64_fin (n < 0) (k * 2 ^ nat E) 0"
    using n k by (simp add: f64_of_int_small)
  ultimately show ?thesis
    using \<open>0 \<le> E\<close> f64_fin_mult_pow [of "n < 0" k "nat E" 0] by simp
qed

lemma is_int_f64_add:
  assumes x: "is_int_f64 x a" and y: "is_int_f64 y b" and n: "\<bar>a + b\<bar> < 2 ^ 53" "a + b \<noteq> 0"
  shows "f64_add x y = f64_of_int (a + b)"
proof -
  obtain s m e s' m' e' where xy: "x = F_Fin s m e" "0 \<le> e" "fval s m e 0 = a"
    "y = F_Fin s' m' e'" "0 \<le> e'" "fval s' m' e' 0 = b"
    using x y by (auto simp: is_int_f64_def)
  define E where "E = min e e'"
  define k where "k = fval s m e E + fval s' m' e' E"
  have E: "0 \<le> E" "E \<le> e" "E \<le> e'" using xy by (auto simp: E_def)
  have ab: "a + b = k * 2 ^ nat E"
    using fval_shift [of 0 E e s m] fval_shift [of 0 E e' s' m'] E xy by (simp add: k_def algebra_simps)
  have add: "f64_add x y = round_pack (k < 0) (nat \<bar>k\<bar>) E" if "k \<noteq> 0"
    using that by (simp add: xy align_fval E_def k_def)
  have "k \<noteq> 0" using ab n by auto
  have "nat \<bar>a + b\<bar> = nat \<bar>k\<bar> * 2 ^ nat E"
    by (simp add: ab abs_mult nat_mult_distrib nat_power_eq)
  moreover have "(a + b < 0) = (k < 0)"
    by (simp add: ab mult_less_0_iff)
  ultimately show ?thesis
    using add \<open>k \<noteq> 0\<close> round_pack_of_int [OF n(1) E(1), of "nat \<bar>k\<bar>"] by simp
qed

lemma f64_of_int_0: "f64_of_int 0 = F_Fin False 0 0"
  by (simp add: f64_of_int_def round_pack_exact)

lemma f64_of_int_fin: "\<bar>n\<bar> < 2 ^ 53 \<Longrightarrow> \<exists>m e. f64_of_int n = F_Fin (n < 0) m e"
  by (auto simp: f64_of_int_small f64_fin_def split: prod.splits)

lemma is_int_f64_neg: "is_int_f64 x n \<Longrightarrow> is_int_f64 (f64_neg x) (- n)"
  by (auto simp: is_int_f64_def f64_neg_def fval_def sval_def)

lemma f64_add_of_int:
  assumes "\<bar>a\<bar> < 2 ^ 53" "\<bar>b\<bar> < 2 ^ 53" "\<bar>a + b\<bar> < 2 ^ 53"
  shows "f64_add (f64_of_int a) (f64_of_int b) = f64_of_int (a + b)"
proof (cases "a + b = 0")
  case False
  then show ?thesis using assms by (intro is_int_f64_add f64_of_int_is_int)
next
  case True
  obtain m e m' e' where ab: "f64_of_int a = F_Fin (a < 0) m e" "f64_of_int b = F_Fin (b < 0) m' e'"
    using f64_of_int_fin assms(1,2) by blast
  have "is_int_f64 (f64_of_int a) a" "is_int_f64 (f64_of_int b) b"
    using assms by (simp_all only: f64_of_int_is_int)
  then have e: "0 \<le> e" "0 \<le> e'" and "fval (a < 0) m e 0 = a" "fval (b < 0) m' e' 0 = b"
    by (auto simp: is_int_f64_def ab)
  moreover define E where "E = min e e'"
  ultimately have "(fval (a < 0) m e E + fval (b < 0) m' e' E) * 2 ^ nat E = a + b"
    using fval_shift [of 0 E e "a < 0" m] fval_shift [of 0 E e' "b < 0" m']
    by (simp add: algebra_simps)
  then have "fval (a < 0) m e E + fval (b < 0) m' e' E = 0" using True by simp
  then have "f64_add (f64_of_int a) (f64_of_int b) = F_Fin (a < 0 \<and> b < 0) 0 0"
    by (simp add: ab align_fval E_def)
  then show ?thesis using True by (auto simp: f64_of_int_0)
qed

lemma f64_neg_of_int: "\<bar>n\<bar> < 2 ^ 53 \<Longrightarrow> n \<noteq> 0 \<Longrightarrow> f64_neg (f64_of_int n) = f64_of_int (- n)"
  by (cases "n < 0")
    (auto simp: f64_of_int_small f64_neg_def elim!: f64_fin_cases [of "nat \<bar>n\<bar>" _ 0]
      simp: f64_fin_def split: prod.splits)

lemma f64_sub_of_int:
  assumes "\<bar>a\<bar> < 2 ^ 53" "\<bar>b\<bar> < 2 ^ 53" "\<bar>a - b\<bar> < 2 ^ 53" "b \<noteq> 0"
  shows "f64_sub (f64_of_int a) (f64_of_int b) = f64_of_int (a - b)"
  using assms f64_add_of_int [of a "- b"] by (simp add: f64_sub_def f64_neg_of_int)

lemma f64_of_int_inject: "\<bar>a\<bar> < 2 ^ 53 \<Longrightarrow> \<bar>b\<bar> < 2 ^ 53 \<Longrightarrow> f64_of_int a = f64_of_int b \<longleftrightarrow> a = b"
  using is_int_f64_to_int [OF f64_of_int_is_int] by (metis option.inject)

end
