(* ===== verification/LuaValue.thy ===== *)
theory LuaValue
  imports Float64
begin

text \<open>
  \<^verbatim>\<open>core/value.hpp\<close>: the dynamically typed value, a tagged union in the order of the C++
  variant, its type tests, accessors and comparison; and the checked numeric conversions of
  \<^verbatim>\<open>common/number_conversion.hpp\<close>.

  A pointer to a garbage-collected object or a light userdata is its address, a \<open>nat\<close>. An
  accessor of the wrong type throws \<open>std::bad_variant_access\<close> in the code and is \<open>None\<close> here.
\<close>

section \<open>Values\<close>

type_synonym addr = nat

datatype lua_value =
    VNil
  | VBoolean bool
  | VLightUserdata addr
  | VNumber f64
  | VString addr
  | VTable addr
  | VFunction addr
  | VUserdata addr
  | VThread addr

datatype value_type =
  VT_Nil | VT_Boolean | VT_LightUserdata | VT_Number | VT_String | VT_Table | VT_Function |
  VT_Userdata | VT_Thread

primrec getType :: "lua_value \<Rightarrow> value_type" where
  "getType VNil = VT_Nil"
| "getType (VBoolean _) = VT_Boolean"
| "getType (VLightUserdata _) = VT_LightUserdata"
| "getType (VNumber _) = VT_Number"
| "getType (VString _) = VT_String"
| "getType (VTable _) = VT_Table"
| "getType (VFunction _) = VT_Function"
| "getType (VUserdata _) = VT_Userdata"
| "getType (VThread _) = VT_Thread"

definition isNil :: "lua_value \<Rightarrow> bool" where
  "isNil v \<longleftrightarrow> (case v of VNil \<Rightarrow> True | _ \<Rightarrow> False)"

definition isBoolean :: "lua_value \<Rightarrow> bool" where
  "isBoolean v \<longleftrightarrow> (case v of VBoolean _ \<Rightarrow> True | _ \<Rightarrow> False)"

definition isNumber :: "lua_value \<Rightarrow> bool" where
  "isNumber v \<longleftrightarrow> (case v of VNumber _ \<Rightarrow> True | _ \<Rightarrow> False)"

definition isLightUserdata :: "lua_value \<Rightarrow> bool" where
  "isLightUserdata v \<longleftrightarrow> (case v of VLightUserdata _ \<Rightarrow> True | _ \<Rightarrow> False)"

definition isString :: "lua_value \<Rightarrow> bool" where
  "isString v \<longleftrightarrow> (case v of VString _ \<Rightarrow> True | _ \<Rightarrow> False)"

definition isTable :: "lua_value \<Rightarrow> bool" where
  "isTable v \<longleftrightarrow> (case v of VTable _ \<Rightarrow> True | _ \<Rightarrow> False)"

definition isFunction :: "lua_value \<Rightarrow> bool" where
  "isFunction v \<longleftrightarrow> (case v of VFunction _ \<Rightarrow> True | _ \<Rightarrow> False)"

definition isUserdata :: "lua_value \<Rightarrow> bool" where
  "isUserdata v \<longleftrightarrow> (case v of VUserdata _ \<Rightarrow> True | _ \<Rightarrow> False)"

definition isThread :: "lua_value \<Rightarrow> bool" where
  "isThread v \<longleftrightarrow> (case v of VThread _ \<Rightarrow> True | _ \<Rightarrow> False)"

definition isCollectable :: "lua_value \<Rightarrow> bool" where
  "isCollectable v \<longleftrightarrow> isString v \<or> isTable v \<or> isFunction v \<or> isUserdata v \<or> isThread v"

definition asBoolean :: "lua_value \<Rightarrow> bool option" where
  "asBoolean v = (case v of VBoolean b \<Rightarrow> Some b | _ \<Rightarrow> None)"

definition asNumber :: "lua_value \<Rightarrow> f64 option" where
  "asNumber v = (case v of VNumber n \<Rightarrow> Some n | _ \<Rightarrow> None)"

text \<open>\<open>asInteger\<close> casts to \<open>i64\<close>; the cast of a value outside that type is undefined.\<close>

definition asInteger :: "lua_value \<Rightarrow> int option" where
  "asInteger v = (case v of VNumber n \<Rightarrow> f64_to_int n | _ \<Rightarrow> None)"

definition isFalse :: "lua_value \<Rightarrow> bool" where
  "isFalse v \<longleftrightarrow> isNil v \<or> (isBoolean v \<and> asBoolean v = Some False)"

definition isTrue :: "lua_value \<Rightarrow> bool" where
  "isTrue v \<longleftrightarrow> \<not> isFalse v"

text \<open>\<open>operator==\<close>: same alternative, then the alternative's own equality.\<close>

definition value_eq :: "lua_value \<Rightarrow> lua_value \<Rightarrow> bool" where
  "value_eq v w =
     (if getType v \<noteq> getType w then False
      else (case (v, w) of
          (VNumber x, VNumber y) \<Rightarrow> f64_eq x y
        | _ \<Rightarrow> v = w))"

definition value_neq :: "lua_value \<Rightarrow> lua_value \<Rightarrow> bool" where
  "value_neq v w \<longleftrightarrow> \<not> value_eq v w"

lemma is_simps [simp]:
  "isNil v \<longleftrightarrow> v = VNil"
  "isNumber VNil = False" "isNumber (VBoolean b) = False" "isNumber (VLightUserdata a) = False"
  "isNumber (VNumber x) = True" "isNumber (VString a) = False" "isNumber (VTable a) = False"
  "isNumber (VFunction a) = False" "isNumber (VUserdata a) = False" "isNumber (VThread a) = False"
  by (cases v) (simp_all add: isNil_def isNumber_def)

lemma isNumber_iff: "isNumber v \<longleftrightarrow> (\<exists>x. v = VNumber x)"
  by (cases v) simp_all

lemma asNumber_Some [simp]: "asNumber v = Some x \<longleftrightarrow> v = VNumber x"
  by (cases v) (simp_all add: asNumber_def)

lemma asNumber_VNumber [simp]: "asNumber (VNumber x) = Some x"
  by simp

lemma isFalse_iff: "isFalse v \<longleftrightarrow> v = VNil \<or> v = VBoolean False"
  by (cases v) (simp_all add: isFalse_def isBoolean_def asBoolean_def)

text \<open>
  A key that can be stored in a table: not nil and not NaN. On these \<open>operator==\<close> is an
  equivalence; NaN is the only value that differs from itself.
\<close>

definition valid_key :: "lua_value \<Rightarrow> bool" where
  "valid_key v \<longleftrightarrow> v \<noteq> VNil \<and> v \<noteq> VNumber F_NaN"

lemma value_eq_refl: "value_eq v v \<longleftrightarrow> v \<noteq> VNumber F_NaN"
  by (cases v) (auto simp: value_eq_def f64_eq_refl)

lemma value_eq_sym: "value_eq v w \<longleftrightarrow> value_eq w v"
  by (cases v; cases w) (auto simp: value_eq_def f64_eq_sym)

lemma value_eq_trans: "value_eq u v \<Longrightarrow> value_eq v w \<Longrightarrow> value_eq u w"
  by (cases u; cases v; cases w) (auto simp: value_eq_def intro: f64_eq_trans)

lemma value_eq_VNil [simp]: "value_eq VNil v \<longleftrightarrow> v = VNil" "value_eq v VNil \<longleftrightarrow> v = VNil"
  by (cases v; simp add: value_eq_def)+

lemma value_eq_valid_key: "value_eq v w \<Longrightarrow> valid_key v \<Longrightarrow> valid_key w"
  by (cases v; cases w) (auto simp: value_eq_def valid_key_def)

lemma value_eq_not_NaN: "value_eq v w \<Longrightarrow> v \<noteq> VNumber F_NaN \<and> w \<noteq> VNumber F_NaN"
  by (cases v; cases w) (auto simp: value_eq_def)

section \<open>Checked conversion to a 32-bit integer\<close>

datatype integer_conversion = IC_Truncate | IC_Exact

datatype integer_conversion_error = ICE_NotFinite | ICE_NotIntegral | ICE_OutOfRange

definition checkedLuaInteger :: "f64 \<Rightarrow> integer_conversion \<Rightarrow> (integer_conversion_error, int) result" where
  "checkedLuaInteger x mode =
     (if \<not> f64_isfinite x then Inl ICE_NotFinite
      else let truncated = f64_trunc x
           in if mode = IC_Exact \<and> \<not> f64_eq truncated x then Inl ICE_NotIntegral
              else if f64_lt truncated (f64_of_int i32_min) \<or> f64_lt (f64_of_int i32_max) truncated
                then Inl ICE_OutOfRange
              else Inr (the (f64_to_int truncated)))"

lemma f64_trunc_is_int:
  assumes "f64_isfinite x"
  obtains n where "is_int_f64 (f64_trunc x) n" "f64_to_int x = Some n"
proof (cases x)
  case (F_Fin s m e)
  show thesis
  proof (cases "0 \<le> e")
    case True
    then show thesis using F_Fin that [of "fval s m e 0"] by (auto simp: is_int_f64_def fval_def)
  next
    case False
    then show thesis
      using F_Fin that [of "sval s (m div 2 ^ nat (- e))"] f64_fin_is_int by simp
  qed
qed (use assms in \<open>simp_all add: f64_isfinite_def\<close>)

lemma i32_bounds_is_int:
  "is_int_f64 (f64_of_int i32_min) i32_min" "is_int_f64 (f64_of_int i32_max) i32_max"
  by (rule f64_of_int_is_int; simp add: i32_min_def i32_max_def)+

text \<open>
  What the conversion returns, in every case: the truncated value when it is finite, fits 32
  bits and (in exact mode) is the number itself.
\<close>

lemma f64_trunc_eq_iff:
  assumes "f64_wf x" "f64_to_int x = Some n"
  shows "f64_eq (f64_trunc x) x \<longleftrightarrow> is_int_f64 x n"
proof -
  obtain s m e where x: "x = F_Fin s m e" using assms(2) by (cases x) auto
  then have "f64_isfinite x" by (simp add: f64_isfinite_def)
  then have t: "is_int_f64 (f64_trunc x) n"
    using assms(2) by (metis f64_trunc_is_int option.inject)
  show ?thesis
  proof (cases "0 \<le> e")
    case True
    with t x have "is_int_f64 x n" by simp
    then show ?thesis using is_int_f64_trunc [of x n] is_int_f64_eq [of x n x n] by simp
  next
    case False
    obtain s' m' e' where t': "f64_trunc x = F_Fin s' m' e'" "0 \<le> e'" "fval s' m' e' 0 = n"
      using t by (auto simp: is_int_f64_def)
    have "odd m" using assms(1) x False by (auto simp: f64_wf_def)
    then have "odd (fval s m e e)" by (simp add: fval_def sval_def)
    moreover have "even (fval s' m' e' e)"
      using False t'(2) fval_shift [of e 0 e' s' m'] by simp
    ultimately have "\<not> f64_eq (f64_trunc x) x"
      using False t' x f64_eq_fval [of e e' e s' m' s m] by (auto simp del: f64_trunc.simps f64_eq.simps)
    moreover have "\<not> is_int_f64 x n" using False x by (auto simp: is_int_f64_def)
    ultimately show ?thesis by simp
  qed
qed

lemma checkedLuaInteger_cases:
  "f64_wf x \<Longrightarrow> checkedLuaInteger x mode =
     (case f64_to_int x of
        None \<Rightarrow> Inl ICE_NotFinite
      | Some n \<Rightarrow>
          if mode = IC_Exact \<and> \<not> is_int_f64 x n then Inl ICE_NotIntegral
          else if \<not> in_i32 n then Inl ICE_OutOfRange else Inr n)"
proof (cases "f64_isfinite x")
  assume wf: "f64_wf x"
  case True
  then obtain n where n: "is_int_f64 (f64_trunc x) n" "f64_to_int x = Some n"
    by (rule f64_trunc_is_int)
  have "f64_eq (f64_trunc x) x \<longleftrightarrow> is_int_f64 x n"
    using wf n(2) by (rule f64_trunc_eq_iff)
  then show ?thesis
    using True n i32_bounds_is_int is_int_f64_lt is_int_f64_to_int
    by (auto simp: checkedLuaInteger_def Let_def)
next
  case False
  then show ?thesis by (cases x) (simp_all add: checkedLuaInteger_def f64_isfinite_def)
qed

text \<open>The checked conversion of a number to a 32-bit integer: NaN and the infinities are refused
  as not finite, in exact mode a number with a fraction is refused as not integral, a value outside
  32 bits is out of range, and otherwise the result is the number truncated towards zero.\<close>

theorem checked_integer_correct:
  assumes "f64_wf x"
  shows "checkedLuaInteger x mode =
     (case f64_to_int x of
        None \<Rightarrow> Inl ICE_NotFinite
      | Some n \<Rightarrow>
          if mode = IC_Exact \<and> \<not> is_int_f64 x n then Inl ICE_NotIntegral
          else if \<not> in_i32 n then Inl ICE_OutOfRange else Inr n)"
  using assms by (rule checkedLuaInteger_cases)

theorem checked_integer_correct_witness:
  "checkedLuaInteger (F_Fin True 5 (- 1)) IC_Truncate = Inr (- 2) \<and>
   checkedLuaInteger (F_Fin True 5 (- 1)) IC_Exact = Inl ICE_NotIntegral"
proof -
  have wf: "f64_wf (F_Fin True 5 (- 1))" by (simp add: f64_wf_def nbits.simps)
  show ?thesis
    unfolding checked_integer_correct [OF wf]
    by (simp add: sval_def is_int_f64_def i32_min_def i32_max_def)
qed

end
