(* ===== verification/Policies.thy ===== *)
theory Policies
  imports Prelude
begin

text \<open>
  The context-owned policies of \<^verbatim>\<open>src/src/runtime/\<close>: resource limits, the execution budget with
  its deadline and cancellation flag, the compilation budget, the sandbox profile and the
  chunk-reader limits. The steady clock is an argument \<open>now\<close> of every operation that reads
  it. A \<open>noexcept\<close> method that updates the object returns the updated record; a method that
  may throw returns the updated record together with the error, because the counters it
  changed before throwing stay changed.
\<close>

section \<open>Resource limits\<close>

definition DefaultMaxBytes :: nat where
  "DefaultMaxBytes = 64 * 1024 * 1024"

record resource_policy =
  rp_maxStringBytes :: nat
  rp_maxOutputBytes :: nat
  rp_maxSourceBytes :: nat
  rp_maxProtoBytes :: nat
  rp_maxTableArraySlots :: nat
  rp_maxTableHashEntries :: nat
  rp_maxStackSlots :: nat
  rp_maxReturnValues :: nat
  rp_maxSortElements :: nat
  rp_maxSortComparisons :: nat
  rp_maxPatternSteps :: nat
  rp_maxReaderPieces :: nat

definition default_resource_policy :: resource_policy where
  "default_resource_policy =
     \<lparr>rp_maxStringBytes = DefaultMaxBytes, rp_maxOutputBytes = DefaultMaxBytes,
      rp_maxSourceBytes = DefaultMaxBytes, rp_maxProtoBytes = DefaultMaxBytes,
      rp_maxTableArraySlots = 1000000, rp_maxTableHashEntries = 1000000,
      rp_maxStackSlots = 1000000, rp_maxReturnValues = 1000000,
      rp_maxSortElements = 1000000, rp_maxSortComparisons = 32000000,
      rp_maxPatternSteps = 16000000, rp_maxReaderPieces = 1000000\<rparr>"

record chunk_reader_limits =
  cr_maxInputBytes :: nat
  cr_maxProtoDepth :: nat
  cr_maxProtoCount :: nat
  cr_maxInstructionCount :: nat
  cr_maxConstantCount :: nat
  cr_maxStringBytes :: nat
  cr_maxDebugEntries :: nat

definition default_chunk_reader_limits :: chunk_reader_limits where
  "default_chunk_reader_limits =
     \<lparr>cr_maxInputBytes = DefaultMaxBytes, cr_maxProtoDepth = 200, cr_maxProtoCount = 10000,
      cr_maxInstructionCount = 1000000, cr_maxConstantCount = 1000000,
      cr_maxStringBytes = DefaultMaxBytes, cr_maxDebugEntries = 1000000\<rparr>"

definition chunk_limits_fromResourcePolicy :: "resource_policy \<Rightarrow> chunk_reader_limits" where
  "chunk_limits_fromResourcePolicy p =
     default_chunk_reader_limits
       \<lparr>cr_maxInputBytes := rp_maxProtoBytes p, cr_maxStringBytes := rp_maxStringBytes p\<rparr>"

section \<open>Execution policy\<close>

datatype stop_reason =
  SR_None | SR_InstructionBudgetExceeded | SR_NativeWorkBudgetExceeded | SR_DeadlineExceeded |
  SR_Cancelled

type_synonym time_point = int

text \<open>The largest value of the clock's 64-bit representation: no deadline.\<close>

definition time_point_max :: time_point where
  "time_point_max = 9223372036854775807"

definition Unlimited :: u64 where
  "Unlimited = - 1"

record exec_limits =
  el_instructionBudget :: u64
  el_deadline :: time_point
  el_finalizerBudgetPerDrain :: u64
  el_nativeWorkBudget :: u64

definition default_exec_limits :: exec_limits where
  "default_exec_limits =
     \<lparr>el_instructionBudget = Unlimited, el_deadline = time_point_max,
      el_finalizerBudgetPerDrain = Unlimited, el_nativeWorkBudget = Unlimited\<rparr>"

record exec_policy =
  xp_cancelRequested :: bool
  xp_initialInstructions :: u64
  xp_remainingInstructions :: u64
  xp_initialNativeWork :: u64
  xp_remainingNativeWork :: u64
  xp_deadline :: time_point
  xp_finalizerBudgetPerDrain :: u64
  xp_lastStopReason :: stop_reason

definition new_exec_policy :: exec_policy where
  "new_exec_policy =
     \<lparr>xp_cancelRequested = False, xp_initialInstructions = Unlimited,
      xp_remainingInstructions = Unlimited, xp_initialNativeWork = Unlimited,
      xp_remainingNativeWork = Unlimited, xp_deadline = time_point_max,
      xp_finalizerBudgetPerDrain = Unlimited, xp_lastStopReason = SR_None\<rparr>"

definition xp_configure :: "exec_limits \<Rightarrow> exec_policy \<Rightarrow> exec_policy" where
  "xp_configure limits p =
     p\<lparr>xp_initialInstructions := el_instructionBudget limits,
       xp_remainingInstructions := el_instructionBudget limits,
       xp_deadline := el_deadline limits,
       xp_finalizerBudgetPerDrain := el_finalizerBudgetPerDrain limits,
       xp_initialNativeWork := el_nativeWorkBudget limits,
       xp_remainingNativeWork := el_nativeWorkBudget limits,
       xp_cancelRequested := False,
       xp_lastStopReason := SR_None\<rparr>"

definition xp_reset :: "exec_policy \<Rightarrow> exec_policy" where
  "xp_reset p = xp_configure default_exec_limits p"

definition xp_clearCancellation :: "exec_policy \<Rightarrow> exec_policy" where
  "xp_clearCancellation p = p\<lparr>xp_cancelRequested := False\<rparr>"

text \<open>
  A cancellation handle keeps a weak reference to the shared flag: with the policy gone
  (\<open>None\<close>) a request does nothing.
\<close>

definition requestCancellation :: "exec_policy option \<Rightarrow> exec_policy option" where
  "requestCancellation st = map_option (\<lambda>p. p\<lparr>xp_cancelRequested := True\<rparr>) st"

definition xp_consumedInstructions :: "exec_policy \<Rightarrow> u64" where
  "xp_consumedInstructions p =
     (if xp_initialInstructions p = Unlimited then 0
      else xp_initialInstructions p - xp_remainingInstructions p)"

definition xp_consumedNativeWork :: "exec_policy \<Rightarrow> u64" where
  "xp_consumedNativeWork p =
     (if xp_initialNativeWork p = Unlimited then 0
      else xp_initialNativeWork p - xp_remainingNativeWork p)"

definition xp_hasInstructionBudget :: "exec_policy \<Rightarrow> bool" where
  "xp_hasInstructionBudget p \<longleftrightarrow> xp_remainingInstructions p \<noteq> Unlimited"

definition xp_hasDeadline :: "exec_policy \<Rightarrow> bool" where
  "xp_hasDeadline p \<longleftrightarrow> xp_deadline p \<noteq> time_point_max"

definition xp_hasFinalizerBudget :: "exec_policy \<Rightarrow> bool" where
  "xp_hasFinalizerBudget p \<longleftrightarrow> xp_finalizerBudgetPerDrain p \<noteq> Unlimited"

definition xp_pollStop :: "time_point \<Rightarrow> exec_policy \<Rightarrow> stop_reason \<times> exec_policy" where
  "xp_pollStop now p =
     (if xp_cancelRequested p then (SR_Cancelled, p\<lparr>xp_lastStopReason := SR_Cancelled\<rparr>)
      else if xp_deadline p \<noteq> time_point_max \<and> xp_deadline p \<le> now
        then (SR_DeadlineExceeded, p\<lparr>xp_lastStopReason := SR_DeadlineExceeded\<rparr>)
      else (SR_None, p))"

definition xp_consumeInstruction :: "time_point \<Rightarrow> exec_policy \<Rightarrow> stop_reason \<times> exec_policy" where
  "xp_consumeInstruction now p =
     (case xp_pollStop now p of (stop, p') \<Rightarrow>
        if stop \<noteq> SR_None then (stop, p')
        else if xp_remainingInstructions p' \<noteq> Unlimited then
          (if xp_remainingInstructions p' = 0
           then (SR_InstructionBudgetExceeded,
                 p'\<lparr>xp_lastStopReason := SR_InstructionBudgetExceeded\<rparr>)
           else (SR_None, p'\<lparr>xp_remainingInstructions := xp_remainingInstructions p' - 1\<rparr>))
        else (SR_None, p'))"

definition xp_consumeNativeWork ::
  "time_point \<Rightarrow> u64 \<Rightarrow> exec_policy \<Rightarrow> stop_reason \<times> exec_policy" where
  "xp_consumeNativeWork now units p =
     (case xp_pollStop now p of (stop, p') \<Rightarrow>
        if stop \<noteq> SR_None then (stop, p')
        else if xp_remainingNativeWork p' \<noteq> Unlimited then
          (if xp_remainingNativeWork p' < units
           then (SR_NativeWorkBudgetExceeded,
                 p'\<lparr>xp_remainingNativeWork := 0, xp_lastStopReason := SR_NativeWorkBudgetExceeded\<rparr>)
           else (SR_None, p'\<lparr>xp_remainingNativeWork := xp_remainingNativeWork p' - units\<rparr>))
        else (SR_None, p'))"

text \<open>
  The virtual machine asks before every instruction; \<open>run_instructions\<close> asks once per clock
  reading of a list and stops at the first refusal, with the number of instructions granted.
\<close>

fun run_instructions :: "time_point list \<Rightarrow> exec_policy \<Rightarrow> nat \<times> stop_reason \<times> exec_policy" where
  "run_instructions [] p = (0, SR_None, p)"
| "run_instructions (now # nows) p =
     (case xp_consumeInstruction now p of (stop, p') \<Rightarrow>
        if stop = SR_None
        then (case run_instructions nows p' of (n, r, p'') \<Rightarrow> (Suc n, r, p''))
        else (0, stop, p'))"

section \<open>Compilation budget\<close>

record compilation_policy =
  cp_maxSourceBytes :: nat
  cp_maxReaderPieces :: nat
  cp_maxTokens :: nat
  cp_maxAstNodes :: nat
  cp_maxFunctions :: nat
  cp_maxConstants :: nat
  cp_maxInstructions :: nat
  cp_maxStringBytes :: nat
  cp_maxNesting :: nat
  cp_deadline :: "time_point option"

definition default_compilation_policy :: compilation_policy where
  "default_compilation_policy =
     \<lparr>cp_maxSourceBytes = DefaultMaxBytes, cp_maxReaderPieces = 1000000, cp_maxTokens = 1000000,
      cp_maxAstNodes = 1000000, cp_maxFunctions = 10000, cp_maxConstants = 1000000,
      cp_maxInstructions = 1000000, cp_maxStringBytes = DefaultMaxBytes, cp_maxNesting = 200,
      cp_deadline = None\<rparr>"

record compilation_budget =
  cb_policy :: compilation_policy
  cb_execution :: "exec_policy option"
  cb_tokens :: nat
  cb_astNodes :: nat
  cb_functions :: nat
  cb_constants :: nat
  cb_instructions :: nat
  cb_stringBytes :: nat

definition new_compilation_budget ::
  "compilation_policy \<Rightarrow> exec_policy option \<Rightarrow> compilation_budget" where
  "new_compilation_budget pol ex =
     \<lparr>cb_policy = pol, cb_execution = ex, cb_tokens = 0, cb_astNodes = 0, cb_functions = 0,
      cb_constants = 0, cb_instructions = 0, cb_stringBytes = 0\<rparr>"

datatype compilation_error =
  CE_Deadline | CE_SourceBytes | CE_Tokens | CE_AstNodes | CE_Functions | CE_Constants |
  CE_Instructions | CE_StringBytes | CE_Interrupted

definition cb_pollDeadline :: "time_point \<Rightarrow> compilation_budget \<Rightarrow> (compilation_error, unit) result" where
  "cb_pollDeadline now b =
     (case cp_deadline (cb_policy b) of
        None \<Rightarrow> Inr ()
      | Some d \<Rightarrow> if d \<le> now then Inl CE_Deadline else Inr ())"

definition cb_consumeNativeWork ::
  "time_point \<Rightarrow> nat \<Rightarrow> compilation_budget \<Rightarrow> compilation_error option \<times> compilation_budget" where
  "cb_consumeNativeWork now count b =
     (case cb_execution b of
        None \<Rightarrow> (None, b)
      | Some ex \<Rightarrow>
          (case xp_consumeNativeWork now (of_nat count) ex of (stop, ex') \<Rightarrow>
             (if stop \<noteq> SR_None then Some CE_Interrupted else None, b\<lparr>cb_execution := Some ex'\<rparr>)))"

definition cb_checkSource ::
  "time_point \<Rightarrow> nat \<Rightarrow> compilation_budget \<Rightarrow> compilation_error option \<times> compilation_budget" where
  "cb_checkSource now bytes b =
     (case cb_pollDeadline now b of
        Inl e \<Rightarrow> (Some e, b)
      | Inr _ \<Rightarrow>
          if cp_maxSourceBytes (cb_policy b) < bytes then (Some CE_SourceBytes, b)
          else cb_consumeNativeWork now bytes b)"

text \<open>
  The common \<open>consume\<close>: \<open>get_total\<close> and \<open>set_total\<close> are the counter passed by reference.
\<close>

definition cb_consume ::
  "time_point \<Rightarrow> nat \<Rightarrow> (compilation_budget \<Rightarrow> nat) \<Rightarrow>
   (nat \<Rightarrow> compilation_budget \<Rightarrow> compilation_budget) \<Rightarrow> nat \<Rightarrow> compilation_error \<Rightarrow>
   compilation_budget \<Rightarrow> compilation_error option \<times> compilation_budget" where
  "cb_consume now count get_total set_total limit message b =
     (case cb_pollDeadline now b of
        Inl e \<Rightarrow> (Some e, b)
      | Inr _ \<Rightarrow>
          if limit < count \<or> limit - count < get_total b then (Some message, b)
          else cb_consumeNativeWork now count (set_total (get_total b + count) b))"

definition cb_consumeToken ::
  "time_point \<Rightarrow> nat \<Rightarrow> compilation_budget \<Rightarrow> compilation_error option \<times> compilation_budget" where
  "cb_consumeToken now count b =
     cb_consume now count cb_tokens (\<lambda>n b. b\<lparr>cb_tokens := n\<rparr>) (cp_maxTokens (cb_policy b)) CE_Tokens b"

definition cb_consumeAstNode ::
  "time_point \<Rightarrow> nat \<Rightarrow> compilation_budget \<Rightarrow> compilation_error option \<times> compilation_budget" where
  "cb_consumeAstNode now count b =
     cb_consume now count cb_astNodes (\<lambda>n b. b\<lparr>cb_astNodes := n\<rparr>) (cp_maxAstNodes (cb_policy b))
       CE_AstNodes b"

definition cb_consumeFunction ::
  "time_point \<Rightarrow> nat \<Rightarrow> compilation_budget \<Rightarrow> compilation_error option \<times> compilation_budget" where
  "cb_consumeFunction now count b =
     cb_consume now count cb_functions (\<lambda>n b. b\<lparr>cb_functions := n\<rparr>) (cp_maxFunctions (cb_policy b))
       CE_Functions b"

definition cb_consumeConstant ::
  "time_point \<Rightarrow> nat \<Rightarrow> compilation_budget \<Rightarrow> compilation_error option \<times> compilation_budget" where
  "cb_consumeConstant now count b =
     cb_consume now count cb_constants (\<lambda>n b. b\<lparr>cb_constants := n\<rparr>) (cp_maxConstants (cb_policy b))
       CE_Constants b"

definition cb_consumeInstruction ::
  "time_point \<Rightarrow> nat \<Rightarrow> compilation_budget \<Rightarrow> compilation_error option \<times> compilation_budget" where
  "cb_consumeInstruction now count b =
     cb_consume now count cb_instructions (\<lambda>n b. b\<lparr>cb_instructions := n\<rparr>)
       (cp_maxInstructions (cb_policy b)) CE_Instructions b"

definition cb_consumeStringBytes ::
  "time_point \<Rightarrow> nat \<Rightarrow> compilation_budget \<Rightarrow> compilation_error option \<times> compilation_budget" where
  "cb_consumeStringBytes now count b =
     cb_consume now count cb_stringBytes (\<lambda>n b. b\<lparr>cb_stringBytes := n\<rparr>)
       (cp_maxStringBytes (cb_policy b)) CE_StringBytes b"

section \<open>Sandbox policy\<close>

datatype sandbox_capability =
  SC_Filesystem | SC_Process | SC_NativeModules | SC_RuntimeCompilation | SC_BinaryChunks |
  SC_GCControl

type_synonym library_set = "16 word"

definition LS_None :: library_set where "LS_None = 0"
definition LS_Base :: library_set where "LS_Base = push_bit 0 1"
definition LS_Math :: library_set where "LS_Math = push_bit 1 1"
definition LS_IO :: library_set where "LS_IO = push_bit 2 1"
definition LS_String :: library_set where "LS_String = push_bit 3 1"
definition LS_Table :: library_set where "LS_Table = push_bit 4 1"
definition LS_OS :: library_set where "LS_OS = push_bit 5 1"
definition LS_Coroutine :: library_set where "LS_Coroutine = push_bit 6 1"
definition LS_Debug :: library_set where "LS_Debug = push_bit 7 1"
definition LS_Package :: library_set where "LS_Package = push_bit 8 1"
definition LS_All :: library_set where "LS_All = push_bit 9 1 - 1"

definition ls_contains :: "library_set \<Rightarrow> library_set \<Rightarrow> bool" where
  "ls_contains libs m \<longleftrightarrow> libs AND m \<noteq> 0"

record sandbox_profile =
  sp_standardLibraries :: library_set
  sp_filesystem :: bool
  sp_process :: bool
  sp_nativeModules :: bool
  sp_runtimeCompilation :: bool
  sp_binaryChunks :: bool
  sp_gcControl :: bool

definition sandbox_unrestricted :: sandbox_profile where
  "sandbox_unrestricted =
     \<lparr>sp_standardLibraries = LS_All, sp_filesystem = True, sp_process = True,
      sp_nativeModules = True, sp_runtimeCompilation = True, sp_binaryChunks = True,
      sp_gcControl = True\<rparr>"

definition sandbox_gameServer :: sandbox_profile where
  "sandbox_gameServer =
     \<lparr>sp_standardLibraries =
        LS_Base OR LS_Math OR LS_String OR LS_Table OR LS_Coroutine OR LS_Package,
      sp_filesystem = False, sp_process = False, sp_nativeModules = False,
      sp_runtimeCompilation = False, sp_binaryChunks = False, sp_gcControl = False\<rparr>"

record sandbox_policy =
  sbp_profile :: sandbox_profile

definition new_sandbox_policy :: sandbox_policy where
  "new_sandbox_policy = \<lparr>sbp_profile = sandbox_unrestricted\<rparr>"

definition sandbox_configure :: "sandbox_profile \<Rightarrow> sandbox_policy \<Rightarrow> sandbox_policy" where
  "sandbox_configure prof p = p\<lparr>sbp_profile := prof\<rparr>"

definition sandbox_reset :: "sandbox_policy \<Rightarrow> sandbox_policy" where
  "sandbox_reset p = p\<lparr>sbp_profile := sandbox_unrestricted\<rparr>"

definition librarySetForId :: "string \<Rightarrow> library_set" where
  "librarySetForId name =
     (if name = ''base'' then LS_Base
      else if name = ''math'' then LS_Math
      else if name = ''io'' then LS_IO
      else if name = ''string'' then LS_String
      else if name = ''table'' then LS_Table
      else if name = ''os'' then LS_OS
      else if name = ''coroutine'' then LS_Coroutine
      else if name = ''debug'' then LS_Debug
      else if name = ''package'' then LS_Package
      else LS_None)"

definition allowsStandardLibrary :: "sandbox_policy \<Rightarrow> string \<Rightarrow> bool" where
  "allowsStandardLibrary p name \<longleftrightarrow>
     ls_contains (sp_standardLibraries (sbp_profile p)) (librarySetForId name)"

fun sandbox_allows :: "sandbox_policy \<Rightarrow> sandbox_capability \<Rightarrow> bool" where
  "sandbox_allows p SC_Filesystem = sp_filesystem (sbp_profile p)"
| "sandbox_allows p SC_Process = sp_process (sbp_profile p)"
| "sandbox_allows p SC_NativeModules = sp_nativeModules (sbp_profile p)"
| "sandbox_allows p SC_RuntimeCompilation = sp_runtimeCompilation (sbp_profile p)"
| "sandbox_allows p SC_BinaryChunks = sp_binaryChunks (sbp_profile p)"
| "sandbox_allows p SC_GCControl = sp_gcControl (sbp_profile p)"

fun sandbox_deniedMessage :: "sandbox_capability \<Rightarrow> string" where
  "sandbox_deniedMessage SC_Filesystem = ''sandbox: filesystem access denied''"
| "sandbox_deniedMessage SC_Process = ''sandbox: process access denied''"
| "sandbox_deniedMessage SC_NativeModules = ''sandbox: native module access denied''"
| "sandbox_deniedMessage SC_RuntimeCompilation = ''sandbox: runtime compilation denied''"
| "sandbox_deniedMessage SC_BinaryChunks = ''sandbox: binary chunk loading denied''"
| "sandbox_deniedMessage SC_GCControl = ''sandbox: GC control denied''"

section \<open>Execution budget: facts\<close>

lemma xp_pollStop_cases:
  "xp_pollStop now p = (r, p') \<Longrightarrow>
   (r = SR_None \<and> p' = p) \<or> (r \<noteq> SR_None \<and> p' = p\<lparr>xp_lastStopReason := r\<rparr>)"
  by (auto simp: xp_pollStop_def split: if_splits)

text \<open>The window is open: not cancelled, and every clock reading is before the deadline.\<close>

definition xp_open :: "exec_policy \<Rightarrow> time_point \<Rightarrow> bool" where
  "xp_open p now \<longleftrightarrow> \<not> xp_cancelRequested p \<and> (xp_deadline p = time_point_max \<or> now < xp_deadline p)"

lemma xp_pollStop_None: "fst (xp_pollStop now p) = SR_None \<longleftrightarrow> xp_open p now"
  by (auto simp: xp_pollStop_def xp_open_def)

lemma xp_pollStop_open: "xp_open p now \<Longrightarrow> xp_pollStop now p = (SR_None, p)"
  by (auto simp: xp_pollStop_def xp_open_def)

lemma xp_open_remaining [simp]:
  "xp_open (p\<lparr>xp_remainingInstructions := n\<rparr>) now = xp_open p now"
  "xp_open (p\<lparr>xp_remainingNativeWork := n\<rparr>) now = xp_open p now"
  by (simp_all add: xp_open_def)

lemma xp_consumeInstruction_open:
  "xp_open p now \<Longrightarrow> xp_remainingInstructions p \<noteq> Unlimited \<Longrightarrow> xp_remainingInstructions p \<noteq> 0 \<Longrightarrow>
   xp_consumeInstruction now p =
     (SR_None, p\<lparr>xp_remainingInstructions := xp_remainingInstructions p - 1\<rparr>)"
  by (simp add: xp_consumeInstruction_def xp_pollStop_open)

lemma xp_consumeInstruction_empty:
  "xp_open p now \<Longrightarrow> xp_remainingInstructions p = 0 \<Longrightarrow>
   xp_consumeInstruction now p =
     (SR_InstructionBudgetExceeded, p\<lparr>xp_lastStopReason := SR_InstructionBudgetExceeded\<rparr>)"
  by (simp add: xp_consumeInstruction_def xp_pollStop_open Unlimited_def)

lemma unat_dec: "(w :: u64) \<noteq> 0 \<Longrightarrow> unat (w - 1) = unat w - 1"
  by (metis unat_minus_one)

lemma dec_not_Unlimited: "w \<noteq> 0 \<Longrightarrow> w \<noteq> Unlimited \<Longrightarrow> w - 1 \<noteq> Unlimited"
  by (auto simp: Unlimited_def)

lemma run_instructions_granted:
  assumes "\<And>now. now \<in> set nows \<Longrightarrow> xp_open p now"
    and "xp_remainingInstructions p \<noteq> Unlimited"
  shows "fst (run_instructions nows p) = min (length nows) (unat (xp_remainingInstructions p))"
  using assms
proof (induction nows arbitrary: p)
  case (Cons now nows)
  show ?case
  proof (cases "xp_remainingInstructions p = 0")
    case True
    then show ?thesis using Cons.prems by (simp add: xp_consumeInstruction_empty)
  next
    case False
    let ?p = "p\<lparr>xp_remainingInstructions := xp_remainingInstructions p - 1\<rparr>"
    obtain n r q where run: "run_instructions nows ?p = (n, r, q)"
      by (cases "run_instructions nows ?p")
    have "fst (run_instructions nows ?p) = min (length nows) (unat (xp_remainingInstructions p) - 1)"
      using Cons False by (subst Cons.IH) (auto simp: unat_dec dec_not_Unlimited)
    then have "n = min (length nows) (unat (xp_remainingInstructions p) - 1)" using run by simp
    moreover have "0 < unat (xp_remainingInstructions p)"
      using False by (simp add: unat_gt_0)
    moreover have "fst (run_instructions (now # nows) p) = Suc n"
      using Cons.prems False run by (simp add: xp_consumeInstruction_open)
    ultimately show ?thesis by simp
  qed
qed simp

section \<open>Compilation budget: one contract for the six counters\<close>

text \<open>A sequence of charges, stopped at the first refusal, as the compiler's phases make it.\<close>

fun charge_all :: "(time_point \<Rightarrow> nat \<Rightarrow> 'b \<Rightarrow> 'e option \<times> 'b) \<Rightarrow> (time_point \<times> nat) list \<Rightarrow> 'b \<Rightarrow>
    'e option \<times> 'b" where
  "charge_all charge [] b = (None, b)"
| "charge_all charge ((now, n) # ns) b =
     (case charge now n b of
        (Some e, b') \<Rightarrow> (Some e, b')
      | (None, b') \<Rightarrow> charge_all charge ns b')"

locale budget_counter =
  fixes charge :: "time_point \<Rightarrow> nat \<Rightarrow> 'b \<Rightarrow> 'e option \<times> 'b"
    and total_of :: "'b \<Rightarrow> nat"
    and limit_of :: "'b \<Rightarrow> nat"
    and refusal :: 'e
  assumes limit_kept: "charge now n b = (r, b') \<Longrightarrow> limit_of b' = limit_of b"
    and granted: "charge now n b = (None, b') \<Longrightarrow> total_of b' = total_of b + n \<and> total_of b + n \<le> limit_of b"
    and refused: "charge now n b = (Some refusal, b') \<Longrightarrow> b' = b \<and> limit_of b < total_of b + n"
    and stopped: "charge now n b = (Some e, b') \<Longrightarrow> e \<noteq> refusal \<Longrightarrow>
      total_of b' = total_of b \<or> total_of b' = total_of b + n \<and> total_of b' \<le> limit_of b"
begin

lemma all_limit: "charge_all charge ns b = (r, b') \<Longrightarrow> limit_of b' = limit_of b"
  by (induction ns arbitrary: b) (auto split: prod.splits option.splits dest: limit_kept)

lemma all_granted:
  "charge_all charge ns b = (None, b') \<Longrightarrow> total_of b' = total_of b + sum_list (map snd ns)"
  by (induction ns arbitrary: b) (auto split: prod.splits option.splits dest: granted)

lemma all_within:
  "total_of b \<le> limit_of b \<Longrightarrow> charge_all charge ns b = (r, b') \<Longrightarrow> total_of b' \<le> limit_of b"
proof (induction ns arbitrary: b)
  case (Cons p ns)
  obtain now n where p: "p = (now, n)" by (cases p)
  obtain r1 b1 where c: "charge now n b = (r1, b1)" by (cases "charge now n b")
  show ?case
  proof (cases r1)
    case None
    then have "total_of b1 \<le> limit_of b1" "limit_of b1 = limit_of b"
      using granted limit_kept c by auto
    then show ?thesis using Cons.IH [of b1] Cons.prems(2) c None p by simp
  next
    case (Some e)
    then have "b' = b1" using Cons.prems(2) c p by simp
    then show ?thesis
      using Cons.prems(1) refused stopped c Some by (cases "e = refusal") fastforce+
  qed
qed simp

text \<open>The refusal comes exactly when the next charge would pass the limit.\<close>

lemma all_refused:
  "charge_all charge ns b = (Some refusal, b') \<Longrightarrow>
   \<exists>ms now n rest. ns = ms @ (now, n) # rest \<and> charge_all charge ms b = (None, b') \<and>
     limit_of b < total_of b + sum_list (map snd ms) + n"
proof (induction ns arbitrary: b)
  case (Cons p ns)
  obtain now n where p: "p = (now, n)" by (cases p)
  obtain r1 b1 where c: "charge now n b = (r1, b1)" by (cases "charge now n b")
  show ?case
  proof (cases r1)
    case None
    then obtain ms now' n' rest where ms: "ns = ms @ (now', n') # rest"
      "charge_all charge ms b1 = (None, b')" "limit_of b1 < total_of b1 + sum_list (map snd ms) + n'"
      using Cons.IH [of b1] Cons.prems c p by auto
    then show ?thesis
      using granted [OF c [unfolded None]] limit_kept [OF c] p c None
      by (intro exI [of _ "(now, n) # ms"] exI [of _ now'] exI [of _ n'] exI [of _ rest]) simp
  next
    case (Some e)
    then have "e = refusal" "b' = b1" using Cons.prems c p by auto
    then show ?thesis
      using refused c Some p by (intro exI [of _ "[]"] exI [of _ now] exI [of _ n] exI [of _ ns]) auto
  qed
qed simp

end

text \<open>The six counters of \<open>CompilationBudget\<close> provide it.\<close>

lemma cb_consumeNativeWork_keeps:
  assumes "cb_consumeNativeWork now n b = (r, b')"
  shows "b' = b\<lparr>cb_execution := cb_execution b'\<rparr>" "r = None \<or> r = Some CE_Interrupted"
  using assms by (auto simp: cb_consumeNativeWork_def split: option.splits prod.splits if_splits)

lemma cb_pollDeadline_error: "cb_pollDeadline now b = Inl e \<Longrightarrow> e = CE_Deadline"
  by (auto simp: cb_pollDeadline_def split: option.splits if_splits)

lemma cb_consume_cases:
  assumes "cb_consume now n g s lim msg b = (r, b')"
  obtains (deadline) "r = Some CE_Deadline" "b' = b"
    | (over) "r = Some msg" "b' = b" "lim < g b + n"
    | (charged) ex where "r = None \<or> r = Some CE_Interrupted" "g b + n \<le> lim"
        "b' = (s (g b + n) b)\<lparr>cb_execution := ex\<rparr>"
proof (cases "cb_pollDeadline now b")
  case (Inl e)
  then show thesis using deadline assms cb_pollDeadline_error [OF Inl] by (simp add: cb_consume_def)
next
  case (Inr u)
  show thesis
  proof (cases "lim < n \<or> lim - n < g b")
    case True
    then show thesis using over assms Inr by (auto simp: cb_consume_def)
  next
    case False
    then have "cb_consumeNativeWork now n (s (g b + n) b) = (r, b')" using assms Inr by (simp add: cb_consume_def)
    then show thesis
      using charged [of "cb_execution b'"] cb_consumeNativeWork_keeps [of now n "s (g b + n) b" r b'] False by auto
  qed
qed

lemma cb_counter:
  assumes gs: "\<And>n b. g (s n b) = n" "\<And>b x. g (b\<lparr>cb_execution := x\<rparr>) = g b"
    "\<And>n b. cb_policy (s n b) = cb_policy b" and msg: "msg \<noteq> CE_Deadline" "msg \<noteq> CE_Interrupted"
  shows "budget_counter (\<lambda>now n b. cb_consume now n g s (f (cb_policy b)) msg b) g (\<lambda>b. f (cb_policy b)) msg"
proof
  fix now n b r b' assume c: "cb_consume now n g s (f (cb_policy b)) msg b = (r, b')"
  show "f (cb_policy b') = f (cb_policy b)"
    using c by (cases rule: cb_consume_cases) (auto simp: gs)
qed (auto simp: gs msg elim!: cb_consume_cases)

interpretation tokens: budget_counter cb_consumeToken cb_tokens "\<lambda>b. cp_maxTokens (cb_policy b)" CE_Tokens
  unfolding cb_consumeToken_def [abs_def] by (rule cb_counter) simp_all

interpretation ast_nodes: budget_counter cb_consumeAstNode cb_astNodes "\<lambda>b. cp_maxAstNodes (cb_policy b)" CE_AstNodes
  unfolding cb_consumeAstNode_def [abs_def] by (rule cb_counter) simp_all

interpretation closures: budget_counter cb_consumeFunction cb_functions "\<lambda>b. cp_maxFunctions (cb_policy b)" CE_Functions
  unfolding cb_consumeFunction_def [abs_def] by (rule cb_counter) simp_all

interpretation literals: budget_counter cb_consumeConstant cb_constants "\<lambda>b. cp_maxConstants (cb_policy b)" CE_Constants
  unfolding cb_consumeConstant_def [abs_def] by (rule cb_counter) simp_all

interpretation code: budget_counter cb_consumeInstruction cb_instructions
    "\<lambda>b. cp_maxInstructions (cb_policy b)" CE_Instructions
  unfolding cb_consumeInstruction_def [abs_def] by (rule cb_counter) simp_all

interpretation string_bytes: budget_counter cb_consumeStringBytes cb_stringBytes
    "\<lambda>b. cp_maxStringBytes (cb_policy b)" CE_StringBytes
  unfolding cb_consumeStringBytes_def [abs_def] by (rule cb_counter) simp_all

text \<open>A compilation run: charges of any kind in any order, up to the first error.\<close>

datatype charge_kind = CK_Token | CK_AstNode | CK_Function | CK_Constant | CK_Instruction | CK_StringBytes

fun charge_of ::
  "charge_kind \<Rightarrow> time_point \<Rightarrow> nat \<Rightarrow> compilation_budget \<Rightarrow> compilation_error option \<times> compilation_budget" where
  "charge_of CK_Token = cb_consumeToken"
| "charge_of CK_AstNode = cb_consumeAstNode"
| "charge_of CK_Function = cb_consumeFunction"
| "charge_of CK_Constant = cb_consumeConstant"
| "charge_of CK_Instruction = cb_consumeInstruction"
| "charge_of CK_StringBytes = cb_consumeStringBytes"

fun compile_charges ::
  "(charge_kind \<times> time_point \<times> nat) list \<Rightarrow> compilation_budget \<Rightarrow> compilation_error option \<times> compilation_budget" where
  "compile_charges [] b = (None, b)"
| "compile_charges ((kind, now, n) # cs) b =
     (case charge_of kind now n b of
        (Some e, b') \<Rightarrow> (Some e, b')
      | (None, b') \<Rightarrow> compile_charges cs b')"

definition budget_ok :: "compilation_budget \<Rightarrow> bool" where
  "budget_ok b \<longleftrightarrow>
     cb_tokens b \<le> cp_maxTokens (cb_policy b) \<and> cb_astNodes b \<le> cp_maxAstNodes (cb_policy b) \<and>
     cb_functions b \<le> cp_maxFunctions (cb_policy b) \<and> cb_constants b \<le> cp_maxConstants (cb_policy b) \<and>
     cb_instructions b \<le> cp_maxInstructions (cb_policy b) \<and>
     cb_stringBytes b \<le> cp_maxStringBytes (cb_policy b)"

lemmas charge_defs = cb_consumeToken_def cb_consumeAstNode_def cb_consumeFunction_def
  cb_consumeConstant_def cb_consumeInstruction_def cb_consumeStringBytes_def

lemma charge_of_ok:
  assumes "budget_ok b" "charge_of kind now n b = (r, b')"
  shows "budget_ok b' \<and> cb_policy b' = cb_policy b"
  using assms by (cases kind) (auto simp: charge_defs budget_ok_def elim!: cb_consume_cases)

lemma compile_charges_ok:
  "budget_ok b \<Longrightarrow> compile_charges cs b = (r, b') \<Longrightarrow> budget_ok b' \<and> cb_policy b' = cb_policy b"
proof (induction cs arbitrary: b)
  case (Cons c cs)
  obtain kind now n where c: "c = (kind, now, n)" by (cases c)
  obtain r1 b1 where b1: "charge_of kind now n b = (r1, b1)" by (cases "charge_of kind now n b")
  have "budget_ok b1 \<and> cb_policy b1 = cb_policy b" by (rule charge_of_ok [OF Cons.prems(1) b1])
  then show ?case using Cons.IH [of b1] Cons.prems(2) b1 c by (cases r1) auto
qed simp

text \<open>C10. However a compilation interleaves its charges for tokens, AST nodes, functions,
  constants, instructions and string bytes, and wherever it is stopped, no counter of its budget
  ever passes the limit of the policy the budget was created with.\<close>

theorem compilation_budget_respected:
  assumes "compile_charges cs (new_compilation_budget pol ex) = (r, b)"
  shows "budget_ok b \<and> cb_policy b = pol"
proof -
  have "budget_ok (new_compilation_budget pol ex)" by (simp add: budget_ok_def new_compilation_budget_def)
  from compile_charges_ok [OF this assms] show ?thesis by (simp add: new_compilation_budget_def)
qed

theorem compilation_budget_respected_witness:
  "\<exists>r b. compile_charges [(CK_Token, 0, 999999), (CK_AstNode, 1, 7), (CK_Token, 2, 2)]
     (new_compilation_budget default_compilation_policy None) = (r, b) \<and>
     r = Some CE_Tokens \<and> cb_tokens b = 999999 \<and> budget_ok b \<and> cb_policy b = default_compilation_policy"
proof -
  let ?cs = "[(CK_Token, 0, 999999), (CK_AstNode, 1, 7), (CK_Token, 2, 2)]"
  let ?b0 = "new_compilation_budget default_compilation_policy None"
  obtain r b where run: "compile_charges ?cs ?b0 = (r, b)" by (cases "compile_charges ?cs ?b0")
  then have "r = Some CE_Tokens \<and> cb_tokens b = 999999"
    by (auto simp: charge_defs cb_consume_def cb_pollDeadline_def cb_consumeNativeWork_def
        new_compilation_budget_def default_compilation_policy_def)
  then show ?thesis using run compilation_budget_respected [OF run] by blast
qed

text \<open>A run of charges for one counter is refused for its limit exactly at the charge that
  would take the sum of the charges past the limit, and everything granted before has been counted.\<close>

theorem token_budget_exact:
  assumes "charge_all cb_consumeToken ns (new_compilation_budget pol ex) = (r, b)"
  shows "cb_tokens b \<le> cp_maxTokens pol \<and>
    (r = None \<longrightarrow> cb_tokens b = sum_list (map snd ns)) \<and>
    (r = Some CE_Tokens \<longrightarrow> (\<exists>ms now n rest. ns = ms @ (now, n) # rest \<and>
      cb_tokens b = sum_list (map snd ms) \<and> cp_maxTokens pol < sum_list (map snd ms) + n))"
proof -
  let ?b = "new_compilation_budget pol ex"
  have zero: "cb_tokens ?b = 0" "cb_policy ?b = pol" by (simp_all add: new_compilation_budget_def)
  have "cb_tokens b \<le> cp_maxTokens pol"
    using tokens.all_within [of ?b ns r b] assms zero by simp
  moreover have "r = None \<Longrightarrow> cb_tokens b = sum_list (map snd ns)"
    using tokens.all_granted [of ns ?b b] assms zero by simp
  moreover have "\<exists>ms now n rest. ns = ms @ (now, n) # rest \<and>
      cb_tokens b = sum_list (map snd ms) \<and> cp_maxTokens pol < sum_list (map snd ms) + n"
    if "r = Some CE_Tokens"
    using tokens.all_refused [of ns ?b b] tokens.all_granted [of _ ?b b] assms that zero by force
  ultimately show ?thesis by blast
qed

theorem token_budget_exact_witness:
  "\<exists>b. charge_all cb_consumeToken [(0, 600000), (1, 400000), (2, 1)]
        (new_compilation_budget default_compilation_policy None) = (Some CE_Tokens, b) \<and>
     cb_tokens b = 1000000"
proof -
  let ?ns = "[(0::time_point, 600000), (1, 400000), (2, 1)]"
  let ?b0 = "new_compilation_budget default_compilation_policy None"
  obtain r b where run: "charge_all cb_consumeToken ?ns ?b0 = (r, b)"
    by (cases "charge_all cb_consumeToken ?ns ?b0")
  then have r: "r = Some CE_Tokens" "1000000 \<le> cb_tokens b"
    by (auto simp: charge_defs cb_consume_def cb_pollDeadline_def cb_consumeNativeWork_def
        new_compilation_budget_def default_compilation_policy_def)
  have "cb_tokens b \<le> 1000000"
    using token_budget_exact [OF run] by (simp add: default_compilation_policy_def)
  then show ?thesis using run r by simp
qed

section \<open>Execution budget: properties\<close>

lemma run_instructions_stop:
  assumes "\<And>now. now \<in> set nows \<Longrightarrow> xp_open p now" and "xp_remainingInstructions p \<noteq> Unlimited"
  shows "fst (snd (run_instructions nows p)) =
    (if length nows \<le> unat (xp_remainingInstructions p) then SR_None else SR_InstructionBudgetExceeded)"
  using assms
proof (induction nows arbitrary: p)
  case (Cons now nows)
  show ?case
  proof (cases "xp_remainingInstructions p = 0")
    case True
    then show ?thesis using Cons.prems by (simp add: xp_consumeInstruction_empty)
  next
    case False
    let ?p = "p\<lparr>xp_remainingInstructions := xp_remainingInstructions p - 1\<rparr>"
    have "fst (snd (run_instructions nows ?p)) =
      (if length nows \<le> unat (xp_remainingInstructions p) - 1 then SR_None else SR_InstructionBudgetExceeded)"
      using Cons False by (subst Cons.IH) (auto simp: unat_dec dec_not_Unlimited)
    moreover have "0 < unat (xp_remainingInstructions p)" using False by (simp add: unat_gt_0)
    moreover have "xp_consumeInstruction now p = (SR_None, ?p)"
      using Cons.prems False by (simp add: xp_consumeInstruction_open)
    ultimately show ?thesis by (auto split: prod.splits)
  qed
qed simp

text \<open>C8. While nothing cancels the run and no clock reading reaches the deadline, a run with a
  budget of \<open>n\<close> instructions executes exactly the first \<open>n\<close> instructions asked for, and the
  next one is refused with the instruction-budget reason.\<close>

theorem instruction_budget_exact:
  assumes "\<forall>now \<in> set nows. el_deadline limits = time_point_max \<or> now < el_deadline limits"
    and "el_instructionBudget limits \<noteq> Unlimited"
  shows "fst (run_instructions nows (xp_configure limits p)) =
      min (length nows) (unat (el_instructionBudget limits)) \<and>
    fst (snd (run_instructions nows (xp_configure limits p))) =
      (if length nows \<le> unat (el_instructionBudget limits) then SR_None else SR_InstructionBudgetExceeded)"
proof -
  have "xp_open (xp_configure limits p) now" if "now \<in> set nows" for now
    using assms(1) that by (auto simp: xp_open_def xp_configure_def)
  then show ?thesis
    using assms(2) run_instructions_granted [of nows "xp_configure limits p"]
      run_instructions_stop [of nows "xp_configure limits p"]
    by (simp add: xp_configure_def)
qed

theorem instruction_budget_exact_witness:
  "fst (run_instructions [5, 6, 7] (xp_configure (default_exec_limits
      \<lparr>el_instructionBudget := 2, el_deadline := 100\<rparr>) new_exec_policy)) = 2"
  using instruction_budget_exact [of "[5, 6, 7]"
      "default_exec_limits\<lparr>el_instructionBudget := 2, el_deadline := 100\<rparr>" new_exec_policy]
  by (simp add: Unlimited_def default_exec_limits_def)

text \<open>C9. Once a cancellation has been requested, no instruction and no native work is granted any
  more and nothing is charged, whatever the clock says, until the request is cleared or the policy
  is configured again.\<close>

theorem cancellation_stops_everything:
  assumes "requestCancellation (Some p) = Some q"
  shows "xp_consumeInstruction now q = (SR_Cancelled, q\<lparr>xp_lastStopReason := SR_Cancelled\<rparr>) \<and>
    xp_consumeNativeWork now units q = (SR_Cancelled, q\<lparr>xp_lastStopReason := SR_Cancelled\<rparr>) \<and>
    run_instructions (now # nows) q = (0, SR_Cancelled, q\<lparr>xp_lastStopReason := SR_Cancelled\<rparr>) \<and>
    xp_clearCancellation q = xp_clearCancellation p"
  using assms
  by (auto simp: requestCancellation_def xp_consumeInstruction_def xp_consumeNativeWork_def
      xp_pollStop_def xp_clearCancellation_def)

theorem cancellation_stops_everything_witness:
  "fst (xp_consumeInstruction 0 (new_exec_policy\<lparr>xp_cancelRequested := True\<rparr>)) = SR_Cancelled"
  using cancellation_stops_everything [of new_exec_policy "new_exec_policy\<lparr>xp_cancelRequested := True\<rparr>" 0]
  by (simp add: requestCancellation_def)

section \<open>Sandbox: properties\<close>

text \<open>The game-server profile opens exactly the base, math, string, table, coroutine and package
  libraries, no other name, and denies every capability; the unrestricted profile that a reset
  restores allows them all.\<close>

theorem game_server_sandbox:
  "(allowsStandardLibrary (sandbox_configure sandbox_gameServer p) name \<longleftrightarrow>
      name \<in> {''base'', ''math'', ''string'', ''table'', ''coroutine'', ''package''}) \<and>
   \<not> sandbox_allows (sandbox_configure sandbox_gameServer p) cap \<and>
   sandbox_allows (sandbox_reset p) cap \<and>
   (allowsStandardLibrary (sandbox_reset p) name \<longleftrightarrow> librarySetForId name \<noteq> LS_None)"
proof -
  have cap: "\<not> sandbox_allows (sandbox_configure sandbox_gameServer p) cap" "sandbox_allows (sandbox_reset p) cap"
    by (cases cap; simp add: sandbox_configure_def sandbox_gameServer_def sandbox_reset_def
        sandbox_unrestricted_def)+
  have lib: "allowsStandardLibrary (sandbox_configure sandbox_gameServer p) name \<longleftrightarrow>
      name \<in> {''base'', ''math'', ''string'', ''table'', ''coroutine'', ''package''}"
    by (simp add: allowsStandardLibrary_def sandbox_configure_def sandbox_gameServer_def
        librarySetForId_def ls_contains_def LS_None_def LS_Base_def LS_Math_def LS_IO_def LS_String_def
        LS_Table_def LS_OS_def LS_Coroutine_def LS_Debug_def LS_Package_def)
  have "allowsStandardLibrary (sandbox_reset p) name \<longleftrightarrow> librarySetForId name \<noteq> LS_None"
    by (simp add: allowsStandardLibrary_def sandbox_reset_def sandbox_unrestricted_def LS_All_def
        librarySetForId_def ls_contains_def LS_None_def LS_Base_def LS_Math_def LS_IO_def LS_String_def
        LS_Table_def LS_OS_def LS_Coroutine_def LS_Debug_def LS_Package_def)
  then show ?thesis using cap lib by blast
qed

end
