(* ===== verification/LuaTable.thy ===== *)
theory LuaTable
  imports LuaValue Policies
begin

text \<open>
  \<^verbatim>\<open>core/table.hpp\<close> and \<^verbatim>\<open>core/table.cpp\<close>: the Lua table, an array part for keys
  \<open>1 \<dots> size\<close> and an open-addressing node array with tombstones for every other key.

  A table object is a record of its own fields. The hash of a value uses the standard
  library's hashes of doubles and pointers and the hash stored in a string object; they are
  the fields of \<open>hash_env\<close>, and \<open>hash_env_ok\<close> is the documented requirement that doubles which
  compare equal hash equally. The collector calls (write barrier, size accounting) act on the
  collector only and are not part of a table's state; allocation failure is not modelled.
  The two unbounded probing loops are \<open>partial_function (option)\<close>: \<open>None\<close> is a loop that
  never ends, and the properties show that none occurs on a well-formed table.
\<close>

section \<open>Hashing\<close>

record hash_env =
  he_f64 :: "f64 \<Rightarrow> nat"
  he_ptr :: "addr \<Rightarrow> nat"
  he_string :: "addr \<Rightarrow> nat"

definition hash_env_ok :: "hash_env \<Rightarrow> bool" where
  "hash_env_ok H \<longleftrightarrow> (\<forall>x y. f64_eq x y \<longrightarrow> he_f64 H x = he_f64 H y)"

fun ValueHash :: "hash_env \<Rightarrow> lua_value \<Rightarrow> nat" where
  "ValueHash H VNil = 0"
| "ValueHash H (VBoolean b) = (if b then 1 else 0)"
| "ValueHash H (VNumber x) = he_f64 H x"
| "ValueHash H (VLightUserdata p) = he_ptr H p"
| "ValueHash H (VString s) = he_string H s"
| "ValueHash H (VTable p) = he_ptr H p"
| "ValueHash H (VFunction p) = he_ptr H p"
| "ValueHash H (VUserdata p) = he_ptr H p"
| "ValueHash H (VThread p) = he_ptr H p"

section \<open>State\<close>

datatype node_state = NS_Empty | NS_Live | NS_Dead

record hash_node =
  hn_key :: lua_value
  hn_value :: lua_value
  hn_hash :: nat
  hn_state :: node_state

definition empty_node :: hash_node where
  "empty_node = \<lparr>hn_key = VNil, hn_value = VNil, hn_hash = 0, hn_state = NS_Empty\<rparr>"

record lua_table =
  tb_array :: "lua_value list"
  tb_nodes :: "hash_node list"
  tb_live :: nat
  tb_used :: nat
  tb_metatable :: "addr option"
  tb_flags :: u8

definition new_table :: lua_table where
  "new_table = \<lparr>tb_array = [], tb_nodes = [], tb_live = 0, tb_used = 0, tb_metatable = None,
     tb_flags = 0\<rparr>"

datatype table_error =
  TE_IndexNil | TE_IndexNaN | TE_ArrayLimit | TE_HashLimit | TE_BadLength | TE_InvalidNextKey

definition usize_max :: nat where
  "usize_max = 18446744073709551615"

section \<open>Key classification\<close>

definition isPositiveIntegerKey :: "lua_value \<Rightarrow> int option" where
  "isPositiveIntegerKey key =
     (case key of
        VNumber num \<Rightarrow>
          if f64_le num f64_zero \<or> \<not> f64_eq num (f64_floor num) then None
          else if f64_lt (f64_of_int i32_max) num then None
          else f64_to_int num
      | _ \<Rightarrow> None)"

definition shouldStoreInArray :: "resource_policy \<Rightarrow> lua_table \<Rightarrow> int \<Rightarrow> bool" where
  "shouldStoreInArray rp t index =
     (if index < 1 then False
      else let candidate = nat index
           in if rp_maxTableArraySlots rp < candidate then False
              else candidate \<le> length (tb_array t) \<or> candidate = length (tb_array t) + 1)"

section \<open>Node array\<close>

text \<open>The probe of \<open>findHashNode\<close>: at most one visit of every slot.\<close>

fun findHashNode_loop ::
  "hash_node list \<Rightarrow> lua_value \<Rightarrow> nat \<Rightarrow> bool \<Rightarrow> nat \<Rightarrow> nat \<Rightarrow> nat option" where
  "findHashNode_loop nodes key hash includeDead index 0 = None"
| "findHashNode_loop nodes key hash includeDead index (Suc remaining) =
     (let node = nodes ! index
      in if hn_state node = NS_Empty then None
         else if hn_hash node = hash \<and> value_eq (hn_key node) key \<and>
             (hn_state node = NS_Live \<or> includeDead) then Some index
         else findHashNode_loop nodes key hash includeDead
                ((index + 1) AND (length nodes - 1)) remaining)"

definition findHashNode :: "hash_env \<Rightarrow> lua_table \<Rightarrow> lua_value \<Rightarrow> bool \<Rightarrow> nat option" where
  "findHashNode H t key includeDead =
     (if tb_nodes t = [] then None
      else let hash = ValueHash H key; mask = length (tb_nodes t) - 1
           in findHashNode_loop (tb_nodes t) key hash includeDead (hash AND mask)
                (length (tb_nodes t)))"

fun nextLive_from :: "hash_node list \<Rightarrow> nat \<Rightarrow> nat option" where
  "nextLive_from [] i = None"
| "nextLive_from (n # ns) i = (if hn_state n = NS_Live then Some i else nextLive_from ns (i + 1))"

definition nextLiveHashNode :: "lua_table \<Rightarrow> nat \<Rightarrow> nat option" where
  "nextLiveHashNode t first = nextLive_from (drop first (tb_nodes t)) first"

definition removeHash :: "hash_env \<Rightarrow> lua_table \<Rightarrow> lua_value \<Rightarrow> lua_table" where
  "removeHash H t key =
     (case findHashNode H t key False of
        None \<Rightarrow> t
      | Some index \<Rightarrow>
          t\<lparr>tb_nodes := (tb_nodes t)
               [index := (tb_nodes t ! index)\<lparr>hn_value := VNil, hn_state := NS_Dead\<rparr>],
            tb_live := tb_live t - 1\<rparr>)"

function capacity_loop :: "nat \<Rightarrow> nat \<Rightarrow> (table_error, nat) result" where
  "capacity_loop capacity requested =
     (if capacity = 0 \<or> requested \<le> capacity then Inr capacity
      else if usize_max div 2 < capacity then Inl TE_BadLength
      else capacity_loop (capacity * 2) requested)"
  by pat_completeness auto
termination
  by (relation "measure (\<lambda>(capacity, requested). requested - capacity)") auto

declare capacity_loop.simps [simp del]

text \<open>Inside \<open>rehash\<close>: step over live slots of the replacement.\<close>

partial_function (option) rehash_probe :: "hash_node list \<Rightarrow> nat \<Rightarrow> nat option" where
  "rehash_probe repl index =
     (if hn_state (repl ! index) = NS_Live
      then rehash_probe repl ((index + 1) AND (length repl - 1))
      else Some index)"

declare rehash_probe.simps [code]

fun rehash_copy :: "hash_node list \<Rightarrow> hash_node list \<Rightarrow> hash_node list option" where
  "rehash_copy [] repl = Some repl"
| "rehash_copy (old # olds) repl =
     (if hn_state old \<noteq> NS_Live then rehash_copy olds repl
      else case rehash_probe repl (hn_hash old AND (length repl - 1)) of
             None \<Rightarrow> None
           | Some index \<Rightarrow> rehash_copy olds (repl[index := old]))"

definition rehash :: "nat \<Rightarrow> lua_table \<Rightarrow> (table_error, lua_table) result option" where
  "rehash requestedCapacity t =
     (case capacity_loop 8 requestedCapacity of
        Inl e \<Rightarrow> Some (Inl e)
      | Inr capacity \<Rightarrow>
          (case rehash_copy (tb_nodes t) (replicate capacity empty_node) of
             None \<Rightarrow> None
           | Some repl \<Rightarrow> Some (Inr (t\<lparr>tb_nodes := repl, tb_used := tb_live t\<rparr>))))"

definition ensureHashInsertCapacity :: "lua_table \<Rightarrow> (table_error, lua_table) result option" where
  "ensureHashInsertCapacity t =
     (let size = length (tb_nodes t)
      in if tb_nodes t = [] then rehash 8 t
         else if tb_used t + 1 \<le> size - size div 4 then Some (Inr t)
         else if tb_live t * 2 < tb_used t then rehash size t
         else if usize_max div 2 < size then Some (Inl TE_BadLength)
         else rehash (size * 2) t)"

text \<open>Inside \<open>setHash\<close>: the slot an absent key goes to, and the first tombstone passed.\<close>

partial_function (option) insert_probe ::
  "hash_node list \<Rightarrow> nat \<Rightarrow> nat option \<Rightarrow> (nat \<times> nat option) option" where
  "insert_probe nodes index firstDead =
     (let node = nodes ! index
      in if hn_state node = NS_Dead \<and> firstDead = None
         then insert_probe nodes ((index + 1) AND (length nodes - 1)) (Some index)
         else if hn_state node = NS_Empty
         then Some (case firstDead of None \<Rightarrow> index | Some d \<Rightarrow> d, firstDead)
         else insert_probe nodes ((index + 1) AND (length nodes - 1)) firstDead)"

declare insert_probe.simps [code]

definition setHash ::
  "hash_env \<Rightarrow> resource_policy \<Rightarrow> lua_table \<Rightarrow> lua_value \<Rightarrow> lua_value \<Rightarrow>
   (table_error, lua_table) result option" where
  "setHash H rp t key val =
     (let found = findHashNode H t key True
      in case found of
           Some i \<Rightarrow>
             if hn_state (tb_nodes t ! i) = NS_Live
             then Some (Inr (t\<lparr>tb_nodes := (tb_nodes t)[i := (tb_nodes t ! i)\<lparr>hn_value := val\<rparr>]\<rparr>))
             else if rp_maxTableHashEntries rp \<le> tb_live t then Some (Inl TE_HashLimit)
             else Some (Inr (t\<lparr>tb_nodes := (tb_nodes t)
                                 [i := (tb_nodes t ! i)\<lparr>hn_value := val, hn_state := NS_Live\<rparr>],
                               tb_live := tb_live t + 1\<rparr>))
         | None \<Rightarrow>
             if rp_maxTableHashEntries rp \<le> tb_live t then Some (Inl TE_HashLimit)
             else case ensureHashInsertCapacity t of
                    None \<Rightarrow> None
                  | Some (Inl e) \<Rightarrow> Some (Inl e)
                  | Some (Inr t') \<Rightarrow>
                      let hash = ValueHash H key; mask = length (tb_nodes t') - 1
                      in case insert_probe (tb_nodes t') (hash AND mask) None of
                           None \<Rightarrow> None
                         | Some (destination, firstDead) \<Rightarrow>
                             Some (Inr (t'\<lparr>tb_nodes := (tb_nodes t')
                               [destination := \<lparr>hn_key = key, hn_value = val, hn_hash = hash,
                                                hn_state = NS_Live\<rparr>],
                               tb_live := tb_live t' + 1,
                               tb_used := (if firstDead = None then tb_used t' + 1 else tb_used t')\<rparr>)))"

section \<open>Array part\<close>

definition getArray :: "lua_table \<Rightarrow> int \<Rightarrow> lua_value" where
  "getArray t index =
     (if index < 1 then VNil
      else let arrayIndex = nat (index - 1)
           in if arrayIndex < length (tb_array t) then tb_array t ! arrayIndex else VNil)"

fun setArrayRange_loop :: "hash_env \<Rightarrow> nat \<Rightarrow> lua_value list \<Rightarrow> lua_table \<Rightarrow> lua_table" where
  "setArrayRange_loop H slot [] t = t"
| "setArrayRange_loop H slot (v # vs) t =
     setArrayRange_loop H (slot + 1) vs
       (removeHash H (t\<lparr>tb_array := (tb_array t)[slot := v]\<rparr>)
          (VNumber (f64_of_int (int (slot + 1)))))"

definition setArrayRange ::
  "hash_env \<Rightarrow> resource_policy \<Rightarrow> lua_table \<Rightarrow> int \<Rightarrow> lua_value list \<Rightarrow>
   (table_error, lua_table) result" where
  "setArrayRange H rp t firstIndex values =
     (if firstIndex < 1 \<or> values = [] then Inr t
      else let first = nat (firstIndex - 1)
           in if usize_max - first < length values then Inl TE_BadLength
              else let requiredSize = first + length values
                   in if rp_maxTableArraySlots rp < requiredSize then Inl TE_ArrayLimit
                      else let arr = (if length (tb_array t) < requiredSize
                              then tb_array t @ replicate (requiredSize - length (tb_array t)) VNil
                              else tb_array t)
                           in Inr (setArrayRange_loop H first values
                                     (t\<lparr>tb_array := arr, tb_flags := 0\<rparr>)))"

definition setArray ::
  "hash_env \<Rightarrow> resource_policy \<Rightarrow> lua_table \<Rightarrow> int \<Rightarrow> lua_value \<Rightarrow> (table_error, lua_table) result" where
  "setArray H rp t index val =
     (if index < 1 then Inr t
      else if isNil val \<and> length (tb_array t) < nat index
        then Inr (removeHash H t (VNumber (f64_of_int index)))
      else setArrayRange H rp t index [val])"

section \<open>Table operations\<close>

definition in_array :: "lua_table \<Rightarrow> lua_value \<Rightarrow> int option" where
  "in_array t key =
     (case isPositiveIntegerKey key of
        Some index \<Rightarrow> if nat index \<le> length (tb_array t) then Some index else None
      | None \<Rightarrow> None)"

definition hash_get :: "hash_env \<Rightarrow> lua_table \<Rightarrow> lua_value \<Rightarrow> lua_value" where
  "hash_get H t key =
     (case findHashNode H t key False of
        Some node \<Rightarrow> hn_value (tb_nodes t ! node)
      | None \<Rightarrow> VNil)"

definition table_get :: "hash_env \<Rightarrow> lua_table \<Rightarrow> lua_value \<Rightarrow> lua_value" where
  "table_get H t key =
     (case in_array t key of
        Some index \<Rightarrow>
          (let val = getArray t index in if \<not> isNil val then val else hash_get H t key)
      | None \<Rightarrow> hash_get H t key)"

definition table_remove :: "hash_env \<Rightarrow> lua_table \<Rightarrow> lua_value \<Rightarrow> lua_table" where
  "table_remove H t key =
     (let t1 = t\<lparr>tb_flags := 0\<rparr>;
          t2 = (case in_array t1 key of
                  Some index \<Rightarrow>
                    if \<not> isNil (tb_array t1 ! nat (index - 1))
                    then t1\<lparr>tb_array := (tb_array t1)[nat (index - 1) := VNil]\<rparr> else t1
                | None \<Rightarrow> t1)
      in removeHash H t2 key)"

definition table_set ::
  "hash_env \<Rightarrow> resource_policy \<Rightarrow> lua_table \<Rightarrow> lua_value \<Rightarrow> lua_value \<Rightarrow>
   (table_error, lua_table) result option" where
  "table_set H rp t key val =
     (if isNil key then Some (Inl TE_IndexNil)
      else if (case key of VNumber x \<Rightarrow> f64_isnan x | _ \<Rightarrow> False) then Some (Inl TE_IndexNaN)
      else let t1 = t\<lparr>tb_flags := 0\<rparr>
           in if isNil val then Some (Inr (table_remove H t1 key))
              else case isPositiveIntegerKey key of
                     Some index \<Rightarrow>
                       if shouldStoreInArray rp t1 index then Some (setArray H rp t1 index val)
                       else setHash H rp t1 key val
                   | None \<Rightarrow> setHash H rp t1 key val)"

definition table_has :: "hash_env \<Rightarrow> lua_table \<Rightarrow> lua_value \<Rightarrow> bool" where
  "table_has H t key =
     (if (case in_array t key of
            Some index \<Rightarrow> \<not> isNil (tb_array t ! nat (index - 1))
          | None \<Rightarrow> False) then True
      else findHashNode H t key False \<noteq> None)"

definition table_clear :: "lua_table \<Rightarrow> lua_table" where
  "table_clear t = t\<lparr>tb_array := [], tb_nodes := [], tb_live := 0, tb_used := 0,
     tb_metatable := None, tb_flags := 0\<rparr>"

definition setMetatable :: "addr option \<Rightarrow> lua_table \<Rightarrow> lua_table" where
  "setMetatable mt t = t\<lparr>tb_metatable := mt\<rparr>"

definition getTotalSize :: "lua_table \<Rightarrow> nat" where
  "getTotalSize t = length (tb_array t) + tb_live t"

section \<open>Length\<close>

definition hasIntegerKey :: "hash_env \<Rightarrow> lua_table \<Rightarrow> nat \<Rightarrow> bool" where
  "hasIntegerKey H t index =
     (if index = 0 \<or> i32_max < int index then False
      else let key = VNumber (f64_of_int (int index))
           in if (case in_array t key of
                    Some i \<Rightarrow> \<not> isNil (tb_array t ! nat (i - 1))
                  | None \<Rightarrow> False) then True
              else findHashNode H t key False \<noteq> None)"

text \<open>The two binary searches: \<open>present low\<close> (or \<open>low = 0\<close>), not \<open>present high\<close>.\<close>

function bisect :: "(nat \<Rightarrow> bool) \<Rightarrow> nat \<Rightarrow> nat \<Rightarrow> nat" where
  "bisect present low high =
     (if 1 < high - low
      then let mid = low + (high - low) div 2
           in if present mid then bisect present mid high else bisect present low mid
      else low)"
  by pat_completeness auto
termination
  by (relation "measure (\<lambda>(p, low, high). high - low)") auto

declare bisect.simps [simp del]

text \<open>Doubling until an absent index; \<open>Inr\<close> is the early return near the top of the range.\<close>

function grow_high :: "(nat \<Rightarrow> bool) \<Rightarrow> nat \<Rightarrow> nat \<Rightarrow> (nat \<times> nat) + nat" where
  "grow_high present low high =
     (if high = 0 \<or> \<not> present high then Inl (low, high)
      else if nat i32_max div 2 < high then Inr high
      else grow_high present high (high * 2))"
  by pat_completeness auto
termination
  by (relation "measure (\<lambda>(p, low, high). nat i32_max - high)")
    (auto simp: i32_max_def)

declare grow_high.simps [simp del]

definition table_length :: "hash_env \<Rightarrow> lua_table \<Rightarrow> nat" where
  "table_length H t =
     (let arraySize = length (tb_array t);
          search = (\<lambda>low high.
            case grow_high (hasIntegerKey H t) low high of
              Inr r \<Rightarrow> r
            | Inl (l, h) \<Rightarrow> bisect (hasIntegerKey H t) l h)
      in if 0 < arraySize \<and> isNil (tb_array t ! (arraySize - 1))
         then bisect (\<lambda>mid. \<not> isNil (tb_array t ! (mid - 1))) 0 arraySize
         else if 0 < arraySize \<and> \<not> hasIntegerKey H t (arraySize + 1) then arraySize
         else search arraySize (if arraySize = 0 then 1 else arraySize * 2))"

section \<open>Traversal\<close>

fun array_next :: "lua_value list \<Rightarrow> nat \<Rightarrow> (lua_value \<times> lua_value) option" where
  "array_next [] i = None"
| "array_next (v # vs) i =
     (if \<not> isNil v then Some (VNumber (f64_of_int (int (i + 1))), v) else array_next vs (i + 1))"

definition hash_next :: "lua_table \<Rightarrow> nat \<Rightarrow> (lua_value \<times> lua_value) option" where
  "hash_next t first =
     map_option (\<lambda>i. (hn_key (tb_nodes t ! i), hn_value (tb_nodes t ! i))) (nextLiveHashNode t first)"

text \<open>\<open>Inr None\<close> is the end of the traversal.\<close>

definition next_array_position :: "hash_env \<Rightarrow> lua_table \<Rightarrow> lua_value \<Rightarrow> int option" where
  "next_array_position H t key =
     (case in_array t key of
        Some arrayIndex \<Rightarrow>
          if \<not> isNil (tb_array t ! nat (arrayIndex - 1)) \<or> findHashNode H t key True = None
          then Some arrayIndex else None
      | None \<Rightarrow> None)"

definition table_next ::
  "hash_env \<Rightarrow> lua_table \<Rightarrow> lua_value \<Rightarrow> (table_error, (lua_value \<times> lua_value) option) result" where
  "table_next H t key =
     (if isNil key then
        Inr (case array_next (tb_array t) 0 of Some r \<Rightarrow> Some r | None \<Rightarrow> hash_next t 0)
      else case next_array_position H t key of
        Some arrayIndex \<Rightarrow>
          Inr (case array_next (drop (nat arrayIndex) (tb_array t)) (nat arrayIndex) of
                 Some r \<Rightarrow> Some r | None \<Rightarrow> hash_next t 0)
      | None \<Rightarrow>
          (case findHashNode H t key True of
             None \<Rightarrow> Inl TE_InvalidNextKey
           | Some currentNode \<Rightarrow> Inr (hash_next t (currentNode + 1))))"

end
