(* ===== verification/NodeArray.thy ===== *)
theory NodeArray
  imports LuaTable
begin

text \<open>
  The node array of the table: the well-formedness invariant of the open-addressing scheme
  and what probing, removal, insertion and rehashing do to the set of live entries.

  Along the probe sequence of a stored key no slot is empty before the key's own slot
  (\<open>reachable_slot\<close>); keys are pairwise different; at least a quarter of the slots is empty.
  Every operation is described by its effect on \<open>entries\<close>, the key-value pairs of the live
  slots.
\<close>

section \<open>Doubles as keys\<close>

definition value_wf :: "lua_value \<Rightarrow> bool" where
  "value_wf v \<longleftrightarrow> (case v of VNumber x \<Rightarrow> f64_wf x | _ \<Rightarrow> True)"

lemma value_wf_simps [simp]:
  "value_wf VNil" "value_wf (VBoolean b)" "value_wf (VNumber x) = f64_wf x"
  by (simp_all add: value_wf_def)

lemma sval_eqD: "sval s m = sval s' m' \<Longrightarrow> 0 < m \<Longrightarrow> s = s' \<and> m = m'"
  by (auto simp: sval_def split: if_splits)

lemma f64_wf_eq_cases:
  assumes "f64_wf x" "f64_wf y" "f64_eq x y"
  shows "x = y \<or> (f64_eq x f64_zero \<and> f64_eq y f64_zero)"
proof (cases x; cases y)
  fix s m e s' m' e'
  assume xy: "x = F_Fin s m e" "y = F_Fin s' m' e'"
  have *: "e = e'" if "e \<le> e'" "fval s m e e = fval s' m' e' e" "odd m" for s s' m m' and e e' :: int
  proof (rule ccontr)
    assume "e \<noteq> e'"
    then have "even (fval s' m' e' e)" using that(1) by (simp add: fval_def)
    moreover have "odd (fval s m e e)" using that(3) by (simp add: fval_def sval_def)
    ultimately show False using that(2) by simp
  qed
  show ?thesis
  proof (cases "m = 0 \<or> m' = 0")
    case True
    then show ?thesis using assms xy
      by (auto simp: f64_zero_def align_def sval_def f64_wf_def split: if_splits)
  next
    case False
    then have odd: "odd m" "odd m'" using assms xy by (auto simp: f64_wf_def)
    have eq: "E \<le> e \<Longrightarrow> E \<le> e' \<Longrightarrow> fval s m e E = fval s' m' e' E" for E
      using assms(3) xy f64_eq_fval by blast
    have "e = e'"
    proof (cases "e \<le> e'")
      case True
      then show ?thesis using * [OF True eq odd(1)] by simp
    next
      case False
      then have "e' \<le> e" by simp
      then show ?thesis using * [OF \<open>e' \<le> e\<close> eq [symmetric] odd(2)] by simp
    qed
    then have "sval s m = sval s' m'" using eq [of e] by (simp add: fval_def)
    then show ?thesis using sval_eqD [of s m s' m'] odd_pos [OF odd(1)] xy \<open>e = e'\<close> by simp
  qed
qed (use assms in \<open>auto simp: f64_zero_def\<close>)

lemma value_wf_eq_cases:
  assumes "value_wf v" "value_wf w" "value_eq v w"
  shows "v = w \<or> (\<exists>x y. v = VNumber x \<and> w = VNumber y \<and> f64_eq x f64_zero \<and> f64_eq y f64_zero)"
  using assms f64_wf_eq_cases by (cases v; cases w) (auto simp: value_eq_def)

lemma f64_zero_is_int: "is_int_f64 f64_zero 0"
  unfolding is_int_f64_def f64_zero_def by (intro exI [of _ False]) (simp add: fval_def sval_def)

lemma is_int_f64_unique:
  assumes "f64_wf x" "is_int_f64 x n" "n \<noteq> 0" "\<bar>n\<bar> < 2 ^ 53"
  shows "x = f64_of_int n"
proof -
  have n: "is_int_f64 (f64_of_int n) n" using assms(4) by (rule f64_of_int_is_int)
  have "f64_eq x (f64_of_int n)" using assms(2) n by (simp add: is_int_f64_eq)
  then have "x = f64_of_int n \<or> f64_eq x f64_zero"
    using f64_wf_eq_cases [OF assms(1) f64_wf_of_int] by auto
  then show ?thesis using is_int_f64_eq [OF assms(2) f64_zero_is_int] assms(3) by auto
qed

lemma f64_floor_eq_iff:
  assumes "f64_wf x" "x \<noteq> F_NaN" "\<not> f64_lt (f64_of_int i32_max) x" "\<not> f64_le x f64_zero"
  shows "f64_eq x (f64_floor x) \<longleftrightarrow> (\<exists>n. is_int_f64 x n)"
proof (cases x)
  case (F_Fin s m e)
  show ?thesis
  proof (cases "0 \<le> e")
    case True
    then show ?thesis using F_Fin by (auto simp: is_int_f64_def align_def)
  next
    case False
    then have "odd m" using assms(1) F_Fin by (auto simp: f64_wf_def)
    obtain n where n: "is_int_f64 (f64_floor x) n"
      using F_Fin False f64_fin_is_int by (auto simp: Let_def)
    then obtain s' m' e' where f: "f64_floor x = F_Fin s' m' e'" "0 \<le> e'"
      by (auto simp: is_int_f64_def)
    have "even (fval s' m' e' e)" using False f(2) by (simp add: fval_def)
    moreover have "odd (fval s m e e)" using \<open>odd m\<close> by (simp add: fval_def sval_def)
    ultimately have "\<not> f64_eq x (f64_floor x)"
      using False f F_Fin f64_eq_fval [of e e e' s m s' m'] by (auto simp del: f64_floor.simps f64_eq.simps)
    moreover have "\<not> (\<exists>n. is_int_f64 x n)" using False F_Fin by (auto simp: is_int_f64_def)
    ultimately show ?thesis by simp
  qed
qed (use assms f64_of_int_fin [of i32_max] in
    \<open>auto simp: i32_max_def f64_zero_def f64_le_def is_int_f64_def\<close>)

lemma isPositiveIntegerKey_Some:
  assumes "value_wf key"
  shows "isPositiveIntegerKey key = Some i \<longleftrightarrow>
    1 \<le> i \<and> i \<le> i32_max \<and> key = VNumber (f64_of_int i)"
proof
  assume p: "isPositiveIntegerKey key = Some i"
  then obtain x where key: "key = VNumber x" "\<not> f64_le x f64_zero" "f64_eq x (f64_floor x)"
    "\<not> f64_lt (f64_of_int i32_max) x" "f64_to_int x = Some i"
    by (auto simp: isPositiveIntegerKey_def split: lua_value.splits if_splits)
  then have wf: "f64_wf x" "x \<noteq> F_NaN" using assms by auto
  then obtain n where n: "is_int_f64 x n" using key f64_floor_eq_iff by blast
  then have "n = i" using key is_int_f64_to_int by force
  then have "1 \<le> i" "i \<le> i32_max"
    using key n is_int_f64_le [OF n f64_zero_is_int] is_int_f64_lt [OF i32_bounds_is_int(2) n] by auto
  then show "1 \<le> i \<and> i \<le> i32_max \<and> key = VNumber (f64_of_int i)"
    using key wf n \<open>n = i\<close> is_int_f64_unique [of x i] by (auto simp: i32_max_def)
next
  assume i: "1 \<le> i \<and> i \<le> i32_max \<and> key = VNumber (f64_of_int i)"
  then have n: "is_int_f64 (f64_of_int i) i" by (intro f64_of_int_is_int) (simp add: i32_max_def)
  then show "isPositiveIntegerKey key = Some i"
    using i is_int_f64_le [OF n f64_zero_is_int] is_int_f64_lt [OF i32_bounds_is_int(2) n]
      is_int_f64_floor [OF n] is_int_f64_to_int [OF n] is_int_f64_eq [OF n n]
    by (auto simp: isPositiveIntegerKey_def)
qed

lemma isPositiveIntegerKey_cong:
  assumes "value_wf v" "value_wf w" "value_eq v w"
  shows "isPositiveIntegerKey v = isPositiveIntegerKey w"
proof -
  have "isPositiveIntegerKey (VNumber x) = None" if "f64_eq x f64_zero" for x
    using that by (simp add: isPositiveIntegerKey_def f64_le_def)
  then show ?thesis using value_wf_eq_cases [OF assms] by auto
qed

lemma ValueHash_cong: "hash_env_ok H \<Longrightarrow> value_eq v w \<Longrightarrow> ValueHash H v = ValueHash H w"
  by (cases v; cases w) (auto simp: value_eq_def hash_env_ok_def)

section \<open>Probe sequences\<close>

definition pow2_size :: "nat \<Rightarrow> bool" where
  "pow2_size n \<longleftrightarrow> (\<exists>k. 3 \<le> k \<and> n = 2 ^ k)"

lemma pow2_size_pos: "pow2_size n \<Longrightarrow> 8 \<le> n"
proof -
  assume "pow2_size n"
  then obtain k where k: "3 \<le> k" "n = 2 ^ k" by (auto simp: pow2_size_def)
  have "(2::nat) ^ 3 \<le> 2 ^ k" using k(1) by (rule power_increasing) simp
  then show ?thesis using k(2) by simp
qed

lemma pow2_size_double: "pow2_size n \<Longrightarrow> pow2_size (n * 2)"
  unfolding pow2_size_def by (metis le_SucI power_Suc2)

lemma and_size_mask: "pow2_size n \<Longrightarrow> (i::nat) AND (n - Suc 0) = i mod n"
  by (auto simp: pow2_size_def take_bit_eq_mask mask_eq_exp_minus_1 simp flip: take_bit_eq_mod)

abbreviation slot_free :: "hash_node list \<Rightarrow> nat \<Rightarrow> bool" where
  "slot_free nodes i \<equiv> hn_state (nodes ! i) = NS_Empty"

abbreviation slot_live :: "hash_node list \<Rightarrow> nat \<Rightarrow> bool" where
  "slot_live nodes i \<equiv> hn_state (nodes ! i) = NS_Live"

definition at_offset :: "hash_node list \<Rightarrow> nat \<Rightarrow> nat \<Rightarrow> nat" where
  "at_offset nodes h j = (h + j) mod length nodes"

definition reachable_slot :: "hash_node list \<Rightarrow> nat \<Rightarrow> nat \<Rightarrow> bool" where
  "reachable_slot nodes h i \<longleftrightarrow>
     (\<exists>j < length nodes. i = at_offset nodes h j \<and> (\<forall>j' < j. \<not> slot_free nodes (at_offset nodes h j')))"

definition slot_matches :: "hash_node list \<Rightarrow> lua_value \<Rightarrow> bool \<Rightarrow> nat \<Rightarrow> bool" where
  "slot_matches nodes key includeDead i \<longleftrightarrow>
     i < length nodes \<and> \<not> slot_free nodes i \<and> value_eq (hn_key (nodes ! i)) key \<and>
     (slot_live nodes i \<or> includeDead)"

definition node_ok :: "hash_env \<Rightarrow> hash_node \<Rightarrow> bool" where
  "node_ok H n \<longleftrightarrow> (hn_state n \<noteq> NS_Empty \<longrightarrow>
     hn_hash n = ValueHash H (hn_key n) \<and> valid_key (hn_key n) \<and> value_wf (hn_key n)) \<and>
     (hn_state n = NS_Live \<longrightarrow> hn_value n \<noteq> VNil)"

definition nodes_ok :: "hash_env \<Rightarrow> hash_node list \<Rightarrow> bool" where
  "nodes_ok H nodes \<longleftrightarrow>
     pow2_size (length nodes) \<and>
     (\<forall>n \<in> set nodes. node_ok H n) \<and>
     (\<forall>i < length nodes. \<not> slot_free nodes i \<longrightarrow> reachable_slot nodes (hn_hash (nodes ! i)) i) \<and>
     (\<forall>i < length nodes. \<forall>j < length nodes. \<not> slot_free nodes i \<longrightarrow> \<not> slot_free nodes j \<longrightarrow>
        value_eq (hn_key (nodes ! i)) (hn_key (nodes ! j)) \<longrightarrow> i = j)"

definition entries :: "hash_node list \<Rightarrow> (lua_value \<times> lua_value) set" where
  "entries nodes = {(hn_key n, hn_value n) | n. n \<in> set nodes \<and> hn_state n = NS_Live}"

lemma at_offset_less: "nodes \<noteq> [] \<Longrightarrow> at_offset nodes h j < length nodes"
  by (simp add: at_offset_def)

lemma at_offset_Suc: "Suc (at_offset nodes h j) mod length nodes = at_offset nodes h (Suc j)"
  by (simp add: at_offset_def mod_simps)

lemma at_offset_Suc_left: "at_offset nodes (Suc h) j = at_offset nodes h (Suc j)"
  by (simp add: at_offset_def)

lemma at_offset_update [simp]: "at_offset (nodes[i := n]) = at_offset nodes"
  by (simp add: at_offset_def fun_eq_iff)

lemma nodes_ok_size: "nodes_ok H nodes \<Longrightarrow> pow2_size (length nodes)"
  by (simp add: nodes_ok_def)

lemma nodes_ok_nonempty: "nodes_ok H nodes \<Longrightarrow> nodes \<noteq> []"
  using pow2_size_pos nodes_ok_size by fastforce

lemma nodes_ok_hash: "nodes_ok H nodes \<Longrightarrow> i < length nodes \<Longrightarrow> \<not> slot_free nodes i \<Longrightarrow>
  hn_hash (nodes ! i) = ValueHash H (hn_key (nodes ! i))"
  by (auto simp: nodes_ok_def node_ok_def)

lemma nodes_ok_key: "nodes_ok H nodes \<Longrightarrow> i < length nodes \<Longrightarrow> \<not> slot_free nodes i \<Longrightarrow>
  valid_key (hn_key (nodes ! i)) \<and> value_wf (hn_key (nodes ! i))"
  by (auto simp: nodes_ok_def node_ok_def)

lemma nodes_ok_reachable: "nodes_ok H nodes \<Longrightarrow> i < length nodes \<Longrightarrow> \<not> slot_free nodes i \<Longrightarrow>
  reachable_slot nodes (ValueHash H (hn_key (nodes ! i))) i"
  using nodes_ok_hash [of H nodes i] by (auto simp: nodes_ok_def)

lemma slot_matches_unique:
  assumes "nodes_ok H nodes" "slot_matches nodes key d i" "slot_matches nodes key d' j"
  shows "i = j"
proof -
  have "value_eq (hn_key (nodes ! i)) (hn_key (nodes ! j))"
    using assms(2,3) value_eq_trans value_eq_sym unfolding slot_matches_def by blast
  then show ?thesis using assms by (auto simp: nodes_ok_def slot_matches_def)
qed

section \<open>Lookup\<close>

lemma find_loop_Some:
  assumes "pow2_size (length nodes)" "i0 < length nodes"
    "findHashNode_loop nodes key hash d i0 n = Some i"
  shows "slot_matches nodes key d i"
  using assms(2,3)
proof (induction n arbitrary: i0)
  case (Suc n)
  have "(i0 + 1) AND (length nodes - 1) < length nodes"
    using assms(1) pow2_size_pos [OF assms(1)] by (auto simp: and_size_mask intro!: mod_less_divisor)
  then show ?case using Suc by (auto simp: Let_def slot_matches_def split: if_splits)
qed simp

lemma find_loop_reaches:
  assumes "pow2_size (length nodes)" "\<forall>j' < j. \<not> slot_free nodes (at_offset nodes h j')"
    "slot_matches nodes key d (at_offset nodes h j)" "hn_hash (nodes ! at_offset nodes h j) = hash"
    "j0 \<le> j" "j - j0 < n"
  shows "findHashNode_loop nodes key hash d (at_offset nodes h j0) n \<noteq> None"
  using assms(5,6)
proof (induction n arbitrary: j0)
  case (Suc n)
  have free: "\<not> slot_free nodes (at_offset nodes h j0)"
    using assms(2,3) Suc.prems by (cases "j0 = j") (auto simp: slot_matches_def)
  show ?case
  proof (cases "j0 = j")
    case True
    then show ?thesis using assms(3,4) free by (auto simp: Let_def slot_matches_def)
  next
    case False
    then have "findHashNode_loop nodes key hash d (at_offset nodes h (Suc j0)) n \<noteq> None"
      using Suc.prems by (intro Suc.IH) auto
    then show ?thesis
      using free assms(1) at_offset_Suc [of nodes h j0] by (auto simp: Let_def and_size_mask)
  qed
qed simp

lemma findHashNode_iff:
  assumes ok: "nodes_ok H (tb_nodes t)" and H: "hash_env_ok H"
  shows "findHashNode H t key d = Some i \<longleftrightarrow> slot_matches (tb_nodes t) key d i"
proof -
  let ?nodes = "tb_nodes t" and ?h = "ValueHash H key"
  note size = nodes_ok_size [OF ok] and ne = nodes_ok_nonempty [OF ok]
  have start: "?h AND (length ?nodes - 1) = at_offset ?nodes ?h 0"
    by (simp add: and_size_mask [OF size] at_offset_def)
  have find: "findHashNode H t key d =
    findHashNode_loop ?nodes key ?h d (at_offset ?nodes ?h 0) (length ?nodes)"
    using ne start by (simp add: findHashNode_def Let_def)
  have sound: "findHashNode H t key d = Some i \<Longrightarrow> slot_matches ?nodes key d i" for i
    unfolding find by (rule find_loop_Some [OF size at_offset_less [OF ne]])
  show ?thesis
  proof
    assume m: "slot_matches ?nodes key d i"
    then have i: "i < length ?nodes" "\<not> slot_free ?nodes i" "value_eq (hn_key (?nodes ! i)) key"
      by (auto simp: slot_matches_def)
    have h: "ValueHash H (hn_key (?nodes ! i)) = ?h" using ValueHash_cong [OF H i(3)] .
    obtain j where j: "j < length ?nodes" "i = at_offset ?nodes ?h j"
      "\<forall>j' < j. \<not> slot_free ?nodes (at_offset ?nodes ?h j')"
      using nodes_ok_reachable [OF ok i(1,2)] unfolding h reachable_slot_def by blast
    have "findHashNode H t key d \<noteq> None"
      unfolding find using j m nodes_ok_hash [OF ok i(1,2)] h
      by (intro find_loop_reaches [OF size j(3)]) auto
    then show "findHashNode H t key d = Some i"
      using sound m slot_matches_unique [OF ok] by fastforce
  qed (rule sound)
qed

lemma findHashNode_None:
  assumes "nodes_ok H (tb_nodes t)" "hash_env_ok H"
  shows "findHashNode H t key d = None \<longleftrightarrow> (\<forall>i. \<not> slot_matches (tb_nodes t) key d i)"
  using findHashNode_iff [OF assms] by (metis option.exhaust option.distinct(1))

lemma findHashNode_empty [simp]: "tb_nodes t = [] \<Longrightarrow> findHashNode H t key d = None"
  by (simp add: findHashNode_def)

section \<open>Entries\<close>

lemma entriesI: "i < length nodes \<Longrightarrow> slot_live nodes i \<Longrightarrow>
  (hn_key (nodes ! i), hn_value (nodes ! i)) \<in> entries nodes"
  unfolding entries_def using nth_mem by blast

lemma entriesE:
  assumes "(k, v) \<in> entries nodes"
  obtains i where "i < length nodes" "slot_live nodes i" "hn_key (nodes ! i) = k" "hn_value (nodes ! i) = v"
  using assms by (auto simp: entries_def in_set_conv_nth)

lemma entries_valid:
  assumes "nodes_ok H nodes" "(k, v) \<in> entries nodes"
  shows "valid_key k" "value_wf k" "v \<noteq> VNil"
  using assms by (auto simp: entries_def nodes_ok_def node_ok_def)

lemma entries_functional:
  assumes "nodes_ok H nodes" "(k, v) \<in> entries nodes" "(k', v') \<in> entries nodes" "value_eq k k'"
  shows "k = k' \<and> v = v'"
proof -
  obtain i where i: "i < length nodes" "slot_live nodes i" "hn_key (nodes ! i) = k" "hn_value (nodes ! i) = v"
    using assms(2) by (rule entriesE)
  obtain j where j: "j < length nodes" "slot_live nodes j" "hn_key (nodes ! j) = k'" "hn_value (nodes ! j) = v'"
    using assms(3) by (rule entriesE)
  have "i = j" using assms(1,4) i j by (auto simp: nodes_ok_def)
  then show ?thesis using i j by simp
qed

text \<open>The entries after one slot is overwritten.\<close>

lemma entries_update:
  assumes "i < length nodes"
  shows "entries (nodes[i := n]) =
    (if hn_state n = NS_Live then {(hn_key n, hn_value n)} else {}) \<union>
    {(hn_key (nodes ! j), hn_value (nodes ! j)) | j. j < length nodes \<and> j \<noteq> i \<and> slot_live nodes j}"
  (is "?L = ?R")
proof (rule set_eqI, clarify)
  fix k v
  show "(k, v) \<in> ?L \<longleftrightarrow> (k, v) \<in> ?R"
    using assms unfolding entries_def in_set_conv_nth
    by (auto simp: nth_list_update split: if_splits)
qed

lemma entries_others:
  assumes "nodes_ok H nodes" "slot_matches nodes key True i"
  shows "{(hn_key (nodes ! j), hn_value (nodes ! j)) | j. j < length nodes \<and> j \<noteq> i \<and> slot_live nodes j} =
    {(k, v) \<in> entries nodes. \<not> value_eq k key}"
  (is "?L = ?R")
proof (rule set_eqI, clarify)
  fix k v
  show "(k, v) \<in> ?L \<longleftrightarrow> (k, v) \<in> ?R"
  proof
    assume "(k, v) \<in> ?L"
    then obtain j where j: "j < length nodes" "j \<noteq> i" "slot_live nodes j"
      "k = hn_key (nodes ! j)" "v = hn_value (nodes ! j)" by blast
    moreover have "\<not> value_eq (hn_key (nodes ! j)) key"
      using slot_matches_unique [OF assms(1) _ assms(2), of True j] j by (auto simp: slot_matches_def)
    ultimately show "(k, v) \<in> ?R" using entriesI by auto
  next
    assume "(k, v) \<in> ?R"
    then have "(k, v) \<in> entries nodes" "\<not> value_eq k key" by auto
    then obtain j where "j < length nodes" "slot_live nodes j" "hn_key (nodes ! j) = k" "hn_value (nodes ! j) = v"
      by (auto elim: entriesE)
    moreover have "j \<noteq> i" using assms(2) \<open>\<not> value_eq k key\<close> calculation by (auto simp: slot_matches_def)
    ultimately show "(k, v) \<in> ?L" by blast
  qed
qed

lemma entries_all:
  "{(hn_key (nodes ! j), hn_value (nodes ! j)) | j. j < length nodes \<and> j \<noteq> i \<and> slot_live nodes j} =
    entries nodes" if "\<not> slot_live nodes i"
  using that by (auto simp: entries_def in_set_conv_nth)

section \<open>Overwriting a slot\<close>

lemma reachable_slot_update:
  assumes "reachable_slot nodes h j" "hn_state n \<noteq> NS_Empty \<or> slot_free nodes i" "i < length nodes"
  shows "reachable_slot (nodes[i := n]) h j"
proof -
  obtain k where k: "k < length nodes" "j = at_offset nodes h k"
    "\<forall>j' < k. \<not> slot_free nodes (at_offset nodes h j')"
    using assms(1) by (auto simp: reachable_slot_def)
  then have "\<forall>j' < k. \<not> slot_free (nodes[i := n]) (at_offset nodes h j')"
    using assms(2,3) by (auto simp: nth_list_update)
  then show ?thesis using k unfolding reachable_slot_def by auto
qed

lemma nodes_ok_update:
  assumes ok: "nodes_ok H nodes" and i: "i < length nodes" and n: "node_ok H n" "hn_state n \<noteq> NS_Empty"
    and reach: "reachable_slot nodes (hn_hash n) i"
    and fresh: "\<And>j. j < length nodes \<Longrightarrow> j \<noteq> i \<Longrightarrow> \<not> slot_free nodes j \<Longrightarrow>
      \<not> value_eq (hn_key (nodes ! j)) (hn_key n)"
  shows "nodes_ok H (nodes[i := n])"
proof -
  have nodes: "\<forall>m \<in> set (nodes[i := n]). node_ok H m"
    using ok n(1) set_update_subset_insert [of nodes i n] by (auto simp: nodes_ok_def)
  have reach': "reachable_slot (nodes[i := n]) (hn_hash (nodes[i := n] ! j)) j"
    if "j < length nodes" "\<not> slot_free (nodes[i := n]) j" for j
    using that ok reach n(2) i
    by (cases "j = i") (auto simp: nodes_ok_def intro!: reachable_slot_update)
  have distinct': "j = j'"
    if "j < length nodes" "j' < length nodes" "\<not> slot_free (nodes[i := n]) j" "\<not> slot_free (nodes[i := n]) j'"
      "value_eq (hn_key (nodes[i := n] ! j)) (hn_key (nodes[i := n] ! j'))" for j j'
    using that ok fresh i value_eq_sym
    by (cases "j = i"; cases "j' = i") (auto simp: nodes_ok_def)
  show ?thesis
    using ok nodes reach' distinct' by (simp add: nodes_ok_def)
qed

text \<open>Changing only the value and the state of an occupied slot.\<close>

lemma nodes_ok_revalue:
  assumes ok: "nodes_ok H nodes" and i: "i < length nodes" "\<not> slot_free nodes i"
    and n: "hn_key n = hn_key (nodes ! i)" "hn_hash n = hn_hash (nodes ! i)" "hn_state n \<noteq> NS_Empty"
      "hn_state n = NS_Live \<Longrightarrow> hn_value n \<noteq> VNil"
  shows "nodes_ok H (nodes[i := n])"
proof (rule nodes_ok_update [OF ok i(1) _ n(3)])
  show "node_ok H n"
    using nodes_ok_hash [OF ok i] nodes_ok_key [OF ok i] n by (auto simp: node_ok_def)
  show "reachable_slot nodes (hn_hash n) i"
    using nodes_ok_reachable [OF ok i] nodes_ok_hash [OF ok i] n(2) by simp
  show "\<not> value_eq (hn_key (nodes ! j)) (hn_key n)"
    if "j < length nodes" "j \<noteq> i" "\<not> slot_free nodes j" for j
    using ok i that n(1) by (auto simp: nodes_ok_def)
qed

section \<open>Free slots and the insertion probe\<close>

definition count_live :: "hash_node list \<Rightarrow> nat" where
  "count_live nodes = card {i. i < length nodes \<and> slot_live nodes i}"

definition count_used :: "hash_node list \<Rightarrow> nat" where
  "count_used nodes = card {i. i < length nodes \<and> \<not> slot_free nodes i}"

lemma count_live_update: "i < length nodes \<Longrightarrow>
  count_live (nodes[i := n]) + (if slot_live nodes i then 1 else 0) =
  count_live nodes + (if hn_state n = NS_Live then 1 else 0)"
  using card_filter_update [of i nodes "\<lambda>n. hn_state n = NS_Live" n]
    card_index_split [of i nodes "\<lambda>n. hn_state n = NS_Live"]
  by (simp add: count_live_def)

lemma count_used_update: "i < length nodes \<Longrightarrow>
  count_used (nodes[i := n]) + (if slot_free nodes i then 0 else 1) =
  count_used nodes + (if hn_state n = NS_Empty then 0 else 1)"
  using card_filter_update [of i nodes "\<lambda>n. hn_state n \<noteq> NS_Empty" n]
    card_index_split [of i nodes "\<lambda>n. hn_state n \<noteq> NS_Empty"]
  by (simp add: count_used_def)

lemma count_live_le_used: "count_live nodes \<le> count_used nodes"
  unfolding count_live_def count_used_def by (rule card_mono) auto

lemma free_slot_exists:
  assumes "count_used nodes < length nodes"
  shows "\<exists>i < length nodes. slot_free nodes i"
proof (rule ccontr)
  assume "\<not> ?thesis"
  then have "{i. i < length nodes \<and> \<not> slot_free nodes i} = {..< length nodes}" by auto
  then show False using assms by (simp add: count_used_def)
qed

text \<open>The first free slot of a probe sequence.\<close>

lemma first_free_offset:
  assumes "count_used nodes < length nodes"
  obtains m where "m < length nodes" "slot_free nodes (at_offset nodes h m)"
    "\<forall>j < m. \<not> slot_free nodes (at_offset nodes h j)"
proof -
  obtain i where i: "i < length nodes" "slot_free nodes i" using free_slot_exists [OF assms] by blast
  let ?N = "length nodes"
  define j where "j = (i + (?N - h mod ?N)) mod ?N"
  have "0 < ?N" using i(1) by linarith
  have "h mod ?N < ?N" using \<open>0 < ?N\<close> by simp
  have "at_offset nodes h j = (h mod ?N + (i + (?N - h mod ?N))) mod ?N"
    by (simp add: at_offset_def j_def mod_simps)
  also have "\<dots> = (i + ?N) mod ?N" using \<open>h mod ?N < ?N\<close> by (simp add: add.commute)
  finally have "at_offset nodes h j = i" using i(1) by simp
  then have j: "j < ?N" "slot_free nodes (at_offset nodes h j)"
    using i(2) \<open>0 < ?N\<close> by (simp_all add: j_def)
  define m where "m = (LEAST m. slot_free nodes (at_offset nodes h m))"
  have "slot_free nodes (at_offset nodes h m)" unfolding m_def using j(2) by (rule LeastI)
  moreover have "m \<le> j" unfolding m_def using j(2) by (rule Least_le)
  moreover have "\<forall>j < m. \<not> slot_free nodes (at_offset nodes h j)"
    unfolding m_def using not_less_Least by blast
  ultimately show thesis using that [of m] j(1) le_less_trans by blast
qed

end
