(* ===== verification/HashPart.thy ===== *)
theory HashPart
  imports NodeArray
begin

text \<open>
  The operations on the hash part of a table (\<^verbatim>\<open>core/table.cpp\<close>: \<open>findHashNode\<close>, \<open>removeHash\<close>,
  \<open>rehash\<close>, \<open>ensureHashInsertCapacity\<close>, \<open>setHash\<close>): both probing loops end, rehashing keeps the
  live entries, and lookup, removal and insertion act on the set of entries as on a map whose
  keys are compared by Lua equality.
\<close>

section \<open>The insertion probe\<close>

lemma insert_probe_first_free:
  assumes size: "pow2_size (length nodes)" and m: "slot_free nodes (at_offset nodes h m)"
    "\<forall>j < m. \<not> slot_free nodes (at_offset nodes h j)" and "j0 \<le> m"
  shows "\<exists>fd'. insert_probe nodes (at_offset nodes h j0) fd =
      Some (case fd' of None \<Rightarrow> at_offset nodes h m | Some d \<Rightarrow> d, fd') \<and>
      (fd' = fd \<or> fd = None \<and> (\<exists>j < m. fd' = Some (at_offset nodes h j) \<and>
         hn_state (nodes ! at_offset nodes h j) = NS_Dead))"
  using assms(4)
proof (induction "m - j0" arbitrary: j0 fd)
  case 0
  then have "j0 = m" by simp
  then show ?case using m by (subst insert_probe.simps) (auto simp: Let_def)
next
  case (Suc d)
  then have j0: "j0 < m" "\<not> slot_free nodes (at_offset nodes h j0)" using m by auto
  have step: "insert_probe nodes (at_offset nodes h j0) fd =
    insert_probe nodes (at_offset nodes h (Suc j0))
      (if hn_state (nodes ! at_offset nodes h j0) = NS_Dead \<and> fd = None
       then Some (at_offset nodes h j0) else fd)"
    using j0 and_size_mask [OF size] at_offset_Suc [of nodes h j0]
    by (subst insert_probe.simps) (simp add: Let_def)
  show ?case
    using Suc.hyps(1) [of "Suc j0" "if hn_state (nodes ! at_offset nodes h j0) = NS_Dead \<and> fd = None
       then Some (at_offset nodes h j0) else fd"] Suc.hyps(2) j0
    unfolding step by (auto split: if_splits)
qed

text \<open>The slot \<open>setHash\<close> writes an absent key to.\<close>

lemma insert_probe_spec:
  assumes size: "pow2_size (length nodes)" and room: "count_used nodes < length nodes"
  obtains i fd where "insert_probe nodes (at_offset nodes h 0) None = Some (i, fd)"
    "i < length nodes" "\<not> slot_live nodes i" "reachable_slot nodes h i"
    "fd = None \<longleftrightarrow> slot_free nodes i"
proof -
  obtain m where m: "m < length nodes" "slot_free nodes (at_offset nodes h m)"
    "\<forall>j < m. \<not> slot_free nodes (at_offset nodes h j)"
    using room by (rule first_free_offset)
  have ne: "nodes \<noteq> []" using m(1) by auto
  obtain fd where fd: "insert_probe nodes (at_offset nodes h 0) None =
      Some (case fd of None \<Rightarrow> at_offset nodes h m | Some d \<Rightarrow> d, fd)"
    "fd = None \<or> (\<exists>j < m. fd = Some (at_offset nodes h j) \<and>
         hn_state (nodes ! at_offset nodes h j) = NS_Dead)"
    using insert_probe_first_free [OF size m(2,3), of 0 None] by auto
  show thesis
  proof (cases fd)
    case None
    then show thesis
      using that [of "at_offset nodes h m" None] fd m at_offset_less [OF ne]
      by (auto simp: reachable_slot_def)
  next
    case (Some d)
    then obtain j where j: "j < m" "d = at_offset nodes h j" "hn_state (nodes ! d) = NS_Dead"
      using fd(2) by auto
    then have "reachable_slot nodes h d"
      using m by (auto simp: reachable_slot_def intro!: exI [of _ j])
    then show thesis
      using that [of d "Some d"] fd(1) Some j at_offset_less [OF ne] by auto
  qed
qed

section \<open>Rehashing\<close>

lemma rehash_probe_first_free:
  assumes size: "pow2_size (length nodes)" and m: "slot_free nodes (at_offset nodes h m)"
    "\<forall>j < m. slot_live nodes (at_offset nodes h j)" and "j0 \<le> m"
  shows "rehash_probe nodes (at_offset nodes h j0) = Some (at_offset nodes h m)"
  using assms(4)
proof (induction "m - j0" arbitrary: j0)
  case 0
  then have "j0 = m" by simp
  then show ?case using m by (subst rehash_probe.simps) simp
next
  case (Suc d)
  then have "rehash_probe nodes (at_offset nodes h (Suc j0)) = Some (at_offset nodes h m)" by simp
  then show ?case
    using Suc.hyps(2) m and_size_mask [OF size] at_offset_Suc [of nodes h j0]
    by (subst rehash_probe.simps) simp
qed

definition no_dead :: "hash_node list \<Rightarrow> bool" where
  "no_dead nodes \<longleftrightarrow> (\<forall>i < length nodes. hn_state (nodes ! i) \<noteq> NS_Dead)"

lemma rehash_probe_spec:
  assumes size: "pow2_size (length nodes)" and room: "count_used nodes < length nodes"
    and "no_dead nodes"
  obtains i where "rehash_probe nodes (at_offset nodes h 0) = Some i"
    "i < length nodes" "slot_free nodes i" "reachable_slot nodes h i"
proof -
  obtain m where m: "m < length nodes" "slot_free nodes (at_offset nodes h m)"
    "\<forall>j < m. \<not> slot_free nodes (at_offset nodes h j)"
    using room by (rule first_free_offset)
  have ne: "nodes \<noteq> []" using m(1) by auto
  have live: "\<forall>j < m. slot_live nodes (at_offset nodes h j)"
    using m(3) assms(3) at_offset_less [OF ne] unfolding no_dead_def by (metis node_state.exhaust)
  show thesis
    using that [of "at_offset nodes h m"] rehash_probe_first_free [OF size m(2) live, of 0] m
      at_offset_less [OF ne] by (auto simp: reachable_slot_def)
qed

definition live_nodes :: "hash_node list \<Rightarrow> hash_node list" where
  "live_nodes nodes = filter (\<lambda>n. hn_state n = NS_Live) nodes"

definition keys_differ :: "hash_node list \<Rightarrow> bool" where
  "keys_differ nodes \<longleftrightarrow>
     sorted_wrt (\<lambda>a b. \<not> value_eq (hn_key a) (hn_key b)) (live_nodes nodes)"

lemma entries_live_nodes: "entries nodes = (\<lambda>n. (hn_key n, hn_value n)) ` set (live_nodes nodes)"
  by (auto simp: entries_def live_nodes_def)

lemma count_live_nodes: "count_live nodes = length (live_nodes nodes)"
  by (simp add: count_live_def live_nodes_def length_filter_conv_card)

lemma entries_insert_free:
  assumes "i < length nodes" "slot_free nodes i" "hn_state n = NS_Live"
  shows "entries (nodes[i := n]) = insert (hn_key n, hn_value n) (entries nodes)"
  using assms entries_update [OF assms(1), of n] entries_all [of nodes i] by simp

lemma rehash_copy_spec:
  assumes "nodes_ok H repl" "no_dead repl" "\<forall>n \<in> set olds. node_ok H n" "keys_differ olds"
    "count_used repl + length (live_nodes olds) < length repl"
    "\<forall>k v. (k, v) \<in> entries repl \<longrightarrow> (\<forall>n \<in> set (live_nodes olds). \<not> value_eq k (hn_key n))"
  shows "\<exists>repl'. rehash_copy olds repl = Some repl' \<and> nodes_ok H repl' \<and> no_dead repl' \<and>
    length repl' = length repl \<and> count_used repl' = count_used repl + length (live_nodes olds) \<and>
    entries repl' = entries repl \<union> entries olds"
  using assms
proof (induction olds arbitrary: repl)
  case Nil
  then show ?case by (simp add: live_nodes_def entries_def)
next
  case (Cons old olds)
  show ?case
  proof (cases "hn_state old = NS_Live")
    case False
    then have "live_nodes (old # olds) = live_nodes olds" "entries (old # olds) = entries olds"
      by (auto simp: live_nodes_def entries_def)
    then show ?thesis using Cons.IH [of repl] Cons.prems False by (simp add: keys_differ_def)
  next
    case True
    then have ln: "live_nodes (old # olds) = old # live_nodes olds" by (simp add: live_nodes_def)
    note size = nodes_ok_size [OF Cons.prems(1)]
    have room: "count_used repl < length repl" using Cons.prems(5) by linarith
    obtain i where i: "rehash_probe repl (at_offset repl (hn_hash old) 0) = Some i"
      "i < length repl" "slot_free repl i" "reachable_slot repl (hn_hash old) i"
      using rehash_probe_spec [OF size room Cons.prems(2)] by metis
    let ?r = "repl[i := old]"
    have fresh: "\<not> value_eq (hn_key (repl ! j)) (hn_key old)"
      if "j < length repl" "j \<noteq> i" "\<not> slot_free repl j" for j
    proof -
      have "slot_live repl j" using that Cons.prems(2) unfolding no_dead_def by (metis node_state.exhaust)
      then show ?thesis using Cons.prems(6) ln entriesI [OF that(1)] by auto
    qed
    have ok: "nodes_ok H ?r"
      using Cons.prems(3) True i fresh
      by (intro nodes_ok_update [OF Cons.prems(1) i(2)]) auto
    have nd: "no_dead ?r"
      using Cons.prems(2) True i(2) by (auto simp: no_dead_def nth_list_update)
    have used: "count_used ?r = Suc (count_used repl)"
      using count_used_update [OF i(2), of old] i(3) True by simp
    have ent: "entries ?r = insert (hn_key old, hn_value old) (entries repl)"
      by (rule entries_insert_free [OF i(2,3) True])
    have sep: "\<forall>k v. (k, v) \<in> entries ?r \<longrightarrow> (\<forall>n \<in> set (live_nodes olds). \<not> value_eq k (hn_key n))"
      using Cons.prems(4,6) ln unfolding ent keys_differ_def by auto
    have step: "rehash_copy (old # olds) repl = rehash_copy olds ?r"
      using True i(1) and_size_mask [OF size, of "hn_hash old"] by (simp add: at_offset_def)
    have ent2: "entries (old # olds) = insert (hn_key old, hn_value old) (entries olds)"
      by (simp add: entries_live_nodes ln)
    have "\<exists>repl'. rehash_copy olds ?r = Some repl' \<and> nodes_ok H repl' \<and> no_dead repl' \<and>
      length repl' = length ?r \<and> count_used repl' = count_used ?r + length (live_nodes olds) \<and>
      entries repl' = entries ?r \<union> entries olds"
      using Cons.prems(3,4,5) ln used by (intro Cons.IH ok nd sep) (auto simp: keys_differ_def)
    then show ?thesis unfolding step by (auto simp: used ent ent2 ln)
  qed
qed

lemma keys_differ_ok:
  assumes "nodes_ok H nodes"
  shows "keys_differ nodes"
proof -
  have "\<not> value_eq (hn_key (nodes ! i)) (hn_key (nodes ! j))"
    if "i < j" "j < length nodes" "slot_live nodes i" "slot_live nodes j" for i j
  proof -
    have "i < length nodes" "i \<noteq> j" "\<not> slot_free nodes i" "\<not> slot_free nodes j" using that by auto
    then show ?thesis using assms that(2) unfolding nodes_ok_def by blast
  qed
  then have "sorted_wrt (\<lambda>a b. hn_state a = NS_Live \<longrightarrow> hn_state b = NS_Live \<longrightarrow>
    \<not> value_eq (hn_key a) (hn_key b)) nodes"
    unfolding sorted_wrt_iff_nth_less by blast
  then have "sorted_wrt (\<lambda>a b. hn_state a = NS_Live \<longrightarrow> hn_state b = NS_Live \<longrightarrow>
    \<not> value_eq (hn_key a) (hn_key b)) (live_nodes nodes)"
    unfolding live_nodes_def by (rule sorted_wrt_filter)
  then show ?thesis unfolding keys_differ_def
    by (rule sorted_wrt_mono_rel [rotated]) (auto simp: live_nodes_def)
qed

lemma empty_nodes_state:
  "n \<in> set (replicate m empty_node) \<Longrightarrow> hn_state n = NS_Empty"
  "i < m \<Longrightarrow> slot_free (replicate m empty_node) i"
  by (simp_all add: empty_node_def)

lemma empty_nodes:
  assumes "pow2_size n"
  shows "nodes_ok H (replicate n empty_node)" "no_dead (replicate n empty_node)"
    "count_used (replicate n empty_node) = 0" "entries (replicate n empty_node) = {}"
proof -
  show "nodes_ok H (replicate n empty_node)"
    unfolding nodes_ok_def
  proof (intro conjI ballI)
    show "node_ok H m" if "m \<in> set (replicate n empty_node)" for m
      using empty_nodes_state(1) [OF that] by (simp add: node_ok_def)
  qed (use assms empty_nodes_state(2) in auto)
  show "no_dead (replicate n empty_node)"
    using empty_nodes_state(2) by (simp add: no_dead_def)
  have "{i. i < length (replicate n empty_node) \<and> \<not> slot_free (replicate n empty_node) i} = {}"
    using empty_nodes_state(2) by auto
  then show "count_used (replicate n empty_node) = 0" unfolding count_used_def by simp
  show "entries (replicate n empty_node) = {}"
    unfolding entries_def using empty_nodes_state(1) by fastforce
qed

section \<open>Capacities\<close>

lemma capacity_loop_pow2:
  assumes "a \<le> b" "b \<le> 63"
  shows "capacity_loop (2 ^ a) (2 ^ b) = Inr (2 ^ b)"
  using assms
proof (induction "b - a" arbitrary: a)
  case 0
  then show ?case by (subst capacity_loop.simps) simp
next
  case (Suc d)
  then have ab: "Suc a \<le> b" by simp
  then have "(2::nat) ^ a < 2 ^ b" by (intro power_strict_increasing) auto
  moreover have "(2::nat) ^ a \<le> 2 ^ 62" using ab Suc.prems by (intro power_increasing) auto
  then have "\<not> usize_max div 2 < (2::nat) ^ a" by (simp add: usize_max_def)
  moreover have "capacity_loop (2 ^ Suc a) (2 ^ b) = Inr (2 ^ b)"
    using Suc.hyps(2) ab Suc.prems by (intro Suc.hyps(1)) auto
  ultimately show ?case by (subst capacity_loop.simps) (simp add: mult.commute)
qed

lemma capacity_loop_size:
  assumes "pow2_size n" "n \<le> 2 ^ 63"
  shows "capacity_loop 8 n = Inr n"
proof -
  obtain k where k: "3 \<le> k" "n = 2 ^ k" using assms(1) by (auto simp: pow2_size_def)
  then have "(2::nat) ^ k \<le> 2 ^ 63" using assms(2) by simp
  then have "k \<le> 63" by (rule power_le_imp_le_exp [rotated]) simp
  then show ?thesis using capacity_loop_pow2 [of 3 k] k by simp
qed

lemma capacity_loop_error: "capacity_loop capacity requested = Inl e \<Longrightarrow> e = TE_BadLength"
  by (induction capacity requested rule: capacity_loop.induct)
    (subst (asm) (2) capacity_loop.simps, auto split: if_splits)

text \<open>The capacity asked for and the one granted.\<close>

lemma capacity_loop_granted:
  assumes "capacity_loop (2 ^ a) requested = Inr c"
  shows "\<exists>k. a \<le> k \<and> c = 2 ^ k \<and> requested \<le> c \<and> (a < k \<longrightarrow> c < 2 * requested)"
  using assms
proof (induction "requested - 2 ^ a" arbitrary: a rule: less_induct)
  case less
  show ?case
  proof (cases "requested \<le> 2 ^ a")
    case True
    then show ?thesis using less.prems by (subst (asm) capacity_loop.simps) auto
  next
    case False
    then have "capacity_loop (2 ^ Suc a) requested = Inr c"
      using less.prems by (subst (asm) capacity_loop.simps) (simp add: mult.commute split: if_splits)
    moreover have "requested - 2 ^ Suc a < requested - 2 ^ a"
      using False by (intro diff_less_mono2) auto
    ultimately obtain k where k: "Suc a \<le> k" "c = 2 ^ k" "requested \<le> c" "Suc a < k \<longrightarrow> c < 2 * requested"
      using less.hyps by blast
    then show ?thesis using False by (intro exI [of _ k]) (cases "k = Suc a", auto)
  qed
qed


section \<open>The hash part of a table\<close>

text \<open>The counters agree with the slots and a quarter of the slots stays empty.\<close>

definition hash_ok :: "hash_env \<Rightarrow> lua_table \<Rightarrow> bool" where
  "hash_ok H t \<longleftrightarrow>
     (if tb_nodes t = [] then tb_live t = 0 \<and> tb_used t = 0
      else nodes_ok H (tb_nodes t) \<and> tb_live t = count_live (tb_nodes t) \<and>
        tb_used t = count_used (tb_nodes t) \<and>
        tb_used t \<le> length (tb_nodes t) - length (tb_nodes t) div 4 \<and>
        length (tb_nodes t) \<le> 2 ^ 63)"

lemma hash_okD:
  assumes "hash_ok H t" "tb_nodes t \<noteq> []"
  shows "nodes_ok H (tb_nodes t)" "tb_live t = count_live (tb_nodes t)"
    "tb_used t = count_used (tb_nodes t)"
    "tb_used t \<le> length (tb_nodes t) - length (tb_nodes t) div 4" "length (tb_nodes t) \<le> 2 ^ 63"
    "tb_live t \<le> tb_used t" "8 \<le> length (tb_nodes t)"
  using assms count_live_le_used pow2_size_pos [OF nodes_ok_size] by (auto simp: hash_ok_def)

lemma hash_ok_cong: "hash_ok H (t\<lparr>tb_array := a\<rparr>) = hash_ok H t"
  "hash_ok H (t\<lparr>tb_flags := f\<rparr>) = hash_ok H t" "hash_ok H (t\<lparr>tb_metatable := m\<rparr>) = hash_ok H t"
  by (simp_all add: hash_ok_def)

lemma pow2_size_8: "pow2_size 8"
  unfolding pow2_size_def by (rule exI [of _ 3]) simp

text \<open>Rehashing to a capacity that holds every live entry returns, and keeps the entries.\<close>

lemma rehash_spec:
  assumes ok: "hash_ok H t" and n: "pow2_size n" "n \<le> 2 ^ 63" "tb_live t < n - n div 4"
  shows "\<exists>t'. rehash n t = Some (Inr t') \<and> hash_ok H t' \<and> length (tb_nodes t') = n \<and>
    entries (tb_nodes t') = entries (tb_nodes t) \<and> tb_used t' = tb_live t \<and> tb_live t' = tb_live t \<and>
    no_dead (tb_nodes t') \<and>
    t'\<lparr>tb_nodes := tb_nodes t, tb_used := tb_used t\<rparr> = t"
proof -
  have live: "length (live_nodes (tb_nodes t)) = tb_live t"
    using ok hash_okD(2) [OF ok] by (cases "tb_nodes t = []")
      (auto simp: hash_ok_def count_live_nodes live_nodes_def)
  have olds: "\<forall>m \<in> set (tb_nodes t). node_ok H m" "keys_differ (tb_nodes t)"
    using hash_okD(1) [OF ok] keys_differ_ok [of H "tb_nodes t"]
    by (cases "tb_nodes t = []"; auto simp: nodes_ok_def keys_differ_def live_nodes_def)+
  have "n - n div 4 \<le> n" by simp
  then have room: "count_used (replicate n empty_node) + length (live_nodes (tb_nodes t)) <
    length (replicate n empty_node)"
    using n(3) by (simp only: empty_nodes(3) [OF n(1)] live length_replicate)
  have fresh: "\<forall>k v. (k, v) \<in> entries (replicate n empty_node) \<longrightarrow>
    (\<forall>m \<in> set (live_nodes (tb_nodes t)). \<not> value_eq k (hn_key m))"
    by (simp only: empty_nodes(4) [OF n(1)]) simp
  obtain r where r: "rehash_copy (tb_nodes t) (replicate n empty_node) = Some r" "nodes_ok H r"
    "no_dead r" "length r = n" "count_used r = tb_live t" "entries r = entries (tb_nodes t)"
    using rehash_copy_spec [OF empty_nodes(1,2) [OF n(1)] olds room fresh]
    unfolding empty_nodes(3,4) [OF n(1)] live by auto
  have "count_live r = count_used r"
    using r(3) unfolding count_live_def count_used_def no_dead_def
    by (metis (no_types, lifting) node_state.exhaust node_state.distinct(1))
  then have "hash_ok H (t\<lparr>tb_nodes := r, tb_used := tb_live t\<rparr>)"
    using r n pow2_size_pos [OF n(1)] by (auto simp: hash_ok_def)
  then show ?thesis
    using r capacity_loop_size [OF n(1,2)] by (simp add: rehash_def)
qed

text \<open>Before an insertion there is room for one more slot; the one failure is a node array of
  \<open>2 ^ 63\<close> slots.\<close>

definition absent_key :: "hash_node list \<Rightarrow> lua_value \<Rightarrow> bool" where
  "absent_key nodes key \<longleftrightarrow> (\<forall>i < length nodes. \<not> slot_free nodes i \<longrightarrow> \<not> value_eq (hn_key (nodes ! i)) key)"

lemma absent_key_entries: "absent_key nodes key \<Longrightarrow> (k, v) \<in> entries nodes \<Longrightarrow> \<not> value_eq k key"
  by (auto simp: absent_key_def elim!: entriesE)

lemma absent_key_no_dead:
  assumes "no_dead nodes" "\<And>k v. (k, v) \<in> entries nodes \<Longrightarrow> \<not> value_eq k key"
  shows "absent_key nodes key"
  unfolding absent_key_def
proof (intro allI impI)
  fix i assume i: "i < length nodes" "\<not> slot_free nodes i"
  then have "slot_live nodes i" using assms(1) unfolding no_dead_def by (metis node_state.exhaust)
  then show "\<not> value_eq (hn_key (nodes ! i)) key" using assms(2) entriesI [OF i(1)] by blast
qed

definition makes_room :: "hash_env \<Rightarrow> lua_table \<Rightarrow> lua_table \<Rightarrow> bool" where
  "makes_room H t t' \<longleftrightarrow>
     hash_ok H t' \<and> tb_nodes t' \<noteq> [] \<and>
     tb_used t' + 1 \<le> length (tb_nodes t') - length (tb_nodes t') div 4 \<and>
     entries (tb_nodes t') = entries (tb_nodes t) \<and> tb_live t' = tb_live t \<and>
     (\<forall>key. absent_key (tb_nodes t) key \<longrightarrow> absent_key (tb_nodes t') key) \<and>
     t'\<lparr>tb_nodes := tb_nodes t, tb_used := tb_used t\<rparr> = t"

lemma rehash_makes_room:
  assumes "hash_ok H t" "pow2_size n" "n \<le> 2 ^ 63" "tb_live t < n - n div 4"
  shows "\<exists>t'. rehash n t = Some (Inr t') \<and> makes_room H t t'"
proof -
  obtain t' where t': "rehash n t = Some (Inr t')" "hash_ok H t'" "length (tb_nodes t') = n"
    "entries (tb_nodes t') = entries (tb_nodes t)" "tb_used t' = tb_live t" "tb_live t' = tb_live t"
    "no_dead (tb_nodes t')" "t'\<lparr>tb_nodes := tb_nodes t, tb_used := tb_used t\<rparr> = t"
    using rehash_spec [OF assms] by blast
  have "tb_nodes t' \<noteq> []" using t'(3) pow2_size_pos [OF assms(2)] by auto
  moreover have "\<forall>key. absent_key (tb_nodes t) key \<longrightarrow> absent_key (tb_nodes t') key"
    using absent_key_no_dead [OF t'(7)] absent_key_entries t'(4) by metis
  ultimately show ?thesis
    using t' assms(4) by (intro exI [of _ t']) (simp add: makes_room_def)
qed

lemma pow2_size_le: "pow2_size n \<Longrightarrow> n \<le> 2 ^ 63 \<Longrightarrow> \<not> usize_max div 2 < n \<Longrightarrow> n * 2 \<le> 2 ^ 63"
proof -
  assume n: "pow2_size n" "n \<le> 2 ^ 63" "\<not> usize_max div 2 < n"
  then obtain k where k: "n = 2 ^ k" by (auto simp: pow2_size_def)
  have "(2::nat) ^ k < 2 ^ 63" using n(3) k by (simp add: usize_max_def)
  then have "k < 63" by (rule power_less_imp_less_exp [rotated]) simp
  then have "(2::nat) ^ Suc k \<le> 2 ^ 63" by (intro power_increasing) auto
  then show "n * 2 \<le> 2 ^ 63" using k by simp
qed

lemma ensure_spec:
  assumes ok: "hash_ok H t"
  shows "(\<exists>t'. ensureHashInsertCapacity t = Some (Inr t') \<and> makes_room H t t') \<or>
    ensureHashInsertCapacity t = Some (Inl TE_BadLength) \<and> 2 ^ 60 < tb_live t"
proof (cases "tb_nodes t = []")
  case True
  then have "tb_live t = 0" using ok by (simp add: hash_ok_def)
  then show ?thesis
    using rehash_makes_room [OF ok pow2_size_8] True by (simp add: ensureHashInsertCapacity_def)
next
  case False
  let ?N = "length (tb_nodes t)"
  note d = hash_okD [OF ok False]
  have size: "pow2_size ?N" using d(1) nodes_ok_size by blast
  have ens: "ensureHashInsertCapacity t =
    (if tb_used t + 1 \<le> ?N - ?N div 4 then Some (Inr t)
     else if tb_live t * 2 < tb_used t then rehash ?N t
     else if usize_max div 2 < ?N then Some (Inl TE_BadLength) else rehash (?N * 2) t)"
    using False by (simp add: ensureHashInsertCapacity_def Let_def)
  consider "tb_used t + 1 \<le> ?N - ?N div 4"
    | "\<not> tb_used t + 1 \<le> ?N - ?N div 4" "tb_live t * 2 < tb_used t"
    | "\<not> tb_used t + 1 \<le> ?N - ?N div 4" "\<not> tb_live t * 2 < tb_used t" "usize_max div 2 < ?N"
    | "\<not> tb_used t + 1 \<le> ?N - ?N div 4" "\<not> tb_live t * 2 < tb_used t" "\<not> usize_max div 2 < ?N"
    by blast
  then show ?thesis
  proof cases
    case 1
    then show ?thesis using ok False by (simp add: ens makes_room_def)
  next
    case 2
    then have "tb_live t < ?N - ?N div 4" using d(4) by linarith
    then show ?thesis using rehash_makes_room [OF ok size d(5)] 2 by (simp add: ens)
  next
    case 3
    then show ?thesis using d(7) by (simp add: ens usize_max_def)
  next
    case 4
    have "tb_live t < ?N * 2 - (?N * 2) div 4" using d(4,6,7) by linarith
    then show ?thesis
      using rehash_makes_room [OF ok pow2_size_double [OF size] pow2_size_le [OF size d(5) 4(3)]] 4
      by (simp add: ens)
  qed
qed

section \<open>Lookup, removal and insertion as operations on the entries\<close>

lemma hash_get_iff:
  assumes ok: "hash_ok H t" and H: "hash_env_ok H" and "v \<noteq> VNil"
  shows "hash_get H t key = v \<longleftrightarrow> (\<exists>k. (k, v) \<in> entries (tb_nodes t) \<and> value_eq k key)"
proof (cases "tb_nodes t = []")
  case True
  then show ?thesis using assms(3) by (simp add: hash_get_def entries_def)
next
  case False
  note n = hash_okD(1) [OF ok False]
  show ?thesis
  proof (cases "findHashNode H t key False")
    case None
    then have "\<forall>i. \<not> slot_matches (tb_nodes t) key False i"
      using findHashNode_None [OF n H] by blast
    then show ?thesis using None assms(3)
      by (auto simp: hash_get_def slot_matches_def elim!: entriesE)
  next
    case (Some i)
    then have i: "i < length (tb_nodes t)" "slot_live (tb_nodes t) i" "value_eq (hn_key (tb_nodes t ! i)) key"
      using findHashNode_iff [OF n H] by (auto simp: slot_matches_def)
    have e: "(hn_key (tb_nodes t ! i), hn_value (tb_nodes t ! i)) \<in> entries (tb_nodes t)"
      using entriesI i by blast
    have "hn_value (tb_nodes t ! i) = v" if "(k, v) \<in> entries (tb_nodes t)" "value_eq k key" for k
      using entries_functional [OF n that(1) e] that(2) i(3) value_eq_trans value_eq_sym by blast
    then show ?thesis using Some e i(3) by (auto simp: hash_get_def)
  qed
qed

lemma hash_get_eqI:
  assumes "hash_ok H t" "hash_ok H t'" "hash_env_ok H"
    "\<And>k v. value_eq k key \<Longrightarrow> (k, v) \<in> entries (tb_nodes t) \<longleftrightarrow> (k, v) \<in> entries (tb_nodes t')"
  shows "hash_get H t key = hash_get H t' key"
  using hash_get_iff [OF assms(1,3)] hash_get_iff [OF assms(2,3)] assms(4) by metis

definition same_rest :: "lua_table \<Rightarrow> lua_table \<Rightarrow> bool" where
  "same_rest t t' \<longleftrightarrow> tb_array t' = tb_array t \<and> tb_metatable t' = tb_metatable t \<and> tb_flags t' = tb_flags t"

lemma makes_room_rest: "makes_room H t t' \<Longrightarrow> same_rest t t'"
proof -
  assume "makes_room H t t'"
  then have "t'\<lparr>tb_nodes := tb_nodes t, tb_used := tb_used t\<rparr> = t" by (simp add: makes_room_def)
  then show ?thesis unfolding same_rest_def by (cases t; cases t') simp
qed

lemma slot_matches_used: "slot_matches nodes key d i \<Longrightarrow> slot_matches nodes key True i"
  by (auto simp: slot_matches_def)

text \<open>Overwriting an occupied slot that matches the key, keeping its key and hash.\<close>

lemma overwrite_match:
  assumes ok: "hash_ok H t" and m: "slot_matches (tb_nodes t) key True i"
    and n: "hn_key n = hn_key (tb_nodes t ! i)" "hn_hash n = hn_hash (tb_nodes t ! i)"
      "hn_state n \<noteq> NS_Empty" "hn_state n = NS_Live \<Longrightarrow> hn_value n \<noteq> VNil"
    and live: "live + (if slot_live (tb_nodes t) i then 1 else 0) =
      tb_live t + (if hn_state n = NS_Live then 1 else 0)"
  defines "t' \<equiv> t\<lparr>tb_nodes := (tb_nodes t)[i := n], tb_live := live\<rparr>"
  shows "hash_ok H t'" "entries (tb_nodes t') = {(k, v) \<in> entries (tb_nodes t). \<not> value_eq k key} \<union>
    (if hn_state n = NS_Live then {(hn_key n, hn_value n)} else {})"
proof -
  have i: "i < length (tb_nodes t)" "\<not> slot_free (tb_nodes t) i" using m by (auto simp: slot_matches_def)
  then have "tb_nodes t \<noteq> []" by auto
  note d = hash_okD [OF ok this]
  have "nodes_ok H ((tb_nodes t)[i := n])" by (rule nodes_ok_revalue [OF d(1) i n])
  moreover have "count_used ((tb_nodes t)[i := n]) = count_used (tb_nodes t)"
    using count_used_update [OF i(1), of n] i(2) n(3) by simp
  moreover have "count_live ((tb_nodes t)[i := n]) = live"
    using count_live_update [OF i(1), of n] live d(2) by (simp split: if_splits)
  ultimately show "hash_ok H t'" using d i by (auto simp: hash_ok_def t'_def)
  show "entries (tb_nodes t') = {(k, v) \<in> entries (tb_nodes t). \<not> value_eq k key} \<union>
    (if hn_state n = NS_Live then {(hn_key n, hn_value n)} else {})"
    unfolding t'_def using entries_update [OF i(1), of n] entries_others [OF d(1) m] by auto
qed

lemma removeHash_spec:
  assumes ok: "hash_ok H t" and H: "hash_env_ok H"
  shows "hash_ok H (removeHash H t key) \<and> same_rest t (removeHash H t key) \<and>
    entries (tb_nodes (removeHash H t key)) = {(k, v) \<in> entries (tb_nodes t). \<not> value_eq k key} \<and>
    tb_live (removeHash H t key) \<le> tb_live t"
proof (cases "findHashNode H t key False")
  case None
  have "\<not> value_eq k key" if "(k, v) \<in> entries (tb_nodes t)" for k v
  proof
    assume "value_eq k key"
    then have "hash_get H t key = v \<or> v = VNil" using hash_get_iff [OF ok H] that by blast
    moreover have "tb_nodes t \<noteq> []" using that by (auto simp: entries_def)
    then have "v \<noteq> VNil" using entries_valid(3) [OF hash_okD(1) [OF ok] that] by blast
    ultimately show False using None by (simp add: hash_get_def)
  qed
  then show ?thesis using ok None by (auto simp: removeHash_def same_rest_def)
next
  case (Some i)
  then have ne: "tb_nodes t \<noteq> []" by (auto simp: findHashNode_def)
  have m: "slot_matches (tb_nodes t) key False i"
    using findHashNode_iff [OF hash_okD(1) [OF ok ne] H] Some by blast
  then have live: "slot_live (tb_nodes t) i" by (simp add: slot_matches_def)
  have "{(hn_key (tb_nodes t ! i), hn_value (tb_nodes t ! i))} \<subseteq> entries (tb_nodes t)"
    using m by (auto simp: slot_matches_def intro!: entriesI)
  have pos: "0 < tb_live t"
    using count_live_update [of i "tb_nodes t" empty_node] m live hash_okD(2) [OF ok ne]
    by (simp add: slot_matches_def empty_node_def)
  have *: "removeHash H t key = t\<lparr>tb_nodes := (tb_nodes t)[i := (tb_nodes t ! i)
      \<lparr>hn_value := VNil, hn_state := NS_Dead\<rparr>], tb_live := tb_live t - 1\<rparr>"
    using Some by (simp add: removeHash_def)
  show ?thesis
    unfolding * using overwrite_match [OF ok slot_matches_used [OF m], of
        "(tb_nodes t ! i)\<lparr>hn_value := VNil, hn_state := NS_Dead\<rparr>" "tb_live t - 1"] live pos
    by (simp add: same_rest_def)
qed

lemma absent_key_find:
  assumes ok: "hash_ok H t" and H: "hash_env_ok H" and "findHashNode H t key True = None"
  shows "absent_key (tb_nodes t) key"
proof (cases "tb_nodes t = []")
  case True
  then show ?thesis by (simp add: absent_key_def)
next
  case False
  then show ?thesis
    using findHashNode_None [OF hash_okD(1) [OF ok] H] assms(3)
    by (auto simp: absent_key_def slot_matches_def)
qed

text \<open>Writing a fresh key to the slot the probe found.\<close>

lemma insert_fresh:
  assumes ok: "hash_ok H t" and ne: "tb_nodes t \<noteq> []"
    and room: "tb_used t + 1 \<le> length (tb_nodes t) - length (tb_nodes t) div 4"
    and absent: "absent_key (tb_nodes t) key" and key: "valid_key key" "value_wf key" "val \<noteq> VNil"
  obtains i fd where "insert_probe (tb_nodes t) (ValueHash H key AND (length (tb_nodes t) - 1)) None =
      Some (i, fd)"
    "let t' = t\<lparr>tb_nodes := (tb_nodes t)[i := \<lparr>hn_key = key, hn_value = val,
              hn_hash = ValueHash H key, hn_state = NS_Live\<rparr>],
            tb_live := tb_live t + 1, tb_used := (if fd = None then tb_used t + 1 else tb_used t)\<rparr>
     in hash_ok H t' \<and> entries (tb_nodes t') = insert (key, val) (entries (tb_nodes t))"
proof -
  let ?N = "length (tb_nodes t)" and ?h = "ValueHash H key"
  let ?n = "\<lparr>hn_key = key, hn_value = val, hn_hash = ?h, hn_state = NS_Live\<rparr>"
  note d = hash_okD [OF ok ne]
  have size: "pow2_size ?N" using d(1) nodes_ok_size by blast
  have "count_used (tb_nodes t) < ?N" using room d(3) by linarith
  from insert_probe_spec [OF size this, of ?h]
  obtain i fd where i: "insert_probe (tb_nodes t) (at_offset (tb_nodes t) ?h 0) None = Some (i, fd)"
    "i < ?N" "\<not> slot_live (tb_nodes t) i" "reachable_slot (tb_nodes t) ?h i"
    "fd = None \<longleftrightarrow> slot_free (tb_nodes t) i" by metis
  have "nodes_ok H ((tb_nodes t)[i := ?n])"
    using absent i(4) key
    by (intro nodes_ok_update [OF d(1) i(2)]) (auto simp: node_ok_def absent_key_def)
  moreover have "count_live ((tb_nodes t)[i := ?n]) = tb_live t + 1"
    using count_live_update [OF i(2), of ?n] i(3) d(2) by simp
  moreover have "count_used ((tb_nodes t)[i := ?n]) = (if fd = None then tb_used t + 1 else tb_used t)"
    using count_used_update [OF i(2), of ?n] i(5) d(3) by (simp split: if_splits)
  moreover have "entries ((tb_nodes t)[i := ?n]) = insert (key, val) (entries (tb_nodes t))"
    using entries_update [OF i(2), of ?n] entries_all [of "tb_nodes t" i] i(3) by simp
  ultimately show thesis
    using that [of i fd] i(1) and_size_mask [OF size, of ?h] ne room d(4,5)
    by (simp add: at_offset_def hash_ok_def Let_def)
qed

end
