(* ===== verification/TableProps.thy ===== *)
theory TableProps
  imports HashPart
begin

lemma setHash_spec:
  assumes ok: "hash_ok H t" and H: "hash_env_ok H" and key: "valid_key key" "value_wf key" "val \<noteq> VNil"
  shows "(\<exists>t' k. setHash H rp t key val = Some (Inr t') \<and> hash_ok H t' \<and> same_rest t t' \<and>
      value_eq k key \<and> value_wf k \<and>
      entries (tb_nodes t') = insert (k, val) {(k, v) \<in> entries (tb_nodes t). \<not> value_eq k key} \<and>
      (hash_get H t key = VNil \<longrightarrow> tb_live t < rp_maxTableHashEntries rp) \<and>
      tb_live t' = tb_live t + (if hash_get H t key = VNil then 1 else 0)) \<or>
    setHash H rp t key val = Some (Inl TE_HashLimit) \<and> hash_get H t key = VNil \<and>
      rp_maxTableHashEntries rp \<le> tb_live t \<or>
    setHash H rp t key val = Some (Inl TE_BadLength) \<and> 2 ^ 60 < tb_live t \<and> 
      tb_live t < rp_maxTableHashEntries rp"
proof (cases "findHashNode H t key True")
  case (Some i)
  then have ne: "tb_nodes t \<noteq> []" by (auto simp: findHashNode_def)
  note d = hash_okD [OF ok ne]
  have m: "slot_matches (tb_nodes t) key True i" using findHashNode_iff [OF d(1) H] Some by blast
  let ?m = "tb_nodes t ! i"
  have k: "value_eq (hn_key ?m) key" "value_wf (hn_key ?m)"
    using m nodes_ok_key [OF d(1)] by (auto simp: slot_matches_def)
  have get: "hash_get H t key = VNil \<longleftrightarrow> \<not> slot_live (tb_nodes t) i"
  proof
    assume "\<not> slot_live (tb_nodes t) i"
    then have "\<not> slot_matches (tb_nodes t) key False j" for j
      using slot_matches_unique [OF d(1) _ m, of False j] by (auto simp: slot_matches_def)
    then have "findHashNode H t key False = None" using findHashNode_None [OF d(1) H] by blast
    then show "hash_get H t key = VNil" by (simp add: hash_get_def)
  next
    assume g: "hash_get H t key = VNil"
    show "\<not> slot_live (tb_nodes t) i"
    proof
      assume l: "slot_live (tb_nodes t) i"
      have "(hn_key ?m, hn_value ?m) \<in> entries (tb_nodes t)"
        using m l by (auto simp: slot_matches_def intro: entriesI)
      then show False
        using hash_get_iff [OF ok H] entries_valid(3) [OF d(1)] g k(1) by metis
    qed
  qed
  show ?thesis
  proof (cases "slot_live (tb_nodes t) i")
    case True
    have "setHash H rp t key val = Some (Inr (t\<lparr>tb_nodes := (tb_nodes t)[i := ?m\<lparr>hn_value := val\<rparr>],
        tb_live := tb_live t\<rparr>))"
      using Some True by (simp add: setHash_def)
    then show ?thesis
      using overwrite_match [OF ok m, of "?m\<lparr>hn_value := val\<rparr>" "tb_live t"] True k key(3) get
      by (intro disjI1 exI conjI) (assumption | simp add: same_rest_def)+
  next
    case False
    show ?thesis
    proof (cases "rp_maxTableHashEntries rp \<le> tb_live t")
      case limit: True
      then show ?thesis using Some False get by (simp add: setHash_def)
    next
      case free: False
      then have "setHash H rp t key val = Some (Inr (t\<lparr>tb_nodes := (tb_nodes t)
          [i := ?m\<lparr>hn_value := val, hn_state := NS_Live\<rparr>], tb_live := tb_live t + 1\<rparr>))"
        using Some False by (simp add: setHash_def)
      then show ?thesis
        using overwrite_match [OF ok m, of "?m\<lparr>hn_value := val, hn_state := NS_Live\<rparr>" "tb_live t + 1"]
          False k key(3) get free
        by (intro disjI1 exI conjI) (assumption | simp add: same_rest_def)+
    qed
  qed
next
  case None
  note absent = absent_key_find [OF ok H None]
  have get: "hash_get H t key = VNil"
    using hash_get_iff [OF ok H] absent_key_entries [OF absent] by metis
  have others: "{(k, v) \<in> entries (tb_nodes t). \<not> value_eq k key} = entries (tb_nodes t)"
    using absent_key_entries [OF absent] by auto
  show ?thesis
  proof (cases "rp_maxTableHashEntries rp \<le> tb_live t")
    case True
    then show ?thesis using None get by (simp add: setHash_def)
  next
    case False
    from ensure_spec [OF ok] show ?thesis
    proof (elim disjE exE conjE)
      assume "ensureHashInsertCapacity t = Some (Inl TE_BadLength)" "2 ^ 60 < tb_live t"
      then show ?thesis using None False by (simp add: setHash_def)
    next
      fix t1 assume t1: "ensureHashInsertCapacity t = Some (Inr t1)" and room: "makes_room H t t1"
      then have r: "hash_ok H t1" "tb_nodes t1 \<noteq> []" "absent_key (tb_nodes t1) key"
        "tb_used t1 + 1 \<le> length (tb_nodes t1) - length (tb_nodes t1) div 4"
        "entries (tb_nodes t1) = entries (tb_nodes t)" "tb_live t1 = tb_live t"
        using absent by (auto simp: makes_room_def)
      obtain i fd where i: "insert_probe (tb_nodes t1) (ValueHash H key AND (length (tb_nodes t1) - 1)) None =
          Some (i, fd)"
        "let t' = t1\<lparr>tb_nodes := (tb_nodes t1)[i := \<lparr>hn_key = key, hn_value = val,
                  hn_hash = ValueHash H key, hn_state = NS_Live\<rparr>],
                tb_live := tb_live t1 + 1, tb_used := (if fd = None then tb_used t1 + 1 else tb_used t1)\<rparr>
         in hash_ok H t' \<and> entries (tb_nodes t') = insert (key, val) (entries (tb_nodes t1))"
        using insert_fresh [OF r(1,2,4,3) key] by metis
      have "value_eq key key" using key(1) by (simp add: value_eq_refl valid_key_def)
      then show ?thesis
        using i t1 None False get others r makes_room_rest [OF room] key(2)
        by (intro disjI1 exI conjI) (assumption | simp add: setHash_def Let_def same_rest_def)+
    qed
  qed
qed


section \<open>The table invariant\<close>

abbreviation int_key :: "int \<Rightarrow> lua_value" where
  "int_key i \<equiv> VNumber (f64_of_int i)"

definition array_at :: "lua_table \<Rightarrow> int \<Rightarrow> lua_value" where
  "array_at t i = (if 1 \<le> i \<and> nat i \<le> length (tb_array t) then tb_array t ! nat (i - 1) else VNil)"

text \<open>No integer key has a value in both parts, and the array keeps to the policy.\<close>

definition table_wf :: "hash_env \<Rightarrow> resource_policy \<Rightarrow> lua_table \<Rightarrow> bool" where
  "table_wf H rp t \<longleftrightarrow> hash_ok H t \<and> length (tb_array t) \<le> rp_maxTableArraySlots rp \<and>
     tb_live t \<le> rp_maxTableHashEntries rp \<and>
     (\<forall>i. array_at t i \<noteq> VNil \<longrightarrow> hash_get H t (int_key i) = VNil)"

text \<open>The limits of a policy fit the integers the code computes with.\<close>

definition policy_ok :: "resource_policy \<Rightarrow> bool" where
  "policy_ok rp \<longleftrightarrow> int (rp_maxTableArraySlots rp) \<le> i32_max \<and> rp_maxTableHashEntries rp \<le> 2 ^ 60"

lemma default_policy_ok: "policy_ok default_resource_policy"
  by (simp add: policy_ok_def default_resource_policy_def i32_max_def)

lemma int_key_inject:
  "1 \<le> i \<Longrightarrow> i \<le> i32_max \<Longrightarrow> 1 \<le> j \<Longrightarrow> j \<le> i32_max \<Longrightarrow> value_eq (int_key i) (int_key j) \<longleftrightarrow> i = j"
  using is_int_f64_eq [OF f64_of_int_is_int f64_of_int_is_int, of i j]
  by (auto simp: value_eq_def i32_max_def)

lemma f64_of_int_not_nan: "f64_of_int n \<noteq> F_NaN"
  by (simp add: f64_of_int_def f64_fin_def round_pack_def Let_def split: prod.splits)

lemma int_key_valid [simp]: "valid_key (int_key i)" "value_wf (int_key i)"
  by (simp_all add: valid_key_def f64_of_int_not_nan f64_wf_of_int)

lemma in_array_iff: "in_array t key = Some i \<longleftrightarrow>
    isPositiveIntegerKey key = Some i \<and> nat i \<le> length (tb_array t)"
  by (auto simp: in_array_def split: option.splits)

lemma in_array_cong:
  assumes "value_wf v" "value_wf w" "value_eq v w"
  shows "in_array t v = in_array t w"
  using isPositiveIntegerKey_cong [OF assms] by (simp add: in_array_def)

lemma hash_get_cong:
  assumes "hash_ok H t" "hash_env_ok H" "value_eq v w"
  shows "hash_get H t v = hash_get H t w"
proof -
  have "(\<exists>k. (k, x) \<in> entries (tb_nodes t) \<and> value_eq k v) \<longleftrightarrow>
    (\<exists>k. (k, x) \<in> entries (tb_nodes t) \<and> value_eq k w)" for x
    using assms(3) value_eq_trans value_eq_sym by metis
  then show ?thesis using hash_get_iff [OF assms(1,2)] by metis
qed

text \<open>What a key reads, as one lookup in each part.\<close>

definition array_part :: "lua_table \<Rightarrow> lua_value \<Rightarrow> lua_value" where
  "array_part t key = (case isPositiveIntegerKey key of Some i \<Rightarrow> array_at t i | None \<Rightarrow> VNil)"

lemma table_get_parts:
  assumes "value_wf key"
  shows "table_get H t key = (if array_part t key \<noteq> VNil then array_part t key else hash_get H t key)"
proof (cases "isPositiveIntegerKey key")
  case (Some i)
  then have "1 \<le> i" using isPositiveIntegerKey_Some [OF assms] by blast
  then show ?thesis using Some
    by (auto simp: table_get_def in_array_def array_part_def array_at_def getArray_def isNil_def Let_def)
qed (simp add: table_get_def in_array_def array_part_def)

lemma array_part_cong: "value_wf v \<Longrightarrow> value_wf w \<Longrightarrow> value_eq v w \<Longrightarrow> array_part t v = array_part t w"
  using isPositiveIntegerKey_cong by (simp add: array_part_def)

lemma table_get_cong:
  assumes "hash_ok H t" "hash_env_ok H" "value_wf v" "value_wf w" "value_eq v w"
  shows "table_get H t v = table_get H t w"
  using array_part_cong [OF assms(3-5)] hash_get_cong [OF assms(1,2,5)] assms(3,4)
  by (simp add: table_get_parts)

lemma isPositiveIntegerKey_eq:
  assumes "value_wf key" "1 \<le> i" "i \<le> i32_max"
  shows "value_eq key (int_key i) \<longleftrightarrow> isPositiveIntegerKey key = Some i"
  using isPositiveIntegerKey_cong [OF assms(1) int_key_valid(2)] isPositiveIntegerKey_Some [OF assms(1)]
    isPositiveIntegerKey_Some [OF int_key_valid(2)] assms(2,3) value_eq_refl [of key]
  by (metis int_key_valid(1) valid_key_def)

section \<open>Removal\<close>

lemma hash_get_removed:
  assumes "hash_ok H t" "hash_ok H t'" "hash_env_ok H"
    "entries (tb_nodes t') = {(k, v) \<in> entries (tb_nodes t). \<not> value_eq k key}"
  shows "hash_get H t' key' = (if value_eq key key' then VNil else hash_get H t key')"
proof (cases "value_eq key key'")
  case True
  then have "\<not> (\<exists>k. (k, v) \<in> entries (tb_nodes t') \<and> value_eq k key')" for v
    using assms(4) value_eq_trans value_eq_sym by blast
  then show ?thesis using hash_get_iff [OF assms(2,3)] True by metis
next
  case False
  then have "value_eq k key' \<Longrightarrow> (k, v) \<in> entries (tb_nodes t) \<longleftrightarrow> (k, v) \<in> entries (tb_nodes t')" for k v
    using assms(4) value_eq_trans value_eq_sym by blast
  then show ?thesis using hash_get_eqI [OF assms(1-3)] False by simp
qed

lemma removeHash_get:
  assumes "hash_ok H t" "hash_env_ok H"
  shows "hash_get H (removeHash H t key) key' = (if value_eq key key' then VNil else hash_get H t key')"
  using hash_get_removed [OF assms(1) _ assms(2)] removeHash_spec [OF assms] by blast

lemma array_at_rest: "same_rest t t' \<Longrightarrow> array_at t' i = array_at t i"
  by (simp add: same_rest_def array_at_def)

lemma array_at_update:
  "1 \<le> j \<Longrightarrow> nat j \<le> length (tb_array t) \<Longrightarrow>
   array_at (t\<lparr>tb_array := (tb_array t)[nat (j - 1) := v]\<rparr>) i = (if i = j then v else array_at t i)"
  by (auto simp: array_at_def nth_list_update)

lemma findHashNode_array [simp]:
  "findHashNode H (t\<lparr>tb_array := a\<rparr>) key d = findHashNode H t key d"
  "findHashNode H (t\<lparr>tb_flags := f\<rparr>) key d = findHashNode H t key d"
  by (simp_all add: findHashNode_def)

lemma hash_get_array [simp]:
  "hash_get H (t\<lparr>tb_array := a\<rparr>) key = hash_get H t key" "hash_get H (t\<lparr>tb_flags := f\<rparr>) key = hash_get H t key"
  by (simp_all add: hash_get_def split: option.splits)

lemma array_at_flags [simp]: "array_at (t\<lparr>tb_flags := f\<rparr>) = array_at t"
  by (rule ext) (simp add: array_at_def)

lemma array_part_flags [simp]: "array_part (t\<lparr>tb_flags := f\<rparr>) = array_part t"
  by (rule ext) (simp add: array_part_def split: option.splits)

text \<open>Writing one array slot and dropping the integer key from the hash part: the step shared by
  removal and by \<open>setArrayRange\<close>.\<close>

definition array_write :: "hash_env \<Rightarrow> lua_table \<Rightarrow> int \<Rightarrow> lua_value \<Rightarrow> lua_table" where
  "array_write H t i v = removeHash H (t\<lparr>tb_array := (tb_array t)[nat (i - 1) := v]\<rparr>) (int_key i)"

lemma array_write_spec:
  assumes wf: "hash_ok H t" "hash_env_ok H" and i: "1 \<le> i" "i \<le> i32_max" "nat i \<le> length (tb_array t)"
  shows "hash_ok H (array_write H t i v)"
    "array_at (array_write H t i v) j = (if j = i then v else array_at t j)"
    "hash_get H (array_write H t i v) key = (if value_eq (int_key i) key then VNil else hash_get H t key)"
    "length (tb_array (array_write H t i v)) = length (tb_array t)"
    "tb_live (array_write H t i v) \<le> tb_live t"
    "tb_flags (array_write H t i v) = tb_flags t"
    "tb_metatable (array_write H t i v) = tb_metatable t"
proof -
  let ?t = "t\<lparr>tb_array := (tb_array t)[nat (i - 1) := v]\<rparr>"
  have ok: "hash_ok H ?t" using wf(1) by (simp add: hash_ok_cong)
  note r = removeHash_spec [OF ok wf(2), of "int_key i"]
  then have rest: "same_rest ?t (array_write H t i v)" by (simp add: array_write_def)
  show "hash_ok H (array_write H t i v)" "tb_live (array_write H t i v) \<le> tb_live t"
    using r by (simp_all add: array_write_def)
  show "array_at (array_write H t i v) j = (if j = i then v else array_at t j)"
    using array_at_rest [OF rest] array_at_update [OF i(1,3)] by simp
  show "hash_get H (array_write H t i v) key = (if value_eq (int_key i) key then VNil else hash_get H t key)"
    using removeHash_get [OF ok wf(2)] by (simp add: array_write_def)
  show "length (tb_array (array_write H t i v)) = length (tb_array t)" "tb_flags (array_write H t i v) = tb_flags t"
    "tb_metatable (array_write H t i v) = tb_metatable t"
    using rest by (simp_all add: same_rest_def)
qed

lemma table_get_array_write:
  assumes wf: "hash_ok H t" "hash_env_ok H" and i: "1 \<le> i" "i \<le> i32_max" "nat i \<le> length (tb_array t)"
    and key: "value_wf key"
  shows "table_get H (array_write H t i v) key = (if value_eq (int_key i) key then v else table_get H t key)"
proof -
  have eq: "value_eq (int_key i) key \<longleftrightarrow> isPositiveIntegerKey key = Some i"
    using isPositiveIntegerKey_eq [OF key i(1,2)] value_eq_sym by blast
  have "array_part (array_write H t i v) key = (if isPositiveIntegerKey key = Some i then v else array_part t key)"
    unfolding array_part_def array_write_spec(2) [OF wf i] by (auto split: option.splits)
  then show ?thesis
    unfolding table_get_parts [OF key] array_write_spec(3) [OF wf i] eq by auto
qed

lemma table_wf_array_write:
  assumes wf: "table_wf H rp t" "hash_env_ok H" "policy_ok rp"
    and i: "1 \<le> i" "nat i \<le> length (tb_array t)"
  shows "table_wf H rp (array_write H t i v)"
proof -
  have ok: "hash_ok H t" using wf(1) by (simp add: table_wf_def)
  have i': "i \<le> i32_max" using i(2) wf(1,3) by (auto simp: table_wf_def policy_ok_def)
  note s = array_write_spec [OF ok wf(2) i(1) i' i(2)]
  have "hash_get H (array_write H t i v) (int_key j) = VNil" if "array_at (array_write H t i v) j \<noteq> VNil" for j
    using that wf(1) value_eq_refl [of "int_key i"] f64_of_int_not_nan
    by (cases "j = i") (auto simp: s(2,3) table_wf_def)
  moreover have "tb_live (array_write H t i v) \<le> rp_maxTableHashEntries rp"
    using s(5) [of v] wf(1) unfolding table_wf_def by linarith
  ultimately show ?thesis using s(1,4) wf(1) unfolding table_wf_def by simp
qed

text \<open>Dropping a key that is not in the array.\<close>

lemma table_get_removeHash:
  assumes "hash_ok H t" "hash_env_ok H" "value_wf key" "value_wf key'" "array_part t key = VNil"
  shows "table_get H (removeHash H t key) key' = (if value_eq key key' then VNil else table_get H t key')"
proof -
  have "array_part (removeHash H t key) key' = array_part t key'"
    using array_at_rest removeHash_spec [OF assms(1,2)] by (simp add: array_part_def split: option.splits)
  moreover have "array_part t key' = VNil" if "value_eq key key'"
    using array_part_cong [OF assms(3,4) that] assms(5) by simp
  ultimately show ?thesis
    using removeHash_get [OF assms(1,2)] by (simp add: table_get_parts [OF assms(4)])
qed

lemma table_wf_removeHash:
  assumes "table_wf H rp t" "hash_env_ok H"
  shows "table_wf H rp (removeHash H t key)"
proof -
  have ok: "hash_ok H t" using assms(1) by (simp add: table_wf_def)
  note r = removeHash_spec [OF ok assms(2), of key]
  then have rest: "same_rest t (removeHash H t key)" by blast
  then have "length (tb_array (removeHash H t key)) = length (tb_array t)" by (simp add: same_rest_def)
  moreover have "tb_live (removeHash H t key) \<le> rp_maxTableHashEntries rp"
    using r assms(1) unfolding table_wf_def by linarith
  moreover have "hash_get H (removeHash H t key) (int_key i) = VNil"
    if "array_at (removeHash H t key) i \<noteq> VNil" for i
    using that assms(1) array_at_rest [OF rest] removeHash_get [OF ok assms(2)]
    by (simp add: table_wf_def)
  ultimately show ?thesis using r assms(1) unfolding table_wf_def by simp
qed

lemma table_wf_flags: "table_wf H rp (t\<lparr>tb_flags := f\<rparr>) = table_wf H rp t"
  by (simp add: table_wf_def hash_ok_cong)

lemma table_get_flags [simp]: "value_wf key \<Longrightarrow> table_get H (t\<lparr>tb_flags := f\<rparr>) key = table_get H t key"
  by (simp add: table_get_parts)

lemma table_remove_cases:
  assumes "value_wf key"
  shows "table_remove H t key =
    (case isPositiveIntegerKey key of
       Some i \<Rightarrow> if nat i \<le> length (tb_array t) then array_write H (t\<lparr>tb_flags := 0\<rparr>) i VNil
                 else removeHash H (t\<lparr>tb_flags := 0\<rparr>) key
     | None \<Rightarrow> removeHash H (t\<lparr>tb_flags := 0\<rparr>) key)"
proof (cases "isPositiveIntegerKey key")
  case (Some i)
  then have "key = int_key i" "1 \<le> i" using isPositiveIntegerKey_Some [OF assms] by auto
  have "t\<lparr>tb_flags := 0, tb_array := (tb_array t)[nat (i - 1) := VNil]\<rparr> = t\<lparr>tb_flags := 0\<rparr>"
    if "tb_array t ! nat (i - 1) = VNil"
    using list_update_id [of "tb_array t" "nat (i - 1)"] unfolding that by (cases t) simp
  then show ?thesis
    using Some \<open>key = int_key i\<close> by (auto simp: table_remove_def in_array_def array_write_def isNil_def Let_def)
qed (simp add: table_remove_def in_array_def Let_def)

lemma table_remove_spec:
  assumes wf: "table_wf H rp t" "hash_env_ok H" "policy_ok rp" and key: "value_wf key"
  shows "table_wf H rp (table_remove H t key)"
    "value_wf key' \<Longrightarrow> table_get H (table_remove H t key) key' =
      (if value_eq key key' then VNil else table_get H t key')"
proof -
  let ?t = "t\<lparr>tb_flags := 0\<rparr>"
  have wf': "table_wf H rp ?t" using wf(1) by (simp add: table_wf_flags)
  then have ok: "hash_ok H ?t" by (simp add: table_wf_def)
  consider i where "isPositiveIntegerKey key = Some i" "nat i \<le> length (tb_array t)"
    | "\<forall>i. isPositiveIntegerKey key = Some i \<longrightarrow> \<not> nat i \<le> length (tb_array t)"
    by blast
  then have "table_wf H rp (table_remove H t key) \<and> (value_wf key' \<longrightarrow>
    table_get H (table_remove H t key) key' = (if value_eq key key' then VNil else table_get H t key'))"
  proof cases
    case 1
    then have i: "1 \<le> i" "i \<le> i32_max" "key = int_key i" "nat i \<le> length (tb_array ?t)"
      using isPositiveIntegerKey_Some [OF key] by auto
    have "table_remove H t key = array_write H ?t i VNil"
      using 1 by (simp add: table_remove_cases [OF key])
    then show ?thesis
      using table_wf_array_write [OF wf' wf(2,3) i(1,4)] table_get_array_write [OF ok wf(2) i(1,2,4)] i(3)
      by simp
  next
    case 2
    then have "array_part ?t key = VNil" "table_remove H t key = removeHash H ?t key"
      by (auto simp: table_remove_cases [OF key] array_part_def array_at_def split: option.splits)
    then show ?thesis
      using table_wf_removeHash [OF wf' wf(2)] table_get_removeHash [OF ok wf(2) key, of key'] by simp
  qed
  then show "table_wf H rp (table_remove H t key)"
    "value_wf key' \<Longrightarrow> table_get H (table_remove H t key) key' =
      (if value_eq key key' then VNil else table_get H t key')" by auto
qed

section \<open>The array range\<close>

lemma setArrayRange_loop_spec:
  assumes "hash_env_ok H" "policy_ok rp" "table_wf H rp t" "slot + length vs \<le> length (tb_array t)"
  shows "table_wf H rp (setArrayRange_loop H slot vs t) \<and>
    (value_wf key \<longrightarrow> table_get H (setArrayRange_loop H slot vs t) key =
      (case isPositiveIntegerKey key of
         Some i \<Rightarrow> if int slot < i \<and> i \<le> int (slot + length vs) then vs ! nat (i - 1 - int slot)
                   else table_get H t key
       | None \<Rightarrow> table_get H t key))"
  using assms(3,4)
proof (induction vs arbitrary: slot t)
  case Nil
  then show ?case by (auto split: option.splits)
next
  case (Cons v vs)
  have i: "1 \<le> int (slot + 1)" "int (slot + 1) \<le> i32_max" "nat (int (slot + 1)) \<le> length (tb_array t)"
    using Cons.prems assms(2) by (auto simp: table_wf_def policy_ok_def)
  have ok: "hash_ok H t" using Cons.prems(1) by (simp add: table_wf_def)
  have step: "setArrayRange_loop H slot (v # vs) t =
    setArrayRange_loop H (slot + 1) vs (array_write H t (int (slot + 1)) v)"
    by (simp add: array_write_def)
  note ws = array_write_spec(4) [OF ok assms(1) i] table_wf_array_write [OF Cons.prems(1) assms(1,2) i(1,3)]
  have IH: "table_wf H rp (setArrayRange_loop H slot (v # vs) t)"
    "value_wf key \<Longrightarrow> table_get H (setArrayRange_loop H slot (v # vs) t) key =
      (case isPositiveIntegerKey key of
         Some i \<Rightarrow> if int (slot + 1) < i \<and> i \<le> int (slot + 1 + length vs)
                   then vs ! nat (i - 1 - int (slot + 1))
                   else table_get H (array_write H t (int (slot + 1)) v) key
       | None \<Rightarrow> table_get H (array_write H t (int (slot + 1)) v) key)"
    using Cons.IH [OF ws(2), of "slot + 1" v] Cons.prems(2) ws(1) unfolding step by auto
  have "table_get H (array_write H t (int (slot + 1)) v) key =
    (if isPositiveIntegerKey key = Some (int (slot + 1)) then v else table_get H t key)" if "value_wf key"
    using table_get_array_write [OF ok assms(1) i that] isPositiveIntegerKey_eq [OF that i(1,2)] value_eq_sym
    by simp
  moreover have "vs ! nat (j - 1 - int (slot + 1)) = (v # vs) ! nat (j - 1 - int slot)"
    if "int (slot + 1) < j" for j
  proof -
    have "nat (j - 1 - int slot) = Suc (nat (j - 1 - int (slot + 1)))" using that by linarith
    then show ?thesis by simp
  qed
  ultimately show ?case using IH by (auto split: option.splits)
qed

lemma array_at_grow: "tb_array t' = tb_array t @ replicate n VNil \<Longrightarrow> array_at t' i = array_at t i"
  by (auto simp: array_at_def nth_append)

lemma array_part_eqI: "(\<And>i. array_at t' i = array_at t i) \<Longrightarrow> array_part t' key = array_part t key"
  by (simp add: array_part_def split: option.splits)

text \<open>The array grows to the size the range needs; then the slots are written one by one.\<close>

lemma setArrayRange_grown:
  assumes H: "hash_env_ok H" "policy_ok rp" and wf: "table_wf H rp t"
    and args: "1 \<le> firstIndex" "values \<noteq> []" "nat (firstIndex - 1) + length values \<le> rp_maxTableArraySlots rp"
  obtains t1 where "setArrayRange H rp t firstIndex values =
      Inr (setArrayRange_loop H (nat (firstIndex - 1)) values t1)"
    "table_wf H rp t1" "length (tb_array t1) = max (length (tb_array t)) (nat (firstIndex - 1) + length values)"
    "\<And>k. hash_get H t1 k = hash_get H t k" "\<And>i. array_at t1 i = array_at t i"
proof -
  let ?slot = "nat (firstIndex - 1)"
  define arr where "arr = (if length (tb_array t) < ?slot + length values
    then tb_array t @ replicate (?slot + length values - length (tb_array t)) VNil else tb_array t)"
  define t1 where "t1 = t\<lparr>tb_array := arr, tb_flags := 0\<rparr>"
  obtain n where n: "tb_array t1 = tb_array t @ replicate n VNil"
    by (cases "length (tb_array t) < ?slot + length values") (auto simp: t1_def arr_def)
  have at: "array_at t1 i = array_at t i" for i by (rule array_at_grow [OF n])
  have len: "length (tb_array t1) = max (length (tb_array t)) (?slot + length values)"
    by (simp add: t1_def arr_def)
  have hg: "hash_get H t1 k = hash_get H t k" for k unfolding t1_def by simp
  have "hash_ok H t1 = hash_ok H t" "tb_live t1 = tb_live t" by (simp_all add: t1_def hash_ok_cong)
  then have wf1: "table_wf H rp t1" using wf len args(3) at hg by (simp add: table_wf_def)
  have big: "\<not> usize_max - ?slot < length values"
    using args(3) H(2) unfolding policy_ok_def usize_max_def i32_max_def by linarith
  have "setArrayRange H rp t firstIndex values = Inr (setArrayRange_loop H ?slot values t1)"
    using args big by (simp add: setArrayRange_def t1_def arr_def Let_def)
  then show thesis using that wf1 len hg at by blast
qed

lemma setArrayRange_spec:
  assumes H: "hash_env_ok H" "policy_ok rp" and wf: "table_wf H rp t"
    and args: "1 \<le> firstIndex" "values \<noteq> []" "nat (firstIndex - 1) + length values \<le> rp_maxTableArraySlots rp"
  shows "\<exists>t'. setArrayRange H rp t firstIndex values = Inr t' \<and> table_wf H rp t' \<and>
    (value_wf key \<longrightarrow> table_get H t' key =
      (case isPositiveIntegerKey key of
         Some i \<Rightarrow> if firstIndex \<le> i \<and> i < firstIndex + int (length values) then values ! nat (i - firstIndex)
                   else table_get H t key
       | None \<Rightarrow> table_get H t key))"
proof -
  let ?slot = "nat (firstIndex - 1)"
  obtain t1 where call: "setArrayRange H rp t firstIndex values = Inr (setArrayRange_loop H ?slot values t1)"
    and wf1: "table_wf H rp t1" and len: "length (tb_array t1) = max (length (tb_array t)) (?slot + length values)"
    and hg: "\<And>k. hash_get H t1 k = hash_get H t k" and at: "\<And>i. array_at t1 i = array_at t i"
    using setArrayRange_grown [OF H wf args] by metis
  have room: "?slot + length values \<le> length (tb_array t1)" using len by simp
  have get: "table_get H t1 k = table_get H t k" if "value_wf k" for k
    using array_part_eqI [of t1 t, OF at] hg by (simp add: table_get_parts [OF that])
  have eq: "int ?slot < i \<longleftrightarrow> firstIndex \<le> i" "i \<le> int (?slot + length values) \<longleftrightarrow> i < firstIndex + int (length values)"
    "i - 1 - int ?slot = i - firstIndex" for i
    using args(1) by auto
  show ?thesis
    using setArrayRange_loop_spec [OF H wf1 room, of key] call get
    unfolding eq by (auto split: option.splits)
qed

section \<open>Assignment\<close>

lemma setHash_wf:
  assumes H: "hash_env_ok H" and wf: "table_wf H rp t" and key: "valid_key key" "value_wf key" "val \<noteq> VNil"
    and rp: "policy_ok rp" and array: "array_part t key = VNil"
    and set: "setHash H rp t key val = Some (Inr t')"
  shows "table_wf H rp t'"
    "value_wf key' \<Longrightarrow> table_get H t' key' = (if value_eq key key' then val else table_get H t key')"
proof -
  have ok: "hash_ok H t" using wf by (simp add: table_wf_def)
  obtain k where t': "hash_ok H t'" "same_rest t t'" "value_eq k key" "value_wf k"
    "entries (tb_nodes t') = insert (k, val) {(k, v) \<in> entries (tb_nodes t). \<not> value_eq k key}"
    "hash_get H t key = VNil \<longrightarrow> tb_live t < rp_maxTableHashEntries rp"
    "tb_live t' = tb_live t + (if hash_get H t key = VNil then 1 else 0)"
    using setHash_spec [OF ok H key, of rp] set by auto
  have at: "array_at t' i = array_at t i" for i by (rule array_at_rest [OF t'(2)])
  have hg: "hash_get H t' q = (if value_eq key q then val else hash_get H t q)" for q
  proof (cases "value_eq key q")
    case True
    then have "value_eq k q" using t'(3) value_eq_trans by blast
    then have "\<exists>k. (k, val) \<in> entries (tb_nodes t') \<and> value_eq k q" using t'(5) by blast
    then show ?thesis using hash_get_iff [OF t'(1) H key(3)] True by simp
  next
    case False
    then have "value_eq k' q \<Longrightarrow> (k', v) \<in> entries (tb_nodes t) \<longleftrightarrow> (k', v) \<in> entries (tb_nodes t')" for k' v
      using t'(3,5) value_eq_trans value_eq_sym by (metis (no_types, lifting) case_prod_conv insert_iff mem_Collect_eq prod.inject)
    then show ?thesis using hash_get_eqI [OF ok t'(1) H] False by simp
  qed
  have part: "array_part t q = VNil" if "value_eq key q" "value_wf q" for q
    using array_part_cong [OF key(2) that(2,1)] array by simp
  show "value_wf key' \<Longrightarrow> table_get H t' key' = (if value_eq key key' then val else table_get H t key')"
    using part array_part_eqI [of t' t, OF at] hg by (simp add: table_get_parts)
  have "hash_get H t' (int_key i) = VNil" if "array_at t' i \<noteq> VNil" for i
  proof -
    have i: "1 \<le> i" "i \<le> i32_max"
      using that wf rp at by (auto simp: array_at_def table_wf_def policy_ok_def split: if_splits)
    then have "array_part t (int_key i) = array_at t i"
      using isPositiveIntegerKey_Some [OF int_key_valid(2), of i i] by (simp add: array_part_def)
    then have "\<not> value_eq key (int_key i)" using part that at by force
    then show ?thesis using hg wf that at by (simp add: table_wf_def)
  qed
  moreover have "tb_live t' \<le> rp_maxTableHashEntries rp"
    using t'(6,7) wf by (auto simp: table_wf_def)
  moreover have "length (tb_array t') = length (tb_array t)" using t'(2) by (simp add: same_rest_def)
  ultimately show "table_wf H rp t'" using wf t'(1) by (simp add: table_wf_def)
qed

text \<open>The two places an assignment of a value can go.\<close>

lemma table_set_array:
  assumes H: "hash_env_ok H" "policy_ok rp" and wf: "table_wf H rp t" and key: "value_wf key" "val \<noteq> VNil"
    and i: "isPositiveIntegerKey key = Some i" "shouldStoreInArray rp t i"
  shows "\<exists>t'. setArray H rp t i val = Inr t' \<and> table_wf H rp t' \<and>
    (value_wf key' \<longrightarrow> table_get H t' key' = (if value_eq key key' then val else table_get H t key'))"
proof -
  have i': "1 \<le> i" "i \<le> i32_max" "key = int_key i" using isPositiveIntegerKey_Some [OF key(1)] i(1) by auto
  have room: "nat (i - 1) + length [val] \<le> rp_maxTableArraySlots rp"
    using i(2) i'(1) by (auto simp: shouldStoreInArray_def Let_def split: if_splits)
  have call: "setArray H rp t i val = setArrayRange H rp t i [val]"
    using i'(1) key(2) by (simp add: setArray_def isNil_def)
  have eq: "value_eq key q \<longleftrightarrow> isPositiveIntegerKey q = Some i" if "value_wf q" for q
    using isPositiveIntegerKey_eq [OF that i'(1,2)] value_eq_sym i'(3) by blast
  have "(case isPositiveIntegerKey key' of
         Some j \<Rightarrow> if i \<le> j \<and> j < i + int (length [val]) then [val] ! nat (j - i) else table_get H t key'
       | None \<Rightarrow> table_get H t key') = (if value_eq key key' then val else table_get H t key')" if "value_wf key'"
    using eq [OF that] by (auto split: option.splits)
  then show ?thesis
    using setArrayRange_spec [OF H wf i'(1) _ room, of key'] unfolding call by auto
qed

lemma array_part_outside:
  assumes "value_wf key" "table_wf H rp t" "\<And>i. isPositiveIntegerKey key = Some i \<Longrightarrow> \<not> shouldStoreInArray rp t i"
  shows "array_part t key = VNil"
proof (cases "isPositiveIntegerKey key")
  case (Some i)
  then have "1 \<le> i" using isPositiveIntegerKey_Some [OF assms(1)] by blast
  then have "\<not> nat i \<le> length (tb_array t)"
    using assms(2) assms(3) [OF Some] by (auto simp: shouldStoreInArray_def table_wf_def Let_def)
  then show ?thesis using Some by (simp add: array_part_def array_at_def)
qed (simp add: array_part_def)

lemma shouldStoreInArray_flags [simp]: "shouldStoreInArray rp (t\<lparr>tb_flags := f\<rparr>) = shouldStoreInArray rp t"
  by (rule ext) (simp add: shouldStoreInArray_def)

lemma valid_key_iff: "valid_key key \<longleftrightarrow>
    \<not> isNil key \<and> \<not> (case key of VNumber x \<Rightarrow> f64_isnan x | _ \<Rightarrow> False)"
  by (auto simp: valid_key_def isNil_def f64_isnan_def split: lua_value.splits)

text \<open>Every assignment returns, and what it leaves behind.\<close>

lemma table_set_spec:
  assumes H: "hash_env_ok H" "policy_ok rp" and wf: "table_wf H rp t" and key: "valid_key key" "value_wf key"
  shows "(\<exists>t'. table_set H rp t key val = Some (Inr t') \<and> table_wf H rp t' \<and>
      (\<forall>key'. value_wf key' \<longrightarrow>
         table_get H t' key' = (if value_eq key key' then val else table_get H t key'))) \<or>
    table_set H rp t key val = Some (Inl TE_HashLimit) \<and> val \<noteq> VNil \<and> table_get H t key = VNil \<and>
      tb_live t = rp_maxTableHashEntries rp"
proof (cases "val = VNil")
  case True
  then have "table_set H rp t key val = Some (Inr (table_remove H (t\<lparr>tb_flags := 0\<rparr>) key))"
    using key(1) by (simp add: table_set_def valid_key_iff isNil_def Let_def)
  moreover have "table_remove H (t\<lparr>tb_flags := 0\<rparr>) key = table_remove H t key"
    by (simp add: table_remove_def)
  ultimately show ?thesis
    using table_remove_spec [OF wf H key(2)] True by simp
next
  case False
  let ?t = "t\<lparr>tb_flags := 0\<rparr>"
  have wf': "table_wf H rp ?t" using wf by (simp add: table_wf_flags)
  show ?thesis
  proof (cases "\<exists>i. isPositiveIntegerKey key = Some i \<and> shouldStoreInArray rp t i")
    case True
    then obtain i where i: "isPositiveIntegerKey key = Some i" "shouldStoreInArray rp ?t i" by auto
    have "table_set H rp t key val = Some (setArray H rp ?t i val)"
      using key(1) False i by (simp add: table_set_def valid_key_iff isNil_def Let_def)
    then show ?thesis
      using table_set_array [OF H wf' key(2) False i] by (metis table_get_flags sum.inject(2) option.inject)
  next
    case hash: False
    have call: "table_set H rp t key val = setHash H rp ?t key val"
      using key(1) False hash
      by (auto simp: table_set_def valid_key_iff isNil_def Let_def split: option.splits)
    have part: "array_part ?t key = VNil"
      using hash by (intro array_part_outside [OF key(2) wf']) auto
    have get: "table_get H t key = hash_get H t key"
      using part by (simp add: table_get_parts [OF key(2)])
    have ok: "hash_ok H ?t" using wf' by (simp add: table_wf_def)
    from setHash_spec [OF ok H(1) key False, of rp] show ?thesis
    proof (elim disjE exE conjE)
      fix t' assume t': "setHash H rp ?t key val = Some (Inr t')"
      show ?thesis
        using setHash_wf [OF H(1) wf' key False H(2) part t'] t' by (simp add: call)
    next
      assume "setHash H rp ?t key val = Some (Inl TE_HashLimit)" "hash_get H ?t key = VNil"
        "rp_maxTableHashEntries rp \<le> tb_live ?t"
      then show ?thesis using wf False get by (auto simp: call table_wf_def)
    next
      assume "2 ^ 60 < tb_live ?t" "tb_live ?t < rp_maxTableHashEntries rp"
      then show ?thesis using H(2) by (simp add: policy_ok_def)
    qed
  qed
qed

lemma table_wf_new: "table_wf H rp new_table"
  by (auto simp: table_wf_def new_table_def hash_ok_def array_at_def)

lemma table_get_new: "value_wf key \<Longrightarrow> table_get H new_table key = VNil"
  by (auto simp: table_get_parts new_table_def array_part_def array_at_def hash_get_def findHashNode_def
      split: option.splits)

lemma array_test:
  assumes "value_wf key"
  shows "(case in_array t key of Some index \<Rightarrow> \<not> isNil (tb_array t ! nat (index - 1)) | None \<Rightarrow> False) \<longleftrightarrow>
    array_part t key \<noteq> VNil"
proof (cases "isPositiveIntegerKey key")
  case (Some i)
  then have "1 \<le> i" using isPositiveIntegerKey_Some [OF assms] by blast
  then show ?thesis using Some by (simp add: in_array_def array_part_def array_at_def isNil_def)
qed (simp add: in_array_def array_part_def)

lemma find_live_iff:
  assumes "hash_ok H t" "hash_env_ok H"
  shows "findHashNode H t key False \<noteq> None \<longleftrightarrow> hash_get H t key \<noteq> VNil"
proof
  assume "findHashNode H t key False \<noteq> None"
  then obtain j where j: "findHashNode H t key False = Some j" by auto
  then have ne: "tb_nodes t \<noteq> []" by (auto simp: findHashNode_def)
  then have "slot_matches (tb_nodes t) key False j"
    using findHashNode_iff [OF hash_okD(1) [OF assms(1) ne] assms(2)] j by blast
  then show "hash_get H t key \<noteq> VNil"
    using j hash_okD(1) [OF assms(1) ne] by (auto simp: hash_get_def slot_matches_def nodes_ok_def node_ok_def)
qed (auto simp: hash_get_def split: option.splits)

lemma table_has_iff:
  assumes "hash_env_ok H" "hash_ok H t" "value_wf key"
  shows "table_has H t key \<longleftrightarrow> table_get H t key \<noteq> VNil"
  unfolding table_has_def array_test [OF assms(3)] table_get_parts [OF assms(3)]
    find_live_iff [OF assms(2,1)] by auto

section \<open>Length\<close>

definition present :: "hash_env \<Rightarrow> lua_table \<Rightarrow> nat \<Rightarrow> bool" where
  "present H t n \<longleftrightarrow> table_get H t (int_key (int n)) \<noteq> VNil"

lemma hasIntegerKey_iff:
  assumes "hash_env_ok H" "hash_ok H t"
  shows "hasIntegerKey H t n \<longleftrightarrow> 1 \<le> n \<and> int n \<le> i32_max \<and> present H t n"
proof (cases "n = 0 \<or> i32_max < int n")
  case False
  then have n: "\<not> n = 0" "\<not> i32_max < int n" by auto
  show ?thesis
    unfolding hasIntegerKey_def Let_def array_test [OF int_key_valid(2)] find_live_iff [OF assms(2,1)]
      present_def table_get_parts [OF int_key_valid(2)]
    using n by auto
qed (auto simp: hasIntegerKey_def)

lemma bisect_border:
  assumes "low < high" "low = 0 \<or> p low" "\<not> p high"
  shows "bisect p low high < high \<and> low \<le> bisect p low high \<and>
    (bisect p low high = 0 \<or> p (bisect p low high)) \<and> \<not> p (bisect p low high + 1)"
  using assms
proof (induction p low high rule: bisect.induct)
  case (1 p low high)
  show ?case
  proof (cases "1 < high - low")
    case True
    let ?mid = "low + (high - low) div 2"
    have mid: "low < ?mid" "?mid < high" using True by linarith+
    show ?thesis
    proof (cases "p ?mid")
      case p: True
      then have "bisect p low high = bisect p ?mid high" using True by (subst bisect.simps) (simp add: Let_def)
      have IH: "bisect p ?mid high < high \<and> ?mid \<le> bisect p ?mid high \<and>
          (bisect p ?mid high = 0 \<or> p (bisect p ?mid high)) \<and> \<not> p (bisect p ?mid high + 1)"
        using 1(1) [OF True refl p mid(2)] p 1(5) by blast
      have "low \<le> bisect p ?mid high" using IH mid(1) by linarith
      then show ?thesis unfolding \<open>bisect p low high = bisect p ?mid high\<close> using IH by blast
    next
      case p: False
      then have "bisect p low high = bisect p low ?mid" using True by (subst bisect.simps) (simp add: Let_def)
      then show ?thesis using 1(2) [OF True refl p mid(1)] p mid 1(4) by simp
    qed
  next
    case False
    then have "high = low + 1" using 1(3) by simp
    then show ?thesis using False 1(4,5) by (subst (1 2 3 4 5) bisect.simps) simp
  qed
qed

lemma grow_high_spec:
  assumes "low = 0 \<or> p low" "low < high" "\<And>n. p n \<Longrightarrow> int n \<le> i32_max"
  shows "(case grow_high p low high of
      Inl (l, h) \<Rightarrow> l < h \<and> (l = 0 \<or> p l) \<and> \<not> p h
    | Inr r \<Rightarrow> p r \<and> nat i32_max div 2 < r)"
  using assms
proof (induction p low high rule: grow_high.induct)
  case (1 p low high)
  show ?case
  proof (cases "high = 0 \<or> \<not> p high")
    case True
    then show ?thesis using 1(2,3) by (subst grow_high.simps) auto
  next
    case False
    show ?thesis
    proof (cases "nat i32_max div 2 < high")
      case big: True
      then show ?thesis using False by (subst grow_high.simps) simp
    next
      case small: False
      then have "grow_high p low high = grow_high p high (high * 2)"
        using False by (subst grow_high.simps) simp
      then show ?thesis using 1(1) [OF False small] False 1(4) by simp
    qed
  qed
qed

text \<open>\<open>table_length\<close> returns a border, or, when the doubling reaches the top of the integer
  range, a present index beyond half of it.\<close>

definition border :: "hash_env \<Rightarrow> lua_table \<Rightarrow> nat \<Rightarrow> bool" where
  "border H t n \<longleftrightarrow> (n = 0 \<or> hasIntegerKey H t n) \<and> \<not> hasIntegerKey H t (n + 1)"

lemma hasIntegerKey_array:
  assumes "n \<noteq> 0" "n \<le> length (tb_array t)" "int n \<le> i32_max" "tb_array t ! (n - 1) \<noteq> VNil"
  shows "hasIntegerKey H t n"
proof -
  have "isPositiveIntegerKey (int_key (int n)) = Some (int n)"
    using isPositiveIntegerKey_Some [OF int_key_valid(2), of "int n" "int n"] assms(1,3) by auto
  moreover have "nat (int n - 1) = n - 1" by linarith
  ultimately show ?thesis
    using assms by (simp add: hasIntegerKey_def in_array_def isNil_def Let_def)
qed

lemma hasIntegerKey_no_hash:
  assumes "hash_env_ok H" "table_wf H rp t" "policy_ok rp" "n \<noteq> 0" "n \<le> length (tb_array t)"
    "tb_array t ! (n - 1) = VNil"
  shows "hasIntegerKey H t n \<longleftrightarrow> hash_get H t (int_key (int n)) \<noteq> VNil"
proof -
  have b: "int n \<le> i32_max" using assms(2,3,5) by (auto simp: table_wf_def policy_ok_def)
  have "isPositiveIntegerKey (int_key (int n)) = Some (int n)"
    using isPositiveIntegerKey_Some [OF int_key_valid(2), of "int n" "int n"] assms(4) b by auto
  moreover have "nat (int n - 1) = n - 1" by linarith
  moreover have "hash_ok H t" using assms(2) by (simp add: table_wf_def)
  ultimately show ?thesis
    using assms b find_live_iff [of H t "int_key (int n)"]
    by (simp add: hasIntegerKey_def in_array_def isNil_def Let_def)
qed

text \<open>Assignments never leave an integer key of the array's range in the hash part.\<close>

definition no_shadow :: "hash_env \<Rightarrow> lua_table \<Rightarrow> bool" where
  "no_shadow H t \<longleftrightarrow> (\<forall>i. 1 \<le> i \<and> nat i \<le> length (tb_array t) \<longrightarrow> hash_get H t (int_key i) = VNil)"

lemma table_length_border:
  assumes H: "hash_env_ok H" "policy_ok rp" and wf: "table_wf H rp t" and ns: "no_shadow H t"
  shows "border H t (table_length H t) \<or>
    (hasIntegerKey H t (table_length H t) \<and> nat i32_max div 2 < table_length H t)"
proof -
  let ?n = "length (tb_array t)"
  have max: "int ?n \<le> i32_max" using wf H(2) by (auto simp: table_wf_def policy_ok_def)
  have ok: "hash_ok H t" using wf by (simp add: table_wf_def)
  have has: "hasIntegerKey H t j \<longleftrightarrow> tb_array t ! (j - 1) \<noteq> VNil" if "1 \<le> j" "j \<le> ?n" for j
  proof (cases "tb_array t ! (j - 1) = VNil")
    case True
    have "hash_get H t (int_key (int j)) = VNil" using ns that by (simp add: no_shadow_def)
    then show ?thesis using hasIntegerKey_no_hash [OF H(1) wf H(2) _ that(2) True] True that by simp
  next
    case False
    then show ?thesis using hasIntegerKey_array [of j t H] that max by auto
  qed
  consider (array) "0 < ?n" "tb_array t ! (?n - 1) = VNil"
    | (exact) "0 < ?n" "tb_array t ! (?n - 1) \<noteq> VNil" "\<not> hasIntegerKey H t (?n + 1)"
    | (search) "?n = 0 \<or> tb_array t ! (?n - 1) \<noteq> VNil"
      "table_length H t = (case grow_high (hasIntegerKey H t) ?n (if ?n = 0 then 1 else ?n * 2) of
        Inr r \<Rightarrow> r | Inl (l, h) \<Rightarrow> bisect (hasIntegerKey H t) l h)"
    by (fastforce simp: table_length_def isNil_def Let_def)
  then show ?thesis
  proof cases
    case array
    let ?p = "\<lambda>mid. \<not> isNil (tb_array t ! (mid - 1))"
    have "table_length H t = bisect ?p 0 ?n" using array by (simp add: table_length_def isNil_def Let_def)
    moreover note bisect_border [OF array(1), of ?p] array(2)
    ultimately show ?thesis using has by (auto simp: border_def isNil_def Suc_le_eq)
  next
    case exact
    then have "table_length H t = ?n" by (simp add: table_length_def isNil_def)
    moreover have "hasIntegerKey H t ?n" using exact has [of ?n] by (cases "?n") auto
    ultimately show ?thesis using exact(3) by (simp add: border_def)
  next
    case search
    let ?h = "if ?n = 0 then 1 else ?n * 2"
    have base: "?n = 0 \<or> hasIntegerKey H t ?n" using search(1) has [of ?n] by (cases "?n = 0") auto
    have lim: "hasIntegerKey H t j \<Longrightarrow> int j \<le> i32_max" for j
      by (simp add: hasIntegerKey_iff [OF H(1) ok])
    have lt: "?n < ?h" by simp
    note gh = grow_high_spec [where p = "hasIntegerKey H t" and low = ?n and high = ?h, OF base lt lim]
    show ?thesis
    proof (cases "grow_high (hasIntegerKey H t) ?n ?h")
      case (Inl lh)
      then obtain l h where "grow_high (hasIntegerKey H t) ?n ?h = Inl (l, h)" by (cases lh) auto
      then show ?thesis using gh search(2) bisect_border [of l h "hasIntegerKey H t"]
        by (auto simp: border_def)
    next
      case (Inr r)
      then show ?thesis using gh search(2) by auto
    qed
  qed
qed

lemma no_shadow_array_write:
  assumes "no_shadow H t" "hash_ok H t" "hash_env_ok H" "1 \<le> i" "i \<le> i32_max" "nat i \<le> length (tb_array t)"
  shows "no_shadow H (array_write H t i v)"
  using assms(1) array_write_spec(3,4) [OF assms(2-6)] by (simp add: no_shadow_def)

lemma no_shadow_removeHash:
  assumes "no_shadow H t" "hash_ok H t" "hash_env_ok H"
  shows "no_shadow H (removeHash H t key)"
  using assms(1) removeHash_get [OF assms(2,3)] removeHash_spec [OF assms(2,3), of key]
  by (simp add: no_shadow_def same_rest_def)

lemma no_shadow_flags [simp]: "no_shadow H (t\<lparr>tb_flags := f\<rparr>) = no_shadow H t"
  by (simp add: no_shadow_def)

lemma no_shadow_remove:
  assumes "hash_env_ok H" "table_wf H rp t" "value_wf key" "no_shadow H t"
  shows "no_shadow H (table_remove H t key)"
proof -
  have ok: "hash_ok H (t\<lparr>tb_flags := 0\<rparr>)" using assms(2) by (simp add: table_wf_def hash_ok_cong)
  have ns: "no_shadow H (t\<lparr>tb_flags := 0\<rparr>)" using assms(4) by simp
  show ?thesis
    unfolding table_remove_cases [OF assms(3)]
    using no_shadow_removeHash [OF ns ok assms(1)] no_shadow_array_write [OF ns ok assms(1)]
      isPositiveIntegerKey_Some [OF assms(3)]
    by (auto split: option.splits)
qed

text \<open>A range write without a gap keeps the property; so does every assignment.\<close>

lemma setArrayRange_loop_hash:
  assumes "hash_env_ok H" "policy_ok rp" "table_wf H rp t" "slot + length vs \<le> length (tb_array t)"
    "1 \<le> j" "j \<le> i32_max"
  shows "hash_get H (setArrayRange_loop H slot vs t) (int_key j) =
    (if int slot < j \<and> j \<le> int (slot + length vs) then VNil else hash_get H t (int_key j)) \<and>
    length (tb_array (setArrayRange_loop H slot vs t)) = length (tb_array t)"
  using assms(3,4)
proof (induction vs arbitrary: slot t)
  case (Cons v vs)
  have i: "1 \<le> int (slot + 1)" "int (slot + 1) \<le> i32_max" "nat (int (slot + 1)) \<le> length (tb_array t)"
    using Cons.prems assms(2) by (auto simp: table_wf_def policy_ok_def)
  have ok: "hash_ok H t" using Cons.prems(1) by (simp add: table_wf_def)
  have step: "setArrayRange_loop H slot (v # vs) t =
    setArrayRange_loop H (slot + 1) vs (array_write H t (int (slot + 1)) v)"
    by (simp add: array_write_def)
  note ws = array_write_spec(3,4) [OF ok assms(1) i] table_wf_array_write [OF Cons.prems(1) assms(1,2) i(1,3)]
  have "value_eq (int_key (int (slot + 1))) (int_key j) \<longleftrightarrow> int (slot + 1) = j"
    by (rule int_key_inject [OF i(1,2) assms(5,6)])
  then show ?case
    using Cons.IH [OF ws(3), of "slot + 1" v] Cons.prems(2) ws(1,2) unfolding step by auto
qed auto

lemma no_shadow_setArrayRange:
  assumes H: "hash_env_ok H" "policy_ok rp" and wf: "table_wf H rp t" and ns: "no_shadow H t"
    and gap: "firstIndex \<le> int (length (tb_array t)) + 1"
    and set: "setArrayRange H rp t firstIndex values = Inr t'"
  shows "no_shadow H t'"
proof (cases "firstIndex < 1 \<or> values = []")
  case True
  then show ?thesis using set ns by (simp add: setArrayRange_def)
next
  case False
  let ?slot = "nat (firstIndex - 1)"
  have "?slot + length values \<le> rp_maxTableArraySlots rp"
    using set False by (auto simp: setArrayRange_def Let_def split: if_splits)
  then obtain t1 where t': "t' = setArrayRange_loop H ?slot values t1"
    and wf1: "table_wf H rp t1" and len: "length (tb_array t1) = max (length (tb_array t)) (?slot + length values)"
    and hg: "\<And>k. hash_get H t1 k = hash_get H t k"
    using setArrayRange_grown [OF H wf, of firstIndex "values"] False set by (metis sum.inject(2) linorder_not_less)
  have room: "?slot + length values \<le> length (tb_array t1)" using len by simp
  have slot: "?slot \<le> length (tb_array t)" using gap by simp
  note lh = setArrayRange_loop_hash [OF H wf1 room]
  have len': "length (tb_array t') = length (tb_array t1)"
    using lh [of 1] t' by (simp add: i32_max_def)
  have max: "int (length (tb_array t1)) \<le> i32_max" using wf1 H(2) by (auto simp: table_wf_def policy_ok_def)
  show ?thesis
    unfolding no_shadow_def
  proof (intro allI impI)
    fix i assume i: "1 \<le> i \<and> nat i \<le> length (tb_array t')"
    then have i': "1 \<le> i" "i \<le> i32_max" "nat i \<le> length (tb_array t) \<or> (int ?slot < i \<and> i \<le> int (?slot + length values))"
      using max len len' slot by linarith+
    then show "hash_get H t' (int_key i) = VNil"
      using lh [OF i'(1,2)] t' ns hg by (auto simp: no_shadow_def)
  qed
qed

lemma no_shadow_setHash:
  assumes "hash_env_ok H" "hash_ok H t" "valid_key key" "value_wf key" "val \<noteq> VNil" "no_shadow H t"
    "int (length (tb_array t)) \<le> i32_max"
    "\<And>i. isPositiveIntegerKey key = Some i \<Longrightarrow> \<not> nat i \<le> length (tb_array t)"
    "setHash H rp t key val = Some (Inr t')"
  shows "no_shadow H t'"
proof -
  obtain k where t': "hash_ok H t'" "same_rest t t'" "value_eq k key"
    "entries (tb_nodes t') = insert (k, val) {(k, v) \<in> entries (tb_nodes t). \<not> value_eq k key}"
    using setHash_spec [OF assms(2,1,3,4,5), of rp] assms(9) by auto
  have "hash_get H t' (int_key i) = VNil" if i: "1 \<le> i" "nat i \<le> length (tb_array t)" for i
  proof -
    have "i \<le> i32_max" using i assms(7) by simp
    then have ne: "\<not> value_eq key (int_key i)"
      using isPositiveIntegerKey_eq [OF assms(4) i(1)] assms(8) i(2) by blast
    then have "value_eq k' (int_key i) \<Longrightarrow> (k', v) \<in> entries (tb_nodes t) \<longleftrightarrow> (k', v) \<in> entries (tb_nodes t')" for k' v
      using t'(3,4) value_eq_trans value_eq_sym by (metis (no_types, lifting) case_prod_conv insert_iff mem_Collect_eq prod.inject)
    then have "hash_get H t (int_key i) = hash_get H t' (int_key i)"
      using hash_get_eqI [OF assms(2) t'(1) assms(1)] by blast
    then show ?thesis using assms(6) i by (simp add: no_shadow_def)
  qed
  then show ?thesis using t'(2) by (simp add: no_shadow_def same_rest_def)
qed

lemma no_shadow_table_set:
  assumes H: "hash_env_ok H" "policy_ok rp" and wf: "table_wf H rp t" and ns: "no_shadow H t"
    and key: "value_wf key" and set: "table_set H rp t key val = Some (Inr t')"
  shows "no_shadow H t'"
proof -
  have valid: "valid_key key" using set by (auto simp: table_set_def valid_key_iff split: if_splits)
  let ?t = "t\<lparr>tb_flags := 0\<rparr>"
  have wf': "table_wf H rp ?t" and ns': "no_shadow H ?t" using wf ns by (simp_all add: table_wf_flags)
  have ok: "hash_ok H ?t" and max: "int (length (tb_array ?t)) \<le> i32_max"
    using wf' H(2) by (auto simp: table_wf_def policy_ok_def)
  have call: "table_set H rp t key val =
    (if val = VNil then Some (Inr (table_remove H ?t key))
     else case isPositiveIntegerKey key of
       Some index \<Rightarrow> if shouldStoreInArray rp ?t index then Some (setArray H rp ?t index val)
                     else setHash H rp ?t key val
     | None \<Rightarrow> setHash H rp ?t key val)"
    using valid by (simp add: table_set_def valid_key_iff isNil_def Let_def)
  show ?thesis
  proof (cases "val = VNil")
    case True
    then show ?thesis using set call no_shadow_remove [OF H(1) wf' key ns'] by simp
  next
    case val: False
    show ?thesis
    proof (cases "\<exists>i. isPositiveIntegerKey key = Some i \<and> shouldStoreInArray rp ?t i")
      case True
      then obtain i where i: "isPositiveIntegerKey key = Some i" "shouldStoreInArray rp ?t i" by blast
      then have i': "1 \<le> i" "i \<le> int (length (tb_array ?t)) + 1"
        by (auto simp: shouldStoreInArray_def Let_def split: if_splits)
      then have "setArrayRange H rp ?t i [val] = Inr t'"
        using set call val i by (simp add: setArray_def isNil_def)
      then show ?thesis by (rule no_shadow_setArrayRange [OF H wf' ns' i'(2)])
    next
      case False
      then have hash: "setHash H rp ?t key val = Some (Inr t')"
        using set call val by (auto split: option.splits)
      have "\<not> nat i \<le> length (tb_array ?t)" if "isPositiveIntegerKey key = Some i" for i
        using False that isPositiveIntegerKey_Some [OF key] wf'
        by (auto simp: shouldStoreInArray_def table_wf_def Let_def)
      then show ?thesis using no_shadow_setHash [OF H(1) ok valid key val ns' max _ hash] by blast
    qed
  qed
qed

end
