(* ===== verification/TableNext.thy ===== *)
theory TableNext
  imports TableProps
begin

text \<open>
  Traversal with \<open>next\<close> (\<^verbatim>\<open>core/table.cpp\<close>, \<open>Table::next\<close>): the order in which keys are visited,
  and that it visits every key with a value exactly once, also when the keys passed are cleared.
\<close>

section \<open>The order of traversal\<close>

fun array_pairs :: "nat \<Rightarrow> lua_value list \<Rightarrow> (lua_value \<times> lua_value) list" where
  "array_pairs i [] = []"
| "array_pairs i (v # vs) =
     (if isNil v then array_pairs (i + 1) vs else (int_key (int (i + 1)), v) # array_pairs (i + 1) vs)"

definition node_pairs :: "hash_node list \<Rightarrow> (lua_value \<times> lua_value) list" where
  "node_pairs nodes = map (\<lambda>n. (hn_key n, hn_value n)) (filter (\<lambda>n. hn_state n = NS_Live) nodes)"

definition table_pairs :: "lua_table \<Rightarrow> (lua_value \<times> lua_value) list" where
  "table_pairs t = array_pairs 0 (tb_array t) @ node_pairs (tb_nodes t)"

definition head_option :: "'a list \<Rightarrow> 'a option" where
  "head_option xs = (case xs of [] \<Rightarrow> None | x # _ \<Rightarrow> Some x)"

lemma head_option_simps [simp]: "head_option [] = None" "head_option (x # xs) = Some x"
  by (simp_all add: head_option_def)

lemma head_option_append: "head_option (xs @ ys) = (case head_option xs of Some x \<Rightarrow> Some x | None \<Rightarrow> head_option ys)"
  by (cases xs) simp_all

lemma array_next_pairs: "array_next vs i = head_option (array_pairs i vs)"
  by (induction vs i rule: array_next.induct) (simp_all add: isNil_def)

lemma nextLive_from_pairs:
  "(case nextLive_from ns i of None \<Rightarrow> node_pairs ns = []
    | Some j \<Rightarrow> i \<le> j \<and> j - i < length ns \<and>
        head_option (node_pairs ns) = Some (hn_key (ns ! (j - i)), hn_value (ns ! (j - i))))"
proof (induction ns i rule: nextLive_from.induct)
  case (2 n ns i)
  show ?case
  proof (cases "hn_state n = NS_Live")
    case True
    then show ?thesis by (simp add: node_pairs_def)
  next
    case False
    then have np: "node_pairs (n # ns) = node_pairs ns" "nextLive_from (n # ns) i = nextLive_from ns (i + 1)"
      by (simp_all add: node_pairs_def)
    show ?thesis
    proof (cases "nextLive_from ns (i + 1)")
      case None
      then show ?thesis using 2 False np by simp
    next
      case (Some j)
      then have j: "i + 1 \<le> j" "j - (i + 1) < length ns"
        "head_option (node_pairs ns) = Some (hn_key (ns ! (j - (i + 1))), hn_value (ns ! (j - (i + 1))))"
        using 2 False by simp_all
      have "j - i = Suc (j - (i + 1))" using j(1) by linarith
      then show ?thesis using Some np j by simp
    qed
  qed
qed (simp add: node_pairs_def)

lemma hash_next_pairs: "hash_next t i = head_option (node_pairs (drop i (tb_nodes t)))"
  using nextLive_from_pairs [of "drop i (tb_nodes t)" i]
  by (auto simp: hash_next_def nextLiveHashNode_def split: option.splits)

lemma array_pairs_split:
  assumes "array_pairs i vs = ps @ (k, v) # qs"
  shows "\<exists>j < length vs. k = int_key (int (i + j + 1)) \<and> vs ! j = v \<and> v \<noteq> VNil \<and>
    qs = array_pairs (i + j + 1) (drop (j + 1) vs)"
  using assms
proof (induction i vs arbitrary: ps rule: array_pairs.induct)
  case (2 i w vs)
  show ?case
  proof (cases "\<not> isNil w \<and> ps = []")
    case True
    then show ?thesis using 2(3) by (intro exI [of _ 0]) (auto simp: isNil_def)
  next
    case False
    obtain ps' where "array_pairs (i + 1) vs = ps' @ (k, v) # qs"
    proof (cases "isNil w")
      case False
      then show thesis using that 2(3) \<open>\<not> (\<not> isNil w \<and> ps = [])\<close> by (cases ps) auto
    qed (use that 2(3) in auto)
    then obtain j where "j < length vs" "k = int_key (int (i + 1 + j + 1))" "vs ! j = v" "v \<noteq> VNil"
      "qs = array_pairs (i + 1 + j + 1) (drop (j + 1) vs)"
      using 2(1,2) by blast
    then show ?thesis by (intro exI [of _ "Suc j"]) simp
  qed
qed simp

lemma node_pairs_split:
  assumes "node_pairs ns = ps @ (k, v) # qs"
  shows "\<exists>j < length ns. slot_live ns j \<and> hn_key (ns ! j) = k \<and> hn_value (ns ! j) = v \<and>
    qs = node_pairs (drop (j + 1) ns)"
  using assms
proof (induction ns arbitrary: ps)
  case (Cons n ns)
  show ?case
  proof (cases "hn_state n = NS_Live \<and> ps = []")
    case True
    then show ?thesis using Cons.prems by (intro exI [of _ 0]) (simp add: node_pairs_def)
  next
    case False
    obtain ps' where "node_pairs ns = ps' @ (k, v) # qs"
    proof (cases "hn_state n = NS_Live")
      case True
      then show thesis using that Cons.prems False by (cases ps) (auto simp: node_pairs_def)
    qed (use that Cons.prems in \<open>auto simp: node_pairs_def\<close>)
    then obtain j where "j < length ns" "slot_live ns j" "hn_key (ns ! j) = k" "hn_value (ns ! j) = v"
      "qs = node_pairs (drop (j + 1) ns)"
      using Cons.IH by blast
    then show ?thesis by (intro exI [of _ "Suc j"]) simp
  qed
qed (simp add: node_pairs_def)

section \<open>One step\<close>

lemma table_next_nil: "table_next H t VNil = Inr (head_option (table_pairs t))"
  by (simp add: table_next_def isNil_def table_pairs_def array_next_pairs hash_next_pairs head_option_append
      split: option.splits)

lemma table_next_array:
  assumes "in_array t (int_key (int j + 1)) = Some (int j + 1)"
    "tb_array t ! j \<noteq> VNil \<or> findHashNode H t (int_key (int j + 1)) True = None"
  shows "table_next H t (int_key (int j + 1)) =
    Inr (head_option (array_pairs (j + 1) (drop (j + 1) (tb_array t)) @ node_pairs (tb_nodes t)))"
proof -
  have "nat (int j + 1) = j + 1" by linarith
  then show ?thesis
    using assms by (auto simp: table_next_def isNil_def next_array_position_def array_next_pairs hash_next_pairs
        head_option_append split: option.splits)
qed

lemma table_next_hash:
  assumes ok: "nodes_ok H (tb_nodes t)" and H: "hash_env_ok H" and j: "j < length (tb_nodes t)"
    "\<not> slot_free (tb_nodes t) j" and k: "value_eq (hn_key (tb_nodes t ! j)) k"
    and array: "array_part t k = VNil" "value_wf k"
  shows "table_next H t k = Inr (head_option (node_pairs (drop (j + 1) (tb_nodes t))))"
proof -
  have "slot_matches (tb_nodes t) k True j"
    using j k by (simp add: slot_matches_def)
  then have find: "findHashNode H t k True = Some j" using findHashNode_iff [OF ok H] by blast
  have "k \<noteq> VNil" using k nodes_ok_key [OF ok j] by (auto simp: valid_key_def)
  moreover have "next_array_position H t k = None"
    using array_test [OF array(2), of t] array(1) find
    by (auto simp: next_array_position_def split: option.splits)
  ultimately show ?thesis using find by (simp add: table_next_def isNil_def hash_next_pairs)
qed

text \<open>Where a pair of the order lives, and what is left of the order after it.\<close>

lemma table_pairs_cases:
  assumes H: "hash_env_ok H" "policy_ok rp" and wf: "table_wf H rp t"
    and pairs: "table_pairs t = ps @ (k, v) # qs"
  obtains (array) j where "j < length (tb_array t)" "k = int_key (int j + 1)" "tb_array t ! j \<noteq> VNil"
      "isPositiveIntegerKey k = Some (int j + 1)"
      "qs = array_pairs (j + 1) (drop (j + 1) (tb_array t)) @ node_pairs (tb_nodes t)"
    | (hash) j where "nodes_ok H (tb_nodes t)" "j < length (tb_nodes t)" "slot_live (tb_nodes t) j"
      "hn_key (tb_nodes t ! j) = k" "valid_key k" "value_wf k" "array_part t k = VNil"
      "qs = node_pairs (drop (j + 1) (tb_nodes t))"
proof -
  consider (array') qs' where "array_pairs 0 (tb_array t) = ps @ (k, v) # qs'" "qs = qs' @ node_pairs (tb_nodes t)"
    | (hash') ps' where "node_pairs (tb_nodes t) = ps' @ (k, v) # qs"
    using pairs unfolding table_pairs_def append_eq_append_conv2 append_eq_Cons_conv Cons_eq_append_conv
    by (auto simp: append_eq_append_conv2 append_eq_Cons_conv Cons_eq_append_conv)
  then show thesis
  proof cases
    case array'
    then obtain j where j: "j < length (tb_array t)" "k = int_key (int j + 1)" "tb_array t ! j \<noteq> VNil"
      "qs' = array_pairs (j + 1) (drop (j + 1) (tb_array t))"
      using array_pairs_split [OF array'(1)] by (auto simp: add.commute)
    have "int j + 1 \<le> i32_max" using j(1) wf H(2) by (auto simp: table_wf_def policy_ok_def)
    then have "isPositiveIntegerKey k = Some (int j + 1)"
      using isPositiveIntegerKey_Some [OF int_key_valid(2), of "int j + 1" "int j + 1"] j(2) by simp
    then show thesis using array j array'(2) by simp
  next
    case hash'
    then have "tb_nodes t \<noteq> []" by (auto simp: node_pairs_def)
    then have ok: "nodes_ok H (tb_nodes t)" using wf hash_okD(1) by (auto simp: table_wf_def)
    obtain j where j: "j < length (tb_nodes t)" "slot_live (tb_nodes t) j" "hn_key (tb_nodes t ! j) = k"
      "hn_value (tb_nodes t ! j) = v" "qs = node_pairs (drop (j + 1) (tb_nodes t))"
      using node_pairs_split [OF hash'] by blast
    have key: "valid_key k" "value_wf k" using nodes_ok_key [OF ok j(1)] j(2,3) by auto
    have refl: "value_eq k k" using key(1) by (simp add: valid_key_def value_eq_refl)
    have "(k, v) \<in> entries (tb_nodes t)" "v \<noteq> VNil"
      using entriesI [OF j(1,2)] entries_valid(3) [OF ok] j(3,4) by auto
    then have hg: "hash_get H t k \<noteq> VNil"
      using hash_get_iff [of H t v k] refl wf H(1) by (auto simp: table_wf_def)
    have "array_part t k = VNil"
    proof (cases "isPositiveIntegerKey k")
      case (Some i)
      then have "k = int_key i" using isPositiveIntegerKey_Some [OF key(2)] by blast
      then have "array_at t i = VNil" using wf hg by (auto simp: table_wf_def)
      then show ?thesis using Some by (simp add: array_part_def)
    qed (simp add: array_part_def)
    then show thesis using hash ok j key by blast
  qed
qed

text \<open>The successor of a pair in the order is the pair \<open>next\<close> answers.\<close>

lemma table_next_succ:
  assumes H: "hash_env_ok H" "policy_ok rp" and wf: "table_wf H rp t"
    and pairs: "table_pairs t = ps @ (k, v) # qs"
  shows "table_next H t k = Inr (head_option qs)"
  using H wf pairs
proof (cases rule: table_pairs_cases)
  case (array j)
  then have "in_array t (int_key (int j + 1)) = Some (int j + 1)"
    by (simp add: in_array_def nat_add_distrib)
  then show ?thesis using table_next_array array by simp
next
  case (hash j)
  have "value_eq k k" using hash(5) by (simp add: valid_key_def value_eq_refl)
  then show ?thesis using table_next_hash [OF hash(1) H(1) hash(2)] hash by simp
qed

section \<open>The whole traversal\<close>

text \<open>The loop \<open>k, v = next(t, k)\<close>, started from nil, collecting at most \<open>n\<close> pairs.\<close>

fun traverse :: "hash_env \<Rightarrow> lua_table \<Rightarrow> nat \<Rightarrow> lua_value \<Rightarrow> (lua_value \<times> lua_value) list" where
  "traverse H t 0 key = []"
| "traverse H t (Suc n) key =
     (case table_next H t key of
        Inr (Some (k, v)) \<Rightarrow> (k, v) # traverse H t n k
      | _ \<Rightarrow> [])"

lemma traverse_from:
  assumes H: "hash_env_ok H" "policy_ok rp" and wf: "table_wf H rp t"
    and "table_pairs t = ps @ qs" "ps = [] \<Longrightarrow> key = VNil" "ps \<noteq> [] \<Longrightarrow> key = fst (last ps)"
  shows "traverse H t n key = take n qs"
  using assms(4-6)
proof (induction n arbitrary: ps qs key)
  case (Suc n)
  have "table_next H t key = Inr (head_option qs)"
  proof (cases "ps = []")
    case True
    then show ?thesis using table_next_nil Suc.prems by simp
  next
    case False
    then obtain ps' p where "ps = ps' @ [p]" by (metis append_butlast_last_id)
    then show ?thesis
      using table_next_succ [OF H wf, of ps' "fst p" "snd p" qs] Suc.prems by simp
  qed
  then show ?case
    using Suc.IH [of "ps @ [hd qs]" "tl qs" "fst (hd qs)"] Suc.prems(1)
    by (cases qs) (auto split: prod.splits)
qed simp

lemma set_array_pairs: "(k, v) \<in> set (array_pairs i vs) \<longleftrightarrow>
    (\<exists>j < length vs. k = int_key (int (i + j + 1)) \<and> v = vs ! j \<and> v \<noteq> VNil)"
proof (induction i vs rule: array_pairs.induct)
  case (2 i w vs)
  have "(\<exists>j < length (w # vs). k = int_key (int (i + j + 1)) \<and> v = (w # vs) ! j \<and> v \<noteq> VNil) \<longleftrightarrow>
    (k = int_key (int (i + 1)) \<and> v = w \<and> v \<noteq> VNil) \<or>
    (\<exists>j < length vs. k = int_key (int (i + 1 + j + 1)) \<and> v = vs ! j \<and> v \<noteq> VNil)"
    by (simp add: Ex_less_Suc2)
  then show ?case using 2 by (auto simp: isNil_def)
qed simp

lemma set_node_pairs: "set (node_pairs nodes) = entries nodes"
  by (auto simp: node_pairs_def entries_def)

text \<open>The pairs visited are the bindings of the table, and no two keys are equal.\<close>

lemma table_pairs_get:
  assumes H: "hash_env_ok H" "policy_ok rp" and wf: "table_wf H rp t" and key: "value_wf key" and v: "v \<noteq> VNil"
  shows "table_get H t key = v \<longleftrightarrow> (\<exists>k. (k, v) \<in> set (table_pairs t) \<and> value_eq k key)"
proof -
  have ok: "hash_ok H t" using wf by (simp add: table_wf_def)
  have max: "int (length (tb_array t)) \<le> i32_max" using wf H(2) by (auto simp: table_wf_def policy_ok_def)
  have arr: "array_part t key = v \<longleftrightarrow> (\<exists>k. (k, v) \<in> set (array_pairs 0 (tb_array t)) \<and> value_eq k key)"
  proof
    assume a: "array_part t key = v"
    then obtain i where i: "isPositiveIntegerKey key = Some i" "array_at t i = v"
      using v by (auto simp: array_part_def split: option.splits)
    then have i': "1 \<le> i" "nat i \<le> length (tb_array t)" "tb_array t ! nat (i - 1) = v" "i \<le> i32_max"
      using v isPositiveIntegerKey_Some [OF key] by (auto simp: array_at_def split: if_splits)
    have "value_eq (int_key i) key" using isPositiveIntegerKey_eq [OF key i'(1,4)] i(1) value_eq_sym by blast
    moreover have "(int_key i, v) \<in> set (array_pairs 0 (tb_array t))"
      unfolding set_array_pairs using i' v by (intro exI [of _ "nat (i - 1)"]) auto
    ultimately show "\<exists>k. (k, v) \<in> set (array_pairs 0 (tb_array t)) \<and> value_eq k key" by blast
  next
    assume "\<exists>k. (k, v) \<in> set (array_pairs 0 (tb_array t)) \<and> value_eq k key"
    then obtain j where j: "j < length (tb_array t)" "value_eq (int_key (int j + 1)) key" "v = tb_array t ! j"
      by (auto simp: set_array_pairs add.commute)
    then have "isPositiveIntegerKey key = Some (int j + 1)"
      using isPositiveIntegerKey_eq [OF key, of "int j + 1"] max value_eq_sym by auto
    then show "array_part t key = v" using j(1,3) by (simp add: array_part_def array_at_def nat_add_distrib)
  qed
  have hash: "hash_get H t key = v \<longleftrightarrow> (\<exists>k. (k, v) \<in> set (node_pairs (tb_nodes t)) \<and> value_eq k key)"
    unfolding set_node_pairs by (rule hash_get_iff [OF ok H(1) v])
  have excl: "hash_get H t key = VNil" if nn: "array_part t key \<noteq> VNil"
  proof -
    obtain i where i: "isPositiveIntegerKey key = Some i" "array_at t i \<noteq> VNil"
      using nn by (cases "isPositiveIntegerKey key") (auto simp: array_part_def)
    then have "key = int_key i" using isPositiveIntegerKey_Some [OF key] by blast
    then show ?thesis using wf i(2) by (simp add: table_wf_def)
  qed
  have "table_get H t key = v \<longleftrightarrow> array_part t key = v \<or> hash_get H t key = v"
    unfolding table_get_parts [OF key] using excl v by auto
  then show ?thesis unfolding table_pairs_def set_append using arr hash by blast
qed

lemma array_pairs_differ:
  assumes "int (i + length vs) \<le> i32_max"
  shows "sorted_wrt (\<lambda>p q. \<not> value_eq (fst p) (fst q)) (array_pairs i vs)"
  using assms
proof (induction i vs rule: array_pairs.induct)
  case (2 i w vs)
  have "\<not> value_eq (int_key (int (i + 1))) k" if kv: "(k, v) \<in> set (array_pairs (i + 1) vs)" for k v
  proof -
    obtain j where "j < length vs" "k = int_key (int (i + 1 + j + 1))"
      using kv by (auto simp: set_array_pairs)
    then show ?thesis using int_key_inject [of "int (i + 1)" "int (i + 1 + j + 1)"] 2(3) by simp
  qed
  then show ?case using 2 by auto
qed simp

lemma table_pairs_differ:
  assumes H: "hash_env_ok H" "policy_ok rp" and wf: "table_wf H rp t"
  shows "sorted_wrt (\<lambda>p q. \<not> value_eq (fst p) (fst q)) (table_pairs t)"
proof -
  have max: "int (length (tb_array t)) \<le> i32_max" using wf H(2) by (auto simp: table_wf_def policy_ok_def)
  have ok: "hash_ok H t" using wf by (simp add: table_wf_def)
  have "sorted_wrt (\<lambda>p q. \<not> value_eq (fst p) (fst q)) (node_pairs (tb_nodes t))"
  proof (cases "tb_nodes t = []")
    case False
    then show ?thesis
      using keys_differ_ok [OF hash_okD(1) [OF ok]]
      by (simp add: keys_differ_def live_nodes_def node_pairs_def sorted_wrt_map)
  qed (simp add: node_pairs_def)
  moreover have "\<not> value_eq k k'" if kv: "(k, v) \<in> set (array_pairs 0 (tb_array t))"
    and kv': "(k', v') \<in> set (node_pairs (tb_nodes t))" for k v k' v'
  proof
    assume eq: "value_eq k k'"
    obtain j where j: "j < length (tb_array t)" "k = int_key (int j + 1)" "tb_array t ! j \<noteq> VNil"
      using kv by (auto simp: set_array_pairs add.commute)
    then have "array_at t (int j + 1) \<noteq> VNil" by (simp add: array_at_def nat_add_distrib)
    then have "hash_get H t k = VNil" using wf j(2) by (simp add: table_wf_def)
    moreover have ne: "tb_nodes t \<noteq> []" using kv' by (auto simp: node_pairs_def)
    then have "v' \<noteq> VNil" using entries_valid(3) [OF hash_okD(1) [OF ok ne]] kv' by (simp add: set_node_pairs)
    ultimately show False
      using hash_get_iff [OF ok H(1), of v' k] kv' eq value_eq_sym by (auto simp: set_node_pairs)
  qed
  ultimately show ?thesis
    using array_pairs_differ [of 0 "tb_array t"] max by (auto simp: table_pairs_def sorted_wrt_append)
qed

lemma length_table_pairs: "length (table_pairs t) \<le> length (tb_array t) + length (tb_nodes t)"
proof -
  have "length (array_pairs i vs) \<le> length vs" for i vs by (induction i vs rule: array_pairs.induct) auto
  then show ?thesis by (simp add: table_pairs_def node_pairs_def add_mono)
qed

section \<open>Clearing a field during a traversal\<close>

text \<open>After the current key's value is set to nil, \<open>next\<close> from that key goes on as before.\<close>

lemma table_next_after_remove:
  assumes H: "hash_env_ok H" "policy_ok rp" and wf: "table_wf H rp t"
    and pairs: "table_pairs t = ps @ (k, v) # qs"
    and no_tomb: "array_part t k \<noteq> VNil \<Longrightarrow> findHashNode H t k True = None"
  shows "table_next H (table_remove H t k) k = Inr (head_option qs)"
  using H wf pairs
proof (cases rule: table_pairs_cases)
  case (array j)
  have none: "findHashNode H t k True = None"
    using array no_tomb by (simp add: array_part_def array_at_def nat_add_distrib)
  have ok: "hash_ok H t" using wf by (simp add: table_wf_def)
  have "findHashNode H t k False = None"
    using absent_key_entries [OF absent_key_find [OF ok H(1) none]] find_live_iff [OF ok H(1)]
      hash_get_iff [OF ok H(1)] by metis
  then have rem: "table_remove H t k = t\<lparr>tb_flags := 0, tb_array := (tb_array t)[j := VNil]\<rparr>"
    using array by (simp add: table_remove_def in_array_def nat_add_distrib isNil_def removeHash_def Let_def)
  have "in_array (table_remove H t k) (int_key (int j + 1)) = Some (int j + 1)"
    unfolding rem using array by (simp add: in_array_def nat_add_distrib)
  moreover have "findHashNode H (table_remove H t k) (int_key (int j + 1)) True = None"
    unfolding rem using none array(2) by simp
  ultimately have "table_next H (table_remove H t k) (int_key (int j + 1)) = Inr (head_option
      (array_pairs (j + 1) (drop (j + 1) (tb_array (table_remove H t k))) @ node_pairs (tb_nodes (table_remove H t k))))"
    by (intro table_next_array disjI2)
  moreover have "array_pairs (j + 1) (drop (j + 1) (tb_array (table_remove H t k))) @
      node_pairs (tb_nodes (table_remove H t k)) = qs"
    unfolding rem using array by simp
  ultimately show ?thesis using array by simp
next
  case (hash j)
  have ok: "hash_ok H t" using wf by (simp add: table_wf_def)
  have refl: "value_eq k k" using hash(5) by (simp add: valid_key_def value_eq_refl)
  have "slot_matches (tb_nodes t) k False j" using hash refl by (simp add: slot_matches_def)
  then have find: "findHashNode H t k False = Some j"
    using findHashNode_iff [OF hash(1) H(1)] by blast
  have nodes: "tb_nodes (table_remove H t k) =
      (tb_nodes t)[j := (tb_nodes t ! j)\<lparr>hn_value := VNil, hn_state := NS_Dead\<rparr>]"
    using find by (simp add: table_remove_def removeHash_def Let_def split: option.splits)
  have wf': "table_wf H rp (table_remove H t k)" by (rule table_remove_spec(1) [OF wf H hash(6)])
  then have ok': "hash_ok H (table_remove H t k)" by (simp add: table_wf_def)
  have "tb_nodes (table_remove H t k) \<noteq> []" using nodes hash(2) by auto
  then have nok: "nodes_ok H (tb_nodes (table_remove H t k))" by (rule hash_okD(1) [OF ok'])
  have "table_get H (table_remove H t k) k = VNil"
    using table_remove_spec(2) [OF wf H hash(6,6)] refl by simp
  then have "array_part (table_remove H t k) k = VNil"
    using table_get_parts [OF hash(6)] by (metis (full_types))
  then show ?thesis
    using table_next_hash [OF nok H(1), of j k] hash refl by (simp add: nodes)
qed

end
