(* ===== verification/TableSpec.thy ===== *)
theory TableSpec
  imports TableNext
begin

text \<open>
  What a Lua program can rely on of a table, as one contract (\<open>keyed_store\<close>) with the table
  operations of \<^verbatim>\<open>core/table.cpp\<close> as its provider, and the properties of the table that the
  virtual machine and the base library use.
\<close>

section \<open>The contract of a keyed store\<close>

fun put_all :: "('s \<Rightarrow> 'k \<Rightarrow> 'v \<Rightarrow> 's option) \<Rightarrow> 's \<Rightarrow> ('k \<times> 'v) list \<Rightarrow> 's option" where
  "put_all put s [] = Some s"
| "put_all put s ((k, v) # kvs) = (case put s k v of None \<Rightarrow> None | Some s' \<Rightarrow> put_all put s' kvs)"

text \<open>The last assignment to an equal key, or what was there before.\<close>

fun last_put :: "('k \<Rightarrow> 'k \<Rightarrow> bool) \<Rightarrow> ('k \<times> 'v) list \<Rightarrow> 'k \<Rightarrow> 'v \<Rightarrow> 'v" where
  "last_put eqv [] k old = old"
| "last_put eqv ((k', v) # kvs) k old = last_put eqv kvs k (if eqv k' k then v else old)"

locale keyed_store =
  fixes valid :: "'s \<Rightarrow> bool"
    and key_ok :: "'k \<Rightarrow> bool"
    and eqv :: "'k \<Rightarrow> 'k \<Rightarrow> bool"
    and get :: "'s \<Rightarrow> 'k \<Rightarrow> 'v"
    and put :: "'s \<Rightarrow> 'k \<Rightarrow> 'v \<Rightarrow> 's option"
  assumes put_valid: "valid s \<Longrightarrow> key_ok k \<Longrightarrow> put s k v = Some s' \<Longrightarrow> valid s'"
    and get_put: "valid s \<Longrightarrow> key_ok k \<Longrightarrow> key_ok k' \<Longrightarrow> put s k v = Some s' \<Longrightarrow>
      get s' k' = (if eqv k k' then v else get s k')"
    and eqv_sym: "eqv k k' \<Longrightarrow> eqv k' k"
    and eqv_trans: "eqv k k' \<Longrightarrow> eqv k' k'' \<Longrightarrow> eqv k k''"
begin

lemma get_put_all:
  "valid s \<Longrightarrow> \<forall>(k, v) \<in> set kvs. key_ok k \<Longrightarrow> key_ok k' \<Longrightarrow> put_all put s kvs = Some s' \<Longrightarrow>
   valid s' \<and> get s' k' = last_put eqv kvs k' (get s k')"
proof (induction kvs arbitrary: s)
  case (Cons p kvs)
  obtain k v where p: "p = (k, v)" by (cases p)
  obtain s1 where s1: "put s k v = Some s1" "put_all put s1 kvs = Some s'"
    using Cons.prems(4) p by (auto split: option.splits)
  have "valid s1" "get s1 k' = (if eqv k k' then v else get s k')"
    using put_valid get_put Cons.prems p s1(1) by auto
  then show ?case using Cons.IH [of s1] Cons.prems s1(2) p by auto
qed simp

text \<open>Assignments to different keys can be exchanged.\<close>

lemma put_commute:
  assumes "valid s" "key_ok k1" "key_ok k2" "key_ok k" "\<not> eqv k1 k2"
    "put_all put s [(k1, v1), (k2, v2)] = Some s1" "put_all put s [(k2, v2), (k1, v1)] = Some s2"
  shows "get s1 k = get s2 k"
proof -
  have "get s1 k = last_put eqv [(k1, v1), (k2, v2)] k (get s k)"
    using get_put_all [OF assms(1) _ assms(4,6)] assms(2,3) by simp
  moreover have "get s2 k = last_put eqv [(k2, v2), (k1, v1)] k (get s k)"
    using get_put_all [OF assms(1) _ assms(4,7)] assms(2,3) by simp
  moreover have "\<not> (eqv k1 k \<and> eqv k2 k)" using assms(5) eqv_sym eqv_trans by blast
  ultimately show ?thesis by auto
qed

end

section \<open>Tables as keyed stores\<close>

definition table_put ::
  "hash_env \<Rightarrow> resource_policy \<Rightarrow> lua_table \<Rightarrow> lua_value \<Rightarrow> lua_value \<Rightarrow> lua_table option" where
  "table_put H rp t k v = (case table_set H rp t k v of Some (Inr t') \<Rightarrow> Some t' | _ \<Rightarrow> None)"

definition table_valid :: "hash_env \<Rightarrow> resource_policy \<Rightarrow> lua_table \<Rightarrow> bool" where
  "table_valid H rp t \<longleftrightarrow> hash_env_ok H \<and> policy_ok rp \<and> table_wf H rp t"

definition table_key :: "lua_value \<Rightarrow> bool" where
  "table_key k \<longleftrightarrow> valid_key k \<and> value_wf k"

lemma table_put_Some: "table_put H rp t k v = Some t' \<longleftrightarrow> table_set H rp t k v = Some (Inr t')"
  by (auto simp: table_put_def split: option.splits sum.splits)

interpretation store: keyed_store "table_valid H rp" table_key value_eq "table_get H" "table_put H rp"
  for H rp
proof
  fix s k v s' assume s: "table_valid H rp s" "table_key k" "table_put H rp s k v = Some s'"
  then have set: "table_set H rp s k v = Some (Inr s')" by (simp add: table_put_Some)
  note spec = table_set_spec [of H rp s k v]
  show "table_valid H rp s'" using spec s set by (auto simp: table_valid_def table_key_def)
  show "table_get H s' k' = (if value_eq k k' then v else table_get H s k')" if "table_key k'" for k'
    using spec s set that by (auto simp: table_valid_def table_key_def)
qed (auto simp: value_eq_sym intro: value_eq_trans)

section \<open>Properties\<close>

text \<open>C1. On a well-formed table an assignment with a key that is neither nil nor NaN always
  returns: neither probing loop runs forever. Either it leaves a well-formed table in which the key
  reads as the assigned value (nil removes it) and every other key as before, or it fails with the
  hash-entry limit, which happens only for a value assigned to a key without one when the table
  already holds as many hash entries as the policy allows.\<close>

theorem table_set_correct:
  assumes "hash_env_ok H" "policy_ok rp" "table_wf H rp t" "valid_key key" "value_wf key"
  shows "(\<exists>t'. table_set H rp t key val = Some (Inr t') \<and> table_wf H rp t' \<and>
      (\<forall>key'. value_wf key' \<longrightarrow>
         table_get H t' key' = (if value_eq key key' then val else table_get H t key'))) \<or>
    table_set H rp t key val = Some (Inl TE_HashLimit) \<and> val \<noteq> VNil \<and> table_get H t key = VNil \<and>
      tb_live t = rp_maxTableHashEntries rp"
  using assms by (rule table_set_spec)

definition collide :: hash_env where
  "collide = \<lparr>he_f64 = (\<lambda>_. 7), he_ptr = (\<lambda>p. p), he_string = (\<lambda>_. 7)\<rparr>"

lemma collide_ok [simp]: "hash_env_ok collide"
  by (simp add: collide_def hash_env_ok_def)

theorem table_set_correct_witness:
  "\<exists>t'. table_set collide default_resource_policy new_table (VString 3) (VBoolean True) = Some (Inr t') \<and>
     table_get collide t' (VString 3) = VBoolean True \<and> table_get collide t' (VNumber f64_zero) = VNil"
  using table_set_correct [OF collide_ok default_policy_ok table_wf_new, of "VString 3" "VBoolean True"]
    table_get_new [of "VNumber f64_zero" collide]
  by (auto simp: valid_key_def value_wf_def new_table_def default_resource_policy_def value_eq_def
      f64_zero_def f64_wf_def)

text \<open>C2. After any sequence of assignments to an empty table that raised no error, every key
  reads as the last value assigned to a key equal to it in Lua, or nil: growth, tombstones, hash
  collisions and moves between the two parts of the table are invisible.\<close>

theorem table_assignments:
  assumes "hash_env_ok H" "policy_ok rp" "\<forall>(k, v) \<in> set kvs. valid_key k \<and> value_wf k"
    "valid_key key" "value_wf key" "put_all (table_put H rp) new_table kvs = Some t"
  shows "table_wf H rp t \<and> table_get H t key = last_put value_eq kvs key VNil"
proof -
  have valid: "table_valid H rp new_table" using assms(1,2) by (simp add: table_valid_def table_wf_new)
  have keys: "\<forall>(k, v) \<in> set kvs. table_key k" using assms(3) by (auto simp: table_key_def)
  have "table_valid H rp t \<and> table_get H t key = last_put value_eq kvs key (table_get H new_table key)"
    by (rule store.get_put_all [OF valid keys _ assms(6)]) (simp add: table_key_def assms(4,5))
  then show ?thesis by (simp add: table_valid_def table_get_new assms(5))
qed


text \<open>A small policy, and evaluation of table operations on concrete tables.\<close>

definition small_policy :: resource_policy where
  "small_policy = \<lparr>rp_maxStringBytes = 99, rp_maxOutputBytes = 99, rp_maxSourceBytes = 99,
     rp_maxProtoBytes = 99, rp_maxTableArraySlots = 99, rp_maxTableHashEntries = 99, rp_maxStackSlots = 99,
     rp_maxReturnValues = 99, rp_maxSortElements = 99, rp_maxSortComparisons = 99,
     rp_maxPatternSteps = 99, rp_maxReaderPieces = 99\<rparr>"

lemma small_policy_ok: "policy_ok small_policy"
  by (simp add: policy_ok_def small_policy_def i32_max_def)

theorem table_assignments_witness:
  "\<exists>t. put_all (table_put collide small_policy) new_table
      [(VString 3, VBoolean True), (VString 5, VBoolean False), (VString 3, VString 9)] = Some t \<and>
    table_get collide t (VString 3) = VString 9"
proof -
  let ?kvs = "[(VString 3, VBoolean True), (VString 5, VBoolean False), (VString 3, VString 9)]"
  have "put_all (table_put collide small_policy) new_table ?kvs \<noteq> None"
    by code_simp
  then obtain t where t: "put_all (table_put collide small_policy) new_table ?kvs = Some t" by blast
  have "table_get collide t (VString 3) = last_put value_eq ?kvs (VString 3) VNil"
    using table_assignments [OF collide_ok small_policy_ok _ _ _ t, of "VString 3"]
    by (simp add: valid_key_def value_wf_def)
  then show ?thesis using t by (simp add: value_eq_def)
qed

text \<open>C5. Writing a block of values into the array part (the \<open>SETLIST\<close> instruction and array
  assignments) succeeds within the policy's array limit and leaves a well-formed table in which
  exactly the integer keys of the block read as the new values, also those that were kept in the
  hash part before.\<close>

theorem set_array_range_correct:
  assumes "hash_env_ok H" "policy_ok rp" "table_wf H rp t" "1 \<le> first" "vals \<noteq> []"
    "nat (first - 1) + length vals \<le> rp_maxTableArraySlots rp" "value_wf key"
  shows "\<exists>t'. setArrayRange H rp t first vals = Inr t' \<and> table_wf H rp t' \<and>
    table_get H t' key = (case isPositiveIntegerKey key of
      Some i \<Rightarrow> if first \<le> i \<and> i < first + int (length vals) then vals ! nat (i - first) else table_get H t key
    | None \<Rightarrow> table_get H t key)"
  using setArrayRange_spec [OF assms(1-6), of key] assms(7) by auto

lemma isPositiveIntegerKey_int_key [simp]:
  "1 \<le> i \<Longrightarrow> i \<le> i32_max \<Longrightarrow> isPositiveIntegerKey (int_key i) = Some i"
  using isPositiveIntegerKey_Some [OF int_key_valid(2), of i i] by simp

theorem set_array_range_correct_witness:
  "\<exists>t'. setArrayRange collide small_policy new_table 4 [VString 1, VNil, VString 2] = Inr t' \<and>
     table_get collide t' (int_key 6) = VString 2"
  using set_array_range_correct [OF collide_ok small_policy_ok table_wf_new, of 4 "[VString 1, VNil, VString 2]" "int_key 6"]
  by (auto simp: small_policy_def i32_max_def f64_wf_of_int)

text \<open>\<open>has\<close> answers true for exactly the keys whose value is not nil, and removing a key makes
  it absent without touching any other key.\<close>

theorem table_has_remove:
  assumes "hash_env_ok H" "policy_ok rp" "table_wf H rp t" "value_wf key" "value_wf key'"
  shows "table_has H (table_remove H t key) key' \<longleftrightarrow>
      \<not> value_eq key key' \<and> table_get H t key' \<noteq> VNil"
    (is ?A)
proof -
  have wf: "table_wf H rp (table_remove H t key)"
    by (rule table_remove_spec(1) [OF assms(3,1,2,4)])
  then show ?thesis
    using table_has_iff [OF assms(1) _ assms(5), of "table_remove H t key"]
      table_remove_spec(2) [OF assms(3,1,2,4,5)]
    by (auto simp: table_wf_def)
qed

theorem table_has_remove_witness:
  "\<not> table_has collide (table_remove collide new_table (VBoolean True)) (VBoolean True)"
  using table_has_remove [OF collide_ok small_policy_ok table_wf_new, of "VBoolean True" "VBoolean True"]
  by (simp add: value_eq_def value_wf_def)


lemma no_shadow_new: "no_shadow H new_table"
  by (auto simp: no_shadow_def new_table_def)

lemma hasIntegerKey_new: "\<not> hasIntegerKey collide new_table n"
  using table_wf_new [of collide small_policy]
  by (simp add: hasIntegerKey_iff present_def table_get_new table_wf_def)




text \<open>C3. A traversal with \<open>next\<close>, started from nil, ends, and visits every key that has a value
  exactly once, with its value: the pairs visited are the bindings of the table and no two of
  their keys are equal.\<close>

theorem traversal_complete:
  assumes "hash_env_ok H" "policy_ok rp" "table_wf H rp t"
    "length (tb_array t) + length (tb_nodes t) \<le> n"
  shows "(value_wf key \<longrightarrow> v \<noteq> VNil \<longrightarrow>
      (table_get H t key = v \<longleftrightarrow> (\<exists>k. (k, v) \<in> set (traverse H t n VNil) \<and> value_eq k key))) \<and>
    sorted_wrt (\<lambda>p q. \<not> value_eq (fst p) (fst q)) (traverse H t n VNil)"
proof -
  have "traverse H t n VNil = table_pairs t"
    using traverse_from [OF assms(1-3), of "[]" "table_pairs t" VNil n] length_table_pairs [of t] assms(4)
    by simp
  then show ?thesis
    using table_pairs_get [OF assms(1-3)] table_pairs_differ [OF assms(1-3)] by simp
qed

theorem traversal_complete_witness:
  "sorted_wrt (\<lambda>p q. \<not> value_eq (fst p) (fst q)) (traverse collide new_table 5 VNil)"
  using traversal_complete [OF collide_ok small_policy_ok table_wf_new, of 5]
  by (simp add: new_table_def)

text \<open>Clearing the current field during a traversal does not disturb it: after the removal,
  \<open>next\<close> continues with the pair that followed in the untouched table, provided a key of the
  array part has left no tombstone in the hash part.\<close>

theorem clearing_during_traversal:
  assumes "hash_env_ok H" "policy_ok rp" "table_wf H rp t" "table_pairs t = ps @ (k, v) # qs"
    "array_part t k \<noteq> VNil \<longrightarrow> findHashNode H t k True = None"
  shows "table_next H (table_remove H t k) k = table_next H t k"
  using table_next_after_remove [OF assms(1-4)] table_next_succ [OF assms(1-4)] assms(5) by simp

section \<open>Concrete tables\<close>

text \<open>The table of \<open>t = {}; t[2] = "b"; t[1] = "a"\<close> with every number hashing to 7: key 2 lives in
  the hash part. Assigning \<open>t[2]\<close> again moves it to the array part and leaves a tombstone.\<close>

definition two_slot :: "node_state \<Rightarrow> hash_node list" where
  "two_slot st = replicate 7 empty_node @
     [\<lparr>hn_key = int_key 2, hn_value = (if st = NS_Live then VString 2 else VNil), hn_hash = 7, hn_state = st\<rparr>]"

definition mixed_table :: "lua_value list \<Rightarrow> node_state \<Rightarrow> lua_table" where
  "mixed_table arr st = \<lparr>tb_array = arr, tb_nodes = two_slot st, tb_live = (if st = NS_Live then 1 else 0),
     tb_used = 1, tb_metatable = None, tb_flags = 0\<rparr>"

lemma two_slot_simps [simp]:
  "length (two_slot st) = 8" "two_slot st \<noteq> []"
  "two_slot st ! 7 = \<lparr>hn_key = int_key 2, hn_value = (if st = NS_Live then VString 2 else VNil),
     hn_hash = 7, hn_state = st\<rparr>"
  by (simp_all add: two_slot_def nth_append)

lemma two_slot_empty: "i < 7 \<Longrightarrow> hn_state (two_slot st ! i) = NS_Empty"
  by (simp add: two_slot_def nth_append empty_node_def)

lemma int_keys_small [simp]:
  "value_eq (int_key 2) (int_key 1) = False" "value_eq (int_key 2) (int_key 3) = False"
  "value_eq (int_key 2) (int_key 2) = True"
  using int_key_inject [of 2 1] int_key_inject [of 2 3] int_key_inject [of 2 2]
  by (simp_all add: i32_max_def)

lemma collide_hash [simp]: "he_f64 collide x = 7"
  by (simp add: collide_def)

lemma find_loop_unfold: "0 < n \<Longrightarrow> findHashNode_loop nodes key hash d i n =
  (let node = nodes ! i
   in if hn_state node = NS_Empty then None
      else if hn_hash node = hash \<and> value_eq (hn_key node) key \<and> (hn_state node = NS_Live \<or> d) then Some i
      else findHashNode_loop nodes key hash d ((i + 1) AND (length nodes - 1)) (n - 1))"
  by (cases n) (auto simp: Let_def)

lemma two_slot_find:
  assumes "st \<noteq> NS_Empty"
  shows "findHashNode_loop (two_slot st) key 7 d 7 8 =
    (if value_eq (int_key 2) key \<and> (st = NS_Live \<or> d) then Some 7 else None)"
proof -
  have "findHashNode_loop (two_slot st) key 7 d 0 7 = None"
    by (subst find_loop_unfold) (simp_all add: two_slot_empty)
  then show ?thesis using assms by (subst find_loop_unfold) (simp_all add: Let_def)
qed

lemma mixed_find:
  assumes "st \<noteq> NS_Empty"
  shows "findHashNode collide (mixed_table arr st) (VNumber x) d =
    (if value_eq (int_key 2) (VNumber x) \<and> (st = NS_Live \<or> d) then Some 7 else None)"
  using two_slot_find [OF assms, of "VNumber x" d]
  by (simp add: findHashNode_def mixed_table_def Let_def)

lemma mixed_put_2:
  "table_put collide small_policy new_table (int_key 2) (VString 2) = Some (mixed_table [] NS_Live)"
proof -
  have "insert_probe (replicate 8 empty_node) 7 None = Some (7, None)" by code_simp
  moreover have "capacity_loop 8 8 = Inr 8" by (subst capacity_loop.simps) simp
  moreover have "(replicate 8 empty_node)[7 := n] = replicate 7 empty_node @ [n]" for n
    by (simp add: numeral_eq_Suc)
  ultimately show ?thesis
    by (simp add: table_put_def table_set_def new_table_def isNil_def f64_isnan_def f64_of_int_not_nan
        i32_max_def shouldStoreInArray_def setHash_def findHashNode_def small_policy_def
        ensureHashInsertCapacity_def rehash_def mixed_table_def two_slot_def Let_def)
qed

lemma mixed_put_1:
  "table_put collide small_policy (mixed_table [] NS_Live) (int_key 1) (VString 5) =
   Some (mixed_table [VString 5] NS_Live)"
  using mixed_find [of NS_Live "[VString 5]" "f64_of_int 1" False]
  by (simp add: table_put_def table_set_def mixed_table_def isNil_def f64_isnan_def f64_of_int_not_nan
      i32_max_def shouldStoreInArray_def setArray_def setArrayRange_def small_policy_def usize_max_def
      removeHash_def Let_def)

lemma two_slot_dead:
  "(two_slot NS_Live)[7 := \<lparr>hn_key = int_key 2, hn_value = VNil, hn_hash = 7, hn_state = NS_Dead\<rparr>] = two_slot NS_Dead"
  by (simp add: two_slot_def numeral_eq_Suc)

lemma mixed_put_2_again:
  "table_put collide small_policy (mixed_table [VString 5] NS_Live) (int_key 2) (VString 4) =
   Some (mixed_table [VString 5, VString 4] NS_Dead)"
  using mixed_find [of NS_Live "[VString 5, VString 4]" "f64_of_int 2" False] two_slot_dead
  by (simp add: table_put_def table_set_def mixed_table_def isNil_def f64_isnan_def f64_of_int_not_nan
      i32_max_def shouldStoreInArray_def setArray_def setArrayRange_def small_policy_def usize_max_def
      removeHash_def Let_def)

lemma mixed_put_3:
  "table_put collide small_policy (mixed_table [VString 5, VString 4] NS_Dead) (int_key 3) (VString 3) =
   Some (mixed_table [VString 5, VString 4, VString 3] NS_Dead)"
  using mixed_find [of NS_Dead "[VString 5, VString 4, VString 3]" "f64_of_int 3" False]
  by (simp add: table_put_def table_set_def mixed_table_def isNil_def f64_isnan_def f64_of_int_not_nan
      i32_max_def shouldStoreInArray_def setArray_def setArrayRange_def small_policy_def usize_max_def
      removeHash_def Let_def)

text \<open>The base library's \<open>unpack\<close> (\<^verbatim>\<open>lib/baselib.cpp\<close>): the range check and the loop that pushes the
  values. The stack's room and the native-work budget are the caller's; they are the tests
  \<open>room\<close> and \<open>work\<close>.\<close>

datatype unpack_error = UE_TooMany | UE_StackOverflow | UE_Stopped

function unpack_loop :: "lua_table \<Rightarrow> int \<Rightarrow> int \<Rightarrow> lua_value list" where
  "unpack_loop t k j = (if j < k then [] else getArray t k # (if k = j then [] else unpack_loop t (k + 1) j))"
  by pat_completeness auto
termination
  by (relation "measure (\<lambda>(t, k, j). nat (j + 1 - k))") auto

declare unpack_loop.simps [simp del]

definition unpack_range ::
  "resource_policy \<Rightarrow> (nat \<Rightarrow> bool) \<Rightarrow> (nat \<Rightarrow> bool) \<Rightarrow> lua_table \<Rightarrow> int \<Rightarrow> int \<Rightarrow>
   (unpack_error, lua_value list) result" where
  "unpack_range rp room work t i j =
     (if j < i then Inr []
      else let count = nat (j - i) + 1
           in if rp_maxReturnValues rp < count \<or> i32_max < int count then Inl UE_TooMany
              else if \<not> room count then Inl UE_StackOverflow
              else if \<not> work count then Inl UE_Stopped
              else Inr (unpack_loop t i j))"

lemma length_unpack_loop: "i \<le> j \<Longrightarrow> length (unpack_loop t i j) = nat (j - i) + 1"
proof (induction t i j rule: unpack_loop.induct)
  case (1 t k j)
  show ?case
  proof (cases "k = j")
    case True
    then show ?thesis by (subst unpack_loop.simps) simp
  next
    case False
    then have "length (unpack_loop t k j) = Suc (length (unpack_loop t (k + 1) j))"
      using 1(2) by (subst unpack_loop.simps) simp
    then show ?thesis using 1 False by simp
  qed
qed

lemma unpack_loop_nth:
  "i \<le> j \<Longrightarrow> i + int n \<le> j \<Longrightarrow> unpack_loop t i j ! n = getArray t (i + int n)"
proof (induction t i j arbitrary: n rule: unpack_loop.induct)
  case (1 t k j)
  show ?case
  proof (cases n)
    case 0
    then show ?thesis using 1(2) by (subst unpack_loop.simps) simp
  next
    case (Suc m)
    then have "unpack_loop t k j = getArray t k # unpack_loop t (k + 1) j"
      using 1(3) by (subst unpack_loop.simps) simp
    then show ?thesis using 1 Suc by (simp add: algebra_simps)
  qed
qed

text \<open>\<open>unpack\<close> pushes, for an accepted range \<open>i..j\<close>, exactly \<open>j - i + 1\<close> values, and they are the
  values the table holds at the keys \<open>i..j\<close>, as long as none of these keys lives in the hash part;
  its result never exceeds the policy's number of return values.\<close>

theorem unpack_correct:
  assumes "unpack_range rp room work t i j = Inr vs" "i \<le> j"
    "\<forall>k. i \<le> k \<and> k \<le> j \<longrightarrow> 1 \<le> k \<and> k \<le> i32_max \<and> hash_get H t (int_key k) = VNil"
  shows "length vs = nat (j - i) + 1 \<and> length vs \<le> rp_maxReturnValues rp \<and>
    (\<forall>n < length vs. vs ! n = table_get H t (int_key (i + int n)))"
proof -
  have vs: "vs = unpack_loop t i j" "nat (j - i) + 1 \<le> rp_maxReturnValues rp"
    using assms(1,2) by (auto simp: unpack_range_def Let_def split: if_splits)
  have get: "table_get H t (int_key k) = getArray t k" if "i \<le> k" "k \<le> j" for k
  proof -
    have k: "1 \<le> k" "k \<le> i32_max" "hash_get H t (int_key k) = VNil" using assms(3) that by auto
    then have "array_part t (int_key k) = getArray t k"
      by (simp add: array_part_def array_at_def getArray_def Let_def) linarith
    then show ?thesis using k(3) by (simp add: table_get_parts)
  qed
  have "vs ! n = table_get H t (int_key (i + int n))" if "n < length vs" for n
    using that vs(1) length_unpack_loop [OF assms(2), of t] unpack_loop_nth [of i j n t] assms(2)
      get [of "i + int n"] by simp
  then show ?thesis using vs length_unpack_loop [OF assms(2), of t] by simp
qed

theorem unpack_correct_witness:
  "unpack_range small_policy (\<lambda>_. True) (\<lambda>_. True) (mixed_table [VString 5, VString 4] NS_Dead) 1 2 =
     Inr [VString 5, VString 4] \<and>
   table_get collide (mixed_table [VString 5, VString 4] NS_Dead) (int_key 2) = VString 4"
proof -
  let ?t = "mixed_table [VString 5, VString 4] NS_Dead"
  have run: "unpack_range small_policy (\<lambda>_. True) (\<lambda>_. True) ?t 1 2 = Inr [VString 5, VString 4]"
    by (simp add: unpack_range_def small_policy_def i32_max_def unpack_loop.simps getArray_def
        mixed_table_def Let_def)
  have "hash_get collide ?t (int_key k) = VNil" for k
    using mixed_find [of NS_Dead "[VString 5, VString 4]" "f64_of_int k" False] by (simp add: hash_get_def)
  then have "[VString 5, VString 4] ! 1 = table_get collide ?t (int_key (1 + int 1))"
    using unpack_correct [OF run, of collide] by (auto simp: i32_max_def)
  then show ?thesis using run by simp
qed

text \<open>\<open>unpack\<close> loses values: after \<open>t = {}; t[2] = "b"; t[1] = "a"\<close> the length of \<open>t\<close> counts both
  fields and \<open>t[2]\<close> is \<open>"b"\<close>, but \<open>unpack(t, 1, 2)\<close> answers nil for it, because it reads the array
  part only.\<close>

theorem unpack_misses_hash_keys:
  "\<exists>t. put_all (table_put collide small_policy) new_table [(int_key 2, VString 2), (int_key 1, VString 5)] = Some t \<and>
     table_get collide t (int_key 2) = VString 2 \<and>
     unpack_range small_policy (\<lambda>_. True) (\<lambda>_. True) t 1 2 = Inr [VString 5, VNil]"
proof -
  let ?t = "mixed_table [VString 5] NS_Live"
  have "put_all (table_put collide small_policy) new_table [(int_key 2, VString 2), (int_key 1, VString 5)] = Some ?t"
    by (simp add: mixed_put_2 mixed_put_1)
  moreover have "table_get collide ?t (int_key 2) = VString 2"
    using mixed_find [of NS_Live "[VString 5]" "f64_of_int 2" False]
    by (simp add: table_get_def in_array_def hash_get_def i32_max_def) (simp add: mixed_table_def)
  moreover have "unpack_range small_policy (\<lambda>_. True) (\<lambda>_. True) ?t 1 2 = Inr [VString 5, VNil]"
    by (simp add: unpack_range_def small_policy_def i32_max_def unpack_loop.simps getArray_def
        mixed_table_def Let_def)
  ultimately show ?thesis by blast
qed

theorem clearing_during_traversal_witness:
  "table_next collide (table_remove collide (mixed_table [] NS_Live) (int_key 2)) (int_key 2) =
   table_next collide (mixed_table [] NS_Live) (int_key 2)"
proof -
  have "table_put collide small_policy new_table (int_key 2) (VString 2) = Some (mixed_table [] NS_Live)"
    by (rule mixed_put_2)
  then have "table_wf collide small_policy (mixed_table [] NS_Live)"
    using table_set_spec [OF collide_ok small_policy_ok table_wf_new, of "int_key 2" "VString 2"]
    by (auto simp: table_put_Some)
  moreover have "table_pairs (mixed_table [] NS_Live) = [] @ (int_key 2, VString 2) # []"
    by (simp add: table_pairs_def mixed_table_def node_pairs_def two_slot_def empty_node_def)
  moreover have "array_part (mixed_table [] NS_Live) (int_key 2) = VNil"
    by (simp add: array_part_def array_at_def mixed_table_def i32_max_def)
  ultimately show ?thesis
    using clearing_during_traversal [OF collide_ok small_policy_ok] by blast
qed

text \<open>Clearing a field can end a traversal early: when a key of the array part has left a tombstone
  in the hash part, \<open>next\<close> after clearing it continues behind the tombstone and skips the rest of
  the array part. Here key 3, which has a value, is never visited.\<close>

theorem clearing_skips_fields:
  "\<exists>t. put_all (table_put collide small_policy) new_table
       [(int_key 2, VString 2), (int_key 1, VString 5), (int_key 2, VString 4), (int_key 3, VString 3)] = Some t \<and>
     table_next collide t (int_key 2) = Inr (Some (int_key 3, VString 3)) \<and>
     table_get collide (table_remove collide t (int_key 2)) (int_key 3) = VString 3 \<and>
     table_next collide (table_remove collide t (int_key 2)) (int_key 2) = Inr None"
proof -
  let ?arr = "[VString 5, VString 4, VString 3]"
  let ?t = "mixed_table ?arr NS_Dead"
  have "put_all (table_put collide small_policy) new_table
       [(int_key 2, VString 2), (int_key 1, VString 5), (int_key 2, VString 4), (int_key 3, VString 3)] = Some ?t"
    by (simp add: mixed_put_2 mixed_put_1 mixed_put_2_again mixed_put_3)
  moreover have "table_next collide ?t (int_key 2) = Inr (Some (int_key 3, VString 3))"
    by (simp add: table_next_def isNil_def next_array_position_def in_array_def i32_max_def)
      (simp add: mixed_table_def)
  moreover have rem: "table_remove collide ?t (int_key 2) = mixed_table [VString 5, VNil, VString 3] NS_Dead"
    using mixed_find [of NS_Dead "[VString 5, VNil, VString 3]" "f64_of_int 2" False]
    by (simp add: table_remove_def in_array_def i32_max_def isNil_def removeHash_def mixed_table_def Let_def)
  moreover have "table_get collide (mixed_table [VString 5, VNil, VString 3] NS_Dead) (int_key 3) = VString 3"
    by (simp add: table_get_def in_array_def i32_max_def getArray_def isNil_def mixed_table_def Let_def)
  moreover have "table_next collide (mixed_table [VString 5, VNil, VString 3] NS_Dead) (int_key 2) = Inr None"
    using mixed_find [of NS_Dead "[VString 5, VNil, VString 3]" "f64_of_int 2" True]
    by (simp add: table_next_def isNil_def next_array_position_def in_array_def i32_max_def hash_next_def
        nextLiveHashNode_def) (simp add: mixed_table_def isNil_def)
  ultimately show ?thesis by metis
qed

end
