(* ===== verification/Proto.thy ===== *)
theory Proto
  imports LuaValue Opcode
begin

text \<open>
  \<^verbatim>\<open>core/function.hpp\<close> and \<^verbatim>\<open>core/function.cpp\<close>: function prototypes, the unit of compiled code.

  A prototype is its own fields (\<open>proto_data\<close>) together with its child prototypes; a null child
  pointer is \<open>None\<close>. Strings are addresses of string objects. The collector's bookkeeping (write
  barriers, size accounting) and allocation failure are not part of the model; the accessors that
  throw \<open>std::out_of_range\<close> return \<open>None\<close>.
\<close>

section \<open>State\<close>

definition VARARG_HASARG :: u8 where "VARARG_HASARG = 1"
definition VARARG_ISVARARG :: u8 where "VARARG_ISVARARG = 2"
definition VARARG_NEEDSARG :: u8 where "VARARG_NEEDSARG = 4"

record loc_var =
  lv_varname :: "addr option"
  lv_startpc :: int
  lv_endpc :: int
  lv_reg :: int

record proto_data =
  pd_constants :: "lua_value list"
  pd_constantMap :: "(lua_value \<times> nat) list"
  pd_code :: "instruction list"
  pd_lineInfo :: "int list"
  pd_locvars :: "loc_var list"
  pd_upvalueNames :: "addr option list"
  pd_source :: "addr option"
  pd_debugName :: "addr option"
  pd_linedefined :: int
  pd_lastlinedefined :: int
  pd_numParams :: u8
  pd_isVararg :: u8
  pd_maxStackSize :: u8
  pd_nups :: u8

datatype proto = Proto (proto_data: proto_data) (sub_protos: "proto option list")

section \<open>Attributes\<close>

definition isVararg :: "proto_data \<Rightarrow> bool" where
  "isVararg p \<longleftrightarrow> pd_isVararg p \<noteq> 0"

definition setVararg :: "bool \<Rightarrow> proto_data \<Rightarrow> proto_data" where
  "setVararg vararg p = p\<lparr>pd_isVararg := (if vararg then 2 else 0)\<rparr>"

section \<open>Constants\<close>

text \<open>Constants are found by the values nil, booleans, numbers and strings; two numbers are the same
  key when they compare equal.\<close>

definition is_constant_kind :: "lua_value \<Rightarrow> bool" where
  "is_constant_kind v \<longleftrightarrow> isNil v \<or> isBoolean v \<or> isNumber v \<or> isString v"

fun find_constant :: "(lua_value \<times> nat) list \<Rightarrow> lua_value \<Rightarrow> nat option" where
  "find_constant [] v = None"
| "find_constant ((k, i) # m) v = (if value_eq k v then Some i else find_constant m v)"

definition emplace_constant :: "(lua_value \<times> nat) list \<Rightarrow> lua_value \<Rightarrow> nat \<Rightarrow> (lua_value \<times> nat) list" where
  "emplace_constant m v i = (if find_constant m v = None then m @ [(v, i)] else m)"

definition addConstant :: "lua_value \<Rightarrow> proto_data \<Rightarrow> nat \<times> proto_data" where
  "addConstant v p =
     (if is_constant_kind v then
        (case find_constant (pd_constantMap p) v of
           Some i \<Rightarrow> (i, p)
         | None \<Rightarrow>
             let index = length (pd_constants p)
             in (index, p\<lparr>pd_constants := pd_constants p @ [v],
                          pd_constantMap := emplace_constant (pd_constantMap p) v index\<rparr>))
      else (length (pd_constants p), p\<lparr>pd_constants := pd_constants p @ [v]\<rparr>))"

definition appendConstantSlot :: "lua_value \<Rightarrow> proto_data \<Rightarrow> nat \<times> proto_data" where
  "appendConstantSlot v p =
     (let index = length (pd_constants p); p1 = p\<lparr>pd_constants := pd_constants p @ [v]\<rparr>
      in (index, if is_constant_kind v
                 then p1\<lparr>pd_constantMap := emplace_constant (pd_constantMap p) v index\<rparr> else p1))"

definition getConstant :: "proto_data \<Rightarrow> nat \<Rightarrow> lua_value option" where
  "getConstant p index = (if length (pd_constants p) \<le> index then None else Some (pd_constants p ! index))"

section \<open>Code and line information\<close>

definition addInstruction :: "instruction \<Rightarrow> proto_data \<Rightarrow> nat \<times> proto_data" where
  "addInstruction inst p = (let p' = p\<lparr>pd_code := pd_code p @ [inst]\<rparr> in (length (pd_code p') - 1, p'))"

definition getInstruction :: "proto_data \<Rightarrow> nat \<Rightarrow> instruction option" where
  "getInstruction p index = (if length (pd_code p) \<le> index then None else Some (pd_code p ! index))"

definition setInstruction :: "nat \<Rightarrow> instruction \<Rightarrow> proto_data \<Rightarrow> proto_data option" where
  "setInstruction index inst p =
     (if length (pd_code p) \<le> index then None else Some (p\<lparr>pd_code := (pd_code p)[index := inst]\<rparr>))"

definition addLineInfo :: "int \<Rightarrow> proto_data \<Rightarrow> proto_data" where
  "addLineInfo line p = p\<lparr>pd_lineInfo := pd_lineInfo p @ [line]\<rparr>"

definition getLine :: "proto_data \<Rightarrow> nat \<Rightarrow> int" where
  "getLine p pc = (if length (pd_lineInfo p) \<le> pc then 0 else pd_lineInfo p ! pc)"

section \<open>Children and debug information\<close>

fun addProto :: "proto option \<Rightarrow> proto \<Rightarrow> nat \<times> proto" where
  "addProto child (Proto d subs) = (length (subs @ [child]) - 1, Proto d (subs @ [child]))"

definition getSubProto :: "proto \<Rightarrow> nat \<Rightarrow> proto option option" where
  "getSubProto p index = (if length (sub_protos p) \<le> index then None else Some (sub_protos p ! index))"

definition addLocVar :: "addr option \<Rightarrow> int \<Rightarrow> int \<Rightarrow> int \<Rightarrow> proto_data \<Rightarrow> nat \<times> proto_data" where
  "addLocVar varname startpc endpc reg p =
     (let p' = p\<lparr>pd_locvars := pd_locvars p @
            [\<lparr>lv_varname = varname, lv_startpc = startpc, lv_endpc = endpc, lv_reg = reg\<rparr>]\<rparr>
      in (length (pd_locvars p') - 1, p'))"

definition getLocVar :: "proto_data \<Rightarrow> nat \<Rightarrow> loc_var option" where
  "getLocVar p index = (if length (pd_locvars p) \<le> index then None else Some (pd_locvars p ! index))"

fun local_var_loop :: "loc_var list \<Rightarrow> int \<Rightarrow> int \<Rightarrow> loc_var option" where
  "local_var_loop [] localNumber pc = None"
| "local_var_loop (lv # lvs) localNumber pc =
     (if \<not> lv_startpc lv \<le> pc then None
      else if pc < lv_endpc lv
        then (if localNumber - 1 = 0 then Some lv else local_var_loop lvs (localNumber - 1) pc)
      else local_var_loop lvs localNumber pc)"

definition getLocalVarInfo :: "proto_data \<Rightarrow> int \<Rightarrow> int \<Rightarrow> loc_var option" where
  "getLocalVarInfo p localNumber pc = local_var_loop (pd_locvars p) localNumber pc"

definition getLocalName :: "proto_data \<Rightarrow> int \<Rightarrow> int \<Rightarrow> addr option" where
  "getLocalName p localNumber pc =
     (case getLocalVarInfo p localNumber pc of None \<Rightarrow> None | Some lv \<Rightarrow> lv_varname lv)"

definition addUpvalueName :: "addr option \<Rightarrow> proto_data \<Rightarrow> nat \<times> proto_data" where
  "addUpvalueName name p =
     (let p' = p\<lparr>pd_upvalueNames := pd_upvalueNames p @ [name]\<rparr> in (length (pd_upvalueNames p') - 1, p'))"

definition getUpvalueName :: "proto_data \<Rightarrow> nat \<Rightarrow> addr option" where
  "getUpvalueName p index =
     (if length (pd_upvalueNames p) \<le> index then None else pd_upvalueNames p ! index)"

section \<open>The constant table\<close>

text \<open>Every entry of the map names a slot that holds a constant equal to its key.\<close>

definition constants_ok :: "proto_data \<Rightarrow> bool" where
  "constants_ok p \<longleftrightarrow> (\<forall>(k, i) \<in> set (pd_constantMap p).
     i < length (pd_constants p) \<and> pd_constants p ! i = k \<and> is_constant_kind k)"

lemma find_constant_Some: "find_constant m v = Some i \<Longrightarrow> \<exists>k. (k, i) \<in> set m \<and> value_eq k v"
  by (induction m v rule: find_constant.induct) (auto split: if_splits)

lemma find_constant_append:
  "find_constant (m @ m') v = (case find_constant m v of None \<Rightarrow> find_constant m' v | Some i \<Rightarrow> Some i)"
  by (induction m v rule: find_constant.induct) auto

lemma emplace_ok:
  assumes "constants_ok p" "is_constant_kind v"
  shows "constants_ok (p\<lparr>pd_constants := pd_constants p @ [v],
     pd_constantMap := emplace_constant (pd_constantMap p) v (length (pd_constants p))\<rparr>)"
  using assms by (auto simp: constants_ok_def emplace_constant_def nth_append)

lemma append_slot_ok: "constants_ok p \<Longrightarrow> constants_ok (p\<lparr>pd_constants := pd_constants p @ [v]\<rparr>)"
  by (fastforce simp: constants_ok_def nth_append)

lemma addConstant_ok: "constants_ok p \<Longrightarrow> addConstant v p = (i, p') \<Longrightarrow> constants_ok p'"
  by (auto simp: addConstant_def Let_def emplace_ok append_slot_ok split: if_splits option.splits)

lemma appendConstantSlot_ok: "constants_ok p \<Longrightarrow> appendConstantSlot v p = (i, p') \<Longrightarrow> constants_ok p'"
  by (auto simp: appendConstantSlot_def Let_def emplace_ok append_slot_ok)

lemma find_constant_cong:
  assumes "value_eq v w"
  shows "find_constant m v = find_constant m w"
proof (induction m)
  case (Cons e m)
  have "value_eq k v \<longleftrightarrow> value_eq k w" for k using assms value_eq_trans value_eq_sym by metis
  then show ?case using Cons by (cases e) simp
qed simp

lemma addConstant_cases:
  assumes ok: "constants_ok p" and add: "addConstant v p = (i, p')"
  shows "i < length (pd_constants p') \<and> (pd_constants p' ! i = v \<or> value_eq (pd_constants p' ! i) v) \<and>
    (\<exists>vs. pd_constants p' = pd_constants p @ vs \<and> length vs \<le> 1)"
proof (cases "is_constant_kind v \<and> find_constant (pd_constantMap p) v \<noteq> None")
  case True
  then obtain j where j: "find_constant (pd_constantMap p) v = Some j" by auto
  then have "i = j" "p' = p" using add True by (auto simp: addConstant_def)
  then show ?thesis using find_constant_Some [OF j] ok by (auto simp: constants_ok_def)
next
  case False
  then have "i = length (pd_constants p)" "pd_constants p' = pd_constants p @ [v]"
    using add by (auto simp: addConstant_def Let_def split: if_splits option.splits)
  then show ?thesis by simp
qed

text \<open>Adding a constant answers the index of a slot that holds a constant equal to it, keeps all
  constants that were there, appends at most one slot, and keeps the lookup map consistent with the
  slots; adding an equal value again (nil, a boolean, a string, or a number that is not NaN) answers
  the same index and changes nothing.\<close>

theorem add_constant_correct:
  assumes "constants_ok p" "addConstant v p = (i, p')"
  shows "constants_ok p' \<and>
    (\<exists>w. getConstant p' i = Some w \<and> (w = v \<or> value_eq w v)) \<and>
    (\<forall>j < length (pd_constants p). getConstant p' j = getConstant p j) \<and>
    length (pd_constants p') \<le> length (pd_constants p) + 1 \<and>
    (is_constant_kind v \<longrightarrow> value_eq v w' \<longrightarrow> addConstant w' p' = (i, p'))"
proof -
  obtain vs where c: "i < length (pd_constants p')" "pd_constants p' ! i = v \<or> value_eq (pd_constants p' ! i) v"
    "pd_constants p' = pd_constants p @ vs" "length vs \<le> 1"
    using addConstant_cases [OF assms] by blast
  have again: "addConstant w' p' = (i, p')" if k: "is_constant_kind v" "value_eq v w'"
  proof -
    have kind: "is_constant_kind w'"
      using k by (cases v; cases w') (auto simp: is_constant_kind_def value_eq_def isNil_def isBoolean_def isNumber_def isString_def)
    have refl: "value_eq v v" using k(2) value_eq_not_NaN value_eq_refl by blast
    have "find_constant (pd_constantMap p') v = Some i"
    proof (cases "find_constant (pd_constantMap p) v")
      case None
      then have "pd_constantMap p' = pd_constantMap p @ [(v, i)]"
        using assms(2) k(1) by (auto simp: addConstant_def emplace_constant_def Let_def)
      then show ?thesis using None refl by (simp add: find_constant_append)
    qed (use assms(2) k(1) in \<open>auto simp: addConstant_def\<close>)
    then show ?thesis using kind find_constant_cong [OF k(2)] by (simp add: addConstant_def)
  qed
  have keep: "getConstant p' j = getConstant p j" if "j < length (pd_constants p)" for j
    using that c(3) by (simp add: getConstant_def nth_append)
  have "\<exists>w. getConstant p' i = Some w \<and> (w = v \<or> value_eq w v)"
    using c(1,2) by (simp add: getConstant_def)
  then show ?thesis using addConstant_ok [OF assms] keep c(3,4) again by simp
qed

definition empty_proto :: proto_data where
  "empty_proto = \<lparr>pd_constants = [], pd_constantMap = [], pd_code = [], pd_lineInfo = [], pd_locvars = [],
     pd_upvalueNames = [], pd_source = None, pd_debugName = None, pd_linedefined = 0,
     pd_lastlinedefined = 0, pd_numParams = 0, pd_isVararg = 0, pd_maxStackSize = 0, pd_nups = 0\<rparr>"

theorem add_constant_correct_witness:
  "\<exists>p'. addConstant (VString 7) empty_proto = (0, p') \<and> addConstant (VString 7) p' = (0, p')"
proof -
  obtain i p' where add: "addConstant (VString 7) empty_proto = (i, p')"
    by (cases "addConstant (VString 7) empty_proto")
  then have "i = 0" by (auto simp: addConstant_def empty_proto_def is_constant_kind_def isString_def)
  moreover have "constants_ok empty_proto" by (simp add: constants_ok_def empty_proto_def)
  ultimately show ?thesis
    using add add_constant_correct [of empty_proto "VString 7" i p' "VString 7"]
    by (auto simp: is_constant_kind_def isString_def value_eq_def)
qed

text \<open>Deduplication by numeric equality merges the two zeros: once the constant 0 has a slot, adding
  the constant -0 answers that slot, whose value divides to plus infinity where -0 divides to minus
  infinity.\<close>

theorem negative_zero_merged:
  "\<exists>p i. addConstant (VNumber (F_Fin False 0 0)) empty_proto = (i, p) \<and>
     addConstant (VNumber (F_Fin True 0 0)) p = (i, p) \<and>
     getConstant p i = Some (VNumber (F_Fin False 0 0)) \<and>
     f64_div (f64_of_int 1) (F_Fin False 0 0) = F_Inf False \<and>
     f64_div (f64_of_int 1) (F_Fin True 0 0) = F_Inf True"
proof -
  have one: "f64_of_int 1 = F_Fin False 1 0" by (simp add: f64_of_int_small f64_fin_def strip.simps)
  have zeros: "value_eq (VNumber (F_Fin False 0 0)) (VNumber (F_Fin True 0 0))"
    by (simp add: value_eq_def align_def sval_def)
  let ?p = "empty_proto\<lparr>pd_constants := [VNumber (F_Fin False 0 0)],
    pd_constantMap := [(VNumber (F_Fin False 0 0), 0)]\<rparr>"
  have "addConstant (VNumber (F_Fin False 0 0)) empty_proto = (0, ?p)"
    by (simp add: addConstant_def empty_proto_def is_constant_kind_def isNumber_def emplace_constant_def)
  moreover have "addConstant (VNumber (F_Fin True 0 0)) ?p = (0, ?p)"
    using zeros by (simp add: addConstant_def is_constant_kind_def isNumber_def)
  moreover have "getConstant ?p 0 = Some (VNumber (F_Fin False 0 0))" by (simp add: getConstant_def)
  ultimately show ?thesis using one by (intro exI conjI) (assumption | simp)+
qed

section \<open>Local-variable names\<close>

lemma local_var_loop_filter:
  assumes "sorted_wrt (\<lambda>a b. lv_startpc a \<le> lv_startpc b) lvs" "1 \<le> n"
  shows "local_var_loop lvs n pc =
    (let active = filter (\<lambda>lv. lv_startpc lv \<le> pc \<and> pc < lv_endpc lv) lvs
     in if nat n \<le> length active then Some (active ! (nat n - 1)) else None)"
  using assms
proof (induction lvs n pc rule: local_var_loop.induct)
  case (2 lv lvs n pc)
  consider "pc < lv_startpc lv" | "lv_startpc lv \<le> pc" "pc < lv_endpc lv"
    | "lv_startpc lv \<le> pc" "\<not> pc < lv_endpc lv" by linarith
  then show ?case
  proof cases
    case 1
    then have "filter (\<lambda>lv. lv_startpc lv \<le> pc \<and> pc < lv_endpc lv) (lv # lvs) = []"
      using 2(3) by (force simp: filter_empty_conv)
    then show ?thesis using 1 2(4) by (simp add: Let_def)
  next
    case 2
    show ?thesis
    proof (cases "n = 1")
      case True
      then show ?thesis using 2 by (simp add: Let_def)
    next
      case False
      then have n: "1 \<le> n - 1" "nat n = Suc (nat (n - 1))" "nat n - 1 = Suc (nat (n - 1) - 1)"
        using \<open>1 \<le> n\<close> by linarith+
      then show ?thesis using 2 "2.IH"(1) "2.prems" False by (simp add: Let_def)
    qed
  next
    case 3
    then show ?thesis using "2.IH"(2) "2.prems" by (simp add: Let_def)
  qed
qed (simp add: Let_def)

text \<open>When the debug records are in the order of their start, as the compiler emits them, looking up
  local variable number \<open>n\<close> at a program point answers the \<open>n\<close>-th of the variables whose range
  contains the point, and nothing when fewer are live.\<close>

theorem local_variable_lookup:
  assumes "sorted_wrt (\<lambda>a b. lv_startpc a \<le> lv_startpc b) (pd_locvars p)" "1 \<le> n"
  shows "getLocalVarInfo p n pc =
    (let active = filter (\<lambda>lv. lv_startpc lv \<le> pc \<and> pc < lv_endpc lv) (pd_locvars p)
     in if nat n \<le> length active then Some (active ! (nat n - 1)) else None)"
  unfolding getLocalVarInfo_def using assms by (rule local_var_loop_filter)

theorem local_variable_lookup_witness:
  "getLocalVarInfo (snd (addLocVar (Some 3) 2 9 1 (snd (addLocVar (Some 5) 0 4 0 empty_proto)))) 2 3 =
   Some \<lparr>lv_varname = Some 3, lv_startpc = 2, lv_endpc = 9, lv_reg = 1\<rparr>"
proof -
  let ?p = "snd (addLocVar (Some 3) 2 9 1 (snd (addLocVar (Some 5) 0 4 0 empty_proto)))"
  have "sorted_wrt (\<lambda>a b. lv_startpc a \<le> lv_startpc b) (pd_locvars ?p)"
    by (simp add: addLocVar_def empty_proto_def Let_def)
  from local_variable_lookup [OF this, of 2 3] show ?thesis
    by (simp add: addLocVar_def empty_proto_def Let_def)
qed

end
