(* ===== verification/Verifier.thy ===== *)
theory Verifier
  imports Proto
begin

text \<open>
  \<^verbatim>\<open>runtime/bytecode_verifier.cpp\<close>: the check a prototype tree passes before it may be executed.

  The verifier object is a record of its counters, the pending error and the stack of prototypes
  being checked. Every check is a function of the verifier that answers a truth value and the new
  verifier; \<open>a && b\<close> is \<open>a and_then b\<close>. The error text is kept as its parts.
\<close>

section \<open>State\<close>

record verifier_limits =
  vl_maxProtoDepth :: nat
  vl_maxProtoCount :: nat
  vl_maxInstructionCount :: nat
  vl_maxConstantCount :: nat
  vl_maxDebugEntries :: nat

definition default_verifier_limits :: verifier_limits where
  "default_verifier_limits =
     \<lparr>vl_maxProtoDepth = 200, vl_maxProtoCount = 10000, vl_maxInstructionCount = 1000000,
      vl_maxConstantCount = 1000000, vl_maxDebugEntries = 1000000\<rparr>"

record verify_error =
  ve_proto :: "(addr option \<times> int) option"
  ve_pc :: "nat option"
  ve_message :: string

record verifier =
  vf_protoCount :: nat
  vf_instructionCount :: nat
  vf_constantCount :: nat
  vf_debugEntryCount :: nat
  vf_error :: "verify_error option"
  vf_protoStack :: "proto list"

definition new_verifier :: verifier where
  "new_verifier = \<lparr>vf_protoCount = 0, vf_instructionCount = 0, vf_constantCount = 0,
     vf_debugEntryCount = 0, vf_error = None, vf_protoStack = []\<rparr>"

type_synonym check = "verifier \<Rightarrow> bool \<times> verifier"

definition and_then :: "check \<Rightarrow> check \<Rightarrow> check" where
  "and_then f g s = (case f s of (ok, s') \<Rightarrow> if ok then g s' else (False, s'))"

definition test :: "bool \<Rightarrow> check" where
  "test b s = (b, s)"

fun all_checks :: "check list \<Rightarrow> check" where
  "all_checks [] = test True"
| "all_checks (c # cs) = and_then c (all_checks cs)"

definition fail :: "string \<Rightarrow> nat option \<Rightarrow> check" where
  "fail message pc s =
     (False, s\<lparr>vf_error := Some \<lparr>ve_proto = (case vf_protoStack s of
                  [] \<Rightarrow> None
                | p # _ \<Rightarrow> Some (pd_source (proto_data p), pd_linedefined (proto_data p))),
               ve_pc = pc, ve_message = message\<rparr>\<rparr>)"

definition fail_unless :: "bool \<Rightarrow> string \<Rightarrow> nat option \<Rightarrow> check" where
  "fail_unless b message pc = (if b then test True else fail message pc)"

definition addWithin ::
  "nat \<Rightarrow> (verifier \<Rightarrow> nat) \<Rightarrow> (nat \<Rightarrow> verifier \<Rightarrow> verifier) \<Rightarrow> nat \<Rightarrow> string \<Rightarrow> check" where
  "addWithin val get_sum set_sum limit message s =
     (if limit < val \<or> limit - val < get_sum s then fail message None s
      else (True, set_sum (get_sum s + val) s))"

section \<open>Operand checks\<close>

definition verifyRegister :: "int \<Rightarrow> nat \<Rightarrow> nat \<Rightarrow> check" where
  "verifyRegister reg maxStack pc =
     fail_unless (0 \<le> reg \<and> reg < int maxStack) ''register out of range'' (Some pc)"

definition verifyRange :: "int \<Rightarrow> int \<Rightarrow> nat \<Rightarrow> nat \<Rightarrow> check" where
  "verifyRange first count maxStack pc =
     (if first < 0 \<or> count < 0 then fail ''negative register range'' (Some pc)
      else fail_unless (first + count \<le> int maxStack) ''register range out of bounds'' (Some pc))"

definition verifyRK :: "int \<Rightarrow> proto_data \<Rightarrow> nat \<Rightarrow> nat \<Rightarrow> check" where
  "verifyRK operand p maxStack pc =
     (if ISK operand
      then fail_unless (INDEXK operand < int (length (pd_constants p))) ''RK constant index out of range'' (Some pc)
      else verifyRegister operand maxStack pc)"

definition verifyTarget :: "int \<Rightarrow> bool list \<Rightarrow> nat \<Rightarrow> check" where
  "verifyTarget target dataWords pc =
     (if target < 0 \<or> int (length dataWords) \<le> target
      then fail ''control-flow target out of range'' (Some pc)
      else if dataWords ! nat target then fail ''control-flow target enters pseudo data'' (Some pc)
      else test True)"

definition verifyJumpAt :: "proto_data \<Rightarrow> nat \<Rightarrow> bool list \<Rightarrow> nat \<Rightarrow> check" where
  "verifyJumpAt p jumpPc dataWords ownerPc =
     (if length (pd_code p) \<le> jumpPc \<or> dataWords ! jumpPc \<or> GET_OPCODE (pd_code p ! jumpPc) \<noteq> Some OP_JMP
      then fail ''test instruction is not followed by JMP'' (Some ownerPc)
      else verifyTarget (int jumpPc + 1 + GETARG_sBx (pd_code p ! jumpPc)) dataWords ownerPc)"

section \<open>One instruction\<close>

definition verifyInstruction :: "proto \<Rightarrow> nat \<Rightarrow> bool list \<Rightarrow> nat \<Rightarrow> check" where
  "verifyInstruction prot pc dataWords maxStack =
     (let p = proto_data prot;
          instr = pd_code p ! pc;
          a = GETARG_A instr; b = GETARG_B instr; c = GETARG_C instr; bx = GETARG_Bx instr;
          regA = verifyRegister a maxStack pc;
          regB = verifyRegister b maxStack pc;
          rkB = verifyRK b p maxStack pc;
          rkC = verifyRK c p maxStack pc;
          jump = verifyTarget (int pc + 1 + GETARG_sBx instr) dataWords pc;
          range = (\<lambda>first count. verifyRange first count maxStack pc);
          constant = fail_unless (bx < int (length (pd_constants p))) ''constant index out of range'' (Some pc);
          upvalue = fail_unless (b < uint (pd_nups p)) ''upvalue index out of range'' (Some pc);
          unless = (\<lambda>skip check. if skip then test True else check)
      in case GET_OPCODE instr of
           None \<Rightarrow> fail ''unknown opcode'' (Some pc)
         | Some OP_MOVE \<Rightarrow> all_checks [regA, regB]
         | Some OP_LOADK \<Rightarrow> all_checks [regA, constant]
         | Some OP_LOADBOOL \<Rightarrow> all_checks [regA, unless (c = 0) (verifyTarget (int pc + 2) dataWords pc)]
         | Some OP_LOADNIL \<Rightarrow> all_checks [test (a \<le> b), range a (b - a + 1)]
         | Some OP_GETUPVAL \<Rightarrow> all_checks [regA, upvalue]
         | Some OP_GETGLOBAL \<Rightarrow> all_checks [regA, constant]
         | Some OP_GETTABLE \<Rightarrow> all_checks [regA, regB, rkC]
         | Some OP_SETGLOBAL \<Rightarrow> all_checks [regA, constant]
         | Some OP_SETUPVAL \<Rightarrow> all_checks [regA, upvalue]
         | Some OP_SETTABLE \<Rightarrow> all_checks [regA, rkB, rkC]
         | Some OP_NEWTABLE \<Rightarrow> regA
         | Some OP_SELF \<Rightarrow> all_checks [range a 2, regB, rkC]
         | Some OP_ADD \<Rightarrow> all_checks [regA, rkB, rkC]
         | Some OP_SUB \<Rightarrow> all_checks [regA, rkB, rkC]
         | Some OP_MUL \<Rightarrow> all_checks [regA, rkB, rkC]
         | Some OP_DIV \<Rightarrow> all_checks [regA, rkB, rkC]
         | Some OP_MOD \<Rightarrow> all_checks [regA, rkB, rkC]
         | Some OP_POW \<Rightarrow> all_checks [regA, rkB, rkC]
         | Some OP_UNM \<Rightarrow> all_checks [regA, regB]
         | Some OP_NOT \<Rightarrow> all_checks [regA, regB]
         | Some OP_LEN \<Rightarrow> all_checks [regA, regB]
         | Some OP_CONCAT \<Rightarrow> all_checks [regA, test (b \<le> c), range b (c - b + 1)]
         | Some OP_JMP \<Rightarrow> jump
         | Some OP_EQ \<Rightarrow> all_checks [test (a \<le> 1), rkB, rkC, verifyTarget (int pc + 2) dataWords pc]
         | Some OP_LT \<Rightarrow> all_checks [test (a \<le> 1), rkB, rkC, verifyTarget (int pc + 2) dataWords pc]
         | Some OP_LE \<Rightarrow> all_checks [test (a \<le> 1), rkB, rkC, verifyTarget (int pc + 2) dataWords pc]
         | Some OP_TEST \<Rightarrow> all_checks [regA, test (c \<le> 1), verifyJumpAt p (pc + 1) dataWords pc]
         | Some OP_TESTSET \<Rightarrow> all_checks [regA, regB, test (c \<le> 1), verifyJumpAt p (pc + 1) dataWords pc]
         | Some OP_CALL \<Rightarrow> all_checks [regA, unless (b = 0) (range a b), unless (c = 0 \<or> c = 1) (range a (c - 1))]
         | Some OP_TAILCALL \<Rightarrow> all_checks [regA, unless (b = 0) (range a b)]
         | Some OP_RETURN \<Rightarrow> all_checks [regA, unless (b = 0 \<or> b = 1) (range a (b - 1))]
         | Some OP_FORLOOP \<Rightarrow> all_checks [range a 4, jump]
         | Some OP_FORPREP \<Rightarrow> all_checks [range a 4, jump]
         | Some OP_TFORLOOP \<Rightarrow> all_checks [test (0 < c), range a (c + 3), verifyJumpAt p (pc + 1) dataWords pc]
         | Some OP_SETLIST \<Rightarrow> all_checks [regA, unless (b = 0) (range (a + 1) b)]
         | Some OP_CLOSE \<Rightarrow> regA
         | Some OP_CLOSURE \<Rightarrow> all_checks [regA, test (bx < int (length (sub_protos prot)))]
         | Some OP_VARARG \<Rightarrow> all_checks [test (isVararg p), if b = 0 \<or> b = 1 then range a 0 else range a (b - 1)])"

section \<open>Pseudo instructions\<close>

text \<open>The upvalue words after a \<open>CLOSURE\<close>: the loop over \<open>offset\<close>.\<close>

fun verifyCaptures :: "proto_data \<Rightarrow> nat \<Rightarrow> nat \<Rightarrow> nat \<Rightarrow> bool list \<Rightarrow> verifier \<Rightarrow> bool list option \<times> verifier" where
  "verifyCaptures p maxStack pc 0 dataWords s = (Some dataWords, s)"
| "verifyCaptures p maxStack pc (Suc remaining) dataWords s =
     (let pseudo = pd_code p ! pc;
          check = (case GET_OPCODE pseudo of
              Some OP_MOVE \<Rightarrow> verifyRegister (GETARG_B pseudo) maxStack pc
            | Some OP_GETUPVAL \<Rightarrow> fail_unless (\<not> (GETARG_B pseudo < 0 \<or> uint (pd_nups p) \<le> GETARG_B pseudo))
                ''CLOSURE parent upvalue index out of range'' (Some pc)
            | _ \<Rightarrow> fail ''CLOSURE has an invalid upvalue pseudo instruction'' (Some pc))
      in case check s of
           (False, s') \<Rightarrow> (None, s')
         | (True, s') \<Rightarrow> verifyCaptures p maxStack (pc + 1) remaining (dataWords[pc := True]) s')"

definition setlist_block_ok :: "instruction \<Rightarrow> bool" where
  "setlist_block_ok block \<longleftrightarrow>
     \<not> (block = 0 \<or> i32_max < uint block \<or> i32_max div LFIELDS_PER_FLUSH < uint block - 1)"

text \<open>The first pass: the words that are data of the instruction before them.\<close>

function markDataWords :: "proto \<Rightarrow> nat \<Rightarrow> nat \<Rightarrow> bool list \<Rightarrow> verifier \<Rightarrow> bool list option \<times> verifier" where
  "markDataWords prot maxStack pc dataWords s =
     (let p = proto_data prot; codeCount = length (pd_code p)
      in if codeCount \<le> pc then (Some dataWords, s)
         else let instr = pd_code p ! pc
           in case GET_OPCODE instr of
                None \<Rightarrow> (None, snd (fail ''unknown opcode'' (Some pc) s))
              | Some opc \<Rightarrow>
                  if opc = OP_SETLIST \<and> GETARG_C instr = 0 then
                    (if codeCount \<le> pc + 1
                     then (None, snd (fail ''SETLIST is missing its extended operand'' (Some pc) s))
                     else if \<not> setlist_block_ok (pd_code p ! (pc + 1))
                     then (None, snd (fail ''SETLIST extended operand overflows'' (Some pc) s))
                     else markDataWords prot maxStack (pc + 2) (dataWords[pc + 1 := True]) s)
                  else if opc = OP_CLOSURE then
                    (let bx = nat (GETARG_Bx instr)
                     in if length (sub_protos prot) \<le> bx \<or> sub_protos prot ! bx = None
                        then (None, snd (fail ''CLOSURE child Proto index out of range'' (Some pc) s))
                        else let upvalues = unat (pd_nups (proto_data (the (sub_protos prot ! bx))))
                          in if codeCount - pc - 1 < upvalues
                             then (None, snd (fail ''CLOSURE is missing upvalue pseudo instructions'' (Some pc) s))
                             else case verifyCaptures p maxStack (pc + 1) upvalues dataWords s of
                                    (None, s') \<Rightarrow> (None, s')
                                  | (Some dataWords', s') \<Rightarrow> markDataWords prot maxStack (pc + 1 + upvalues) dataWords' s')
                  else markDataWords prot maxStack (pc + 1) dataWords s)"
  by pat_completeness auto
termination
  by (relation "measure (\<lambda>(prot, maxStack, pc, dataWords, s). length (pd_code (proto_data prot)) - pc)") auto

declare markDataWords.simps [simp del]

section \<open>A prototype tree\<close>

definition isConstantValue :: "lua_value \<Rightarrow> bool" where
  "isConstantValue v \<longleftrightarrow> isNil v \<or> isBoolean v \<or> isNumber v \<or> isString v"

definition verifyLocal :: "nat \<Rightarrow> nat \<Rightarrow> loc_var \<Rightarrow> check" where
  "verifyLocal codeCount maxStack lv s =
     (if lv_startpc lv < 0 \<or> lv_endpc lv < lv_startpc lv \<or> int codeCount < lv_endpc lv
      then fail ''invalid local-variable metadata'' None s
      else if lv_reg lv = -1 then (True, s)
      else case verifyRegister (lv_reg lv) maxStack 0 s of
             (True, s') \<Rightarrow> (True, s')
           | (False, s') \<Rightarrow> fail ''invalid local-variable metadata'' None s')"

definition verifyHeader :: "verifier_limits \<Rightarrow> nat \<Rightarrow> proto_data \<Rightarrow> check" where
  "verifyHeader limits depth p =
     (let codeCount = length (pd_code p); constantCount = length (pd_constants p);
          debugCount = length (pd_lineInfo p) + length (pd_locvars p) + length (pd_upvalueNames p);
          maxStack = unat (pd_maxStackSize p)
      in all_checks (
        [fail_unless (depth \<le> vl_maxProtoDepth limits) ''Proto nesting limit exceeded'' None,
         (\<lambda>s. (True, s\<lparr>vf_protoCount := vf_protoCount s + 1\<rparr>)),
         (\<lambda>s. fail_unless (vf_protoCount s \<le> vl_maxProtoCount limits) ''Proto count limit exceeded'' None s),
         addWithin codeCount vf_instructionCount (\<lambda>n s. s\<lparr>vf_instructionCount := n\<rparr>)
           (vl_maxInstructionCount limits) ''instruction count limit exceeded'',
         addWithin constantCount vf_constantCount (\<lambda>n s. s\<lparr>vf_constantCount := n\<rparr>)
           (vl_maxConstantCount limits) ''constant count limit exceeded'',
         addWithin debugCount vf_debugEntryCount (\<lambda>n s. s\<lparr>vf_debugEntryCount := n\<rparr>)
           (vl_maxDebugEntries limits) ''debug entry limit exceeded'',
         fail_unless (\<not> (maxStack = 0 \<or> maxStack < unat (pd_numParams p))) ''invalid function stack metadata'' None,
         fail_unless (pd_isVararg p AND NOT (VARARG_HASARG OR VARARG_ISVARARG OR VARARG_NEEDSARG) = 0)
           ''invalid vararg flags'' None,
         fail_unless (codeCount \<noteq> 0) ''empty instruction stream'' None,
         fail_unless (pd_lineInfo p = [] \<or> length (pd_lineInfo p) = codeCount)
           ''line metadata count does not match code'' None,
         fail_unless (length (pd_upvalueNames p) \<le> unat (pd_nups p)) ''too many upvalue names'' None] @
        map (\<lambda>v. fail_unless (isConstantValue v) ''unsupported constant type'' None) (pd_constants p) @
        map (verifyLocal codeCount maxStack) (pd_locvars p)))"

definition verifyCode :: "proto \<Rightarrow> check" where
  "verifyCode prot s =
     (let n = length (pd_code (proto_data prot)); maxStack = unat (pd_maxStackSize (proto_data prot))
      in case markDataWords prot maxStack 0 (replicate n False) s of
           (None, s') \<Rightarrow> (False, s')
         | (Some dataWords, s') \<Rightarrow>
             all_checks (map (\<lambda>pc. verifyInstruction prot pc dataWords maxStack)
               (filter (\<lambda>pc. \<not> dataWords ! pc) [0..<n])) s')"

fun verifyProto :: "verifier_limits \<Rightarrow> nat \<Rightarrow> proto \<Rightarrow> check"
  and verifyChildren :: "verifier_limits \<Rightarrow> nat \<Rightarrow> proto option list \<Rightarrow> check" where
  "verifyProto limits depth (Proto d subs) =
     all_checks
       [(\<lambda>s. (True, s\<lparr>vf_protoStack := Proto d subs # vf_protoStack s\<rparr>)),
        verifyHeader limits depth d,
        verifyCode (Proto d subs),
        verifyChildren limits depth subs,
        (\<lambda>s. (True, s\<lparr>vf_protoStack := tl (vf_protoStack s)\<rparr>))]"
| "verifyChildren limits depth [] = test True"
| "verifyChildren limits depth (child # children) =
     and_then (case child of None \<Rightarrow> fail ''null child Proto'' None | Some p \<Rightarrow> verifyProto limits (depth + 1) p)
       (verifyChildren limits depth children)"

definition verify :: "verifier_limits \<Rightarrow> proto \<Rightarrow> (verify_error option, unit) result" where
  "verify limits root =
     (case verifyProto limits 1 root new_verifier of
        (True, _) \<Rightarrow> Inr ()
      | (False, s) \<Rightarrow> Inl (vf_error s))"

end
