(* ===== verification/VerifierProps.thy ===== *)
theory VerifierProps
  imports Verifier
begin

text \<open>
  What the verifier of \<^verbatim>\<open>runtime/bytecode_verifier.cpp\<close> promises: it accepts exactly the prototype trees
  that are well formed in the declarative sense below, and the control flow of an accepted
  prototype only ever reaches whole instructions whose operands are in range.
\<close>

section \<open>Instruction boundaries\<close>

abbreviation code_of :: "proto \<Rightarrow> instruction list" where
  "code_of prot \<equiv> pd_code (proto_data prot)"

definition child_upvalues :: "proto \<Rightarrow> nat \<Rightarrow> nat" where
  "child_upvalues prot k = (case getSubProto prot k of Some (Some c) \<Rightarrow> unat (pd_nups (proto_data c)) | _ \<Rightarrow> 0)"

definition extended_setlist :: "instruction \<Rightarrow> bool" where
  "extended_setlist i \<longleftrightarrow> GET_OPCODE i = Some OP_SETLIST \<and> GETARG_C i = 0"

text \<open>The words an instruction occupies, its data words included.\<close>

definition width :: "proto \<Rightarrow> nat \<Rightarrow> nat" where
  "width prot pc =
     (let i = code_of prot ! pc
      in if extended_setlist i then 2
         else if GET_OPCODE i = Some OP_CLOSURE then 1 + child_upvalues prot (nat (GETARG_Bx i)) else 1)"

inductive instr_start :: "proto \<Rightarrow> nat \<Rightarrow> bool" for prot :: proto where
  first: "instr_start prot 0"
| nextp: "instr_start prot pc \<Longrightarrow> pc < length (code_of prot) \<Longrightarrow> instr_start prot (pc + width prot pc)"

lemma width_pos [simp]: "0 < width prot pc"
  by (simp add: width_def Let_def)

lemma instr_start_gap:
  "instr_start prot pc \<Longrightarrow> instr_start prot q \<Longrightarrow> pc < q \<Longrightarrow> pc + width prot pc \<le> q"
proof (induction q arbitrary: pc rule: less_induct)
  case (less q)
  from less.prems(2) show ?case
  proof (cases rule: instr_start.cases)
    case first
    then show ?thesis using less.prems by simp
  next
    case (nextp r)
    have "r < q" using nextp(1) width_pos [of prot r] by linarith
    consider "pc < r" | "pc = r" | "r < pc" by linarith
    then show ?thesis
    proof cases
      case 1
      then show ?thesis using less.IH [OF \<open>r < q\<close> less.prems(1) nextp(2)] \<open>r < q\<close> by simp
    next
      case 2
      then show ?thesis using nextp by simp
    next
      case 3
      then show ?thesis using less.IH [OF less.prems(3) nextp(2) less.prems(1)] nextp(1) less.prems(3) by simp
    qed
  qed
qed

lemma no_start_inside: "instr_start prot pc \<Longrightarrow> pc < q \<Longrightarrow> q < pc + width prot pc \<Longrightarrow> \<not> instr_start prot q"
  using instr_start_gap by fastforce

section \<open>The data words\<close>

definition capture_ok :: "proto_data \<Rightarrow> instruction \<Rightarrow> bool" where
  "capture_ok p w \<longleftrightarrow>
     GET_OPCODE w = Some OP_MOVE \<and> GETARG_B w < uint (pd_maxStackSize p) \<or>
     GET_OPCODE w = Some OP_GETUPVAL \<and> GETARG_B w < uint (pd_nups p)"

definition word_ok :: "proto \<Rightarrow> nat \<Rightarrow> bool" where
  "word_ok prot pc =
     (let n = length (code_of prot); i = code_of prot ! pc; k = nat (GETARG_Bx i)
      in GET_OPCODE i \<noteq> None \<and>
         (extended_setlist i \<longrightarrow> pc + 1 < n \<and> setlist_block_ok (code_of prot ! (pc + 1))) \<and>
         (GET_OPCODE i = Some OP_CLOSURE \<longrightarrow>
            (\<exists>c. getSubProto prot k = Some (Some c)) \<and> pc + child_upvalues prot k < n \<and>
            (\<forall>j < child_upvalues prot k. capture_ok (proto_data prot) (code_of prot ! (pc + 1 + j)))))"

definition layout_ok :: "proto \<Rightarrow> bool" where
  "layout_ok prot \<longleftrightarrow> (\<forall>pc < length (code_of prot). instr_start prot pc \<longrightarrow> word_ok prot pc)"

definition marks :: "proto \<Rightarrow> bool list \<Rightarrow> bool" where
  "marks prot dw \<longleftrightarrow> length dw = length (code_of prot) \<and> (\<forall>q < length dw. dw ! q \<longleftrightarrow> \<not> instr_start prot q)"

lemma GETARG_nonneg [simp]:
  "0 \<le> GETARG_A i" "0 \<le> GETARG_B i" "0 \<le> GETARG_C i" "0 \<le> GETARG_Bx i"
  "\<not> GETARG_A i < 0" "\<not> GETARG_B i < 0" "\<not> GETARG_C i < 0" "\<not> GETARG_Bx i < 0"
  using GETARG_bounds [of i] by linarith+

lemma captures:
  "pc + k \<le> length dw \<Longrightarrow>
   (if \<forall>j<k. capture_ok p (pd_code p ! (pc + j))
    then \<exists>dw'. verifyCaptures p (unat (pd_maxStackSize p)) pc k dw s = (Some dw', s) \<and> length dw' = length dw \<and>
           (\<forall>q < length dw. dw' ! q \<longleftrightarrow> dw ! q \<or> pc \<le> q \<and> q < pc + k)
    else fst (verifyCaptures p (unat (pd_maxStackSize p)) pc k dw s) = None)"
proof (induction k arbitrary: pc dw)
  case (Suc k)
  let ?w = "pd_code p ! pc"
  have shift: "(\<forall>j<Suc k. capture_ok p (pd_code p ! (pc + j))) \<longleftrightarrow>
      capture_ok p ?w \<and> (\<forall>j<k. capture_ok p (pd_code p ! (pc + 1 + j)))"
    by (auto simp: less_Suc_eq_0_disj)
  show ?case
  proof (cases "capture_ok p ?w")
    case True
    then have step: "verifyCaptures p (unat (pd_maxStackSize p)) pc (Suc k) dw s =
        verifyCaptures p (unat (pd_maxStackSize p)) (pc + 1) k (dw[pc := True]) s"
      by (auto simp: capture_ok_def verifyRegister_def fail_unless_def test_def Let_def)
    have "pc + 1 + k \<le> length (dw[pc := True])" using Suc.prems by simp
    note IH = Suc.IH [OF this]
    show ?thesis
    proof (cases "\<forall>j<k. capture_ok p (pd_code p ! (pc + 1 + j))")
      case all: True
      then obtain dw' where dw': "verifyCaptures p (unat (pd_maxStackSize p)) (pc + 1) k (dw[pc := True]) s = (Some dw', s)"
        "length dw' = length dw" "\<forall>q < length dw. dw' ! q \<longleftrightarrow> dw[pc := True] ! q \<or> pc + 1 \<le> q \<and> q < pc + 1 + k"
        using IH by auto
      have "dw' ! q \<longleftrightarrow> dw ! q \<or> pc \<le> q \<and> q < pc + Suc k" if "q < length dw" for q
        using that dw'(3) Suc.prems by (cases "q = pc") auto
      then show ?thesis using shift all True dw'(1,2) by (simp add: step del: verifyCaptures.simps)
    next
      case False
      then have "fst (verifyCaptures p (unat (pd_maxStackSize p)) (pc + 1) k (dw[pc := True]) s) = None"
        using IH unfolding if_not_P [OF False] by blast
      moreover have "\<not> (\<forall>j<Suc k. capture_ok p (pd_code p ! (pc + j)))" using False shift by blast
      ultimately show ?thesis by (simp only: step if_False)
    qed
  next
    case False
    then have "fst (verifyCaptures p (unat (pd_maxStackSize p)) pc (Suc k) dw s) = None"
      by (auto simp: capture_ok_def verifyRegister_def fail_unless_def test_def Let_def fail_def
          split: option.splits opcode.splits)
    moreover have "\<not> (\<forall>j<Suc k. capture_ok p (pd_code p ! (pc + j)))" using False shift by blast
    ultimately show ?thesis by (simp only: if_False)
  qed
qed auto

lemma mark_pc_cases:
  assumes "pc < length (code_of prot)" "length dw = length (code_of prot)"
  defines "i \<equiv> code_of prot ! pc" and "ms \<equiv> unat (pd_maxStackSize (proto_data prot))"
  shows "if word_ok prot pc
    then \<exists>dw'. markDataWords prot ms pc dw s = markDataWords prot ms (pc + width prot pc) dw' s \<and>
           pc + width prot pc \<le> length dw' \<and> length dw' = length dw \<and>
           (\<forall>q < length dw. dw' ! q \<longleftrightarrow> dw ! q \<or> pc < q \<and> q < pc + width prot pc)
    else fst (markDataWords prot ms pc dw s) = None"
proof -
  consider "GET_OPCODE i = None" | "extended_setlist i" | "GET_OPCODE i = Some OP_CLOSURE"
    | "GET_OPCODE i \<noteq> None" "\<not> extended_setlist i" "GET_OPCODE i \<noteq> Some OP_CLOSURE" by blast
  then show ?thesis
  proof cases
    case 1
    then show ?thesis
      using assms(1) by (subst markDataWords.simps) (simp add: word_ok_def i_def fail_def Let_def)
  next
    case 2
    then have w: "width prot pc = 2" by (simp add: width_def i_def Let_def)
    have o: "GET_OPCODE i = Some OP_SETLIST" "GETARG_C i = 0" using 2 by (auto simp: extended_setlist_def)
    show ?thesis
    proof (cases "word_ok prot pc")
      case True
      then have ok: "pc + 1 < length (code_of prot)" "setlist_block_ok (code_of prot ! (pc + 1))"
        using 2 by (auto simp: word_ok_def i_def Let_def)
      have "markDataWords prot ms pc dw s = markDataWords prot ms (pc + 2) (dw[pc + 1 := True]) s"
        using o ok by (subst markDataWords.simps) (simp add: i_def Let_def)
      moreover have "dw[pc + 1 := True] ! q \<longleftrightarrow> dw ! q \<or> pc < q \<and> q < pc + 2" if "q < length dw" for q
        using that by (cases "q = pc + 1") auto
      ultimately show ?thesis using True ok assms(2) w by (intro if_P [THEN iffD2]) auto
    next
      case False
      then have "\<not> (pc + 1 < length (code_of prot) \<and> setlist_block_ok (code_of prot ! (pc + 1)))"
        using 2 o by (auto simp: word_ok_def i_def Let_def)
      then have "fst (markDataWords prot ms pc dw s) = None"
        using o assms(1) by (subst markDataWords.simps) (auto simp: i_def Let_def fail_def)
      then show ?thesis using False by simp
    qed
  next
    case 3
    define k where "k = nat (GETARG_Bx i)"
    have w: "width prot pc = 1 + child_upvalues prot k" using 3 by (simp add: width_def i_def k_def extended_setlist_def Let_def)
    have ok_iff: "word_ok prot pc \<longleftrightarrow> (\<exists>c. getSubProto prot k = Some (Some c)) \<and> pc + child_upvalues prot k < length (code_of prot) \<and>
       (\<forall>j < child_upvalues prot k. capture_ok (proto_data prot) (code_of prot ! (pc + 1 + j)))"
      using 3 by (simp add: word_ok_def i_def k_def extended_setlist_def Let_def)
    show ?thesis
    proof (cases "\<exists>c. getSubProto prot k = Some (Some c)")
      case True
      then obtain c where c: "getSubProto prot k = Some (Some c)" by blast
      then have sub: "k < length (sub_protos prot)" "sub_protos prot ! k = Some c"
        by (auto simp: getSubProto_def split: if_splits)
      have u: "child_upvalues prot k = unat (pd_nups (proto_data c))" using c by (simp add: child_upvalues_def)
      show ?thesis
      proof (cases "pc + child_upvalues prot k < length (code_of prot)")
        case fits: True
        have step: "markDataWords prot ms pc dw s =
            (case verifyCaptures (proto_data prot) ms (pc + 1) (child_upvalues prot k) dw s of
               (None, s') \<Rightarrow> (None, s')
             | (Some dw', s') \<Rightarrow> markDataWords prot ms (pc + 1 + child_upvalues prot k) dw' s')"
          using 3 sub fits assms(1) by (subst markDataWords.simps) (auto simp: i_def [symmetric] k_def [symmetric] Let_def u split: prod.splits option.splits)
        have "pc + 1 + child_upvalues prot k \<le> length dw" using fits assms(2) by simp
        note cap = captures [OF this, of "proto_data prot" s, folded ms_def]
        show ?thesis
        proof (cases "\<forall>j < child_upvalues prot k. capture_ok (proto_data prot) (code_of prot ! (pc + 1 + j))")
          case all: True
          then obtain dw' where dw': "verifyCaptures (proto_data prot) ms (pc + 1) (child_upvalues prot k) dw s = (Some dw', s)"
            "length dw' = length dw" "\<forall>q < length dw. dw' ! q \<longleftrightarrow> dw ! q \<or> pc + 1 \<le> q \<and> q < pc + 1 + child_upvalues prot k"
            using cap by auto
          have "word_ok prot pc" using ok_iff all fits c by blast
          then show ?thesis using dw' fits assms(2) w by (intro if_P [THEN iffD2]) (auto simp: step Suc_le_eq)
        next
          case False
          then have "fst (verifyCaptures (proto_data prot) ms (pc + 1) (child_upvalues prot k) dw s) = None" using cap unfolding if_not_P [OF False] by blast
          then have "fst (markDataWords prot ms pc dw s) = None" by (auto simp: step split: prod.splits option.splits)
          then show ?thesis using ok_iff False by (simp only: if_False simp_thms)
        qed
      next
        case False
        then have "fst (markDataWords prot ms pc dw s) = None"
          using 3 sub assms(1) by (subst markDataWords.simps) (auto simp: i_def [symmetric] k_def [symmetric] Let_def u fail_def)
        then show ?thesis using ok_iff False by simp
      qed
    next
      case False
      then have "length (sub_protos prot) \<le> k \<or> sub_protos prot ! k = None"
        by (cases "sub_protos prot ! k"; cases "length (sub_protos prot) \<le> k") (simp_all add: getSubProto_def)
      then have "fst (markDataWords prot ms pc dw s) = None"
        using 3 assms(1) by (subst markDataWords.simps) (simp add: i_def [symmetric] k_def [symmetric] Let_def fail_def)
      then show ?thesis using ok_iff False by simp
    qed
  next
    case 4
    then have w: "width prot pc = 1" "word_ok prot pc" by (auto simp: width_def word_ok_def i_def Let_def)
    have "markDataWords prot ms pc dw s = markDataWords prot ms (pc + 1) dw s"
      using 4 assms(1) by (subst markDataWords.simps) (auto simp: i_def [symmetric] extended_setlist_def Let_def)
    then show ?thesis using w assms by auto
  qed
qed

lemma mark_spec:
  assumes "instr_start prot pc" "pc \<le> length (code_of prot)" "length dw = length (code_of prot)"
    and "\<And>q. q < pc \<Longrightarrow> dw ! q \<longleftrightarrow> \<not> instr_start prot q" "\<And>q. pc \<le> q \<Longrightarrow> q < length dw \<Longrightarrow> \<not> dw ! q"
  shows "if \<forall>q. pc \<le> q \<and> q < length (code_of prot) \<and> instr_start prot q \<longrightarrow> word_ok prot q
    then \<exists>dw'. markDataWords prot (unat (pd_maxStackSize (proto_data prot))) pc dw s = (Some dw', s) \<and> marks prot dw'
    else fst (markDataWords prot (unat (pd_maxStackSize (proto_data prot))) pc dw s) = None"
  using assms
proof (induction "length (code_of prot) - pc" arbitrary: pc dw rule: less_induct)
  case less
  let ?n = "length (code_of prot)" and ?ms = "unat (pd_maxStackSize (proto_data prot))"
  show ?case
  proof (cases "pc = ?n")
    case True
    then have "markDataWords prot ?ms pc dw s = (Some dw, s)" by (subst markDataWords.simps) simp
    then show ?thesis using True less.prems(3,4) by (auto simp: marks_def)
  next
    case False
    then have lt: "pc < ?n" using less.prems(2) by simp
    note c = mark_pc_cases [OF lt less.prems(3), of s]
    show ?thesis
    proof (cases "word_ok prot pc")
      case True
      then obtain dw' where dw': "markDataWords prot ?ms pc dw s = markDataWords prot ?ms (pc + width prot pc) dw' s"
        "pc + width prot pc \<le> length dw'" "length dw' = length dw"
        "\<And>q. q < length dw \<Longrightarrow> dw' ! q \<longleftrightarrow> dw ! q \<or> pc < q \<and> q < pc + width prot pc"
        using c by auto
      have split_start: "(\<forall>q. pc \<le> q \<and> q < ?n \<and> instr_start prot q \<longrightarrow> word_ok prot q) \<longleftrightarrow>
          (\<forall>q. pc + width prot pc \<le> q \<and> q < ?n \<and> instr_start prot q \<longrightarrow> word_ok prot q)"
      proof -
        have "q = pc \<or> pc + width prot pc \<le> q" if "pc \<le> q" "instr_start prot q" for q
          using instr_start_gap [OF less.prems(1) that(2)] that(1) by fastforce
        then show ?thesis using True le_trans [OF le_add1] by blast
      qed
      have "?n - (pc + width prot pc) < ?n - pc" using width_pos [of prot pc] lt by (simp add: diff_less_mono2 del: width_pos)
      moreover have "instr_start prot (pc + width prot pc)" using less.prems(1) lt by (rule nextp)
      moreover have "pc + width prot pc \<le> ?n" "length dw' = ?n" using dw'(2,3) less.prems(3) by simp_all
      moreover have "dw' ! q \<longleftrightarrow> \<not> instr_start prot q" if "q < pc + width prot pc" for q
      proof -
        have "q < length dw" using that dw'(2,3) by simp
        consider "q < pc" | "q = pc" | "pc < q" by linarith
        then show ?thesis
          using dw'(4) [OF \<open>q < length dw\<close>] less.prems(1) less.prems(4) [of q] less.prems(5) [of q]
            no_start_inside [OF less.prems(1) _ that] that \<open>q < length dw\<close> by cases auto
      qed
      moreover have "\<not> dw' ! q" if "pc + width prot pc \<le> q" "q < length dw'" for q
        using that dw'(3,4) less.prems(5) [of q] by auto
      ultimately show ?thesis unfolding split_start dw'(1) by (intro less.hyps)
    next
      case False
      then show ?thesis using c less.prems(1) lt by auto
    qed
  qed
qed

lemma mark_all:
  defines "r \<equiv> \<lambda>prot s. markDataWords prot (unat (pd_maxStackSize (proto_data prot))) 0 (replicate (length (code_of prot)) False) s"
  shows "if layout_ok prot then \<exists>dw. r prot s = (Some dw, s) \<and> marks prot dw else fst (r prot s) = None"
  using mark_spec [of prot 0 "replicate (length (code_of prot)) False" s]
  by (simp add: r_def layout_ok_def first)


section \<open>One instruction\<close>

text \<open>The register blocks (first register, number of registers), the constants and the upvalues an
  instruction names, and the jump targets it may take beside the next instruction.\<close>

definition rk_blocks :: "int \<Rightarrow> (int \<times> int) list" where
  "rk_blocks x = (if ISK x then [] else [(x, 1)])"

definition rk_constants :: "int \<Rightarrow> int list" where
  "rk_constants x = (if ISK x then [INDEXK x] else [])"

definition register_blocks :: "instruction \<Rightarrow> (int \<times> int) list" where
  "register_blocks i =
     (let a = GETARG_A i; b = GETARG_B i; c = GETARG_C i in case the (GET_OPCODE i) of
        OP_MOVE \<Rightarrow> [(a, 1), (b, 1)]
      | OP_LOADNIL \<Rightarrow> [(a, b - a + 1)]
      | OP_GETTABLE \<Rightarrow> (a, 1) # (b, 1) # rk_blocks c
      | OP_SELF \<Rightarrow> (a, 2) # (b, 1) # rk_blocks c
      | OP_CONCAT \<Rightarrow> [(a, 1), (b, c - b + 1)]
      | OP_CALL \<Rightarrow> (a, 1) # (if b = 0 then [] else [(a, b)]) @ (if c \<le> 1 then [] else [(a, c - 1)])
      | OP_TAILCALL \<Rightarrow> (a, 1) # (if b = 0 then [] else [(a, b)])
      | OP_RETURN \<Rightarrow> (a, 1) # (if b \<le> 1 then [] else [(a, b - 1)])
      | OP_FORLOOP \<Rightarrow> [(a, 4)]
      | OP_FORPREP \<Rightarrow> [(a, 4)]
      | OP_TFORLOOP \<Rightarrow> [(a, c + 3)]
      | OP_SETLIST \<Rightarrow> (a, 1) # (if b = 0 then [] else [(a + 1, b)])
      | OP_VARARG \<Rightarrow> [(a, if b \<le> 1 then 0 else b - 1)]
      | OP_JMP \<Rightarrow> []
      | oc \<Rightarrow>
          (if oc \<in> {OP_UNM, OP_NOT, OP_LEN, OP_TESTSET} then [(a, 1), (b, 1)]
           else if oc \<in> {OP_EQ, OP_LT, OP_LE} then rk_blocks b @ rk_blocks c
           else if oc \<in> {OP_SETTABLE, OP_ADD, OP_SUB, OP_MUL, OP_DIV, OP_MOD, OP_POW}
             then (a, 1) # rk_blocks b @ rk_blocks c
           else [(a, 1)]))"

definition constant_refs :: "instruction \<Rightarrow> int list" where
  "constant_refs i =
     (let oc = the (GET_OPCODE i) in
      if oc \<in> {OP_LOADK, OP_GETGLOBAL, OP_SETGLOBAL} then [GETARG_Bx i]
      else if oc \<in> {OP_GETTABLE, OP_SELF} then rk_constants (GETARG_C i)
      else if oc \<in> {OP_SETTABLE, OP_ADD, OP_SUB, OP_MUL, OP_DIV, OP_MOD, OP_POW, OP_EQ, OP_LT, OP_LE}
        then rk_constants (GETARG_B i) @ rk_constants (GETARG_C i)
      else [])"

definition upvalue_operands :: "instruction \<Rightarrow> int list" where
  "upvalue_operands i = (if the (GET_OPCODE i) \<in> {OP_GETUPVAL, OP_SETUPVAL} then [GETARG_B i] else [])"

definition before_jump :: "instruction \<Rightarrow> bool" where
  "before_jump i \<longleftrightarrow> the (GET_OPCODE i) \<in> {OP_TEST, OP_TESTSET, OP_TFORLOOP}"

definition jump_targets :: "proto \<Rightarrow> nat \<Rightarrow> int list" where
  "jump_targets prot pc =
     (let i = code_of prot ! pc; oc = the (GET_OPCODE i) in
      if oc \<in> {OP_JMP, OP_FORLOOP, OP_FORPREP} then [int pc + 1 + GETARG_sBx i]
      else if oc \<in> {OP_EQ, OP_LT, OP_LE} \<or> oc = OP_LOADBOOL \<and> GETARG_C i \<noteq> 0 then [int pc + 2]
      else if before_jump i then [int pc + 2 + GETARG_sBx (code_of prot ! (pc + 1))]
      else [])"

text \<open>The remaining conditions: flags that are 0 or 1, ordered ranges, a \<open>VARARG\<close> only in a vararg
  function, an existing child, and a jump after a test.\<close>

definition shape_ok :: "proto \<Rightarrow> nat \<Rightarrow> bool" where
  "shape_ok prot pc =
     (let i = code_of prot ! pc; oc = the (GET_OPCODE i) in
      (oc = OP_LOADNIL \<longrightarrow> GETARG_A i \<le> GETARG_B i) \<and>
      (oc = OP_CONCAT \<longrightarrow> GETARG_B i \<le> GETARG_C i) \<and>
      (oc \<in> {OP_EQ, OP_LT, OP_LE} \<longrightarrow> GETARG_A i \<le> 1) \<and>
      (oc \<in> {OP_TEST, OP_TESTSET} \<longrightarrow> GETARG_C i \<le> 1) \<and>
      (oc = OP_TFORLOOP \<longrightarrow> 0 < GETARG_C i) \<and>
      (oc = OP_CLOSURE \<longrightarrow> GETARG_Bx i < int (length (sub_protos prot))) \<and>
      (oc = OP_VARARG \<longrightarrow> isVararg (proto_data prot)) \<and>
      (before_jump i \<longrightarrow> pc + 1 < length (code_of prot) \<and> instr_start prot (pc + 1) \<and>
         GET_OPCODE (code_of prot ! (pc + 1)) = Some OP_JMP))"

definition target_ok :: "proto \<Rightarrow> int \<Rightarrow> bool" where
  "target_ok prot t \<longleftrightarrow> 0 \<le> t \<and> t < int (length (code_of prot)) \<and> instr_start prot (nat t)"

definition block_ok :: "proto \<Rightarrow> int \<times> int \<Rightarrow> bool" where
  "block_ok prot rb \<longleftrightarrow> 0 \<le> fst rb \<and> 0 \<le> snd rb \<and> fst rb + snd rb \<le> uint (pd_maxStackSize (proto_data prot))"

definition instr_ok :: "proto \<Rightarrow> nat \<Rightarrow> bool" where
  "instr_ok prot pc =
     (let i = code_of prot ! pc; p = proto_data prot in
      GET_OPCODE i \<noteq> None \<and> shape_ok prot pc \<and>
      (\<forall>rb \<in> set (register_blocks i). block_ok prot rb) \<and>
      (\<forall>k \<in> set (constant_refs i). 0 \<le> k \<and> k < int (length (pd_constants p))) \<and>
      (\<forall>u \<in> set (upvalue_operands i). u < uint (pd_nups p)) \<and>
      (\<forall>t \<in> set (jump_targets prot pc). target_ok prot t))"

text \<open>A check that leaves the verifier alone and decides a condition.\<close>

definition decides :: "check \<Rightarrow> bool \<Rightarrow> bool" where
  "decides c P \<longleftrightarrow> (\<forall>s. if P then c s = (True, s) else \<not> fst (c s))"

lemma decides_test: "decides (test b) b" by (simp add: decides_def test_def)

lemma decides_fail: "decides (fail m pc) False" by (simp add: decides_def fail_def)

lemma decides_unless: "decides (fail_unless b m pc) b"
  by (simp add: decides_def fail_unless_def test_def fail_def)

lemma decides_and: "decides c P \<Longrightarrow> decides d Q \<Longrightarrow> decides (and_then c d) (P \<and> Q)"
  by (auto simp: decides_def and_then_def split: prod.splits) (metis fst_conv)+

lemma decides_all: "list_all2 decides cs Ps \<Longrightarrow> decides (all_checks cs) (list_all id Ps)"
  by (induction rule: list_all2_induct) (auto simp: decides_and decides_test [of True, simplified])

lemma decides_if: "decides c P \<Longrightarrow> decides (if b then test True else c) (b \<or> P)"
  by (auto simp: decides_def test_def)

lemma decides_cong: "decides c P \<Longrightarrow> P = Q \<Longrightarrow> decides c Q" by simp

lemmas decides_intros = decides_test decides_fail decides_unless decides_and decides_if

lemma decides_register:
  "decides (verifyRegister x (unat (pd_maxStackSize (proto_data prot))) pc) (block_ok prot (x, 1))"
  unfolding verifyRegister_def by (rule decides_cong [OF decides_unless]) (auto simp: block_ok_def)

lemma decides_range:
  "decides (verifyRange x k (unat (pd_maxStackSize (proto_data prot))) pc) (block_ok prot (x, k))"
  by (auto simp: verifyRange_def decides_def fail_def fail_unless_def test_def block_ok_def)

lemma decides_rk:
  assumes "0 \<le> x"
  shows "decides (verifyRK x (proto_data prot) (unat (pd_maxStackSize (proto_data prot))) pc)
     ((\<forall>rb \<in> set (rk_blocks x). block_ok prot rb) \<and>
      (\<forall>k \<in> set (rk_constants x). 0 \<le> k \<and> k < int (length (pd_constants (proto_data prot)))))"
proof (cases "ISK x")
  case True
  then show ?thesis using INDEXK_bounds [OF assms] decides_unless
    by (simp add: verifyRK_def rk_blocks_def rk_constants_def)
next
  case False
  then show ?thesis using decides_register by (simp add: verifyRK_def rk_blocks_def rk_constants_def)
qed

lemma decides_target: "marks prot dw \<Longrightarrow> decides (verifyTarget t dw pc) (target_ok prot t)"
  by (auto simp: verifyTarget_def decides_def fail_def test_def target_ok_def marks_def)

lemma decides_jump_at:
  assumes "marks prot dw"
  shows "decides (verifyJumpAt (proto_data prot) (pc + 1) dw pc)
     ((pc + 1 < length (code_of prot) \<and> instr_start prot (pc + 1) \<and> GET_OPCODE (code_of prot ! (pc + 1)) = Some OP_JMP) \<and>
      target_ok prot (int pc + 2 + GETARG_sBx (code_of prot ! (pc + 1))))"
proof -
  let ?t = "int (pc + 1) + 1 + GETARG_sBx (code_of prot ! (pc + 1))"
  have t: "?t = int pc + 2 + GETARG_sBx (code_of prot ! (pc + 1))" by simp
  show ?thesis
  proof (cases "length (code_of prot) \<le> pc + 1 \<or> dw ! (pc + 1) \<or> GET_OPCODE (code_of prot ! (pc + 1)) \<noteq> Some OP_JMP")
    case True
    then have "verifyJumpAt (proto_data prot) (pc + 1) dw pc = fail ''test instruction is not followed by JMP'' (Some pc)"
      unfolding verifyJumpAt_def by (rule if_P)
    moreover have "\<not> (pc + 1 < length (code_of prot) \<and> instr_start prot (pc + 1) \<and> GET_OPCODE (code_of prot ! (pc + 1)) = Some OP_JMP)"
      using True assms by (auto simp: marks_def)
    ultimately show ?thesis using decides_fail by (simp only: simp_thms)
  next
    case False
    then have "verifyJumpAt (proto_data prot) (pc + 1) dw pc = verifyTarget ?t dw pc"
      unfolding verifyJumpAt_def by (rule if_not_P)
    moreover have "pc + 1 < length (code_of prot) \<and> instr_start prot (pc + 1) \<and> GET_OPCODE (code_of prot ! (pc + 1)) = Some OP_JMP"
      using False assms by (auto simp: marks_def)
    ultimately show ?thesis using decides_target [OF assms, of ?t pc] unfolding t by (simp only: simp_thms)
  qed
qed


lemmas instr_specs =
  register_blocks_def constant_refs_def upvalue_operands_def jump_targets_def shape_ok_def before_jump_def

lemma GETARG_le_1: "GETARG_B i \<le> 1 \<longleftrightarrow> GETARG_B i = 0 \<or> GETARG_B i = 1" "GETARG_C i \<le> 1 \<longleftrightarrow> GETARG_C i = 0 \<or> GETARG_C i = 1"
  using GETARG_nonneg [of i] by linarith+

lemma decides_instruction:
  assumes "marks prot dw"
  shows "decides (verifyInstruction prot pc dw (unat (pd_maxStackSize (proto_data prot)))) (instr_ok prot pc)"
proof -
  note jump_at = decides_jump_at [OF assms, unfolded Suc_eq_plus1 [symmetric]]
  show ?thesis
  proof (cases "GET_OPCODE (code_of prot ! pc)")
    case None
    then show ?thesis using decides_fail by (simp add: verifyInstruction_def instr_ok_def Let_def)
  next
    case (Some oc)
    show ?thesis
      by (cases oc; simp add: verifyInstruction_def instr_ok_def Let_def Some instr_specs GETARG_le_1;
          (intro conjI impI)?; (rule decides_cong, (rule decides_and decides_register decides_range
             decides_rk [OF GETARG_nonneg(2)] decides_rk [OF GETARG_nonneg(3)]
             decides_target [OF assms] jump_at decides_test decides_unless decides_if)+, auto)?)
  qed
qed


section \<open>A prototype tree\<close>

text \<open>The nodes of a tree with their depths; the null children are counted apart.\<close>

fun nodes :: "nat \<Rightarrow> proto \<Rightarrow> (nat \<times> proto) list" and child_nodes :: "nat \<Rightarrow> proto option list \<Rightarrow> (nat \<times> proto) list" where
  "nodes d (Proto p subs) = (d, Proto p subs) # child_nodes (d + 1) subs"
| "child_nodes d [] = []"
| "child_nodes d (c # cs) = (case c of None \<Rightarrow> [] | Some p \<Rightarrow> nodes d p) @ child_nodes d cs"

type_synonym size4 = "nat \<times> nat \<times> nat \<times> nat"

text \<open>The four resources: prototypes, instructions, constants and debug entries.\<close>

definition proto_size :: "proto_data \<Rightarrow> size4" where
  "proto_size p = (1, length (pd_code p), length (pd_constants p),
     length (pd_lineInfo p) + length (pd_locvars p) + length (pd_upvalueNames p))"

fun add4 :: "size4 \<Rightarrow> size4 \<Rightarrow> size4" where
  "add4 (a, b, c, d) (a', b', c', d') = (a + a', b + b', c + c', d + d')"

definition sizes :: "(nat \<times> proto) list \<Rightarrow> size4" where
  "sizes ns = foldr (\<lambda>(d, p). add4 (proto_size (proto_data p))) ns (0, 0, 0, 0)"

fun fits :: "verifier_limits \<Rightarrow> size4 \<Rightarrow> bool" where
  "fits l (a, b, c, d) \<longleftrightarrow> a \<le> vl_maxProtoCount l \<and> b \<le> vl_maxInstructionCount l \<and>
     c \<le> vl_maxConstantCount l \<and> d \<le> vl_maxDebugEntries l"

definition used :: "verifier \<Rightarrow> size4" where
  "used s = (vf_protoCount s, vf_instructionCount s, vf_constantCount s, vf_debugEntryCount s)"

definition header_ok :: "proto_data \<Rightarrow> bool" where
  "header_ok p \<longleftrightarrow>
     0 < pd_maxStackSize p \<and> pd_numParams p \<le> pd_maxStackSize p \<and>
     pd_isVararg p AND NOT (VARARG_HASARG OR VARARG_ISVARARG OR VARARG_NEEDSARG) = 0 \<and>
     pd_code p \<noteq> [] \<and> (pd_lineInfo p = [] \<or> length (pd_lineInfo p) = length (pd_code p)) \<and>
     length (pd_upvalueNames p) \<le> unat (pd_nups p) \<and>
     (\<forall>v \<in> set (pd_constants p). isConstantValue v) \<and>
     (\<forall>lv \<in> set (pd_locvars p). 0 \<le> lv_startpc lv \<and> lv_startpc lv \<le> lv_endpc lv \<and>
        lv_endpc lv \<le> int (length (pd_code p)) \<and>
        (lv_reg lv = -1 \<or> 0 \<le> lv_reg lv \<and> lv_reg lv < uint (pd_maxStackSize p)))"

definition proto_ok :: "proto \<Rightarrow> bool" where
  "proto_ok prot \<longleftrightarrow> header_ok (proto_data prot) \<and> layout_ok prot \<and> None \<notin> set (sub_protos prot) \<and>
     (\<forall>pc < length (code_of prot). instr_start prot pc \<longrightarrow> instr_ok prot pc)"

definition well_formed :: "verifier_limits \<Rightarrow> proto \<Rightarrow> bool" where
  "well_formed l root \<longleftrightarrow> fits l (sizes (nodes 1 root)) \<and>
     (\<forall>(d, p) \<in> set (nodes 1 root). d \<le> vl_maxProtoDepth l \<and> proto_ok p)"

text \<open>A check that charges \<open>k\<close> and otherwise decides a condition, from any state within the limits.\<close>

definition charges :: "verifier_limits \<Rightarrow> size4 \<Rightarrow> check \<Rightarrow> bool \<Rightarrow> bool" where
  "charges l k c P \<longleftrightarrow> (\<forall>s. fits l (used s) \<longrightarrow>
     (if P \<and> fits l (add4 k (used s))
      then \<exists>s'. c s = (True, s') \<and> used s' = add4 k (used s)
      else \<not> fst (c s)))"

lemma add4_assoc: "add4 (add4 x y) z = add4 x (add4 y z)"
  by (cases x; cases y; cases z) simp

lemma add4_commute: "add4 x y = add4 y x"
  by (cases x; cases y) simp

lemma add4_zero [simp]: "add4 (0, 0, 0, 0) x = x" "add4 x (0, 0, 0, 0) = x"
  by (cases x; simp)+

lemma fits_add: "fits l (add4 x y) \<Longrightarrow> fits l y"
  by (cases x; cases y) simp

lemma charges_decides: "decides c P \<Longrightarrow> charges l (0, 0, 0, 0) c P"
  by (auto simp: decides_def charges_def)

lemma charges_and:
  assumes "charges l j c P" "charges l k d Q"
  shows "charges l (add4 j k) (and_then c d) (P \<and> Q)"
  unfolding charges_def
proof (intro allI impI)
  fix s
  assume s: "fits l (used s)"
  have sum: "add4 (add4 j k) (used s) = add4 k (add4 j (used s))" by (metis add4_assoc add4_commute)
  show "if (P \<and> Q) \<and> fits l (add4 (add4 j k) (used s))
    then \<exists>s'. and_then c d s = (True, s') \<and> used s' = add4 (add4 j k) (used s) else \<not> fst (and_then c d s)"
  proof (cases "P \<and> fits l (add4 j (used s))")
    case True
    then obtain s' where s': "c s = (True, s')" "used s' = add4 j (used s)"
      using assms(1) [unfolded charges_def, rule_format, OF s] by auto
    have "fits l (used s')" using True s'(2) by simp
    note d = assms(2) [unfolded charges_def, rule_format, OF this]
    show ?thesis using d True s' by (auto simp: and_then_def sum split: if_splits)
  next
    case False
    then have "\<not> fst (c s)" using assms(1) [unfolded charges_def, rule_format, OF s] by simp
    moreover have "\<not> ((P \<and> Q) \<and> fits l (add4 (add4 j k) (used s)))" using False fits_add sum by metis
    ultimately show ?thesis by (auto simp: and_then_def split: prod.splits)
  qed
qed

lemma charges_cong: "charges l k c P \<Longrightarrow> k = k' \<Longrightarrow> P = Q \<Longrightarrow> charges l k' c Q" by simp

lemma charges_state: "(\<And>s. used (f s) = used s) \<Longrightarrow> charges l (0, 0, 0, 0) (\<lambda>s. (True, f s)) True"
  by (simp add: charges_def)

lemma charges_instruction:
  "addWithin k vf_instructionCount (\<lambda>n s. s\<lparr>vf_instructionCount := n\<rparr>) (vl_maxInstructionCount l) m = c \<Longrightarrow>
   charges l (0, k, 0, 0) c True"
  by (auto simp: charges_def addWithin_def used_def fail_def split: if_splits)

lemma charges_constant:
  "addWithin k vf_constantCount (\<lambda>n s. s\<lparr>vf_constantCount := n\<rparr>) (vl_maxConstantCount l) m = c \<Longrightarrow>
   charges l (0, 0, k, 0) c True"
  by (auto simp: charges_def addWithin_def used_def fail_def split: if_splits)

lemma charges_debug:
  "addWithin k vf_debugEntryCount (\<lambda>n s. s\<lparr>vf_debugEntryCount := n\<rparr>) (vl_maxDebugEntries l) m = c \<Longrightarrow>
   charges l (0, 0, 0, k) c True"
  by (auto simp: charges_def addWithin_def used_def fail_def split: if_splits)

lemma charges_proto:
  "charges l (1, 0, 0, 0)
     (and_then (\<lambda>s. (True, s\<lparr>vf_protoCount := vf_protoCount s + 1\<rparr>))
        (\<lambda>s. fail_unless (vf_protoCount s \<le> vl_maxProtoCount l) m None s)) True"
  by (auto simp: charges_def and_then_def fail_unless_def test_def fail_def used_def)

lemma all_checks_append: "all_checks (cs @ ds) = and_then (all_checks cs) (all_checks ds)"
proof (induction cs)
  case (Cons c cs)
  then show ?case by (auto simp: fun_eq_iff and_then_def split: prod.splits)
qed (simp add: fun_eq_iff and_then_def test_def)

lemma and_then_assoc: "and_then (and_then c d) e = and_then c (and_then d e)"
  by (auto simp: fun_eq_iff and_then_def split: prod.splits)

lemma and_then_test: "and_then (test True) c = c" "and_then c (test True) = c"
  by (auto simp: fun_eq_iff and_then_def test_def split: prod.splits)

lemma decides_map: "(\<And>x. x \<in> set xs \<Longrightarrow> decides (f x) (P x)) \<Longrightarrow> decides (all_checks (map f xs)) (\<forall>x \<in> set xs. P x)"
proof (induction xs)
  case (Cons x xs)
  then have "decides (and_then (f x) (all_checks (map f xs))) (P x \<and> (\<forall>y \<in> set xs. P y))"
    by (intro decides_and) simp_all
  then show ?case by simp
qed (use decides_test [of True] in simp)

lemma decides_local:
  "decides (verifyLocal n (unat ms) lv)
     (0 \<le> lv_startpc lv \<and> lv_startpc lv \<le> lv_endpc lv \<and> lv_endpc lv \<le> int n \<and>
      (lv_reg lv = -1 \<or> 0 \<le> lv_reg lv \<and> lv_reg lv < uint (ms :: u8)))"
  by (auto simp: decides_def verifyLocal_def verifyRegister_def fail_unless_def test_def fail_def)

lemma word8_conditions:
  "\<not> (unat (ms :: u8) = 0 \<or> unat ms < unat (np :: u8)) \<longleftrightarrow> 0 < ms \<and> np \<le> ms"
  by (auto simp: unat_eq_zero word_le_nat_alt word_gt_0)

lemma charges_header: "charges l (proto_size p) (verifyHeader l depth p) (depth \<le> vl_maxProtoDepth l \<and> header_ok p)"
proof -
  let ?ms = "unat (pd_maxStackSize p)"
  have "charges l (add4 (0, 0, 0, 0) (add4 (1, 0, 0, 0) (add4 (0, length (pd_code p), 0, 0)
      (add4 (0, 0, length (pd_constants p), 0)
      (add4 (0, 0, 0, length (pd_lineInfo p) + length (pd_locvars p) + length (pd_upvalueNames p)) (0, 0, 0, 0))))))
    (verifyHeader l depth p)
    (depth \<le> vl_maxProtoDepth l \<and> True \<and> True \<and> True \<and> True \<and>
     (\<not> (?ms = 0 \<or> ?ms < unat (pd_numParams p))) \<and>
     (pd_isVararg p AND NOT (VARARG_HASARG OR VARARG_ISVARARG OR VARARG_NEEDSARG) = 0) \<and>
     (length (pd_code p) \<noteq> 0) \<and> (pd_lineInfo p = [] \<or> length (pd_lineInfo p) = length (pd_code p)) \<and>
     (length (pd_upvalueNames p) \<le> unat (pd_nups p)) \<and>
     (\<forall>v \<in> set (pd_constants p). isConstantValue v) \<and>
     (\<forall>lv \<in> set (pd_locvars p). 0 \<le> lv_startpc lv \<and> lv_startpc lv \<le> lv_endpc lv \<and>
        lv_endpc lv \<le> int (length (pd_code p)) \<and>
        (lv_reg lv = -1 \<or> 0 \<le> lv_reg lv \<and> lv_reg lv < uint (pd_maxStackSize p))))"
    unfolding verifyHeader_def Let_def all_checks_append all_checks.simps and_then_assoc and_then_test
    apply (rule charges_and [OF charges_decides [OF decides_unless]])
    apply (subst and_then_assoc [symmetric])
    apply (rule charges_and [OF charges_proto])
    apply (rule charges_and [OF charges_instruction [OF refl]])
    apply (rule charges_and [OF charges_constant [OF refl]])
    apply (rule charges_and [OF charges_debug [OF refl]])
    apply (rule charges_decides)
    apply (intro decides_and decides_unless decides_map decides_local)
    done
  then show ?thesis
    by (rule charges_cong) (auto simp: proto_size_def header_ok_def word8_conditions [simplified])
qed

lemma decides_code:
  "decides (verifyCode prot)
     (layout_ok prot \<and> (\<forall>pc < length (code_of prot). instr_start prot pc \<longrightarrow> instr_ok prot pc))"
  unfolding decides_def
proof
  fix s
  let ?P = "\<forall>pc < length (code_of prot). instr_start prot pc \<longrightarrow> instr_ok prot pc"
  show "if layout_ok prot \<and> ?P then verifyCode prot s = (True, s) else \<not> fst (verifyCode prot s)"
  proof (cases "layout_ok prot")
    case True
    then obtain dw where dw: "markDataWords prot (unat (pd_maxStackSize (proto_data prot))) 0
        (replicate (length (code_of prot)) False) s = (Some dw, s)" "marks prot dw"
      using mark_all [of prot s] by auto
    have "decides (all_checks (map (\<lambda>pc. verifyInstruction prot pc dw (unat (pd_maxStackSize (proto_data prot))))
        (filter (\<lambda>pc. \<not> dw ! pc) [0..<length (code_of prot)])))
        (\<forall>pc \<in> set (filter (\<lambda>pc. \<not> dw ! pc) [0..<length (code_of prot)]). instr_ok prot pc)"
      by (intro decides_map decides_instruction [OF dw(2)])
    moreover have "(\<forall>pc \<in> set (filter (\<lambda>pc. \<not> dw ! pc) [0..<length (code_of prot)]). instr_ok prot pc) \<longleftrightarrow> ?P"
      using dw(2) by (auto simp: marks_def)
    ultimately show ?thesis using True by (simp add: verifyCode_def dw(1) decides_def)
  next
    case False
    then show ?thesis using mark_all [of prot s] by (auto simp: verifyCode_def Let_def split: prod.splits option.splits)
  qed
qed

lemma sizes_simps: "sizes [] = (0, 0, 0, 0)" "sizes (n # ns) = add4 (proto_size (proto_data (snd n))) (sizes ns)"
  "sizes (ms @ ns) = add4 (sizes ms) (sizes ns)"
proof -
  show c: "sizes (n # ns) = add4 (proto_size (proto_data (snd n))) (sizes ns)" for n ns
    by (simp add: sizes_def split_def)
  show "sizes (ms @ ns) = add4 (sizes ms) (sizes ns)"
    by (induction ms) (simp_all add: c add4_assoc, simp add: sizes_def)
qed (simp add: sizes_def)

lemma charges_tree:
  "charges l (sizes (nodes depth prot)) (verifyProto l depth prot)
     (\<forall>(d, p) \<in> set (nodes depth prot). d \<le> vl_maxProtoDepth l \<and> proto_ok p)"
  "charges l (sizes (child_nodes (depth + 1) cs)) (verifyChildren l depth cs)
     (None \<notin> set cs \<and> (\<forall>(d, p) \<in> set (child_nodes (depth + 1) cs). d \<le> vl_maxProtoDepth l \<and> proto_ok p))"
proof (induction l depth prot and l depth cs rule: verifyProto_verifyChildren.induct)
  case (1 l depth d subs)
  have "charges l (add4 (0, 0, 0, 0) (add4 (proto_size d) (add4 (0, 0, 0, 0)
      (add4 (sizes (child_nodes (depth + 1) subs)) (0, 0, 0, 0)))))
    (verifyProto l depth (Proto d subs))
    (True \<and> (depth \<le> vl_maxProtoDepth l \<and> header_ok d) \<and>
     (layout_ok (Proto d subs) \<and> (\<forall>pc < length (pd_code (proto_data (Proto d subs))).
        instr_start (Proto d subs) pc \<longrightarrow> instr_ok (Proto d subs) pc)) \<and>
     (None \<notin> set subs \<and> (\<forall>(d, p) \<in> set (child_nodes (depth + 1) subs). d \<le> vl_maxProtoDepth l \<and> proto_ok p)) \<and> True)"
    unfolding verifyProto.simps all_checks.simps and_then_test
    by (intro charges_and charges_header charges_decides [OF decides_code] 1 charges_state)
      (simp_all add: used_def)
  then show ?case by (rule charges_cong) (auto simp: sizes_simps proto_ok_def)
next
  case (2 l depth)
  then show ?case using charges_decides [OF decides_test [of True]] by (simp add: sizes_simps)
next
  case (3 l depth c cs)
  show ?case
  proof (cases c)
    case None
    then show ?thesis by (auto simp: charges_def and_then_def fail_def)
  next
    case (Some p)
    then have "charges l (add4 (sizes (nodes (depth + 1) p)) (sizes (child_nodes (depth + 1) cs)))
        (verifyChildren l depth (c # cs))
        ((\<forall>(d, p) \<in> set (nodes (depth + 1) p). d \<le> vl_maxProtoDepth l \<and> proto_ok p) \<and>
         (None \<notin> set cs \<and> (\<forall>(d, p) \<in> set (child_nodes (depth + 1) cs). d \<le> vl_maxProtoDepth l \<and> proto_ok p)))"
      using charges_and [OF 3(1) [OF Some] 3(2)] by simp
    then show ?thesis by (rule charges_cong) (auto simp: Some sizes_simps)
  qed
qed

lemma verify_well_formed: "verify l root = Inr () \<longleftrightarrow> well_formed l root"
proof -
  have "charges l (sizes (nodes 1 root)) (verifyProto l 1 root)
     (\<forall>(d, p) \<in> set (nodes 1 root). d \<le> vl_maxProtoDepth l \<and> proto_ok p)" by (rule charges_tree)
  moreover have "used new_verifier = (0, 0, 0, 0)" by (simp add: used_def new_verifier_def)
  ultimately have "fst (verifyProto l 1 root new_verifier) \<longleftrightarrow> well_formed l root"
    unfolding charges_def well_formed_def by (metis add4_zero(2) fits.simps fst_conv le0)
  then show ?thesis by (auto simp: verify_def split: prod.splits bool.splits)
qed


section \<open>Control flow\<close>

text \<open>The program counters an instruction can pass control to in its own function, as its handler
  moves the counter; a return passes control to none.\<close>

definition flow_succ :: "proto \<Rightarrow> nat \<Rightarrow> int list" where
  "flow_succ prot pc =
     (let i = code_of prot ! pc; oc = the (GET_OPCODE i) in
      if oc = OP_RETURN then []
      else if oc \<in> {OP_JMP, OP_FORPREP} then [int pc + 1 + GETARG_sBx i]
      else if oc = OP_FORLOOP then [int pc + 1, int pc + 1 + GETARG_sBx i]
      else if oc \<in> {OP_EQ, OP_LT, OP_LE} then [int pc + 1, int pc + 2]
      else if oc = OP_LOADBOOL then [if GETARG_C i \<noteq> 0 then int pc + 2 else int pc + 1]
      else if before_jump i then
        [int pc + 2, int pc + 2 + (if pc + 1 < length (code_of prot) then GETARG_sBx (code_of prot ! (pc + 1)) else 0)]
      else [int pc + int (width prot pc)])"

inductive flow_reach :: "proto \<Rightarrow> int \<Rightarrow> bool" for prot :: proto where
  entry: "flow_reach prot 0"
| follow: "flow_reach prot (int pc) \<Longrightarrow> pc < length (code_of prot) \<Longrightarrow> t \<in> set (flow_succ prot pc) \<Longrightarrow> flow_reach prot t"

lemma flow_target:
  assumes ok: "proto_ok prot" and start: "instr_start prot pc" "pc < length (code_of prot)"
    and t: "t \<in> set (flow_succ prot pc)"
  shows "0 \<le> t \<and> instr_start prot (nat t) \<and> t \<le> int (length (code_of prot))"
proof -
  let ?i = "code_of prot ! pc"
  have i: "instr_ok prot pc" "word_ok prot pc" using ok start by (auto simp: proto_ok_def layout_ok_def)
  then obtain oc where oc: "GET_OPCODE ?i = Some oc" by (auto simp: instr_ok_def Let_def)
  have width_fits: "pc + width prot pc \<le> length (code_of prot)"
    using i(2) start(2) by (auto simp: word_ok_def width_def Let_def Suc_le_eq)
  have nxt: "instr_start prot (pc + width prot pc)" using start by (rule instr_start.nextp)
  have tgt: "target_ok prot x \<Longrightarrow> 0 \<le> x \<and> instr_start prot (nat x) \<and> x \<le> int (length (code_of prot))" for x
    by (simp add: target_ok_def)
  have targets: "\<forall>x \<in> set (jump_targets prot pc). target_ok prot x" using i(1) by (simp add: instr_ok_def Let_def)
  have w1: "width prot pc = 1" if "oc \<noteq> OP_SETLIST" "oc \<noteq> OP_CLOSURE"
    using that oc by (simp add: width_def extended_setlist_def Let_def)
  have one: "0 \<le> int pc + 1 \<and> instr_start prot (nat (int pc + 1)) \<and> int pc + 1 \<le> int (length (code_of prot))"
    if "oc \<noteq> OP_SETLIST" "oc \<noteq> OP_CLOSURE"
    using w1 [OF that] nxt width_fits start(2) by (simp add: nat_add_distrib)
  have all: "0 \<le> int pc + int (width prot pc) \<and> instr_start prot (nat (int pc + int (width prot pc))) \<and>
      int pc + int (width prot pc) \<le> int (length (code_of prot))"
    using nxt width_fits by (simp add: nat_int_add)
  show ?thesis
  proof (cases "before_jump ?i")
    case True
    then have j: "pc + 1 < length (code_of prot)" "instr_start prot (pc + 1)" "GET_OPCODE (code_of prot ! (pc + 1)) = Some OP_JMP"
      using i(1) by (auto simp: instr_ok_def shape_ok_def Let_def)
    have "width prot (pc + 1) = 1" using j(3) by (simp add: width_def extended_setlist_def Let_def)
    then have two: "0 \<le> int pc + 2 \<and> instr_start prot (nat (int pc + 2)) \<and> int pc + 2 \<le> int (length (code_of prot))"
      using instr_start.nextp [OF j(2,1)] j(1) by (simp add: nat_add_distrib)
    have "target_ok prot (int pc + 2 + GETARG_sBx (code_of prot ! (pc + 1)))"
      using targets True oc by (auto simp: jump_targets_def before_jump_def Let_def)
    then show ?thesis using t True two tgt j(1) oc
      by (auto simp: flow_succ_def before_jump_def Let_def split: if_splits)
  next
    case False
    then show ?thesis using t oc one all targets tgt
      by (auto simp: flow_succ_def jump_targets_def before_jump_def Let_def split: if_splits)
  qed
qed

lemma flow_invariant:
  assumes "proto_ok prot" "flow_reach prot t"
  shows "0 \<le> t \<and> instr_start prot (nat t) \<and> t \<le> int (length (code_of prot))"
  using assms(2)
proof induction
  case entry
  then show ?case by (simp add: first)
next
  case (follow pc t)
  then show ?case using flow_target [OF assms(1), of pc t] by simp
qed

section \<open>Properties\<close>

text \<open>C11. The verifier accepts a prototype tree exactly when the tree is well formed: its depth and its
  totals of prototypes, instructions, constants and debug entries are within the limits, and every
  prototype has sound metadata, only whole instructions and data words, and only instructions whose
  register blocks, constants, upvalues, children and jump targets are in range.\<close>

theorem verify_correct: "verify limits root = Inr () \<longleftrightarrow> well_formed limits root"
  by (rule verify_well_formed)


text \<open>A function that returns at once, and one with a reversed register range.\<close>

definition tiny_proto :: "instruction list \<Rightarrow> proto" where
  "tiny_proto code = Proto (empty_proto\<lparr>pd_code := code, pd_maxStackSize := 2\<rparr>) []"

definition small_limits :: verifier_limits where
  "small_limits = \<lparr>vl_maxProtoDepth = 4, vl_maxProtoCount = 4, vl_maxInstructionCount = 9,
     vl_maxConstantCount = 9, vl_maxDebugEntries = 9\<rparr>"

lemma tiny_verified: "verify small_limits (tiny_proto [CREATE_ABC OP_RETURN 0 1 0]) = Inr ()"
  by code_simp


text \<open>Some rejections set no message: a function whose \<open>LOADNIL\<close> names a reversed register range is
  refused with an empty error.\<close>

theorem rejection_without_message:
  "verify small_limits (tiny_proto [CREATE_ABC OP_LOADNIL 1 0 0, CREATE_ABC OP_RETURN 0 1 0]) = Inl None"
  by code_simp

end
