(* ===== verification/LuaStack.thy ===== *)
theory LuaStack
  imports LuaTable
begin

text \<open>
  \<^verbatim>\<open>vm/state/stack.hpp\<close> and \<^verbatim>\<open>vm/state/stack.cpp\<close>: the value stack of a thread, and the
  outcome type of every operation of the virtual machine.

  A stack is its slot vector (\<open>capacity\<close> is its length), the number of slots in use and the
  resource policy it was built with. An operation ends in \<open>Done\<close>, throws (\<open>Raise\<close>), leaves the
  language's defined behaviour (\<open>Fault\<close>: an unchecked access outside the vector or through a
  dangling reference) or does not end within the fuel given to the model (\<open>Timeout\<close>).
  A checked operation throws before it changes the stack. Allocation failure is not modelled.
\<close>

section \<open>Outcomes\<close>

datatype lua_exn =
    X_Runtime string
  | X_StackOverflow string
  | X_Value lua_value
  | X_Resource string
  | X_Std string
  | X_OutOfRange

datatype 'a outcome = Done 'a | Raise lua_exn | Fault | Timeout

text \<open>The classes below \<open>RuntimeError\<close>.\<close>

definition is_runtime_error :: "lua_exn \<Rightarrow> bool" where
  "is_runtime_error e \<longleftrightarrow> (case e of X_Runtime _ \<Rightarrow> True | X_StackOverflow _ \<Rightarrow> True | X_Value _ \<Rightarrow> True | _ \<Rightarrow> False)"

section \<open>State\<close>

definition MIN_STACK_SIZE :: nat where "MIN_STACK_SIZE = 20"
definition INITIAL_STACK_SIZE :: nat where "INITIAL_STACK_SIZE = 40"
definition EXTRA_STACK :: nat where "EXTRA_STACK = 5"
definition MAX_STACK_SIZE :: nat where "MAX_STACK_SIZE = 1000000"
definition STACK_GROW_MARGIN :: nat where "STACK_GROW_MARGIN = 16"

record lua_stack =
  sk_slots :: "lua_value list"
  sk_top :: nat
  sk_policy :: "resource_policy option"

definition stack_limit :: "resource_policy option \<Rightarrow> nat" where
  "stack_limit rp = (case rp of Some p \<Rightarrow> min (rp_maxStackSlots p) MAX_STACK_SIZE | None \<Rightarrow> MAX_STACK_SIZE)"

definition resize :: "nat \<Rightarrow> lua_value list \<Rightarrow> lua_value list" where
  "resize n xs = take n xs @ replicate (n - length xs) VNil"

definition new_stack :: "nat \<Rightarrow> resource_policy option \<Rightarrow> lua_stack" where
  "new_stack initialSize rp =
     \<lparr>sk_slots = resize (min (max initialSize MIN_STACK_SIZE) (stack_limit rp)) [], sk_top = 0, sk_policy = rp\<rparr>"

definition stack_overflow :: lua_exn where
  "stack_overflow = X_StackOverflow ''stack overflow: resource stack slot limit exceeded''"

abbreviation sk_size :: "lua_stack \<Rightarrow> nat" where "sk_size \<equiv> sk_top"

definition sk_capacity :: "lua_stack \<Rightarrow> nat" where
  "sk_capacity st = length (sk_slots st)"

section \<open>Space\<close>

definition ensureSpace :: "nat \<Rightarrow> lua_stack \<Rightarrow> lua_stack outcome" where
  "ensureSpace needed st =
     (let limit = stack_limit (sk_policy st); size = length (sk_slots st)
      in if limit < sk_top st \<or> limit - sk_top st < needed then Raise stack_overflow
         else if size - sk_top st < needed then
           (let required = sk_top st + needed;
                doubled = (if limit div 2 < size then limit else size * 2);
                padded = (if limit - min limit EXTRA_STACK < required then limit else required + EXTRA_STACK)
            in Done (st\<lparr>sk_slots := resize (max doubled padded) (sk_slots st)\<rparr>))
         else Done st)"

definition checkSpace :: "nat \<Rightarrow> lua_stack \<Rightarrow> lua_stack outcome" where
  "checkSpace needed st =
     (let limit = stack_limit (sk_policy st)
      in if limit < sk_top st \<or> limit - sk_top st < needed then Raise stack_overflow
         else if length (sk_slots st) - sk_top st < needed then ensureSpace needed st
         else Done st)"

definition checkLimit :: "nat \<Rightarrow> lua_stack \<Rightarrow> unit outcome" where
  "checkLimit newTop st = (if stack_limit (sk_policy st) < newTop then Raise stack_overflow else Done ())"

section \<open>Access\<close>

definition pushUnchecked :: "lua_value \<Rightarrow> lua_stack \<Rightarrow> lua_stack outcome" where
  "pushUnchecked v st =
     (if length (sk_slots st) \<le> sk_top st then Fault
      else Done (st\<lparr>sk_slots := (sk_slots st)[sk_top st := v], sk_top := sk_top st + 1\<rparr>))"

definition stack_push :: "lua_value \<Rightarrow> lua_stack \<Rightarrow> lua_stack outcome" where
  "stack_push v st =
     (case checkSpace 1 st of Done st' \<Rightarrow> pushUnchecked v st' | Raise e \<Rightarrow> Raise e | Fault \<Rightarrow> Fault | Timeout \<Rightarrow> Timeout)"

definition stack_pop :: "lua_stack \<Rightarrow> (lua_value \<times> lua_stack) outcome" where
  "stack_pop st =
     (if sk_top st = 0 then Raise (X_Runtime ''Stack underflow: cannot pop from empty stack'')
      else if length (sk_slots st) < sk_top st then Fault
      else Done (sk_slots st ! (sk_top st - 1), st\<lparr>sk_top := sk_top st - 1\<rparr>))"

definition stack_top_value :: "lua_stack \<Rightarrow> lua_value outcome" where
  "stack_top_value st =
     (if sk_top st = 0 then Raise (X_Runtime ''Stack is empty: cannot access top'')
      else if length (sk_slots st) < sk_top st then Fault
      else Done (sk_slots st ! (sk_top st - 1)))"

definition stack_at :: "nat \<Rightarrow> lua_stack \<Rightarrow> lua_value outcome" where
  "stack_at i st =
     (if sk_top st \<le> i then Raise X_OutOfRange
      else if length (sk_slots st) \<le> i then Fault else Done (sk_slots st ! i))"

definition stack_put_at :: "nat \<Rightarrow> lua_value \<Rightarrow> lua_stack \<Rightarrow> lua_stack outcome" where
  "stack_put_at i v st =
     (if sk_top st \<le> i then Raise X_OutOfRange
      else if length (sk_slots st) \<le> i then Fault else Done (st\<lparr>sk_slots := (sk_slots st)[i := v]\<rparr>))"

text \<open>The unchecked \<open>operator[]\<close>, read and written.\<close>

definition stack_index :: "nat \<Rightarrow> lua_stack \<Rightarrow> lua_value outcome" where
  "stack_index i st = (if length (sk_slots st) \<le> i then Fault else Done (sk_slots st ! i))"

definition stack_put_index :: "nat \<Rightarrow> lua_value \<Rightarrow> lua_stack \<Rightarrow> lua_stack outcome" where
  "stack_put_index i v st =
     (if length (sk_slots st) \<le> i then Fault else Done (st\<lparr>sk_slots := (sk_slots st)[i := v]\<rparr>))"

definition stack_clear :: "lua_stack \<Rightarrow> lua_stack" where
  "stack_clear st = st\<lparr>sk_top := 0\<rparr>"

fun nil_between :: "nat \<Rightarrow> nat \<Rightarrow> lua_value list \<Rightarrow> lua_value list" where
  "nil_between i 0 xs = xs"
| "nil_between i (Suc k) xs = nil_between (i + 1) k (xs[i := VNil])"

definition stack_setTop :: "nat \<Rightarrow> lua_stack \<Rightarrow> lua_stack outcome" where
  "stack_setTop newTop st =
     (let limit = stack_limit (sk_policy st)
      in if limit < newTop then Raise stack_overflow
         else let slots = (if length (sk_slots st) < newTop
                 then resize (if limit - min limit EXTRA_STACK < newTop then limit else newTop + EXTRA_STACK) (sk_slots st)
                 else sk_slots st)
           in Done (st\<lparr>sk_slots := (if sk_top st < newTop then nil_between (sk_top st) (newTop - sk_top st) slots else slots),
                       sk_top := newTop\<rparr>))"

section \<open>Invariant\<close>

text \<open>The slots in use are allocated and the allocation respects the policy.\<close>

definition stack_ok :: "lua_stack \<Rightarrow> bool" where
  "stack_ok st \<longleftrightarrow> sk_top st \<le> length (sk_slots st) \<and> length (sk_slots st) \<le> stack_limit (sk_policy st)"

text \<open>The value of a slot, nil outside the allocation.\<close>

definition slot :: "lua_stack \<Rightarrow> nat \<Rightarrow> lua_value" where
  "slot st i = (if i < length (sk_slots st) then sk_slots st ! i else VNil)"

lemma length_resize [simp]: "length (resize n xs) = n"
  by (simp add: resize_def)

lemma nth_resize: "i < n \<Longrightarrow> resize n xs ! i = (if i < length xs then xs ! i else VNil)"
  by (auto simp: resize_def nth_append min_def)

lemma length_nil_between [simp]: "length (nil_between i k xs) = length xs"
  by (induction i k xs rule: nil_between.induct) auto

lemma nth_nil_between:
  "j < length xs \<Longrightarrow> nil_between i k xs ! j = (if i \<le> j \<and> j < i + k then VNil else xs ! j)"
  by (induction i k xs rule: nil_between.induct) (auto simp: nth_list_update)

lemma grown_capacity:
  fixes limit size needed :: nat
  assumes "needed \<le> limit" "size \<le> limit" "0 < needed"
  defines "doubled \<equiv> if limit div 2 < size then limit else size * 2"
    and "padded \<equiv> if limit - min limit EXTRA_STACK < needed then limit else needed + EXTRA_STACK"
  shows "max doubled padded \<le> limit \<and> needed \<le> max doubled padded \<and> size \<le> max doubled padded"
proof -
  have "doubled \<le> limit" using assms(1,2) by (simp add: doubled_def; linarith)
  moreover have "size \<le> doubled" using assms(1,2) by (simp add: doubled_def)
  moreover have "padded \<le> limit" using assms by (cases "limit \<le> EXTRA_STACK") (auto simp: padded_def)
  moreover have "needed \<le> padded" using assms(1) by (simp add: padded_def)
  ultimately show ?thesis by (simp add: le_max_iff_disj)
qed

lemma EXTRA_STACK_pos [simp]: "0 < EXTRA_STACK" by (simp add: EXTRA_STACK_def)

lemma ensureSpace_cases:
  assumes "stack_ok st"
  shows "if stack_limit (sk_policy st) < sk_top st + needed then ensureSpace needed st = Raise stack_overflow
    else \<exists>st'. ensureSpace needed st = Done st' \<and> stack_ok st' \<and> sk_top st' = sk_top st \<and> sk_policy st' = sk_policy st \<and>
      sk_top st + needed \<le> length (sk_slots st') \<and> length (sk_slots st) \<le> length (sk_slots st') \<and>
      (\<forall>i. slot st' i = slot st i)"
proof (cases "stack_limit (sk_policy st) < sk_top st + needed")
  case True
  then show ?thesis using assms by (auto simp: ensureSpace_def stack_ok_def Let_def)
next
  case False
  let ?limit = "stack_limit (sk_policy st)" and ?size = "length (sk_slots st)"
  have room: "\<not> (?limit < sk_top st \<or> ?limit - sk_top st < needed)" using False by linarith
  show ?thesis
  proof (cases "?size - sk_top st < needed")
    case grow: True
    let ?required = "sk_top st + needed"
    define cap where "cap = max (if ?limit div 2 < ?size then ?limit else ?size * 2)
      (if ?limit - min ?limit EXTRA_STACK < ?required then ?limit else ?required + EXTRA_STACK)"
    have "?required \<le> ?limit" "?size \<le> ?limit" "0 < ?required" using False grow assms by (auto simp: stack_ok_def)
    then have "cap \<le> ?limit \<and> ?required \<le> cap \<and> ?size \<le> cap" unfolding cap_def by (rule grown_capacity)
    then have cap: "cap \<le> ?limit" "?required \<le> cap" "?size \<le> cap" by blast+
    have "ensureSpace needed st = Done (st\<lparr>sk_slots := resize cap (sk_slots st)\<rparr>)"
      unfolding ensureSpace_def Let_def if_not_P [OF room] if_P [OF grow] cap_def ..
    moreover have "slot (st\<lparr>sk_slots := resize cap (sk_slots st)\<rparr>) i = slot st i" for i
      using cap(3) by (simp add: slot_def nth_resize)
    ultimately show ?thesis using False cap assms unfolding stack_ok_def
      by (intro if_not_P [THEN iffD2] exI [of _ "st\<lparr>sk_slots := resize cap (sk_slots st)\<rparr>"] conjI) simp_all
  next
    case False
    then have "ensureSpace needed st = Done st"
      using room by (simp add: ensureSpace_def Let_def)
    moreover have "sk_top st + needed \<le> length (sk_slots st)" using False assms unfolding stack_ok_def by linarith
    ultimately show ?thesis using \<open>\<not> stack_limit (sk_policy st) < sk_top st + needed\<close> assms by simp
  qed
qed

lemma checkSpace_eq: "stack_ok st \<Longrightarrow> checkSpace needed st = ensureSpace needed st"
  by (auto simp: checkSpace_def ensureSpace_def Let_def)

lemma stack_push_cases:
  assumes "stack_ok st"
  shows "if sk_top st = stack_limit (sk_policy st) then stack_push v st = Raise stack_overflow
    else \<exists>st'. stack_push v st = Done st' \<and> stack_ok st' \<and> sk_top st' = sk_top st + 1 \<and> sk_policy st' = sk_policy st \<and>
      length (sk_slots st) \<le> length (sk_slots st') \<and> slot st' (sk_top st) = v \<and>
      (\<forall>i. i \<noteq> sk_top st \<longrightarrow> slot st' i = slot st i)"
proof (cases "sk_top st = stack_limit (sk_policy st)")
  case True
  then show ?thesis using ensureSpace_cases [OF assms, of 1] by (simp add: stack_push_def checkSpace_eq [OF assms])
next
  case False
  then have "\<not> stack_limit (sk_policy st) < sk_top st + 1" using assms by (auto simp: stack_ok_def)
  then obtain st1 where st1: "ensureSpace 1 st = Done st1" "stack_ok st1" "sk_top st1 = sk_top st" "sk_policy st1 = sk_policy st"
    "sk_top st + 1 \<le> length (sk_slots st1)" "length (sk_slots st) \<le> length (sk_slots st1)" "\<forall>i. slot st1 i = slot st i"
    using ensureSpace_cases [OF assms, of 1] by auto
  let ?st' = "st1\<lparr>sk_slots := (sk_slots st1)[sk_top st1 := v], sk_top := sk_top st1 + 1\<rparr>"
  have "stack_push v st = Done ?st'"
    using st1(1,3,5) by (simp add: stack_push_def checkSpace_eq [OF assms] pushUnchecked_def)
  moreover have "slot ?st' i = slot st i" if "i \<noteq> sk_top st" for i
    using st1(7) [rule_format, of i] that st1(3) by (auto simp: slot_def split: if_splits)
  ultimately show ?thesis using False st1 by (simp add: stack_ok_def slot_def)
qed

lemma stack_setTop_cases:
  assumes "stack_ok st"
  shows "if stack_limit (sk_policy st) < n then stack_setTop n st = Raise stack_overflow
    else \<exists>st'. stack_setTop n st = Done st' \<and> stack_ok st' \<and> sk_top st' = n \<and> sk_policy st' = sk_policy st \<and>
      length (sk_slots st) \<le> length (sk_slots st') \<and>
      (\<forall>i. slot st' i = (if sk_top st \<le> i \<and> i < n then VNil else slot st i))"
proof (cases "stack_limit (sk_policy st) < n")
  case False
  let ?limit = "stack_limit (sk_policy st)"
  define slots where "slots = (if length (sk_slots st) < n
     then resize (if ?limit - min ?limit EXTRA_STACK < n then ?limit else n + EXTRA_STACK) (sk_slots st) else sk_slots st)"
  have len: "n \<le> length slots" "length slots \<le> ?limit" "length (sk_slots st) \<le> length slots"
    using False assms by (auto simp: slots_def stack_ok_def)
  have keep: "(if i < length slots then slots ! i else VNil) = slot st i" for i
    using len by (auto simp: slots_def slot_def nth_resize)
  define slots' where "slots' = (if sk_top st < n then nil_between (sk_top st) (n - sk_top st) slots else slots)"
  have run: "stack_setTop n st = Done (st\<lparr>sk_slots := slots', sk_top := n\<rparr>)"
    using False by (simp add: stack_setTop_def slots_def slots'_def Let_def)
  have len': "length slots' = length slots" by (simp add: slots'_def)
  have "slot (st\<lparr>sk_slots := slots', sk_top := n\<rparr>) i = (if sk_top st \<le> i \<and> i < n then VNil else slot st i)" for i
    using keep [of i] by (auto simp: slot_def slots'_def nth_nil_between)
  then show ?thesis using run False len len' by (simp add: stack_ok_def)
qed (simp add: stack_setTop_def)

section \<open>Properties\<close>

text \<open>C15. On a stack whose slots in use are allocated within the policy's limit, pushing a value fails
  with the overflow error exactly when the limit is reached; otherwise it allocates within the limit,
  puts the value on top and keeps every other slot, and popping gives the value back. Setting the top
  fails exactly past the limit, fills the new slots with nil and keeps the others. Every operation
  keeps the stack well formed and none leaves its vector.\<close>

theorem stack_operations:
  assumes "stack_ok st"
  shows "(case stack_push v st of
            Done st' \<Rightarrow> sk_top st < stack_limit (sk_policy st) \<and> stack_ok st' \<and> sk_top st' = sk_top st + 1 \<and>
              (\<forall>i. slot st' i = (if i = sk_top st then v else slot st i)) \<and>
              (\<exists>st''. stack_pop st' = Done (v, st'') \<and> stack_ok st'' \<and> sk_top st'' = sk_top st)
          | Raise e \<Rightarrow> sk_top st = stack_limit (sk_policy st) \<and> e = stack_overflow
          | _ \<Rightarrow> False) \<and>
         (case stack_setTop n st of
            Done st' \<Rightarrow> n \<le> stack_limit (sk_policy st) \<and> stack_ok st' \<and> sk_top st' = n \<and>
              (\<forall>i. slot st' i = (if sk_top st \<le> i \<and> i < n then VNil else slot st i))
          | Raise e \<Rightarrow> stack_limit (sk_policy st) < n \<and> e = stack_overflow
          | _ \<Rightarrow> False)"
proof (rule conjI)
  show "case stack_push v st of
            Done st' \<Rightarrow> sk_top st < stack_limit (sk_policy st) \<and> stack_ok st' \<and> sk_top st' = sk_top st + 1 \<and>
              (\<forall>i. slot st' i = (if i = sk_top st then v else slot st i)) \<and>
              (\<exists>st''. stack_pop st' = Done (v, st'') \<and> stack_ok st'' \<and> sk_top st'' = sk_top st)
          | Raise e \<Rightarrow> sk_top st = stack_limit (sk_policy st) \<and> e = stack_overflow
          | _ \<Rightarrow> False"
  proof (cases "sk_top st = stack_limit (sk_policy st)")
    case True
    then show ?thesis using stack_push_cases [OF assms, of v] by simp
  next
    case False
    then obtain st' where st': "stack_push v st = Done st'" "stack_ok st'" "sk_top st' = sk_top st + 1"
      "slot st' (sk_top st) = v" "\<forall>i. i \<noteq> sk_top st \<longrightarrow> slot st' i = slot st i"
      using stack_push_cases [OF assms, of v] by auto
    have "stack_pop st' = Done (v, st'\<lparr>sk_top := sk_top st\<rparr>)" "stack_ok (st'\<lparr>sk_top := sk_top st\<rparr>)"
      using st'(2-4) by (auto simp: stack_pop_def stack_ok_def slot_def)
    then show ?thesis using st' False assms by (auto simp: stack_ok_def)
  qed
  show "case stack_setTop n st of
            Done st' \<Rightarrow> n \<le> stack_limit (sk_policy st) \<and> stack_ok st' \<and> sk_top st' = n \<and>
              (\<forall>i. slot st' i = (if sk_top st \<le> i \<and> i < n then VNil else slot st i))
          | Raise e \<Rightarrow> stack_limit (sk_policy st) < n \<and> e = stack_overflow
          | _ \<Rightarrow> False"
    using stack_setTop_cases [OF assms, of n] by (cases "stack_limit (sk_policy st) < n") auto
qed

theorem stack_operations_witness:
  "\<exists>st'. stack_push (VBoolean True) (new_stack 40 None) = Done st' \<and> slot st' 0 = VBoolean True"
proof -
  have ok: "stack_ok (new_stack 40 None)" and lt: "sk_top (new_stack 40 None) < stack_limit None"
    and p: "sk_policy (new_stack 40 None) = None" "sk_top (new_stack 40 None) = 0"
    by (auto simp: stack_ok_def new_stack_def stack_limit_def MAX_STACK_SIZE_def MIN_STACK_SIZE_def)
  then show ?thesis
    using stack_operations [OF ok, of "VBoolean True" 0, THEN conjunct1]
    by (cases "stack_push (VBoolean True) (new_stack 40 None)") auto
qed

end
