(* ===== verification/LuaState.thy ===== *)
theory LuaState
  imports LuaStack Proto
begin

text \<open>
  \<^verbatim>\<open>vm/state/lua_state.hpp\<close>, \<^verbatim>\<open>vm/state/lua_state.cpp\<close>, \<^verbatim>\<open>vm/state/call_info.hpp\<close> and
  \<^verbatim>\<open>core/upvalue.cpp\<close>: the state of a thread with the heap it works on.

  One record holds the thread and the parts of the global state the virtual machine uses. Each
  kind of heap object lives in a list; its address is its position, and a list only grows: the
  collector is not modelled. The string pool keeps one object for each content. The list of open
  upvalues is the chain of \<open>next_\<close> pointers from \<open>openUpvalues_\<close>, and every open upvalue refers to
  the stack of this state: other threads, debug hooks, tracing and the debugger are not modelled.
  The C library, the native functions and the clock are the fields of \<open>vm_env\<close>.
\<close>

section \<open>State\<close>

record call_info =
  ci_func :: nat
  ci_base :: nat
  ci_top :: nat
  ci_savedpc :: "nat option"
  ci_nresults :: int
  ci_tailcalls :: int
  ci_hookLine :: int
  ci_hookPc :: int

definition new_call_info :: call_info where
  "new_call_info = \<lparr>ci_func = 0, ci_base = 0, ci_top = 0, ci_savedpc = None, ci_nresults = 0,
     ci_tailcalls = 0, ci_hookLine = -1, ci_hookPc = -1\<rparr>"

record upvalue =
  uv_isOpen :: bool
  uv_stackIndex :: nat
  uv_closedValue :: lua_value

datatype function_kind = LuaFunction proto | CFunction nat

record lua_function =
  fn_kind :: function_kind
  fn_upvalues :: "addr list"
  fn_env :: "addr option"

datatype thread_status = TS_OK | TS_Yield | TS_ErrRun | TS_ErrSyntax | TS_ErrMem | TS_ErrErr

record vm =
  vm_stack :: lua_stack
  vm_top :: nat
  vm_callStack :: "call_info list"
  vm_currentCI :: nat
  vm_openUpvalues :: "addr list"
  vm_hostCallDepth :: nat
  vm_savedNexeccalls :: int
  vm_status :: thread_status
  vm_globalTable :: "addr option"
  vm_strings :: "string list"
  vm_tables :: "lua_table list"
  vm_functions :: "lua_function list"
  vm_upvalues :: "upvalue list"
  vm_userdata :: "addr option list"
  vm_metatables :: "value_type \<Rightarrow> addr option"
  vm_policy :: exec_policy
  vm_resources :: resource_policy
  vm_polls :: nat

section \<open>Programs over the state\<close>

type_synonym 'a exec = "vm \<Rightarrow> 'a outcome \<times> vm"

definition ret :: "'a \<Rightarrow> 'a exec" where
  "ret x s = (Done x, s)"

definition bind :: "'a exec \<Rightarrow> ('a \<Rightarrow> 'b exec) \<Rightarrow> 'b exec" where
  "bind m f s = (case m s of
       (Done x, s') \<Rightarrow> f x s' | (Raise e, s') \<Rightarrow> (Raise e, s') | (Fault, s') \<Rightarrow> (Fault, s') | (Timeout, s') \<Rightarrow> (Timeout, s'))"

abbreviation seqx :: "'a exec \<Rightarrow> 'b exec \<Rightarrow> 'b exec" where
  "seqx m k \<equiv> bind m (\<lambda>_. k)"

definition throw :: "lua_exn \<Rightarrow> 'a exec" where
  "throw e s = (Raise e, s)"

definition fault :: "'a exec" where
  "fault s = (Fault, s)"

definition catch :: "'a exec \<Rightarrow> (lua_exn \<Rightarrow> 'a exec) \<Rightarrow> 'a exec" where
  "catch m h s = (case m s of (Raise e, s') \<Rightarrow> h e s' | r \<Rightarrow> r)"

definition gets :: "(vm \<Rightarrow> 'a) \<Rightarrow> 'a exec" where
  "gets f s = (Done (f s), s)"

definition modify :: "(vm \<Rightarrow> vm) \<Rightarrow> unit exec" where
  "modify f s = (Done (), f s)"

definition on :: "bool \<Rightarrow> unit exec \<Rightarrow> unit exec" where
  "on b m = (if b then m else ret ())"

text \<open>A pointer that must not be null.\<close>

definition deref :: "'a option \<Rightarrow> 'a exec" where
  "deref p = (case p of Some x \<Rightarrow> ret x | None \<Rightarrow> fault)"

fun for_each :: "'a list \<Rightarrow> ('a \<Rightarrow> unit exec) \<Rightarrow> unit exec" where
  "for_each [] f = ret ()"
| "for_each (x # xs) f = seqx (f x) (for_each xs f)"

text \<open>A stack operation inside the state.\<close>

definition on_stack :: "(lua_stack \<Rightarrow> lua_stack outcome) \<Rightarrow> unit exec" where
  "on_stack f s = (case f (vm_stack s) of
       Done st \<Rightarrow> (Done (), s\<lparr>vm_stack := st\<rparr>) | Raise e \<Rightarrow> (Raise e, s) | Fault \<Rightarrow> (Fault, s) | Timeout \<Rightarrow> (Timeout, s))"

definition of_stack :: "(lua_stack \<Rightarrow> 'a outcome) \<Rightarrow> 'a exec" where
  "of_stack f s = (f (vm_stack s), s)"

datatype dispatch_backend = BK_Switch | BK_Table

record vm_env =
  e_hash :: hash_env
  e_strtod :: "string \<Rightarrow> f64 \<times> nat \<times> bool"
  e_to_chars :: "f64 \<Rightarrow> string"
  e_pow :: "f64 \<Rightarrow> f64 \<Rightarrow> f64"
  e_strcoll :: "string \<Rightarrow> string \<Rightarrow> int"
  e_describe :: "vm \<Rightarrow> proto \<Rightarrow> int \<Rightarrow> nat \<Rightarrow> string"
  e_clock :: "nat \<Rightarrow> time_point"
  e_native :: "nat \<Rightarrow> vm \<Rightarrow> int outcome \<times> vm"
  e_backend :: dispatch_backend

section \<open>Stack access\<close>

definition read_slot :: "nat \<Rightarrow> lua_value exec" where
  "read_slot i = of_stack (stack_index i)"

definition write_slot :: "nat \<Rightarrow> lua_value \<Rightarrow> unit exec" where
  "write_slot i v = on_stack (stack_put_index i v)"

text \<open>\<open>while (stack.size() < n) stack.push(Value())\<close>\<close>

definition push_nils_to :: "nat \<Rightarrow> unit exec" where
  "push_nils_to n = bind (gets (\<lambda>s. sk_top (vm_stack s)))
     (\<lambda>size. for_each [size..<n] (\<lambda>_. on_stack (stack_push VNil)))"

definition setAbsoluteTop :: "nat \<Rightarrow> unit exec" where
  "setAbsoluteTop n = modify (\<lambda>s. s\<lparr>vm_top := n\<rparr>)"

definition pushValue :: "lua_value \<Rightarrow> unit exec" where
  "pushValue v =
     bind (gets vm_top) (\<lambda>top.
     seqx (of_stack (checkLimit (top + 1)))
    (bind (gets vm_stack) (\<lambda>st.
     seqx (on (sk_capacity st = 0 \<or> sk_capacity st - 1 \<le> top)
            (on_stack (ensureSpace (sk_capacity st - sk_top st + STACK_GROW_MARGIN))))
    (seqx (push_nils_to (top + 1))
    (seqx (write_slot top v)
          (setAbsoluteTop (top + 1)))))))"

section \<open>Call frames\<close>

definition MAX_CALLS :: nat where "MAX_CALLS = 200"
definition MAX_CALL_DEPTH :: nat where "MAX_CALL_DEPTH = 20000"
definition INITIAL_CI_SIZE :: nat where "INITIAL_CI_SIZE = 8"

abbreviation current_ci :: "vm \<Rightarrow> call_info" where
  "current_ci s \<equiv> vm_callStack s ! vm_currentCI s"

definition getCurrentCallInfo :: "call_info exec" where
  "getCurrentCallInfo s = (if vm_currentCI s < length (vm_callStack s) then (Done (current_ci s), s) else (Fault, s))"

definition update_ci :: "(call_info \<Rightarrow> call_info) \<Rightarrow> unit exec" where
  "update_ci f s = (if vm_currentCI s < length (vm_callStack s)
     then (Done (), s\<lparr>vm_callStack := (vm_callStack s)[vm_currentCI s := f (current_ci s)]\<rparr>) else (Fault, s))"

definition resize_frames :: "nat \<Rightarrow> call_info list \<Rightarrow> call_info list" where
  "resize_frames n cs = take n cs @ replicate (n - length cs) new_call_info"

definition pushCallInfo :: "unit exec" where
  "pushCallInfo s =
     (if MAX_CALL_DEPTH \<le> vm_currentCI s + 1
      then (Raise (X_StackOverflow ''stack overflow: maximum call depth exceeded (limit: 20000)''), s)
      else let calls = (if length (vm_callStack s) \<le> vm_currentCI s + 1
                        then resize_frames (min (length (vm_callStack s) * 2) MAX_CALL_DEPTH) (vm_callStack s)
                        else vm_callStack s);
               ci = vm_currentCI s + 1
           in if length calls \<le> ci then (Fault, s\<lparr>vm_callStack := calls, vm_currentCI := ci\<rparr>)
              else (Done (), s\<lparr>vm_callStack := calls[ci := new_call_info], vm_currentCI := ci\<rparr>))"

definition popCallInfo :: "unit exec" where
  "popCallInfo s =
     (if vm_currentCI s = 0 then (Raise (X_Runtime ''LuaState::popCallInfo: cannot pop base CallInfo''), s)
      else (Done (), s\<lparr>vm_currentCI := vm_currentCI s - 1\<rparr>))"

definition enterHostCall :: "unit exec" where
  "enterHostCall s =
     (if MAX_CALLS \<le> vm_hostCallDepth s
      then (Raise (X_StackOverflow ''VM: stack overflow (too many nested C/Lua calls)''), s)
      else (Done (), s\<lparr>vm_hostCallDepth := vm_hostCallDepth s + 1\<rparr>))"

definition leaveHostCall :: "vm \<Rightarrow> vm" where
  "leaveHostCall s = s\<lparr>vm_hostCallDepth := (if 0 < vm_hostCallDepth s then vm_hostCallDepth s - 1 else 0)\<rparr>"

section \<open>Heap objects\<close>

fun position :: "string \<Rightarrow> string list \<Rightarrow> nat option" where
  "position x [] = None"
| "position x (y # ys) = (if x = y then Some 0 else map_option Suc (position x ys))"

definition intern_pool :: "string \<Rightarrow> string list \<Rightarrow> addr \<times> string list" where
  "intern_pool x pool = (case position x pool of Some i \<Rightarrow> (i, pool) | None \<Rightarrow> (length pool, pool @ [x]))"

definition intern :: "string \<Rightarrow> addr exec" where
  "intern x s =
     (if rp_maxStringBytes (vm_resources s) < length x
      then (Raise (X_Resource ''resource limit exceeded: string bytes''), s)
      else case intern_pool x (vm_strings s) of (a, pool) \<Rightarrow> (Done a, s\<lparr>vm_strings := pool\<rparr>))"

definition lookup :: "'a list \<Rightarrow> addr \<Rightarrow> 'a option" where
  "lookup xs a = (if a < length xs then Some (xs ! a) else None)"

definition string_of :: "addr \<Rightarrow> string exec" where
  "string_of a = bind (gets (\<lambda>s. lookup (vm_strings s) a)) deref"

definition table_of :: "addr \<Rightarrow> lua_table exec" where
  "table_of a = bind (gets (\<lambda>s. lookup (vm_tables s) a)) deref"

definition put_table :: "addr \<Rightarrow> lua_table \<Rightarrow> unit exec" where
  "put_table a t = modify (\<lambda>s. s\<lparr>vm_tables := (vm_tables s)[a := t]\<rparr>)"

definition function_of :: "addr \<Rightarrow> lua_function exec" where
  "function_of a = bind (gets (\<lambda>s. lookup (vm_functions s) a)) deref"

definition put_function :: "addr \<Rightarrow> lua_function \<Rightarrow> unit exec" where
  "put_function a f = modify (\<lambda>s. s\<lparr>vm_functions := (vm_functions s)[a := f]\<rparr>)"

definition upvalue_of :: "addr \<Rightarrow> upvalue exec" where
  "upvalue_of a = bind (gets (\<lambda>s. lookup (vm_upvalues s) a)) deref"

definition put_upvalue :: "addr \<Rightarrow> upvalue \<Rightarrow> unit exec" where
  "put_upvalue a u = modify (\<lambda>s. s\<lparr>vm_upvalues := (vm_upvalues s)[a := u]\<rparr>)"

definition create_table :: "addr exec" where
  "create_table s = (Done (length (vm_tables s)), s\<lparr>vm_tables := vm_tables s @ [new_table]\<rparr>)"

definition create_function :: "proto \<Rightarrow> addr exec" where
  "create_function p s = (Done (length (vm_functions s)),
     s\<lparr>vm_functions := vm_functions s @ [\<lparr>fn_kind = LuaFunction p, fn_upvalues = [], fn_env = None\<rparr>]\<rparr>)"

definition getUpvalue :: "lua_function \<Rightarrow> nat \<Rightarrow> addr option" where
  "getUpvalue f i = (if length (fn_upvalues f) \<le> i then None else Some (fn_upvalues f ! i))"

definition addUpvalue :: "addr \<Rightarrow> addr \<Rightarrow> unit exec" where
  "addUpvalue fa ua = bind (function_of fa) (\<lambda>f. put_function fa (f\<lparr>fn_upvalues := fn_upvalues f @ [ua]\<rparr>))"

definition setEnv :: "addr \<Rightarrow> addr option \<Rightarrow> unit exec" where
  "setEnv fa env = bind (function_of fa) (\<lambda>f. put_function fa (f\<lparr>fn_env := env\<rparr>))"

definition setUpvalue :: "addr \<Rightarrow> nat \<Rightarrow> addr \<Rightarrow> unit exec" where
  "setUpvalue fa i ua = bind (function_of fa) (\<lambda>f.
     if length (fn_upvalues f) \<le> i then throw X_OutOfRange
     else put_function fa (f\<lparr>fn_upvalues := (fn_upvalues f)[i := ua]\<rparr>))"

definition getProto :: "lua_function \<Rightarrow> proto option" where
  "getProto f = (case fn_kind f of LuaFunction p \<Rightarrow> Some p | CFunction _ \<Rightarrow> None)"

definition isCFunction :: "lua_function \<Rightarrow> bool" where
  "isCFunction f = (case fn_kind f of CFunction _ \<Rightarrow> True | LuaFunction _ \<Rightarrow> False)"

definition callCFunction :: "vm_env \<Rightarrow> lua_function \<Rightarrow> int exec" where
  "callCFunction E f = (case fn_kind f of
     CFunction n \<Rightarrow> e_native E n | LuaFunction _ \<Rightarrow> throw (X_Std ''Function does not contain a C callback''))"

section \<open>Upvalues\<close>

definition upvalue_getValue :: "addr \<Rightarrow> lua_value exec" where
  "upvalue_getValue a = bind (upvalue_of a) (\<lambda>u.
     if uv_isOpen u then read_slot (uv_stackIndex u) else ret (uv_closedValue u))"

definition upvalue_setValue :: "addr \<Rightarrow> lua_value \<Rightarrow> unit exec" where
  "upvalue_setValue a v = bind (upvalue_of a) (\<lambda>u.
     if uv_isOpen u then write_slot (uv_stackIndex u) v else put_upvalue a (u\<lparr>uv_closedValue := v\<rparr>))"

definition upvalue_close :: "addr \<Rightarrow> unit exec" where
  "upvalue_close a = bind (upvalue_of a) (\<lambda>u.
     if \<not> uv_isOpen u then ret ()
     else bind (read_slot (uv_stackIndex u)) (\<lambda>v.
       put_upvalue a (u\<lparr>uv_closedValue := v, uv_isOpen := False\<rparr>)))"

text \<open>The walk down the open list: the entries before the insertion point and the rest.\<close>

fun open_split :: "upvalue list \<Rightarrow> nat \<Rightarrow> addr list \<Rightarrow> addr list \<times> addr list" where
  "open_split us idx [] = ([], [])"
| "open_split us idx (a # as) =
     (if idx < uv_stackIndex (us ! a) then (case open_split us idx as of (xs, ys) \<Rightarrow> (a # xs, ys)) else ([], a # as))"

definition findOrCreateUpvalue :: "nat \<Rightarrow> addr exec" where
  "findOrCreateUpvalue idx s =
     (case open_split (vm_upvalues s) idx (vm_openUpvalues s) of (before, after) \<Rightarrow>
        if after \<noteq> [] \<and> uv_stackIndex (vm_upvalues s ! hd after) = idx then (Done (hd after), s)
        else let a = length (vm_upvalues s)
             in (Done a, s\<lparr>vm_upvalues := vm_upvalues s @ [\<lparr>uv_isOpen = True, uv_stackIndex = idx, uv_closedValue = VNil\<rparr>],
                           vm_openUpvalues := before @ a # after\<rparr>))"

fun close_loop :: "nat \<Rightarrow> addr list \<Rightarrow> unit exec" where
  "close_loop level [] = modify (\<lambda>s. s\<lparr>vm_openUpvalues := []\<rparr>)"
| "close_loop level (a # as) = bind (upvalue_of a) (\<lambda>u.
     if level \<le> uv_stackIndex u then seqx (upvalue_close a) (close_loop level as)
     else modify (\<lambda>s. s\<lparr>vm_openUpvalues := a # as\<rparr>))"

definition closeUpvalues :: "nat \<Rightarrow> unit exec" where
  "closeUpvalues level = bind (gets vm_openUpvalues) (close_loop level)"

section \<open>Execution policy\<close>

definition policy_error :: "stop_reason \<Rightarrow> lua_exn" where
  "policy_error r = X_Runtime (case r of
       SR_InstructionBudgetExceeded \<Rightarrow> ''execution instruction budget exceeded''
     | SR_NativeWorkBudgetExceeded \<Rightarrow> ''execution native work budget exceeded''
     | SR_DeadlineExceeded \<Rightarrow> ''execution deadline exceeded''
     | SR_Cancelled \<Rightarrow> ''execution cancelled''
     | SR_None \<Rightarrow> ''unhandled C++ exception in protected Lua API'')"

definition enforceExecutionPolicy :: "vm_env \<Rightarrow> unit exec" where
  "enforceExecutionPolicy E s =
     (case xp_consumeInstruction (e_clock E (vm_polls s)) (vm_policy s) of (reason, p) \<Rightarrow>
        (if reason \<noteq> SR_None then Raise (policy_error reason) else Done (),
         s\<lparr>vm_policy := p, vm_polls := vm_polls s + 1\<rparr>))"

definition consumeNativeWork :: "vm_env \<Rightarrow> nat \<Rightarrow> unit exec" where
  "consumeNativeWork E units s =
     (case xp_consumeNativeWork (e_clock E (vm_polls s)) (word_of_nat units) (vm_policy s) of (reason, p) \<Rightarrow>
        let s' = s\<lparr>vm_policy := p, vm_polls := vm_polls s + 1\<rparr>
        in if reason \<noteq> SR_None then (Raise (policy_error reason), s'\<lparr>vm_status := TS_ErrRun\<rparr>) else (Done (), s'))"

section \<open>Rules of the programs\<close>

named_theorems exec_simps

lemma bind_simps [exec_simps]:
  "m s = (Done x, s') \<Longrightarrow> bind m f s = f x s'"
  "m s = (Raise e, s') \<Longrightarrow> bind m f s = (Raise e, s')"
  "m s = (Fault, s') \<Longrightarrow> bind m f s = (Fault, s')"
  "m s = (Timeout, s') \<Longrightarrow> bind m f s = (Timeout, s')"
  by (simp_all add: bind_def)

lemma basic_simps [exec_simps]:
  "ret x s = (Done x, s)" "throw e s = (Raise e, s)" "fault s = (Fault, s)"
  "gets g s = (Done (g s), s)" "modify h s = (Done (), h s)"
  "on True m = m" "on False m = ret ()" "deref (Some x) = ret x" "deref None = fault"
  "catch m k s = (case m s of (Raise e, s') \<Rightarrow> k e s' | r \<Rightarrow> r)"
  by (simp_all add: ret_def throw_def fault_def gets_def modify_def on_def deref_def catch_def)

lemma bind_ret [exec_simps]: "bind (ret x) f = f x" "bind (throw e) g = throw e" "bind fault h = fault"
  "bind (gets k) f' s = f' (k s) s" "bind (modify j) f'' s = f'' () (j s)"
  by (simp_all add: bind_def ret_def throw_def fault_def gets_def modify_def fun_eq_iff)

lemma bind_assoc [exec_simps]: "bind (bind m f) g = bind m (\<lambda>x. bind (f x) g)"
  by (auto simp: fun_eq_iff bind_def split: prod.splits outcome.splits)

lemma bind_eq_Done:
  "bind m f s = (Done y, s') \<longleftrightarrow> (\<exists>x s1. m s = (Done x, s1) \<and> f x s1 = (Done y, s'))"
  by (auto simp: bind_def split: prod.splits outcome.splits)

end
