(* ===== verification/UpvalueProps.thy ===== *)
theory UpvalueProps
  imports LuaState
begin

text \<open>
  The open upvalues of a thread (\<^verbatim>\<open>findOrCreateUpvalue\<close> and \<^verbatim>\<open>closeUpvalues\<close> of
  \<^verbatim>\<open>vm/state/lua_state.cpp\<close>): sharing, and what closing keeps.
\<close>

text \<open>The chain holds exactly the open upvalues, in strictly decreasing order of their slots.\<close>

definition upvalues_ok :: "vm \<Rightarrow> bool" where
  "upvalues_ok s \<longleftrightarrow>
     sorted_wrt (\<lambda>a b. uv_stackIndex (vm_upvalues s ! b) < uv_stackIndex (vm_upvalues s ! a)) (vm_openUpvalues s) \<and>
     set (vm_openUpvalues s) = {a. a < length (vm_upvalues s) \<and> uv_isOpen (vm_upvalues s ! a)} \<and>
     (\<forall>a \<in> set (vm_openUpvalues s). uv_stackIndex (vm_upvalues s ! a) < length (sk_slots (vm_stack s)))"

text \<open>What a closure reads through an upvalue.\<close>

definition upvalue_value :: "vm \<Rightarrow> addr \<Rightarrow> lua_value" where
  "upvalue_value s a = (let u = vm_upvalues s ! a in if uv_isOpen u then slot (vm_stack s) (uv_stackIndex u) else uv_closedValue u)"

lemma upvalue_get:
  assumes "upvalues_ok s" "a < length (vm_upvalues s)"
  shows "upvalue_getValue a s = (Done (upvalue_value s a), s)"
proof (cases "uv_isOpen (vm_upvalues s ! a)")
  case True
  then have "uv_stackIndex (vm_upvalues s ! a) < length (sk_slots (vm_stack s))"
    using assms by (auto simp: upvalues_ok_def)
  then show ?thesis using True assms(2)
    by (simp add: upvalue_getValue_def upvalue_of_def lookup_def upvalue_value_def Let_def slot_def
        read_slot_def of_stack_def stack_index_def exec_simps)
next
  case False
  then show ?thesis using assms(2)
    by (simp add: upvalue_getValue_def upvalue_of_def lookup_def upvalue_value_def Let_def exec_simps)
qed

section \<open>Finding\<close>

lemma sorted_reindex:
  fixes f g :: "addr \<Rightarrow> nat"
  shows "sorted_wrt (\<lambda>a b. f b < f a) xs \<Longrightarrow> (\<And>a. a \<in> set xs \<Longrightarrow> g a = f a) \<Longrightarrow> sorted_wrt (\<lambda>a b. g b < g a) xs"
  by (induction xs) auto

lemma open_split_spec:
  assumes "sorted_wrt (\<lambda>a b. uv_stackIndex (us ! b) < uv_stackIndex (us ! a)) as" "open_split us idx as = (xs, ys)"
  shows "as = xs @ ys \<and> (\<forall>a \<in> set xs. idx < uv_stackIndex (us ! a)) \<and> (\<forall>a \<in> set ys. uv_stackIndex (us ! a) \<le> idx)"
  using assms
proof (induction us idx as arbitrary: xs ys rule: open_split.induct)
  case (2 us idx a as)
  obtain xs' ys' where sp: "open_split us idx as = (xs', ys')" by (cases "open_split us idx as")
  show ?case
  proof (cases "idx < uv_stackIndex (us ! a)")
    case True
    then show ?thesis using 2 sp by auto
  next
    case False
    then have "xs = []" "ys = a # as" using 2(3) by auto
    then show ?thesis using 2(2) False by fastforce
  qed
qed simp

lemma find_or_create_spec:
  assumes ok: "upvalues_ok s" and idx: "idx < length (sk_slots (vm_stack s))"
    and run: "findOrCreateUpvalue idx s = (r, s')"
  shows "\<exists>a. r = Done a \<and> upvalues_ok s' \<and> a \<in> set (vm_openUpvalues s') \<and>
     a < length (vm_upvalues s') \<and> uv_stackIndex (vm_upvalues s' ! a) = idx \<and>
     vm_stack s' = vm_stack s \<and> length (vm_upvalues s) \<le> length (vm_upvalues s') \<and>
     (\<forall>b < length (vm_upvalues s). vm_upvalues s' ! b = vm_upvalues s ! b) \<and>
     (\<forall>b \<in> set (vm_openUpvalues s). uv_stackIndex (vm_upvalues s ! b) = idx \<longrightarrow> a = b \<and> s' = s)"
proof -
  let ?us = "vm_upvalues s"
  obtain xs ys where sp: "open_split ?us idx (vm_openUpvalues s) = (xs, ys)" by (cases "open_split ?us idx (vm_openUpvalues s)")
  have sorted: "sorted_wrt (\<lambda>a b. uv_stackIndex (?us ! b) < uv_stackIndex (?us ! a)) (vm_openUpvalues s)"
    and all: "set (vm_openUpvalues s) = {a. a < length ?us \<and> uv_isOpen (?us ! a)}"
    using ok by (auto simp: upvalues_ok_def)
  note parts = open_split_spec [OF sorted sp]
  have valid: "b < length ?us" if "b \<in> set (xs @ ys)" for b using that all parts by auto
  show ?thesis
  proof (cases "ys \<noteq> [] \<and> uv_stackIndex (?us ! hd ys) = idx")
    case True
    then obtain a zs where ys: "ys = a # zs" "uv_stackIndex (?us ! a) = idx" by (cases ys) auto
    have "uv_stackIndex (?us ! b) < idx" if "b \<in> set zs" for b
      using sorted parts ys that by (auto simp: sorted_wrt_append)
    then have uniq: "b = a" if "b \<in> set (vm_openUpvalues s)" "uv_stackIndex (?us ! b) = idx" for b
      using that parts ys by (metis Un_iff less_irrefl set_ConsD set_append)
    have "r = Done a" "s' = s" using run sp ys by (auto simp: findOrCreateUpvalue_def)
    moreover have "a \<in> set (vm_openUpvalues s)" "a < length ?us"
      using valid [of a] unfolding conjunct1 [OF parts] ys(1) by simp_all
    moreover have "\<forall>b \<in> set (vm_openUpvalues s). uv_stackIndex (?us ! b) = idx \<longrightarrow> a = b \<and> s = s" using uniq by metis
    moreover have "\<forall>b < length ?us. ?us ! b = ?us ! b" by simp
    ultimately show ?thesis using ok ys(2) by (metis order_refl)
  next
    case False
    let ?a = "length ?us" and ?u = "\<lparr>uv_isOpen = True, uv_stackIndex = idx, uv_closedValue = VNil\<rparr>"
    have s': "r = Done ?a" "s' = s\<lparr>vm_upvalues := ?us @ [?u], vm_openUpvalues := xs @ ?a # ys\<rparr>"
      using run sp False by (auto simp: findOrCreateUpvalue_def Let_def)
    have below: "uv_stackIndex (?us ! b) < idx" if "b \<in> set ys" for b
    proof (cases ys)
      case (Cons c zs)
      then have "uv_stackIndex (?us ! c) < idx" using False parts le_neq_implies_less by fastforce
      moreover have "b = c \<or> uv_stackIndex (?us ! b) < uv_stackIndex (?us ! c)"
        using sorted parts Cons that by (auto simp: sorted_wrt_append)
      ultimately show ?thesis by auto
    qed (use that in simp)
    have nth: "(?us @ [?u]) ! b = ?us ! b" if "b \<in> set (xs @ ys)" for b using valid [OF that] by (simp add: nth_append)
    have "sorted_wrt (\<lambda>a b. uv_stackIndex ((?us @ [?u]) ! b) < uv_stackIndex ((?us @ [?u]) ! a)) (xs @ ys)"
    proof (rule sorted_reindex [of "\<lambda>b. uv_stackIndex (?us ! b)"])
      show "sorted_wrt (\<lambda>a b. uv_stackIndex (?us ! b) < uv_stackIndex (?us ! a)) (xs @ ys)"
        using sorted unfolding conjunct1 [OF parts] .
    qed (rule arg_cong [OF nth])
    then have "sorted_wrt (\<lambda>a b. uv_stackIndex ((?us @ [?u]) ! b) < uv_stackIndex ((?us @ [?u]) ! a)) (xs @ ?a # ys)"
      using parts below nth by (auto simp: sorted_wrt_append)
    moreover have "set (xs @ ?a # ys) = {a. a < length (?us @ [?u]) \<and> uv_isOpen ((?us @ [?u]) ! a)}"
      using all parts by (auto simp: nth_append less_Suc_eq)
    moreover have "uv_stackIndex ((?us @ [?u]) ! b) < length (sk_slots (vm_stack s))" if "b \<in> set (xs @ ?a # ys)" for b
      using that ok parts idx valid by (auto simp: upvalues_ok_def nth_append)
    ultimately have "upvalues_ok s'" by (auto simp: s' upvalues_ok_def)
    moreover have "uv_stackIndex (?us ! b) \<noteq> idx" if "b \<in> set (vm_openUpvalues s)" for b
      using that parts below by fastforce
    ultimately show ?thesis using s' by (auto simp: nth_append)
  qed
qed

section \<open>Closing\<close>

lemma upvalue_close_step:
  assumes "a < length (vm_upvalues s)" "uv_isOpen (vm_upvalues s ! a)"
    "uv_stackIndex (vm_upvalues s ! a) < length (sk_slots (vm_stack s))"
  shows "upvalue_close a s = (Done (), s\<lparr>vm_upvalues := (vm_upvalues s)[a := (vm_upvalues s ! a)
     \<lparr>uv_closedValue := slot (vm_stack s) (uv_stackIndex (vm_upvalues s ! a)), uv_isOpen := False\<rparr>]\<rparr>)"
  using assms by (simp add: upvalue_close_def upvalue_of_def lookup_def read_slot_def of_stack_def stack_index_def
      put_upvalue_def slot_def exec_simps)

lemma close_loop_spec:
  assumes "vm_openUpvalues s = pre @ as"
    "sorted_wrt (\<lambda>a b. uv_stackIndex (vm_upvalues s ! b) < uv_stackIndex (vm_upvalues s ! a)) as"
    "set as = {a. a < length (vm_upvalues s) \<and> uv_isOpen (vm_upvalues s ! a)}"
    "\<forall>a \<in> set as. uv_stackIndex (vm_upvalues s ! a) < length (sk_slots (vm_stack s))"
  shows "\<exists>s'. close_loop level as s = (Done (), s') \<and> upvalues_ok s' \<and> vm_stack s' = vm_stack s \<and>
     length (vm_upvalues s') = length (vm_upvalues s) \<and>
     (\<forall>b < length (vm_upvalues s). upvalue_value s' b = upvalue_value s b \<and>
        uv_stackIndex (vm_upvalues s' ! b) = uv_stackIndex (vm_upvalues s ! b) \<and>
        (uv_isOpen (vm_upvalues s' ! b) \<longleftrightarrow> uv_isOpen (vm_upvalues s ! b) \<and> uv_stackIndex (vm_upvalues s ! b) < level))"
  using assms
proof (induction as arbitrary: s pre)
  case Nil
  then show ?case by (auto simp: exec_simps upvalues_ok_def upvalue_value_def Let_def)
next
  case (Cons a as)
  let ?us = "vm_upvalues s"
  have a: "a < length ?us" "uv_isOpen (?us ! a)" "uv_stackIndex (?us ! a) < length (sk_slots (vm_stack s))"
    using Cons.prems(3,4) by auto
  show ?case
  proof (cases "level \<le> uv_stackIndex (?us ! a)")
    case True
    let ?u = "(?us ! a)\<lparr>uv_closedValue := slot (vm_stack s) (uv_stackIndex (?us ! a)), uv_isOpen := False\<rparr>"
    let ?s = "s\<lparr>vm_upvalues := ?us[a := ?u]\<rparr>"
    have notin: "a \<notin> set as" using Cons.prems(2) less_irrefl unfolding sorted_wrt.simps by blast
    have nth: "?us[a := ?u] ! b = ?us ! b" if "b \<noteq> a" for b using that by simp
    have "vm_openUpvalues ?s = (pre @ [a]) @ as" using Cons.prems(1) by simp
    moreover have "sorted_wrt (\<lambda>a b. uv_stackIndex (vm_upvalues ?s ! b) < uv_stackIndex (vm_upvalues ?s ! a)) as"
    proof (rule sorted_reindex [of "\<lambda>b. uv_stackIndex (?us ! b)"])
      show "sorted_wrt (\<lambda>a b. uv_stackIndex (?us ! b) < uv_stackIndex (?us ! a)) as"
        using Cons.prems(2) unfolding sorted_wrt.simps by (rule conjunct2)
      show "uv_stackIndex (vm_upvalues ?s ! b) = uv_stackIndex (?us ! b)" if "b \<in> set as" for b
        using that notin by (cases "a = b") simp_all
    qed
    moreover have "set as = {b. b < length (vm_upvalues ?s) \<and> uv_isOpen (vm_upvalues ?s ! b)}"
    proof -
      have "set as = {b. b < length ?us \<and> uv_isOpen (?us ! b)} - {a}"
        unfolding Cons.prems(3) [symmetric] using notin by simp
      then show ?thesis using a by (auto simp: nth_list_update)
    qed
    moreover have "\<forall>b \<in> set as. uv_stackIndex (vm_upvalues ?s ! b) < length (sk_slots (vm_stack ?s))"
      using Cons.prems(4) notin a by (auto simp: nth_list_update)
    ultimately obtain s' where s': "close_loop level as ?s = (Done (), s')" "upvalues_ok s'" "vm_stack s' = vm_stack s"
      "length (vm_upvalues s') = length ?us"
      "\<forall>b < length ?us. upvalue_value s' b = upvalue_value ?s b \<and>
        uv_stackIndex (vm_upvalues s' ! b) = uv_stackIndex (?us[a := ?u] ! b) \<and>
        (uv_isOpen (vm_upvalues s' ! b) \<longleftrightarrow> uv_isOpen (?us[a := ?u] ! b) \<and> uv_stackIndex (?us[a := ?u] ! b) < level)"
      using Cons.IH [of ?s "pre @ [a]"] by auto
    have same: "upvalue_value ?s b = upvalue_value s b" if "b < length ?us" for b
      using that a by (cases "b = a") (auto simp: upvalue_value_def Let_def)
    have "close_loop level (a # as) s = (Done (), s')"
      using a True s'(1) upvalue_close_step [OF a] by (simp add: upvalue_of_def lookup_def exec_simps)
    moreover have "uv_stackIndex (vm_upvalues s' ! b) = uv_stackIndex (?us ! b) \<and>
        (uv_isOpen (vm_upvalues s' ! b) \<longleftrightarrow> uv_isOpen (?us ! b) \<and> uv_stackIndex (?us ! b) < level)" if "b < length ?us" for b
      using s'(5) [rule_format, OF that] that a True by (cases "b = a") simp_all
    moreover have "upvalue_value s' b = upvalue_value s b" if "b < length ?us" for b
      using s'(5) [rule_format, OF that] same [OF that] by simp
    ultimately show ?thesis using s'(2-4) by (intro exI [of _ s']) simp
  next
    case False
    let ?s' = "s\<lparr>vm_openUpvalues := a # as\<rparr>"
    have lt: "uv_stackIndex (?us ! b) < level" if "b < length ?us" "uv_isOpen (?us ! b)" for b
    proof -
      have "b \<in> set (a # as)" using that Cons.prems(3) by blast
      then show ?thesis using False Cons.prems(2) by fastforce
    qed
    have "close_loop level (a # as) s = (Done (), ?s')"
      using a False by (simp add: upvalue_of_def lookup_def exec_simps)
    moreover have "upvalues_ok ?s'" using Cons.prems(2-4) by (simp add: upvalues_ok_def)
    ultimately show ?thesis using lt by (auto simp: upvalue_value_def Let_def)
  qed
qed

section \<open>Properties\<close>

text \<open>C13. Capturing a stack slot always returns, keeps the chain of open upvalues sorted and complete,
  answers an open upvalue for that slot, the existing one when there is one (so two closures that
  capture the same variable share it), and changes no other upvalue and no slot.\<close>

theorem find_or_create_shares:
  assumes "upvalues_ok s" "idx < length (sk_slots (vm_stack s))"
  shows "\<exists>a s'. findOrCreateUpvalue idx s = (Done a, s') \<and> upvalues_ok s' \<and> vm_stack s' = vm_stack s \<and>
     upvalue_getValue a s' = (Done (slot (vm_stack s) idx), s') \<and>
     (\<forall>b < length (vm_upvalues s). vm_upvalues s' ! b = vm_upvalues s ! b) \<and>
     findOrCreateUpvalue idx s' = (Done a, s')"
proof -
  obtain r s' where run: "findOrCreateUpvalue idx s = (r, s')" by (cases "findOrCreateUpvalue idx s")
  then obtain a where a: "r = Done a" "upvalues_ok s'" "a \<in> set (vm_openUpvalues s')" "a < length (vm_upvalues s')"
    "uv_stackIndex (vm_upvalues s' ! a) = idx" "vm_stack s' = vm_stack s"
    "\<forall>b < length (vm_upvalues s). vm_upvalues s' ! b = vm_upvalues s ! b"
    using find_or_create_spec [OF assms run] by blast
  have "uv_isOpen (vm_upvalues s' ! a)" using a(2,3) by (auto simp: upvalues_ok_def)
  then have "upvalue_getValue a s' = (Done (slot (vm_stack s) idx), s')"
    using upvalue_get [OF a(2,4)] a(5,6) by (simp add: upvalue_value_def Let_def)
  moreover obtain r2 s2 where run2: "findOrCreateUpvalue idx s' = (r2, s2)" by (cases "findOrCreateUpvalue idx s'")
  moreover have "r2 = Done a \<and> s2 = s'"
    using find_or_create_spec [OF a(2) _ run2] assms(2) a(3,5,6) by auto
  ultimately show ?thesis using run a by auto
qed

text \<open>C14. Closing the upvalues from a level on always returns, closes exactly the open upvalues at or
  above that level, and every upvalue, closed or not, reads the same value as before; the stack is
  unchanged.\<close>

theorem close_upvalues_correct:
  assumes "upvalues_ok s"
  shows "\<exists>s'. closeUpvalues level s = (Done (), s') \<and> upvalues_ok s' \<and> vm_stack s' = vm_stack s \<and>
     (\<forall>a < length (vm_upvalues s). upvalue_getValue a s' = (fst (upvalue_getValue a s), s') \<and>
        (uv_isOpen (vm_upvalues s' ! a) \<longleftrightarrow> uv_isOpen (vm_upvalues s ! a) \<and> uv_stackIndex (vm_upvalues s ! a) < level))"
proof -
  obtain s' where s': "close_loop level (vm_openUpvalues s) s = (Done (), s')" "upvalues_ok s'" "vm_stack s' = vm_stack s"
    "length (vm_upvalues s') = length (vm_upvalues s)"
    "\<forall>b < length (vm_upvalues s). upvalue_value s' b = upvalue_value s b \<and>
        uv_stackIndex (vm_upvalues s' ! b) = uv_stackIndex (vm_upvalues s ! b) \<and>
        (uv_isOpen (vm_upvalues s' ! b) \<longleftrightarrow> uv_isOpen (vm_upvalues s ! b) \<and> uv_stackIndex (vm_upvalues s ! b) < level)"
    using close_loop_spec [of s "[]" "vm_openUpvalues s" level] assms by (auto simp: upvalues_ok_def)
  have "upvalue_getValue a s' = (fst (upvalue_getValue a s), s')" if "a < length (vm_upvalues s)" for a
    using upvalue_get [OF assms that] upvalue_get [OF s'(2), of a] s'(4,5) that by simp
  then show ?thesis using s' by (auto simp: closeUpvalues_def exec_simps)
qed


text \<open>A thread with two slots and one open upvalue for the second.\<close>

definition small_vm :: vm where
  "small_vm = \<lparr>vm_stack = \<lparr>sk_slots = [VBoolean True, VBoolean False], sk_top = 2, sk_policy = None\<rparr>, vm_top = 2,
     vm_callStack = [new_call_info, new_call_info], vm_currentCI = 0, vm_openUpvalues = [0], vm_hostCallDepth = 0,
     vm_savedNexeccalls = 0, vm_status = TS_OK, vm_globalTable = None, vm_strings = [], vm_tables = [],
     vm_functions = [], vm_upvalues = [\<lparr>uv_isOpen = True, uv_stackIndex = 1, uv_closedValue = VNil\<rparr>],
     vm_userdata = [], vm_metatables = (\<lambda>_. None), vm_policy = new_exec_policy,
     vm_resources = default_resource_policy, vm_polls = 0\<rparr>"

lemma small_vm_ok: "upvalues_ok small_vm"
  by (auto simp: upvalues_ok_def small_vm_def)

theorem find_or_create_shares_witness:
  "upvalues_ok small_vm \<and> (\<exists>a s'. findOrCreateUpvalue 0 small_vm = (Done a, s') \<and>
     upvalue_getValue a s' = (Done (VBoolean True), s'))"
proof -
  have "slot (vm_stack small_vm) 0 = VBoolean True" "0 < length (sk_slots (vm_stack small_vm))"
    by (simp_all add: small_vm_def slot_def)
  then show ?thesis using find_or_create_shares [OF small_vm_ok, of 0] small_vm_ok by auto
qed

theorem close_upvalues_correct_witness:
  "\<exists>s'. closeUpvalues 1 small_vm = (Done (), s') \<and> \<not> uv_isOpen (vm_upvalues s' ! 0)"
  using close_upvalues_correct [OF small_vm_ok, of 1] by (auto simp: small_vm_def)

end
