(* ===== verification/Metatable.thy ===== *)
theory Metatable
  imports LuaState
begin

text \<open>
  \<^verbatim>\<open>core/metatable.hpp\<close> and \<^verbatim>\<open>core/metatable.cpp\<close>: metamethod lookup with its cache of absent names,
  and metamethod calls. The virtual machine's \<open>VM::call(nargs, nresults)\<close> is the argument \<open>call\<close>
  of every operation that calls a metamethod; the machine passes its own.
\<close>

section \<open>Events\<close>

datatype tms =
  TM_INDEX | TM_NEWINDEX | TM_GC | TM_MODE | TM_EQ | TM_ADD | TM_SUB | TM_MUL | TM_DIV | TM_MOD |
  TM_POW | TM_UNM | TM_LEN | TM_LT | TM_LE | TM_CONCAT | TM_CALL

fun tms_index :: "tms \<Rightarrow> nat" where
  "tms_index TM_INDEX = 0" | "tms_index TM_NEWINDEX = 1" | "tms_index TM_GC = 2" | "tms_index TM_MODE = 3"
| "tms_index TM_EQ = 4" | "tms_index TM_ADD = 5" | "tms_index TM_SUB = 6" | "tms_index TM_MUL = 7"
| "tms_index TM_DIV = 8" | "tms_index TM_MOD = 9" | "tms_index TM_POW = 10" | "tms_index TM_UNM = 11"
| "tms_index TM_LEN = 12" | "tms_index TM_LT = 13" | "tms_index TM_LE = 14" | "tms_index TM_CONCAT = 15"
| "tms_index TM_CALL = 16"

lemma tms_index_inject: "tms_index a = tms_index b \<longleftrightarrow> a = b"
  by (cases a; cases b) simp_all

text \<open>The enumeration order.\<close>

instantiation tms :: linorder
begin
definition "a \<le> b \<longleftrightarrow> tms_index a \<le> tms_index b" for a b :: tms
definition "a < b \<longleftrightarrow> tms_index a < tms_index b" for a b :: tms
instance
  by standard (auto simp: less_eq_tms_def less_tms_def tms_index_inject)
end

fun getMetamethodName :: "tms \<Rightarrow> string" where
  "getMetamethodName TM_INDEX = ''__index''" | "getMetamethodName TM_NEWINDEX = ''__newindex''"
| "getMetamethodName TM_GC = ''__gc''" | "getMetamethodName TM_MODE = ''__mode''"
| "getMetamethodName TM_EQ = ''__eq''" | "getMetamethodName TM_ADD = ''__add''"
| "getMetamethodName TM_SUB = ''__sub''" | "getMetamethodName TM_MUL = ''__mul''"
| "getMetamethodName TM_DIV = ''__div''" | "getMetamethodName TM_MOD = ''__mod''"
| "getMetamethodName TM_POW = ''__pow''" | "getMetamethodName TM_UNM = ''__unm''"
| "getMetamethodName TM_LEN = ''__len''" | "getMetamethodName TM_LT = ''__lt''"
| "getMetamethodName TM_LE = ''__le''" | "getMetamethodName TM_CONCAT = ''__concat''"
| "getMetamethodName TM_CALL = ''__call''"

definition event_bit :: "tms \<Rightarrow> u8" where
  "event_bit event = push_bit (tms_index event) 1"

section \<open>Lookup\<close>

definition getMetamethod :: "vm_env \<Rightarrow> addr option \<Rightarrow> tms \<Rightarrow> lua_value exec" where
  "getMetamethod E metatable event =
     (case metatable of
        None \<Rightarrow> ret VNil
      | Some m \<Rightarrow>
          bind (table_of m) (\<lambda>t.
            if event \<le> TM_EQ \<and> tb_flags t AND event_bit event \<noteq> 0 then ret VNil
            else bind (intern (getMetamethodName event)) (\<lambda>k.
              let result = table_get (e_hash E) t (VString k)
              in seqx (on (isNil result \<and> event \<le> TM_EQ)
                         (put_table m (t\<lparr>tb_flags := tb_flags t OR event_bit event\<rparr>)))
                      (ret result))))"

definition metatable_of :: "lua_value \<Rightarrow> addr option exec" where
  "metatable_of obj =
     (case obj of
        VTable a \<Rightarrow> bind (table_of a) (\<lambda>t. ret (tb_metatable t))
      | VUserdata a \<Rightarrow> bind (gets (\<lambda>s. lookup (vm_userdata s) a)) deref
      | _ \<Rightarrow> gets (\<lambda>s. vm_metatables s (getType obj)))"

definition getMetamethodByObject :: "vm_env \<Rightarrow> lua_value \<Rightarrow> tms \<Rightarrow> lua_value exec" where
  "getMetamethodByObject E obj event = bind (metatable_of obj) (\<lambda>mt. getMetamethod E mt event)"

definition fastMetamethod :: "vm_env \<Rightarrow> addr option \<Rightarrow> tms \<Rightarrow> lua_value exec" where
  "fastMetamethod E metatable event =
     (if \<not> event \<le> TM_EQ then throw (X_Std ''fastMetamethod: event must be <= TM_EQ'')
      else getMetamethod E metatable event)"

section \<open>Calls\<close>

definition restoreStack :: "nat \<Rightarrow> nat \<Rightarrow> unit exec" where
  "restoreStack savedTop savedStackSize =
     bind (gets (\<lambda>s. sk_top (vm_stack s))) (\<lambda>size.
     seqx (for_each [savedTop..<min savedStackSize size] (\<lambda>i. on_stack (stack_put_at i VNil)))
    (seqx (on_stack (stack_setTop savedStackSize))
          (setAbsoluteTop savedTop)))"

text \<open>Run a body, restore the stack on every way out.\<close>

definition with_restored_stack :: "(nat \<Rightarrow> 'a exec) \<Rightarrow> 'a exec" where
  "with_restored_stack body =
     bind (gets vm_top) (\<lambda>savedTop.
     bind (gets (\<lambda>s. sk_top (vm_stack s))) (\<lambda>savedSize.
     catch (bind (body savedTop) (\<lambda>r. seqx (restoreStack savedTop savedSize) (ret r)))
           (\<lambda>e. seqx (restoreStack savedTop savedSize) (throw e))))"

definition not_a_function :: lua_exn where
  "not_a_function = X_Std ''Metamethod is not a function''"

type_synonym call = "nat \<Rightarrow> int \<Rightarrow> unit exec"

definition callTMWithResult :: "call \<Rightarrow> lua_value \<Rightarrow> lua_value \<Rightarrow> lua_value \<Rightarrow> lua_value exec" where
  "callTMWithResult call metamethod arg1 arg2 =
     (if \<not> isFunction metamethod then throw not_a_function
      else with_restored_stack (\<lambda>savedTop.
        seqx (pushValue metamethod)
       (seqx (pushValue arg1)
       (seqx (pushValue arg2)
       (seqx (call 2 1)
       (bind (gets vm_top) (\<lambda>top.
          if savedTop < top then of_stack (stack_at savedTop) else ret VNil)))))))"

definition callTM :: "call \<Rightarrow> lua_value \<Rightarrow> lua_value \<Rightarrow> lua_value \<Rightarrow> lua_value \<Rightarrow> unit exec" where
  "callTM call metamethod arg1 arg2 arg3 =
     (if \<not> isFunction metamethod then throw not_a_function
      else with_restored_stack (\<lambda>savedTop.
        seqx (pushValue metamethod)
       (seqx (pushValue arg1)
       (seqx (pushValue arg2)
       (seqx (pushValue arg3)
             (call 3 0))))))"

text \<open>\<open>None\<close>: no metamethod (the C++ function answers \<open>false\<close>).\<close>

definition callBinaryTM :: "vm_env \<Rightarrow> call \<Rightarrow> lua_value \<Rightarrow> lua_value \<Rightarrow> tms \<Rightarrow> lua_value option exec" where
  "callBinaryTM E call p1 p2 event =
     bind (getMetamethodByObject E p1 event) (\<lambda>tm1.
     bind (if isNil tm1 then getMetamethodByObject E p2 event else ret tm1) (\<lambda>tm.
       if isNil tm then ret None
       else bind (callTMWithResult call tm p1 p2) (\<lambda>r. ret (Some r))))"

definition getComparisonTM :: "vm_env \<Rightarrow> addr option \<Rightarrow> addr option \<Rightarrow> tms \<Rightarrow> lua_value exec" where
  "getComparisonTM E mt1 mt2 event =
     bind (fastMetamethod E mt1 event) (\<lambda>tm1.
       if isNil tm1 then ret VNil
       else if mt1 = mt2 then ret tm1
       else bind (fastMetamethod E mt2 event) (\<lambda>tm2.
         if isNil tm2 then ret VNil
         else if value_eq tm1 tm2 then ret tm1
         else ret VNil))"

definition callOrderTM :: "vm_env \<Rightarrow> call \<Rightarrow> lua_value \<Rightarrow> lua_value \<Rightarrow> tms \<Rightarrow> int exec" where
  "callOrderTM E call p1 p2 event =
     bind (getMetamethodByObject E p1 event) (\<lambda>tm1.
       if isNil tm1 then ret (-1)
       else bind (getMetamethodByObject E p2 event) (\<lambda>tm2.
         if \<not> value_eq tm1 tm2 then ret (-1)
         else bind (callTMWithResult call tm1 p1 p2) (\<lambda>result.
           ret (if isNil result \<or> (isBoolean result \<and> asBoolean result \<noteq> Some True) then 0 else 1))))"

section \<open>Table operations on the heap\<close>

definition table_exn :: "table_error \<Rightarrow> lua_exn" where
  "table_exn e = (case e of
       TE_IndexNil \<Rightarrow> X_Runtime ''table index is nil''
     | TE_IndexNaN \<Rightarrow> X_Runtime ''table index is NaN''
     | TE_ArrayLimit \<Rightarrow> X_Resource ''table array slot limit exceeded''
     | TE_HashLimit \<Rightarrow> X_Resource ''table hash entry limit exceeded''
     | TE_BadLength \<Rightarrow> X_Std ''bad_array_new_length''
     | TE_InvalidNextKey \<Rightarrow> X_Runtime (''invalid key to '' @ [CHR 0x27] @ ''next'' @ [CHR 0x27]))"

definition heap_get :: "vm_env \<Rightarrow> addr \<Rightarrow> lua_value \<Rightarrow> lua_value exec" where
  "heap_get E a key = bind (table_of a) (\<lambda>t. ret (table_get (e_hash E) t key))"

definition heap_set :: "vm_env \<Rightarrow> addr \<Rightarrow> lua_value \<Rightarrow> lua_value \<Rightarrow> unit exec" where
  "heap_set E a key val =
     bind (table_of a) (\<lambda>t.
     bind (gets vm_resources) (\<lambda>rp.
       case table_set (e_hash E) rp t key val of
         None \<Rightarrow> (\<lambda>s. (Timeout, s))
       | Some (Inl e) \<Rightarrow> throw (table_exn e)
       | Some (Inr t') \<Rightarrow> put_table a t'))"

end
