(* ===== verification/VMOps.thy ===== *)
theory VMOps
  imports Metatable
begin

text \<open>
  \<^verbatim>\<open>vm/vm_ops.cpp\<close> and \<^verbatim>\<open>common/number_conversion.hpp\<close>: indexing, arithmetic, comparison, length and
  concatenation with their metamethods.

  \<open>strtod\<close>, \<open>to_chars\<close>, \<open>pow\<close> and \<open>strcoll\<close> are the fields of the environment. A C string ends
  at its first NUL; \<open>strtod\<close> answers the value, the number of characters read (0 when there is no
  number) and whether it set \<open>ERANGE\<close>.
\<close>

definition MAXTAGLOOP :: nat where "MAXTAGLOOP = 100"
definition LUA_MAX_STRING_LENGTH :: nat where "LUA_MAX_STRING_LENGTH = 67108864"

section \<open>Numbers and strings\<close>

definition luaStringToNumber :: "vm_env \<Rightarrow> string \<Rightarrow> f64 option" where
  "luaStringToNumber E text =
     (let start = c_str text
      in case e_strtod E start of (val, used, erange) \<Rightarrow>
           if used = 0 then None
           else if dropWhile isspace (drop used start) \<noteq> [] \<or> erange then None
           else Some val)"

definition tryToNumber :: "vm_env \<Rightarrow> lua_value \<Rightarrow> f64 option exec" where
  "tryToNumber E v =
     (case v of
        VNumber x \<Rightarrow> ret (Some x)
      | VString a \<Rightarrow> bind (string_of a) (\<lambda>str.
          seqx (consumeNativeWork E (length str)) (ret (luaStringToNumber E str)))
      | _ \<Rightarrow> ret None)"

definition concatOperandText :: "vm_env \<Rightarrow> lua_value \<Rightarrow> string option exec" where
  "concatOperandText E v =
     (case v of
        VString a \<Rightarrow> bind (string_of a) (\<lambda>str. ret (Some str))
      | VNumber x \<Rightarrow> ret (Some (e_to_chars E x))
      | _ \<Rightarrow> ret None)"

definition luaModulo :: "f64 \<Rightarrow> f64 \<Rightarrow> f64" where
  "luaModulo left right = f64_sub left (f64_mul (f64_floor (f64_div left right)) right)"

definition checkStringConcatLength :: "nat \<Rightarrow> nat \<Rightarrow> unit exec" where
  "checkStringConcatLength left right =
     (if LUA_MAX_STRING_LENGTH < left \<or> LUA_MAX_STRING_LENGTH < right \<or> LUA_MAX_STRING_LENGTH - right < left
      then throw (X_Runtime ''string length overflow'') else ret ())"

text \<open>\<open>strcoll\<close> sees the strings up to their first NUL; equal pieces are skipped on both sides.
  \<open>None\<close>: the right pointer would pass the end of its string.\<close>

function luaStringCompare :: "(string \<Rightarrow> string \<Rightarrow> int) \<Rightarrow> string \<Rightarrow> string \<Rightarrow> int option" where
  "luaStringCompare coll l r =
     (let cmp = coll (c_str l) (c_str r)
      in if cmp \<noteq> 0 then Some cmp
         else let len = length (c_str l)
           in if len = length r then Some (if len = length l then 0 else 1)
              else if len = length l then Some (-1)
              else if length r < len then None
              else luaStringCompare coll (drop (len + 1) l) (drop (len + 1) r))"
  by pat_completeness auto
termination
proof (relation "measure (\<lambda>(coll, l, r). length l)", goal_cases)
  case (2 coll l r cmp len)
  then have "len < length l" using length_takeWhile_le [of _ l] by (auto simp: c_str_def le_less)
  then show ?case by simp
qed simp

declare luaStringCompare.simps [simp del]

section \<open>Indexing\<close>

fun gettable_loop :: "vm_env \<Rightarrow> call \<Rightarrow> nat \<Rightarrow> lua_value \<Rightarrow> lua_value \<Rightarrow> lua_value exec" where
  "gettable_loop E call 0 t key = throw (X_Runtime ''VM: loop in gettable'')"
| "gettable_loop E call (Suc loop) t key =
     (case t of
        VTable a \<Rightarrow>
          bind (heap_get E a key) (\<lambda>res.
            if \<not> isNil res then ret res
            else bind (getMetamethodByObject E t TM_INDEX) (\<lambda>tm.
              if isNil tm then ret VNil
              else if isFunction tm then callTMWithResult call tm t key
              else gettable_loop E call loop tm key))
      | _ \<Rightarrow>
          bind (getMetamethodByObject E t TM_INDEX) (\<lambda>tm.
            if isNil tm then throw (X_Runtime ''VM: attempt to index a non-table value'')
            else if isFunction tm then callTMWithResult call tm t key
            else gettable_loop E call loop tm key))"

definition gettable :: "vm_env \<Rightarrow> call \<Rightarrow> lua_value \<Rightarrow> lua_value \<Rightarrow> lua_value exec" where
  "gettable E call t key = gettable_loop E call MAXTAGLOOP t key"

fun settable_loop :: "vm_env \<Rightarrow> call \<Rightarrow> nat \<Rightarrow> lua_value \<Rightarrow> lua_value \<Rightarrow> lua_value \<Rightarrow> unit exec" where
  "settable_loop E call 0 t key val = throw (X_Runtime ''VM: loop in settable'')"
| "settable_loop E call (Suc loop) t key val =
     (case t of
        VTable a \<Rightarrow>
          bind (heap_get E a key) (\<lambda>oldval.
            if \<not> isNil oldval then heap_set E a key val
            else bind (getMetamethodByObject E t TM_NEWINDEX) (\<lambda>tm.
              if isNil tm then heap_set E a key val
              else if isFunction tm then callTM call tm t key val
              else settable_loop E call loop tm key val))
      | _ \<Rightarrow>
          bind (getMetamethodByObject E t TM_NEWINDEX) (\<lambda>tm.
            if isNil tm then throw (X_Runtime ''VM: attempt to index a non-table value'')
            else if isFunction tm then callTM call tm t key val
            else settable_loop E call loop tm key val))"

definition settable :: "vm_env \<Rightarrow> call \<Rightarrow> lua_value \<Rightarrow> lua_value \<Rightarrow> lua_value \<Rightarrow> unit exec" where
  "settable E call t key val = settable_loop E call MAXTAGLOOP t key val"

section \<open>Arithmetic\<close>

definition arith_op :: "vm_env \<Rightarrow> opcode \<Rightarrow> f64 \<Rightarrow> f64 \<Rightarrow> f64 option" where
  "arith_op E oc l r = (case oc of
       OP_ADD \<Rightarrow> Some (f64_add l r) | OP_SUB \<Rightarrow> Some (f64_sub l r) | OP_MUL \<Rightarrow> Some (f64_mul l r)
     | OP_DIV \<Rightarrow> Some (f64_div l r) | OP_MOD \<Rightarrow> Some (luaModulo l r) | OP_POW \<Rightarrow> Some (e_pow E l r)
     | _ \<Rightarrow> None)"

definition arith_event :: "opcode \<Rightarrow> tms option" where
  "arith_event oc = (case oc of
       OP_ADD \<Rightarrow> Some TM_ADD | OP_SUB \<Rightarrow> Some TM_SUB | OP_MUL \<Rightarrow> Some TM_MUL | OP_DIV \<Rightarrow> Some TM_DIV
     | OP_MOD \<Rightarrow> Some TM_MOD | OP_POW \<Rightarrow> Some TM_POW | _ \<Rightarrow> None)"

definition arith_error :: string where
  "arith_error = ''VM: attempt to perform arithmetic on non-number values''"

definition arith :: "vm_env \<Rightarrow> call \<Rightarrow> lua_value \<Rightarrow> lua_value \<Rightarrow> opcode \<Rightarrow> lua_value exec" where
  "arith E call left right oc =
     bind (tryToNumber E left) (\<lambda>lval.
     bind (case lval of None \<Rightarrow> ret None | Some _ \<Rightarrow> tryToNumber E right) (\<lambda>rval.
       case (lval, rval) of
         (Some l, Some r) \<Rightarrow>
           (case arith_op E oc l r of None \<Rightarrow> throw (X_Runtime ''VM::arith: invalid opcode'') | Some x \<Rightarrow> ret (VNumber x))
       | _ \<Rightarrow>
           (case arith_event oc of
              None \<Rightarrow> throw (X_Runtime ''VM::arith: invalid opcode for metamethod'')
            | Some event \<Rightarrow> bind (callBinaryTM E call left right event) (\<lambda>res.
                case res of Some v \<Rightarrow> ret v | None \<Rightarrow> throw (X_Runtime arith_error)))))"

definition unaryMinus :: "vm_env \<Rightarrow> call \<Rightarrow> lua_value \<Rightarrow> lua_value exec" where
  "unaryMinus E call val =
     bind (tryToNumber E val) (\<lambda>num.
       case num of
         Some x \<Rightarrow> ret (VNumber (f64_neg x))
       | None \<Rightarrow> bind (callBinaryTM E call val VNil TM_UNM) (\<lambda>res.
           case res of Some v \<Rightarrow> ret v
           | None \<Rightarrow> throw (X_Runtime ''VM: attempt to perform arithmetic on a non-number value'')))"

section \<open>Comparison\<close>

text \<open>A metamethod's answer as a truth value.\<close>

definition is_truthy :: "lua_value \<Rightarrow> bool" where
  "is_truthy r \<longleftrightarrow> \<not> (isNil r \<or> (isBoolean r \<and> asBoolean r \<noteq> Some True))"

definition equal_objects :: "vm_env \<Rightarrow> call \<Rightarrow> lua_value \<Rightarrow> lua_value \<Rightarrow> bool exec" where
  "equal_objects E call left right =
     bind (metatable_of left) (\<lambda>mt1.
     bind (metatable_of right) (\<lambda>mt2.
     bind (getComparisonTM E mt1 mt2 TM_EQ) (\<lambda>tm.
       if \<not> isNil tm then bind (callTMWithResult call tm left right) (\<lambda>r. ret (is_truthy r))
       else ret False)))"

definition equal_values :: "vm_env \<Rightarrow> call \<Rightarrow> lua_value \<Rightarrow> lua_value \<Rightarrow> bool exec" where
  "equal_values E call left right =
     (if getType left \<noteq> getType right then ret False
      else case (left, right) of
        (VNil, _) \<Rightarrow> ret True
      | (VNumber x, VNumber y) \<Rightarrow> ret (f64_eq x y)
      | (VBoolean x, VBoolean y) \<Rightarrow> ret (x = y)
      | (VString a, VString b) \<Rightarrow> bind (string_of a) (\<lambda>x. bind (string_of b) (\<lambda>y. ret (x = y)))
      | (VTable a, VTable b) \<Rightarrow> if a = b then ret True else equal_objects E call left right
      | (VUserdata a, VUserdata b) \<Rightarrow> if a = b then ret True else equal_objects E call left right
      | _ \<Rightarrow> ret (value_eq left right))"

definition compare_strings :: "vm_env \<Rightarrow> addr \<Rightarrow> addr \<Rightarrow> int exec" where
  "compare_strings E a b =
     bind (string_of a) (\<lambda>x. bind (string_of b) (\<lambda>y. deref (luaStringCompare (e_strcoll E) x y)))"

definition lessThan :: "vm_env \<Rightarrow> call \<Rightarrow> lua_value \<Rightarrow> lua_value \<Rightarrow> bool exec" where
  "lessThan E call left right =
     (if getType left \<noteq> getType right then throw (X_Runtime ''VM: attempt to compare two different types'')
      else case (left, right) of
        (VNumber x, VNumber y) \<Rightarrow> ret (f64_lt x y)
      | (VString a, VString b) \<Rightarrow> bind (compare_strings E a b) (\<lambda>c. ret (c < 0))
      | _ \<Rightarrow> bind (callOrderTM E call left right TM_LT) (\<lambda>r.
          if r = -1 then throw (X_Runtime ''VM: attempt to compare without __lt metamethod'') else ret (r \<noteq> 0)))"

definition lessEqual :: "vm_env \<Rightarrow> call \<Rightarrow> lua_value \<Rightarrow> lua_value \<Rightarrow> bool exec" where
  "lessEqual E call left right =
     (if getType left \<noteq> getType right then throw (X_Runtime ''VM: attempt to compare two different types'')
      else case (left, right) of
        (VNumber x, VNumber y) \<Rightarrow> ret (f64_le x y)
      | (VString a, VString b) \<Rightarrow> bind (compare_strings E a b) (\<lambda>c. ret (c \<le> 0))
      | _ \<Rightarrow> bind (callOrderTM E call left right TM_LE) (\<lambda>r.
          if r \<noteq> -1 then ret (r \<noteq> 0)
          else bind (callOrderTM E call right left TM_LT) (\<lambda>r2.
            if r2 = -1 then throw (X_Runtime ''VM: attempt to compare without __le or __lt metamethod'')
            else ret (r2 = 0))))"

section \<open>Length and concatenation\<close>

definition lua_length :: "vm_env \<Rightarrow> call \<Rightarrow> lua_value \<Rightarrow> lua_value exec" where
  "lua_length E call val =
     (case val of
        VString a \<Rightarrow> bind (string_of a) (\<lambda>str. ret (VNumber (f64_of_int (int (length str)))))
      | VTable a \<Rightarrow> bind (table_of a) (\<lambda>t. ret (VNumber (f64_of_int (int (table_length (e_hash E) t)))))
      | _ \<Rightarrow> bind (getMetamethodByObject E val TM_LEN) (\<lambda>tm.
          if \<not> isNil tm \<and> isFunction tm then
            bind (callTMWithResult call tm val VNil) (\<lambda>r.
              if isNumber r then ret r else throw (X_Runtime ''VM: __len metamethod must return a number''))
          else throw (X_Runtime ''VM: attempt to get length of a value without __len metamethod'')))"

text \<open>One step of the loop joins the registers \<open>lastReg - 1\<close> and \<open>lastReg\<close> into \<open>lastReg - 1\<close>; \<open>total\<close> is
  the number of registers left.\<close>

fun concat_loop :: "vm_env \<Rightarrow> call \<Rightarrow> nat \<Rightarrow> nat \<Rightarrow> nat \<Rightarrow> unit exec" where
  "concat_loop E call baseIndex 0 lastReg = ret ()"
| "concat_loop E call baseIndex (Suc 0) lastReg = ret ()"
| "concat_loop E call baseIndex (Suc (Suc k)) lastReg =
     bind (read_slot (baseIndex + lastReg)) (\<lambda>top1.
     bind (read_slot (baseIndex + (lastReg - 1))) (\<lambda>top2.
     bind (concatOperandText E top2) (\<lambda>text2.
     bind (case text2 of None \<Rightarrow> ret None | Some _ \<Rightarrow> concatOperandText E top1) (\<lambda>text1.
     seqx (case (text2, text1) of
        (Some t2, Some t1) \<Rightarrow>
          seqx (checkStringConcatLength (length t2) (length t1))
         (bind (intern (t2 @ t1)) (\<lambda>a. write_slot (baseIndex + (lastReg - 1)) (VString a)))
      | _ \<Rightarrow>
          bind (callBinaryTM E call top2 top1 TM_CONCAT) (\<lambda>res.
            case res of None \<Rightarrow> throw (X_Runtime ''VM: attempt to concatenate non-string/number values'')
            | Some r \<Rightarrow> write_slot (baseIndex + (lastReg - 1)) r))
      (concat_loop E call baseIndex (Suc k) (lastReg - 1))))))"

definition lua_concat :: "vm_env \<Rightarrow> call \<Rightarrow> nat \<Rightarrow> int \<Rightarrow> int \<Rightarrow> int \<Rightarrow> unit exec" where
  "lua_concat E call baseIndex a b c =
     seqx (concat_loop E call baseIndex (nat (c - b + 1)) (nat c))
    (bind (read_slot (baseIndex + nat b)) (\<lambda>v. write_slot (baseIndex + nat a) v))"

end
