(* ===== verification/VMCall.thy ===== *)
theory VMCall
  imports VMOps
begin

text \<open>
  \<^verbatim>\<open>vm/vm_call.cpp\<close> and \<^verbatim>\<open>vm/vm_entry.cpp\<close>: calling and returning. \<open>precallImpl\<close> sets up the frame of
  a function (and runs a native one to its end), \<open>postcall\<close> moves the results to where the caller
  wants them, \<open>call_entry\<close> is \<open>VM::call\<close> with the interpreter passed as an argument. Debug hooks and
  the dump output are not modelled.
\<close>

section \<open>Names in messages\<close>

fun luaTypeName :: "lua_value \<Rightarrow> string" where
  "luaTypeName VNil = ''nil''" | "luaTypeName (VBoolean _) = ''boolean''" | "luaTypeName (VLightUserdata _) = ''userdata''"
| "luaTypeName (VNumber _) = ''number''" | "luaTypeName (VString _) = ''string''" | "luaTypeName (VTable _) = ''table''"
| "luaTypeName (VFunction _) = ''function''" | "luaTypeName (VUserdata _) = ''userdata''" | "luaTypeName (VThread _) = ''thread''"

definition formatCallTypeError :: "lua_value \<Rightarrow> string \<Rightarrow> string" where
  "formatCallTypeError v callTargetName =
     (if callTargetName \<noteq> '''' then ''attempt to call '' @ callTargetName @ '' (a '' @ luaTypeName v @ '' value)''
      else ''attempt to call a '' @ luaTypeName v @ '' value'')"

section \<open>Results\<close>

abbreviation stack_size :: "nat exec" where
  "stack_size \<equiv> gets (\<lambda>s. sk_top (vm_stack s))"

definition clear_slots :: "nat \<Rightarrow> nat \<Rightarrow> unit exec" where
  "clear_slots i j = for_each [i..<j] (\<lambda>k. write_slot k VNil)"

definition copy_slot :: "nat \<Rightarrow> nat \<Rightarrow> unit exec" where
  "copy_slot src dst = bind (read_slot src) (write_slot dst)"

text \<open>The results are in place; missing ones become nil.\<close>

definition postcall_in_place :: "nat \<Rightarrow> int \<Rightarrow> nat exec" where
  "postcall_in_place dest wantedResults =
     bind (gets vm_top) (\<lambda>oldTop.
       let actualResults = int oldTop - int dest
       in if 0 \<le> wantedResults then
            seqx (for_each [actualResults..wantedResults - 1] (\<lambda>i.
              bind stack_size (\<lambda>size.
                if size \<le> nat (int dest + i) then on_stack (stack_push VNil)
                else on_stack (stack_put_at (nat (int dest + i)) VNil))))
            (ret (nat (int dest + wantedResults)))
          else ret (nat (int dest + actualResults)))"

text \<open>The results are copied down from \<open>firstResult\<close>, backwards when the ranges overlap upwards.\<close>

definition postcall_copy :: "nat \<Rightarrow> int \<Rightarrow> nat \<Rightarrow> nat exec" where
  "postcall_copy dest wantedResults firstResult =
     bind (gets vm_top) (\<lambda>oldTop.
       let availableResults = int oldTop - int firstResult;
           resultCount = (if wantedResults < 0 then availableResults else wantedResults);
           copyCount = nat (min availableResults resultCount)
       in seqx (for_each
              (if firstResult < dest \<and> dest < firstResult + copyCount then rev [0..<copyCount] else [0..<copyCount])
              (\<lambda>i. copy_slot (firstResult + i) (dest + i)))
         (seqx (for_each [copyCount..<nat resultCount] (\<lambda>i.
              bind stack_size (\<lambda>size.
                if size \<le> dest + i then on_stack (stack_push VNil) else write_slot (dest + i) VNil)))
         (ret (nat (int dest + resultCount)))))"

definition postcall_trim :: "nat \<Rightarrow> nat \<Rightarrow> nat \<Rightarrow> unit exec" where
  "postcall_trim dest oldTop newTop =
     bind stack_size (\<lambda>size.
     seqx (clear_slots newTop (min oldTop size))
    (seqx (setAbsoluteTop newTop)
    (bind (gets vm_currentCI) (\<lambda>currentFrame.
     bind (gets vm_callStack) (\<lambda>callStack.
       let callerFrameTop =
             (if currentFrame < length callStack then
                let calleeStillActive = (0 < currentFrame \<and> ci_func (callStack ! currentFrame) = dest);
                    callerFrame = (if calleeStillActive then currentFrame - 1 else currentFrame)
                in max newTop (ci_top (callStack ! callerFrame))
              else newTop)
       in bind stack_size (\<lambda>size'.
            on (callerFrameTop < size') (on_stack (stack_setTop callerFrameTop))))))))"

definition postcall :: "nat \<Rightarrow> int \<Rightarrow> nat \<Rightarrow> unit exec" where
  "postcall dest wantedResults firstResult =
     bind (gets vm_top) (\<lambda>oldTop.
     bind (if firstResult = 0 then postcall_in_place dest wantedResults
           else postcall_copy dest wantedResults firstResult)
          (postcall_trim dest oldTop))"

section \<open>Setting up a call\<close>

text \<open>A value that is not a function is called through its \<open>__call\<close> metamethod, which is inserted
  below the arguments; the answer is the function and the number of arguments.\<close>

definition resolve_call ::
  "vm_env \<Rightarrow> nat \<Rightarrow> int \<Rightarrow> (vm \<Rightarrow> string) \<Rightarrow> (addr \<times> int) exec" where
  "resolve_call E funcPos nArgs name =
     bind (of_stack (stack_at funcPos)) (\<lambda>funcVal.
       case funcVal of
         VFunction fa \<Rightarrow> ret (fa, nArgs)
       | _ \<Rightarrow>
         bind (getMetamethodByObject E funcVal TM_CALL) (\<lambda>tm.
           case tm of
             VFunction fa \<Rightarrow>
               bind (gets vm_top) (\<lambda>topIdx.
                 let variableArgCall = nArgs < 0;
                     actualCallArgs = (if variableArgCall then int topIdx - int (funcPos + 1) else nArgs)
                 in if actualCallArgs < 0 then throw (X_Std ''vector::reserve'')
                    else
                      bind (gets (\<lambda>s. map (\<lambda>i. stack_at (funcPos + 1 + i) (vm_stack s)) [0..<nat actualCallArgs])) (\<lambda>reads.
                      if \<exists>r \<in> set reads. r = Raise X_OutOfRange then throw X_OutOfRange
                      else if \<exists>r \<in> set reads. r = Fault then fault
                      else
                        let args = map (\<lambda>r. case r of Done v \<Rightarrow> v | _ \<Rightarrow> VNil) reads
                        in seqx (push_nils_to (funcPos + 2 + length args))
                          (seqx (on_stack (stack_put_at funcPos tm))
                          (seqx (on_stack (stack_put_at (funcPos + 1) funcVal))
                          (seqx (for_each [0..<length args] (\<lambda>i. on_stack (stack_put_at (funcPos + 2 + i) (args ! i))))
                          (seqx (on variableArgCall (setAbsoluteTop (nat (int funcPos + 1 + (actualCallArgs + 1)))))
                                (ret (fa, actualCallArgs + 1))))))))
           | _ \<Rightarrow> bind (gets name) (\<lambda>n. throw (X_Runtime (formatCallTypeError funcVal n)))))"

definition set_frame :: "nat \<Rightarrow> nat \<Rightarrow> nat \<Rightarrow> int \<Rightarrow> unit exec" where
  "set_frame func base topIdx nResults =
     update_ci (\<lambda>ci. ci\<lparr>ci_func := func, ci_base := base, ci_top := topIdx, ci_nresults := nResults,
       ci_savedpc := None, ci_tailcalls := 0\<rparr>)"

definition call_native :: "vm_env \<Rightarrow> lua_function \<Rightarrow> nat \<Rightarrow> int \<Rightarrow> int \<Rightarrow> bool exec" where
  "call_native E f funcPos nArgs nResults =
     bind (gets vm_top) (\<lambda>topIdx.
       let actualNArgs = (if nArgs < 0 then int topIdx - int (funcPos + 1) else nArgs);
           frameTop = nat (int funcPos + 1 + actualNArgs + 20);
           argumentTop = nat (int funcPos + 1 + actualNArgs)
       in seqx pushCallInfo
         (seqx (set_frame funcPos (funcPos + 1) frameTop nResults)
         (seqx (push_nils_to frameTop)
         (seqx (clear_slots argumentTop frameTop)
         (seqx (setAbsoluteTop argumentTop)
         (bind (callCFunction E f) (\<lambda>nReturnValues.
          bind (gets vm_status) (\<lambda>status.
            if status = TS_Yield then ret False
            else
              bind (gets vm_top) (\<lambda>currentTop.
                if nReturnValues < 0 \<or> int currentTop < nReturnValues then fault
                else seqx (postcall funcPos nResults (currentTop - nat nReturnValues))
                    (seqx popCallInfo (ret False)))))))))))"

definition copy_params :: "nat \<Rightarrow> nat \<Rightarrow> nat \<Rightarrow> unit exec" where
  "copy_params oldBase base numParams =
     for_each [0..<numParams] (\<lambda>i. seqx (copy_slot (oldBase + i) (base + i)) (write_slot (oldBase + i) VNil))"

text \<open>The \<open>arg\<close> table of the old vararg convention.\<close>

definition compat_arg_table :: "vm_env \<Rightarrow> nat \<Rightarrow> nat \<Rightarrow> addr exec" where
  "compat_arg_table E firstVararg nVarargs =
     bind create_table (\<lambda>t.
     seqx (for_each [0..<nVarargs] (\<lambda>i.
        bind (read_slot (firstVararg + i)) (\<lambda>v. heap_set E t (VNumber (f64_of_int (int (i + 1)))) v)))
    (bind (intern ''n'') (\<lambda>k.
     seqx (heap_set E t (VString k) (VNumber (f64_of_int (int nVarargs)))) (ret t))))"

text \<open>The base of the new frame and the \<open>arg\<close> table, if any.\<close>

definition adjust_arguments :: "vm_env \<Rightarrow> proto_data \<Rightarrow> nat \<Rightarrow> int \<Rightarrow> (nat \<times> addr option) exec" where
  "adjust_arguments E p funcPos actualArgs =
     (let numParams = unat (pd_numParams p); oldBase = funcPos + 1 in
      if isVararg p then
        seqx (push_nils_to (oldBase + numParams))
       (seqx (for_each [actualArgs..int numParams - 1] (\<lambda>i. write_slot (nat (int oldBase + i)) VNil))
       (let actual = max actualArgs (int numParams); nVarargs = nat (actual - int numParams); base = oldBase + nat actual
        in bind (if pd_isVararg p AND VARARG_NEEDSARG \<noteq> 0
                 then bind (compat_arg_table E (oldBase + numParams) nVarargs) (\<lambda>t. ret (Some t)) else ret None) (\<lambda>compat.
           bind stack_size (\<lambda>size.
           seqx (on (size < base + numParams) (on_stack (stack_setTop (base + numParams))))
          (seqx (copy_params oldBase base numParams)
                (ret (base, compat)))))))
      else
        seqx (push_nils_to (oldBase + numParams))
       (seqx (for_each [actualArgs..int numParams - 1] (\<lambda>i. write_slot (nat (int oldBase + i)) VNil))
             (ret (oldBase, None))))"

definition precallImpl :: "vm_env \<Rightarrow> int \<Rightarrow> int \<Rightarrow> int \<Rightarrow> (vm \<Rightarrow> string) \<Rightarrow> bool exec" where
  "precallImpl E funcIndex nArgs0 nResults name =
     bind getCurrentCallInfo (\<lambda>currentCI.
       if int (ci_base currentCI) + funcIndex < 0 then throw X_OutOfRange
       else let funcPos = nat (int (ci_base currentCI) + funcIndex) in
       bind (resolve_call E funcPos nArgs0 name) (\<lambda>(fa, nArgs).
       bind (function_of fa) (\<lambda>f.
         case fn_kind f of
           CFunction _ \<Rightarrow> call_native E f funcPos nArgs nResults
         | LuaFunction prot \<Rightarrow>
             let p = proto_data prot; numParams = unat (pd_numParams p) in
             bind (gets vm_top) (\<lambda>topIdx.
             bind (adjust_arguments E p funcPos (if nArgs < 0 then int topIdx - int (funcPos + 1) else nArgs)) (\<lambda>(base, compat).
               let frameTop = base + unat (pd_maxStackSize p) in
               seqx pushCallInfo
              (seqx (set_frame funcPos base frameTop nResults)
              (seqx (push_nils_to frameTop)
              (seqx (clear_slots (base + numParams) frameTop)
              (seqx (case compat of None \<Rightarrow> ret () | Some t \<Rightarrow> write_slot (base + numParams) (VTable t))
              (seqx (setAbsoluteTop frameTop)
                    (ret True))))))))))) "

definition precall :: "vm_env \<Rightarrow> int \<Rightarrow> int \<Rightarrow> int \<Rightarrow> bool exec" where
  "precall E funcIndex nArgs nResults = precallImpl E funcIndex nArgs nResults (\<lambda>_. '''')"

definition precallWithName :: "vm_env \<Rightarrow> int \<Rightarrow> int \<Rightarrow> int \<Rightarrow> string \<Rightarrow> bool exec" where
  "precallWithName E funcIndex nArgs nResults name = precallImpl E funcIndex nArgs nResults (\<lambda>_. name)"

definition precallWithNameResolver :: "vm_env \<Rightarrow> int \<Rightarrow> int \<Rightarrow> int \<Rightarrow> (vm \<Rightarrow> string) \<Rightarrow> bool exec" where
  "precallWithNameResolver E funcIndex nArgs nResults resolver = precallImpl E funcIndex nArgs nResults resolver"

text \<open>The callee's frame moves down over the caller's.\<close>

definition reuseCurrentFrameForTailCall :: "nat \<Rightarrow> nat \<Rightarrow> int \<Rightarrow> unit exec" where
  "reuseCurrentFrameForTailCall callerIndex callerFunc callerTailcalls =
     bind getCurrentCallInfo (\<lambda>callee.
       let src = ci_func callee; dst = callerFunc; count = ci_top callee - ci_func callee;
           adjust = (\<lambda>i. nat (int i + (int dst - int src)))
       in seqx (on (src \<noteq> dst \<and> 0 < count)
            (for_each (if dst < src then [0..<count] else rev [0..<count]) (\<lambda>i. copy_slot (src + i) (dst + i))))
         (let callee' = callee\<lparr>ci_func := adjust (ci_func callee), ci_base := adjust (ci_base callee),
                ci_top := adjust (ci_top callee), ci_savedpc := None, ci_tailcalls := callerTailcalls + 1,
                ci_hookLine := -1, ci_hookPc := -1\<rparr>
          in seqx popCallInfo
            (seqx (\<lambda>s. if callerIndex < length (vm_callStack s)
                       then (Done (), s\<lparr>vm_callStack := (vm_callStack s)[callerIndex := callee']\<rparr>) else (Fault, s))
            (seqx (on_stack (stack_setTop (ci_top callee')))
                  (setAbsoluteTop (ci_top callee'))))))"

section \<open>Entering the machine\<close>

datatype exec_result = ER_Returned | ER_Yielded

text \<open>The body of \<open>VM::call\<close> inside the guard that counts host calls; the guard's destructor runs on
  every way out.\<close>

definition guarded :: "unit exec \<Rightarrow> unit exec" where
  "guarded body = seqx enterHostCall (\<lambda>s. case body s of (r, s') \<Rightarrow> (r, leaveHostCall s'))"

definition call_entry :: "vm_env \<Rightarrow> exec_result exec \<Rightarrow> nat \<Rightarrow> int \<Rightarrow> unit exec" where
  "call_entry E execute nargs nresults = guarded
     (bind (gets vm_top) (\<lambda>absTop.
      bind getCurrentCallInfo (\<lambda>ci.
      bind (precall E (int absTop - int nargs - 1 - int (ci_base ci)) (int nargs) nresults) (\<lambda>isLua.
        if isLua then
          bind getCurrentCallInfo (\<lambda>newCI.
          seqx execute
         (seqx popCallInfo
               (postcall (ci_func newCI) (ci_nresults newCI) 0)))
        else ret ()))))"

definition execute_entry :: "vm_env \<Rightarrow> exec_result exec \<Rightarrow> addr \<Rightarrow> unit exec" where
  "execute_entry E execute fa =
     bind (function_of fa) (\<lambda>f.
       case fn_kind f of
         CFunction _ \<Rightarrow> throw (X_Runtime ''VM::execute: C functions not supported yet'')
       | LuaFunction prot \<Rightarrow>
           seqx (on_stack (stack_push (VFunction fa)))
          (bind stack_size (\<lambda>size.
            let funcIndex = size - 1; base = funcIndex + 1;
                requiredTop = base + unat (pd_maxStackSize (proto_data prot)) in
            seqx pushCallInfo
           (seqx (set_frame funcIndex base base (-1))
           (bind (gets vm_stack) (\<lambda>st.
            seqx (on (sk_capacity st < requiredTop) (on_stack (checkSpace (requiredTop - sk_top st))))
           (seqx (push_nils_to requiredTop)
           (seqx (update_ci (\<lambda>ci. ci\<lparr>ci_top := requiredTop\<rparr>))
           (seqx (setAbsoluteTop requiredTop)
           (seqx execute
                 popCallInfo)))))))))) "

end
