(* ===== verification/VMHandlers.thy ===== *)
theory VMHandlers
  imports VMCall
begin

text \<open>
  The opcode handlers of \<^verbatim>\<open>vm/vm_handlers/\<close> with the helpers of \<^verbatim>\<open>vm/vm_frame.cpp\<close>,
  \<^verbatim>\<open>vm/vm_table.cpp\<close>, \<^verbatim>\<open>vm/vm_loop.cpp\<close> and \<^verbatim>\<open>vm/vm_arith.cpp\<close>, and the dispatch loop of \<^verbatim>\<open>vm/vm.cpp\<close>.

  A handler is a program over the state that receives the execution context (the running function
  and prototype, the program counter after the fetched instruction, the counter of that
  instruction and the depth of calls inside this activation of the loop) and answers a status with
  the new counter and depth. The \<open>base\<close> pointer is the base of the current frame, which every
  handler refreshes after a call. Register names in messages (\<open>describeRegister\<close>), hooks, traces,
  the debugger and the collector step are not modelled.
\<close>

section \<open>Context\<close>

record op_context =
  cx_function :: addr
  cx_proto :: proto
  cx_pc :: nat
  cx_instructionPc :: nat
  cx_nexeccalls :: int

datatype handler_status = HS_Continue | HS_Reenter | HS_Yielded | HS_Returned

type_synonym handler = "op_context \<Rightarrow> instruction \<Rightarrow> (handler_status \<times> op_context) exec"

abbreviation context_code :: "op_context \<Rightarrow> instruction list" where
  "context_code cx \<equiv> pd_code (proto_data (cx_proto cx))"

definition proceed :: "op_context \<Rightarrow> (handler_status \<times> op_context) exec" where
  "proceed cx = ret (HS_Continue, cx)"

text \<open>The program counter is a 64-bit unsigned number.\<close>

definition add_pc :: "nat \<Rightarrow> int \<Rightarrow> nat" where
  "add_pc pc d = nat ((int pc + d) mod 2 ^ 64)"

definition jump_by :: "int \<Rightarrow> op_context \<Rightarrow> op_context" where
  "jump_by d cx = cx\<lparr>cx_pc := add_pc (cx_pc cx) d\<rparr>"

definition refreshBase :: "nat exec" where
  "refreshBase = bind getCurrentCallInfo (\<lambda>ci. ret (ci_base ci))"

definition read_reg :: "int \<Rightarrow> lua_value exec" where
  "read_reg r = (if r < 0 then fault else bind refreshBase (\<lambda>base. read_slot (base + nat r)))"

definition write_reg :: "int \<Rightarrow> lua_value \<Rightarrow> unit exec" where
  "write_reg r v = (if r < 0 then fault else bind refreshBase (\<lambda>base. write_slot (base + nat r) v))"

definition constant_at :: "op_context \<Rightarrow> int \<Rightarrow> lua_value exec" where
  "constant_at cx k = (case getConstant (proto_data (cx_proto cx)) (nat k) of
     Some v \<Rightarrow> ret v | None \<Rightarrow> throw X_OutOfRange)"

definition getRK :: "op_context \<Rightarrow> int \<Rightarrow> lua_value exec" where
  "getRK cx rk = (if ISK rk then constant_at cx (INDEXK rk) else read_reg rk)"

section \<open>Messages\<close>

definition formatTypeActionError :: "string \<Rightarrow> lua_value \<Rightarrow> string \<Rightarrow> string" where
  "formatTypeActionError action v sourceName =
     (if sourceName \<noteq> '''' then ''attempt to '' @ action @ '' '' @ sourceName @ '' (a '' @ luaTypeName v @ '' value)''
      else ''attempt to '' @ action @ '' a '' @ luaTypeName v @ '' value'')"

text \<open>\<open>what()\<close> of an exception; an error object that is a string is its own message.\<close>

definition exn_what :: "vm \<Rightarrow> lua_exn \<Rightarrow> string" where
  "exn_what s e = (case e of
       X_Runtime m \<Rightarrow> m | X_StackOverflow m \<Rightarrow> m | X_Resource m \<Rightarrow> m | X_Std m \<Rightarrow> m | X_OutOfRange \<Rightarrow> ''''
     | X_Value v \<Rightarrow> (case v of
           VString a \<Rightarrow> (case lookup (vm_strings s) a of Some str \<Rightarrow> c_str str | None \<Rightarrow> '''')
         | _ \<Rightarrow> ''(error object is not a string)''))"

fun has_prefix :: "string \<Rightarrow> string \<Rightarrow> bool" where
  "has_prefix [] ys = True"
| "has_prefix (x # xs) [] = False"
| "has_prefix (x # xs) (y # ys) = (x = y \<and> has_prefix xs ys)"

fun contains :: "string \<Rightarrow> string \<Rightarrow> bool" where
  "contains needle [] = (needle = [])"
| "contains needle (c # cs) = (has_prefix needle (c # cs) \<or> contains needle cs)"

text \<open>Rewrite a runtime error whose message contains a text; rethrow every other exception.\<close>

definition rewriting :: "string \<Rightarrow> 'a exec \<Rightarrow> 'a exec \<Rightarrow> 'a exec" where
  "rewriting needle body rewrite = catch body
     (\<lambda>e s. if is_runtime_error e \<and> contains needle (exn_what s e) then rewrite s else throw e s)"

definition describe :: "vm_env \<Rightarrow> op_context \<Rightarrow> int \<Rightarrow> vm \<Rightarrow> string" where
  "describe E cx reg s = e_describe E s (cx_proto cx) reg (cx_instructionPc cx)"

definition type_action_error :: "vm_env \<Rightarrow> op_context \<Rightarrow> string \<Rightarrow> lua_value \<Rightarrow> int \<Rightarrow> 'a exec" where
  "type_action_error E cx action v reg =
     bind (gets (describe E cx reg)) (\<lambda>name. throw (X_Runtime (formatTypeActionError action v name)))"

section \<open>Data movement\<close>

definition handleMove :: handler where
  "handleMove cx inst =
     bind (read_reg (GETARG_B inst)) (\<lambda>v. seqx (write_reg (GETARG_A inst) v) (proceed cx))"

definition handleLoadK :: handler where
  "handleLoadK cx inst =
     bind (constant_at cx (GETARG_Bx inst)) (\<lambda>v. seqx (write_reg (GETARG_A inst) v) (proceed cx))"

definition handleLoadBool :: handler where
  "handleLoadBool cx inst =
     seqx (write_reg (GETARG_A inst) (VBoolean (GETARG_B inst \<noteq> 0)))
          (proceed (if GETARG_C inst \<noteq> 0 then jump_by 1 cx else cx))"

definition handleLoadNil :: handler where
  "handleLoadNil cx inst =
     seqx (for_each [GETARG_A inst..GETARG_B inst] (\<lambda>i. write_reg i VNil)) (proceed cx)"

section \<open>Globals and upvalues\<close>

definition function_env :: "op_context \<Rightarrow> lua_value exec" where
  "function_env cx =
     bind (function_of (cx_function cx)) (\<lambda>f.
     bind (case fn_env f of Some t \<Rightarrow> ret (Some t) | None \<Rightarrow> gets vm_globalTable) (\<lambda>env.
     bind (deref env) (\<lambda>t. ret (VTable t))))"

definition handleGetGlobal :: "vm_env \<Rightarrow> call \<Rightarrow> handler" where
  "handleGetGlobal E call cx inst =
     bind (constant_at cx (GETARG_Bx inst)) (\<lambda>key.
     bind (function_env cx) (\<lambda>env.
     bind (gettable E call env key) (\<lambda>result.
     seqx (write_reg (GETARG_A inst) result) (proceed cx))))"

definition handleSetGlobal :: "vm_env \<Rightarrow> call \<Rightarrow> handler" where
  "handleSetGlobal E call cx inst =
     bind (constant_at cx (GETARG_Bx inst)) (\<lambda>key.
     bind (function_env cx) (\<lambda>env.
     bind (read_reg (GETARG_A inst)) (\<lambda>val.
     seqx (settable E call env key val) (proceed cx))))"

definition handleGetUpval :: handler where
  "handleGetUpval cx inst =
     bind (function_of (cx_function cx)) (\<lambda>f.
       case getUpvalue f (nat (GETARG_B inst)) of
         None \<Rightarrow> throw (X_Runtime ''VM: GETUPVAL invalid upvalue index'')
       | Some uv \<Rightarrow> bind (upvalue_getValue uv) (\<lambda>v. seqx (write_reg (GETARG_A inst) v) (proceed cx)))"

definition handleSetUpval :: handler where
  "handleSetUpval cx inst =
     bind (function_of (cx_function cx)) (\<lambda>f.
       case getUpvalue f (nat (GETARG_B inst)) of
         None \<Rightarrow> throw (X_Runtime ''VM: SETUPVAL invalid upvalue index'')
       | Some uv \<Rightarrow> bind (read_reg (GETARG_A inst)) (\<lambda>v. seqx (upvalue_setValue uv v) (proceed cx)))"

section \<open>Tables\<close>

definition index_error :: string where
  "index_error = ''attempt to index a non-table value''"

definition handleGetTable :: "vm_env \<Rightarrow> call \<Rightarrow> handler" where
  "handleGetTable E call cx inst =
     bind (read_reg (GETARG_B inst)) (\<lambda>table.
     bind (getRK cx (GETARG_C inst)) (\<lambda>key.
     bind (rewriting index_error (gettable E call table key)
             (type_action_error E cx ''index'' table (GETARG_B inst))) (\<lambda>result.
     seqx (write_reg (GETARG_A inst) result) (proceed cx))))"

definition handleSetTable :: "vm_env \<Rightarrow> call \<Rightarrow> handler" where
  "handleSetTable E call cx inst =
     bind (read_reg (GETARG_A inst)) (\<lambda>table.
     bind (getRK cx (GETARG_B inst)) (\<lambda>key.
     bind (getRK cx (GETARG_C inst)) (\<lambda>val.
     seqx (settable E call table key val) (proceed cx))))"

definition handleNewTable :: handler where
  "handleNewTable cx inst =
     bind create_table (\<lambda>t. seqx (write_reg (GETARG_A inst) (VTable t)) (proceed cx))"

definition handleSelf :: "vm_env \<Rightarrow> call \<Rightarrow> handler" where
  "handleSelf E call cx inst =
     bind (read_reg (GETARG_B inst)) (\<lambda>obj.
     seqx (write_reg (GETARG_A inst + 1) obj)
    (bind (getRK cx (GETARG_C inst)) (\<lambda>key.
     bind (rewriting index_error (gettable E call obj key)
             (type_action_error E cx ''index'' obj (GETARG_B inst))) (\<lambda>result.
     seqx (write_reg (GETARG_A inst) result) (proceed cx)))))"

definition FIELDS_PER_FLUSH :: int where "FIELDS_PER_FLUSH = 50"

definition read_regs :: "int \<Rightarrow> nat \<Rightarrow> lua_value list exec" where
  "read_regs r n = bind refreshBase (\<lambda>base. \<lambda>s.
     (let first = nat (int base + r); slots = sk_slots (vm_stack s)
      in if r < 0 \<or> length slots < first + n then (Fault, s) else (Done (take n (drop first slots)), s)))"

definition setList :: "vm_env \<Rightarrow> int \<Rightarrow> int \<Rightarrow> int \<Rightarrow> unit exec" where
  "setList E a b c =
     bind (read_reg a) (\<lambda>v.
       case v of
         VTable t \<Rightarrow>
           bind (if b = 0
                 then bind getCurrentCallInfo (\<lambda>ci. bind (gets vm_top) (\<lambda>topIdx.
                      seqx (setAbsoluteTop (ci_top ci)) (ret (int topIdx - (int (ci_base ci) + a) - 1))))
                 else ret b) (\<lambda>n.
             let baseIndex = (c - 1) * FIELDS_PER_FLUSH in
             if 0 < n then
               bind (read_regs (a + 1) (nat n)) (\<lambda>vals.
               bind (table_of t) (\<lambda>tab.
               bind (gets vm_resources) (\<lambda>rp.
                 case setArrayRange (e_hash E) rp tab (baseIndex + 1) vals of
                   Inl e \<Rightarrow> throw (table_exn e) | Inr tab' \<Rightarrow> put_table t tab')))
             else ret ())
       | _ \<Rightarrow> throw (X_Runtime ''VM: SETLIST requires table''))"

definition handleSetList :: "vm_env \<Rightarrow> handler" where
  "handleSetList E cx inst =
     (let a = GETARG_A inst; b = GETARG_B inst; c = GETARG_C inst in
      if c = 0 then
        (if length (context_code cx) \<le> cx_pc cx
         then throw (X_Runtime ''VM: SETLIST missing extended block operand'')
         else let block = sint (context_code cx ! cx_pc cx); cx' = jump_by 1 cx
              in seqx (update_ci (\<lambda>ci. ci\<lparr>ci_savedpc := Some (cx_pc cx')\<rparr>))
                (seqx (setList E a b block) (proceed cx')))
      else seqx (setList E a b c) (proceed cx))"

section \<open>Arithmetic\<close>

definition execArithmetic :: "vm_env \<Rightarrow> call \<Rightarrow> op_context \<Rightarrow> int \<Rightarrow> int \<Rightarrow> int \<Rightarrow> opcode \<Rightarrow> unit exec" where
  "execArithmetic E call cx a b c oc =
     bind (getRK cx b) (\<lambda>left.
     bind (getRK cx c) (\<lambda>right.
     bind (arith E call left right oc) (\<lambda>result. write_reg a result)))"

definition canConvertToNumber :: "vm_env \<Rightarrow> lua_value \<Rightarrow> bool exec" where
  "canConvertToNumber E v =
     (case v of
        VNumber _ \<Rightarrow> ret True
      | VString a \<Rightarrow> bind (string_of a) (\<lambda>str.
          case e_strtod E (c_str str) of (_, used, _) \<Rightarrow>
            ret (used \<noteq> 0 \<and> dropWhile isspace (drop used (c_str str)) = []))
      | _ \<Rightarrow> ret False)"

definition describeArithmeticOperand :: "vm_env \<Rightarrow> op_context \<Rightarrow> int \<Rightarrow> lua_value \<Rightarrow> string exec" where
  "describeArithmeticOperand E cx rk v =
     bind (if ISK rk then ret '''' else gets (describe E cx rk)) (\<lambda>name.
       ret (formatTypeActionError ''perform arithmetic on'' v name))"

definition handleArithmetic :: "vm_env \<Rightarrow> call \<Rightarrow> handler" where
  "handleArithmetic E call cx inst =
     (let a = GETARG_A inst; b = GETARG_B inst; c = GETARG_C inst in
      case GET_OPCODE inst of None \<Rightarrow> throw (X_Runtime ''VM::arith: invalid opcode'') | Some oc \<Rightarrow>
      seqx (rewriting ''attempt to perform arithmetic on non-number values'' (execArithmetic E call cx a b c oc)
              (bind (getRK cx b) (\<lambda>left.
               bind (getRK cx c) (\<lambda>right.
               bind (canConvertToNumber E left) (\<lambda>ok.
                 if \<not> ok then bind (describeArithmeticOperand E cx b left) (\<lambda>m. throw (X_Runtime m))
                 else bind (describeArithmeticOperand E cx c right) (\<lambda>m. throw (X_Runtime m)))))))
           (proceed cx))"

section \<open>Unary operations and concatenation\<close>

definition handleUnaryMinus :: "vm_env \<Rightarrow> call \<Rightarrow> handler" where
  "handleUnaryMinus E call cx inst =
     bind (read_reg (GETARG_B inst)) (\<lambda>val.
     bind (rewriting ''attempt to perform arithmetic on a non-number value'' (unaryMinus E call val)
             (type_action_error E cx ''perform arithmetic on'' val (GETARG_B inst))) (\<lambda>result.
     seqx (write_reg (GETARG_A inst) result) (proceed cx)))"

definition handleNot :: handler where
  "handleNot cx inst =
     bind (read_reg (GETARG_B inst)) (\<lambda>v.
     seqx (write_reg (GETARG_A inst) (VBoolean (\<not> isTrue v))) (proceed cx))"

definition handleLength :: "vm_env \<Rightarrow> call \<Rightarrow> handler" where
  "handleLength E call cx inst =
     bind (read_reg (GETARG_B inst)) (\<lambda>val.
     bind (lua_length E call val) (\<lambda>result.
     seqx (write_reg (GETARG_A inst) result) (proceed cx)))"

definition handleConcat :: "vm_env \<Rightarrow> call \<Rightarrow> handler" where
  "handleConcat E call cx inst =
     bind refreshBase (\<lambda>base.
     seqx (lua_concat E call base (GETARG_A inst) (GETARG_B inst) (GETARG_C inst)) (proceed cx))"

section \<open>Branches\<close>

definition handleJump :: handler where
  "handleJump cx inst = proceed (jump_by (GETARG_sBx inst) cx)"

definition handleComparison :: "vm_env \<Rightarrow> call \<Rightarrow> handler" where
  "handleComparison E call cx inst =
     bind (getRK cx (GETARG_B inst)) (\<lambda>left.
     bind (getRK cx (GETARG_C inst)) (\<lambda>right.
     bind (case GET_OPCODE inst of
             Some OP_EQ \<Rightarrow> equal_values E call left right
           | Some OP_LT \<Rightarrow> lessThan E call left right
           | Some OP_LE \<Rightarrow> lessEqual E call left right
           | _ \<Rightarrow> throw (X_Runtime ''VM: invalid comparison handler opcode'')) (\<lambda>result.
     proceed (if result \<noteq> (GETARG_A inst \<noteq> 0) then jump_by 1 cx else cx))))"

text \<open>The jump that follows a test, taken by the test itself.\<close>

definition take_following_jump :: "op_context \<Rightarrow> op_context" where
  "take_following_jump cx =
     (if cx_pc cx < length (context_code cx) then jump_by (GETARG_sBx (context_code cx ! cx_pc cx)) cx else cx)"

definition handleTest :: handler where
  "handleTest cx inst =
     bind (read_reg (GETARG_A inst)) (\<lambda>v.
     proceed (jump_by 1 (if (\<not> isTrue v) \<noteq> (GETARG_C inst \<noteq> 0) then take_following_jump cx else cx)))"

definition handleTestSet :: handler where
  "handleTestSet cx inst =
     bind (read_reg (GETARG_B inst)) (\<lambda>v.
       if (\<not> isTrue v) \<noteq> (GETARG_C inst \<noteq> 0)
       then seqx (write_reg (GETARG_A inst) v) (proceed (jump_by 1 (take_following_jump cx)))
       else proceed (jump_by 1 cx))"

section \<open>Loops\<close>

definition coerceNumber :: "vm_env \<Rightarrow> int \<Rightarrow> bool exec" where
  "coerceNumber E r =
     bind (read_reg r) (\<lambda>v.
       case v of
         VNumber _ \<Rightarrow> ret True
       | VString a \<Rightarrow> bind (string_of a) (\<lambda>str.
           case e_strtod E (c_str str) of (x, used, _) \<Rightarrow>
             if used = 0 \<or> dropWhile isspace (drop used (c_str str)) \<noteq> [] then ret False
             else seqx (write_reg r (VNumber x)) (ret True))
       | _ \<Rightarrow> ret False)"

definition handleClose :: handler where
  "handleClose cx inst =
     bind refreshBase (\<lambda>base. seqx (closeUpvalues (base + nat (GETARG_A inst))) (proceed cx))"

definition handleForLoop :: handler where
  "handleForLoop cx inst =
     (let a = GETARG_A inst in
      bind (read_reg a) (\<lambda>v0. bind (read_reg (a + 1)) (\<lambda>v1. bind (read_reg (a + 2)) (\<lambda>v2.
        case (v0, v1, v2) of
          (VNumber i, VNumber limit, VNumber step) \<Rightarrow>
            let idx = f64_add i step in
            if (if f64_lt f64_zero step then f64_le idx limit else f64_le limit idx)
            then seqx (write_reg a (VNumber idx)) (seqx (write_reg (a + 3) (VNumber idx))
                   (proceed (jump_by (GETARG_sBx inst) cx)))
            else proceed cx
        | _ \<Rightarrow> throw (X_Runtime ''VM: FORLOOP requires numeric values'')))))"

definition handleForPrep :: "vm_env \<Rightarrow> handler" where
  "handleForPrep E cx inst =
     (let a = GETARG_A inst; failed = throw (X_Runtime ''VM: FORPREP requires numeric values'') in
      bind (coerceNumber E a) (\<lambda>ok0. if \<not> ok0 then failed else
      bind (coerceNumber E (a + 1)) (\<lambda>ok1. if \<not> ok1 then failed else
      bind (coerceNumber E (a + 2)) (\<lambda>ok2. if \<not> ok2 then failed else
      bind (read_reg a) (\<lambda>v0. bind (read_reg (a + 2)) (\<lambda>v2.
        case (v0, v2) of
          (VNumber init, VNumber step) \<Rightarrow>
            seqx (write_reg a (VNumber (f64_sub init step))) (proceed (jump_by (GETARG_sBx inst) cx))
        | _ \<Rightarrow> fault))))))"

definition tforLoop :: "call \<Rightarrow> op_context \<Rightarrow> int \<Rightarrow> int \<Rightarrow> op_context exec" where
  "tforLoop call cx a c =
     (let cb = a + 3 in
      bind getCurrentCallInfo (\<lambda>ci.
      seqx (push_nils_to (ci_base ci + nat (cb + 3 + c)))
     (bind (read_reg (a + 2)) (\<lambda>control. seqx (write_reg (cb + 2) control)
     (bind (read_reg (a + 1)) (\<lambda>st. seqx (write_reg (cb + 1) st)
     (bind (read_reg a) (\<lambda>generator. seqx (write_reg cb generator)
     (seqx (on (cx_pc cx < length (context_code cx)) (update_ci (\<lambda>ci. ci\<lparr>ci_savedpc := Some (cx_pc cx)\<rparr>)))
     (let callTop = ci_base ci + nat (cb + 3) in
      seqx (on_stack (stack_setTop callTop))
     (seqx (setAbsoluteTop callTop)
     (seqx (call 2 c)
     (bind getCurrentCallInfo (\<lambda>callerCI.
      seqx (on_stack (stack_setTop (ci_top callerCI)))
     (seqx (setAbsoluteTop (ci_top callerCI))
     (bind (read_reg cb) (\<lambda>v.
        if \<not> isNil v then
          seqx (write_reg (a + 2) v)
               (ret (if cx_pc cx < length (context_code cx)
                     then jump_by (GETARG_sBx (context_code cx ! cx_pc cx) + 1) cx else cx))
        else ret (jump_by 1 cx)))))))))))))))))) "

definition handleTForLoop :: "call \<Rightarrow> handler" where
  "handleTForLoop call cx inst = bind (tforLoop call cx (GETARG_A inst) (GETARG_C inst)) proceed"

section \<open>Closures and varargs\<close>

text \<open>One captured variable per data word.\<close>

fun capture_upvalues :: "op_context \<Rightarrow> addr \<Rightarrow> nat \<Rightarrow> op_context exec" where
  "capture_upvalues cx fa 0 = ret cx"
| "capture_upvalues cx fa (Suc k) =
     (if length (context_code cx) \<le> cx_pc cx
      then throw (X_Runtime ''VM: CLOSURE missing upvalue pseudo instruction'')
      else let inst = context_code cx ! cx_pc cx; cx' = jump_by 1 cx; b = GETARG_B inst in
        seqx (case GET_OPCODE inst of
            Some OP_MOVE \<Rightarrow>
              bind refreshBase (\<lambda>base. bind (findOrCreateUpvalue (base + nat b)) (addUpvalue fa))
          | Some OP_GETUPVAL \<Rightarrow>
              bind (function_of (cx_function cx)) (\<lambda>f.
                case getUpvalue f (nat b) of
                  None \<Rightarrow> throw (X_Runtime ''VM: CLOSURE invalid parent upvalue index'')
                | Some uv \<Rightarrow> addUpvalue fa uv)
          | _ \<Rightarrow> throw (X_Runtime ''VM: CLOSURE expects MOVE/GETUPVAL pseudo instruction''))
        (capture_upvalues cx' fa k))"

definition closure :: "op_context \<Rightarrow> int \<Rightarrow> int \<Rightarrow> op_context exec" where
  "closure cx a bx =
     (if bx < 0 \<or> int (length (sub_protos (cx_proto cx))) \<le> bx
      then throw (X_Runtime ''VM: CLOSURE proto index out of range'')
      else case sub_protos (cx_proto cx) ! nat bx of
        None \<Rightarrow> throw (X_Std ''Proto pointer cannot be null'')
      | Some childProto \<Rightarrow>
          bind (create_function childProto) (\<lambda>fa.
          bind (function_of (cx_function cx)) (\<lambda>f.
          bind (case fn_env f of Some t \<Rightarrow> ret (Some t) | None \<Rightarrow> gets vm_globalTable) (\<lambda>env.
          seqx (setEnv fa env)
         (bind (capture_upvalues cx fa (unat (pd_nups (proto_data childProto)))) (\<lambda>cx'.
          seqx (write_reg a (VFunction fa)) (ret cx')))))))"

definition handleClosure :: handler where
  "handleClosure cx inst = bind (closure cx (GETARG_A inst) (GETARG_Bx inst)) proceed"

definition vararg :: "op_context \<Rightarrow> int \<Rightarrow> int \<Rightarrow> unit exec" where
  "vararg cx a b =
     bind getCurrentCallInfo (\<lambda>ci.
       let numParams = uint (pd_numParams (proto_data (cx_proto cx)));
           n = max 0 (int (ci_base ci) - int (ci_func ci) - 1 - numParams)
       in seqx (if b = 0 then
                  bind stack_size (\<lambda>size.
                    let neededTop = ci_base ci + nat a + nat n in
                    seqx (on (size < neededTop) (on_stack (stack_setTop neededTop))) (setAbsoluteTop neededTop))
                else ret ())
         (for_each [0..(if b = 0 then n else b - 1) - 1] (\<lambda>j.
            if j < n then bind (read_slot (nat (int (ci_base ci) - n + j))) (write_reg (a + j))
            else write_reg (a + j) VNil)))"

definition handleVararg :: handler where
  "handleVararg cx inst = seqx (vararg cx (GETARG_A inst) (GETARG_B inst)) (proceed cx)"

section \<open>Calls\<close>

definition save_pc :: "op_context \<Rightarrow> unit exec" where
  "save_pc cx = update_ci (\<lambda>ci. ci\<lparr>ci_savedpc := Some (cx_pc cx)\<rparr>)"

definition handleCall :: "vm_env \<Rightarrow> handler" where
  "handleCall E cx inst =
     (let a = GETARG_A inst; nArgs = GETARG_B inst - 1; nResults = GETARG_C inst - 1 in
      seqx (save_pc cx)
     (bind (precallWithNameResolver E a nArgs nResults (describe E cx a)) (\<lambda>isLua.
        if isLua then ret (HS_Reenter, cx\<lparr>cx_nexeccalls := cx_nexeccalls cx + 1\<rparr>)
        else bind (gets vm_status) (\<lambda>status.
          if status = TS_Yield then
            seqx (modify (\<lambda>s. s\<lparr>vm_savedNexeccalls := cx_nexeccalls cx\<rparr>)) (ret (HS_Yielded, cx))
          else
            bind getCurrentCallInfo (\<lambda>callerCI.
            seqx (on (0 \<le> nResults)
                    (seqx (on_stack (stack_setTop (ci_top callerCI))) (setAbsoluteTop (ci_top callerCI))))
                 (proceed cx))))))"

definition handleTailCall :: "vm_env \<Rightarrow> handler" where
  "handleTailCall E cx inst =
     (let a = GETARG_A inst; nArgs = GETARG_B inst - 1 in
      bind (gets vm_currentCI) (\<lambda>callerIndex.
      bind getCurrentCallInfo (\<lambda>currentCI.
      seqx (closeUpvalues (ci_base currentCI))
     (seqx (save_pc cx)
     (bind (precallWithNameResolver E a nArgs (-1) (describe E cx a)) (\<lambda>isLua.
        if isLua then
          seqx (reuseCurrentFrameForTailCall callerIndex (ci_func currentCI) (ci_tailcalls currentCI)) (ret (HS_Reenter, cx))
        else bind (gets vm_status) (\<lambda>status.
          if status = TS_Yield then
            seqx (modify (\<lambda>s. s\<lparr>vm_savedNexeccalls := cx_nexeccalls cx\<rparr>)) (ret (HS_Yielded, cx))
          else proceed cx)))))))"

definition pop_to :: "nat \<Rightarrow> unit exec" where
  "pop_to newTop = bind stack_size (\<lambda>size. for_each [newTop..<size]
     (\<lambda>_. on_stack (\<lambda>st. case stack_pop st of Done (_, st') \<Rightarrow> Done st' | Raise e \<Rightarrow> Raise e | Fault \<Rightarrow> Fault | Timeout \<Rightarrow> Timeout)))"

definition handleReturn :: handler where
  "handleReturn cx inst =
     (let a = GETARG_A inst; b = GETARG_B inst in
      bind getCurrentCallInfo (\<lambda>ci.
      seqx (closeUpvalues (ci_base ci))
     (bind (gets vm_top) (\<lambda>topIdx.
        let nres = (if b = 0 then int topIdx - (int (ci_base ci) + a) else b - 1);
            newTop = nat (int (ci_func ci) + nres);
            nexeccalls = cx_nexeccalls cx - 1;
            cx' = cx\<lparr>cx_nexeccalls := nexeccalls\<rparr>
        in seqx (for_each [0..nres - 1] (\<lambda>i.
              bind (read_reg (a + i)) (\<lambda>v. on_stack (stack_put_at (nat (int (ci_func ci) + i)) v))))
          (seqx (pop_to newTop)
          (seqx (setAbsoluteTop newTop)
          (if nexeccalls = 0 then ret (HS_Returned, cx')
           else seqx popCallInfo
               (seqx (postcall (ci_func ci) (ci_nresults ci) 0)
                     (ret (HS_Reenter, cx')))))))))) "

section \<open>Dispatch\<close>

type_synonym handler_table = "opcode \<Rightarrow> handler option"

text \<open>Each file of handlers fills in its entries of the table.\<close>

definition registerDataHandlers :: "handler_table \<Rightarrow> handler_table" where
  "registerDataHandlers tbl = tbl(
     OP_MOVE \<mapsto> handleMove, OP_LOADK \<mapsto> handleLoadK,
     OP_LOADBOOL \<mapsto> handleLoadBool, OP_LOADNIL \<mapsto> handleLoadNil)"

definition registerGlobalUpvalueHandlers :: "vm_env \<Rightarrow> call \<Rightarrow> handler_table \<Rightarrow> handler_table" where
  "registerGlobalUpvalueHandlers E call tbl = tbl(
     OP_GETGLOBAL \<mapsto> handleGetGlobal E call, OP_SETGLOBAL \<mapsto> handleSetGlobal E call,
     OP_GETUPVAL \<mapsto> handleGetUpval, OP_SETUPVAL \<mapsto> handleSetUpval)"

definition registerTableHandlers :: "vm_env \<Rightarrow> call \<Rightarrow> handler_table \<Rightarrow> handler_table" where
  "registerTableHandlers E call tbl = tbl(
     OP_GETTABLE \<mapsto> handleGetTable E call, OP_SETTABLE \<mapsto> handleSetTable E call,
     OP_NEWTABLE \<mapsto> handleNewTable, OP_SELF \<mapsto> handleSelf E call,
     OP_SETLIST \<mapsto> handleSetList E)"

definition registerArithmeticHandlers :: "vm_env \<Rightarrow> call \<Rightarrow> handler_table \<Rightarrow> handler_table" where
  "registerArithmeticHandlers E call tbl = tbl(
     OP_ADD \<mapsto> handleArithmetic E call, OP_SUB \<mapsto> handleArithmetic E call,
     OP_MUL \<mapsto> handleArithmetic E call, OP_DIV \<mapsto> handleArithmetic E call,
     OP_MOD \<mapsto> handleArithmetic E call, OP_POW \<mapsto> handleArithmetic E call)"

definition registerUnaryHandlers :: "vm_env \<Rightarrow> call \<Rightarrow> handler_table \<Rightarrow> handler_table" where
  "registerUnaryHandlers E call tbl = tbl(
     OP_UNM \<mapsto> handleUnaryMinus E call, OP_NOT \<mapsto> handleNot,
     OP_LEN \<mapsto> handleLength E call, OP_CONCAT \<mapsto> handleConcat E call)"

definition registerBranchHandlers :: "vm_env \<Rightarrow> call \<Rightarrow> handler_table \<Rightarrow> handler_table" where
  "registerBranchHandlers E call tbl = tbl(
     OP_JMP \<mapsto> handleJump, OP_EQ \<mapsto> handleComparison E call,
     OP_LT \<mapsto> handleComparison E call, OP_LE \<mapsto> handleComparison E call,
     OP_TEST \<mapsto> handleTest, OP_TESTSET \<mapsto> handleTestSet)"

definition registerLoopHandlers :: "vm_env \<Rightarrow> call \<Rightarrow> handler_table \<Rightarrow> handler_table" where
  "registerLoopHandlers E call tbl = tbl(
     OP_CLOSE \<mapsto> handleClose, OP_FORLOOP \<mapsto> handleForLoop,
     OP_FORPREP \<mapsto> handleForPrep E, OP_TFORLOOP \<mapsto> handleTForLoop call)"

definition registerClosureHandlers :: "handler_table \<Rightarrow> handler_table" where
  "registerClosureHandlers tbl = tbl(
     OP_CLOSURE \<mapsto> handleClosure, OP_VARARG \<mapsto> handleVararg)"

definition registerCallHandlers :: "vm_env \<Rightarrow> handler_table \<Rightarrow> handler_table" where
  "registerCallHandlers E tbl = tbl(
     OP_CALL \<mapsto> handleCall E, OP_TAILCALL \<mapsto> handleTailCall E,
     OP_RETURN \<mapsto> handleReturn)"

definition handlerTable :: "vm_env \<Rightarrow> call \<Rightarrow> handler_table" where
  "handlerTable E call =
     registerCallHandlers E (registerClosureHandlers (registerLoopHandlers E call (registerBranchHandlers E call
    (registerUnaryHandlers E call (registerArithmeticHandlers E call (registerTableHandlers E call
    (registerGlobalUpvalueHandlers E call (registerDataHandlers (\<lambda>_. None)))))))))"

definition handlerFor :: "vm_env \<Rightarrow> call \<Rightarrow> opcode option \<Rightarrow> handler option" where
  "handlerFor E call oc = (case oc of None \<Rightarrow> None | Some oc \<Rightarrow> handlerTable E call oc)"

definition runHandler :: "vm_env \<Rightarrow> call \<Rightarrow> handler" where
  "runHandler E call cx inst =
     (case handlerFor E call (GET_OPCODE inst) of
        None \<Rightarrow> throw (X_Runtime (''VM: no handler registered for opcode: '' @ getOpName (opcode_field inst)))
      | Some h \<Rightarrow> h cx inst)"

text \<open>The two back ends: the table of handlers, or a switch whose every case runs the handler.\<close>

definition dispatch :: "vm_env \<Rightarrow> call \<Rightarrow> handler" where
  "dispatch E call cx inst =
     (if e_backend E = BK_Table then runHandler E call cx inst
      else case GET_OPCODE inst of
        None \<Rightarrow> throw (X_Runtime (''VM: unsupported opcode: '' @ getOpName (opcode_field inst)))
      | Some _ \<Rightarrow> runHandler E call cx inst)"

text \<open>The entry of the loop: the running function, its code and counter from the current frame.\<close>

definition enter_frame :: "int \<Rightarrow> op_context exec" where
  "enter_frame nexeccalls =
     bind getCurrentCallInfo (\<lambda>ci.
     bind (gets vm_stack) (\<lambda>st.
       if sk_capacity st \<le> ci_func ci then throw (X_Runtime ''VM::executeProto: CallInfo.func out of range'')
       else bind (read_slot (ci_func ci)) (\<lambda>funcVal.
         case funcVal of
           VFunction fa \<Rightarrow>
             bind (function_of fa) (\<lambda>f.
             bind (deref (getProto f)) (\<lambda>prot.
               let requiredTop = ci_base ci + unat (pd_maxStackSize (proto_data prot)) in
               seqx (on (sk_capacity st < requiredTop) (on_stack (checkSpace (requiredTop - sk_top st))))
              (seqx (push_nils_to requiredTop)
              (ret \<lparr>cx_function = fa, cx_proto = prot, cx_pc = (case ci_savedpc ci of Some pc \<Rightarrow> pc | None \<Rightarrow> 0),
                   cx_instructionPc = 0, cx_nexeccalls = nexeccalls\<rparr>))))
         | _ \<Rightarrow> throw (X_Runtime ''VM::executeProto: CallInfo.func is not a function''))))"

text \<open>One turn of the loop; \<open>again\<close> is the rest of the loop.\<close>

definition turn :: "vm_env \<Rightarrow> call \<Rightarrow> (op_context \<Rightarrow> exec_result exec) \<Rightarrow> op_context \<Rightarrow> exec_result exec" where
  "turn E call again cx =
     (let inst = context_code cx ! cx_pc cx;
          cx1 = cx\<lparr>cx_instructionPc := cx_pc cx, cx_pc := cx_pc cx + 1\<rparr>
      in seqx (save_pc cx1)
        (bind (dispatch E call cx1 inst) (\<lambda>(status, cx2).
           case status of
             HS_Continue \<Rightarrow> again cx2
           | HS_Reenter \<Rightarrow> bind (enter_frame (cx_nexeccalls cx2)) again
           | HS_Yielded \<Rightarrow> ret ER_Yielded
           | HS_Returned \<Rightarrow> ret ER_Returned)))"

definition loop_step :: "vm_env \<Rightarrow> call \<Rightarrow> (op_context \<Rightarrow> exec_result exec) \<Rightarrow> op_context \<Rightarrow> exec_result exec" where
  "loop_step E call again cx =
     (if length (context_code cx) \<le> cx_pc cx then ret ER_Returned
      else seqx (enforceExecutionPolicy E) (turn E call again cx))"

definition execute_with :: "(op_context \<Rightarrow> exec_result exec) \<Rightarrow> int \<Rightarrow> exec_result exec" where
  "execute_with loop nexeccalls =
     (if int MAX_CALLS \<le> nexeccalls
      then throw (X_StackOverflow ''VM: stack overflow (too many nested calls)'')
      else bind (enter_frame nexeccalls) loop)"

text \<open>The machine: the loop calls \<open>VM::call\<close> for metamethods and iterators, which runs the loop again.
  The fuel bounds the turns of a loop and the nesting; without fuel the outcome is \<open>Timeout\<close>.\<close>

fun vm_call :: "vm_env \<Rightarrow> nat \<Rightarrow> call" and run_loop :: "vm_env \<Rightarrow> nat \<Rightarrow> op_context \<Rightarrow> exec_result exec" where
  "vm_call E 0 = (\<lambda>nargs nresults s. (Timeout, s))"
| "vm_call E (Suc n) = call_entry E (execute_with (run_loop E n) 1)"
| "run_loop E 0 = (\<lambda>cx s. (Timeout, s))"
| "run_loop E (Suc n) = loop_step E (vm_call E n) (run_loop E n)"

definition executeProto :: "vm_env \<Rightarrow> nat \<Rightarrow> int \<Rightarrow> exec_result exec" where
  "executeProto E fuel nexeccalls = execute_with (run_loop E fuel) nexeccalls"

end
