(* ===== verification/TableCounts.thy ===== *)
theory TableCounts
  imports TableProps
begin

text \<open>
  What the probe loops of a table need in order to end, whatever the keys are: the number of slots is
  a power of two, the counters agree with the slots, and a slot stays empty. Every operation on a
  table returns from such a table and leaves such a table. Nothing is asked of the keys, so the
  machine keeps the condition without knowing the values it handles.
\<close>

definition counts_ok :: "lua_table \<Rightarrow> bool" where
  "counts_ok t \<longleftrightarrow>
     (if tb_nodes t = [] then tb_live t = 0 \<and> tb_used t = 0
      else pow2_size (length (tb_nodes t)) \<and> tb_live t = count_live (tb_nodes t) \<and>
        tb_used t = count_used (tb_nodes t) \<and>
        tb_used t \<le> length (tb_nodes t) - length (tb_nodes t) div 4 \<and>
        length (tb_nodes t) \<le> 2 ^ 63)"

lemma counts_okD:
  assumes "counts_ok t" "tb_nodes t \<noteq> []"
  shows "pow2_size (length (tb_nodes t))" "tb_live t = count_live (tb_nodes t)"
    "tb_used t = count_used (tb_nodes t)"
    "tb_used t \<le> length (tb_nodes t) - length (tb_nodes t) div 4" "length (tb_nodes t) \<le> 2 ^ 63"
    "tb_live t \<le> tb_used t" "8 \<le> length (tb_nodes t)"
  using assms count_live_le_used pow2_size_pos by (auto simp: counts_ok_def)

lemma counts_ok_cong [simp]: "counts_ok (t\<lparr>tb_array := a\<rparr>) = counts_ok t"
  "counts_ok (t\<lparr>tb_flags := f\<rparr>) = counts_ok t" "counts_ok (t\<lparr>tb_metatable := m\<rparr>) = counts_ok t"
  by (simp_all add: counts_ok_def)

lemma counts_ok_new [simp]: "counts_ok new_table"
  by (simp add: counts_ok_def new_table_def)

lemma counts_find:
  assumes "counts_ok t" "findHashNode H t key d = Some i"
  shows "tb_nodes t \<noteq> []" "slot_matches (tb_nodes t) key d i"
proof -
  show ne: "tb_nodes t \<noteq> []" using assms(2) by (auto simp: findHashNode_def)
  have size: "pow2_size (length (tb_nodes t))" using counts_okD(1) [OF assms(1) ne] .
  have "ValueHash H key AND (length (tb_nodes t) - 1) < length (tb_nodes t)"
    using size ne by (auto simp: and_size_mask intro!: mod_less_divisor)
  then show "slot_matches (tb_nodes t) key d i"
    using find_loop_Some [OF size] assms(2) ne by (auto simp: findHashNode_def Let_def)
qed

text \<open>Writing a slot that stays used.\<close>

lemma counts_write:
  assumes ok: "counts_ok t" and i: "i < length (tb_nodes t)" and used: "\<not> slot_free (tb_nodes t) i"
    and n: "hn_state n \<noteq> NS_Empty" and
    live: "l + (if slot_live (tb_nodes t) i then 1 else 0) = tb_live t + (if hn_state n = NS_Live then 1 else 0)"
  shows "counts_ok (t\<lparr>tb_nodes := (tb_nodes t)[i := n], tb_live := l\<rparr>)"
proof -
  have ne: "tb_nodes t \<noteq> []" using i by auto
  note d = counts_okD [OF ok ne]
  show ?thesis
    using d ne live count_live_update [OF i, of n] count_used_update [OF i, of n] used n
    by (auto simp: counts_ok_def)
qed

lemma counts_removeHash:
  assumes ok: "counts_ok t" shows "counts_ok (removeHash H t key)"
proof (cases "findHashNode H t key False")
  case None
  then show ?thesis using ok by (simp add: removeHash_def)
next
  case (Some i)
  note m = counts_find [OF ok Some]
  then have live: "slot_live (tb_nodes t) i" "i < length (tb_nodes t)" by (auto simp: slot_matches_def)
  have "0 < count_live (tb_nodes t)"
    using count_live_update [OF live(2), of "(tb_nodes t ! i)\<lparr>hn_state := NS_Dead\<rparr>"] live(1) by simp
  then have "0 < tb_live t" using counts_okD(2) [OF ok m(1)] by simp
  then show ?thesis
    using counts_write [OF ok live(2)] live(1) Some by (simp add: removeHash_def)
qed

lemma rehash_copy_counts:
  assumes "pow2_size (length repl)" "no_dead repl"
    "count_used repl + length (live_nodes olds) < length repl"
  shows "\<exists>repl'. rehash_copy olds repl = Some repl' \<and> no_dead repl' \<and> length repl' = length repl \<and>
    count_used repl' = count_used repl + length (live_nodes olds)"
  using assms
proof (induction olds arbitrary: repl)
  case Nil
  then show ?case by (simp add: live_nodes_def)
next
  case (Cons old olds)
  show ?case
  proof (cases "hn_state old = NS_Live")
    case False
    then have "live_nodes (old # olds) = live_nodes olds" by (auto simp: live_nodes_def)
    then show ?thesis using Cons.IH [of repl] Cons.prems False by simp
  next
    case True
    then have ln: "live_nodes (old # olds) = old # live_nodes olds" by (simp add: live_nodes_def)
    have room: "count_used repl < length repl" using Cons.prems(3) by linarith
    obtain i where i: "rehash_probe repl (at_offset repl (hn_hash old) 0) = Some i"
      "i < length repl" "slot_free repl i"
      using rehash_probe_spec [OF Cons.prems(1) room Cons.prems(2)] by metis
    have nd: "no_dead (repl[i := old])"
      using Cons.prems(2) True i(2) by (auto simp: no_dead_def nth_list_update)
    have used: "count_used (repl[i := old]) = Suc (count_used repl)"
      using count_used_update [OF i(2), of old] i(3) True by simp
    have step: "rehash_copy (old # olds) repl = rehash_copy olds (repl[i := old])"
      using True i(1) and_size_mask [OF Cons.prems(1), of "hn_hash old"] by (simp add: at_offset_def)
    show ?thesis
      using Cons.IH [of "repl[i := old]"] Cons.prems nd used ln unfolding step by simp
  qed
qed

definition has_room :: "lua_table \<Rightarrow> bool" where
  "has_room t \<longleftrightarrow> counts_ok t \<and> tb_nodes t \<noteq> [] \<and>
     tb_used t + 1 \<le> length (tb_nodes t) - length (tb_nodes t) div 4"

lemma rehash_counts:
  assumes ok: "counts_ok t" and n: "pow2_size n" "n \<le> 2 ^ 63" "tb_live t < n - n div 4"
  shows "\<exists>t'. rehash n t = Some (Inr t') \<and> has_room t'"
proof -
  have live: "length (live_nodes (tb_nodes t)) = tb_live t"
    using ok counts_okD(2) [OF ok] by (cases "tb_nodes t = []")
      (auto simp: counts_ok_def count_live_nodes live_nodes_def)
  have "n - n div 4 \<le> n" by simp
  then have room: "count_used (replicate n empty_node) + length (live_nodes (tb_nodes t)) <
    length (replicate n empty_node)"
    using n(3) by (simp only: empty_nodes(3) [OF n(1)] live length_replicate)
  have size: "pow2_size (length (replicate n empty_node))" using n(1) by simp
  obtain r where r: "rehash_copy (tb_nodes t) (replicate n empty_node) = Some r"
    "no_dead r" "length r = n" "count_used r = tb_live t"
    using rehash_copy_counts [OF size empty_nodes(2) [OF n(1)] room]
    unfolding empty_nodes(3) [OF n(1)] live by auto
  have "count_live r = count_used r"
    using r(2) unfolding count_live_def count_used_def no_dead_def
    by (metis (no_types, lifting) node_state.exhaust node_state.distinct(1))
  then have "has_room (t\<lparr>tb_nodes := r, tb_used := tb_live t\<rparr>)"
    using r n pow2_size_pos [OF n(1)] by (auto simp: has_room_def counts_ok_def)
  then show ?thesis
    using r capacity_loop_size [OF n(1,2)] by (simp add: rehash_def)
qed

lemma ensure_counts:
  assumes ok: "counts_ok t"
  shows "(\<exists>t'. ensureHashInsertCapacity t = Some (Inr t') \<and> has_room t') \<or>
    (\<exists>e. ensureHashInsertCapacity t = Some (Inl e))"
proof (cases "tb_nodes t = []")
  case True
  then have "tb_live t = 0" using ok by (simp add: counts_ok_def)
  then show ?thesis
    using rehash_counts [OF ok pow2_size_8] True by (simp add: ensureHashInsertCapacity_def)
next
  case False
  let ?N = "length (tb_nodes t)"
  note d = counts_okD [OF ok False]
  have ens: "ensureHashInsertCapacity t =
    (if tb_used t + 1 \<le> ?N - ?N div 4 then Some (Inr t)
     else if tb_live t * 2 < tb_used t then rehash ?N t
     else if usize_max div 2 < ?N then Some (Inl TE_BadLength) else rehash (?N * 2) t)"
    using False by (simp add: ensureHashInsertCapacity_def Let_def)
  consider "tb_used t + 1 \<le> ?N - ?N div 4"
    | "\<not> tb_used t + 1 \<le> ?N - ?N div 4" "tb_live t * 2 < tb_used t"
    | "\<not> tb_used t + 1 \<le> ?N - ?N div 4" "\<not> tb_live t * 2 < tb_used t" "usize_max div 2 < ?N"
    | "\<not> tb_used t + 1 \<le> ?N - ?N div 4" "\<not> tb_live t * 2 < tb_used t" "\<not> usize_max div 2 < ?N"
    by blast
  then show ?thesis
  proof cases
    case 1
    then show ?thesis using ok False by (simp add: ens has_room_def)
  next
    case 2
    then have "tb_live t < ?N - ?N div 4" using d(4) by linarith
    then show ?thesis using rehash_counts [OF ok d(1) d(5)] 2 by (simp add: ens)
  next
    case 3
    then show ?thesis by (simp add: ens)
  next
    case 4
    have "tb_live t < ?N * 2 - (?N * 2) div 4" using d(4,6,7) by linarith
    then show ?thesis
      using rehash_counts [OF ok pow2_size_double [OF d(1)] pow2_size_le [OF d(1) d(5) 4(3)]] 4
      by (simp add: ens)
  qed
qed

text \<open>A new entry in a slot that is not live.\<close>

lemma counts_insert:
  assumes room: "has_room t" and i: "i < length (tb_nodes t)" "\<not> slot_live (tb_nodes t) i"
    and n: "hn_state n = NS_Live"
  shows "counts_ok (t\<lparr>tb_nodes := (tb_nodes t)[i := n], tb_live := tb_live t + 1,
    tb_used := (if slot_free (tb_nodes t) i then tb_used t + 1 else tb_used t)\<rparr>)"
proof -
  have r: "counts_ok t" "tb_nodes t \<noteq> []" "tb_used t + 1 \<le> length (tb_nodes t) - length (tb_nodes t) div 4"
    using room by (auto simp: has_room_def)
  note d = counts_okD [OF r(1,2)]
  show ?thesis
    using d r(2,3) count_live_update [OF i(1), of n] count_used_update [OF i(1), of n] i(2) n
    by (auto simp: counts_ok_def)
qed

lemma setHash_counts:
  assumes ok: "counts_ok t"
  shows "(\<exists>t'. setHash H rp t key val = Some (Inr t') \<and> counts_ok t') \<or>
    (\<exists>e. setHash H rp t key val = Some (Inl e))"
proof (cases "findHashNode H t key True")
  case (Some i)
  note m = counts_find [OF ok Some]
  then have i: "i < length (tb_nodes t)" "\<not> slot_free (tb_nodes t) i" by (auto simp: slot_matches_def)
  have live: "counts_ok (t\<lparr>tb_nodes := (tb_nodes t)[i := (tb_nodes t ! i)\<lparr>hn_value := val\<rparr>]\<rparr>)"
    if "slot_live (tb_nodes t) i"
    using counts_write [OF ok i, of "(tb_nodes t ! i)\<lparr>hn_value := val\<rparr>" "tb_live t"] that by simp
  have dead: "counts_ok (t\<lparr>tb_nodes := (tb_nodes t)[i := (tb_nodes t ! i)\<lparr>hn_value := val, hn_state := NS_Live\<rparr>],
      tb_live := tb_live t + 1\<rparr>)" if "\<not> slot_live (tb_nodes t) i"
    using counts_write [OF ok i, of "(tb_nodes t ! i)\<lparr>hn_value := val, hn_state := NS_Live\<rparr>" "tb_live t + 1"] that
    by simp
  show ?thesis using Some live dead by (simp add: setHash_def)
next
  case None
  from ensure_counts [OF ok] show ?thesis
  proof
    assume "\<exists>e. ensureHashInsertCapacity t = Some (Inl e)"
    then show ?thesis using None by (auto simp: setHash_def)
  next
    assume "\<exists>t'. ensureHashInsertCapacity t = Some (Inr t') \<and> has_room t'"
    then obtain t' where t': "ensureHashInsertCapacity t = Some (Inr t')" "has_room t'" by blast
    have ok': "counts_ok t'" "tb_nodes t' \<noteq> []" using t'(2) by (auto simp: has_room_def)
    note size = counts_okD(1) [OF ok']
    have "count_used (tb_nodes t') < length (tb_nodes t')"
      using t'(2) counts_okD(3,7) [OF ok'] by (auto simp: has_room_def)
    then obtain i fd where i: "insert_probe (tb_nodes t') (at_offset (tb_nodes t') (ValueHash H key) 0) None = Some (i, fd)"
      "i < length (tb_nodes t')" "\<not> slot_live (tb_nodes t') i" "fd = None \<longleftrightarrow> slot_free (tb_nodes t') i"
      by (rule insert_probe_spec [OF size])
    have "insert_probe (tb_nodes t') (ValueHash H key AND (length (tb_nodes t') - Suc 0)) None = Some (i, fd)"
      using i(1) and_size_mask [OF size] by (simp add: at_offset_def)
    then show ?thesis
      using None t'(1) counts_insert [OF t'(2) i(2,3)] i(4) by (simp add: setHash_def Let_def)
  qed
qed

lemma counts_setArrayRange:
  assumes "counts_ok t" "setArrayRange H rp t i vs = Inr t'"
  shows "counts_ok t'"
proof -
  have loop: "counts_ok t \<Longrightarrow> counts_ok (setArrayRange_loop H slot vs t)" for slot vs t
    by (induction vs arbitrary: slot t) (simp_all add: counts_removeHash)
  show ?thesis
    using assms by (auto simp: setArrayRange_def Let_def loop split: if_splits)
qed

lemma counts_table_set:
  assumes ok: "counts_ok t"
  shows "(\<exists>t'. table_set H rp t key val = Some (Inr t') \<and> counts_ok t') \<or>
    (\<exists>e. table_set H rp t key val = Some (Inl e))"
proof -
  have ok1: "counts_ok (t\<lparr>tb_flags := 0\<rparr>)" using ok by simp
  have rem: "counts_ok (table_remove H (t\<lparr>tb_flags := 0\<rparr>) key)"
    using ok by (auto simp: table_remove_def Let_def split: option.splits if_splits intro!: counts_removeHash)
  have arr: "setArray H rp (t\<lparr>tb_flags := 0\<rparr>) i val = Inr t' \<Longrightarrow> counts_ok t'" for i t'
    using ok1 counts_setArrayRange [OF ok1]
    by (auto simp: setArray_def counts_removeHash split: if_splits)
  show ?thesis
    using rem setHash_counts [OF ok1] arr
    by (auto simp: table_set_def Let_def split: option.splits lua_value.splits sum.splits)
       (metis sum.exhaust)+
qed

lemma table_set_returns: "counts_ok t \<Longrightarrow> table_set H rp t key val \<noteq> None"
  and table_set_counts: "counts_ok t \<Longrightarrow> table_set H rp t key val = Some (Inr t') \<Longrightarrow> counts_ok t'"
  using counts_table_set [of t H rp key val] by auto

end
