(* ===== verification/ExecFrame.thy ===== *)
theory ExecFrame
  imports VMHandlers TableCounts
begin

text \<open>
  What every program of the machine does to the state it does not own. The locale \<open>exec_frame\<close> asks
  of a relation between states that the few operations on shared state (interning, allocating,
  storing a table, charging a budget) are steps of it; it then gives, for every operation, handler and
  the loop, one lemma: run with two versions of \<open>VM::call\<close>, of which the second answers whenever the
  first does, it stays inside the relation, and the second run repeats the first if that one ended.
  Three interpretations read it as: more fuel changes nothing, budgets only go down and the machine
  stops, objects keep their addresses.
\<close>

section \<open>Steps of the thread alone\<close>

definition thread_step :: "vm \<Rightarrow> vm \<Rightarrow> bool" where
  "thread_step s s' \<longleftrightarrow> vm_globalTable s' = vm_globalTable s \<and> vm_strings s' = vm_strings s \<and>
     vm_tables s' = vm_tables s \<and> vm_functions s' = vm_functions s \<and> vm_userdata s' = vm_userdata s \<and>
     vm_metatables s' = vm_metatables s \<and> vm_policy s' = vm_policy s \<and> vm_resources s' = vm_resources s \<and>
     vm_polls s' = vm_polls s \<and> length (vm_upvalues s) \<le> length (vm_upvalues s')"

lemma thread_step_simps [simp]:
  "thread_step s s"
  "thread_step s (s\<lparr>vm_stack := st\<rparr>)" "thread_step s (s\<lparr>vm_top := n\<rparr>)"
  "thread_step s (s\<lparr>vm_callStack := cs\<rparr>)" "thread_step s (s\<lparr>vm_currentCI := n\<rparr>)"
  "thread_step s (s\<lparr>vm_callStack := cs, vm_currentCI := n\<rparr>)"
  "thread_step s (s\<lparr>vm_openUpvalues := os\<rparr>)" "thread_step s (s\<lparr>vm_hostCallDepth := n\<rparr>)"
  "thread_step s (s\<lparr>vm_savedNexeccalls := z\<rparr>)" "thread_step s (s\<lparr>vm_status := ts\<rparr>)"
  "thread_step s (s\<lparr>vm_upvalues := (vm_upvalues s)[i := u]\<rparr>)"
  "thread_step s (s\<lparr>vm_upvalues := vm_upvalues s @ us, vm_openUpvalues := os\<rparr>)"
  by (simp_all add: thread_step_def)

text \<open>No stack operation waits.\<close>

lemma stack_outcomes [simp]:
  "stack_index i st \<noteq> Timeout" "stack_put_index i v st \<noteq> Timeout" "stack_at i st \<noteq> Timeout"
  "stack_put_at i v st \<noteq> Timeout" "stack_setTop n st \<noteq> Timeout" "ensureSpace n st \<noteq> Timeout"
  "checkSpace n st \<noteq> Timeout" "checkLimit n st \<noteq> Timeout" "stack_push v st \<noteq> Timeout"
  "stack_pop st \<noteq> Timeout"
proof -
  show e: "ensureSpace n st \<noteq> Timeout" for n st by (simp add: ensureSpace_def Let_def)
  show c: "checkSpace n st \<noteq> Timeout" for n st using e by (simp add: checkSpace_def Let_def)
  show "stack_push v st \<noteq> Timeout"
    using c [of 1 st] by (auto simp: stack_push_def pushUnchecked_def split: outcome.splits)
qed (simp_all add: stack_index_def stack_put_index_def stack_at_def stack_put_at_def stack_setTop_def
    checkLimit_def stack_pop_def Let_def)

section \<open>The locale\<close>

locale exec_frame =
  fixes le :: "vm \<Rightarrow> vm \<Rightarrow> bool" and ok :: "vm \<Rightarrow> bool" and waits :: bool and E :: vm_env
  assumes le_refl: "le s s"
    and le_trans: "le s s' \<Longrightarrow> le s' s'' \<Longrightarrow> le s s''"
    and ok_le: "ok s \<Longrightarrow> le s s' \<Longrightarrow> ok s'"
    and le_thread: "thread_step s s' \<Longrightarrow> le s s'"
    and le_intern: "le s (s\<lparr>vm_strings := snd (intern_pool x (vm_strings s))\<rparr>)"
    and le_new_table: "le s (s\<lparr>vm_tables := vm_tables s @ [new_table]\<rparr>)"
    and le_put_table: "waits \<or> counts_ok t \<Longrightarrow> le s (s\<lparr>vm_tables := (vm_tables s)[a := t]\<rparr>)"
    and le_new_function: "le s (s\<lparr>vm_functions := vm_functions s @ [f]\<rparr>)"
    and le_put_function: "lookup (vm_functions s) a = Some f \<Longrightarrow> fn_kind f' = fn_kind f \<Longrightarrow>
      le s (s\<lparr>vm_functions := (vm_functions s)[a := f']\<rparr>)"
    and le_instruction: "le s (snd (enforceExecutionPolicy E s))"
    and le_work: "le s (snd (consumeNativeWork E n s))"
    and tables_ok: "ok s \<Longrightarrow> lookup (vm_tables s) a = Some t \<Longrightarrow> waits \<or> counts_ok t"
begin

definition sim :: "'a exec \<Rightarrow> 'a exec \<Rightarrow> bool" where
  "sim m m' \<longleftrightarrow> (\<forall>s. ok s \<longrightarrow> le s (snd (m s)) \<and> (fst (m s) = Timeout \<longrightarrow> waits) \<and>
     (fst (m s) \<noteq> Timeout \<longrightarrow> m' s = m s))"

named_theorems sims

lemma simI: "(\<And>s r s'. ok s \<Longrightarrow> m s = (r, s') \<Longrightarrow> le s s' \<and> (r = Timeout \<longrightarrow> waits) \<and> (r \<noteq> Timeout \<longrightarrow> m' s = (r, s'))) \<Longrightarrow> sim m m'"
  unfolding sim_def by (metis prod.collapse)

lemma simD:
  assumes "sim m m'" "ok s" "m s = (r, s')"
  shows "le s s'" "ok s'" "r = Timeout \<Longrightarrow> waits" "r \<noteq> Timeout \<Longrightarrow> m' s = (r, s')"
  using assms ok_le by (auto simp: sim_def)

lemma sim_thread:
  assumes "\<And>s. thread_step s (snd (m s))" "\<And>s. fst (m s) \<noteq> Timeout"
  shows "sim m m"
  using assms le_thread by (auto simp: sim_def)

lemma sim_bind_result:
  assumes "sim m m'" "\<And>x s s'. ok s \<Longrightarrow> m s = (Done x, s') \<Longrightarrow> sim (f x) (f' x)"
  shows "sim (bind m f) (bind m' f')"
proof (rule simI)
  fix s r s' assume s: "ok s" and b: "bind m f s = (r, s')"
  obtain q s1 where m: "m s = (q, s1)" by (cases "m s")
  note d = simD [OF assms(1) s m]
  show "le s s' \<and> (r = Timeout \<longrightarrow> waits) \<and> (r \<noteq> Timeout \<longrightarrow> bind m' f' s = (r, s'))"
  proof (cases q)
    case (Done x)
    have f: "f x s1 = (r, s')" using b m Done by (simp add: bind_def)
    note d' = simD [OF assms(2) [OF s m [unfolded Done]] d(2) f]
    show ?thesis using d d' Done le_trans by (auto simp: bind_def)
  qed (use b m d in \<open>auto simp: bind_def\<close>)
qed

lemma sim_bind [sims]: "sim m m' \<Longrightarrow> (\<And>x. sim (f x) (f' x)) \<Longrightarrow> sim (bind m f) (bind m' f')"
  by (rule sim_bind_result)

lemma sim_basic [sims]: "sim (ret x) (ret x)" "sim (throw e) (throw e)" "sim fault fault" "sim (gets g) (gets g)"
  by (auto simp: sim_def ret_def throw_def fault_def gets_def le_refl)

lemma sim_raw [sims]: "sim (\<lambda>s. (Fault, s)) (\<lambda>s. (Fault, s))" "sim (\<lambda>s. (Done (g s), s)) (\<lambda>s. (Done (g s), s))"
  by (auto simp: sim_def le_refl)

lemma sim_if_state [sims]: "sim m m' \<Longrightarrow> sim k k' \<Longrightarrow>
  sim (\<lambda>s. if b s then m s else k s) (\<lambda>s. if b s then m' s else k' s)"
  by (simp add: sim_def)

lemma sim_if [sims]: "(b \<Longrightarrow> sim m m') \<Longrightarrow> (\<not> b \<Longrightarrow> sim k k') \<Longrightarrow> sim (if b then m else k) (if b then m' else k')"
  by simp

lemma sim_let [sims]: "(\<And>x. sim (f x) (f' x)) \<Longrightarrow> sim (let x = a in f x) (let x = a in f' x)"
  by simp

lemma sim_on [sims]: "sim m m' \<Longrightarrow> sim (on b m) (on b m')"
  unfolding on_def by (intro sims)

lemma sim_deref [sims]: "sim (deref p) (deref p)"
  unfolding deref_def by (cases p) (simp_all add: sims)

lemma sim_option [sims]: "(v = None \<Longrightarrow> sim m m') \<Longrightarrow> (\<And>x. v = Some x \<Longrightarrow> sim (f x) (f' x)) \<Longrightarrow>
  sim (case v of None \<Rightarrow> m | Some x \<Rightarrow> f x) (case v of None \<Rightarrow> m' | Some x \<Rightarrow> f' x)"
  by (cases v) simp_all

lemma sim_prod [sims]: "(\<And>x y. v = (x, y) \<Longrightarrow> sim (f x y) (f' x y)) \<Longrightarrow>
  sim (case v of (x, y) \<Rightarrow> f x y) (case v of (x, y) \<Rightarrow> f' x y)"
  by (cases v) simp

lemma sim_kind [sims]: "(\<And>p. sim (f p) (f' p)) \<Longrightarrow> (\<And>n. sim (g n) (g' n)) \<Longrightarrow>
  sim (case v of LuaFunction p \<Rightarrow> f p | CFunction n \<Rightarrow> g n) (case v of LuaFunction p \<Rightarrow> f' p | CFunction n \<Rightarrow> g' n)"
  by (cases v) simp_all

lemma sim_value [sims]:
  assumes "sim n n'" "\<And>b. sim (fb b) (fb' b)" "\<And>x. sim (fl x) (fl' x)" "\<And>x. sim (fn x) (fn' x)"
    "\<And>x. sim (fs x) (fs' x)" "\<And>x. sim (ft x) (ft' x)" "\<And>x. sim (ff x) (ff' x)" "\<And>x. sim (fu x) (fu' x)"
    "\<And>x. sim (fth x) (fth' x)"
  shows "sim (case_lua_value n fb fl fn fs ft ff fu fth v) (case_lua_value n' fb' fl' fn' fs' ft' ff' fu' fth' v)"
  using assms by (cases v) simp_all

lemma sim_for_each [sims]: "(\<And>x. sim (f x) (f' x)) \<Longrightarrow> sim (for_each xs f) (for_each xs f')"
  by (induction xs) (simp_all add: sims)

lemma sim_catch [sims]:
  assumes "sim m m'" "\<And>e. sim (h e) (h' e)" shows "sim (catch m h) (catch m' h')"
proof (rule simI)
  fix s r s' assume s: "ok s" and c: "catch m h s = (r, s')"
  obtain q s1 where m: "m s = (q, s1)" by (cases "m s")
  note d = simD [OF assms(1) s m]
  show "le s s' \<and> (r = Timeout \<longrightarrow> waits) \<and> (r \<noteq> Timeout \<longrightarrow> catch m' h' s = (r, s'))"
  proof (cases q)
    case (Raise e)
    have f: "h e s1 = (r, s')" using c m Raise by (simp add: catch_def)
    note d' = simD [OF assms(2) d(2) f]
    show ?thesis using d d' Raise le_trans by (auto simp: catch_def)
  qed (use c m d in \<open>auto simp: catch_def\<close>)
qed

lemma sim_on_stack [sims]: "(\<And>st. f st \<noteq> Timeout) \<Longrightarrow> sim (on_stack f) (on_stack f)"
  by (rule sim_thread) (auto simp: on_stack_def split: outcome.splits intro: thread_step_simps)

lemma sim_of_stack [sims]: "(\<And>st. f st \<noteq> Timeout) \<Longrightarrow> sim (of_stack f) (of_stack f)"
  by (auto simp: sim_def of_stack_def le_refl)

lemma sim_modify: "(\<And>s. thread_step s (g s)) \<Longrightarrow> sim (modify g) (modify g)"
  by (rule sim_thread) (simp_all add: modify_def)

section \<open>Operations of the state\<close>

lemma sim_state [sims]:
  "sim getCurrentCallInfo getCurrentCallInfo" "sim (update_ci c) (update_ci c)" "sim pushCallInfo pushCallInfo"
  "sim popCallInfo popCallInfo" "sim enterHostCall enterHostCall" "sim (findOrCreateUpvalue i) (findOrCreateUpvalue i)"
  by (rule sim_thread; auto simp: getCurrentCallInfo_def update_ci_def pushCallInfo_def popCallInfo_def
      enterHostCall_def findOrCreateUpvalue_def Let_def split: prod.splits)+

lemma sim_slots [sims]:
  "sim (read_slot i) (read_slot i)" "sim (write_slot i v) (write_slot i v)" "sim (push_nils_to n) (push_nils_to n)"
  "sim (setAbsoluteTop n) (setAbsoluteTop n)"
  unfolding read_slot_def write_slot_def push_nils_to_def setAbsoluteTop_def
  by (intro sims sim_modify stack_outcomes thread_step_simps)+

lemma sim_pushValue [sims]: "sim (pushValue v) (pushValue v)"
  unfolding pushValue_def by (intro sims stack_outcomes)

lemma sim_objects [sims]: "sim (string_of a) (string_of a)" "sim (table_of a) (table_of a)"
  "sim (function_of a) (function_of a)" "sim (upvalue_of a) (upvalue_of a)"
  unfolding string_of_def table_of_def function_of_def upvalue_of_def by (intro sims)+

lemma sim_put_upvalue [sims]: "sim (put_upvalue a u) (put_upvalue a u)"
  unfolding put_upvalue_def by (intro sim_modify thread_step_simps)

lemma sim_table_of: "(\<And>t. waits \<or> counts_ok t \<Longrightarrow> sim (f t) (f' t)) \<Longrightarrow> sim (bind (table_of a) f) (bind (table_of a) f')"
  using tables_ok
  by (intro sim_bind_result sims)
    (auto simp: table_of_def bind_def gets_def deref_def ret_def fault_def split: option.splits)

lemma sim_put_table: "waits \<or> counts_ok t \<Longrightarrow> sim (put_table a t) (put_table a t)"
  by (auto simp: sim_def put_table_def modify_def intro: le_put_table)

lemma sim_intern [sims]: "sim (intern x) (intern x)"
  using le_intern [of _ x] by (auto simp: sim_def intern_def le_refl case_prod_beta)

lemma sim_create [sims]: "sim create_table create_table" "sim (create_function p) (create_function p)"
  by (auto simp: sim_def create_table_def create_function_def le_new_table le_new_function)

lemma sim_update_function:
  "(\<And>f. fn_kind (g f) = fn_kind f) \<Longrightarrow> sim (bind (function_of a) (\<lambda>f. put_function a (g f))) (bind (function_of a) (\<lambda>f. put_function a (g f)))"
  by (auto simp: sim_def function_of_def put_function_def bind_def gets_def deref_def ret_def fault_def modify_def
      split: option.splits intro: le_refl le_put_function)

lemma sim_function_fields [sims]: "sim (addUpvalue fa ua) (addUpvalue fa ua)" "sim (setEnv fa e) (setEnv fa e)"
  unfolding addUpvalue_def setEnv_def by (rule sim_update_function; simp)+

lemma sim_upvalues [sims]: "sim (upvalue_getValue a) (upvalue_getValue a)"
  "sim (upvalue_setValue a v) (upvalue_setValue a v)" "sim (upvalue_close a) (upvalue_close a)"
  unfolding upvalue_getValue_def upvalue_setValue_def upvalue_close_def by (intro sims)+

lemma sim_closeUpvalues [sims]: "sim (closeUpvalues level) (closeUpvalues level)"
proof -
  have "sim (close_loop level us) (close_loop level us)" for us
    by (induction us) (simp_all, (intro sims sim_modify thread_step_simps)+)
  then show ?thesis unfolding closeUpvalues_def by (intro sims)
qed

lemma sim_charges [sims]: "sim (enforceExecutionPolicy E) (enforceExecutionPolicy E)"
  "sim (consumeNativeWork E n) (consumeNativeWork E n)"
  using le_instruction le_work
  by (auto simp: sim_def enforceExecutionPolicy_def consumeNativeWork_def Let_def split: prod.splits)

section \<open>Metamethods and tables\<close>

lemma sim_getMetamethod [sims]: "sim (getMetamethod E mt ev) (getMetamethod E mt ev)"
  unfolding getMetamethod_def by (intro sims sim_table_of sim_put_table) simp

lemma sim_metatable_of [sims]: "sim (metatable_of v) (metatable_of v)"
  unfolding metatable_of_def by (intro sims)

lemma sim_lookups [sims]: "sim (getMetamethodByObject E v ev) (getMetamethodByObject E v ev)"
  "sim (fastMetamethod E mt ev) (fastMetamethod E mt ev)"
  unfolding getMetamethodByObject_def fastMetamethod_def by (intro sims)+

lemma sim_restored [sims]:
  assumes "\<And>n. sim (body n) (body' n)"
  shows "sim (with_restored_stack body) (with_restored_stack body')"
  unfolding with_restored_stack_def restoreStack_def by (intro sims stack_outcomes assms)

lemma sim_heap [sims]: "sim (heap_get E a k) (heap_get E a k)" "sim (heap_set E a k v) (heap_set E a k v)"
proof -
  show "sim (heap_get E a k) (heap_get E a k)" unfolding heap_get_def by (intro sims)
  have tab: "sim (case table_set (e_hash E) rp t k v of None \<Rightarrow> (\<lambda>s. (Timeout, s)) | Some (Inl e) \<Rightarrow> throw (table_exn e)
      | Some (Inr t') \<Rightarrow> put_table a t')
    (case table_set (e_hash E) rp t k v of None \<Rightarrow> (\<lambda>s. (Timeout, s)) | Some (Inl e) \<Rightarrow> throw (table_exn e)
      | Some (Inr t') \<Rightarrow> put_table a t')" if "waits \<or> counts_ok t" for t rp
    using that table_set_returns [of t "e_hash E" rp k v] table_set_counts [of t "e_hash E" rp k v]
    by (auto split: option.split sum.split intro!: sims sim_put_table simp: sim_def [of "\<lambda>s. (Timeout, s)"] le_refl)
  show "sim (heap_set E a k v) (heap_set E a k v)"
    unfolding heap_set_def by (rule sim_table_of, rule sim_bind [OF sim_basic(4)], rule tab)
qed

definition sim_call :: "call \<Rightarrow> call \<Rightarrow> bool" where
  "sim_call call call' \<longleftrightarrow> (\<forall>nargs nresults. sim (call nargs nresults) (call' nargs nresults))"

lemma sim_call_apply: "sim_call call call' \<Longrightarrow> sim (call nargs nresults) (call' nargs nresults)"
  by (simp add: sim_call_def)

end

end
