(* ===== verification/VMFrame.thy ===== *)
theory VMFrame
  imports ExecFrame
begin

text \<open>
  The lemmas of \<open>exec_frame\<close> for the operations, calls, handlers and the loop of the machine, one for
  each definition, and what the relation says of whole runs.
\<close>

context exec_frame
begin

section \<open>Operations\<close>

lemma sim_callTM [sims]:
  assumes "sim_call call call'"
  shows "sim (callTMWithResult call f x y) (callTMWithResult call' f x y)" "sim (callTM call f x y z) (callTM call' f x y z)"
  unfolding callTMWithResult_def callTM_def by (intro sims stack_outcomes sim_call_apply [OF assms])+

lemma sim_callBinaryTM [sims]: "sim_call call call' \<Longrightarrow> sim (callBinaryTM E call p q ev) (callBinaryTM E call' p q ev)"
  unfolding callBinaryTM_def by (intro sims)

lemma sim_callOrderTM [sims]: "sim_call call call' \<Longrightarrow> sim (callOrderTM E call p q ev) (callOrderTM E call' p q ev)"
  unfolding callOrderTM_def by (intro sims)

lemma sim_conversions [sims]: "sim (tryToNumber E v) (tryToNumber E v)" "sim (concatOperandText E v) (concatOperandText E v)"
  "sim (checkStringConcatLength m n) (checkStringConcatLength m n)" "sim (compare_strings E a b) (compare_strings E a b)"
  "sim (getComparisonTM E mt1 mt2 ev) (getComparisonTM E mt1 mt2 ev)"
  unfolding tryToNumber_def concatOperandText_def checkStringConcatLength_def compare_strings_def getComparisonTM_def
  by (intro sims)+

lemma sim_gettable [sims]:
  assumes "sim_call call call'" shows "sim (gettable E call t key) (gettable E call' t key)"
proof -
  have "sim (gettable_loop E call n t key) (gettable_loop E call' n t key)" for n
    by (induction n arbitrary: t) (simp_all only: gettable_loop.simps, (intro sims assms | assumption)+)
  then show ?thesis unfolding gettable_def .
qed

lemma sim_settable [sims]:
  assumes "sim_call call call'" shows "sim (settable E call t key v) (settable E call' t key v)"
proof -
  have "sim (settable_loop E call n t key v) (settable_loop E call' n t key v)" for n
    by (induction n arbitrary: t) (simp_all only: settable_loop.simps, (intro sims assms | assumption)+)
  then show ?thesis unfolding settable_def .
qed

lemma sim_arith [sims]: "sim_call call call' \<Longrightarrow> sim (arith E call l r oc) (arith E call' l r oc)"
  "sim_call call call' \<Longrightarrow> sim (unaryMinus E call l) (unaryMinus E call' l)"
  "sim_call call call' \<Longrightarrow> sim (lua_length E call l) (lua_length E call' l)"
  unfolding arith_def unaryMinus_def lua_length_def by (intro sims | assumption)+

lemma sim_compare [sims]:
  assumes "sim_call call call'"
  shows "sim (equal_values E call l r) (equal_values E call' l r)" "sim (lessThan E call l r) (lessThan E call' l r)"
    "sim (lessEqual E call l r) (lessEqual E call' l r)"
  unfolding equal_values_def equal_objects_def lessThan_def lessEqual_def by (intro sims assms)+

lemma sim_concat [sims]:
  assumes "sim_call call call'" shows "sim (lua_concat E call base a b c) (lua_concat E call' base a b c)"
proof -
  have "sim (concat_loop E call base n k) (concat_loop E call' base n k)" for n k
  proof (induction n arbitrary: k)
    case (Suc m)
    then show ?case
      by (cases m) (simp_all only: concat_loop.simps, (intro sims assms | assumption)+)
  qed (simp add: sims)
  then show ?thesis unfolding lua_concat_def by (intro sims)
qed

section \<open>Calls\<close>

lemma sim_results [sims]: "sim (clear_slots i j) (clear_slots i j)" "sim (copy_slot i j) (copy_slot i j)"
  "sim (postcall_trim d o1 n) (postcall_trim d o1 n)" "sim (postcall_in_place d w) (postcall_in_place d w)"
  "sim (postcall_copy d w i) (postcall_copy d w i)"
  unfolding clear_slots_def copy_slot_def postcall_trim_def postcall_in_place_def postcall_copy_def
  by (intro sims stack_outcomes)+

lemma sim_postcall [sims]: "sim (postcall d w i) (postcall d w i)"
  unfolding postcall_def by (intro sims)

lemma sim_resolve_call [sims]: "sim (resolve_call E pos n name) (resolve_call E pos n name)"
  unfolding resolve_call_def by (intro sims stack_outcomes)

lemma sim_frames [sims]: "sim (set_frame f b t w) (set_frame f b t w)" "sim (copy_params i j n) (copy_params i j n)"
  "sim (compat_arg_table E i n) (compat_arg_table E i n)"
  unfolding set_frame_def copy_params_def compat_arg_table_def by (intro sims)+

lemma sim_adjust_arguments [sims]: "sim (adjust_arguments E p pos n) (adjust_arguments E p pos n)"
  unfolding adjust_arguments_def by (intro sims stack_outcomes)

definition natives_ok :: bool where
  "natives_ok \<longleftrightarrow> (\<forall>n. sim (e_native E n) (e_native E n))"

lemma sim_native [sims]: "natives_ok \<Longrightarrow> sim (callCFunction E f) (callCFunction E f)"
  unfolding callCFunction_def natives_ok_def by (intro sims) blast

lemma sim_call_native [sims]: "natives_ok \<Longrightarrow> sim (call_native E f pos n w) (call_native E f pos n w)"
  unfolding call_native_def by (intro sims)

lemma sim_precallImpl [sims]: "natives_ok \<Longrightarrow> sim (precallImpl E i n w name) (precallImpl E i n w name)"
  unfolding precallImpl_def by (intro sims)

lemma sim_precall [sims]: "natives_ok \<Longrightarrow> sim (precall E i n w) (precall E i n w)"
  "natives_ok \<Longrightarrow> sim (precallWithNameResolver E i n w r) (precallWithNameResolver E i n w r)"
  unfolding precall_def precallWithNameResolver_def by (rule sim_precallImpl, assumption)+

lemma sim_reuse [sims]: "sim (reuseCurrentFrameForTailCall i f n) (reuseCurrentFrameForTailCall i f n)"
proof -
  have frame: "sim (\<lambda>s. if i < length (vm_callStack s) then (Done (), s\<lparr>vm_callStack := (vm_callStack s)[i := ci]\<rparr>) else (Fault, s))
    (\<lambda>s. if i < length (vm_callStack s) then (Done (), s\<lparr>vm_callStack := (vm_callStack s)[i := ci]\<rparr>) else (Fault, s))" for ci
    by (rule sim_thread) auto
  show ?thesis unfolding reuseCurrentFrameForTailCall_def by (intro sims stack_outcomes frame)
qed

lemma sim_guarded [sims]:
  assumes "sim m m'" shows "sim (guarded m) (guarded m')"
proof -
  have "sim (\<lambda>s. case m s of (r, s') \<Rightarrow> (r, leaveHostCall s')) (\<lambda>s. case m' s of (r, s') \<Rightarrow> (r, leaveHostCall s'))"
  proof (rule simI)
    fix s r s' assume s: "ok s" and m: "(case m s of (r, s') \<Rightarrow> (r, leaveHostCall s')) = (r, s')"
    obtain s1 where m1: "m s = (r, s1)" "s' = leaveHostCall s1" using m by (cases "m s") auto
    have "le s1 s'" unfolding m1(2) leaveHostCall_def by (rule le_thread, rule thread_step_simps)
    then show "le s s' \<and> (r = Timeout \<longrightarrow> waits) \<and> (r \<noteq> Timeout \<longrightarrow>
        (case m' s of (r, s') \<Rightarrow> (r, leaveHostCall s')) = (r, s'))"
      using simD [OF assms s m1(1)] m1(2) le_trans by auto
  qed
  then show ?thesis unfolding guarded_def by (intro sims)
qed

lemma sim_call_entry [sims]:
  "natives_ok \<Longrightarrow> sim ex ex' \<Longrightarrow> sim (call_entry E ex n w) (call_entry E ex' n w)"
  unfolding call_entry_def by (intro sims)

section \<open>Handlers\<close>

lemma sim_context [sims]: "sim (proceed cx) (proceed cx)" "sim refreshBase refreshBase" "sim (read_reg r) (read_reg r)"
  "sim (write_reg r v) (write_reg r v)" "sim (constant_at cx k) (constant_at cx k)" "sim (save_pc cx) (save_pc cx)"
  unfolding proceed_def refreshBase_def read_reg_def write_reg_def constant_at_def save_pc_def by (intro sims)+

lemma sim_getRK [sims]: "sim (getRK cx rk) (getRK cx rk)"
  unfolding getRK_def by (intro sims)

lemma sim_rewriting [sims]: "sim m m' \<Longrightarrow> sim k k' \<Longrightarrow> sim (rewriting needle m k) (rewriting needle m' k')"
  unfolding rewriting_def by (intro sims)

lemma sim_errors [sims]: "sim (type_action_error E cx act v r) (type_action_error E cx act v r)"
  "sim (canConvertToNumber E v) (canConvertToNumber E v)"
  "sim (describeArithmeticOperand E cx rk v) (describeArithmeticOperand E cx rk v)"
  "sim (coerceNumber E r) (coerceNumber E r)" "sim (function_env cx) (function_env cx)"
  unfolding type_action_error_def canConvertToNumber_def describeArithmeticOperand_def coerceNumber_def function_env_def
  by (intro sims)+

text \<open>Handlers that call nothing.\<close>

lemma sim_data [sims]: "sim (handleMove cx i) (handleMove cx i)" "sim (handleLoadK cx i) (handleLoadK cx i)"
  "sim (handleLoadBool cx i) (handleLoadBool cx i)" "sim (handleLoadNil cx i) (handleLoadNil cx i)"
  "sim (handleGetUpval cx i) (handleGetUpval cx i)" "sim (handleSetUpval cx i) (handleSetUpval cx i)"
  "sim (handleNewTable cx i) (handleNewTable cx i)" "sim (handleNot cx i) (handleNot cx i)"
  "sim (handleJump cx i) (handleJump cx i)" "sim (handleTest cx i) (handleTest cx i)"
  "sim (handleTestSet cx i) (handleTestSet cx i)" "sim (handleClose cx i) (handleClose cx i)"
  "sim (handleForLoop cx i) (handleForLoop cx i)"
  unfolding handleMove_def handleLoadK_def handleLoadBool_def handleLoadNil_def handleGetUpval_def handleSetUpval_def
    handleNewTable_def handleNot_def handleJump_def handleTest_def handleTestSet_def handleClose_def handleForLoop_def
  by (intro sims)+

lemma sim_handleForPrep [sims]: "sim (handleForPrep E cx i) (handleForPrep E cx i)"
  unfolding handleForPrep_def Let_def by (intro sims)

lemma sim_read_regs [sims]: "sim (read_regs r n) (read_regs r n)"
  by (rule sim_thread) (auto simp: read_regs_def refreshBase_def getCurrentCallInfo_def bind_def ret_def Let_def)

lemma sim_handleSetList [sims]: "sim (handleSetList E cx i) (handleSetList E cx i)"
proof -
  have range: "sim (case setArrayRange (e_hash E) rp t k vs of Inl e \<Rightarrow> throw (table_exn e) | Inr t' \<Rightarrow> put_table a t')
      (case setArrayRange (e_hash E) rp t k vs of Inl e \<Rightarrow> throw (table_exn e) | Inr t' \<Rightarrow> put_table a t')"
    if "waits \<or> counts_ok t" for rp t k vs a
    using that counts_setArrayRange [of t "e_hash E" rp k vs]
    by (cases "setArrayRange (e_hash E) rp t k vs") (auto intro!: sims sim_put_table)
  have store: "sim (bind (table_of a) (\<lambda>t. bind (gets vm_resources) (\<lambda>rp.
        case setArrayRange (e_hash E) rp t k vs of Inl e \<Rightarrow> throw (table_exn e) | Inr t' \<Rightarrow> put_table a t')))
      (bind (table_of a) (\<lambda>t. bind (gets vm_resources) (\<lambda>rp.
        case setArrayRange (e_hash E) rp t k vs of Inl e \<Rightarrow> throw (table_exn e) | Inr t' \<Rightarrow> put_table a t')))" for a k vs
    by (rule sim_table_of, rule sim_bind [OF sim_basic(4)], rule range)
  have "sim (setList E a b c) (setList E a b c)" for a b c
    unfolding setList_def by (rule store | rule sims)+
  then show ?thesis unfolding handleSetList_def by (intro sims)
qed

lemma sim_closures [sims]: "sim (handleClosure cx i) (handleClosure cx i)" "sim (handleVararg cx i) (handleVararg cx i)"
proof -
  have two: "sim (case oc of Some OP_MOVE \<Rightarrow> m | Some OP_GETUPVAL \<Rightarrow> k | _ \<Rightarrow> e)
      (case oc of Some OP_MOVE \<Rightarrow> m | Some OP_GETUPVAL \<Rightarrow> k | _ \<Rightarrow> e)"
    if "sim m m" "sim k k" "sim e e" for oc and m k e :: "unit exec"
    using that by (simp split: option.split opcode.split)
  have "sim (capture_upvalues cx fa n) (capture_upvalues cx fa n)" for cx fa n
    by (induction n arbitrary: cx) (simp_all only: capture_upvalues.simps, (assumption | rule two | rule sims)+)
  then show "sim (handleClosure cx i) (handleClosure cx i)"
    unfolding handleClosure_def closure_def by (intro sims)
  show "sim (handleVararg cx i) (handleVararg cx i)"
    unfolding handleVararg_def vararg_def by (intro sims stack_outcomes)
qed

text \<open>Handlers that may call a metamethod or a function.\<close>

lemma sim_globals [sims]: "sim_call call call' \<Longrightarrow> sim (handleGetGlobal E call cx i) (handleGetGlobal E call' cx i)"
  "sim_call call call' \<Longrightarrow> sim (handleSetGlobal E call cx i) (handleSetGlobal E call' cx i)"
  unfolding handleGetGlobal_def handleSetGlobal_def by (intro sims | assumption)+

lemma sim_table_handlers [sims]:
  "sim_call call call' \<Longrightarrow> sim (handleGetTable E call cx i) (handleGetTable E call' cx i)"
  "sim_call call call' \<Longrightarrow> sim (handleSetTable E call cx i) (handleSetTable E call' cx i)"
  "sim_call call call' \<Longrightarrow> sim (handleSelf E call cx i) (handleSelf E call' cx i)"
  unfolding handleGetTable_def handleSetTable_def handleSelf_def by (intro sims | assumption)+

lemma sim_operators [sims]:
  assumes "sim_call call call'"
  shows "sim (handleArithmetic E call cx i) (handleArithmetic E call' cx i)"
    "sim (handleUnaryMinus E call cx i) (handleUnaryMinus E call' cx i)"
    "sim (handleLength E call cx i) (handleLength E call' cx i)"
    "sim (handleConcat E call cx i) (handleConcat E call' cx i)"
  unfolding handleArithmetic_def execArithmetic_def handleUnaryMinus_def handleLength_def handleConcat_def
  by (intro sims assms)+

lemma sim_handleComparison [sims]:
  assumes "sim_call call call'"
  shows "sim (handleComparison E call cx i) (handleComparison E call' cx i)"
proof -
  have cmp: "sim (case oc of Some OP_EQ \<Rightarrow> equal_values E call l r | Some OP_LT \<Rightarrow> lessThan E call l r
        | Some OP_LE \<Rightarrow> lessEqual E call l r | _ \<Rightarrow> throw e)
      (case oc of Some OP_EQ \<Rightarrow> equal_values E call' l r | Some OP_LT \<Rightarrow> lessThan E call' l r
        | Some OP_LE \<Rightarrow> lessEqual E call' l r | _ \<Rightarrow> throw e)" for oc l r e
    by (simp add: sim_compare [OF assms] sim_basic split: option.split opcode.split)
  show ?thesis unfolding handleComparison_def by (rule cmp | rule sims)+
qed

lemma sim_handleTForLoop [sims]:
  "sim_call call call' \<Longrightarrow> sim (handleTForLoop call cx i) (handleTForLoop call' cx i)"
  unfolding handleTForLoop_def tforLoop_def by (intro sims stack_outcomes | rule sim_call_apply)+

lemma sim_pop_to [sims]: "sim (pop_to n) (pop_to n)"
  unfolding pop_to_def by (intro sims) (simp split: outcome.split prod.split)

lemma sim_call_handlers [sims]:
  assumes "natives_ok"
  shows "sim (handleCall E cx i) (handleCall E cx i)" "sim (handleTailCall E cx i) (handleTailCall E cx i)"
    "sim (handleReturn cx i) (handleReturn cx i)"
  unfolding handleCall_def handleTailCall_def handleReturn_def
  by (intro sims stack_outcomes assms sim_modify thread_step_simps)+

lemma sim_dispatch [sims]:
  assumes "natives_ok" "sim_call call call'"
  shows "sim (dispatch E call cx i) (dispatch E call' cx i)"
proof -
  have "rel_option (\<lambda>h h'. sim (h cx i) (h' cx i)) (handlerFor E call oc) (handlerFor E call' oc)" for oc
    unfolding handlerFor_def handlerTable_def registerDataHandlers_def registerGlobalUpvalueHandlers_def
      registerTableHandlers_def registerArithmeticHandlers_def registerUnaryHandlers_def registerBranchHandlers_def
      registerLoopHandlers_def registerClosureHandlers_def registerCallHandlers_def
    by (cases oc; simp; cases "the oc"; simp; intro sims assms)
  from this [of "GET_OPCODE i"] have "sim (runHandler E call cx i) (runHandler E call' cx i)"
    unfolding runHandler_def
    by (cases "handlerFor E call (GET_OPCODE i)"; cases "handlerFor E call' (GET_OPCODE i)") (simp_all add: sim_basic)
  then show ?thesis unfolding dispatch_def by (intro sims)
qed

section \<open>The loop\<close>

lemma sim_enter_frame [sims]: "sim (enter_frame n) (enter_frame n)"
  unfolding enter_frame_def by (intro sims stack_outcomes)

lemma sim_status [sims]: "sim a a' \<Longrightarrow> sim b b' \<Longrightarrow> sim c c' \<Longrightarrow> sim d d' \<Longrightarrow>
  sim (case st of HS_Continue \<Rightarrow> a | HS_Reenter \<Rightarrow> b | HS_Yielded \<Rightarrow> c | HS_Returned \<Rightarrow> d)
    (case st of HS_Continue \<Rightarrow> a' | HS_Reenter \<Rightarrow> b' | HS_Yielded \<Rightarrow> c' | HS_Returned \<Rightarrow> d')"
  by (cases st) simp_all

text \<open>A turn of the loop after the instruction was charged.\<close>

lemma sim_turn [sims]:
  assumes "natives_ok" "sim_call call call'" "\<And>cx. sim (again cx) (again' cx)"
  shows "sim (turn E call again cx) (turn E call' again' cx)"
  unfolding turn_def by (intro sims assms)

lemma sim_execute_with [sims]:
  assumes "\<And>cx. sim (loop cx) (loop' cx)" shows "sim (execute_with loop n) (execute_with loop' n)"
  unfolding execute_with_def by (intro sims assms)

lemma sim_loop_step [sims]:
  assumes "natives_ok" "sim_call call call'" "\<And>cx. sim (again cx) (again' cx)"
  shows "sim (loop_step E call again cx) (loop_step E call' again' cx)"
  unfolding loop_step_def by (intro sims assms)

end

end
