(* ===== verification/VMRuns.thy ===== *)
theory VMRuns
  imports VMFrame VerifierProps
begin

text \<open>
  What \<open>exec_frame\<close> says of whole runs, read three times: the fuel of the model does not matter once a
  run has ended, an instruction budget ends every run, and objects keep their addresses.
\<close>

section \<open>A machine to run examples on\<close>

text \<open>One Lua function in slot 0, its frame above it, and no C library to speak of.\<close>

definition run_vm :: "instruction list \<Rightarrow> vm" where
  "run_vm code = \<lparr>vm_stack = \<lparr>sk_slots = [VFunction 0, VNil, VNil], sk_top = 3, sk_policy = None\<rparr>, vm_top = 3,
     vm_callStack = [new_call_info\<lparr>ci_base := 1, ci_top := 3\<rparr>], vm_currentCI = 0, vm_openUpvalues = [], vm_hostCallDepth = 0,
     vm_savedNexeccalls = 0, vm_status = TS_OK, vm_globalTable = None, vm_strings = [], vm_tables = [],
     vm_functions = [\<lparr>fn_kind = LuaFunction (tiny_proto code), fn_upvalues = [], fn_env = None\<rparr>], vm_upvalues = [],
     vm_userdata = [], vm_metatables = (\<lambda>_. None), vm_policy = new_exec_policy\<lparr>xp_remainingInstructions := 5\<rparr>,
     vm_resources = default_resource_policy, vm_polls = 0\<rparr>"

definition run_env :: vm_env where
  "run_env = \<lparr>e_hash = \<lparr>he_f64 = (\<lambda>_. 7), he_ptr = (\<lambda>p. p), he_string = (\<lambda>_. 7)\<rparr>, e_strtod = (\<lambda>_. (f64_zero, 0, False)),
     e_to_chars = (\<lambda>_. ''0''), e_pow = (\<lambda>x y. x), e_strcoll = (\<lambda>x y. 0), e_describe = (\<lambda>_ _ _ _. ''''),
     e_clock = (\<lambda>_. 0), e_native = (\<lambda>n s. (Raise X_OutOfRange, s)), e_backend = BK_Switch\<rparr>"


declare run_loop.simps(2) [simp del] vm_call.simps(2) [simp del]

section \<open>Fuel\<close>

interpretation fuel: exec_frame "\<lambda>_ _. True" "\<lambda>_. True" True E for E
  by unfold_locales auto

lemma fuel_natives: "fuel.natives_ok E"
  by (simp add: fuel.natives_ok_def fuel.sim_def)

lemma fuel_step:
  "fuel.sim_call (vm_call E n) (vm_call E (Suc n)) \<and> (\<forall>cx. fuel.sim (run_loop E n cx) (run_loop E (Suc n) cx))"
proof (induction n)
  case 0
  show ?case by (simp add: fuel.sim_call_def fuel.sim_def)
next
  case (Suc n)
  then have loop: "fuel.sim (run_loop E n cx) (run_loop E (Suc n) cx)"
    and call: "fuel.sim_call (vm_call E n) (vm_call E (Suc n))" for cx by blast+
  have "fuel.sim (vm_call E (Suc n) a b) (vm_call E (Suc (Suc n)) a b)" for a b
    by (subst vm_call.simps(2) [of E n], subst vm_call.simps(2) [of E "Suc n"])
      (intro fuel.sim_call_entry fuel_natives fuel.sim_execute_with loop)
  moreover have "fuel.sim (run_loop E (Suc n) cx) (run_loop E (Suc (Suc n)) cx)" for cx
    by (subst run_loop.simps(2) [of E n], subst run_loop.simps(2) [of E "Suc n"])
      (intro fuel.sim_loop_step fuel_natives call loop)
  ultimately show ?case by (simp add: fuel.sim_call_def)
qed

lemma fuel_steps: "fst (run_loop E n cx s) \<noteq> Timeout \<Longrightarrow> run_loop E (n + k) cx s = run_loop E n cx s"
proof (induction k)
  case (Suc k)
  have "fuel.sim (run_loop E (n + k) cx) (run_loop E (Suc (n + k)) cx)" using fuel_step by blast
  then show ?case using Suc by (simp add: fuel.sim_def del: run_loop.simps)
qed simp


section \<open>Budget\<close>

definition limited :: "vm \<Rightarrow> bool" where
  "limited s \<longleftrightarrow> xp_remainingInstructions (vm_policy s) \<noteq> Unlimited"

definition budget :: "vm \<Rightarrow> nat" where
  "budget s = unat (xp_remainingInstructions (vm_policy s))"

definition tables_counted :: "vm \<Rightarrow> bool" where
  "tables_counted s \<longleftrightarrow> list_all counts_ok (vm_tables s)"

text \<open>The budget goes down and the tables stay whole.\<close>

definition spends :: "vm \<Rightarrow> vm \<Rightarrow> bool" where
  "spends s s' \<longleftrightarrow> (limited s \<longrightarrow> limited s' \<and> budget s' \<le> budget s) \<and> (tables_counted s \<longrightarrow> tables_counted s')"

definition solvent :: "nat \<Rightarrow> vm \<Rightarrow> bool" where
  "solvent r s \<longleftrightarrow> limited s \<and> budget s \<le> r \<and> tables_counted s"

lemma spends_refl: "spends s s"
  by (simp add: spends_def)

lemma spends_same:
  assumes "vm_policy s' = vm_policy s" "tables_counted s \<Longrightarrow> tables_counted s'"
  shows "spends s s'"
  using assms by (simp add: spends_def limited_def budget_def)

lemma budget_below: "limited s \<longleftrightarrow> budget s < 2 ^ 64 - 1"
proof -
  have "limited s \<longleftrightarrow> budget s \<noteq> unat (- 1 :: u64)"
    by (simp add: limited_def budget_def Unlimited_def word_eq_iff_unsigned [where 'a = nat])
  moreover have "budget s < 2 ^ 64" unfolding budget_def using unsigned_less [of "xp_remainingInstructions (vm_policy s)"] by simp
  ultimately show ?thesis by (simp add: unsigned_minus_1_eq_mask mask_eq_exp_minus_1) linarith
qed

lemma spendsI: "budget s' \<le> budget s \<Longrightarrow> (tables_counted s \<Longrightarrow> tables_counted s') \<Longrightarrow> spends s s'"
  by (auto simp: spends_def budget_below)

lemma charge_instruction:
  assumes "limited s" "enforceExecutionPolicy E s = (q, s')"
  shows "spends s s'" "q = Done () \<Longrightarrow> budget s' < budget s" "q \<noteq> Timeout"
proof -
  let ?p = "vm_policy s"
  have less: "xp_remainingInstructions ?p \<noteq> 0 \<Longrightarrow> unat (xp_remainingInstructions ?p - 1) < unat (xp_remainingInstructions ?p)"
    by (simp add: unat_minus_one) (metis diff_Suc_less not_gr_zero unsigned_eq_0_iff)
  obtain r p' where r: "xp_pollStop (e_clock E (vm_polls s)) ?p = (r, p')" by (cases "xp_pollStop (e_clock E (vm_polls s)) ?p")
  note c = xp_pollStop_cases [OF r]
  show "q \<noteq> Timeout" using assms by (auto simp: enforceExecutionPolicy_def split: prod.splits if_splits)
  show "q = Done () \<Longrightarrow> budget s' < budget s"
    using assms r c less
    by (auto simp: enforceExecutionPolicy_def xp_consumeInstruction_def limited_def budget_def split: if_splits)
  have "budget s' \<le> budget s" "vm_tables s' = vm_tables s"
    using assms r c less
    by (auto simp: enforceExecutionPolicy_def xp_consumeInstruction_def limited_def budget_def less_imp_le split: if_splits)
  then show "spends s s'" by (intro spendsI) (simp_all add: tables_counted_def)
qed

lemma unlimited_instruction: "\<not> limited s \<Longrightarrow> spends s (snd (enforceExecutionPolicy E s))"
  by (auto simp: spends_def tables_counted_def enforceExecutionPolicy_def split: prod.splits)

lemma charge_work: "spends s (snd (consumeNativeWork E n s))"
  by (intro spendsI)
    (auto simp: consumeNativeWork_def xp_consumeNativeWork_def xp_pollStop_def budget_def tables_counted_def Let_def
      split: prod.splits if_splits)

interpretation budget: exec_frame spends "solvent r" False E for r E
proof unfold_locales
  fix s s' s'' :: vm and a t f f' n x
  show "spends s s" by (rule spends_refl)
  show "spends s s' \<Longrightarrow> spends s' s'' \<Longrightarrow> spends s s''" by (auto simp: spends_def)
  show "solvent r s \<Longrightarrow> spends s s' \<Longrightarrow> solvent r s'" by (auto simp: solvent_def spends_def)
  show "thread_step s s' \<Longrightarrow> spends s s'"
    by (rule spends_same) (simp_all add: thread_step_def tables_counted_def)
  show "spends s (s\<lparr>vm_strings := snd (intern_pool x (vm_strings s))\<rparr>)"
    by (rule spends_same) (simp_all add: tables_counted_def)
  show "spends s (s\<lparr>vm_tables := vm_tables s @ [new_table]\<rparr>)"
    by (rule spends_same) (simp_all add: tables_counted_def)
  show "False \<or> counts_ok t \<Longrightarrow> spends s (s\<lparr>vm_tables := (vm_tables s)[a := t]\<rparr>)"
    by (rule spends_same) (auto simp: tables_counted_def list_all_iff dest!: set_update_subset_insert [THEN subsetD])
  show "spends s (s\<lparr>vm_functions := vm_functions s @ [f]\<rparr>)"
    by (rule spends_same) (simp_all add: tables_counted_def)
  show "lookup (vm_functions s) a = Some f \<Longrightarrow> fn_kind f' = fn_kind f \<Longrightarrow>
      spends s (s\<lparr>vm_functions := (vm_functions s)[a := f']\<rparr>)"
    by (rule spends_same) (simp_all add: tables_counted_def)
  show "spends s (snd (enforceExecutionPolicy E s))"
    using charge_instruction(1) [of s E] unlimited_instruction [of s E] by (cases "limited s") (auto simp: prod_eq_iff)
  show "spends s (snd (consumeNativeWork E n s))" by (rule charge_work)
  show "solvent r s \<Longrightarrow> lookup (vm_tables s) a = Some t \<Longrightarrow> False \<or> counts_ok t"
    by (auto simp: solvent_def tables_counted_def lookup_def list_all_length split: if_splits)
qed

text \<open>What is asked of native functions: they return, and they neither raise the budget nor leave a
  table whose probes do not end.\<close>

definition natives_spend :: "vm_env \<Rightarrow> bool" where
  "natives_spend E \<longleftrightarrow> (\<forall>n s. fst (e_native E n s) \<noteq> Timeout \<and> spends s (snd (e_native E n s)))"

lemma budget_natives: "natives_spend E \<Longrightarrow> budget.natives_ok r E"
  by (simp add: budget.natives_ok_def budget.sim_def natives_spend_def)

lemma budget_runs:
  assumes E: "natives_spend E"
  shows "2 * r + 2 \<le> n \<Longrightarrow> budget.sim r (run_loop E n cx) (run_loop E n cx)"
proof (induction n arbitrary: r cx rule: less_induct)
  case (less n)
  then obtain m where n: "n = Suc m" "2 * r + 1 \<le> m" by (cases n) auto
  let ?again = "run_loop E m"
  have "budget.sim r (loop_step E (vm_call E m) ?again cx) (loop_step E (vm_call E m) ?again cx)"
  proof (rule budget.simI)
    fix s q s' assume s: "solvent r s" and run: "loop_step E (vm_call E m) ?again cx s = (q, s')"
    obtain q1 s1 where e: "enforceExecutionPolicy E s = (q1, s1)" by (cases "enforceExecutionPolicy E s")
    have lim: "limited s" "budget s \<le> r" using s by (simp_all add: solvent_def)
    note charge = charge_instruction [OF lim(1) e]
    have "spends s s' \<and> q \<noteq> Timeout"
    proof (cases "cx_pc cx < length (context_code cx) \<and> q1 = Done ()")
      case False
      then show ?thesis
        using run e charge spends_refl by (cases q1) (auto simp: loop_step_def bind_def ret_def split: if_splits)
    next
      case True
      have b: "budget s1 < budget s" using charge(2) True by simp
      then obtain r1 where r1: "r = Suc r1" using lim(2) by (cases r) auto
      obtain k where k: "m = Suc k" "2 * r1 + 2 \<le> k" using n r1 by (cases m) auto
      have s1: "solvent r1 s1"
        using s charge(1) b lim r1 by (auto simp: solvent_def spends_def)
      have nat: "budget.natives_ok r1 E" using budget_natives [OF E] .
      have call: "budget.sim_call r1 (vm_call E m) (vm_call E m)"
        unfolding budget.sim_call_def k(1) vm_call.simps(2)
        using n(1) k by (intro allI budget.sim_call_entry nat budget.sim_execute_with less.IH) auto
      have "budget.sim r1 (turn E (vm_call E m) ?again cx) (turn E (vm_call E m) ?again cx)"
        using n(1) k by (intro budget.sim_turn nat call less.IH) auto
      moreover have "turn E (vm_call E m) ?again cx s1 = (q, s')"
        using run e True by (simp add: loop_step_def bind_def)
      ultimately have "spends s1 s'" "q \<noteq> Timeout"
        using budget.simD(1,3) [OF _ s1] by blast+
      then show ?thesis using charge(1) by (auto simp: spends_def)
    qed
    then show "spends s s' \<and> (q = Timeout \<longrightarrow> False) \<and> (q \<noteq> Timeout \<longrightarrow> loop_step E (vm_call E m) ?again cx s = (q, s'))"
      using run by simp
  qed
  then show ?case unfolding n(1) by (subst (1 2) run_loop.simps(2))
qed

text \<open>C17. An instruction budget ends every run: if the policy grants \<open>b\<close> more instructions, then
  whatever the code, the stack and the heap are, the machine comes back, and the model needs no more
  fuel than \<open>2 b + 2\<close> to see it. The budget covers the loops entered for metamethods and iterators.
  It is asked that the native functions called on the way return and do not raise the budget.\<close>

theorem budget_ends_run:
  assumes "natives_spend E" "limited s" "tables_counted s" "2 * budget s + 2 \<le> fuel"
  shows "fst (executeProto E fuel k s) \<noteq> Timeout \<and> budget (snd (executeProto E fuel k s)) \<le> budget s"
proof -
  have s: "solvent (budget s) s" using assms by (simp add: solvent_def)
  have "budget.sim (budget s) (executeProto E fuel k) (executeProto E fuel k)"
    unfolding executeProto_def by (intro budget.sim_execute_with budget_runs assms)
  then show ?thesis
    using s assms(2) unfolding budget.sim_def by (auto simp: spends_def)
qed

text \<open>\<open>while true do end\<close> stops after its five instructions.\<close>

theorem budget_ends_run_witness:
  "fst (executeProto run_env 12 1 (run_vm [CREATE_AsBx OP_JMP 0 (-1)])) \<noteq> Timeout"
proof -
  have "natives_spend run_env" by (simp add: natives_spend_def run_env_def spends_refl)
  then show ?thesis
    using budget_ends_run [of run_env "run_vm [CREATE_AsBx OP_JMP 0 (-1)]" 12 1]
    by (simp add: limited_def budget_def tables_counted_def run_vm_def Unlimited_def)
qed

section \<open>Addresses\<close>

text \<open>Objects keep their addresses and what cannot change of them: a string its text, a function its
  kind and prototype, a userdata object its metatable.\<close>

definition heap_grows :: "vm \<Rightarrow> vm \<Rightarrow> bool" where
  "heap_grows s s' \<longleftrightarrow>
     (\<forall>a < length (vm_strings s). lookup (vm_strings s') a = lookup (vm_strings s) a) \<and>
     (\<forall>a < length (vm_functions s). map_option fn_kind (lookup (vm_functions s') a) = map_option fn_kind (lookup (vm_functions s) a)) \<and>
     length (vm_tables s) \<le> length (vm_tables s') \<and> length (vm_upvalues s) \<le> length (vm_upvalues s') \<and>
     vm_userdata s' = vm_userdata s \<and> vm_metatables s' = vm_metatables s \<and> vm_globalTable s' = vm_globalTable s"

lemma lookup_keeps_length:
  assumes "\<forall>a < length xs. map_option f (lookup ys a) = map_option f (lookup xs a)"
  shows "length xs \<le> length ys"
proof (rule ccontr)
  assume "\<not> length xs \<le> length ys"
  then show False using assms [rule_format, of "length ys"] by (simp add: lookup_def)
qed

lemma intern_pool_keeps: "a < length pool \<Longrightarrow> lookup (snd (intern_pool x pool)) a = lookup pool a"
  by (simp add: intern_pool_def lookup_def nth_append split: option.splits)

interpretation growth: exec_frame heap_grows "\<lambda>_. True" True E for E
proof unfold_locales
  fix s s' s'' :: vm and a f f' n x
  show "heap_grows s s' \<Longrightarrow> heap_grows s' s'' \<Longrightarrow> heap_grows s s''"
  proof -
    assume g: "heap_grows s s'" "heap_grows s' s''"
    then have "length (vm_functions s) \<le> length (vm_functions s')"
      by (intro lookup_keeps_length [of _ fn_kind]) (simp add: heap_grows_def)
    moreover have "length (vm_strings s) \<le> length (vm_strings s')"
      using g(1) by (intro lookup_keeps_length [of _ id]) (simp add: heap_grows_def)
    ultimately show "heap_grows s s''" using g by (auto simp: heap_grows_def)
  qed
  show "heap_grows s (s\<lparr>vm_strings := snd (intern_pool x (vm_strings s))\<rparr>)"
    by (simp add: heap_grows_def intern_pool_keeps)
  show "lookup (vm_functions s) a = Some f \<Longrightarrow> fn_kind f' = fn_kind f \<Longrightarrow>
      heap_grows s (s\<lparr>vm_functions := (vm_functions s)[a := f']\<rparr>)"
    by (auto simp: heap_grows_def lookup_def nth_list_update split: if_splits)
qed (auto simp: heap_grows_def thread_step_def lookup_def nth_append enforceExecutionPolicy_def consumeNativeWork_def Let_def
    split: prod.splits)

definition natives_grow :: "vm_env \<Rightarrow> bool" where
  "natives_grow E \<longleftrightarrow> (\<forall>n s. heap_grows s (snd (e_native E n s)))"

lemma growth_step:
  assumes "natives_grow E"
  shows "growth.sim_call (vm_call E n) (vm_call E n) \<and> (\<forall>cx. growth.sim (run_loop E n cx) (run_loop E n cx))"
proof (induction n)
  case 0
  show ?case by (simp add: growth.sim_call_def growth.sim_def growth.le_refl)
next
  case (Suc n)
  have nat: "growth.natives_ok E"
    using assms by (simp add: growth.natives_ok_def growth.sim_def natives_grow_def)
  from Suc have loop: "growth.sim (run_loop E n cx) (run_loop E n cx)"
    and call: "growth.sim_call (vm_call E n) (vm_call E n)" for cx by blast+
  show ?case
    unfolding growth.sim_call_def vm_call.simps(2) run_loop.simps(2)
    by (intro conjI allI growth.sim_call_entry growth.sim_loop_step growth.sim_execute_with nat loop call)
qed



end
