(* ===== verification/VMFlow.thy ===== *)
theory VMFlow
  imports VMRuns
begin

text \<open>
  The machine moves through the code of a function the way the verifier assumes: every handler leaves
  the counter at a successor of its instruction in the sense of \<open>flow_succ\<close>. With the verifier's
  guarantee this gives the safety of the dispatch loop: in accepted code it never decodes a data word
  and never meets an unknown instruction.
\<close>

section \<open>Results of a program\<close>

definition results :: "'a exec \<Rightarrow> ('a \<Rightarrow> bool) \<Rightarrow> bool" where
  "results m Q \<longleftrightarrow> (\<forall>s x s'. m s = (Done x, s') \<longrightarrow> Q x)"

named_theorems result_intros

lemma resultsD: "results m Q \<Longrightarrow> m s = (Done x, s') \<Longrightarrow> Q x"
  by (auto simp: results_def)

lemma results_any [result_intros]: "results (throw e) Q" "results fault Q"
  by (simp_all add: results_def throw_def fault_def)

lemma results_ret [result_intros]: "Q x \<Longrightarrow> results (ret x) Q"
  by (simp add: results_def ret_def)

lemma results_proceed [result_intros]: "Q (HS_Continue, cx) \<Longrightarrow> results (proceed cx) Q"
  unfolding proceed_def by (rule results_ret)

lemma results_bind [result_intros]: "(\<And>x. results (f x) Q) \<Longrightarrow> results (bind m f) Q"
  by (auto simp: results_def bind_def split: prod.splits outcome.splits)

lemma results_bind2: "results m P \<Longrightarrow> (\<And>x. P x \<Longrightarrow> results (f x) Q) \<Longrightarrow> results (bind m f) Q"
  by (fastforce simp: results_def bind_def split: prod.splits outcome.splits)

lemma results_if [result_intros]: "(b \<Longrightarrow> results m Q) \<Longrightarrow> (\<not> b \<Longrightarrow> results k Q) \<Longrightarrow> results (if b then m else k) Q"
  by simp

lemma results_option [result_intros]:
  "(v = None \<Longrightarrow> results m Q) \<Longrightarrow> (\<And>x. v = Some x \<Longrightarrow> results (f x) Q) \<Longrightarrow> results (case_option m f v) Q"
  by (cases v) simp_all

section \<open>The counter\<close>

text \<open>A place in the code and the context of a handler there, after the instruction was fetched.\<close>

definition fetched :: "op_context \<Rightarrow> op_context" where
  "fetched cx = cx\<lparr>cx_instructionPc := cx_pc cx, cx_pc := cx_pc cx + 1\<rparr>"

definition same_code :: "op_context \<Rightarrow> op_context \<Rightarrow> bool" where
  "same_code cx cx' \<longleftrightarrow> cx_function cx' = cx_function cx \<and> cx_proto cx' = cx_proto cx"

text \<open>The handler of an instruction answers a context of the same function; when the loop goes on in
  this function, the counter is in a given list, up to the width of the counter.\<close>

definition moves_to :: "op_context \<Rightarrow> int list \<Rightarrow> handler_status \<times> op_context \<Rightarrow> bool" where
  "moves_to cx ts r \<longleftrightarrow> same_code cx (snd r) \<and>
     (fst r = HS_Continue \<longrightarrow> cx_pc cx < 2 ^ 64 \<longrightarrow> int (cx_pc (snd r)) \<in> (\<lambda>t. t mod 2 ^ 64) ` set ts)"

lemma jump_by_simps [simp]:
  "cx_function (jump_by d cx) = cx_function cx" "cx_proto (jump_by d cx) = cx_proto cx"
  "cx_nexeccalls (jump_by d cx) = cx_nexeccalls cx"
  "int (cx_pc (jump_by d cx)) = (int (cx_pc cx) + d) mod 2 ^ 64" "cx_pc (jump_by d cx) < 2 ^ 64"
  by (simp_all add: jump_by_def add_pc_def nat_less_iff)

lemma jump_by_jump_by: "int (cx_pc (jump_by d (jump_by e cx))) = (int (cx_pc cx) + (d + e)) mod 2 ^ 64"
  by (simp add: mod_simps algebra_simps)

lemma moves_stay: "int (cx_pc cx) \<in> set ts \<Longrightarrow> moves_to cx ts (st, cx)"
  by (auto simp: moves_to_def same_code_def intro!: image_eqI [of _ _ "int (cx_pc cx)"])

lemma moves_jump: "int (cx_pc cx) + d \<in> set ts \<Longrightarrow> moves_to cx ts (st, jump_by d cx)"
  by (auto simp: moves_to_def same_code_def)

lemma results_let [result_intros]: "(\<And>x. x = a \<Longrightarrow> results (f x) Q) \<Longrightarrow> results (let x = a in f x) Q"
  by simp

lemma results_value [result_intros]:
  assumes "results n Q" "\<And>b. results (fb b) Q" "\<And>x. results (fl x) Q" "\<And>x. results (fn x) Q" "\<And>x. results (fs x) Q"
    "\<And>x. results (ft x) Q" "\<And>x. results (ff x) Q" "\<And>x. results (fu x) Q" "\<And>x. results (fth x) Q"
  shows "results (case_lua_value n fb fl fn fs ft ff fu fth v) Q"
  using assms by (cases v) simp_all

section \<open>Handlers\<close>

text \<open>Handlers that go on with the next instruction.\<close>

lemma results_next:
  "results (handleMove cx i) (moves_to cx [int (cx_pc cx)])"
  "results (handleLoadK cx i) (moves_to cx [int (cx_pc cx)])"
  "results (handleLoadNil cx i) (moves_to cx [int (cx_pc cx)])"
  "results (handleGetUpval cx i) (moves_to cx [int (cx_pc cx)])"
  "results (handleSetUpval cx i) (moves_to cx [int (cx_pc cx)])"
  "results (handleNewTable cx i) (moves_to cx [int (cx_pc cx)])"
  "results (handleNot cx i) (moves_to cx [int (cx_pc cx)])"
  "results (handleClose cx i) (moves_to cx [int (cx_pc cx)])"
  "results (handleVararg cx i) (moves_to cx [int (cx_pc cx)])"
  "results (handleGetGlobal E call cx i) (moves_to cx [int (cx_pc cx)])"
  "results (handleSetGlobal E call cx i) (moves_to cx [int (cx_pc cx)])"
  "results (handleGetTable E call cx i) (moves_to cx [int (cx_pc cx)])"
  "results (handleSetTable E call cx i) (moves_to cx [int (cx_pc cx)])"
  "results (handleSelf E call cx i) (moves_to cx [int (cx_pc cx)])"
  "results (handleArithmetic E call cx i) (moves_to cx [int (cx_pc cx)])"
  "results (handleUnaryMinus E call cx i) (moves_to cx [int (cx_pc cx)])"
  "results (handleLength E call cx i) (moves_to cx [int (cx_pc cx)])"
  "results (handleConcat E call cx i) (moves_to cx [int (cx_pc cx)])"
  unfolding handleMove_def handleLoadK_def handleLoadNil_def handleGetUpval_def handleSetUpval_def handleNewTable_def
    handleNot_def handleClose_def handleVararg_def handleGetGlobal_def handleSetGlobal_def handleGetTable_def
    handleSetTable_def handleSelf_def handleArithmetic_def handleUnaryMinus_def handleLength_def handleConcat_def Let_def
  by (intro result_intros moves_stay; simp)+

lemma results_calls:
  "results (handleCall E cx i) (moves_to cx [int (cx_pc cx)])"
  "results (handleTailCall E cx i) (moves_to cx [int (cx_pc cx)])"
  "results (handleReturn cx i) (moves_to cx [])"
  unfolding handleCall_def handleTailCall_def handleReturn_def Let_def
  by (intro result_intros; simp add: moves_to_def same_code_def)+

text \<open>Handlers that move the counter.\<close>

lemma results_branch:
  "results (handleLoadBool cx i) (moves_to cx [if GETARG_C i \<noteq> 0 then int (cx_pc cx) + 1 else int (cx_pc cx)])"
  "results (handleJump cx i) (moves_to cx [int (cx_pc cx) + GETARG_sBx i])"
  "results (handleForPrep E cx i) (moves_to cx [int (cx_pc cx) + GETARG_sBx i])"
  "results (handleForLoop cx i) (moves_to cx [int (cx_pc cx), int (cx_pc cx) + GETARG_sBx i])"
  "results (handleComparison E call cx i) (moves_to cx [int (cx_pc cx), int (cx_pc cx) + 1])"
  unfolding handleLoadBool_def handleJump_def handleForPrep_def handleForLoop_def handleComparison_def Let_def
  by (intro result_intros; auto intro!: moves_stay moves_jump)+

abbreviation after_jump :: "op_context \<Rightarrow> int list" where
  "after_jump cx \<equiv> [int (cx_pc cx) + 1, int (cx_pc cx) + 1 +
     (if cx_pc cx < length (context_code cx) then GETARG_sBx (context_code cx ! cx_pc cx) else 0)]"

lemma moves_following_jump: "moves_to cx (after_jump cx) (st, jump_by 1 (take_following_jump cx))"
  by (auto simp: moves_to_def same_code_def take_following_jump_def mod_simps algebra_simps)

lemma results_test:
  "results (handleTest cx i) (moves_to cx (after_jump cx))"
  "results (handleTestSet cx i) (moves_to cx (after_jump cx))"
  unfolding handleTest_def handleTestSet_def Let_def
  by (intro result_intros; simp add: moves_following_jump moves_jump)+

lemma results_tforloop:
  assumes "cx_pc cx < length (context_code cx)"
  shows "results (handleTForLoop call cx i) (moves_to cx (after_jump cx))"
proof -
  have "results (tforLoop call cx a c) (\<lambda>cx'. moves_to cx (after_jump cx) (HS_Continue, cx'))" for a c
    unfolding tforLoop_def Let_def using assms
    by (intro result_intros) (auto intro!: moves_jump)
  then show ?thesis unfolding handleTForLoop_def by (rule results_bind2) (rule results_proceed)
qed

lemma results_setlist:
  "results (handleSetList E cx i) (moves_to cx [int (cx_pc cx) + (if GETARG_C i = 0 then 1 else 0)])"
  unfolding handleSetList_def Let_def
  by (intro result_intros) (auto intro!: moves_stay moves_jump)

lemma results_capture:
  "results (capture_upvalues cx fa n) (\<lambda>cx'. same_code cx cx' \<and> (cx_pc cx < 2 ^ 64 \<longrightarrow> int (cx_pc cx') = (int (cx_pc cx) + int n) mod 2 ^ 64))"
proof (induction n arbitrary: cx)
  case 0
  show ?case unfolding capture_upvalues.simps by (rule results_ret) (simp add: same_code_def)
next
  case (Suc n)
  have step: "results (capture_upvalues (jump_by 1 cx) fa n)
    (\<lambda>cx'. same_code cx cx' \<and> (cx_pc cx < 2 ^ 64 \<longrightarrow> int (cx_pc cx') = (int (cx_pc cx) + int (Suc n)) mod 2 ^ 64))"
    using Suc [of "jump_by 1 cx"] jump_by_simps(5) [of 1 cx]
    by (simp add: results_def same_code_def mod_simps algebra_simps)
  show ?case unfolding capture_upvalues.simps Let_def by (intro results_if results_any results_bind step)
qed

lemma results_closure:
  "results (handleClosure cx i) (moves_to cx [int (cx_pc cx) + int (child_upvalues (cx_proto cx) (nat (GETARG_Bx i)))])"
proof -
  have "results (closure cx a bx) (\<lambda>cx'. moves_to cx [int (cx_pc cx) + int (child_upvalues (cx_proto cx) (nat bx))] (HS_Continue, cx'))" for a bx
  proof (cases "bx < 0 \<or> int (length (sub_protos (cx_proto cx))) \<le> bx")
    case False
    have capture: "results (bind (capture_upvalues cx fa (unat (pd_nups (proto_data child)))) (\<lambda>cx'. seqx (write_reg a v) (ret cx')))
        (\<lambda>cx'. moves_to cx [int (cx_pc cx) + int (child_upvalues (cx_proto cx) (nat bx))] (HS_Continue, cx'))"
      if "sub_protos (cx_proto cx) ! nat bx = Some child" for child fa v
      using that False
      by (intro results_bind2 [OF results_capture] results_bind results_ret)
        (auto simp: moves_to_def child_upvalues_def getSubProto_def)
    show ?thesis
      unfolding closure_def using False
      by (simp only: if_False) (rule results_option, rule results_any, (rule capture, assumption | rule results_bind)+)
  qed (simp add: closure_def result_intros)
  then show ?thesis unfolding handleClosure_def by (rule results_bind2) (rule results_proceed)
qed

section \<open>The loop\<close>

lemma handler_table:
  "handlerFor E call (Some oc) = Some (case oc of
      OP_MOVE \<Rightarrow> handleMove | OP_LOADK \<Rightarrow> handleLoadK | OP_LOADBOOL \<Rightarrow> handleLoadBool | OP_LOADNIL \<Rightarrow> handleLoadNil
    | OP_GETUPVAL \<Rightarrow> handleGetUpval | OP_GETGLOBAL \<Rightarrow> handleGetGlobal E call | OP_GETTABLE \<Rightarrow> handleGetTable E call
    | OP_SETGLOBAL \<Rightarrow> handleSetGlobal E call | OP_SETUPVAL \<Rightarrow> handleSetUpval | OP_SETTABLE \<Rightarrow> handleSetTable E call
    | OP_NEWTABLE \<Rightarrow> handleNewTable | OP_SELF \<Rightarrow> handleSelf E call | OP_UNM \<Rightarrow> handleUnaryMinus E call
    | OP_NOT \<Rightarrow> handleNot | OP_LEN \<Rightarrow> handleLength E call | OP_CONCAT \<Rightarrow> handleConcat E call | OP_JMP \<Rightarrow> handleJump
    | OP_EQ \<Rightarrow> handleComparison E call | OP_LT \<Rightarrow> handleComparison E call | OP_LE \<Rightarrow> handleComparison E call
    | OP_TEST \<Rightarrow> handleTest | OP_TESTSET \<Rightarrow> handleTestSet | OP_CALL \<Rightarrow> handleCall E | OP_TAILCALL \<Rightarrow> handleTailCall E
    | OP_RETURN \<Rightarrow> handleReturn | OP_FORLOOP \<Rightarrow> handleForLoop | OP_FORPREP \<Rightarrow> handleForPrep E
    | OP_TFORLOOP \<Rightarrow> handleTForLoop call | OP_SETLIST \<Rightarrow> handleSetList E | OP_CLOSE \<Rightarrow> handleClose
    | OP_CLOSURE \<Rightarrow> handleClosure | OP_VARARG \<Rightarrow> handleVararg | _ \<Rightarrow> handleArithmetic E call)"
  unfolding handlerFor_def handlerTable_def registerDataHandlers_def registerGlobalUpvalueHandlers_def
    registerTableHandlers_def registerArithmeticHandlers_def registerUnaryHandlers_def registerBranchHandlers_def
    registerLoopHandlers_def registerClosureHandlers_def registerCallHandlers_def
  by (cases oc) simp_all

lemma dispatch_known:
  "GET_OPCODE i = Some oc \<Longrightarrow> dispatch E call cx i = the (handlerFor E call (Some oc)) cx i"
  by (simp add: dispatch_def runHandler_def handler_table)

lemma fetched_simps [simp]: "cx_function (fetched cx) = cx_function cx" "cx_proto (fetched cx) = cx_proto cx"
  "cx_pc (fetched cx) = cx_pc cx + 1"
  by (simp_all add: fetched_def)

text \<open>The agreement of the handlers with \<open>flow_succ\<close>.\<close>

lemma dispatch_flow:
  assumes "GET_OPCODE (context_code cx ! cx_pc cx) = Some oc"
    and "before_jump (context_code cx ! cx_pc cx) \<Longrightarrow> cx_pc cx + 1 < length (context_code cx)"
  shows "results (dispatch E call (fetched cx) (context_code cx ! cx_pc cx))
    (moves_to (fetched cx) (flow_succ (cx_proto cx) (cx_pc cx)))"
proof -
  let ?i = "context_code cx ! cx_pc cx" and ?c = "fetched cx"
  have tfor: "oc = OP_TFORLOOP \<Longrightarrow> results (handleTForLoop call ?c ?i) (moves_to ?c (after_jump ?c))"
    using assms by (intro results_tforloop) (simp add: before_jump_def)
  have weaken: "results m (moves_to ?c ts) \<Longrightarrow> set ts \<subseteq> set ts' \<Longrightarrow> results m (moves_to ?c ts')" for m ts ts'
    unfolding results_def moves_to_def by (meson image_mono subsetD)
  show ?thesis
    unfolding dispatch_known [OF assms(1)] handler_table option.sel
    using assms(1)
    by (cases oc; simp only: opcode.case)
      (rule weaken, (rule results_next results_calls results_branch results_test results_setlist results_closure
          | rule tfor, assumption), force simp add: flow_succ_def width_def extended_setlist_def before_jump_def Let_def)+
qed

text \<open>One turn of the loop that goes on in the same function.\<close>

inductive vm_step :: "vm_env \<Rightarrow> call \<Rightarrow> op_context \<times> vm \<Rightarrow> op_context \<times> vm \<Rightarrow> bool" for E call where
  vm_step: "cx_pc cx < length (context_code cx) \<Longrightarrow> seqx (enforceExecutionPolicy E) (save_pc (fetched cx)) s = (Done (), s1) \<Longrightarrow>
    dispatch E call (fetched cx) (context_code cx ! cx_pc cx) s1 = (Done (HS_Continue, cx'), s') \<Longrightarrow>
    vm_step E call (cx, s) (cx', s')"

inductive_cases vm_stepE: "vm_step E call (cx, s) (cx', s')"

lemma turn_unfold: "loop_step E call again cx =
  (if length (context_code cx) \<le> cx_pc cx then ret ER_Returned
   else seqx (enforceExecutionPolicy E) (seqx (save_pc (fetched cx))
     (bind (dispatch E call (fetched cx) (context_code cx ! cx_pc cx)) (\<lambda>(status, cx2). case status of
        HS_Continue \<Rightarrow> again cx2
      | HS_Reenter \<Rightarrow> bind (enter_frame (cx_nexeccalls cx2)) again
      | HS_Yielded \<Rightarrow> ret ER_Yielded
      | HS_Returned \<Rightarrow> ret ER_Returned))))"
  by (simp add: loop_step_def turn_def fetched_def Let_def)

text \<open>The turns of the loop are the steps.\<close>

lemma loop_follows_step:
  assumes "vm_step E call (cx, s) (cx', s')" shows "loop_step E call again cx s = again cx' s'"
  using assms by (cases rule: vm_stepE) (auto simp: turn_unfold bind_eq_Done bind_def split: prod.splits outcome.splits)

lemma step_in_flow:
  assumes ok: "proto_ok (cx_proto cx)" and len: "length (context_code cx) < 2 ^ 64"
    and reach: "flow_reach (cx_proto cx) (int (cx_pc cx))" and step: "vm_step E call (cx, s) (cx', s')"
  shows "same_code cx cx' \<and> flow_reach (cx_proto cx) (int (cx_pc cx'))"
proof -
  obtain s1 where 1: "cx_pc cx < length (context_code cx)" "seqx (enforceExecutionPolicy E) (save_pc (fetched cx)) s = (Done (), s1)"
    "dispatch E call (fetched cx) (context_code cx ! cx_pc cx) s1 = (Done (HS_Continue, cx'), s')"
    using step by (rule vm_stepE)
  let ?p = "cx_proto cx"
  have start: "instr_start ?p (cx_pc cx)" using flow_invariant [OF ok reach] by simp
  then have i: "instr_ok ?p (cx_pc cx)" using ok 1(1) by (simp add: proto_ok_def)
  then obtain oc where oc: "GET_OPCODE (context_code cx ! cx_pc cx) = Some oc" by (auto simp: instr_ok_def Let_def)
  have "before_jump (context_code cx ! cx_pc cx) \<Longrightarrow> cx_pc cx + 1 < length (context_code cx)"
    using i by (auto simp: instr_ok_def shape_ok_def Let_def)
  from resultsD [OF dispatch_flow [OF oc this] 1(3)]
  have m: "moves_to (fetched cx) (flow_succ ?p (cx_pc cx)) (HS_Continue, cx')" by blast
  then obtain t where t: "t \<in> set (flow_succ ?p (cx_pc cx))" "int (cx_pc cx') = t mod 2 ^ 64"
    using 1(1) len by (auto simp: moves_to_def)
  have "0 \<le> t" "t \<le> int (length (context_code cx))" using flow_target [OF ok start 1(1) t(1)] by blast+
  then have "int (cx_pc cx') = t" using t(2) len by simp
  then show ?thesis
    using flow_reach.follow [OF reach 1(1) t(1)] m by (simp add: moves_to_def same_code_def)
qed

lemma steps_in_flow:
  assumes "proto_ok (cx_proto cx)" "length (context_code cx) < 2 ^ 64" "flow_reach (cx_proto cx) (int (cx_pc cx))"
    "(vm_step E call)\<^sup>*\<^sup>* (cx, s) (cx', s')"
  shows "same_code cx cx' \<and> flow_reach (cx_proto cx) (int (cx_pc cx'))"
  using assms(4)
proof (induction "(cx', s')" arbitrary: cx' s' rule: rtranclp_induct)
  case base
  then show ?case using assms(3) by (simp add: same_code_def)
next
  case (step y)
  obtain c1 s1 where y: "y = (c1, s1)" by (cases y)
  have c1: "same_code cx c1" "flow_reach (cx_proto cx) (int (cx_pc c1))" using step(3) y by blast+
  then show ?case
    using step_in_flow [of c1 E call s1 cx' s'] step(2) y assms(1,2) by (simp add: same_code_def)
qed

section \<open>Properties\<close>

text \<open>C19. Accepted code keeps the loop on its feet: whatever the state, the environment and the functions it
  calls are, turn after turn in a function of an accepted tree the machine stays in that function, and
  its counter is at the end of the code or at the start of an instruction the two back ends run with
  the same handler, never on a data word, and whose registers, constants and upvalues are in range.\<close>

theorem verified_code_runs:
  assumes "verify limits root = Inr ()" "(d, cx_proto cx) \<in> set (nodes 1 root)" "length (context_code cx) < 2 ^ 64"
    and "flow_reach (cx_proto cx) (int (cx_pc cx))" "(vm_step E call)\<^sup>*\<^sup>* (cx, s) (cx', s')"
  shows "cx_function cx' = cx_function cx \<and> cx_proto cx' = cx_proto cx \<and>
    (cx_pc cx' = length (context_code cx') \<or>
     cx_pc cx' < length (context_code cx') \<and> instr_start (cx_proto cx') (cx_pc cx') \<and>
     (\<exists>h. handlerFor E call (GET_OPCODE (context_code cx' ! cx_pc cx')) = Some h \<and>
        dispatch E call (fetched cx') (context_code cx' ! cx_pc cx') = h (fetched cx') (context_code cx' ! cx_pc cx')) \<and>
     instr_ok (cx_proto cx') (cx_pc cx'))"
proof -
  let ?p = "cx_proto cx" and ?i = "context_code cx ! cx_pc cx'"
  have ok: "proto_ok ?p" using assms(1,2) by (auto simp: verify_well_formed well_formed_def)
  from steps_in_flow [OF ok assms(3-5)]
  have same: "cx_function cx' = cx_function cx" "cx_proto cx' = ?p" and reach: "flow_reach ?p (int (cx_pc cx'))"
    by (simp_all add: same_code_def)
  note inv = flow_invariant [OF ok reach]
  show ?thesis
  proof (cases "cx_pc cx' = length (context_code cx)")
    case False
    then have pc: "cx_pc cx' < length (context_code cx)" "instr_start ?p (cx_pc cx')" using inv by auto
    then have i: "instr_ok ?p (cx_pc cx')" using ok by (simp add: proto_ok_def)
    then obtain oc where "GET_OPCODE ?i = Some oc" by (auto simp: instr_ok_def Let_def)
    then show ?thesis using same pc i by (auto simp: dispatch_known handler_table)
  qed (simp add: same)
qed

text \<open>A jump over a \<open>LOADNIL\<close> to the final \<open>RETURN\<close>.\<close>

definition jump_code :: "instruction list" where
  "jump_code = [CREATE_AsBx OP_JMP 0 1, CREATE_ABC OP_LOADNIL 0 0 0, CREATE_ABC OP_RETURN 0 1 0]"

lemma jump_code_verified: "verify small_limits (tiny_proto jump_code) = Inr ()"
  unfolding jump_code_def by code_simp

theorem verified_code_runs_witness:
  "\<exists>s'. vm_step run_env (\<lambda>_ _. fault) (\<lparr>cx_function = 0, cx_proto = tiny_proto jump_code, cx_pc = 0, cx_instructionPc = 0, cx_nexeccalls = 1\<rparr>,
       run_vm jump_code)
     (\<lparr>cx_function = 0, cx_proto = tiny_proto jump_code, cx_pc = 2, cx_instructionPc = 0, cx_nexeccalls = 1\<rparr>, s') \<and>
     instr_ok (tiny_proto jump_code) 2"
proof -
  let ?cx = "\<lparr>cx_function = 0, cx_proto = tiny_proto jump_code, cx_pc = 0, cx_instructionPc = 0, cx_nexeccalls = 1\<rparr>"
  let ?cx' = "\<lparr>cx_function = 0, cx_proto = tiny_proto jump_code, cx_pc = 2, cx_instructionPc = 0, cx_nexeccalls = 1\<rparr>"
  have node: "(1, tiny_proto jump_code) \<in> set (nodes 1 (tiny_proto jump_code))" by (simp add: tiny_proto_def)
  have code: "GET_OPCODE (CREATE_AsBx OP_JMP 0 1) = Some OP_JMP" "GETARG_sBx (CREATE_AsBx OP_JMP 0 1) = 1"
    by code_simp+
  have d: "dispatch run_env (\<lambda>_ _. fault) (fetched ?cx) (CREATE_AsBx OP_JMP 0 1) s = (Done (HS_Continue, ?cx'), s)" for s
    by (simp add: dispatch_known [OF code(1)] handler_table handleJump_def code(2) proceed_def ret_def jump_by_def add_pc_def fetched_def)
  have len: "length jump_code = 3" "jump_code ! 0 = CREATE_AsBx OP_JMP 0 1" by (simp_all add: jump_code_def)
  obtain s1 where s1: "seqx (enforceExecutionPolicy run_env) (save_pc (fetched ?cx)) (run_vm jump_code) = (Done (), s1)"
    by (simp add: bind_def enforceExecutionPolicy_def xp_consumeInstruction_def xp_pollStop_def run_vm_def run_env_def
        new_exec_policy_def save_pc_def update_ci_def Unlimited_def)
  have step: "vm_step run_env (\<lambda>_ _. fault) (?cx, run_vm jump_code) (?cx', s1)"
    using d len by (intro vm_step [OF _ s1]) (simp_all add: tiny_proto_def)
  have "instr_ok (tiny_proto jump_code) 2"
    using verified_code_runs [OF jump_code_verified, of 1 ?cx run_env "\<lambda>_ _. fault" "run_vm jump_code" ?cx' s1] node step len(1)
      flow_reach.entry [of "tiny_proto jump_code"]
    by (auto simp: tiny_proto_def)
  then show ?thesis using step by blast
qed


end
