(* ===== verification/VMLoops.thy ===== *)
theory VMLoops
  imports VMRuns
begin

text \<open>
  The numeric \<open>for\<close>: \<open>FORPREP\<close> and \<open>FORLOOP\<close> around a body that leaves the loop's three hidden registers
  alone run the body once for each number of the progression, in order, and then leave the loop.
\<close>

section \<open>Registers\<close>

definition frame_base :: "vm \<Rightarrow> nat" where
  "frame_base s = ci_base (current_ci s)"

definition reg :: "vm \<Rightarrow> nat \<Rightarrow> lua_value" where
  "reg s r = sk_slots (vm_stack s) ! (frame_base s + r)"

text \<open>The first \<open>n\<close> registers of the current frame are allocated.\<close>

definition regs_ok :: "vm \<Rightarrow> nat \<Rightarrow> bool" where
  "regs_ok s n \<longleftrightarrow> vm_currentCI s < length (vm_callStack s) \<and> frame_base s + n \<le> length (sk_slots (vm_stack s))"

definition set_reg :: "nat \<Rightarrow> lua_value \<Rightarrow> vm \<Rightarrow> vm" where
  "set_reg r v s = s\<lparr>vm_stack := vm_stack s\<lparr>sk_slots := (sk_slots (vm_stack s))[frame_base s + r := v]\<rparr>\<rparr>"

lemma set_reg_simps [simp]: "frame_base (set_reg r v s) = frame_base s" "regs_ok (set_reg r v s) n = regs_ok s n"
  by (simp_all add: set_reg_def frame_base_def regs_ok_def)

lemma reg_set_reg: "regs_ok s n \<Longrightarrow> r < n \<Longrightarrow> q < n \<Longrightarrow> reg (set_reg r v s) q = (if q = r then v else reg s q)"
  by (auto simp: reg_def set_reg_def regs_ok_def frame_base_def nth_list_update)

lemma read_reg_ok: "regs_ok s n \<Longrightarrow> 0 \<le> r \<Longrightarrow> nat r < n \<Longrightarrow> read_reg r s = (Done (reg s (nat r)), s)"
  by (simp add: read_reg_def refreshBase_def getCurrentCallInfo_def regs_ok_def bind_def ret_def read_slot_def of_stack_def
      stack_index_def reg_def frame_base_def)

lemma write_reg_ok: "regs_ok s n \<Longrightarrow> 0 \<le> r \<Longrightarrow> nat r < n \<Longrightarrow> write_reg r v s = (Done (), set_reg (nat r) v s)"
  by (simp add: write_reg_def refreshBase_def getCurrentCallInfo_def regs_ok_def bind_def ret_def write_slot_def on_stack_def
      stack_put_index_def set_reg_def frame_base_def)

section \<open>The two instructions\<close>

abbreviation int_value :: "int \<Rightarrow> lua_value" where
  "int_value n \<equiv> VNumber (f64_of_int n)"

definition goes_on :: "int \<Rightarrow> int \<Rightarrow> int \<Rightarrow> bool" where
  "goes_on idx limit step \<longleftrightarrow> (if 0 < step then idx \<le> limit else limit \<le> idx)"

text \<open>The hidden registers: index, limit, step.\<close>

definition loop_regs :: "nat \<Rightarrow> int \<Rightarrow> int \<Rightarrow> int \<Rightarrow> vm \<Rightarrow> bool" where
  "loop_regs a idx limit step s \<longleftrightarrow> regs_ok s (a + 4) \<and>
     reg s a = int_value idx \<and> reg s (a + 1) = int_value limit \<and> reg s (a + 2) = int_value step"

definition small :: "int \<Rightarrow> bool" where
  "small n \<longleftrightarrow> \<bar>n\<bar> < 2 ^ 51"

lemma small_arith: "small x \<Longrightarrow> small y \<Longrightarrow> \<bar>x\<bar> < 2 ^ 53 \<and> \<bar>x + y\<bar> < 2 ^ 52 \<and> \<bar>x - y\<bar> < 2 ^ 52"
  by (auto simp: small_def)

lemma forprep_int:
  assumes regs: "loop_regs a init limit step s" and "GETARG_A inst = int a" "small init" "small step" "step \<noteq> 0"
  shows "handleForPrep E cx inst s = (Done (HS_Continue, jump_by (GETARG_sBx inst) cx), set_reg a (int_value (init - step)) s)"
proof -
  have ok: "regs_ok s (a + 4)" and v: "reg s a = int_value init" "reg s (Suc a) = int_value limit" "reg s (Suc (Suc a)) = int_value step"
    using regs by (simp_all add: loop_regs_def)
  have r: "nat (int a + 1) = Suc a" "nat (int a + 2) = a + 2" by simp_all
  have sub: "f64_sub (f64_of_int init) (f64_of_int step) = f64_of_int (init - step)"
    using assms(3-5) small_arith by (intro f64_sub_of_int) (auto simp: small_def)
  show ?thesis
    unfolding handleForPrep_def coerceNumber_def Let_def assms(2)
    by (simp add: bind_def ret_def read_reg_ok [OF ok] write_reg_ok [OF ok] v r sub proceed_def)
qed

lemma forloop_int:
  assumes regs: "loop_regs a idx limit step s" and "GETARG_A inst = int a"
    and small: "\<bar>idx\<bar> < 2 ^ 52" "small limit" "small step" "\<bar>idx + step\<bar> < 2 ^ 53"
  shows "handleForLoop cx inst s =
    (if goes_on (idx + step) limit step
     then (Done (HS_Continue, jump_by (GETARG_sBx inst) cx), set_reg (a + 3) (int_value (idx + step)) (set_reg a (int_value (idx + step)) s))
     else (Done (HS_Continue, cx), s))"
proof -
  have ok: "regs_ok s (a + 4)" and v: "reg s a = int_value idx" "reg s (Suc a) = int_value limit" "reg s (Suc (Suc a)) = int_value step"
    using regs by (simp_all add: loop_regs_def)
  have r: "nat (int a + 1) = Suc a" "nat (int a + 2) = a + 2" "nat (int a + 3) = a + 3" by simp_all
  have b: "\<bar>idx\<bar> < 2 ^ 53" "\<bar>limit\<bar> < 2 ^ 53" "\<bar>step\<bar> < 2 ^ 53" using small by (auto simp: small_def)
  have add: "f64_add (f64_of_int idx) (f64_of_int step) = f64_of_int (idx + step)"
    using b small(4) by (intro f64_add_of_int)
  note int = f64_of_int_is_int [OF small(4)] f64_of_int_is_int [OF b(2)] f64_of_int_is_int [OF b(3)]
  have zero: "is_int_f64 f64_zero 0" by (rule f64_zero_is_int)
  note test = is_int_f64_lt [OF zero int(3)] is_int_f64_le [OF int(1,2)] is_int_f64_le [OF int(2,1)]
  show ?thesis
    unfolding handleForLoop_def Let_def assms(2)
    by (simp add: bind_def ret_def read_reg_ok [OF ok] write_reg_ok [OF ok] write_reg_ok [where n = "a + 4"] ok v r add test goes_on_def proceed_def)
qed

section \<open>The loop\<close>

text \<open>Run \<open>FORLOOP\<close> and the body in turn until \<open>FORLOOP\<close> does not jump back: the values the loop variable
  had in the body and the final state. \<open>None\<close>: not within \<open>n\<close> turns, or an error.\<close>

fun for_run :: "op_context \<Rightarrow> instruction \<Rightarrow> (vm \<Rightarrow> vm) \<Rightarrow> nat \<Rightarrow> vm \<Rightarrow> (lua_value list \<times> vm) option" where
  "for_run cx inst body 0 s = None"
| "for_run cx inst body (Suc n) s =
     (case handleForLoop cx inst s of
        (Done (HS_Continue, cx'), s1) \<Rightarrow>
          if cx_pc cx' = cx_pc cx then Some ([], s1)
          else (case for_run cx inst body n (body s1) of
                  Some (vs, s2) \<Rightarrow> Some (reg s1 (nat (GETARG_A inst) + 3) # vs, s2) | None \<Rightarrow> None)
      | _ \<Rightarrow> None)"

text \<open>A body keeps the frame and the hidden registers; it may do anything else.\<close>

definition keeps_loop :: "nat \<Rightarrow> (vm \<Rightarrow> vm) \<Rightarrow> bool" where
  "keeps_loop a body \<longleftrightarrow> (\<forall>s idx limit step. loop_regs a idx limit step s \<longrightarrow> loop_regs a idx limit step (body s))"

definition progression :: "int \<Rightarrow> int \<Rightarrow> nat \<Rightarrow> int list" where
  "progression init step n = map (\<lambda>k. init + int k * step) [0..<n]"

lemma progression_Suc: "progression init step (Suc n) = init # progression (init + step) step n"
  by (simp add: progression_def upt_conv_Cons map_Suc_upt [symmetric] algebra_simps del: upt_Suc)

definition turns :: "int \<Rightarrow> int \<Rightarrow> int \<Rightarrow> nat" where
  "turns init limit step = nat ((limit - init) div step + 1)"

lemma turns_step:
  assumes "step \<noteq> 0"
  shows "turns init limit step = (if goes_on init limit step then Suc (turns (init + step) limit step) else 0)"
proof -
  have d: "(limit - (init + step)) div step = (limit - init) div step - 1"
  proof -
    have "limit - (init + step) = (limit - init) + (-1) * step" by simp
    then have "(limit - (init + step)) div step = ((limit - init) + (-1) * step) div step" by (rule arg_cong)
    also have "\<dots> = -1 + (limit - init) div step" using assms by (rule div_mult_self1)
    finally show ?thesis by simp
  qed
  have "0 \<le> (limit - init) div step \<longleftrightarrow> goes_on init limit step"
    using assms by (auto simp: goes_on_def pos_imp_zdiv_nonneg_iff neg_imp_zdiv_nonneg_iff)
  then show ?thesis using d by (auto simp: turns_def nat_eq_iff)
qed

lemma for_run_int:
  assumes "GETARG_A inst = int a" "step \<noteq> 0" "small limit" "small step" "keeps_loop a body"
    and jump: "add_pc (cx_pc cx) (GETARG_sBx inst) \<noteq> cx_pc cx"
  shows "loop_regs a idx limit step s \<Longrightarrow> \<bar>idx\<bar> < 2 ^ 52 \<Longrightarrow> turns (idx + step) limit step \<le> n \<Longrightarrow>
    \<exists>s'. for_run cx inst body (Suc n) s = Some (map int_value (progression (idx + step) step (turns (idx + step) limit step)), s')"
proof (induction n arbitrary: idx s)
  case (0 idx s)
  have "\<bar>idx + step\<bar> < 2 ^ 53" using 0(2) assms(4) by (auto simp: small_def)
  then have "handleForLoop cx inst s = (Done (HS_Continue, cx), s)"
    using forloop_int [OF 0(1) assms(1) 0(2) assms(3,4)] 0(3) turns_step [OF assms(2), of "idx + step" limit]
    by (simp split: if_splits)
  then show ?case using 0(3) by (simp add: progression_def)
next
  case (Suc n idx s)
  have b: "\<bar>idx + step\<bar> < 2 ^ 53" using Suc.prems(2) assms(4) by (auto simp: small_def)
  note run = forloop_int [OF Suc.prems(1) assms(1) Suc.prems(2) assms(3,4) b, of cx]
  show ?case
  proof (cases "goes_on (idx + step) limit step")
    case False
    then show ?thesis
      using run turns_step [OF assms(2), of "idx + step" limit] by (simp add: progression_def)
  next
    case True
    let ?s1 = "set_reg (a + 3) (int_value (idx + step)) (set_reg a (int_value (idx + step)) s)"
    have ok: "regs_ok s (a + 4)" using Suc.prems(1) by (simp add: loop_regs_def)
    have regs1: "loop_regs a (idx + step) limit step ?s1"
      using Suc.prems(1) ok by (simp add: loop_regs_def reg_set_reg [where n = "a + 4"])
    have near: "\<bar>idx + step\<bar> < 2 ^ 52"
      using True Suc.prems(2) assms(3,4) by (auto simp: goes_on_def small_def split: if_splits)
    have t: "turns (idx + step) limit step = Suc (turns (idx + step + step) limit step)"
      using turns_step [OF assms(2), of "idx + step" limit] True by simp
    obtain s' where s': "for_run cx inst body (Suc n) (body ?s1) =
        Some (map int_value (progression (idx + step + step) step (turns (idx + step + step) limit step)), s')"
      using Suc.IH [of "idx + step" "body ?s1"] regs1 near t Suc.prems(3) assms(5) by (auto simp: keeps_loop_def)
    have "cx_pc (jump_by (GETARG_sBx inst) cx) \<noteq> cx_pc cx" using jump by (simp add: jump_by_def)
    moreover have "reg ?s1 (a + 3) = int_value (idx + step)" using ok by (simp add: reg_set_reg [where n = "a + 4"])
    ultimately show ?thesis
      using run True s' assms(1) unfolding t progression_Suc for_run.simps(2) [of cx inst body "Suc n"] by simp
  qed
qed

text \<open>C20. A numeric \<open>for\<close> over integers runs its body once for each number of the progression and then
  stops: from \<open>FORPREP\<close> on, whatever the body does besides leaving the hidden registers alone, the loop
  variable takes exactly the values \<open>init, init + step, \<dots>\<close> up to the limit, in order and in either
  direction, and \<open>FORLOOP\<close> leaves the loop after the last one; with no value in range the body is never
  run. The bound of \<open>2 ^ 51\<close> keeps the sums exact.\<close>

theorem numeric_for_runs:
  assumes "loop_regs a init limit step s" "GETARG_A prep = int a" "GETARG_A loop = int a" "step \<noteq> 0"
    and "small init" "small limit" "small step" "keeps_loop a body" "add_pc (cx_pc cx) (GETARG_sBx loop) \<noteq> cx_pc cx"
  shows "\<exists>s1 s'. handleForPrep E cx0 prep s = (Done (HS_Continue, jump_by (GETARG_sBx prep) cx0), s1) \<and>
    for_run cx loop body (Suc (turns init limit step)) s1 =
      Some (map int_value (progression init step (turns init limit step)), s')"
proof -
  let ?s1 = "set_reg a (int_value (init - step)) s"
  have regs: "loop_regs a (init - step) limit step ?s1"
    using assms(1) by (simp add: loop_regs_def reg_set_reg [where n = "a + 4"])
  have "\<bar>init - step\<bar> < 2 ^ 52" using assms(5,7) by (auto simp: small_def)
  then show ?thesis
    using forprep_int [OF assms(1,2,5,7,4)] for_run_int [OF assms(3,4,6,7,8,9) regs, of "turns init limit step"] by auto
qed

text \<open>\<open>for i = 5, 1, -2\<close> sees 5, 3 and 1.\<close>

definition count_down :: vm where
  "count_down = (run_vm [])\<lparr>vm_stack := \<lparr>sk_slots = [VFunction 0, int_value 5, int_value 1, int_value (-2), VNil],
     sk_top = 5, sk_policy = None\<rparr>\<rparr>"

definition count_cx :: op_context where
  "count_cx = \<lparr>cx_function = 0, cx_proto = tiny_proto [], cx_pc = 4, cx_instructionPc = 3, cx_nexeccalls = 1\<rparr>"

theorem numeric_for_runs_witness:
  "\<exists>s1 s'. handleForPrep run_env count_cx (CREATE_AsBx OP_FORPREP 0 1) count_down = (Done (HS_Continue, jump_by 1 count_cx), s1) \<and>
    for_run count_cx (CREATE_AsBx OP_FORLOOP 0 (-2)) (\<lambda>s. s) 4 s1 = Some ([int_value 5, int_value 3, int_value 1], s')"
proof -
  have code: "GETARG_A (CREATE_AsBx OP_FORPREP 0 1) = int 0" "GETARG_sBx (CREATE_AsBx OP_FORPREP 0 1) = 1"
    "GETARG_A (CREATE_AsBx OP_FORLOOP 0 (-2)) = int 0" "GETARG_sBx (CREATE_AsBx OP_FORLOOP 0 (-2)) = -2" by code_simp+
  have regs: "loop_regs 0 5 1 (-2) count_down"
    by (simp add: loop_regs_def regs_ok_def reg_def frame_base_def count_down_def run_vm_def)
  have body: "keeps_loop 0 (\<lambda>s. s)" by (simp add: keeps_loop_def)
  have t: "turns 5 1 (-2) = 3" by (simp add: turns_def)
  have p: "progression 5 (-2) 3 = [5, 3, 1]" by (simp add: progression_def upt_rec)
  have jump: "add_pc (cx_pc count_cx) (GETARG_sBx (CREATE_AsBx OP_FORLOOP 0 (-2))) \<noteq> cx_pc count_cx"
    by (simp add: code(4) add_pc_def count_cx_def)
  from numeric_for_runs [OF regs code(1,3) _ _ _ _ body jump, of run_env count_cx, unfolded t p code(2)]
  show ?thesis by (simp add: small_def numeral_eq_Suc)
qed

end
