(* ===== verification/VMResults.thy ===== *)
theory VMResults
  imports VMRuns
begin

text \<open>
  What \<open>postcall\<close> leaves on the stack: the results the caller asked for, in order, padded with nil,
  everything below untouched and nothing of the callee above.
\<close>

section \<open>Stack effects\<close>

text \<open>From \<open>s\<close>, only the stack changed: its slots hold \<open>f\<close> and its size is \<open>n\<close>.\<close>

definition stack_to :: "vm \<Rightarrow> (nat \<Rightarrow> lua_value) \<Rightarrow> nat \<Rightarrow> vm \<Rightarrow> bool" where
  "stack_to s f n s' \<longleftrightarrow> s' = s\<lparr>vm_stack := vm_stack s'\<rparr> \<and> stack_ok (vm_stack s') \<and>
     sk_policy (vm_stack s') = sk_policy (vm_stack s) \<and> sk_top (vm_stack s') = n \<and>
     length (sk_slots (vm_stack s)) \<le> length (sk_slots (vm_stack s')) \<and> slot (vm_stack s') = f"

lemma stack_to_refl: "stack_ok (vm_stack s) \<Longrightarrow> stack_to s (slot (vm_stack s)) (sk_top (vm_stack s)) s"
  by (simp add: stack_to_def)

lemma stack_to_trans: "stack_to s f n s1 \<Longrightarrow> stack_to s1 g m s2 \<Longrightarrow> stack_to s g m s2"
  unfolding stack_to_def by (metis (no_types, lifting) le_trans vm.surjective vm.update_convs(1))

lemma stack_to_keeps:
  assumes "stack_to s f n s'"
  shows "vm_top s' = vm_top s" "vm_callStack s' = vm_callStack s" "vm_currentCI s' = vm_currentCI s"
    "sk_top (vm_stack s') = n" "stack_ok (vm_stack s')" "slot (vm_stack s') = f"
    "sk_policy (vm_stack s') = sk_policy (vm_stack s)" "n \<le> length (sk_slots (vm_stack s'))"
proof -
  have "s' = s\<lparr>vm_stack := vm_stack s'\<rparr>" using assms by (simp add: stack_to_def)
  then show "vm_top s' = vm_top s" "vm_callStack s' = vm_callStack s" "vm_currentCI s' = vm_currentCI s"
    by (metis vm.select_convs(2-4) vm.surjective vm.update_convs(1))+
qed (use assms in \<open>auto simp: stack_to_def stack_ok_def\<close>)

lemma write_slot_to:
  assumes "stack_ok (vm_stack s)" "i < length (sk_slots (vm_stack s))"
  shows "\<exists>s'. write_slot i v s = (Done (), s') \<and> stack_to s ((slot (vm_stack s))(i := v)) (sk_top (vm_stack s)) s'"
  using assms
  by (auto simp: write_slot_def on_stack_def stack_put_index_def stack_to_def stack_ok_def slot_def fun_eq_iff)

lemma read_slot_to: "i < length (sk_slots (vm_stack s)) \<Longrightarrow> read_slot i s = (Done (slot (vm_stack s) i), s)"
  by (simp add: read_slot_def of_stack_def stack_index_def slot_def)

lemma push_nil_to:
  assumes "stack_ok (vm_stack s)"
  shows "(\<exists>s'. on_stack (stack_push VNil) s = (Done (), s') \<and>
      stack_to s ((slot (vm_stack s))(sk_top (vm_stack s) := VNil)) (Suc (sk_top (vm_stack s))) s') \<or>
    on_stack (stack_push VNil) s = (Raise stack_overflow, s) \<and> sk_top (vm_stack s) = stack_limit (sk_policy (vm_stack s))"
  using stack_push_cases [OF assms, of VNil]
  by (auto simp: on_stack_def stack_to_def fun_eq_iff split: if_splits)

lemma for_each_append: "for_each (xs @ ys) f = seqx (for_each xs f) (for_each ys f)"
  by (induction xs) (simp_all add: exec_simps)

lemma for_each_snoc: "for_each (xs @ [x]) f s = (case for_each xs f s of (Done _, s') \<Rightarrow> f x s' | r \<Rightarrow> r)"
proof -
  have "seqx (f x) (ret ()) = f x" by (auto simp: fun_eq_iff bind_def ret_def split: prod.splits outcome.splits)
  then show ?thesis by (auto simp: for_each_append bind_def split: prod.splits outcome.splits)
qed

text \<open>Copying results down.\<close>

lemma copy_down_to:
  assumes ok: "stack_ok (vm_stack s)" and le: "d \<le> f" and room: "f + m \<le> length (sk_slots (vm_stack s))"
  shows "\<exists>s'. for_each [0..<m] (\<lambda>i. copy_slot (f + i) (d + i)) s = (Done (), s') \<and>
    stack_to s (\<lambda>k. if d \<le> k \<and> k < d + m then slot (vm_stack s) (f + (k - d)) else slot (vm_stack s) k) (sk_top (vm_stack s)) s'"
  using room
proof (induction m)
  case 0
  have "(\<lambda>k. if d \<le> k \<and> k < d + 0 then slot (vm_stack s) (f + (k - d)) else slot (vm_stack s) k) = slot (vm_stack s)"
    by (auto simp: fun_eq_iff)
  then show ?case using stack_to_refl [OF ok] by (simp add: ret_def)
next
  case (Suc m)
  then obtain s1 where s1: "for_each [0..<m] (\<lambda>i. copy_slot (f + i) (d + i)) s = (Done (), s1)"
    "stack_to s (\<lambda>k. if d \<le> k \<and> k < d + m then slot (vm_stack s) (f + (k - d)) else slot (vm_stack s) k) (sk_top (vm_stack s)) s1"
    by auto
  note k = stack_to_keeps [OF s1(2)]
  have len: "f + m < length (sk_slots (vm_stack s1))" "d + m < length (sk_slots (vm_stack s1))"
    using s1(2) Suc.prems le by (auto simp: stack_to_def)
  have v: "slot (vm_stack s1) (f + m) = slot (vm_stack s) (f + m)" using k(6) le by simp
  obtain s2 where s2: "write_slot (d + m) (slot (vm_stack s) (f + m)) s1 = (Done (), s2)"
    "stack_to s1 ((slot (vm_stack s1))(d + m := slot (vm_stack s) (f + m))) (sk_top (vm_stack s1)) s2"
    using write_slot_to [OF k(5) len(2)] by blast
  have run: "for_each [0..<Suc m] (\<lambda>i. copy_slot (f + i) (d + i)) s = (Done (), s2)"
    using s1(1) s2(1) v by (simp add: for_each_snoc copy_slot_def bind_def read_slot_to [OF len(1)])
  have "(slot (vm_stack s1))(d + m := slot (vm_stack s) (f + m)) =
      (\<lambda>k. if d \<le> k \<and> k < d + Suc m then slot (vm_stack s) (f + (k - d)) else slot (vm_stack s) k)"
    unfolding k(6) by (auto simp: fun_eq_iff)
  then show ?case using run stack_to_trans [OF s1(2) s2(2)] k(4) by auto
qed

text \<open>Padding with nil from slot \<open>p\<close>: writing inside the stack, pushing at its end.\<close>

lemma pad_to:
  assumes ok: "stack_ok (vm_stack s)" and p: "p \<le> sk_top (vm_stack s)"
    and put: "\<And>k s. k < sk_top (vm_stack s) \<Longrightarrow> put k s = write_slot k VNil s"
    and pad: "\<And>i. pad i = bind stack_size (\<lambda>size. if size \<le> p + i then on_stack (stack_push VNil) else put (p + i))"
  shows "(\<exists>s'. for_each [0..<m] pad s = (Done (), s') \<and>
      stack_to s (\<lambda>k. if p \<le> k \<and> k < p + m then VNil else slot (vm_stack s) k) (max (sk_top (vm_stack s)) (p + m)) s') \<or>
    (\<exists>s'. for_each [0..<m] pad s = (Raise stack_overflow, s')) \<and> stack_limit (sk_policy (vm_stack s)) < p + m"
proof (induction m)
  case 0
  have "(\<lambda>k. if p \<le> k \<and> k < p + 0 then VNil else slot (vm_stack s) k) = slot (vm_stack s)" by (auto simp: fun_eq_iff)
  then show ?case using stack_to_refl [OF ok] p by (simp add: ret_def)
next
  case (Suc m)
  then show ?case
  proof
    assume "(\<exists>s'. for_each [0..<m] pad s = (Raise stack_overflow, s')) \<and> stack_limit (sk_policy (vm_stack s)) < p + m"
    then show ?thesis by (auto simp: for_each_snoc)
  next
    assume "\<exists>s'. for_each [0..<m] pad s = (Done (), s') \<and>
      stack_to s (\<lambda>k. if p \<le> k \<and> k < p + m then VNil else slot (vm_stack s) k) (max (sk_top (vm_stack s)) (p + m)) s'"
    then obtain s1 where s1: "for_each [0..<m] pad s = (Done (), s1)"
      "stack_to s (\<lambda>k. if p \<le> k \<and> k < p + m then VNil else slot (vm_stack s) k) (max (sk_top (vm_stack s)) (p + m)) s1" by blast
    note k = stack_to_keeps [OF s1(2)]
    have run: "for_each [0..<Suc m] pad s = pad m s1" using s1(1) by (simp add: for_each_snoc)
    have f: "(slot (vm_stack s1))(p + m := VNil) = (\<lambda>k. if p \<le> k \<and> k < p + Suc m then VNil else slot (vm_stack s) k)"
      unfolding k(6) by (auto simp: fun_eq_iff)
    show ?thesis
    proof (cases "sk_top (vm_stack s1) \<le> p + m")
      case True
      then have top: "sk_top (vm_stack s1) = p + m" using k(4) by simp
      have pm: "pad m s1 = on_stack (stack_push VNil) s1" using True by (simp add: pad bind_def gets_def)
      from push_nil_to [OF k(5)] show ?thesis
      proof
        assume "\<exists>s'. on_stack (stack_push VNil) s1 = (Done (), s') \<and>
          stack_to s1 ((slot (vm_stack s1))(sk_top (vm_stack s1) := VNil)) (Suc (sk_top (vm_stack s1))) s'"
        then show ?thesis using run pm f top k(4) stack_to_trans [OF s1(2)] by auto
      next
        assume "on_stack (stack_push VNil) s1 = (Raise stack_overflow, s1) \<and>
          sk_top (vm_stack s1) = stack_limit (sk_policy (vm_stack s1))"
        then show ?thesis using run pm top k(7) by auto
      qed
    next
      case False
      then have "pad m s1 = write_slot (p + m) VNil s1" by (simp add: pad bind_def gets_def put)
      moreover have "p + m < length (sk_slots (vm_stack s1))" using False k(5) by (simp add: stack_ok_def)
      ultimately obtain s2 where "pad m s1 = (Done (), s2)"
        "stack_to s1 ((slot (vm_stack s1))(p + m := VNil)) (sk_top (vm_stack s1)) s2"
        using write_slot_to [OF k(5)] by metis
      then show ?thesis using run f k(4) False stack_to_trans [OF s1(2)] by auto
    qed
  qed
qed

lemma clear_to:
  assumes ok: "stack_ok (vm_stack s)" and "i + m \<le> sk_top (vm_stack s)"
  shows "\<exists>s'. clear_slots i (i + m) s = (Done (), s') \<and>
    stack_to s (\<lambda>k. if i \<le> k \<and> k < i + m then VNil else slot (vm_stack s) k) (sk_top (vm_stack s)) s'"
  using assms(2)
proof (induction m)
  case 0
  have "(\<lambda>k. if i \<le> k \<and> k < i + 0 then VNil else slot (vm_stack s) k) = slot (vm_stack s)" by (auto simp: fun_eq_iff)
  then show ?case using stack_to_refl [OF ok] by (simp add: clear_slots_def ret_def)
next
  case (Suc m)
  then obtain s1 where s1: "clear_slots i (i + m) s = (Done (), s1)"
    "stack_to s (\<lambda>k. if i \<le> k \<and> k < i + m then VNil else slot (vm_stack s) k) (sk_top (vm_stack s)) s1" by auto
  note k = stack_to_keeps [OF s1(2)]
  have "i + m < length (sk_slots (vm_stack s1))" using Suc.prems k(4,8) by simp
  then obtain s2 where s2: "write_slot (i + m) VNil s1 = (Done (), s2)"
    "stack_to s1 ((slot (vm_stack s1))(i + m := VNil)) (sk_top (vm_stack s1)) s2"
    using write_slot_to [OF k(5)] by blast
  have "clear_slots i (i + Suc m) s = (Done (), s2)"
    using s1(1) s2(1) by (simp add: clear_slots_def for_each_snoc)
  moreover have "(slot (vm_stack s1))(i + m := VNil) = (\<lambda>k. if i \<le> k \<and> k < i + Suc m then VNil else slot (vm_stack s) k)"
    unfolding k(6) by (auto simp: fun_eq_iff)
  ultimately show ?case using stack_to_trans [OF s1(2) s2(2)] k(4) by auto
qed

section \<open>The phases of \<open>postcall\<close>\<close>

lemma for_each_map: "for_each (map g xs) f = for_each xs (\<lambda>x. f (g x))"
  by (induction xs) simp_all

lemma upto_map: "[int a..int b - 1] = map (\<lambda>i. int (a + i)) [0..<b - a]"
proof (induction b)
  case (Suc b)
  then show ?case by (cases "a \<le> b") (simp_all add: upto_rec2 Suc_diff_le)
qed simp

lemma upt_map: "a \<le> b \<Longrightarrow> [a..<b] = map (\<lambda>i. a + i) [0..<b - a]"
  using map_add_upt [of a "b - a"] by (simp add: add.commute)

lemma put_at_inside: "k < sk_top (vm_stack s) \<Longrightarrow> on_stack (stack_put_at k VNil) s = write_slot k VNil s"
  by (simp add: write_slot_def on_stack_def stack_put_at_def stack_put_index_def)

text \<open>The results from \<open>first\<close> to the old top, moved to \<open>dest\<close> and cut or padded to \<open>n\<close>.\<close>

definition delivered :: "(nat \<Rightarrow> lua_value) \<Rightarrow> nat \<Rightarrow> nat \<Rightarrow> nat \<Rightarrow> nat \<Rightarrow> nat \<Rightarrow> lua_value" where
  "delivered f dest first avail n k =
     (if dest \<le> k \<and> k < dest + n then (if k - dest < avail then f (first + (k - dest)) else VNil) else f k)"

definition result_count :: "nat \<Rightarrow> int \<Rightarrow> nat" where
  "result_count avail wanted = (if wanted < 0 then avail else nat wanted)"

lemma in_place_to:
  fixes wanted :: int
  assumes ok: "stack_ok (vm_stack s)" and d: "dest \<le> vm_top s" "vm_top s \<le> sk_top (vm_stack s)"
  defines "avail \<equiv> vm_top s - dest"
  defines "n \<equiv> result_count avail wanted"
  shows "(\<exists>s'. postcall_in_place dest wanted s = (Done (dest + n), s') \<and>
      stack_to s (delivered (slot (vm_stack s)) dest dest avail n) (max (sk_top (vm_stack s)) (dest + n)) s') \<or>
    (\<exists>s'. postcall_in_place dest wanted s = (Raise stack_overflow, s')) \<and> stack_limit (sk_policy (vm_stack s)) < dest + n"
proof (cases "wanted < 0")
  case True
  then have n: "n = avail" by (simp add: n_def result_count_def)
  have "postcall_in_place dest wanted s = (Done (dest + n), s)"
    using True d by (simp add: postcall_in_place_def bind_def gets_def ret_def Let_def n avail_def)
  moreover have "delivered (slot (vm_stack s)) dest dest avail n = slot (vm_stack s)"
    by (auto simp: delivered_def n fun_eq_iff)
  moreover have "max (sk_top (vm_stack s)) (dest + n) = sk_top (vm_stack s)" using d by (simp add: n avail_def)
  ultimately show ?thesis using stack_to_refl [OF ok] by auto
next
  case False
  then have n: "n = nat wanted" "wanted = int n" by (simp_all add: n_def result_count_def)
  define p where "p = dest + avail"
  define pad where "pad = (\<lambda>i. bind stack_size (\<lambda>size. if size \<le> p + i then on_stack (stack_push VNil) else on_stack (stack_put_at (p + i) VNil)))"
  have p: "p \<le> sk_top (vm_stack s)" using d by (simp add: p_def avail_def)
  have idx: "nat (int dest + (int avail + int i)) = p + i" for i by (simp add: p_def)
  have loop: "for_each [int avail..int n - 1] (\<lambda>i. bind stack_size (\<lambda>size. if size \<le> nat (int dest + i)
      then on_stack (stack_push VNil) else on_stack (stack_put_at (nat (int dest + i)) VNil))) = for_each [0..<n - avail] pad"
    by (simp add: upto_map for_each_map pad_def idx cong: if_cong)
  have "int (vm_top s) - int dest = int avail" "nat (int dest + int n) = dest + n" using d by (simp_all add: avail_def)
  then have run: "postcall_in_place dest wanted s = seqx (for_each [0..<n - avail] pad) (ret (dest + n)) s"
    unfolding postcall_in_place_def loop [symmetric] using n(2) by (simp add: bind_ret(4) Let_def)
  have f: "(\<lambda>k. if p \<le> k \<and> k < p + (n - avail) then VNil else slot (vm_stack s) k) =
      delivered (slot (vm_stack s)) dest dest avail n"
    by (auto simp: delivered_def p_def fun_eq_iff)
  have m: "max (sk_top (vm_stack s)) (p + (n - avail)) = max (sk_top (vm_stack s)) (dest + n)"
    using d by (cases "avail \<le> n") (auto simp: p_def avail_def max_def)
  have l: "p + (n - avail) \<le> dest + n \<or> p + (n - avail) \<le> sk_top (vm_stack s)"
    using p by (cases "avail \<le> n") (auto simp: p_def)
  have lim: "sk_top (vm_stack s) \<le> stack_limit (sk_policy (vm_stack s))" using ok by (simp add: stack_ok_def)
  from pad_to [OF ok p put_at_inside pad_def [THEN fun_cong], of "n - avail"] show ?thesis
    unfolding f m run using l lim by (auto simp: bind_def ret_def)
qed

lemma copy_to:
  fixes wanted :: int
  assumes ok: "stack_ok (vm_stack s)" and d: "dest \<le> first" "first \<le> vm_top s" "vm_top s \<le> sk_top (vm_stack s)"
  defines "avail \<equiv> vm_top s - first"
  defines "n \<equiv> result_count avail wanted"
  shows "(\<exists>s'. postcall_copy dest wanted first s = (Done (dest + n), s') \<and>
      stack_to s (delivered (slot (vm_stack s)) dest first avail n) (max (sk_top (vm_stack s)) (dest + n)) s') \<or>
    (\<exists>s'. postcall_copy dest wanted first s = (Raise stack_overflow, s')) \<and> stack_limit (sk_policy (vm_stack s)) < dest + n"
proof -
  define c where "c = min avail n"
  define p where "p = dest + c"
  define pad where "pad = (\<lambda>i. bind stack_size (\<lambda>size. if size \<le> p + i then on_stack (stack_push VNil) else write_slot (p + i) VNil))"
  have count: "(if wanted < 0 then int (vm_top s) - int first else wanted) = int n"
    "nat (min (int (vm_top s) - int first) (int n)) = c"
    using d by (auto simp: n_def avail_def result_count_def c_def min_def of_nat_diff nat_diff_distrib')
  have "first + c \<le> vm_top s" using d by (simp add: c_def avail_def)
  then have room: "first + c \<le> length (sk_slots (vm_stack s))" using d(3) ok by (simp add: stack_ok_def)
  obtain s1 where s1: "for_each [0..<c] (\<lambda>i. copy_slot (first + i) (dest + i)) s = (Done (), s1)"
    "stack_to s (\<lambda>k. if dest \<le> k \<and> k < dest + c then slot (vm_stack s) (first + (k - dest)) else slot (vm_stack s) k) (sk_top (vm_stack s)) s1"
    using copy_down_to [OF ok d(1) room] by blast
  note k = stack_to_keeps [OF s1(2)]
  have dir: "\<not> (first < dest \<and> dest < first + c)" using d(1) by simp
  have loop: "for_each [c..<n] (\<lambda>i. bind stack_size (\<lambda>size. if size \<le> dest + i then on_stack (stack_push VNil)
      else write_slot (dest + i) VNil)) = for_each [0..<n - c] pad"
    using upt_map [of c n] by (simp add: c_def for_each_map pad_def p_def add.assoc cong: if_cong)
  have "nat (int dest + int n) = dest + n" by simp
  then have "postcall_copy dest wanted first s = seqx (for_each [0..<c] (\<lambda>i. copy_slot (first + i) (dest + i)))
      (seqx (for_each [0..<n - c] pad) (ret (dest + n))) s"
    unfolding postcall_copy_def loop [symmetric] by (simp only: bind_ret(4) Let_def count if_not_P [OF dir] nat_int)
  then have run: "postcall_copy dest wanted first s = seqx (for_each [0..<n - c] pad) (ret (dest + n)) s1"
    using s1(1) by (simp add: bind_def)
  have p: "p \<le> sk_top (vm_stack s1)" using d k(4) by (simp add: p_def c_def avail_def)
  have f: "(\<lambda>j. if p \<le> j \<and> j < p + (n - c) then VNil else slot (vm_stack s1) j) = delivered (slot (vm_stack s)) dest first avail n"
    unfolding k(6) by (auto simp: delivered_def p_def c_def fun_eq_iff)
  have m: "max (sk_top (vm_stack s1)) (p + (n - c)) = max (sk_top (vm_stack s)) (dest + n)"
    using k(4) by (simp add: p_def c_def)
  have l: "p + (n - c) = dest + n" by (simp add: p_def c_def)
  from pad_to [OF k(5) p refl pad_def [THEN fun_cong], of "n - c"] show ?thesis
    unfolding f m unfolding run k(7) l using stack_to_trans [OF s1(2)] by (fastforce simp: bind_def ret_def)
qed

lemma trim_to:
  assumes ok: "stack_ok (vm_stack s)" and "newTop \<le> sk_top (vm_stack s)"
  shows "\<exists>s'. postcall_trim dest oldTop newTop s = (Done (), s') \<and> vm_top s' = newTop \<and> stack_ok (vm_stack s') \<and>
    newTop \<le> sk_top (vm_stack s') \<and> vm_callStack s' = vm_callStack s \<and> vm_currentCI s' = vm_currentCI s \<and>
    slot (vm_stack s') = (\<lambda>k. if newTop \<le> k \<and> k < min oldTop (sk_top (vm_stack s)) then VNil else slot (vm_stack s) k)"
proof -
  define e where "e = min oldTop (sk_top (vm_stack s))"
  have "\<exists>s1. clear_slots newTop e s = (Done (), s1) \<and>
      stack_to s (\<lambda>k. if newTop \<le> k \<and> k < e then VNil else slot (vm_stack s) k) (sk_top (vm_stack s)) s1"
  proof (cases "newTop \<le> e")
    case True
    then show ?thesis using clear_to [OF ok, of newTop "e - newTop"] by (auto simp: e_def)
  next
    case False
    then have "(\<lambda>k. if newTop \<le> k \<and> k < e then VNil else slot (vm_stack s) k) = slot (vm_stack s)"
      by (auto simp: fun_eq_iff)
    then show ?thesis using False stack_to_refl [OF ok] by (simp add: clear_slots_def ret_def)
  qed
  then obtain s1 where s1: "clear_slots newTop e s = (Done (), s1)"
    "stack_to s (\<lambda>k. if newTop \<le> k \<and> k < e then VNil else slot (vm_stack s) k) (sk_top (vm_stack s)) s1" by blast
  note k = stack_to_keeps [OF s1(2)]
  define t where "t = (let currentFrame = vm_currentCI s; callStack = vm_callStack s in if currentFrame < length callStack then
      let calleeStillActive = (0 < currentFrame \<and> ci_func (callStack ! currentFrame) = dest);
          callerFrame = (if calleeStillActive then currentFrame - 1 else currentFrame)
      in max newTop (ci_top (callStack ! callerFrame)) else newTop)"
  have t: "newTop \<le> t" by (simp add: t_def Let_def)
  let ?s2 = "s1\<lparr>vm_top := newTop\<rparr>"
  have run: "postcall_trim dest oldTop newTop s = on (t < sk_top (vm_stack s)) (on_stack (stack_setTop t)) ?s2"
    using s1(1) k by (simp add: postcall_trim_def bind_def gets_def setAbsoluteTop_def modify_def t_def e_def)
  show ?thesis
  proof (cases "t < sk_top (vm_stack s)")
    case True
    have "\<not> stack_limit (sk_policy (vm_stack s1)) < t" using True k(4,5) by (auto simp: stack_ok_def)
    then obtain st where st: "stack_setTop t (vm_stack s1) = Done st" "stack_ok st" "sk_top st = t"
      "\<forall>i. slot st i = (if sk_top (vm_stack s1) \<le> i \<and> i < t then VNil else slot (vm_stack s1) i)"
      using stack_setTop_cases [OF k(5), of t] by auto
    have "slot st = slot (vm_stack s1)" using st(4) True k(4) by (auto simp: fun_eq_iff)
    then show ?thesis using run True st k t by (simp add: on_def on_stack_def e_def)
  next
    case False
    then show ?thesis using run k assms(2) by (simp add: on_def ret_def e_def)
  qed
qed

text \<open>C21. \<open>postcall\<close> hands over exactly the results the caller asked for: if the results lie between
  \<open>first\<close> (or \<open>dest\<close>, for 0) and the top, then afterwards the slots from \<open>dest\<close> hold them in order, cut
  or padded with nil to the wanted number (all of them for a negative one), the top is right above, all
  slots below are untouched, and no value of the callee is left between the new and the old top. The
  only failure is the overflow of the stack limit.\<close>

theorem postcall_delivers:
  assumes "stack_ok (vm_stack s)" "vm_top s \<le> sk_top (vm_stack s)"
    and "from = (if first = 0 then dest else first)" "dest \<le> from" "from \<le> vm_top s"
    and "avail = vm_top s - from" "n = (if wanted < 0 then avail else nat wanted)"
  shows "case postcall dest wanted first s of
      (Done _, s') \<Rightarrow> vm_top s' = dest + n \<and> stack_ok (vm_stack s') \<and> vm_top s' \<le> sk_top (vm_stack s') \<and>
        (\<forall>i < n. slot (vm_stack s') (dest + i) = (if i < avail then slot (vm_stack s) (from + i) else VNil)) \<and>
        (\<forall>k < dest. slot (vm_stack s') k = slot (vm_stack s) k) \<and>
        (\<forall>k. dest + n \<le> k \<and> k < vm_top s \<longrightarrow> slot (vm_stack s') k = VNil) \<and>
        vm_callStack s' = vm_callStack s \<and> vm_currentCI s' = vm_currentCI s
    | (Raise e, _) \<Rightarrow> e = stack_overflow \<and> stack_limit (sk_policy (vm_stack s)) < dest + n
    | _ \<Rightarrow> False"
proof -
  have n: "n = result_count avail wanted" using assms(7) by (simp add: result_count_def)
  define phase where "phase = (if first = 0 then postcall_in_place dest wanted else postcall_copy dest wanted first)"
  have run: "postcall dest wanted first s = bind phase (postcall_trim dest (vm_top s)) s"
    by (simp add: postcall_def phase_def bind_def gets_def)
  have "(\<exists>s'. phase s = (Done (dest + n), s') \<and>
      stack_to s (delivered (slot (vm_stack s)) dest from avail n) (max (sk_top (vm_stack s)) (dest + n)) s') \<or>
    (\<exists>s'. phase s = (Raise stack_overflow, s')) \<and> stack_limit (sk_policy (vm_stack s)) < dest + n"
    using in_place_to [OF assms(1), of dest wanted] copy_to [OF assms(1), of dest first wanted] assms(2-6)
    by (cases "first = 0") (simp_all add: phase_def n)
  then show ?thesis
  proof
    assume "\<exists>s'. phase s = (Done (dest + n), s') \<and>
      stack_to s (delivered (slot (vm_stack s)) dest from avail n) (max (sk_top (vm_stack s)) (dest + n)) s'"
    then obtain s1 where s1: "phase s = (Done (dest + n), s1)"
      "stack_to s (delivered (slot (vm_stack s)) dest from avail n) (max (sk_top (vm_stack s)) (dest + n)) s1" by blast
    note k = stack_to_keeps [OF s1(2)]
    obtain s2 where s2: "postcall_trim dest (vm_top s) (dest + n) s1 = (Done (), s2)" "vm_top s2 = dest + n"
      "stack_ok (vm_stack s2)" "dest + n \<le> sk_top (vm_stack s2)" "vm_callStack s2 = vm_callStack s1" "vm_currentCI s2 = vm_currentCI s1"
      "slot (vm_stack s2) = (\<lambda>k. if dest + n \<le> k \<and> k < min (vm_top s) (sk_top (vm_stack s1)) then VNil else slot (vm_stack s1) k)"
      using trim_to [OF k(5), of "dest + n" dest "vm_top s"] k(4) by auto
    have "postcall dest wanted first s = (Done (), s2)" using run s1(1) s2(1) by (simp add: bind_def)
    then show ?thesis using s2 k assms(2) by (auto simp: delivered_def)
  qed (auto simp: run bind_def)
qed


text \<open>Two results where three are wanted.\<close>

definition two_results :: vm where
  "two_results = (run_vm [])\<lparr>vm_stack := \<lparr>sk_slots = [VFunction 0, VBoolean True, VBoolean False], sk_top = 3, sk_policy = None\<rparr>\<rparr>"

theorem postcall_delivers_witness:
  "\<exists>s'. postcall 0 3 1 two_results = (Done (), s') \<and> vm_top s' = 3 \<and> slot (vm_stack s') 0 = VBoolean True \<and>
     slot (vm_stack s') 1 = VBoolean False \<and> slot (vm_stack s') 2 = VNil"
proof -
  have st: "stack_ok (vm_stack two_results)" "vm_top two_results = 3" "sk_top (vm_stack two_results) = 3"
    "sk_policy (vm_stack two_results) = None" "slot (vm_stack two_results) 1 = VBoolean True" "slot (vm_stack two_results) 2 = VBoolean False"
    by (simp_all add: two_results_def run_vm_def stack_ok_def stack_limit_def MAX_STACK_SIZE_def slot_def)
  have lim: "\<not> stack_limit None < 3" by (simp add: stack_limit_def MAX_STACK_SIZE_def)
  show ?thesis
    using postcall_delivers [of two_results 1 1 0 2 3 3] st lim
    by (cases "postcall 0 3 1 two_results"; cases "fst (postcall 0 3 1 two_results)")
      (auto simp: numeral_3_eq_3 numeral_2_eq_2 less_Suc_eq all_conj_distrib)
qed

end
