(* ===== verification/InputCursor.thy ===== *)
theory InputCursor
  imports Prelude
begin

text \<open>
  Where the lexer reads from: \<^verbatim>\<open>io/input_stream.cpp\<close> and \<^verbatim>\<open>compiler/lexer/lexer_cursor.cpp\<close>.

  An \<open>InputStream\<close> delivers bytes from a string or, through a buffer it refills, from a
  \<open>std::istream\<close>; the model of that stream is the text it still holds, of which \<open>read\<close> delivers as
  much as fits. The \<open>InputCursor\<close> keeps every byte it has read, looks two bytes ahead and counts
  lines and columns. A byte is a \<open>char\<close>; as an \<open>i32\<close> it is its code, and -1 is the end.

  The lexer sees the cursor only through its operations, and the theorem
  \<open>cursor_reads_the_text\<close> shows that these cannot tell it from a cursor on the plain text
  (\<open>text_cursor\<close>), whatever the stream it reads from. The theory \<^verbatim>\<open>Lexer\<close> builds on the latter.
\<close>

section \<open>Input streams\<close>

record input_stream =
  is_stream :: string
  is_stringView :: string
  is_buffer :: string
  is_bufferPos :: nat
  is_bufferSize :: nat
  is_eof :: bool
  is_position :: nat
  is_useStringView :: bool

definition stream_of_string :: "string \<Rightarrow> input_stream" where
  "stream_of_string source =
     \<lparr>is_stream = [], is_stringView = source, is_buffer = [], is_bufferPos = 0, is_bufferSize = 0,
      is_eof = (source = []), is_position = 0, is_useStringView = True\<rparr>"

definition fillBuffer :: "input_stream \<Rightarrow> input_stream" where
  "fillBuffer s =
     (let readSize = length (is_buffer s); chunk = take readSize (is_stream s)
      in s\<lparr>is_stream := drop readSize (is_stream s),
           is_buffer := chunk @ drop (length chunk) (is_buffer s),
           is_bufferSize := length chunk, is_bufferPos := 0\<rparr>)"

definition stream_of_file :: "string \<Rightarrow> nat \<Rightarrow> input_stream" where
  "stream_of_file contents bufferSize =
     (let s = fillBuffer \<lparr>is_stream = contents, is_stringView = [], is_buffer = replicate bufferSize (CHR 0x00),
            is_bufferPos = 0, is_bufferSize = 0, is_eof = False, is_position = 0, is_useStringView = False\<rparr>
      in if is_bufferSize s = 0 then s\<lparr>is_eof := True\<rparr> else s)"

abbreviation code :: "char \<Rightarrow> int" where
  "code c \<equiv> int (of_char c)"

definition getChar :: "input_stream \<Rightarrow> int \<times> input_stream" where
  "getChar s =
     (if is_useStringView s then
        (if length (is_stringView s) \<le> is_position s then (-1, s\<lparr>is_eof := True\<rparr>)
         else let ch = code (is_stringView s ! is_position s);
                  s' = s\<lparr>is_position := is_position s + 1\<rparr>
              in (ch, if length (is_stringView s') \<le> is_position s' then s'\<lparr>is_eof := True\<rparr> else s'))
      else let s' = (if is_bufferSize s \<le> is_bufferPos s then fillBuffer s else s)
           in if is_bufferSize s \<le> is_bufferPos s \<and> is_bufferSize s' = 0 then (-1, s'\<lparr>is_eof := True\<rparr>)
              else (code (is_buffer s' ! is_bufferPos s'),
                    s'\<lparr>is_position := is_position s' + 1, is_bufferPos := is_bufferPos s' + 1\<rparr>))"

definition peekChar :: "input_stream \<Rightarrow> int \<times> input_stream" where
  "peekChar s =
     (if is_useStringView s then
        (if length (is_stringView s) \<le> is_position s then (-1, s\<lparr>is_eof := True\<rparr>)
         else (code (is_stringView s ! is_position s), s))
      else let s' = (if is_bufferSize s \<le> is_bufferPos s then fillBuffer s else s)
           in if is_bufferSize s \<le> is_bufferPos s \<and> is_bufferSize s' = 0 then (-1, s'\<lparr>is_eof := True\<rparr>)
              else (code (is_buffer s' ! is_bufferPos s'), s'))"

text \<open>The loop of a bulk read in stream mode; \<open>dest\<close> is what has been copied so far.\<close>

function read_loop :: "nat \<Rightarrow> nat \<Rightarrow> string \<Rightarrow> input_stream \<Rightarrow> string \<times> nat \<times> input_stream" where
  "read_loop count totalRead dest s =
     (if totalRead < count then
        let s' = (if is_bufferSize s \<le> is_bufferPos s then fillBuffer s else s)
        in if is_bufferSize s \<le> is_bufferPos s \<and> is_bufferSize s' = 0 then (dest, totalRead, s'\<lparr>is_eof := True\<rparr>)
           else let available = is_bufferSize s' - is_bufferPos s'; toRead = min (count - totalRead) available
                in read_loop count (totalRead + toRead) (dest @ take toRead (drop (is_bufferPos s') (is_buffer s')))
                     (s'\<lparr>is_bufferPos := is_bufferPos s' + toRead, is_position := is_position s' + toRead\<rparr>)
      else (dest, totalRead, s))"
  by pat_completeness auto
termination
  by (relation "measure (\<lambda>(count, totalRead, dest, s). count - totalRead)")
    (auto simp: fillBuffer_def Let_def min_def neq_Nil_conv split: if_splits)

declare read_loop.simps [simp del]

definition stream_read :: "nat \<Rightarrow> input_stream \<Rightarrow> string \<times> nat \<times> input_stream" where
  "stream_read count s =
     (if is_useStringView s then
        let available = length (is_stringView s) - is_position s; toRead = min count available;
            s' = s\<lparr>is_position := is_position s + toRead\<rparr>
        in (take toRead (drop (is_position s) (is_stringView s)), toRead,
            if length (is_stringView s') \<le> is_position s' then s'\<lparr>is_eof := True\<rparr> else s')
      else read_loop count 0 [] s)"

text \<open>The text a stream still delivers, and the shape its fields keep.\<close>

definition remaining :: "input_stream \<Rightarrow> string" where
  "remaining s =
     (if is_useStringView s then drop (is_position s) (is_stringView s)
      else drop (is_bufferPos s) (take (is_bufferSize s) (is_buffer s)) @ is_stream s)"

definition stream_ok :: "input_stream \<Rightarrow> bool" where
  "stream_ok s \<longleftrightarrow>
     is_useStringView s \<or>
     is_buffer s \<noteq> [] \<and> is_bufferPos s \<le> is_bufferSize s \<and> is_bufferSize s \<le> length (is_buffer s)"

lemma fillBuffer_remaining:
  assumes "stream_ok s" "\<not> is_useStringView s" "is_bufferSize s \<le> is_bufferPos s"
  shows "remaining (fillBuffer s) = remaining s" "stream_ok (fillBuffer s)" "\<not> is_useStringView (fillBuffer s)"
    "is_bufferPos (fillBuffer s) = 0" "is_bufferSize (fillBuffer s) = 0 \<longleftrightarrow> remaining s = []"
  using assms by (auto simp: remaining_def stream_ok_def fillBuffer_def Let_def min_def split: if_splits)

lemma getChar_string:
  assumes "is_useStringView s"
  shows "fst (getChar s) = (case remaining s of [] \<Rightarrow> -1 | c # cs \<Rightarrow> code c)"
    "remaining (snd (getChar s)) = tl (remaining s)" "is_useStringView (snd (getChar s))"
  using assms by (auto simp: getChar_def remaining_def Let_def Cons_nth_drop_Suc [symmetric] drop_Suc tl_drop)

lemma getChar_buffered:
  assumes "stream_ok s" "\<not> is_useStringView s" "is_bufferPos s < is_bufferSize s"
  shows "is_buffer s ! is_bufferPos s = hd (remaining s)" "remaining s \<noteq> []"
    "remaining (s\<lparr>is_position := n, is_bufferPos := is_bufferPos s + 1\<rparr>) = tl (remaining s)"
    "stream_ok (s\<lparr>is_position := n, is_bufferPos := is_bufferPos s + 1\<rparr>)"
proof -
  have "drop (is_bufferPos s) (take (is_bufferSize s) (is_buffer s)) =
    is_buffer s ! is_bufferPos s # drop (Suc (is_bufferPos s)) (take (is_bufferSize s) (is_buffer s))"
    using assms by (subst Cons_nth_drop_Suc [symmetric]) (auto simp: stream_ok_def)
  then show "is_buffer s ! is_bufferPos s = hd (remaining s)" "remaining s \<noteq> []"
    "remaining (s\<lparr>is_position := n, is_bufferPos := is_bufferPos s + 1\<rparr>) = tl (remaining s)"
    "stream_ok (s\<lparr>is_position := n, is_bufferPos := is_bufferPos s + 1\<rparr>)"
    using assms by (auto simp: remaining_def stream_ok_def)
qed

lemma getChar_remaining:
  assumes "stream_ok s"
  shows "fst (getChar s) = (case remaining s of [] \<Rightarrow> -1 | c # cs \<Rightarrow> code c) \<and>
    remaining (snd (getChar s)) = tl (remaining s) \<and> stream_ok (snd (getChar s))"
proof (cases "is_useStringView s")
  case True
  then show ?thesis using getChar_string [OF True] by (simp add: stream_ok_def)
next
  case False
  show ?thesis
  proof (cases "is_bufferSize s \<le> is_bufferPos s")
    case True
    let ?s = "fillBuffer s"
    note f = fillBuffer_remaining [OF assms False True]
    show ?thesis
    proof (cases "remaining s = []")
      case True
      then show ?thesis using f False \<open>is_bufferSize s \<le> is_bufferPos s\<close>
        by (simp add: getChar_def Let_def) (simp add: remaining_def stream_ok_def)
    next
      case nonempty: False
      then have "is_bufferPos ?s < is_bufferSize ?s" using f by simp
      from getChar_buffered [OF f(2,3) this] show ?thesis
        using f False True nonempty by (auto simp: getChar_def Let_def split: list.split)
    qed
  next
    case less: False
    then have "is_bufferPos s < is_bufferSize s" by simp
    from getChar_buffered [OF assms False this] show ?thesis
      using False less by (auto simp: getChar_def Let_def split: list.split)
  qed
qed

text \<open>Peeking answers what the next read answers, and a bulk read delivers the next bytes of the text,
  as many as there are, in either mode.\<close>

lemma peekChar_getChar: "fst (peekChar s) = fst (getChar s)"
  by (simp add: peekChar_def getChar_def Let_def)

lemma buffered_chunk:
  assumes "stream_ok s" "\<not> is_useStringView s" "k \<le> is_bufferSize s - is_bufferPos s"
  defines "s1 \<equiv> s\<lparr>is_bufferPos := is_bufferPos s + k, is_position := is_position s + k\<rparr>"
  shows "take k (drop (is_bufferPos s) (is_buffer s)) = take k (remaining s)" "remaining s1 = drop k (remaining s)"
    "k \<le> length (remaining s)" "stream_ok s1" "\<not> is_useStringView s1"
proof -
  let ?live = "drop (is_bufferPos s) (take (is_bufferSize s) (is_buffer s))"
  have len: "k \<le> length ?live" using assms(1-3) by (auto simp: stream_ok_def)
  have "take k (drop (is_bufferPos s) (is_buffer s)) = take k ?live"
    using assms(1-3) by (simp add: drop_take stream_ok_def min_absorb1)
  then show "take k (drop (is_bufferPos s) (is_buffer s)) = take k (remaining s)"
    using len assms(2) by (simp add: remaining_def)
  show "remaining s1 = drop k (remaining s)"
    using len assms(2) by (simp add: remaining_def s1_def add.commute)
  show "k \<le> length (remaining s)" using len assms(2) by (simp add: remaining_def)
  show "stream_ok s1" "\<not> is_useStringView s1" using assms(1-3) by (auto simp: stream_ok_def s1_def)
qed

lemma read_loop_remaining:
  assumes "stream_ok s" "\<not> is_useStringView s" "totalRead = length dest" "totalRead \<le> count"
  shows "fst (read_loop count totalRead dest s) = dest @ take (count - totalRead) (remaining s) \<and>
    fst (snd (read_loop count totalRead dest s)) = length (fst (read_loop count totalRead dest s)) \<and>
    remaining (snd (snd (read_loop count totalRead dest s))) = drop (count - totalRead) (remaining s)"
  using assms
proof (induction count totalRead dest s rule: read_loop.induct)
  case (1 count totalRead dest s)
  show ?case
  proof (cases "totalRead < count")
    case False
    then have "read_loop count totalRead dest s = (dest, totalRead, s)" by (subst read_loop.simps) simp
    then show ?thesis using 1(4,5) False by simp
  next
    case True
    let ?s = "if is_bufferSize s \<le> is_bufferPos s then fillBuffer s else s"
    have s': "remaining ?s = remaining s" "stream_ok ?s" "\<not> is_useStringView ?s"
      "is_bufferSize s \<le> is_bufferPos s \<and> is_bufferSize ?s = 0 \<longleftrightarrow> remaining s = []"
      using fillBuffer_remaining [OF 1(2,3)] 1(2,3) by (auto simp: remaining_def stream_ok_def)
    show ?thesis
    proof (cases "remaining s = []")
      case empty: True
      then have "is_bufferSize s \<le> is_bufferPos s" "is_bufferSize (fillBuffer s) = 0" using s'(4) by auto
      then have "read_loop count totalRead dest s = (dest, totalRead, (fillBuffer s)\<lparr>is_eof := True\<rparr>)"
        using True by (subst read_loop.simps) simp
      moreover have "remaining ((fillBuffer s)\<lparr>is_eof := True\<rparr>) = remaining (fillBuffer s)"
        by (simp add: remaining_def)
      ultimately show ?thesis using empty s'(1) 1(4) \<open>is_bufferSize s \<le> is_bufferPos s\<close> by simp
    next
      case False
      define k where "k = min (count - totalRead) (is_bufferSize ?s - is_bufferPos ?s)"
      define s1 where "s1 = ?s\<lparr>is_bufferPos := is_bufferPos ?s + k, is_position := is_position ?s + k\<rparr>"
      define new where "new = take k (drop (is_bufferPos ?s) (is_buffer ?s))"
      have go: "read_loop count totalRead dest s = read_loop count (totalRead + k) (dest @ new) s1"
        using True False s'(4) unfolding k_def s1_def new_def
        by (subst read_loop.simps) (auto simp: Let_def)
      have k: "k \<le> is_bufferSize ?s - is_bufferPos ?s" by (simp add: k_def)
      note s1 = buffered_chunk [OF s'(2,3) k, folded s1_def new_def, unfolded s'(1)]
      have tk: "totalRead + k \<le> count" using True by (simp add: k_def)
      have new: "length new = k" using s1(1,3) by simp
      have "fst (read_loop count (totalRead + k) (dest @ new) s1) = (dest @ new) @ take (count - (totalRead + k)) (remaining s1) \<and>
          fst (snd (read_loop count (totalRead + k) (dest @ new) s1)) =
            length (fst (read_loop count (totalRead + k) (dest @ new) s1)) \<and>
          remaining (snd (snd (read_loop count (totalRead + k) (dest @ new) s1))) = drop (count - (totalRead + k)) (remaining s1)"
        by (rule 1(1) [OF True refl _ refl refl, folded k_def, folded s1_def new_def])
          (use False s'(4) s1(1,2,4,5) new 1(4) tk in simp_all)
      then show ?thesis unfolding go s1(1,2) using True
        by (auto simp: k_def take_add [symmetric] add.commute)
    qed
  qed
qed

lemma stream_read_remaining:
  assumes "stream_ok s"
  shows "fst (stream_read count s) = take count (remaining s) \<and>
    fst (snd (stream_read count s)) = length (fst (stream_read count s)) \<and>
    remaining (snd (snd (stream_read count s))) = drop count (remaining s)"
proof (cases "is_useStringView s")
  case True
  then show ?thesis by (auto simp: stream_read_def remaining_def Let_def min_def add.commute)
next
  case False
  then show ?thesis using read_loop_remaining [OF assms False, of 0 "[]" count] by (simp add: stream_read_def)
qed

section \<open>The buffered cursor\<close>

record input_cursor =
  ic_input :: input_stream
  ic_buffer :: "int list"
  ic_cursor :: nat
  ic_reachedEof :: bool
  ic_line :: int
  ic_column :: int
  ic_pending :: int

definition isNewline :: "char \<Rightarrow> bool" where
  "isNewline c \<longleftrightarrow> c = CHR 0x0A \<or> c = CHR 0x0D"

function ensureBuffered :: "nat \<Rightarrow> input_cursor \<Rightarrow> input_cursor" where
  "ensureBuffered absoluteIndex c =
     (if length (ic_buffer c) \<le> absoluteIndex \<and> \<not> ic_reachedEof c then
        (case getChar (ic_input c) of (ch, input) \<Rightarrow>
           let c' = c\<lparr>ic_input := input, ic_buffer := ic_buffer c @ [ch]\<rparr>
           in ensureBuffered absoluteIndex (if ch = -1 then c'\<lparr>ic_reachedEof := True\<rparr> else c'))
      else c)"
  by pat_completeness auto
termination
  by (relation "measure (\<lambda>(absoluteIndex, c). Suc absoluteIndex - length (ic_buffer c))")
    (auto simp: Let_def split: if_splits)

declare ensureBuffered.simps [simp del]

definition ensureLookahead :: "input_cursor \<Rightarrow> input_cursor" where
  "ensureLookahead c = ensureBuffered (ic_cursor c + 1) c"

definition new_cursor :: "input_stream \<Rightarrow> input_cursor" where
  "new_cursor input =
     ensureLookahead \<lparr>ic_input = input, ic_buffer = [], ic_cursor = 0, ic_reachedEof = False,
       ic_line = 1, ic_column = 1, ic_pending = -1\<rparr>"

definition ic_advance :: "input_cursor \<Rightarrow> char \<times> input_cursor" where
  "ic_advance c0 =
     (let c = ensureBuffered (ic_cursor c0) c0; ch = ic_buffer c ! ic_cursor c
      in if ch = -1 then (CHR 0x00, c)
         else let c1 = c\<lparr>ic_cursor := ic_cursor c + 1\<rparr>;
                  c2 = (if isNewline (char_of (nat ch)) then
                          (if ic_pending c1 \<noteq> -1 \<and> ch \<noteq> ic_pending c1 then c1\<lparr>ic_pending := -1\<rparr>
                           else c1\<lparr>ic_line := ic_line c1 + 1, ic_column := 1, ic_pending := ch\<rparr>)
                        else c1\<lparr>ic_column := ic_column c1 + 1, ic_pending := -1\<rparr>)
              in (char_of (nat ch), ensureLookahead c2))"

definition ic_peek :: "nat \<Rightarrow> input_cursor \<Rightarrow> char" where
  "ic_peek offset c =
     (let index = ic_cursor c + offset
      in if length (ic_buffer c) \<le> index \<or> ic_buffer c ! index = -1 then CHR 0x00
         else char_of (nat (ic_buffer c ! index)))"

definition ic_isAtEnd :: "input_cursor \<Rightarrow> bool" where
  "ic_isAtEnd c \<longleftrightarrow> ic_cursor c < length (ic_buffer c) \<and> ic_buffer c ! ic_cursor c = -1"

type_synonym cursor_state = "nat \<times> int \<times> int \<times> int"

definition ic_save :: "input_cursor \<Rightarrow> cursor_state" where
  "ic_save c = (ic_cursor c, ic_line c, ic_column c, ic_pending c)"

definition ic_restore :: "cursor_state \<Rightarrow> input_cursor \<Rightarrow> input_cursor" where
  "ic_restore state c =
     (case state of (cursor, line, column, pending) \<Rightarrow>
        ensureLookahead (c\<lparr>ic_cursor := cursor, ic_line := line, ic_column := column, ic_pending := pending\<rparr>))"

section \<open>A cursor on the plain text\<close>

record text_cursor =
  tc_rest :: string
  tc_line :: int
  tc_column :: int
  tc_pending :: "char option"

definition start_of :: "string \<Rightarrow> text_cursor" where
  "start_of src = \<lparr>tc_rest = src, tc_line = 1, tc_column = 1, tc_pending = None\<rparr>"

text \<open>A newline character that pairs with the one before it (CRLF or LFCR) is part of the same line end.\<close>

definition step_over :: "char \<Rightarrow> text_cursor \<Rightarrow> text_cursor" where
  "step_over c t =
     (if \<not> isNewline c then t\<lparr>tc_column := tc_column t + 1, tc_pending := None\<rparr>
      else if tc_pending t \<noteq> None \<and> tc_pending t \<noteq> Some c then t\<lparr>tc_pending := None\<rparr>
      else t\<lparr>tc_line := tc_line t + 1, tc_column := 1, tc_pending := Some c\<rparr>)"

definition tc_advance :: "text_cursor \<Rightarrow> char \<times> text_cursor" where
  "tc_advance t =
     (case tc_rest t of [] \<Rightarrow> (CHR 0x00, t) | c # cs \<Rightarrow> (c, step_over c (t\<lparr>tc_rest := cs\<rparr>)))"

definition tc_peek :: "text_cursor \<Rightarrow> char" where
  "tc_peek t = (case tc_rest t of [] \<Rightarrow> CHR 0x00 | c # cs \<Rightarrow> c)"

definition tc_peekNext :: "text_cursor \<Rightarrow> char" where
  "tc_peekNext t = (case tc_rest t of c # d # cs \<Rightarrow> d | _ \<Rightarrow> CHR 0x00)"

definition tc_isAtEnd :: "text_cursor \<Rightarrow> bool" where
  "tc_isAtEnd t \<longleftrightarrow> tc_rest t = []"

section \<open>The buffered cursor reads the text\<close>

text \<open>\<open>reads src c n\<close>: of the text \<open>src\<close> the first \<open>n\<close> bytes are in the buffer, and the end mark follows
  them once the stream has run dry.\<close>

definition reads :: "string \<Rightarrow> input_cursor \<Rightarrow> nat \<Rightarrow> bool" where
  "reads src c n \<longleftrightarrow>
     stream_ok (ic_input c) \<and> n \<le> length src \<and> remaining (ic_input c) = drop n src \<and>
     ic_buffer c = map code (take n src) @ (if ic_reachedEof c then [-1] else []) \<and>
     (ic_reachedEof c \<longrightarrow> n = length src)"

definition at_text :: "string \<Rightarrow> nat \<Rightarrow> nat \<times> int \<times> int \<times> int \<Rightarrow> text_cursor \<Rightarrow> bool" where
  "at_text src cursor state t \<longleftrightarrow>
     cursor \<le> length src \<and> tc_rest t = drop cursor src \<and>
     state = (cursor, tc_line t, tc_column t, case tc_pending t of None \<Rightarrow> -1 | Some c \<Rightarrow> code c)"

definition tracks :: "string \<Rightarrow> input_cursor \<Rightarrow> text_cursor \<Rightarrow> bool" where
  "tracks src c t \<longleftrightarrow>
     (\<exists>n. reads src c n \<and> (ic_cursor c + 1 < n \<or> ic_reachedEof c)) \<and> at_text src (ic_cursor c) (ic_save c) t"

lemma code_nonneg [simp]: "code c \<noteq> -1" "-1 \<noteq> code c" "char_of (nat (code c)) = c"
  by simp_all

lemma code_eq [simp]: "code c = code d \<longleftrightarrow> c = d"
  by (simp add: of_char_eq_iff)

lemma ensureBuffered_reads:
  assumes "reads src c n"
  shows "\<exists>m. reads src (ensureBuffered i c) m \<and> n \<le> m \<and> (i < m \<or> ic_reachedEof (ensureBuffered i c)) \<and>
    ic_save (ensureBuffered i c) = ic_save c"
  using assms
proof (induction i c arbitrary: n rule: ensureBuffered.induct)
  case (1 i c)
  show ?case
  proof (cases "length (ic_buffer c) \<le> i \<and> \<not> ic_reachedEof c")
    case False
    then show ?thesis using 1(2)
      by (auto simp: ensureBuffered.simps [of i c] reads_def intro!: exI [of _ n])
  next
    case True
    obtain ch input where g: "getChar (ic_input c) = (ch, input)" by fastforce
    let ?c = "c\<lparr>ic_input := input, ic_buffer := ic_buffer c @ [ch]\<rparr>"
    let ?c' = "if ch = -1 then ?c\<lparr>ic_reachedEof := True\<rparr> else ?c"
    have r: "stream_ok (ic_input c)" "n \<le> length src" "remaining (ic_input c) = drop n src"
      "ic_buffer c = map code (take n src)" using 1(2) True by (simp_all add: reads_def)
    note get = getChar_remaining [OF r(1), unfolded g r(3)]
    have "reads src ?c' (if ch = -1 then n else Suc n)"
    proof (cases "n < length src")
      case less: True
      then have "drop n src = src ! n # drop (Suc n) src" by (simp add: Cons_nth_drop_Suc)
      then show ?thesis using get True r less by (simp add: reads_def take_Suc_conv_app_nth)
    next
      case False
      then show ?thesis using get True r by (simp add: reads_def)
    qed
    from 1(1) [OF True g [symmetric] refl this] show ?thesis
      using True g by (auto simp: ensureBuffered.simps [of i c] ic_save_def Let_def split: if_splits)
  qed
qed

lemma ensureLookahead_tracks:
  assumes "reads src c n" "at_text src (ic_cursor c) (ic_save c) t"
  shows "tracks src (ensureLookahead c) t"
proof -
  have "ic_cursor (ensureLookahead c) = ic_cursor c" if "ic_save (ensureLookahead c) = ic_save c"
    using that by (simp add: ic_save_def)
  then show ?thesis
    using ensureBuffered_reads [OF assms(1), of "ic_cursor c + 1"] assms(2)
    by (auto simp: tracks_def ensureLookahead_def)
qed

lemma new_cursor_tracks:
  assumes "stream_ok input"
  shows "tracks (remaining input) (new_cursor input) (start_of (remaining input))"
  unfolding new_cursor_def
  by (rule ensureLookahead_tracks [where n = 0])
    (use assms in \<open>simp_all add: reads_def at_text_def start_of_def ic_save_def\<close>)

text \<open>What the buffer holds at the cursor and behind it.\<close>

lemma tracks_nth:
  assumes "tracks src c t" "k \<le> 1"
  shows "(if length (ic_buffer c) \<le> ic_cursor c + k then -1 else ic_buffer c ! (ic_cursor c + k)) =
    (if k < length (tc_rest t) then code (tc_rest t ! k) else -1)"
proof -
  obtain n where n: "reads src c n" "ic_cursor c + 1 < n \<or> ic_reachedEof c"
    and t: "ic_cursor c \<le> length src" "tc_rest t = drop (ic_cursor c) src"
    using assms(1) by (auto simp: tracks_def at_text_def)
  show ?thesis
  proof (cases "ic_cursor c + k < n")
    case True
    then show ?thesis using n(1) t by (auto simp: reads_def nth_append)
  next
    case False
    then have "ic_reachedEof c" "n = length src" using n assms(2) by (auto simp: reads_def)
    then show ?thesis using n(1) t False
      by (cases "ic_cursor c + k = n") (auto simp: reads_def nth_append)
  qed
qed

lemma tracks_in_buffer:
  assumes "tracks src c t"
  shows "ic_cursor c < length (ic_buffer c)"
  using assms by (auto simp: tracks_def reads_def at_text_def)

lemma peek_tracks:
  assumes "tracks src c t"
  shows "ic_peek 0 c = tc_peek t" "ic_peek 1 c = tc_peekNext t" "ic_isAtEnd c = tc_isAtEnd t"
  using tracks_nth [OF assms, of 0] tracks_nth [OF assms, of 1] tracks_in_buffer [OF assms]
  by (auto simp: ic_peek_def tc_peek_def tc_peekNext_def ic_isAtEnd_def tc_isAtEnd_def split: list.split if_splits)

lemma advance_tracks:
  assumes "tracks src c t"
  shows "fst (ic_advance c) = fst (tc_advance t)" "tracks src (snd (ic_advance c)) (snd (tc_advance t))"
proof -
  have full: "ensureBuffered (ic_cursor c) c = c"
    using tracks_in_buffer [OF assms] by (simp add: ensureBuffered.simps)
  obtain n where n: "reads src c n" and here: "at_text src (ic_cursor c) (ic_save c) t"
    using assms by (auto simp: tracks_def)
  have ch: "ic_buffer c ! ic_cursor c = (case tc_rest t of [] \<Rightarrow> -1 | x # xs \<Rightarrow> code x)"
    using tracks_nth [OF assms, of 0] tracks_in_buffer [OF assms] by (auto split: list.split)
  have "fst (ic_advance c) = fst (tc_advance t) \<and> tracks src (snd (ic_advance c)) (snd (tc_advance t))"
  proof (cases "tc_rest t")
    case Nil
    then show ?thesis using ch assms by (simp add: ic_advance_def full tc_advance_def)
  next
    case (Cons x xs)
    have rest: "xs = drop (Suc (ic_cursor c)) src" "ic_cursor c < length src"
      using here Cons by (auto simp: at_text_def drop_Suc tl_drop dest: arg_cong [where f = length] arg_cong [where f = tl])
    define c1 where "c1 = c\<lparr>ic_cursor := ic_cursor c + 1\<rparr>"
    define c2 where "c2 = (if isNewline x then
        (if ic_pending c1 \<noteq> -1 \<and> code x \<noteq> ic_pending c1 then c1\<lparr>ic_pending := -1\<rparr>
         else c1\<lparr>ic_line := ic_line c1 + 1, ic_column := 1, ic_pending := code x\<rparr>)
      else c1\<lparr>ic_column := ic_column c1 + 1, ic_pending := -1\<rparr>)"
    have adv: "ic_advance c = (x, ensureLookahead c2)"
      using ch Cons unfolding c1_def c2_def by (simp add: ic_advance_def full Let_def)
    have "reads src c2 n" using n by (simp add: reads_def c1_def c2_def)
    moreover have "at_text src (ic_cursor c2) (ic_save c2) (step_over x (t\<lparr>tc_rest := xs\<rparr>))"
      using here rest by (auto simp: at_text_def ic_save_def c1_def c2_def step_over_def split: option.splits)
    ultimately show ?thesis using Cons by (simp add: adv tc_advance_def ensureLookahead_tracks)
  qed
  then show "fst (ic_advance c) = fst (tc_advance t)" "tracks src (snd (ic_advance c)) (snd (tc_advance t))"
    by blast+
qed

lemma restore_tracks:
  assumes "tracks src c t" "at_text src (fst state) state t'"
  shows "tracks src (ic_restore state c) t'"
proof -
  obtain n where "reads src c n" using assms(1) by (auto simp: tracks_def)
  then show ?thesis using assms(2)
    by (cases state) (auto simp: ic_restore_def reads_def at_text_def ic_save_def intro!: ensureLookahead_tracks [of src _ n])
qed

subsection \<open>Any use of the cursor\<close>

text \<open>A client calls the operations in some order, keeping the states it saves; restoring takes one of
  those by its number.\<close>

datatype cursor_call = CC_Advance | CC_Peek | CC_PeekNext | CC_IsAtEnd | CC_Position | CC_Save | CC_Restore nat

datatype cursor_answer = CA_Char char | CA_Bool bool | CA_Position int int | CA_Done

fun buffered_answers :: "cursor_call list \<Rightarrow> cursor_state list \<Rightarrow> input_cursor \<Rightarrow> cursor_answer list" where
  "buffered_answers [] saved c = []"
| "buffered_answers (CC_Advance # calls) saved c =
     (case ic_advance c of (ch, c') \<Rightarrow> CA_Char ch # buffered_answers calls saved c')"
| "buffered_answers (CC_Peek # calls) saved c = CA_Char (ic_peek 0 c) # buffered_answers calls saved c"
| "buffered_answers (CC_PeekNext # calls) saved c = CA_Char (ic_peek 1 c) # buffered_answers calls saved c"
| "buffered_answers (CC_IsAtEnd # calls) saved c = CA_Bool (ic_isAtEnd c) # buffered_answers calls saved c"
| "buffered_answers (CC_Position # calls) saved c = CA_Position (ic_line c) (ic_column c) # buffered_answers calls saved c"
| "buffered_answers (CC_Save # calls) saved c = CA_Done # buffered_answers calls (saved @ [ic_save c]) c"
| "buffered_answers (CC_Restore i # calls) saved c =
     CA_Done # buffered_answers calls saved (if i < length saved then ic_restore (saved ! i) c else c)"

fun text_answers :: "cursor_call list \<Rightarrow> text_cursor list \<Rightarrow> text_cursor \<Rightarrow> cursor_answer list" where
  "text_answers [] saved t = []"
| "text_answers (CC_Advance # calls) saved t =
     (case tc_advance t of (ch, t') \<Rightarrow> CA_Char ch # text_answers calls saved t')"
| "text_answers (CC_Peek # calls) saved t = CA_Char (tc_peek t) # text_answers calls saved t"
| "text_answers (CC_PeekNext # calls) saved t = CA_Char (tc_peekNext t) # text_answers calls saved t"
| "text_answers (CC_IsAtEnd # calls) saved t = CA_Bool (tc_isAtEnd t) # text_answers calls saved t"
| "text_answers (CC_Position # calls) saved t = CA_Position (tc_line t) (tc_column t) # text_answers calls saved t"
| "text_answers (CC_Save # calls) saved t = CA_Done # text_answers calls (saved @ [t]) t"
| "text_answers (CC_Restore i # calls) saved t =
     CA_Done # text_answers calls saved (if i < length saved then saved ! i else t)"

lemma answers_agree:
  assumes "tracks src c t" "list_all2 (\<lambda>state t'. at_text src (fst state) state t') states ts"
  shows "buffered_answers calls states c = text_answers calls ts t"
  using assms
proof (induction calls arbitrary: states ts c t)
  case (Cons call calls)
  note here = Cons.prems(1) and saved = Cons.prems(2)
  have pos: "ic_line c = tc_line t" "ic_column c = tc_column t" "at_text src (fst (ic_save c)) (ic_save c) t"
    using here by (auto simp: tracks_def at_text_def ic_save_def)
  show ?case
  proof (cases call)
    case CC_Advance
    then show ?thesis using advance_tracks [OF here] Cons.IH [OF _ saved]
      by (cases "ic_advance c"; cases "tc_advance t") auto
  next
    case CC_Save
    then show ?thesis using pos Cons.IH [OF here, of "states @ [ic_save c]" "ts @ [t]"] saved
      by (simp add: list_all2_appendI)
  next
    case (CC_Restore i)
    have len: "length states = length ts" using saved by (rule list_all2_lengthD)
    have "tracks src (if i < length states then ic_restore (states ! i) c else c)
      (if i < length ts then ts ! i else t)"
      using here len saved by (auto simp: list_all2_conv_all_nth intro!: restore_tracks)
    from Cons.IH [OF this saved] show ?thesis using CC_Restore len by simp
  qed (use pos peek_tracks [OF here] Cons.IH [OF here saved] in simp_all)
qed simp

text \<open>C23. The buffered cursor over any input stream, a string or a file read in blocks of any size, is a
  cursor on the text the stream holds: any sequence of advances, one- and two-byte peeks, end tests,
  position reads, saves and restores gets the same answers, so that neither the look-ahead buffer nor
  the refills of the stream can be observed.\<close>

theorem cursor_reads_the_text:
  assumes "input = stream_of_string src \<or> (\<exists>size > 0. input = stream_of_file src size)"
  shows "buffered_answers calls [] (new_cursor input) = text_answers calls [] (start_of src)"
proof -
  have "remaining (stream_of_file src size) = src \<and> stream_ok (stream_of_file src size)" if "size > 0" for size
    using that by (auto simp: stream_of_file_def remaining_def stream_ok_def fillBuffer_def Let_def min_def)
  moreover have "remaining (stream_of_string src) = src \<and> stream_ok (stream_of_string src)"
    by (simp add: stream_of_string_def remaining_def stream_ok_def)
  ultimately have "stream_ok input \<and> remaining input = src" using assms by blast
  then show ?thesis
    using answers_agree [OF new_cursor_tracks [of input], of "[]" "[]"] by simp
qed

text \<open>A file read in blocks of two bytes.\<close>

theorem cursor_reads_the_text_witness:
  "buffered_answers [CC_Advance, CC_Save, CC_Advance, CC_PeekNext, CC_Restore 0, CC_Peek] []
      (new_cursor (stream_of_file ''local x'' 2)) =
    [CA_Char (CHR ''l''), CA_Done, CA_Char (CHR ''o''), CA_Char (CHR ''a''), CA_Done, CA_Char (CHR ''o'')]"
proof -
  have "text_answers [CC_Advance, CC_Save, CC_Advance, CC_PeekNext, CC_Restore 0, CC_Peek] [] (start_of ''local x'') =
    [CA_Char (CHR ''l''), CA_Done, CA_Char (CHR ''o''), CA_Char (CHR ''a''), CA_Done, CA_Char (CHR ''o'')]"
    by (simp add: start_of_def tc_advance_def tc_peek_def tc_peekNext_def step_over_def isNewline_def)
  moreover have "\<exists>size > 0. stream_of_file ''local x'' 2 = stream_of_file ''local x'' size"
    by (intro exI [of _ 2]) simp
  ultimately show ?thesis
    using cursor_reads_the_text [of "stream_of_file ''local x'' 2" "''local x''"] by metis
qed

end
