(* ===== verification/Lexer.thy ===== *)
theory Lexer
  imports InputCursor LuaValue
begin

text \<open>
  \<^verbatim>\<open>compiler/lexer/lexer.cpp\<close> and \<^verbatim>\<open>compiler/parser/token.hpp\<close>: from text to tokens.

  The state is the cursor, the lexeme read since the token began, the position where it began and
  the token read ahead. Each member function is a function on that state; a member that may answer
  an error token returns an option. The loops end because every turn consumes text.

  From the C library: \<open>strtod\<close> is a parameter (value and number of characters read), as are the
  decimal point of the locale and the non-ASCII bytes the locale counts as letters; \<open>strtoll\<close> and the
  other character classes are written out. The copies of the source and the allocator are not
  modelled.
\<close>

section \<open>Tokens\<close>

text \<open>A token type below 256 is the character itself.\<close>

datatype token_type =
    TT_Char char
  | TT_And | TT_Break | TT_Do | TT_Else | TT_Elseif | TT_End | TT_False | TT_For | TT_Function | TT_If | TT_In
  | TT_Local | TT_Nil | TT_Not | TT_Or | TT_Repeat | TT_Return | TT_Then | TT_True | TT_Until | TT_While
  | TT_Concat | TT_Dots | TT_Eq | TT_Ge | TT_Le | TT_Ne
  | TT_Number | TT_String | TT_Name
  | TT_Eos | TT_Error

datatype token_value = TV_None | TV_Number f64 | TV_String string

record token =
  tk_type :: token_type
  tk_value :: token_value
  tk_lexeme :: string
  tk_errorMessage :: string
  tk_line :: int
  tk_column :: int

definition isKeyword :: "token \<Rightarrow> bool" where
  "isKeyword t \<longleftrightarrow> tk_type t \<in> {TT_And, TT_Break, TT_Do, TT_Else, TT_Elseif, TT_End, TT_False, TT_For, TT_Function,
     TT_If, TT_In, TT_Local, TT_Nil, TT_Not, TT_Or, TT_Repeat, TT_Return, TT_Then, TT_True, TT_Until, TT_While}"

definition keyword_table :: "(string \<times> token_type) list" where
  "keyword_table =
    [(''and'', TT_And), (''break'', TT_Break), (''do'', TT_Do), (''else'', TT_Else), (''elseif'', TT_Elseif), (''end'', TT_End),
     (''false'', TT_False), (''for'', TT_For), (''function'', TT_Function), (''if'', TT_If), (''in'', TT_In), (''local'', TT_Local),
     (''nil'', TT_Nil), (''not'', TT_Not), (''or'', TT_Or), (''repeat'', TT_Repeat), (''return'', TT_Return), (''then'', TT_Then),
     (''true'', TT_True), (''until'', TT_Until), (''while'', TT_While)]"

definition tokenTypeToString :: "token_type \<Rightarrow> string" where
  "tokenTypeToString t =
     (case t of
        TT_And \<Rightarrow> ''and'' | TT_Break \<Rightarrow> ''break'' | TT_Do \<Rightarrow> ''do'' | TT_Else \<Rightarrow> ''else'' | TT_Elseif \<Rightarrow> ''elseif''
      | TT_End \<Rightarrow> ''end'' | TT_False \<Rightarrow> ''false'' | TT_For \<Rightarrow> ''for'' | TT_Function \<Rightarrow> ''function'' | TT_If \<Rightarrow> ''if''
      | TT_In \<Rightarrow> ''in'' | TT_Local \<Rightarrow> ''local'' | TT_Nil \<Rightarrow> ''nil'' | TT_Not \<Rightarrow> ''not'' | TT_Or \<Rightarrow> ''or''
      | TT_Repeat \<Rightarrow> ''repeat'' | TT_Return \<Rightarrow> ''return'' | TT_Then \<Rightarrow> ''then'' | TT_True \<Rightarrow> ''true''
      | TT_Until \<Rightarrow> ''until'' | TT_While \<Rightarrow> ''while''
      | TT_Concat \<Rightarrow> ''..'' | TT_Dots \<Rightarrow> ''...'' | TT_Eq \<Rightarrow> ''=='' | TT_Ge \<Rightarrow> ''>='' | TT_Le \<Rightarrow> ''<='' | TT_Ne \<Rightarrow> ''~=''
      | TT_Number \<Rightarrow> ''<number>'' | TT_String \<Rightarrow> ''<string>'' | TT_Name \<Rightarrow> ''<name>''
      | TT_Eos \<Rightarrow> ''<eof>'' | TT_Error \<Rightarrow> ''<error>'' | TT_Char _ \<Rightarrow> ''<unknown>'')"

section \<open>Character classes\<close>

record lexer_env =
  le_strtod :: "string \<Rightarrow> f64 \<times> nat"
  le_decimalPoint :: char
  le_letters :: "char \<Rightarrow> bool"

definition between :: "char \<Rightarrow> char \<Rightarrow> char \<Rightarrow> bool" where
  "between lo hi c \<longleftrightarrow> of_char lo \<le> (of_char c :: nat) \<and> of_char c \<le> (of_char hi :: nat)"

definition isDigit :: "char \<Rightarrow> bool" where
  "isDigit c \<longleftrightarrow> between (CHR ''0'') (CHR ''9'') c"

definition isAlpha :: "lexer_env \<Rightarrow> char \<Rightarrow> bool" where
  "isAlpha E c \<longleftrightarrow> between (CHR ''a'') (CHR ''z'') c \<or> between (CHR ''A'') (CHR ''Z'') c \<or> (128 \<le> (of_char c :: nat) \<and> le_letters E c)"

definition isAlphaNum :: "lexer_env \<Rightarrow> char \<Rightarrow> bool" where
  "isAlphaNum E c \<longleftrightarrow> isAlpha E c \<or> isDigit c"

definition isHexDigit :: "char \<Rightarrow> bool" where
  "isHexDigit c \<longleftrightarrow> isDigit c \<or> between (CHR ''a'') (CHR ''f'') c \<or> between (CHR ''A'') (CHR ''F'') c"

definition name_char :: "lexer_env \<Rightarrow> char \<Rightarrow> bool" where
  "name_char E c \<longleftrightarrow> isAlphaNum E c \<or> c = CHR ''_''"

definition decodeSimpleEscape :: "char \<Rightarrow> char option" where
  "decodeSimpleEscape c = map_of
     [(CHR ''a'', CHR 0x07), (CHR ''b'', CHR 0x08), (CHR ''f'', CHR 0x0C), (CHR ''n'', CHR 0x0A), (CHR ''r'', CHR 0x0D),
      (CHR ''t'', CHR 0x09), (CHR ''v'', CHR 0x0B), (CHR 0x5C, CHR 0x5C), (CHR 0x22, CHR 0x22), (CHR 0x27, CHR 0x27)] c"

definition isSingleCharToken :: "char \<Rightarrow> bool" where
  "isSingleCharToken c \<longleftrightarrow> c \<in> set ''+-*/%^#(){}];,:''"

section \<open>The state\<close>

record lexer =
  lx_cursor :: text_cursor
  lx_buffer :: string
  lx_tokenLine :: int
  lx_tokenColumn :: int
  lx_lookahead :: "token option"

definition new_lexer :: "string \<Rightarrow> lexer" where
  "new_lexer source =
     \<lparr>lx_cursor = start_of source, lx_buffer = [], lx_tokenLine = 1, lx_tokenColumn = 1, lx_lookahead = None\<rparr>"

abbreviation rest :: "lexer \<Rightarrow> string" where
  "rest lx \<equiv> tc_rest (lx_cursor lx)"

definition isAtEnd :: "lexer \<Rightarrow> bool" where
  "isAtEnd lx \<longleftrightarrow> tc_isAtEnd (lx_cursor lx)"

definition advance :: "lexer \<Rightarrow> char \<times> lexer" where
  "advance lx =
     (if tc_isAtEnd (lx_cursor lx) then (CHR 0x00, lx)
      else case tc_advance (lx_cursor lx) of (ch, cursor) \<Rightarrow>
        (ch, lx\<lparr>lx_cursor := cursor, lx_buffer := lx_buffer lx @ [ch]\<rparr>))"

definition peek :: "lexer \<Rightarrow> char" where
  "peek lx = tc_peek (lx_cursor lx)"

definition peekNext :: "lexer \<Rightarrow> char" where
  "peekNext lx = tc_peekNext (lx_cursor lx)"

definition match :: "char \<Rightarrow> lexer \<Rightarrow> bool \<times> lexer" where
  "match expected lx =
     (if isAtEnd lx then (False, lx) else if peek lx \<noteq> expected then (False, lx) else (True, snd (advance lx)))"

definition beginToken :: "lexer \<Rightarrow> lexer" where
  "beginToken lx = lx\<lparr>lx_tokenLine := tc_line (lx_cursor lx), lx_tokenColumn := tc_column (lx_cursor lx)\<rparr>"

type_synonym lexer_state = "nat \<times> text_cursor \<times> int \<times> int"

definition saveState :: "lexer \<Rightarrow> lexer_state" where
  "saveState lx = (length (lx_buffer lx), lx_cursor lx, lx_tokenLine lx, lx_tokenColumn lx)"

definition restoreState :: "lexer_state \<Rightarrow> lexer \<Rightarrow> lexer" where
  "restoreState state lx =
     (case state of (lexemeLength, cursor, line, column) \<Rightarrow>
        lx\<lparr>lx_buffer := take lexemeLength (lx_buffer lx), lx_cursor := cursor, lx_tokenLine := line, lx_tokenColumn := column\<rparr>)"

definition makeToken :: "token_type \<Rightarrow> lexer \<Rightarrow> token" where
  "makeToken t lx =
     \<lparr>tk_type = t, tk_value = TV_None, tk_lexeme = lx_buffer lx, tk_errorMessage = [],
      tk_line = lx_tokenLine lx, tk_column = lx_tokenColumn lx\<rparr>"

definition errorToken :: "string \<Rightarrow> lexer \<Rightarrow> token" where
  "errorToken message lx =
     \<lparr>tk_type = TT_Error, tk_value = TV_None, tk_lexeme = (if lx_buffer lx = [] then message else lx_buffer lx),
      tk_errorMessage = message, tk_line = lx_tokenLine lx, tk_column = lx_tokenColumn lx\<rparr>"

lemma advance_simps:
  "rest lx = [] \<Longrightarrow> advance lx = (CHR 0x00, lx)"
  "rest lx = c # cs \<Longrightarrow> advance lx =
     (c, lx\<lparr>lx_cursor := step_over c (lx_cursor lx\<lparr>tc_rest := cs\<rparr>), lx_buffer := lx_buffer lx @ [c]\<rparr>)"
  by (simp_all add: advance_def tc_isAtEnd_def tc_advance_def)

lemma rest_step_over [simp]: "tc_rest (step_over c t) = tc_rest t"
  by (simp add: step_over_def)

lemma peek_simps:
  "rest lx = [] \<Longrightarrow> peek lx = CHR 0x00" "rest lx = c # cs \<Longrightarrow> peek lx = c"
  "rest lx = [c] \<Longrightarrow> peekNext lx = CHR 0x00" "rest lx = c # d # cs \<Longrightarrow> peekNext lx = d"
  by (simp_all add: peek_def peekNext_def tc_peek_def tc_peekNext_def)

lemma isAtEnd_rest [simp]: "isAtEnd lx \<longleftrightarrow> rest lx = []"
  by (simp add: isAtEnd_def tc_isAtEnd_def)

lemma peek_not_end: "peek lx \<noteq> CHR 0x00 \<Longrightarrow> rest lx \<noteq> []"
  by (auto simp: peek_simps)

lemma rest_advance [simp]: "rest (snd (advance lx)) = tl (rest lx)"
  by (cases "rest lx") (simp_all add: advance_simps)

text \<open>A state is reached by consuming text when the lexeme has grown by what left the input; stepping
  back from there restores the state.\<close>

definition pass :: "string \<Rightarrow> text_cursor \<Rightarrow> text_cursor" where
  "pass w t = foldl (\<lambda>t c. step_over c (t\<lparr>tc_rest := tl (tc_rest t)\<rparr>)) t w"

definition consumed :: "lexer \<Rightarrow> string \<Rightarrow> lexer \<Rightarrow> bool" where
  "consumed lx w lx' \<longleftrightarrow>
     rest lx = w @ rest lx' \<and> lx_cursor lx' = pass w (lx_cursor lx) \<and> lx_buffer lx' = lx_buffer lx @ w \<and>
     lx_tokenLine lx' = lx_tokenLine lx \<and> lx_tokenColumn lx' = lx_tokenColumn lx \<and> lx_lookahead lx' = lx_lookahead lx"

lemma consumed_trans: "consumed lx w lx1 \<Longrightarrow> consumed lx1 v lx2 \<Longrightarrow> consumed lx (w @ v) lx2"
  by (auto simp: consumed_def pass_def)

lemma consumed_Nil: "consumed lx [] lx"
  by (simp add: consumed_def pass_def)

lemma consumed_advance: "rest lx = c # cs \<Longrightarrow> consumed lx [c] (snd (advance lx))"
  by (simp add: advance_simps consumed_def pass_def)

definition eats :: "lexer \<Rightarrow> lexer \<Rightarrow> bool" where
  "eats lx lx' \<longleftrightarrow> (\<exists>w. consumed lx w lx')"

lemma eats_refl [simp, intro]: "eats lx lx"
  using consumed_Nil by (auto simp: eats_def)

lemma eats_trans [trans]: "eats lx lx1 \<Longrightarrow> eats lx1 lx2 \<Longrightarrow> eats lx lx2"
  using consumed_trans by (fastforce simp: eats_def)

lemma eats_advance [simp, intro]: "eats lx (snd (advance lx))"
  by (cases "rest lx") (auto simp: eats_def advance_simps(1) dest: consumed_advance)

lemma eats_length: "eats lx lx' \<Longrightarrow> length (rest lx') \<le> length (rest lx)"
  by (auto simp: eats_def consumed_def)

lemma restore_back: "eats lx lx' \<Longrightarrow> restoreState (saveState lx) lx' = lx"
  by (auto simp: eats_def consumed_def restoreState_def saveState_def)

section \<open>White space and long brackets\<close>

text \<open>The loops \<open>while (P(peek())) advance()\<close>. No class the code tests contains NUL, which \<open>peek\<close> answers
  at the end, so the end test only matters for \<open>skipLineComment\<close>, which makes it itself.\<close>

function advance_while :: "(char \<Rightarrow> bool) \<Rightarrow> lexer \<Rightarrow> lexer" where
  "advance_while P lx = (if P (peek lx) \<and> \<not> isAtEnd lx then advance_while P (snd (advance lx)) else lx)"
  by pat_completeness auto
termination
  by (relation "measure (\<lambda>(P, lx). length (rest lx))") auto

declare advance_while.simps [simp del]

definition consumeNewlinePairRemainder :: "char \<Rightarrow> lexer \<Rightarrow> lexer" where
  "consumeNewlinePairRemainder firstNewline lx =
     (if isNewline (peek lx) \<and> peek lx \<noteq> firstNewline then snd (advance lx) else lx)"

definition consumeNewlineSequence :: "lexer \<Rightarrow> lexer" where
  "consumeNewlineSequence lx =
     (if \<not> isNewline (peek lx) then lx
      else case advance lx of (firstNewline, lx') \<Rightarrow> consumeNewlinePairRemainder firstNewline lx')"

definition skipInitialLongLiteralNewline :: "lexer \<Rightarrow> lexer" where
  "skipInitialLongLiteralNewline lx = (if isNewline (peek lx) then consumeNewlineSequence lx else lx)"

definition skipLineComment :: "lexer \<Rightarrow> lexer" where
  "skipLineComment lx = advance_while (\<lambda>c. \<not> isNewline c) lx"

function count_equals :: "int \<Rightarrow> lexer \<Rightarrow> int \<times> lexer" where
  "count_equals n lx = (if peek lx = CHR ''='' then count_equals (n + 1) (snd (advance lx)) else (n, lx))"
  by pat_completeness auto
termination
  by (relation "measure (\<lambda>(n, lx). length (rest lx))") (use peek_not_end in auto)

declare count_equals.simps [simp del]

definition readLongBracketDelimiter :: "lexer \<Rightarrow> int option \<times> lexer" where
  "readLongBracketDelimiter lx =
     (let savedState = saveState lx; s = peek lx
      in if s \<noteq> CHR ''['' \<and> s \<noteq> CHR '']'' then (None, lx)
         else case count_equals 0 (snd (advance lx)) of (count, lx1) \<Rightarrow>
           if peek lx1 = s then (Some count, snd (advance lx1)) else (None, restoreState savedState lx1))"

definition tryReadLongBracketStart :: "lexer \<Rightarrow> int option \<times> lexer" where
  "tryReadLongBracketStart lx =
     (let savedState = saveState lx
      in case count_equals 0 lx of (level, lx1) \<Rightarrow>
           if peek lx1 = CHR ''['' then (Some level, snd (advance lx1)) else (None, restoreState savedState lx1))"

text \<open>At a \<open>]\<close> the loops over long literals try a closing bracket and step back if it is none or of
  another level.\<close>

definition closes :: "int \<Rightarrow> lexer \<Rightarrow> bool \<times> lexer" where
  "closes level lx =
     (let savedState = saveState lx
      in case readLongBracketDelimiter lx of (endLevel, lx1) \<Rightarrow>
           if endLevel = Some level then (True, lx1) else (False, restoreState savedState lx1))"

lemma eats_advance_while [simp, intro]: "eats lx (advance_while P lx)"
proof (induction P lx rule: advance_while.induct)
  case (1 P lx)
  then show ?case by (subst advance_while.simps) (auto intro: eats_trans)
qed

lemma eats_count_equals: "eats lx (snd (count_equals n lx))"
proof (induction n lx rule: count_equals.induct)
  case (1 n lx)
  then show ?case by (subst count_equals.simps) (auto intro: eats_trans)
qed

lemma eats_readLongBracketDelimiter: "eats lx (snd (readLongBracketDelimiter lx))"
proof -
  have "eats lx (snd (count_equals 0 (snd (advance lx))))"
    by (rule eats_trans [OF eats_advance eats_count_equals])
  then show ?thesis
    by (auto simp: readLongBracketDelimiter_def Let_def restore_back split: prod.splits intro: eats_trans)
qed

lemma eats_tryReadLongBracketStart: "eats lx (snd (tryReadLongBracketStart lx))"
  using eats_count_equals [of lx 0]
  by (auto simp: tryReadLongBracketStart_def Let_def restore_back split: prod.splits intro: eats_trans)

lemma eats_closes: "eats lx (snd (closes level lx))"
  using eats_readLongBracketDelimiter [of lx]
  by (auto simp: closes_def Let_def restore_back split: prod.splits)

lemma closes_false: "closes level lx = (False, lx1) \<Longrightarrow> lx1 = lx"
  using eats_readLongBracketDelimiter [of lx]
  by (auto simp: closes_def Let_def restore_back split: prod.splits if_splits)

lemma eats_newlines [simp, intro]:
  "eats lx (consumeNewlinePairRemainder c lx)" "eats lx (consumeNewlineSequence lx)" "eats lx (skipInitialLongLiteralNewline lx)"
proof -
  show 1: "eats lx (consumeNewlinePairRemainder c lx)" for c lx by (simp add: consumeNewlinePairRemainder_def)
  show 2: "eats lx (consumeNewlineSequence lx)"
    using eats_trans [OF eats_advance [of lx] 1 [of "snd (advance lx)"]]
    by (cases "advance lx") (simp add: consumeNewlineSequence_def)
  show "eats lx (skipInitialLongLiteralNewline lx)" using 2 by (simp add: skipInitialLongLiteralNewline_def)
qed

function longComment_loop :: "int \<Rightarrow> lexer \<Rightarrow> token option \<times> lexer" where
  "longComment_loop level lx =
     (if isAtEnd lx then (Some (errorToken ''Unterminated long comment'' lx), lx)
      else if peek lx = CHR '']'' then
        (case closes level lx of (found, lx1) \<Rightarrow>
           if found then (None, lx1) else longComment_loop level (snd (advance lx1)))
      else longComment_loop level (snd (advance lx)))"
  by pat_completeness auto
termination
  by (relation "measure (\<lambda>(level, lx). length (rest lx))") (auto dest: closes_false [OF sym])

declare longComment_loop.simps [simp del]

definition skipLongComment :: "int \<Rightarrow> lexer \<Rightarrow> token option \<times> lexer" where
  "skipLongComment level lx = longComment_loop level (skipInitialLongLiteralNewline lx)"

definition skipComment :: "lexer \<Rightarrow> token option \<times> lexer" where
  "skipComment lx0 =
     (let lx = snd (advance (snd (advance (beginToken (lx0\<lparr>lx_buffer := []\<rparr>)))))
      in if peek lx \<noteq> CHR ''['' then (None, skipLineComment lx)
         else case readLongBracketDelimiter lx of
                (Some level, lx1) \<Rightarrow> skipLongComment level lx1
              | (None, lx1) \<Rightarrow> (None, skipLineComment lx1))"

lemma eats_longComment_loop: "eats lx (snd (longComment_loop level lx))"
proof (induction level lx rule: longComment_loop.induct)
  case (1 level lx)
  show ?case
  proof (cases "isAtEnd lx \<or> peek lx \<noteq> CHR '']''")
    case True
    then show ?thesis using 1(2) by (subst longComment_loop.simps) (auto intro: eats_trans)
  next
    case False
    obtain found lx1 where c: "closes level lx = (found, lx1)" by fastforce
    show ?thesis
    proof (cases found)
      case True
      then show ?thesis using False c eats_closes [of lx level] by (subst longComment_loop.simps) simp
    next
      case not_found: False
      then have "lx1 = lx" using c closes_false by simp
      then show ?thesis using False c not_found 1(1) [OF _ _ c [symmetric]]
        by (subst longComment_loop.simps) (auto intro: eats_trans)
    qed
  qed
qed

lemma eats_skipComment:
  "eats (snd (advance (snd (advance (beginToken (lx\<lparr>lx_buffer := []\<rparr>)))))) (snd (skipComment lx))"
  using eats_readLongBracketDelimiter [of "snd (advance (snd (advance (beginToken (lx\<lparr>lx_buffer := []\<rparr>)))))"]
  by (auto simp: skipComment_def Let_def skipLongComment_def skipLineComment_def split: prod.splits option.splits
      intro: eats_trans [OF _ eats_advance_while] eats_trans [OF _ eats_trans [OF eats_newlines(3) eats_longComment_loop]])

lemma rest_skipComment:
  assumes "peek lx = CHR ''-''" "peekNext lx = CHR ''-''"
  shows "length (rest (snd (skipComment lx))) < length (rest lx)"
proof -
  have "rest lx \<noteq> []" using assms(1) peek_not_end by simp
  then show ?thesis
    using eats_length [OF eats_skipComment [of lx]] by (cases "rest lx") (auto simp: beginToken_def)
qed

function skipWhitespace :: "lexer \<Rightarrow> token option \<times> lexer" where
  "skipWhitespace lx =
     (if isAtEnd lx then (None, lx)
      else let c = peek lx in
        if c \<in> {CHR '' '', CHR 0x0D, CHR 0x09, CHR 0x0A} then skipWhitespace (snd (advance lx))
        else if c = CHR ''-'' then
          (if peekNext lx = CHR ''-'' then
             (case skipComment lx of (failed, lx1) \<Rightarrow> if failed \<noteq> None then (failed, lx1) else skipWhitespace lx1)
           else (None, lx))
        else if c = CHR ''#'' then
          (if tc_line (lx_cursor lx) = 1 \<and> tc_column (lx_cursor lx) = 1 then skipWhitespace (skipLineComment lx)
           else (None, lx))
        else (None, lx))"
  by pat_completeness auto
termination
proof (relation "measure (\<lambda>lx. length (rest lx))", goal_cases)
  case (2 lx)
  then show ?case by simp
next
  case (3 lx _ failed lx1)
  then show ?case using rest_skipComment [of lx] by (simp flip: 3(6))
next
  case (4 lx)
  have "advance_while (\<lambda>c. \<not> isNewline c) lx = advance_while (\<lambda>c. \<not> isNewline c) (snd (advance lx))"
    using 4 by (subst advance_while.simps) (simp add: isNewline_def)
  moreover have "length (rest (advance_while (\<lambda>c. \<not> isNewline c) (snd (advance lx)))) \<le> length (rest lx) - 1"
    using eats_length [OF eats_advance_while [of "snd (advance lx)"]] by simp
  ultimately show ?case using 4(1) unfolding skipLineComment_def in_measure by (cases "rest lx") auto
qed simp

declare skipWhitespace.simps [simp del]

section \<open>Names and numbers\<close>

definition lex_identifier :: "lexer_env \<Rightarrow> lexer \<Rightarrow> token \<times> lexer" where
  "lex_identifier E lx0 =
     (let lx = advance_while (name_char E) lx0;
          t = (case map_of keyword_table (lx_buffer lx) of Some k \<Rightarrow> k | None \<Rightarrow> TT_Name)
      in (makeToken t lx, lx))"

definition consumeDecimalDigits :: "lexer \<Rightarrow> lexer" where
  "consumeDecimalDigits = advance_while isDigit"

definition consumeHexDigits :: "lexer \<Rightarrow> lexer" where
  "consumeHexDigits = advance_while isHexDigit"

definition consumeMalformedNumberSuffix :: "lexer_env \<Rightarrow> lexer \<Rightarrow> lexer" where
  "consumeMalformedNumberSuffix E lx =
     (if \<not> isAlpha E (peek lx) \<and> peek lx \<noteq> CHR ''_'' then lx else advance_while (name_char E) lx)"

text \<open>Reading a finished decimal lexeme: \<open>strtod\<close> must use all of it, with the decimal point of the locale
  on a second try.\<close>

definition parse_decimal :: "lexer_env \<Rightarrow> string \<Rightarrow> f64 option" where
  "parse_decimal E lexeme =
     (case le_strtod E (c_str lexeme) of (x, used) \<Rightarrow>
        if used = length lexeme then Some x
        else if le_decimalPoint E \<noteq> CHR ''.'' then
          (let localized = map (\<lambda>ch. if ch = CHR ''.'' then le_decimalPoint E else ch) lexeme
           in case le_strtod E (c_str localized) of (x', used') \<Rightarrow>
                if used' = length localized then Some x' else None)
        else None)"

definition decimalNumber :: "lexer_env \<Rightarrow> lexer \<Rightarrow> token \<times> lexer" where
  "decimalNumber E lx0 =
     (let lx1 = consumeDecimalDigits lx0;
          lx2 = (if peek lx1 = CHR ''.'' \<and> peekNext lx1 \<noteq> CHR ''.''
                 then consumeDecimalDigits (snd (advance lx1)) else lx1);
          exponent = (peek lx2 = CHR ''e'' \<or> peek lx2 = CHR ''E'');
          lx3 = (if exponent then let lx' = snd (advance lx2)
                   in if peek lx' = CHR ''+'' \<or> peek lx' = CHR ''-'' then snd (advance lx') else lx'
                 else lx2)
      in if exponent \<and> \<not> isDigit (peek lx3)
         then (errorToken ''Invalid number: expected digits after exponent'' lx3, lx3)
         else let lx4 = (if exponent then consumeDecimalDigits lx3 else lx3)
              in if peek lx4 = CHR ''.'' \<and> peekNext lx4 \<noteq> CHR ''.'' then
                   (let lx5 = consumeDecimalDigits (snd (advance lx4)) in (errorToken ''Malformed number'' lx5, lx5))
                 else let lx5 = consumeMalformedNumberSuffix E lx4; t = makeToken TT_Number lx5
                      in case parse_decimal E (lx_buffer lx5) of
                           None \<Rightarrow> (errorToken ''Malformed number'' lx5, lx5)
                         | Some x \<Rightarrow> (t\<lparr>tk_value := TV_Number x\<rparr>, lx5))"

text \<open>\<open>strtoll(s, &end, 16)\<close>: white space, a sign, an optional \<open>0x\<close> that digits follow, then digits; out of range
  it answers the nearest \<open>long long\<close>. The answer is the value and the characters read.\<close>

definition hex_digit_value :: "char \<Rightarrow> int" where
  "hex_digit_value c =
     (if isDigit c then int (of_char c) - 48
      else if between (CHR ''a'') (CHR ''f'') c then int (of_char c) - 87 else int (of_char c) - 55)"

definition hex_value :: "string \<Rightarrow> int" where
  "hex_value ds = foldl (\<lambda>n c. 16 * n + hex_digit_value c) 0 ds"

definition i64_max :: int where "i64_max = 9223372036854775807"
definition i64_min :: int where "i64_min = -9223372036854775808"

definition strtoll16 :: "string \<Rightarrow> int \<times> nat" where
  "strtoll16 s =
     (let s1 = dropWhile isspace s;
          negative = (take 1 s1 = ''-'');
          s2 = (if negative \<or> take 1 s1 = ''+'' then drop 1 s1 else s1);
          prefixed = (length s2 > 2 \<and> s2 ! 0 = CHR ''0'' \<and> s2 ! 1 \<in> {CHR ''x'', CHR ''X''} \<and> isHexDigit (s2 ! 2));
          s3 = (if prefixed then drop 2 s2 else s2);
          ds = takeWhile isHexDigit s3;
          v = (if negative then - hex_value ds else hex_value ds)
      in if ds = [] then (0, 0)
         else (max i64_min (min i64_max v), length s - length s3 + length ds))"

definition hexadecimalNumber :: "lexer_env \<Rightarrow> lexer \<Rightarrow> token \<times> lexer" where
  "hexadecimalNumber E lx0 =
     (let lx1 = snd (advance lx0)
      in if \<not> isHexDigit (peek lx1)
         then (errorToken ''Invalid hexadecimal number: expected hex digits after 0x'' lx1, lx1)
         else let lx2 = consumeHexDigits lx1
              in if isAlpha E (peek lx2) \<or> peek lx2 = CHR ''_'' then
                   (let lx3 = consumeMalformedNumberSuffix E lx2 in (errorToken ''Malformed hexadecimal number'' lx3, lx3))
                 else let t = makeToken TT_Number lx2
                      in case strtoll16 (c_str (lx_buffer lx2)) of (v, used) \<Rightarrow>
                           if used \<noteq> length (lx_buffer lx2) then (errorToken ''Malformed hexadecimal number'' lx2, lx2)
                           else (t\<lparr>tk_value := TV_Number (f64_of_int v)\<rparr>, lx2))"

section \<open>Strings\<close>

definition appendDecimalEscape :: "char \<Rightarrow> string \<Rightarrow> lexer \<Rightarrow> (token + string) \<times> lexer" where
  "appendDecimalEscape firstDigit result lx =
     (let digit = (\<lambda>c. int (of_char c) - 48);
          step = (\<lambda>(v, lx). if isDigit (peek lx) then (v * 10 + digit (peek lx), snd (advance lx)) else (v, lx))
      in case step (step (digit firstDigit, lx)) of (v, lx1) \<Rightarrow>
           if 255 < v then (Inl (errorToken ''Decimal escape too large'' lx1), lx1)
           else (Inr (result @ [char_of (nat v)]), lx1))"

definition appendShortStringEscape :: "string \<Rightarrow> lexer \<Rightarrow> (token + string) \<times> lexer" where
  "appendShortStringEscape result lx0 =
     (let lx = snd (advance lx0)
      in if isAtEnd lx then (Inl (errorToken ''Unterminated string'' lx), lx)
         else case advance lx of (c, lx1) \<Rightarrow>
           case decodeSimpleEscape c of
             Some simpleEscape \<Rightarrow> (Inr (result @ [simpleEscape]), lx1)
           | None \<Rightarrow>
               if isNewline c then (Inr (result @ [CHR 0x0A]), consumeNewlinePairRemainder c lx1)
               else if isDigit c then appendDecimalEscape c result lx1
               else (Inr (result @ [c]), lx1))"

lemma eats_appendDecimalEscape: "eats lx (snd (appendDecimalEscape c result lx))"
  by (auto simp: appendDecimalEscape_def Let_def split: prod.splits if_splits intro: eats_trans)

lemma eats_appendShortStringEscape: "eats (snd (advance lx)) (snd (appendShortStringEscape result lx))"
proof -
  let ?lx = "snd (advance lx)"
  obtain c lx1 where c: "advance ?lx = (c, lx1)" by fastforce
  then have "eats ?lx lx1" using eats_advance [of ?lx] by simp
  moreover have "eats ?lx (snd (appendDecimalEscape c result lx1))" "eats ?lx (consumeNewlinePairRemainder c lx1)"
    using calculation by (auto intro: eats_trans eats_appendDecimalEscape)
  ultimately show ?thesis by (auto simp: appendShortStringEscape_def Let_def c split: option.split)
qed

function shortString_loop :: "char \<Rightarrow> string \<Rightarrow> lexer \<Rightarrow> (token + string) \<times> lexer" where
  "shortString_loop quote result lx =
     (if peek lx \<noteq> quote \<and> \<not> isAtEnd lx then
        (if isNewline (peek lx) then (Inl (errorToken ''Unterminated string'' lx), lx)
         else if peek lx = CHR 0x5C then
           (case appendShortStringEscape result lx of
              (Inl failed, lx1) \<Rightarrow> (Inl failed, lx1)
            | (Inr result1, lx1) \<Rightarrow> shortString_loop quote result1 lx1)
         else (case advance lx of (c, lx1) \<Rightarrow> shortString_loop quote (result @ [c]) lx1))
      else (Inr result, lx))"
  by pat_completeness auto
termination
proof (relation "measure (\<lambda>(quote, result, lx). length (rest lx))", goal_cases)
  case (2 quote result lx r lx1 result1)
  then show ?case using eats_length [OF eats_appendShortStringEscape [of lx result]]
    by (cases "rest lx") (auto simp flip: 2(4))
next
  case (3 quote result lx c lx1)
  then show ?case using rest_advance [of lx] by (cases "rest lx") (auto simp flip: 3(4))
qed simp

declare shortString_loop.simps [simp del]

definition shortString :: "char \<Rightarrow> lexer \<Rightarrow> token \<times> lexer" where
  "shortString quote lx0 =
     (case shortString_loop quote [] lx0 of
        (Inl failed, lx) \<Rightarrow> (failed, lx)
      | (Inr result, lx) \<Rightarrow>
          if isAtEnd lx then (errorToken ''Unterminated string'' lx, lx)
          else let lx1 = snd (advance lx) in ((makeToken TT_String lx1)\<lparr>tk_value := TV_String result\<rparr>, lx1))"

definition appendLongStringChar :: "string \<Rightarrow> lexer \<Rightarrow> string \<times> lexer" where
  "appendLongStringChar result lx =
     (if isNewline (peek lx) then (result @ [CHR 0x0A], consumeNewlineSequence lx)
      else case advance lx of (c, lx1) \<Rightarrow> (result @ [c], lx1))"

lemma appendLongStringChar_shrinks:
  assumes "rest lx \<noteq> []"
  shows "length (rest (snd (appendLongStringChar result lx))) < length (rest lx)"
proof -
  obtain c lx1 where c: "advance lx = (c, lx1)" by fastforce
  then have "rest lx1 = tl (rest lx)" using rest_advance [of lx] by simp
  moreover have "length (rest (consumeNewlinePairRemainder c lx1)) \<le> length (rest lx1)"
    by (rule eats_length) simp
  ultimately show ?thesis using assms
    by (cases "rest lx") (auto simp: appendLongStringChar_def consumeNewlineSequence_def c)
qed

function longString_loop :: "int \<Rightarrow> string \<Rightarrow> lexer \<Rightarrow> string option \<times> lexer" where
  "longString_loop level result lx =
     (if isAtEnd lx then (None, lx)
      else if peek lx = CHR '']'' then
        (case closes level lx of (found, lx1) \<Rightarrow>
           if found then (Some result, lx1)
           else case appendLongStringChar result lx1 of (result1, lx2) \<Rightarrow> longString_loop level result1 lx2)
      else case appendLongStringChar result lx of (result1, lx1) \<Rightarrow> longString_loop level result1 lx1)"
  by pat_completeness auto
termination
proof (relation "measure (\<lambda>(level, result, lx). length (rest lx))", goal_cases)
  case (2 level result lx found lx1 result1 lx2)
  then have "lx1 = lx" using closes_false [of level lx lx1] by simp
  then show ?case using 2(1,5) appendLongStringChar_shrinks [of lx result] by (cases "appendLongStringChar result lx") auto
next
  case (3 level result lx result1 lx1)
  then show ?case using appendLongStringChar_shrinks [of lx result] by (cases "appendLongStringChar result lx") auto
qed simp

declare longString_loop.simps [simp del]

definition longString :: "int \<Rightarrow> lexer \<Rightarrow> token \<times> lexer" where
  "longString level lx0 =
     (case longString_loop level [] (skipInitialLongLiteralNewline lx0) of
        (Some result, lx) \<Rightarrow> ((makeToken TT_String lx)\<lparr>tk_value := TV_String result\<rparr>, lx)
      | (None, lx) \<Rightarrow> (errorToken ''Unterminated long string'' lx, lx))"

definition tryLongString :: "lexer \<Rightarrow> token option \<times> lexer" where
  "tryLongString lx =
     (case tryReadLongBracketStart lx of
        (None, lx1) \<Rightarrow> (None, lx1)
      | (Some level, lx1) \<Rightarrow> (case longString level lx1 of (t, lx2) \<Rightarrow> (Some t, lx2)))"

section \<open>Operators and the scanner\<close>

definition handleEqualsSuffix :: "token_type \<Rightarrow> token_type \<Rightarrow> lexer \<Rightarrow> token \<times> lexer" where
  "handleEqualsSuffix singleType compoundType lx =
     (case match (CHR ''='') lx of (m, lx1) \<Rightarrow> (makeToken (if m then compoundType else singleType) lx1, lx1))"

definition handleTildeOperator :: "lexer \<Rightarrow> token \<times> lexer" where
  "handleTildeOperator lx =
     (case match (CHR ''='') lx of (m, lx1) \<Rightarrow>
        if m then (makeToken TT_Ne lx1, lx1) else (errorToken (''Unexpected character '' @ [CHR 0x27, CHR ''~'', CHR 0x27]) lx1, lx1))"

definition handleDotOperator :: "lexer_env \<Rightarrow> lexer \<Rightarrow> token \<times> lexer" where
  "handleDotOperator E lx =
     (case match (CHR ''.'') lx of (m, lx1) \<Rightarrow>
        if m then (case match (CHR ''.'') lx1 of (m2, lx2) \<Rightarrow> (makeToken (if m2 then TT_Dots else TT_Concat) lx2, lx2))
        else if isDigit (peek lx1) then decimalNumber E lx1
        else (makeToken (TT_Char (CHR ''.'')) lx1, lx1))"

definition handleOperator :: "lexer_env \<Rightarrow> char \<Rightarrow> lexer \<Rightarrow> token \<times> lexer" where
  "handleOperator E c lx =
     (if isSingleCharToken c then (makeToken (TT_Char c) lx, lx)
      else if c = CHR ''='' then handleEqualsSuffix (TT_Char c) TT_Eq lx
      else if c = CHR ''<'' then handleEqualsSuffix (TT_Char c) TT_Le lx
      else if c = CHR ''>'' then handleEqualsSuffix (TT_Char c) TT_Ge lx
      else if c = CHR ''~'' then handleTildeOperator lx
      else if c = CHR ''.'' then handleDotOperator E lx
      else (errorToken ''Unexpected character'' lx, lx))"

definition scanToken :: "lexer_env \<Rightarrow> lexer \<Rightarrow> token \<times> lexer" where
  "scanToken E lx0 =
     (case skipWhitespace lx0 of
        (Some failed, lx1) \<Rightarrow> (failed, lx1)
      | (None, lx1) \<Rightarrow>
          let lx = beginToken (lx1\<lparr>lx_buffer := []\<rparr>)
          in if isAtEnd lx then (makeToken TT_Eos lx, lx)
             else case advance lx of (c, lx2) \<Rightarrow>
               if isAlpha E c \<or> c = CHR ''_'' then lex_identifier E lx2
               else if isDigit c then
                 (if c = CHR ''0'' \<and> (peek lx2 = CHR ''x'' \<or> peek lx2 = CHR ''X'') then hexadecimalNumber E lx2
                  else decimalNumber E lx2)
               else if c = CHR 0x22 \<or> c = CHR 0x27 then shortString c lx2
               else if c = CHR ''['' then
                 (case tryLongString lx2 of
                    (Some t, lx3) \<Rightarrow> (t, lx3)
                  | (None, lx3) \<Rightarrow> (makeToken (TT_Char (CHR ''['')) lx3, lx3))
               else handleOperator E c lx2)"

definition nextToken :: "lexer_env \<Rightarrow> lexer \<Rightarrow> token \<times> lexer" where
  "nextToken E lx =
     (case lx_lookahead lx of
        Some t \<Rightarrow> (t, lx\<lparr>lx_lookahead := None\<rparr>)
      | None \<Rightarrow> scanToken E lx)"

definition peekToken :: "lexer_env \<Rightarrow> lexer \<Rightarrow> token \<times> lexer" where
  "peekToken E lx =
     (case lx_lookahead lx of
        Some t \<Rightarrow> (t, lx)
      | None \<Rightarrow> (case scanToken E lx of (t, lx1) \<Rightarrow> (t, lx1\<lparr>lx_lookahead := Some t\<rparr>)))"

end
