(* ===== verification/LexerProps.thy ===== *)
theory LexerProps
  imports Lexer
begin

text \<open>
  Facts on the lexer: every scan consumes the text of its token and says where it began, printed
  tokens are read back, and a string quoted by \<open>%q\<close> is read back.
\<close>

section \<open>Tokens are pieces of the text\<close>

text \<open>What the functions below \<open>scanToken\<close> promise once the first character has been read.\<close>

definition scans :: "lexer \<Rightarrow> token \<times> lexer \<Rightarrow> bool" where
  "scans lx r \<longleftrightarrow>
     (case r of (t, lx') \<Rightarrow> eats lx lx' \<and> tk_lexeme t = lx_buffer lx' \<and> tk_type t \<noteq> TT_Eos \<and>
        tk_line t = lx_tokenLine lx \<and> tk_column t = lx_tokenColumn lx)"

lemma eats_fields:
  assumes "eats lx lx'"
  shows "lx_tokenLine lx' = lx_tokenLine lx" "lx_tokenColumn lx' = lx_tokenColumn lx" "lx_lookahead lx' = lx_lookahead lx"
    "lx_buffer lx \<noteq> [] \<Longrightarrow> lx_buffer lx' \<noteq> []"
  using assms by (auto simp: eats_def consumed_def)

lemma scans_make [intro]: "eats lx lx' \<Longrightarrow> t \<noteq> TT_Eos \<Longrightarrow> scans lx (makeToken t lx', lx')"
  by (simp add: scans_def makeToken_def eats_fields)

lemma scans_make_value [intro]: "eats lx lx' \<Longrightarrow> t \<noteq> TT_Eos \<Longrightarrow> scans lx ((makeToken t lx')\<lparr>tk_value := v\<rparr>, lx')"
  by (simp add: scans_def makeToken_def eats_fields)

lemma scans_error [intro]: "eats lx lx' \<Longrightarrow> lx_buffer lx \<noteq> [] \<Longrightarrow> scans lx (errorToken m lx', lx')"
  by (simp add: scans_def errorToken_def eats_fields)

lemma scans_after: "eats lx lx1 \<Longrightarrow> scans lx1 r \<Longrightarrow> scans lx r"
  by (auto simp: scans_def eats_fields intro: eats_trans split: prod.splits)

lemma scans_identifier: "scans lx (lex_identifier E lx)"
proof -
  have "t \<noteq> TT_Eos" if "map_of keyword_table w = Some t" for w t
    using map_of_SomeD [OF that] by (auto simp: keyword_table_def)
  then show ?thesis by (auto simp: lex_identifier_def Let_def split: option.split)
qed

lemma eats_number_parts [simp, intro]:
  "eats lx (consumeDecimalDigits lx)" "eats lx (consumeHexDigits lx)" "eats lx (consumeMalformedNumberSuffix E lx)"
  by (simp_all add: consumeDecimalDigits_def consumeHexDigits_def consumeMalformedNumberSuffix_def)

lemmas eats_steps = eats_trans [OF _ eats_advance] eats_trans [OF _ eats_advance_while]
  eats_trans [OF _ eats_number_parts(1)] eats_trans [OF _ eats_number_parts(2)] eats_trans [OF _ eats_number_parts(3)]
  eats_trans [OF _ eats_newlines(1)] eats_trans [OF _ eats_newlines(2)] eats_trans [OF _ eats_newlines(3)]

lemma scans_decimal:
  assumes "lx_buffer lx \<noteq> []"
  shows "scans lx (decimalNumber E lx)"
proof -
  define lx1 where "lx1 = consumeDecimalDigits lx"
  define lx2 where "lx2 = (if peek lx1 = CHR ''.'' \<and> peekNext lx1 \<noteq> CHR ''.'' then consumeDecimalDigits (snd (advance lx1)) else lx1)"
  define ex where "ex = (peek lx2 = CHR ''e'' \<or> peek lx2 = CHR ''E'')"
  define lx3 where "lx3 = (if ex then let lx' = snd (advance lx2)
      in if peek lx' = CHR ''+'' \<or> peek lx' = CHR ''-'' then snd (advance lx') else lx' else lx2)"
  have e1: "eats lx lx1" by (simp add: lx1_def)
  have e2: "eats lx lx2" unfolding lx2_def using e1 by (auto intro: eats_steps)
  have e3: "eats lx lx3" unfolding lx3_def Let_def using e2 by (auto intro: eats_steps)
  show ?thesis
    unfolding decimalNumber_def Let_def lx1_def [symmetric] lx2_def [symmetric] ex_def [symmetric]
      lx3_def [unfolded Let_def, symmetric]
    using e3 assms by (auto split: option.split intro!: scans_error scans_make_value eats_steps)
qed

lemma scans_hexadecimal:
  assumes "lx_buffer lx \<noteq> []"
  shows "scans lx (hexadecimalNumber E lx)"
  using assms unfolding hexadecimalNumber_def Let_def
  by (auto split: prod.split intro!: scans_error scans_make_value eats_steps)

lemma eats_shortString_loop: "eats lx (snd (shortString_loop quote result lx))"
proof (induction quote result lx rule: shortString_loop.induct)
  case (1 quote result lx)
  obtain c lx1 where a: "advance lx = (c, lx1)" by fastforce
  obtain r lx2 where e: "appendShortStringEscape result lx = (r, lx2)" by fastforce
  have "eats lx lx1" using a eats_advance [of lx] by simp
  moreover have "eats lx lx2" using e eats_appendShortStringEscape [of lx result] by (auto intro: eats_trans)
  ultimately show ?case using 1 a e by (subst shortString_loop.simps) (auto split: sum.split intro: eats_trans)
qed

lemma scans_appendDecimalEscape:
  assumes "lx_buffer lx \<noteq> []" "appendDecimalEscape c result lx = (Inl t, lx')"
  shows "scans lx (t, lx')"
proof -
  have "t = errorToken ''Decimal escape too large'' lx'"
    using assms(2) by (auto simp: appendDecimalEscape_def Let_def split: prod.splits if_splits)
  then show ?thesis using assms eats_appendDecimalEscape [of lx c result] by (auto intro: scans_error)
qed

lemma scans_appendShortStringEscape:
  assumes "lx_buffer lx \<noteq> []" "appendShortStringEscape result lx = (Inl t, lx')"
  shows "scans lx (t, lx')"
proof (cases "isAtEnd (snd (advance lx))")
  case True
  then show ?thesis using assms by (auto simp: appendShortStringEscape_def Let_def intro!: scans_error)
next
  case False
  obtain c lx1 where a: "advance (snd (advance lx)) = (c, lx1)" by fastforce
  then have e: "eats lx lx1" using eats_trans [OF eats_advance eats_advance, of lx] by simp
  have "appendDecimalEscape c result lx1 = (Inl t, lx')"
    using assms(2) False a by (auto simp: appendShortStringEscape_def split: option.splits if_splits)
  then show ?thesis using scans_appendDecimalEscape eats_fields(4) [OF e assms(1)] scans_after [OF e] by blast
qed

lemma scans_shortString_loop:
  assumes "lx_buffer lx \<noteq> []" "shortString_loop quote result lx = (Inl t, lx')"
  shows "scans lx (t, lx')"
  using assms
proof (induction quote result lx rule: shortString_loop.induct)
  case (1 quote result lx)
  obtain c lx1 where a: "advance lx = (c, lx1)" by fastforce
  obtain r lx2 where e: "appendShortStringEscape result lx = (r, lx2)" by fastforce
  have e1: "eats lx lx1" using a eats_advance [of lx] by simp
  have e2: "eats lx lx2"
    using e eats_trans [OF eats_advance eats_appendShortStringEscape, of lx result] by simp
  consider (newline) "peek lx \<noteq> quote" "\<not> isAtEnd lx" "isNewline (peek lx)"
    | (escape) "peek lx \<noteq> quote" "\<not> isAtEnd lx" "\<not> isNewline (peek lx)" "peek lx = CHR 0x5C"
    | (plain) "peek lx \<noteq> quote" "\<not> isAtEnd lx" "\<not> isNewline (peek lx)" "peek lx \<noteq> CHR 0x5C"
    using 1(4) by (subst (asm) shortString_loop.simps) (auto split: if_splits)
  then show ?case
  proof cases
    case newline
    then show ?thesis using 1(3,4) by (subst (asm) shortString_loop.simps) (auto intro: scans_error)
  next
    case escape
    show ?thesis
    proof (cases r)
      case (Inl t1)
      then show ?thesis using 1(3,4) escape e
        by (subst (asm) shortString_loop.simps) (auto intro: scans_appendShortStringEscape)
    next
      case (Inr result1)
      then have "shortString_loop quote result1 lx2 = (Inl t, lx')"
        using 1(4) escape e by (subst (asm) shortString_loop.simps) simp
      from 1(1) [OF _ _ _ e [symmetric] Inr eats_fields(4) [OF e2 1(3)] this] show ?thesis
        using escape scans_after [OF e2] by blast
    qed
  next
    case plain
    then have "shortString_loop quote (result @ [c]) lx1 = (Inl t, lx')"
      using 1(4) a by (subst (asm) shortString_loop.simps) simp
    from 1(2) [OF _ _ _ a [symmetric] eats_fields(4) [OF e1 1(3)] this] show ?thesis
      using plain scans_after [OF e1] by blast
  qed
qed

lemma scans_shortString:
  assumes "lx_buffer lx \<noteq> []"
  shows "scans lx (shortString quote lx)"
proof -
  obtain r lx1 where r: "shortString_loop quote [] lx = (r, lx1)" by fastforce
  then have "eats lx lx1" using eats_shortString_loop [of lx quote "[]"] by simp
  then show ?thesis using assms r scans_shortString_loop [OF assms, of quote "[]"]
    by (cases r) (auto simp: shortString_def Let_def intro!: scans_error scans_make_value eats_steps)
qed

lemma eats_appendLongStringChar: "eats lx (snd (appendLongStringChar result lx))"
  using eats_advance [of lx] by (cases "advance lx") (auto simp: appendLongStringChar_def)

lemma eats_longString_loop: "eats lx (snd (longString_loop level result lx))"
proof (induction level result lx rule: longString_loop.induct)
  case (1 level result lx)
  obtain found lx1 where c: "closes level lx = (found, lx1)" by fastforce
  obtain r2 lx2 where a: "appendLongStringChar result lx = (r2, lx2)" by fastforce
  have e1: "eats lx lx1" using c eats_closes [of lx level] by simp
  have e2: "eats lx lx2" using a eats_appendLongStringChar [of lx result] by simp
  have same: "\<not> found \<Longrightarrow> lx1 = lx" using c closes_false by simp
  show ?case
    using 1(1) [OF _ _ c [symmetric] _] 1(2) [OF _ _ a [symmetric]] e1 e2 c a same
    by (subst longString_loop.simps) (auto intro: eats_trans)
qed

lemma scans_longString:
  assumes "lx_buffer lx \<noteq> []"
  shows "scans lx (longString level lx)"
proof -
  obtain r lx1 where r: "longString_loop level [] (skipInitialLongLiteralNewline lx) = (r, lx1)" by fastforce
  then have "eats lx lx1"
    using eats_trans [OF eats_newlines(3) eats_longString_loop, of lx level "[]"] by simp
  then show ?thesis using assms r
    by (cases r) (auto simp: longString_def Let_def intro!: scans_error scans_make_value)
qed

lemma scans_bracket:
  assumes "lx_buffer lx \<noteq> []" "tryLongString lx = (r, lx')"
  shows "case r of Some t \<Rightarrow> scans lx (t, lx') | None \<Rightarrow> lx' = lx"
proof (cases "tryReadLongBracketStart lx")
  case (Pair level lx1)
  have e: "eats lx lx1" using Pair eats_tryReadLongBracketStart [of lx] by simp
  have "level = None \<Longrightarrow> lx1 = lx"
    using Pair eats_count_equals [of lx 0]
    by (auto simp: tryReadLongBracketStart_def Let_def restore_back split: prod.splits if_splits)
  moreover have "scans lx (longString n lx1)" for n
    by (rule scans_after [OF e scans_longString [OF eats_fields(4) [OF e assms(1)]]])
  ultimately show ?thesis
    using assms(2) Pair by (cases level; cases "longString (the level) lx1") (auto simp: tryLongString_def dest: sym)
qed

lemma eats_match: "eats lx (snd (match c lx))"
  by (simp add: match_def)

lemma scans_operator:
  assumes "lx_buffer lx \<noteq> []"
  shows "scans lx (handleOperator E c lx)"
proof -
  obtain b1 lx1 where m1: "match (CHR ''='') lx = (b1, lx1)" by fastforce
  obtain b2 lx2 where m2: "match (CHR ''.'') lx = (b2, lx2)" by fastforce
  obtain b3 lx3 where m3: "match (CHR ''.'') lx2 = (b3, lx3)" by fastforce
  have e: "eats lx lx1" "eats lx lx2" "eats lx2 lx3"
    using m1 m2 m3 eats_match [of lx "CHR ''=''"] eats_match [of lx "CHR ''.''"] eats_match [of lx2 "CHR ''.''"] by auto
  have dec: "scans lx (decimalNumber E lx2)"
    by (rule scans_after [OF e(2)]) (simp add: scans_decimal eats_fields(4) [OF e(2) assms])
  have "scans lx (handleEqualsSuffix (TT_Char d) t lx)" if "t \<noteq> TT_Eos" for d t
    using e that by (auto simp: handleEqualsSuffix_def m1)
  moreover have "scans lx (handleTildeOperator lx)"
    using e assms by (auto simp: handleTildeOperator_def m1)
  moreover have "scans lx (handleDotOperator E lx)"
    using e dec eats_trans [OF e(2,3)] by (auto simp: handleDotOperator_def m2 m3)
  ultimately show ?thesis using assms unfolding handleOperator_def by (simp add: scans_make scans_error)
qed

section \<open>Long brackets\<close>

definition bracket :: "char \<Rightarrow> nat \<Rightarrow> string" where
  "bracket s n = s # replicate n (CHR ''='') @ [s]"

lemma peek_cases: "rest lx \<noteq> [] \<Longrightarrow> rest lx = peek lx # tl (rest lx)"
  by (cases "rest lx") (auto simp: peek_simps)

lemma consumed_peek: "rest lx \<noteq> [] \<Longrightarrow> consumed lx [peek lx] (snd (advance lx))"
  by (rule consumed_advance [OF peek_cases])

lemma peek_char: "peek lx = c \<Longrightarrow> c \<noteq> CHR 0x00 \<Longrightarrow> rest lx = c # tl (rest lx)"
  using peek_cases peek_not_end by blast

lemma consumed_rest: "consumed lx w lx' \<Longrightarrow> rest lx = w @ rest lx'"
  by (simp add: consumed_def)

lemma count_equals_consumed:
  "\<exists>k. fst (count_equals n lx) = n + int k \<and> consumed lx (replicate k (CHR ''='')) (snd (count_equals n lx)) \<and>
     peek (snd (count_equals n lx)) \<noteq> CHR ''=''"
proof (induction n lx rule: count_equals.induct)
  case (1 n lx)
  show ?case
  proof (cases "peek lx = CHR ''=''")
    case True
    from 1 [OF this] obtain k where k: "fst (count_equals (n + 1) (snd (advance lx))) = n + 1 + int k"
      "consumed (snd (advance lx)) (replicate k (CHR ''='')) (snd (count_equals (n + 1) (snd (advance lx))))"
      "peek (snd (count_equals (n + 1) (snd (advance lx)))) \<noteq> CHR ''=''" by blast
    have "consumed lx (replicate (Suc k) (CHR ''='')) (snd (count_equals (n + 1) (snd (advance lx))))"
      using consumed_trans [OF consumed_peek k(2)] True peek_not_end [of lx] by simp
    then show ?thesis using True k by (subst (1 2 3) count_equals.simps) (auto intro!: exI [of _ "Suc k"])
  next
    case False
    then show ?thesis by (subst (1 2 3) count_equals.simps) (auto intro!: exI [of _ 0] consumed_Nil)
  qed
qed

lemma replicate_eq_prefix:
  assumes "replicate j e @ s # r = replicate k e @ t" "s \<noteq> e" "\<And>c cs. t = c # cs \<Longrightarrow> c \<noteq> e"
  shows "j = k \<and> t = s # r"
  using assms
proof (induction j arbitrary: k)
  case 0
  then show ?case by (cases k) auto
next
  case (Suc j)
  then show ?case by (cases k) auto
qed

lemma readLongBracketDelimiter_spec:
  assumes "peek lx = s" "s \<in> {CHR ''['', CHR '']''}"
  shows "case readLongBracketDelimiter lx of
      (Some m, lx1) \<Rightarrow> \<exists>k. m = int k \<and> consumed lx (bracket s k) lx1
    | (None, lx1) \<Rightarrow> lx1 = lx \<and> (\<forall>k r. rest lx \<noteq> bracket s k @ r)"
proof -
  have ne: "s \<noteq> CHR 0x00" "s \<noteq> CHR ''=''" using assms(2) by auto
  have start: "consumed lx [s] (snd (advance lx))"
    using consumed_peek peek_not_end [of lx] assms(1) ne by auto
  obtain k lx1 where c: "count_equals 0 (snd (advance lx)) = (int k, lx1)"
    and k: "consumed (snd (advance lx)) (replicate k (CHR ''='')) lx1" "peek lx1 \<noteq> CHR ''=''"
    using count_equals_consumed [of 0 "snd (advance lx)"] by (metis add_0 prod.collapse)
  have upto: "consumed lx (s # replicate k (CHR ''='')) lx1" using consumed_trans [OF start k(1)] by simp
  show ?thesis
  proof (cases "peek lx1 = s")
    case True
    then have "consumed lx (bracket s k) (snd (advance lx1))"
      using consumed_trans [OF upto consumed_peek] peek_not_end [of lx1] ne by (auto simp: bracket_def)
    then show ?thesis using assms True by (auto simp: readLongBracketDelimiter_def Let_def c)
  next
    case False
    have "eats lx lx1" using upto by (auto simp: eats_def)
    moreover have "rest lx \<noteq> bracket s j @ r" for j r
    proof
      assume r: "rest lx = bracket s j @ r"
      have e: "replicate j (CHR ''='') @ s # r = replicate k (CHR ''='') @ rest lx1"
        using r consumed_rest [OF upto] by (simp add: bracket_def)
      have "d \<noteq> CHR ''=''" if "rest lx1 = d # ds" for d ds using that k(2) by (simp add: peek_simps)
      then have "rest lx1 = s # r" using replicate_eq_prefix [OF e ne(2)] by blast
      then show False using False by (simp add: peek_simps)
    qed
    ultimately show ?thesis using assms False
      by (auto simp: readLongBracketDelimiter_def Let_def c restore_back)
  qed
qed

lemma closes_spec:
  assumes "peek lx = CHR '']''" "closes (int n) lx = (found, lx1)"
  shows "if found then consumed lx (bracket (CHR '']'') n) lx1
    else lx1 = lx \<and> (\<forall>r. rest lx \<noteq> bracket (CHR '']'') n @ r)"
proof -
  obtain m lx2 where r: "readLongBracketDelimiter lx = (m, lx2)" by fastforce
  note spec = readLongBracketDelimiter_spec [OF assms(1), unfolded r]
  have eats: "eats lx lx2" using eats_readLongBracketDelimiter [of lx] r by simp
  show ?thesis
  proof (cases m)
    case None
    then show ?thesis using spec assms(2) eats by (auto simp: closes_def Let_def r restore_back)
  next
    case (Some i)
    then obtain k where k: "i = int k" "consumed lx (bracket (CHR '']'') k) lx2" using spec by auto
    have "rest lx \<noteq> bracket (CHR '']'') n @ r" if "k \<noteq> n" for r
    proof
      assume "rest lx = bracket (CHR '']'') n @ r"
      then have "replicate n (CHR ''='') @ CHR '']'' # r = replicate k (CHR ''='') @ CHR '']'' # rest lx2"
        using consumed_rest [OF k(2)] by (simp add: bracket_def)
      from replicate_eq_prefix [OF this] show False using that by simp
    qed
    then show ?thesis using Some k assms(2) eats by (auto simp: closes_def Let_def r restore_back split: if_splits)
  qed
qed

text \<open>A long literal ends at its first closing bracket.\<close>

definition earliest :: "nat \<Rightarrow> string \<Rightarrow> bool" where
  "earliest n body \<longleftrightarrow> (\<forall>u v. body @ bracket (CHR '']'') n = u @ bracket (CHR '']'') n @ v \<longrightarrow> v = [])"

lemma earliest_Nil: "earliest n []"
  by (auto simp: earliest_def dest: arg_cong [where f = length])

lemma earliest_Cons:
  assumes "earliest n body" "\<And>v. c # body @ bracket (CHR '']'') n \<noteq> bracket (CHR '']'') n @ v"
  shows "earliest n (c # body)"
  unfolding earliest_def
proof (intro allI impI)
  fix u v
  assume "(c # body) @ bracket (CHR '']'') n = u @ bracket (CHR '']'') n @ v"
  then show "v = []" using assms by (cases u) (auto simp: earliest_def)
qed

lemma earliest_plain: "earliest n body \<Longrightarrow> c \<noteq> CHR '']'' \<Longrightarrow> earliest n (c # body)"
  by (erule earliest_Cons) (simp add: bracket_def)

definition no_close :: "nat \<Rightarrow> string \<Rightarrow> bool" where
  "no_close n w \<longleftrightarrow> (\<forall>u v. w \<noteq> u @ bracket (CHR '']'') n @ v)"

lemma no_close_Cons:
  assumes "no_close n w" "\<And>v. c # w \<noteq> bracket (CHR '']'') n @ v"
  shows "no_close n (c # w)"
  unfolding no_close_def
proof (intro allI notI)
  fix u v
  assume "c # w = u @ bracket (CHR '']'') n @ v"
  then show False using assms by (cases u) (auto simp: no_close_def)
qed

lemma longComment_loop_found:
  assumes "longComment_loop (int n) lx = (None, lx')"
  shows "\<exists>body. consumed lx (body @ bracket (CHR '']'') n) lx' \<and> earliest n body"
  using assms
proof (induction "int n" lx rule: longComment_loop.induct)
  case (1 lx)
  have ne: "rest lx \<noteq> []" using 1(3) by (subst (asm) longComment_loop.simps) (auto split: if_splits)
  have skip: "\<exists>body. consumed lx (body @ bracket (CHR '']'') n) lx' \<and> earliest n body"
    if "\<exists>body. consumed (snd (advance lx)) (body @ bracket (CHR '']'') n) lx' \<and> earliest n body"
      and "\<And>v. rest lx \<noteq> bracket (CHR '']'') n @ v"
  proof -
    from that(1) obtain body where b: "consumed (snd (advance lx)) (body @ bracket (CHR '']'') n) lx'" "earliest n body"
      by blast
    have c: "consumed lx ((peek lx # body) @ bracket (CHR '']'') n) lx'"
      using consumed_trans [OF consumed_peek [OF ne] b(1)] by simp
    have "earliest n (peek lx # body)"
    proof (rule earliest_Cons [OF b(2)], rule notI)
      fix v
      assume "peek lx # body @ bracket (CHR '']'') n = bracket (CHR '']'') n @ v"
      then have "rest lx = bracket (CHR '']'') n @ v @ rest lx'" using consumed_rest [OF c] by simp
      then show False using that(2) by blast
    qed
    then show ?thesis using c by blast
  qed
  show ?case
  proof (cases "peek lx = CHR '']''")
    case True
    obtain found lx1 where c: "closes (int n) lx = (found, lx1)" by fastforce
    note spec = closes_spec [OF True c]
    show ?thesis
    proof (cases found)
      case True
      then have "lx' = lx1" using 1(3) c ne \<open>peek lx = _\<close> by (subst (asm) longComment_loop.simps) simp
      then show ?thesis using spec True earliest_Nil by (auto intro!: exI [of _ "[]"])
    next
      case False
      then have "longComment_loop (int n) (snd (advance lx)) = (None, lx')"
        using 1(3) c ne spec \<open>peek lx = _\<close> by (subst (asm) longComment_loop.simps) simp
      then show ?thesis using skip spec False 1(1) [OF _ True c [symmetric]] ne by auto
    qed
  next
    case False
    then have "longComment_loop (int n) (snd (advance lx)) = (None, lx')"
      using 1(3) ne by (subst (asm) longComment_loop.simps) simp
    moreover have "rest lx \<noteq> bracket (CHR '']'') n @ v" for v
      using False ne by (auto simp: bracket_def peek_simps)
    ultimately show ?thesis using skip False 1(2) ne by auto
  qed
qed

lemma longComment_loop_failed:
  assumes "longComment_loop (int n) lx = (Some t, lx')" "lx_buffer lx \<noteq> []"
  shows "scans lx (t, lx') \<and> rest lx' = [] \<and> no_close n (rest lx) \<and> tk_type t = TT_Error"
  using assms
proof (induction "int n" lx rule: longComment_loop.induct)
  case (1 lx)
  show ?case
  proof (cases "rest lx = []")
    case True
    then have "t = errorToken ''Unterminated long comment'' lx" "lx' = lx"
      using 1(3) by (subst (asm) longComment_loop.simps; simp)+
    then show ?thesis using True 1(4) scans_error [OF eats_refl 1(4)]
      by (auto simp: no_close_def bracket_def errorToken_def)
  next
    case ne: False
    have more: "lx_buffer (snd (advance lx)) \<noteq> []" using eats_fields(4) [OF eats_advance 1(4)] .
    have skip: "scans lx (t, lx') \<and> rest lx' = [] \<and> no_close n (rest lx) \<and> tk_type t = TT_Error"
      if "scans (snd (advance lx)) (t, lx') \<and> rest lx' = [] \<and> no_close n (rest (snd (advance lx))) \<and> tk_type t = TT_Error"
        and "\<And>v. rest lx \<noteq> bracket (CHR '']'') n @ v"
      using that scans_after [OF eats_advance] no_close_Cons [of n "tl (rest lx)" "hd (rest lx)"] ne by simp
    show ?thesis
    proof (cases "peek lx = CHR '']''")
      case True
      obtain found lx1 where c: "closes (int n) lx = (found, lx1)" by fastforce
      note spec = closes_spec [OF True c]
      have "\<not> found" using 1(3) c ne True by (subst (asm) longComment_loop.simps) auto
      then have "longComment_loop (int n) (snd (advance lx)) = (Some t, lx')"
        using 1(3) c ne spec True by (subst (asm) longComment_loop.simps) simp
      then show ?thesis using skip spec \<open>\<not> found\<close> 1(1) [OF _ True c [symmetric]] ne more by auto
    next
      case False
      then have "longComment_loop (int n) (snd (advance lx)) = (Some t, lx')"
        using 1(3) ne by (subst (asm) longComment_loop.simps) simp
      moreover have "rest lx \<noteq> bracket (CHR '']'') n @ v" for v
        using False ne by (auto simp: bracket_def peek_simps)
      ultimately show ?thesis using skip False 1(2) ne more by auto
    qed
  qed
qed

text \<open>In a long string every line end reads as one LF.\<close>

fun unify_newlines :: "string \<Rightarrow> string" where
  "unify_newlines [] = []"
| "unify_newlines [c] = [if isNewline c then CHR 0x0A else c]"
| "unify_newlines (c # d # cs) =
     (if \<not> isNewline c then c # unify_newlines (d # cs)
      else if isNewline d \<and> d \<noteq> c then CHR 0x0A # unify_newlines cs
      else CHR 0x0A # unify_newlines (d # cs))"

lemma unify_newlines_step:
  "\<not> isNewline c \<Longrightarrow> unify_newlines (c # cs) = c # unify_newlines cs"
  "isNewline c \<Longrightarrow> isNewline d \<Longrightarrow> d \<noteq> c \<Longrightarrow> unify_newlines (c # d # cs) = CHR 0x0A # unify_newlines cs"
  "isNewline c \<Longrightarrow> \<not> (\<exists>d ds. cs = d # ds \<and> isNewline d \<and> d \<noteq> c) \<Longrightarrow> unify_newlines (c # cs) = CHR 0x0A # unify_newlines cs"
  by (cases cs; auto)+

lemma isNewline_NUL [simp]: "\<not> isNewline (CHR 0x00)" "\<not> isNewline (CHR '']'')"
  by (simp_all add: isNewline_def)

lemma earliest_newlines: "earliest n body \<Longrightarrow> isNewline c \<Longrightarrow> earliest n (c # body)"
  by (rule earliest_plain) auto

text \<open>One turn of the loop consumes a character or a line end.\<close>

lemma appendLongStringChar_spec:
  assumes "rest lx \<noteq> []" "appendLongStringChar result lx = (result1, lx1)"
  obtains (plain) c where "rest lx = c # rest lx1" "\<not> isNewline c" "consumed lx [c] lx1" "result1 = result @ [c]"
    | (pair) c d where "rest lx = c # d # rest lx1" "isNewline c" "isNewline d" "d \<noteq> c" "consumed lx [c, d] lx1"
        "result1 = result @ [CHR 0x0A]"
    | (single) c where "rest lx = c # rest lx1" "isNewline c" "\<not> (\<exists>d ds. rest lx1 = d # ds \<and> isNewline d \<and> d \<noteq> c)"
        "consumed lx [c] lx1" "result1 = result @ [CHR 0x0A]"
proof -
  obtain c cs where r: "rest lx = c # cs" using assms(1) by (cases "rest lx") auto
  define lx2 where "lx2 = snd (advance lx)"
  have a: "advance lx = (c, lx2)" using r by (simp add: lx2_def advance_simps)
  have k: "consumed lx [c] lx2" unfolding lx2_def by (rule consumed_advance [OF r])
  have r2: "rest lx2 = cs" using consumed_rest [OF k] r by simp
  show ?thesis
  proof (cases "isNewline c")
    case False
    then show ?thesis using that(1) assms(2) r r2 a k by (simp add: appendLongStringChar_def peek_simps(2) [OF r])
  next
    case nl: True
    then have e: "lx1 = consumeNewlinePairRemainder c lx2" "result1 = result @ [CHR 0x0A]"
      using assms(2) a by (simp_all add: appendLongStringChar_def consumeNewlineSequence_def peek_simps(2) [OF r])
    show ?thesis
    proof (cases "isNewline (peek lx2) \<and> peek lx2 \<noteq> c")
      case True
      then obtain d ds where d: "cs = d # ds" using r2 by (cases cs) (auto simp: peek_simps)
      then have p: "peek lx2 = d" using r2 by (simp add: peek_simps)
      have l: "lx1 = snd (advance lx2)" using e True by (simp add: consumeNewlinePairRemainder_def)
      have "consumed lx [c, d] lx1"
        using consumed_trans [OF k consumed_advance [of lx2 d ds]] r2 d l by simp
      then show ?thesis using that(2) nl True p r d l r2 e by simp
    next
      case False
      then have "lx1 = lx2" using e by (auto simp: consumeNewlinePairRemainder_def)
      moreover have "\<not> (\<exists>d ds. cs = d # ds \<and> isNewline d \<and> d \<noteq> c)" using False r2 by (auto simp: peek_simps)
      ultimately show ?thesis using that(3) nl r r2 k e by simp
    qed
  qed
qed

lemma longString_loop_found:
  assumes "longString_loop (int n) result lx = (Some s, lx')"
  shows "\<exists>body. consumed lx (body @ bracket (CHR '']'') n) lx' \<and> earliest n body \<and> s = result @ unify_newlines body"
  using assms
proof (induction "int n" result lx rule: longString_loop.induct)
  case (1 result lx)
  have ne: "rest lx \<noteq> []" using 1(3) by (subst (asm) longString_loop.simps) (auto split: if_splits)
  obtain result1 lx2 where a: "appendLongStringChar result lx = (result1, lx2)" by fastforce
  have skip: "\<exists>body. consumed lx (body @ bracket (CHR '']'') n) lx' \<and> earliest n body \<and> s = result @ unify_newlines body"
    if ih: "\<exists>body. consumed lx2 (body @ bracket (CHR '']'') n) lx' \<and> earliest n body \<and> s = result1 @ unify_newlines body"
      and open_yet: "\<And>v. rest lx \<noteq> bracket (CHR '']'') n @ v"
  proof -
    from ih obtain body where b: "consumed lx2 (body @ bracket (CHR '']'') n) lx'" "earliest n body"
      "s = result1 @ unify_newlines body" by blast
    have first: "earliest n (c # body)" if "rest lx = c # rest lx2" for c
    proof (rule earliest_Cons [OF b(2)], rule notI)
      fix v
      assume "c # body @ bracket (CHR '']'') n = bracket (CHR '']'') n @ v"
      then have "rest lx = bracket (CHR '']'') n @ v @ rest lx'" using consumed_rest [OF b(1)] that by simp
      then show False using open_yet by blast
    qed
    show ?thesis
    proof (cases rule: appendLongStringChar_spec [OF ne a])
      case (1 c)
      then show ?thesis using consumed_trans [OF 1(3) b(1)] first b(3)
        by (intro exI [of _ "c # body"]) (simp add: unify_newlines_step(1))
    next
      case (2 c d)
      then show ?thesis using consumed_trans [OF 2(5) b(1)] b(2,3)
        by (intro exI [of _ "c # d # body"]) (simp add: unify_newlines_step(2) earliest_newlines del: unify_newlines.simps)
    next
      case (3 c)
      have "\<not> (\<exists>d ds. body = d # ds \<and> isNewline d \<and> d \<noteq> c)" using 3(3) consumed_rest [OF b(1)] by auto
      then show ?thesis using 3 consumed_trans [OF 3(4) b(1)] first b(3)
        by (intro exI [of _ "c # body"]) (simp add: unify_newlines_step(3))
    qed
  qed
  show ?case
  proof (cases "peek lx = CHR '']''")
    case True
    obtain found lx1 where c: "closes (int n) lx = (found, lx1)" by fastforce
    note spec = closes_spec [OF True c]
    show ?thesis
    proof (cases found)
      case True
      then have "lx' = lx1" "s = result" using 1(3) c ne \<open>peek lx = _\<close> by (subst (asm) longString_loop.simps; simp)+
      then show ?thesis using spec True earliest_Nil by (auto intro!: exI [of _ "[]"])
    next
      case False
      then have "longString_loop (int n) result1 lx2 = (Some s, lx')"
        using 1(3) c ne spec a \<open>peek lx = _\<close> by (subst (asm) longString_loop.simps) simp
      moreover have "lx1 = lx" using spec False by simp
      ultimately show ?thesis using skip spec False 1(1) [OF _ True c [symmetric], of result1 lx2] ne a by auto
    qed
  next
    case False
    then have "longString_loop (int n) result1 lx2 = (Some s, lx')"
      using 1(3) ne a by (subst (asm) longString_loop.simps) simp
    moreover have "rest lx \<noteq> bracket (CHR '']'') n @ v" for v
      using False ne by (auto simp: bracket_def peek_simps)
    ultimately show ?thesis using skip False 1(2) [OF _ False a [symmetric]] ne by auto
  qed
qed

section \<open>Positions\<close>

text \<open>The line ends of a text, a CRLF or LFCR counting once, and the distance from the last one.\<close>

fun line_ends :: "string \<Rightarrow> nat" where
  "line_ends [] = 0"
| "line_ends [c] = (if isNewline c then 1 else 0)"
| "line_ends (c # d # cs) =
     (if \<not> isNewline c then line_ends (d # cs)
      else if isNewline d \<and> d \<noteq> c then 1 + line_ends cs else 1 + line_ends (d # cs))"

definition column_after :: "string \<Rightarrow> nat" where
  "column_after w = 1 + length (takeWhile (\<lambda>c. \<not> isNewline c) (rev w))"

definition lines_from :: "char option \<Rightarrow> string \<Rightarrow> nat" where
  "lines_from pending w =
     (case (pending, w) of
        (Some a, c # cs) \<Rightarrow> if isNewline c \<and> c \<noteq> a then line_ends cs else line_ends w
      | _ \<Rightarrow> line_ends w)"

lemma line_ends_Cons: "line_ends (c # cs) = (if isNewline c then 1 + lines_from (Some c) cs else line_ends cs)"
  by (cases cs) (auto simp: lines_from_def)

lemma pass_Cons: "pass (c # w) t = pass w (step_over c (t\<lparr>tc_rest := tl (tc_rest t)\<rparr>))"
  by (simp add: pass_def)

lemma pass_append: "pass (v @ w) t = pass w (pass v t)"
  by (simp add: pass_def)

lemma pass_line: "tc_line (pass w t) = tc_line t + int (lines_from (tc_pending t) w)"
proof (induction w arbitrary: t)
  case Nil
  then show ?case by (simp add: pass_def lines_from_def split: option.split)
next
  case (Cons c w)
  show ?case unfolding pass_Cons Cons.IH
    by (auto simp: step_over_def lines_from_def [of "tc_pending t"] line_ends_Cons lines_from_def [of None]
        split: option.splits)
qed

lemma pass_column:
  "tc_column (pass w t) = (if \<exists>c \<in> set w. isNewline c then int (column_after w) else tc_column t + int (length w))"
  if "tc_pending t \<noteq> None \<longrightarrow> tc_column t = 1"
  using that
proof (induction w arbitrary: t)
  case Nil
  then show ?case by (simp add: pass_def)
next
  case (Cons c w)
  have "tc_pending (step_over c u) \<noteq> None \<longrightarrow> tc_column (step_over c u) = 1"
    "isNewline c \<Longrightarrow> tc_pending u \<noteq> None \<longrightarrow> tc_column u = 1 \<Longrightarrow> tc_column (step_over c u) = 1" for u
    by (auto simp: step_over_def)
  note this [of "t\<lparr>tc_rest := tl (tc_rest t)\<rparr>"]
  moreover have "\<not> isNewline c \<Longrightarrow> tc_column (step_over c u) = tc_column u + 1" for u by (simp add: step_over_def)
  moreover have "column_after (c # w) = (if \<exists>d \<in> set w. isNewline d then column_after w
      else if isNewline c then 1 + length w else 2 + length w)"
    by (auto simp: column_after_def takeWhile_append)
  ultimately show ?case unfolding pass_Cons using Cons by auto
qed

lemma position_after:
  "tc_line (pass w (start_of src)) = 1 + int (line_ends w)" "tc_column (pass w (start_of src)) = int (column_after w)"
  "tc_line (pass w (start_of src)) = 1 \<and> tc_column (pass w (start_of src)) = 1 \<longleftrightarrow> w = []"
proof -
  show l: "tc_line (pass w (start_of src)) = 1 + int (line_ends w)"
    by (simp add: pass_line) (simp add: start_of_def lines_from_def)
  have "\<forall>c \<in> set w. \<not> isNewline c \<Longrightarrow> column_after w = 1 + length w"
    by (simp add: column_after_def takeWhile_eq_all_conv [THEN iffD2])
  then show c: "tc_column (pass w (start_of src)) = int (column_after w)"
    by (subst pass_column) (auto simp: start_of_def)
  have some: "\<exists>c \<in> set w. isNewline c \<Longrightarrow> line_ends w \<noteq> 0"
    by (induction w rule: line_ends.induct) (auto split: if_splits)
  show "tc_line (pass w (start_of src)) = 1 \<and> tc_column (pass w (start_of src)) = 1 \<longleftrightarrow> w = []"
    unfolding l c using some by (cases w rule: rev_cases) (auto simp: column_after_def line_ends.simps)
qed

section \<open>Between the tokens\<close>

text \<open>\<open>skips first w r\<close>: of the text \<open>w\<close>, all up to \<open>r\<close> is white space and comments, and \<open>r\<close> begins with
  neither; a \<open>#\<close> begins a comment at the start of the source. A long comment that is not closed is
  left for the error token.\<close>

definition token_start :: "bool \<Rightarrow> string \<Rightarrow> bool" where
  "token_start first r \<longleftrightarrow>
     (case r of
        [] \<Rightarrow> True
      | c # cs \<Rightarrow> c \<notin> {CHR '' '', CHR 0x0D, CHR 0x09, CHR 0x0A} \<and> \<not> (first \<and> c = CHR ''#'') \<and>
          (take 2 r = ''--'' \<longrightarrow> (\<exists>k v. drop 2 r = bracket (CHR ''['') k @ v \<and> no_close k v)))"

definition line_comment :: "string \<Rightarrow> string \<Rightarrow> bool" where
  "line_comment u w \<longleftrightarrow> (\<forall>c \<in> set u. \<not> isNewline c) \<and> (w = [] \<or> isNewline (hd w))"

inductive skips :: "bool \<Rightarrow> string \<Rightarrow> string \<Rightarrow> bool" where
  skips_stop: "token_start first r \<Longrightarrow> skips first r r"
| skips_space: "c \<in> {CHR '' '', CHR 0x0D, CHR 0x09, CHR 0x0A} \<Longrightarrow> skips False w r \<Longrightarrow> skips first (c # w) r"
| skips_line: "line_comment u w \<Longrightarrow> (\<And>k v. u @ w \<noteq> bracket (CHR ''['') k @ v) \<Longrightarrow> skips False w r \<Longrightarrow>
    skips first (''--'' @ u @ w) r"
| skips_long: "earliest k body \<Longrightarrow> skips False w r \<Longrightarrow>
    skips first (''--'' @ bracket (CHR ''['') k @ body @ bracket (CHR '']'') k @ w) r"
| skips_hash: "line_comment u w \<Longrightarrow> skips False w r \<Longrightarrow> skips True (CHR ''#'' # u @ w) r"

lemma advance_while_consumed:
  "\<exists>u. consumed lx u (advance_while P lx) \<and> (\<forall>c \<in> set u. P c) \<and>
     (rest (advance_while P lx) = [] \<or> \<not> P (hd (rest (advance_while P lx))))"
proof (induction P lx rule: advance_while.induct)
  case (1 P lx)
  show ?case
  proof (cases "P (peek lx) \<and> \<not> isAtEnd lx")
    case True
    from 1 [OF this] obtain u where u: "consumed (snd (advance lx)) u (advance_while P (snd (advance lx)))"
      "\<forall>c \<in> set u. P c" "rest (advance_while P (snd (advance lx))) = [] \<or> \<not> P (hd (rest (advance_while P (snd (advance lx)))))"
      by blast
    have "consumed lx (peek lx # u) (advance_while P (snd (advance lx)))"
      using consumed_trans [OF consumed_peek u(1)] True by simp
    then show ?thesis using True u by (subst (1 2 3) advance_while.simps) (auto intro!: exI [of _ "peek lx # u"])
  next
    case False
    then have "advance_while P lx = lx" by (subst advance_while.simps) auto
    moreover have "rest lx = [] \<or> \<not> P (hd (rest lx))" using False by (cases "rest lx") (auto simp: peek_simps)
    ultimately show ?thesis using consumed_Nil by (intro exI [of _ "[]"]) auto
  qed
qed

lemma skipLineComment_consumed: "\<exists>u. consumed lx u (skipLineComment lx) \<and> line_comment u (rest (skipLineComment lx))"
  using advance_while_consumed [of lx "\<lambda>c. \<not> isNewline c"] by (auto simp: skipLineComment_def line_comment_def)

text \<open>A comment starts its own lexeme; \<open>opened\<close> is the state at its first dash.\<close>

abbreviation opened :: "lexer \<Rightarrow> lexer" where
  "opened lx \<equiv> beginToken (lx\<lparr>lx_buffer := []\<rparr>)"

lemma opened_fields [simp]:
  "lx_cursor (opened lx) = lx_cursor lx" "lx_buffer (opened lx) = []" "lx_lookahead (opened lx) = lx_lookahead lx"
  "lx_tokenLine (opened lx) = tc_line (lx_cursor lx)" "lx_tokenColumn (opened lx) = tc_column (lx_cursor lx)"
  by (simp_all add: beginToken_def)

lemma skipInitial_consumed: "\<exists>u. consumed lx u (skipInitialLongLiteralNewline lx) \<and> (\<forall>c \<in> set u. isNewline c)"
proof -
  obtain c lx1 where a: "advance lx = (c, lx1)" by fastforce
  show ?thesis
  proof (cases "isNewline (peek lx)")
    case True
    then have ne: "rest lx \<noteq> []" using peek_not_end [of lx] by (auto simp: isNewline_def)
    then have c: "c = peek lx" "consumed lx [c] lx1"
      using consumed_peek [OF ne] a peek_cases [OF ne] advance_simps(2) by auto
    show ?thesis
    proof (cases "isNewline (peek lx1) \<and> peek lx1 \<noteq> c")
      case p: True
      then have "rest lx1 \<noteq> []" using peek_not_end [of lx1] by (auto simp: isNewline_def)
      then have "consumed lx [c, peek lx1] (snd (advance lx1))" using consumed_trans [OF c(2) consumed_peek] by simp
      then show ?thesis using True p a c(1)
        by (intro exI [of _ "[c, peek lx1]"])
          (simp add: skipInitialLongLiteralNewline_def consumeNewlineSequence_def consumeNewlinePairRemainder_def)
    next
      case False
      then have "skipInitialLongLiteralNewline lx = lx1" using True a
        by (auto simp: skipInitialLongLiteralNewline_def consumeNewlineSequence_def consumeNewlinePairRemainder_def)
      then show ?thesis using True c by (intro exI [of _ "[c]"]) simp
    qed
  next
    case False
    then show ?thesis using consumed_Nil by (intro exI [of _ "[]"]) (simp add: skipInitialLongLiteralNewline_def)
  qed
qed

lemma earliest_newline_prefix: "\<forall>c \<in> set u. isNewline c \<Longrightarrow> earliest n body \<Longrightarrow> earliest n (u @ body)"
  by (induction u) (auto intro: earliest_newlines)

lemma no_close_newline_prefix: "\<forall>c \<in> set u. isNewline c \<Longrightarrow> no_close n w \<Longrightarrow> no_close n (u @ w)"
proof (induction u)
  case (Cons c u)
  have "c \<noteq> CHR '']''" using Cons.prems(1) by (auto simp: isNewline_def)
  then show ?case using Cons by (auto intro!: no_close_Cons simp: bracket_def)
qed simp

lemma skipComment_spec:
  assumes "rest lx = CHR ''-'' # CHR ''-'' # w" "skipComment lx = (failed, lx')"
  shows "case failed of
      None \<Rightarrow> \<exists>v. consumed (opened lx) (''--'' @ v) lx' \<and>
        (line_comment v (rest lx') \<and> (\<forall>k u. w \<noteq> bracket (CHR ''['') k @ u) \<or>
         (\<exists>k body. v = bracket (CHR ''['') k @ body @ bracket (CHR '']'') k \<and> earliest k body))
    | Some t \<Rightarrow> scans (opened lx) (t, lx') \<and> tk_type t = TT_Error \<and> rest lx' = [] \<and>
        (\<exists>k u. w = bracket (CHR ''['') k @ u \<and> no_close k u)"
proof -
  define lx2 where "lx2 = snd (advance (snd (advance (opened lx))))"
  have "consumed (opened lx) [CHR ''-''] (snd (advance (opened lx)))" using assms(1) by (intro consumed_advance) simp
  moreover have "consumed (snd (advance (opened lx))) [CHR ''-''] lx2"
    unfolding lx2_def using assms(1) by (intro consumed_advance) simp
  ultimately have two: "consumed (opened lx) ''--'' lx2" using consumed_trans by fastforce
  have w: "rest lx2 = w" using consumed_rest [OF two] assms(1) by simp
  have buf: "lx_buffer lx2 \<noteq> []" using two by (auto simp: consumed_def)
  have comment: "skipComment lx =
      (if peek lx2 \<noteq> CHR ''['' then (None, skipLineComment lx2)
       else case readLongBracketDelimiter lx2 of
              (Some level, lx1) \<Rightarrow> skipLongComment level lx1 | (None, lx1) \<Rightarrow> (None, skipLineComment lx1))"
    by (simp add: skipComment_def lx2_def Let_def)
  have short: "\<exists>v. consumed (opened lx) (''--'' @ v) (skipLineComment lx2) \<and> line_comment v (rest (skipLineComment lx2))"
    using skipLineComment_consumed [of lx2] consumed_trans [OF two] by blast
  show ?thesis
  proof (cases "peek lx2 = CHR ''[''")
    case False
    then have "w \<noteq> bracket (CHR ''['') k @ u" for k u using w by (auto simp: bracket_def peek_simps)
    then show ?thesis using False assms(2) short by (auto simp: comment)
  next
    case True
    obtain m lx3 where r: "readLongBracketDelimiter lx2 = (m, lx3)" by fastforce
    note spec = readLongBracketDelimiter_spec [OF True, unfolded r]
    show ?thesis
    proof (cases m)
      case None
      then show ?thesis using True assms(2) short spec w by (auto simp: comment r)
    next
      case (Some i)
      then obtain k where k: "i = int k" "consumed lx2 (bracket (CHR ''['') k) lx3" using spec by auto
      obtain u where u: "consumed lx3 u (skipInitialLongLiteralNewline lx3)" "\<forall>c \<in> set u. isNewline c"
        using skipInitial_consumed by blast
      define lx4 where "lx4 = skipInitialLongLiteralNewline lx3"
      have run: "longComment_loop (int k) lx4 = (failed, lx')"
        using assms(2) True Some k(1) by (simp add: comment r skipLongComment_def lx4_def)
      have upto: "consumed (opened lx) (''--'' @ bracket (CHR ''['') k @ u) lx4"
        using consumed_trans [OF two consumed_trans [OF k(2) u(1)]] by (simp add: lx4_def)
      have w': "w = bracket (CHR ''['') k @ u @ rest lx4"
        using consumed_rest [OF k(2)] consumed_rest [OF u(1)] w by (simp add: lx4_def)
      show ?thesis
      proof (cases failed)
        case None
        then obtain body where b: "consumed lx4 (body @ bracket (CHR '']'') k) lx'" "earliest k body"
          using longComment_loop_found run by blast
        then show ?thesis using None consumed_trans [OF upto b(1)] earliest_newline_prefix [OF u(2) b(2)]
          by (auto intro!: exI [of _ "bracket (CHR ''['') k @ u @ body @ bracket (CHR '']'') k"])
      next
        case (Some t)
        have e: "eats (opened lx) lx4" using upto by (auto simp: eats_def)
        have "lx_buffer lx4 \<noteq> []" using upto by (auto simp: consumed_def)
        then have "scans lx4 (t, lx') \<and> rest lx' = [] \<and> no_close k (rest lx4) \<and> tk_type t = TT_Error"
          using longComment_loop_failed run Some by blast
        moreover have "\<exists>k u. w = bracket (CHR ''['') k @ u \<and> no_close k u"
          using w' no_close_newline_prefix [OF u(2)] calculation by blast
        ultimately show ?thesis using Some scans_after [OF e] by simp
      qed
    qed
  qed
qed

text \<open>A lexer that has read \<open>before\<close> of the source \<open>src\<close>.\<close>

definition has_read :: "string \<Rightarrow> string \<Rightarrow> lexer \<Rightarrow> bool" where
  "has_read src before lx \<longleftrightarrow> src = before @ rest lx \<and> lx_cursor lx = pass before (start_of src)"

lemma has_read_consumed:
  assumes "has_read src before lx" "consumed lx w lx'"
  shows "has_read src (before @ w) lx'"
proof -
  have c: "lx_cursor lx = pass before (start_of src)" and r: "src = before @ rest lx"
    using assms(1) unfolding has_read_def by blast+
  have "lx_cursor lx' = pass (before @ w) (start_of src)"
    using assms(2) unfolding consumed_def pass_append c [symmetric] by blast
  moreover have "src = (before @ w) @ rest lx'" using r consumed_rest [OF assms(2)] by (metis append.assoc)
  ultimately show ?thesis unfolding has_read_def by blast
qed

lemma has_read_opened: "has_read src before (opened lx) \<longleftrightarrow> has_read src before lx"
  unfolding has_read_def opened_fields ..

lemma has_read_position:
  assumes "has_read src before lx"
  shows "tc_line (lx_cursor lx) = 1 + int (line_ends before)" "tc_column (lx_cursor lx) = int (column_after before)"
    "tc_line (lx_cursor lx) = 1 \<and> tc_column (lx_cursor lx) = 1 \<longleftrightarrow> before = []"
proof -
  have c: "lx_cursor lx = pass before (start_of src)" using assms unfolding has_read_def by blast
  show "tc_line (lx_cursor lx) = 1 + int (line_ends before)" "tc_column (lx_cursor lx) = int (column_after before)"
    "tc_line (lx_cursor lx) = 1 \<and> tc_column (lx_cursor lx) = 1 \<longleftrightarrow> before = []"
    unfolding c by (rule position_after)+
qed

definition skipped_to :: "string \<Rightarrow> string \<Rightarrow> string \<Rightarrow> string \<Rightarrow> token option \<Rightarrow> lexer \<Rightarrow> bool" where
  "skipped_to src before w gap failed lx' \<longleftrightarrow>
     (case failed of
        None \<Rightarrow> has_read src (before @ gap) lx' \<and> skips (before = []) w (rest lx')
      | Some t \<Rightarrow> w = gap @ tk_lexeme t \<and> has_read src (before @ w) lx' \<and> rest lx' = [] \<and> skips (before = []) w (tk_lexeme t) \<and>
          tk_type t = TT_Error \<and> tk_lexeme t \<noteq> [] \<and> tk_line t = 1 + int (line_ends (before @ gap)) \<and>
          tk_column t = int (column_after (before @ gap)))"

lemma skipped_to_more:
  assumes "skipped_to src (before @ v) w gap failed lx'" "v \<noteq> []"
    and "\<And>r. skips False w r \<Longrightarrow> skips (before = []) (v @ w) r"
  shows "skipped_to src before (v @ w) (v @ gap) failed lx'"
  using assms by (auto simp: skipped_to_def split: option.splits)

lemma skipWhitespace_spec:
  assumes "has_read src before lx" "skipWhitespace lx = (failed, lx')"
  shows "lx_lookahead lx' = lx_lookahead lx \<and> (\<exists>gap. skipped_to src before (rest lx) gap failed lx')"
  using assms
proof (induction lx arbitrary: before rule: skipWhitespace.induct)
  case (1 lx)
  note run = 1(5) [unfolded skipWhitespace.simps [of lx] Let_def]
  have stop: ?case if "token_start (before = []) (rest lx)" "skipWhitespace lx = (None, lx)"
    using that 1(4,5) by (auto simp: skipped_to_def intro!: exI [of _ "[]"] skips_stop)
  show ?case
  proof (cases "rest lx")
    case Nil
    then show ?thesis by (intro stop) (auto simp: token_start_def skipWhitespace.simps [of lx])
  next
    case (Cons c cs)
    then have p: "peek lx = c" by (simp add: peek_simps)
    consider (space) "c \<in> {CHR '' '', CHR 0x0D, CHR 0x09, CHR 0x0A}" | (comment) w where "c = CHR ''-''" "cs = CHR ''-'' # w"
      | (hash) "c = CHR ''#''" "before = []"
      | (other) "c \<notin> {CHR '' '', CHR 0x0D, CHR 0x09, CHR 0x0A}" "\<not> (\<exists>w. c = CHR ''-'' \<and> cs = CHR ''-'' # w)"
          "\<not> (c = CHR ''#'' \<and> before = [])"
      by blast
    then show ?thesis
    proof cases
      case space
      have k: "consumed lx [c] (snd (advance lx))" by (rule consumed_advance [OF Cons])
      have "skipWhitespace (snd (advance lx)) = (failed, lx')" using run space p Cons by auto
      from 1(1) [OF _ p [symmetric] space has_read_consumed [OF 1(4) k] this] Cons
      obtain gap where "lx_lookahead lx' = lx_lookahead (snd (advance lx))"
        "skipped_to src (before @ [c]) cs gap failed lx'" by auto
      then show ?thesis
        using skipped_to_more [of src before "[c]" cs gap failed lx'] skips_space [OF space] k Cons
        by (auto simp: consumed_def)
    next
      case comment
      then have pn: "peekNext lx = CHR ''-''" using Cons by (simp add: peek_simps)
      obtain failed1 lx1 where s: "skipComment lx = (failed1, lx1)" by fastforce
      note spec = skipComment_spec [OF Cons [unfolded comment] s]
      have o: "has_read src before (opened lx)" using 1(4) has_read_opened by simp
      show ?thesis
      proof (cases failed1)
        case None
        with spec obtain v where v: "consumed (opened lx) (''--'' @ v) lx1"
          "line_comment v (rest lx1) \<and> (\<forall>k u. w \<noteq> bracket (CHR ''['') k @ u) \<or>
           (\<exists>k body. v = bracket (CHR ''['') k @ body @ bracket (CHR '']'') k \<and> earliest k body)" by auto
        have w: "w = v @ rest lx1" using consumed_rest [OF v(1)] Cons comment by simp
        have "skipWhitespace lx1 = (failed, lx')" using run p pn comment s None Cons by auto
        from 1(2) [OF _ p [symmetric] _ comment(1) pn s [symmetric] _ has_read_consumed [OF o v(1)] this] None comment Cons
        obtain gap where g: "lx_lookahead lx' = lx_lookahead lx1" "skipped_to src (before @ ''--'' @ v) (rest lx1) gap failed lx'"
          by auto
        have "skips first ((''--'' @ v) @ rest lx1) r" if "skips False (rest lx1) r" for first r
          using v(2) w skips_line [of v "rest lx1" r first] skips_long [of _ _ "rest lx1" r first] that by auto
        from skipped_to_more [OF g(2) _ this] show ?thesis using g(1) v(1) w Cons comment
          by (auto simp: consumed_def)
      next
        case (Some t)
        with spec have t: "scans (opened lx) (t, lx1)" "tk_type t = TT_Error" "rest lx1 = []"
          "\<exists>k u. w = bracket (CHR ''['') k @ u \<and> no_close k u" by auto
        then obtain l where l: "consumed (opened lx) l lx1" by (auto simp: scans_def eats_def)
        have lx': "failed = Some t" "lx' = lx1" using run p pn comment s Some Cons by auto
        have lex: "tk_lexeme t = l" "l = rest lx" using t(1,3) l by (auto simp: scans_def consumed_def)
        have "token_start (before = []) (rest lx)" using t(4) Cons comment by (auto simp: token_start_def)
        then have "skipped_to src before (rest lx) [] failed lx'"
          using lx' lex t l has_read_consumed [OF o l] has_read_position [OF 1(4)] Cons
          by (auto simp: skipped_to_def scans_def intro: skips_stop)
        then show ?thesis using l lx' by (auto simp: consumed_def)
      qed
    next
      case hash
      obtain u where u: "consumed lx u (skipLineComment lx)" "line_comment u (rest (skipLineComment lx))"
        using skipLineComment_consumed by blast
      have at_start: "tc_line (lx_cursor lx) = 1 \<and> tc_column (lx_cursor lx) = 1"
        using has_read_position(3) [OF 1(4)] hash by simp
      have go: "skipWhitespace (skipLineComment lx) = (failed, lx')" using run p hash Cons at_start by auto
      obtain u' where u': "u = CHR ''#'' # u'"
      proof (cases u)
        case Nil
        then have "rest (skipLineComment lx) = CHR ''#'' # cs" using consumed_rest [OF u(1)] Cons hash by simp
        then show ?thesis using u(2) by (simp add: line_comment_def isNewline_def)
      next
        case (Cons d u')
        then show ?thesis using that consumed_rest [OF u(1)] \<open>rest lx = c # cs\<close> hash by simp
      qed
      from 1(3) [OF _ p [symmetric] _ _ hash(1) at_start has_read_consumed [OF 1(4) u(1)] go] hash Cons
      obtain gap where g: "lx_lookahead lx' = lx_lookahead (skipLineComment lx)"
        "skipped_to src (before @ u) (rest (skipLineComment lx)) gap failed lx'" by auto
      have "skips (before = []) (u @ rest (skipLineComment lx)) r" if "skips False (rest (skipLineComment lx)) r" for r
        using skips_hash [of u' "rest (skipLineComment lx)" r] u(2) that u' hash by (simp add: line_comment_def)
      from skipped_to_more [OF g(2) _ this] u' show ?thesis
        using g(1) u(1) consumed_rest [OF u(1)] by (auto simp: consumed_def)
    next
      case other
      have "peekNext lx \<noteq> CHR ''-''" if "c = CHR ''-''" using other(2) that Cons
        by (cases cs) (auto simp: peek_simps)
      moreover have "\<not> (tc_line (lx_cursor lx) = 1 \<and> tc_column (lx_cursor lx) = 1)" if "c = CHR ''#''"
        using has_read_position(3) [OF 1(4)] other(3) that by simp
      ultimately have "skipWhitespace lx = (None, lx)" using p Cons other(1)
        by (subst skipWhitespace.simps) (auto simp: Let_def)
      moreover have "token_start (before = []) (rest lx)" using other Cons
        by (cases cs) (auto simp: token_start_def)
      ultimately show ?thesis by (intro stop)
    qed
  qed
qed

section \<open>All tokens of a text\<close>

lemma scanToken_spec:
  assumes "has_read src before lx" "scanToken E lx = (t, lx')"
  shows "lx_lookahead lx' = lx_lookahead lx \<and>
    (\<exists>gap. rest lx = gap @ tk_lexeme t @ rest lx' \<and> has_read src (before @ gap @ tk_lexeme t) lx' \<and>
       skips (before = []) (rest lx) (tk_lexeme t @ rest lx') \<and>
       tk_line t = 1 + int (line_ends (before @ gap)) \<and> tk_column t = int (column_after (before @ gap)) \<and>
       (if tk_type t = TT_Eos then tk_lexeme t = [] \<and> rest lx' = [] else tk_lexeme t \<noteq> []))"
proof -
  obtain failed lx1 where s: "skipWhitespace lx = (failed, lx1)" by fastforce
  from skipWhitespace_spec [OF assms(1) s] obtain gap where gap: "lx_lookahead lx1 = lx_lookahead lx"
    "skipped_to src before (rest lx) gap failed lx1" by blast
  show ?thesis
  proof (cases failed)
    case (Some t1)
    then have "t = t1" "lx' = lx1" using assms(2) s by (simp_all add: scanToken_def)
    then show ?thesis using gap Some by (auto simp: skipped_to_def)
  next
    case None
    then have h: "has_read src (before @ gap) lx1" and sk: "skips (before = []) (rest lx) (rest lx1)"
      using gap by (simp_all add: skipped_to_def)
    have src: "src = before @ rest lx" "src = (before @ gap) @ rest lx1"
      using assms(1) h unfolding has_read_def by blast+
    have r: "rest lx = gap @ rest lx1" using src by (metis append.assoc same_append_eq)
    show ?thesis
    proof (cases "rest lx1")
      case Nil
      then have "t = makeToken TT_Eos (opened lx1)" "lx' = opened lx1"
        using assms(2) s None by (auto simp: scanToken_def Let_def)
      then show ?thesis using r Nil h sk gap(1) has_read_position [OF h]
        by (auto simp: makeToken_def has_read_opened)
    next
      case (Cons c cs)
      define lx2 where "lx2 = snd (advance (opened lx1))"
      have a: "advance (opened lx1) = (c, lx2)" using Cons by (simp add: lx2_def advance_simps)
      have k: "consumed (opened lx1) [c] lx2" unfolding lx2_def using Cons by (intro consumed_advance) simp
      then have buf: "lx_buffer lx2 \<noteq> []" by (simp add: consumed_def)
      have e: "eats (opened lx1) lx2" using k by (auto simp: eats_def)
      obtain lb lx3 where b: "tryLongString lx2 = (lb, lx3)" by fastforce
      have "scans lx2 (t, lx')"
        using assms(2) s None Cons a b scans_bracket [OF buf b]
          scans_identifier [of lx2 E] scans_hexadecimal [OF buf, of E] scans_decimal [OF buf, of E]
          scans_shortString [OF buf, of c] scans_operator [OF buf, of E c]
        by (auto simp: scanToken_def Let_def split: if_splits option.splits)
      then have sc: "scans (opened lx1) (t, lx')" by (rule scans_after [OF e])
      then obtain w where w: "consumed (opened lx1) w lx'" "tk_lexeme t = w" by (auto simp: scans_def eats_def consumed_def)
      have "w \<noteq> []" using \<open>scans lx2 (t, lx')\<close> buf w(2) eats_fields(4) by (auto simp: scans_def)
      moreover have "has_read src (before @ gap @ w) lx'"
        using has_read_consumed [OF _ w(1), of src "before @ gap"] h has_read_opened by simp
      moreover have "rest lx1 = w @ rest lx'" using consumed_rest [OF w(1)] by simp
      ultimately show ?thesis using r sk gap(1) sc w has_read_position [OF h]
        by (auto simp: scans_def consumed_def intro!: exI [of _ gap])
    qed
  qed
qed

text \<open>The answers of \<open>n\<close> calls of \<open>nextToken\<close>, as a parser makes them.\<close>

fun nextTokens :: "lexer_env \<Rightarrow> nat \<Rightarrow> lexer \<Rightarrow> token list" where
  "nextTokens E 0 lx = []"
| "nextTokens E (Suc n) lx = (case nextToken E lx of (t, lx') \<Rightarrow> t # nextTokens E n lx')"

text \<open>\<open>covers before w ts\<close>: the tokens \<open>ts\<close> cut up all of the text \<open>w\<close>, which \<open>before\<close> precedes: each
  lexeme is the next piece of the text behind white space and comments, each position is that of the
  piece, and the last token and only that is the end of the text.\<close>

fun covers :: "string \<Rightarrow> string \<Rightarrow> token list \<Rightarrow> bool" where
  "covers before w [] = False"
| "covers before w (t # ts) =
     (\<exists>gap r. w = gap @ tk_lexeme t @ r \<and> skips (before = []) w (tk_lexeme t @ r) \<and>
        tk_line t = 1 + int (line_ends (before @ gap)) \<and> tk_column t = int (column_after (before @ gap)) \<and>
        (if tk_type t = TT_Eos then tk_lexeme t = [] \<and> r = [] \<and> ts = []
         else tk_lexeme t \<noteq> [] \<and> covers (before @ gap @ tk_lexeme t) r ts))"

lemma nextTokens_cover:
  assumes "has_read src before lx" "lx_lookahead lx = None"
  shows "\<exists>n \<le> length (rest lx) + 1. covers before (rest lx) (nextTokens E n lx)"
  using assms
proof (induction "length (rest lx)" arbitrary: before lx rule: less_induct)
  case less
  obtain t lx' where s: "scanToken E lx = (t, lx')" by fastforce
  have nt: "nextToken E lx = (t, lx')" using s less(3) by (simp add: nextToken_def)
  from scanToken_spec [OF less(2) s] less(3) obtain gap where la: "lx_lookahead lx' = None"
    and gap: "rest lx = gap @ tk_lexeme t @ rest lx'" "has_read src (before @ gap @ tk_lexeme t) lx'"
      "skips (before = []) (rest lx) (tk_lexeme t @ rest lx')"
      "tk_line t = 1 + int (line_ends (before @ gap))" "tk_column t = int (column_after (before @ gap))"
    and kind: "if tk_type t = TT_Eos then tk_lexeme t = [] \<and> rest lx' = [] else tk_lexeme t \<noteq> []" by auto
  show ?case
  proof (cases "tk_type t = TT_Eos")
    case True
    have "covers before (rest lx) (nextTokens E (Suc 0) lx)"
      unfolding nextTokens.simps nt prod.case covers.simps
      by (intro exI [of _ gap] exI [of _ "rest lx'"]) (use gap kind True in simp)
    then show ?thesis by (intro exI [of _ 1]) simp
  next
    case False
    then have "length (rest lx') < length (rest lx)" using gap(1) kind by simp
    from less(1) [OF this gap(2) la] obtain n where n: "n \<le> length (rest lx') + 1"
      "covers (before @ gap @ tk_lexeme t) (rest lx') (nextTokens E n lx')" by blast
    have "covers before (rest lx) (nextTokens E (Suc n) lx)"
      unfolding nextTokens.simps nt prod.case covers.simps
      by (intro exI [of _ gap] exI [of _ "rest lx'"]) (use gap kind False n(2) in simp)
    then show ?thesis using n(1) \<open>length (rest lx') < length (rest lx)\<close> by (intro exI [of _ "Suc n"]) simp
  qed
qed

text \<open>C24. Every text is a sequence of tokens: after at most one call more than the text has characters
  the lexer answers the end of the text, and until then each answer consumes the next piece of it. The
  lexeme of a token, an erroneous one included, is that piece, what is skipped before it is exactly
  white space and comments, and its line and column are those of its first character, with a CRLF or
  LFCR counting as one line end.\<close>

theorem tokens_cover_the_text:
  "\<exists>n \<le> length src + 1. covers [] src (nextTokens E n (new_lexer src))"
proof -
  have "has_read src [] (new_lexer src)" "lx_lookahead (new_lexer src) = None" "rest (new_lexer src) = src"
    by (simp_all add: has_read_def pass_def new_lexer_def start_of_def)
  with nextTokens_cover [of src "[]" "new_lexer src" E] show ?thesis by simp
qed

text \<open>Looking ahead does not change what is read.\<close>

lemma peek_then_next:
  assumes "has_read src before lx"
  shows "nextToken E (snd (peekToken E lx)) = nextToken E lx" "fst (peekToken E lx) = fst (nextToken E lx)"
proof -
  obtain t lx' where s: "scanToken E lx = (t, lx')" by fastforce
  have "lx_lookahead lx' = lx_lookahead lx" using scanToken_spec [OF assms s] by blast
  then show "nextToken E (snd (peekToken E lx)) = nextToken E lx" "fst (peekToken E lx) = fst (nextToken E lx)"
    using s by (auto simp: peekToken_def nextToken_def split: option.split)
qed

end
