(* ===== verification/StackApi.thy ===== *)
theory StackApi
  imports VMRuns
begin

text \<open>
  The part of \<^verbatim>\<open>vm/state/lua_state.cpp\<close> native functions and the C API work with: indexing the frame,
  converting arguments in place, moving values, raising errors, and the protected call.

  \<open>VM::call\<close> is an argument of the protected call, as it is of every metamethod call. The two
  preallocated messages of the global state and the text of a \<open>std::out_of_range\<close> are the fields of
  \<open>api_env\<close>. Running out of memory is not modelled.
\<close>

section \<open>Indexing the frame\<close>

definition frame_base_of :: "nat exec" where
  "frame_base_of = bind (gets vm_currentCI) (\<lambda>ci. if 0 < ci then bind getCurrentCallInfo (\<lambda>c. ret (ci_base c)) else ret 0)"

definition getTop :: "int exec" where
  "getTop = bind frame_base_of (\<lambda>base. gets (\<lambda>s. int (vm_top s) - int base))"

text \<open>\<open>at(idx)\<close> answers a reference: \<open>index_of\<close> is the slot it refers to.\<close>

definition index_of :: "int \<Rightarrow> nat exec" where
  "index_of idx =
     bind frame_base_of (\<lambda>base. bind (gets vm_top) (\<lambda>topSlot.
       if 0 < idx then
         (let absIdx = base + nat (idx - 1) in if topSlot \<le> absIdx then throw X_OutOfRange else ret absIdx)
       else if idx < 0 then
         (let offset = int topSlot + idx in if offset < int base then throw X_OutOfRange else ret (nat offset))
       else throw X_OutOfRange))"

definition at_index :: "int \<Rightarrow> lua_value exec" where
  "at_index idx = bind (index_of idx) (\<lambda>i. of_stack (stack_at i))"

definition put_at_index :: "int \<Rightarrow> lua_value \<Rightarrow> unit exec" where
  "put_at_index idx v = bind (index_of idx) (\<lambda>i. on_stack (stack_put_at i v))"

definition pushIndex :: "int \<Rightarrow> unit exec" where
  "pushIndex idx = bind (at_index idx) pushValue"

definition lua_error :: "string \<Rightarrow> 'a exec" where
  "lua_error msg = seqx (modify (\<lambda>s. s\<lparr>vm_status := TS_ErrRun\<rparr>)) (throw (X_Runtime msg))"

definition errorTop :: "'a exec" where
  "errorTop = seqx (modify (\<lambda>s. s\<lparr>vm_status := TS_ErrRun\<rparr>)) (bind (at_index (-1)) (\<lambda>v. throw (X_Value v)))"

section \<open>Conversions\<close>

text \<open>\<open>tryToString\<close> replaces a number by its text where it stands; any exception makes the answer empty.\<close>

definition tryToString :: "vm_env \<Rightarrow> int \<Rightarrow> string option exec" where
  "tryToString E idx =
     catch
       (bind (at_index idx) (\<lambda>v. case v of
            VString a \<Rightarrow> bind (string_of a) (\<lambda>str. ret (Some str))
          | VNumber x \<Rightarrow> bind (intern (e_to_chars E x)) (\<lambda>a.
              seqx (put_at_index idx (VString a)) (bind (string_of a) (\<lambda>str. ret (Some str))))
          | _ \<Rightarrow> ret None))
       (\<lambda>_. ret None)"

definition toString :: "vm_env \<Rightarrow> int \<Rightarrow> string option exec" where
  "toString E idx =
     bind (tryToString E idx) (\<lambda>r.
       if r = None then ret None
       else catch (bind (at_index idx) (\<lambda>v. case v of
                VString a \<Rightarrow> bind (string_of a) (\<lambda>str. ret (Some str)) | _ \<Rightarrow> ret None))
              (\<lambda>_. ret None))"

definition toNumber :: "vm_env \<Rightarrow> int \<Rightarrow> f64 exec" where
  "toNumber E idx =
     catch
       (bind (at_index idx) (\<lambda>v. case v of
            VNumber x \<Rightarrow> ret x
          | VString a \<Rightarrow> bind (string_of a) (\<lambda>str.
              seqx (consumeNativeWork E (length str))
                (ret (case luaStringToNumber E str of Some x \<Rightarrow> x | None \<Rightarrow> f64_zero)))
          | _ \<Rightarrow> ret f64_zero))
       (\<lambda>_. ret f64_zero)"

definition toBoolean :: "int \<Rightarrow> bool exec" where
  "toBoolean idx =
     catch (bind (at_index idx) (\<lambda>v. ret (case v of VNil \<Rightarrow> False | VBoolean b \<Rightarrow> b | _ \<Rightarrow> True))) (\<lambda>_. ret False)"

section \<open>Moving values\<close>

definition setTop :: "int \<Rightarrow> unit exec" where
  "setTop idx =
     bind frame_base_of (\<lambda>base. bind (gets vm_top) (\<lambda>oldTop.
       let newTop = (if 0 \<le> idx then int base + idx else int oldTop + idx + 1)
       in if newTop < int base then throw (X_Runtime ''invalid stack index'')
          else let n = nat newTop in
            seqx (of_stack (checkLimit n))
           (seqx (push_nils_to n)
           (seqx (for_each [oldTop..<n] (\<lambda>i. write_slot i VNil))
           (bind (gets (\<lambda>s. sk_top (vm_stack s))) (\<lambda>size.
            seqx (for_each [n..<min oldTop size] (\<lambda>i. write_slot i VNil))
                 (setAbsoluteTop n)))))))"

definition absolute :: "int \<Rightarrow> int exec" where
  "absolute idx =
     bind (gets vm_top) (\<lambda>topSlot. bind frame_base_of (\<lambda>base.
       ret (if idx < 0 then int topSlot + idx else int base + idx - 1)))"

definition move_slot :: "nat \<Rightarrow> nat \<Rightarrow> unit exec" where
  "move_slot from to' = bind (of_stack (stack_at from)) (\<lambda>v. on_stack (stack_put_at to' v))"

definition insert_at :: "int \<Rightarrow> unit exec" where
  "insert_at idx =
     bind (gets vm_top) (\<lambda>topSlot.
       if topSlot = 0 then throw (X_Runtime ''insert: stack is empty'')
       else bind (absolute idx) (\<lambda>absIdx.
         if absIdx < 0 \<or> int topSlot \<le> absIdx then throw (X_Runtime ''insert: invalid index'')
         else bind (of_stack (stack_at (topSlot - 1))) (\<lambda>topValue.
           seqx (for_each (rev [Suc (nat absIdx)..<topSlot]) (\<lambda>i. move_slot (i - 1) i))
                (on_stack (stack_put_at (nat absIdx) topValue)))))"

definition replace :: "int \<Rightarrow> unit exec" where
  "replace idx =
     bind (gets vm_top) (\<lambda>topSlot.
       if topSlot = 0 then throw (X_Runtime ''replace: stack is empty'')
       else bind (of_stack (stack_at (topSlot - 1))) (\<lambda>topValue.
         bind (absolute idx) (\<lambda>absIdx.
           if absIdx < 0 \<or> int topSlot \<le> absIdx then throw (X_Runtime ''replace: invalid index'')
           else seqx (on_stack (stack_put_at (nat absIdx) topValue)) (setAbsoluteTop (topSlot - 1)))))"

section \<open>Where an error happened\<close>

fun chunk_snippet :: "string \<Rightarrow> string \<Rightarrow> string" where
  "chunk_snippet snippet [] = snippet"
| "chunk_snippet snippet (ch # cs) =
     (if ch = CHR 0x0A \<or> ch = CHR 0x0D \<or> 60 \<le> length snippet then snippet @ ''...''
      else chunk_snippet (snippet @ (if ch = CHR 0x22 \<or> ch = CHR 0x5C then [CHR 0x5C] else []) @ [ch]) cs)"

definition makeStringChunkSnippet :: "string \<Rightarrow> string" where
  "makeStringChunkSnippet source = chunk_snippet [] source"

definition makeLuaChunkId :: "string \<Rightarrow> string" where
  "makeLuaChunkId source =
     (if source \<noteq> [] \<and> hd source \<in> {CHR ''='', CHR ''@''} then tl source
      else ''[string '' @ [CHR 0x22] @ makeStringChunkSnippet source @ [CHR 0x22] @ '']'')"

definition proto_at :: "vm \<Rightarrow> call_info \<Rightarrow> (proto_data \<times> nat) option" where
  "proto_at s ci =
     (if ci_func ci < sk_top (vm_stack s) \<and> ci_func ci < length (sk_slots (vm_stack s)) then
        (case sk_slots (vm_stack s) ! ci_func ci of
           VFunction a \<Rightarrow> (case lookup (vm_functions s) a of
               Some f \<Rightarrow> (case (fn_kind f, ci_savedpc ci) of
                   (LuaFunction p, Some pc) \<Rightarrow> Some (proto_data p, pc) | _ \<Rightarrow> None)
             | None \<Rightarrow> None)
         | _ \<Rightarrow> None)
      else None)"

fun located :: "vm \<Rightarrow> string \<Rightarrow> nat \<Rightarrow> string" where
  "located s message frameIndex =
     (case (if frameIndex < length (vm_callStack s) then proto_at s (vm_callStack s ! frameIndex) else None) of
        Some (p, pc) \<Rightarrow>
          let errorPc = (if 0 < pc then pc - 1 else 0);
              source = (case pd_source p of
                  Some a \<Rightarrow> (case lookup (vm_strings s) a of Some str \<Rightarrow> str | None \<Rightarrow> '''') | None \<Rightarrow> ''=?'')
          in makeLuaChunkId source @ '':'' @ to_string (getLine p errorPc) @ '': '' @ message
      | None \<Rightarrow> (case frameIndex of 0 \<Rightarrow> message | Suc below \<Rightarrow> located s message below))"

definition runtimeErrorWithLocation :: "vm \<Rightarrow> string \<Rightarrow> string" where
  "runtimeErrorWithLocation s message = located s message (vm_currentCI s)"

section \<open>The protected call\<close>

record api_env =
  ae_memoryMessage :: lua_value
  ae_apiMessage :: lua_value
  ae_outOfRange :: string

definition LUA_OK :: int where "LUA_OK = 0"
definition LUA_ERRRUN :: int where "LUA_ERRRUN = 2"
definition LUA_ERRMEM :: int where "LUA_ERRMEM = 4"
definition LUA_ERRERR :: int where "LUA_ERRERR = 5"

text \<open>\<open>closeUnwoundUpvalues\<close>: from the current frame down to the first one above the saved frame.\<close>

fun close_frames :: "nat \<Rightarrow> nat \<Rightarrow> unit exec" where
  "close_frames saved 0 = ret ()"
| "close_frames saved (Suc frame) =
     bind (gets vm_callStack) (\<lambda>calls.
       if saved < Suc frame \<and> Suc frame < length calls
       then seqx (closeUpvalues (ci_base (calls ! Suc frame))) (close_frames saved frame) else ret ())"

definition closeUnwoundUpvalues :: "nat \<Rightarrow> unit exec" where
  "closeUnwoundUpvalues savedCurrentCI = bind (gets vm_currentCI) (close_frames savedCurrentCI)"

text \<open>\<open>std::copy_n\<close> into the vector of frames, which must be long enough.\<close>

definition restoreCallFrames :: "call_info list \<Rightarrow> nat \<Rightarrow> unit exec" where
  "restoreCallFrames saved currentCI s =
     (if length (vm_callStack s) < length saved then (Fault, s)
      else (Done (), s\<lparr>vm_callStack := saved @ drop (length saved) (vm_callStack s), vm_currentCI := currentCI\<rparr>))"

definition error_text :: "api_env \<Rightarrow> vm \<Rightarrow> lua_exn \<Rightarrow> string" where
  "error_text A s e = (if e = X_OutOfRange then ae_outOfRange A else exn_what s e)"

definition error_value :: "api_env \<Rightarrow> lua_exn \<Rightarrow> lua_value exec" where
  "error_value A e =
     (case e of
        X_Value v \<Rightarrow> ret v
      | _ \<Rightarrow> (\<lambda>s. bind (intern (c_str (runtimeErrorWithLocation s (error_text A s e)))) (\<lambda>a. ret (VString a)) s))"

text \<open>The answer of the error handler, whether it failed, and whether its failure could not be reported.\<close>

definition invokeErrorHandler ::
  "api_env \<Rightarrow> call \<Rightarrow> nat \<Rightarrow> lua_value option \<Rightarrow> lua_value \<Rightarrow> (lua_value \<times> bool \<times> bool) exec" where
  "invokeErrorHandler A call savedCurrentCI handler errorValue =
     (case handler of
        None \<Rightarrow> ret (errorValue, False, False)
      | Some errorHandler \<Rightarrow>
          bind (gets vm_currentCI) (\<lambda>handlerSavedCI.
          seqx (on (MAX_CALL_DEPTH \<le> handlerSavedCI + 1 \<and> savedCurrentCI < handlerSavedCI)
                 (modify (\<lambda>s. s\<lparr>vm_currentCI := vm_currentCI s - 1\<rparr>)))
          (catch
            (seqx (pushValue errorHandler)
            (seqx (pushValue errorValue)
            (seqx (call 1 1)
            (bind (at_index (-1)) (\<lambda>handled.
             seqx (modify (\<lambda>s. s\<lparr>vm_currentCI := handlerSavedCI\<rparr>)) (ret (handled, False, False)))))))
            (\<lambda>_. seqx (closeUnwoundUpvalues savedCurrentCI)
                (seqx (modify (\<lambda>s. s\<lparr>vm_currentCI := handlerSavedCI\<rparr>))
                (catch (bind (intern ''error in error handling'') (\<lambda>a. ret (VString a, True, False)))
                       (\<lambda>_. ret (ae_memoryMessage A, True, True))))))))"

definition unwind :: "call_info list \<Rightarrow> nat \<Rightarrow> nat \<Rightarrow> lua_value \<Rightarrow> unit exec" where
  "unwind savedFrames savedCurrentCI savedPrefixTop v =
     seqx (closeUnwoundUpvalues savedCurrentCI)
    (seqx (restoreCallFrames savedFrames savedCurrentCI)
    (seqx (setAbsoluteTop savedPrefixTop)
    (seqx (pushValue v)
          (modify (\<lambda>s. s\<lparr>vm_status := TS_OK\<rparr>)))))"

definition finishMemoryError :: "api_env \<Rightarrow> call_info list \<Rightarrow> nat \<Rightarrow> nat \<Rightarrow> int exec" where
  "finishMemoryError A savedFrames savedCurrentCI savedPrefixTop =
     seqx (unwind savedFrames savedCurrentCI savedPrefixTop (ae_memoryMessage A)) (ret LUA_ERRMEM)"

definition finishError ::
  "api_env \<Rightarrow> call \<Rightarrow> lua_value option \<Rightarrow> call_info list \<Rightarrow> nat \<Rightarrow> nat \<Rightarrow> lua_value \<Rightarrow> int \<Rightarrow> int exec" where
  "finishError A call handler savedFrames savedCurrentCI savedPrefixTop errorValue status =
     bind (invokeErrorHandler A call savedCurrentCI handler errorValue) (\<lambda>(v, failed, memoryFailure).
     seqx (unwind savedFrames savedCurrentCI savedPrefixTop v)
          (ret (if memoryFailure then LUA_ERRMEM else if failed then LUA_ERRERR else status)))"

definition protected ::
  "api_env \<Rightarrow> call \<Rightarrow> lua_value option \<Rightarrow> call_info list \<Rightarrow> nat \<Rightarrow> nat \<Rightarrow> nat \<Rightarrow> int \<Rightarrow> int exec" where
  "protected A call handler savedFrames savedCurrentCI funcIdx nargs nresults =
     (let failed = finishError A call handler savedFrames savedCurrentCI funcIdx;
          memory = finishMemoryError A savedFrames savedCurrentCI funcIdx
      in bind (of_stack (stack_at funcIdx)) (\<lambda>funcVal.
        if \<not> isFunction funcVal
        then catch (bind (intern ''attempt to call a non-function value'') (\<lambda>a. failed (VString a) LUA_ERRRUN)) (\<lambda>_. memory)
        else catch
          (seqx (call nargs nresults) (seqx (modify (\<lambda>s. s\<lparr>vm_status := TS_OK\<rparr>)) (ret LUA_OK)))
          (\<lambda>e. catch (bind (error_value A e) (\<lambda>v. failed v LUA_ERRRUN))
             (\<lambda>_. catch (failed (ae_apiMessage A) LUA_ERRRUN) (\<lambda>_. memory)))))"

definition pcall :: "api_env \<Rightarrow> call \<Rightarrow> nat \<Rightarrow> int \<Rightarrow> int \<Rightarrow> int exec" where
  "pcall A call nargs nresults errfunc =
     bind (gets vm_top) (\<lambda>topSlot.
       if topSlot < nargs + 1
       then seqx (setAbsoluteTop 0)
           (catch (bind (intern ''pcall: invalid function index'') (\<lambda>a. seqx (pushValue (VString a)) (ret LUA_ERRRUN)))
                  (\<lambda>_. seqx (pushValue (ae_memoryMessage A)) (ret LUA_ERRMEM)))
       else
         bind (gets (\<lambda>s. take (vm_currentCI s + 1) (vm_callStack s))) (\<lambda>savedFrames.
         bind (gets vm_currentCI) (\<lambda>savedCurrentCI.
         bind (if errfunc = 0 then ret None
               else catch (bind (at_index errfunc) (\<lambda>v. ret (Some v))) (\<lambda>_. ret (Some VNil))) (\<lambda>handler.
           protected A call handler savedFrames savedCurrentCI (topSlot - nargs - 1) nargs nresults))))"

section \<open>What a failed call leaves behind\<close>

text \<open>A push writes the stack and moves the top.\<close>

definition only_stack :: "'a exec \<Rightarrow> bool" where
  "only_stack m \<longleftrightarrow> (\<forall>s. \<exists>st. snd (m s) = s\<lparr>vm_stack := st\<rparr>)"

named_theorems only_stack_rules

lemma only_stack_basic [only_stack_rules]:
  "only_stack (ret x)" "only_stack (throw e)" "only_stack fault" "only_stack (gets g)" "only_stack (on_stack f)" "only_stack (of_stack h)"
proof -
  have same: "\<exists>st. s = s\<lparr>vm_stack := st\<rparr>" for s :: vm by (rule exI [of _ "vm_stack s"]) simp
  show "only_stack (ret x)" "only_stack (throw e)" "only_stack fault" "only_stack (gets g)" "only_stack (of_stack h)"
    by (simp_all add: only_stack_def exec_simps of_stack_def same)
  have "\<exists>st. snd (on_stack f s) = s\<lparr>vm_stack := st\<rparr>" for s
  proof (cases "\<exists>st. f (vm_stack s) = Done st")
    case False
    then have "snd (on_stack f s) = s" by (auto simp: on_stack_def split: outcome.split)
    then show ?thesis using same [of s] by (metis (no_types))
  qed (auto simp: on_stack_def)
  then show "only_stack (on_stack f)" by (simp add: only_stack_def)
qed

lemma only_stack_bind [only_stack_rules]:
  assumes "only_stack m" "\<And>x. only_stack (f x)"
  shows "only_stack (bind m f)"
  unfolding only_stack_def
proof
  fix s
  obtain r s1 where m: "m s = (r, s1)" by fastforce
  obtain st where st: "s1 = s\<lparr>vm_stack := st\<rparr>" using assms(1) m unfolding only_stack_def by (metis snd_conv)
  have "\<exists>st'. snd (f x (s\<lparr>vm_stack := st\<rparr>)) = s\<lparr>vm_stack := st'\<rparr>" for x
    using assms(2) unfolding only_stack_def by (metis vm.surjective vm.update_convs(1))
  then show "\<exists>st'. snd (bind m f s) = s\<lparr>vm_stack := st'\<rparr>"
    using m st by (cases r) (auto simp: bind_def)
qed

lemma only_stack_on [only_stack_rules]: "only_stack m \<Longrightarrow> only_stack (on b m)"
  by (simp add: on_def only_stack_basic)

lemma only_stack_for_each [only_stack_rules]: "(\<And>x. only_stack (f x)) \<Longrightarrow> only_stack (for_each xs f)"
  by (induction xs) (auto intro: only_stack_rules)

lemma pushValue_fields:
  assumes "pushValue v s = (Done u, s')"
  shows "\<exists>st. s' = s\<lparr>vm_stack := st, vm_top := Suc (vm_top s)\<rparr>"
proof -
  define put where "put = bind (gets vm_stack) (\<lambda>st.
     seqx (on (sk_capacity st = 0 \<or> sk_capacity st - 1 \<le> vm_top s)
            (on_stack (ensureSpace (sk_capacity st - sk_top st + STACK_GROW_MARGIN))))
    (seqx (push_nils_to (vm_top s + 1)) (write_slot (vm_top s) v)))"
  have "only_stack (seqx (of_stack (checkLimit (vm_top s + 1))) put)"
    unfolding put_def push_nils_to_def write_slot_def by (intro only_stack_rules)
  then obtain st where st: "snd (seqx (of_stack (checkLimit (vm_top s + 1))) put s) = s\<lparr>vm_stack := st\<rparr>"
    unfolding only_stack_def by blast
  have "pushValue v s = seqx (seqx (of_stack (checkLimit (vm_top s + 1))) put) (setAbsoluteTop (vm_top s + 1)) s"
    unfolding pushValue_def put_def by (simp only: bind_ret bind_assoc)
  then have "seqx (seqx (of_stack (checkLimit (vm_top s + 1))) put) (setAbsoluteTop (vm_top s + 1)) s = (Done u, s')"
    using assms by simp
  then obtain x s1 where "seqx (of_stack (checkLimit (vm_top s + 1))) put s = (Done x, s1)"
    "setAbsoluteTop (vm_top s + 1) s1 = (Done u, s')"
    unfolding bind_eq_Done [of "seqx (of_stack (checkLimit (vm_top s + 1))) put"] by blast
  then show ?thesis using st by (auto simp: setAbsoluteTop_def modify_def)
qed

lemma unwind_restores:
  assumes "unwind frames ci topSlot v s = (Done u, s')"
  shows "vm_currentCI s' = ci \<and> take (length frames) (vm_callStack s') = frames \<and> vm_top s' = Suc topSlot \<and> vm_status s' = TS_OK"
proof -
  obtain s1 s2 s3 where "restoreCallFrames frames ci s1 = (Done (), s2)" "pushValue v (s2\<lparr>vm_top := topSlot\<rparr>) = (Done (), s3)"
    "s' = s3\<lparr>vm_status := TS_OK\<rparr>"
    using assms by (auto simp: unwind_def bind_eq_Done setAbsoluteTop_def exec_simps)
  with pushValue_fields [OF this(2)] show ?thesis
    by (auto simp: restoreCallFrames_def split: if_splits)
qed

lemma finishError_restores:
  assumes "finishError A call handler frames ci topSlot ev status s = (Done code, s')"
  shows "vm_currentCI s' = ci \<and> take (length frames) (vm_callStack s') = frames \<and> vm_top s' = Suc topSlot \<and> vm_status s' = TS_OK"
  using assms by (auto simp: finishError_def bind_eq_Done exec_simps split: prod.splits dest: unwind_restores)

lemma finishMemoryError_restores:
  assumes "finishMemoryError A frames ci topSlot s = (Done code, s')"
  shows "vm_currentCI s' = ci \<and> take (length frames) (vm_callStack s') = frames \<and> vm_top s' = Suc topSlot \<and> vm_status s' = TS_OK"
  using assms by (auto simp: finishMemoryError_def bind_eq_Done exec_simps dest: unwind_restores)

lemma catch_eq_Done:
  "catch m k s = (Done y, s') \<longleftrightarrow> m s = (Done y, s') \<or> (\<exists>e s1. m s = (Raise e, s1) \<and> k e s1 = (Done y, s'))"
  by (auto simp: catch_def split: prod.splits outcome.splits)

lemma protected_restores:
  assumes "protected A call handler frames ci i nargs nresults s = (Done code, s')" "code \<noteq> LUA_OK"
  shows "vm_currentCI s' = ci \<and> take (length frames) (vm_callStack s') = frames \<and> vm_top s' = Suc i \<and> vm_status s' = TS_OK"
proof -
  let ?done = "\<lambda>s1. vm_currentCI s1 = ci \<and> take (length frames) (vm_callStack s1) = frames \<and> vm_top s1 = Suc i \<and> vm_status s1 = TS_OK"
  note fields = finishError_restores [of A call handler frames ci i] finishMemoryError_restores [of A frames ci i]
  obtain funcVal s1 where run: "(if \<not> isFunction funcVal
      then catch (bind (intern ''attempt to call a non-function value'')
          (\<lambda>a. finishError A call handler frames ci i (VString a) LUA_ERRRUN)) (\<lambda>_. finishMemoryError A frames ci i)
      else catch (seqx (call nargs nresults) (seqx (modify (\<lambda>s. s\<lparr>vm_status := TS_OK\<rparr>)) (ret LUA_OK)))
        (\<lambda>e. catch (bind (error_value A e) (\<lambda>v. finishError A call handler frames ci i v LUA_ERRRUN))
          (\<lambda>_. catch (finishError A call handler frames ci i (ae_apiMessage A) LUA_ERRRUN)
            (\<lambda>_. finishMemoryError A frames ci i)))) s1 = (Done code, s')"
    using assms(1) unfolding protected_def Let_def bind_eq_Done [of "of_stack _"] by blast
  show ?thesis
  proof (cases "isFunction funcVal")
    case False
    then show ?thesis using run fields by (auto simp: catch_eq_Done bind_eq_Done)
  next
    case True
    have "seqx (call nargs nresults) (seqx (modify (\<lambda>s. s\<lparr>vm_status := TS_OK\<rparr>)) (ret LUA_OK)) s1 \<noteq> (Done code, s')"
      using assms(2) by (auto simp: bind_eq_Done exec_simps)
    then show ?thesis using run True fields by (auto simp: catch_eq_Done [of _ _ s1] catch_eq_Done bind_eq_Done [of "error_value A _"])
  qed
qed


text \<open>A callee that raises with a frame of its own on top.\<close>

definition failing_call :: call where
  "failing_call nargs nresults = seqx pushCallInfo (throw (X_Value (VBoolean False)))"

definition call_api :: api_env where
  "call_api = \<lparr>ae_memoryMessage = VNil, ae_apiMessage = VNil, ae_outOfRange = ''''\<rparr>"

definition ready_to_call :: vm where
  "ready_to_call = (run_vm [])\<lparr>vm_top := 2\<rparr>"


end
