(* ===== verification/StringLib.thy ===== *)
theory StringLib
  imports StackApi
begin

text \<open>
  \<^verbatim>\<open>lib/stringlib.cpp\<close>: arguments, output limits, positions, the basic functions and the quoting of \<open>%q\<close>.
  A function works on the frame of its call, as the C++ function does, and answers how many results it
  pushed. What the locale decides about characters is the record \<open>ctype\<close>; \<open>c_locale\<close> is the default.
\<close>

section \<open>Characters\<close>

record ctype =
  ct_alpha :: "char \<Rightarrow> bool"
  ct_cntrl :: "char \<Rightarrow> bool"
  ct_lower :: "char \<Rightarrow> bool"
  ct_punct :: "char \<Rightarrow> bool"
  ct_space :: "char \<Rightarrow> bool"
  ct_upper :: "char \<Rightarrow> bool"
  ct_tolower :: "char \<Rightarrow> char"
  ct_toupper :: "char \<Rightarrow> char"

definition in_range :: "nat \<Rightarrow> nat \<Rightarrow> char \<Rightarrow> bool" where
  "in_range lo hi c \<longleftrightarrow> lo \<le> of_char c \<and> of_char c \<le> hi"

definition c_isdigit :: "char \<Rightarrow> bool" where "c_isdigit c \<longleftrightarrow> in_range 48 57 c"

definition c_isxdigit :: "char \<Rightarrow> bool" where
  "c_isxdigit c \<longleftrightarrow> c_isdigit c \<or> in_range 65 70 c \<or> in_range 97 102 c"

definition c_locale :: ctype where
  "c_locale = \<lparr>ct_alpha = (\<lambda>c. in_range 65 90 c \<or> in_range 97 122 c), ct_cntrl = (\<lambda>c. in_range 0 31 c \<or> in_range 127 127 c),
     ct_lower = in_range 97 122,
     ct_punct = (\<lambda>c. in_range 33 47 c \<or> in_range 58 64 c \<or> in_range 91 96 c \<or> in_range 123 126 c),
     ct_space = isspace, ct_upper = in_range 65 90,
     ct_tolower = (\<lambda>c. if in_range 65 90 c then char_of (of_char c + 32 :: nat) else c),
     ct_toupper = (\<lambda>c. if in_range 97 122 c then char_of (of_char c - 32 :: nat) else c)\<rparr>"

section \<open>Arguments\<close>

definition bad_argument :: "int \<Rightarrow> string \<Rightarrow> string \<Rightarrow> 'a exec" where
  "bad_argument idx funcName detail =
     lua_error (''bad argument #'' @ to_string idx @ '' to '' @ [CHR 0x27] @ ''string.'' @ funcName @ [CHR 0x27] @ '' ('' @ detail @ '')'')"

definition getStringArg :: "vm_env \<Rightarrow> int \<Rightarrow> string \<Rightarrow> string exec" where
  "getStringArg E idx funcName =
     bind (toString E idx) (\<lambda>r. case r of
         None \<Rightarrow> bad_argument idx funcName ''string expected''
       | Some str \<Rightarrow> bind (at_index idx) (\<lambda>v. case v of VString a \<Rightarrow> string_of a | _ \<Rightarrow> ret (c_str str)))"

definition getNumberArg :: "vm_env \<Rightarrow> int \<Rightarrow> string \<Rightarrow> f64 exec" where
  "getNumberArg E idx funcName =
     bind (at_index idx) (\<lambda>v. case v of
         VNumber x \<Rightarrow> ret x
       | VString a \<Rightarrow> bind (string_of a) (\<lambda>str. seqx (consumeNativeWork E (length str))
           (case luaStringToNumber E str of Some x \<Rightarrow> ret x | None \<Rightarrow> bad_argument idx funcName ''number expected''))
       | _ \<Rightarrow> bad_argument idx funcName ''number expected'')"

definition getIntegerArg :: "vm_env \<Rightarrow> int \<Rightarrow> string \<Rightarrow> integer_conversion \<Rightarrow> int exec" where
  "getIntegerArg E idx funcName mode =
     bind (getNumberArg E idx funcName) (\<lambda>x. case checkedLuaInteger x mode of
         Inr i \<Rightarrow> ret i
       | Inl e \<Rightarrow> bad_argument idx funcName (case e of
             ICE_NotFinite \<Rightarrow> ''finite number expected'' | ICE_NotIntegral \<Rightarrow> ''integer expected'' | ICE_OutOfRange \<Rightarrow> ''number out of range''))"

text \<open>\<open>(L->getTop() >= n) ? getIntegerArg(L, n, f) : dflt\<close>\<close>

definition optInteger :: "vm_env \<Rightarrow> int \<Rightarrow> string \<Rightarrow> int \<Rightarrow> int exec" where
  "optInteger E idx funcName dflt =
     bind getTop (\<lambda>n. if idx \<le> n then getIntegerArg E idx funcName IC_Truncate else ret dflt)"

section \<open>Output\<close>

definition stringOutputLimit :: "vm \<Rightarrow> nat" where
  "stringOutputLimit s = min (rp_maxStringBytes (vm_resources s)) (rp_maxOutputBytes (vm_resources s))"

definition too_long :: "string \<Rightarrow> 'a exec" where
  "too_long functionName = lua_error (''string.'' @ functionName @ '': result exceeds resource limit'')"

definition ensureStringOutput :: "vm_env \<Rightarrow> nat \<Rightarrow> nat \<Rightarrow> string \<Rightarrow> unit exec" where
  "ensureStringOutput E current addition functionName =
     bind (gets stringOutputLimit) (\<lambda>limit.
       if limit < addition \<or> limit - addition < current then too_long functionName
       else consumeNativeWork E (if addition = 0 then 1 else addition))"

definition appendStringOutput :: "vm_env \<Rightarrow> string \<Rightarrow> string \<Rightarrow> string \<Rightarrow> string exec" where
  "appendStringOutput E output bytes functionName =
     seqx (ensureStringOutput E (length output) (length bytes) functionName) (ret (output @ bytes))"

definition pushStringOutput :: "vm_env \<Rightarrow> string \<Rightarrow> char \<Rightarrow> string \<Rightarrow> string exec" where
  "pushStringOutput E output byte functionName =
     seqx (ensureStringOutput E (length output) 1 functionName) (ret (output @ [byte]))"

text \<open>\<open>L->pushString(pool.intern(str))\<close>\<close>

definition pushInterned :: "string \<Rightarrow> unit exec" where
  "pushInterned str = bind (intern str) (\<lambda>a. pushValue (VString a))"

definition quoted_char :: "char \<Rightarrow> string" where
  "quoted_char ch =
     (if ch = CHR 0x22 \<or> ch = CHR 0x5C \<or> ch = CHR 0x0A then [CHR 0x5C, ch]
      else if ch = CHR 0x00 then CHR 0x5C # ''000'' else [ch])"

definition quoteLuaString :: "vm_env \<Rightarrow> string \<Rightarrow> string exec" where
  "quoteLuaString E str =
     bind (gets stringOutputLimit) (\<lambda>limit.
       if limit < 2 \<or> (limit - 2) div 4 < length str then too_long ''format''
       else seqx (consumeNativeWork E (if str = [] then 1 else length str))
              (ret (CHR 0x22 # concat (map quoted_char str) @ [CHR 0x22])))"

section \<open>Positions\<close>

text \<open>The casts of the length to \<open>i32\<close> keep it: a string has at most \<open>maxStringBytes\<close> bytes.\<close>

definition adjustPosition :: "int \<Rightarrow> nat \<Rightarrow> nat" where
  "adjustPosition pos len =
     (if 0 < pos then nat (pos - 1)
      else if pos < 0 then (let adjusted = int len + pos + 1 in if 0 < adjusted then nat (adjusted - 1) else 0)
      else 0)"

definition luaStringPosition :: "int \<Rightarrow> nat \<Rightarrow> int" where
  "luaStringPosition pos len =
     (if 0 \<le> pos then pos else if pos < - int len then 0 else int len + pos + 1)"

section \<open>The basic functions\<close>

definition missing :: "int \<Rightarrow> string \<Rightarrow> unit exec" where
  "missing least msg = bind getTop (\<lambda>n. if n < least then lua_error msg else ret ())"

definition str_len :: "vm_env \<Rightarrow> int exec" where
  "str_len E =
     seqx (missing 1 ''string.len: missing argument'')
    (bind (getStringArg E 1 ''len'') (\<lambda>s.
     seqx (pushValue (VNumber (f64_of_int (int (length s))))) (ret 1)))"

definition str_sub :: "vm_env \<Rightarrow> int exec" where
  "str_sub E =
     seqx (missing 2 ''string.sub: missing arguments'')
    (bind (getStringArg E 1 ''sub'') (\<lambda>s. let len = length s in
     bind (getIntegerArg E 2 ''sub'' IC_Truncate) (\<lambda>first.
     bind (optInteger E 3 ''sub'' (int len)) (\<lambda>finish.
       let startPos = max 1 (luaStringPosition first len); endPos = min (int len) (luaStringPosition finish len)
       in if endPos < startPos then seqx (pushInterned '''') (ret 1)
          else let startIndex = nat (startPos - 1); subLen = nat (endPos - startPos + 1) in
            seqx (ensureStringOutput E 0 subLen ''sub'')
           (seqx (pushInterned (take subLen (drop startIndex s))) (ret 1))))))"

definition mapped :: "vm_env \<Rightarrow> string \<Rightarrow> (string \<Rightarrow> string) \<Rightarrow> int exec" where
  "mapped E funcName f =
     seqx (missing 1 (''string.'' @ funcName @ '': missing argument''))
    (bind (getStringArg E 1 funcName) (\<lambda>s.
     seqx (ensureStringOutput E 0 (length s) funcName)
    (seqx (pushInterned (f s)) (ret 1))))"

definition str_upper :: "vm_env \<Rightarrow> ctype \<Rightarrow> int exec" where
  "str_upper E T = mapped E ''upper'' (map (ct_toupper T))"

definition str_lower :: "vm_env \<Rightarrow> ctype \<Rightarrow> int exec" where
  "str_lower E T = mapped E ''lower'' (map (ct_tolower T))"

definition str_reverse :: "vm_env \<Rightarrow> int exec" where
  "str_reverse E = mapped E ''reverse'' rev"

definition str_rep :: "vm_env \<Rightarrow> int exec" where
  "str_rep E =
     seqx (missing 2 ''string.rep: missing arguments'')
    (bind (getStringArg E 1 ''rep'') (\<lambda>s. let len = length s in
     bind (getIntegerArg E 2 ''rep'' IC_Truncate) (\<lambda>n.
       if n \<le> 0 then seqx (pushInterned '''') (ret 1)
       else bind (gets stringOutputLimit) (\<lambda>outputLimit.
         if len \<noteq> 0 \<and> outputLimit div len < nat n then too_long ''rep''
         else if len = 0 then seqx (consumeNativeWork E 1) (seqx (pushInterned '''') (ret 1))
         else seqx (ensureStringOutput E 0 (len * nat n) ''rep'')
             (seqx (pushInterned (concat (replicate (nat n) s))) (ret 1))))))"

definition str_byte :: "vm_env \<Rightarrow> int exec" where
  "str_byte E =
     seqx (missing 1 ''string.byte: missing argument'')
    (bind (getStringArg E 1 ''byte'') (\<lambda>s. let len = length s in
     bind (optInteger E 2 ''byte'' 1) (\<lambda>first.
     let start = luaStringPosition first len in
     bind getTop (\<lambda>n.
     bind (if 3 \<le> n then bind (getIntegerArg E 3 ''byte'' IC_Truncate) (\<lambda>i. ret (luaStringPosition i len)) else ret start) (\<lambda>finish.
       let startPos = (if start \<le> 0 then 1 else start); endPos = min (int len) finish
       in if endPos < startPos then ret 0
          else let returnCount = nat (endPos - startPos + 1) in
            bind (gets (\<lambda>s. rp_maxReturnValues (vm_resources s))) (\<lambda>limit.
              if limit < returnCount then lua_error ''string.byte: return value limit exceeded''
              else bind (gets vm_top) (\<lambda>topSlot.
                seqx (of_stack (checkLimit (topSlot + returnCount)))
               (seqx (consumeNativeWork E returnCount)
               (seqx (for_each [nat startPos..<nat endPos + 1] (\<lambda>i. pushValue (VNumber (f64_of_int (int (of_char (s ! (i - 1))))))))
                     (ret (int returnCount)))))))))))"

fun char_args :: "vm_env \<Rightarrow> nat \<Rightarrow> int \<Rightarrow> string \<Rightarrow> string exec" where
  "char_args E 0 i result = ret result"
| "char_args E (Suc k) i result =
     bind (getIntegerArg E i ''char'' IC_Truncate) (\<lambda>c.
       if c < 0 \<or> 255 < c then bad_argument i ''char'' ''value out of range''
       else char_args E k (i + 1) (result @ [char_of (nat c)]))"

definition str_char :: "vm_env \<Rightarrow> int exec" where
  "str_char E =
     bind getTop (\<lambda>n.
     seqx (ensureStringOutput E 0 (nat n) ''char'')
    (bind (char_args E (nat n) 1 []) (\<lambda>result.
     seqx (pushInterned result) (ret 1))))"

end
