(* ===== verification/StringProps.thy ===== *)
theory StringProps
  imports StringLib LexerProps
begin

text \<open>
  Facts on the string functions: what \<open>%q\<close> writes the lexer reads back.
\<close>

section \<open>Quoted strings\<close>

lemma advance_to: "rest lx = c # cs \<Longrightarrow> \<exists>lx1. advance lx = (c, lx1) \<and> rest lx1 = cs"
  by (simp add: advance_simps)

lemma short_plain:
  assumes "rest lx = c # cs" "c \<noteq> quote" "\<not> isNewline c" "c \<noteq> CHR 0x5C"
  shows "\<exists>lx1. shortString_loop quote result lx = shortString_loop quote (result @ [c]) lx1 \<and> rest lx1 = cs"
  using assms advance_to [OF assms(1)] by (subst shortString_loop.simps) (auto simp: peek_simps)

lemma short_end:
  assumes "rest lx = quote # cs"
  shows "shortString_loop quote result lx = (Inr result, lx)"
  using assms by (subst shortString_loop.simps) (simp add: peek_simps)

lemma short_newline:
  assumes "rest lx = c # cs" "c \<noteq> quote" "isNewline c"
  shows "\<exists>t. shortString_loop quote result lx = (Inl t, lx) \<and> tk_value t = TV_None"
  using assms by (subst shortString_loop.simps) (simp add: peek_simps errorToken_def)

text \<open>A backslash and a character with no special reading.\<close>

lemma short_escape:
  assumes "rest lx = CHR 0x5C # c # cs" "quote \<noteq> CHR 0x5C"
    and "decodeSimpleEscape c = Some d"
  shows "\<exists>lx1. shortString_loop quote result lx = shortString_loop quote (result @ [d]) lx1 \<and> rest lx1 = cs"
proof -
  obtain lx1 where 1: "advance lx = (CHR 0x5C, lx1)" "rest lx1 = c # cs" using advance_to [OF assms(1)] by blast
  obtain lx2 where 2: "advance lx1 = (c, lx2)" "rest lx2 = cs" using advance_to [OF 1(2)] by blast
  have "appendShortStringEscape result lx = (Inr (result @ [d]), lx2)"
    using 1 2 assms(3) by (simp add: appendShortStringEscape_def Let_def)
  then show ?thesis using assms(1,2) 2(2)
    by (subst shortString_loop.simps) (auto simp: peek_simps isNewline_def)
qed

lemma short_escape_newline:
  assumes "rest lx = CHR 0x5C # CHR 0x0A # cs" "quote \<noteq> CHR 0x5C"
  shows "\<exists>lx1. shortString_loop quote result lx = shortString_loop quote (result @ [CHR 0x0A]) lx1 \<and>
    rest lx1 = (if cs \<noteq> [] \<and> hd cs = CHR 0x0D then tl cs else cs)"
proof -
  obtain lx1 where 1: "advance lx = (CHR 0x5C, lx1)" "rest lx1 = CHR 0x0A # cs" using advance_to [OF assms(1)] by blast
  obtain lx2 where 2: "advance lx1 = (CHR 0x0A, lx2)" "rest lx2 = cs" using advance_to [OF 1(2)] by blast
  define lx3 where "lx3 = consumeNewlinePairRemainder (CHR 0x0A) lx2"
  have "appendShortStringEscape result lx = (Inr (result @ [CHR 0x0A]), lx3)"
    using 1 2 by (simp add: appendShortStringEscape_def Let_def decodeSimpleEscape_def isNewline_def lx3_def)
  moreover have "rest lx3 = (if cs \<noteq> [] \<and> hd cs = CHR 0x0D then tl cs else cs)"
    using 2(2) by (cases cs) (auto simp: lx3_def consumeNewlinePairRemainder_def peek_simps isNewline_def)
  ultimately show ?thesis using assms
    by (subst shortString_loop.simps) (auto simp: peek_simps isNewline_def)
qed

lemma short_escape_nul:
  assumes "rest lx = CHR 0x5C # CHR ''0'' # CHR ''0'' # CHR ''0'' # cs" "quote \<noteq> CHR 0x5C"
  shows "\<exists>lx1. shortString_loop quote result lx = shortString_loop quote (result @ [CHR 0x00]) lx1 \<and> rest lx1 = cs"
proof -
  obtain lx1 where 1: "advance lx = (CHR 0x5C, lx1)" "rest lx1 = CHR ''0'' # CHR ''0'' # CHR ''0'' # cs"
    using advance_to [OF assms(1)] by blast
  obtain lx2 where 2: "advance lx1 = (CHR ''0'', lx2)" "rest lx2 = CHR ''0'' # CHR ''0'' # cs" using advance_to [OF 1(2)] by blast
  obtain lx3 where 3: "advance lx2 = (CHR ''0'', lx3)" "rest lx3 = CHR ''0'' # cs" using advance_to [OF 2(2)] by blast
  obtain lx4 where 4: "advance lx3 = (CHR ''0'', lx4)" "rest lx4 = cs" using advance_to [OF 3(2)] by blast
  have nul: "char_of (0 :: nat) = CHR 0x00" by code_simp
  have "appendShortStringEscape result lx = (Inr (result @ [CHR 0x00]), lx4)"
    using 1 2 3 4 by (simp add: appendShortStringEscape_def appendDecimalEscape_def Let_def decodeSimpleEscape_def
        isNewline_def isDigit_def between_def peek_simps nul)
  then show ?thesis using assms 4(2)
    by (subst shortString_loop.simps) (auto simp: peek_simps isNewline_def)
qed

lemma short_quoted:
  assumes "rest lx = concat (map quoted_char str) @ CHR 0x22 # behind"
  shows "(CHR 0x0D \<notin> set str \<longrightarrow> (\<exists>lx'. shortString_loop (CHR 0x22) result lx = (Inr (result @ str), lx') \<and> rest lx' = CHR 0x22 # behind)) \<and>
    (case fst (shortString_loop (CHR 0x22) result lx) of
       Inl t \<Rightarrow> tk_value t = TV_None | Inr r \<Rightarrow> \<exists>u. r = result @ u \<and> CHR 0x0D \<notin> set u)"
  using assms
proof (induction "length str" arbitrary: str result lx rule: less_induct)
  case less
  show ?case
  proof (cases str)
    case Nil
    then have "rest lx = CHR 0x22 # behind" using less(2) by simp
    then show ?thesis using short_end Nil by auto
  next
    case (Cons c str')
    let ?q = "concat (map quoted_char str') @ CHR 0x22 # behind"
    have ih: ?thesis if "shortString_loop (CHR 0x22) result lx = shortString_loop (CHR 0x22) (result @ [c]) lx1" "rest lx1 = ?q"
      "c \<noteq> CHR 0x0D" for lx1
      using less(1) [of str' lx1 "result @ [c]"] that Cons by (auto split: sum.splits)
    consider (quote) "c = CHR 0x22 \<or> c = CHR 0x5C" | (lf) "c = CHR 0x0A" | (nul) "c = CHR 0x00" | (cr) "c = CHR 0x0D"
      | (plain) "c \<noteq> CHR 0x22" "c \<noteq> CHR 0x5C" "\<not> isNewline c" "c \<noteq> CHR 0x00"
      by (auto simp: isNewline_def)
    then show ?thesis
    proof cases
      case quote
      then have "rest lx = CHR 0x5C # c # ?q" "decodeSimpleEscape c = Some c"
        using less(2) Cons by (auto simp: quoted_char_def decodeSimpleEscape_def)
      from short_escape [OF this(1) _ this(2), of "CHR 0x22" result] obtain lx1 where
        "shortString_loop (CHR 0x22) result lx = shortString_loop (CHR 0x22) (result @ [c]) lx1" "rest lx1 = ?q" by auto
      moreover have "c \<noteq> CHR 0x0D" using quote by auto
      ultimately show ?thesis by (rule ih)
    next
      case lf
      then have "rest lx = CHR 0x5C # CHR 0x0A # ?q" using less(2) Cons by (simp add: quoted_char_def)
      from short_escape_newline [OF this, of "CHR 0x22" result] obtain lx1 where
        1: "shortString_loop (CHR 0x22) result lx = shortString_loop (CHR 0x22) (result @ [CHR 0x0A]) lx1"
        "rest lx1 = (if ?q \<noteq> [] \<and> hd ?q = CHR 0x0D then tl ?q else ?q)" by auto
      show ?thesis
      proof (cases "\<exists>str2. str' = CHR 0x0D # str2")
        case True
        then obtain str2 where s2: "str' = CHR 0x0D # str2" by blast
        then have "rest lx1 = concat (map quoted_char str2) @ CHR 0x22 # behind" using 1(2) by (simp add: quoted_char_def)
        with less(1) [of str2 lx1 "result @ [CHR 0x0A]"] show ?thesis
          using 1(1) s2 Cons lf by (auto split: sum.splits)
      next
        case False
        then have "hd ?q \<noteq> CHR 0x0D" by (cases str') (auto simp: quoted_char_def)
        then show ?thesis using ih 1 lf by auto
      qed
    next
      case nul
      then have "rest lx = CHR 0x5C # CHR ''0'' # CHR ''0'' # CHR ''0'' # ?q" using less(2) Cons by (simp add: quoted_char_def)
      from short_escape_nul [OF this, of "CHR 0x22" result] show ?thesis using ih nul by auto
    next
      case cr
      then have "rest lx = CHR 0x0D # ?q" using less(2) Cons by (simp add: quoted_char_def)
      from short_newline [OF this, of "CHR 0x22" result] show ?thesis using cr Cons by (auto simp: isNewline_def)
    next
      case plain
      then have "rest lx = c # ?q" using less(2) Cons by (simp add: quoted_char_def isNewline_def)
      from short_plain [OF this plain(1,3,2), of result] obtain lx1 where
        "shortString_loop (CHR 0x22) result lx = shortString_loop (CHR 0x22) (result @ [c]) lx1" "rest lx1 = ?q" by blast
      moreover have "c \<noteq> CHR 0x0D" using plain(3) by (auto simp: isNewline_def)
      ultimately show ?thesis by (rule ih)
    qed
  qed
qed

text \<open>C26. A string quoted for \<open>%q\<close> and read as source text is the same string exactly when it holds no
  carriage return: line feeds, NULs, quotes and backslashes come back, but a carriage return is written
  as it is, where the lexer ends the literal with an error or drops it behind a line feed.\<close>

theorem quoted_string_read_back:
  assumes "quoteLuaString E str s = (Done q, s')"
  shows "(\<exists>t lx. nextToken L (new_lexer (q @ behind)) = (t, lx) \<and> tk_value t = TV_String str) \<longleftrightarrow> CHR 0x0D \<notin> set str"
proof -
  have q: "q = CHR 0x22 # concat (map quoted_char str) @ [CHR 0x22]"
    using assms by (auto simp: quoteLuaString_def too_long_def lua_error_def bind_eq_Done exec_simps split: if_splits)
  define lx0 where "lx0 = new_lexer (q @ behind)"
  have r0: "rest lx0 = CHR 0x22 # concat (map quoted_char str) @ CHR 0x22 # behind"
    by (simp add: lx0_def q new_lexer_def start_of_def)
  have skip: "skipWhitespace lx0 = (None, lx0)"
    using r0 by (subst skipWhitespace.simps) (simp add: peek_simps Let_def)
  have r1: "rest (opened lx0) = CHR 0x22 # concat (map quoted_char str) @ CHR 0x22 # behind" using r0 by simp
  from advance_to [OF r1] obtain lx1 where a: "advance (opened lx0) = (CHR 0x22, lx1)"
    "rest lx1 = concat (map quoted_char str) @ CHR 0x22 # behind" by blast
  have scan: "nextToken L lx0 = shortString (CHR 0x22) lx1"
    using r0 skip a(1)
    by (simp add: nextToken_def lx0_def new_lexer_def scanToken_def Let_def isAlpha_def isDigit_def between_def)
  note loop = short_quoted [OF a(2), of "[]"]
  show ?thesis
  proof (cases "CHR 0x0D \<in> set str")
    case True
    obtain r lx2 where "shortString_loop (CHR 0x22) [] lx1 = (r, lx2)" by fastforce
    then have "tk_value (fst (shortString (CHR 0x22) lx1)) \<noteq> TV_String str"
      using loop True by (cases r) (auto simp: shortString_def Let_def errorToken_def)
    then show ?thesis using scan True by (auto simp: lx0_def)
  next
    case False
    then show ?thesis using loop scan by (auto simp: shortString_def Let_def lx0_def)
  qed
qed

text \<open>A quote, a line feed and a NUL, followed by more source text; then a carriage return.\<close>

definition plain_lexer :: lexer_env where
  "plain_lexer = \<lparr>le_strtod = (\<lambda>_. (f64_zero, 0)), le_decimalPoint = CHR ''.'', le_letters = (\<lambda>_. False)\<rparr>"

theorem quoted_string_read_back_witness:
  "\<exists>q s'. quoteLuaString run_env [CHR 0x22, CHR 0x0A, CHR 0x00] (run_vm []) = (Done q, s') \<and>
     (\<exists>t lx. nextToken plain_lexer (new_lexer (q @ ''..x'')) = (t, lx) \<and>
        tk_value t = TV_String [CHR 0x22, CHR 0x0A, CHR 0x00])"
proof -
  have "\<exists>q s'. quoteLuaString run_env [CHR 0x22, CHR 0x0A, CHR 0x00] (run_vm []) = (Done q, s')"
    by (simp add: quoteLuaString_def stringOutputLimit_def consumeNativeWork_def xp_consumeNativeWork_def xp_pollStop_def
        run_vm_def run_env_def default_resource_policy_def DefaultMaxBytes_def time_point_max_def new_exec_policy_def bind_def gets_def ret_def Let_def)
  then obtain q s' where q: "quoteLuaString run_env [CHR 0x22, CHR 0x0A, CHR 0x00] (run_vm []) = (Done q, s')" by blast
  from quoted_string_read_back [OF q, of plain_lexer "''..x''"] q show ?thesis by auto
qed

end
