(* ===== verification/PatternMatch.thy ===== *)
theory PatternMatch
  imports StringLib
begin

text \<open>
  The pattern matcher of \<^verbatim>\<open>lib/stringlib.cpp\<close> and the functions built on it: \<open>find\<close>, \<open>match\<close> and \<open>gsub\<close>.

  Subject and pattern are strings, pointers into them offsets; both end in a NUL one past their last
  character, which \<open>char_at\<close> reads. The fields a match changes are the record \<open>match_state\<close>; the others
  are \<open>match_input\<close>. \<open>lmatch\<close> ends because every call it makes on itself looks at a later part of the
  pattern, and the loops of \<open>max_expand\<close> and \<open>min_expand\<close> get the rest of the match as an argument.
\<close>

section \<open>State\<close>

definition LUA_MAXCAPTURES :: nat where "LUA_MAXCAPTURES = 32"
definition L_ESC :: char where "L_ESC = CHR ''%''"
definition CAP_UNFINISHED :: int where "CAP_UNFINISHED = -1"
definition CAP_POSITION :: int where "CAP_POSITION = -2"

record match_capture =
  mc_init :: nat
  mc_len :: int

record match_input =
  mi_src :: string
  mi_pat :: string
  mi_stepLimit :: nat

record match_state =
  ms_level :: nat
  ms_steps :: nat
  ms_capture :: "match_capture list"

definition char_at :: "string \<Rightarrow> nat \<Rightarrow> char" where
  "char_at str i = (if i < length str then str ! i else CHR 0x00)"

type_synonym 'a matcher = "match_state \<Rightarrow> ('a \<times> match_state) exec"

definition mret :: "'a \<Rightarrow> 'a matcher" where
  "mret x = (\<lambda>ms. ret (x, ms))"

definition mbind :: "'a matcher \<Rightarrow> ('a \<Rightarrow> 'b matcher) \<Rightarrow> 'b matcher" where
  "mbind m f = (\<lambda>ms. bind (m ms) (\<lambda>(x, ms'). f x ms'))"

definition merror :: "string \<Rightarrow> 'a matcher" where
  "merror msg = (\<lambda>ms. lua_error msg)"

definition patternStep :: "vm_env \<Rightarrow> match_input \<Rightarrow> nat \<Rightarrow> unit matcher" where
  "patternStep E I units = (\<lambda>ms.
     if mi_stepLimit I < units \<or> mi_stepLimit I - units < ms_steps ms
     then lua_error ''string pattern step limit exceeded''
     else seqx (consumeNativeWork E units) (ret ((), ms\<lparr>ms_steps := ms_steps ms + units\<rparr>)))"

section \<open>Single characters\<close>

definition matchclass :: "ctype \<Rightarrow> char \<Rightarrow> char \<Rightarrow> bool" where
  "matchclass T c cl =
     (let lcl = ct_tolower T cl;
          class = (\<lambda>res. if ct_upper T cl then \<not> res else res)
      in if lcl = CHR ''a'' then class (ct_alpha T c)
         else if lcl = CHR ''c'' then class (ct_cntrl T c)
         else if lcl = CHR ''d'' then class (c_isdigit c)
         else if lcl = CHR ''l'' then class (ct_lower T c)
         else if lcl = CHR ''p'' then class (ct_punct T c)
         else if lcl = CHR ''s'' then class (ct_space T c)
         else if lcl = CHR ''u'' then class (ct_upper T c)
         else if lcl = CHR ''w'' then class (ct_alpha T c \<or> c_isdigit c)
         else if lcl = CHR ''x'' then class (c_isxdigit c)
         else if lcl = CHR ''z'' then class (c = CHR 0x00)
         else cl = c)"

function set_end :: "string \<Rightarrow> nat \<Rightarrow> nat" where
  "set_end pat p =
     (if length pat \<le> p then p
      else let p' = (if pat ! p = L_ESC \<and> p + 1 < length pat then p + 2 else p + 1)
           in if p' < length pat \<and> pat ! p' \<noteq> CHR '']'' then set_end pat p'
              else if p' < length pat then p' + 1 else p')"
  by pat_completeness auto
termination
  by (relation "measure (\<lambda>(pat, p). length pat - p)") (auto split: if_splits)

declare set_end.simps [simp del]

definition classend :: "string \<Rightarrow> nat \<Rightarrow> nat" where
  "classend pat p =
     (if length pat \<le> p then p
      else if pat ! p = L_ESC then (if length pat \<le> p + 1 then p + 1 else p + 2)
      else if pat ! p = CHR ''['' then
        set_end pat (if p + 1 < length pat \<and> pat ! (p + 1) = CHR ''^'' then p + 2 else p + 1)
      else p + 1)"

function set_match :: "ctype \<Rightarrow> char \<Rightarrow> string \<Rightarrow> bool \<Rightarrow> nat \<Rightarrow> nat \<Rightarrow> bool" where
  "set_match T c pat sig endclass p0 =
     (let p = p0 + 1 in
      if p < endclass then
        (if char_at pat p = L_ESC then
           (if matchclass T c (char_at pat (p + 1)) then sig else set_match T c pat sig endclass (p + 1))
         else if p + 2 < endclass \<and> char_at pat (p + 1) = CHR ''-'' then
           (if (of_char (char_at pat p) :: nat) \<le> of_char c \<and> (of_char c :: nat) \<le> of_char (char_at pat (p + 2)) then sig
            else set_match T c pat sig endclass (p + 2))
         else if char_at pat p = c then sig
         else set_match T c pat sig endclass p)
      else \<not> sig)"
  by pat_completeness auto
termination
  by (relation "measure (\<lambda>(T, c, pat, sig, endclass, p). endclass - p)") auto

declare set_match.simps [simp del]

definition singlematch :: "ctype \<Rightarrow> char \<Rightarrow> string \<Rightarrow> nat \<Rightarrow> nat \<Rightarrow> bool" where
  "singlematch T c pat p ep =
     (let ch = char_at pat p in
      if ch = CHR ''.'' then True
      else if ch = L_ESC then matchclass T c (char_at pat (p + 1))
      else if ch = CHR ''['' then
        (if char_at pat (p + 1) = CHR ''^'' then set_match T c pat False (ep - 1) (p + 1)
         else set_match T c pat True (ep - 1) p)
      else ch = c)"

section \<open>Balanced text, captures and repetition\<close>

fun balance_loop :: "vm_env \<Rightarrow> match_input \<Rightarrow> char \<Rightarrow> char \<Rightarrow> nat \<Rightarrow> nat \<Rightarrow> string \<Rightarrow> nat option matcher" where
  "balance_loop E I b e cont s [] = mret None"
| "balance_loop E I b e cont s (c # cs) =
     mbind (patternStep E I 1) (\<lambda>_.
       if c = e then (if cont = 1 then mret (Some (s + 1)) else balance_loop E I b e (cont - 1) (s + 1) cs)
       else balance_loop E I b e (if c = b then cont + 1 else cont) (s + 1) cs)"

definition matchbalance :: "vm_env \<Rightarrow> match_input \<Rightarrow> nat \<Rightarrow> nat \<Rightarrow> nat option matcher" where
  "matchbalance E I s p =
     (let pat = mi_pat I; src = mi_src I in
      if length pat \<le> p + 1 then mret None
      else if char_at src s \<noteq> pat ! p then mret None
      else balance_loop E I (pat ! p) (pat ! (p + 1)) 1 (s + 1) (drop (s + 1) src))"

definition check_capture :: "char \<Rightarrow> nat matcher" where
  "check_capture l = (\<lambda>ms.
     let i = int (of_char l) - 49
     in if i < 0 \<or> int (ms_level ms) \<le> i \<or> mc_len (ms_capture ms ! nat i) = CAP_UNFINISHED
        then lua_error ''invalid capture index'' else ret (nat i, ms))"

definition match_back :: "match_input \<Rightarrow> nat \<Rightarrow> char \<Rightarrow> nat option matcher" where
  "match_back I s l =
     mbind (check_capture l) (\<lambda>i ms.
       let cap = ms_capture ms ! i; src = mi_src I
       in if 0 \<le> mc_len cap \<and> mc_len cap \<le> int (length src - s) \<and>
             take (nat (mc_len cap)) (drop (mc_init cap) src) = take (nat (mc_len cap)) (drop s src)
          then mret (Some (s + nat (mc_len cap))) ms else mret None ms)"

text \<open>The rest of the match, \<open>lmatch(ms, \<cdot>, ep + 1)\<close>, is the argument \<open>k\<close>.\<close>

fun run_length :: "vm_env \<Rightarrow> match_input \<Rightarrow> (char \<Rightarrow> bool) \<Rightarrow> string \<Rightarrow> nat \<Rightarrow> nat matcher" where
  "run_length E I single [] i = mret i"
| "run_length E I single (c # cs) i =
     (if single c then mbind (patternStep E I 1) (\<lambda>_. run_length E I single cs (i + 1)) else mret i)"

fun try_down :: "vm_env \<Rightarrow> match_input \<Rightarrow> (nat \<Rightarrow> nat option matcher) \<Rightarrow> nat \<Rightarrow> nat \<Rightarrow> nat option matcher" where
  "try_down E I k s 0 = mbind (patternStep E I 1) (\<lambda>_. k s)"
| "try_down E I k s (Suc i) =
     mbind (patternStep E I 1) (\<lambda>_. mbind (k (s + Suc i)) (\<lambda>res.
       if res \<noteq> None then mret res else try_down E I k s i))"

definition max_expand :: "vm_env \<Rightarrow> match_input \<Rightarrow> (char \<Rightarrow> bool) \<Rightarrow> (nat \<Rightarrow> nat option matcher) \<Rightarrow> nat \<Rightarrow> nat option matcher" where
  "max_expand E I single k s = mbind (run_length E I single (drop s (mi_src I)) 0) (\<lambda>i. try_down E I k s i)"

fun min_loop :: "vm_env \<Rightarrow> match_input \<Rightarrow> (char \<Rightarrow> bool) \<Rightarrow> (nat \<Rightarrow> nat option matcher) \<Rightarrow> nat \<Rightarrow> string \<Rightarrow> nat option matcher" where
  "min_loop E I single k s ahead =
     mbind (patternStep E I 1) (\<lambda>_. mbind (k s) (\<lambda>res.
       if res \<noteq> None then mret res
       else case ahead of
              c # cs \<Rightarrow> if single c then min_loop E I single k (s + 1) cs else mret None
            | [] \<Rightarrow> mret None))"

declare min_loop.simps [simp del]

definition min_expand :: "vm_env \<Rightarrow> match_input \<Rightarrow> (char \<Rightarrow> bool) \<Rightarrow> (nat \<Rightarrow> nat option matcher) \<Rightarrow> nat \<Rightarrow> nat option matcher" where
  "min_expand E I single k s = min_loop E I single k s (drop s (mi_src I))"

definition start_capture :: "nat option matcher \<Rightarrow> nat \<Rightarrow> int \<Rightarrow> nat option matcher" where
  "start_capture k s what = (\<lambda>ms.
     let level = ms_level ms
     in if LUA_MAXCAPTURES \<le> level then ret (None, ms)
        else mbind k (\<lambda>res ms'. ret (res, if res = None then ms'\<lparr>ms_level := ms_level ms' - 1\<rparr> else ms'))
               (ms\<lparr>ms_capture := (ms_capture ms)[level := \<lparr>mc_init = s, mc_len = what\<rparr>], ms_level := level + 1\<rparr>))"

fun last_open :: "match_capture list \<Rightarrow> nat \<Rightarrow> nat option" where
  "last_open caps 0 = None"
| "last_open caps (Suc l) = (if mc_len (caps ! l) = CAP_UNFINISHED then Some l else last_open caps l)"

definition set_len :: "nat \<Rightarrow> int \<Rightarrow> match_state \<Rightarrow> match_state" where
  "set_len l n ms = ms\<lparr>ms_capture := (ms_capture ms)[l := (ms_capture ms ! l)\<lparr>mc_len := n\<rparr>]\<rparr>"

definition end_capture :: "nat option matcher \<Rightarrow> nat \<Rightarrow> nat option matcher" where
  "end_capture k s = (\<lambda>ms.
     case last_open (ms_capture ms) (ms_level ms) of
       None \<Rightarrow> lua_error ''invalid pattern capture''
     | Some l \<Rightarrow>
         mbind k (\<lambda>res ms'. ret (res, if res = None then set_len l CAP_UNFINISHED ms' else ms'))
           (set_len l (int s - int (mc_init (ms_capture ms ! l))) ms))"

section \<open>The matcher\<close>

lemma set_end_gt: "p < length pat \<Longrightarrow> p < set_end pat p"
proof (induction pat p rule: set_end.induct)
  case (1 pat p)
  then show ?case by (subst set_end.simps) (auto simp: Let_def intro: less_trans)
qed

lemma classend_gt: "p < length pat \<Longrightarrow> p < classend pat p"
  using set_end_gt [of "p + 1" pat] set_end_gt [of "p + 2" pat] set_end.simps [of pat "p + 1"] set_end.simps [of pat "p + 2"]
  by (cases "p + 1 < length pat"; cases "p + 2 < length pat") (auto simp: classend_def)

lemma classend_gt_set: "char_at pat (Suc (Suc p)) = CHR ''['' \<Longrightarrow> p < classend pat (Suc (Suc p))"
  using classend_gt [of "p + 2" pat] by (auto simp: char_at_def split: if_splits)

function lmatch :: "vm_env \<Rightarrow> ctype \<Rightarrow> match_input \<Rightarrow> nat \<Rightarrow> nat \<Rightarrow> nat option matcher" where
  "lmatch E T I s p =
     mbind (patternStep E I 1) (\<lambda>_.
       let pat = mi_pat I; src = mi_src I; next_char = char_at pat (p + 1) in
       if length pat \<le> p then mret (Some s)
       else if pat ! p = CHR ''('' then
         (if next_char = CHR '')'' then start_capture (lmatch E T I s (p + 2)) s CAP_POSITION
          else start_capture (lmatch E T I s (p + 1)) s CAP_UNFINISHED)
       else if pat ! p = CHR '')'' then end_capture (lmatch E T I s (p + 1)) s
       else if pat ! p = CHR ''$'' \<and> length pat \<le> p + 1 then mret (if s = length src then Some s else None)
       else if pat ! p = L_ESC \<and> next_char = CHR ''b'' then
         mbind (matchbalance E I s (p + 2)) (\<lambda>r. case r of None \<Rightarrow> mret None | Some s' \<Rightarrow> lmatch E T I s' (p + 4))
       else if pat ! p = L_ESC \<and> next_char = CHR ''f'' then
         (if char_at pat (p + 2) \<noteq> CHR ''['' then mret None
          else let ep = classend pat (p + 2);
                   previous = (if s = 0 then CHR 0x00 else src ! (s - 1));
                   current = (if s < length src then src ! s else CHR 0x00)
               in if singlematch T previous pat (p + 2) ep \<or> \<not> singlematch T current pat (p + 2) ep then mret None
                  else lmatch E T I s ep)
       else if pat ! p = L_ESC \<and> c_isdigit next_char then
         mbind (match_back I s next_char) (\<lambda>r. case r of None \<Rightarrow> mret None | Some s' \<Rightarrow> lmatch E T I s' (p + 2))
       else
         let ep = classend pat p;
             single = (\<lambda>c. singlematch T c pat p ep);
             m = (s < length src \<and> single (src ! s));
             suffix = (if ep < length pat then pat ! ep else CHR 0x00)
         in if suffix = CHR ''?'' then
              (if m then mbind (lmatch E T I (s + 1) (ep + 1)) (\<lambda>res.
                   if res \<noteq> None then mret res else lmatch E T I s (ep + 1))
               else lmatch E T I s (ep + 1))
            else if suffix = CHR ''*'' then max_expand E I single (\<lambda>s'. lmatch E T I s' (ep + 1)) s
            else if suffix = CHR ''+'' then
              (if m then max_expand E I single (\<lambda>s'. lmatch E T I s' (ep + 1)) (s + 1) else mret None)
            else if suffix = CHR ''-'' then min_expand E I single (\<lambda>s'. lmatch E T I s' (ep + 1)) s
            else if m then lmatch E T I (s + 1) ep else mret None)"
  by pat_completeness auto
termination
  by (relation "measure (\<lambda>(E, T, I, s, p). length (mi_pat I) - p)")
    (simp_all add: diff_less_mono2 classend_gt classend_gt_set less_SucI)

declare lmatch.simps [simp del]

section \<open>Captures as values\<close>

definition captureToValue :: "match_input \<Rightarrow> match_state \<Rightarrow> nat \<Rightarrow> nat \<Rightarrow> nat \<Rightarrow> lua_value exec" where
  "captureToValue I ms i s e =
     (if ms_level ms \<le> i then
        (if i = 0 then bind (intern (take (e - s) (drop s (mi_src I)))) (\<lambda>a. ret (VString a))
         else lua_error ''invalid capture index'')
      else let cap = ms_capture ms ! i
           in if mc_len cap = CAP_UNFINISHED then lua_error ''unfinished capture''
              else if mc_len cap = CAP_POSITION then ret (VNumber (f64_of_int (int (mc_init cap) + 1)))
              else bind (intern (take (nat (mc_len cap)) (drop (mc_init cap) (mi_src I)))) (\<lambda>a. ret (VString a)))"

definition push_onecapture :: "match_input \<Rightarrow> match_state \<Rightarrow> nat \<Rightarrow> nat \<Rightarrow> nat \<Rightarrow> unit exec" where
  "push_onecapture I ms i s e = bind (captureToValue I ms i s e) pushValue"

definition push_captures :: "match_input \<Rightarrow> match_state \<Rightarrow> nat \<Rightarrow> nat \<Rightarrow> nat exec" where
  "push_captures I ms s e =
     (let nlevels = (if ms_level ms = 0 then 1 else ms_level ms) in
      bind (gets vm_top) (\<lambda>topSlot.
      seqx (of_stack (checkLimit (topSlot + nlevels)))
     (seqx (for_each [0..<nlevels] (\<lambda>i. push_onecapture I ms i s e)) (ret nlevels))))"

definition prepareMatchState :: "match_state" where
  "prepareMatchState = \<lparr>ms_level = 0, ms_steps = 0, ms_capture = replicate LUA_MAXCAPTURES \<lparr>mc_init = 0, mc_len = 0\<rparr>\<rparr>"

section \<open>Searching\<close>

definition tryMatch :: "vm_env \<Rightarrow> ctype \<Rightarrow> match_input \<Rightarrow> nat \<Rightarrow> nat option matcher" where
  "tryMatch E T I current =
     mbind (patternStep E I 1) (\<lambda>_.
       if length (mi_src I) < current then mret None else lmatch E T I current 0)"

text \<open>The loop of \<open>find\<close> and \<open>match\<close>: the first start at which the pattern matches, and where it ends.\<close>

function search :: "vm_env \<Rightarrow> ctype \<Rightarrow> match_input \<Rightarrow> bool \<Rightarrow> nat \<Rightarrow> (nat \<times> nat) option matcher" where
  "search E T I anchor i =
     (if i \<le> length (mi_src I) then
        (\<lambda>ms. mbind (tryMatch E T I i) (\<lambda>res. case res of
              Some e \<Rightarrow> mret (Some (i, e))
            | None \<Rightarrow> if anchor then mret None else search E T I anchor (i + 1)) (ms\<lparr>ms_level := 0\<rparr>))
      else mret None)"
  by pat_completeness auto
termination
  by (relation "measure (\<lambda>(E, T, I, anchor, i). Suc (length (mi_src I)) - i)") auto

declare search.simps [simp del]

definition split_anchor :: "string \<Rightarrow> bool \<times> string" where
  "split_anchor pattern = (if char_at pattern 0 = CHR ''^'' then (True, drop 1 pattern) else (False, pattern))"

function plain_loop :: "vm_env \<Rightarrow> string \<Rightarrow> string \<Rightarrow> nat \<Rightarrow> nat \<Rightarrow> nat \<Rightarrow> nat option exec" where
  "plain_loop E s pattern stepLimit i steps =
     (if i \<le> length s - length pattern then
        (if stepLimit < steps + 1 then lua_error ''string.find: pattern step limit exceeded''
         else seqx (consumeNativeWork E (if pattern = [] then 1 else length pattern))
           (if take (length pattern) (drop i s) = pattern then ret (Some i)
            else plain_loop E s pattern stepLimit (i + 1) (steps + 1)))
      else ret None)"
  by pat_completeness auto
termination
  by (relation "measure (\<lambda>(E, s, pattern, stepLimit, i, steps). Suc (length s - length pattern) - i)") auto

declare plain_loop.simps [simp del]

definition plainFind :: "vm_env \<Rightarrow> string \<Rightarrow> string \<Rightarrow> nat \<Rightarrow> nat option exec" where
  "plainFind E s pattern init =
     (if pattern = [] then ret (Some init)
      else if length s < init + length pattern then ret None
      else bind (gets (\<lambda>s. rp_maxPatternSteps (vm_resources s))) (\<lambda>stepLimit. plain_loop E s pattern stepLimit init 0))"

definition push_int :: "int \<Rightarrow> unit exec" where
  "push_int i = pushValue (VNumber (f64_of_int i))"

definition str_find :: "vm_env \<Rightarrow> ctype \<Rightarrow> int exec" where
  "str_find E T =
     seqx (missing 2 ''string.find: missing arguments'')
    (bind (getStringArg E 1 ''find'') (\<lambda>s.
     bind (getStringArg E 2 ''find'') (\<lambda>pattern.
     bind (optInteger E 3 ''find'' 1) (\<lambda>init.
     bind getTop (\<lambda>n.
     bind (if 4 \<le> n then toBoolean 4 else ret False) (\<lambda>plain.
       let initPos = min (length s) (adjustPosition init (length s)) in
       if plain then
         bind (plainFind E s pattern initPos) (\<lambda>pos. case pos of
             Some i \<Rightarrow> seqx (push_int (int i + 1)) (seqx (push_int (int i + int (length pattern))) (ret 2))
           | None \<Rightarrow> seqx (pushValue VNil) (ret 1))
       else case split_anchor pattern of (anchor, p) \<Rightarrow>
         bind (gets (\<lambda>s. rp_maxPatternSteps (vm_resources s))) (\<lambda>limit.
         let I = \<lparr>mi_src = s, mi_pat = p, mi_stepLimit = limit\<rparr> in
         bind (search E T I anchor initPos prepareMatchState) (\<lambda>(found, ms). case found of
             Some (i, e) \<Rightarrow>
               seqx (push_int (int i + 1)) (seqx (push_int (int e))
              (seqx (for_each [0..<ms_level ms] (\<lambda>c. push_onecapture I ms c i e)) (ret (2 + int (ms_level ms)))))
           | None \<Rightarrow> seqx (pushValue VNil) (ret 1)))))))))"

definition str_match :: "vm_env \<Rightarrow> ctype \<Rightarrow> int exec" where
  "str_match E T =
     seqx (missing 2 ''string.match: missing arguments'')
    (bind (getStringArg E 1 ''match'') (\<lambda>s.
     bind (getStringArg E 2 ''match'') (\<lambda>pattern.
     bind (optInteger E 3 ''match'' 1) (\<lambda>init.
       let initPos = min (length s) (adjustPosition init (length s)) in
       case split_anchor pattern of (anchor, p) \<Rightarrow>
         bind (gets (\<lambda>s. rp_maxPatternSteps (vm_resources s))) (\<lambda>limit.
         let I = \<lparr>mi_src = s, mi_pat = p, mi_stepLimit = limit\<rparr> in
         bind (search E T I anchor initPos prepareMatchState) (\<lambda>(found, ms). case found of
             Some (i, e) \<Rightarrow> bind (push_captures I ms i e) (\<lambda>k. ret (int k))
           | None \<Rightarrow> seqx (pushValue VNil) (ret 1)))))))"

section \<open>Replacing\<close>

datatype gsub_replacement = GR_String string | GR_Table lua_value | GR_Function lua_value

fun addStringReplacement ::
  "vm_env \<Rightarrow> match_input \<Rightarrow> match_state \<Rightarrow> nat \<Rightarrow> nat \<Rightarrow> string \<Rightarrow> string \<Rightarrow> string exec" where
  "addStringReplacement E I ms s e [] result = ret result"
| "addStringReplacement E I ms s e [c] result =
     (if c \<noteq> L_ESC then pushStringOutput E result c ''gsub'' else ret result)"
| "addStringReplacement E I ms s e (c # d # cs) result =
     (let whole = take (e - s) (drop s (mi_src I)) in
      if c \<noteq> L_ESC then bind (pushStringOutput E result c ''gsub'') (addStringReplacement E I ms s e (d # cs))
      else bind
        (if \<not> c_isdigit d then pushStringOutput E result d ''gsub''
         else if d = CHR ''0'' then appendStringOutput E result whole ''gsub''
         else let ci = of_char d - (49 :: nat)
              in if ms_level ms \<le> ci then
                   (if ci = 0 then appendStringOutput E result whole ''gsub'' else lua_error ''invalid capture index'')
                 else let cap = ms_capture ms ! ci
                      in if mc_len cap = CAP_POSITION then
                           appendStringOutput E result (e_to_chars E (f64_of_int (int (mc_init cap) + 1))) ''gsub''
                         else if 0 \<le> mc_len cap then
                           appendStringOutput E result (take (nat (mc_len cap)) (drop (mc_init cap) (mi_src I))) ''gsub''
                         else lua_error ''unfinished capture'')
        (addStringReplacement E I ms s e cs))"

text \<open>The new text, and whether the value replaced anything.\<close>

definition addValueReplacement :: "vm_env \<Rightarrow> string \<Rightarrow> lua_value \<Rightarrow> (bool \<times> string) exec" where
  "addValueReplacement E result v =
     (case v of
        VNil \<Rightarrow> ret (False, result)
      | VBoolean b \<Rightarrow> if b then lua_error ''string.gsub: invalid replacement value'' else ret (False, result)
      | VString a \<Rightarrow> bind (string_of a) (\<lambda>str. bind (appendStringOutput E result str ''gsub'') (\<lambda>r. ret (True, r)))
      | VNumber x \<Rightarrow> bind (appendStringOutput E result (e_to_chars E x) ''gsub'') (\<lambda>r. ret (True, r))
      | _ \<Rightarrow> lua_error ''string.gsub: invalid replacement value'')"

definition getTableReplacement :: "vm_env \<Rightarrow> call \<Rightarrow> match_input \<Rightarrow> match_state \<Rightarrow> lua_value \<Rightarrow> nat \<Rightarrow> nat \<Rightarrow> lua_value exec" where
  "getTableReplacement E call I ms table s e = bind (captureToValue I ms 0 s e) (\<lambda>key. gettable E call table key)"

definition getFunctionReplacement :: "call \<Rightarrow> match_input \<Rightarrow> match_state \<Rightarrow> lua_value \<Rightarrow> nat \<Rightarrow> nat \<Rightarrow> lua_value exec" where
  "getFunctionReplacement call I ms func s e =
     bind (gets vm_top) (\<lambda>savedTop.
       let restore = seqx (on_stack (stack_setTop savedTop)) (setAbsoluteTop savedTop) in
       catch
         (seqx (pushValue func)
         (bind (push_captures I ms s e) (\<lambda>nargs.
          seqx (call nargs 1)
         (bind (at_index (-1)) (\<lambda>v. seqx restore (ret v))))))
         (\<lambda>x. seqx restore (throw x)))"

definition replacement ::
  "vm_env \<Rightarrow> call \<Rightarrow> match_input \<Rightarrow> match_state \<Rightarrow> gsub_replacement \<Rightarrow> nat \<Rightarrow> nat \<Rightarrow> string \<Rightarrow> (bool \<times> string) exec" where
  "replacement E call I ms repl s e result =
     (case repl of
        GR_String r \<Rightarrow> bind (addStringReplacement E I ms s e r result) (\<lambda>x. ret (True, x))
      | GR_Table t \<Rightarrow> bind (getTableReplacement E call I ms t s e) (addValueReplacement E result)
      | GR_Function f \<Rightarrow> bind (getFunctionReplacement call I ms f s e) (addValueReplacement E result))"

text \<open>The loop answers the text so far, the position in the subject and the number of matches.\<close>

function gsub_loop ::
  "vm_env \<Rightarrow> ctype \<Rightarrow> call \<Rightarrow> match_input \<Rightarrow> gsub_replacement \<Rightarrow> bool \<Rightarrow> int \<Rightarrow> int \<Rightarrow> nat \<Rightarrow> string \<Rightarrow> match_state \<Rightarrow>
   (string \<times> nat \<times> int) exec" where
  "gsub_loop E T call I repl anchor maxn count srcPos result ms =
     (if count < maxn then
        bind (tryMatch E T I srcPos (ms\<lparr>ms_level := 0\<rparr>)) (\<lambda>(found, ms').
          case found of
            Some matchEnd \<Rightarrow>
              bind (replacement E call I ms' repl srcPos matchEnd result) (\<lambda>(replaced, r1).
              bind (if replaced then ret r1
                    else appendStringOutput E r1 (take (matchEnd - srcPos) (drop srcPos (mi_src I))) ''gsub'') (\<lambda>r2.
                if matchEnd = srcPos then
                  (if srcPos < length (mi_src I) then
                     bind (pushStringOutput E r2 (mi_src I ! srcPos) ''gsub'') (\<lambda>r3.
                       gsub_loop E T call I repl anchor maxn (count + 1) (srcPos + 1) r3 ms')
                   else ret (r2, srcPos, count + 1))
                else gsub_loop E T call I repl anchor maxn (count + 1) matchEnd r2 ms'))
          | None \<Rightarrow>
              if srcPos < length (mi_src I) then
                bind (pushStringOutput E result (mi_src I ! srcPos) ''gsub'') (\<lambda>r1.
                  if anchor then ret (r1, srcPos + 1, count)
                  else gsub_loop E T call I repl anchor maxn count (srcPos + 1) r1 ms')
              else ret (result, srcPos, count))
      else ret (result, srcPos, count))"
  by pat_completeness auto
termination
  by (relation "measures [\<lambda>(E, T, call, I, repl, anchor, maxn, count, srcPos, result, ms). nat (maxn - count),
      \<lambda>(E, T, call, I, repl, anchor, maxn, count, srcPos, result, ms). length (mi_src I) - srcPos]") auto

declare gsub_loop.simps [simp del]

definition gsub_text ::
  "vm_env \<Rightarrow> ctype \<Rightarrow> call \<Rightarrow> match_input \<Rightarrow> gsub_replacement \<Rightarrow> bool \<Rightarrow> int \<Rightarrow> (string \<times> int) exec" where
  "gsub_text E T call I repl anchor maxn =
     bind (gsub_loop E T call I repl anchor maxn 0 0 [] prepareMatchState) (\<lambda>(result, srcPos, count).
     bind (if srcPos < length (mi_src I) then appendStringOutput E result (drop srcPos (mi_src I)) ''gsub'' else ret result)
       (\<lambda>r. ret (r, count)))"

definition str_gsub :: "vm_env \<Rightarrow> ctype \<Rightarrow> call \<Rightarrow> int exec" where
  "str_gsub E T call =
     seqx (missing 3 ''string.gsub: missing arguments'')
    (bind (getStringArg E 1 ''gsub'') (\<lambda>s.
     bind (getStringArg E 2 ''gsub'') (\<lambda>pattern.
     bind (at_index 3) (\<lambda>replValue.
     bind (if isTable replValue then ret (GR_Table replValue)
           else if isFunction replValue then ret (GR_Function replValue)
           else bind (getStringArg E 3 ''gsub'') (\<lambda>r. ret (GR_String r))) (\<lambda>repl.
     bind (optInteger E 4 ''gsub'' (int (length s) + 1)) (\<lambda>maxn.
     case split_anchor pattern of (anchor, p) \<Rightarrow>
       bind (gets (\<lambda>s. rp_maxPatternSteps (vm_resources s))) (\<lambda>limit.
       bind (gsub_text E T call \<lparr>mi_src = s, mi_pat = p, mi_stepLimit = limit\<rparr> repl anchor maxn) (\<lambda>(r, count).
       seqx (pushInterned r) (seqx (push_int count) (ret 2)))))))))) "

end
