(* ===== verification/PatternProps.thy ===== *)
theory PatternProps
  imports PatternMatch
begin

text \<open>
  The matcher against a reference: a pattern read as a list of items, and for each item the list of all
  ways to go on, in the order they are tried. The reference keeps captures in a list of its own and
  never undoes anything; the matcher has one array of captures, changes it in place and restores it
  when it backtracks.
\<close>

section \<open>Patterns as items\<close>

datatype item =
    I_Open | I_At | I_Close | I_Finish | I_Never
  | I_Balanced char char
  | I_Border "char \<Rightarrow> bool"
  | I_Back nat
  | I_One "char \<Rightarrow> bool" | I_Opt "char \<Rightarrow> bool" | I_Star "char \<Rightarrow> bool" | I_Plus "char \<Rightarrow> bool" | I_Lazy "char \<Rightarrow> bool"

function items :: "ctype \<Rightarrow> string \<Rightarrow> nat \<Rightarrow> item list" where
  "items T pat p =
     (let next_char = char_at pat (p + 1) in
      if length pat \<le> p then []
      else if pat ! p = CHR ''('' then
        (if next_char = CHR '')'' then I_At # items T pat (p + 2) else I_Open # items T pat (p + 1))
      else if pat ! p = CHR '')'' then I_Close # items T pat (p + 1)
      else if pat ! p = CHR ''$'' \<and> length pat \<le> p + 1 then [I_Finish]
      else if pat ! p = L_ESC \<and> next_char = CHR ''b'' then
        (if length pat \<le> p + 3 then [I_Never]
         else I_Balanced (pat ! (p + 2)) (pat ! (p + 3)) # items T pat (p + 4))
      else if pat ! p = L_ESC \<and> next_char = CHR ''f'' then
        (if char_at pat (p + 2) \<noteq> CHR ''['' then [I_Never]
         else let ep = classend pat (p + 2) in I_Border (\<lambda>c. singlematch T c pat (p + 2) ep) # items T pat ep)
      else if pat ! p = L_ESC \<and> c_isdigit next_char then I_Back (of_char next_char) # items T pat (p + 2)
      else
        let ep = classend pat p;
            single = (\<lambda>c. singlematch T c pat p ep);
            suffix = (if ep < length pat then pat ! ep else CHR 0x00)
        in if suffix = CHR ''?'' then I_Opt single # items T pat (ep + 1)
           else if suffix = CHR ''*'' then I_Star single # items T pat (ep + 1)
           else if suffix = CHR ''+'' then I_Plus single # items T pat (ep + 1)
           else if suffix = CHR ''-'' then I_Lazy single # items T pat (ep + 1)
           else I_One single # items T pat ep)"
  by pat_completeness auto
termination
  by (relation "measure (\<lambda>(T, pat, p). length pat - p)")
    (simp_all add: diff_less_mono2 classend_gt classend_gt_set less_SucI)

declare items.simps [simp del]

section \<open>All matches, in order\<close>

datatype capture = C_Open nat | C_At nat | C_Text nat nat

datatype trial = Matched nat "capture list" | Malformed

definition closes_at :: "char \<Rightarrow> char \<Rightarrow> string \<Rightarrow> nat \<Rightarrow> bool" where
  "closes_at b e text n \<longleftrightarrow>
     count_list (take n text) e = Suc (if b = e then 0 else count_list (take n text) b)"

definition balanced_end :: "char \<Rightarrow> char \<Rightarrow> string \<Rightarrow> nat \<Rightarrow> nat option" where
  "balanced_end b e src s =
     (if s < length src \<and> src ! s = b then
        map_option (\<lambda>n. s + 1 + n) (find (closes_at b e (drop (s + 1) src)) [0..<Suc (length src - (s + 1))])
      else None)"

definition innermost_open :: "capture list \<Rightarrow> (nat \<times> nat) option" where
  "innermost_open cs =
     (case rev (filter (\<lambda>l. \<exists>a. cs ! l = C_Open a) [0..<length cs]) of
        [] \<Rightarrow> None
      | l # _ \<Rightarrow> (case cs ! l of C_Open a \<Rightarrow> Some (l, a) | _ \<Rightarrow> None))"

definition at_border :: "(char \<Rightarrow> bool) \<Rightarrow> string \<Rightarrow> nat \<Rightarrow> bool" where
  "at_border single src s \<longleftrightarrow>
     \<not> single (if s = 0 then CHR 0x00 else src ! (s - 1)) \<and> single (char_at src s)"

definition here :: "(char \<Rightarrow> bool) \<Rightarrow> string \<Rightarrow> nat \<Rightarrow> bool" where
  "here single src s \<longleftrightarrow> s < length src \<and> single (src ! s)"

definition run_of :: "(char \<Rightarrow> bool) \<Rightarrow> string \<Rightarrow> nat \<Rightarrow> nat" where
  "run_of single src s = length (takeWhile single (drop s src))"

fun trials :: "string \<Rightarrow> item list \<Rightarrow> nat \<Rightarrow> capture list \<Rightarrow> trial list" where
  "trials src [] s cs = [Matched s cs]"
| "trials src (I_Open # its) s cs = (if LUA_MAXCAPTURES \<le> length cs then [] else trials src its s (cs @ [C_Open s]))"
| "trials src (I_At # its) s cs = (if LUA_MAXCAPTURES \<le> length cs then [] else trials src its s (cs @ [C_At s]))"
| "trials src (I_Close # its) s cs =
     (case innermost_open cs of None \<Rightarrow> [Malformed] | Some (l, a) \<Rightarrow> trials src its s (cs[l := C_Text a s]))"
| "trials src (I_Finish # its) s cs = (if s = length src then trials src its s cs else [])"
| "trials src (I_Never # its) s cs = []"
| "trials src (I_Balanced b e # its) s cs =
     (case balanced_end b e src s of None \<Rightarrow> [] | Some s' \<Rightarrow> trials src its s' cs)"
| "trials src (I_Border single # its) s cs = (if at_border single src s then trials src its s cs else [])"
| "trials src (I_Back d # its) s cs =
     (if 49 \<le> d \<and> d - 49 < length cs then
        (case cs ! (d - 49) of
           C_Open a \<Rightarrow> [Malformed]
         | C_At a \<Rightarrow> []
         | C_Text a b \<Rightarrow> if take (b - a) (drop s src) = take (b - a) (drop a src) then trials src its (s + (b - a)) cs else [])
      else [Malformed])"
| "trials src (I_One single # its) s cs = (if here single src s then trials src its (s + 1) cs else [])"
| "trials src (I_Opt single # its) s cs =
     (if here single src s then trials src its (s + 1) cs else []) @ trials src its s cs"
| "trials src (I_Star single # its) s cs = concat (map (\<lambda>i. trials src its (s + i) cs) (rev [0..<Suc (run_of single src s)]))"
| "trials src (I_Plus single # its) s cs =
     (if here single src s
      then concat (map (\<lambda>i. trials src its (s + 1 + i) cs) (rev [0..<Suc (run_of single src (s + 1))])) else [])"
| "trials src (I_Lazy single # its) s cs = concat (map (\<lambda>i. trials src its (s + i) cs) [0..<Suc (run_of single src s)])"

section \<open>Captures\<close>

definition cap_of :: "match_capture \<Rightarrow> capture" where
  "cap_of c = (if mc_len c = CAP_UNFINISHED then C_Open (mc_init c)
     else if mc_len c = CAP_POSITION then C_At (mc_init c) else C_Text (mc_init c) (mc_init c + nat (mc_len c)))"

definition shown :: "match_state \<Rightarrow> match_capture list" where
  "shown ms = take (ms_level ms) (ms_capture ms)"

definition captures :: "match_state \<Rightarrow> capture list" where
  "captures ms = map cap_of (shown ms)"

definition slots_ok :: "match_state \<Rightarrow> bool" where
  "slots_ok ms \<longleftrightarrow> length (ms_capture ms) = LUA_MAXCAPTURES \<and> ms_level ms \<le> LUA_MAXCAPTURES \<and> (\<forall>c\<in>set (shown ms). -2 \<le> mc_len c)"

fun cap_within :: "string \<Rightarrow> nat \<Rightarrow> capture \<Rightarrow> bool" where
  "cap_within src s (C_Open a) \<longleftrightarrow> a \<le> s"
| "cap_within src s (C_At a) \<longleftrightarrow> a \<le> s"
| "cap_within src s (C_Text a b) \<longleftrightarrow> a \<le> b \<and> b \<le> s"

definition within :: "string \<Rightarrow> nat \<Rightarrow> capture list \<Rightarrow> bool" where
  "within src s cs \<longleftrightarrow> s \<le> length src \<and> (\<forall>c\<in>set cs. cap_within src s c)"

lemma within_mono: "within src s cs \<Longrightarrow> s \<le> s' \<Longrightarrow> s' \<le> length src \<Longrightarrow> within src s' cs"
proof -
  have "cap_within src s c \<Longrightarrow> s \<le> s' \<Longrightarrow> cap_within src s' c" for c by (cases c) auto
  then show "within src s cs \<Longrightarrow> s \<le> s' \<Longrightarrow> s' \<le> length src \<Longrightarrow> within src s' cs" by (auto simp: within_def)
qed

lemma length_captures: "slots_ok ms \<Longrightarrow> length (captures ms) = ms_level ms"
  by (simp add: captures_def shown_def slots_ok_def)

lemma captures_nth: "slots_ok ms \<Longrightarrow> l < ms_level ms \<Longrightarrow> captures ms ! l = cap_of (ms_capture ms ! l)"
  by (simp add: captures_def shown_def slots_ok_def)

section \<open>Agreement\<close>

definition stopped :: "lua_exn \<Rightarrow> bool" where
  "stopped x \<longleftrightarrow> x = X_Runtime ''string pattern step limit exceeded'' \<or> (\<exists>r. r \<noteq> SR_None \<and> x = policy_error r)"

definition malformed :: "lua_exn \<Rightarrow> bool" where
  "malformed x \<longleftrightarrow> x = X_Runtime ''invalid capture index'' \<or> x = X_Runtime ''invalid pattern capture''"

definition answer_ok :: "capture list \<Rightarrow> trial list \<Rightarrow> (nat option \<times> match_state) outcome \<Rightarrow> bool" where
  "answer_ok cs rs r \<longleftrightarrow>
     (case r of
        Done (Some e, ms) \<Rightarrow> slots_ok ms \<and> (\<exists>more_trials. rs = Matched e (captures ms) # more_trials)
      | Done (None, ms) \<Rightarrow> slots_ok ms \<and> captures ms = cs \<and> rs = []
      | Raise x \<Rightarrow> stopped x \<or> malformed x \<and> (\<exists>more_trials. rs = Malformed # more_trials)
      | _ \<Rightarrow> False)"

definition agrees :: "capture list \<Rightarrow> nat option matcher \<Rightarrow> trial list \<Rightarrow> bool" where
  "agrees cs m rs \<longleftrightarrow> (\<forall>ms st. slots_ok ms \<and> captures ms = cs \<longrightarrow> answer_ok cs rs (fst (m ms st)))"


lemma agreesI: "(\<And>ms st. slots_ok ms \<Longrightarrow> captures ms = cs \<Longrightarrow> answer_ok cs rs (fst (m ms st))) \<Longrightarrow> agrees cs m rs"
  by (simp add: agrees_def)

lemma agreesD: "agrees cs m rs \<Longrightarrow> slots_ok ms \<Longrightarrow> captures ms = cs \<Longrightarrow> answer_ok cs rs (fst (m ms st))"
  by (simp add: agrees_def)

lemma answer_cases:
  assumes "answer_ok cs rs r"
  obtains (found) e ms more_trials where "r = Done (Some e, ms)" "slots_ok ms" "rs = Matched e (captures ms) # more_trials"
    | (none) ms where "r = Done (None, ms)" "slots_ok ms" "captures ms = cs" "rs = []"
    | (stop) x where "r = Raise x" "stopped x"
    | (bad) x more_trials where "r = Raise x" "malformed x" "rs = Malformed # more_trials"
  using assms by (auto simp: answer_ok_def split: outcome.splits option.splits prod.splits)

lemma agrees_none: "agrees cs (mret None) []"
  and agrees_some: "agrees cs (mret (Some s)) [Matched s cs]"
  by (auto simp: agrees_def answer_ok_def mret_def ret_def)

lemma agrees_or:
  assumes "agrees cs m rs" "agrees cs m' rs'"
  shows "agrees cs (mbind m (\<lambda>res. if res \<noteq> None then mret res else m')) (rs @ rs')"
proof (rule agreesI)
  fix ms st assume ms: "slots_ok ms" "captures ms = cs"
  obtain r st1 where m: "m ms st = (r, st1)" by (cases "m ms st")
  then have "answer_ok cs rs r" using agreesD [OF assms(1) ms, of st] by simp
  then show "answer_ok cs (rs @ rs') (fst (mbind m (\<lambda>res. if res \<noteq> None then mret res else m') ms st))"
  proof (cases rule: answer_cases)
    case (none ms1)
    then show ?thesis using m agreesD [OF assms(2)] by (simp add: mbind_def bind_def)
  qed (use m in \<open>auto simp: mbind_def bind_def mret_def ret_def answer_ok_def\<close>)
qed

text \<open>A helper that answers \<open>x\<close> and only counts steps.\<close>

definition yields :: "'a matcher \<Rightarrow> 'a \<Rightarrow> bool" where
  "yields m x \<longleftrightarrow> (\<forall>ms st. case fst (m ms st) of
       Done (y, ms') \<Rightarrow> y = x \<and> (\<exists>n. ms' = ms\<lparr>ms_steps := n\<rparr>) | Raise e \<Rightarrow> stopped e | _ \<Rightarrow> False)"

lemma steps_frame [simp]:
  "captures (ms\<lparr>ms_steps := n\<rparr>) = captures ms" "slots_ok (ms\<lparr>ms_steps := n\<rparr>) = slots_ok ms"
  by (simp_all add: captures_def slots_ok_def shown_def)

lemma yields_ret: "yields (mret x) x"
  proof -
  have "\<exists>n. ms = ms\<lparr>ms_steps := n\<rparr>" for ms :: match_state by (rule exI [of _ "ms_steps ms"]) simp
  then show ?thesis by (auto simp: yields_def mret_def ret_def)
qed

lemma yields_step: "yields (patternStep E I n) ()"
  by (auto simp: yields_def patternStep_def lua_error_def bind_def modify_def throw_def ret_def stopped_def consumeNativeWork_def Let_def
      split: prod.splits outcome.splits)

lemma yields_cases:
  assumes "yields m x"
  obtains (fine) n where "fst (m ms st) = Done (x, ms\<lparr>ms_steps := n\<rparr>)" | (stop) e where "fst (m ms st) = Raise e" "stopped e"
  using assms unfolding yields_def
  by (cases "fst (m ms st)") (auto dest!: spec [of _ ms] spec [of _ st] split: outcome.splits prod.splits)

lemma yields_bind:
  assumes "yields m x" "yields (f x) y"
  shows "yields (mbind m f) y"
  unfolding yields_def
proof (intro allI)
  fix ms st
  obtain r st1 where m: "m ms st = (r, st1)" by (cases "m ms st")
  from assms(1) show "case fst (mbind m f ms st) of
       Done (z, ms') \<Rightarrow> z = y \<and> (\<exists>n. ms' = ms\<lparr>ms_steps := n\<rparr>) | Raise e \<Rightarrow> stopped e | _ \<Rightarrow> False"
  proof (cases rule: yields_cases [where ms = ms and st = st])
    case (fine n)
    from assms(2) show ?thesis
      by (cases rule: yields_cases [where ms = "ms\<lparr>ms_steps := n\<rparr>" and st = st1])
        (use m fine in \<open>auto simp: mbind_def bind_def split: prod.splits\<close>)
  qed (use m in \<open>simp add: mbind_def bind_def\<close>)
qed

lemma agrees_bind:
  assumes "yields m x" "agrees cs (f x) rs"
  shows "agrees cs (mbind m f) rs"
proof (rule agreesI)
  fix ms st assume ms: "slots_ok ms" "captures ms = cs"
  obtain r st1 where m: "m ms st = (r, st1)" by (cases "m ms st")
  from assms(1) show "answer_ok cs rs (fst (mbind m f ms st))"
  proof (cases rule: yields_cases [where ms = ms and st = st])
    case (fine n)
    then show ?thesis using m agreesD [OF assms(2), of "ms\<lparr>ms_steps := n\<rparr>" st1] ms by (simp add: mbind_def bind_def)
  qed (use m in \<open>simp add: mbind_def bind_def answer_ok_def\<close>)
qed

lemma agrees_step: "agrees cs m rs \<Longrightarrow> agrees cs (mbind (patternStep E I n) (\<lambda>_. m)) rs"
  by (rule agrees_bind [OF yields_step])

section \<open>Repetition\<close>

lemma run_length_yields: "yields (run_length E I single str i) (i + length (takeWhile single str))"
proof (induction str arbitrary: i)
  case (Cons c str)
  then show ?case using Cons [of "i + 1"] by (auto intro: yields_ret yields_bind [OF yields_step])
qed (simp add: yields_ret)

lemma try_down_agrees:
  assumes "\<And>j. j \<le> i \<Longrightarrow> agrees cs (k (s + j)) (f j)"
  shows "agrees cs (try_down E I k s i) (concat (map f (rev [0..<Suc i])))"
  using assms
proof (induction i)
  case 0
  then show ?case using agrees_step [of cs "k s" "f 0"] by simp
next
  case (Suc i)
  then have "agrees cs (mbind (k (s + Suc i)) (\<lambda>res. if res \<noteq> None then mret res else try_down E I k s i))
      (f (Suc i) @ concat (map f (rev [0..<Suc i])))"
    by (intro agrees_or Suc.IH Suc.prems) simp_all
  then show ?case by (simp add: agrees_step)
qed

lemma max_expand_agrees:
  assumes "\<And>j. j \<le> run_of single (mi_src I) s \<Longrightarrow> agrees cs (k (s + j)) (f j)"
  shows "agrees cs (max_expand E I single k s) (concat (map f (rev [0..<Suc (run_of single (mi_src I) s)])))"
  unfolding max_expand_def
  by (rule agrees_bind [OF run_length_yields]) (use try_down_agrees assms in \<open>simp add: run_of_def\<close>)

lemma min_loop_agrees:
  assumes "\<And>j. j \<le> length (takeWhile single str) \<Longrightarrow> agrees cs (k (s + j)) (f j)"
  shows "agrees cs (min_loop E I single k s str) (concat (map f [0..<Suc (length (takeWhile single str))]))"
  using assms
proof (induction str arbitrary: s f)
  case Nil
  then have "agrees cs (mbind (k s) (\<lambda>res. if res \<noteq> None then mret res else mret None)) (f 0 @ [])"
    by (intro agrees_or agrees_none) simp
  then show ?case by (subst min_loop.simps) (simp add: agrees_step cong: if_cong)
next
  case (Cons c str)
  let ?n = "length (takeWhile single str)"
  have "agrees cs (if single c then min_loop E I single k (s + 1) str else mret None)
      (if single c then concat (map (\<lambda>j. f (Suc j)) [0..<Suc ?n]) else [])"
    using Cons.IH [of "s + 1" "\<lambda>j. f (Suc j)"] Cons.prems [of "Suc _"] by (auto simp: agrees_none)
  then have "agrees cs (mbind (k s) (\<lambda>res. if res \<noteq> None then mret res
        else if single c then min_loop E I single k (s + 1) str else mret None))
      (f 0 @ (if single c then concat (map (\<lambda>j. f (Suc j)) [0..<Suc ?n]) else []))"
    using Cons.prems [of 0] by (intro agrees_or) simp_all
  moreover have "f 0 @ (if single c then concat (map (\<lambda>j. f (Suc j)) [0..<Suc ?n]) else []) =
      concat (map f [0..<Suc (length (takeWhile single (c # str)))])"
    by (simp add: upt_conv_Cons map_Suc_upt [symmetric] comp_def del: upt_Suc)
  ultimately show ?case by (subst min_loop.simps) (simp add: agrees_step cong: if_cong)
qed

section \<open>Balanced str\<close>

lemma find_upt_Suc:
  "find P [0..<Suc n] = (if P 0 then Some 0 else map_option Suc (find (\<lambda>i. P (Suc i)) [0..<n]))"
proof -
  have "find P (map Suc xs) = map_option Suc (find (\<lambda>i. P (Suc i)) xs)" for xs by (induction xs) auto
  then show ?thesis by (simp add: upt_conv_Cons map_Suc_upt [symmetric] del: upt_Suc)
qed

lemma balance_yields:
  assumes "0 < cont"
  shows "yields (balance_loop E I b e cont s str)
    (map_option (\<lambda>n. s + n) (find (\<lambda>n. count_list (take n str) e = cont + (if b = e then 0 else count_list (take n str) b))
       [0..<Suc (length str)]))"
  using assms
proof (induction str arbitrary: cont s)
  case (Cons c str)
  show ?case
  proof (cases "c = e \<and> cont = 1")
    case True
    have "yields (mbind (patternStep E I 1) (\<lambda>_. mret (Some (s + 1)))) (Some (s + 1))"
      by (rule yields_bind [OF yields_step yields_ret])
    then show ?thesis using True by (auto simp: find_upt_Suc [of _ "Suc _"] find_upt_Suc [of _ "length _"] simp del: upt_Suc)
  next
    case False
    let ?cont = "if c = e then cont - 1 else if c = b then cont + 1 else cont"
    have "count_list (take (Suc n) (c # str)) e = cont + (if b = e then 0 else count_list (take (Suc n) (c # str)) b) \<longleftrightarrow>
        count_list (take n str) e = ?cont + (if b = e then 0 else count_list (take n str) b)" for n
      using Cons.prems False by auto
    then have "map_option (\<lambda>n. s + 1 + n) (find (\<lambda>n. count_list (take n str) e = ?cont + (if b = e then 0 else count_list (take n str) b))
       [0..<Suc (length str)]) =
       map_option (\<lambda>n. s + n) (find (\<lambda>n. count_list (take n (c # str)) e = cont + (if b = e then 0 else count_list (take n (c # str)) b))
       [0..<Suc (length (c # str))])"
      using Cons.prems by (simp add: find_upt_Suc [of _ "Suc _"] option.map_comp comp_def del: upt_Suc take_Suc_Cons)
    moreover have "yields (balance_loop E I b e ?cont (s + 1) str) (map_option (\<lambda>n. s + 1 + n)
        (find (\<lambda>n. count_list (take n str) e = ?cont + (if b = e then 0 else count_list (take n str) b)) [0..<Suc (length str)]))"
      using Cons.prems False by (intro Cons.IH) auto
    ultimately have "yields (balance_loop E I b e ?cont (s + 1) str) (map_option (\<lambda>n. s + n)
        (find (\<lambda>n. count_list (take n (c # str)) e = cont + (if b = e then 0 else count_list (take n (c # str)) b)) [0..<Suc (length (c # str))]))"
      by simp
    moreover have "balance_loop E I b e cont s (c # str) = mbind (patternStep E I 1) (\<lambda>_. balance_loop E I b e ?cont (s + 1) str)"
      using False by auto
    ultimately show ?thesis by (simp add: yields_bind [OF yields_step] del: balance_loop.simps)
  qed
qed (simp add: yields_ret)

lemma matchbalance_yields:
  "yields (matchbalance E I s p)
     (if length (mi_pat I) \<le> p + 1 then None else balanced_end (mi_pat I ! p) (mi_pat I ! (p + 1)) (mi_src I) s)"
proof -
  let ?b = "mi_pat I ! p" and ?e = "mi_pat I ! (p + 1)" and ?src = "mi_src I"
  have loop: "yields (balance_loop E I ?b ?e 1 (s + 1) (drop (s + 1) ?src))
      (map_option (\<lambda>n. s + 1 + n) (find (closes_at ?b ?e (drop (s + 1) ?src)) [0..<Suc (length ?src - (s + 1))]))"
    using balance_yields [of 1 E I ?b ?e "s + 1" "drop (s + 1) ?src"]
    by (simp add: closes_at_def [abs_def] del: upt_Suc cong: if_cong)
  have outside: "find (closes_at ?b ?e (drop (s + 1) ?src)) [0..<Suc (length ?src - (s + 1))] = None" if "length ?src \<le> s"
    using that by (simp add: closes_at_def)
  consider (short) "length (mi_pat I) \<le> p + 1" | (other) "\<not> length (mi_pat I) \<le> p + 1" "char_at ?src s \<noteq> ?b"
    | (here) "\<not> length (mi_pat I) \<le> p + 1" "char_at ?src s = ?b" by blast
  then show ?thesis
  proof cases
    case here
    then have "matchbalance E I s p = balance_loop E I ?b ?e 1 (s + 1) (drop (s + 1) ?src)" by (simp add: matchbalance_def Let_def)
    moreover have "balanced_end ?b ?e ?src s =
        map_option (\<lambda>n. s + 1 + n) (find (closes_at ?b ?e (drop (s + 1) ?src)) [0..<Suc (length ?src - (s + 1))])"
      using here outside by (auto simp: balanced_end_def char_at_def simp del: upt_Suc split: if_splits)
    ultimately show ?thesis using loop here by (simp del: upt_Suc)
  qed (auto simp: matchbalance_def balanced_end_def char_at_def yields_ret split: if_splits)
qed

section \<open>Captures change and change back\<close>

lemma start_capture_agrees:
  assumes "agrees (cs @ [cap_of \<lparr>mc_init = s, mc_len = what\<rparr>]) k rs" "-2 \<le> what"
  shows "agrees cs (start_capture k s what) (if LUA_MAXCAPTURES \<le> length cs then [] else rs)"
proof (rule agreesI)
  fix ms st assume ms: "slots_ok ms" "captures ms = cs"
  have level: "length cs = ms_level ms" using ms length_captures by blast
  let ?ms = "ms\<lparr>ms_capture := (ms_capture ms)[ms_level ms := \<lparr>mc_init = s, mc_len = what\<rparr>], ms_level := ms_level ms + 1\<rparr>"
  show "answer_ok cs (if LUA_MAXCAPTURES \<le> length cs then [] else rs) (fst (start_capture k s what ms st))"
  proof (cases "LUA_MAXCAPTURES \<le> ms_level ms")
    case True
    then show ?thesis using ms level by (simp add: start_capture_def Let_def answer_ok_def ret_def)
  next
    case False
    then have shown: "shown ?ms = shown ms @ [\<lparr>mc_init = s, mc_len = what\<rparr>]"
      using ms by (simp add: slots_ok_def shown_def take_Suc_conv_app_nth)
    then have "slots_ok ?ms" "captures ?ms = cs @ [cap_of \<lparr>mc_init = s, mc_len = what\<rparr>]"
      using ms False assms(2) by (auto simp: slots_ok_def captures_def)
    from agreesD [OF assms(1) this, of st]
    have answer: "answer_ok (cs @ [cap_of \<lparr>mc_init = s, mc_len = what\<rparr>]) rs (fst (k ?ms st))" .
    obtain r st1 where k: "k ?ms st = (r, st1)" by (cases "k ?ms st")
    from answer show ?thesis
    proof (cases rule: answer_cases)
      case (none ms1)
      have n: "ms_level ms1 = Suc (ms_level ms)" using none(2,3) level length_captures [of ms1] by simp
      then have "shown ms1 = shown (ms1\<lparr>ms_level := ms_level ms1 - 1\<rparr>) @ [ms_capture ms1 ! ms_level ms]"
        using none(2) by (simp add: slots_ok_def shown_def take_Suc_conv_app_nth)
      then have "slots_ok (ms1\<lparr>ms_level := ms_level ms1 - 1\<rparr>)" "captures (ms1\<lparr>ms_level := ms_level ms1 - 1\<rparr>) = cs"
        using none n by (auto simp: slots_ok_def captures_def)
      then show ?thesis using k none False level by (simp add: start_capture_def Let_def answer_ok_def mbind_def bind_def ret_def)
    qed (use k False level in \<open>simp_all add: start_capture_def Let_def answer_ok_def mbind_def bind_def ret_def\<close>)
  qed
qed

lemma innermost_open_append:
  "innermost_open (cs @ [c]) = (case c of C_Open a \<Rightarrow> Some (length cs, a) | _ \<Rightarrow> innermost_open cs)"
proof -
  let ?ls = "filter (\<lambda>l. \<exists>a. cs ! l = C_Open a) [0..<length cs]"
  have "filter (\<lambda>l. \<exists>a. (cs @ [c]) ! l = C_Open a) [0..<length cs] = ?ls"
    by (rule filter_cong) (auto simp: nth_append)
  then have ls: "rev (filter (\<lambda>l. \<exists>a. (cs @ [c]) ! l = C_Open a) [0..<length (cs @ [c])]) =
      (if \<exists>a. c = C_Open a then [length cs] else []) @ rev ?ls"
    by simp
  show ?thesis
  proof (cases "rev ?ls")
    case Nil
    then show ?thesis unfolding innermost_open_def ls by (cases c) simp_all
  next
    case (Cons l more_ls)
    then have "l \<in> set ?ls" by (metis list.set_intros(1) set_rev)
    then have "(cs @ [c]) ! l = cs ! l" by (simp add: nth_append)
    with Cons show ?thesis unfolding innermost_open_def ls by (cases c) (simp_all only: if_False append.simps capture.simps list.simps
        simp_thms ex_simps, simp_all)
  qed
qed

lemma innermost_open_Some: "innermost_open cs = Some (l, a) \<Longrightarrow> l < length cs \<and> cs ! l = C_Open a"
proof (induction cs rule: rev_induct)
  case Nil
  then show ?case by (simp add: innermost_open_def)
next
  case (snoc c cs)
  then show ?case by (cases c) (auto simp: innermost_open_append nth_append)
qed

lemma innermost_last_open:
  "n \<le> length caps \<Longrightarrow>
   innermost_open (map cap_of (take n caps)) = map_option (\<lambda>l. (l, mc_init (caps ! l))) (last_open caps n)"
proof (induction n)
  case 0
  then show ?case by (simp add: innermost_open_def)
next
  case (Suc n)
  then show ?case
    by (simp add: take_Suc_conv_app_nth innermost_open_append split: capture.splits) (auto simp: cap_of_def split: if_splits)
qed

lemma set_len_captures:
  assumes "slots_ok ms" "l < ms_level ms" "-2 \<le> n"
  shows "slots_ok (set_len l n ms)" "captures (set_len l n ms) = (captures ms)[l := cap_of ((ms_capture ms ! l)\<lparr>mc_len := n\<rparr>)]"
proof -
  have "shown (set_len l n ms) = (shown ms)[l := (ms_capture ms ! l)\<lparr>mc_len := n\<rparr>]"
    using assms by (simp add: shown_def set_len_def take_update_swap)
  then show "slots_ok (set_len l n ms)" "captures (set_len l n ms) = (captures ms)[l := cap_of ((ms_capture ms ! l)\<lparr>mc_len := n\<rparr>)]"
    using assms by (auto simp: slots_ok_def captures_def map_update set_len_def dest!: set_update_subset_insert [THEN subsetD])
qed

lemma end_capture_agrees:
  assumes "\<And>l a. innermost_open cs = Some (l, a) \<Longrightarrow> a \<le> s \<and> agrees (cs[l := C_Text a s]) k (rs l a)"
  shows "agrees cs (end_capture k s) (case innermost_open cs of None \<Rightarrow> [Malformed] | Some (l, a) \<Rightarrow> rs l a)"
proof (rule agreesI)
  fix ms st assume ms: "slots_ok ms" "captures ms = cs"
  then have inner: "innermost_open cs = map_option (\<lambda>l. (l, mc_init (ms_capture ms ! l))) (last_open (ms_capture ms) (ms_level ms))"
    using innermost_last_open [of "ms_level ms" "ms_capture ms"] by (simp add: captures_def shown_def slots_ok_def)
  show "answer_ok cs (case innermost_open cs of None \<Rightarrow> [Malformed] | Some (l, a) \<Rightarrow> rs l a) (fst (end_capture k s ms st))"
  proof (cases "last_open (ms_capture ms) (ms_level ms)")
    case None
    then show ?thesis using inner
      by (simp add: end_capture_def answer_ok_def lua_error_def bind_def modify_def throw_def malformed_def)
  next
    case (Some l)
    define a where "a = mc_init (ms_capture ms ! l)"
    let ?n = "int s - int a"
    have in_cs: "innermost_open cs = Some (l, a)" using Some inner by (simp add: a_def)
    from innermost_open_Some [OF this] have l: "l < ms_level ms" "cs ! l = C_Open a" using ms length_captures by auto
    have as: "a \<le> s" and k: "agrees (cs[l := C_Text a s]) k (rs l a)" using assms in_cs by blast+
    have n: "a + nat ?n = s" using as by simp
    have set: "slots_ok (set_len l ?n ms)" "captures (set_len l ?n ms) = cs[l := C_Text a s]"
      using set_len_captures [OF ms(1) l(1), of ?n] as ms(2) n by (simp_all add: cap_of_def a_def [symmetric] CAP_UNFINISHED_def CAP_POSITION_def)
    obtain r st1 where r: "k (set_len l ?n ms) st = (r, st1)" by (cases "k (set_len l ?n ms) st")
    from agreesD [OF k set, of st] show ?thesis
    proof (cases rule: answer_cases)
      case (none ms1)
      have l1: "l < ms_level ms1" using none(2,3) l(1) ms length_captures [of ms1] length_captures [of ms] by simp
      then have "cap_of (ms_capture ms1 ! l) = C_Text a s"
        using captures_nth [OF none(2) l1] none(3) l(1) ms length_captures [of ms] by simp
      then have "mc_init (ms_capture ms1 ! l) = a" by (simp add: cap_of_def split: if_splits)
      then have "slots_ok (set_len l CAP_UNFINISHED ms1)" "captures (set_len l CAP_UNFINISHED ms1) = cs"
        using set_len_captures [OF none(2) l1, of CAP_UNFINISHED] none(3) l(2) by (simp_all add: cap_of_def CAP_UNFINISHED_def list_update_same_conv list_update_overwrite)
          (metis list_update_id)
      then show ?thesis using r none Some in_cs by (simp add: end_capture_def answer_ok_def mbind_def bind_def ret_def a_def)
    qed (use r Some in_cs in \<open>simp_all add: end_capture_def answer_ok_def mbind_def bind_def ret_def a_def\<close>)
  qed
qed

lemma match_back_agrees:
  assumes "within (mi_src I) s cs" and d: "d = of_char l"
    and go: "\<And>a b. d - 49 < length cs \<Longrightarrow> cs ! (d - 49) = C_Text a b \<Longrightarrow>
      take (b - a) (drop s (mi_src I)) = take (b - a) (drop a (mi_src I)) \<Longrightarrow> agrees cs (k (s + (b - a))) (f (s + (b - a)))"
  shows "agrees cs (mbind (match_back I s l) (\<lambda>r. case r of None \<Rightarrow> mret None | Some s' \<Rightarrow> k s'))
    (if 49 \<le> d \<and> d - 49 < length cs then
        (case cs ! (d - 49) of
           C_Open a \<Rightarrow> [Malformed]
         | C_At a \<Rightarrow> []
         | C_Text a b \<Rightarrow> if take (b - a) (drop s (mi_src I)) = take (b - a) (drop a (mi_src I)) then f (s + (b - a)) else [])
      else [Malformed])" (is "agrees cs ?m ?rs")
proof (rule agreesI)
  fix ms st assume ms: "slots_ok ms" "captures ms = cs"
  have level: "length cs = ms_level ms" using ms length_captures by blast
  show "answer_ok cs ?rs (fst (?m ms st))"
  proof (cases "49 \<le> d \<and> d - 49 < length cs")
    case False
    then show ?thesis using level
      by (auto simp: match_back_def mbind_def check_capture_def d [symmetric] answer_ok_def lua_error_def bind_def modify_def throw_def malformed_def Let_def)
  next
    case True
    let ?c = "ms_capture ms ! (d - 49)"
    have in_range: "\<not> (int d - 49 < 0 \<or> int (ms_level ms) \<le> int d - 49)" and i: "nat (int d - 49) = d - 49" using True level by auto
    have cap: "cs ! (d - 49) = cap_of ?c" using captures_nth [OF ms(1)] True level ms(2) by auto
    have "?c \<in> set (shown ms)" using True level ms(1) by (auto simp: shown_def slots_ok_def in_set_conv_nth intro!: exI [of _ "d - 49"])
    then have least: "-2 \<le> mc_len ?c" using ms(1) by (simp add: slots_ok_def)
    consider (o) "mc_len ?c = -1" | (position) "mc_len ?c = -2" | (piece) "0 \<le> mc_len ?c" using least by linarith
    then show ?thesis
    proof cases
      case piece
      have c: "cs ! (d - 49) = C_Text (mc_init ?c) (mc_init ?c + nat (mc_len ?c))"
        using cap piece by (simp add: cap_of_def CAP_UNFINISHED_def CAP_POSITION_def)
      then have "cap_within (mi_src I) s (C_Text (mc_init ?c) (mc_init ?c + nat (mc_len ?c)))" "s \<le> length (mi_src I)"
        using assms(1) True by (metis nth_mem within_def)+
      then have "take (nat (mc_len ?c)) (drop (mc_init ?c) (mi_src I)) = take (nat (mc_len ?c)) (drop s (mi_src I)) \<Longrightarrow>
          mc_len ?c \<le> int (length (mi_src I) - s)"
        by (drule_tac arg_cong [of _ _ length]) (use piece in \<open>simp add: min_def split: if_splits; linarith\<close>)
      moreover have "take (nat (mc_len ?c)) (drop (mc_init ?c) (mi_src I)) = take (nat (mc_len ?c)) (drop s (mi_src I)) \<Longrightarrow>
          agrees cs (k (s + nat (mc_len ?c))) (f (s + nat (mc_len ?c)))"
        using go [of "mc_init ?c" "mc_init ?c + nat (mc_len ?c)"] True c by simp
      moreover have rs: "?rs = (if take (nat (mc_len ?c)) (drop (mc_init ?c) (mi_src I)) = take (nat (mc_len ?c)) (drop s (mi_src I))
          then f (s + nat (mc_len ?c)) else [])"
        using True c by simp
      ultimately show ?thesis
        unfolding rs using piece True level in_range i c ms
        by (auto simp: match_back_def mbind_def check_capture_def d [symmetric] bind_def ret_def mret_def CAP_UNFINISHED_def Let_def
            agrees_def answer_ok_def)
    qed (use True level in_range i cap ms in \<open>auto simp: match_back_def mbind_def check_capture_def d [symmetric] bind_def ret_def mret_def CAP_UNFINISHED_def
        CAP_POSITION_def cap_of_def Let_def answer_ok_def lua_error_def modify_def throw_def malformed_def\<close>)
  qed
qed

section \<open>The matcher and the list of trials\<close>

lemma innermost_within: "within src s cs \<Longrightarrow> innermost_open cs = Some (l, a) \<Longrightarrow> a \<le> s \<and> within src s (cs[l := C_Text a s])"
proof -
  assume w: "within src s cs" and i: "innermost_open cs = Some (l, a)"
  have "cap_within src s (cs ! l)" using innermost_open_Some [OF i] w by (metis nth_mem within_def)
  then have "a \<le> s" using innermost_open_Some [OF i] by simp
  then show ?thesis using w by (auto simp: within_def dest!: set_update_subset_insert [THEN subsetD])
qed

lemma run_of_le: "s \<le> length src \<Longrightarrow> j \<le> run_of single src s \<Longrightarrow> s + j \<le> length src"
  using length_takeWhile_le [of single "drop s src"] by (simp add: run_of_def)

lemma balanced_end_bounds: "balanced_end b e src s = Some s' \<Longrightarrow> s \<le> s' \<and> s' \<le> length src"
  by (auto simp: balanced_end_def find_Some_iff simp del: upt_Suc split: if_splits)

lemma trials_if:
  "(c \<Longrightarrow> agrees cs m (trials src i s cs)) \<Longrightarrow> (\<not> c \<Longrightarrow> agrees cs m' (trials src j s cs)) \<Longrightarrow>
   agrees cs (if c then m else m') (trials src (if c then i else j) s cs)"
  by simp

lemma lmatch_trials:
  assumes "within (mi_src I) s cs"
  shows "agrees cs (lmatch E T I s p) (trials (mi_src I) (items T (mi_pat I) p) s cs)"
  using assms
proof (induction "length (mi_pat I) - p" arbitrary: p s cs rule: less_induct)
  case less
  let ?pat = "mi_pat I" and ?src = "mi_src I" and ?ch = "char_at (mi_pat I) (p + 1)"
  let ?run = "lmatch E T I" and ?trials = "\<lambda>p. trials (mi_src I) (items T (mi_pat I) p)"
  have go: "agrees cs' (?run s' p') (?trials p' s' cs')" if "p < length ?pat" "p < p'" "within ?src s' cs'" for p' s' cs'
    using less.hyps [of p' s' cs'] that by simp
  have s: "s \<le> length ?src" using less.prems by (simp add: within_def)
  have moved: "within ?src s' cs" if "s \<le> s'" "s' \<le> length ?src" for s' using within_mono [OF less.prems that] .
  note unfolds = lmatch.simps [of E T I s p] items.simps [of T ?pat p]
  consider (over) "length ?pat \<le> p"
    | (position) "p < length ?pat" "?pat ! p = CHR ''(''" "?ch = CHR '')''"
    | (start) "p < length ?pat" "?pat ! p = CHR ''(''" "?ch \<noteq> CHR '')''"
    | (close) "p < length ?pat" "?pat ! p = CHR '')''"
    | (finish) "p < length ?pat" "?pat ! p = CHR ''$''" "length ?pat \<le> p + 1"
    | (balanced) "p < length ?pat" "?pat ! p = L_ESC" "?ch = CHR ''b''"
    | (border) "p < length ?pat" "?pat ! p = L_ESC" "?ch = CHR ''f''"
    | (reference) "p < length ?pat" "?pat ! p = L_ESC" "c_isdigit ?ch" "?ch \<noteq> CHR ''b''" "?ch \<noteq> CHR ''f''"
    | (single) "p < length ?pat" "?pat ! p \<noteq> CHR ''(''" "?pat ! p \<noteq> CHR '')''" "\<not> (?pat ! p = CHR ''$'' \<and> length ?pat \<le> p + 1)"
        "\<not> (?pat ! p = L_ESC \<and> (?ch = CHR ''b'' \<or> ?ch = CHR ''f'' \<or> c_isdigit ?ch))"
    using not_le [of "length ?pat" p] by blast
  then show ?case
  proof cases
    case over
    then show ?thesis by (subst unfolds(1), subst unfolds(2)) (simp add: agrees_step agrees_some)
  next
    case position
    then have "agrees cs (start_capture (?run s (p + 2)) s CAP_POSITION)
        (if LUA_MAXCAPTURES \<le> length cs then [] else ?trials (p + 2) s (cs @ [C_At s]))"
      using go [of "p + 2" s "cs @ [C_At s]"] less.prems
      by (intro start_capture_agrees) (auto simp: cap_of_def CAP_POSITION_def CAP_UNFINISHED_def within_def)
    from agrees_step [OF this, of E I 1] position show ?thesis
      by (subst unfolds(1), subst unfolds(2)) (simp add: Let_def cong: if_cong option.case_cong)
  next
    case start
    then have "agrees cs (start_capture (?run s (p + 1)) s CAP_UNFINISHED)
        (if LUA_MAXCAPTURES \<le> length cs then [] else ?trials (p + 1) s (cs @ [C_Open s]))"
      using go [of "p + 1" s "cs @ [C_Open s]"] less.prems
      by (intro start_capture_agrees) (auto simp: cap_of_def CAP_UNFINISHED_def within_def)
    from agrees_step [OF this, of E I 1] start show ?thesis
      by (subst unfolds(1), subst unfolds(2)) (simp add: Let_def cong: if_cong option.case_cong)
  next
    case close
    then have "agrees cs (end_capture (?run s (p + 1)) s)
        (case innermost_open cs of None \<Rightarrow> [Malformed] | Some (l, a) \<Rightarrow> ?trials (p + 1) s (cs[l := C_Text a s]))"
      using go [of "p + 1" s] innermost_within [OF less.prems] by (intro end_capture_agrees) auto
    from agrees_step [OF this, of E I 1] close show ?thesis
      by (subst unfolds(1), subst unfolds(2)) (simp add: Let_def cong: if_cong option.case_cong)
  next
    case finish
    then show ?thesis by (subst unfolds(1), subst unfolds(2)) (auto simp: agrees_step Let_def agrees_some agrees_none)
  next
    case balanced
    have b: "yields (matchbalance E I s (p + 2))
     (if length ?pat \<le> p + 3 then None else balanced_end (?pat ! (p + 2)) (?pat ! (p + 3)) ?src s)"
      using matchbalance_yields [of E I s "p + 2"] by (simp add: numeral_3_eq_3 cong: if_cong)
    have "agrees cs (mbind (matchbalance E I s (p + 2)) (\<lambda>r. case r of None \<Rightarrow> mret None | Some s' \<Rightarrow> ?run s' (p + 4)))
       (if length ?pat \<le> p + 3 then [] else case balanced_end (?pat ! (p + 2)) (?pat ! (p + 3)) ?src s of
          None \<Rightarrow> [] | Some s' \<Rightarrow> ?trials (p + 4) s' cs)"
      using go [of "p + 4" _ cs] balanced(1) moved balanced_end_bounds
      by (intro agrees_bind [OF b]) (auto simp: agrees_none split: option.splits)
    from agrees_step [OF this, of E I 1] balanced show ?thesis
      by (subst unfolds(1), subst unfolds(2)) (auto simp add: Let_def L_ESC_def numeral_3_eq_3 cong: if_cong option.case_cong split: if_splits)
  next
    case border
    let ?ep = "classend ?pat (p + 2)"
    have "char_at ?pat (p + 2) = CHR ''['' \<Longrightarrow> agrees cs (?run s ?ep) (?trials ?ep s cs)"
      using go [of ?ep s cs] border(1) less.prems classend_gt_set [of ?pat p] by simp
    with border show ?thesis by (subst unfolds(1), subst unfolds(2))
      (auto simp: agrees_step agrees_none Let_def L_ESC_def at_border_def char_at_def)
  next
    case reference
    have "agrees cs (mbind (match_back I s ?ch) (\<lambda>r. case r of None \<Rightarrow> mret None | Some s' \<Rightarrow> ?run s' (p + 2)))
      (trials ?src (I_Back (of_char ?ch) # items T ?pat (p + 2)) s cs)"
      unfolding trials.simps
    proof (rule match_back_agrees [OF less.prems refl])
      fix a b assume "of_char ?ch - 49 < length cs" "cs ! (of_char ?ch - 49) = C_Text a b"
        "take (b - a) (drop s ?src) = take (b - a) (drop a ?src)"
      moreover from this have "cap_within ?src s (C_Text a b)" using less.prems by (metis nth_mem within_def)
      ultimately have "length (take (b - a) (drop s ?src)) = b - a" using s by simp linarith
      then have "s + (b - a) \<le> length ?src" using s by simp
      then show "agrees cs (?run (s + (b - a)) (p + 2)) (?trials (p + 2) (s + (b - a)) cs)"
        using go reference(1) moved by simp
    qed
    from agrees_step [OF this, of E I 1] reference show ?thesis
      by (subst unfolds(1), subst unfolds(2)) (simp add: Let_def L_ESC_def c_isdigit_def cong: if_cong option.case_cong del: trials.simps)
  next
    case single
    let ?ep = "classend ?pat p" and ?single = "\<lambda>c. singlematch T c ?pat p (classend ?pat p)"
    let ?m = "s < length ?src \<and> ?single (?src ! s)"
    have ep: "p < ?ep" using classend_gt single(1) by simp
    have next_ok: "s' \<le> length ?src \<Longrightarrow> s \<le> s' \<Longrightarrow> agrees cs (?run s' (?ep + 1)) (?trials (?ep + 1) s' cs)" for s'
      using go [of "?ep + 1" s' cs] single(1) ep moved by simp
    let ?suffix = "if ?ep < length ?pat then ?pat ! ?ep else CHR 0x00"
    have here: "here ?single ?src s \<longleftrightarrow> ?m" by (simp add: here_def)
    have plain: "?m \<Longrightarrow> agrees cs (?run (s + 1) ?ep) (?trials ?ep (s + 1) cs)"
      using go [of ?ep "s + 1" cs] single(1) ep moved by simp
    have optional: "agrees cs (if ?m then mbind (?run (s + 1) (?ep + 1)) (\<lambda>res. if res \<noteq> None then mret res else ?run s (?ep + 1))
          else ?run s (?ep + 1))
        (trials ?src (I_Opt ?single # items T ?pat (?ep + 1)) s cs)"
    proof (cases ?m)
      case True
      have "agrees cs (mbind (?run (s + 1) (?ep + 1)) (\<lambda>res. if res \<noteq> None then mret res else ?run s (?ep + 1)))
          (?trials (?ep + 1) (s + 1) cs @ ?trials (?ep + 1) s cs)"
        using True by (intro agrees_or next_ok) (use s in auto)
      then show ?thesis using True by (simp add: here)
    next
      case False
      then show ?thesis using next_ok [of s] s by (auto simp: here)
    qed
    have star: "agrees cs (max_expand E I ?single (\<lambda>s'. ?run s' (?ep + 1)) s) (trials ?src (I_Star ?single # items T ?pat (?ep + 1)) s cs)"
      unfolding trials.simps by (rule max_expand_agrees, rule next_ok) (use run_of_le [OF s] in auto)
    have plus: "agrees cs (if ?m then max_expand E I ?single (\<lambda>s'. ?run s' (?ep + 1)) (s + 1) else mret None)
        (trials ?src (I_Plus ?single # items T ?pat (?ep + 1)) s cs)"
    proof (cases ?m)
      case True
      have "agrees cs (max_expand E I ?single (\<lambda>s'. ?run s' (?ep + 1)) (s + 1))
         (concat (map (\<lambda>i. ?trials (?ep + 1) (s + 1 + i) cs) (rev [0..<Suc (run_of ?single ?src (s + 1))])))"
        by (rule max_expand_agrees, rule next_ok) (use run_of_le [of "s + 1"] True in auto)
      then show ?thesis using True by (simp add: here del: upt_Suc)
    next
      case False
      then show ?thesis by (auto simp: here agrees_none)
    qed
    have lazy: "agrees cs (min_expand E I ?single (\<lambda>s'. ?run s' (?ep + 1)) s) (trials ?src (I_Lazy ?single # items T ?pat (?ep + 1)) s cs)"
      unfolding trials.simps min_expand_def run_of_def
      by (rule min_loop_agrees, rule next_ok) (use run_of_le [OF s] in \<open>auto simp: run_of_def\<close>)
    have one: "agrees cs (if ?m then ?run (s + 1) ?ep else mret None) (trials ?src (I_One ?single # items T ?pat ?ep) s cs)"
      using plain by (auto simp: here agrees_none)
    define body where "body = (if ?suffix = CHR ''?'' then
        (if ?m then mbind (?run (s + 1) (?ep + 1)) (\<lambda>res. if res \<noteq> None then mret res else ?run s (?ep + 1)) else ?run s (?ep + 1))
      else if ?suffix = CHR ''*'' then max_expand E I ?single (\<lambda>s'. ?run s' (?ep + 1)) s
      else if ?suffix = CHR ''+'' then (if ?m then max_expand E I ?single (\<lambda>s'. ?run s' (?ep + 1)) (s + 1) else mret None)
      else if ?suffix = CHR ''-'' then min_expand E I ?single (\<lambda>s'. ?run s' (?ep + 1)) s
      else if ?m then ?run (s + 1) ?ep else mret None)"
    define its where "its = (if ?suffix = CHR ''?'' then I_Opt ?single # items T ?pat (?ep + 1)
           else if ?suffix = CHR ''*'' then I_Star ?single # items T ?pat (?ep + 1)
           else if ?suffix = CHR ''+'' then I_Plus ?single # items T ?pat (?ep + 1)
           else if ?suffix = CHR ''-'' then I_Lazy ?single # items T ?pat (?ep + 1)
           else I_One ?single # items T ?pat ?ep)"
    have no: "(length ?pat \<le> p) = False" "(?pat ! p = CHR ''('') = False" "(?pat ! p = CHR '')'') = False"
      "(?pat ! p = CHR ''$'' \<and> length ?pat \<le> p + 1) = False" "(?pat ! p = L_ESC \<and> ?ch = CHR ''b'') = False"
      "(?pat ! p = L_ESC \<and> ?ch = CHR ''f'') = False" "(?pat ! p = L_ESC \<and> c_isdigit ?ch) = False"
      using single by (auto simp only: not_le)
    have "agrees cs body (trials ?src its s cs)"
      unfolding body_def its_def by (intro trials_if optional star plus lazy one)
    moreover have "lmatch E T I s p = mbind (patternStep E I 1) (\<lambda>_. body)"
      unfolding body_def by (subst unfolds(1)) (simp only: Let_def no if_False)
    moreover have "items T ?pat p = its"
      unfolding its_def by (subst unfolds(2)) (simp only: Let_def no if_False)
    ultimately show ?thesis by (simp add: agrees_step)
  qed
qed

section \<open>Searching\<close>

definition starts :: "string \<Rightarrow> bool \<Rightarrow> nat \<Rightarrow> nat list" where
  "starts src anchor i = (if anchor then (if i \<le> length src then [i] else []) else [i..<Suc (length src)])"

fun first_trial :: "string \<Rightarrow> item list \<Rightarrow> nat list \<Rightarrow> (nat \<times> trial) option" where
  "first_trial src its [] = None"
| "first_trial src its (j # js) = (case trials src its j [] of t # _ \<Rightarrow> Some (j, t) | [] \<Rightarrow> first_trial src its js)"

definition found_ok :: "(nat \<times> trial) option \<Rightarrow> ((nat \<times> nat) option \<times> match_state) outcome \<Rightarrow> bool" where
  "found_ok expected r =
     (case r of
        Done (None, ms) \<Rightarrow> expected = None
      | Done (Some (j, e), ms) \<Rightarrow> expected = Some (j, Matched e (captures ms))
      | Raise x \<Rightarrow> stopped x \<or> malformed x \<and> (\<exists>j. expected = Some (j, Malformed))
      | _ \<Rightarrow> False)"

lemma tryMatch_agrees: "s \<le> length (mi_src I) \<Longrightarrow> agrees [] (tryMatch E T I s) (trials (mi_src I) (items T (mi_pat I) 0) s [])"
  unfolding tryMatch_def using lmatch_trials [of I s "[]" E T 0] by (simp add: agrees_step within_def)

lemma starts_step:
  "starts src anchor i = (if i \<le> length src then i # (if anchor then [] else starts src anchor (i + 1)) else [])"
  by (simp add: starts_def upt_rec del: upt_Suc)

lemma search_found:
  assumes "length (ms_capture ms) = LUA_MAXCAPTURES"
  shows "found_ok (first_trial (mi_src I) (items T (mi_pat I) 0) (starts (mi_src I) anchor i)) (fst (search E T I anchor i ms st))"
  using assms
proof (induction E T I anchor i arbitrary: ms st rule: search.induct)
  case (1 E T I anchor i)
  let ?trials = "trials (mi_src I) (items T (mi_pat I) 0) i []"
  show ?case
  proof (cases "i \<le> length (mi_src I)")
    case False
    then show ?thesis by (subst search.simps) (simp add: starts_step found_ok_def mret_def ret_def)
  next
    case True
    let ?ms = "ms\<lparr>ms_level := 0\<rparr>"
    have ms: "slots_ok ?ms" "captures ?ms = []" using 1(2) by (simp_all add: slots_ok_def captures_def shown_def)
    obtain r st1 where m: "tryMatch E T I i ?ms st = (r, st1)" by (cases "tryMatch E T I i ?ms st")
    have ok: "answer_ok [] ?trials r" using agreesD [OF tryMatch_agrees [OF True, of E T] ms, of st] m by simp
    have run: "search E T I anchor i ms st = bind (\<lambda>st. (r, st1)) (\<lambda>(res, ms'). case res of
              Some e \<Rightarrow> mret (Some (i, e)) ms'
            | None \<Rightarrow> if anchor then mret None ms' else search E T I anchor (i + 1) ms') st"
      using True m by (subst search.simps) (simp add: mbind_def bind_def split: outcome.splits option.splits prod.splits)
    from ok show ?thesis
    proof (cases rule: answer_cases)
      case (none ms1)
      have "length (ms_capture ms1) = LUA_MAXCAPTURES" using none(2) by (simp add: slots_ok_def)
      then have again: "\<not> anchor \<Longrightarrow> found_ok (first_trial (mi_src I) (items T (mi_pat I) 0) (starts (mi_src I) anchor (i + 1)))
          (fst (search E T I anchor (i + 1) ms1 st1))"
        using 1(1) [OF True] by (simp add: option.case_eq_if) 
      then show ?thesis unfolding run starts_step [of _ _ i] using True none
        by (cases anchor) (simp_all add: bind_def found_ok_def mret_def ret_def)
    qed (use True run in \<open>auto simp: bind_def found_ok_def mret_def ret_def starts_step [of _ _ i]\<close>)
  qed
qed

text \<open>C27. A search answers the first match at the first start that has one: the matcher, which
  changes one array of captures in place and restores it when it backtracks, answers the head of the list of all
  matches in the order of preference of the pattern, with the captures of that match; it answers
  nothing only if no start has a match, and refuses the pattern only if the first attempt of all is malformed.
  Otherwise the limit of pattern steps or the execution policy stopped it.\<close>

theorem search_finds_first_match:
  "found_ok (first_trial (mi_src I) (items T (mi_pat I) 0) (starts (mi_src I) anchor i))
     (fst (search E T I anchor i prepareMatchState st))"
  by (rule search_found) (simp add: prepareMatchState_def)

section \<open>Anchored replacement\<close>

text \<open>The loop of \<open>gsub\<close> looks at the anchor only when the pattern did not match, so an anchored pattern
  is tried again behind each match.\<close>

definition pattern_vm :: vm where
  "pattern_vm = (run_vm [])\<lparr>vm_resources := default_resource_policy\<lparr>rp_maxStringBytes := 100, rp_maxOutputBytes := 100\<rparr>\<rparr>"

text \<open>\<open>gsub("aaa", "^a", "b")\<close> replaces three times and answers \<open>bbb, 3\<close>, although the anchored
  search has position 0 as its only start (Lua 5.1 answers \<open>baa, 1\<close>).\<close>

lemma anchored_gsub_repeats:
  "fst (gsub_text run_env c_locale (\<lambda>_ _. ret ()) \<lparr>mi_src = ''aaa'', mi_pat = ''a'', mi_stepLimit = 100\<rparr> (GR_String ''b'') True 4 pattern_vm) =
     Done (''bbb'', 3) \<and> starts ''aaa'' True 0 = [0]"
  by (simp add: gsub_text_def gsub_loop.simps tryMatch_def lmatch.simps mbind_def bind_def patternStep_def prepareMatchState_def ret_def
      mret_def pattern_vm_def run_vm_def run_env_def classend_def singlematch_def char_at_def Let_def L_ESC_def replacement_def
      pushStringOutput_def ensureStringOutput_def gets_def stringOutputLimit_def c_isdigit_def in_range_def consumeNativeWork_def
      xp_consumeNativeWork_def xp_pollStop_def new_exec_policy_def appendStringOutput_def default_resource_policy_def starts_def)

end
