(* ===== verification/GCHeap.thy ===== *)
theory GCHeap
  imports Metatable
begin

text \<open>
  The heap as the collector sees it, and its mark phase: \<^verbatim>\<open>gc/gc_mark.cpp\<close>, the weak modes of
  \<^verbatim>\<open>gc/gc_weak.cpp\<close>, and the \<open>mark\<close> method of every kind of object.

  An object has one address, whatever its kind, and holds references to others: values and addresses.
  What a \<open>mark\<close> method passes to \<open>markObject\<close>, in its order, is the list \<open>object_refs\<close>. There is one
  collector; running out of memory is not modelled. \<open>gc_fault\<close> tells that the collector followed a
  pointer to an object that had been freed.
\<close>

section \<open>Objects\<close>

record function_object =
  fo_isC :: bool
  fo_proto :: "addr option"
  fo_upvalues :: "addr list"
  fo_env :: "addr option"

record userdata_object =
  uo_metatable :: "addr option"
  uo_environment :: "addr option"

text \<open>A state is named by its index: it is owned by a thread object or is the main thread.\<close>

record thread_object =
  to_state :: "nat option"
  to_callerState :: "nat option"
  to_caller :: "addr option"

datatype gc_object =
    O_String string
  | O_Table lua_table
  | O_Proto proto_data "addr option list"
  | O_Function function_object
  | O_Upvalue upvalue "nat option"
  | O_Userdata userdata_object
  | O_Thread thread_object

record thread_state =
  ts_stack :: lua_stack
  ts_top :: nat
  ts_callStack :: "call_info list"
  ts_currentCI :: nat
  ts_globalTable :: "addr option"
  ts_openUpvalues :: "addr list"
  ts_debugHook :: "addr option"
  ts_hookActive :: bool

datatype gc_color = White | Gray | Black

record gc_bits =
  gb_color :: gc_color
  gb_fixed :: bool
  gb_finalized :: bool
  gb_weakKey :: bool
  gb_weakValue :: bool

datatype gc_phase = Ph_Pause | Ph_Propagate | Ph_Atomic | Ph_Sweep | Ph_Finalize

record gc =
  gh_object :: "addr \<Rightarrow> gc_object option"
  gh_states :: "thread_state list"
  gh_pool :: "(string \<times> addr) list"
  gh_messages :: "addr option list"
  gh_tmname :: "tms \<Rightarrow> addr option"
  gh_metatables :: "addr option list"
  gh_mainThread :: "nat option"
  gh_runningThread :: "addr option"
  gc_objects :: "addr list"
  gc_mark :: "addr \<Rightarrow> gc_bits"
  gc_roots :: "addr list"
  gc_gray :: "addr list"
  gc_weakTables :: "addr list"
  gc_pending :: "addr list"
  gc_precise :: bool
  gc_finalizersRunning :: bool
  gc_phase :: gc_phase
  gc_sweepCurrent :: "addr option"
  gc_sweepPrevious :: "addr option"
  gc_collected :: nat
  gc_lastCollected :: nat
  gc_fault :: bool

definition color :: "gc \<Rightarrow> addr \<Rightarrow> gc_color" where
  "color g a = gb_color (gc_mark g a)"

definition setColor :: "gc_color \<Rightarrow> addr \<Rightarrow> gc \<Rightarrow> gc" where
  "setColor c a g = g\<lparr>gc_mark := (gc_mark g)(a := (gc_mark g a)\<lparr>gb_color := c\<rparr>)\<rparr>"

section \<open>References\<close>

definition objectFromValue :: "lua_value \<Rightarrow> addr option" where
  "objectFromValue v =
     (case v of VString a \<Rightarrow> Some a | VTable a \<Rightarrow> Some a | VFunction a \<Rightarrow> Some a | VUserdata a \<Rightarrow> Some a
      | VThread a \<Rightarrow> Some a | _ \<Rightarrow> None)"

definition some_of :: "'a option list \<Rightarrow> 'a list" where
  "some_of xs = List.map_filter id xs"

definition value_refs :: "lua_value list \<Rightarrow> addr list" where
  "value_refs vs = some_of (map objectFromValue vs)"

definition node_refs :: "bool \<Rightarrow> bool \<Rightarrow> hash_node \<Rightarrow> addr list" where
  "node_refs weakKeys weakValues n =
     (if hn_state n \<noteq> NS_Live then []
      else (if \<not> weakKeys \<or> isString (hn_key n) then value_refs [hn_key n] else []) @
           (if \<not> weakValues \<or> isString (hn_value n) then value_refs [hn_value n] else []))"

definition table_refs :: "bool \<Rightarrow> bool \<Rightarrow> lua_table \<Rightarrow> addr list" where
  "table_refs weakKeys weakValues t =
     value_refs (if weakValues then filter isString (tb_array t) else tb_array t) @
     concat (map (node_refs weakKeys weakValues) (tb_nodes t)) @ some_of [tb_metatable t]"

definition proto_refs :: "proto_data \<Rightarrow> addr option list \<Rightarrow> addr list" where
  "proto_refs p subs =
     some_of [pd_source p, pd_debugName p] @ value_refs (pd_constants p) @ some_of subs @
     some_of (map lv_varname (pd_locvars p)) @ some_of (pd_upvalueNames p)"

definition function_refs :: "function_object \<Rightarrow> addr list" where
  "function_refs f = (if fo_isC f then [] else some_of [fo_proto f]) @ fo_upvalues f @ some_of [fo_env f]"

definition upvalue_refs :: "gc \<Rightarrow> upvalue \<Rightarrow> nat option \<Rightarrow> addr list" where
  "upvalue_refs g u owner =
     (if \<not> uv_isOpen u then value_refs [uv_closedValue u]
      else case Option.bind owner (lookup (gh_states g)) of
          Some ts \<Rightarrow> if uv_stackIndex u < sk_top (ts_stack ts) then value_refs [sk_slots (ts_stack ts) ! uv_stackIndex u] else []
        | None \<Rightarrow> [])"

definition userdata_refs :: "userdata_object \<Rightarrow> addr list" where
  "userdata_refs u = some_of [uo_metatable u, uo_environment u]"

section \<open>Stacks as roots\<close>

definition slot_at :: "thread_state \<Rightarrow> nat \<Rightarrow> lua_value" where
  "slot_at ts i = sk_slots (ts_stack ts) ! i"

definition frames_of :: "thread_state \<Rightarrow> call_info list" where
  "frames_of ts = take (ts_currentCI ts + 1) (ts_callStack ts)"

definition func_refs :: "thread_state \<Rightarrow> call_info \<Rightarrow> addr list" where
  "func_refs ts ci = (if ci_func ci < sk_top (ts_stack ts) then value_refs [slot_at ts (ci_func ci)] else [])"

definition window_refs :: "thread_state \<Rightarrow> nat \<Rightarrow> nat \<Rightarrow> addr list" where
  "window_refs ts lo hi = value_refs (map (slot_at ts) [lo..<hi])"

definition scan_top :: "thread_state \<Rightarrow> nat" where
  "scan_top ts =
     fold (\<lambda>ci m. max m (min (ci_top ci) (sk_top (ts_stack ts)))) (frames_of ts) (min (ts_top ts) (sk_top (ts_stack ts)))"

definition markWideStackRoots :: "thread_state \<Rightarrow> addr list" where
  "markWideStackRoots ts = concat (map (func_refs ts) (frames_of ts)) @ window_refs ts 0 (scan_top ts)"

definition frameFunction :: "gc \<Rightarrow> thread_state \<Rightarrow> call_info \<Rightarrow> function_object option" where
  "frameFunction g ts ci =
     (if sk_top (ts_stack ts) \<le> ci_func ci then None
      else case slot_at ts (ci_func ci) of
          VFunction a \<Rightarrow> (case gh_object g a of Some (O_Function f) \<Rightarrow> Some f | _ \<Rightarrow> None)
        | _ \<Rightarrow> None)"

definition frameCurrentPc :: "call_info \<Rightarrow> proto_data \<Rightarrow> nat" where
  "frameCurrentPc ci p =
     (case ci_savedpc ci of
        None \<Rightarrow> 0
      | Some pc \<Rightarrow> if pd_code p = [] \<or> pc = 0 then 0
          else if length (pd_code p) < pc then length (pd_code p) - 1 else pc - 1)"

definition markLuaFrameLocals :: "thread_state \<Rightarrow> call_info \<Rightarrow> proto_data \<Rightarrow> addr list" where
  "markLuaFrameLocals ts ci p =
     (let pc = int (frameCurrentPc ci p) in
      concat (map (\<lambda>l. if lv_reg l < 0 then []
          else let slot = ci_base ci + nat (lv_reg l)
               in if sk_top (ts_stack ts) \<le> slot then []
                  else if lv_startpc l \<le> pc \<and> pc < lv_endpc l then value_refs [slot_at ts slot] else []) (pd_locvars p)))"

definition markLuaFrameStackWindow :: "thread_state \<Rightarrow> call_info \<Rightarrow> addr list" where
  "markLuaFrameStackWindow ts ci =
     (let topSlot = min (ci_top ci) (sk_top (ts_stack ts)) in window_refs ts (min (ci_base ci) topSlot) topSlot)"

definition markCFrameStackWindow :: "thread_state \<Rightarrow> call_info \<Rightarrow> addr list" where
  "markCFrameStackWindow ts ci =
     window_refs ts (ci_base ci) (min (ci_top ci) (min (min (ts_top ts) (sk_top (ts_stack ts))) (sk_top (ts_stack ts))))"

definition markPreciseStackRoots :: "gc \<Rightarrow> thread_state \<Rightarrow> addr list" where
  "markPreciseStackRoots g ts =
     (if ts_callStack ts = [] then window_refs ts 0 (min (ts_top ts) (sk_top (ts_stack ts)))
      else concat (map (\<lambda>ci. func_refs ts ci @
          (case Option.bind (frameFunction g ts ci) (\<lambda>f. if fo_isC f then None else Option.bind (fo_proto f) (gh_object g)) of
             Some (O_Proto p subs) \<Rightarrow>
               (if ts_hookActive ts then markLuaFrameStackWindow ts ci else []) @ markLuaFrameLocals ts ci p
           | _ \<Rightarrow> markCFrameStackWindow ts ci)) (frames_of ts)))"

definition state_refs :: "gc \<Rightarrow> nat option \<Rightarrow> addr list" where
  "state_refs g s =
     (case Option.bind s (lookup (gh_states g)) of
        None \<Rightarrow> []
      | Some ts \<Rightarrow> some_of [ts_globalTable ts] @
          (if gc_precise g then markPreciseStackRoots g ts else markWideStackRoots ts) @
          ts_openUpvalues ts @ some_of [ts_debugHook ts])"

definition thread_refs :: "gc \<Rightarrow> thread_object \<Rightarrow> addr list" where
  "thread_refs g t = state_refs g (to_state t) @ state_refs g (to_callerState t) @ some_of [to_caller t]"

definition all_tms :: "tms list" where
  "all_tms = [TM_INDEX, TM_NEWINDEX, TM_GC, TM_MODE, TM_EQ, TM_ADD, TM_SUB, TM_MUL, TM_DIV, TM_MOD,
     TM_POW, TM_UNM, TM_LEN, TM_LT, TM_LE, TM_CONCAT, TM_CALL]"

definition root_refs :: "gc \<Rightarrow> nat option \<Rightarrow> addr list" where
  "root_refs g current =
     some_of (gh_messages g) @ some_of (map (gh_tmname g) all_tms) @ some_of (gh_metatables g) @
     state_refs g current @ (if gh_mainThread g \<noteq> current then state_refs g (gh_mainThread g) else []) @
     some_of [gh_runningThread g]"

section \<open>Weak modes\<close>

definition table_at :: "gc \<Rightarrow> addr \<Rightarrow> lua_table option" where
  "table_at g a = (case gh_object g a of Some (O_Table t) \<Rightarrow> Some t | _ \<Rightarrow> None)"

text \<open>A field of the metatable; the name of the event is a string object.\<close>

definition metafield :: "hash_env \<Rightarrow> gc \<Rightarrow> addr \<Rightarrow> tms \<Rightarrow> lua_value" where
  "metafield H g mt event =
     (case (table_at g mt, gh_tmname g event) of (Some m, Some k) \<Rightarrow> table_get H m (VString k) | _ \<Rightarrow> VNil)"

definition readWeakMode :: "hash_env \<Rightarrow> gc \<Rightarrow> lua_table \<Rightarrow> bool \<times> bool" where
  "readWeakMode H g t =
     (case tb_metatable t of
        None \<Rightarrow> (False, False)
      | Some mt \<Rightarrow> (case metafield H g mt TM_MODE of
            VString a \<Rightarrow> (case gh_object g a of
                Some (O_String mode) \<Rightarrow> (CHR ''k'' \<in> set mode, CHR ''v'' \<in> set mode)
              | _ \<Rightarrow> (False, False))
          | _ \<Rightarrow> (False, False)))"

definition setWeakBits :: "addr \<Rightarrow> bool \<times> bool \<Rightarrow> gc \<Rightarrow> gc" where
  "setWeakBits a mode g =
     g\<lparr>gc_mark := (gc_mark g)(a := (gc_mark g a)\<lparr>gb_weakKey := fst mode, gb_weakValue := snd mode\<rparr>)\<rparr>"

section \<open>Marking\<close>

definition markObject :: "addr \<Rightarrow> gc \<Rightarrow> gc" where
  "markObject a g =
     (if a \<notin> set (gc_objects g) then g\<lparr>gc_fault := True\<rparr>
      else if color g a \<noteq> White then g
      else setColor Gray a (g\<lparr>gc_gray := gc_gray g @ [a]\<rparr>))"

definition markObjects :: "addr list \<Rightarrow> gc \<Rightarrow> gc" where
  "markObjects as g = fold markObject as g"

definition markTable :: "hash_env \<Rightarrow> addr \<Rightarrow> lua_table \<Rightarrow> gc \<Rightarrow> gc" where
  "markTable H a t g =
     (let mode = readWeakMode H g t;
          g1 = setWeakBits a mode g;
          g2 = (if fst mode \<or> snd mode then g1\<lparr>gc_weakTables := gc_weakTables g1 @ [a]\<rparr> else g1)
      in markObjects (table_refs (fst mode) (snd mode) t) g2)"

definition object_refs :: "hash_env \<Rightarrow> gc \<Rightarrow> addr \<Rightarrow> addr list" where
  "object_refs H g a =
     (case gh_object g a of
        Some (O_Table t) \<Rightarrow> (let mode = readWeakMode H g t in table_refs (fst mode) (snd mode) t)
      | Some (O_Proto p subs) \<Rightarrow> proto_refs p subs
      | Some (O_Function f) \<Rightarrow> function_refs f
      | Some (O_Upvalue u owner) \<Rightarrow> upvalue_refs g u owner
      | Some (O_Userdata u) \<Rightarrow> userdata_refs u
      | Some (O_Thread t) \<Rightarrow> thread_refs g t
      | _ \<Rightarrow> [])"

definition traverse :: "hash_env \<Rightarrow> addr \<Rightarrow> gc \<Rightarrow> gc" where
  "traverse H a g =
     (case gh_object g a of
        None \<Rightarrow> g\<lparr>gc_fault := True\<rparr>
      | Some (O_Table t) \<Rightarrow> markTable H a t g
      | Some _ \<Rightarrow> markObjects (object_refs H g a) g)"

definition last_gray :: "gc \<Rightarrow> nat" where
  "last_gray g = length (gc_gray g) - 1"

text \<open>The object keeps its slot of the queue while it is scanned; its slot then takes the last entry.\<close>

definition blacken :: "hash_env \<Rightarrow> gc \<Rightarrow> gc" where
  "blacken H g =
     (let i = last_gray g; a = gc_gray g ! i; g1 = traverse H a (setColor Black a g)
      in g1\<lparr>gc_gray := butlast ((gc_gray g1)[i := last (gc_gray g1)])\<rparr>)"

text \<open>Every push makes a white object gray, so objects left to scan are counted by \<open>work_left\<close>.\<close>

definition whites :: "gc \<Rightarrow> nat" where
  "whites g = length (filter (\<lambda>a. color g a = White) (gc_objects g))"

definition work_left :: "gc \<Rightarrow> nat" where
  "work_left g = 2 * whites g + length (gc_gray g)"

lemma filter_less:
  assumes "\<And>b. Q b \<Longrightarrow> P b"
  shows "length (filter Q xs) \<le> length (filter P xs)"
    and "a \<in> set xs \<Longrightarrow> P a \<Longrightarrow> \<not> Q a \<Longrightarrow> length (filter Q xs) < length (filter P xs)"
proof -
  show le: "length (filter Q xs) \<le> length (filter P xs)" for xs using assms by (induction xs) auto
  show "a \<in> set xs \<Longrightarrow> P a \<Longrightarrow> \<not> Q a \<Longrightarrow> length (filter Q xs) < length (filter P xs)"
  proof (induction xs)
    case (Cons x xs)
    then show ?case using assms [of x] le [of xs] by (cases "x = a") auto
  qed simp
qed

lemma color_setColor: "color (setColor c a g) b = (if b = a then c else color g b)"
  by (simp add: color_def setColor_def)

lemma color_more [simp]:
  "color (g\<lparr>gc_gray := x\<rparr>) = color g" "color (g\<lparr>gc_fault := f\<rparr>) = color g" "color (g\<lparr>gc_weakTables := x\<rparr>) = color g"
  by (simp_all add: color_def fun_eq_iff)

lemma setColor_more [simp]:
  "gc_objects (setColor c a g) = gc_objects g" "gc_gray (setColor c a g) = gc_gray g"
  by (simp_all add: setColor_def)

lemma whites_le: "gc_objects g' = gc_objects g \<Longrightarrow> (\<And>b. color g' b = White \<Longrightarrow> color g b = White) \<Longrightarrow> whites g' \<le> whites g"
  unfolding whites_def using filter_less(1) [of "\<lambda>b. color g' b = White" "\<lambda>b. color g b = White"] by simp

lemma whites_less:
  assumes "gc_objects g' = gc_objects g" "\<And>b. color g' b = White \<Longrightarrow> color g b = White"
    and "a \<in> set (gc_objects g)" "color g a = White" "color g' a \<noteq> White"
  shows "whites g' < whites g"
  unfolding whites_def using filter_less(2) [of "\<lambda>b. color g' b = White" "\<lambda>b. color g b = White"] assms by simp

lemma markObject_work: "work_left (markObject a g) \<le> work_left g \<and> length (gc_gray g) \<le> length (gc_gray (markObject a g))"
proof (cases "a \<in> set (gc_objects g) \<and> color g a = White")
  case True
  have "whites (markObject a g) < whites g"
    using True by (intro whites_less [of _ _ a]) (auto simp: markObject_def color_setColor split: if_splits)
  then show ?thesis using True by (simp add: work_left_def markObject_def)
qed (auto simp: markObject_def work_left_def whites_def)

lemma markObjects_work: "work_left (markObjects as g) \<le> work_left g \<and> length (gc_gray g) \<le> length (gc_gray (markObjects as g))"
proof (induction as arbitrary: g)
  case (Cons a as)
  then show ?case using markObject_work [of a g] Cons [of "markObject a g"] by (auto simp: markObjects_def intro: order_trans)
qed (simp add: markObjects_def)

lemma setWeakBits_more [simp]:
  "color (setWeakBits a m g) = color g" "gc_objects (setWeakBits a m g) = gc_objects g" "gc_gray (setWeakBits a m g) = gc_gray g"
  by (auto simp: setWeakBits_def color_def fun_eq_iff)

lemma work_left_more [simp]:
  "work_left (setWeakBits a m g) = work_left g" "work_left (g\<lparr>gc_weakTables := x\<rparr>) = work_left g"
  "work_left (g\<lparr>gc_fault := f\<rparr>) = work_left g"
  by (simp_all add: work_left_def whites_def)

definition register_weak :: "addr \<Rightarrow> bool \<times> bool \<Rightarrow> gc \<Rightarrow> gc" where
  "register_weak a mode g =
     (let g1 = setWeakBits a mode g in if fst mode \<or> snd mode then g1\<lparr>gc_weakTables := gc_weakTables g1 @ [a]\<rparr> else g1)"

lemma markTable_eq:
  "markTable H a t g = (let mode = readWeakMode H g t in markObjects (table_refs (fst mode) (snd mode) t) (register_weak a mode g))"
  by (simp add: markTable_def register_weak_def Let_def)

lemma register_weak_more [simp]:
  "color (register_weak a m g) = color g" "gc_objects (register_weak a m g) = gc_objects g"
  "gc_gray (register_weak a m g) = gc_gray g" "work_left (register_weak a m g) = work_left g"
  by (simp_all add: register_weak_def Let_def)

lemma traverse_eq:
  "traverse H a g =
     (case gh_object g a of
        None \<Rightarrow> g\<lparr>gc_fault := True\<rparr>
      | Some ob \<Rightarrow> markObjects (object_refs H g a) (case ob of O_Table t \<Rightarrow> register_weak a (readWeakMode H g t) g | _ \<Rightarrow> g))"
  by (auto simp: traverse_def markTable_eq object_refs_def Let_def split: option.split gc_object.split)

lemma traverse_work: "work_left (traverse H a g) \<le> work_left g \<and> length (gc_gray g) \<le> length (gc_gray (traverse H a g))"
  using markObjects_work [of "object_refs H g a" g] markObjects_work [of "object_refs H g a" "register_weak a _ g"]
  by (auto simp: traverse_eq split: option.split gc_object.split)

lemma blacken_less:
  assumes "gc_gray g \<noteq> []"
  shows "work_left (blacken H g) < work_left g"
proof -
  let ?a = "gc_gray g ! last_gray g" let ?g1 = "setColor Black ?a g" let ?g2 = "traverse H ?a ?g1"
  have "whites ?g1 \<le> whites g" by (rule whites_le) (auto simp: color_setColor split: if_splits)
  then have "work_left ?g1 \<le> work_left g" by (simp add: work_left_def)
  then have *: "work_left ?g2 \<le> work_left g" "gc_gray ?g2 \<noteq> []"
    using traverse_work [of H ?a ?g1] assms by auto
  have "work_left (blacken H g) < work_left ?g2"
    using *(2) by (simp add: blacken_def Let_def work_left_def whites_def)
  then show ?thesis using * by simp
qed

text \<open>\<open>None\<close> is the unlimited budget of \<open>propagateMarks()\<close>.\<close>

function propagateMarks :: "hash_env \<Rightarrow> nat option \<Rightarrow> gc \<Rightarrow> gc" where
  "propagateMarks H budget g =
     (if gc_gray g = [] \<or> budget = Some 0 then g
      else propagateMarks H (map_option (\<lambda>n. n - 1) budget) (blacken H g))"
  by pat_completeness auto
termination
  by (relation "measure (\<lambda>(H, budget, g). work_left g)") (auto simp: blacken_less)

declare propagateMarks.simps [simp del]

end
