(* ===== verification/GCCollect.thy ===== *)
theory GCCollect
  imports GCHeap
begin

text \<open>
  The collector: weak tables, finalizers, sweeping, the full and the incremental cycle, write barriers and
  the registration of objects (\<^verbatim>\<open>gc/garbage_collector.cpp\<close>, \<^verbatim>\<open>gc_sweep.cpp\<close>, \<^verbatim>\<open>gc_weak.cpp\<close>,
  \<^verbatim>\<open>gc_finalize.cpp\<close>), and the interning of strings.

  A finalizer is Lua code: what a call of it does to the heap is the argument \<open>F\<close>, which also tells
  whether it raised an error. The list of all objects is the chain of \<open>next\<close> pointers. Byte counts and
  the pacing of automatic collections are not modelled, and the destructor of an object has no effect but
  that the object is gone.
\<close>

section \<open>Cycles\<close>

definition resetIncrementalCycle :: "gc \<Rightarrow> gc" where
  "resetIncrementalCycle g = g\<lparr>gc_phase := Ph_Pause, gc_sweepCurrent := None, gc_sweepPrevious := None, gc_collected := 0,
     gc_gray := [], gc_weakTables := []\<rparr>"

definition whiten :: "gc \<Rightarrow> gc" where
  "whiten g = g\<lparr>gc_mark := (\<lambda>a. if a \<in> set (gc_objects g)
     then (gc_mark g a)\<lparr>gb_color := White, gb_weakKey := False, gb_weakValue := False\<rparr> else gc_mark g a)\<rparr>"

definition mark_roots :: "nat option \<Rightarrow> gc \<Rightarrow> gc" where
  "mark_roots current g =
     (let g1 = markObjects (gc_roots g) g; g2 = markObjects (root_refs g1 current) g1 in markObjects (gc_pending g2) g2)"

text \<open>The mark phase of a full collection; every slot of every frame is a root.\<close>

definition mark_all :: "hash_env \<Rightarrow> nat option \<Rightarrow> gc \<Rightarrow> gc" where
  "mark_all H current g =
     (let g1 = (whiten g)\<lparr>gc_gray := [], gc_weakTables := []\<rparr> in propagateMarks H None (mark_roots current g1))"

section \<open>Weak tables\<close>

definition isObjectDead :: "gc \<Rightarrow> addr \<Rightarrow> bool" where
  "isObjectDead g a \<longleftrightarrow> \<not> gb_fixed (gc_mark g a) \<and> color g a = White"

definition isValueDead :: "gc \<Rightarrow> lua_value \<Rightarrow> bool" where
  "isValueDead g v \<longleftrightarrow>
     \<not> isString v \<and> (case objectFromValue v of None \<Rightarrow> False | Some a \<Rightarrow> isObjectDead g a)"

definition isWeakValueDead :: "gc \<Rightarrow> lua_value \<Rightarrow> bool" where
  "isWeakValueDead g v \<longleftrightarrow>
     \<not> isString v \<and> ((case v of VUserdata a \<Rightarrow> a \<in> set (gc_pending g) | _ \<Rightarrow> False) \<or> isValueDead g v)"

definition dead_entry :: "gc \<Rightarrow> bool \<Rightarrow> bool \<Rightarrow> hash_node \<Rightarrow> bool" where
  "dead_entry g weakKeys weakValues n \<longleftrightarrow>
     hn_state n = NS_Live \<and> (weakKeys \<and> isValueDead g (hn_key n) \<or> weakValues \<and> isWeakValueDead g (hn_value n))"

definition removeWeakEntries :: "gc \<Rightarrow> bool \<Rightarrow> bool \<Rightarrow> lua_table \<Rightarrow> lua_table" where
  "removeWeakEntries g weakKeys weakValues t =
     (if \<not> weakKeys \<and> \<not> weakValues then t
      else t\<lparr>tb_array := (if weakValues then map (\<lambda>v. if isWeakValueDead g v then VNil else v) (tb_array t) else tb_array t),
             tb_nodes := map (\<lambda>n. if dead_entry g weakKeys weakValues n then n\<lparr>hn_value := VNil, hn_state := NS_Dead\<rparr> else n)
                           (tb_nodes t),
             tb_live := tb_live t - length (filter (dead_entry g weakKeys weakValues) (tb_nodes t))\<rparr>)"

definition clear_table :: "addr \<Rightarrow> gc \<Rightarrow> gc" where
  "clear_table a g =
     (case table_at g a of
        None \<Rightarrow> g\<lparr>gc_fault := True\<rparr>
      | Some t \<Rightarrow> if isObjectDead g a then g
          else g\<lparr>gh_object := (gh_object g)(a \<mapsto>
                   O_Table (removeWeakEntries g (gb_weakKey (gc_mark g a)) (gb_weakValue (gc_mark g a)) t))\<rparr>)"

definition clearWeakTableEntries :: "gc \<Rightarrow> gc" where
  "clearWeakTableEntries g = fold clear_table (gc_weakTables g) g"

text \<open>A table that is still weak keeps its place in the list; its strong references are marked again.\<close>

definition reconcile_table :: "hash_env \<Rightarrow> addr \<Rightarrow> addr list \<times> gc \<Rightarrow> addr list \<times> gc" where
  "reconcile_table H a = (\<lambda>(kept, g).
     case table_at g a of
       None \<Rightarrow> (kept, g\<lparr>gc_fault := True\<rparr>)
     | Some t \<Rightarrow>
         if isObjectDead g a then (kept, g)
         else let mode = readWeakMode H g t;
                  g1 = markObjects (table_refs (fst mode) (snd mode) t) (setWeakBits a mode g)
              in (if fst mode \<or> snd mode then kept @ [a] else kept, g1))"

definition reconcileWeakTableModes :: "hash_env \<Rightarrow> gc \<Rightarrow> gc" where
  "reconcileWeakTableModes H g =
     (case fold (reconcile_table H) (gc_weakTables g) ([], g) of (kept, g1) \<Rightarrow> g1\<lparr>gc_weakTables := kept\<rparr>)"

section \<open>Finalizers\<close>

definition getFinalizer :: "hash_env \<Rightarrow> gc \<Rightarrow> userdata_object \<Rightarrow> lua_value" where
  "getFinalizer H g u = (case uo_metatable u of None \<Rightarrow> VNil | Some mt \<Rightarrow> metafield H g mt TM_GC)"

definition reads_freed :: "gc \<Rightarrow> userdata_object \<Rightarrow> bool" where
  "reads_freed g u \<longleftrightarrow> (case uo_metatable u of None \<Rightarrow> False | Some mt \<Rightarrow> mt \<notin> set (gc_objects g))"

definition prepare_one :: "hash_env \<Rightarrow> addr \<Rightarrow> gc \<Rightarrow> gc" where
  "prepare_one H a g =
     (case gh_object g a of
        Some (O_Userdata u) \<Rightarrow>
          if color g a = White \<and> \<not> gb_fixed (gc_mark g a) \<and> \<not> gb_finalized (gc_mark g a) then
            (let g1 = (if reads_freed g u then g\<lparr>gc_fault := True\<rparr> else g) in
             if isNil (getFinalizer H g1 u) then g1
             else markObject a (g1\<lparr>gc_pending := gc_pending g1 @ [a],
                                   gc_mark := (gc_mark g1)(a := (gc_mark g1 a)\<lparr>gb_finalized := True\<rparr>)\<rparr>))
          else g
      | _ \<Rightarrow> g)"

definition prepareFinalizers :: "hash_env \<Rightarrow> gc \<Rightarrow> gc" where
  "prepareFinalizers H g = fold (prepare_one H) (gc_objects g) g"

type_synonym finalizer = "addr \<Rightarrow> gc \<Rightarrow> bool \<times> gc"

definition drop_pending :: "addr \<Rightarrow> gc \<Rightarrow> gc" where
  "drop_pending a g = g\<lparr>gc_pending := filter (\<lambda>b. b \<noteq> a) (gc_pending g)\<rparr>"

fun run_finalizers :: "hash_env \<Rightarrow> finalizer \<Rightarrow> addr list \<Rightarrow> gc \<Rightarrow> bool \<times> gc" where
  "run_finalizers H F [] g = (False, g)"
| "run_finalizers H F (a # as) g =
     (case gh_object g a of
        Some (O_Userdata u) \<Rightarrow>
          if isNil (getFinalizer H g u) then run_finalizers H F as (drop_pending a g)
          else (case F a g of (raised, g1) \<Rightarrow>
            if raised then (True, drop_pending a g1) else run_finalizers H F as (drop_pending a g1))
      | _ \<Rightarrow> (False, g\<lparr>gc_fault := True\<rparr>))"

definition runFinalizers :: "hash_env \<Rightarrow> finalizer \<Rightarrow> nat \<Rightarrow> gc \<Rightarrow> bool \<times> gc" where
  "runFinalizers H F drainLimit g =
     (let scheduled = min (length (gc_pending g)) drainLimit in
      if gc_finalizersRunning g \<or> scheduled = 0 then (False, g)
      else case run_finalizers H F (take scheduled (gc_pending g)) (g\<lparr>gc_finalizersRunning := True\<rparr>) of
             (raised, g1) \<Rightarrow> (raised, g1\<lparr>gc_finalizersRunning := False\<rparr>))"

section \<open>Sweeping\<close>

definition after :: "addr \<Rightarrow> addr list \<Rightarrow> addr list" where
  "after a xs = drop 1 (dropWhile (\<lambda>b. b \<noteq> a) xs)"

definition getNext :: "gc \<Rightarrow> addr \<Rightarrow> addr option" where
  "getNext g a = (case after a (gc_objects g) of [] \<Rightarrow> None | b # _ \<Rightarrow> Some b)"

definition unlink :: "addr option \<Rightarrow> addr \<Rightarrow> gc \<Rightarrow> gc" where
  "unlink prev a g =
     g\<lparr>gc_objects := (case prev of None \<Rightarrow> [] | Some p \<Rightarrow> takeWhile (\<lambda>b. b \<noteq> p) (gc_objects g) @ [p]) @ after a (gc_objects g)\<rparr>"

definition without :: "addr \<Rightarrow> addr list \<Rightarrow> addr list" where
  "without a xs = filter (\<lambda>b. b \<noteq> a) xs"

definition destroyObject :: "addr \<Rightarrow> gc \<Rightarrow> gc" where
  "destroyObject a g =
     g\<lparr>gc_roots := without a (gc_roots g), gc_gray := without a (gc_gray g),
       gc_weakTables := without a (gc_weakTables g), gc_pending := without a (gc_pending g),
       gh_pool := filter (\<lambda>(str, b). b \<noteq> a) (gh_pool g),
       gh_object := (gh_object g)(a := None)\<rparr>"

definition isOpenUpvalue :: "gc \<Rightarrow> addr \<Rightarrow> bool" where
  "isOpenUpvalue g a = (case gh_object g a of Some (O_Upvalue u owner) \<Rightarrow> uv_isOpen u | _ \<Rightarrow> False)"

definition isThreadObject :: "gc \<Rightarrow> addr \<Rightarrow> bool" where
  "isThreadObject g a = (case gh_object g a of Some (O_Thread t) \<Rightarrow> True | _ \<Rightarrow> False)"

text \<open>One turn of the loop over the chain; the state is the predecessor, the count and the heap.\<close>

definition sweep_one :: "(gc \<Rightarrow> addr \<Rightarrow> bool) \<Rightarrow> addr \<Rightarrow> addr option \<times> nat \<times> gc \<Rightarrow> addr option \<times> nat \<times> gc" where
  "sweep_one shouldSweep a = (\<lambda>(prev, n, g).
     if \<not> shouldSweep g a then (Some a, n, g)
     else if color g a = White \<and> \<not> gb_fixed (gc_mark g a) then
       (if isOpenUpvalue g a then (Some a, n, g) else (prev, n + 1, destroyObject a (unlink prev a g)))
     else (Some a, n, setColor White a g))"

definition sweepMatching :: "(gc \<Rightarrow> addr \<Rightarrow> bool) \<Rightarrow> gc \<Rightarrow> nat \<times> gc" where
  "sweepMatching shouldSweep g = snd (fold (sweep_one shouldSweep) (gc_objects g) (None, 0, g))"

definition sweep :: "gc \<Rightarrow> nat \<times> gc" where
  "sweep g =
     (case sweepMatching isThreadObject g of (n1, g1) \<Rightarrow>
      case sweepMatching (\<lambda>g a. \<not> isThreadObject g a) g1 of (n2, g2) \<Rightarrow> (n1 + n2, g2))"

section \<open>The full collection\<close>

text \<open>The answer: how many objects were freed, and whether a finalizer raised an error.\<close>

definition collectMarkSweep :: "hash_env \<Rightarrow> finalizer \<Rightarrow> nat \<Rightarrow> nat option \<Rightarrow> bool \<Rightarrow> gc \<Rightarrow> nat \<times> bool \<times> gc" where
  "collectMarkSweep H F drainLimit current runNow g =
     (let g1 = (mark_all H current ((resetIncrementalCycle g)\<lparr>gc_precise := False\<rparr>))\<lparr>gc_precise := gc_precise g\<rparr>;
          g2 = (if current = None then g1 else propagateMarks H None (prepareFinalizers H g1))
      in case sweep (clearWeakTableEntries g2) of (n, g3) \<Rightarrow>
        let g4 = g3\<lparr>gc_weakTables := []\<rparr>
        in case (if current \<noteq> None \<and> runNow then runFinalizers H F drainLimit g4 else (False, g4)) of
             (raised, g5) \<Rightarrow> (n, raised, if raised then g5 else resetIncrementalCycle g5))"

section \<open>The incremental cycle\<close>

definition beginIncrementalMark :: "nat option \<Rightarrow> gc \<Rightarrow> gc" where
  "beginIncrementalMark current g =
     (let g1 = (whiten g)\<lparr>gc_gray := [], gc_weakTables := [], gc_collected := 0, gc_sweepCurrent := None, gc_sweepPrevious := None\<rparr>
      in (mark_roots current (g1\<lparr>gc_precise := False\<rparr>))\<lparr>gc_precise := gc_precise g, gc_phase := Ph_Propagate\<rparr>)"

definition performIncrementalAtomic :: "hash_env \<Rightarrow> nat option \<Rightarrow> gc \<Rightarrow> gc" where
  "performIncrementalAtomic H current g =
     (let g1 = (propagateMarks H None (mark_roots current (g\<lparr>gc_precise := False\<rparr>)))\<lparr>gc_precise := gc_precise g\<rparr>;
          g2 = propagateMarks H None (reconcileWeakTableModes H g1);
          g3 = (if current = None then g2 else propagateMarks H None (prepareFinalizers H g2));
          g4 = clearWeakTableEntries g3
      in g4\<lparr>gc_sweepCurrent := (case gc_objects g4 of [] \<Rightarrow> None | a # _ \<Rightarrow> Some a), gc_sweepPrevious := None, gc_phase := Ph_Sweep\<rparr>)"

fun sweep_loop :: "nat \<Rightarrow> nat \<Rightarrow> gc \<Rightarrow> nat \<times> gc" where
  "sweep_loop 0 n g = (n, g)"
| "sweep_loop (Suc budget) n g =
     (case gc_sweepCurrent g of
        None \<Rightarrow> (n, g)
      | Some a \<Rightarrow>
          let next_object = getNext g a in
          if color g a = White \<and> \<not> gb_fixed (gc_mark g a) then
            (if isOpenUpvalue g a
             then sweep_loop budget n (g\<lparr>gc_sweepPrevious := Some a, gc_sweepCurrent := next_object\<rparr>)
             else sweep_loop budget (n + 1) ((destroyObject a (unlink (gc_sweepPrevious g) a g))\<lparr>gc_sweepCurrent := next_object\<rparr>))
          else sweep_loop budget n ((setColor White a g)\<lparr>gc_sweepPrevious := Some a, gc_sweepCurrent := next_object\<rparr>))"

definition sweepStep :: "nat \<Rightarrow> gc \<Rightarrow> gc" where
  "sweepStep budget g =
     (case sweep_loop budget 0 g of (n, g1) \<Rightarrow>
        let g2 = g1\<lparr>gc_collected := gc_collected g1 + n\<rparr>
        in if gc_sweepCurrent g2 = None then g2\<lparr>gc_weakTables := [], gc_phase := Ph_Finalize\<rparr> else g2)"

text \<open>One step, whether the cycle is over, and whether a finalizer raised an error.\<close>

definition incrementalStep :: "hash_env \<Rightarrow> finalizer \<Rightarrow> nat \<Rightarrow> nat option \<Rightarrow> nat \<Rightarrow> gc \<Rightarrow> bool \<times> bool \<times> gc" where
  "incrementalStep H F drainLimit current budget g =
     (let budget = max 1 budget in
      case gc_phase g of
        Ph_Pause \<Rightarrow> (False, False, beginIncrementalMark current g)
      | Ph_Propagate \<Rightarrow>
          (let g1 = propagateMarks H (Some budget) g
           in (False, False, if gc_gray g1 = [] then g1\<lparr>gc_phase := Ph_Atomic\<rparr> else g1))
      | Ph_Atomic \<Rightarrow> (False, False, performIncrementalAtomic H current g)
      | Ph_Sweep \<Rightarrow> (False, False, sweepStep budget g)
      | Ph_Finalize \<Rightarrow>
          (let completed = gc_collected g in
           case (if current = None then (False, g) else runFinalizers H F drainLimit g) of (raised, g1) \<Rightarrow>
             if raised then (False, True, resetIncrementalCycle g1)
             else (True, False, resetIncrementalCycle (g1\<lparr>gc_lastCollected := completed\<rparr>))))"

section \<open>Barriers\<close>

definition writeBarrier :: "hash_env \<Rightarrow> addr \<Rightarrow> addr \<Rightarrow> gc \<Rightarrow> gc" where
  "writeBarrier H owner child g =
     (if owner \<notin> set (gc_objects g) \<or> child \<notin> set (gc_objects g) then g
      else if color g owner \<noteq> Black \<or> color g child \<noteq> White then g
      else propagateMarks H None (markObject child g))"

definition writeBarrierValue :: "hash_env \<Rightarrow> addr \<Rightarrow> lua_value \<Rightarrow> gc \<Rightarrow> gc" where
  "writeBarrierValue H owner v g = (case objectFromValue v of None \<Rightarrow> g | Some a \<Rightarrow> writeBarrier H owner a g)"

text \<open>\<open>capacity\<close> is the room of the gray queue.\<close>

definition writeBarrierDeferredNoexcept :: "nat \<Rightarrow> addr \<Rightarrow> lua_value \<Rightarrow> gc \<Rightarrow> gc" where
  "writeBarrierDeferredNoexcept capacity owner v g =
     (case objectFromValue v of
        None \<Rightarrow> g
      | Some child \<Rightarrow>
          if owner \<notin> set (gc_objects g) \<or> child \<notin> set (gc_objects g) \<or>
             color g owner \<noteq> Black \<or> color g child \<noteq> White then g
          else if gc_phase g = Ph_Sweep \<or> capacity \<le> length (gc_gray g) then resetIncrementalCycle g
          else setColor Gray child (g\<lparr>gc_gray := gc_gray g @ [child]\<rparr>))"

definition writeRootBarrier :: "hash_env \<Rightarrow> addr \<Rightarrow> gc \<Rightarrow> gc" where
  "writeRootBarrier H child g =
     (if child \<notin> set (gc_objects g) \<or> color g child \<noteq> White then g else propagateMarks H None (markObject child g))"

section \<open>Objects and roots\<close>

definition addRoot :: "hash_env \<Rightarrow> addr \<Rightarrow> gc \<Rightarrow> gc" where
  "addRoot H a g =
     (if a \<in> set (gc_roots g) then g
      else let g1 = g\<lparr>gc_roots := gc_roots g @ [a]\<rparr>
           in if gc_phase g1 \<noteq> Ph_Pause then writeRootBarrier H a g1 else g1)"

definition removeRoot :: "addr \<Rightarrow> gc \<Rightarrow> gc" where
  "removeRoot a g = g\<lparr>gc_roots := remove1 a (gc_roots g)\<rparr>"

text \<open>\<open>ob\<close> is the object that was constructed at the address \<open>a\<close>.\<close>

definition registerObject :: "hash_env \<Rightarrow> addr \<Rightarrow> gc_object \<Rightarrow> gc \<Rightarrow> gc" where
  "registerObject H a ob g =
     (let g1 = g\<lparr>gh_object := (gh_object g)(a \<mapsto> ob),
               gc_mark := (gc_mark g)(a := \<lparr>gb_color = (if gc_phase g = Ph_Pause then White else Black), gb_fixed = False,
                 gb_finalized = False, gb_weakKey = False, gb_weakValue = False\<rparr>),
               gc_objects := a # gc_objects g,
               gc_sweepPrevious := (if gc_phase g = Ph_Sweep \<and> gc_sweepPrevious g = None then Some a else gc_sweepPrevious g)\<rparr>
      in if gc_phase g = Ph_Pause then g1
         else let g2 = propagateMarks H None (traverse H a g1)
              in if gc_phase g2 = Ph_Sweep \<and> length (gc_weakTables g1) < length (gc_weakTables g2)
                 then resetIncrementalCycle g2 else g2)"

text \<open>\<open>fresh\<close> is the address a new string object gets.\<close>

definition pool_intern :: "hash_env \<Rightarrow> string \<Rightarrow> addr \<Rightarrow> gc \<Rightarrow> addr \<times> gc" where
  "pool_intern H str fresh g =
     (case map_of (gh_pool g) str of
        Some a \<Rightarrow> (a, g)
      | None \<Rightarrow> let g1 = registerObject H fresh (O_String str) g in (fresh, g1\<lparr>gh_pool := (str, fresh) # gh_pool g1\<rparr>))"

end
