(* ===== verification/GCReach.thy ===== *)
theory GCReach
  imports GCCollect
begin

text \<open>
  What marking computes: after \<open>propagateMarks\<close> without a budget the objects that are not white are those
  that a path of references leads to from the objects that were not white before.

  \<open>frame\<close> is the part of the collector's state that marking leaves alone; \<open>tricolour\<close> is its invariant.
\<close>

section \<open>What marking leaves alone\<close>

definition plain_bits :: "gc_bits \<Rightarrow> gc_bits" where
  "plain_bits b = b\<lparr>gb_color := White, gb_weakKey := False, gb_weakValue := False\<rparr>"

definition frame :: "gc \<Rightarrow> gc" where
  "frame g = g\<lparr>gc_gray := [], gc_weakTables := [], gc_fault := False, gc_mark := (\<lambda>a. plain_bits (gc_mark g a))\<rparr>"

lemma frame_fields:
  assumes "frame g' = frame g"
  shows "gh_object g' = gh_object g" "gh_states g' = gh_states g" "gh_pool g' = gh_pool g"
    "gh_messages g' = gh_messages g" "gh_tmname g' = gh_tmname g" "gh_metatables g' = gh_metatables g"
    "gh_mainThread g' = gh_mainThread g" "gh_runningThread g' = gh_runningThread g"
    "gc_objects g' = gc_objects g" "gc_roots g' = gc_roots g" "gc_pending g' = gc_pending g"
    "gc_precise g' = gc_precise g" "gc_finalizersRunning g' = gc_finalizersRunning g" "gc_phase g' = gc_phase g"
    "gc_sweepCurrent g' = gc_sweepCurrent g" "gc_sweepPrevious g' = gc_sweepPrevious g"
    "gc_collected g' = gc_collected g" "gc_lastCollected g' = gc_lastCollected g"
  using assms by (cases g; cases g'; simp add: frame_def)+

lemma frame_bits:
  assumes "frame g' = frame g"
  shows "gb_fixed (gc_mark g' a) = gb_fixed (gc_mark g a)" "gb_finalized (gc_mark g' a) = gb_finalized (gc_mark g a)"
proof -
  have "plain_bits (gc_mark g' a) = plain_bits (gc_mark g a)"
    using arg_cong [OF assms, where f = gc_mark] by (simp add: frame_def fun_eq_iff)
  then have "gb_fixed (plain_bits (gc_mark g' a)) = gb_fixed (plain_bits (gc_mark g a))"
    "gb_finalized (plain_bits (gc_mark g' a)) = gb_finalized (plain_bits (gc_mark g a))" by simp_all
  then show "gb_fixed (gc_mark g' a) = gb_fixed (gc_mark g a)" "gb_finalized (gc_mark g' a) = gb_finalized (gc_mark g a)"
    by (simp_all add: plain_bits_def)
qed

lemma frame_setColor [simp]: "frame (setColor c a g) = frame g"
  by (simp add: frame_def setColor_def plain_bits_def fun_eq_iff)

lemma frame_setWeakBits [simp]: "frame (setWeakBits a m g) = frame g"
  by (simp add: frame_def setWeakBits_def plain_bits_def fun_eq_iff)

lemma frame_more [simp]:
  "frame (g\<lparr>gc_gray := x\<rparr>) = frame g" "frame (g\<lparr>gc_weakTables := y\<rparr>) = frame g" "frame (g\<lparr>gc_fault := z\<rparr>) = frame g"
  by (simp_all add: frame_def)

lemma frame_markObject [simp]: "frame (markObject a g) = frame g"
  by (simp add: markObject_def)

lemma frame_markObjects [simp]: "frame (markObjects as g) = frame g"
  by (induction as arbitrary: g) (simp_all add: markObjects_def)

lemma frame_register_weak [simp]: "frame (register_weak a m g) = frame g"
  by (simp add: register_weak_def Let_def)

lemma frame_traverse [simp]: "frame (traverse H a g) = frame g"
  by (simp add: traverse_eq split: option.split gc_object.split)

lemma frame_blacken [simp]: "frame (blacken H g) = frame g"
  by (simp add: blacken_def Let_def)

lemma frame_propagateMarks [simp]: "frame (propagateMarks H budget g) = frame g"
proof (induction H budget g rule: propagateMarks.induct)
  case (1 H budget g)
  then show ?case by (subst propagateMarks.simps) simp
qed

text \<open>Marking reads objects, stacks and names, which are in the frame.\<close>

lemma reads_heap:
  assumes f: "gh_object g' = gh_object g" "gh_states g' = gh_states g" "gh_tmname g' = gh_tmname g"
    "gc_precise g' = gc_precise g"
  shows "readWeakMode H g' = readWeakMode H g" "object_refs H g' = object_refs H g"
    "table_at g' = table_at g" "metafield H g' = metafield H g" "getFinalizer H g' = getFinalizer H g"
    "state_refs g' = state_refs g"
proof -
  show t: "table_at g' = table_at g" by (rule ext) (unfold table_at_def f, rule refl)
  show m: "metafield H g' = metafield H g" by (intro ext) (unfold metafield_def t f, rule refl)
  show w: "readWeakMode H g' = readWeakMode H g" by (rule ext) (unfold readWeakMode_def m f, rule refl)
  have ff: "frameFunction g' = frameFunction g" by (intro ext) (unfold frameFunction_def f, rule refl)
  have "markPreciseStackRoots g' = markPreciseStackRoots g" by (rule ext) (unfold markPreciseStackRoots_def ff f, rule refl)
  then show s: "state_refs g' = state_refs g" by (intro ext) (simp only: state_refs_def f)
  have u: "upvalue_refs g' = upvalue_refs g" by (intro ext) (unfold upvalue_refs_def f, rule refl)
  have th: "thread_refs g' = thread_refs g" by (rule ext) (unfold thread_refs_def s, rule refl)
  show "object_refs H g' = object_refs H g"
    by (rule ext) (unfold object_refs_def f w u th, rule refl)
  show "getFinalizer H g' = getFinalizer H g" by (rule ext) (unfold getFinalizer_def m, rule refl)
qed

lemma reads_frame:
  assumes "frame g' = frame g"
  shows "readWeakMode H g' = readWeakMode H g" "object_refs H g' = object_refs H g" "root_refs g' = root_refs g"
    "table_at g' = table_at g" "metafield H g' = metafield H g" "getFinalizer H g' = getFinalizer H g"
proof -
  note f = frame_fields [OF assms]
  note r = reads_heap [OF f(1,2,5,12)]
  show "readWeakMode H g' = readWeakMode H g" "object_refs H g' = object_refs H g"
    "table_at g' = table_at g" "metafield H g' = metafield H g" "getFinalizer H g' = getFinalizer H g"
    by (rule r)+
  show "root_refs g' = root_refs g" by (rule ext) (unfold root_refs_def f r, rule refl)
qed

section \<open>What marking a list of objects does\<close>

definition managed :: "gc \<Rightarrow> addr set" where
  "managed g = set (gc_objects g)"

definition marked :: "gc \<Rightarrow> addr set" where
  "marked g = {a \<in> managed g. color g a \<noteq> White}"

lemma managed_frame: "frame g' = frame g \<Longrightarrow> managed g' = managed g"
  unfolding managed_def by (drule frame_fields(9)) (rule arg_cong)

lemma weak_bits_setColor [simp]:
  "gb_weakKey (gc_mark (setColor c a g) b) = gb_weakKey (gc_mark g b)"
  "gb_weakValue (gc_mark (setColor c a g) b) = gb_weakValue (gc_mark g b)"
  by (simp_all add: setColor_def)

lemma markObject_effect:
  "color (markObject a g) b = (if b = a \<and> a \<in> managed g \<and> color g a = White then Gray else color g b)"
  "gc_gray (markObject a g) = gc_gray g @ (if a \<in> managed g \<and> color g a = White then [a] else [])"
  "gc_fault (markObject a g) \<longleftrightarrow> gc_fault g \<or> a \<notin> managed g"
  "gc_weakTables (markObject a g) = gc_weakTables g"
  "gb_weakKey (gc_mark (markObject a g) b) = gb_weakKey (gc_mark g b)"
  "gb_weakValue (gc_mark (markObject a g) b) = gb_weakValue (gc_mark g b)"
  by (auto simp: markObject_def managed_def color_setColor) (auto simp: setColor_def)

lemma markObjects_effect:
  "color (markObjects as g) b = (if b \<in> set as \<inter> managed g \<and> color g b = White then Gray else color g b)"
  "\<exists>ys. gc_gray (markObjects as g) = gc_gray g @ ys \<and> set ys = {b \<in> set as \<inter> managed g. color g b = White}"
  "gc_fault (markObjects as g) \<longleftrightarrow> gc_fault g \<or> \<not> set as \<subseteq> managed g"
  "gc_weakTables (markObjects as g) = gc_weakTables g"
  "gb_weakKey (gc_mark (markObjects as g) b) = gb_weakKey (gc_mark g b)"
  "gb_weakValue (gc_mark (markObjects as g) b) = gb_weakValue (gc_mark g b)"
proof (induction as arbitrary: g)
  case Nil
  { case 1 then show ?case by (simp add: markObjects_def)
  next case 2 then show ?case by (simp add: markObjects_def)
  next case 3 then show ?case by (simp add: markObjects_def)
  next case 4 then show ?case by (simp add: markObjects_def)
  next case 5 then show ?case by (simp add: markObjects_def)
  next case 6 then show ?case by (simp add: markObjects_def) }
next
  case (Cons a as)
  have m: "managed (markObject a g) = managed g" for g by (rule managed_frame) simp
  have u: "markObjects (a # as) g = markObjects as (markObject a g)" for g by (simp add: markObjects_def)
  { case 1 show ?case unfolding u Cons.IH(1) m markObject_effect by auto
  next
    case 2
    obtain ys where ys: "gc_gray (markObjects as (markObject a g)) = gc_gray (markObject a g) @ ys"
      "set ys = {b \<in> set as \<inter> managed g. color (markObject a g) b = White}"
      using Cons.IH(2) [of "markObject a g"] m by auto
    show ?case unfolding u ys(1) markObject_effect append_assoc
      by (rule exI, rule conjI, rule refl) (use ys(2) in \<open>auto simp: markObject_effect split: if_splits\<close>)
  next case 3 show ?case unfolding u Cons.IH(3) m markObject_effect by auto
  next case 4 show ?case unfolding u Cons.IH(4) markObject_effect by simp
  next case 5 show ?case unfolding u Cons.IH(5) markObject_effect by simp
  next case 6 show ?case unfolding u Cons.IH(6) markObject_effect by simp }
qed

lemma marked_markObjects: "marked (markObjects as g) = marked g \<union> (set as \<inter> managed g)"
  using managed_frame [OF frame_markObjects] by (auto simp: marked_def markObjects_effect)

section \<open>The invariant of the mark phase\<close>

definition intact :: "hash_env \<Rightarrow> gc \<Rightarrow> bool" where
  "intact H g \<longleftrightarrow> (\<forall>a \<in> managed g. gh_object g a \<noteq> None \<and> set (object_refs H g a) \<subseteq> managed g)"

definition weak_known :: "hash_env \<Rightarrow> gc \<Rightarrow> addr \<Rightarrow> bool" where
  "weak_known H g a \<longleftrightarrow>
     (\<forall>t. table_at g a = Some t \<longrightarrow>
        readWeakMode H g t = (gb_weakKey (gc_mark g a), gb_weakValue (gc_mark g a)) \<and>
        (gb_weakKey (gc_mark g a) \<or> gb_weakValue (gc_mark g a) \<longrightarrow> a \<in> set (gc_weakTables g)))"

definition tricolour :: "hash_env \<Rightarrow> gc \<Rightarrow> bool" where
  "tricolour H g \<longleftrightarrow>
     set (gc_gray g) \<subseteq> marked g \<and>
     (\<forall>a \<in> managed g. color g a = Gray \<longrightarrow> a \<in> set (gc_gray g)) \<and>
     (\<forall>a \<in> managed g. color g a = Black \<longrightarrow> set (object_refs H g a) \<subseteq> marked g \<and> weak_known H g a) \<and>
     (\<forall>a \<in> set (gc_weakTables g). a \<in> marked g \<and> table_at g a \<noteq> None)"

lemma intact_frame: "frame g' = frame g \<Longrightarrow> intact H g' \<longleftrightarrow> intact H g"
  unfolding intact_def using managed_frame [of g' g] reads_frame(2) [of g' g H] frame_fields(1) [of g' g] by simp

lemma tricolour_markObjects:
  assumes "tricolour H g" "set as \<subseteq> managed g"
  shows "tricolour H (markObjects as g)"
proof -
  have r: "object_refs H (markObjects as g) = object_refs H g" "table_at (markObjects as g) = table_at g"
    "readWeakMode H (markObjects as g) = readWeakMode H g" by (rule reads_frame, simp)+
  have m: "managed (markObjects as g) = managed g" by (rule managed_frame) simp
  obtain ys where ys: "gc_gray (markObjects as g) = gc_gray g @ ys" "set ys = {b \<in> set as \<inter> managed g. color g b = White}"
    using markObjects_effect(2) by blast
  show ?thesis
    using assms unfolding tricolour_def weak_known_def r m marked_markObjects ys markObjects_effect set_append
    by (auto split: if_splits)
qed

section \<open>One turn of the propagation\<close>

lemma drop_slot:
  assumes "i < length xs"
  shows "set xs = insert (xs ! i) (set (butlast (xs[i := last xs])))" "set (butlast (xs[i := last xs])) \<subseteq> set xs"
proof -
  have ne: "xs \<noteq> []" using assms by auto
  have "set xs \<subseteq> insert (xs ! i) (set (butlast (xs[i := last xs])))"
  proof
    fix x assume "x \<in> set xs"
    then obtain j where j: "j < length xs" "xs ! j = x" by (auto simp: in_set_conv_nth)
    let ?ys = "butlast (xs[i := last xs])"
    show "x \<in> insert (xs ! i) (set ?ys)"
    proof (cases "j = i")
      case False
      define k where "k = (if j = length xs - 1 then i else j)"
      have k: "k < length ?ys" using j(1) assms False by (auto simp: k_def)
      have "?ys ! k = x"
        using k j assms False ne by (simp add: nth_butlast k_def last_conv_nth split: if_splits)
      then have "x \<in> set ?ys" using nth_mem [OF k] by (simp only:)
      then show ?thesis by simp
    qed (use j in simp)
  qed
  moreover show sub: "set (butlast (xs[i := last xs])) \<subseteq> set xs"
    using set_update_subset_insert [of xs i "last xs"] last_in_set [OF ne] by (auto dest: in_set_butlastD)
  ultimately show "set xs = insert (xs ! i) (set (butlast (xs[i := last xs])))" using assms by auto
qed

text \<open>Blackening the object of the last slot scans it and drops the slot.\<close>

lemma traverse_effect:
  assumes "intact H g" "a \<in> managed g"
  shows "marked (traverse H a g) = marked g \<union> set (object_refs H g a)"
    and "color (traverse H a g) b = (if b \<in> set (object_refs H g a) \<and> color g b = White then Gray else color g b)"
    and "\<exists>ys. gc_gray (traverse H a g) = gc_gray g @ ys \<and> set ys = {b \<in> set (object_refs H g a). color g b = White}"
    and "gc_fault (traverse H a g) = gc_fault g"
    and "weak_known H (traverse H a g) a"
    and "weak_known H g b \<Longrightarrow> weak_known H (traverse H a g) b"
    and "set (gc_weakTables g) \<subseteq> set (gc_weakTables (traverse H a g))"
    and "set (gc_weakTables (traverse H a g)) \<subseteq> insert a (set (gc_weakTables g))"
    and "table_at g a = None \<Longrightarrow> gc_weakTables (traverse H a g) = gc_weakTables g"
proof -
  from assms obtain ob where ob: "gh_object g a = Some ob" and sub: "set (object_refs H g a) \<subseteq> managed g"
    by (auto simp: intact_def)
  define g1 where "g1 = (case ob of O_Table t \<Rightarrow> register_weak a (readWeakMode H g t) g | _ \<Rightarrow> g)"
  have t: "traverse H a g = markObjects (object_refs H g a) g1" by (simp add: traverse_eq ob g1_def)
  have f1: "frame g1 = frame g" by (simp add: g1_def split: gc_object.split)
  have c1: "color g1 = color g" "gc_gray g1 = gc_gray g" by (simp_all add: g1_def split: gc_object.split)
  have fa: "gc_fault g1 = gc_fault g" by (simp add: g1_def register_weak_def Let_def setWeakBits_def split: gc_object.split)
  have m1: "managed g1 = managed g" by (rule managed_frame [OF f1])
  have k1: "marked g1 = marked g" by (simp add: marked_def m1 c1)
  note r1 = reads_frame [OF f1]
  show "marked (traverse H a g) = marked g \<union> set (object_refs H g a)"
    unfolding t marked_markObjects using sub by (simp add: m1 k1 Int_absorb2)
  show "color (traverse H a g) b = (if b \<in> set (object_refs H g a) \<and> color g b = White then Gray else color g b)"
    unfolding t markObjects_effect using sub by (auto simp: m1 c1)
  show "\<exists>ys. gc_gray (traverse H a g) = gc_gray g @ ys \<and> set ys = {b \<in> set (object_refs H g a). color g b = White}"
    using markObjects_effect(2) [of "object_refs H g a" g1] sub unfolding t by (auto simp: m1 c1)
  show "gc_fault (traverse H a g) = gc_fault g" unfolding t markObjects_effect using sub by (simp add: m1 fa)
  have w: "gc_weakTables (traverse H a g) = gc_weakTables g1"
    "gb_weakKey (gc_mark (traverse H a g) b) = gb_weakKey (gc_mark g1 b)"
    "gb_weakValue (gc_mark (traverse H a g) b) = gb_weakValue (gc_mark g1 b)" for b
    unfolding t by (simp_all add: markObjects_effect)
  have tr: "table_at (traverse H a g) = table_at g" "readWeakMode H (traverse H a g) = readWeakMode H g"
    by (rule reads_frame, simp)+
  show "set (gc_weakTables g) \<subseteq> set (gc_weakTables (traverse H a g))"
    "set (gc_weakTables (traverse H a g)) \<subseteq> insert a (set (gc_weakTables g))"
    unfolding w g1_def by (auto simp: register_weak_def Let_def setWeakBits_def split: gc_object.splits if_splits)
  show "table_at g a = None \<Longrightarrow> gc_weakTables (traverse H a g) = gc_weakTables g"
    unfolding w g1_def by (auto simp: table_at_def ob split: gc_object.splits)
  show k: "weak_known H (traverse H a g) a"
    unfolding weak_known_def tr w
    by (auto simp: g1_def table_at_def ob register_weak_def Let_def setWeakBits_def prod_eq_iff split: gc_object.splits)
  show "weak_known H (traverse H a g) b" if "weak_known H g b"
  proof (cases "b = a")
    case False
    then show ?thesis using that unfolding weak_known_def tr w
      by (auto simp: g1_def register_weak_def Let_def setWeakBits_def split: gc_object.split)
  qed (use k in simp)
qed

lemma blacken_step:
  assumes T: "tricolour H g" and I: "intact H g" and ne: "gc_gray g \<noteq> []"
  shows "tricolour H (blacken H g)" "marked (blacken H g) = marked g \<union> set (object_refs H g (last (gc_gray g)))"
    and "gc_fault (blacken H g) = gc_fault g"
proof -
  define a where "a = last (gc_gray g)"
  define g1 where "g1 = setColor Black a g"
  define g2 where "g2 = traverse H a g1"
  define i where "i = last_gray g"
  have ai: "gc_gray g ! i = a" "i < length (gc_gray g)" using ne by (simp_all add: a_def i_def last_gray_def last_conv_nth)
  have aM: "a \<in> marked g" "a \<in> managed g" using T last_in_set [OF ne] by (auto simp: tricolour_def a_def marked_def)
  have f1: "frame g1 = frame g" "frame g2 = frame g" by (simp_all add: g1_def g2_def)
  have I1: "intact H g1" using I intact_frame [OF f1(1)] by simp
  note m = managed_frame [OF f1(1)] managed_frame [OF f1(2)]
  note r1 = reads_frame [OF f1(1)] note r2 = reads_frame [OF f1(2)]
  have c1: "color g1 b = (if b = a then Black else color g b)" for b by (simp add: g1_def color_setColor)
  have w1: "weak_known H g b \<Longrightarrow> weak_known H g1 b" for b
    unfolding weak_known_def r1 by (auto simp: g1_def setColor_def)
  have k1: "marked g1 = marked g" using aM by (auto simp: marked_def m c1)
  note E = traverse_effect [OF I1, of a, unfolded m r1 k1, OF aM(2), folded g2_def]
  obtain ys where ys: "gc_gray g2 = gc_gray g @ ys" "set ys = {b \<in> set (object_refs H g a). color g1 b = White}"
    using E(3) by (auto simp: g1_def)
  have bl: "blacken H g = g2\<lparr>gc_gray := butlast ((gc_gray g2)[i := last (gc_gray g2)])\<rparr>"
    by (simp add: blacken_def Let_def g2_def g1_def i_def ai [unfolded i_def])
  have i2: "gc_gray g2 ! i = a" "i < length (gc_gray g2)" using ai by (simp_all add: ys nth_append)
  note D = drop_slot [OF i2(2), unfolded i2(1)]
  let ?r = "blacken H g"
  have G: "set (gc_gray ?r) \<subseteq> set (gc_gray g2)" "set (gc_gray g2) = insert a (set (gc_gray ?r))"
    using D by (simp_all add: bl)
  have rf: "color ?r = color g2" "gc_weakTables ?r = gc_weakTables g2" "gc_mark ?r = gc_mark g2" "gc_fault ?r = gc_fault g2"
    by (simp_all add: bl)
  have fr: "frame ?r = frame g" by simp
  note rr = reads_frame [OF fr]
  have wk: "weak_known H ?r b = weak_known H g2 b" for b unfolding weak_known_def rr r2 rf ..
  have mr: "managed ?r = managed g" by (rule managed_frame [OF fr])
  have kr: "marked ?r = marked g2" by (simp add: marked_def mr m rf)
  show M: "marked ?r = marked g \<union> set (object_refs H g (last (gc_gray g)))" using E(1) by (simp add: kr a_def)
  show "gc_fault ?r = gc_fault g" using E(4) by (simp add: rf g1_def setColor_def)
  have wt: "gc_weakTables g1 = gc_weakTables g" by (simp add: g1_def setColor_def)
  have sub: "set (object_refs H g b) \<subseteq> managed g" if "b \<in> managed g" for b using I that by (auto simp: intact_def)
  show "tricolour H ?r"
    unfolding tricolour_def
  proof (intro conjI ballI impI)
    show "set (gc_gray ?r) \<subseteq> marked ?r"
      using G(1) ys T M sub [OF aM(2)] by (auto simp: tricolour_def a_def)
  next
    fix b assume b: "b \<in> managed ?r" "color ?r b = Gray"
    then have "b \<noteq> a" using E(2) by (auto simp: rf c1 split: if_splits)
    moreover have "b \<in> set (gc_gray g2)"
      using b T E(2) [of b] by (auto simp: rf mr ys tricolour_def c1 split: if_splits)
    ultimately show "b \<in> set (gc_gray ?r)" using G(2) by simp
  next
    fix b assume b: "b \<in> managed ?r" "color ?r b = Black"
    then have c: "b = a \<or> color g b = Black" using E(2) [of b] by (auto simp: rf c1 split: if_splits)
    show "set (object_refs H ?r b) \<subseteq> marked ?r"
      using c b(1) T unfolding rr M by (auto simp: tricolour_def mr a_def)
    show "weak_known H ?r b"
      unfolding wk using c b(1) T E(5) E(6) [OF w1] by (auto simp: tricolour_def mr)
  next
    fix b assume b: "b \<in> set (gc_weakTables ?r)"
    then have "b \<in> set (gc_weakTables g) \<or> b = a \<and> table_at g a \<noteq> None"
      using E(8,9) by (cases "table_at g a") (auto simp: rf wt)
    then show "b \<in> marked ?r" "table_at ?r b \<noteq> None" using T aM unfolding M rr by (auto simp: tricolour_def)
  qed
qed

section \<open>Marking computes the reachable objects\<close>

definition edges :: "hash_env \<Rightarrow> gc \<Rightarrow> (addr \<times> addr) set" where
  "edges H g = {(a, b). a \<in> managed g \<and> b \<in> set (object_refs H g a)}"

definition reach :: "hash_env \<Rightarrow> gc \<Rightarrow> addr set \<Rightarrow> addr set" where
  "reach H g A = (edges H g)\<^sup>* `` A"

lemma reach_frame: "frame g' = frame g \<Longrightarrow> reach H g' = reach H g"
  unfolding reach_def edges_def using managed_frame [of g' g] reads_frame(2) [of g' g H] by simp

lemma reach_add:
  assumes "a \<in> A" "B \<subseteq> set (object_refs H g a)" "a \<in> managed g"
  shows "reach H g (A \<union> B) = reach H g A"
proof -
  have "(a, b) \<in> edges H g" if "b \<in> B" for b using assms that by (auto simp: edges_def)
  then have "reach H g B \<subseteq> reach H g A"
    unfolding reach_def using assms(1) by (blast intro: converse_rtrancl_into_rtrancl)
  then show ?thesis unfolding reach_def by blast
qed

lemma reach_closed:
  assumes "\<And>a b. a \<in> A \<Longrightarrow> (a, b) \<in> edges H g \<Longrightarrow> b \<in> A"
  shows "reach H g A = A"
proof
  show "reach H g A \<subseteq> A"
  proof
    fix x assume "x \<in> reach H g A"
    then obtain a where "a \<in> A" "(a, x) \<in> (edges H g)\<^sup>*" by (auto simp: reach_def)
    from this(2,1) show "x \<in> A" by (induction rule: rtrancl_induct) (auto intro: assms)
  qed
qed (auto simp: reach_def)

lemma propagate_induct:
  "tricolour H g \<Longrightarrow> intact H g \<Longrightarrow>
     tricolour H (propagateMarks H budget g) \<and> reach H g (marked (propagateMarks H budget g)) = reach H g (marked g) \<and>
     marked g \<subseteq> marked (propagateMarks H budget g) \<and> gc_fault (propagateMarks H budget g) = gc_fault g"
proof (induction H budget g rule: propagateMarks.induct)
  case (1 H budget g)
  let ?b = "blacken H g"
  have u: "propagateMarks H budget g = (if gc_gray g = [] \<or> budget = Some 0 then g
      else propagateMarks H (map_option (\<lambda>n. n - 1) budget) ?b)" by (rule propagateMarks.simps)
  show ?case
  proof (cases "gc_gray g = [] \<or> budget = Some 0")
    case False
    then have ne: "gc_gray g \<noteq> []" by simp
    note B = blacken_step [OF 1(2,3) ne]
    have "intact H ?b" using 1(3) intact_frame [OF frame_blacken] by blast
    note IH = 1(1) [OF False B(1) this]
    have "last (gc_gray g) \<in> marked g" using 1(2) last_in_set [OF ne] by (auto simp: tricolour_def)
    then have "reach H g (marked ?b) = reach H g (marked g)"
      unfolding B(2) by (intro reach_add) (auto simp: marked_def)
    then show ?thesis
      unfolding u using False IH B reach_frame [OF frame_blacken, of H] by auto
  qed (simp add: u 1)
qed

lemmas propagate_keeps = propagate_induct [THEN conjunct1] propagate_induct [THEN conjunct2, THEN conjunct1]
  propagate_induct [THEN conjunct2, THEN conjunct2, THEN conjunct1]
  propagate_induct [THEN conjunct2, THEN conjunct2, THEN conjunct2]

lemma propagate_empties: "gc_gray (propagateMarks H None g) = []"
proof (induction "work_left g" arbitrary: g rule: less_induct)
  case less
  then show ?case by (subst propagateMarks.simps) (simp add: blacken_less)
qed

theorem marking_reaches:
  assumes "tricolour H g" "intact H g"
  shows "marked (propagateMarks H None g) = reach H g (marked g)"
proof -
  let ?r = "propagateMarks H None g"
  note K = propagate_keeps [OF assms, of None]
  have fr: "frame ?r = frame g" by simp
  have "color ?r a = Black" if "a \<in> marked ?r" for a
    using that K(1) propagate_empties [of H g] by (cases "color ?r a") (auto simp: tricolour_def marked_def)
  then have "set (object_refs H g a) \<subseteq> marked ?r" if "a \<in> marked ?r" for a
    using that K(1) reads_frame(2) [OF fr, of H] by (auto simp: tricolour_def marked_def)
  then have "reach H g (marked ?r) = marked ?r" by (intro reach_closed) (auto simp: edges_def)
  then show ?thesis using K(2) by simp
qed

end
