(* ===== verification/GCRuns.thy ===== *)
theory GCRuns
  imports GCFull
begin

text \<open>
  Runs of the incremental collector in which an object the program still holds is freed.
\<close>

definition empty_state :: thread_state where
  "empty_state = \<lparr>ts_stack = \<lparr>sk_slots = [], sk_top = 0, sk_policy = None\<rparr>, ts_top = 0, ts_callStack = [], ts_currentCI = 0,
     ts_globalTable = None, ts_openUpvalues = [], ts_debugHook = None, ts_hookActive = False\<rparr>"

definition with_stack :: "lua_value list \<Rightarrow> thread_state \<Rightarrow> thread_state" where
  "with_stack vs ts = ts\<lparr>ts_stack := \<lparr>sk_slots = vs, sk_top = length vs, sk_policy = None\<rparr>, ts_top := length vs\<rparr>"

definition plain_heap :: "gc_object list \<Rightarrow> thread_state list \<Rightarrow> gc" where
  "plain_heap obs sts =
     \<lparr>gh_object = lookup obs, gh_states = sts, gh_pool = [], gh_messages = [], gh_tmname = (\<lambda>_. None),
      gh_metatables = [], gh_mainThread = Some 0, gh_runningThread = None, gc_objects = [0..<length obs],
      gc_mark = (\<lambda>_. \<lparr>gb_color = White, gb_fixed = False, gb_finalized = False, gb_weakKey = False, gb_weakValue = False\<rparr>),
      gc_roots = [], gc_gray = [], gc_weakTables = [], gc_pending = [], gc_precise = True, gc_finalizersRunning = False,
      gc_phase = Ph_Pause, gc_sweepCurrent = None, gc_sweepPrevious = None, gc_collected = 0, gc_lastCollected = 0,
      gc_fault = False\<rparr>"

definition steps :: "hash_env \<Rightarrow> finalizer \<Rightarrow> nat list \<Rightarrow> gc \<Rightarrow> gc" where
  "steps H F = fold (\<lambda>budget g. snd (snd (incrementalStep H F 10 (Some 0) budget g)))"

text \<open>The coroutine takes the value of a field of a global table and clears the field.\<close>

definition co_heap :: gc where
  "co_heap = plain_heap
     [O_Thread \<lparr>to_state = Some 1, to_callerState = None, to_caller = None\<rparr>,
      O_Table (new_table\<lparr>tb_array := [VTable 2]\<rparr>), O_Table new_table]
     [with_stack [VThread 0] (empty_state\<lparr>ts_globalTable := Some 1\<rparr>), with_stack [VNil] empty_state]"

definition co_moves :: "gc \<Rightarrow> gc" where
  "co_moves g =
     (case table_at g 1 of
        Some t \<Rightarrow> g\<lparr>gh_object := (gh_object g)(1 \<mapsto> O_Table (t\<lparr>tb_array := (tb_array t)[0 := VNil]\<rparr>)),
                    gh_states := (gh_states g)[1 := with_stack [getArray t 1] (gh_states g ! 1)]\<rparr>
      | None \<Rightarrow> g)"

lemmas run_defs = steps_def incrementalStep_def beginIncrementalMark_def whiten_def mark_roots_def markObjects_def
  markObject_def setColor_def color_def root_refs_def state_refs_def markWideStackRoots_def window_refs_def scan_top_def
  frames_of_def value_refs_def some_of_def map_filter_def slot_at_def objectFromValue_def all_tms_def lookup_def
  plain_heap_def with_stack_def empty_state_def blacken_def last_gray_def traverse_def markTable_def readWeakMode_def
  setWeakBits_def object_refs_def table_refs_def thread_refs_def markPreciseStackRoots_def new_table_def
  performIncrementalAtomic_def reconcileWeakTableModes_def prepareFinalizers_def prepare_one_def clearWeakTableEntries_def
  sweepStep_def getNext_def after_def unlink_def destroyObject_def without_def isOpenUpvalue_def runFinalizers_def
  resetIncrementalCycle_def


text \<open>The program interns the text of a string that is unreachable but not swept yet.\<close>

definition pool_heap :: gc where
  "pool_heap = (plain_heap [O_String ''abc''] [with_stack [VNil] empty_state])\<lparr>gh_pool := [(''abc'', 0)]\<rparr>"

definition intern_pushed :: "hash_env \<Rightarrow> string \<Rightarrow> addr \<Rightarrow> gc \<Rightarrow> gc" where
  "intern_pushed H str fresh g =
     (case pool_intern H str fresh g of
        (a, g1) \<Rightarrow> g1\<lparr>gh_states := (gh_states g1)[0 := with_stack [VString a] (gh_states g1 ! 0)]\<rparr>)"

lemma pool_to_sweep: "steps H F [1, 1, 1] pool_heap = pool_heap\<lparr>gc_phase := Ph_Sweep, gc_sweepCurrent := Some 0\<rparr>"
  by (simp add: run_defs pool_heap_def propagateMarks.simps) (simp add: fun_eq_iff)

definition pushed_heap :: gc where
  "pushed_heap = plain_heap [] [with_stack [VString 0] empty_state]"

lemma pool_swept:
  "steps H F [1] (intern_pushed H ''abc'' 7 (pool_heap\<lparr>gc_phase := Ph_Sweep, gc_sweepCurrent := Some 0\<rparr>))
     = pushed_heap\<lparr>gc_phase := Ph_Finalize, gc_collected := 1, gh_object := (\<lambda>_. None)\<rparr>"
  by (simp add: run_defs pool_heap_def intern_pushed_def pool_intern_def pushed_heap_def fun_eq_iff)


end
