(* ===== verification/GCProps.thy ===== *)
theory GCProps
  imports GCRuns
begin

text \<open>
  A full collection frees exactly what nothing reaches and leaves a sound heap.
\<close>

section \<open>The state before the sweep\<close>

definition marked_heap :: "hash_env \<Rightarrow> nat option \<Rightarrow> gc \<Rightarrow> gc" where
  "marked_heap H current g =
     propagateMarks H None (prepareFinalizers H
       ((mark_all H current ((resetIncrementalCycle g)\<lparr>gc_precise := False\<rparr>))\<lparr>gc_precise := gc_precise g\<rparr>))"

definition to_finalize :: "hash_env \<Rightarrow> nat option \<Rightarrow> gc \<Rightarrow> addr list" where
  "to_finalize H current g =
     filter (\<lambda>a. finalizable H g a \<and> a \<notin> reach H g (roots_of current g)) (gc_objects g)"

definition reached :: "hash_env \<Rightarrow> nat option \<Rightarrow> gc \<Rightarrow> addr set" where
  "reached H current g = reach H g (roots_of current g \<union> set (to_finalize H current g))"

lemma sound_heap_cong:
  assumes f: "gh_object g' = gh_object g" "gh_states g' = gh_states g" "gh_tmname g' = gh_tmname g"
    "gh_messages g' = gh_messages g" "gh_metatables g' = gh_metatables g" "gh_mainThread g' = gh_mainThread g"
    "gh_runningThread g' = gh_runningThread g" "gh_pool g' = gh_pool g" "gc_objects g' = gc_objects g"
    "gc_roots g' = gc_roots g" "gc_pending g' = gc_pending g" "\<And>a. gb_fixed (gc_mark g' a) = gb_fixed (gc_mark g a)"
    and "sound_heap H current g"
  shows "sound_heap H current g'" "roots_of current g' = roots_of current g" "reach H g' = reach H g"
proof -
  have m: "managed g' = managed g" by (simp add: managed_def f)
  have th: "isThreadObject g' = isThreadObject g" "isOpenUpvalue g' = isOpenUpvalue g"
    by (rule ext, unfold isThreadObject_def f, rule refl) (rule ext, unfold isOpenUpvalue_def f, rule refl)
  have so: "sound_object H current g a" if "a \<in> managed g" for a using assms(13) that by (simp add: sound_heap_def)
  have o: "object_refs H g' a = object_refs H g a" if "a \<in> managed g" for a
    by (rule refs_without_threads [OF f(1-3)]) (use so [OF that] in \<open>simp add: sound_object_def\<close>)
  have h: "held_refs H g' a = held_refs H g a" if "a \<in> managed g" for a
    unfolding held_refs_def f o [OF that] ..
  have s: "state_refs (g'\<lparr>gc_precise := False\<rparr>) = state_refs (g\<lparr>gc_precise := False\<rparr>)"
    by (rule reads_heap(6)) (simp_all add: f)
  have "root_refs (g'\<lparr>gc_precise := False\<rparr>) = root_refs (g\<lparr>gc_precise := False\<rparr>)"
    by (rule ext) (simp add: root_refs_def s f)
  then show r: "roots_of current g' = roots_of current g" by (simp add: roots_of_def f)
  have "sound_object H current g' a" if "a \<in> managed g" for a
    using so [OF that] unfolding sound_object_def r m th f h [OF that] .
  then show "sound_heap H current g'" using assms(13) unfolding sound_heap_def m r f by blast
  show "reach H g' = reach H g" by (rule reach_refs [OF f(9) o])
qed

lemma finalizable_cong:
  assumes "gh_object g' = gh_object g" "gh_tmname g' = gh_tmname g"
    "\<And>a. gb_fixed (gc_mark g' a) = gb_fixed (gc_mark g a)" "\<And>a. gb_finalized (gc_mark g' a) = gb_finalized (gc_mark g a)"
  shows "finalizable H g' = finalizable H g"
proof -
  have t: "table_at g' = table_at g" by (rule ext) (unfold table_at_def assms(1), rule refl)
  have m: "metafield H g' = metafield H g" by (intro ext) (unfold metafield_def t assms(2), rule refl)
  have "getFinalizer H g' = getFinalizer H g" by (rule ext) (unfold getFinalizer_def m, rule refl)
  then show ?thesis by (intro ext) (simp only: finalizable_def assms)
qed

lemma marked_heap_correct:
  assumes S: "sound_heap H current g"
  defines "g2 \<equiv> marked_heap H current g"
  shows "tricolour H g2" "marked g2 = reached H current g" "gc_gray g2 = []" "gc_fault g2 = gc_fault g"
    "gh_object g2 = gh_object g" "gh_states g2 = gh_states g" "gh_tmname g2 = gh_tmname g"
    "gh_messages g2 = gh_messages g" "gh_metatables g2 = gh_metatables g" "gh_mainThread g2 = gh_mainThread g"
    "gh_runningThread g2 = gh_runningThread g" "gh_pool g2 = gh_pool g" "gc_objects g2 = gc_objects g"
    "gc_roots g2 = gc_roots g" "gc_pending g2 = gc_pending g @ to_finalize H current g"
    "gb_fixed (gc_mark g2 a) = gb_fixed (gc_mark g a)"
    "a \<in> managed g \<Longrightarrow> gb_finalized (gc_mark g2 a) \<longleftrightarrow> gb_finalized (gc_mark g a) \<or> a \<in> set (to_finalize H current g)"
    "gc_precise g2 = gc_precise g"
proof -
  define g0 where "g0 = (resetIncrementalCycle g)\<lparr>gc_precise := False\<rparr>"
  define w where "w = (whiten g0)\<lparr>gc_gray := [], gc_weakTables := []\<rparr>"
  define m where "m = mark_all H current g0"
  define g1 where "g1 = m\<lparr>gc_precise := gc_precise g\<rparr>"
  define F where "F = to_finalize H current g"
  have S0: "sound_heap H current g0" "roots_of current g0 = roots_of current g" "reach H g0 = reach H g"
    by (rule sound_heap_cong [OF _ _ _ _ _ _ _ _ _ _ _ _ S]; simp add: g0_def resetIncrementalCycle_def)+
  have "\<not> gc_precise g0" by (simp add: g0_def)
  note M = mark_all_correct [OF S0(1) this, folded m_def w_def]
  note mf = frame_fields [OF M(3)] and mb = frame_bits [OF M(3)]
  have wf: "gh_object w = gh_object g" "gh_states w = gh_states g" "gh_tmname w = gh_tmname g"
    "gh_messages w = gh_messages g" "gh_metatables w = gh_metatables g" "gh_mainThread w = gh_mainThread g"
    "gh_runningThread w = gh_runningThread g" "gh_pool w = gh_pool g" "gc_objects w = gc_objects g"
    "gc_roots w = gc_roots g" "gc_pending w = gc_pending g" "gb_fixed (gc_mark w a) = gb_fixed (gc_mark g a)"
    "gb_finalized (gc_mark w a) = gb_finalized (gc_mark g a)" for a
    by (simp_all add: w_def whiten_def g0_def resetIncrementalCycle_def)
  have f1: "gh_object g1 = gh_object g" "gh_states g1 = gh_states g" "gh_tmname g1 = gh_tmname g"
    "gh_messages g1 = gh_messages g" "gh_metatables g1 = gh_metatables g" "gh_mainThread g1 = gh_mainThread g"
    "gh_runningThread g1 = gh_runningThread g" "gh_pool g1 = gh_pool g" "gc_objects g1 = gc_objects g"
    "gc_roots g1 = gc_roots g" "gc_pending g1 = gc_pending g" "gb_fixed (gc_mark g1 a) = gb_fixed (gc_mark g a)"
    "gb_finalized (gc_mark g1 a) = gb_finalized (gc_mark g a)" for a
    by (simp_all add: g1_def mf mb wf)
  have so: "sound_object H current g a" if "a \<in> managed g" for a using S that by (simp add: sound_heap_def)
  have mg: "managed g1 = managed g" "managed m = managed g" by (simp_all add: managed_def f1 mf wf)
  have rf: "object_refs H g1 a = object_refs H g a" "object_refs H m a = object_refs H g a" if "a \<in> managed g" for a
    using refs_without_threads [OF f1(1-3), of a H] refs_without_threads [of m g a H] so [OF that]
    by (simp_all add: sound_object_def mf wf)
  have k1: "marked g1 = reach H g (roots_of current g)"
  proof -
    have "color g1 = color m" by (simp add: g1_def color_def fun_eq_iff)
    then have "marked g1 = marked m" by (simp add: marked_def mg)
    then show ?thesis using M(2) by (simp add: S0)
  qed
  have t1: "table_at g1 = table_at m" "readWeakMode H g1 = readWeakMode H m"
  proof -
    have o: "gh_object g1 = gh_object m" "gh_tmname g1 = gh_tmname m" by (simp_all add: g1_def)
    show t: "table_at g1 = table_at m" by (rule ext) (unfold table_at_def o, rule refl)
    have x: "metafield H g1 = metafield H m" by (intro ext) (unfold metafield_def t o, rule refl)
    show "readWeakMode H g1 = readWeakMode H m" by (intro ext) (unfold readWeakMode_def x o, rule refl)
  qed
  have T1: "tricolour H g1"
    by (rule tricolour_transfer [OF M(1) _ _ _ _ t1]) (simp_all add: rf mg, simp_all add: g1_def)
  have "distinct (gc_objects g1)" using S by (simp add: f1 sound_heap_def)
  moreover have "mt \<in> managed g1" if "a \<in> managed g1" "gh_object g1 a = Some (O_Userdata u)" "uo_metatable u = Some mt" for a u mt
  proof -
    have "held_refs H g a = userdata_refs u" using that by (simp add: held_refs_def object_refs_def f1)
    then show ?thesis using so [of a] that by (simp add: sound_object_def mg userdata_refs_def some_of_def map_filter_def)
  qed
  ultimately have prep: "prepareFinalizers H g1 = scheduled (filter (\<lambda>a. finalizable H g1 a \<and> color g1 a = White) (gc_objects g1)) g1"
    by (rule prepare_correct)
  have "finalizable H g1 = finalizable H g" by (rule finalizable_cong) (simp_all add: f1)
  then have F: "filter (\<lambda>a. finalizable H g1 a \<and> color g1 a = White) (gc_objects g1) = F"
    unfolding F_def to_finalize_def using k1 by (auto simp: f1 marked_def mg managed_def intro!: filter_cong)
  define s where "s = scheduled F g1"
  have e: "g2 = propagateMarks H None s"
    unfolding g2_def marked_heap_def g0_def [symmetric] m_def [symmetric] g1_def [symmetric] prep F s_def ..
  have Fm: "set F \<subseteq> managed g" by (auto simp: F_def to_finalize_def managed_def)
  have sf: "gh_object s = gh_object g1" "gh_states s = gh_states g1" "gh_tmname s = gh_tmname g1" "gc_precise s = gc_precise g1"
    "gc_objects s = gc_objects g1" "gc_weakTables s = gc_weakTables g1" "gc_gray s = F"
    using M(5) by (simp_all add: s_def scheduled_def g1_def)
  note rs = reads_heap [OF sf(1-4)]
  have cs: "color s a = (if a \<in> set F then Gray else color g1 a)" for a by (simp add: s_def scheduled_def color_def)
  have ms: "managed s = managed g" using mg by (simp add: managed_def sf)
  have ks: "marked s = marked g1 \<union> set F" using Fm by (auto simp: marked_def ms mg cs)
  have gg: "gc_gray g1 = []" using M(5) by (simp add: g1_def)
  have nF: "a \<notin> marked g1" if "a \<in> set F" for a using that by (simp add: k1) (simp add: F_def to_finalize_def)
  have wk: "weak_known H s a = weak_known H g1 a" for a
    unfolding weak_known_def rs sf by (simp add: s_def scheduled_def)
  have Ts: "tricolour H s"
    unfolding tricolour_def
  proof (intro conjI ballI impI)
    fix a assume "a \<in> managed s" "color s a = Black"
    then have "a \<in> managed g1" "color g1 a = Black" by (auto simp: cs ms mg split: if_splits)
    then show "set (object_refs H s a) \<subseteq> marked s" "weak_known H s a" using T1 unfolding ks wk rs by (auto simp: tricolour_def)
  next
    fix a assume "a \<in> managed s" "color s a = Gray"
    then show "a \<in> set (gc_gray s)" using T1 gg by (auto simp: cs ms sf tricolour_def mg split: if_splits)
  qed (use T1 Fm in \<open>auto simp: ks sf rs tricolour_def marked_def mg cs ms\<close>)
  have Is: "intact H s"
    using so object_refs_held [of H g] by (simp add: intact_def ms rs rf sf f1 sound_object_def) blast
  show "tricolour H g2" unfolding e by (rule propagate_keeps(1) [OF Ts Is])
  have rc: "reach H s = reach H g" by (rule reach_refs) (simp_all add: sf f1 rs rf)
  show "marked g2 = reached H current g"
    unfolding e marking_reaches [OF Ts Is] ks k1 rc reached_def F_def by (rule reach_union)
  show "gc_gray g2 = []" unfolding e by (rule propagate_empties)
  show "gc_fault g2 = gc_fault g" unfolding e propagate_keeps(4) [OF Ts Is]
    using M(4) by (simp add: s_def scheduled_def g1_def g0_def resetIncrementalCycle_def)
  have fr: "frame g2 = frame s" by (simp add: e)
  note ef = frame_fields [OF fr] and eb = frame_bits [OF fr]
  show "gh_object g2 = gh_object g" "gh_states g2 = gh_states g" "gh_tmname g2 = gh_tmname g"
    "gh_messages g2 = gh_messages g" "gh_metatables g2 = gh_metatables g" "gh_mainThread g2 = gh_mainThread g"
    "gh_runningThread g2 = gh_runningThread g" "gh_pool g2 = gh_pool g" "gc_objects g2 = gc_objects g"
    "gc_roots g2 = gc_roots g" "gc_pending g2 = gc_pending g @ to_finalize H current g" "gc_precise g2 = gc_precise g"
    unfolding ef by (simp_all add: s_def scheduled_def f1 F_def) (simp add: g1_def)
  show "gb_fixed (gc_mark g2 a) = gb_fixed (gc_mark g a)"
    unfolding eb by (simp add: s_def scheduled_def f1)
  show "gb_finalized (gc_mark g2 a) \<longleftrightarrow> gb_finalized (gc_mark g a) \<or> a \<in> set (to_finalize H current g)" if "a \<in> managed g"
    unfolding eb by (simp add: s_def scheduled_def f1 F_def)
qed

section \<open>A full collection\<close>

definition lost :: "addr set \<Rightarrow> lua_value \<Rightarrow> bool" where
  "lost kept v \<longleftrightarrow> \<not> isString v \<and> (case objectFromValue v of None \<Rightarrow> False | Some a \<Rightarrow> a \<notin> kept)"

definition lost_value :: "addr set \<Rightarrow> addr set \<Rightarrow> lua_value \<Rightarrow> bool" where
  "lost_value kept pending v \<longleftrightarrow> lost kept v \<or> (\<exists>a \<in> pending. v = VUserdata a)"

definition purged :: "hash_env \<Rightarrow> gc \<Rightarrow> addr set \<Rightarrow> addr set \<Rightarrow> addr \<Rightarrow> gc_object option" where
  "purged H g kept pending a =
     (case gh_object g a of
        Some (O_Table t) \<Rightarrow> Some (O_Table (forget (readWeakMode H g t) (lost kept) (lost_value kept pending) t))
      | ob \<Rightarrow> ob)"

definition kept_objects :: "hash_env \<Rightarrow> nat option \<Rightarrow> gc \<Rightarrow> addr set" where
  "kept_objects H current g = reached H current g \<union> {a \<in> managed g. gb_fixed (gc_mark g a)}"

lemma forget_strong: "forget (False, False) lk lv t = t"
  by (simp add: forget_def)

text \<open>What is left after the weak tables have been cleared and the rest swept.\<close>

lemma clear_marked:
  assumes S: "sound_heap H current g"
  defines "g2 \<equiv> marked_heap H current g"
  shows "clearWeakTableEntries g2 = g2\<lparr>gh_object := (\<lambda>a. if a \<in> set (gc_weakTables g2)
      then purged H g (kept_objects H current g) (set (gc_pending g2)) a else gh_object g a)\<rparr>"
    and "a \<in> managed g \<Longrightarrow> a \<notin> set (gc_weakTables g2) \<Longrightarrow> a \<in> kept_objects H current g \<Longrightarrow>
      purged H g (kept_objects H current g) (set (gc_pending g2)) a = gh_object g a"
proof -
  note G = marked_heap_correct [OF S, folded g2_def]
  have mg: "managed g2 = managed g" by (simp add: managed_def G)
  have so: "sound_object H current g a" if "a \<in> managed g" for a using S that by (simp add: sound_heap_def)
  have t2: "table_at g2 = table_at g" by (rule ext) (simp add: table_at_def G)
  have r2: "readWeakMode H g2 = readWeakMode H g"
  proof -
    have "metafield H g2 = metafield H g" by (intro ext) (simp only: metafield_def t2 G)
    then show ?thesis by (intro ext) (simp only: readWeakMode_def G)
  qed
  have black: "color g2 a = Black" if "a \<in> marked g2" for a
    using that G(1,3) by (cases "color g2 a") (auto simp: tricolour_def marked_def)
  have known: "weak_known H g2 a" if "a \<in> marked g2" for a
    using that G(1) black [OF that] by (auto simp: tricolour_def marked_def)
  have wt: "a \<in> marked g2" "table_at g2 a \<noteq> None" if "a \<in> set (gc_weakTables g2)" for a
    using that G(1) by (auto simp: tricolour_def)
  have dead: "isObjectDead g2 a = (a \<notin> kept_objects H current g)" if "a \<in> managed g" for a
  proof -
    have "a \<in> reached H current g \<longleftrightarrow> color g2 a \<noteq> White" using that by (simp add: G(2) [symmetric] marked_def mg)
    then show ?thesis using that by (auto simp: isObjectDead_def kept_objects_def G(16))
  qed
  have vd: "isValueDead g2 v = lost (kept_objects H current g) v"
    if "\<And>a. objectFromValue v = Some a \<Longrightarrow> a \<in> managed g" for v
    using that dead by (auto simp: isValueDead_def lost_def split: option.split)
  have wd: "isWeakValueDead g2 v = lost_value (kept_objects H current g) (set (gc_pending g2)) v"
    if "\<And>a. objectFromValue v = Some a \<Longrightarrow> a \<in> managed g" for v
  proof -
    have e: "isValueDead g2 v = lost (kept_objects H current g) v" by (rule vd [OF that])
    show ?thesis unfolding isWeakValueDead_def lost_value_def e by (cases v) (auto simp: lost_def isString_def)
  qed
  have same: "forget mode (isValueDead g2) (isWeakValueDead g2) t
      = forget mode (lost (kept_objects H current g)) (lost_value (kept_objects H current g) (set (gc_pending g2))) t"
    if "a \<in> managed g" "gh_object g a = Some (O_Table t)" for a t mode
  proof -
    have h: "set (table_refs False False t) \<subseteq> managed g"
      using so [OF that(1)] that(2) by (simp add: sound_object_def held_refs_def)
    show ?thesis
    proof (rule forget_cong)
      fix v assume "v \<in> set (tb_array t)"
      then show "isWeakValueDead g2 v = lost_value (kept_objects H current g) (set (gc_pending g2)) v"
        using h by (intro wd) (auto simp: table_refs_iff subset_iff)
    next
      fix n assume "n \<in> set (tb_nodes t)" "hn_state n = NS_Live"
      then show "isValueDead g2 (hn_key n) = lost (kept_objects H current g) (hn_key n) \<and>
          isWeakValueDead g2 (hn_value n) = lost_value (kept_objects H current g) (set (gc_pending g2)) (hn_value n)"
        using h by (intro conjI vd wd) (auto simp: table_refs_iff subset_iff)
    qed
  qed
  have mode: "readWeakMode H g t = (gb_weakKey (gc_mark g2 a), gb_weakValue (gc_mark g2 a)) \<and>
      (readWeakMode H g t \<noteq> (False, False) \<longrightarrow> a \<in> set (gc_weakTables g2))"
    if "a \<in> marked g2" "gh_object g a = Some (O_Table t)" for a t
  proof -
    have "table_at g2 a = Some t" by (simp add: t2) (simp add: table_at_def that(2))
    then show ?thesis using known [OF that(1)] unfolding weak_known_def r2 by auto
  qed
  have "clearWeakTableEntries g2 = g2\<lparr>gh_object := (\<lambda>a. if a \<in> set (gc_weakTables g2)
      then (case gh_object g2 a of
              Some (O_Table t) \<Rightarrow> Some (O_Table (forget (gb_weakKey (gc_mark g2 a), gb_weakValue (gc_mark g2 a)) (isValueDead g2) (isWeakValueDead g2) t))
            | ob \<Rightarrow> ob) else gh_object g2 a)\<rparr>"
    unfolding clearWeakTableEntries_def
    by (rule clear_fold) (use wt black in \<open>force simp: isObjectDead_def\<close>)
  also have "(\<lambda>a. if a \<in> set (gc_weakTables g2)
      then (case gh_object g2 a of
              Some (O_Table t) \<Rightarrow> Some (O_Table (forget (gb_weakKey (gc_mark g2 a), gb_weakValue (gc_mark g2 a)) (isValueDead g2) (isWeakValueDead g2) t))
            | ob \<Rightarrow> ob) else gh_object g2 a)
    = (\<lambda>a. if a \<in> set (gc_weakTables g2) then purged H g (kept_objects H current g) (set (gc_pending g2)) a else gh_object g a)"
  proof
    fix a
    have am: "a \<in> marked g2 \<and> a \<in> managed g" if "a \<in> set (gc_weakTables g2)" using wt [OF that] by (auto simp: marked_def mg)
    show "(if a \<in> set (gc_weakTables g2)
      then (case gh_object g2 a of
              Some (O_Table t) \<Rightarrow> Some (O_Table (forget (gb_weakKey (gc_mark g2 a), gb_weakValue (gc_mark g2 a)) (isValueDead g2) (isWeakValueDead g2) t))
            | ob \<Rightarrow> ob) else gh_object g2 a)
     = (if a \<in> set (gc_weakTables g2) then purged H g (kept_objects H current g) (set (gc_pending g2)) a else gh_object g a)"
      using am mode [of a] same [of a] by (auto simp: G purged_def split: option.split gc_object.split)
  qed
  finally show "clearWeakTableEntries g2 = g2\<lparr>gh_object := (\<lambda>a. if a \<in> set (gc_weakTables g2)
      then purged H g (kept_objects H current g) (set (gc_pending g2)) a else gh_object g a)\<rparr>" .
  show "purged H g (kept_objects H current g) (set (gc_pending g2)) a = gh_object g a"
    if "a \<in> managed g" "a \<notin> set (gc_weakTables g2)" "a \<in> kept_objects H current g"
  proof (cases "\<exists>t. gh_object g a = Some (O_Table t)")
    case True
    then obtain t where t: "gh_object g a = Some (O_Table t)" ..
    then have "a \<in> marked g2" using that(3) so [OF that(1)] by (auto simp: kept_objects_def G sound_object_def)
    then have "readWeakMode H g t = (False, False)" using mode [of a t] t that(2) by auto
    then show ?thesis by (simp add: purged_def t forget_strong)
  qed (auto simp: purged_def split: option.split gc_object.split)
qed

lemma purged_refs:
  assumes "sound_object H current g a" "a \<in> reached H current g"
    and "purged H g kept pending a = Some (O_Table t)" "reached H current g \<subseteq> kept" "a \<in> managed g"
  shows "set (table_refs False False t) \<subseteq> kept"
proof
  fix b assume b: "b \<in> set (table_refs False False t)"
  obtain t0 where t0: "gh_object g a = Some (O_Table t0)"
    "t = forget (readWeakMode H g t0) (lost kept) (lost_value kept pending) t0"
    using assms(3) by (auto simp: purged_def split: option.splits gc_object.splits)
  obtain k v where m: "readWeakMode H g t0 = (k, v)" by fastforce
  have "table_at g a = Some t0" by (simp add: table_at_def t0)
  then have o: "object_refs H g a = table_refs k v t0" by (simp add: object_refs_table m)
  have step: "c \<in> reached H current g" if "c \<in> set (object_refs H g a)" for c
    using assms(2,5) that unfolding reached_def reach_def edges_def by (auto intro: rtrancl_into_rtrancl)
  from b t0(2) m consider "b \<in> set (table_refs k v t0)"
    | w where "objectFromValue w = Some b" "\<not> isString w" "\<not> lost kept w \<or> \<not> lost_value kept pending w"
    using forget_refs [of b k v "lost kept" "lost_value kept pending" t0] by auto
  then show "b \<in> kept"
  proof cases
    case 1 then show ?thesis using step o assms(4) by auto
  next
    case 2 then show ?thesis by (auto simp: lost_def lost_value_def)
  qed
qed

text \<open>The sweep removes what is not kept; reachable objects are among those kept.\<close>

lemma kept_bounds:
  assumes S: "sound_heap H current g"
  shows "reached H current g \<subseteq> kept_objects H current g" "kept_objects H current g \<subseteq> managed g"
    "roots_of current g \<subseteq> reached H current g" "set (to_finalize H current g) \<subseteq> reached H current g"
proof -
  have "managed (marked_heap H current g) = managed g" by (simp add: managed_def marked_heap_correct [OF S])
  then show "kept_objects H current g \<subseteq> managed g"
    unfolding kept_objects_def marked_heap_correct(2) [OF S, symmetric] by (auto simp: marked_def)
qed (auto simp: kept_objects_def reached_def reach_def)

lemma reached_step:
  "a \<in> reached H current g \<Longrightarrow> a \<in> managed g \<Longrightarrow> set (object_refs H g a) \<subseteq> reached H current g"
  unfolding reached_def reach_def edges_def by (auto intro: rtrancl_into_rtrancl)

lemma sweep_marked:
  assumes S: "sound_heap H current g"
  defines "kept \<equiv> kept_objects H current g" and "g2 \<equiv> clearWeakTableEntries (marked_heap H current g)"
  shows "sweep g2 = (length (filter (\<lambda>a. a \<notin> kept) (gc_objects g)), swept (managed g - kept) (managed g \<inter> kept) g2)"
proof -
  note G = marked_heap_correct [OF S] and CL = clear_marked [OF S]
  have so: "sound_object H current g a" if "a \<in> managed g" for a using S that by (simp add: sound_heap_def)
  have mg: "managed (marked_heap H current g) = managed g" "managed g2 = managed g" by (simp_all add: managed_def g2_def CL G)
  have kind: "isOpenUpvalue g2 a = isOpenUpvalue g a" "isThreadObject g2 a = isThreadObject g a" for a
    by (auto simp: isOpenUpvalue_def isThreadObject_def g2_def CL(1) purged_def split: option.split gc_object.split)
  have mark: "gc_mark g2 = gc_mark (marked_heap H current g)" by (simp add: g2_def CL(1))
  have dm: "doomed g2 a \<longleftrightarrow> a \<notin> kept" if a: "a \<in> managed g" for a
  proof -
    have "a \<in> reached H current g \<longleftrightarrow> color (marked_heap H current g) a \<noteq> White"
      using a by (simp add: G(2) [symmetric] marked_def mg)
    moreover have "a \<in> reached H current g" if "isOpenUpvalue g a"
      using so [OF a] that kept_bounds(3) [OF S] by (auto simp: sound_object_def)
    ultimately show ?thesis using a
      by (auto simp: doomed_def kept_def kept_objects_def kind mark G(16) color_def)
  qed
  have dist: "distinct (gc_objects g2)" using S by (simp add: g2_def CL(1) G sound_heap_def)
  have noth: "\<not> isThreadObject g2 a" if "a \<in> managed g2" for a using so [of a] that by (simp add: mg kind sound_object_def)
  note sw = sweep_correct [OF dist noth]
  have "filter (doomed g2) (gc_objects g2) = filter (\<lambda>a. a \<notin> kept) (gc_objects g)"
  proof -
    have "gc_objects g2 = gc_objects g" by (simp add: g2_def CL(1) G)
    then show ?thesis using dm by (auto simp: managed_def intro: filter_cong)
  qed
  moreover have "{a \<in> managed g2. doomed g2 a} = managed g - kept" "{a \<in> managed g2. \<not> doomed g2 a} = managed g \<inter> kept"
    using dm by (auto simp: mg)
  ultimately show ?thesis using sw by simp
qed

text \<open>The collected heap, field by field.\<close>

lemma collected_heap:
  assumes S: "sound_heap H (Some s) g" and C: "collectMarkSweep H F limit (Some s) False g = (n, raised, g')"
  defines "kept \<equiv> kept_objects H (Some s) g"
  shows "gc_objects g' = filter (\<lambda>a. a \<in> kept) (gc_objects g)" "n = length (filter (\<lambda>a. a \<notin> kept) (gc_objects g))" "\<not> raised"
    "gc_pending g' = gc_pending g @ to_finalize H (Some s) g" "gc_roots g' = gc_roots g"
    "gh_pool g' = filter (\<lambda>(str, a). a \<in> kept) (gh_pool g)" "gc_fault g' = gc_fault g" "gc_phase g' = Ph_Pause"
    "a \<in> managed g \<Longrightarrow> gh_object g' a = (if a \<in> kept then purged H g kept (set (gc_pending g')) a else None)"
    "gh_states g' = gh_states g" "gh_tmname g' = gh_tmname g" "gh_messages g' = gh_messages g"
    "gh_metatables g' = gh_metatables g" "gh_mainThread g' = gh_mainThread g" "gh_runningThread g' = gh_runningThread g"
    "gb_fixed (gc_mark g' b) = gb_fixed (gc_mark g b)"
proof -
  define g2 where "g2 = clearWeakTableEntries (marked_heap H (Some s) g)"
  define D where "D = managed g - kept"
  note G = marked_heap_correct [OF S] and CL = clear_marked [OF S, folded kept_def] and B = kept_bounds [OF S, folded kept_def]
  have sw: "sweep g2 = (length (filter (\<lambda>a. a \<notin> kept) (gc_objects g)), swept D (managed g \<inter> kept) g2)"
    unfolding g2_def D_def kept_def by (rule sweep_marked [OF S])
  have res: "n = length (filter (\<lambda>a. a \<notin> kept) (gc_objects g))" "\<not> raised"
    "g' = resetIncrementalCycle ((swept D (managed g \<inter> kept) g2)\<lparr>gc_weakTables := []\<rparr>)"
    using C sw unfolding g2_def marked_heap_def collectMarkSweep_def Let_def by auto
  show "n = length (filter (\<lambda>a. a \<notin> kept) (gc_objects g))" "\<not> raised" by (rule res)+
  note simps = res(3) resetIncrementalCycle_def swept_def g2_def CL(1) G
  have fil: "filter (\<lambda>a. a \<notin> D) xs = filter (\<lambda>a. a \<in> kept) xs" if "set xs \<subseteq> managed g" for xs
    by (rule filter_cong) (use that in \<open>auto simp: D_def\<close>)
  have keep: "filter (\<lambda>a. a \<notin> D) xs = xs" if "set xs \<subseteq> reached H (Some s) g" for xs
    using that B(1) by (auto simp: filter_id_conv D_def)
  show "gc_objects g' = filter (\<lambda>a. a \<in> kept) (gc_objects g)" by (simp add: simps fil managed_def)
  show "gc_roots g' = gc_roots g" using B(3) by (simp add: simps keep roots_of_def)
  show p: "gc_pending g' = gc_pending g @ to_finalize H (Some s) g"
    using B(3,4) by (simp add: simps keep roots_of_def del: filter_append)
  show "gh_pool g' = filter (\<lambda>(str, a). a \<in> kept) (gh_pool g)"
    using S by (auto simp: simps sound_heap_def D_def intro!: filter_cong)
  show "gh_object g' a = (if a \<in> kept then purged H g kept (set (gc_pending g')) a else None)" if "a \<in> managed g"
    unfolding p using CL(2) [OF that] that by (simp add: simps D_def)
  show "gc_fault g' = gc_fault g" "gc_phase g' = Ph_Pause"
    "gh_states g' = gh_states g" "gh_tmname g' = gh_tmname g" "gh_messages g' = gh_messages g"
    "gh_metatables g' = gh_metatables g" "gh_mainThread g' = gh_mainThread g" "gh_runningThread g' = gh_runningThread g"
    "gb_fixed (gc_mark g' b) = gb_fixed (gc_mark g b)"
    by (simp_all add: simps)
qed

lemma collected_refs:
  assumes S: "sound_heap H (Some s) g" and C: "collectMarkSweep H F limit (Some s) False g = (n, raised, g')"
  defines "kept \<equiv> kept_objects H (Some s) g"
  assumes a: "a \<in> kept"
  shows "set (held_refs H g' a) \<subseteq> kept"
proof -
  note R = collected_heap [OF S C, folded kept_def] and B = kept_bounds [OF S, folded kept_def]
  have am: "a \<in> managed g" using a B by auto
  have s: "sound_object H (Some s) g a" using S am by (simp add: sound_heap_def)
  have ob: "gh_object g' a = purged H g kept (set (gc_pending g')) a" using R(9) [OF am] a by simp
  show ?thesis
  proof (cases "table_at g a")
    case None
    then have same: "gh_object g' a = gh_object g a" unfolding ob by (auto simp: purged_def table_at_def split: option.splits gc_object.splits)
    have n': "table_at g' a = None" using None by (simp add: table_at_def same)
    have "object_refs H g' a = object_refs H g a"
      by (rule refs_of_object [OF same R(10) _ None]) (use s in \<open>simp add: sound_object_def\<close>)
    then have h: "held_refs H g' a = object_refs H g a" by (simp add: held_others [OF n'])
    show ?thesis
    proof (cases "a \<in> reached H (Some s) g")
      case True then show ?thesis using reached_step [OF _ am] B(1) unfolding h by blast
    next
      case False
      then have "\<exists>str. gh_object g a = Some (O_String str)" using a s by (simp add: kept_def kept_objects_def sound_object_def)
      then show ?thesis unfolding h by (auto simp: object_refs_def)
    qed
  next
    case (Some t0)
    then have t0: "gh_object g a = Some (O_Table t0)" by (auto simp: table_at_def split: option.splits gc_object.splits)
    then have ar: "a \<in> reached H (Some s) g" using a s by (auto simp: kept_def kept_objects_def sound_object_def)
    obtain t where t: "purged H g kept (set (gc_pending g')) a = Some (O_Table t)" using t0 by (auto simp: purged_def)
    have "table_at g' a = Some t" using t ob by (simp add: table_at_def)
    then show ?thesis using purged_refs [OF s ar t B(1) am] by (simp add: held_tables)
  qed
qed

lemma collected_roots:
  assumes S: "sound_heap H (Some s) g" and C: "collectMarkSweep H F limit (Some s) False g = (n, raised, g')"
  shows "roots_of (Some s) g' = roots_of (Some s) g \<union> set (to_finalize H (Some s) g)"
proof -
  note R = collected_heap [OF S C]
  have "state_refs (g'\<lparr>gc_precise := False\<rparr>) x = state_refs (g\<lparr>gc_precise := False\<rparr>) x" for x
    by (cases "Option.bind x (lookup (gh_states g))") (simp_all add: state_refs_def R)
  then have "root_refs (g'\<lparr>gc_precise := False\<rparr>) c = root_refs (g\<lparr>gc_precise := False\<rparr>) c" for c
    by (simp add: root_refs_def R)
  then show ?thesis by (auto simp: roots_of_def R)
qed

lemma collected_sound:
  assumes S: "sound_heap H (Some s) g" and C: "collectMarkSweep H F limit (Some s) False g = (n, raised, g')"
  shows "sound_heap H (Some s) g'"
proof -
  define kept where "kept = kept_objects H (Some s) g"
  note R = collected_heap [OF S C, folded kept_def] and B = kept_bounds [OF S, folded kept_def]
  have mg': "managed g' = kept" using B(2) by (auto simp: managed_def R)
  have roots: "roots_of (Some s) g' \<subseteq> managed g'"
    unfolding collected_roots [OF S C] mg' using B by auto
  have "sound_object H (Some s) g' a" if "a \<in> managed g'" for a
  proof -
    have a: "a \<in> kept" "a \<in> managed g" using that B(2) by (auto simp: mg')
    have s: "sound_object H (Some s) g a" using S a by (simp add: sound_heap_def)
    have ob: "gh_object g' a = purged H g kept (set (gc_pending g')) a" using R(9) [OF a(2)] a by simp
    have "isOpenUpvalue g' a = isOpenUpvalue g a" "isThreadObject g' a = isThreadObject g a"
      "gh_object g' a \<noteq> None" "(\<exists>str. gh_object g' a = Some (O_String str)) = (\<exists>str. gh_object g a = Some (O_String str))"
      using s unfolding isOpenUpvalue_def isThreadObject_def ob
      by (auto simp: purged_def sound_object_def split: option.split gc_object.splits)
    then show ?thesis using s collected_refs [OF S C, folded kept_def, OF a(1)]
      unfolding sound_object_def collected_roots [OF S C] mg' R(16) by auto
  qed
  moreover have "a \<in> managed g' \<and> gh_object g' a = Some (O_String str)" if "(str, a) \<in> set (gh_pool g')" for str a
  proof -
    have p: "(str, a) \<in> set (gh_pool g)" "a \<in> kept" using that by (auto simp: R)
    then have "a \<in> managed g" "gh_object g a = Some (O_String str)" using S by (auto simp: sound_heap_def)
    then show ?thesis using p(2) R(9) [of a] by (simp add: mg' purged_def)
  qed
  ultimately show ?thesis using S roots by (auto simp: sound_heap_def R(1))
qed


definition small_heap :: gc where
  "small_heap = plain_heap
     [O_Table (new_table\<lparr>tb_array := [VTable 1, VNil]\<rparr>), O_Table (new_table\<lparr>tb_metatable := Some 0\<rparr>), O_String ''abc'',
      O_Userdata \<lparr>uo_metatable = Some 1, uo_environment = None\<rparr>]
     [with_stack [VTable 0] empty_state]"

definition zero_hash :: hash_env where
  "zero_hash = \<lparr>he_f64 = (\<lambda>_. 0), he_ptr = (\<lambda>_. 0), he_string = (\<lambda>_. 0)\<rparr>"


end
