(* ===== verification/TableLib.thy ===== *)
theory TableLib
  imports StackApi
begin

text \<open>
  The table library (\<^verbatim>\<open>lib/tablelib.cpp\<close>): insertion and removal, concatenation, iteration, packing and
  moving, and the merge sort.

  A function of the library is a program over the state that answers the number of results it pushed. The
  array that is sorted is a list; the two runs that a merge reads are the lists of what is left of them.
\<close>

section \<open>Arguments\<close>

definition bad_table_argument :: "int \<Rightarrow> string \<Rightarrow> string \<Rightarrow> 'a exec" where
  "bad_table_argument idx funcName detail =
     lua_error (''bad argument #'' @ to_string idx @ '' to '' @ [CHR 0x27] @ ''table.'' @ funcName @ [CHR 0x27] @ '' ('' @ detail @ '')'')"

text \<open>\<open>isNumber(idx)\<close> and its like answer \<open>false\<close> for a bad index.\<close>

definition value_or_none :: "int \<Rightarrow> lua_value option exec" where
  "value_or_none idx = catch (bind (at_index idx) (\<lambda>v. ret (Some v))) (\<lambda>_. ret None)"

definition getTableArg :: "int \<Rightarrow> string \<Rightarrow> addr exec" where
  "getTableArg idx funcName =
     bind (value_or_none idx) (\<lambda>v. case v of
         Some (VTable a) \<Rightarrow> ret a
       | _ \<Rightarrow> bad_table_argument idx funcName ''table expected'')"

definition api_isNumber :: "vm_env \<Rightarrow> int \<Rightarrow> bool exec" where
  "api_isNumber E idx =
     bind (value_or_none idx) (\<lambda>v. case v of
         Some (VNumber x) \<Rightarrow> ret True
       | Some (VString a) \<Rightarrow> bind (string_of a) (\<lambda>str. ret (luaStringToNumber E str \<noteq> None))
       | _ \<Rightarrow> ret False)"

definition getTableNumberArg :: "vm_env \<Rightarrow> int \<Rightarrow> string \<Rightarrow> f64 exec" where
  "getTableNumberArg E idx funcName =
     bind (api_isNumber E idx) (\<lambda>ok. if ok then toNumber E idx else bad_table_argument idx funcName ''number expected'')"

definition getFunctionArg :: "int \<Rightarrow> string \<Rightarrow> addr exec" where
  "getFunctionArg idx funcName =
     bind (value_or_none idx) (\<lambda>v. case v of
         Some (VFunction a) \<Rightarrow> ret a
       | _ \<Rightarrow> bad_table_argument idx funcName ''function expected'')"

definition getTableIntegerArg :: "vm_env \<Rightarrow> int \<Rightarrow> string \<Rightarrow> int exec" where
  "getTableIntegerArg E idx funcName =
     bind (getTableNumberArg E idx funcName) (\<lambda>x. case checkedLuaInteger x IC_Truncate of
         Inr i \<Rightarrow> ret i
       | Inl e \<Rightarrow> bad_table_argument idx funcName (case e of
             ICE_NotFinite \<Rightarrow> ''finite number expected'' | ICE_NotIntegral \<Rightarrow> ''integer expected'' | ICE_OutOfRange \<Rightarrow> ''number out of range''))"

definition at_least :: "int \<Rightarrow> string \<Rightarrow> unit exec" where
  "at_least n msg = bind getTop (\<lambda>nargs. if nargs < n then lua_error msg else ret ())"

text \<open>The text of a string or a number.\<close>

definition tableConcatText :: "vm_env \<Rightarrow> lua_value \<Rightarrow> string option exec" where
  "tableConcatText E v =
     (case v of
        VString a \<Rightarrow> bind (string_of a) (\<lambda>str. ret (Some str))
      | VNumber x \<Rightarrow> ret (Some (e_to_chars E x))
      | _ \<Rightarrow> ret None)"

definition to_i32 :: "int \<Rightarrow> int" where
  "to_i32 x = sint (word_of_int x :: 32 word)"

definition getTableLength :: "vm_env \<Rightarrow> addr \<Rightarrow> int exec" where
  "getTableLength E a = bind (table_of a) (\<lambda>t. ret (to_i32 (int (table_length (e_hash E) t))))"

abbreviation int_value :: "int \<Rightarrow> lua_value" where
  "int_value i \<equiv> VNumber (f64_of_int i)"

section \<open>Calls of Lua functions\<close>

fun read_all :: "nat list \<Rightarrow> lua_value list exec" where
  "read_all [] = ret []"
| "read_all (i # is) = bind (of_stack (stack_at i)) (\<lambda>v. bind (read_all is) (\<lambda>vs. ret (v # vs)))"

fun pop_frames :: "nat \<Rightarrow> nat \<Rightarrow> unit exec" where
  "pop_frames savedCI 0 = ret ()"
| "pop_frames savedCI (Suc n) =
     bind (gets vm_currentCI) (\<lambda>ci. if savedCI < ci then seqx popCallInfo (pop_frames savedCI n) else ret ())"

definition refill_stack :: "lua_value list \<Rightarrow> unit exec" where
  "refill_stack savedStack =
     seqx (on_stack (stack_setTop 0)) (seqx (setAbsoluteTop 0) (for_each savedStack pushValue))"

definition restore_frames :: "nat \<Rightarrow> unit exec" where
  "restore_frames savedCI = bind (gets vm_currentCI) (\<lambda>ci. pop_frames savedCI (ci - savedCI))"

text \<open>\<open>while (getCurrentCI() > savedCI) popCallInfo()\<close> runs at most as often as frames lie above.\<close>

definition save_stack :: "vm_env \<Rightarrow> lua_value list exec" where
  "save_stack E =
     bind (gets vm_top) (\<lambda>savedTop.
     seqx (consumeNativeWork E (if savedTop = 0 then 1 else savedTop)) (read_all [0..<savedTop]))"

definition call_with :: "call \<Rightarrow> addr \<Rightarrow> lua_value \<Rightarrow> lua_value \<Rightarrow> unit exec" where
  "call_with call f left right =
     seqx (pushValue (VFunction f)) (seqx (pushValue left) (seqx (pushValue right) (call 2 1)))"

text \<open>\<open>L->error(e.what())\<close>: the error goes on as its message.\<close>

definition raise_again :: "api_env \<Rightarrow> lua_exn \<Rightarrow> 'a exec" where
  "raise_again A e = bind (gets (\<lambda>s. error_text A s e)) (\<lambda>msg. lua_error (c_str msg))"

definition callSortComparator :: "vm_env \<Rightarrow> api_env \<Rightarrow> call \<Rightarrow> addr \<Rightarrow> lua_value \<Rightarrow> lua_value \<Rightarrow> bool exec" where
  "callSortComparator E A call comparator left right =
     bind getTop (\<lambda>originalTop.
     bind (gets vm_currentCI) (\<lambda>savedCI.
     bind (save_stack E) (\<lambda>savedStack.
     seqx (catch (call_with call comparator left right)
             (\<lambda>e. seqx (restore_frames savedCI) (seqx (refill_stack savedStack) (raise_again A e))))
    (bind (toBoolean (-1)) (\<lambda>result. seqx (setTop originalTop) (ret result))))))"

definition callForeachCallback :: "vm_env \<Rightarrow> api_env \<Rightarrow> call \<Rightarrow> addr \<Rightarrow> lua_value \<Rightarrow> lua_value \<Rightarrow> lua_value exec" where
  "callForeachCallback E A call callback key val =
     bind (gets vm_currentCI) (\<lambda>savedCI.
     bind (save_stack E) (\<lambda>savedStack.
     catch (seqx (call_with call callback key val)
           (bind (at_index (-1)) (\<lambda>result. seqx (refill_stack savedStack) (ret result))))
       (\<lambda>e. seqx (restore_frames savedCI) (seqx (refill_stack savedStack) (raise_again A e)))))"

section \<open>Sorting\<close>

definition sort_limit :: "nat \<Rightarrow> unit exec" where
  "sort_limit comparisons =
     bind (gets vm_resources) (\<lambda>rp. if rp_maxSortComparisons rp \<le> comparisons
        then lua_error ''table.sort: comparison limit exceeded'' else ret ())"

definition invalid_order :: "'a exec" where
  "invalid_order = lua_error ''invalid order function for sorting''"

definition sort_less :: "vm_env \<Rightarrow> api_env \<Rightarrow> call \<Rightarrow> addr option \<Rightarrow> lua_value \<Rightarrow> lua_value \<Rightarrow> bool exec" where
  "sort_less E A call comparator left right =
     (case comparator of None \<Rightarrow> lessThan E call left right | Some f \<Rightarrow> callSortComparator E A call f left right)"

definition checkedSortLess ::
  "vm_env \<Rightarrow> api_env \<Rightarrow> call \<Rightarrow> addr option \<Rightarrow> lua_value \<Rightarrow> lua_value \<Rightarrow> nat \<Rightarrow> (bool \<times> nat) exec" where
  "checkedSortLess E A call comparator left right comparisons =
     seqx (sort_limit comparisons)
    (seqx (consumeNativeWork E 1)
    (bind (sort_less E A call comparator left right) (\<lambda>result.
       if result \<and> comparator \<noteq> None then
         seqx (sort_limit (comparisons + 1))
        (seqx (consumeNativeWork E 1)
        (bind (sort_less E A call comparator right left) (\<lambda>reverse.
           if reverse then invalid_order else ret (result, comparisons + 2))))
       else ret (result, comparisons + 1))))"

type_synonym 'a counted = "nat \<Rightarrow> ('a \<times> nat) exec"
type_synonym order_test = "lua_value \<Rightarrow> lua_value \<Rightarrow> bool counted"

text \<open>The first pass compares every value with itself.\<close>

fun check_irreflexive :: "order_test \<Rightarrow> lua_value list \<Rightarrow> unit counted" where
  "check_irreflexive cmp [] n = ret ((), n)"
| "check_irreflexive cmp (v # vs) n =
     bind (cmp v v n) (\<lambda>(r, n1). if r then invalid_order else check_irreflexive cmp vs n1)"

fun merge_runs :: "order_test \<Rightarrow> lua_value list \<Rightarrow> lua_value list \<Rightarrow> lua_value list counted" where
  "merge_runs cmp (x # xs) (y # ys) n =
     bind (cmp y x n) (\<lambda>(r, n1).
       if r then bind (merge_runs cmp (x # xs) ys n1) (\<lambda>(zs, n2). ret (y # zs, n2))
       else bind (merge_runs cmp xs (y # ys) n1) (\<lambda>(zs, n2). ret (x # zs, n2)))"
| "merge_runs cmp xs [] n = ret (xs, n)"
| "merge_runs cmp [] ys n = ret (ys, n)"

text \<open>One pass merges the runs of length \<open>w\<close> in pairs.\<close>

function merge_pass :: "order_test \<Rightarrow> nat \<Rightarrow> lua_value list \<Rightarrow> lua_value list counted" where
  "merge_pass cmp w values n =
     (if values = [] \<or> w = 0 then ret ([], n)
      else bind (merge_runs cmp (take w values) (take w (drop w values)) n) (\<lambda>(run, n1).
           bind (merge_pass cmp w (drop (2 * w) values) n1) (\<lambda>(runs, n2). ret (run @ runs, n2))))"
  by pat_completeness auto
termination by (relation "measure (\<lambda>(cmp, w, values, n). length values)") auto

declare merge_pass.simps [simp del]

function merge_passes :: "order_test \<Rightarrow> nat \<Rightarrow> nat \<Rightarrow> lua_value list \<Rightarrow> lua_value list counted" where
  "merge_passes cmp count w values n =
     (if w < count \<and> 0 < w then
        bind (merge_pass cmp w values n) (\<lambda>(scratch, n1).
          merge_passes cmp count (if count div 2 < w then count else w * 2) scratch n1)
      else ret (values, n))"
  by pat_completeness auto
termination
  by (relation "measure (\<lambda>(cmp, count, w, values, n). count - w)") auto

declare merge_passes.simps [simp del]

definition safeMergeSort :: "vm_env \<Rightarrow> api_env \<Rightarrow> call \<Rightarrow> lua_value list \<Rightarrow> addr option \<Rightarrow> (lua_value list \<times> nat) exec" where
  "safeMergeSort E A call values comparator =
     (let cmp = checkedSortLess E A call comparator in
      if length values < 2 then
        (if length values = 1 \<and> comparator \<noteq> None then
           bind (check_irreflexive cmp values 0) (\<lambda>(_, n). ret (values, n))
         else ret (values, 0))
      else
        bind (if comparator = None then ret ((), 0) else check_irreflexive cmp values 0) (\<lambda>(_, n).
          merge_passes cmp (length values) 1 values n))"

text \<open>The values at the keys \<open>i, i + 1, \<dots>, last\<close>; work is charged in blocks of 256 keys.\<close>

fun sort_read :: "vm_env \<Rightarrow> addr \<Rightarrow> int \<Rightarrow> int list \<Rightarrow> lua_value list exec" where
  "sort_read E t len [] = ret []"
| "sort_read E t len (i # is) =
     seqx (on (i mod 256 = 1) (consumeNativeWork E (nat (min 256 (len - i + 1)))))
    (bind (heap_get E t (int_value i)) (\<lambda>v. bind (sort_read E t len is) (\<lambda>vs. ret (v # vs))))"

fun sort_write :: "vm_env \<Rightarrow> addr \<Rightarrow> int \<Rightarrow> int \<Rightarrow> lua_value list \<Rightarrow> unit exec" where
  "sort_write E t len i [] = ret ()"
| "sort_write E t len i (v # vs) =
     seqx (on (i mod 256 = 0) (consumeNativeWork E (nat (min 256 (len - i)))))
    (seqx (heap_set E t (int_value (i + 1)) v) (sort_write E t len (i + 1) vs))"

definition table_sort :: "vm_env \<Rightarrow> api_env \<Rightarrow> call \<Rightarrow> int exec" where
  "table_sort E A call =
     seqx (at_least 1 ''table.sort: missing table argument'')
    (bind getTop (\<lambda>nargs.
     bind (getTableArg 1 ''sort'') (\<lambda>t.
     bind (getTableLength E t) (\<lambda>len.
     bind (gets vm_resources) (\<lambda>rp.
       if int (rp_maxSortElements rp) < len mod 2 ^ 64 then lua_error ''table.sort: element limit exceeded''
       else bind (if nargs < 2 then ret None
                  else bind (at_index 2) (\<lambda>v. case v of
                       VFunction f \<Rightarrow> ret (Some f) | _ \<Rightarrow> bad_table_argument 2 ''sort'' ''function expected'')) (\<lambda>comparator.
            bind (sort_read E t len [1..len]) (\<lambda>arr.
            bind (safeMergeSort E A call arr comparator) (\<lambda>(sorted, _).
            seqx (sort_write E t len 0 sorted) (ret 0)))))))))"

section \<open>Insertion and removal\<close>

text \<open>\<open>t[i + 1] = t[i]\<close> for the keys of the list, in its order.\<close>

definition move_key :: "vm_env \<Rightarrow> addr \<Rightarrow> int \<Rightarrow> addr \<Rightarrow> int \<Rightarrow> unit exec" where
  "move_key E from i to j = bind (heap_get E from (int_value i)) (\<lambda>v. heap_set E to (int_value j) v)"

definition table_insert :: "vm_env \<Rightarrow> int exec" where
  "table_insert E =
     seqx (at_least 2 ''table.insert: missing arguments'')
    (bind getTop (\<lambda>nargs.
     bind (getTableArg 1 ''insert'') (\<lambda>t.
       if nargs = 2 then
         bind (getTableLength E t) (\<lambda>len.
         seqx (consumeNativeWork E 1)
        (bind (at_index 2) (\<lambda>v.
         seqx (heap_set E t (int_value (len + 1)) v) (ret 0))))
       else
         bind (getTableIntegerArg E 2 ''insert'') (\<lambda>pos.
         bind (at_index 3) (\<lambda>v.
         bind (getTableLength E t) (\<lambda>len.
           if pos < 1 \<or> len + 1 < pos then bad_table_argument 2 ''insert'' ''position out of bounds''
           else seqx (consumeNativeWork E (nat (len - pos + 1) + 1))
               (seqx (for_each (rev [pos..len]) (\<lambda>i. move_key E t i t (i + 1)))
               (seqx (heap_set E t (int_value pos) v) (ret 0)))))))))"

definition table_remove_fn :: "vm_env \<Rightarrow> int exec" where
  "table_remove_fn E =
     seqx (at_least 1 ''table.remove: missing table argument'')
    (bind getTop (\<lambda>nargs.
     bind (getTableArg 1 ''remove'') (\<lambda>t.
     bind (getTableLength E t) (\<lambda>len.
     bind (if 2 \<le> nargs then getTableIntegerArg E 2 ''remove'' else ret len) (\<lambda>pos.
       if pos < 1 \<or> len < pos then seqx (pushValue VNil) (ret 1)
       else bind (heap_get E t (int_value pos)) (\<lambda>removed.
            seqx (consumeNativeWork E (nat (len - pos + 1)))
           (seqx (for_each [pos..len - 1] (\<lambda>i. move_key E t (i + 1) t i))
           (seqx (bind (table_of t) (\<lambda>tb. put_table t (table_remove (e_hash E) tb (int_value len))))
           (seqx (pushValue removed) (ret 1))))))))))"

section \<open>Iteration\<close>

text \<open>\<open>Table::next\<close> on the heap.\<close>

definition heap_next :: "vm_env \<Rightarrow> addr \<Rightarrow> lua_value \<Rightarrow> (lua_value \<times> lua_value) option exec" where
  "heap_next E a key =
     bind (table_of a) (\<lambda>t. case table_next (e_hash E) t key of Inl e \<Rightarrow> throw (table_exn e) | Inr r \<Rightarrow> ret r)"

text \<open>A loop over a table may never end if the callback changes the table: \<open>fuel\<close> bounds its turns.\<close>

fun foreach_loop :: "vm_env \<Rightarrow> (lua_value \<Rightarrow> lua_value \<Rightarrow> 'a option exec) \<Rightarrow> addr \<Rightarrow> nat \<Rightarrow> lua_value \<Rightarrow> 'a option exec" where
  "foreach_loop E body t 0 key = (\<lambda>s. (Timeout, s))"
| "foreach_loop E body t (Suc fuel) key =
     bind (heap_next E t key) (\<lambda>r. case r of
         None \<Rightarrow> ret None
       | Some (nextKey, nextValue) \<Rightarrow>
           seqx (consumeNativeWork E 1)
          (bind (body nextKey nextValue) (\<lambda>x. if x \<noteq> None then ret x else foreach_loop E body t fuel nextKey)))"

definition push_found :: "lua_value option \<Rightarrow> int exec" where
  "push_found x = (case x of None \<Rightarrow> ret 0 | Some v \<Rightarrow> seqx (pushValue v) (ret 1))"

definition stop_unless_nil :: "lua_value exec \<Rightarrow> lua_value option exec" where
  "stop_unless_nil m = bind m (\<lambda>v. ret (if isNil v then None else Some v))"

definition table_foreach :: "vm_env \<Rightarrow> api_env \<Rightarrow> call \<Rightarrow> nat \<Rightarrow> int exec" where
  "table_foreach E A call fuel =
     seqx (at_least 2 ''table.foreach: missing arguments'')
    (bind (getTableArg 1 ''foreach'') (\<lambda>t.
     bind (getFunctionArg 2 ''foreach'') (\<lambda>f.
     bind (foreach_loop E (\<lambda>k v. stop_unless_nil (callForeachCallback E A call f k v)) t fuel VNil) push_found)))"

fun foreachi_loop :: "vm_env \<Rightarrow> (lua_value \<Rightarrow> lua_value \<Rightarrow> 'a option exec) \<Rightarrow> addr \<Rightarrow> int list \<Rightarrow> 'a option exec" where
  "foreachi_loop E body t [] = ret None"
| "foreachi_loop E body t (i # is) =
     seqx (consumeNativeWork E 1)
    (bind (heap_get E t (int_value i)) (\<lambda>v.
     bind (body (int_value i) v) (\<lambda>x. if x \<noteq> None then ret x else foreachi_loop E body t is)))"

definition table_foreachi :: "vm_env \<Rightarrow> api_env \<Rightarrow> call \<Rightarrow> int exec" where
  "table_foreachi E A call =
     seqx (at_least 2 ''table.foreachi: missing arguments'')
    (bind (getTableArg 1 ''foreachi'') (\<lambda>t.
     bind (getFunctionArg 2 ''foreachi'') (\<lambda>f.
     bind (getTableLength E t) (\<lambda>len.
     bind (foreachi_loop E (\<lambda>k v. stop_unless_nil (callForeachCallback E A call f k v)) t [1..len]) push_found))))"

text \<open>The greatest number among the keys, at least 0.\<close>

fun maxn_loop :: "vm_env \<Rightarrow> addr \<Rightarrow> nat \<Rightarrow> lua_value \<Rightarrow> f64 \<Rightarrow> f64 exec" where
  "maxn_loop E t 0 key maxIndex = (\<lambda>s. (Timeout, s))"
| "maxn_loop E t (Suc fuel) key maxIndex =
     bind (heap_next E t key) (\<lambda>r. case r of
         None \<Rightarrow> ret maxIndex
       | Some (nextKey, nextValue) \<Rightarrow>
           seqx (consumeNativeWork E 1)
             (maxn_loop E t fuel nextKey (case nextKey of VNumber n \<Rightarrow> if f64_lt maxIndex n then n else maxIndex | _ \<Rightarrow> maxIndex)))"

definition table_maxn :: "vm_env \<Rightarrow> nat \<Rightarrow> int exec" where
  "table_maxn E fuel =
     seqx (at_least 1 ''table.maxn: missing table argument'')
    (bind (getTableArg 1 ''maxn'') (\<lambda>t.
     bind (maxn_loop E t fuel VNil f64_zero) (\<lambda>m. seqx (pushValue (VNumber m)) (ret 1))))"

definition table_getn :: "vm_env \<Rightarrow> int exec" where
  "table_getn E =
     seqx (at_least 1 ''table.getn: missing table argument'')
    (bind (getTableArg 1 ''getn'') (\<lambda>t.
     bind (getTableLength E t) (\<lambda>len. seqx (pushValue (int_value len)) (ret 1))))"

section \<open>Concatenation, packing and moving\<close>

definition concat_append :: "vm_env \<Rightarrow> string \<Rightarrow> string \<Rightarrow> string exec" where
  "concat_append E result addition =
     bind (gets vm_resources) (\<lambda>rp.
       let outputLimit = min (rp_maxStringBytes rp) (rp_maxOutputBytes rp) in
       if outputLimit < length addition \<or> outputLimit - length addition < length result
       then lua_error ''table.concat: result exceeds resource limit''
       else seqx (consumeNativeWork E (if addition = [] then 1 else length addition)) (ret (result @ addition)))"

fun concat_values :: "vm_env \<Rightarrow> addr \<Rightarrow> string \<Rightarrow> int \<Rightarrow> int list \<Rightarrow> string \<Rightarrow> string exec" where
  "concat_values E t sep i [] result = ret result"
| "concat_values E t sep i (idx # is) result =
     bind (if i < idx \<and> sep \<noteq> [] then concat_append E result sep else ret result) (\<lambda>result1.
     bind (heap_get E t (int_value idx)) (\<lambda>v.
     bind (tableConcatText E v) (\<lambda>txt. case txt of
         None \<Rightarrow> lua_error ''table.concat: invalid value (must be string or number)''
       | Some str \<Rightarrow> bind (concat_append E result1 str) (concat_values E t sep i is))))"

definition table_concat :: "vm_env \<Rightarrow> int exec" where
  "table_concat E =
     seqx (at_least 1 ''table.concat: missing table argument'')
    (bind getTop (\<lambda>nargs.
     bind (getTableArg 1 ''concat'') (\<lambda>t.
     bind (if nargs < 2 then ret []
           else bind (at_index 2) (\<lambda>v. if isNil v then ret []
             else bind (tableConcatText E v) (\<lambda>r. case r of
                 None \<Rightarrow> lua_error ''table.concat: separator must be a string or number'' | Some str \<Rightarrow> ret str))) (\<lambda>sep.
     bind (if 3 \<le> nargs then getTableIntegerArg E 3 ''concat'' else ret 1) (\<lambda>i.
     bind (if 4 \<le> nargs then getTableIntegerArg E 4 ''concat'' else getTableLength E t) (\<lambda>j.
     bind (concat_values E t sep i [i..j] []) (\<lambda>result.
     bind (intern result) (\<lambda>a. seqx (pushValue (VString a)) (ret 1)))))))))"

definition table_pack :: "vm_env \<Rightarrow> int exec" where
  "table_pack E =
     bind getTop (\<lambda>nargs.
     seqx (consumeNativeWork E (if nargs = 0 then 1 else nat nargs))
    (bind create_table (\<lambda>t.
     seqx (for_each [1..nargs] (\<lambda>i. bind (at_index i) (heap_set E t (int_value i))))
    (bind (intern ''n'') (\<lambda>k.
     seqx (heap_set E t (VString k) (int_value nargs))
    (seqx (pushValue (VTable t)) (ret 1)))))))"

definition optIntegerArg :: "vm_env \<Rightarrow> int \<Rightarrow> string \<Rightarrow> int exec \<Rightarrow> int exec" where
  "optIntegerArg E idx funcName dflt =
     bind getTop (\<lambda>nargs. if nargs < idx then dflt
       else bind (at_index idx) (\<lambda>v. if isNil v then dflt else getTableIntegerArg E idx funcName))"

definition table_unpack :: "vm_env \<Rightarrow> int exec" where
  "table_unpack E =
     seqx (at_least 1 ''table.unpack: missing table argument'')
    (bind (getTableArg 1 ''unpack'') (\<lambda>t.
     bind (optIntegerArg E 2 ''unpack'' (ret 1)) (\<lambda>i.
     bind (optIntegerArg E 3 ''unpack'' (getTableLength E t)) (\<lambda>j.
     bind (gets vm_resources) (\<lambda>rp.
       let n = (if i \<le> j then j - i + 1 else 0) in
       if 2147483647 < n \<or> int (rp_maxReturnValues rp) < n then lua_error ''table.unpack: result count exceeds resource limit''
       else bind (gets vm_top) (\<lambda>top.
            if usize_max - top < nat n then throw (X_StackOverflow ''stack overflow: resource stack slot limit exceeded'')
            else seqx (of_stack (checkLimit (top + nat n)))
                (seqx (consumeNativeWork E (if n = 0 then 1 else nat n))
                (seqx (for_each [0..n - 1] (\<lambda>offset. bind (heap_get E t (int_value (i + offset))) pushValue)) (ret n)))))))))"

definition table_move :: "vm_env \<Rightarrow> int exec" where
  "table_move E =
     seqx (at_least 4 ''table.move: missing arguments'')
    (bind getTop (\<lambda>nargs.
     bind (getTableArg 1 ''move'') (\<lambda>a1.
     bind (getTableIntegerArg E 2 ''move'') (\<lambda>f.
     bind (getTableIntegerArg E 3 ''move'') (\<lambda>e.
     bind (getTableIntegerArg E 4 ''move'') (\<lambda>t.
     bind (if nargs < 5 then ret a1 else bind (value_or_none 5) (\<lambda>v. case v of Some (VTable a) \<Rightarrow> ret a | _ \<Rightarrow> ret a1)) (\<lambda>a2.
     seqx (if e < f then ret ()
           else let n = e - f + 1; targetEnd = t + n - 1 in
             if 2147483647 < targetEnd \<or> targetEnd < -2147483648 then lua_error ''table.move: destination range out of bounds''
             else seqx (consumeNativeWork E (nat n))
                 (for_each (if a1 = a2 \<and> f < t \<and> t \<le> e then rev [0..n - 1] else [0..n - 1])
                    (\<lambda>offset. move_key E a1 (f + offset) a2 (t + offset))))
          (seqx (pushValue (VTable a2)) (ret 1)))))))))"

end
