(* ===== verification/TableSort.thy ===== *)
theory TableSort
  imports TableLib TableProps "HOL-Library.Multiset"
begin

text \<open>
  The merge sort of \<open>table.sort\<close>: with a comparator that computes a weak order the result is the stable
  sorted permutation, and a table of numbers is sorted in place.
\<close>

section \<open>Weak orders\<close>

text \<open>What sorting asks of the order \<open>lt\<close> on the values \<open>A\<close>.\<close>

locale weak_order =
  fixes lt :: "lua_value \<Rightarrow> lua_value \<Rightarrow> bool" and A :: "lua_value set"
  assumes lt_asym: "x \<in> A \<Longrightarrow> y \<in> A \<Longrightarrow> lt x y \<Longrightarrow> \<not> lt y x"
    and le_trans: "x \<in> A \<Longrightarrow> y \<in> A \<Longrightarrow> z \<in> A \<Longrightarrow> \<not> lt y x \<Longrightarrow> \<not> lt z y \<Longrightarrow> \<not> lt z x"

fun merge :: "('a \<Rightarrow> 'a \<Rightarrow> bool) \<Rightarrow> 'a list \<Rightarrow> 'a list \<Rightarrow> 'a list" where
  "merge lt (x # xs) (y # ys) = (if lt y x then y # merge lt (x # xs) ys else x # merge lt xs (y # ys))"
| "merge lt xs [] = xs"
| "merge lt [] ys = ys"

function pass :: "('a \<Rightarrow> 'a \<Rightarrow> bool) \<Rightarrow> nat \<Rightarrow> 'a list \<Rightarrow> 'a list" where
  "pass lt w xs =
     (if xs = [] \<or> w = 0 then [] else merge lt (take w xs) (take w (drop w xs)) @ pass lt w (drop (2 * w) xs))"
  by pat_completeness auto
termination by (relation "measure (\<lambda>(lt, w, xs). length xs)") auto

declare pass.simps [simp del]

text \<open>Every run of \<open>w\<close> values is sorted.\<close>

definition ordered :: "('a \<Rightarrow> 'a \<Rightarrow> bool) \<Rightarrow> 'a list \<Rightarrow> bool" where
  "ordered lt xs \<longleftrightarrow> sorted_wrt (\<lambda>x y. \<not> lt y x) xs"

function runs_ordered :: "('a \<Rightarrow> 'a \<Rightarrow> bool) \<Rightarrow> nat \<Rightarrow> 'a list \<Rightarrow> bool" where
  "runs_ordered lt w xs =
     (if xs = [] \<or> w = 0 then True else if ordered lt (take w xs) then runs_ordered lt w (drop w xs) else False)"
  by pat_completeness auto
termination by (relation "measure (\<lambda>(lt, w, xs). length xs)") auto

declare runs_ordered.simps [simp del]

lemma runs_iff: "runs_ordered lt w xs \<longleftrightarrow> xs = [] \<or> w = 0 \<or> ordered lt (take w xs) \<and> runs_ordered lt w (drop w xs)"
  by (subst runs_ordered.simps) simp

lemma runs_Nil [simp]: "runs_ordered lt w []"
  by (subst runs_iff) simp

lemma set_merge [simp]: "set (merge lt xs ys) = set xs \<union> set ys"
  by (induction lt xs ys rule: merge.induct) auto

lemma mset_merge [simp]: "mset (merge lt xs ys) = mset xs + mset ys"
  by (induction lt xs ys rule: merge.induct) auto

lemma length_merge [simp]: "length (merge lt xs ys) = length xs + length ys"
  by (induction lt xs ys rule: merge.induct) auto

lemma take_drop_rest: "take w xs @ take w (drop w xs) @ drop (2 * w) xs = xs"
  by (metis append_take_drop_id drop_drop mult_2)

lemma mset_pass: "0 < w \<Longrightarrow> mset (pass lt w xs) = mset xs"
proof (induction lt w xs rule: pass.induct)
  case (1 lt w xs)
  have "mset xs = mset (take w xs) + mset (take w (drop w xs)) + mset (drop (2 * w) xs)"
    by (metis mset_append take_drop_rest add.assoc)
  then show ?case using 1 by (subst pass.simps) auto
qed

lemma length_pass: "0 < w \<Longrightarrow> length (pass lt w xs) = length xs"
  using mset_pass [of w lt xs] by (metis size_mset)

lemma set_pass: "0 < w \<Longrightarrow> set (pass lt w xs) = set xs"
  using mset_pass [of w lt xs] by (metis set_mset_mset)

lemma two_lists_induct [case_names both right left]:
  "(\<And>x xs y ys. P (x # xs) ys \<Longrightarrow> P xs (y # ys) \<Longrightarrow> P (x # xs) (y # ys)) \<Longrightarrow> (\<And>xs. P xs []) \<Longrightarrow>
     (\<And>y ys. P [] (y # ys)) \<Longrightarrow> P xs ys"
  by induction_schema (pat_completeness, lexicographic_order)

lemma merge_Nil [simp]: "merge lt [] ys = ys"
  by (cases ys) simp_all

lemma ordered_Cons: "ordered lt (x # xs) \<longleftrightarrow> (\<forall>y \<in> set xs. \<not> lt y x) \<and> ordered lt xs"
  by (simp add: ordered_def)

lemma ordered_Nil [simp]: "ordered lt []"
  by (simp add: ordered_def)

context weak_order
begin

lemma ordered_merge:
  "set xs \<union> set ys \<subseteq> A \<Longrightarrow> ordered lt xs \<Longrightarrow> ordered lt ys \<Longrightarrow> ordered lt (merge lt xs ys)"
proof (induction xs ys rule: two_lists_induct)
  case (both x xs y ys)
  show ?case
  proof (cases "lt y x")
    case True
    have "\<not> lt x y" using both.prems True lt_asym [of y x] by auto
    then have "\<not> lt z y" if "z \<in> set xs" for z
      using le_trans [of y x z] that both.prems by (auto simp: ordered_Cons)
    then show ?thesis using True both lt_asym [of y x] by (auto simp: ordered_Cons)
  next
    case False
    then have "\<not> lt z x" if "z \<in> set ys" for z
      using le_trans [of x y z] that both.prems by (auto simp: ordered_Cons)
    then show ?thesis using False both by (auto simp: ordered_Cons)
  qed
qed simp_all

text \<open>Values that are equal for the order keep their order.\<close>

lemma stable_merge:
  "set xs \<union> set ys \<subseteq> A \<Longrightarrow> ordered lt xs \<Longrightarrow> a \<in> A \<Longrightarrow>
     filter (\<lambda>v. \<not> lt v a \<and> \<not> lt a v) (merge lt xs ys) = filter (\<lambda>v. \<not> lt v a \<and> \<not> lt a v) (xs @ ys)"
proof (induction xs ys rule: two_lists_induct)
  case (both x xs y ys)
  show ?case
  proof (cases "lt y x \<and> \<not> lt y a \<and> \<not> lt a y")
    case True
    have no: "lt v a \<or> lt a v" if v: "v \<in> set (x # xs)" for v
    proof (rule ccontr)
      assume n: "\<not> (lt v a \<or> lt a v)"
      have A: "x \<in> A" "y \<in> A" "v \<in> A" "a \<in> A" using both.prems v by auto
      have "\<not> lt v x" using both.prems(2) v lt_asym [of x x] A by (auto simp: ordered_Cons)
      moreover have "\<not> lt a v" "\<not> lt y a" using n True by auto
      ultimately show False using le_trans [of v a y] le_trans [of x v y] A True by blast
    qed
    then have "filter (\<lambda>v. \<not> lt v a \<and> \<not> lt a v) (x # xs) = []" by (auto simp: filter_empty_conv)
    then show ?thesis using True both by (auto simp: ordered_Cons)
  qed (use both in \<open>auto simp: ordered_Cons\<close>)
qed simp_all

lemma ordered_runs:
  "set xs \<subseteq> A \<Longrightarrow> 0 < w \<Longrightarrow> runs_ordered lt w xs \<Longrightarrow> runs_ordered lt (2 * w) (pass lt w xs)"
proof (induction "length xs" arbitrary: xs rule: less_induct)
  case less
  show ?case
  proof (cases "xs = []")
    case True
    then show ?thesis by (subst pass.simps, subst runs_iff) simp
  next
    case False
    let ?m = "merge lt (take w xs) (take w (drop w xs))" let ?r = "pass lt w (drop (2 * w) xs)"
    have u: "pass lt w xs = ?m @ ?r" by (subst pass.simps) (use False less.prems in simp)
    have len: "length ?m = min (2 * w) (length xs)" by simp
    have ro: "ordered lt (take w xs)" "runs_ordered lt w (drop w xs)"
      using less.prems False by (simp_all add: runs_iff [of lt w xs])
    then have ro2: "ordered lt (take w (drop w xs))" "runs_ordered lt w (drop (2 * w) xs)"
      by (cases "drop w xs = []"; use less.prems in \<open>simp add: runs_iff [of lt w "drop w xs"] mult_2\<close>;
          simp?)+
    have sub: "set (take w xs) \<union> set (take w (drop w xs)) \<subseteq> A" "set (drop (2 * w) xs) \<subseteq> A"
      using less.prems(1) by (auto dest: in_set_takeD in_set_dropD)
    have m: "ordered lt ?m" by (rule ordered_merge [OF sub(1) ro(1) ro2(1)])
    have r: "runs_ordered lt (2 * w) ?r" by (rule less.hyps) (use False less.prems sub ro2 in simp_all)
    have lr: "length ?r = length xs - 2 * w" by (simp add: length_pass less.prems(2))
    have "take (2 * w) (?m @ ?r) = ?m \<and> drop (2 * w) (?m @ ?r) = ?r"
    proof (cases "2 * w \<le> length xs")
      case False
      then have "?r = []" using lr by simp
      then show ?thesis using False len by simp
    qed (use len in simp)
    then have t: "take (2 * w) (?m @ ?r) = ?m" "drop (2 * w) (?m @ ?r) = ?r" by blast+
    show ?thesis unfolding u runs_iff [of lt "2 * w" "?m @ ?r"] t using m r by blast
  qed
qed

lemma stable_pass:
  "set xs \<subseteq> A \<Longrightarrow> 0 < w \<Longrightarrow> runs_ordered lt w xs \<Longrightarrow> a \<in> A \<Longrightarrow>
     filter (\<lambda>v. \<not> lt v a \<and> \<not> lt a v) (pass lt w xs) = filter (\<lambda>v. \<not> lt v a \<and> \<not> lt a v) xs"
proof (induction "length xs" arbitrary: xs rule: less_induct)
  case less
  let ?P = "\<lambda>v. \<not> lt v a \<and> \<not> lt a v"
  show ?case
  proof (cases "xs = []")
    case True
    then show ?thesis by (subst pass.simps) simp
  next
    case False
    let ?m = "merge lt (take w xs) (take w (drop w xs))" let ?r = "pass lt w (drop (2 * w) xs)"
    have u: "pass lt w xs = ?m @ ?r" by (subst pass.simps) (use False less.prems in simp)
    have ro: "ordered lt (take w xs)" "runs_ordered lt w (drop w xs)"
      using less.prems False by (simp_all add: runs_iff [of lt w xs])
    then have ro2: "runs_ordered lt w (drop (2 * w) xs)"
      by (cases "drop w xs = []"; use less.prems in \<open>simp add: runs_iff [of lt w "drop w xs"] mult_2\<close>;
          simp?)
    have sub: "set (take w xs) \<union> set (take w (drop w xs)) \<subseteq> A" "set (drop (2 * w) xs) \<subseteq> A"
      using less.prems(1) by (auto dest: in_set_takeD in_set_dropD)
    have "filter ?P ?m = filter ?P (take w xs @ take w (drop w xs))"
      by (rule stable_merge [OF sub(1) ro(1) less.prems(4)])
    moreover have "filter ?P ?r = filter ?P (drop (2 * w) xs)"
      by (rule less.hyps) (use False less.prems sub ro2 in simp_all)
    moreover have "filter ?P xs = filter ?P (take w xs @ take w (drop w xs)) @ filter ?P (drop (2 * w) xs)"
      by (metis append_assoc filter_append take_drop_rest)
    ultimately show ?thesis unfolding u filter_append by simp
  qed
qed

end

text \<open>The loop over the widths.\<close>

function passes :: "('a \<Rightarrow> 'a \<Rightarrow> bool) \<Rightarrow> nat \<Rightarrow> nat \<Rightarrow> 'a list \<Rightarrow> 'a list" where
  "passes lt cnt w xs =
     (if w < cnt \<and> 0 < w then passes lt cnt (if cnt div 2 < w then cnt else w * 2) (pass lt w xs) else xs)"
  by pat_completeness auto
termination by (relation "measure (\<lambda>(lt, cnt, w, xs). cnt - w)") auto

declare passes.simps [simp del]

lemma mset_passes: "mset (passes lt cnt w xs) = mset xs"
proof (induction lt cnt w xs rule: passes.induct)
  case (1 lt cnt w xs)
  then show ?case by (subst passes.simps) (auto simp: mset_pass)
qed

context weak_order
begin

lemma runs_one: "runs_ordered lt 1 xs"
  if "set xs \<subseteq> A" for xs
  using that
proof (induction xs)
  case (Cons x xs)
  then show ?case by (subst runs_iff) (simp add: ordered_def)
qed simp

lemma runs_whole: "length xs \<le> w \<Longrightarrow> 0 < w \<Longrightarrow> runs_ordered lt w xs \<Longrightarrow> ordered lt xs"
  by (cases "xs = []") (auto simp: runs_iff [of lt w xs])

lemma runs_wider: "length xs \<le> v \<Longrightarrow> length xs \<le> w \<Longrightarrow> 0 < v \<Longrightarrow> 0 < w \<Longrightarrow> runs_ordered lt w xs \<Longrightarrow> runs_ordered lt v xs"
  using runs_whole [of xs w] by (subst runs_iff) simp

lemma passes_sort:
  "set xs \<subseteq> A \<Longrightarrow> length xs = cnt \<Longrightarrow> 0 < w \<Longrightarrow> runs_ordered lt w xs \<Longrightarrow> a \<in> A \<Longrightarrow>
     ordered lt (passes lt cnt w xs) \<and>
     filter (\<lambda>v. \<not> lt v a \<and> \<not> lt a v) (passes lt cnt w xs) = filter (\<lambda>v. \<not> lt v a \<and> \<not> lt a v) xs"
proof (induction "cnt - w" arbitrary: w xs rule: less_induct)
  case less
  show ?case
  proof (cases "w < cnt")
    case True
    let ?v = "if cnt div 2 < w then cnt else w * 2"
    have u: "passes lt cnt w xs = passes lt cnt ?v (pass lt w xs)"
      by (subst passes.simps) (use True less.prems in simp)
    have s: "set (pass lt w xs) \<subseteq> A" "length (pass lt w xs) = cnt"
      using less.prems by (simp_all add: set_pass length_pass)
    have r: "runs_ordered lt (2 * w) (pass lt w xs)" by (rule ordered_runs) (use less.prems in simp_all)
    have "runs_ordered lt ?v (pass lt w xs)"
      using r runs_wider [of "pass lt w xs" cnt "2 * w"] s True by (auto simp: mult.commute)
    moreover have v: "0 < ?v" "cnt - ?v < cnt - w" using True less.prems(3) by auto
    ultimately show ?thesis
      unfolding u using less.hyps [OF v(2) s v(1) _ less.prems(5)] stable_pass [OF less.prems(1,3,4,5)] by presburger
  next
    case False
    then have "passes lt cnt w xs = xs" by (subst passes.simps) simp
    then show ?thesis using runs_whole [of xs w] less.prems False by simp
  qed
qed

end

section \<open>The programs compute the functions\<close>

text \<open>Whenever a comparison returns, it answers \<open>lt\<close>.\<close>

definition computes :: "order_test \<Rightarrow> (lua_value \<Rightarrow> lua_value \<Rightarrow> bool) \<Rightarrow> lua_value set \<Rightarrow> bool" where
  "computes cmp lt A \<longleftrightarrow>
     (\<forall>x \<in> A. \<forall>y \<in> A. \<forall>n s r n' s'. cmp x y n s = (Done (r, n'), s') \<longrightarrow> r = lt x y)"

lemma computesD: "computes cmp lt A \<Longrightarrow> x \<in> A \<Longrightarrow> y \<in> A \<Longrightarrow> cmp x y n s = (Done (r, n'), s') \<Longrightarrow> r = lt x y"
  unfolding computes_def by blast

lemma merge_runs_computes:
  "computes cmp lt A \<Longrightarrow> set xs \<union> set ys \<subseteq> A \<Longrightarrow> merge_runs cmp xs ys n s = (Done (zs, n'), s') \<Longrightarrow> zs = merge lt xs ys"
proof (induction cmp xs ys n arbitrary: zs n' s s' rule: merge_runs.induct)
  case (1 cmp x xs y ys n)
  obtain r n1 s1 where c: "cmp y x n s = (Done (r, n1), s1)"
    and k: "(if r then bind (merge_runs cmp (x # xs) ys n1) (\<lambda>(zs, n2). ret (y # zs, n2))
       else bind (merge_runs cmp xs (y # ys) n1) (\<lambda>(zs, n2). ret (x # zs, n2))) s1 = (Done (zs, n'), s')"
    using 1(5) by (auto simp: bind_eq_Done)
  have r: "r = lt y x" by (rule computesD [OF 1(3) _ _ c]) (use 1(4) in auto)
  show ?case
  proof (cases r)
    case True
    then obtain vs n2 where "merge_runs cmp (x # xs) ys n1 s1 = (Done (vs, n2), s')" "zs = y # vs"
      using k by (auto simp: bind_eq_Done ret_def)
    then show ?thesis using 1(1) [OF True 1(3)] 1(4) r True by auto
  next
    case False
    then obtain vs n2 where "merge_runs cmp xs (y # ys) n1 s1 = (Done (vs, n2), s')" "zs = x # vs"
      using k by (auto simp: bind_eq_Done ret_def)
    then show ?thesis using 1(2) [OF False 1(3)] 1(4) r False by auto
  qed
qed (auto simp: ret_def)

lemma merge_pass_computes:
  "computes cmp lt A \<Longrightarrow> set xs \<subseteq> A \<Longrightarrow> merge_pass cmp w xs n s = (Done (zs, n'), s') \<Longrightarrow> zs = pass lt w xs"
proof (induction cmp w xs n arbitrary: zs n' s s' rule: merge_pass.induct)
  case (1 cmp w xs n)
  show ?case
  proof (cases "xs = [] \<or> w = 0")
    case True
    then show ?thesis using 1(4) by (subst pass.simps) (simp add: merge_pass.simps [of cmp w xs] ret_def)
  next
    case False
    then obtain run n1 s1 runs n2 where r: "merge_runs cmp (take w xs) (take w (drop w xs)) n s = (Done (run, n1), s1)"
      "merge_pass cmp w (drop (2 * w) xs) n1 s1 = (Done (runs, n2), s')" "zs = run @ runs"
      using 1(4) by (auto simp: merge_pass.simps [of cmp w xs] bind_eq_Done ret_def)
    have sub: "set (take w xs) \<union> set (take w (drop w xs)) \<subseteq> A" "set (drop (2 * w) xs) \<subseteq> A"
      using 1(3) by (auto dest: in_set_takeD in_set_dropD)
    have "run = merge lt (take w xs) (take w (drop w xs))" by (rule merge_runs_computes [OF 1(2) sub(1) r(1)])
    moreover have "runs = pass lt w (drop (2 * w) xs)" by (rule 1(1) [OF False 1(2) sub(2) r(2)])
    ultimately show ?thesis using False r(3) by (simp add: pass.simps [of lt w xs])
  qed
qed

lemma merge_passes_computes:
  "computes cmp lt A \<Longrightarrow> set xs \<subseteq> A \<Longrightarrow> merge_passes cmp cnt w xs n s = (Done (zs, n'), s') \<Longrightarrow> zs = passes lt cnt w xs"
proof (induction cmp cnt w xs n arbitrary: zs n' s s' rule: merge_passes.induct)
  case (1 cmp cnt w xs n)
  show ?case
  proof (cases "w < cnt \<and> 0 < w")
    case False
    show ?thesis using 1(4) unfolding merge_passes.simps [of cmp cnt w xs] passes.simps [of lt cnt w xs] if_not_P [OF False] by (simp add: ret_def)
  next
    case True
    then obtain ys n1 s1 where r: "merge_pass cmp w xs n s = (Done (ys, n1), s1)"
      "merge_passes cmp cnt (if cnt div 2 < w then cnt else w * 2) ys n1 s1 = (Done (zs, n'), s')"
      using 1(4) unfolding merge_passes.simps [of cmp cnt w xs] by (auto simp: bind_eq_Done)
    have ys: "ys = pass lt w xs" by (rule merge_pass_computes [OF 1(2,3) r(1)])
    have "zs = passes lt cnt (if cnt div 2 < w then cnt else w * 2) ys"
      by (rule 1(1) [OF True 1(2) _ r(2)]) (use True 1(3) in \<open>simp add: ys set_pass\<close>)
    then show ?thesis unfolding passes.simps [of lt cnt w xs] if_P [OF True] by (simp add: ys)
  qed
qed

lemma checked_computes:
  assumes "\<And>x y s b s'. x \<in> B \<Longrightarrow> y \<in> B \<Longrightarrow> sort_less E A call comparator x y s = (Done b, s') \<Longrightarrow> b = lt x y"
  shows "computes (checkedSortLess E A call comparator) lt B"
proof -
  have "r = lt x y" if "x \<in> B" "y \<in> B" and c: "checkedSortLess E A call comparator x y n s = (Done (r, n'), s')" for x y n s r n' s'
  proof -
    obtain b s1 s2 where b: "sort_less E A call comparator x y s1 = (Done b, s2)" "r = b"
      using c unfolding checkedSortLess_def
      by (auto simp: bind_eq_Done ret_def invalid_order_def lua_error_def throw_def split: if_splits)
    then show ?thesis using assms [OF that(1,2) b(1)] by simp
  qed
  then show ?thesis unfolding computes_def by blast
qed

text \<open>C31. The merge sort of \<open>table.sort\<close> returns the stable sorted permutation of the values, for every order function
  that, whenever it returns, answers a strict weak order: what it does to the state besides does not matter.\<close>

theorem sort_is_stable_sort:
  assumes "safeMergeSort E A call values comparator s = (Done (out, n), s')"
    and "weak_order lt (set values)"
    and "\<And>x y s b s'. x \<in> set values \<Longrightarrow> y \<in> set values \<Longrightarrow>
           sort_less E A call comparator x y s = (Done b, s') \<Longrightarrow> b = lt x y"
  shows "mset out = mset values \<and> sorted_wrt (\<lambda>x y. \<not> lt y x) out \<and>
    (\<forall>v \<in> set values. filter (\<lambda>w. \<not> lt w v \<and> \<not> lt v w) out = filter (\<lambda>w. \<not> lt w v \<and> \<not> lt v w) values)"
proof (cases "length values < 2")
  case True
  then have "out = values" using assms(1)
    by (auto simp: safeMergeSort_def Let_def bind_eq_Done ret_def split: if_splits)
  moreover have "sorted_wrt (\<lambda>x y. \<not> lt y x) values" using True by (cases "values") (auto simp: less_Suc_eq)
  ultimately show ?thesis by simp
next
  case False
  let ?cmp = "checkedSortLess E A call comparator"
  have c: "computes ?cmp lt (set values)" by (rule checked_computes [OF assms(3)])
  obtain n1 s1 where "merge_passes ?cmp (length values) 1 values n1 s1 = (Done (out, n), s')"
    using assms(1) False by (auto simp: safeMergeSort_def Let_def bind_eq_Done)
  then have out: "out = passes lt (length values) 1 values" using merge_passes_computes [OF c] by simp
  have p: "ordered lt out \<and> filter (\<lambda>w. \<not> lt w v \<and> \<not> lt v w) out = filter (\<lambda>w. \<not> lt w v \<and> \<not> lt v w) values"
    if "v \<in> set values" for v
    unfolding out using weak_order.passes_sort [OF assms(2) subset_refl refl, of 1 v]
      weak_order.runs_one [OF assms(2) subset_refl] that by simp
  obtain v where "v \<in> set values" using False by (cases "values") auto
  then show ?thesis using p by (simp add: out mset_passes ordered_def)
qed

section \<open>Sorting numbers\<close>

fun number_less :: "lua_value \<Rightarrow> lua_value \<Rightarrow> bool" where
  "number_less (VNumber x) (VNumber y) = f64_lt x y"
| "number_less _ _ = False"

definition real_numbers :: "lua_value set" where
  "real_numbers = {VNumber x | x. x \<noteq> F_NaN}"

lemma f64_lt_eq: "f64_lt z x \<Longrightarrow> f64_eq x y \<Longrightarrow> f64_lt z y"
proof (cases x; cases y; cases z)
  fix s m e s' m' e' s'' m'' e''
  assume xyz: "x = F_Fin s m e" "y = F_Fin s' m' e'" "z = F_Fin s'' m'' e''" and "f64_lt z x" "f64_eq x y"
  define E where "E = min e (min e' e'')"
  have "E \<le> e" "E \<le> e'" "E \<le> e''" by (auto simp: E_def)
  then show "f64_lt z y"
    using \<open>f64_lt z x\<close> \<open>f64_eq x y\<close> unfolding xyz
    by (simp add: f64_lt_fval [where E = E] f64_eq_fval [where E = E] del: f64_lt.simps f64_eq.simps)
qed auto

interpretation numbers: weak_order number_less real_numbers
proof
  fix x y :: lua_value
  assume "x \<in> real_numbers" "y \<in> real_numbers" "number_less x y"
  then obtain a b where "x = VNumber a" "y = VNumber b" "f64_lt a b" by (auto simp: real_numbers_def)
  then show "\<not> number_less y x" using f64_lt_trans [of a b a] by auto
next
  fix x y z :: lua_value
  assume A: "x \<in> real_numbers" "y \<in> real_numbers" "z \<in> real_numbers" and n: "\<not> number_less y x" "\<not> number_less z y"
  then obtain a b c where abc: "x = VNumber a" "y = VNumber b" "z = VNumber c" "a \<noteq> F_NaN" "b \<noteq> F_NaN" "c \<noteq> F_NaN"
    by (auto simp: real_numbers_def)
  show "\<not> number_less z x"
  proof
    assume "number_less z x"
    then have "f64_lt c a" by (simp add: abc)
    moreover have "f64_lt a b \<or> f64_eq a b" using f64_trichotomy [of a b] n abc by auto
    ultimately have "f64_lt c b" using f64_lt_trans f64_lt_eq by blast
    then show False using n(2) abc by simp
  qed
qed

text \<open>A policy that refuses nothing: charging work only reads the clock.\<close>

definition unmetered :: "vm \<Rightarrow> bool" where
  "unmetered s \<longleftrightarrow> \<not> xp_cancelRequested (vm_policy s) \<and> xp_deadline (vm_policy s) = time_point_max \<and>
     xp_remainingNativeWork (vm_policy s) = Unlimited"

lemma work_free: "unmetered s \<Longrightarrow> consumeNativeWork E n s = (Done (), s\<lparr>vm_polls := vm_polls s + 1\<rparr>)"
  by (simp add: consumeNativeWork_def xp_consumeNativeWork_def xp_pollStop_def unmetered_def Let_def)

lemma unmetered_more [simp]:
  "unmetered (s\<lparr>vm_polls := p\<rparr>) = unmetered s" "unmetered (s\<lparr>vm_tables := ts\<rparr>) = unmetered s"
  by (simp_all add: unmetered_def)

lemma number_test:
  assumes "unmetered s" "n < rp_maxSortComparisons (vm_resources s)" "x \<in> real_numbers" "y \<in> real_numbers"
  shows "checkedSortLess E A call None x y n s = (Done (number_less x y, n + 1), s\<lparr>vm_polls := vm_polls s + 1\<rparr>)"
  using assms
  by (auto simp: checkedSortLess_def sort_limit_def sort_less_def lessThan_def real_numbers_def getType_def bind_def gets_def
      ret_def work_free)

text \<open>With room for the comparisons the sort of numbers returns.\<close>

lemma merge_runs_returns:
  assumes "unmetered s" "set xs \<union> set ys \<subseteq> real_numbers" "n + length xs + length ys \<le> rp_maxSortComparisons (vm_resources s)"
  shows "\<exists>n' p. merge_runs (checkedSortLess E A call None) xs ys n s = (Done (merge number_less xs ys, n'), s\<lparr>vm_polls := p\<rparr>) \<and>
    n' \<le> n + length xs + length ys"
  using assms
proof (induction xs ys arbitrary: n s rule: two_lists_induct)
  case (both x xs y ys)
  let ?s = "s\<lparr>vm_polls := vm_polls s + 1\<rparr>"
  have t: "checkedSortLess E A call None y x n s = (Done (number_less y x, n + 1), ?s)"
    by (rule number_test) (use both.prems in auto)
  show ?case
  proof (cases "number_less y x")
    case True
    obtain n' p where "merge_runs (checkedSortLess E A call None) (x # xs) ys (n + 1) ?s = (Done (merge number_less (x # xs) ys, n'), s\<lparr>vm_polls := p\<rparr>)"
      "n' \<le> n + 1 + length (x # xs) + length ys"
      using both.IH(1) [of ?s "n + 1"] both.prems by auto
    then show ?thesis using True t by (auto simp: bind_def ret_def)
  next
    case False
    obtain n' p where "merge_runs (checkedSortLess E A call None) xs (y # ys) (n + 1) ?s = (Done (merge number_less xs (y # ys), n'), s\<lparr>vm_polls := p\<rparr>)"
      "n' \<le> n + 1 + length xs + length (y # ys)"
      using both.IH(2) [of ?s "n + 1"] both.prems by auto
    then show ?thesis using False t by (auto simp: bind_def ret_def)
  qed
next
  case (right xs)
  show ?case by (cases xs) (auto simp: ret_def intro!: exI [of _ "vm_polls s"])
next
  case (left y ys)
  show ?case by (auto simp: ret_def intro!: exI [of _ "vm_polls s"])
qed

lemma merge_pass_returns:
  assumes "unmetered s" "set xs \<subseteq> real_numbers" "0 < w" "n + length xs \<le> rp_maxSortComparisons (vm_resources s)"
  shows "\<exists>n' p. merge_pass (checkedSortLess E A call None) w xs n s = (Done (pass number_less w xs, n'), s\<lparr>vm_polls := p\<rparr>) \<and>
    n' \<le> n + length xs"
  using assms
proof (induction "length xs" arbitrary: xs n s rule: less_induct)
  case less
  show ?case
  proof (cases "xs = []")
    case True
    then show ?thesis by (auto simp: merge_pass.simps [of _ w "[]"] pass.simps [of _ w "[]"] ret_def intro!: exI [of _ "vm_polls s"])
  next
    case False
    let ?cmp = "checkedSortLess E A call None" let ?l = "take w xs" let ?r = "take w (drop w xs)" let ?t = "drop (2 * w) xs"
    have sub: "set ?l \<union> set ?r \<subseteq> real_numbers" "set ?t \<subseteq> real_numbers"
      using less.prems(2) by (auto dest: in_set_takeD in_set_dropD)
    have len: "length ?l + length ?r + length ?t = length xs"
      using arg_cong [OF take_drop_rest [of w xs], of length] by (simp only: length_append)
    obtain n1 p1 where 1: "merge_runs ?cmp ?l ?r n s = (Done (merge number_less ?l ?r, n1), s\<lparr>vm_polls := p1\<rparr>)"
      "n1 \<le> n + length ?l + length ?r"
      using merge_runs_returns [OF less.prems(1) sub(1), of n E A call] less.prems(4) len by auto
    obtain n2 p2 where 2: "merge_pass ?cmp w ?t n1 (s\<lparr>vm_polls := p1\<rparr>) = (Done (pass number_less w ?t, n2), s\<lparr>vm_polls := p2\<rparr>)"
      "n2 \<le> n1 + length ?t"
      using less.hyps [of ?t "s\<lparr>vm_polls := p1\<rparr>" n1] less.prems sub False 1(2) len by auto
    have "n2 \<le> n + length xs" using 1(2) 2(2) len by simp
    then show ?thesis
      using 1(1) 2(1) False less.prems(3)
      by (intro exI [of _ n2] exI [of _ p2]) (simp add: merge_pass.simps [of ?cmp w xs] pass.simps [of number_less w xs] bind_def ret_def)
  qed
qed

lemma merge_passes_returns:
  assumes "unmetered s" "set xs \<subseteq> real_numbers" "0 < w" "length xs = cnt" "cnt \<le> w * 2 ^ k"
    "n + k * cnt \<le> rp_maxSortComparisons (vm_resources s)"
  shows "\<exists>n' p. merge_passes (checkedSortLess E A call None) cnt w xs n s = (Done (passes number_less cnt w xs, n'), s\<lparr>vm_polls := p\<rparr>)"
  using assms
proof (induction k arbitrary: w xs n s)
  case 0
  then show ?case
    by (auto simp: merge_passes.simps [of _ cnt w xs] passes.simps [of _ cnt w xs] ret_def intro!: exI [of _ "vm_polls s"])
next
  case (Suc k)
  let ?cmp = "checkedSortLess E A call None"
  show ?case
  proof (cases "w < cnt")
    case False
    then show ?thesis
      by (auto simp: merge_passes.simps [of _ cnt w xs] passes.simps [of _ cnt w xs] ret_def intro!: exI [of _ "vm_polls s"])
  next
    case True
    let ?v = "if cnt div 2 < w then cnt else w * 2"
    obtain n1 p1 where 1: "merge_pass ?cmp w xs n s = (Done (pass number_less w xs, n1), s\<lparr>vm_polls := p1\<rparr>)" "n1 \<le> n + cnt"
      using merge_pass_returns [OF Suc.prems(1-3), of n E A call] Suc.prems(4,6) by auto
    have "\<exists>n' p. merge_passes ?cmp cnt ?v (pass number_less w xs) n1 (s\<lparr>vm_polls := p1\<rparr>)
        = (Done (passes number_less cnt ?v (pass number_less w xs), n'), s\<lparr>vm_polls := p1, vm_polls := p\<rparr>)"
      by (rule Suc.IH) (use Suc.prems 1(2) True in \<open>auto simp: set_pass length_pass mult.assoc\<close>)
    then show ?thesis
      using 1(1) True Suc.prems(3)
      by (simp add: merge_passes.simps [of ?cmp cnt w xs] passes.simps [of number_less cnt w xs] bind_def)
  qed
qed

section \<open>The table is sorted in place\<close>

lemma sort_read_returns:
  assumes "unmetered s" "lookup (vm_tables s) a = Some t"
  shows "\<exists>p. sort_read E a len is s = (Done (map (\<lambda>i. table_get (e_hash E) t (int_key i)) is), s\<lparr>vm_polls := p\<rparr>)"
  using assms
proof (induction "is" arbitrary: s)
  case Nil
  show ?case by (auto simp: ret_def intro!: exI [of _ "vm_polls s"])
next
  case (Cons i "is")
  define s1 where "s1 = (if i mod 256 = 1 then s\<lparr>vm_polls := vm_polls s + 1\<rparr> else s)"
  have o: "on (i mod 256 = 1) (consumeNativeWork E (nat (min 256 (len - i + 1)))) s = (Done (), s1)"
    using Cons.prems(1) by (simp add: on_def s1_def work_free ret_def)
  have "unmetered s1" "lookup (vm_tables s1) a = Some t" using Cons.prems by (simp_all add: s1_def)
  moreover from this Cons.IH obtain p
    where "sort_read E a len is s1 = (Done (map (\<lambda>i. table_get (e_hash E) t (int_key i)) is), s1\<lparr>vm_polls := p\<rparr>)" by blast
  ultimately show ?case
    using o by (intro exI [of _ p]) (simp add: bind_def heap_get_def table_of_def gets_def deref_def ret_def s1_def)
qed

lemma sort_write_returns:
  assumes "unmetered s" "lookup (vm_tables s) a = Some t" "hash_env_ok (e_hash E)" "policy_ok (vm_resources s)"
    "table_wf (e_hash E) (vm_resources s) t" "0 \<le> i" "i + int (length vs) \<le> i32_max"
    "\<And>j. i < j \<Longrightarrow> j \<le> i + int (length vs) \<Longrightarrow> table_get (e_hash E) t (int_key j) \<noteq> VNil" "VNil \<notin> set vs"
  shows "\<exists>t' p. sort_write E a len i vs s = (Done (), s\<lparr>vm_tables := (vm_tables s)[a := t'], vm_polls := p\<rparr>) \<and>
    table_wf (e_hash E) (vm_resources s) t' \<and>
    (\<forall>j < length vs. table_get (e_hash E) t' (int_key (i + 1 + int j)) = vs ! j) \<and>
    (\<forall>key. value_wf key \<longrightarrow> (\<forall>j < length vs. \<not> value_eq (int_key (i + 1 + int j)) key) \<longrightarrow>
       table_get (e_hash E) t' key = table_get (e_hash E) t key)"
  using assms
proof (induction vs arbitrary: i t s)
  case Nil
  have "(vm_tables s)[a := t] = vm_tables s" using Nil.prems(2) by (auto simp: lookup_def split: if_splits)
  then show ?case using Nil.prems by (intro exI [of _ t] exI [of _ "vm_polls s"]) (simp add: ret_def)
next
  case (Cons v vs)
  let ?H = "e_hash E" let ?rp = "vm_resources s"
  define s1 where "s1 = (if i mod 256 = 0 then s\<lparr>vm_polls := vm_polls s + 1\<rparr> else s)"
  have o: "on (i mod 256 = 0) (consumeNativeWork E (nat (min 256 (len - i)))) s = (Done (), s1)"
    using Cons.prems(1) by (simp add: on_def s1_def work_free ret_def)
  obtain t1 where t1: "table_set ?H ?rp t (int_key (i + 1)) v = Some (Inr t1)" "table_wf ?H ?rp t1"
    "\<And>key. value_wf key \<Longrightarrow> table_get ?H t1 key = (if value_eq (int_key (i + 1)) key then v else table_get ?H t key)"
    using table_set_spec [OF Cons.prems(3,4,5) int_key_valid, of "i + 1" v] Cons.prems(8) [of "i + 1"] by auto
  define s2 where "s2 = s1\<lparr>vm_tables := (vm_tables s1)[a := t1]\<rparr>"
  have al: "a < length (vm_tables s)" using Cons.prems(2) by (simp add: lookup_def split: if_splits)
  have w: "heap_set E a (int_key (i + 1)) v s1 = (Done (), s2)"
    using t1(1) Cons.prems(2) by (simp add: heap_set_def bind_def table_of_def gets_def deref_def ret_def put_table_def modify_def s2_def s1_def)
  have k: "value_eq (int_key (i + 1)) (int_key j) = (j = i + 1)" if "i < j" "j \<le> i + int (length (v # vs))" for j
    using int_key_inject [of "i + 1" j] that Cons.prems(6,7) by auto
  have r: "vm_resources s2 = ?rp" by (simp add: s2_def s1_def)
  have "\<exists>t' p. sort_write E a len (i + 1) vs s2 = (Done (), s2\<lparr>vm_tables := (vm_tables s2)[a := t'], vm_polls := p\<rparr>) \<and>
    table_wf ?H ?rp t' \<and>
    (\<forall>j < length vs. table_get ?H t' (int_key (i + 1 + 1 + int j)) = vs ! j) \<and>
    (\<forall>key. value_wf key \<longrightarrow> (\<forall>j < length vs. \<not> value_eq (int_key (i + 1 + 1 + int j)) key) \<longrightarrow>
       table_get ?H t' key = table_get ?H t1 key)"
    unfolding r [symmetric]
  proof (rule Cons.IH)
    show "table_get ?H t1 (int_key j) \<noteq> VNil" if "i + 1 < j" "j \<le> i + 1 + int (length vs)" for j
      using t1(3) [of "int_key j"] that k [of j] Cons.prems(8) [of j] by simp
  qed (use Cons.prems t1 al in \<open>simp_all add: r, simp_all add: s2_def s1_def lookup_def\<close>)
  then obtain t' p where I: "sort_write E a len (i + 1) vs s2 = (Done (), s2\<lparr>vm_tables := (vm_tables s2)[a := t'], vm_polls := p\<rparr>)"
    "table_wf ?H ?rp t'" "\<And>j. j < length vs \<Longrightarrow> table_get ?H t' (int_key (i + 1 + 1 + int j)) = vs ! j"
    "\<And>key. value_wf key \<Longrightarrow> (\<forall>j < length vs. \<not> value_eq (int_key (i + 1 + 1 + int j)) key) \<Longrightarrow> table_get ?H t' key = table_get ?H t1 key"
    by blast
  have "sort_write E a len i (v # vs) s = (Done (), s\<lparr>vm_tables := (vm_tables s)[a := t'], vm_polls := p\<rparr>)"
    using o w I(1) by (simp add: bind_def) (simp add: s2_def s1_def)
  moreover have "table_get ?H t' (int_key (i + 1 + int j)) = (v # vs) ! j" if "j < length (v # vs)" for j
  proof (cases j)
    case 0
    have "\<forall>l < length vs. \<not> value_eq (int_key (i + 1 + 1 + int l)) (int_key (i + 1))"
      using k by (auto simp: value_eq_sym [of _ "int_key (i + 1)"])
    then show ?thesis using I(4) [of "int_key (i + 1)"] t1(3) [of "int_key (i + 1)"] 0 k [of "i + 1"] by simp
  next
    case (Suc l)
    then show ?thesis using I(3) [of l] that by (simp add: add.assoc)
  qed
  moreover have "table_get ?H t' key = table_get ?H t key"
    if key: "value_wf key" "\<forall>j < length (v # vs). \<not> value_eq (int_key (i + 1 + int j)) key" for key
  proof -
    have "\<not> value_eq (int_key (i + 1)) key" using key(2) by (auto dest: spec [of _ 0])
    moreover have "\<forall>j < length vs. \<not> value_eq (int_key (i + 1 + 1 + int j)) key"
    proof (intro allI impI)
      fix j assume "j < length vs"
      then have "\<not> value_eq (int_key (i + 1 + int (Suc j))) key" by (intro key(2) [rule_format]) simp
      then show "\<not> value_eq (int_key (i + 1 + 1 + int j)) key" by (simp add: algebra_simps)
    qed
    ultimately show ?thesis using I(4) [OF key(1)] t1(3) [OF key(1)] by simp
  qed
  ultimately show ?case using I(2) by blast
qed

lemma to_i32_small: "0 \<le> x \<Longrightarrow> x \<le> i32_max \<Longrightarrow> to_i32 x = x"
  using sint_word_of_int_u32 [of x] by (simp add: to_i32_def i32_max_def i32_min_def)

lemma sort_numbers_returns:
  assumes "unmetered s" "set xs \<subseteq> real_numbers" "length xs \<le> 2 ^ k" "k * length xs \<le> rp_maxSortComparisons (vm_resources s)"
  shows "\<exists>n p. safeMergeSort E A call xs None s = (Done (passes number_less (length xs) 1 xs, n), s\<lparr>vm_polls := p\<rparr>)"
proof (cases "length xs < 2")
  case True
  then show ?thesis
    by (auto simp: safeMergeSort_def Let_def ret_def passes.simps [of _ "length xs" "Suc 0"] intro!: exI [of _ "vm_polls s"])
next
  case False
  then show ?thesis
    using merge_passes_returns [OF assms(1,2) _ refl, of 1 k 0 E A call] assms(3,4)
    by (simp add: safeMergeSort_def Let_def bind_def ret_def)
qed

text \<open>C32. Called with a table of numbers and no order function, \<open>table.sort\<close> returns and the table is sorted: the first
  \<open>#t\<close> fields hold the same numbers in ascending order, and every other field is as before. The limit on comparisons
  is enough for \<open>n\<close> numbers if it is at least \<open>k * n\<close> for a \<open>k\<close> with \<open>n \<le> 2 ^ k\<close>.\<close>

theorem table_sort_numbers:
  assumes "unmetered s" "getTop s = (Done 1, s)" "at_index 1 s = (Done (VTable a), s)"
    and "lookup (vm_tables s) a = Some t" "hash_env_ok (e_hash E)" "policy_ok (vm_resources s)" "table_wf (e_hash E) (vm_resources s) t"
    and "len = int (table_length (e_hash E) t)" "len \<le> i32_max" "nat len \<le> rp_maxSortElements (vm_resources s)"
    and "\<forall>i. 1 \<le> i \<and> i \<le> len \<longrightarrow> table_get (e_hash E) t (int_key i) \<in> real_numbers"
    and "nat len \<le> 2 ^ k" "k * nat len \<le> rp_maxSortComparisons (vm_resources s)"
  shows "\<exists>t' p. table_sort E A call s = (Done 0, s\<lparr>vm_tables := (vm_tables s)[a := t'], vm_polls := p\<rparr>) \<and>
    table_wf (e_hash E) (vm_resources s) t' \<and>
    mset (map (\<lambda>i. table_get (e_hash E) t' (int_key i)) [1..len]) = mset (map (\<lambda>i. table_get (e_hash E) t (int_key i)) [1..len]) \<and>
    sorted_wrt (\<lambda>x y. \<not> number_less y x) (map (\<lambda>i. table_get (e_hash E) t' (int_key i)) [1..len]) \<and>
    (\<forall>key. value_wf key \<longrightarrow> (\<forall>i. 1 \<le> i \<and> i \<le> len \<longrightarrow> \<not> value_eq (int_key i) key) \<longrightarrow>
       table_get (e_hash E) t' key = table_get (e_hash E) t key)"
proof -
  let ?H = "e_hash E" let ?rp = "vm_resources s"
  define xs where "xs = map (\<lambda>i. table_get ?H t (int_key i)) [1..len]"
  define ys where "ys = passes number_less (length xs) 1 xs"
  have len0: "0 \<le> len" using assms(8) by simp
  have lx: "length xs = nat len" by (simp add: xs_def)
  have xr: "set xs \<subseteq> real_numbers" using assms(11) by (auto simp: xs_def)
  have ym: "mset ys = mset xs" by (simp add: ys_def mset_passes)
  then have ly: "length ys = nat len" and sy: "set ys = set xs" using lx by (metis size_mset) (metis set_mset_mset ym)
  have yo: "sorted_wrt (\<lambda>x y. \<not> number_less y x) ys"
  proof (cases xs)
    case Nil
    then show ?thesis using ym by simp
  next
    case (Cons v vs)
    then have "v \<in> real_numbers" using xr by simp
    then show ?thesis unfolding ys_def ordered_def [symmetric]
      using numbers.passes_sort [OF xr refl _ _ \<open>v \<in> real_numbers\<close>, of 1] numbers.runs_one [OF xr] by simp
  qed
  obtain p1 where r: "sort_read E a len [1..len] s = (Done xs, s\<lparr>vm_polls := p1\<rparr>)"
    using sort_read_returns [OF assms(1,4), of E len "[1..len]"] by (auto simp: xs_def)
  obtain n p2 where m: "safeMergeSort E A call xs None (s\<lparr>vm_polls := p1\<rparr>) = (Done (ys, n), s\<lparr>vm_polls := p2\<rparr>)"
    using sort_numbers_returns [of "s\<lparr>vm_polls := p1\<rparr>" xs k E A call] assms(1,12,13) xr by (auto simp: lx ys_def)
  have "VNil \<notin> real_numbers" by (simp add: real_numbers_def)
  then have nn: "VNil \<notin> set ys" "table_get ?H t (int_key j) \<noteq> VNil" if "1 \<le> j" "j \<le> len" for j
    using xr sy assms(11) that by auto
  have "\<exists>t' p. sort_write E a len 0 ys (s\<lparr>vm_polls := p2\<rparr>) = (Done (), s\<lparr>vm_polls := p2, vm_tables := (vm_tables s)[a := t'], vm_polls := p\<rparr>) \<and>
    table_wf ?H ?rp t' \<and> (\<forall>j < length ys. table_get ?H t' (int_key (0 + 1 + int j)) = ys ! j) \<and>
    (\<forall>key. value_wf key \<longrightarrow> (\<forall>j < length ys. \<not> value_eq (int_key (0 + 1 + int j)) key) \<longrightarrow> table_get ?H t' key = table_get ?H t key)"
    using sort_write_returns [of "s\<lparr>vm_polls := p2\<rparr>" a t E 0 ys len] assms nn ly len0 sy xr \<open>VNil \<notin> real_numbers\<close> by auto
  then obtain t' p3 where w: "sort_write E a len 0 ys (s\<lparr>vm_polls := p2\<rparr>) = (Done (), s\<lparr>vm_tables := (vm_tables s)[a := t'], vm_polls := p3\<rparr>)"
    "table_wf ?H ?rp t'" "\<And>j. j < length ys \<Longrightarrow> table_get ?H t' (int_key (1 + int j)) = ys ! j"
    "\<And>key. value_wf key \<Longrightarrow> (\<forall>j < length ys. \<not> value_eq (int_key (1 + int j)) key) \<Longrightarrow> table_get ?H t' key = table_get ?H t key"
    by auto
  have ys': "map (\<lambda>i. table_get ?H t' (int_key i)) [1..len] = ys"
    by (rule nth_equalityI) (use w(3) ly in \<open>simp_all add: nth_upto\<close>)
  have "to_i32 (int (table_length ?H t)) = len" using assms(8,9) len0 to_i32_small by simp
  moreover have "len mod 18446744073709551616 = len" using len0 assms(9) by (simp add: i32_max_def)
  moreover have "\<not> int (rp_maxSortElements ?rp) < len" using assms(10) by simp
  ultimately have "table_sort E A call s = (Done 0, s\<lparr>vm_tables := (vm_tables s)[a := t'], vm_polls := p3\<rparr>)"
    using assms(2,3,4) r m w(1)
    by (simp add: table_sort_def at_least_def bind_def ret_def getTableArg_def value_or_none_def catch_def getTableLength_def
        table_of_def gets_def deref_def)
  moreover have "table_get ?H t' key = table_get ?H t key"
    if "value_wf key" "\<forall>i. 1 \<le> i \<and> i \<le> len \<longrightarrow> \<not> value_eq (int_key i) key" for key
    using w(4) [OF that(1)] that(2) ly by simp
  ultimately show ?thesis
    using w(2) ym yo unfolding xs_def by (intro exI [of _ t'] exI [of _ p3] conjI) (simp_all only: ys', blast)
qed

section \<open>Examples\<close>

definition two_numbers :: lua_table where
  "two_numbers = new_table\<lparr>tb_array := [int_key 2, int_key 1]\<rparr>"

definition sort_vm :: vm where
  "sort_vm = (run_vm [])\<lparr>vm_stack := \<lparr>sk_slots = [VTable 0], sk_top = 1, sk_policy = None\<rparr>, vm_top := 1, vm_tables := [two_numbers]\<rparr>"

lemma sort_vm_ready:
  "unmetered sort_vm" "getTop sort_vm = (Done 1, sort_vm)" "at_index 1 sort_vm = (Done (VTable 0), sort_vm)"
  "lookup (vm_tables sort_vm) 0 = Some two_numbers" "vm_resources sort_vm = default_resource_policy"
  by (simp_all add: sort_vm_def run_vm_def unmetered_def new_exec_policy_def getTop_def frame_base_of_def at_index_def index_of_def
      of_stack_def stack_at_def bind_def gets_def ret_def lookup_def)

lemma two_numbers_get:
  assumes "1 \<le> i" "i \<le> i32_max"
  shows "table_get H two_numbers (int_key i) = (if i = 1 then int_key 2 else if i = 2 then int_key 1 else VNil)"
proof -
  have "isPositiveIntegerKey (int_key i) = Some i"
    using isPositiveIntegerKey_eq [OF int_key_valid(2) assms, of i] value_eq_refl int_key_valid(1)
    by (simp add: value_eq_def f64_of_int_not_nan f64_eq_refl)
  then show ?thesis using assms
    by (auto simp: table_get_parts array_part_def array_at_def two_numbers_def new_table_def hash_get_def findHashNode_empty nth_Cons')
qed

lemma weak_order_subset: "weak_order lt A \<Longrightarrow> B \<subseteq> A \<Longrightarrow> weak_order lt B"
  unfolding weak_order_def by blast

theorem sort_is_stable_sort_witness:
  "\<exists>out n s'. safeMergeSort run_env call_api failing_call [int_key 2, int_key 1] None sort_vm = (Done (out, n), s') \<and>
     sorted_wrt (\<lambda>x y. \<not> number_less y x) out"
proof -
  have r: "set [int_key 2, int_key 1] \<subseteq> real_numbers" by (auto simp: real_numbers_def f64_of_int_not_nan)
  obtain n p where run: "safeMergeSort run_env call_api failing_call [int_key 2, int_key 1] None sort_vm
      = (Done (passes number_less (length [int_key 2, int_key 1]) 1 [int_key 2, int_key 1], n), sort_vm\<lparr>vm_polls := p\<rparr>)"
    using sort_numbers_returns [OF sort_vm_ready(1) r, of 1 run_env call_api failing_call] sort_vm_ready(5)
    by (auto simp: default_resource_policy_def)
  have "b = number_less x y"
    if "x \<in> set [int_key 2, int_key 1]" "y \<in> set [int_key 2, int_key 1]" "sort_less run_env call_api failing_call None x y s = (Done b, s')"
    for x y s b s'
    using that by (auto simp: sort_less_def lessThan_def ret_def)
  then show ?thesis using run sort_is_stable_sort [OF run weak_order_subset [OF numbers.weak_order_axioms r]] by blast
qed

theorem table_sort_numbers_witness:
  "\<exists>t' p. table_sort run_env call_api failing_call sort_vm = (Done 0, sort_vm\<lparr>vm_tables := (vm_tables sort_vm)[0 := t'], vm_polls := p\<rparr>) \<and>
     sorted_wrt (\<lambda>x y. \<not> number_less y x) (map (\<lambda>i. table_get (e_hash run_env) t' (int_key i)) [1..2])"
proof -
  have w: "table_wf (e_hash run_env) (vm_resources sort_vm) two_numbers"
    by (simp add: table_wf_def hash_ok_def two_numbers_def new_table_def sort_vm_ready default_resource_policy_def hash_get_def findHashNode_empty)
  have e: "hash_env_ok (e_hash run_env)" by (simp add: hash_env_ok_def run_env_def)
  have k: "\<not> hasIntegerKey (e_hash run_env) two_numbers 3"
    using w e two_numbers_get [of 3] by (simp add: hasIntegerKey_iff table_wf_def present_def i32_max_def)
  have l: "2 = int (table_length (e_hash run_env) two_numbers)"
    using k(1) by (simp add: table_length_def two_numbers_def new_table_def numeral_3_eq_3)
  have g: "\<forall>i. 1 \<le> i \<and> i \<le> 2 \<longrightarrow> table_get (e_hash run_env) two_numbers (int_key i) \<in> real_numbers"
    using two_numbers_get by (auto simp: real_numbers_def f64_of_int_not_nan i32_max_def)
  have c: "policy_ok (vm_resources sort_vm)" "nat 2 \<le> rp_maxSortElements (vm_resources sort_vm)"
    "1 * nat 2 \<le> rp_maxSortComparisons (vm_resources sort_vm)"
    by (simp_all add: sort_vm_ready default_policy_ok) (simp_all add: default_resource_policy_def)
  show ?thesis
    using table_sort_numbers [OF sort_vm_ready(1-4) e c(1) w l _ c(2) g _ c(3), of call_api failing_call]
    by (simp add: i32_max_def) blast
qed

end
