(* ===== verification/Ast.thy ===== *)
theory Ast
  imports Prelude LuaValue
begin

text \<open>
  The syntax tree (\<^verbatim>\<open>compiler/ast.hpp\<close>): the expressions and statements with the position that every node carries.
  The name of a constructor is that of the node; \<open>EmptyStmt\<close> is declared by the code although the parser never
  builds it.
\<close>

type_synonym location = "int \<times> int"

datatype bin_op =
    B_Add | B_Sub | B_Mul | B_Div | B_Mod | B_Pow | B_Eq | B_Ne | B_Lt | B_Le | B_Gt | B_Ge | B_And | B_Or | B_Concat

datatype un_op = U_Not | U_Neg | U_Len

datatype expr =
    NilExpr location
  | BoolExpr location bool
  | NumberExpr location f64
  | StringExpr location string
  | VarargExpr location
  | NameExpr location string
  | BinaryExpr location bin_op expr expr
  | UnaryExpr location un_op expr
  | TableExpr location "(expr option \<times> expr) list"
  | CallExpr location expr "expr list" bool
  | IndexExpr location expr expr
  | MemberExpr location expr string
  | FunctionExpr location "string list" bool "stmt list" int
  | ParenExpr location expr
and stmt =
    EmptyStmt location
  | AssignStmt location "expr list" "expr list"
  | LocalStmt location "string list" "expr list"
  | CallStmt location expr
  | IfStmt location "(expr \<times> stmt list) list" "stmt list" int
  | WhileStmt location expr "stmt list" int
  | RepeatStmt location "stmt list" expr int
  | ForNumStmt location string expr expr expr "stmt list" int
  | ForInStmt location "string list" "expr list" "stmt list" int
  | FunctionStmt location string "string list" bool "string list" bool "stmt list" bool int
  | ReturnStmt location "expr list"
  | BreakStmt location
  | DoStmt location "stmt list" int

primrec expr_location :: "expr \<Rightarrow> location" where
  "expr_location (NilExpr p) = p"
| "expr_location (BoolExpr p b) = p"
| "expr_location (NumberExpr p x) = p"
| "expr_location (StringExpr p x) = p"
| "expr_location (VarargExpr p) = p"
| "expr_location (NameExpr p x) = p"
| "expr_location (BinaryExpr p op l r) = p"
| "expr_location (UnaryExpr p op e) = p"
| "expr_location (TableExpr p fs) = p"
| "expr_location (CallExpr p f es m) = p"
| "expr_location (IndexExpr p t i) = p"
| "expr_location (MemberExpr p t m) = p"
| "expr_location (FunctionExpr p ps v b e) = p"
| "expr_location (ParenExpr p e) = p"

primrec stmt_location :: "stmt \<Rightarrow> location" where
  "stmt_location (EmptyStmt p) = p"
| "stmt_location (AssignStmt p ts vs) = p"
| "stmt_location (LocalStmt p ns vs) = p"
| "stmt_location (CallStmt p c) = p"
| "stmt_location (IfStmt p bs e l) = p"
| "stmt_location (WhileStmt p c b l) = p"
| "stmt_location (RepeatStmt p b c l) = p"
| "stmt_location (ForNumStmt p v i m st b l) = p"
| "stmt_location (ForInStmt p vs is b l) = p"
| "stmt_location (FunctionStmt p n tp m ps v b lo l) = p"
| "stmt_location (ReturnStmt p vs) = p"
| "stmt_location (BreakStmt p) = p"
| "stmt_location (DoStmt p b l) = p"

text \<open>\<open>getLine\<close>, \<open>getColumn\<close> and \<open>getEndLine\<close>: a statement without an end line ends on its own line.\<close>

definition expr_getLine :: "expr \<Rightarrow> int" where "expr_getLine e = fst (expr_location e)"
definition expr_getColumn :: "expr \<Rightarrow> int" where "expr_getColumn e = snd (expr_location e)"
definition stmt_getLine :: "stmt \<Rightarrow> int" where "stmt_getLine s = fst (stmt_location s)"
definition stmt_getColumn :: "stmt \<Rightarrow> int" where "stmt_getColumn s = snd (stmt_location s)"

primrec stmt_end :: "stmt \<Rightarrow> int option" where
  "stmt_end (EmptyStmt p) = None"
| "stmt_end (AssignStmt p ts vs) = None"
| "stmt_end (LocalStmt p ns vs) = None"
| "stmt_end (CallStmt p c) = None"
| "stmt_end (IfStmt p bs e l) = Some l"
| "stmt_end (WhileStmt p c b l) = Some l"
| "stmt_end (RepeatStmt p b c l) = Some l"
| "stmt_end (ForNumStmt p v i m st b l) = Some l"
| "stmt_end (ForInStmt p vs is b l) = Some l"
| "stmt_end (FunctionStmt p n tp m ps v b lo l) = Some l"
| "stmt_end (ReturnStmt p vs) = None"
| "stmt_end (BreakStmt p) = None"
| "stmt_end (DoStmt p b l) = Some l"

definition stmt_getEndLine :: "stmt \<Rightarrow> int" where
  "stmt_getEndLine s = (case stmt_end s of Some l \<Rightarrow> if 0 < l then l else stmt_getLine s | None \<Rightarrow> stmt_getLine s)"

end
