(* ===== verification/Parser.thy ===== *)
theory Parser
  imports Lexer Policies Ast
begin

text \<open>
  The recursive descent parser (\<^verbatim>\<open>compiler/parser/\<close>): the token stream, the guards on nesting, locals and
  upvalues, the diagnostics with their recovery, and every grammar rule.

  A parser is a function of the state of \<open>Parser::Impl\<close>; an exception is a value of the result. The rules call each
  other through the record \<open>rules\<close>, which holds the four entry points that recursion goes through; \<open>rules_at n\<close> is
  the parser whose recursion may go \<open>n\<close> levels deep, and a loop of the code gets the same bound on its turns.
  \<open>PT_Timeout\<close> stands for a run that the bound cut off.
\<close>

section \<open>State and errors\<close>

record parse_error =
  pe_message :: string
  pe_line :: int
  pe_column :: int

datatype parse_exn = PX_Parse parse_error | PX_Limit compilation_error | PX_BadVariant

datatype 'a parsed = PT_Ok 'a | PT_Fail parse_exn | PT_Timeout

datatype recovery_mode = FailFast | StatementBoundary

record syntax_scope =
  ss_line :: int
  ss_locals :: "string list"
  ss_upvalues :: "string list"

text \<open>What the parser gets from outside: the classes of the scanner, the clock of the deadline at its \<open>n\<close>-th reading,
  and the options.\<close>

record parser_env =
  pn_lexer :: lexer_env
  pn_clock :: "nat \<Rightarrow> time_point"
  pn_mode :: recovery_mode

text \<open>\<open>functionScopes_\<close> has its innermost scope first.\<close>

record pstate =
  pz_lexer :: lexer
  pz_current :: token
  pz_previous :: token
  pz_depth :: int
  pz_budget :: compilation_budget
  pz_polls :: nat
  pz_scopes :: "syntax_scope list"
  pz_diagnostics :: "parse_error list"

type_synonym 'a parser = "pstate \<Rightarrow> 'a parsed \<times> pstate"

definition p_ret :: "'a \<Rightarrow> 'a parser" where
  "p_ret x s = (PT_Ok x, s)"

definition p_bind :: "'a parser \<Rightarrow> ('a \<Rightarrow> 'b parser) \<Rightarrow> 'b parser" where
  "p_bind m f s =
     (case m s of
        (PT_Ok x, s1) \<Rightarrow> f x s1
      | (PT_Fail e, s1) \<Rightarrow> (PT_Fail e, s1)
      | (PT_Timeout, s1) \<Rightarrow> (PT_Timeout, s1))"

definition p_seq :: "unit parser \<Rightarrow> 'b parser \<Rightarrow> 'b parser" where
  "p_seq m k = p_bind m (\<lambda>_. k)"

definition p_fail :: "parse_exn \<Rightarrow> 'a parser" where
  "p_fail e s = (PT_Fail e, s)"

definition p_timeout :: "'a parser" where
  "p_timeout s = (PT_Timeout, s)"

definition p_gets :: "(pstate \<Rightarrow> 'a) \<Rightarrow> 'a parser" where
  "p_gets g s = (PT_Ok (g s), s)"

abbreviation p_current :: "token parser" where
  "p_current \<equiv> p_gets pz_current"

text \<open>A charge to the budget reads the clock once.\<close>

definition p_charge ::
  "parser_env \<Rightarrow> (time_point \<Rightarrow> compilation_budget \<Rightarrow> compilation_error option \<times> compilation_budget) \<Rightarrow> unit parser" where
  "p_charge E consume s =
     (case consume (pn_clock E (pz_polls s)) (pz_budget s) of
        (r, b) \<Rightarrow> (let s1 = s\<lparr>pz_budget := b, pz_polls := pz_polls s + 1\<rparr> in
          case r of None \<Rightarrow> (PT_Ok (), s1) | Some e \<Rightarrow> (PT_Fail (PX_Limit e), s1)))"

section \<open>Tokens\<close>

definition p_advance :: "parser_env \<Rightarrow> unit parser" where
  "p_advance E =
     p_seq (\<lambda>s. (PT_Ok (), s\<lparr>pz_previous := pz_current s\<rparr>))
    (p_seq (p_charge E (\<lambda>now. cb_consumeToken now 1))
     (\<lambda>s. case nextToken (pn_lexer E) (pz_lexer s) of
         (t, lx) \<Rightarrow> (PT_Ok (), s\<lparr>pz_lexer := lx, pz_current := t\<rparr>)))"

definition p_peek :: "parser_env \<Rightarrow> token parser" where
  "p_peek E s = (case peekToken (pn_lexer E) (pz_lexer s) of (t, lx) \<Rightarrow> (PT_Ok t, s\<lparr>pz_lexer := lx\<rparr>))"

definition p_check :: "token_type \<Rightarrow> bool parser" where
  "p_check ty = p_gets (\<lambda>s. tk_type (pz_current s) = ty)"

definition p_match :: "parser_env \<Rightarrow> token_type \<Rightarrow> bool parser" where
  "p_match E ty = p_bind (p_check ty) (\<lambda>ok. if ok then p_seq (p_advance E) (p_ret True) else p_ret False)"

definition getTokenText :: "token \<Rightarrow> string" where
  "getTokenText t =
     (if tk_type t = TT_Eos then ''<eof>'' else if tk_lexeme t \<noteq> [] then tk_lexeme t else tokenTypeToString (tk_type t))"

definition errorWithNear :: "string \<Rightarrow> token \<Rightarrow> string" where
  "errorWithNear message t =
     (if tk_type t = TT_Error \<and> tk_errorMessage t \<noteq> [] then tk_errorMessage t else message)
       @ '' near '' @ [CHR 0x27] @ getTokenText t @ [CHR 0x27]"

definition parse_error_at :: "string \<Rightarrow> token \<Rightarrow> parse_error" where
  "parse_error_at message t = \<lparr>pe_message = message, pe_line = tk_line t, pe_column = tk_column t\<rparr>"

definition publishDiagnostic :: "parse_error \<Rightarrow> unit parser" where
  "publishDiagnostic e s = (PT_Ok (), s\<lparr>pz_diagnostics := pz_diagnostics s @ [e]\<rparr>)"

definition errorAt :: "token \<Rightarrow> string \<Rightarrow> 'a parser" where
  "errorAt t message =
     (let e = parse_error_at (errorWithNear message t) t in p_seq (publishDiagnostic e) (p_fail (PX_Parse e)))"

definition p_error :: "string \<Rightarrow> 'a parser" where
  "p_error message = p_bind p_current (\<lambda>t. errorAt t message)"

definition p_expect :: "parser_env \<Rightarrow> token_type \<Rightarrow> string \<Rightarrow> unit parser" where
  "p_expect E ty message = p_bind (p_match E ty) (\<lambda>ok. if ok then p_ret () else p_error message)"

definition p_tokenString :: "token \<Rightarrow> string" where
  "p_tokenString t = (case tk_value t of TV_String s \<Rightarrow> s | _ \<Rightarrow> tk_lexeme t)"

text \<open>\<open>std::get<f64>\<close> throws if the value of the token is not a number.\<close>

definition p_tokenNumber :: "token \<Rightarrow> f64 parser" where
  "p_tokenNumber t = (case tk_value t of TV_Number x \<Rightarrow> p_ret x | _ \<Rightarrow> p_fail PX_BadVariant)"

abbreviation is_name :: "token \<Rightarrow> bool" where "is_name t \<equiv> tk_type t = TT_Name"
abbreviation is_string :: "token \<Rightarrow> bool" where "is_string t \<equiv> tk_type t = TT_String"
abbreviation at_token :: "token \<Rightarrow> location" where "at_token t \<equiv> (tk_line t, tk_column t)"

text \<open>A name that must come next.\<close>

definition p_name :: "parser_env \<Rightarrow> string \<Rightarrow> string parser" where
  "p_name E message =
     p_bind p_current (\<lambda>t. if is_name t then p_seq (p_advance E) (p_ret (p_tokenString t)) else p_error message)"

section \<open>Guards\<close>

definition MAX_RECURSION_DEPTH :: int where "MAX_RECURSION_DEPTH = 92"
definition MAX_BLOCK_RECURSION_DEPTH :: int where "MAX_BLOCK_RECURSION_DEPTH = 80"
definition MAX_RIGHT_ASSOC_RECURSION_DEPTH :: int where "MAX_RIGHT_ASSOC_RECURSION_DEPTH = 200"
definition MAX_LOCAL_VARIABLES :: nat where "MAX_LOCAL_VARIABLES = 200"
definition MAX_UPVALUES_PER_FUNCTION :: nat where "MAX_UPVALUES_PER_FUNCTION = 60"

definition max_depth :: "int \<Rightarrow> pstate \<Rightarrow> int" where
  "max_depth maxDepth s = min maxDepth (min (int (cp_maxNesting (cb_policy (pz_budget s)))) 2147483647)"

definition leave :: "('a parsed \<times> pstate) \<Rightarrow> 'a parsed \<times> pstate" where
  "leave r = (case r of (x, s) \<Rightarrow> (x, s\<lparr>pz_depth := pz_depth s - 1\<rparr>))"

text \<open>The scope of a \<open>RecursionGuard\<close>: its destructor runs however the scope is left. The error of the guard is not
  published.\<close>

definition syntax_guarded :: "int \<Rightarrow> 'a parser \<Rightarrow> 'a parser" where
  "syntax_guarded maxDepth m s =
     (if max_depth maxDepth s < pz_depth s + 1
      then (PT_Fail (PX_Parse (parse_error_at ''chunk has too many syntax levels'' (pz_current s))), s)
      else leave (m (s\<lparr>pz_depth := pz_depth s + 1\<rparr>)))"

definition enterFunctionSyntaxScope :: "parser_env \<Rightarrow> int \<Rightarrow> string list \<Rightarrow> unit parser" where
  "enterFunctionSyntaxScope E line params =
     p_seq (p_charge E (\<lambda>now. cb_consumeFunction now 1))
       (\<lambda>s. (PT_Ok (), s\<lparr>pz_scopes :=
          \<lparr>ss_line = line, ss_locals = filter (\<lambda>x. x \<noteq> ''...'') params, ss_upvalues = []\<rparr> # pz_scopes s\<rparr>))"

definition leaveFunctionSyntaxScope :: "unit parser" where
  "leaveFunctionSyntaxScope s = (PT_Ok (), s\<lparr>pz_scopes := tl (pz_scopes s)\<rparr>)"

definition limit_message :: "syntax_scope \<Rightarrow> string \<Rightarrow> string" where
  "limit_message sc what = ''function at line '' @ to_string (ss_line sc) @ '' has more than '' @ what"

definition declareLocalName :: "string \<Rightarrow> token \<Rightarrow> unit parser" where
  "declareLocalName name t s =
     (case pz_scopes s of
        [] \<Rightarrow> (PT_Ok (), s)
      | sc # scopes \<Rightarrow>
          if name \<in> List.set (ss_locals sc) then (PT_Ok (), s)
          else if MAX_LOCAL_VARIABLES \<le> length (ss_locals sc)
            then (PT_Fail (PX_Parse (parse_error_at (limit_message sc ''200 local variables'') t)), s)
          else (PT_Ok (), s\<lparr>pz_scopes := sc\<lparr>ss_locals := ss_locals sc @ [name]\<rparr> # scopes\<rparr>))"

text \<open>The name becomes an upvalue of every function between its use and the function that declares it, from the
  innermost one outwards; a name that no function declares is global.\<close>

fun note_upvalue :: "string \<Rightarrow> syntax_scope list \<Rightarrow> syntax_scope option \<times> syntax_scope list" where
  "note_upvalue name [] = (None, [])"
| "note_upvalue name (sc # scopes) =
     (if name \<in> List.set (ss_locals sc) then (None, sc # scopes)
      else if name \<in> List.set (ss_upvalues sc) then (case note_upvalue name scopes of (r, scopes') \<Rightarrow> (r, sc # scopes'))
      else if MAX_UPVALUES_PER_FUNCTION \<le> length (ss_upvalues sc) then (Some sc, sc # scopes)
      else (case note_upvalue name scopes of (r, scopes') \<Rightarrow> (r, sc\<lparr>ss_upvalues := ss_upvalues sc @ [name]\<rparr> # scopes')))"

definition noteNameUse :: "string \<Rightarrow> token \<Rightarrow> unit parser" where
  "noteNameUse name t s =
     (if \<exists>sc \<in> List.set (pz_scopes s). name \<in> List.set (ss_locals sc) then
        (case note_upvalue name (pz_scopes s) of (r, scopes) \<Rightarrow>
          (case r of None \<Rightarrow> PT_Ok () | Some sc \<Rightarrow> PT_Fail (PX_Parse (parse_error_at (limit_message sc ''60 upvalues'') t)),
           s\<lparr>pz_scopes := scopes\<rparr>))
      else (PT_Ok (), s))"

text \<open>\<open>makeExpr\<close> and \<open>makeStmt\<close> charge one node and build it.\<close>

definition makeNode :: "parser_env \<Rightarrow> 'a \<Rightarrow> 'a parser" where
  "makeNode E x = p_seq (p_charge E (\<lambda>now. cb_consumeAstNode now 1)) (p_ret x)"

abbreviation make_expr :: "parser_env \<Rightarrow> expr \<Rightarrow> expr parser" where "make_expr \<equiv> makeNode"
abbreviation make_stmt :: "parser_env \<Rightarrow> stmt \<Rightarrow> stmt parser" where "make_stmt \<equiv> makeNode"

section \<open>Loops and recursion\<close>

record rules =
  r_expression :: "expr parser"
  r_concat :: "expr parser"
  r_unary :: "expr parser"
  r_block :: "stmt list parser"
  r_turns :: nat

text \<open>A loop: the body answers \<open>Inl\<close> the state of the next turn or \<open>Inr\<close> the result.\<close>

fun p_loop :: "nat \<Rightarrow> ('a \<Rightarrow> ('a + 'b) parser) \<Rightarrow> 'a \<Rightarrow> 'b parser" where
  "p_loop 0 body x = p_timeout"
| "p_loop (Suc n) body x = p_bind (body x) (\<lambda>r. case r of Inl y \<Rightarrow> p_loop n body y | Inr z \<Rightarrow> p_ret z)"

text \<open>\<open>do item while (match(','))\<close>, after the items \<open>xs\<close>.\<close>

definition items_next :: "parser_env \<Rightarrow> 'a list \<Rightarrow> ('a list + 'a list) parser" where
  "items_next E xs = p_bind (p_match E (TT_Char (CHR '',''))) (\<lambda>more. p_ret (if more then Inl xs else Inr xs))"

definition items_turn :: "parser_env \<Rightarrow> 'a parser \<Rightarrow> 'a list \<Rightarrow> ('a list + 'a list) parser" where
  "items_turn E item xs = p_bind item (\<lambda>x. items_next E (xs @ [x]))"

definition p_items :: "parser_env \<Rightarrow> nat \<Rightarrow> 'a parser \<Rightarrow> 'a list \<Rightarrow> 'a list parser" where
  "p_items E n item xs = p_loop n (items_turn E item) xs"

text \<open>A level of left-associative operators over the level \<open>operand\<close>.\<close>

definition left_turn :: "parser_env \<Rightarrow> (token_type \<Rightarrow> bin_op option) \<Rightarrow> expr parser \<Rightarrow> expr \<Rightarrow> (expr + expr) parser" where
  "left_turn E op_of operand l =
     p_bind p_current (\<lambda>opToken. case op_of (tk_type opToken) of
         None \<Rightarrow> p_ret (Inr l)
       | Some op \<Rightarrow>
           p_seq (p_advance E)
          (p_bind operand (\<lambda>r.
           p_bind (make_expr E (BinaryExpr (at_token opToken) op l r)) (\<lambda>e. p_ret (Inl e)))))"

definition left_assoc :: "parser_env \<Rightarrow> nat \<Rightarrow> (token_type \<Rightarrow> bin_op option) \<Rightarrow> expr parser \<Rightarrow> expr parser" where
  "left_assoc E n op_of operand = p_bind operand (p_loop n (left_turn E op_of operand))"

section \<open>Expressions\<close>

definition parseExprList :: "parser_env \<Rightarrow> rules \<Rightarrow> expr list parser" where
  "parseExprList E R = p_items E (r_turns R) (r_expression R) []"

definition quoted_message :: "string \<Rightarrow> string \<Rightarrow> string" where
  "quoted_message symbol what = ''Expected '' @ [CHR 0x27] @ symbol @ [CHR 0x27] @ what"

text \<open>One field of a table constructor, with the separator behind it.\<close>

definition parse_field :: "parser_env \<Rightarrow> rules \<Rightarrow> (expr option \<times> expr) parser" where
  "parse_field E R =
     p_bind (p_match E (TT_Char (CHR ''[''))) (\<lambda>bracket.
       if bracket then
         p_bind (r_expression R) (\<lambda>key.
         p_seq (p_expect E (TT_Char (CHR '']'')) (quoted_message '']'' '' after table key''))
        (p_seq (p_expect E (TT_Char (CHR ''='')) (quoted_message ''='' '' after table key''))
        (p_bind (r_expression R) (\<lambda>val. p_ret (Some key, val)))))
       else p_bind p_current (\<lambda>t.
         if is_name t then
           p_bind (p_peek E) (\<lambda>nextToken.
             if tk_type nextToken = TT_Char (CHR ''='') then
               p_seq (p_advance E)
              (p_bind (make_expr E (StringExpr (at_token t) (p_tokenString t))) (\<lambda>key.
               p_seq (p_advance E)
              (p_bind (r_expression R) (\<lambda>val. p_ret (Some key, val)))))
             else p_bind (r_expression R) (\<lambda>val. p_ret (None, val)))
         else p_bind (r_expression R) (\<lambda>val. p_ret (None, val))))"

definition fields_closed :: "(expr option \<times> expr) list \<Rightarrow> ((expr option \<times> expr) list + (expr option \<times> expr) list) parser" where
  "fields_closed fs = p_bind (p_check (TT_Char (CHR ''}''))) (\<lambda>closed. p_ret (if closed then Inr fs else Inl fs))"

definition fields_next :: "parser_env \<Rightarrow> (expr option \<times> expr) list \<Rightarrow> ((expr option \<times> expr) list + (expr option \<times> expr) list) parser" where
  "fields_next E fs =
     p_bind (p_match E (TT_Char (CHR '',''))) (\<lambda>comma.
     p_seq (if comma then p_ret () else p_bind (p_match E (TT_Char (CHR '';''))) (\<lambda>_. p_ret ()))
       (fields_closed fs))"

definition fields_turn :: "parser_env \<Rightarrow> rules \<Rightarrow> (expr option \<times> expr) list \<Rightarrow> ((expr option \<times> expr) list + (expr option \<times> expr) list) parser" where
  "fields_turn E R fs =
     p_bind (p_check (TT_Char (CHR ''}''))) (\<lambda>closed.
       if closed then p_ret (Inr fs) else p_bind (parse_field E R) (\<lambda>f. fields_next E (fs @ [f])))"

definition parse_fields :: "parser_env \<Rightarrow> rules \<Rightarrow> (expr option \<times> expr) list parser" where
  "parse_fields E R = p_loop (r_turns R) (fields_turn E R) []"

definition parseTableConstructor :: "parser_env \<Rightarrow> rules \<Rightarrow> expr parser" where
  "parseTableConstructor E R =
     syntax_guarded MAX_RECURSION_DEPTH
       (p_bind p_current (\<lambda>t.
        p_seq (p_expect E (TT_Char (CHR ''{'')) (quoted_message ''{'' []))
       (p_bind (parse_fields E R) (\<lambda>fields.
        p_seq (p_expect E (TT_Char (CHR ''}'')) (quoted_message ''}'' '' to close table constructor''))
         (make_expr E (TableExpr (at_token t) fields))))))"

text \<open>The names in the parentheses of a function; a vararg list ends with \<open>...\<close>.\<close>

definition params_turn :: "parser_env \<Rightarrow> string list \<Rightarrow> (string list + string list) parser" where
  "params_turn E params =
     p_bind p_current (\<lambda>t.
       if is_name t then p_seq (p_advance E) (items_next E (params @ [p_tokenString t]))
       else p_bind (p_match E TT_Dots) (\<lambda>dots.
         if dots then p_ret (Inr (params @ [''...''])) else p_error ''Expected parameter name''))"

definition parseParamList :: "parser_env \<Rightarrow> rules \<Rightarrow> string list parser" where
  "parseParamList E R =
     p_bind (p_check (TT_Char (CHR '')''))) (\<lambda>closed.
       if closed then p_ret []
       else p_bind (p_match E TT_Dots) (\<lambda>dots.
         if dots then p_ret [''...'']
         else p_loop (r_turns R) (params_turn E) []))"

definition has_vararg :: "string list \<Rightarrow> bool" where
  "has_vararg params \<longleftrightarrow> params \<noteq> [] \<and> last params = ''...''"

definition without_vararg :: "string list \<Rightarrow> string list" where
  "without_vararg params = (if has_vararg params then butlast params else params)"

text \<open>From the opening parenthesis to the \<open>end\<close>: the parameters with \<open>self\<close> in front for a method, whether there is a
  vararg, the body and the line of the \<open>end\<close>.\<close>

definition parse_function_rest ::
  "parser_env \<Rightarrow> rules \<Rightarrow> int \<Rightarrow> string \<Rightarrow> bool \<Rightarrow> (string list \<times> bool \<times> stmt list \<times> int) parser" where
  "parse_function_rest E R line after isMethod =
     p_seq (p_expect E (TT_Char (CHR ''('')) (quoted_message ''('' after))
    (p_bind (parseParamList E R) (\<lambda>params0.
     p_seq (p_expect E (TT_Char (CHR '')'')) (quoted_message '')'' '' after parameters''))
    (let params = (if isMethod then ''self'' # without_vararg params0 else without_vararg params0) in
     p_seq (enterFunctionSyntaxScope E line params)
    (p_bind (r_block R) (\<lambda>body.
     p_seq leaveFunctionSyntaxScope
    (p_bind p_current (\<lambda>t.
     p_seq (p_expect E TT_End (quoted_message ''end'' '' to close function''))
       (p_ret (params, has_vararg params0, body, tk_line t)))))))))"

definition parseFunctionExpr :: "parser_env \<Rightarrow> rules \<Rightarrow> expr parser" where
  "parseFunctionExpr E R =
     syntax_guarded MAX_RECURSION_DEPTH
       (p_bind p_current (\<lambda>t.
        p_seq (p_expect E TT_Function (quoted_message ''function'' []))
       (p_bind (parse_function_rest E R (tk_line t) ('' after '' @ [CHR 0x27] @ ''function'' @ [CHR 0x27]) False)
          (\<lambda>(params, isVararg, body, endLine).
        make_expr E (FunctionExpr (at_token t) params isVararg body endLine)))))"

text \<open>The arguments behind an opening parenthesis that has been read.\<close>

definition parse_arguments :: "parser_env \<Rightarrow> rules \<Rightarrow> expr list parser" where
  "parse_arguments E R =
     p_bind (p_check (TT_Char (CHR '')''))) (\<lambda>closed.
     p_bind (if closed then p_ret [] else parseExprList E R) (\<lambda>args.
     p_seq (p_expect E (TT_Char (CHR '')'')) (quoted_message '')'' '' after arguments'')) (p_ret args)))"

definition parse_string_argument :: "parser_env \<Rightarrow> expr list parser" where
  "parse_string_argument E =
     p_bind p_current (\<lambda>t.
     p_seq (p_advance E)
    (p_bind (make_expr E (StringExpr (at_token t) (p_tokenString t))) (\<lambda>e. p_ret [e])))"

definition ambiguous :: string where
  "ambiguous = ''ambiguous syntax (function call x new statement)''"

definition rejectAmbiguousNewlineCall :: "int \<Rightarrow> unit parser" where
  "rejectAmbiguousNewlineCall line =
     p_bind p_current (\<lambda>t. if line < tk_line t then errorAt t ambiguous else p_ret ())"

text \<open>The arguments behind the name of a method, whose colon stands on \<open>line\<close>.\<close>

definition parse_method_arguments :: "parser_env \<Rightarrow> rules \<Rightarrow> int \<Rightarrow> expr list parser" where
  "parse_method_arguments E R line =
     p_bind p_current (\<lambda>t1.
       if tk_type t1 = TT_Char (CHR ''('') then
         p_seq (rejectAmbiguousNewlineCall line)
        (p_seq (p_advance E) (syntax_guarded MAX_BLOCK_RECURSION_DEPTH (parse_arguments E R)))
       else if is_string t1 then p_seq (rejectAmbiguousNewlineCall line) (parse_string_argument E)
       else if tk_type t1 = TT_Char (CHR ''{'') then
         p_seq (rejectAmbiguousNewlineCall line) (p_bind (parseTableConstructor E R) (\<lambda>e. p_ret [e]))
       else p_error ''Expected function arguments after method name'')"

text \<open>One turn of the loop of \<open>parsePostfixExpr\<close>.\<close>

definition postfix_step :: "parser_env \<Rightarrow> rules \<Rightarrow> expr \<Rightarrow> (expr + expr) parser" where
  "postfix_step E R base =
     p_bind p_current (\<lambda>t.
     p_bind (p_gets (\<lambda>s. tk_line (pz_previous s))) (\<lambda>previousLine.
       if tk_type t = TT_Char (CHR ''('') then
         p_seq (rejectAmbiguousNewlineCall previousLine)
        (p_seq (p_advance E)
        (p_bind (syntax_guarded MAX_BLOCK_RECURSION_DEPTH
            (p_bind (parse_arguments E R) (\<lambda>args. make_expr E (CallExpr (at_token t) base args False)))) (\<lambda>e. p_ret (Inl e))))
       else if tk_type t = TT_Char (CHR ''['') then
         p_seq (p_advance E)
        (p_bind (r_expression R) (\<lambda>index.
         p_seq (p_expect E (TT_Char (CHR '']'')) (quoted_message '']'' '' after index''))
        (p_bind (make_expr E (IndexExpr (at_token t) base index)) (\<lambda>e. p_ret (Inl e)))))
       else if tk_type t = TT_Char (CHR ''.'') then
         p_seq (p_advance E)
        (p_bind (p_name E (''Expected member name after '' @ [CHR 0x27] @ ''.'' @ [CHR 0x27])) (\<lambda>name.
         p_bind (make_expr E (MemberExpr (at_token t) base name)) (\<lambda>e. p_ret (Inl e))))
       else if tk_type t = TT_Char (CHR '':'') then
         p_seq (p_advance E)
        (p_bind (p_name E (''Expected method name after '' @ [CHR 0x27] @ '':'' @ [CHR 0x27])) (\<lambda>name.
         p_bind (make_expr E (MemberExpr (at_token t) base name)) (\<lambda>func.
         p_bind (parse_method_arguments E R (tk_line t)) (\<lambda>args.
         p_bind (make_expr E (CallExpr (at_token t) func args True)) (\<lambda>e. p_ret (Inl e))))))
       else if is_string t then
         p_seq (rejectAmbiguousNewlineCall previousLine)
        (p_bind (parse_string_argument E) (\<lambda>args.
         p_bind (make_expr E (CallExpr (at_token t) base args False)) (\<lambda>e. p_ret (Inl e))))
       else if tk_type t = TT_Char (CHR ''{'') then
         p_seq (rejectAmbiguousNewlineCall previousLine)
        (p_bind (parseTableConstructor E R) (\<lambda>arg.
         p_bind (make_expr E (CallExpr (at_token t) base [arg] False)) (\<lambda>e. p_ret (Inl e))))
       else p_ret (Inr base)))"

definition parsePostfixExpr :: "parser_env \<Rightarrow> rules \<Rightarrow> expr \<Rightarrow> expr parser" where
  "parsePostfixExpr E R = p_loop (r_turns R) (postfix_step E R)"

definition literal :: "parser_env \<Rightarrow> expr \<Rightarrow> expr parser" where
  "literal E e = p_seq (p_advance E) (make_expr E e)"

definition parse_name_expr :: "parser_env \<Rightarrow> rules \<Rightarrow> token \<Rightarrow> expr parser" where
  "parse_name_expr E R t =
     p_seq (noteNameUse (p_tokenString t) t)
    (p_seq (p_advance E)
    (p_bind (make_expr E (NameExpr (at_token t) (p_tokenString t))) (parsePostfixExpr E R)))"

definition parse_paren_expr :: "parser_env \<Rightarrow> rules \<Rightarrow> token \<Rightarrow> expr parser" where
  "parse_paren_expr E R t =
     p_seq (p_advance E)
    (p_bind (r_expression R) (\<lambda>e.
     p_seq (p_expect E (TT_Char (CHR '')'')) (quoted_message '')'' '' after expression''))
    (p_bind (make_expr E (ParenExpr (at_token t) e)) (parsePostfixExpr E R))))"

definition parsePrimaryExpr :: "parser_env \<Rightarrow> rules \<Rightarrow> expr parser" where
  "parsePrimaryExpr E R =
     p_bind p_current (\<lambda>t. case tk_type t of
         TT_Nil \<Rightarrow> literal E (NilExpr (at_token t))
       | TT_True \<Rightarrow> literal E (BoolExpr (at_token t) True)
       | TT_False \<Rightarrow> literal E (BoolExpr (at_token t) False)
       | TT_Number \<Rightarrow> p_bind (p_tokenNumber t) (\<lambda>x. literal E (NumberExpr (at_token t) x))
       | TT_String \<Rightarrow> literal E (StringExpr (at_token t) (p_tokenString t))
       | TT_Dots \<Rightarrow> literal E (VarargExpr (at_token t))
       | TT_Function \<Rightarrow> parseFunctionExpr E R
       | TT_Name \<Rightarrow> parse_name_expr E R t
       | TT_Char c \<Rightarrow>
           if c = CHR ''{'' then parseTableConstructor E R
           else if c = CHR ''('' then parse_paren_expr E R t
           else p_error ''unexpected symbol''
       | _ \<Rightarrow> p_error ''unexpected symbol'')"

definition parsePowerExpr :: "parser_env \<Rightarrow> rules \<Rightarrow> expr parser" where
  "parsePowerExpr E R =
     p_bind (parsePrimaryExpr E R) (\<lambda>l. p_bind p_current (\<lambda>opToken.
       if tk_type opToken = TT_Char (CHR ''^'') then
         p_seq (p_advance E)
           (syntax_guarded MAX_RIGHT_ASSOC_RECURSION_DEPTH
             (p_bind (r_unary R) (\<lambda>r. make_expr E (BinaryExpr (at_token opToken) B_Pow l r))))
       else p_ret l))"

definition unary_op :: "token_type \<Rightarrow> un_op option" where
  "unary_op ty =
     (if ty = TT_Not then Some U_Not else if ty = TT_Char (CHR ''-'') then Some U_Neg
      else if ty = TT_Char (CHR ''#'') then Some U_Len else None)"

definition parseUnaryExpr :: "parser_env \<Rightarrow> rules \<Rightarrow> expr parser" where
  "parseUnaryExpr E R =
     p_bind p_current (\<lambda>opToken. case unary_op (tk_type opToken) of
         Some op \<Rightarrow> p_seq (p_advance E)
           (p_bind (r_unary R) (\<lambda>operand. make_expr E (UnaryExpr (at_token opToken) op operand)))
       | None \<Rightarrow> parsePowerExpr E R)"

definition multiplicative_op :: "token_type \<Rightarrow> bin_op option" where
  "multiplicative_op ty =
     (if ty = TT_Char (CHR ''*'') then Some B_Mul else if ty = TT_Char (CHR ''/'') then Some B_Div
      else if ty = TT_Char (CHR ''%'') then Some B_Mod else None)"

definition parseMultiplicativeExpr :: "parser_env \<Rightarrow> rules \<Rightarrow> expr parser" where
  "parseMultiplicativeExpr E R = left_assoc E (r_turns R) multiplicative_op (parseUnaryExpr E R)"

definition additive_op :: "token_type \<Rightarrow> bin_op option" where
  "additive_op ty = (if ty = TT_Char (CHR ''+'') then Some B_Add else if ty = TT_Char (CHR ''-'') then Some B_Sub else None)"

definition parseAdditiveExpr :: "parser_env \<Rightarrow> rules \<Rightarrow> expr parser" where
  "parseAdditiveExpr E R = left_assoc E (r_turns R) additive_op (parseMultiplicativeExpr E R)"

definition parseConcatExpr :: "parser_env \<Rightarrow> rules \<Rightarrow> expr parser" where
  "parseConcatExpr E R =
     p_bind (parseAdditiveExpr E R) (\<lambda>l. p_bind p_current (\<lambda>opToken.
       if tk_type opToken = TT_Concat then
         p_seq (p_advance E)
           (syntax_guarded MAX_RIGHT_ASSOC_RECURSION_DEPTH
             (p_bind (r_concat R) (\<lambda>r. make_expr E (BinaryExpr (at_token opToken) B_Concat l r))))
       else p_ret l))"

definition relational_op :: "token_type \<Rightarrow> bin_op option" where
  "relational_op ty =
     (if ty = TT_Char (CHR ''<'') then Some B_Lt else if ty = TT_Char (CHR ''>'') then Some B_Gt
      else if ty = TT_Le then Some B_Le else if ty = TT_Ge then Some B_Ge
      else if ty = TT_Eq then Some B_Eq else if ty = TT_Ne then Some B_Ne else None)"

definition parseRelationalExpr :: "parser_env \<Rightarrow> rules \<Rightarrow> expr parser" where
  "parseRelationalExpr E R = left_assoc E (r_turns R) relational_op (parseConcatExpr E R)"

definition and_op :: "token_type \<Rightarrow> bin_op option" where
  "and_op ty = (if ty = TT_And then Some B_And else None)"

definition parseAndExpr :: "parser_env \<Rightarrow> rules \<Rightarrow> expr parser" where
  "parseAndExpr E R = left_assoc E (r_turns R) and_op (parseRelationalExpr E R)"

definition or_op :: "token_type \<Rightarrow> bin_op option" where
  "or_op ty = (if ty = TT_Or then Some B_Or else None)"

definition parseOrExpr :: "parser_env \<Rightarrow> rules \<Rightarrow> expr parser" where
  "parseOrExpr E R = left_assoc E (r_turns R) or_op (parseAndExpr E R)"

definition parseExpression :: "parser_env \<Rightarrow> rules \<Rightarrow> expr parser" where
  "parseExpression E R = syntax_guarded MAX_RECURSION_DEPTH (parseOrExpr E R)"

section \<open>Statements\<close>

definition block_end :: "token_type \<Rightarrow> bool" where
  "block_end ty \<longleftrightarrow> ty \<in> {TT_Eos, TT_End, TT_Else, TT_Elseif, TT_Until}"

text \<open>The branches of an \<open>if\<close> from a condition on.\<close>

definition parse_branch :: "parser_env \<Rightarrow> rules \<Rightarrow> string \<Rightarrow> (expr \<times> stmt list) parser" where
  "parse_branch E R what =
     p_bind (r_expression R) (\<lambda>condition.
     p_seq (p_expect E TT_Then (quoted_message ''then'' ('' after '' @ what @ '' condition'')))
    (p_bind (r_block R) (\<lambda>body. p_ret (condition, body))))"

text \<open>The line of the current token, then the token itself.\<close>

definition parse_end :: "parser_env \<Rightarrow> token_type \<Rightarrow> string \<Rightarrow> int parser" where
  "parse_end E ty message = p_bind p_current (\<lambda>t. p_seq (p_expect E ty message) (p_ret (tk_line t)))"

definition elseif_turn ::
  "parser_env \<Rightarrow> rules \<Rightarrow> (expr \<times> stmt list) list \<Rightarrow> ((expr \<times> stmt list) list + (expr \<times> stmt list) list) parser" where
  "elseif_turn E R branches =
     p_bind (p_match E TT_Elseif) (\<lambda>more.
       if more then p_bind (parse_branch E R ''elseif'') (\<lambda>b. p_ret (Inl (branches @ [b]))) else p_ret (Inr branches))"

definition parse_elseifs :: "parser_env \<Rightarrow> rules \<Rightarrow> (expr \<times> stmt list) list \<Rightarrow> (expr \<times> stmt list) list parser" where
  "parse_elseifs E R = p_loop (r_turns R) (elseif_turn E R)"

definition parseIfStmt :: "parser_env \<Rightarrow> rules \<Rightarrow> stmt parser" where
  "parseIfStmt E R =
     p_bind p_current (\<lambda>t.
     p_seq (p_expect E TT_If (quoted_message ''if'' []))
    (p_bind (parse_branch E R ''if'') (\<lambda>first.
     p_bind (parse_elseifs E R [first]) (\<lambda>branches.
     p_bind (p_match E TT_Else) (\<lambda>otherwise.
     p_bind (if otherwise then r_block R else p_ret []) (\<lambda>elseBranch.
     p_bind (parse_end E TT_End (quoted_message ''end'' '' to close if statement'')) (\<lambda>endLine.
     make_stmt E (IfStmt (at_token t) branches elseBranch endLine))))))))"

definition parseWhileStmt :: "parser_env \<Rightarrow> rules \<Rightarrow> stmt parser" where
  "parseWhileStmt E R =
     p_bind p_current (\<lambda>t.
     p_seq (p_expect E TT_While (quoted_message ''while'' []))
    (p_bind (r_expression R) (\<lambda>condition.
     p_seq (p_expect E TT_Do (quoted_message ''do'' '' after while condition''))
    (p_bind (r_block R) (\<lambda>body.
     p_bind (parse_end E TT_End (quoted_message ''end'' '' to close while loop'')) (\<lambda>endLine.
     make_stmt E (WhileStmt (at_token t) condition body endLine)))))))"

definition parseDoStmt :: "parser_env \<Rightarrow> rules \<Rightarrow> stmt parser" where
  "parseDoStmt E R =
     p_bind p_current (\<lambda>t.
     p_seq (p_expect E TT_Do (quoted_message ''do'' []))
    (p_bind (r_block R) (\<lambda>body.
     p_bind (parse_end E TT_End (quoted_message ''end'' '' to close do block'')) (\<lambda>endLine.
     make_stmt E (DoStmt (at_token t) body endLine)))))"

definition parseRepeatStmt :: "parser_env \<Rightarrow> rules \<Rightarrow> stmt parser" where
  "parseRepeatStmt E R =
     p_bind p_current (\<lambda>t.
     p_seq (p_expect E TT_Repeat (quoted_message ''repeat'' []))
    (p_bind (r_block R) (\<lambda>body.
     p_bind (parse_end E TT_Until (quoted_message ''until'' '' to close repeat loop'')) (\<lambda>endLine.
     p_bind (r_expression R) (\<lambda>condition.
     make_stmt E (RepeatStmt (at_token t) body condition endLine))))))"

text \<open>The header of a generic \<open>for\<close> from its \<open>in\<close> on.\<close>

definition parse_for_in :: "parser_env \<Rightarrow> rules \<Rightarrow> token \<Rightarrow> string list \<Rightarrow> stmt parser" where
  "parse_for_in E R t vars =
     p_seq (p_expect E TT_In (quoted_message ''in'' '' in for-in loop''))
    (p_bind (parseExprList E R) (\<lambda>iterators.
     p_seq (p_expect E TT_Do (quoted_message ''do'' '' after for-in header''))
    (p_bind (r_block R) (\<lambda>body.
     p_bind (parse_end E TT_End (quoted_message ''end'' '' to close for-in loop'')) (\<lambda>endLine.
     make_stmt E (ForInStmt (at_token t) vars iterators body endLine))))))"

definition parse_for_num :: "parser_env \<Rightarrow> rules \<Rightarrow> token \<Rightarrow> string \<Rightarrow> stmt parser" where
  "parse_for_num E R t var =
     p_bind (r_expression R) (\<lambda>init.
     p_seq (p_expect E (TT_Char (CHR '','')) (quoted_message '','' '' after for init value''))
    (p_bind (r_expression R) (\<lambda>limit.
     p_bind (p_match E (TT_Char (CHR '',''))) (\<lambda>given.
     p_bind (if given then r_expression R
             else p_bind p_current (\<lambda>t1. make_expr E (NumberExpr (at_token t1) (f64_of_int 1)))) (\<lambda>step.
     p_seq (p_expect E TT_Do (quoted_message ''do'' '' after for header''))
    (p_bind (r_block R) (\<lambda>body.
     p_bind (parse_end E TT_End (quoted_message ''end'' '' to close for loop'')) (\<lambda>endLine.
     make_stmt E (ForNumStmt (at_token t) var init limit step body endLine)))))))))"

definition parseForStmt :: "parser_env \<Rightarrow> rules \<Rightarrow> stmt parser" where
  "parseForStmt E R =
     p_bind p_current (\<lambda>t.
     p_seq (p_expect E TT_For (quoted_message ''for'' []))
    (p_bind (p_name E (''Expected variable name after '' @ [CHR 0x27] @ ''for'' @ [CHR 0x27])) (\<lambda>var.
     p_bind (p_match E (TT_Char (CHR ''=''))) (\<lambda>numeric.
       if numeric then parse_for_num E R t var
       else p_bind (p_match E (TT_Char (CHR '',''))) (\<lambda>several.
         if several then
           p_bind (p_items E (r_turns R) (p_name E ''Expected variable name in for-in loop'') [var]) (parse_for_in E R t)
         else p_bind (p_check TT_In) (\<lambda>isIn.
           if isIn then parse_for_in E R t [var]
           else p_error (quoted_message ''='' ('' or '' @ [CHR 0x27] @ ''in'' @ [CHR 0x27] @ '' after for variable''))))))))"

text \<open>The path of a function name: the names read so far without the last one, the last one, and whether it is a
  method.\<close>

definition path_turn :: "parser_env \<Rightarrow> string list \<times> string \<Rightarrow> ((string list \<times> string) + (string list \<times> string \<times> bool)) parser" where
  "path_turn E = (\<lambda>(tablePath, name).
     p_bind (p_match E (TT_Char (CHR ''.''))) (\<lambda>dot.
       if dot then
         p_bind (p_name E (''Expected field name after '' @ [CHR 0x27] @ ''.'' @ [CHR 0x27])) (\<lambda>field.
           p_ret (Inl (tablePath @ [name], field)))
       else p_bind (p_match E (TT_Char (CHR '':''))) (\<lambda>colon.
         if colon then
           p_bind (p_name E (''Expected method name after '' @ [CHR 0x27] @ '':'' @ [CHR 0x27])) (\<lambda>method.
             p_ret (Inr (tablePath @ [name], method, True)))
         else p_ret (Inr (tablePath, name, False)))))"

definition function_path :: "parser_env \<Rightarrow> rules \<Rightarrow> string \<Rightarrow> (string list \<times> string \<times> bool) parser" where
  "function_path E R name = p_loop (r_turns R) (path_turn E) ([], name)"

definition parseFunctionStmt :: "parser_env \<Rightarrow> rules \<Rightarrow> stmt parser" where
  "parseFunctionStmt E R =
     p_bind p_current (\<lambda>t.
     p_seq (p_expect E TT_Function (quoted_message ''function'' []))
    (p_bind (p_name E ''Expected function name'') (\<lambda>name0.
     p_bind (function_path E R name0) (\<lambda>(tablePath, name, isMethod).
     p_bind (parse_function_rest E R (tk_line t) '' after function name'' isMethod) (\<lambda>(params, isVararg, body, endLine).
     make_stmt E (FunctionStmt (at_token t) name tablePath isMethod params isVararg body False endLine))))))"

definition parse_local_function :: "parser_env \<Rightarrow> rules \<Rightarrow> token \<Rightarrow> stmt parser" where
  "parse_local_function E R t =
     p_bind p_current (\<lambda>t1.
       if \<not> is_name t1 then p_error (''Expected function name after '' @ [CHR 0x27] @ ''local function'' @ [CHR 0x27])
       else
         p_seq (declareLocalName (p_tokenString t1) t1)
        (p_seq (p_advance E)
        (p_bind (parse_function_rest E R (tk_line t) '' after function name'' False) (\<lambda>(params, isVararg, body, endLine).
         make_stmt E (FunctionStmt (at_token t) (p_tokenString t1) [] False params isVararg body True endLine)))))"

definition parse_local_name :: "parser_env \<Rightarrow> string parser" where
  "parse_local_name E =
     p_bind p_current (\<lambda>t1.
       if \<not> is_name t1 then p_error ''Expected variable name in local statement''
       else p_seq (declareLocalName (p_tokenString t1) t1) (p_seq (p_advance E) (p_ret (p_tokenString t1))))"

definition parseLocalStmt :: "parser_env \<Rightarrow> rules \<Rightarrow> stmt parser" where
  "parseLocalStmt E R =
     p_bind p_current (\<lambda>t.
     p_seq (p_expect E TT_Local (quoted_message ''local'' []))
    (p_bind (p_match E TT_Function) (\<lambda>isFunction.
       if isFunction then parse_local_function E R t
       else
         p_bind (p_items E (r_turns R) (parse_local_name E) []) (\<lambda>names.
         p_bind (p_match E (TT_Char (CHR ''=''))) (\<lambda>given.
         p_bind (if given then parseExprList E R else p_ret []) (\<lambda>values.
         make_stmt E (LocalStmt (at_token t) names values)))))))"

definition parseReturnStmt :: "parser_env \<Rightarrow> rules \<Rightarrow> stmt parser" where
  "parseReturnStmt E R =
     p_bind p_current (\<lambda>t.
     p_seq (p_expect E TT_Return (quoted_message ''return'' []))
    (p_bind p_current (\<lambda>t1.
     p_bind (if block_end (tk_type t1) \<or> tk_type t1 = TT_Char (CHR '';'') then p_ret [] else parseExprList E R) (\<lambda>values.
     p_bind (p_match E (TT_Char (CHR '';''))) (\<lambda>_.
     make_stmt E (ReturnStmt (at_token t) values))))))"

definition parseBreakStmt :: "parser_env \<Rightarrow> stmt parser" where
  "parseBreakStmt E =
     p_bind p_current (\<lambda>t.
     p_seq (p_expect E TT_Break (quoted_message ''break'' []))
       (make_stmt E (BreakStmt (at_token t))))"

fun is_call :: "expr \<Rightarrow> bool" where
  "is_call (CallExpr p f args m) = True"
| "is_call _ = False"

definition parse_assignment :: "parser_env \<Rightarrow> rules \<Rightarrow> location \<Rightarrow> expr list \<Rightarrow> stmt parser" where
  "parse_assignment E R loc targets = p_bind (parseExprList E R) (\<lambda>values. make_stmt E (AssignStmt loc targets values))"

definition parseExprStmt :: "parser_env \<Rightarrow> rules \<Rightarrow> stmt parser" where
  "parseExprStmt E R =
     p_bind p_current (\<lambda>firstToken.
     p_bind (parseExpression E R) (\<lambda>e.
     p_bind (p_match E (TT_Char (CHR '',''))) (\<lambda>several.
       if several then
         p_bind (p_items E (r_turns R) (r_expression R) [e]) (\<lambda>targets.
         p_seq (p_expect E (TT_Char (CHR ''='')) (quoted_message ''='' '' in assignment''))
           (parse_assignment E R (expr_getLine e, expr_getColumn e) targets))
       else p_bind (p_match E (TT_Char (CHR ''=''))) (\<lambda>single.
         if single then parse_assignment E R (expr_getLine e, expr_getColumn e) [e]
         else if is_call e then make_stmt E (CallStmt (expr_getLine e, expr_getColumn e) e)
         else p_bind p_current (\<lambda>t. errorAt (if tk_type t = TT_Eos then firstToken else t) ''unexpected symbol'')))))"

definition parseStatement :: "parser_env \<Rightarrow> rules \<Rightarrow> stmt parser" where
  "parseStatement E R =
     p_bind p_current (\<lambda>t. case tk_type t of
         TT_If \<Rightarrow> parseIfStmt E R
       | TT_While \<Rightarrow> parseWhileStmt E R
       | TT_Do \<Rightarrow> parseDoStmt E R
       | TT_For \<Rightarrow> parseForStmt E R
       | TT_Repeat \<Rightarrow> parseRepeatStmt E R
       | TT_Function \<Rightarrow> parseFunctionStmt E R
       | TT_Local \<Rightarrow> parseLocalStmt E R
       | TT_Break \<Rightarrow> parseBreakStmt E
       | _ \<Rightarrow> parseExprStmt E R)"

text \<open>Skipping to where a statement may begin.\<close>

definition synchronize :: "parser_env \<Rightarrow> rules \<Rightarrow> unit parser" where
  "synchronize E R =
     p_loop (r_turns R) (\<lambda>_. p_bind p_current (\<lambda>t.
       if tk_type t = TT_Eos then p_ret (Inr ())
       else if tk_type t = TT_Char (CHR '';'') then p_seq (p_advance E) (p_ret (Inr ()))
       else if tk_type t \<in> {TT_End, TT_Else, TT_Elseif, TT_Until, TT_Local, TT_Function, TT_If, TT_While, TT_For,
                 TT_Repeat, TT_Return, TT_Break} then p_ret (Inr ())
       else p_seq (p_advance E) (p_ret (Inl ())))) ()"

text \<open>\<open>try \<dots> catch (const ParseError&)\<close> around a statement, with the recovery of the chosen strategy.\<close>

definition recovering :: "parser_env \<Rightarrow> rules \<Rightarrow> 'a \<Rightarrow> 'a parser \<Rightarrow> 'a parser" where
  "recovering E R dflt m s =
     (case m s of
        (PT_Fail (PX_Parse e), s1) \<Rightarrow>
          (if pn_mode E = FailFast then (PT_Fail (PX_Parse e), s1) else p_seq (synchronize E R) (p_ret dflt) s1)
      | r \<Rightarrow> r)"

text \<open>One turn of the loop of \<open>parseBlock\<close>: the statements so far and whether a separator may follow.\<close>

definition block_step :: "parser_env \<Rightarrow> rules \<Rightarrow> stmt list \<times> bool \<Rightarrow> ((stmt list \<times> bool) + stmt list) parser" where
  "block_step E R = (\<lambda>(statements, mayConsumeSeparator).
     p_bind p_current (\<lambda>t.
       if block_end (tk_type t) then p_ret (Inr statements)
       else recovering E R (Inl (statements, mayConsumeSeparator))
        (if tk_type t = TT_Char (CHR '';'') then
           if mayConsumeSeparator then p_seq (p_advance E) (p_ret (Inl (statements, False)))
           else errorAt t ''unexpected symbol''
         else if tk_type t = TT_Return then
           p_bind (parseReturnStmt E R) (\<lambda>st. p_ret (Inr (statements @ [st])))
         else p_bind (parseStatement E R) (\<lambda>st. p_ret (Inl (statements @ [st], True))))))"

definition parseBlock :: "parser_env \<Rightarrow> rules \<Rightarrow> stmt list parser" where
  "parseBlock E R = syntax_guarded MAX_BLOCK_RECURSION_DEPTH (p_loop (r_turns R) (block_step E R) ([], False))"

section \<open>The parser\<close>

fun rules_at :: "parser_env \<Rightarrow> nat \<Rightarrow> rules" where
  "rules_at E 0 = \<lparr>r_expression = p_timeout, r_concat = p_timeout, r_unary = p_timeout, r_block = p_timeout, r_turns = 0\<rparr>"
| "rules_at E (Suc n) =
     (let R = rules_at E n in
      \<lparr>r_expression = parseExpression E R, r_concat = parseConcatExpr E R, r_unary = parseUnaryExpr E R,
       r_block = parseBlock E R, r_turns = Suc n\<rparr>)"

text \<open>The constructor checks the source and reads the first token; \<open>no_token\<close> stands for the tokens before that.\<close>

definition no_token :: token where
  "no_token = \<lparr>tk_type = TT_Eos, tk_value = TV_None, tk_lexeme = [], tk_errorMessage = [], tk_line = 0, tk_column = 0\<rparr>"

definition start_state :: "compilation_policy \<Rightarrow> exec_policy option \<Rightarrow> string \<Rightarrow> pstate" where
  "start_state policy execution source =
     \<lparr>pz_lexer = new_lexer source, pz_current = no_token, pz_previous = no_token, pz_depth = 0,
      pz_budget = new_compilation_budget policy execution, pz_polls = 0, pz_scopes = [], pz_diagnostics = []\<rparr>"

definition new_parser :: "parser_env \<Rightarrow> compilation_policy \<Rightarrow> exec_policy option \<Rightarrow> string \<Rightarrow> unit parsed \<times> pstate" where
  "new_parser E policy execution source =
     p_seq (p_charge E (\<lambda>now. cb_checkSource now (length source)))
    (p_seq (p_advance E) (\<lambda>s. (PT_Ok (), s\<lparr>pz_previous := pz_current s\<rparr>)))
    (start_state policy execution source)"

definition compilation_message :: "compilation_error \<Rightarrow> string" where
  "compilation_message e =
     (case e of
        CE_Deadline \<Rightarrow> ''compilation deadline exceeded''
      | CE_SourceBytes \<Rightarrow> ''compilation source byte limit exceeded''
      | CE_Tokens \<Rightarrow> ''compilation token limit exceeded''
      | CE_AstNodes \<Rightarrow> ''compilation AST node limit exceeded''
      | CE_Functions \<Rightarrow> ''compilation function limit exceeded''
      | CE_Constants \<Rightarrow> ''compilation constant limit exceeded''
      | CE_Instructions \<Rightarrow> ''compilation instruction limit exceeded''
      | CE_StringBytes \<Rightarrow> ''compilation string byte limit exceeded''
      | CE_Interrupted \<Rightarrow> ''compilation interrupted by execution policy'')"

text \<open>The body of \<open>parse\<close>: the chunk and, after a recovery, the first diagnostic.\<close>

definition parse_chunk :: "parser_env \<Rightarrow> rules \<Rightarrow> (parse_error + stmt list) parser" where
  "parse_chunk E R =
     p_seq (\<lambda>s. (PT_Ok (), s\<lparr>pz_diagnostics := [], pz_scopes := []\<rparr>))
    (p_seq (enterFunctionSyntaxScope E 1 [])
    (p_bind (parseBlock E R) (\<lambda>statements.
     p_bind (p_check TT_Eos) (\<lambda>ended.
     p_seq (if ended then p_ret () else p_error ''Expected end of file'')
    (p_bind (p_gets pz_diagnostics) (\<lambda>ds.
     p_ret (case ds of [] \<Rightarrow> Inr statements | d # _ \<Rightarrow> Inl d)))))))"

definition parse :: "parser_env \<Rightarrow> rules \<Rightarrow> (parse_error + stmt list) parser" where
  "parse E R s =
     (case parse_chunk E R s of
        (PT_Fail (PX_Parse e), s1) \<Rightarrow> (PT_Ok (Inl e), s1)
      | (PT_Fail (PX_Limit e), s1) \<Rightarrow> (PT_Ok (Inl (parse_error_at (compilation_message e) (pz_current s1))), s1)
      | r \<Rightarrow> r)"


text \<open>A parser made for a text and run once.\<close>

definition parse_text ::
  "parser_env \<Rightarrow> nat \<Rightarrow> compilation_policy \<Rightarrow> exec_policy option \<Rightarrow> string \<Rightarrow> (parse_error + stmt list) parsed \<times> pstate" where
  "parse_text E n policy execution source =
     (case new_parser E policy execution source of
        (PT_Ok _, s) \<Rightarrow> parse E (rules_at E n) s
      | (PT_Fail e, s) \<Rightarrow> (PT_Fail e, s)
      | (PT_Timeout, s) \<Rightarrow> (PT_Timeout, s))"

end
