(* ===== verification/ParserRules.thy ===== *)
theory ParserRules
  imports Parser LexerProps
begin

text \<open>
  Reasoning about parsers: the stream of the tokens still to come, a triple \<open>gives\<close> that says which tokens a
  successful run has read, and a rule for each of the building blocks of \<^verbatim>\<open>Parser\<close>.
\<close>

named_theorems parser_rules

section \<open>Sources of tokens\<close>

fun token_at :: "('s \<Rightarrow> token \<times> 's) \<Rightarrow> 's \<Rightarrow> nat \<Rightarrow> token" where
  "token_at nxt s 0 = fst (nxt s)"
| "token_at nxt s (Suc n) = token_at nxt (snd (nxt s)) n"

text \<open>What the parser relies on: looking at a token does not read it.\<close>

locale token_source =
  fixes nxt :: "'s \<Rightarrow> token \<times> 's" and pk :: "'s \<Rightarrow> token \<times> 's" and ok :: "'s \<Rightarrow> bool"
  assumes ok_next: "ok s \<Longrightarrow> ok (snd (nxt s))"
    and ok_peek: "ok s \<Longrightarrow> ok (snd (pk s))"
    and peek_next: "ok s \<Longrightarrow> nxt (snd (pk s)) = nxt s"
    and peek_token: "ok s \<Longrightarrow> fst (pk s) = fst (nxt s)"
begin

lemma peek_stream: "ok s \<Longrightarrow> token_at nxt (snd (pk s)) n = token_at nxt s n"
  by (cases n) (simp_all add: peek_next)

lemma peek_head: "ok s \<Longrightarrow> fst (pk s) = token_at nxt s 0"
  by (simp add: peek_token)

end

definition lexer_ok :: "lexer \<Rightarrow> bool" where
  "lexer_ok lx \<longleftrightarrow> (\<exists>src before. has_read src before lx)"

lemma has_read_lookahead [simp]: "has_read src before (lx\<lparr>lx_lookahead := t\<rparr>) \<longleftrightarrow> has_read src before lx"
  by (simp add: has_read_def)

lemma lexer_ok_lookahead [simp]: "lexer_ok (lx\<lparr>lx_lookahead := t\<rparr>) \<longleftrightarrow> lexer_ok lx"
  by (simp add: lexer_ok_def)

lemma lexer_ok_scan: "lexer_ok lx \<Longrightarrow> scanToken E lx = (t, lx') \<Longrightarrow> lexer_ok lx'"
  using scanToken_spec unfolding lexer_ok_def by blast

interpretation scanner: token_source "nextToken E" "peekToken E" lexer_ok for E
proof
  fix lx assume ok: "lexer_ok lx"
  show "lexer_ok (snd (nextToken E lx))"
    using ok lexer_ok_scan [OF ok] by (auto simp: nextToken_def split: option.split) (metis prod.collapse)
  show "lexer_ok (snd (peekToken E lx))"
    using ok lexer_ok_scan [OF ok] by (auto simp: peekToken_def split: option.split prod.split)
  show "nextToken E (snd (peekToken E lx)) = nextToken E lx" "fst (peekToken E lx) = fst (nextToken E lx)"
    using ok peek_then_next unfolding lexer_ok_def by blast+
qed

section \<open>What a run has read\<close>

definition token_stream :: "parser_env \<Rightarrow> pstate \<Rightarrow> nat \<Rightarrow> token" where
  "token_stream E s i = (case i of 0 \<Rightarrow> pz_current s | Suc j \<Rightarrow> token_at (nextToken (pn_lexer E)) (pz_lexer s) j)"

definition p_ok :: "pstate \<Rightarrow> bool" where
  "p_ok s \<longleftrightarrow> lexer_ok (pz_lexer s)"

definition reads :: "parser_env \<Rightarrow> pstate \<Rightarrow> token list \<Rightarrow> pstate \<Rightarrow> bool" where
  "reads E s ts s' \<longleftrightarrow>
     p_ok s' \<and> (\<forall>i. token_stream E s i = (if i < length ts then ts ! i else token_stream E s' (i - length ts))) \<and>
     pz_previous s' = last (pz_previous s # ts)"

lemma reads_refl: "p_ok s \<Longrightarrow> reads E s [] s"
  by (simp add: reads_def)

lemma last_append_Cons: "last (x # us @ vs) = last (last (x # us) # vs)"
  by (cases vs) (simp_all add: last_append)

lemma reads_trans:
  assumes "reads E s us s1" "reads E s1 vs s2"
  shows "reads E s (us @ vs) s2"
  using assms by (auto simp: reads_def nth_append last_append_Cons)

lemma reads_current: "reads E s [] s' \<Longrightarrow> pz_current s' = pz_current s" "reads E s [] s' \<Longrightarrow> pz_previous s' = pz_previous s"
proof -
  assume "reads E s [] s'"
  then have "token_stream E s 0 = token_stream E s' 0" "pz_previous s' = pz_previous s" by (simp_all add: reads_def)
  then show "pz_current s' = pz_current s" "pz_previous s' = pz_previous s" by (simp_all add: token_stream_def)
qed

lemma reads_stream: "reads E s [] s' \<Longrightarrow> token_stream E s' = token_stream E s"
  by (auto simp: reads_def)

lemma reads_ok [dest]: "reads E s ts s' \<Longrightarrow> p_ok s'"
  by (simp add: reads_def)

text \<open>States that differ in the books of the parser only.\<close>

lemma same_tokens:
  assumes "pz_lexer s' = pz_lexer s" "pz_current s' = pz_current s" "pz_previous s' = pz_previous s" "p_ok s"
  shows "reads E s [] s'"
proof -
  have "token_stream E s' i = token_stream E s i" for i
    using assms by (cases i) (simp_all add: token_stream_def)
  then show ?thesis using assms by (simp add: reads_def p_ok_def)
qed

lemma p_charge_ok:
  assumes "p_charge E f s = (PT_Ok x, s')" "p_ok s"
  shows "reads E s [] s'"
  by (rule same_tokens)
    (use assms in \<open>auto simp: p_charge_def Let_def split: prod.splits option.splits\<close>)

lemma p_advance_ok:
  assumes "p_advance E s = (PT_Ok x, s')" "p_ok s"
  shows "reads E s [pz_current s] s'"
proof -
  obtain r s1 where c: "p_charge E (\<lambda>now. cb_consumeToken now 1) (s\<lparr>pz_previous := pz_current s\<rparr>) = (r, s1)" by fastforce
  then have same: "pz_lexer s1 = pz_lexer s" "pz_previous s1 = pz_current s"
    by (auto simp: p_charge_def Let_def split: prod.splits option.splits)
  obtain t lx where n: "nextToken (pn_lexer E) (pz_lexer s) = (t, lx)" by fastforce
  have s': "s' = s1\<lparr>pz_lexer := lx, pz_current := t\<rparr>"
    using assms(1) c n same by (auto simp: p_advance_def p_seq_def p_bind_def split: parsed.splits)
  have "token_stream E s i = (if i < 1 then pz_current s else token_stream E s' (i - 1))" for i
  proof (cases i)
    case (Suc j)
    then show ?thesis using n s' by (cases j) (simp_all add: token_stream_def)
  qed (simp add: token_stream_def)
  moreover have "p_ok s'" using scanner.ok_next [of "pz_lexer s" "pn_lexer E"] assms(2) n s' by (simp add: p_ok_def)
  ultimately show ?thesis using same s' by (auto simp: reads_def)
qed

lemma p_peek_ok:
  assumes "p_peek E s = (x, s')" "p_ok s"
  shows "reads E s [] s' \<and> x = PT_Ok (token_stream E s 1)"
proof -
  obtain t lx where p: "peekToken (pn_lexer E) (pz_lexer s) = (t, lx)" by fastforce
  have s': "s' = s\<lparr>pz_lexer := lx\<rparr>" "x = PT_Ok t" using assms(1) p by (auto simp: p_peek_def)
  have "token_stream E s' i = token_stream E s i" for i
    using scanner.peek_stream [of "pz_lexer s" "pn_lexer E"] assms(2) p s' by (cases i) (simp_all add: token_stream_def p_ok_def)
  moreover have "p_ok s'" using scanner.ok_peek [of "pz_lexer s" "pn_lexer E"] assms(2) p s' by (simp add: p_ok_def)
  moreover have "t = token_stream E s 1"
    using scanner.peek_head [of "pz_lexer s" "pn_lexer E"] assms(2) p by (simp add: token_stream_def p_ok_def)
  ultimately show ?thesis using s' by (simp add: reads_def)
qed

section \<open>The triple\<close>

definition gives :: "parser_env \<Rightarrow> pstate \<Rightarrow> 'a parser \<Rightarrow> (token list \<Rightarrow> 'a \<Rightarrow> bool) \<Rightarrow> bool" where
  "gives E s m Q \<longleftrightarrow> (p_ok s \<longrightarrow> (\<forall>x s'. m s = (PT_Ok x, s') \<longrightarrow> (\<exists>ts. reads E s ts s' \<and> Q ts x)))"

lemma givesI: "(\<And>x s'. p_ok s \<Longrightarrow> m s = (PT_Ok x, s') \<Longrightarrow> \<exists>ts. reads E s ts s' \<and> Q ts x) \<Longrightarrow> gives E s m Q"
  unfolding gives_def by blast

lemma givesD: "gives E s m Q \<Longrightarrow> p_ok s \<Longrightarrow> m s = (PT_Ok x, s') \<Longrightarrow> \<exists>ts. reads E s ts s' \<and> Q ts x"
  unfolding gives_def by blast

lemma gives_weaken: "gives E s m P \<Longrightarrow> (\<And>ts x. P ts x \<Longrightarrow> Q ts x) \<Longrightarrow> gives E s m Q"
  unfolding gives_def by blast

lemma gives_bind:
  assumes "gives E s m P"
    and "\<And>us x s1. reads E s us s1 \<Longrightarrow> P us x \<Longrightarrow> gives E s1 (f x) (\<lambda>vs. Q (us @ vs))"
  shows "gives E s (p_bind m f) Q"
proof (rule givesI)
  fix y s' assume ok: "p_ok s" and run: "p_bind m f s = (PT_Ok y, s')"
  then obtain x s1 where m: "m s = (PT_Ok x, s1)" and f: "f x s1 = (PT_Ok y, s')"
    by (auto simp: p_bind_def split: prod.splits parsed.splits)
  obtain us where us: "reads E s us s1" "P us x" using givesD [OF assms(1) ok m] by blast
  then obtain vs where "reads E s1 vs s'" "Q (us @ vs) y" using givesD [OF assms(2) [OF us] _ f] by blast
  then show "\<exists>ts. reads E s ts s' \<and> Q ts y" using reads_trans [OF us(1)] by blast
qed

lemma gives_ret [parser_rules]: "Q [] x \<Longrightarrow> gives E s (p_ret x) Q"
  unfolding gives_def p_ret_def using reads_refl by blast

lemma gives_fail [parser_rules]: "gives E s (p_fail e) Q" "gives E s p_timeout Q"
  unfolding gives_def p_fail_def p_timeout_def by blast+

lemma gives_error [parser_rules]: "gives E s (errorAt t msg) Q" "gives E s (p_error msg) Q"
  unfolding gives_def errorAt_def p_error_def
  by (auto simp: p_seq_def p_bind_def p_gets_def publishDiagnostic_def p_fail_def Let_def)

lemma gives_gets [parser_rules]: "gives E s (f (g s)) Q \<Longrightarrow> gives E s (p_bind (p_gets g) f) Q"
  unfolding gives_def by (simp add: p_bind_def p_gets_def)

lemma gives_advance [parser_rules]: "Q [pz_current s] () \<Longrightarrow> gives E s (p_advance E) Q"
  unfolding gives_def using p_advance_ok by fastforce

lemma gives_seq:
  assumes "gives E s m P" "\<And>us s1. reads E s us s1 \<Longrightarrow> P us () \<Longrightarrow> gives E s1 k (\<lambda>vs. Q (us @ vs))"
  shows "gives E s (p_seq m k) Q"
  unfolding p_seq_def using gives_bind [OF assms(1), of "\<lambda>_. k" Q] assms(2) by simp

lemma gives_seq_advance [parser_rules]:
  assumes "\<And>s1. reads E s [pz_current s] s1 \<Longrightarrow> gives E s1 k (\<lambda>vs. Q (pz_current s # vs))"
  shows "gives E s (p_seq (p_advance E) k) Q"
  by (rule gives_seq [where P = "\<lambda>us _. us = [pz_current s]"]) (use assms in \<open>auto intro: gives_advance\<close>)

lemma gives_seq_free:
  assumes "\<And>x s'. p_ok s \<Longrightarrow> m s = (PT_Ok x, s') \<Longrightarrow> reads E s [] s'"
    and "\<And>s1. reads E s [] s1 \<Longrightarrow> pz_current s1 = pz_current s \<Longrightarrow> pz_previous s1 = pz_previous s \<Longrightarrow> gives E s1 k Q"
  shows "gives E s (p_seq m k) Q"
  by (rule gives_seq [where P = "\<lambda>us _. us = []"]) (use assms reads_current in \<open>auto simp: gives_def\<close>)

lemma gives_match [parser_rules]:
  assumes "\<And>s1. tk_type (pz_current s) = ty \<Longrightarrow> reads E s [pz_current s] s1 \<Longrightarrow> gives E s1 (f True) (\<lambda>vs. Q (pz_current s # vs))"
    and "tk_type (pz_current s) \<noteq> ty \<Longrightarrow> gives E s (f False) Q"
  shows "gives E s (p_bind (p_match E ty) f) Q"
proof (cases "tk_type (pz_current s) = ty")
  case True
  then have "p_bind (p_match E ty) f s = p_seq (p_advance E) (f True) s"
    by (simp add: p_match_def p_check_def p_bind_def p_seq_def p_gets_def p_ret_def split: prod.split parsed.split)
  then show ?thesis using gives_seq_advance [of E s "f True" Q] assms(1) True by (simp add: gives_def)
next
  case False
  then have "p_bind (p_match E ty) f s = f False s" by (simp add: p_match_def p_check_def p_bind_def p_gets_def p_ret_def)
  then show ?thesis using assms(2) False by (simp add: gives_def)
qed

lemma gives_check [parser_rules]:
  assumes "tk_type (pz_current s) = ty \<Longrightarrow> gives E s (f True) Q" "tk_type (pz_current s) \<noteq> ty \<Longrightarrow> gives E s (f False) Q"
  shows "gives E s (p_bind (p_check ty) f) Q"
  unfolding p_check_def by (rule gives_gets) (cases "tk_type (pz_current s) = ty"; use assms in simp)

lemma gives_expect [parser_rules]:
  assumes "\<And>s1. tk_type (pz_current s) = ty \<Longrightarrow> reads E s [pz_current s] s1 \<Longrightarrow> gives E s1 k (\<lambda>vs. Q (pz_current s # vs))"
  shows "gives E s (p_seq (p_expect E ty msg) k) Q"
proof -
  have "p_seq (p_expect E ty msg) k = p_bind (p_match E ty) (\<lambda>ok. if ok then k else p_error msg)"
  proof
    fix s show "p_seq (p_expect E ty msg) k s = p_bind (p_match E ty) (\<lambda>ok. if ok then k else p_error msg) s"
      by (auto simp: p_seq_def p_expect_def p_bind_def p_ret_def p_error_def p_gets_def errorAt_def Let_def publishDiagnostic_def p_fail_def
          split: prod.split parsed.split)
  qed
  then show ?thesis using assms by (auto intro!: gives_match gives_error)
qed

lemma gives_name [parser_rules]:
  assumes "\<And>s1. is_name (pz_current s) \<Longrightarrow> reads E s [pz_current s] s1 \<Longrightarrow>
      gives E s1 (f (p_tokenString (pz_current s))) (\<lambda>vs. Q (pz_current s # vs))"
  shows "gives E s (p_bind (p_name E msg) f) Q"
proof (rule gives_bind [where P = "\<lambda>us x. is_name (pz_current s) \<and> us = [pz_current s] \<and> x = p_tokenString (pz_current s)"])
  show "gives E s (p_name E msg) (\<lambda>us x. is_name (pz_current s) \<and> us = [pz_current s] \<and> x = p_tokenString (pz_current s))"
    unfolding p_name_def by (rule gives_gets) (auto intro!: parser_rules)
qed (use assms in auto)

lemma makeNode_ok: "makeNode E e s = (PT_Ok x, s') \<Longrightarrow> p_ok s \<Longrightarrow> x = e \<and> reads E s [] s'"
  using p_charge_ok [of E "\<lambda>now. cb_consumeAstNode now 1" s "()" s']
  by (auto simp: makeNode_def p_seq_def p_bind_def p_ret_def split: prod.splits parsed.splits)

lemma gives_node [parser_rules]: "Q [] x \<Longrightarrow> gives E s (makeNode E x) Q"
  by (rule givesI) (metis makeNode_ok)

lemma gives_bind_node [parser_rules]:
  assumes "\<And>s1. reads E s [] s1 \<Longrightarrow> pz_current s1 = pz_current s \<Longrightarrow> pz_previous s1 = pz_previous s \<Longrightarrow> gives E s1 (f x) Q"
  shows "gives E s (p_bind (makeNode E x) f) Q"
  by (rule gives_bind [where P = "\<lambda>us y. us = [] \<and> y = x"]) (use assms reads_current in \<open>auto intro: gives_node\<close>)

lemma gives_peek [parser_rules]:
  assumes "\<And>s1. reads E s [] s1 \<Longrightarrow> pz_current s1 = pz_current s \<Longrightarrow> gives E s1 (f (token_stream E s1 1)) Q"
  shows "gives E s (p_bind (p_peek E) f) Q"
proof (rule gives_bind [where P = "\<lambda>us y. us = [] \<and> y = token_stream E s 1"])
  show "gives E s (p_peek E) (\<lambda>us y. us = [] \<and> y = token_stream E s 1)"
    unfolding gives_def using p_peek_ok by blast
next
  fix us y s1 assume r: "reads E s us s1" "us = [] \<and> y = token_stream E s 1"
  then have r0: "reads E s [] s1" "y = token_stream E s1 1" using reads_stream [of E s s1] by auto
  show "gives E s1 (f y) (\<lambda>vs. Q (us @ vs))" using assms [OF r0(1) reads_current(1) [OF r0(1)]] r r0 by simp
qed

lemma gives_syntax_guarded [parser_rules]:
  assumes "gives E (s\<lparr>pz_depth := pz_depth s + 1\<rparr>) m Q"
  shows "gives E s (syntax_guarded d m) Q"
proof (rule givesI)
  fix x s' assume ok: "p_ok s" and run: "syntax_guarded d m s = (PT_Ok x, s')"
  then obtain s1 where m: "m (s\<lparr>pz_depth := pz_depth s + 1\<rparr>) = (PT_Ok x, s1)" "s' = s1\<lparr>pz_depth := pz_depth s1 - 1\<rparr>"
    by (auto simp: syntax_guarded_def leave_def split: if_splits prod.splits)
  have i: "reads E s [] (s\<lparr>pz_depth := pz_depth s + 1\<rparr>)" by (rule same_tokens) (use ok in simp_all)
  then obtain ts where ts: "reads E (s\<lparr>pz_depth := pz_depth s + 1\<rparr>) ts s1" "Q ts x" using givesD [OF assms _ m(1)] by blast
  have "reads E s1 [] s'" by (rule same_tokens) (use m ts in \<open>auto simp: reads_def\<close>)
  then show "\<exists>ts. reads E s ts s' \<and> Q ts x" using ts reads_trans [OF i ts(1)] reads_trans by fastforce
qed

lemma gives_if [parser_rules]: "(c \<Longrightarrow> gives E s m Q) \<Longrightarrow> (\<not> c \<Longrightarrow> gives E s m' Q) \<Longrightarrow> gives E s (if c then m else m') Q"
  by simp

text \<open>A loop whose turns keep \<open>I\<close>, a property of the tokens read so far and of the state of the loop.\<close>

lemma gives_loop_from:
  assumes step: "\<And>us y s1. I us y \<Longrightarrow> reads E s us s1 \<Longrightarrow>
      gives E s1 (body y) (\<lambda>vs r. case r of Inl z \<Rightarrow> I (us @ vs) z | Inr z \<Rightarrow> Q (us @ vs) z)"
    and "I us y" "reads E s us s1"
  shows "gives E s1 (p_loop n body y) (\<lambda>vs. Q (us @ vs))"
  using assms(2,3)
proof (induction n arbitrary: us y s1)
  case (Suc n)
  show ?case unfolding p_loop.simps
  proof (rule gives_bind [OF step [OF Suc.prems]])
    fix vs r s2 assume r: "reads E s1 vs s2" "case r of Inl z \<Rightarrow> I (us @ vs) z | Inr z \<Rightarrow> Q (us @ vs) z"
    show "gives E s2 (case r of Inl y \<Rightarrow> p_loop n body y | Inr z \<Rightarrow> p_ret z) (\<lambda>ws. Q (us @ vs @ ws))"
    proof (cases r)
      case (Inl z)
      then show ?thesis using Suc.IH [of "us @ vs" z s2] r reads_trans [OF Suc.prems(2) r(1)] by simp
    qed (use r in \<open>auto intro: gives_ret\<close>)
  qed
qed (simp add: gives_fail)

lemma gives_loop:
  assumes "I [] y" "\<And>us y s1. I us y \<Longrightarrow> reads E s us s1 \<Longrightarrow>
      gives E s1 (body y) (\<lambda>vs r. case r of Inl z \<Rightarrow> I (us @ vs) z | Inr z \<Rightarrow> Q (us @ vs) z)"
  shows "gives E s (p_loop n body y) Q"
proof (rule givesI)
  fix x s' assume ok: "p_ok s" and run: "p_loop n body y s = (PT_Ok x, s')"
  show "\<exists>ts. reads E s ts s' \<and> Q ts x"
    using givesD [OF gives_loop_from [where I = I and body = body and Q = Q, OF assms(2) assms(1) reads_refl [OF ok]] ok run] by simp
qed

end
