(* ===== verification/Grammar.thy ===== *)
theory Grammar
  imports Parser
begin

text \<open>
  The grammar that the parser is meant to read, as derivations over lists of tokens. A derivation says which tree
  belongs to which tokens, positions included; nothing in it depends on how a parser works.

  With \<open>strict\<close> the grammar leaves out what the parser would read in another way or the code generator refuses: two
  fields of a table have a separator between them unless the second one cannot continue the first, a statement that begins
  with a parenthesis has a semicolon in front unless it comes first, and only variables and fields are assigned to.
\<close>

section \<open>Precedence\<close>

text \<open>The levels of an expression: 0 \<open>or\<close>, 1 \<open>and\<close>, 2 comparisons, 3 \<open>..\<close> (right-associative), 4 sums, 5 products,
  6 unary operators, 7 powers (right-associative, above the unary operators on the left), 8 the rest.\<close>

definition left_op :: "nat \<Rightarrow> token_type \<Rightarrow> bin_op option" where
  "left_op k ty =
     (if k = 0 then or_op ty else if k = 1 then and_op ty else if k = 2 then relational_op ty
      else if k = 4 then additive_op ty else if k = 5 then multiplicative_op ty else None)"

definition caret :: "token \<Rightarrow> bool" where "caret t \<longleftrightarrow> tk_type t = TT_Char (CHR ''^'')"
definition comma :: "token \<Rightarrow> bool" where "comma t \<longleftrightarrow> tk_type t = TT_Char (CHR '','')"
definition semicolon :: "token \<Rightarrow> bool" where "semicolon t \<longleftrightarrow> tk_type t = TT_Char (CHR '';'')"
definition equals :: "token \<Rightarrow> bool" where "equals t \<longleftrightarrow> tk_type t = TT_Char (CHR ''='')"
definition open_paren :: "token \<Rightarrow> bool" where "open_paren t \<longleftrightarrow> tk_type t = TT_Char (CHR ''('')"
definition close_paren :: "token \<Rightarrow> bool" where "close_paren t \<longleftrightarrow> tk_type t = TT_Char (CHR '')'')"

text \<open>The level of a binary operator, and the tokens that cannot continue an expression of level \<open>k\<close>: neither an
  operator of that level or a higher one, nor the start of a suffix.\<close>

definition binary_level :: "token_type \<Rightarrow> nat option" where
  "binary_level ty =
     (if or_op ty \<noteq> None then Some 0 else if and_op ty \<noteq> None then Some 1 else if relational_op ty \<noteq> None then Some 2
      else if ty = TT_Concat then Some 3 else if additive_op ty \<noteq> None then Some 4 else if multiplicative_op ty \<noteq> None then Some 5
      else if ty = TT_Char (CHR ''^'') then Some 7 else None)"

definition suffix_start :: "token \<Rightarrow> bool" where
  "suffix_start t \<longleftrightarrow> tk_type t \<in> {TT_String, TT_Char (CHR ''(''), TT_Char (CHR ''[''), TT_Char (CHR ''.''), TT_Char (CHR '':''),
     TT_Char (CHR ''{'')}"

definition stops :: "nat \<Rightarrow> token \<Rightarrow> bool" where
  "stops k t \<longleftrightarrow> \<not> suffix_start t \<and> (case binary_level (tk_type t) of None \<Rightarrow> True | Some j \<Rightarrow> j < k)"

text \<open>The targets that Lua allows in an assignment.\<close>

fun assignable :: "expr \<Rightarrow> bool" where
  "assignable (NameExpr p n) = True"
| "assignable (IndexExpr p t i) = True"
| "assignable (MemberExpr p t m) = True"
| "assignable _ = False"

section \<open>Names\<close>

inductive g_names :: "token list \<Rightarrow> string list \<Rightarrow> bool" where
  one_name: "is_name t \<Longrightarrow> ts = [t] \<Longrightarrow> ns = [p_tokenString t] \<Longrightarrow> g_names ts ns"
| more_names: "g_names us ns0 \<Longrightarrow> comma c \<Longrightarrow> is_name t \<Longrightarrow> ts = us @ [c, t] \<Longrightarrow> ns = ns0 @ [p_tokenString t] \<Longrightarrow> g_names ts ns"

inductive g_params :: "token list \<Rightarrow> string list \<Rightarrow> bool" where
  no_params: "g_params [] []"
| plain_params: "g_names ts ns \<Longrightarrow> g_params ts ns"
| vararg: "tk_type d = TT_Dots \<Longrightarrow> g_params [d] [''...'']"
| params_vararg: "g_names us ns \<Longrightarrow> comma c \<Longrightarrow> tk_type d = TT_Dots \<Longrightarrow> ts = us @ [c, d] \<Longrightarrow> ps = ns @ [''...''] \<Longrightarrow> g_params ts ps"

inductive g_dotted :: "token list \<Rightarrow> string list \<Rightarrow> string \<Rightarrow> bool" where
  plain_name: "is_name t \<Longrightarrow> ts = [t] \<Longrightarrow> name = p_tokenString t \<Longrightarrow> g_dotted ts [] name"
| dotted: "g_dotted us path0 name0 \<Longrightarrow> tk_type d = TT_Char (CHR ''.'') \<Longrightarrow> is_name t \<Longrightarrow> ts = us @ [d, t] \<Longrightarrow>
    path = path0 @ [name0] \<Longrightarrow> name = p_tokenString t \<Longrightarrow> g_dotted ts path name"

inductive g_funcname :: "token list \<Rightarrow> string list \<Rightarrow> string \<Rightarrow> bool \<Rightarrow> bool" where
  function_name: "g_dotted ts path name \<Longrightarrow> g_funcname ts path name False"
| method_name: "g_dotted us path0 name0 \<Longrightarrow> tk_type d = TT_Char (CHR '':'') \<Longrightarrow> is_name t \<Longrightarrow> ts = us @ [d, t] \<Longrightarrow>
    path = path0 @ [name0] \<Longrightarrow> name = p_tokenString t \<Longrightarrow> g_funcname ts path name True"

section \<open>Expressions, statements and blocks\<close>

inductive g_expr :: "bool \<Rightarrow> nat \<Rightarrow> token list \<Rightarrow> expr \<Rightarrow> bool"
  and g_suffixed :: "bool \<Rightarrow> token list \<Rightarrow> expr \<Rightarrow> bool"
  and g_args :: "bool \<Rightarrow> token list \<Rightarrow> expr list \<Rightarrow> bool"
  and g_method_args :: "bool \<Rightarrow> int \<Rightarrow> token list \<Rightarrow> expr list \<Rightarrow> bool"
  and g_exprs :: "bool \<Rightarrow> token list \<Rightarrow> expr list \<Rightarrow> bool"
  and g_field :: "bool \<Rightarrow> token list \<Rightarrow> expr option \<times> expr \<Rightarrow> bool"
  and g_fields :: "bool \<Rightarrow> token list \<Rightarrow> (expr option \<times> expr) list \<Rightarrow> bool \<Rightarrow> bool"
  and g_table :: "bool \<Rightarrow> token list \<Rightarrow> expr \<Rightarrow> bool"
  and g_body :: "bool \<Rightarrow> bool \<Rightarrow> token list \<Rightarrow> string list \<times> bool \<times> stmt list \<times> int \<Rightarrow> bool"
  and g_branch :: "bool \<Rightarrow> token list \<Rightarrow> expr \<times> stmt list \<Rightarrow> bool"
  and g_branches :: "bool \<Rightarrow> token list \<Rightarrow> (expr \<times> stmt list) list \<Rightarrow> bool"
  and g_stmt :: "bool \<Rightarrow> token list \<Rightarrow> stmt \<Rightarrow> bool"
  and g_return :: "bool \<Rightarrow> token list \<Rightarrow> stmt \<Rightarrow> bool"
  and g_stmts :: "bool \<Rightarrow> token list \<Rightarrow> stmt list \<Rightarrow> bool \<Rightarrow> bool"
  and g_block :: "bool \<Rightarrow> token list \<Rightarrow> stmt list \<Rightarrow> bool"
for strict :: bool where
  next_level: "g_expr strict (Suc k) ts e \<Longrightarrow> k < 8 \<Longrightarrow> g_expr strict k ts e"
| left_binary: "g_expr strict k us l \<Longrightarrow> left_op k (tk_type t) = Some op \<Longrightarrow> g_expr strict (Suc k) vs r \<Longrightarrow> ts = us @ t # vs \<Longrightarrow>
    g_expr strict k ts (BinaryExpr (at_token t) op l r)"
| concat: "g_expr strict 4 us l \<Longrightarrow> tk_type t = TT_Concat \<Longrightarrow> g_expr strict 3 vs r \<Longrightarrow> ts = us @ t # vs \<Longrightarrow>
    g_expr strict 3 ts (BinaryExpr (at_token t) B_Concat l r)"
| unary: "unary_op (tk_type t) = Some op \<Longrightarrow> g_expr strict 6 vs e \<Longrightarrow> ts = t # vs \<Longrightarrow>
    g_expr strict 6 ts (UnaryExpr (at_token t) op e)"
| power: "g_expr strict 8 us l \<Longrightarrow> caret t \<Longrightarrow> g_expr strict 6 vs r \<Longrightarrow> ts = us @ t # vs \<Longrightarrow>
    g_expr strict 7 ts (BinaryExpr (at_token t) B_Pow l r)"
| nil_literal: "tk_type t = TT_Nil \<Longrightarrow> g_expr strict 8 [t] (NilExpr (at_token t))"
| true_literal: "tk_type t = TT_True \<Longrightarrow> g_expr strict 8 [t] (BoolExpr (at_token t) True)"
| false_literal: "tk_type t = TT_False \<Longrightarrow> g_expr strict 8 [t] (BoolExpr (at_token t) False)"
| number_literal: "tk_type t = TT_Number \<Longrightarrow> tk_value t = TV_Number x \<Longrightarrow> g_expr strict 8 [t] (NumberExpr (at_token t) x)"
| string_literal: "is_string t \<Longrightarrow> g_expr strict 8 [t] (StringExpr (at_token t) (p_tokenString t))"
| dots: "tk_type t = TT_Dots \<Longrightarrow> g_expr strict 8 [t] (VarargExpr (at_token t))"
| table_expr: "g_table strict ts e \<Longrightarrow> g_expr strict 8 ts e"
| function_expr: "tk_type t = TT_Function \<Longrightarrow> g_body strict False vs (params, va, body, endLine) \<Longrightarrow> ts = t # vs \<Longrightarrow>
    g_expr strict 8 ts (FunctionExpr (at_token t) params va body endLine)"
| suffixed: "g_suffixed strict ts e \<Longrightarrow> g_expr strict 8 ts e"
| name_expr: "is_name t \<Longrightarrow> g_suffixed strict [t] (NameExpr (at_token t) (p_tokenString t))"
| paren: "open_paren o1 \<Longrightarrow> g_expr strict 0 us e \<Longrightarrow> close_paren c \<Longrightarrow> ts = o1 # us @ [c] \<Longrightarrow> g_suffixed strict ts (ParenExpr (at_token o1) e)"
| call_expr: "g_suffixed strict us f \<Longrightarrow> open_paren o1 \<Longrightarrow> tk_line o1 \<le> tk_line (last us) \<Longrightarrow> g_args strict (o1 # vs) args \<Longrightarrow>
    ts = us @ o1 # vs \<Longrightarrow> g_suffixed strict ts (CallExpr (at_token o1) f args False)"
| index_expr: "g_suffixed strict us e \<Longrightarrow> tk_type o1 = TT_Char (CHR ''['') \<Longrightarrow> g_expr strict 0 vs i \<Longrightarrow> tk_type c = TT_Char (CHR '']'') \<Longrightarrow>
    ts = us @ o1 # vs @ [c] \<Longrightarrow> g_suffixed strict ts (IndexExpr (at_token o1) e i)"
| member_expr: "g_suffixed strict us e \<Longrightarrow> tk_type d = TT_Char (CHR ''.'') \<Longrightarrow> is_name t \<Longrightarrow> ts = us @ [d, t] \<Longrightarrow>
    g_suffixed strict ts (MemberExpr (at_token d) e (p_tokenString t))"
| method_call: "g_suffixed strict us e \<Longrightarrow> tk_type d = TT_Char (CHR '':'') \<Longrightarrow> is_name t \<Longrightarrow> g_method_args strict (tk_line d) vs args \<Longrightarrow>
    ts = us @ d # t # vs \<Longrightarrow>
    g_suffixed strict ts (CallExpr (at_token d) (MemberExpr (at_token d) e (p_tokenString t)) args True)"
| call_string: "g_suffixed strict us f \<Longrightarrow> is_string t \<Longrightarrow> tk_line t \<le> tk_line (last us) \<Longrightarrow> ts = us @ [t] \<Longrightarrow>
    g_suffixed strict ts (CallExpr (at_token t) f [StringExpr (at_token t) (p_tokenString t)] False)"
| call_table: "g_suffixed strict us f \<Longrightarrow> g_table strict vs e \<Longrightarrow> t = hd vs \<Longrightarrow> tk_line t \<le> tk_line (last us) \<Longrightarrow> ts = us @ vs \<Longrightarrow>
    g_suffixed strict ts (CallExpr (at_token t) f [e] False)"
| no_args: "open_paren o1 \<Longrightarrow> close_paren c \<Longrightarrow> g_args strict [o1, c] []"
| some_args: "open_paren o1 \<Longrightarrow> g_exprs strict us args \<Longrightarrow> close_paren c \<Longrightarrow> ts = o1 # us @ [c] \<Longrightarrow> g_args strict ts args"
| method_parens: "g_args strict (t # vs) args \<Longrightarrow> tk_line t \<le> l \<Longrightarrow> ts = t # vs \<Longrightarrow> g_method_args strict l ts args"
| method_string: "is_string t \<Longrightarrow> tk_line t \<le> l \<Longrightarrow> g_method_args strict l [t] [StringExpr (at_token t) (p_tokenString t)]"
| method_table: "g_table strict ts e \<Longrightarrow> tk_line (hd ts) \<le> l \<Longrightarrow> g_method_args strict l ts [e]"
| one_expr: "g_expr strict 0 ts e \<Longrightarrow> g_exprs strict ts [e]"
| more_exprs: "g_exprs strict us es0 \<Longrightarrow> comma c \<Longrightarrow> g_expr strict 0 vs e \<Longrightarrow> ts = us @ c # vs \<Longrightarrow> es = es0 @ [e] \<Longrightarrow> g_exprs strict ts es"
| computed_field: "tk_type o1 = TT_Char (CHR ''['') \<Longrightarrow> g_expr strict 0 us k \<Longrightarrow> tk_type c = TT_Char (CHR '']'') \<Longrightarrow> equals q \<Longrightarrow>
    g_expr strict 0 vs v \<Longrightarrow> ts = o1 # us @ c # q # vs \<Longrightarrow> g_field strict ts (Some k, v)"
| named_field: "is_name t \<Longrightarrow> equals q \<Longrightarrow> g_expr strict 0 vs v \<Longrightarrow> ts = t # q # vs \<Longrightarrow>
    g_field strict ts (Some (StringExpr (at_token t) (p_tokenString t)), v)"
| plain_field: "g_expr strict 0 ts v \<Longrightarrow> g_field strict ts (None, v)"
| no_fields: "g_fields strict [] [] True"
| last_field: "g_fields strict us fs0 sep \<Longrightarrow> (strict \<longrightarrow> sep \<or> stops 0 (hd vs)) \<Longrightarrow> g_field strict vs f \<Longrightarrow> ts = us @ vs \<Longrightarrow> fs = fs0 @ [f] \<Longrightarrow>
    g_fields strict ts fs False"
| field_separator: "g_fields strict us fs False \<Longrightarrow> comma t \<or> semicolon t \<Longrightarrow> ts = us @ [t] \<Longrightarrow> g_fields strict ts fs True"
| table_constructor: "tk_type o1 = TT_Char (CHR ''{'') \<Longrightarrow> g_fields strict us fs sep \<Longrightarrow> tk_type c = TT_Char (CHR ''}'') \<Longrightarrow> ts = o1 # us @ [c] \<Longrightarrow>
    g_table strict ts (TableExpr (at_token o1) fs)"
| function_body: "open_paren o1 \<Longrightarrow> g_params us ps \<Longrightarrow> close_paren c \<Longrightarrow> g_block strict vs b \<Longrightarrow> tk_type e = TT_End \<Longrightarrow> ts = o1 # us @ c # vs @ [e] \<Longrightarrow>
    params = (if isMethod then ''self'' # without_vararg ps else without_vararg ps) \<Longrightarrow>
    g_body strict isMethod ts (params, has_vararg ps, b, tk_line e)"
| branch: "g_expr strict 0 us c \<Longrightarrow> tk_type t = TT_Then \<Longrightarrow> g_block strict vs b \<Longrightarrow> ts = us @ t # vs \<Longrightarrow> g_branch strict ts (c, b)"
| first_branch: "tk_type t = TT_If \<Longrightarrow> g_branch strict vs b \<Longrightarrow> ts = t # vs \<Longrightarrow> g_branches strict ts [b]"
| more_branches: "g_branches strict us bs0 \<Longrightarrow> tk_type t = TT_Elseif \<Longrightarrow> g_branch strict vs b \<Longrightarrow> ts = us @ t # vs \<Longrightarrow> bs = bs0 @ [b] \<Longrightarrow>
    g_branches strict ts bs"
| if_then: "g_branches strict us bs \<Longrightarrow> tk_type e = TT_End \<Longrightarrow> ts = us @ [e] \<Longrightarrow> g_stmt strict ts (IfStmt (at_token (hd us)) bs [] (tk_line e))"
| if_else: "g_branches strict us bs \<Longrightarrow> tk_type t = TT_Else \<Longrightarrow> g_block strict vs b \<Longrightarrow> tk_type e = TT_End \<Longrightarrow> ts = us @ t # vs @ [e] \<Longrightarrow>
    g_stmt strict ts (IfStmt (at_token (hd us)) bs b (tk_line e))"
| while_stmt: "tk_type t = TT_While \<Longrightarrow> g_expr strict 0 us c \<Longrightarrow> tk_type d = TT_Do \<Longrightarrow> g_block strict vs b \<Longrightarrow> tk_type e = TT_End \<Longrightarrow>
    ts = t # us @ d # vs @ [e] \<Longrightarrow> g_stmt strict ts (WhileStmt (at_token t) c b (tk_line e))"
| do_stmt: "tk_type t = TT_Do \<Longrightarrow> g_block strict vs b \<Longrightarrow> tk_type e = TT_End \<Longrightarrow> ts = t # vs @ [e] \<Longrightarrow>
    g_stmt strict ts (DoStmt (at_token t) b (tk_line e))"
| repeat_stmt: "tk_type t = TT_Repeat \<Longrightarrow> g_block strict us b \<Longrightarrow> tk_type e = TT_Until \<Longrightarrow> g_expr strict 0 vs c \<Longrightarrow> ts = t # us @ e # vs \<Longrightarrow>
    g_stmt strict ts (RepeatStmt (at_token t) b c (tk_line e))"
| for_num: "tk_type t = TT_For \<Longrightarrow> is_name n \<Longrightarrow> equals q \<Longrightarrow> g_exprs strict us es \<Longrightarrow> es = [init, limit, step] \<Longrightarrow> tk_type d = TT_Do \<Longrightarrow>
    g_block strict vs b \<Longrightarrow> tk_type e = TT_End \<Longrightarrow> ts = t # n # q # us @ d # vs @ [e] \<Longrightarrow>
    g_stmt strict ts (ForNumStmt (at_token t) (p_tokenString n) init limit step b (tk_line e))"
| for_num_default: "tk_type t = TT_For \<Longrightarrow> is_name n \<Longrightarrow> equals q \<Longrightarrow> g_exprs strict us es \<Longrightarrow> es = [init, limit] \<Longrightarrow> tk_type d = TT_Do \<Longrightarrow>
    g_block strict vs b \<Longrightarrow> tk_type e = TT_End \<Longrightarrow> ts = t # n # q # us @ d # vs @ [e] \<Longrightarrow>
    g_stmt strict ts (ForNumStmt (at_token t) (p_tokenString n) init limit (NumberExpr (at_token d) (f64_of_int 1)) b (tk_line e))"
| for_in: "tk_type t = TT_For \<Longrightarrow> g_names ns vars \<Longrightarrow> tk_type i = TT_In \<Longrightarrow> g_exprs strict us es \<Longrightarrow> tk_type d = TT_Do \<Longrightarrow>
    g_block strict vs b \<Longrightarrow> tk_type e = TT_End \<Longrightarrow> ts = t # ns @ i # us @ d # vs @ [e] \<Longrightarrow>
    g_stmt strict ts (ForInStmt (at_token t) vars es b (tk_line e))"
| function_stmt: "tk_type t = TT_Function \<Longrightarrow> g_funcname us path n isMethod \<Longrightarrow> g_body strict isMethod vs (params, va, b, endLine) \<Longrightarrow>
    ts = t # us @ vs \<Longrightarrow> g_stmt strict ts (FunctionStmt (at_token t) n path isMethod params va b False endLine)"
| local_function: "tk_type t = TT_Local \<Longrightarrow> tk_type f = TT_Function \<Longrightarrow> is_name n \<Longrightarrow> g_body strict False vs (params, va, b, endLine) \<Longrightarrow>
    ts = t # f # n # vs \<Longrightarrow> g_stmt strict ts (FunctionStmt (at_token t) (p_tokenString n) [] False params va b True endLine)"
| local_names: "tk_type t = TT_Local \<Longrightarrow> g_names us ns \<Longrightarrow> ts = t # us \<Longrightarrow> g_stmt strict ts (LocalStmt (at_token t) ns [])"
| local_values: "tk_type t = TT_Local \<Longrightarrow> g_names us ns \<Longrightarrow> equals q \<Longrightarrow> g_exprs strict vs es \<Longrightarrow> ts = t # us @ q # vs \<Longrightarrow>
    g_stmt strict ts (LocalStmt (at_token t) ns es)"
| break_stmt: "tk_type t = TT_Break \<Longrightarrow> g_stmt strict [t] (BreakStmt (at_token t))"
| assignment: "g_exprs strict us targets \<Longrightarrow> (strict \<longrightarrow> list_all assignable targets) \<Longrightarrow> equals q \<Longrightarrow> g_exprs strict vs es \<Longrightarrow> ts = us @ q # vs \<Longrightarrow>
    g_stmt strict ts (AssignStmt (expr_getLine (hd targets), expr_getColumn (hd targets)) targets es)"
| call_stmt: "g_expr strict 0 ts e \<Longrightarrow> is_call e \<Longrightarrow> g_stmt strict ts (CallStmt (expr_getLine e, expr_getColumn e) e)"
| return_nothing: "tk_type t = TT_Return \<Longrightarrow> g_return strict [t] (ReturnStmt (at_token t) [])"
| return_values: "tk_type t = TT_Return \<Longrightarrow> g_exprs strict us es \<Longrightarrow> ts = t # us \<Longrightarrow> g_return strict ts (ReturnStmt (at_token t) es)"
| no_stmts: "g_stmts strict [] [] False"
| more_stmts: "g_stmts strict us sts0 m \<Longrightarrow> g_stmt strict vs st \<Longrightarrow> (strict \<longrightarrow> m \<longrightarrow> \<not> open_paren (hd vs)) \<Longrightarrow> ts = us @ vs \<Longrightarrow> sts = sts0 @ [st] \<Longrightarrow>
    g_stmts strict ts sts True"
| separator: "g_stmts strict us sts True \<Longrightarrow> semicolon t \<Longrightarrow> ts = us @ [t] \<Longrightarrow> g_stmts strict ts sts False"
| plain_block: "g_stmts strict ts sts m \<Longrightarrow> g_block strict ts sts"
| block_return: "g_stmts strict us sts0 m \<Longrightarrow> g_return strict vs st \<Longrightarrow> ts = us @ vs \<Longrightarrow> sts = sts0 @ [st] \<Longrightarrow> g_block strict ts sts"
| block_return_separator: "g_stmts strict us sts0 m \<Longrightarrow> g_return strict vs st \<Longrightarrow> semicolon t \<Longrightarrow> ts = us @ vs @ [t] \<Longrightarrow> sts = sts0 @ [st] \<Longrightarrow>
    g_block strict ts sts"

end
