(* ===== verification/ParserSound.thy ===== *)
theory ParserSound
  imports ParserRules Grammar
begin

text \<open>
  Every tree that the parser builds has a derivation in the grammar over the tokens that were read. One lemma for each
  rule of the parser, then the recursion through \<open>rules_at\<close>.
\<close>

lemma gives_seq_free_rules [parser_rules]:
  fixes k :: "'b parser"
  assumes "\<And>s1. reads E s [] s1 \<Longrightarrow> pz_current s1 = pz_current s \<Longrightarrow> pz_previous s1 = pz_previous s \<Longrightarrow> gives E s1 k Q"
  shows "gives E s (p_seq (enterFunctionSyntaxScope E line ps) k) Q" "gives E s (p_seq leaveFunctionSyntaxScope k) Q"
    "gives E s (p_seq (noteNameUse n t) k) Q" "gives E s (p_seq (declareLocalName n t) k) Q"
proof -
  have free: "gives E s (p_seq m k) Q" if "\<And>x s'. m s = (PT_Ok x, s') \<Longrightarrow> pz_lexer s' = pz_lexer s \<and> pz_current s' = pz_current s \<and> pz_previous s' = pz_previous s"
    for m by (rule gives_seq_free) (use that same_tokens assms in blast)+
  show "gives E s (p_seq leaveFunctionSyntaxScope k) Q" by (rule free) (auto simp: leaveFunctionSyntaxScope_def)
  show "gives E s (p_seq (noteNameUse n t) k) Q"
    by (rule free) (auto simp: noteNameUse_def split: if_splits prod.splits option.splits)
  show "gives E s (p_seq (declareLocalName n t) k) Q"
    by (rule free) (auto simp: declareLocalName_def split: if_splits list.splits)
  show "gives E s (p_seq (enterFunctionSyntaxScope E line ps) k) Q"
    by (rule free) (auto simp: enterFunctionSyntaxScope_def p_seq_def p_bind_def p_charge_def Let_def
        split: prod.splits parsed.splits option.splits)
qed

lemma gives_reject [parser_rules]:
  assumes "tk_line (pz_current s) \<le> line \<Longrightarrow> gives E s k Q"
  shows "gives E s (p_seq (rejectAmbiguousNewlineCall line) k) Q"
proof (cases "line < tk_line (pz_current s)")
  case True
  then have "fst (p_seq (rejectAmbiguousNewlineCall line) k s) \<noteq> PT_Ok x" for x
    by (simp add: p_seq_def p_bind_def rejectAmbiguousNewlineCall_def p_gets_def errorAt_def Let_def publishDiagnostic_def p_fail_def)
  then show ?thesis unfolding gives_def by (metis fst_conv)
next
  case False
  then have "p_seq (rejectAmbiguousNewlineCall line) k s = k s"
    by (simp add: p_seq_def p_bind_def rejectAmbiguousNewlineCall_def p_gets_def p_ret_def)
  then show ?thesis using assms False by (simp add: gives_def)
qed

lemma reads_advanced: "reads E s us s1 \<Longrightarrow> us \<noteq> [] \<Longrightarrow> pz_previous s1 = last us"
  by (simp add: reads_def)

lemma reads_next: "reads E s [t] s1 \<Longrightarrow> token_stream E s (Suc 0) = pz_current s1"
proof -
  assume "reads E s [t] s1"
  then have "token_stream E s (Suc 0) = token_stream E s1 0" by (simp add: reads_def)
  then show ?thesis by (simp add: token_stream_def)
qed

lemma gives_seq_shapes [parser_rules]:
  "gives E s k Q \<Longrightarrow> gives E s (p_seq (p_ret ()) k) Q"
  "(c \<Longrightarrow> gives E s (p_seq m k) Q) \<Longrightarrow> (\<not> c \<Longrightarrow> gives E s (p_seq m' k) Q) \<Longrightarrow> gives E s (p_seq (if c then m else m') k) Q"
  "gives E s (p_bind n (\<lambda>x. p_seq (f x) k)) Q \<Longrightarrow> gives E s (p_seq (p_bind n f) k) Q"
proof -
  have eq: "p_seq (p_ret ()) k = k" "p_seq (p_bind n f) k = p_bind n (\<lambda>x. p_seq (f x) k)"
    by (auto simp: p_seq_def p_bind_def p_ret_def split: prod.split parsed.split)
  show "gives E s k Q \<Longrightarrow> gives E s (p_seq (p_ret ()) k) Q"
    "gives E s (p_bind n (\<lambda>x. p_seq (f x) k)) Q \<Longrightarrow> gives E s (p_seq (p_bind n f) k) Q" by (simp_all add: eq)
qed simp

lemma gives_bind_shapes [parser_rules]:
  "gives E s (f x) Q \<Longrightarrow> gives E s (p_bind (p_ret x) f) Q"
  "gives E s (p_bind (g (pz_current s)) f) Q \<Longrightarrow> gives E s (p_bind (p_bind p_current g) f) Q"
  "(c \<Longrightarrow> gives E s (p_bind m f) Q) \<Longrightarrow> (\<not> c \<Longrightarrow> gives E s (p_bind m' f) Q) \<Longrightarrow> gives E s (p_bind (if c then m else m') f) Q"
proof -
  have eq: "p_bind (p_ret x) f = f x" "p_bind (p_bind p_current g) f s = p_bind (g (pz_current s)) f s"
    by (simp_all add: p_bind_def p_ret_def p_gets_def fun_eq_iff)
  show "gives E s (f x) Q \<Longrightarrow> gives E s (p_bind (p_ret x) f) Q"
    "gives E s (p_bind (g (pz_current s)) f) Q \<Longrightarrow> gives E s (p_bind (p_bind p_current g) f) Q" by (simp_all add: eq gives_def)
qed simp

lemma gives_prod [parser_rules]: "(\<And>a b. p = (a, b) \<Longrightarrow> gives E s (f a b) Q) \<Longrightarrow> gives E s (case p of (a, b) \<Rightarrow> f a b) Q"
  by (cases p) simp

lemma gives_number [parser_rules]:
  "(\<And>x. tk_value t = TV_Number x \<Longrightarrow> gives E s (f x) Q) \<Longrightarrow> gives E s (p_bind (p_tokenNumber t) f) Q"
  unfolding p_tokenNumber_def
  by (cases "tk_value t") (simp_all add: gives_def p_bind_def p_fail_def p_ret_def)

lemma gives_option [parser_rules]:
  "(x = None \<Longrightarrow> gives E s m Q) \<Longrightarrow> (\<And>y. x = Some y \<Longrightarrow> gives E s (f y) Q) \<Longrightarrow>
   gives E s (case x of None \<Rightarrow> m | Some y \<Rightarrow> f y) Q"
  by (cases x) simp_all

lemma reads_hd: "reads E s us s1 \<Longrightarrow> us \<noteq> [] \<Longrightarrow> hd us = pz_current s"
proof -
  assume r: "reads E s us s1" "us \<noteq> []"
  then have "token_stream E s 0 = us ! 0" by (simp add: reads_def)
  then show ?thesis using r(2) by (simp add: token_stream_def hd_conv_nth)
qed

lemma g_table_nonempty: "g_table strict us e \<Longrightarrow> us \<noteq> []"
  by (cases rule: g_table.cases) auto

section \<open>Expressions\<close>

lemma sound_items:
  assumes "\<And>s. gives E s item P" "I [] xs0"
    and "\<And>us xs vs x. I us xs \<Longrightarrow> P vs x \<Longrightarrow> L (us @ vs) (xs @ [x])"
    and "\<And>us xs c. L us xs \<Longrightarrow> comma c \<Longrightarrow> I (us @ [c]) xs"
  shows "gives E s (p_items E n item xs0) L"
  unfolding p_items_def items_turn_def items_next_def
  by (rule gives_loop [where I = I], rule assms(2), intro gives_bind [OF assms(1)] gives_match gives_ret)
    (use assms(3,4) in \<open>auto simp: comma_def simp flip: append_assoc\<close>)

lemma sound_left_assoc:
  assumes "\<And>s. gives E s operand (g_expr False (Suc k))" "op_of = left_op k" "k < 8"
  shows "gives E s (left_assoc E n op_of operand) (g_expr False k)"
  unfolding left_assoc_def left_turn_def
proof (rule gives_bind [OF assms(1)], rule gives_loop [where I = "\<lambda>vs l. g_expr False k (us @ vs) l" for us])
  fix us x s1 assume "g_expr False (Suc k) us x"
  then show "g_expr False k (us @ []) x" using assms(3) by (simp add: next_level)
qed (intro gives_gets gives_option gives_seq_advance gives_bind [OF assms(1)] gives_bind_node gives_ret,
    auto simp: assms(2) intro: left_binary)

lemma loose_fields:
  assumes "g_fields False us fs sep" "g_field False vs f"
  shows "\<exists>sep. g_fields False (us @ vs) (fs @ [f]) sep"
    "comma t \<or> semicolon t \<Longrightarrow> \<exists>sep. g_fields False (us @ vs @ [t]) (fs @ [f]) sep"
proof -
  have l: "g_fields False (us @ vs) (fs @ [f]) False" using last_field [OF assms(1) _ assms(2) refl refl] by simp
  then show "\<exists>sep. g_fields False (us @ vs) (fs @ [f]) sep" by blast
  assume "comma t \<or> semicolon t"
  from field_separator [OF l this] show "\<exists>sep. g_fields False (us @ vs @ [t]) (fs @ [f]) sep" by auto
qed

text \<open>The snoc rules of the grammar on token lists in the normal form of the append.\<close>

lemma branches_step:
  "g_branches strict (us0 @ us) bs \<Longrightarrow> tk_type t = TT_Elseif \<Longrightarrow> g_branch strict vs b \<Longrightarrow>
   g_branches strict (us0 @ us @ t # vs) (bs @ [b])"
  by (erule (2) more_branches) simp_all

lemma exprs_step:
  "g_exprs strict us0 es \<Longrightarrow> comma c \<Longrightarrow> g_expr strict 0 vs e \<Longrightarrow> g_exprs strict (us0 @ c # vs) (es @ [e])"
  "g_exprs strict (us0 @ c # us1) es \<Longrightarrow> comma c1 \<Longrightarrow> g_expr strict 0 vs e \<Longrightarrow> g_exprs strict (us0 @ c # us1 @ c1 # vs) (es @ [e])"
  by (erule (2) more_exprs; simp)+

lemma names_step:
  "g_names us0 ns \<Longrightarrow> comma c \<Longrightarrow> is_name t \<Longrightarrow> g_names (us0 @ [c, t]) (ns @ [p_tokenString t])"
  "g_names (us0 @ c # us1) ns \<Longrightarrow> comma c1 \<Longrightarrow> is_name t \<Longrightarrow> g_names (us0 @ c # us1 @ [c1, t]) (ns @ [p_tokenString t])"
  by (erule (2) more_names; simp)+

lemma assignment_step:
  "g_exprs False (us @ c # vs) targets \<Longrightarrow> equals q \<Longrightarrow> g_exprs False ws es \<Longrightarrow> hd targets = e \<Longrightarrow>
   g_stmt False (us @ c # vs @ q # ws) (AssignStmt (expr_getLine e, expr_getColumn e) targets es)"
  using assignment [of False "us @ c # vs" targets q ws es] by simp

lemma dotted_step:
  "g_dotted (t # us) path n \<Longrightarrow> tk_type d = TT_Char (CHR ''.'') \<Longrightarrow> is_name t1 \<Longrightarrow>
   g_dotted (t # us @ [d, t1]) (path @ [n]) (p_tokenString t1)"
  "g_dotted (t # us) path n \<Longrightarrow> tk_type d = TT_Char (CHR '':'') \<Longrightarrow> is_name t1 \<Longrightarrow>
   g_funcname (t # us @ [d, t1]) (path @ [n]) (p_tokenString t1) True"
  by (erule (2) dotted method_name; simp)+

lemma for_num_step:
  assumes "tk_type t = TT_For" "is_name n" "equals q" "g_expr strict 0 us i" "comma c" "g_expr strict 0 vs l" "tk_type d = TT_Do"
    "g_block strict bs b" "tk_type e = TT_End"
  shows "g_stmt strict (t # n # q # us @ c # vs @ d # bs @ [e])
      (ForNumStmt (at_token t) (p_tokenString n) i l (NumberExpr (at_token d) (f64_of_int 1)) b (tk_line e))"
    "comma c1 \<Longrightarrow> g_expr strict 0 ws st \<Longrightarrow> g_stmt strict (t # n # q # us @ c # vs @ c1 # ws @ d # bs @ [e])
      (ForNumStmt (at_token t) (p_tokenString n) i l st b (tk_line e))"
proof -
  have two: "g_exprs strict (us @ c # vs) [i, l]" using exprs_step(1) [OF one_expr [OF assms(4)] assms(5,6)] by simp
  then show "g_stmt strict (t # n # q # us @ c # vs @ d # bs @ [e])
      (ForNumStmt (at_token t) (p_tokenString n) i l (NumberExpr (at_token d) (f64_of_int 1)) b (tk_line e))"
    using for_num_default [OF assms(1-3) _ refl assms(7-9) refl] by fastforce
  assume "comma c1" "g_expr strict 0 ws st"
  from exprs_step(1) [OF two this]
  show "g_stmt strict (t # n # q # us @ c # vs @ c1 # ws @ d # bs @ [e])
      (ForNumStmt (at_token t) (p_tokenString n) i l st b (tk_line e))"
    using for_num [OF assms(1-3) _ refl assms(7-9) refl] by fastforce
qed

text \<open>What a rule of the parser relies on when it calls another one.\<close>

locale sound_parsers =
  fixes E :: parser_env and R :: rules
  assumes expression: "gives E s (r_expression R) (g_expr False 0)"
    and concat: "gives E s (r_concat R) (g_expr False 3)"
    and unary: "gives E s (r_unary R) (g_expr False 6)"
    and block: "gives E s (r_block R) (g_block False)"
begin

lemmas bind_expression = gives_bind [OF expression]
lemmas bind_block = gives_bind [OF block]

lemma exprs: "gives E s (parseExprList E R) (g_exprs False)"
  unfolding parseExprList_def
  by (rule sound_items [OF expression, where I = "\<lambda>us xs. us = [] \<and> xs = [] \<or> (\<exists>us0 c. us = us0 @ [c] \<and> comma c \<and> g_exprs False us0 xs)"])
    (auto intro: one_expr more_exprs)

lemma field: "gives E s (parse_field E R) (g_field False)"
  unfolding parse_field_def
  by (intro parser_rules bind_expression)
    (auto intro: computed_field named_field plain_field simp: equals_def reads_next)

lemma fields: "gives E s (parse_fields E R) (\<lambda>us fs. \<exists>sep. g_fields False us fs sep)"
  unfolding parse_fields_def fields_turn_def fields_next_def fields_closed_def
  by (rule gives_loop [where I = "\<lambda>us fs. \<exists>sep. g_fields False us fs sep"], blast intro: no_fields)
    (intro parser_rules gives_bind [OF field], auto intro: loose_fields simp: comma_def semicolon_def)

lemma table: "gives E s (parseTableConstructor E R) (g_table False)"
  unfolding parseTableConstructor_def
  by (intro parser_rules gives_bind [OF fields]) (auto intro: table_constructor)

lemma param_list: "gives E s (parseParamList E R) g_params"
  unfolding parseParamList_def params_turn_def items_next_def
  by (intro parser_rules gives_loop [where I = "\<lambda>us ps. us = [] \<and> ps = [] \<or> (\<exists>us0 c. us = us0 @ [c] \<and> comma c \<and> g_names us0 ps)"])
    (auto intro: no_params vararg plain_params plain_params [OF more_names] params_vararg one_name more_names simp: comma_def)

lemma function_rest:
  "gives E s (parse_function_rest E R line after isMethod) (g_body False isMethod)"
  unfolding parse_function_rest_def Let_def
  by (intro parser_rules gives_bind [OF param_list] bind_block) (auto intro!: function_body simp: open_paren_def close_paren_def)

lemma function_expression: "gives E s (parseFunctionExpr E R) (g_expr False 8)"
  unfolding parseFunctionExpr_def
  by (intro parser_rules gives_bind [OF function_rest]) (auto intro: function_expr)

lemma arguments: "gives E s (parse_arguments E R) (\<lambda>us args. \<forall>o1. open_paren o1 \<longrightarrow> g_args False (o1 # us) args)"
  unfolding parse_arguments_def
  by (intro parser_rules gives_bind [OF exprs]) (auto intro: no_args some_args simp: close_paren_def)

lemma string_argument:
  "is_string (pz_current s) \<Longrightarrow> gives E s (parse_string_argument E)
     (\<lambda>us args. us = [pz_current s] \<and> args = [StringExpr (at_token (pz_current s)) (p_tokenString (pz_current s))])"
  unfolding parse_string_argument_def by (intro parser_rules) simp

lemma call_arguments:
  "gives E s (syntax_guarded d (p_bind (parse_arguments E R) (\<lambda>args. make_expr E (CallExpr p base args False))))
     (\<lambda>us e. \<exists>args. e = CallExpr p base args False \<and> (\<forall>o1. open_paren o1 \<longrightarrow> g_args False (o1 # us) args))"
  by (intro parser_rules gives_bind [OF arguments]) auto

lemma table_here: "gives E s (parseTableConstructor E R) (\<lambda>us e. g_table False us e \<and> pz_current s = hd us)"
  unfolding gives_def using givesD [OF table] reads_hd g_table_nonempty by metis

lemma method_arguments: "gives E s (parse_method_arguments E R l) (g_method_args False l)"
  unfolding parse_method_arguments_def
  by (intro parser_rules gives_weaken [OF gives_syntax_guarded [OF arguments]] gives_weaken [OF string_argument] gives_bind [OF table_here])
    (auto simp: open_paren_def intro: method_parens method_string method_table)

lemma postfix_turn:
  assumes "g_suffixed False bs base" "pz_previous s = last bs"
  shows "gives E s (postfix_step E R base)
    (\<lambda>vs r. case r of Inl e \<Rightarrow> g_suffixed False (bs @ vs) e | Inr e \<Rightarrow> g_suffixed False (bs @ vs) e)"
  unfolding postfix_step_def
  by (intro parser_rules gives_bind [OF call_arguments] gives_bind [OF method_arguments] gives_bind [OF string_argument]
      gives_bind [OF table_here] bind_expression)
    (use assms in \<open>auto simp: open_paren_def intro: call_expr index_expr member_expr method_call call_string call_table\<close>)

lemma postfix:
  assumes "g_suffixed False bs base" "pz_previous s = last bs" "bs \<noteq> []"
  shows "gives E s (parsePostfixExpr E R base) (\<lambda>us e. g_suffixed False (bs @ us) e)"
  unfolding parsePostfixExpr_def
proof (rule gives_loop [where I = "\<lambda>us e. g_suffixed False (bs @ us) e"])
  fix us y s1 assume y: "g_suffixed False (bs @ us) y" and r: "reads E s us s1"
  have "pz_previous s1 = last (bs @ us)" using r assms(2,3) by (cases us) (auto simp: reads_def)
  from postfix_turn [OF y this] show "gives E s1 (postfix_step E R y)
      (\<lambda>vs r. case r of Inl z \<Rightarrow> g_suffixed False (bs @ us @ vs) z | Inr z \<Rightarrow> g_suffixed False (bs @ us @ vs) z)"
    by (simp only: append_assoc)
qed (use assms in simp)

lemma literal:
  "(\<And>t. t = pz_current s \<Longrightarrow> Q [t] e) \<Longrightarrow> gives E s (literal E e) Q"
  unfolding literal_def by (intro parser_rules) simp

lemma suffixed_from:
  assumes "g_suffixed False bs base" "pz_previous s = last bs" "bs \<noteq> []" "\<And>vs e. g_suffixed False (bs @ vs) e \<Longrightarrow> Q vs e"
  shows "gives E s (parsePostfixExpr E R base) Q"
  using gives_weaken [OF postfix [OF assms(1-3)] assms(4)] .

lemma name_expression: "is_name (pz_current s) \<Longrightarrow> gives E s (parse_name_expr E R (pz_current s)) (g_expr False 8)"
  unfolding parse_name_expr_def
  by (intro parser_rules suffixed_from [where bs = "[pz_current s]"])
    (auto intro: name_expr suffixed simp: reads_def)

lemma paren_expression:
  assumes "tk_type (pz_current s) = TT_Char (CHR ''('')"
  shows "gives E s (parse_paren_expr E R (pz_current s)) (g_expr False 8)"
  unfolding parse_paren_expr_def
proof (intro gives_seq_advance bind_expression gives_expect gives_bind_node)
  fix s1 s2 s3 s4 us x
  assume r: "g_expr False 0 us x" "tk_type (pz_current s2) = TT_Char (CHR '')'')" "reads E s2 [pz_current s2] s3" "reads E s3 [] s4"
  let ?bs = "pz_current s # us @ [pz_current s2]"
  have b: "g_suffixed False ?bs (ParenExpr (at_token (pz_current s)) x)"
    using assms r by (auto intro: paren simp: open_paren_def close_paren_def)
  show "gives E s4 (parsePostfixExpr E R (ParenExpr (at_token (pz_current s)) x))
      (\<lambda>vs. g_expr False 8 (pz_current s # us @ pz_current s2 # vs))"
    by (rule suffixed_from [OF b]) (use r in \<open>auto simp: reads_def intro: suffixed\<close>)
qed

lemma primary: "gives E s (parsePrimaryExpr E R) (g_expr False 8)"
  unfolding parsePrimaryExpr_def
  by (rule gives_gets, cases "tk_type (pz_current s)")
    (auto intro!: gives_error gives_number literal name_expression paren_expression function_expression gives_weaken [OF table]
      intro: nil_literal true_literal false_literal number_literal string_literal dots table_expr)

lemma power_level: "gives E s (parsePowerExpr E R) (g_expr False 7)"
  unfolding parsePowerExpr_def
  by (intro parser_rules gives_bind [OF primary] gives_bind [OF unary]) (auto intro: power next_level simp: caret_def)

lemma unary_level: "gives E s (parseUnaryExpr E R) (g_expr False 6)"
  unfolding parseUnaryExpr_def
  by (intro parser_rules gives_bind [OF unary] gives_weaken [OF power_level]) (auto intro: Grammar.unary next_level)

lemma product_level: "gives E s (parseMultiplicativeExpr E R) (g_expr False 5)"
  unfolding parseMultiplicativeExpr_def by (rule sound_left_assoc) (use unary_level in \<open>simp_all add: left_op_def fun_eq_iff\<close>)

lemma sum_level: "gives E s (parseAdditiveExpr E R) (g_expr False 4)"
  unfolding parseAdditiveExpr_def by (rule sound_left_assoc) (use product_level in \<open>simp_all add: left_op_def fun_eq_iff\<close>)

lemma concat_level: "gives E s (parseConcatExpr E R) (g_expr False 3)"
  unfolding parseConcatExpr_def
  by (intro parser_rules gives_bind [OF sum_level] gives_bind [OF concat]) (auto intro: Grammar.concat next_level)

lemma relational_level: "gives E s (parseRelationalExpr E R) (g_expr False 2)"
  unfolding parseRelationalExpr_def
  by (rule sound_left_assoc) (use concat_level in \<open>simp_all add: left_op_def fun_eq_iff numeral_3_eq_3\<close>)

lemma and_level: "gives E s (parseAndExpr E R) (g_expr False 1)"
  unfolding parseAndExpr_def
  by (rule sound_left_assoc) (use relational_level in \<open>simp_all add: left_op_def fun_eq_iff numeral_2_eq_2\<close>)

lemma or_level: "gives E s (parseOrExpr E R) (g_expr False 0)"
  unfolding parseOrExpr_def by (rule sound_left_assoc) (use and_level in \<open>simp_all add: left_op_def fun_eq_iff\<close>)

lemma expression_level: "gives E s (parseExpression E R) (g_expr False 0)"
  unfolding parseExpression_def by (rule gives_syntax_guarded [OF or_level])

section \<open>Statements\<close>

lemma branch: "gives E s (parse_branch E R what) (g_branch False)"
  unfolding parse_branch_def
  by (intro parser_rules bind_expression bind_block) (auto intro: Grammar.branch)

lemma end_token:
  "gives E s (parse_end E ty msg) (\<lambda>us l. \<exists>e. us = [e] \<and> tk_type e = ty \<and> l = tk_line e)"
  unfolding parse_end_def by (intro parser_rules) auto

lemma elseifs:
  "g_branches False us0 bs \<Longrightarrow> gives E s (parse_elseifs E R bs) (\<lambda>us bs. g_branches False (us0 @ us) bs)"
  unfolding parse_elseifs_def elseif_turn_def
  by (rule gives_loop [where I = "\<lambda>us bs. g_branches False (us0 @ us) bs"], simp,
      intro parser_rules gives_bind [OF branch]) (auto intro: branches_step)

lemma if_stmt: "gives E s (parseIfStmt E R) (g_stmt False)"
  unfolding parseIfStmt_def
proof (intro gives_gets gives_expect gives_bind [OF branch])
  fix s1 us b s2
  assume t: "tk_type (pz_current s) = TT_If" and b: "g_branch False us b"
  let ?k = "\<lambda>branches. p_bind (p_match E TT_Else) (\<lambda>otherwise. p_bind (if otherwise then r_block R else p_ret [])
     (\<lambda>elseBranch. p_bind (parse_end E TT_End (quoted_message ''end'' '' to close if statement''))
     (\<lambda>endLine. make_stmt E (IfStmt (at_token (pz_current s)) branches elseBranch endLine))))"
  have "g_branches False (pz_current s # us) [b]" using t b by (auto intro: first_branch)
  note first = elseifs [OF this]
  show "gives E s2 (p_bind (parse_elseifs E R [b]) ?k) (\<lambda>vs. g_stmt False (pz_current s # us @ vs))"
    by (intro parser_rules bind_block gives_bind [OF first] gives_bind [OF end_token])
      (auto intro: if_then [where us = "pz_current s # ws" for ws, simplified] if_else [where us = "pz_current s # ws" for ws, simplified])
qed

lemma while_stmt: "gives E s (parseWhileStmt E R) (g_stmt False)"
  unfolding parseWhileStmt_def
  by (intro parser_rules bind_expression bind_block gives_bind [OF end_token]) (auto intro: Grammar.while_stmt)

lemma do_stmt: "gives E s (parseDoStmt E R) (g_stmt False)"
  unfolding parseDoStmt_def
  by (intro parser_rules bind_block gives_bind [OF end_token]) (auto intro: Grammar.do_stmt)

lemma repeat_stmt: "gives E s (parseRepeatStmt E R) (g_stmt False)"
  unfolding parseRepeatStmt_def
  by (intro parser_rules bind_block bind_expression gives_bind [OF end_token]) (auto intro: Grammar.repeat_stmt)

lemma for_in_rest:
  assumes "tk_type t = TT_For" "g_names ns vars"
  shows "gives E s (parse_for_in E R t vars) (\<lambda>us st. g_stmt False (t # ns @ us) st)"
  unfolding parse_for_in_def
  by (intro parser_rules bind_block gives_bind [OF exprs] gives_bind [OF end_token]) (use assms in \<open>auto intro: for_in\<close>)

lemma for_num_rest:
  assumes "tk_type t = TT_For" "is_name n" "equals q"
  shows "gives E s (parse_for_num E R t (p_tokenString n)) (\<lambda>us st. g_stmt False (t # n # q # us) st)"
  unfolding parse_for_num_def
  by (intro parser_rules bind_block bind_expression gives_bind [OF end_token])
    (use assms in \<open>auto intro: for_num_step simp: comma_def\<close>)

lemma names_list:
  assumes "\<And>s. gives E s item (\<lambda>us n. \<exists>t. us = [t] \<and> is_name t \<and> n = p_tokenString t)"
  shows "gives E s (p_items E m item []) g_names"
    "g_names us0 ns \<Longrightarrow> comma c \<Longrightarrow> gives E s (p_items E m item ns) (\<lambda>us xs. g_names (us0 @ c # us) xs)"
proof -
  show "gives E s (p_items E m item []) g_names" for m
    by (rule sound_items [OF assms, where I = "\<lambda>us xs. us = [] \<and> xs = [] \<or> (\<exists>us0 c. us = us0 @ [c] \<and> comma c \<and> g_names us0 xs)"])
      (auto simp: names_step intro: one_name)
  assume n: "g_names us0 ns" "comma c"
  let ?I = "\<lambda>us xs. us = [] \<and> xs = ns \<or> (\<exists>us1 c1. us = us1 @ [c1] \<and> comma c1 \<and> g_names (us0 @ c # us1) xs)"
  show "gives E s (p_items E m item ns) (\<lambda>us xs. g_names (us0 @ c # us) xs)" for m
  proof (rule sound_items [OF assms, where I = ?I])
    fix us xs vs x assume "?I us xs" "\<exists>t. vs = [t] \<and> is_name t \<and> x = p_tokenString t"
    then show "g_names (us0 @ c # us @ vs) (xs @ [x])" using n names_step by fastforce
  qed simp_all
qed

lemma more_exprs_list:
  assumes "g_exprs False us0 es" "comma c" "es \<noteq> []"
  shows "gives E s (p_items E n (r_expression R) es) (\<lambda>us xs. g_exprs False (us0 @ c # us) xs \<and> xs \<noteq> [] \<and> hd xs = hd es)"
  by (rule sound_items [OF expression, where I = "\<lambda>us xs. (us = [] \<and> xs = es \<or> (\<exists>us1 c1. us = us1 @ [c1] \<and> comma c1 \<and>
      g_exprs False (us0 @ c # us1) xs)) \<and> xs \<noteq> [] \<and> hd xs = hd es"]) (use assms in \<open>auto intro: exprs_step\<close>)

lemma item_name: "gives E s (p_name E msg) (\<lambda>us n. \<exists>t. us = [t] \<and> is_name t \<and> n = p_tokenString t)"
  unfolding p_name_def by (intro parser_rules) auto

lemma for_stmt: "gives E s (parseForStmt E R) (g_stmt False)"
  unfolding parseForStmt_def
  by (intro parser_rules gives_weaken [OF for_num_rest] gives_bind [OF names_list(2) [OF item_name]] gives_weaken [OF for_in_rest])
    (auto intro: one_name simp: comma_def equals_def)

lemma function_path_names: "is_name t \<Longrightarrow> gives E s (function_path E R (p_tokenString t))
    (\<lambda>us r. case r of (path, n, isMethod) \<Rightarrow> g_funcname (t # us) path n isMethod)"
  unfolding function_path_def path_turn_def
  by (rule gives_loop [where I = "\<lambda>us (path, n). g_dotted (t # us) path n"])
    (auto intro!: parser_rules intro: plain_name dotted_step function_name)

lemma function_stmt: "gives E s (parseFunctionStmt E R) (g_stmt False)"
  unfolding parseFunctionStmt_def
  by (intro parser_rules gives_bind [OF function_path_names] gives_bind [OF function_rest]) (auto intro: Grammar.function_stmt)

lemma local_function: "tk_type t = TT_Local \<Longrightarrow> tk_type f = TT_Function \<Longrightarrow>
    gives E s (parse_local_function E R t) (\<lambda>us st. g_stmt False (t # f # us) st)"
  unfolding parse_local_function_def
  by (intro parser_rules gives_bind [OF function_rest]) (auto intro: Grammar.local_function)

lemma local_name: "gives E s (parse_local_name E) (\<lambda>us n. \<exists>t. us = [t] \<and> is_name t \<and> n = p_tokenString t)"
  unfolding parse_local_name_def by (intro parser_rules) auto

lemma local_stmt: "gives E s (parseLocalStmt E R) (g_stmt False)"
  unfolding parseLocalStmt_def
  by (intro parser_rules gives_weaken [OF local_function] gives_bind [OF names_list(1) [OF local_name]] gives_bind [OF exprs])
    (auto intro: local_names local_values simp: equals_def)

lemma return_stmt: "gives E s (parseReturnStmt E R) (\<lambda>us st. \<exists>vs. g_return False vs st \<and> (us = vs \<or> (\<exists>t. semicolon t \<and> us = vs @ [t])))"
  unfolding parseReturnStmt_def
  by (intro parser_rules gives_bind [OF exprs]) (auto intro: return_nothing return_values simp: semicolon_def)

lemma break_stmt: "gives E s (parseBreakStmt E) (g_stmt False)"
  unfolding parseBreakStmt_def by (intro parser_rules) (auto intro: Grammar.break_stmt)

lemma expr_stmt: "gives E s (parseExprStmt E R) (g_stmt False)"
  unfolding parseExprStmt_def parse_assignment_def
  by (intro parser_rules gives_bind [OF expression_level] gives_bind [OF more_exprs_list] gives_bind [OF exprs])
    (auto intro: one_expr assignment [where strict = False and targets = "[e]" for e, simplified] assignment_step Grammar.call_stmt simp: comma_def equals_def)

lemma statement: "gives E s (parseStatement E R) (g_stmt False)"
  unfolding parseStatement_def
  by (rule gives_gets, cases "tk_type (pz_current s)")
    (simp_all add: if_stmt while_stmt do_stmt for_stmt repeat_stmt function_stmt local_stmt break_stmt expr_stmt)

lemma block_turn:
  assumes "pn_mode E = FailFast" "g_stmts False us0 sts m"
  shows "gives E s (block_step E R (sts, m))
    (\<lambda>us r. case r of Inl (sts, m) \<Rightarrow> g_stmts False (us0 @ us) sts m | Inr sts \<Rightarrow> g_block False (us0 @ us) sts)"
proof -
  have fail_fast: "recovering E R d k = k" for d and k :: "'a parser"
    using assms(1) by (auto simp: recovering_def split: prod.split parsed.split parse_exn.split)
  show ?thesis unfolding block_step_def prod.case fail_fast
    by (intro parser_rules gives_bind [OF return_stmt] gives_bind [OF statement])
      (use assms(2) in \<open>auto intro: plain_block separator more_stmts block_return block_return_separator simp: semicolon_def\<close>)
qed

lemma block_level:
  assumes "pn_mode E = FailFast"
  shows "gives E s (parseBlock E R) (g_block False)"
  unfolding parseBlock_def
proof (rule gives_syntax_guarded, rule gives_loop [where I = "\<lambda>us (sts, m). g_stmts False us sts m"])
  fix us y s1 assume "case y of (sts, m) \<Rightarrow> g_stmts False us sts m"
  then show "gives E s1 (block_step E R y) (\<lambda>vs r. case r of Inl (sts, m) \<Rightarrow> g_stmts False (us @ vs) sts m
      | Inr sts \<Rightarrow> g_block False (us @ vs) sts)"
    using block_turn [OF assms, of us "fst y" "snd y"] by (cases y) (simp only: prod.case fst_conv snd_conv)
qed (simp add: no_stmts)

end

section \<open>The recursion\<close>

text \<open>With any bound on the recursion the rules are sound: those of bound 0 never return, and those of bound \<open>n + 1\<close>
  are the ones above over those of bound \<open>n\<close>.\<close>

lemma rules_at_sound: "pn_mode E = FailFast \<Longrightarrow> sound_parsers E (rules_at E n)"
proof (induction n)
  case 0
  show ?case by unfold_locales (simp_all add: gives_fail)
next
  case (Suc n)
  note sound = Suc.IH [OF Suc.prems]
  show ?case
    by unfold_locales (simp_all add: sound_parsers.expression_level [OF sound] sound_parsers.concat_level [OF sound]
        sound_parsers.unary_level [OF sound] sound_parsers.block_level [OF sound Suc.prems] Let_def)
qed

interpretation fail_fast: sound_parsers "E\<lparr>pn_mode := FailFast\<rparr>" "rules_at (E\<lparr>pn_mode := FailFast\<rparr>) n" for E n
  by (rule rules_at_sound) simp

end
