(* ===== verification/ParserProps.thy ===== *)
theory ParserProps
  imports ParserSound
begin

text \<open>
  What the parser answers for a text, in terms of the tokens of the text: a chunk only if the grammar derives it from all
  of them.
\<close>

section \<open>The tokens of a text\<close>

definition no_eos :: "token list \<Rightarrow> bool" where
  "no_eos ts \<longleftrightarrow> (\<forall>t \<in> List.set ts. tk_type t \<noteq> TT_Eos)"

lemma no_eos_simps [simp]:
  "no_eos []" "no_eos (t # ts) \<longleftrightarrow> tk_type t \<noteq> TT_Eos \<and> no_eos ts" "no_eos (us @ vs) \<longleftrightarrow> no_eos us \<and> no_eos vs"
  by (auto simp: no_eos_def)

lemma names_no_eos: "g_names ts ns \<Longrightarrow> no_eos ts"
  by (induction rule: g_names.induct) (simp_all add: comma_def)

lemma params_no_eos: "g_params ts ps \<Longrightarrow> no_eos ts"
  by (erule g_params.cases) (auto simp: comma_def names_no_eos)

lemma dotted_no_eos: "g_dotted ts path n \<Longrightarrow> no_eos ts"
  by (induction rule: g_dotted.induct) simp_all

lemma funcname_no_eos: "g_funcname ts path n m \<Longrightarrow> no_eos ts"
  by (erule g_funcname.cases) (auto simp: dotted_no_eos)

lemma ops_no_eos: "left_op k TT_Eos = None" "unary_op TT_Eos = None"
  by (simp_all add: left_op_def or_op_def and_op_def relational_op_def additive_op_def multiplicative_op_def unary_op_def)

lemma left_op_no_eos: "left_op k ty = Some op \<Longrightarrow> ty \<noteq> TT_Eos" "unary_op ty = Some uop \<Longrightarrow> ty \<noteq> TT_Eos"
  using ops_no_eos by auto

lemma grammar_no_eos:
  "g_expr strict k ts e \<Longrightarrow> no_eos ts" "g_suffixed strict ts1 e1 \<Longrightarrow> no_eos ts1" "g_args strict ts2 es2 \<Longrightarrow> no_eos ts2"
  "g_method_args strict l ts3 es3 \<Longrightarrow> no_eos ts3" "g_exprs strict ts4 es4 \<Longrightarrow> no_eos ts4" "g_field strict ts5 f5 \<Longrightarrow> no_eos ts5"
  "g_fields strict ts6 fs6 sep \<Longrightarrow> no_eos ts6" "g_table strict ts7 e7 \<Longrightarrow> no_eos ts7" "g_body strict im ts8 r8 \<Longrightarrow> no_eos ts8"
  "g_branch strict ts9 b9 \<Longrightarrow> no_eos ts9" "g_branches strict ts10 bs10 \<Longrightarrow> no_eos ts10" "g_stmt strict ts11 st11 \<Longrightarrow> no_eos ts11"
  "g_return strict ts12 st12 \<Longrightarrow> no_eos ts12" "g_stmts strict ts13 sts13 m \<Longrightarrow> no_eos ts13" "g_block strict ts14 sts14 \<Longrightarrow> no_eos ts14"
  by (induction rule: g_expr_g_suffixed_g_args_g_method_args_g_exprs_g_field_g_fields_g_table_g_body_g_branch_g_branches_g_stmt_g_return_g_stmts_g_block.inducts)
    (auto simp: caret_def comma_def semicolon_def equals_def open_paren_def close_paren_def names_no_eos params_no_eos funcname_no_eos
      dest: left_op_no_eos)

lemma nextTokens_stream: "nextTokens E n lx = map (token_at (nextToken E) lx) [0..<n]"
proof (induction n arbitrary: lx)
  case (Suc n)
  show ?case
    by (cases "nextToken E lx") (simp add: Suc.IH map_upt_Suc del: upt_Suc)
qed simp

lemma covers_ends:
  "covers before w ts \<Longrightarrow> \<exists>us t. ts = us @ [t] \<and> no_eos us \<and> tk_type t = TT_Eos"
proof (induction before w ts rule: covers.induct)
  case (2 before w t ts)
  show ?case
  proof (cases "tk_type t = TT_Eos")
    case True
    then show ?thesis using 2(2) by (intro exI [of _ "[]"] exI [of _ t]) auto
  next
    case False
    with 2(2) obtain gap r where c: "covers (before @ gap @ tk_lexeme t) r ts" by auto
    from 2(1) [OF False c] False show ?thesis by (metis append_Cons no_eos_simps(2))
  qed
qed simp

lemma upto_eos:
  assumes "us @ [t] = map f [0..<m]" "no_eos us"
  shows "f (length us) = t" "i < length us \<Longrightarrow> tk_type (f i) \<noteq> TT_Eos" "m = Suc (length us)"
proof -
  show m: "m = Suc (length us)" using arg_cong [OF assms(1), of length] by simp
  have nth: "(us @ [t]) ! i = f i" if "i < m" for i using that assms(1) by simp
  show "f (length us) = t" using nth [of "length us"] m by simp
  show "tk_type (f i) \<noteq> TT_Eos" if "i < length us" for i
    using nth [of i] that m assms(2) nth_mem [OF that] by (auto simp: nth_append no_eos_def)
qed

lemma first_eos:
  assumes "us @ [t] = map f [0..<m]" "vs @ [u] = map f [0..<k]" "no_eos us" "no_eos vs" "tk_type t = TT_Eos" "tk_type u = TT_Eos"
  shows "us @ [t] = vs @ [u]"
proof -
  have "\<not> length us < length vs" "\<not> length vs < length us"
    using upto_eos [OF assms(1,3)] upto_eos [OF assms(2,4)] assms(5,6) by metis+
  then have "m = k" using upto_eos(3) [OF assms(1,3)] upto_eos(3) [OF assms(2,4)] by simp
  then show ?thesis using assms(1,2) by simp
qed

section \<open>The chunk of a text\<close>

lemma p_bind_ok: "p_bind m f s = (PT_Ok y, s') \<longleftrightarrow> (\<exists>x s1. m s = (PT_Ok x, s1) \<and> f x s1 = (PT_Ok y, s'))"
  by (auto simp: p_bind_def split: prod.splits parsed.splits)

lemma p_seq_ok: "p_seq m k s = (PT_Ok y, s') \<longleftrightarrow> (\<exists>x s1. m s = (PT_Ok x, s1) \<and> k s1 = (PT_Ok y, s'))"
  by (simp add: p_seq_def p_bind_ok)

lemma reads_upto:
  assumes "reads E s ts s'"
  shows "ts @ [pz_current s'] = map (token_stream E s) [0..<Suc (length ts)]"
proof (rule nth_equalityI)
  fix i assume "i < length (ts @ [pz_current s'])"
  then show "(ts @ [pz_current s']) ! i = map (token_stream E s) [0..<Suc (length ts)] ! i"
    using assms by (auto simp: reads_def nth_append token_stream_def [of E s' 0] simp del: upt_Suc)
qed simp

lemma enter_scope_reads:
  "enterFunctionSyntaxScope E line ps s = (PT_Ok x, s') \<Longrightarrow> p_ok s \<Longrightarrow> reads E s [] s'"
  by (rule same_tokens)
    (auto simp: enterFunctionSyntaxScope_def p_seq_def p_bind_def p_charge_def Let_def split: prod.splits parsed.splits option.splits)

lemma parse_chunk_derives:
  assumes "pn_mode E = FailFast" "p_ok s" "parse_chunk E (rules_at E n) s = (PT_Ok (Inr chunk), s')"
  shows "\<exists>ts. reads E s ts s' \<and> tk_type (pz_current s') = TT_Eos \<and> g_block False ts chunk"
proof -
  let ?R = "rules_at E n"
  obtain s1 s2 where run: "enterFunctionSyntaxScope E 1 [] (s\<lparr>pz_diagnostics := [], pz_scopes := []\<rparr>) = (PT_Ok (), s1)"
    "parseBlock E ?R s1 = (PT_Ok chunk, s2)" "tk_type (pz_current s2) = TT_Eos" "s' = s2"
    using assms(3) unfolding parse_chunk_def
    by (auto simp: p_seq_ok p_bind_ok p_check_def p_gets_def p_ret_def p_error_def errorAt_def p_fail_def publishDiagnostic_def Let_def
        split: if_splits list.splits)
  have r0: "reads E s [] (s\<lparr>pz_diagnostics := [], pz_scopes := []\<rparr>)" by (rule same_tokens) (use assms(2) in simp_all)
  have r1: "reads E s [] s1" using reads_trans [OF r0 enter_scope_reads [OF run(1)]] r0 by auto
  obtain ts where "reads E s1 ts s2" "g_block False ts chunk"
    using givesD [OF sound_parsers.block_level [OF rules_at_sound [OF assms(1)] assms(1)] _ run(2)] r1 by blast
  then show ?thesis using reads_trans [OF r1] run by fastforce
qed

lemma new_parser_stream:
  assumes "new_parser E policy execution source = (PT_Ok (), s)"
  shows "p_ok s" "token_stream E s i = token_at (nextToken (pn_lexer E)) (new_lexer source) i"
proof -
  obtain s1 s2 where c: "p_charge E (\<lambda>now. cb_checkSource now (length source)) (start_state policy execution source) = (PT_Ok (), s1)"
    and a: "p_advance E s1 = (PT_Ok (), s2)" and s: "s = s2\<lparr>pz_previous := pz_current s2\<rparr>"
    using assms by (auto simp: new_parser_def p_seq_ok)
  have start: "p_ok (start_state policy execution source)"
    unfolding p_ok_def lexer_ok_def start_state_def
    by (rule exI [of _ source], rule exI [of _ "[]"]) (simp add: has_read_def pass_def new_lexer_def start_of_def)
  note r = p_charge_ok [OF c start]
  then have r2: "reads E s1 [pz_current s1] s2" by (intro p_advance_ok [OF a]) auto
  have "reads E (start_state policy execution source) [pz_current s1] s2" using reads_trans [OF r r2] by simp
  then have "token_stream E s2 i = token_stream E (start_state policy execution source) (Suc i)" for i
    by (simp add: reads_def)
  moreover have "token_stream E s i = token_stream E s2 i" for i by (cases i) (simp_all add: s token_stream_def)
  ultimately show "token_stream E s i = token_at (nextToken (pn_lexer E)) (new_lexer source) i"
    by (simp add: token_stream_def start_state_def)
  show "p_ok s" using r2 s by (auto simp: p_ok_def reads_def)
qed


end
