(* ===== verification/ParserEnds.thy ===== *)
theory ParserEnds
  imports ParserProps
begin

text \<open>
  The parser always ends: every call that recurses and every turn of a loop comes after a token of the text has been
  read, also when a statement is given up and the parser goes on behind it. A bound larger than the text is therefore
  never reached.
\<close>

named_theorems end_rules

section \<open>Numbers carry their value\<close>

definition number_ok :: "token \<Rightarrow> bool" where
  "number_ok t \<longleftrightarrow> (tk_type t = TT_Number \<longrightarrow> (\<exists>x. tk_value t = TV_Number x))"

lemma number_ok_tokens [simp]:
  "number_ok (errorToken m lx)" "ty \<noteq> TT_Number \<Longrightarrow> number_ok (makeToken ty lx)"
  "number_ok (t\<lparr>tk_value := TV_Number x\<rparr>)" "ty \<noteq> TT_Number \<Longrightarrow> number_ok ((makeToken ty lx)\<lparr>tk_value := v\<rparr>)"
  by (simp_all add: number_ok_def errorToken_def makeToken_def)

lemma number_ok_comment: "longComment_loop level lx = (Some t, lx') \<Longrightarrow> number_ok t"
proof (induction level lx rule: longComment_loop.induct)
  case (1 level lx)
  show ?case
  proof (cases "isAtEnd lx \<or> peek lx \<noteq> CHR '']''")
    case True
    then show ?thesis using 1(2,3) by (subst (asm) (2) longComment_loop.simps) (auto split: if_splits)
  next
    case False
    then show ?thesis using 1(1,3) by (subst (asm) (2) longComment_loop.simps) (auto split: prod.splits if_splits)
  qed
qed

lemma number_ok_skip: "skipWhitespace lx = (Some t, lx') \<Longrightarrow> number_ok t"
proof (induction lx rule: skipWhitespace.induct)
  case (1 lx)
  have "number_ok t" if "skipComment lx = (Some t, lx')"
    using that number_ok_comment
    by (auto simp: skipComment_def Let_def skipLongComment_def split: if_splits prod.splits option.splits)
  then show ?case using 1
    by (subst (asm) (4) skipWhitespace.simps) (auto simp: Let_def split: if_splits prod.splits)
qed

lemma number_ok_string: "shortString_loop q r lx = (Inl t, lx') \<Longrightarrow> number_ok t"
proof (induction q r lx rule: shortString_loop.induct)
  case (1 q r lx)
  have "number_ok t" if "appendShortStringEscape r lx = (Inl t, lx')"
    using that by (auto simp: appendShortStringEscape_def appendDecimalEscape_def Let_def split: if_splits prod.splits option.splits)
  then show ?case using 1
    by (subst (asm) (3) shortString_loop.simps) (auto split: if_splits prod.splits sum.splits)
qed

lemma number_ok_keyword: "number_ok (fst (lex_identifier E lx))"
proof -
  have "map_of keyword_table w \<noteq> Some TT_Number" for w
    by (auto dest!: map_of_SomeD simp: keyword_table_def)
  then show ?thesis by (auto simp: lex_identifier_def Let_def split: option.split intro!: number_ok_tokens(2))
qed

lemma number_ok_decimal: "number_ok (fst (decimalNumber E lx))" "number_ok (fst (hexadecimalNumber E lx))"
  by (simp_all add: decimalNumber_def hexadecimalNumber_def Let_def split: option.split prod.split)

lemma number_ok_scan: "number_ok (fst (scanToken E lx))"
proof -
  have "number_ok (fst (shortString q lx))" for q lx
    using number_ok_string by (auto simp: shortString_def Let_def split: prod.splits sum.splits)
  moreover have "number_ok (fst (handleOperator E c lx))" for c lx
    using number_ok_decimal
    by (auto simp: handleOperator_def handleEqualsSuffix_def handleTildeOperator_def handleDotOperator_def split: prod.split)
  moreover have "tryLongString lx = (Some t, lx') \<Longrightarrow> number_ok t" for t lx lx'
    by (auto simp: tryLongString_def longString_def split: prod.splits option.splits)
  ultimately show ?thesis using number_ok_keyword number_ok_decimal
    by (auto simp: scanToken_def Let_def number_ok_skip split: prod.split option.split)
qed

lemma number_ok_stream: "lx_lookahead lx = None \<Longrightarrow> lexer_ok lx \<Longrightarrow> number_ok (token_at (nextToken E) lx i)"
proof (induction i arbitrary: lx)
  case 0
  then show ?case by (simp add: nextToken_def number_ok_scan)
next
  case (Suc i)
  obtain t lx' where s: "scanToken E lx = (t, lx')" by fastforce
  then have "lx_lookahead lx' = None" "lexer_ok lx'" using Suc.prems scanToken_spec lexer_ok_scan unfolding lexer_ok_def by metis+
  then show ?case using Suc.IH [of lx'] Suc.prems(1) s by (simp add: nextToken_def)
qed

section \<open>Tokens ahead\<close>

definition ended :: "parser_env \<Rightarrow> pstate \<Rightarrow> bool" where
  "ended E s \<longleftrightarrow> p_ok s \<and> (\<exists>i. tk_type (token_stream E s i) = TT_Eos) \<and> (\<forall>i. number_ok (token_stream E s i))"

definition ahead :: "parser_env \<Rightarrow> pstate \<Rightarrow> nat" where
  "ahead E s = (LEAST i. tk_type (token_stream E s i) = TT_Eos)"

definition steps :: "parser_env \<Rightarrow> pstate \<Rightarrow> nat \<Rightarrow> pstate \<Rightarrow> bool" where
  "steps E s n s' \<longleftrightarrow> ended E s' \<and> ahead E s = n + ahead E s' \<and> (n = 0 \<longrightarrow> pz_current s' = pz_current s)"

lemma steps_refl: "ended E s \<Longrightarrow> steps E s 0 s"
  by (simp add: steps_def)

lemma steps_trans: "steps E s m s1 \<Longrightarrow> steps E s1 n s2 \<Longrightarrow> steps E s (m + n) s2"
  by (auto simp: steps_def)

lemma steps_ended: "steps E s n s' \<Longrightarrow> ended E s'"
  by (simp add: steps_def)

lemma same_stream_steps: "reads E s [] s' \<Longrightarrow> ended E s \<Longrightarrow> steps E s 0 s'"
  using reads_stream [of E s s'] reads_current(1) [of E s s'] by (auto simp: steps_def ended_def ahead_def)

lemma ahead_zero: "ended E s \<Longrightarrow> ahead E s = 0 \<longleftrightarrow> tk_type (pz_current s) = TT_Eos"
proof
  assume e: "ended E s"
  then have "tk_type (token_stream E s (ahead E s)) = TT_Eos" unfolding ended_def ahead_def by (metis (mono_tags) LeastI)
  then show "ahead E s = 0 \<Longrightarrow> tk_type (pz_current s) = TT_Eos" by (simp add: token_stream_def)
  assume "tk_type (pz_current s) = TT_Eos"
  then show "ahead E s = 0" unfolding ahead_def by (intro Least_equality) (simp_all add: token_stream_def)
qed

lemma step_reads:
  assumes "reads E s [pz_current s] s'" "ended E s" "tk_type (pz_current s) \<noteq> TT_Eos"
  shows "steps E s 1 s'"
proof -
  have str: "token_stream E s (Suc i) = token_stream E s' i" for i using assms(1) by (simp add: reads_def)
  have zero: "tk_type (token_stream E s 0) \<noteq> TT_Eos" using assms(3) by (simp add: token_stream_def)
  obtain i where i: "tk_type (token_stream E s i) = TT_Eos" using assms(2) by (auto simp: ended_def)
  have "ahead E s = Suc (ahead E s')" unfolding ahead_def
    using Least_Suc [of "\<lambda>i. tk_type (token_stream E s i) = TT_Eos", OF i zero] by (simp add: str)
  moreover have "ended E s'" using assms(1,2) zero i str unfolding ended_def by (metis not0_implies_Suc reads_ok)
  ultimately show ?thesis by (simp add: steps_def)
qed

section \<open>The triple\<close>

text \<open>\<open>m\<close> does not run out of turns from \<open>s\<close>, and reads a token if it answers an \<open>x\<close> with \<open>d x\<close>, or if it fails with a
  syntax error and \<open>f\<close> holds.\<close>

definition halts :: "parser_env \<Rightarrow> pstate \<Rightarrow> ('a \<Rightarrow> bool) \<Rightarrow> bool \<Rightarrow> 'a parser \<Rightarrow> bool" where
  "halts E s d f m \<longleftrightarrow> (ended E s \<longrightarrow>
     (case m s of
        (PT_Ok x, s') \<Rightarrow> (\<exists>n. steps E s n s' \<and> (d x \<longrightarrow> 0 < n))
      | (PT_Fail (PX_Parse e), s') \<Rightarrow> (\<exists>n. steps E s n s' \<and> (f \<longrightarrow> 0 < n))
      | (PT_Fail (PX_Limit e), s') \<Rightarrow> True
      | (PT_Fail PX_BadVariant, s') \<Rightarrow> False
      | (PT_Timeout, s') \<Rightarrow> False))"

lemma halts_weaken: "halts E s d f m \<Longrightarrow> (\<And>x. d' x \<Longrightarrow> d x) \<Longrightarrow> (f' \<Longrightarrow> f) \<Longrightarrow> halts E s d' f' m"
  unfolding halts_def by (fastforce split: prod.splits parsed.splits parse_exn.splits)

lemma halts_bind:
  assumes "halts E s d1 f m"
    and "\<And>x n s1. ahead E s = n + ahead E s1 \<Longrightarrow> (n = 0 \<Longrightarrow> pz_current s1 = pz_current s) \<Longrightarrow> (d1 x \<Longrightarrow> 0 < n) \<Longrightarrow>
      halts E s1 (\<lambda>y. d y \<and> n = 0) (f \<and> n = 0) (k x)"
  shows "halts E s d f (p_bind m k)"
  unfolding halts_def
proof
  assume e: "ended E s"
  obtain r s1 where m: "m s = (r, s1)" by fastforce
  show "case p_bind m k s of
        (PT_Ok x, s') \<Rightarrow> (\<exists>n. steps E s n s' \<and> (d x \<longrightarrow> 0 < n))
      | (PT_Fail (PX_Parse e), s') \<Rightarrow> (\<exists>n. steps E s n s' \<and> (f \<longrightarrow> 0 < n))
      | (PT_Fail (PX_Limit e), s') \<Rightarrow> True
      | (PT_Fail PX_BadVariant, s') \<Rightarrow> False
      | (PT_Timeout, s') \<Rightarrow> False"
  proof (cases r)
    case (PT_Ok x)
    then obtain n where n: "steps E s n s1" "d1 x \<longrightarrow> 0 < n" using assms(1) e m by (auto simp: halts_def)
    have "halts E s1 (\<lambda>y. d y \<and> n = 0) (f \<and> n = 0) (k x)" using assms(2) [of n s1 x] n by (simp add: steps_def)
    moreover have "p_bind m k s = k x s1" using m PT_Ok by (simp add: p_bind_def)
    ultimately show ?thesis using steps_ended [OF n(1)] steps_trans [OF n(1)] unfolding halts_def
      by (fastforce split: prod.splits parsed.splits parse_exn.splits)
  next
    case (PT_Fail e)
    then show ?thesis using assms(1) \<open>ended E s\<close> m by (auto simp: halts_def p_bind_def split: parse_exn.splits)
  next
    case PT_Timeout
    then show ?thesis using assms(1) e m by (simp add: halts_def)
  qed
qed

lemma halts_then:
  assumes "halts E s d1 False m"
    and "\<And>x n s1. ahead E s = n + ahead E s1 \<Longrightarrow> (d1 x \<Longrightarrow> 0 < n) \<Longrightarrow> halts E s1 (\<lambda>y. d y \<and> n = 0) False (k x)"
  shows "halts E s d False (p_bind m k)"
  by (rule halts_bind [OF assms(1)]) (simp add: assms(2))

lemma halts_ret [end_rules]: "\<not> d x \<Longrightarrow> halts E s d f (p_ret x)"
  using steps_refl by (auto simp: halts_def p_ret_def)

lemma halts_errorAt [end_rules]: "\<not> f \<Longrightarrow> halts E s d f (errorAt t msg)"
  unfolding halts_def errorAt_def
  by (auto simp: p_seq_def p_bind_def publishDiagnostic_def p_fail_def Let_def intro!: exI [of _ 0] same_stream_steps same_tokens)
    (simp add: ended_def)

lemma halts_error [end_rules]: "\<not> f \<Longrightarrow> halts E s d f (p_error msg)"
  using halts_errorAt [of f E s d "pz_current s" msg] by (simp add: p_error_def p_bind_def p_gets_def halts_def)

lemma halts_seq_error [end_rules]: "\<not> f \<Longrightarrow> halts E s d f (p_seq (p_error msg) k)"
proof -
  have "p_seq (p_error msg) k = p_error msg"
    by (rule ext) (simp add: p_error_def errorAt_def p_seq_def p_bind_def p_gets_def publishDiagnostic_def p_fail_def Let_def)
  then show "\<not> f \<Longrightarrow> halts E s d f (p_seq (p_error msg) k)" by (simp add: halts_error)
qed

lemma halts_gets [end_rules]: "halts E s d f (k (g s)) \<Longrightarrow> halts E s d f (p_bind (p_gets g) k)"
  by (simp add: halts_def p_bind_def p_gets_def)

lemma halts_seq:
  assumes "halts E s d1 f m"
    and "\<And>n s1. ahead E s = n + ahead E s1 \<Longrightarrow> (n = 0 \<Longrightarrow> pz_current s1 = pz_current s) \<Longrightarrow> (d1 () \<Longrightarrow> 0 < n) \<Longrightarrow>
      halts E s1 (\<lambda>y. d y \<and> n = 0) (f \<and> n = 0) k"
  shows "halts E s d f (p_seq m k)"
  unfolding p_seq_def using halts_bind [OF assms(1), of d "\<lambda>_. k"] assms(2) by simp

lemma halts_seq_advance [end_rules]:
  assumes "tk_type (pz_current s) \<noteq> TT_Eos"
    and "\<And>s1. ahead E s1 < ahead E s \<Longrightarrow> pz_current s1 = token_stream E s 1 \<Longrightarrow> halts E s1 (\<lambda>_. False) False k"
  shows "halts E s d f (p_seq (p_advance E) k)"
proof (cases "ended E s")
  case True
  obtain r s1 where a: "p_advance E s = (r, s1)" by fastforce
  show ?thesis
  proof (cases r)
    case (PT_Ok x)
    then have r: "reads E s [pz_current s] s1" using p_advance_ok [of E s x s1] True a by (simp add: ended_def)
    note st = step_reads [OF r True assms(1)]
    have "token_stream E s 1 = token_stream E s1 0" using r by (simp add: reads_def)
    then have "halts E s1 (\<lambda>_. False) False k" using assms(2) [of s1] st by (simp add: steps_def token_stream_def [of E s1 0])
    moreover have "p_seq (p_advance E) k s = k s1" using a PT_Ok by (simp add: p_seq_def p_bind_def)
    ultimately show ?thesis using steps_ended [OF st] steps_trans [OF st] unfolding halts_def
      by (fastforce split: prod.splits parsed.splits parse_exn.splits)
  qed (use a in \<open>auto simp: halts_def p_advance_def p_seq_def p_bind_def p_charge_def Let_def
      split: prod.splits parsed.splits option.splits\<close>)
qed (simp add: halts_def)

lemma halts_match [end_rules]:
  assumes "ty \<noteq> TT_Eos"
    and "\<And>s1. tk_type (pz_current s) = ty \<Longrightarrow> ahead E s1 < ahead E s \<Longrightarrow> halts E s1 (\<lambda>_. False) False (k True)"
    and "tk_type (pz_current s) \<noteq> ty \<Longrightarrow> halts E s d f (k False)"
  shows "halts E s d f (p_bind (p_match E ty) k)"
proof (cases "tk_type (pz_current s) = ty")
  case True
  then have "p_bind (p_match E ty) k s = p_seq (p_advance E) (k True) s"
    by (simp add: p_match_def p_check_def p_bind_def p_seq_def p_gets_def p_ret_def split: prod.split parsed.split)
  then show ?thesis using halts_seq_advance [of s E "k True" d f] assms(1,2) True by (simp add: halts_def)
next
  case False
  then have "p_bind (p_match E ty) k s = k False s" by (simp add: p_match_def p_check_def p_bind_def p_gets_def p_ret_def)
  then show ?thesis using assms(3) False by (simp add: halts_def)
qed

lemma halts_check [end_rules]:
  assumes "tk_type (pz_current s) = ty \<Longrightarrow> halts E s d f (k True)" "tk_type (pz_current s) \<noteq> ty \<Longrightarrow> halts E s d f (k False)"
  shows "halts E s d f (p_bind (p_check ty) k)"
  unfolding p_check_def by (rule halts_gets) (cases "tk_type (pz_current s) = ty"; use assms in simp)

lemma expect_as_match: "p_seq (p_expect E ty msg) k = p_bind (p_match E ty) (\<lambda>ok. if ok then k else p_error msg)"
proof
  fix s show "p_seq (p_expect E ty msg) k s = p_bind (p_match E ty) (\<lambda>ok. if ok then k else p_error msg) s"
    by (auto simp: p_seq_def p_expect_def p_bind_def p_ret_def p_error_def p_gets_def errorAt_def Let_def publishDiagnostic_def p_fail_def
        split: prod.split parsed.split)
qed

lemma halts_expect [end_rules]:
  assumes "ty \<noteq> TT_Eos" "tk_type (pz_current s) \<noteq> ty \<Longrightarrow> \<not> f"
    and "\<And>s1. ahead E s1 < ahead E s \<Longrightarrow> halts E s1 (\<lambda>_. False) False k"
  shows "halts E s d f (p_seq (p_expect E ty msg) k)"
  unfolding expect_as_match using assms by (auto intro!: halts_match halts_error)

lemma halts_name [end_rules]:
  assumes "\<not> is_name (pz_current s) \<Longrightarrow> \<not> f"
    and "\<And>s1. ahead E s1 < ahead E s \<Longrightarrow> halts E s1 (\<lambda>_. False) False (k (p_tokenString (pz_current s)))"
  shows "halts E s d f (p_bind (p_name E msg) k)"
proof (cases "is_name (pz_current s)")
  case True
  then have "p_bind (p_name E msg) k s = p_seq (p_advance E) (k (p_tokenString (pz_current s))) s"
    by (simp add: p_name_def p_bind_def p_seq_def p_gets_def p_ret_def split: prod.split parsed.split)
  moreover have "halts E s d f (p_seq (p_advance E) (k (p_tokenString (pz_current s))))"
    using True assms(2) by (intro end_rules) simp_all
  ultimately show ?thesis by (simp add: halts_def)
next
  case False
  then have "p_bind (p_name E msg) k s = p_error msg s"
    by (simp add: p_name_def p_bind_def p_gets_def p_error_def errorAt_def Let_def p_seq_def publishDiagnostic_def p_fail_def)
  then show ?thesis using halts_error [of f E s d msg] assms(1) False by (simp add: halts_def)
qed

text \<open>Steps that only keep books.\<close>

definition books :: "parser_env \<Rightarrow> pstate \<Rightarrow> bool \<Rightarrow> 'a parser \<Rightarrow> 'a \<Rightarrow> bool" where
  "books E s f m x \<longleftrightarrow> (p_ok s \<longrightarrow>
     (case m s of
        (PT_Ok y, s') \<Rightarrow> reads E s [] s' \<and> y = x
      | (PT_Fail (PX_Parse e), s') \<Rightarrow> reads E s [] s' \<and> \<not> f
      | (PT_Fail (PX_Limit e), s') \<Rightarrow> True
      | (PT_Fail PX_BadVariant, s') \<Rightarrow> False
      | (PT_Timeout, s') \<Rightarrow> False))"

lemma halts_books:
  assumes "books E s f m x"
    and "\<And>s1. ahead E s1 = ahead E s \<Longrightarrow> pz_current s1 = pz_current s \<Longrightarrow> token_stream E s1 = token_stream E s \<Longrightarrow>
      halts E s1 d f (k x)"
  shows "halts E s d f (p_bind m k)"
  unfolding halts_def
proof
  assume e: "ended E s"
  then have ok: "p_ok s" by (simp add: ended_def)
  obtain r s1 where m: "m s = (r, s1)" by fastforce
  have st: "reads E s [] s1 \<Longrightarrow> steps E s 0 s1" using same_stream_steps e by blast
  show "case p_bind m k s of
        (PT_Ok x, s') \<Rightarrow> (\<exists>n. steps E s n s' \<and> (d x \<longrightarrow> 0 < n))
      | (PT_Fail (PX_Parse e), s') \<Rightarrow> (\<exists>n. steps E s n s' \<and> (f \<longrightarrow> 0 < n))
      | (PT_Fail (PX_Limit e), s') \<Rightarrow> True
      | (PT_Fail PX_BadVariant, s') \<Rightarrow> False
      | (PT_Timeout, s') \<Rightarrow> False"
  proof (cases r)
    case (PT_Ok y)
    then have y: "y = x" "steps E s 0 s1" "token_stream E s1 = token_stream E s"
      using assms(1) ok m st reads_stream by (auto simp: books_def)
    have "halts E s1 d f (k x)" using assms(2) y by (simp add: steps_def)
    moreover have "p_bind m k s = k x s1" using m PT_Ok y by (simp add: p_bind_def)
    ultimately show ?thesis using steps_ended [OF y(2)] steps_trans [OF y(2)] unfolding halts_def
      by (fastforce split: prod.splits parsed.splits parse_exn.splits)
  next
    case (PT_Fail e)
    then show ?thesis using assms(1) ok m st by (auto simp: books_def p_bind_def split: parse_exn.splits)
  next
    case PT_Timeout
    then show ?thesis using assms(1) ok m by (simp add: books_def)
  qed
qed

lemma halts_seq_books:
  assumes "books E s f m ()"
    and "\<And>s1. ahead E s1 = ahead E s \<Longrightarrow> pz_current s1 = pz_current s \<Longrightarrow> token_stream E s1 = token_stream E s \<Longrightarrow>
      halts E s1 d f k"
  shows "halts E s d f (p_seq m k)"
  unfolding p_seq_def by (rule halts_books [OF assms(1)]) (rule assms(2))

lemma books_charge: "books E s f (p_charge E g) ()"
  using p_charge_ok [of E g s "()"]
  by (auto simp: books_def p_charge_def Let_def split: prod.splits option.splits)

lemma books_node: "books E s f (makeNode E x) x"
  using books_charge [of E s f "\<lambda>now. cb_consumeAstNode now 1"]
  by (auto simp: books_def makeNode_def p_seq_def p_bind_def p_ret_def split: prod.splits parsed.splits parse_exn.splits)

lemma books_scope: "books E s f (enterFunctionSyntaxScope E line ps) ()" "books E s f leaveFunctionSyntaxScope ()"
proof -
  show "books E s f (enterFunctionSyntaxScope E line ps) ()"
    using enter_scope_reads [of E line ps s "()"] 
    by (auto simp: books_def enterFunctionSyntaxScope_def p_seq_def p_bind_def p_charge_def Let_def split: prod.splits option.splits)
  show "books E s f leaveFunctionSyntaxScope ()"
    by (auto simp: books_def leaveFunctionSyntaxScope_def intro!: same_tokens)
qed

lemma books_names: "\<not> f \<Longrightarrow> books E s f (noteNameUse x t) ()" "\<not> f \<Longrightarrow> books E s f (declareLocalName x t) ()"
  by (auto simp: books_def noteNameUse_def declareLocalName_def intro!: same_tokens split: prod.splits option.splits list.splits)

lemma books_peek: "books E s f (p_peek E) (token_stream E s 1)"
  using p_peek_ok by (fastforce simp: books_def p_peek_def split: prod.splits)

lemma books_lines: "\<not> f \<Longrightarrow> books E s f (rejectAmbiguousNewlineCall line) ()"
  by (auto simp: books_def rejectAmbiguousNewlineCall_def p_bind_def p_gets_def p_ret_def errorAt_def p_seq_def publishDiagnostic_def
      p_fail_def Let_def intro!: same_tokens)

lemmas book_rules [end_rules] =
  halts_seq_books [OF books_charge] halts_seq_books [OF books_scope(1)] halts_seq_books [OF books_scope(2)]
  halts_seq_books [OF books_names(1)] halts_seq_books [OF books_names(2)] halts_seq_books [OF books_lines]
  halts_books [OF books_node] halts_books [OF books_peek]

lemma p_bind_ret: "p_bind m p_ret = m"
  by (rule ext) (simp add: p_bind_def p_ret_def split: prod.split parsed.split)

lemma halts_only_books: "books E s f m x \<Longrightarrow> \<not> d x \<Longrightarrow> halts E s d f m"
  using halts_books [of E s f m x d p_ret] halts_ret [of d x] by (simp add: p_bind_ret)

lemma halts_node [end_rules]: "\<not> d x \<Longrightarrow> halts E s d f (makeNode E x)"
  by (rule halts_only_books [OF books_node])

lemma halts_number [end_rules]:
  assumes "tk_type (pz_current s) = TT_Number" "\<And>x. halts E s d f (k x)"
  shows "halts E s d f (p_bind (p_tokenNumber (pz_current s)) k)"
proof (cases "ended E s")
  case True
  then have "number_ok (token_stream E s 0)" by (simp add: ended_def)
  then obtain x where "tk_value (pz_current s) = TV_Number x"
    using assms(1) by (auto simp: number_ok_def token_stream_def)
  then have "p_bind (p_tokenNumber (pz_current s)) k s = k x s" by (simp add: p_bind_def p_tokenNumber_def p_ret_def)
  then show ?thesis using assms(2) [of x] by (simp add: halts_def)
qed (simp add: halts_def)

lemma depth_stream [simp]: "token_stream E (s\<lparr>pz_depth := i\<rparr>) = token_stream E s"
proof
  fix j show "token_stream E (s\<lparr>pz_depth := i\<rparr>) j = token_stream E s j" by (cases j) (simp_all add: token_stream_def)
qed

lemma depth_same [simp]:
  "ahead E (s\<lparr>pz_depth := i\<rparr>) = ahead E s" "ended E (s\<lparr>pz_depth := i\<rparr>) = ended E s"
  "steps E s1 n (s\<lparr>pz_depth := i\<rparr>) = steps E s1 n s" "steps E (s\<lparr>pz_depth := i\<rparr>) n s1 = steps E s n s1"
  by (simp_all add: ahead_def ended_def steps_def p_ok_def)

lemma halts_guarded [end_rules]:
  assumes "\<not> f" "halts E (s\<lparr>pz_depth := pz_depth s + 1\<rparr>) d f m"
  shows "halts E s d f (syntax_guarded l m)"
proof (cases "ended E s")
  case True
  obtain r s1 where m: "m (s\<lparr>pz_depth := pz_depth s + 1\<rparr>) = (r, s1)" by fastforce
  show ?thesis using assms steps_refl [OF True] True m
    by (auto simp: halts_def syntax_guarded_def leave_def split: parsed.splits parse_exn.splits)
qed (simp add: halts_def)

lemma halts_if [end_rules]: "(c \<Longrightarrow> halts E s d f m) \<Longrightarrow> (\<not> c \<Longrightarrow> halts E s d f m') \<Longrightarrow> halts E s d f (if c then m else m')"
  by simp

lemma halts_after_if [end_rules]:
  "(c \<Longrightarrow> halts E s d f (p_bind m k)) \<Longrightarrow> (\<not> c \<Longrightarrow> halts E s d f (p_bind m' k)) \<Longrightarrow> halts E s d f (p_bind (if c then m else m') k)"
  by simp

lemma halts_seq_if [end_rules]:
  "(c \<Longrightarrow> halts E s d f (p_seq m j)) \<Longrightarrow> (\<not> c \<Longrightarrow> halts E s d f (p_seq m' j)) \<Longrightarrow> halts E s d f (p_seq (if c then m else m') j)"
  by simp

lemma halts_after_ret [end_rules]:
  "halts E s d f (k x) \<Longrightarrow> halts E s d f (p_bind (p_ret x) k)" "halts E s d f j \<Longrightarrow> halts E s d f (p_seq (p_ret ()) j)"
  by (simp_all add: halts_def p_seq_def p_bind_def p_ret_def)

lemma halts_seq_bind [end_rules]: "halts E s d f (p_bind m (\<lambda>x. p_seq (g x) j)) \<Longrightarrow> halts E s d f (p_seq (p_bind m g) j)"
proof -
  have "p_seq (p_bind m g) j = p_bind m (\<lambda>x. p_seq (g x) j)"
    by (rule ext) (simp add: p_seq_def p_bind_def split: prod.split parsed.split)
  then show "halts E s d f (p_bind m (\<lambda>x. p_seq (g x) j)) \<Longrightarrow> halts E s d f (p_seq (p_bind m g) j)" by simp
qed

lemma halts_bind_bind [end_rules]: "halts E s d f (p_bind m (\<lambda>x. p_bind (g x) j)) \<Longrightarrow> halts E s d f (p_bind (p_bind m g) j)"
proof -
  have "p_bind (p_bind m g) j = p_bind m (\<lambda>x. p_bind (g x) j)"
    by (rule ext) (simp add: p_bind_def split: prod.split parsed.split)
  then show "halts E s d f (p_bind m (\<lambda>x. p_bind (g x) j)) \<Longrightarrow> halts E s d f (p_bind (p_bind m g) j)" by simp
qed

lemma halts_prod [end_rules]: "(\<And>x y. halts E s d f (k x y)) \<Longrightarrow> halts E s d f (case z of (x, y) \<Rightarrow> k x y)"
  by (cases z) simp

text \<open>A loop ends if each turn that does not answer reads a token and there are more turns than tokens.\<close>

lemma halts_loop:
  fixes body :: "'a \<Rightarrow> ('a + 'b) parser"
  assumes "\<And>y s1. ahead E s1 \<le> ahead E s \<Longrightarrow> halts E s1 isl False (body y)" "ahead E s < k"
  shows "halts E s (\<lambda>_. False) False (p_loop k body y)"
  using assms
proof (induction k arbitrary: s y)
  case (Suc k)
  show ?case unfolding p_loop.simps
  proof (rule halts_bind [OF Suc.prems(1)])
    fix r :: "'a + 'b" and n s1 assume n: "ahead E s = n + ahead E s1" "isl r \<Longrightarrow> 0 < n"
    show "halts E s1 (\<lambda>y. False \<and> n = 0) (False \<and> n = 0) (case r of Inl y \<Rightarrow> p_loop k body y | Inr z \<Rightarrow> p_ret z)"
      using Suc.IH [of s1] Suc.prems n by (cases r) (auto intro: halts_ret)
  qed simp
qed simp

lemma halts_loop_once:
  fixes body :: "'a \<Rightarrow> ('a + 'b) parser"
  assumes "\<And>y s1. ahead E s1 \<le> ahead E s \<Longrightarrow> halts E s1 (\<lambda>_. True) False (body y)" "ahead E s < k"
  shows "halts E s (\<lambda>_. True) False (p_loop k body y)"
proof -
  obtain j where k: "k = Suc j" using assms(2) by (cases k) simp_all
  show ?thesis unfolding k p_loop.simps
  proof (rule halts_bind [OF assms(1)])
    fix r :: "'a + 'b" and n s1 assume n: "ahead E s = n + ahead E s1" "True \<Longrightarrow> 0 < n"
    have "halts E s2 isl False (body y)" if "ahead E s2 \<le> ahead E s1" for s2 y
      by (rule halts_weaken [OF assms(1) [of s2 y]]) (use that n in simp_all)
    then have "halts E s1 (\<lambda>_. False) False (p_loop j body y)" for y
      by (rule halts_loop) (use assms(2) n k in simp_all)
    then show "halts E s1 (\<lambda>y. True \<and> n = 0) (False \<and> n = 0) (case r of Inl y \<Rightarrow> p_loop j body y | Inr z \<Rightarrow> p_ret z)"
      using n by (cases r) (auto intro: halts_ret)
  qed simp
qed

text \<open>The tokens at which \<open>synchronize\<close> stops without reading them.\<close>

definition resuming :: "token_type set" where
  "resuming = {TT_End, TT_Else, TT_Elseif, TT_Until, TT_Local, TT_Function, TT_If, TT_While, TT_For, TT_Repeat, TT_Return, TT_Break}"

section \<open>The rules\<close>

text \<open>What a rule relies on when it calls another one: that it ends where fewer than \<open>N\<close> tokens are ahead, and that
  loops have a turn for each of them and one more.\<close>

locale ending_parsers =
  fixes E :: parser_env and R :: rules and N :: nat
  assumes expression: "ahead E s < N \<Longrightarrow> halts E s (\<lambda>_. True) False (r_expression R)"
    and concat: "ahead E s < N \<Longrightarrow> halts E s (\<lambda>_. True) False (r_concat R)"
    and unary: "ahead E s < N \<Longrightarrow> halts E s (\<lambda>_. True) False (r_unary R)"
    and block: "ahead E s < N \<Longrightarrow> halts E s (\<lambda>_. False) False (r_block R)"
    and turns: "N < r_turns R"
begin

lemma items:
  assumes "ahead E s < N" "\<And>s1. ahead E s1 \<le> ahead E s \<Longrightarrow> halts E s1 (\<lambda>_. True) False item"
  shows "halts E s (\<lambda>_. True) False (p_items E (r_turns R) item xs)"
  unfolding p_items_def items_turn_def items_next_def
  by (rule halts_loop_once, rule halts_then [OF assms(2)], simp, intro end_rules) (use assms turns in auto)

lemma exprs: "ahead E s < N \<Longrightarrow> halts E s (\<lambda>_. True) False (parseExprList E R)"
  unfolding parseExprList_def by (rule items) (auto intro: expression)

lemma field: "ahead E s < N \<Longrightarrow> halts E s (\<lambda>_. True) False (parse_field E R)"
  unfolding parse_field_def
  by (intro end_rules halts_then [OF expression]) auto

lemma fields: "ahead E s < N \<Longrightarrow> halts E s (\<lambda>_. False) False (parse_fields E R)"
  unfolding parse_fields_def fields_turn_def fields_next_def fields_closed_def
  by (rule halts_loop) (intro end_rules halts_then [OF field], use turns in auto)

lemma table: "ahead E s \<le> N \<Longrightarrow> halts E s (\<lambda>_. True) False (parseTableConstructor E R)"
  unfolding parseTableConstructor_def
  by (intro end_rules halts_then [OF fields]) auto

lemma param_list: "ahead E s < N \<Longrightarrow> halts E s (\<lambda>_. False) False (parseParamList E R)"
  unfolding parseParamList_def params_turn_def items_next_def
  by (intro end_rules halts_loop) (use turns in auto)

lemma function_rest: "ahead E s \<le> N \<Longrightarrow> halts E s (\<lambda>_. True) False (parse_function_rest E R line after isMethod)"
  unfolding parse_function_rest_def Let_def
  by (intro end_rules halts_then [OF param_list] halts_then [OF block]) auto

lemma function_expression: "ahead E s \<le> N \<Longrightarrow> halts E s (\<lambda>_. True) False (parseFunctionExpr E R)"
  unfolding parseFunctionExpr_def
  by (intro end_rules halts_then [OF function_rest]) auto

lemma arguments: "ahead E s < N \<Longrightarrow> halts E s (\<lambda>_. True) False (parse_arguments E R)"
  unfolding parse_arguments_def
  by (intro end_rules halts_then [OF exprs] halts_then [OF halts_ret]) auto

lemma string_argument: "is_string (pz_current s) \<Longrightarrow> halts E s (\<lambda>_. True) False (parse_string_argument E)"
  unfolding parse_string_argument_def by (intro end_rules) auto

lemma method_arguments: "ahead E s \<le> N \<Longrightarrow> halts E s (\<lambda>_. True) False (parse_method_arguments E R l)"
  unfolding parse_method_arguments_def
  by (intro end_rules halts_weaken [OF arguments] halts_weaken [OF string_argument] halts_then [OF table]) auto

lemma postfix_turn: "ahead E s \<le> N \<Longrightarrow> halts E s isl False (postfix_step E R base)"
  unfolding postfix_step_def
  by (intro end_rules halts_then [OF halts_guarded] halts_then [OF arguments] halts_then [OF method_arguments]
      halts_then [OF string_argument] halts_then [OF table] halts_then [OF expression]) auto

lemma postfix: "ahead E s \<le> N \<Longrightarrow> halts E s (\<lambda>_. False) False (parsePostfixExpr E R base)"
  unfolding parsePostfixExpr_def
  by (rule halts_loop) (use turns postfix_turn in auto)

lemma primary: "ahead E s \<le> N \<Longrightarrow> halts E s (\<lambda>_. True) False (parsePrimaryExpr E R)"
proof -
  assume *: "ahead E s \<le> N"
  have lit: "tk_type (pz_current s) \<noteq> TT_Eos \<Longrightarrow> halts E s (\<lambda>_. True) False (literal E e)" for e
    unfolding literal_def by (intro end_rules) simp_all
  have num: "tk_type (pz_current s) = TT_Number \<Longrightarrow>
      halts E s (\<lambda>_. True) False (p_bind (p_tokenNumber (pz_current s)) (\<lambda>x. literal E (NumberExpr l x)))" for l
    by (intro end_rules lit) simp_all
  have name: "tk_type (pz_current s) = TT_Name \<Longrightarrow> halts E s (\<lambda>_. True) False (parse_name_expr E R (pz_current s))"
    unfolding parse_name_expr_def by (intro end_rules postfix) (use * in auto)
  have paren: "tk_type (pz_current s) = TT_Char (CHR ''('') \<Longrightarrow> halts E s (\<lambda>_. True) False (parse_paren_expr E R (pz_current s))"
    unfolding parse_paren_expr_def by (intro end_rules halts_then [OF expression] postfix) (use * in auto)
  show ?thesis
    unfolding parsePrimaryExpr_def
    by (rule halts_gets, cases "tk_type (pz_current s)")
      (use * in \<open>simp_all add: lit num name paren table function_expression halts_error\<close>)
qed

lemma power: "ahead E s \<le> N \<Longrightarrow> halts E s (\<lambda>_. True) False (parsePowerExpr E R)"
  unfolding parsePowerExpr_def
  by (intro end_rules halts_then [OF primary] halts_then [OF unary]) auto

lemma unary_level: "ahead E s \<le> N \<Longrightarrow> halts E s (\<lambda>_. True) False (parseUnaryExpr E R)"
  unfolding parseUnaryExpr_def
  by (rule halts_gets, cases "unary_op (tk_type (pz_current s))")
    (auto simp: ops_no_eos power intro!: halts_seq_advance halts_then [OF unary] end_rules)

lemma left_level:
  assumes "ahead E s \<le> N" "\<And>s1. ahead E s1 \<le> N \<Longrightarrow> halts E s1 (\<lambda>_. True) False operand" "op_of TT_Eos = None"
  shows "halts E s (\<lambda>_. True) False (left_assoc E (r_turns R) op_of operand)"
proof -
  have turn: "halts E s1 isl False (left_turn E op_of operand l)" if "ahead E s1 \<le> N" for s1 l
    unfolding left_turn_def
    by (rule halts_gets, cases "op_of (tk_type (pz_current s1))")
      (use assms(3) that in \<open>auto intro!: halts_seq_advance halts_then [OF assms(2)] end_rules\<close>)
  show ?thesis unfolding left_assoc_def
    by (rule halts_then [OF assms(2)], fact assms(1), rule halts_weaken [OF halts_loop])
      (use turns turn assms(1) in auto)
qed

lemma multiplicative: "ahead E s \<le> N \<Longrightarrow> halts E s (\<lambda>_. True) False (parseMultiplicativeExpr E R)"
  unfolding parseMultiplicativeExpr_def by (rule left_level) (simp_all add: unary_level multiplicative_op_def)

lemma additive: "ahead E s \<le> N \<Longrightarrow> halts E s (\<lambda>_. True) False (parseAdditiveExpr E R)"
  unfolding parseAdditiveExpr_def by (rule left_level) (simp_all add: multiplicative additive_op_def)

lemma concat_level: "ahead E s \<le> N \<Longrightarrow> halts E s (\<lambda>_. True) False (parseConcatExpr E R)"
  unfolding parseConcatExpr_def
  by (intro end_rules halts_then [OF additive] halts_then [OF concat]) auto

lemma relational: "ahead E s \<le> N \<Longrightarrow> halts E s (\<lambda>_. True) False (parseRelationalExpr E R)"
  unfolding parseRelationalExpr_def by (rule left_level) (simp_all add: concat_level relational_op_def)

lemma and_level: "ahead E s \<le> N \<Longrightarrow> halts E s (\<lambda>_. True) False (parseAndExpr E R)"
  unfolding parseAndExpr_def by (rule left_level) (simp_all add: relational and_op_def)

lemma or_level: "ahead E s \<le> N \<Longrightarrow> halts E s (\<lambda>_. True) False (parseOrExpr E R)"
  unfolding parseOrExpr_def by (rule left_level) (simp_all add: and_level or_op_def)

lemma expression_level: "ahead E s \<le> N \<Longrightarrow> halts E s (\<lambda>_. True) False (parseExpression E R)"
  unfolding parseExpression_def by (intro end_rules) (simp_all add: or_level)

lemma branch: "ahead E s < N \<Longrightarrow> halts E s (\<lambda>_. True) False (parse_branch E R what)"
  unfolding parse_branch_def by (intro end_rules halts_then [OF expression] halts_then [OF block]) auto

lemma elseifs: "ahead E s < N \<Longrightarrow> halts E s (\<lambda>_. False) False (parse_elseifs E R branches)"
  unfolding parse_elseifs_def elseif_turn_def
  by (rule halts_loop) (intro end_rules halts_then [OF branch], use turns in auto)

lemma end_line: "ty \<noteq> TT_Eos \<Longrightarrow> halts E s (\<lambda>_. True) False (parse_end E ty message)"
  unfolding parse_end_def by (intro end_rules) auto

text \<open>A statement that begins with a keyword has read it whatever happens then.\<close>

lemma if_stmt: "ahead E s \<le> N \<Longrightarrow> tk_type (pz_current s) = TT_If \<Longrightarrow> halts E s (\<lambda>_. True) True (parseIfStmt E R)"
  unfolding parseIfStmt_def
  by (intro end_rules halts_then [OF branch] halts_then [OF elseifs] halts_then [OF block] halts_then [OF end_line]) auto

lemma while_stmt: "ahead E s \<le> N \<Longrightarrow> tk_type (pz_current s) = TT_While \<Longrightarrow> halts E s (\<lambda>_. True) True (parseWhileStmt E R)"
  unfolding parseWhileStmt_def
  by (intro end_rules halts_then [OF expression] halts_then [OF block] halts_then [OF end_line]) auto

lemma do_stmt: "ahead E s \<le> N \<Longrightarrow> tk_type (pz_current s) = TT_Do \<Longrightarrow> halts E s (\<lambda>_. True) True (parseDoStmt E R)"
  unfolding parseDoStmt_def
  by (intro end_rules halts_then [OF block] halts_then [OF end_line]) auto

lemma repeat_stmt: "ahead E s \<le> N \<Longrightarrow> tk_type (pz_current s) = TT_Repeat \<Longrightarrow> halts E s (\<lambda>_. True) True (parseRepeatStmt E R)"
  unfolding parseRepeatStmt_def
  by (intro end_rules halts_then [OF expression] halts_then [OF block] halts_then [OF end_line]) auto

lemma for_in: "ahead E s \<le> N \<Longrightarrow> halts E s (\<lambda>_. True) False (parse_for_in E R t vars)"
  unfolding parse_for_in_def
  by (intro end_rules halts_then [OF exprs] halts_then [OF block] halts_then [OF end_line]) auto

lemma for_num: "ahead E s < N \<Longrightarrow> halts E s (\<lambda>_. True) False (parse_for_num E R t var)"
  unfolding parse_for_num_def
  by (intro end_rules halts_then [OF expression] halts_then [OF block] halts_then [OF end_line]) auto

lemma a_name: "halts E s (\<lambda>_. True) False (p_name E message)"
  using halts_name [where k = p_ret and d = "\<lambda>_. True" and f = False and msg = message] halts_ret by (fastforce simp: p_bind_ret)

lemma for_stmt: "ahead E s \<le> N \<Longrightarrow> tk_type (pz_current s) = TT_For \<Longrightarrow> halts E s (\<lambda>_. True) True (parseForStmt E R)"
  unfolding parseForStmt_def
  by (intro end_rules halts_weaken [OF for_num] halts_weaken [OF for_in] halts_then [OF items] a_name) auto

lemma path: "ahead E s < N \<Longrightarrow> halts E s (\<lambda>_. False) False (function_path E R name)"
  unfolding function_path_def path_turn_def
  by (rule halts_loop) (intro end_rules, use turns in auto)

lemma function_stmt: "ahead E s \<le> N \<Longrightarrow> tk_type (pz_current s) = TT_Function \<Longrightarrow> halts E s (\<lambda>_. True) True (parseFunctionStmt E R)"
  unfolding parseFunctionStmt_def
  by (intro end_rules halts_then [OF path] halts_then [OF function_rest]) auto

lemma local_function: "ahead E s < N \<Longrightarrow> halts E s (\<lambda>_. True) False (parse_local_function E R t)"
  unfolding parse_local_function_def
  by (intro end_rules halts_then [OF function_rest]) auto

lemma local_name: "halts E s (\<lambda>_. True) False (parse_local_name E)"
  unfolding parse_local_name_def by (intro end_rules) auto

lemma local_stmt: "ahead E s \<le> N \<Longrightarrow> tk_type (pz_current s) = TT_Local \<Longrightarrow> halts E s (\<lambda>_. True) True (parseLocalStmt E R)"
  unfolding parseLocalStmt_def
  by (intro end_rules halts_weaken [OF local_function] halts_then [OF items] local_name halts_then [OF exprs]) auto

lemma return_stmt: "ahead E s \<le> N \<Longrightarrow> tk_type (pz_current s) = TT_Return \<Longrightarrow> halts E s (\<lambda>_. True) True (parseReturnStmt E R)"
  unfolding parseReturnStmt_def
  by (intro end_rules halts_then [OF exprs]) auto

lemma break_stmt: "tk_type (pz_current s) = TT_Break \<Longrightarrow> halts E s (\<lambda>_. True) True (parseBreakStmt E)"
  unfolding parseBreakStmt_def by (intro end_rules) auto

lemma assignment: "ahead E s < N \<Longrightarrow> halts E s (\<lambda>_. True) False (parse_assignment E R l targets)"
  unfolding parse_assignment_def by (intro halts_then [OF exprs] end_rules) auto

lemma expr_stmt: "ahead E s \<le> N \<Longrightarrow> halts E s (\<lambda>_. True) False (parseExprStmt E R)"
  unfolding parseExprStmt_def
  by (intro end_rules halts_then [OF expression_level] halts_then [OF items] expression halts_weaken [OF assignment]) auto

lemma statement: "ahead E s \<le> N \<Longrightarrow> \<not> block_end (tk_type (pz_current s)) \<Longrightarrow> tk_type (pz_current s) \<noteq> TT_Return \<Longrightarrow>
    halts E s (\<lambda>_. True) (tk_type (pz_current s) \<in> resuming) (parseStatement E R)"
  unfolding parseStatement_def
  by (rule halts_gets, cases "tk_type (pz_current s)")
    (auto simp: resuming_def block_end_def intro: if_stmt while_stmt for_stmt repeat_stmt function_stmt local_stmt break_stmt expr_stmt
      halts_weaken [OF do_stmt])

text \<open>Giving up a statement reads a token: either the statement did, or \<open>synchronize\<close> does.\<close>

lemma skipping: "ahead E s \<le> N \<Longrightarrow>
    halts E s (\<lambda>_. tk_type (pz_current s) \<notin> resuming \<and> tk_type (pz_current s) \<noteq> TT_Eos) False (synchronize E R)"
proof -
  assume *: "ahead E s \<le> N"
  let ?turn = "\<lambda>_::unit. p_bind p_current (\<lambda>t.
       if tk_type t = TT_Eos then p_ret (Inr ())
       else if tk_type t = TT_Char (CHR '';'') then p_seq (p_advance E) (p_ret (Inr ()))
       else if tk_type t \<in> {TT_End, TT_Else, TT_Elseif, TT_Until, TT_Local, TT_Function, TT_If, TT_While, TT_For,
                 TT_Repeat, TT_Return, TT_Break} then p_ret (Inr ())
       else p_seq (p_advance E) (p_ret (Inl ())))"
  have turn: "halts E s1 (\<lambda>r. isl r \<or> tk_type (pz_current s1) \<notin> resuming \<and> tk_type (pz_current s1) \<noteq> TT_Eos) False (?turn y)"
    for s1 y unfolding resuming_def by (intro end_rules) auto
  have loop: "halts E s1 (\<lambda>_. False) False (p_loop k ?turn y)" if "ahead E s1 < k" for s1 k y
    by (rule halts_loop [OF halts_weaken [OF turn]]) (use that in simp_all)
  obtain k where k: "r_turns R = Suc k" using turns by (cases "r_turns R") simp_all
  show ?thesis unfolding synchronize_def k p_loop.simps
  proof (rule halts_then [OF turn])
    fix x :: "unit + unit" and n s1 assume n: "ahead E s = n + ahead E s1"
      "isl x \<or> tk_type (pz_current s) \<notin> resuming \<and> tk_type (pz_current s) \<noteq> TT_Eos \<Longrightarrow> 0 < n"
    show "halts E s1 (\<lambda>y. (tk_type (pz_current s) \<notin> resuming \<and> tk_type (pz_current s) \<noteq> TT_Eos) \<and> n = 0) False
        (case x of Inl y \<Rightarrow> p_loop k ?turn y | Inr z \<Rightarrow> p_ret z)"
    proof (cases x)
      case (Inl y)
      then have "ahead E s1 < k" using n * turns k by simp
      then show ?thesis using loop [of s1 k y] Inl n by (simp add: halts_weaken)
    next
      case (Inr z)
      then show ?thesis using n by (auto intro: halts_ret)
    qed
  qed
qed

lemma recovered:
  assumes "halts E s d (tk_type (pz_current s) \<in> resuming) m" "ahead E s \<le> N" "tk_type (pz_current s) \<noteq> TT_Eos"
  shows "halts E s d False (recovering E R dflt m)"
proof (cases "ended E s")
  case True
  obtain r s1 where m: "m s = (r, s1)" by fastforce
  show ?thesis
  proof (cases "\<exists>e. r = PT_Fail (PX_Parse e) \<and> pn_mode E \<noteq> FailFast")
    case False
    then have "recovering E R dflt m s = m s"
      using m by (auto simp: recovering_def split: parsed.split parse_exn.split)
    then show ?thesis using halts_weaken [OF assms(1), of d False] by (simp add: halts_def)
  next
    case rec: True
    then obtain n where n: "steps E s n s1" "tk_type (pz_current s) \<in> resuming \<longrightarrow> 0 < n"
      using assms(1) True m by (auto simp: halts_def)
    have "ahead E s1 \<le> N" using n assms(2) by (simp add: steps_def)
    then have "halts E s1 (\<lambda>_. n = 0) False (synchronize E R)"
      by (rule halts_weaken [OF skipping]) (use n assms(3) in \<open>auto simp: steps_def\<close>)
    then have "halts E s1 (\<lambda>_. n = 0) False (p_seq (synchronize E R) (p_ret dflt))"
      unfolding p_seq_def by (rule halts_then) (auto intro: halts_ret)
    moreover have "recovering E R dflt m s = p_seq (synchronize E R) (p_ret dflt) s1"
      using rec m by (auto simp: recovering_def)
    ultimately show ?thesis using steps_ended [OF n(1)] steps_trans [OF n(1)] unfolding halts_def
      by (fastforce split: prod.splits parsed.splits parse_exn.splits)
  qed
qed (simp add: halts_def)

lemma block_turn: "ahead E s \<le> N \<Longrightarrow> halts E s isl False (block_step E R y)"
proof -
  assume *: "ahead E s \<le> N"
  let ?ty = "tk_type (pz_current s)"
  show ?thesis unfolding block_step_def
  proof (intro halts_prod halts_gets halts_if)
    fix sts m assume "\<not> block_end ?ty"
    then have ty: "?ty \<noteq> TT_Eos" "\<not> block_end ?ty" by (auto simp: block_end_def)
    show "halts E s isl False (recovering E R (Inl (sts, m))
        (if ?ty = TT_Char (CHR '';'')
         then if m then p_seq (p_advance E) (p_ret (Inl (sts, False))) else errorAt (pz_current s) ''unexpected symbol''
         else if ?ty = TT_Return then p_bind (parseReturnStmt E R) (\<lambda>st. p_ret (Inr (sts @ [st])))
         else p_bind (parseStatement E R) (\<lambda>st. p_ret (Inl (sts @ [st], True)))))"
    proof (rule recovered [OF _ * ty(1)], intro halts_if)
      assume "?ty = TT_Char (CHR '';'')" "m"
      then show "halts E s isl (?ty \<in> resuming) (p_seq (p_advance E) (p_ret (Inl (sts, False))))"
        by (intro end_rules) auto
    next
      assume "?ty = TT_Char (CHR '';'')"
      then show "halts E s isl (?ty \<in> resuming) (errorAt (pz_current s) ''unexpected symbol'')"
        by (intro halts_errorAt) (simp add: resuming_def)
    next
      assume "?ty = TT_Return"
      then show "halts E s isl (?ty \<in> resuming) (p_bind (parseReturnStmt E R) (\<lambda>st. p_ret (Inr (sts @ [st]))))"
        by (intro halts_bind [OF halts_weaken [OF return_stmt [OF *]]]) (auto intro: halts_ret)
    next
      assume "?ty \<noteq> TT_Return"
      then show "halts E s isl (?ty \<in> resuming) (p_bind (parseStatement E R) (\<lambda>st. p_ret (Inl (sts @ [st], True))))"
        by (intro halts_bind [OF statement [OF * ty(2)]]) (auto intro: halts_ret)
    qed
  qed (simp add: halts_ret)
qed

lemma block_level: "ahead E s \<le> N \<Longrightarrow> halts E s (\<lambda>_. False) False (parseBlock E R)"
  unfolding parseBlock_def
  by (intro end_rules halts_loop block_turn) (use turns in auto)

end

section \<open>The recursion\<close>

lemma rules_at_end: "ending_parsers E (rules_at E (Suc n)) n"
proof (induction n)
  case 0
  show ?case by unfold_locales (simp_all add: Let_def)
next
  case (Suc n)
  show ?case
    by (subst rules_at.simps, unfold_locales)
      (simp_all add: Let_def ending_parsers.expression_level [OF Suc] ending_parsers.concat_level [OF Suc]
        ending_parsers.unary_level [OF Suc] ending_parsers.block_level [OF Suc] del: rules_at.simps)
qed

section \<open>A whole text\<close>

lemma chunk_ends:
  assumes "ahead E s \<le> N" "N < n"
  shows "halts E s (\<lambda>_. False) False (parse_chunk E (rules_at E n))"
proof -
  obtain m where n: "n = Suc m" and m: "ahead E s \<le> m" using assms by (cases n) simp_all
  have reset: "books E s f (\<lambda>s. (PT_Ok (), s\<lparr>pz_diagnostics := [], pz_scopes := []\<rparr>)) ()" for f
    by (auto simp: books_def intro!: same_tokens)
  show ?thesis unfolding parse_chunk_def n
    by (intro halts_seq_books [OF reset] halts_then [OF ending_parsers.block_level [OF rules_at_end]] end_rules)
      (use m in \<open>auto simp del: rules_at.simps\<close>)
qed

lemma new_parser_ended:
  assumes "new_parser E policy execution source = (PT_Ok (), s)"
  shows "ended E s \<and> ahead E s \<le> length source"
proof -
  note stream = new_parser_stream [OF assms]
  let ?at = "token_at (nextToken (pn_lexer E)) (new_lexer source)"
  obtain k where k: "k \<le> length source + 1" "covers [] source (nextTokens (pn_lexer E) k (new_lexer source))"
    using tokens_cover_the_text by blast
  then obtain us t where us: "no_eos us" "tk_type t = TT_Eos" "us @ [t] = map ?at [0..<k]"
    using covers_ends by (metis nextTokens_stream)
  have i: "tk_type (token_stream E s (length us)) = TT_Eos" "length us \<le> length source"
    using upto_eos [OF us(3,1)] us(2) k(1) stream(2) by simp_all
  have "lexer_ok (new_lexer source)"
    unfolding lexer_ok_def
    by (rule exI [of _ source], rule exI [of _ "[]"]) (simp add: has_read_def pass_def new_lexer_def start_of_def)
  then have "number_ok (token_stream E s j)" for j
    unfolding stream(2) by (rule number_ok_stream [rotated]) (simp add: new_lexer_def)
  then have "ended E s" using i stream(1) by (auto simp: ended_def)
  moreover have "ahead E s \<le> length us" unfolding ahead_def by (rule Least_le) (fact i(1))
  ultimately show ?thesis using i(2) by simp
qed

lemma new_parser_cases:
  obtains s where "new_parser E policy execution source = (PT_Ok (), s)"
  | e s where "new_parser E policy execution source = (PT_Fail (PX_Limit e), s)"
  by (cases "new_parser E policy execution source")
    (auto simp: new_parser_def p_advance_def p_seq_def p_bind_def p_charge_def Let_def split: prod.splits parsed.splits option.splits)

text \<open>C35. The parser answers every text, in either mode of recovery: with a bound larger than the text neither the recursion
  nor a loop ever runs out, so that the answer is a chunk or a diagnostic, or the limit that the constructor found
  exceeded. No \<open>bad_variant_access\<close> gets out.\<close>

theorem parser_answers:
  assumes "length source < n"
  shows "(\<exists>r. fst (parse_text E n policy execution source) = PT_Ok r) \<or>
    (\<exists>e. fst (parse_text E n policy execution source) = PT_Fail (PX_Limit e))"
proof (rule new_parser_cases [of E policy execution source])
  fix s assume new: "new_parser E policy execution source = (PT_Ok (), s)"
  have "halts E s (\<lambda>_. False) False (parse_chunk E (rules_at E n))"
    by (rule chunk_ends) (use new_parser_ended [OF new] assms in auto)
  then show ?thesis using new new_parser_ended [OF new]
    by (auto simp: halts_def parse_text_def parse_def split: prod.splits parsed.splits parse_exn.splits)
next
  fix e s assume "new_parser E policy execution source = (PT_Fail (PX_Limit e), s)"
  then show ?thesis by (simp add: parse_text_def)
qed

end
