(* ===== verification/ParserRuns.thy ===== *)
theory ParserRuns
  imports ParserEnds
begin

text \<open>
  Runs of the parser on concrete texts. The definitions are unfolded only once they are applied to a state, so that a
  run is followed step by step; the tokens of a text are computed first.
\<close>

section \<open>Following a run\<close>

named_theorems parser_run

lemmas [parser_run] =
  parse_text_def parse_def new_parser_def start_state_def new_compilation_budget_def Let_def prod.case parsed.case
  p_bind_def p_seq_def [THEN fun_cong] p_gets_def p_ret_def p_fail_def p_charge_def syntax_guarded_def leave_def max_depth_def
  cb_checkSource_def cb_pollDeadline_def cb_consumeNativeWork_def cb_consume_def cb_consumeToken_def cb_consumeAstNode_def
  cb_consumeFunction_def MAX_RECURSION_DEPTH_def MAX_BLOCK_RECURSION_DEPTH_def MAX_RIGHT_ASSOC_RECURSION_DEPTH_def
  recovering_def noteNameUse_def enterFunctionSyntaxScope_def block_end_def p_tokenString_def
  p_advance_def [THEN fun_cong] p_check_def [THEN fun_cong] p_match_def [THEN fun_cong] p_expect_def [THEN fun_cong]
  p_error_def [THEN fun_cong] errorAt_def [THEN fun_cong] makeNode_def [THEN fun_cong] p_loop.simps [THEN fun_cong]
  expr_getLine_def expr_getColumn_def expr_location.simps or_op_def and_op_def relational_op_def additive_op_def multiplicative_op_def unary_op_def

lemmas [parser_run] =
  parseExpression_def [THEN fun_cong] parseOrExpr_def [THEN fun_cong] parseAndExpr_def [THEN fun_cong]
  parseRelationalExpr_def [THEN fun_cong] parseConcatExpr_def [THEN fun_cong] parseAdditiveExpr_def [THEN fun_cong]
  parseMultiplicativeExpr_def [THEN fun_cong] parseUnaryExpr_def [THEN fun_cong] parsePowerExpr_def [THEN fun_cong]
  parsePrimaryExpr_def [THEN fun_cong] parse_name_expr_def [THEN fun_cong] parse_paren_expr_def [THEN fun_cong]
  parsePostfixExpr_def [THEN fun_cong] postfix_step_def [THEN fun_cong] literal_def [THEN fun_cong]
  parseTableConstructor_def [THEN fun_cong] parse_fields_def [THEN fun_cong] fields_turn_def [THEN fun_cong]
  fields_next_def [THEN fun_cong] fields_closed_def [THEN fun_cong] parse_field_def [THEN fun_cong]
  left_assoc_def [THEN fun_cong] left_turn_def [THEN fun_cong] parseExprList_def [THEN fun_cong] p_items_def [THEN fun_cong]
  items_turn_def [THEN fun_cong] items_next_def [THEN fun_cong] parseStatement_def [THEN fun_cong]
  parseExprStmt_def [THEN fun_cong] parse_assignment_def [THEN fun_cong] parseBlock_def [THEN fun_cong]
  parse_chunk_def [THEN fun_cong] synchronize_def [THEN fun_cong]

lemma block_step_run [parser_run]:
  "block_step E R (sts, m) s =
     (let t = pz_current s in
      if block_end (tk_type t) then p_ret (Inr sts) s
      else recovering E R (Inl (sts, m))
        (if tk_type t = TT_Char (CHR '';'') then
           if m then p_seq (p_advance E) (p_ret (Inl (sts, False))) else errorAt t ''unexpected symbol''
         else if tk_type t = TT_Return then p_bind (parseReturnStmt E R) (\<lambda>st. p_ret (Inr (sts @ [st])))
         else p_bind (parseStatement E R) (\<lambda>st. p_ret (Inl (sts @ [st], True)))) s)"
  by (simp add: block_step_def p_bind_def p_gets_def Let_def)

lemma rules_at_run [parser_run]:
  "r_expression (rules_at E (Suc n)) = parseExpression E (rules_at E n)"
  "r_concat (rules_at E (Suc n)) = parseConcatExpr E (rules_at E n)"
  "r_unary (rules_at E (Suc n)) = parseUnaryExpr E (rules_at E n)"
  "r_block (rules_at E (Suc n)) = parseBlock E (rules_at E n)"
  "r_turns (rules_at E (Suc n)) = Suc n"
  by (simp_all add: Let_def)

text \<open>The same with a bound that is a numeral.\<close>

lemmas [parser_run] =
  rules_at_run [of _ "pred_numeral k" for k, folded numeral_eq_Suc] p_loop.simps(2) [of "pred_numeral k" for k, folded numeral_eq_Suc, THEN fun_cong]

section \<open>Two texts\<close>

definition ascii_lexer :: lexer_env where
  "ascii_lexer = \<lparr>le_strtod = (\<lambda>_. (f64_zero, 0)), le_decimalPoint = CHR ''.'', le_letters = (\<lambda>_. False)\<rparr>"

definition ascii_parser :: "recovery_mode \<Rightarrow> parser_env" where
  "ascii_parser mode = \<lparr>pn_lexer = ascii_lexer, pn_clock = (\<lambda>_. 0), pn_mode = mode\<rparr>"

definition simple_token :: "token_type \<Rightarrow> string \<Rightarrow> int \<Rightarrow> token" where
  "simple_token ty str col =
     \<lparr>tk_type = ty, tk_value = TV_None, tk_lexeme = str, tk_errorMessage = [], tk_line = 1, tk_column = col\<rparr>"

text \<open>The scanner on the first line, before the column \<open>col\<close>, with its last token.\<close>

definition scanner_at :: "string \<Rightarrow> int \<Rightarrow> string \<Rightarrow> int \<Rightarrow> lexer" where
  "scanner_at behind col buffer tokenColumn =
     \<lparr>lx_cursor = \<lparr>tc_rest = behind, tc_line = 1, tc_column = col, tc_pending = None\<rparr>, lx_buffer = buffer,
      lx_tokenLine = 1, lx_tokenColumn = tokenColumn, lx_lookahead = None\<rparr>"

lemma new_scanner: "new_lexer source = scanner_at source 1 [] 1"
  by (simp add: scanner_at_def new_lexer_def start_of_def)

lemma fields_tokens:
  "nextToken ascii_lexer (scanner_at ''x={nil nil}'' 1 [] 1) = (simple_token TT_Name ''x'' 1, scanner_at ''={nil nil}'' 2 ''x'' 1)"
  "nextToken ascii_lexer (scanner_at ''={nil nil}'' 2 ''x'' 1) = (simple_token (TT_Char (CHR ''='')) ''='' 2, scanner_at ''{nil nil}'' 3 ''='' 2)"
  "nextToken ascii_lexer (scanner_at ''{nil nil}'' 3 ''='' 2) = (simple_token (TT_Char (CHR ''{'')) ''{'' 3, scanner_at ''nil nil}'' 4 ''{'' 3)"
  "nextToken ascii_lexer (scanner_at ''nil nil}'' 4 ''{'' 3) = (simple_token TT_Nil ''nil'' 4, scanner_at '' nil}'' 7 ''nil'' 4)"
  "nextToken ascii_lexer (scanner_at '' nil}'' 7 ''nil'' 4) = (simple_token TT_Nil ''nil'' 8, scanner_at ''}'' 11 ''nil'' 8)"
  "nextToken ascii_lexer (scanner_at ''}'' 11 ''nil'' 8) = (simple_token (TT_Char (CHR ''}'')) ''}'' 11, scanner_at [] 12 ''}'' 11)"
  "nextToken ascii_lexer (scanner_at [] 12 ''}'' 11) = (simple_token TT_Eos [] 12, scanner_at [] 12 [] 12)"
  by code_simp+

lemma nested_tokens:
  "nextToken ascii_lexer (scanner_at ''x=((nil))'' 1 [] 1) = (simple_token TT_Name ''x'' 1, scanner_at ''=((nil))'' 2 ''x'' 1)"
  "nextToken ascii_lexer (scanner_at ''=((nil))'' 2 ''x'' 1) = (simple_token (TT_Char (CHR ''='')) ''='' 2, scanner_at ''((nil))'' 3 ''='' 2)"
  "nextToken ascii_lexer (scanner_at ''((nil))'' 3 ''='' 2) = (simple_token (TT_Char (CHR ''('')) ''('' 3, scanner_at ''(nil))'' 4 ''('' 3)"
  "nextToken ascii_lexer (scanner_at ''(nil))'' 4 ''('' 3) = (simple_token (TT_Char (CHR ''('')) ''('' 4, scanner_at ''nil))'' 5 ''('' 4)"
  "nextToken ascii_lexer (scanner_at ''nil))'' 5 ''('' 4) = (simple_token TT_Nil ''nil'' 5, scanner_at ''))'' 8 ''nil'' 5)"
  "nextToken ascii_lexer (scanner_at ''))'' 8 ''nil'' 5) = (simple_token (TT_Char (CHR '')'')) '')'' 8, scanner_at '')'' 9 '')'' 8)"
  "nextToken ascii_lexer (scanner_at '')'' 9 '')'' 8) = (simple_token (TT_Char (CHR '')'')) '')'' 9, scanner_at [] 10 '')'' 9)"
  "nextToken ascii_lexer (scanner_at [] 10 '')'' 9) = (simple_token TT_Eos [] 10, scanner_at [] 10 [] 10)"
  by code_simp+

declare rules_at.simps [simp del] p_loop.simps [simp del]

text \<open>The separator between two fields of a table constructor may be missing: the parser answers the table
  \<open>{nil, nil}\<close> for \<open>{nil nil}\<close>, which Lua refuses.\<close>

theorem field_separator_optional:
  "fst (parse_text (ascii_parser FailFast) 6 default_compilation_policy None ''x={nil nil}'') =
     PT_Ok (Inr [AssignStmt (1, 1) [NameExpr (1, 1) ''x'']
       [TableExpr (1, 3) [(None, NilExpr (1, 4)), (None, NilExpr (1, 8))]]])"
  by (simp add: parser_run new_scanner fields_tokens ascii_parser_def default_compilation_policy_def DefaultMaxBytes_def
      simple_token_def)


lemma plain_text_run:
  "\<exists>s. parse_text (ascii_parser FailFast) 6 default_compilation_policy None ''x={nil nil}'' =
     (PT_Ok (Inr [AssignStmt (1, 1) [NameExpr (1, 1) ''x'']
       [TableExpr (1, 3) [(None, NilExpr (1, 4)), (None, NilExpr (1, 8))]]]), s)"
  by (simp add: parser_run new_scanner fields_tokens ascii_parser_def default_compilation_policy_def DefaultMaxBytes_def
      simple_token_def)


theorem parser_answers_witness:
  "length ''end = ( 1'' < 10 \<and>
   ((\<exists>r. fst (parse_text (ascii_parser StatementBoundary) 10 default_compilation_policy None ''end = ( 1'') = PT_Ok r) \<or>
    (\<exists>e. fst (parse_text (ascii_parser StatementBoundary) 10 default_compilation_policy None ''end = ( 1'') = PT_Fail (PX_Limit e)))"
  using parser_answers [of "''end = ( 1''" 10 "ascii_parser StatementBoundary" default_compilation_policy None] by simp

end
