(* ===== verification/GenState.thy ===== *)
theory GenState
  imports LuaState Ast
begin

text \<open>
  The code generator below its emitters (\<^verbatim>\<open>compiler/codegen/\<close>, \<^verbatim>\<open>compiler/register_allocator.hpp\<close>): the state of the function
  under construction with those of the functions around it, the writes to its prototype, registers, jump lists, scopes
  and names.

  A generator is a function of the state; an exception is the left value of the result, and the state it left behind is
  dropped with the prototype, as \<open>tryGenerate\<close> does. Strings are interned in the pool of the machine.
\<close>

section \<open>State\<close>

definition NO_JUMP :: int where "NO_JUMP = -1"

datatype gen_error =
    GE_Error string
  | GE_Limit compilation_error
  | GE_Endless

record local_var =
  lc_name :: string
  lc_reg :: int
  lc_startpc :: int
  lc_endpc :: int
  lc_captured :: bool

record upvalue_capture =
  uc_name :: string
  uc_inStack :: bool
  uc_index :: int

record block_info =
  bi_breaklist :: int
  bi_activeVarCount :: int
  bi_isbreakable :: bool

text \<open>\<open>CodegenState\<close> of one function with its parts, and the two fields of its \<open>StatementEmitter\<close>. The blocks have the
  innermost one first. \<open>fs_futureReads\<close> is the set behind the pointer \<open>futureReads_\<close>, as a list.\<close>

record function_state =
  fs_proto :: proto
  fs_line :: int
  fs_freereg :: int
  fs_localVars :: "local_var list"
  fs_activeVarCount :: int
  fs_blocks :: "block_info list"
  fs_jpc :: int
  fs_upvalues :: "upvalue_capture list"
  fs_futureReads :: "string list option"
  fs_forceNil :: bool

text \<open>\<open>gn_parents\<close> is the chain of \<open>parent\<close> pointers. The pool and the budget are shared by the chain.\<close>

record gen_state =
  gn_current :: function_state
  gn_parents :: "function_state list"
  gn_pool :: "string list"
  gn_budget :: compilation_budget
  gn_polls :: nat

record gen_env =
  ge_clock :: "nat \<Rightarrow> time_point"
  ge_pow :: "f64 \<Rightarrow> f64 \<Rightarrow> f64"
  ge_resources :: resource_policy

type_synonym 'a gen = "gen_state \<Rightarrow> gen_error + 'a \<times> gen_state"

definition g_ret :: "'a \<Rightarrow> 'a gen" where
  "g_ret x s = Inr (x, s)"

definition g_bind :: "'a gen \<Rightarrow> ('a \<Rightarrow> 'b gen) \<Rightarrow> 'b gen" where
  "g_bind m f s = (case m s of Inl e \<Rightarrow> Inl e | Inr (x, s1) \<Rightarrow> f x s1)"

definition g_seq :: "unit gen \<Rightarrow> 'b gen \<Rightarrow> 'b gen" where
  "g_seq m k = g_bind m (\<lambda>_. k)"

definition g_fail :: "gen_error \<Rightarrow> 'a gen" where
  "g_fail e s = Inl e"

abbreviation g_throw :: "string \<Rightarrow> 'a gen" where
  "g_throw message \<equiv> g_fail (GE_Error message)"

text \<open>The function under construction.\<close>

definition g_here :: "(function_state \<Rightarrow> 'a) \<Rightarrow> 'a gen" where
  "g_here f s = Inr (f (gn_current s), s)"

definition g_change :: "(function_state \<Rightarrow> function_state) \<Rightarrow> unit gen" where
  "g_change f s = Inr ((), s\<lparr>gn_current := f (gn_current s)\<rparr>)"

primrec g_each :: "('a \<Rightarrow> unit gen) \<Rightarrow> 'a list \<Rightarrow> unit gen" where
  "g_each m [] = g_ret ()"
| "g_each m (x # xs) = g_seq (m x) (g_each m xs)"

definition g_when :: "bool \<Rightarrow> unit gen \<Rightarrow> unit gen" where
  "g_when c m = (if c then m else g_ret ())"

text \<open>A charge to the budget reads the clock once.\<close>

definition g_charge ::
  "gen_env \<Rightarrow> (time_point \<Rightarrow> compilation_budget \<Rightarrow> compilation_error option \<times> compilation_budget) \<Rightarrow> unit gen" where
  "g_charge E consume s =
     (case consume (ge_clock E (gn_polls s)) (gn_budget s) of
        (r, b) \<Rightarrow> (case r of Some e \<Rightarrow> Inl (GE_Limit e) | None \<Rightarrow> Inr ((), s\<lparr>gn_budget := b, gn_polls := gn_polls s + 1\<rparr>)))"

definition g_intern :: "gen_env \<Rightarrow> string \<Rightarrow> addr gen" where
  "g_intern E x s =
     (if rp_maxStringBytes (ge_resources E) < length x then Inl (GE_Error ''resource limit exceeded: string bytes'')
      else case intern_pool x (gn_pool s) of (a, pool) \<Rightarrow> Inr (a, s\<lparr>gn_pool := pool\<rparr>))"

section \<open>Writing the prototype\<close>

definition fs_data :: "function_state \<Rightarrow> proto_data" where
  "fs_data f = proto_data (fs_proto f)"

definition update_data :: "(proto_data \<Rightarrow> proto_data) \<Rightarrow> function_state \<Rightarrow> function_state" where
  "update_data u f = f\<lparr>fs_proto := Proto (u (proto_data (fs_proto f))) (sub_protos (fs_proto f))\<rparr>"

definition code_length :: "function_state \<Rightarrow> int" where
  "code_length f = int (length (pd_code (fs_data f)))"

definition instructionCount :: "int gen" where
  "instructionCount = g_here code_length"

definition emit :: "gen_env \<Rightarrow> instruction \<Rightarrow> int gen" where
  "emit E inst =
     g_seq (g_charge E (\<lambda>now. cb_consumeInstruction now 1))
    (g_bind instructionCount (\<lambda>pc.
     g_seq (g_change (\<lambda>f. update_data (\<lambda>d. addLineInfo (fs_line f) (snd (addInstruction inst d))) f)) (g_ret pc)))"

definition instruction_at :: "int \<Rightarrow> instruction gen" where
  "instruction_at pc =
     (if pc < 0 then g_throw ''Instruction index out of range''
      else g_bind (g_here (\<lambda>f. getInstruction (fs_data f) (nat pc))) (\<lambda>i.
        case i of None \<Rightarrow> g_throw ''Instruction index out of range'' | Some inst \<Rightarrow> g_ret inst))"

definition replaceInstruction :: "int \<Rightarrow> instruction \<Rightarrow> unit gen" where
  "replaceInstruction pc inst =
     (if pc < 0 then g_throw ''Instruction index out of range''
      else g_bind (g_here (\<lambda>f. setInstruction (nat pc) inst (fs_data f))) (\<lambda>d.
        case d of None \<Rightarrow> g_throw ''Instruction index out of range'' | Some d' \<Rightarrow> g_change (update_data (\<lambda>_. d'))))"

definition emit_constant :: "gen_env \<Rightarrow> lua_value \<Rightarrow> int gen" where
  "emit_constant E v =
     g_seq (g_charge E (\<lambda>now. cb_consumeConstant now 1))
    (g_bind (g_here (\<lambda>f. addConstant v (fs_data f))) (\<lambda>(k, d).
     g_seq (g_change (update_data (\<lambda>_. d))) (g_ret (int k))))"

definition numberConstant :: "gen_env \<Rightarrow> f64 \<Rightarrow> int gen" where
  "numberConstant E x = emit_constant E (VNumber x)"

definition boolConstant :: "gen_env \<Rightarrow> bool \<Rightarrow> int gen" where
  "boolConstant E b = emit_constant E (VBoolean b)"

definition nilConstant :: "gen_env \<Rightarrow> int gen" where
  "nilConstant E = emit_constant E VNil"

definition stringConstant :: "gen_env \<Rightarrow> string \<Rightarrow> int gen" where
  "stringConstant E x =
     g_seq (g_charge E (\<lambda>now. cb_consumeStringBytes now (length x)))
    (g_bind (g_intern E x) (\<lambda>a. emit_constant E (VString a)))"

definition addSubProto :: "proto \<Rightarrow> int gen" where
  "addSubProto child =
     g_bind (g_here (\<lambda>f. addProto (Some child) (fs_proto f))) (\<lambda>(i, p).
     g_seq (g_change (\<lambda>f. f\<lparr>fs_proto := p\<rparr>)) (g_ret (int i)))"

definition setSource :: "gen_env \<Rightarrow> string \<Rightarrow> unit gen" where
  "setSource E name = g_bind (g_intern E name) (\<lambda>a. g_change (update_data (\<lambda>d. d\<lparr>pd_source := Some a\<rparr>)))"

definition addLocalDebug :: "gen_env \<Rightarrow> string \<Rightarrow> int \<Rightarrow> int \<Rightarrow> int \<Rightarrow> unit gen" where
  "addLocalDebug E name startpc endpc reg =
     g_bind (g_intern E name) (\<lambda>a. g_change (update_data (\<lambda>d. snd (addLocVar (Some a) startpc endpc reg d))))"

text \<open>\<open>LineGuard\<close>: a positive line holds until the end of the scope.\<close>

definition at_line :: "int \<Rightarrow> 'a gen \<Rightarrow> 'a gen" where
  "at_line line m =
     g_bind (g_here fs_line) (\<lambda>previous.
     g_seq (g_when (0 < line) (g_change (\<lambda>f. f\<lparr>fs_line := line\<rparr>)))
    (g_bind m (\<lambda>x.
     g_seq (g_change (\<lambda>f. f\<lparr>fs_line := previous\<rparr>)) (g_ret x))))"

text \<open>Places where the code itself saves \<open>currentLine\<close>, sets another one, zero included, and puts the old one back.\<close>

definition with_line :: "int \<Rightarrow> 'a gen \<Rightarrow> 'a gen" where
  "with_line line m =
     g_bind (g_here fs_line) (\<lambda>saved.
     g_seq (g_change (\<lambda>f. f\<lparr>fs_line := line\<rparr>))
    (g_bind m (\<lambda>x.
     g_seq (g_change (\<lambda>f. f\<lparr>fs_line := saved\<rparr>)) (g_ret x))))"

section \<open>Registers\<close>

abbreviation maxStack :: "function_state \<Rightarrow> int" where
  "maxStack f \<equiv> uint (pd_maxStackSize (fs_data f))"

text \<open>The stack size is a byte: a larger one is cut off.\<close>

definition fit_stack :: "int \<Rightarrow> function_state \<Rightarrow> function_state" where
  "fit_stack n f = (if maxStack f < n then update_data (\<lambda>d. d\<lparr>pd_maxStackSize := word_of_int n\<rparr>) f else f)"

definition currentReg :: "int gen" where
  "currentReg = g_here fs_freereg"

definition allocReg :: "int gen" where
  "allocReg =
     g_bind currentReg (\<lambda>reg.
     g_seq (g_change (\<lambda>f. fit_stack (reg + 1) (f\<lparr>fs_freereg := reg + 1\<rparr>))) (g_ret reg))"

definition freeReg :: "int \<Rightarrow> unit gen" where
  "freeReg reg =
     g_change (\<lambda>f. if fs_activeVarCount f \<le> reg \<and> reg = fs_freereg f - 1 then f\<lparr>fs_freereg := fs_freereg f - 1\<rparr> else f)"

definition checkStack :: "int \<Rightarrow> unit gen" where
  "checkStack n = g_change (\<lambda>f. fit_stack (fs_freereg f + n) f)"

definition setFreeReg :: "int \<Rightarrow> unit gen" where
  "setFreeReg reg = g_change (\<lambda>f. f\<lparr>fs_freereg := reg\<rparr>)"

definition setFreeRegAndCheck :: "int \<Rightarrow> unit gen" where
  "setFreeRegAndCheck reg = g_seq (setFreeReg reg) (checkStack 0)"

definition reserveRegsAndCheck :: "int \<Rightarrow> unit gen" where
  "reserveRegsAndCheck n = g_seq (g_change (\<lambda>f. f\<lparr>fs_freereg := fs_freereg f + n\<rparr>)) (checkStack 0)"

definition ensureRegAtLeast :: "int \<Rightarrow> unit gen" where
  "ensureRegAtLeast reg = g_change (\<lambda>f. if fs_freereg f < reg then f\<lparr>fs_freereg := reg\<rparr> else f)"

definition resetToLocals :: "unit gen" where
  "resetToLocals = g_change (\<lambda>f. f\<lparr>fs_freereg := fs_activeVarCount f\<rparr>)"

text \<open>\<open>RegisterGuard\<close>: the free register is restored at the end of the scope.\<close>

definition guarding_registers :: "'a gen \<Rightarrow> 'a gen" where
  "guarding_registers m = g_bind currentReg (\<lambda>saved. g_bind m (\<lambda>x. g_seq (setFreeReg saved) (g_ret x)))"

section \<open>Jump lists\<close>

text \<open>An open jump holds the distance to the next open jump of its list; the distance \<open>NO_JUMP\<close> ends the list.\<close>

definition jump_target :: "int \<Rightarrow> instruction \<Rightarrow> int" where
  "jump_target pc inst = (let offset = GETARG_sBx inst in if offset = NO_JUMP then NO_JUMP else pc + 1 + offset)"

definition getJump :: "int \<Rightarrow> int gen" where
  "getJump pc = g_bind (instruction_at pc) (\<lambda>inst. g_ret (jump_target pc inst))"

definition fixJump :: "int \<Rightarrow> int \<Rightarrow> unit gen" where
  "fixJump pc dest =
     g_bind (instruction_at pc) (\<lambda>jump.
       let offset = dest - (pc + 1)
       in if MAXARG_sBx < offset \<or> offset < - MAXARG_sBx then g_throw ''control structure too long''
          else replaceInstruction pc (SETARG_sBx jump offset))"

text \<open>The loops along a list take a bound on their turns; a list without repetitions is not longer than the code.\<close>

fun patch_list :: "nat \<Rightarrow> int \<Rightarrow> int \<Rightarrow> unit gen" where
  "patch_list 0 jumps dest = g_fail GE_Endless"
| "patch_list (Suc n) jumps dest =
     (if jumps = NO_JUMP then g_ret ()
      else g_bind (getJump jumps) (\<lambda>nxt. g_seq (fixJump jumps dest) (patch_list n nxt dest)))"

definition list_turns :: "nat gen" where
  "list_turns = g_bind instructionCount (\<lambda>n. g_ret (Suc (nat n)))"

definition patchList :: "int \<Rightarrow> int \<Rightarrow> unit gen" where
  "patchList jumps dest = g_bind list_turns (\<lambda>n. patch_list n jumps dest)"

definition patchAll :: "int list \<Rightarrow> int \<Rightarrow> unit gen" where
  "patchAll pcs dest = g_each (\<lambda>pc. fixJump pc dest) pcs"

definition getLabel :: "int gen" where
  "getLabel = instructionCount"

definition flushPendingJumps :: "unit gen" where
  "flushPendingJumps =
     g_bind instructionCount (\<lambda>dest.
     g_bind (g_here fs_jpc) (\<lambda>jpc.
     g_seq (patchList jpc dest)
       (g_change (\<lambda>f. f\<lparr>fs_jpc := NO_JUMP\<rparr>))))"

fun last_jump :: "nat \<Rightarrow> int \<Rightarrow> int gen" where
  "last_jump 0 pc = g_fail GE_Endless"
| "last_jump (Suc n) pc = g_bind (getJump pc) (\<lambda>nxt. if nxt = NO_JUMP then g_ret pc else last_jump n nxt)"

text \<open>The new value of the left list, which is a reference in the code.\<close>

definition concatJumpList :: "int \<Rightarrow> int \<Rightarrow> int gen" where
  "concatJumpList left right =
     (if right = NO_JUMP then g_ret left
      else if left = NO_JUMP then g_ret right
      else g_bind list_turns (\<lambda>n. g_bind (last_jump n left) (\<lambda>pc. g_seq (fixJump pc right) (g_ret left))))"

definition emitJump :: "gen_env \<Rightarrow> int gen" where
  "emitJump E =
     g_bind (g_here fs_jpc) (\<lambda>pending.
     g_seq (g_change (\<lambda>f. f\<lparr>fs_jpc := NO_JUMP\<rparr>))
    (g_bind (emit E (CREATE_AsBx OP_JMP 0 NO_JUMP)) (\<lambda>jumpPc.
     concatJumpList jumpPc pending)))"

definition patchToHere :: "int \<Rightarrow> unit gen" where
  "patchToHere jumps =
     g_bind (g_here fs_jpc) (\<lambda>jpc.
     g_bind (concatJumpList jpc jumps) (\<lambda>jpc'.
       g_change (\<lambda>f. f\<lparr>fs_jpc := jpc'\<rparr>)))"

definition patchAllToHere :: "int list \<Rightarrow> unit gen" where
  "patchAllToHere pcs = g_bind instructionCount (\<lambda>pc. patchAll pcs pc)"

section \<open>Emitting instructions\<close>

definition codeRaw :: "gen_env \<Rightarrow> instruction \<Rightarrow> int gen" where
  "codeRaw E inst = g_seq flushPendingJumps (emit E inst)"

definition codeABC :: "gen_env \<Rightarrow> opcode \<Rightarrow> int \<Rightarrow> int \<Rightarrow> int \<Rightarrow> int gen" where
  "codeABC E op a b c = codeRaw E (CREATE_ABC op a b c)"

definition codeABx :: "gen_env \<Rightarrow> opcode \<Rightarrow> int \<Rightarrow> int \<Rightarrow> int gen" where
  "codeABx E op a bx = codeRaw E (CREATE_ABx op a bx)"

definition codeAsBx :: "gen_env \<Rightarrow> opcode \<Rightarrow> int \<Rightarrow> int \<Rightarrow> int gen" where
  "codeAsBx E op a sbx = codeRaw E (CREATE_AsBx op a sbx)"

text \<open>The index of the new instruction is often not used.\<close>

definition coded :: "int gen \<Rightarrow> unit gen" where
  "coded m = g_bind m (\<lambda>_. g_ret ())"

definition patch_with :: "(instruction \<Rightarrow> instruction) \<Rightarrow> int \<Rightarrow> unit gen" where
  "patch_with u pc = g_bind (instruction_at pc) (\<lambda>inst. replaceInstruction pc (u inst))"

definition patchArgA :: "int \<Rightarrow> int \<Rightarrow> unit gen" where
  "patchArgA pc a = patch_with (\<lambda>i. SETARG_A i a) pc"

definition patchArgB :: "int \<Rightarrow> int \<Rightarrow> unit gen" where
  "patchArgB pc b = patch_with (\<lambda>i. SETARG_B i b) pc"

definition patchArgC :: "int \<Rightarrow> int \<Rightarrow> unit gen" where
  "patchArgC pc c = patch_with (\<lambda>i. SETARG_C i c) pc"

definition patchArgsAB :: "int \<Rightarrow> int \<Rightarrow> int \<Rightarrow> unit gen" where
  "patchArgsAB pc a b = patch_with (\<lambda>i. SETARG_B (SETARG_A i a) b) pc"

definition patchArgsBC :: "int \<Rightarrow> int \<Rightarrow> int \<Rightarrow> unit gen" where
  "patchArgsBC pc b c = patch_with (\<lambda>i. SETARG_C (SETARG_B i b) c) pc"

definition patchToABC :: "int \<Rightarrow> opcode \<Rightarrow> int \<Rightarrow> int \<Rightarrow> int \<Rightarrow> unit gen" where
  "patchToABC pc op a b c = replaceInstruction pc (CREATE_ABC op a b c)"

section \<open>Scopes\<close>

text \<open>The search from the last declaration backwards, among the variables whose scope is open.\<close>

definition findLocal :: "string \<Rightarrow> local_var list \<Rightarrow> int" where
  "findLocal name vars =
     (case find (\<lambda>v. lc_name v = name \<and> lc_endpc v = -1) (rev vars) of Some v \<Rightarrow> lc_reg v | None \<Rightarrow> -1)"

fun change_first :: "('a \<Rightarrow> bool) \<Rightarrow> ('a \<Rightarrow> 'a) \<Rightarrow> 'a list \<Rightarrow> 'a list" where
  "change_first p u [] = []"
| "change_first p u (x # xs) = (if p x then u x # xs else x # change_first p u xs)"

definition change_last :: "('a \<Rightarrow> bool) \<Rightarrow> ('a \<Rightarrow> 'a) \<Rightarrow> 'a list \<Rightarrow> 'a list" where
  "change_last p u xs = rev (change_first p u (rev xs))"

definition markCaptured :: "int \<Rightarrow> local_var list \<Rightarrow> local_var list" where
  "markCaptured reg = change_last (\<lambda>v. lc_reg v = reg \<and> lc_endpc v = -1) (\<lambda>v. v\<lparr>lc_captured := True\<rparr>)"

definition hasCapturedLocalsFrom :: "int \<Rightarrow> local_var list \<Rightarrow> bool" where
  "hasCapturedLocalsFrom level vars \<longleftrightarrow>
     list_ex (\<lambda>v. lc_endpc v = -1 \<and> level \<le> lc_reg v \<and> lc_captured v) vars"

text \<open>\<open>closeLocals\<close> closes one variable for each that is active above the level.\<close>

definition closeLocals :: "int \<Rightarrow> int \<Rightarrow> function_state \<Rightarrow> function_state" where
  "closeLocals tolevel pc f =
     f\<lparr>fs_localVars := (change_last (\<lambda>v. lc_endpc v = -1) (\<lambda>v. v\<lparr>lc_endpc := pc\<rparr>) ^^ nat (fs_activeVarCount f - tolevel)) (fs_localVars f),
       fs_activeVarCount := min tolevel (fs_activeVarCount f)\<rparr>"

definition addLocalVar :: "string \<Rightarrow> int gen" where
  "addLocalVar name =
     g_bind currentReg (\<lambda>reg.
     g_seq (g_change (\<lambda>f. f\<lparr>fs_localVars := fs_localVars f @
       [\<lparr>lc_name = name, lc_reg = reg, lc_startpc = code_length f, lc_endpc = -1, lc_captured = False\<rparr>]\<rparr>))
    (g_seq (reserveRegsAndCheck 1) (g_ret reg)))"

definition adjustLocalVars :: "int \<Rightarrow> unit gen" where
  "adjustLocalVars n =
     g_seq (g_change (\<lambda>f. f\<lparr>fs_activeVarCount := fs_activeVarCount f + n\<rparr>)) (g_seq resetToLocals (checkStack 0))"

definition emitClose :: "gen_env \<Rightarrow> int \<Rightarrow> unit gen" where
  "emitClose E level = coded (codeABC E OP_CLOSE level 0 0)"

definition last_is_return :: "function_state \<Rightarrow> bool" where
  "last_is_return f \<longleftrightarrow> pd_code (fs_data f) \<noteq> [] \<and> GET_OPCODE (last (pd_code (fs_data f))) = Some OP_RETURN"

definition closeScopeUpvalues :: "gen_env \<Rightarrow> int \<Rightarrow> unit gen" where
  "closeScopeUpvalues E level =
     g_bind (g_here (\<lambda>f. level < fs_activeVarCount f \<and> hasCapturedLocalsFrom level (fs_localVars f) \<and> \<not> last_is_return f))
       (\<lambda>needed. g_when needed (emitClose E level))"

definition removeLocalVars :: "gen_env \<Rightarrow> int \<Rightarrow> unit gen" where
  "removeLocalVars E toLevel =
     g_seq (closeScopeUpvalues E toLevel)
    (g_bind instructionCount (\<lambda>pc.
     g_seq (g_change (closeLocals toLevel pc))
    (g_seq resetToLocals (checkStack 0))))"

definition activeLocalCount :: "int gen" where
  "activeLocalCount = g_here fs_activeVarCount"

definition findLocalVar :: "string \<Rightarrow> int gen" where
  "findLocalVar name = g_here (\<lambda>f. findLocal name (fs_localVars f))"

definition enterBlock :: "bool \<Rightarrow> unit gen" where
  "enterBlock breakable =
     g_change (\<lambda>f. f\<lparr>fs_blocks :=
       \<lparr>bi_breaklist = NO_JUMP, bi_activeVarCount = fs_activeVarCount f, bi_isbreakable = breakable\<rparr> # fs_blocks f\<rparr>)"

definition leaveBlock :: "gen_env \<Rightarrow> unit gen" where
  "leaveBlock E =
     g_bind (g_here fs_blocks) (\<lambda>bs. case bs of
         [] \<Rightarrow> g_throw ''No block to leave''
       | b # outer \<Rightarrow>
           g_seq (g_change (\<lambda>f. f\<lparr>fs_blocks := outer\<rparr>))
          (g_seq (removeLocalVars E (bi_activeVarCount b))
          (g_bind getLabel (\<lambda>here. patchList (bi_breaklist b) here))))"

text \<open>The level of the innermost block that \<open>break\<close> can leave.\<close>

definition findBreakableBlock :: "function_state \<Rightarrow> int option" where
  "findBreakableBlock f = map_option bi_activeVarCount (find bi_isbreakable (fs_blocks f))"

definition appendBreakJump :: "int \<Rightarrow> unit gen" where
  "appendBreakJump jumpPc =
     g_bind (g_here (\<lambda>f. find bi_isbreakable (fs_blocks f))) (\<lambda>b. case b of
         None \<Rightarrow> g_ret ()
       | Some b \<Rightarrow>
           g_bind (concatJumpList (bi_breaklist b) jumpPc) (\<lambda>jumps.
             g_change (\<lambda>f. f\<lparr>fs_blocks := change_first bi_isbreakable (\<lambda>b. b\<lparr>bi_breaklist := jumps\<rparr>) (fs_blocks f)\<rparr>)))"

section \<open>Names\<close>

definition find_upvalue :: "string \<Rightarrow> upvalue_capture list \<Rightarrow> int" where
  "find_upvalue name ups =
     (let n = length (takeWhile (\<lambda>u. uc_name u \<noteq> name) ups) in if n < length ups then int n else -1)"

definition add_upvalue :: "string \<Rightarrow> bool \<Rightarrow> int \<Rightarrow> upvalue_capture list \<Rightarrow> int \<times> upvalue_capture list" where
  "add_upvalue name inStack index ups =
     (if 0 \<le> find_upvalue name ups then (find_upvalue name ups, ups)
      else (int (length ups), ups @ [\<lparr>uc_name = name, uc_inStack = inStack, uc_index = index\<rparr>]))"

text \<open>A function and the functions around it: the answer, the function with the capture and the outer functions with
  theirs.\<close>

fun resolve_upvalue :: "string \<Rightarrow> function_state \<Rightarrow> function_state list \<Rightarrow> int \<times> function_state \<times> function_state list" where
  "resolve_upvalue name f [] = (-1, f, [])"
| "resolve_upvalue name f (p # ps) =
     (let local = findLocal name (fs_localVars p)
      in if 0 \<le> local then
           (case add_upvalue name True local (fs_upvalues f) of
              (i, ups) \<Rightarrow> (i, f\<lparr>fs_upvalues := ups\<rparr>, p\<lparr>fs_localVars := markCaptured local (fs_localVars p)\<rparr> # ps))
         else case resolve_upvalue name p ps of
           (parentUp, p', ps') \<Rightarrow>
             if 0 \<le> parentUp then
               (case add_upvalue name False parentUp (fs_upvalues f) of (i, ups) \<Rightarrow> (i, f\<lparr>fs_upvalues := ups\<rparr>, p' # ps'))
             else (-1, f, p' # ps'))"

definition resolveUpvalue :: "string \<Rightarrow> int gen" where
  "resolveUpvalue name s =
     (case resolve_upvalue name (gn_current s) (gn_parents s) of
        (i, f, ps) \<Rightarrow> Inr (i, s\<lparr>gn_current := f, gn_parents := ps\<rparr>))"

datatype symbol_ref = SY_Local int | SY_Upvalue int | SY_Global int

definition resolve :: "gen_env \<Rightarrow> string \<Rightarrow> symbol_ref gen" where
  "resolve E name =
     g_bind (findLocalVar name) (\<lambda>reg.
       if 0 \<le> reg then g_ret (SY_Local reg)
       else g_bind (resolveUpvalue name) (\<lambda>up.
         if 0 \<le> up then g_ret (SY_Upvalue up)
         else g_bind (stringConstant E name) (\<lambda>k. g_ret (SY_Global k))))"

end
