(* ===== verification/GenExpr.thy ===== *)
theory GenExpr
  imports GenState
begin

text \<open>
  \<^verbatim>\<open>compiler/codegen/expression_emitter.cpp\<close>: the channels through which an expression is compiled, as a value, as a
  condition, as a call with open results or as the target of an assignment.

  Each function of the emitter is a definition over the emitters of the subexpressions; \<open>emitters\<close> holds what the code can
  ask of an expression. The recursion over the syntax tree is tied in \<^verbatim>\<open>GenStmt\<close>.
\<close>

section \<open>Results\<close>

datatype access_kind = AK_None | AK_Local | AK_Upvalue | AK_Global | AK_Indexed | AK_Call | AK_Vararg

datatype immediate = Imm_Nil | Imm_Boolean bool | Imm_Number f64

datatype value_result =
    VR_None
  | VR_Immediate immediate
  | VR_Constant int
  | VR_Register int bool access_kind
  | VR_PendingLoad access_kind int int int
  | VR_Relocatable int
  | VR_MultiRet access_kind int int
  | VR_PendingJump int

text \<open>The fields for a known constant are never set.\<close>

record cond_result =
  cr_trueList :: "int list"
  cr_falseList :: "int list"

datatype lvalue_ref = LV_Local int | LV_Upvalue int | LV_Global int | LV_Indexed int int

datatype call_kind = CK_Call | CK_Vararg

record call_result =
  cx_kind :: call_kind
  cx_baseReg :: int
  cx_instructionPc :: int

text \<open>\<open>em_call\<close> is there for a call only, \<open>em_object\<close>, the table and the name of a member, for a member expression only.
  \<open>em_operands\<close> are the values of the operands of a concatenation.\<close>

record emitters =
  em_expr :: expr
  em_value :: "value_result gen"
  em_cond :: "cond_result gen"
  em_condTrue :: "cond_result gen"
  em_call :: "(int \<Rightarrow> call_result gen) option"
  em_operands :: "value_result gen list"
  em_lvalue :: "lvalue_ref gen"
  em_object :: "(value_result gen \<times> string) option"

definition pl_append :: "int list \<Rightarrow> int \<Rightarrow> int list" where
  "pl_append pcs pc = (if pc = NO_JUMP then pcs else pcs @ [pc])"

abbreviation no_jumps :: cond_result where
  "no_jumps \<equiv> \<lparr>cr_trueList = [], cr_falseList = []\<rparr>"

definition symbolToValue :: "symbol_ref \<Rightarrow> value_result" where
  "symbolToValue ref =
     (case ref of
        SY_Local i \<Rightarrow> VR_Register i False AK_Local
      | SY_Upvalue i \<Rightarrow> VR_PendingLoad AK_Upvalue (-1) (-1) i
      | SY_Global i \<Rightarrow> VR_PendingLoad AK_Global (-1) i (-1))"

definition symbolToLValue :: "symbol_ref \<Rightarrow> lvalue_ref" where
  "symbolToLValue ref = (case ref of SY_Local i \<Rightarrow> LV_Local i | SY_Upvalue i \<Rightarrow> LV_Upvalue i | SY_Global i \<Rightarrow> LV_Global i)"

section \<open>Constant expressions\<close>

datatype payload_truthiness = Falsy | Truthy | Runtime

definition constantTruthiness :: "value_result \<Rightarrow> payload_truthiness" where
  "constantTruthiness v =
     (case v of
        VR_Immediate Imm_Nil \<Rightarrow> Falsy
      | VR_Immediate (Imm_Boolean b) \<Rightarrow> if b then Truthy else Falsy
      | VR_Immediate (Imm_Number x) \<Rightarrow> Truthy
      | VR_Constant k \<Rightarrow> Truthy
      | _ \<Rightarrow> Runtime)"

fun literalTruthiness :: "expr \<Rightarrow> bool option" where
  "literalTruthiness (NilExpr p) = Some False"
| "literalTruthiness (BoolExpr p b) = Some b"
| "literalTruthiness (NumberExpr p x) = Some True"
| "literalTruthiness (StringExpr p x) = Some True"
| "literalTruthiness (ParenExpr p e) = literalTruthiness e"
| "literalTruthiness _ = None"

definition comparison_op :: "bin_op \<Rightarrow> bool" where
  "comparison_op op \<longleftrightarrow> op \<in> {B_Eq, B_Ne, B_Lt, B_Le, B_Gt, B_Ge}"

fun producesBoolean :: "expr \<Rightarrow> bool" where
  "producesBoolean (BoolExpr p b) = True"
| "producesBoolean (ParenExpr p e) = producesBoolean e"
| "producesBoolean (UnaryExpr p op e) = (op = U_Not)"
| "producesBoolean (BinaryExpr p op l r) =
     (comparison_op op \<or> (op = B_And \<or> op = B_Or) \<and> producesBoolean l \<and> producesBoolean r)"
| "producesBoolean _ = False"

definition immediateNumber :: "value_result \<Rightarrow> f64 option" where
  "immediateNumber v = (case v of VR_Immediate (Imm_Number x) \<Rightarrow> Some x | _ \<Rightarrow> None)"

definition ownedRegister :: "value_result \<Rightarrow> int option" where
  "ownedRegister v = (case v of VR_Register r owns a \<Rightarrow> if owns then Some r else None | _ \<Rightarrow> None)"

definition unless_nan :: "f64 \<Rightarrow> f64 option" where
  "unless_nan x = (if f64_isnan x then None else Some x)"

definition foldArithmetic :: "gen_env \<Rightarrow> bin_op \<Rightarrow> f64 \<Rightarrow> f64 \<Rightarrow> f64 option" where
  "foldArithmetic E op l r =
     (case op of
        B_Add \<Rightarrow> unless_nan (f64_add l r)
      | B_Sub \<Rightarrow> unless_nan (f64_sub l r)
      | B_Mul \<Rightarrow> unless_nan (f64_mul l r)
      | B_Div \<Rightarrow> if f64_eq r f64_zero then None else unless_nan (f64_div l r)
      | B_Mod \<Rightarrow> if f64_eq r f64_zero then None else unless_nan (f64_sub l (f64_mul (f64_floor (f64_div l r)) r))
      | B_Pow \<Rightarrow> unless_nan (ge_pow E l r)
      | _ \<Rightarrow> None)"

section \<open>From a value to a register\<close>

definition materialize_immediate :: "gen_env \<Rightarrow> immediate \<Rightarrow> int \<Rightarrow> unit gen" where
  "materialize_immediate E i reg =
     (case i of
        Imm_Nil \<Rightarrow> coded (codeABC E OP_LOADNIL reg reg 0)
      | Imm_Boolean b \<Rightarrow> coded (codeABC E OP_LOADBOOL reg (if b then 1 else 0) 0)
      | Imm_Number x \<Rightarrow> g_bind (numberConstant E x) (\<lambda>k. coded (codeABx E OP_LOADK reg k)))"

definition materialize_call :: "gen_env \<Rightarrow> int \<Rightarrow> int \<Rightarrow> unit gen" where
  "materialize_call E pc reg =
     g_bind (instruction_at pc) (\<lambda>inst.
     g_seq (replaceInstruction pc (SETARG_C inst 2))
       (g_when (GETARG_A inst \<noteq> reg) (coded (codeABC E OP_MOVE reg (GETARG_A inst) 0))))"

definition materializeValue :: "gen_env \<Rightarrow> value_result \<Rightarrow> int \<Rightarrow> unit gen" where
  "materializeValue E val reg =
     (case val of
        VR_None \<Rightarrow> g_ret ()
      | VR_Immediate i \<Rightarrow> materialize_immediate E i reg
      | VR_Constant k \<Rightarrow> coded (codeABx E OP_LOADK reg k)
      | VR_Register source owns access \<Rightarrow> g_when (source \<noteq> reg) (coded (codeABC E OP_MOVE reg source 0))
      | VR_PendingLoad access r k aux \<Rightarrow>
          (case access of
             AK_Global \<Rightarrow> coded (codeABx E OP_GETGLOBAL reg k)
           | AK_Upvalue \<Rightarrow> coded (codeABC E OP_GETUPVAL reg aux 0)
           | AK_Indexed \<Rightarrow> coded (codeABC E OP_GETTABLE reg r aux)
           | _ \<Rightarrow> g_ret ())
      | VR_Relocatable pc \<Rightarrow> patchArgA pc reg
      | VR_MultiRet access base pc \<Rightarrow>
          (case access of
             AK_Call \<Rightarrow> materialize_call E pc reg
           | AK_Vararg \<Rightarrow> patchArgsAB pc reg 2
           | _ \<Rightarrow> g_ret ())
      | VR_PendingJump pc \<Rightarrow>
          g_seq (coded (codeABC E OP_LOADBOOL reg 0 1))
         (g_bind getLabel (\<lambda>trueLabel.
          g_seq (fixJump pc trueLabel) (coded (codeABC E OP_LOADBOOL reg 1 0)))))"

definition valueToAnyReg :: "gen_env \<Rightarrow> value_result \<Rightarrow> int gen" where
  "valueToAnyReg E val =
     (case val of
        VR_Register source owns access \<Rightarrow> g_ret source
      | VR_MultiRet AK_Call base pc \<Rightarrow>
          g_bind (instruction_at pc) (\<lambda>inst. g_seq (replaceInstruction pc (SETARG_C inst 2)) (g_ret (GETARG_A inst)))
      | _ \<Rightarrow> g_bind allocReg (\<lambda>reg. g_seq (materializeValue E val reg) (g_ret reg)))"

definition rk_or_reg :: "gen_env \<Rightarrow> value_result \<Rightarrow> int \<Rightarrow> int gen" where
  "rk_or_reg E val k = (if k \<le> MAXINDEXRK then g_ret (RKASK k) else valueToAnyReg E val)"

definition valueToRK :: "gen_env \<Rightarrow> value_result \<Rightarrow> int gen" where
  "valueToRK E val =
     (case val of
        VR_Immediate (Imm_Number x) \<Rightarrow> g_bind (numberConstant E x) (rk_or_reg E val)
      | VR_Immediate (Imm_Boolean b) \<Rightarrow> g_bind (boolConstant E b) (rk_or_reg E val)
      | VR_Immediate Imm_Nil \<Rightarrow> g_bind (nilConstant E) (rk_or_reg E val)
      | VR_Constant k \<Rightarrow> rk_or_reg E val k
      | _ \<Rightarrow> valueToAnyReg E val)"

definition forceSingleValue :: "value_result \<Rightarrow> value_result gen" where
  "forceSingleValue val =
     (case val of
        VR_MultiRet AK_Vararg base pc \<Rightarrow> g_seq (patchArgB pc 2) (g_ret (VR_Relocatable pc))
      | VR_MultiRet AK_Call base pc \<Rightarrow>
          g_bind (instruction_at pc) (\<lambda>inst.
          g_seq (replaceInstruction pc (SETARG_C inst 2)) (g_ret (VR_Register (GETARG_A inst) False AK_None)))
      | _ \<Rightarrow> g_ret val)"

text \<open>The value of an expression as a single one.\<close>

definition single :: "value_result gen \<Rightarrow> value_result gen" where
  "single v = g_bind v forceSingleValue"

abbreviation single_value :: "emitters \<Rightarrow> value_result gen" where
  "single_value e \<equiv> single (em_value e)"

definition value_into :: "gen_env \<Rightarrow> emitters \<Rightarrow> int \<Rightarrow> unit gen" where
  "value_into E e reg = g_bind (single_value e) (\<lambda>v. materializeValue E v reg)"

text \<open>Two operands are freed from the higher register down.\<close>

definition free_both :: "int \<Rightarrow> int \<Rightarrow> unit gen" where
  "free_both o1 o2 = (if o2 < o1 then g_seq (freeReg o1) (freeReg o2) else g_seq (freeReg o2) (freeReg o1))"

section \<open>Conditions\<close>

text \<open>The instruction for a comparison: opcode, expected outcome and whether the operands change places.\<close>

definition comparison_code :: "bin_op \<Rightarrow> bool \<Rightarrow> (opcode \<times> int \<times> bool) option" where
  "comparison_code op jumpOnTrue =
     (let c = (if jumpOnTrue then 1 else 0) in
      case op of
        B_Eq \<Rightarrow> Some (OP_EQ, c, False)
      | B_Ne \<Rightarrow> Some (OP_EQ, 1 - c, False)
      | B_Lt \<Rightarrow> Some (OP_LT, c, False)
      | B_Le \<Rightarrow> Some (OP_LE, c, False)
      | B_Gt \<Rightarrow> Some (OP_LT, c, True)
      | B_Ge \<Rightarrow> Some (OP_LE, c, True)
      | _ \<Rightarrow> None)"

definition emitComparisonJump :: "gen_env \<Rightarrow> bin_op \<Rightarrow> emitters \<Rightarrow> emitters \<Rightarrow> bool \<Rightarrow> int list gen" where
  "emitComparisonJump E op l r jumpOnTrue =
     (case comparison_code op jumpOnTrue of
        None \<Rightarrow> g_throw ''emitComparisonJump requires comparison operator''
      | Some (oc, expected, swapOperands) \<Rightarrow>
          g_bind (em_value l) (\<lambda>left. g_bind (valueToRK E left) (\<lambda>rkLeft.
          g_bind (em_value r) (\<lambda>right. g_bind (valueToRK E right) (\<lambda>rkRight.
          let o1 = (if swapOperands then rkRight else rkLeft); o2 = (if swapOperands then rkLeft else rkRight) in
          g_seq (free_both o1 o2)
         (g_seq (coded (codeABC E oc expected o1 o2))
         (g_bind (emitJump E) (\<lambda>pc. g_ret (pl_append [] pc)))))))))"

text \<open>A value that has to be tested: \<open>jumpOnTrue\<close> tells on which outcome the jump is taken.\<close>

definition cond_of_value :: "gen_env \<Rightarrow> value_result gen \<Rightarrow> bool \<Rightarrow> int list gen" where
  "cond_of_value E v jumpOnTrue =
     g_bind (single v) (\<lambda>val. case constantTruthiness val of
         Falsy \<Rightarrow> if jumpOnTrue then g_ret [] else g_bind (emitJump E) (\<lambda>pc. g_ret (pl_append [] pc))
       | Truthy \<Rightarrow> if jumpOnTrue then g_bind (emitJump E) (\<lambda>pc. g_ret (pl_append [] pc)) else g_ret []
       | Runtime \<Rightarrow>
           g_bind (valueToAnyReg E val) (\<lambda>reg.
           g_seq (coded (codeABC E OP_TEST reg 0 (if jumpOnTrue then 1 else 0)))
          (g_bind (emitJump E) (\<lambda>pc.
           g_seq (freeReg reg) (g_ret (pl_append [] pc))))))"

definition cond_fallback :: "gen_env \<Rightarrow> value_result gen \<Rightarrow> cond_result gen" where
  "cond_fallback E v = g_bind (cond_of_value E v False) (\<lambda>pcs. g_ret (no_jumps\<lparr>cr_falseList := pcs\<rparr>))"

definition condTrue_fallback :: "gen_env \<Rightarrow> value_result gen \<Rightarrow> cond_result gen" where
  "condTrue_fallback E v = g_bind (cond_of_value E v True) (\<lambda>pcs. g_ret (no_jumps\<lparr>cr_trueList := pcs\<rparr>))"

text \<open>\<open>emitCondResult\<close> and \<open>emitCondResultTrue\<close> of a binary expression; \<open>v\<close> is the value of the expression itself.\<close>

definition cond_binary :: "gen_env \<Rightarrow> bin_op \<Rightarrow> emitters \<Rightarrow> emitters \<Rightarrow> value_result gen \<Rightarrow> cond_result gen" where
  "cond_binary E op l r v =
     (if op = B_And then
        g_bind (em_cond l) (\<lambda>left. g_bind (em_cond r) (\<lambda>right.
          g_ret (no_jumps\<lparr>cr_falseList := cr_falseList left @ cr_falseList right\<rparr>)))
      else if op = B_Or then
        g_bind (em_condTrue l) (\<lambda>left. g_bind (em_cond r) (\<lambda>right.
        g_seq (patchAllToHere (cr_trueList left)) (g_ret (no_jumps\<lparr>cr_falseList := cr_falseList right\<rparr>))))
      else if comparison_op op then
        g_bind (emitComparisonJump E op l r False) (\<lambda>pcs. g_ret (no_jumps\<lparr>cr_falseList := pcs\<rparr>))
      else cond_fallback E v)"

definition condTrue_binary :: "gen_env \<Rightarrow> bin_op \<Rightarrow> emitters \<Rightarrow> emitters \<Rightarrow> value_result gen \<Rightarrow> cond_result gen" where
  "condTrue_binary E op l r v =
     (if op = B_And then
        g_bind (em_cond l) (\<lambda>left. g_bind (em_condTrue r) (\<lambda>right.
        g_seq (patchAllToHere (cr_falseList left)) (g_ret (no_jumps\<lparr>cr_trueList := cr_trueList right\<rparr>))))
      else if op = B_Or then
        g_bind (em_condTrue l) (\<lambda>left. g_bind (em_condTrue r) (\<lambda>right.
          g_ret (no_jumps\<lparr>cr_trueList := cr_trueList left @ cr_trueList right\<rparr>)))
      else if comparison_op op then
        g_bind (emitComparisonJump E op l r True) (\<lambda>pcs. g_ret (no_jumps\<lparr>cr_trueList := pcs\<rparr>))
      else condTrue_fallback E v)"

definition cond_unary :: "gen_env \<Rightarrow> un_op \<Rightarrow> emitters \<Rightarrow> value_result gen \<Rightarrow> cond_result gen" where
  "cond_unary E op e v =
     (if op = U_Not then g_bind (em_condTrue e) (\<lambda>inner. g_ret (no_jumps\<lparr>cr_falseList := cr_trueList inner\<rparr>))
      else cond_fallback E v)"

definition condTrue_unary :: "gen_env \<Rightarrow> un_op \<Rightarrow> emitters \<Rightarrow> value_result gen \<Rightarrow> cond_result gen" where
  "condTrue_unary E op e v =
     (if op = U_Not then g_bind (em_cond e) (\<lambda>inner. g_ret (no_jumps\<lparr>cr_trueList := cr_falseList inner\<rparr>))
      else condTrue_fallback E v)"

text \<open>\<open>materializeCondResult\<close> with \<open>fallthroughOnTrue\<close> false, the only way it is called.\<close>

definition materializeCondResult :: "gen_env \<Rightarrow> int list \<Rightarrow> int \<Rightarrow> unit gen" where
  "materializeCondResult E trueList reg =
     g_seq (coded (codeABC E OP_LOADBOOL reg 0 1))
    (g_bind getLabel (\<lambda>trueLabel.
     g_seq (patchAll trueList trueLabel) (coded (codeABC E OP_LOADBOOL reg 1 0))))"

definition condition_value :: "gen_env \<Rightarrow> int list gen \<Rightarrow> value_result gen" where
  "condition_value E m =
     g_bind m (\<lambda>trueList.
     g_bind allocReg (\<lambda>resultReg.
     g_seq (materializeCondResult E trueList resultReg) (g_ret (VR_Register resultReg True AK_None))))"

section \<open>Operators\<close>

definition emit_comparison :: "gen_env \<Rightarrow> bin_op \<Rightarrow> emitters \<Rightarrow> emitters \<Rightarrow> value_result gen" where
  "emit_comparison E op l r = condition_value E (emitComparisonJump E op l r True)"

text \<open>\<open>and\<close> and \<open>or\<close> of two conditions.\<close>

definition boolean_jumps :: "bin_op \<Rightarrow> emitters \<Rightarrow> emitters \<Rightarrow> int list gen" where
  "boolean_jumps op l r =
     (if op = B_And then
        g_bind (em_cond l) (\<lambda>left. g_bind (em_condTrue r) (\<lambda>right.
        g_seq (patchAllToHere (cr_falseList left)) (g_ret (cr_trueList right))))
      else
        g_bind (em_condTrue l) (\<lambda>left. g_bind (em_condTrue r) (\<lambda>right.
          g_ret (cr_trueList left @ cr_trueList right))))"

definition short_circuit :: "gen_env \<Rightarrow> bin_op \<Rightarrow> emitters \<Rightarrow> emitters \<Rightarrow> value_result gen" where
  "short_circuit E op l r =
     g_bind (single_value l) (\<lambda>left.
     g_bind (case ownedRegister left of
               Some reg \<Rightarrow> g_ret reg
             | None \<Rightarrow> g_bind allocReg (\<lambda>reg. g_seq (materializeValue E left reg) (g_ret reg))) (\<lambda>resultReg.
     g_seq (coded (codeABC E OP_TEST resultReg 0 (if op = B_And then 0 else 1)))
    (g_bind (codeAsBx E OP_JMP 0 NO_JUMP) (\<lambda>skipRight.
     g_seq (value_into E r resultReg)
    (g_bind getLabel (\<lambda>here.
     g_seq (fixJump skipRight here) (g_ret (VR_Register resultReg True AK_None))))))))"

definition emit_logical :: "gen_env \<Rightarrow> bin_op \<Rightarrow> emitters \<Rightarrow> emitters \<Rightarrow> value_result gen" where
  "emit_logical E op l r =
     (if producesBoolean (em_expr l) \<and> producesBoolean (em_expr r) then condition_value E (boolean_jumps op l r)
      else short_circuit E op l r)"

fun concat_operands :: "gen_env \<Rightarrow> int \<Rightarrow> value_result gen list \<Rightarrow> unit gen" where
  "concat_operands E target [] = g_ret ()"
| "concat_operands E target (v # vs) =
     g_seq (g_bind (single v) (\<lambda>x. materializeValue E x target)) (concat_operands E (target + 1) vs)"

definition concat_many :: "gen_env \<Rightarrow> value_result gen list \<Rightarrow> value_result gen" where
  "concat_many E operands =
     g_bind currentReg (\<lambda>target.
     let n = int (length operands) in
     g_seq (reserveRegsAndCheck n)
    (g_seq (concat_operands E target operands)
    (g_seq (coded (codeABC E OP_CONCAT target target (target + n - 1)))
    (g_seq (setFreeRegAndCheck (target + 1)) (g_ret (VR_Register target True AK_None))))))"

definition concat_two :: "gen_env \<Rightarrow> emitters \<Rightarrow> emitters \<Rightarrow> value_result gen" where
  "concat_two E l r =
     g_bind (single_value l) (\<lambda>left. g_bind (valueToAnyReg E left) (\<lambda>leftReg.
     g_bind (single_value r) (\<lambda>right. g_bind (valueToAnyReg E right) (\<lambda>rightReg.
     g_bind currentReg (\<lambda>target.
     g_seq (reserveRegsAndCheck 2)
    (g_seq (materializeValue E (VR_Register leftReg False AK_None) target)
    (g_seq (materializeValue E (VR_Register rightReg False AK_None) (target + 1))
    (g_seq (coded (codeABC E OP_CONCAT target target (target + 1)))
    (g_seq (setFreeRegAndCheck (target + 1)) (g_ret (VR_Register target True AK_None)))))))))))"

definition emit_concat :: "gen_env \<Rightarrow> emitters \<Rightarrow> emitters \<Rightarrow> value_result gen" where
  "emit_concat E l r =
     (let operands = em_operands l @ em_operands r
      in if 2 < length operands then concat_many E operands else concat_two E l r)"

definition arith_code :: "bin_op \<Rightarrow> opcode option" where
  "arith_code op =
     (case op of B_Add \<Rightarrow> Some OP_ADD | B_Sub \<Rightarrow> Some OP_SUB | B_Mul \<Rightarrow> Some OP_MUL | B_Div \<Rightarrow> Some OP_DIV
      | B_Mod \<Rightarrow> Some OP_MOD | B_Pow \<Rightarrow> Some OP_POW | _ \<Rightarrow> None)"

text \<open>Operands that are both numbers are folded; the left operand is fixed before the right one is compiled unless it is a
  number.\<close>

definition emit_arith :: "gen_env \<Rightarrow> bin_op \<Rightarrow> emitters \<Rightarrow> emitters \<Rightarrow> value_result gen" where
  "emit_arith E op l r =
     (case arith_code op of
        None \<Rightarrow> g_throw ''emitValueBinary: unsupported binary operator''
      | Some oc \<Rightarrow>
          g_bind (em_value l) (\<lambda>left.
          g_bind (case immediateNumber left of None \<Rightarrow> g_bind (valueToRK E left) (\<lambda>rk. g_ret (Some rk)) | Some x \<Rightarrow> g_ret None) (\<lambda>fixed.
          g_bind (em_value r) (\<lambda>right.
          case (case (immediateNumber left, immediateNumber right) of
                  (Some x, Some y) \<Rightarrow> foldArithmetic E op x y | _ \<Rightarrow> None) of
            Some z \<Rightarrow> g_ret (VR_Immediate (Imm_Number z))
          | None \<Rightarrow>
              g_bind (case fixed of Some rk \<Rightarrow> g_ret rk | None \<Rightarrow> valueToRK E left) (\<lambda>rkLeft.
              g_bind (valueToRK E right) (\<lambda>rkRight.
              g_seq (free_both rkLeft rkRight)
             (g_bind (codeABC E oc 0 rkLeft rkRight) (\<lambda>pc. g_ret (VR_Relocatable pc)))))))))"

definition emitValueBinary :: "gen_env \<Rightarrow> bin_op \<Rightarrow> emitters \<Rightarrow> emitters \<Rightarrow> value_result gen" where
  "emitValueBinary E op l r =
     (if comparison_op op then emit_comparison E op l r
      else if op = B_And \<or> op = B_Or then emit_logical E op l r
      else if op = B_Concat then emit_concat E l r
      else emit_arith E op l r)"

text \<open>The truth value of a literal below two negations.\<close>

definition folded_not :: "expr \<Rightarrow> bool option" where
  "folded_not e = (case e of UnaryExpr p op inner \<Rightarrow> if op = U_Not then literalTruthiness inner else None | _ \<Rightarrow> None)"

definition unary_in_register :: "gen_env \<Rightarrow> opcode \<Rightarrow> value_result \<Rightarrow> value_result gen" where
  "unary_in_register E oc operand =
     g_bind (valueToAnyReg E operand) (\<lambda>opReg.
     g_seq (freeReg opReg)
    (g_bind (codeABC E oc 0 opReg 0) (\<lambda>pc. g_ret (VR_Relocatable pc))))"

definition emitValueUnary :: "gen_env \<Rightarrow> un_op \<Rightarrow> emitters \<Rightarrow> value_result gen" where
  "emitValueUnary E op e =
     (case op of
        U_Not \<Rightarrow>
          (case folded_not (em_expr e) of
             Some b \<Rightarrow> g_ret (VR_Immediate (Imm_Boolean b))
           | None \<Rightarrow> condition_value E (g_bind (em_cond e) (\<lambda>c. g_ret (cr_falseList c))))
      | U_Neg \<Rightarrow>
          g_bind (em_value e) (\<lambda>operand. case immediateNumber operand of
              Some x \<Rightarrow> g_ret (VR_Immediate (Imm_Number (f64_neg x)))
            | None \<Rightarrow> unary_in_register E OP_UNM operand)
      | U_Len \<Rightarrow> g_bind (em_value e) (unary_in_register E OP_LEN))"

section \<open>Tables\<close>

definition string_key :: "gen_env \<Rightarrow> string \<Rightarrow> int gen" where
  "string_key E name = g_bind (stringConstant E name) (\<lambda>k. rk_or_reg E (VR_Constant k) k)"

definition emitValueIndex :: "gen_env \<Rightarrow> emitters \<Rightarrow> emitters \<Rightarrow> value_result gen" where
  "emitValueIndex E t i =
     g_bind (em_value t) (\<lambda>tab. g_bind (valueToAnyReg E tab) (\<lambda>tableReg.
     g_bind (em_value i) (\<lambda>key. g_bind (valueToRK E key) (\<lambda>rkKey.
       g_ret (VR_PendingLoad AK_Indexed tableReg (-1) rkKey)))))"

definition emitValueMember :: "gen_env \<Rightarrow> emitters \<Rightarrow> string \<Rightarrow> value_result gen" where
  "emitValueMember E t name =
     g_bind (em_value t) (\<lambda>tab. g_bind (valueToAnyReg E tab) (\<lambda>tableReg.
     g_bind (string_key E name) (\<lambda>rkKey.
       g_ret (VR_PendingLoad AK_Indexed tableReg (-1) rkKey))))"

definition emitVarargExpr :: "gen_env \<Rightarrow> call_result gen" where
  "emitVarargExpr E =
     g_bind (g_here (\<lambda>f. isVararg (fs_data f))) (\<lambda>vararg.
       if \<not> vararg then g_throw (''CodeGenerator: cannot use '' @ [CHR 0x27] @ ''...'' @ [CHR 0x27] @ '' outside a vararg function'')
       else g_bind (codeABC E OP_VARARG 0 1 0) (\<lambda>pc.
         g_ret \<lparr>cx_kind = CK_Vararg, cx_baseReg = -1, cx_instructionPc = pc\<rparr>))"

definition setOpenMultiRet :: "call_result \<Rightarrow> unit gen" where
  "setOpenMultiRet info =
     (case cx_kind info of CK_Call \<Rightarrow> patchArgC (cx_instructionPc info) 0 | CK_Vararg \<Rightarrow> patchArgB (cx_instructionPc info) 0)"

definition setWantedResults :: "call_result \<Rightarrow> int \<Rightarrow> unit gen" where
  "setWantedResults info wanted =
     (case cx_kind info of
        CK_Call \<Rightarrow> patchArgC (cx_instructionPc info) (wanted + 1)
      | CK_Vararg \<Rightarrow> patchArgB (cx_instructionPc info) (wanted + 1))"

fun is_vararg :: "expr \<Rightarrow> bool" where
  "is_vararg (VarargExpr p) = True"
| "is_vararg _ = False"

text \<open>A call or \<open>...\<close> in a place that can take all its results: calls go to the register \<open>base\<close>.\<close>

definition multi_result :: "gen_env \<Rightarrow> emitters \<Rightarrow> int \<Rightarrow> call_result gen option" where
  "multi_result E e base =
     (case em_call e of
        Some call \<Rightarrow> Some (call base)
      | None \<Rightarrow> if is_vararg (em_expr e) then Some (emitVarargExpr E) else None)"

definition emitSetList :: "gen_env \<Rightarrow> int \<Rightarrow> int \<Rightarrow> int \<Rightarrow> unit gen" where
  "emitSetList E tableReg n block =
     (if block \<le> MAXARG_C then coded (codeABC E OP_SETLIST tableReg n block)
      else g_seq (coded (codeABC E OP_SETLIST tableReg n 0)) (coded (codeRaw E (word_of_int block))))"

text \<open>The counters of the constructor: array items, hash fields, items to store, and the last item if its results are open.\<close>

record table_counts =
  tc_na :: int
  tc_nh :: int
  tc_tostore :: int
  tc_last :: "call_result option"

definition emit_hash_field :: "gen_env \<Rightarrow> int \<Rightarrow> emitters \<Rightarrow> emitters \<Rightarrow> unit gen" where
  "emit_hash_field E tableReg k v =
     g_seq (guarding_registers
       (g_bind (em_value k) (\<lambda>keyVal. g_bind (valueToRK E keyVal) (\<lambda>rkKey.
        g_bind (em_value v) (\<lambda>valVal. g_bind (valueToRK E valVal) (\<lambda>rkVal.
          coded (codeABC E OP_SETTABLE tableReg rkKey rkVal)))))))
       (checkStack 0)"

definition emit_item :: "gen_env \<Rightarrow> int \<Rightarrow> emitters \<Rightarrow> table_counts \<Rightarrow> table_counts gen" where
  "emit_item E tableReg v c =
     (let targetReg = tableReg + tc_tostore c in
      g_seq (value_into E v targetReg)
     (g_seq (setFreeRegAndCheck (targetReg + 1))
     (if tc_last c = None \<and> tc_tostore c = LFIELDS_PER_FLUSH then
        g_seq (emitSetList E tableReg LFIELDS_PER_FLUSH ((tc_na c - 1) div LFIELDS_PER_FLUSH + 1))
       (g_seq (setFreeRegAndCheck (tableReg + 1)) (g_ret (c\<lparr>tc_tostore := 0\<rparr>)))
      else g_ret c)))"

definition emit_field :: "gen_env \<Rightarrow> int \<Rightarrow> bool \<Rightarrow> emitters option \<times> emitters \<Rightarrow> table_counts \<Rightarrow> table_counts gen" where
  "emit_field E tableReg isLastField field c =
     (case field of
        (Some k, v) \<Rightarrow> g_seq (emit_hash_field E tableReg k v) (g_ret (c\<lparr>tc_nh := tc_nh c + 1\<rparr>))
      | (None, v) \<Rightarrow>
          let c1 = c\<lparr>tc_na := tc_na c + 1, tc_tostore := tc_tostore c + 1\<rparr> in
          (case (if isLastField then multi_result E v (tableReg + tc_tostore c1) else None) of
             Some m \<Rightarrow> g_bind m (\<lambda>info. g_ret (c1\<lparr>tc_last := Some info\<rparr>))
           | None \<Rightarrow> emit_item E tableReg v c1))"

fun emit_fields :: "gen_env \<Rightarrow> int \<Rightarrow> (emitters option \<times> emitters) list \<Rightarrow> table_counts \<Rightarrow> table_counts gen" where
  "emit_fields E tableReg [] c = g_ret c"
| "emit_fields E tableReg (f # fs) c = g_bind (emit_field E tableReg (fs = []) f c) (emit_fields E tableReg fs)"

text \<open>The items that are left, after the last field; the answer is the number of array items for the size hint.\<close>

definition flush_items :: "gen_env \<Rightarrow> int \<Rightarrow> table_counts \<Rightarrow> int gen" where
  "flush_items E tableReg c =
     (let block = (tc_na c - 1) div LFIELDS_PER_FLUSH + 1; targetBase = tableReg + tc_tostore c in
      if tc_tostore c \<le> 0 then g_ret (tc_na c)
      else case tc_last c of
        Some info \<Rightarrow>
          g_seq (case cx_kind info of
              CK_Call \<Rightarrow>
                g_bind (instruction_at (cx_instructionPc info)) (\<lambda>inst.
                  if GETARG_A inst \<noteq> targetBase then g_throw ''CALL base mismatch in table multret field''
                  else setOpenMultiRet info)
            | CK_Vararg \<Rightarrow> g_seq (patchArgA (cx_instructionPc info) targetBase) (setOpenMultiRet info))
         (g_seq (emitSetList E tableReg 0 block)
         (g_seq (setFreeRegAndCheck (tableReg + 1)) (g_ret (tc_na c - 1))))
      | None \<Rightarrow>
          g_seq (emitSetList E tableReg (tc_tostore c) block)
         (g_seq (setFreeRegAndCheck (tableReg + 1)) (g_ret (tc_na c))))"

definition emitValueTable :: "gen_env \<Rightarrow> (emitters option \<times> emitters) list \<Rightarrow> value_result gen" where
  "emitValueTable E fs =
     g_bind (codeABC E OP_NEWTABLE 0 0 0) (\<lambda>pc.
     g_bind allocReg (\<lambda>tableReg.
     g_seq (patchArgA pc tableReg)
    (g_bind (emit_fields E tableReg fs \<lparr>tc_na = 0, tc_nh = 0, tc_tostore = 0, tc_last = None\<rparr>) (\<lambda>c.
     g_bind (flush_items E tableReg c) (\<lambda>na.
     g_seq (patchArgsBC pc na (tc_nh c)) (g_ret (VR_Register tableReg True AK_None)))))))"

section \<open>Calls\<close>

text \<open>\<open>moveRegRange\<close>: the registers may overlap.\<close>

definition moveRegRange :: "gen_env \<Rightarrow> int \<Rightarrow> int \<Rightarrow> int \<Rightarrow> unit gen" where
  "moveRegRange E dst src n =
     (if n \<le> 0 \<or> dst = src then g_ret ()
      else g_each (\<lambda>i. coded (codeABC E OP_MOVE (dst + i) (src + i) 0))
        (if dst < src then [0..n - 1] else rev [0..n - 1]))"

definition emit_self :: "gen_env \<Rightarrow> emitters \<Rightarrow> int gen" where
  "emit_self E func =
     (case em_object func of
        None \<Rightarrow> g_throw ''Method call must have MemberExpr as func''
      | Some (obj, name) \<Rightarrow>
          g_bind obj (\<lambda>v. g_bind (valueToAnyReg E v) (\<lambda>objReg.
          g_bind (stringConstant E name) (\<lambda>methodKey.
          g_bind (if methodKey \<le> MAXINDEXRK then g_seq (freeReg objReg) (g_ret (RKASK methodKey))
                  else valueToAnyReg E (VR_Constant methodKey)) (\<lambda>rkKey.
          g_bind currentReg (\<lambda>base.
          g_seq (reserveRegsAndCheck 2)
         (g_seq (coded (codeABC E OP_SELF base objReg rkKey)) (g_ret base))))))))"

text \<open>The register of the function and whether its slot may be used as the base of the call.\<close>

definition emit_callee :: "gen_env \<Rightarrow> emitters \<Rightarrow> (int \<times> bool) gen" where
  "emit_callee E func =
     g_bind (em_value func) (\<lambda>funcVal.
     g_bind (valueToAnyReg E funcVal) (\<lambda>base.
     g_bind currentReg (\<lambda>reg.
       g_ret (base, (case funcVal of VR_Register r owns access \<Rightarrow> owns | _ \<Rightarrow> True) \<and> base = reg - 1))))"

definition emit_arg :: "gen_env \<Rightarrow> int \<Rightarrow> bool \<Rightarrow> emitters \<Rightarrow> bool gen" where
  "emit_arg E targetReg isLastArg a =
     (case (if isLastArg then multi_result E a targetReg else None) of
        Some m \<Rightarrow>
          g_bind m (\<lambda>inner.
          g_seq (case cx_kind inner of
                   CK_Call \<Rightarrow> setOpenMultiRet inner | CK_Vararg \<Rightarrow> patchArgsAB (cx_instructionPc inner) targetReg 0)
            (g_ret True))
      | None \<Rightarrow> g_seq (value_into E a targetReg) (g_ret False))"

fun emit_args :: "gen_env \<Rightarrow> int \<Rightarrow> emitters list \<Rightarrow> bool gen" where
  "emit_args E targetReg [] = g_ret False"
| "emit_args E targetReg (a # as) =
     g_bind (emit_arg E targetReg (as = []) a) (\<lambda>multi.
     g_seq (ensureRegAtLeast (targetReg + 1))
       (if as = [] then g_ret multi else emit_args E (targetReg + 1) as))"

text \<open>The base of the call after the function has been moved to where the call wants it.\<close>

definition call_base :: "gen_env \<Rightarrow> int \<Rightarrow> int \<Rightarrow> int \<Rightarrow> bool \<Rightarrow> bool \<Rightarrow> int gen" where
  "call_base E targetBase base savedFreeReg hasImplicitSelf disposable =
     (let n = (if hasImplicitSelf then 2 else 1) in
      if 0 \<le> targetBase then g_seq (moveRegRange E targetBase base n) (g_ret targetBase)
      else if base < savedFreeReg \<and> \<not> (\<not> hasImplicitSelf \<and> disposable)
        then g_seq (moveRegRange E savedFreeReg base n) (g_ret savedFreeReg)
      else g_ret base)"

definition emitCallExpr :: "gen_env \<Rightarrow> int \<Rightarrow> emitters \<Rightarrow> emitters list \<Rightarrow> bool \<Rightarrow> int \<Rightarrow> call_result gen" where
  "emitCallExpr E line func args isMethodCall targetBase =
     at_line line
      (g_bind (if isMethodCall then g_bind (emit_self E func) (\<lambda>base. g_ret (base, False)) else emit_callee E func) (\<lambda>(base0, disposable).
       g_bind currentReg (\<lambda>savedFreeReg.
       g_bind (call_base E targetBase base0 savedFreeReg isMethodCall disposable) (\<lambda>base.
       let firstArgReg = (if isMethodCall then base + 2 else base + 1); nargs = int (length args) + (if isMethodCall then 1 else 0) in
       g_seq (setFreeRegAndCheck firstArgReg)
      (g_seq (checkStack (int (length args)))
      (g_bind (emit_args E firstArgReg args) (\<lambda>multi.
       g_bind (codeABC E OP_CALL base (if multi then 0 else nargs + 1) 2) (\<lambda>callPC.
       g_seq (setFreeRegAndCheck (if base + 1 < savedFreeReg then savedFreeReg else base + 1))
         (g_ret \<lparr>cx_kind = CK_Call, cx_baseReg = base, cx_instructionPc = callPC\<rparr>)))))))))"

section \<open>Assignment targets\<close>

definition lvalue_index :: "gen_env \<Rightarrow> emitters \<Rightarrow> emitters \<Rightarrow> lvalue_ref gen" where
  "lvalue_index E t i =
     g_bind (em_value t) (\<lambda>tab. g_bind (valueToAnyReg E tab) (\<lambda>tableReg.
     g_bind (em_value i) (\<lambda>key. g_bind (valueToRK E key) (\<lambda>rkKey.
       g_ret (LV_Indexed tableReg rkKey)))))"

definition lvalue_member :: "gen_env \<Rightarrow> emitters \<Rightarrow> string \<Rightarrow> lvalue_ref gen" where
  "lvalue_member E t name =
     g_bind (em_value t) (\<lambda>tab. g_bind (valueToAnyReg E tab) (\<lambda>tableReg.
     g_bind (stringConstant E name) (\<lambda>k. g_bind (valueToRK E (VR_Constant k)) (\<lambda>rkKey.
       g_ret (LV_Indexed tableReg rkKey)))))"

definition no_lvalue :: "lvalue_ref gen" where
  "no_lvalue = g_throw ''Expression is not a valid lvalue''"

definition emitStore :: "gen_env \<Rightarrow> lvalue_ref \<Rightarrow> value_result \<Rightarrow> unit gen" where
  "emitStore E target val =
     (case target of
        LV_Local local \<Rightarrow>
          g_seq (case ownedRegister val of Some reg \<Rightarrow> freeReg reg | None \<Rightarrow> g_ret ()) (materializeValue E val local)
      | LV_Upvalue up \<Rightarrow>
          g_bind (forceSingleValue val) (\<lambda>v. g_bind (valueToAnyReg E v) (\<lambda>reg.
          g_seq (coded (codeABC E OP_SETUPVAL reg up 0)) (g_when (ownedRegister v \<noteq> None) (freeReg reg))))
      | LV_Global k \<Rightarrow>
          g_bind (forceSingleValue val) (\<lambda>v. g_bind (valueToAnyReg E v) (\<lambda>reg.
          g_seq (coded (codeABx E OP_SETGLOBAL reg k)) (g_when (ownedRegister v \<noteq> None) (freeReg reg))))
      | LV_Indexed tableReg key \<Rightarrow>
          g_bind (forceSingleValue val) (\<lambda>v. g_bind (valueToRK E v) (\<lambda>rk.
          g_seq (coded (codeABC E OP_SETTABLE tableReg key rk)) (g_when (ownedRegister v \<noteq> None) (freeReg rk)))))"

end
