(* ===== verification/GenStmt.thy ===== *)
theory GenStmt
  imports GenExpr
begin

text \<open>
  \<^verbatim>\<open>compiler/codegen/statement_emitter.cpp\<close>, \<^verbatim>\<open>function_compiler.cpp\<close> and \<^verbatim>\<open>codegen.cpp\<close>: statements, functions and
  chunks, and the recursion over the syntax tree.

  A statement comes as its syntax, which some of the decisions look at, with the emitters of its expressions and the
  generators of the statements inside. \<open>emit_expr\<close> and \<open>emit_stmt\<close> are the visitors.
\<close>

section \<open>What the decisions look at\<close>

fun expr_name :: "expr \<Rightarrow> string option" where
  "expr_name (NameExpr p x) = Some x"
| "expr_name _ = None"

fun is_nil_literal :: "expr \<Rightarrow> bool" where
  "is_nil_literal (NilExpr p) = True"
| "is_nil_literal _ = False"

definition allInitializersAreNilLiterals :: "expr list \<Rightarrow> bool" where
  "allInitializersAreNilLiterals values0 \<longleftrightarrow> values0 \<noteq> [] \<and> list_all is_nil_literal values0"

primrec expressionHasCall :: "expr \<Rightarrow> bool" where
  "expressionHasCall (NilExpr p) = False"
| "expressionHasCall (BoolExpr p b) = False"
| "expressionHasCall (NumberExpr p x) = False"
| "expressionHasCall (StringExpr p x) = False"
| "expressionHasCall (VarargExpr p) = False"
| "expressionHasCall (NameExpr p x) = False"
| "expressionHasCall (BinaryExpr p op l r) = (expressionHasCall l \<or> expressionHasCall r)"
| "expressionHasCall (UnaryExpr p op e) = expressionHasCall e"
| "expressionHasCall (TableExpr p fs) =
     list_ex (\<lambda>(k, v). (case k of Some c \<Rightarrow> c | None \<Rightarrow> False) \<or> v) (map (map_prod (map_option expressionHasCall) expressionHasCall) fs)"
| "expressionHasCall (CallExpr p f args m) = True"
| "expressionHasCall (IndexExpr p t i) = (expressionHasCall t \<or> expressionHasCall i)"
| "expressionHasCall (MemberExpr p t x) = expressionHasCall t"
| "expressionHasCall (FunctionExpr p ps v b l) = False"
| "expressionHasCall (ParenExpr p e) = expressionHasCall e"

fun receiverTableName :: "expr \<Rightarrow> string option" where
  "receiverTableName (IndexExpr p t i) = expr_name t"
| "receiverTableName (MemberExpr p t x) = expr_name t"
| "receiverTableName _ = None"

text \<open>The names that a statement may read, a set in the code. The target of an assignment is not read if it is a name, and a
  function statement reads its last name if it is not local.\<close>

definition target_reads :: "expr \<Rightarrow> string list \<Rightarrow> string list" where
  "target_reads e rs = (if expr_name e = None then rs else [])"

primrec collectExprReads :: "expr \<Rightarrow> string list" and collectStmtReads :: "stmt \<Rightarrow> string list" where
  "collectExprReads (NilExpr p) = []"
| "collectExprReads (BoolExpr p b) = []"
| "collectExprReads (NumberExpr p x) = []"
| "collectExprReads (StringExpr p x) = []"
| "collectExprReads (VarargExpr p) = []"
| "collectExprReads (NameExpr p x) = [x]"
| "collectExprReads (BinaryExpr p op l r) = collectExprReads l @ collectExprReads r"
| "collectExprReads (UnaryExpr p op e) = collectExprReads e"
| "collectExprReads (TableExpr p fs) =
     concat (map (\<lambda>(k, v). (case k of Some rs \<Rightarrow> rs | None \<Rightarrow> []) @ v) (map (map_prod (map_option collectExprReads) collectExprReads) fs))"
| "collectExprReads (CallExpr p f args m) = collectExprReads f @ concat (map collectExprReads args)"
| "collectExprReads (IndexExpr p t i) = collectExprReads t @ collectExprReads i"
| "collectExprReads (MemberExpr p t x) = collectExprReads t"
| "collectExprReads (FunctionExpr p ps v b l) = concat (map collectStmtReads b)"
| "collectExprReads (ParenExpr p e) = collectExprReads e"
| "collectStmtReads (EmptyStmt p) = []"
| "collectStmtReads (AssignStmt p ts vs) =
     concat (map2 target_reads ts (map collectExprReads ts)) @ concat (map collectExprReads vs)"
| "collectStmtReads (LocalStmt p ns vs) = concat (map collectExprReads vs)"
| "collectStmtReads (CallStmt p c) = collectExprReads c"
| "collectStmtReads (IfStmt p bs els l) =
     concat (map (\<lambda>(c, b). c @ concat b) (map (map_prod collectExprReads (map collectStmtReads)) bs)) @ concat (map collectStmtReads els)"
| "collectStmtReads (WhileStmt p c b l) = collectExprReads c @ concat (map collectStmtReads b)"
| "collectStmtReads (RepeatStmt p b c l) = concat (map collectStmtReads b) @ collectExprReads c"
| "collectStmtReads (ForNumStmt p v i m st b l) =
     collectExprReads i @ collectExprReads m @ collectExprReads st @ concat (map collectStmtReads b)"
| "collectStmtReads (ForInStmt p vs its b l) = concat (map collectExprReads its) @ concat (map collectStmtReads b)"
| "collectStmtReads (FunctionStmt p n tp m ps v b lo l) = (if lo then [] else [n]) @ concat (map collectStmtReads b)"
| "collectStmtReads (ReturnStmt p vs) = concat (map collectExprReads vs)"
| "collectStmtReads (BreakStmt p) = []"
| "collectStmtReads (DoStmt p b l) = concat (map collectStmtReads b)"

text \<open>Whether \<open>...\<close> occurs outside the functions inside.\<close>

primrec exprUsesDirectVararg :: "expr \<Rightarrow> bool" and stmtUsesDirectVararg :: "stmt \<Rightarrow> bool" where
  "exprUsesDirectVararg (NilExpr p) = False"
| "exprUsesDirectVararg (BoolExpr p b) = False"
| "exprUsesDirectVararg (NumberExpr p x) = False"
| "exprUsesDirectVararg (StringExpr p x) = False"
| "exprUsesDirectVararg (VarargExpr p) = True"
| "exprUsesDirectVararg (NameExpr p x) = False"
| "exprUsesDirectVararg (BinaryExpr p op l r) = (exprUsesDirectVararg l \<or> exprUsesDirectVararg r)"
| "exprUsesDirectVararg (UnaryExpr p op e) = exprUsesDirectVararg e"
| "exprUsesDirectVararg (TableExpr p fs) =
     list_ex (\<lambda>(k, v). (case k of Some c \<Rightarrow> c | None \<Rightarrow> False) \<or> v) (map (map_prod (map_option exprUsesDirectVararg) exprUsesDirectVararg) fs)"
| "exprUsesDirectVararg (CallExpr p f args m) = (exprUsesDirectVararg f \<or> list_ex id (map exprUsesDirectVararg args))"
| "exprUsesDirectVararg (IndexExpr p t i) = (exprUsesDirectVararg t \<or> exprUsesDirectVararg i)"
| "exprUsesDirectVararg (MemberExpr p t x) = exprUsesDirectVararg t"
| "exprUsesDirectVararg (FunctionExpr p ps v b l) = False"
| "exprUsesDirectVararg (ParenExpr p e) = exprUsesDirectVararg e"
| "stmtUsesDirectVararg (EmptyStmt p) = False"
| "stmtUsesDirectVararg (AssignStmt p ts vs) =
     (list_ex id (map exprUsesDirectVararg ts) \<or> list_ex id (map exprUsesDirectVararg vs))"
| "stmtUsesDirectVararg (LocalStmt p ns vs) = list_ex id (map exprUsesDirectVararg vs)"
| "stmtUsesDirectVararg (CallStmt p c) = exprUsesDirectVararg c"
| "stmtUsesDirectVararg (IfStmt p bs els l) =
     (list_ex (\<lambda>(c, b). c \<or> list_ex id b) (map (map_prod exprUsesDirectVararg (map stmtUsesDirectVararg)) bs) \<or>
      list_ex id (map stmtUsesDirectVararg els))"
| "stmtUsesDirectVararg (WhileStmt p c b l) = (exprUsesDirectVararg c \<or> list_ex id (map stmtUsesDirectVararg b))"
| "stmtUsesDirectVararg (RepeatStmt p b c l) = (list_ex id (map stmtUsesDirectVararg b) \<or> exprUsesDirectVararg c)"
| "stmtUsesDirectVararg (ForNumStmt p v i m st b l) =
     (exprUsesDirectVararg i \<or> exprUsesDirectVararg m \<or> exprUsesDirectVararg st \<or> list_ex id (map stmtUsesDirectVararg b))"
| "stmtUsesDirectVararg (ForInStmt p vs its b l) =
     (list_ex id (map exprUsesDirectVararg its) \<or> list_ex id (map stmtUsesDirectVararg b))"
| "stmtUsesDirectVararg (FunctionStmt p n tp m ps v b lo l) = False"
| "stmtUsesDirectVararg (ReturnStmt p vs) = list_ex id (map exprUsesDirectVararg vs)"
| "stmtUsesDirectVararg (BreakStmt p) = False"
| "stmtUsesDirectVararg (DoStmt p b l) = list_ex id (map stmtUsesDirectVararg b)"

section \<open>Blocks\<close>

text \<open>The generator of a statement with the names it may read.\<close>

type_synonym statement_emitter = "string list \<times> unit gen"

primrec statements_in_turn :: "statement_emitter list \<Rightarrow> unit gen" where
  "statements_in_turn [] = g_ret ()"
| "statements_in_turn (st # sts) =
     g_seq (g_change (\<lambda>f. f\<lparr>fs_futureReads := Some (concat (map fst sts))\<rparr>))
    (g_seq (snd st) (statements_in_turn sts))"

definition emit_block :: "gen_env \<Rightarrow> statement_emitter list \<Rightarrow> unit gen" where
  "emit_block E stmts =
     g_bind activeLocalCount (\<lambda>oldActiveVarCount.
     g_bind (g_here fs_futureReads) (\<lambda>previous.
     g_seq (statements_in_turn stmts)
    (g_seq (g_change (\<lambda>f. f\<lparr>fs_futureReads := previous\<rparr>))
       (removeLocalVars E oldActiveVarCount))))"

section \<open>Functions\<close>

definition VARARG_flags :: "bool \<Rightarrow> bool \<Rightarrow> u8" where
  "VARARG_flags vararg needsCompatArg =
     (if vararg then VARARG_ISVARARG OR (if needsCompatArg then VARARG_HASARG OR VARARG_NEEDSARG else 0) else 0)"

text \<open>The state of a generator after \<open>resetForProto\<close>.\<close>

definition new_function_state :: "proto_data \<Rightarrow> bool \<Rightarrow> function_state" where
  "new_function_state d vararg =
     \<lparr>fs_proto = Proto (setVararg vararg (d\<lparr>pd_maxStackSize := 2\<rparr>)) [], fs_line = 0, fs_freereg = 0, fs_localVars = [],
      fs_activeVarCount = 0, fs_blocks = [], fs_jpc = NO_JUMP, fs_upvalues = [], fs_futureReads = None, fs_forceNil = False\<rparr>"

text \<open>A generator for a function inside: its state is that of \<open>child\<close>, and the state around it becomes the innermost
  parent.\<close>

definition in_child :: "function_state \<Rightarrow> 'a gen \<Rightarrow> ('a \<times> function_state) gen" where
  "in_child child m s =
     (case m (s\<lparr>gn_current := child, gn_parents := gn_current s # gn_parents s\<rparr>) of
        Inl e \<Rightarrow> Inl e
      | Inr (x, s1) \<Rightarrow> Inr ((x, gn_current s1), s1\<lparr>gn_current := hd (gn_parents s1), gn_parents := tl (gn_parents s1)\<rparr>))"

definition attachDebugMetadata :: "gen_env \<Rightarrow> unit gen" where
  "attachDebugMetadata E =
     g_bind (g_here (\<lambda>f. (fs_localVars f, code_length f))) (\<lambda>(vars, pc).
       g_each (\<lambda>v. addLocalDebug E (lc_name v) (lc_startpc v) (if 0 \<le> lc_endpc v then lc_endpc v else pc) (lc_reg v)) vars)"

definition add_parameters :: "string list \<Rightarrow> unit gen" where
  "add_parameters params =
     g_seq (g_each (\<lambda>x. coded (addLocalVar x)) params) (adjustLocalVars (int (length params)))"

definition add_upvalue_names :: "gen_env \<Rightarrow> unit gen" where
  "add_upvalue_names E =
     g_bind (g_here fs_upvalues) (\<lambda>ups.
     g_seq (g_change (update_data (\<lambda>d. d\<lparr>pd_nups := word_of_nat (length ups)\<rparr>)))
       (g_each (\<lambda>u. g_bind (g_intern E (uc_name u)) (\<lambda>a.
          g_change (update_data (\<lambda>d. snd (addUpvalueName (Some a) d))))) ups))"

definition function_body :: "gen_env \<Rightarrow> string list \<Rightarrow> bool \<Rightarrow> statement_emitter list \<Rightarrow> int \<Rightarrow> unit gen" where
  "function_body E params needsCompatArg body lastLine =
     g_seq (add_parameters params)
    (g_seq (g_when needsCompatArg (g_seq (coded (addLocalVar ''arg'')) (adjustLocalVars 1)))
    (g_seq (emit_block E body)
    (g_seq (with_line lastLine (coded (codeABC E OP_RETURN 0 1 0)))
    (g_seq (add_upvalue_names E)
    (g_seq (attachDebugMetadata E)
       (g_change (\<lambda>f. fit_stack (fs_freereg f) f)))))))"

text \<open>The index of the new prototype and what it captures. \<open>usesVararg\<close> tells whether the body uses \<open>...\<close> itself.\<close>

definition compileFunction ::
  "gen_env \<Rightarrow> string list \<Rightarrow> bool \<Rightarrow> bool \<Rightarrow> statement_emitter list \<Rightarrow> int \<Rightarrow> int \<Rightarrow> (int \<times> upvalue_capture list) gen" where
  "compileFunction E params vararg usesVararg body linedefined lastlinedefined =
     (let needsCompatArg = (vararg \<and> \<not> usesVararg) in
      g_seq (g_charge E (\<lambda>now. cb_consumeFunction now 1))
     (g_bind (g_here (\<lambda>f. pd_source (fs_data f))) (\<lambda>source.
      let d = empty_proto\<lparr>pd_numParams := word_of_nat (length params), pd_linedefined := linedefined,
                pd_lastlinedefined := lastlinedefined, pd_source := source\<rparr>;
          child = update_data (\<lambda>d. d\<lparr>pd_isVararg := VARARG_flags vararg needsCompatArg\<rparr>) (new_function_state d vararg)
      in g_bind (in_child (child\<lparr>fs_line := linedefined\<rparr>)
           (function_body E params needsCompatArg body (if 0 < lastlinedefined then lastlinedefined else linedefined))) (\<lambda>(_, f).
         g_bind (addSubProto (fs_proto f)) (\<lambda>i. g_ret (i, fs_upvalues f))))))"

definition emitClosureUpvalues :: "gen_env \<Rightarrow> upvalue_capture list \<Rightarrow> unit gen" where
  "emitClosureUpvalues E ups =
     g_each (\<lambda>u. coded (codeABC E (if uc_inStack u then OP_MOVE else OP_GETUPVAL) 0 (uc_index u) 0)) ups"

text \<open>The line of the last statement of a body stands in for a missing end line.\<close>

definition last_line :: "int \<Rightarrow> int \<Rightarrow> stmt list \<Rightarrow> int" where
  "last_line line endLine body =
     (let l = (if 0 < endLine then endLine else if body = [] then 0 else stmt_getLine (last body)) in if l < line then line else l)"

definition function_value ::
  "gen_env \<Rightarrow> int \<Rightarrow> string list \<Rightarrow> bool \<Rightarrow> stmt list \<Rightarrow> int \<Rightarrow> statement_emitter list \<Rightarrow> value_result gen" where
  "function_value E line params vararg body endLine stmts =
     g_bind (compileFunction E params vararg (list_ex stmtUsesDirectVararg body) stmts line (last_line line endLine body)) (\<lambda>(i, ups).
     g_bind allocReg (\<lambda>reg.
     g_seq (coded (codeABx E OP_CLOSURE reg i))
    (g_seq (emitClosureUpvalues E ups) (g_ret (VR_Register reg True AK_None)))))"

section \<open>Assignments\<close>

definition local_register :: "function_state \<Rightarrow> expr \<Rightarrow> int option" where
  "local_register f e =
     (case expr_name e of None \<Rightarrow> None
      | Some x \<Rightarrow> let r = findLocal x (fs_localVars f) in if 0 \<le> r then Some r else None)"

text \<open>The registers of targets and values if all of them are local variables.\<close>

definition local_moves :: "function_state \<Rightarrow> expr list \<Rightarrow> expr list \<Rightarrow> (int list \<times> int list) option" where
  "local_moves f targets values0 =
     (if targets = [] \<or> length targets \<noteq> length values0 then None
      else case (those (map (local_register f) targets), those (map (local_register f) values0)) of
        (Some ts, Some vs) \<Rightarrow> Some (ts, vs)
      | _ \<Rightarrow> None)"

text \<open>Some target is a later source.\<close>

fun overwritten :: "int list \<Rightarrow> int list \<Rightarrow> bool" where
  "overwritten (t # ts) (v # vs) \<longleftrightarrow> t \<in> set vs \<or> overwritten ts vs"
| "overwritten _ _ = False"

definition move_in_turn :: "gen_env \<Rightarrow> int list \<Rightarrow> int list \<Rightarrow> unit gen" where
  "move_in_turn E ts vs = g_each (\<lambda>(t, v). g_when (t \<noteq> v) (coded (codeABC E OP_MOVE t v 0))) (zip ts vs)"

definition tryEmitLocalNameAssignment :: "gen_env \<Rightarrow> expr list \<Rightarrow> expr list \<Rightarrow> bool gen" where
  "tryEmitLocalNameAssignment E targets values0 =
     g_bind (g_here (\<lambda>f. local_moves f targets values0)) (\<lambda>m. case m of
         None \<Rightarrow> g_ret False
       | Some (ts, vs) \<Rightarrow>
           if ts = vs then g_ret True
           else if length ts = 2 \<and> ts ! 0 = vs ! 1 \<and> ts ! 1 = vs ! 0 then
             g_bind currentReg (\<lambda>tempReg.
             g_seq (reserveRegsAndCheck 1)
            (g_seq (coded (codeABC E OP_MOVE tempReg (vs ! 0) 0))
            (g_seq (coded (codeABC E OP_MOVE (ts ! 0) (vs ! 1) 0))
            (g_seq (coded (codeABC E OP_MOVE (ts ! 1) tempReg 0))
            (g_seq (setFreeRegAndCheck tempReg) (g_ret True))))))
           else if overwritten ts vs then g_ret False
           else g_seq (move_in_turn E ts vs) (g_ret True))"

definition freezeRegister :: "gen_env \<Rightarrow> int \<Rightarrow> int gen" where
  "freezeRegister E reg =
     g_bind currentReg (\<lambda>stableReg.
     g_seq (reserveRegsAndCheck 1)
    (g_seq (g_when (stableReg \<noteq> reg) (coded (codeABC E OP_MOVE stableReg reg 0))) (g_ret stableReg)))"

fun index_key :: "expr \<Rightarrow> expr option" where
  "index_key (IndexExpr p t i) = Some i"
| "index_key _ = None"

definition stable_name :: "string list \<Rightarrow> function_state \<Rightarrow> string option \<Rightarrow> bool" where
  "stable_name assigned f name =
     (case name of None \<Rightarrow> False | Some x \<Rightarrow> 0 \<le> findLocal x (fs_localVars f) \<and> x \<notin> set assigned)"

definition freezeLValue :: "gen_env \<Rightarrow> bool \<Rightarrow> string list \<Rightarrow> emitters \<Rightarrow> lvalue_ref gen" where
  "freezeLValue E rhsHasCall assigned t =
     g_bind (em_lvalue t) (\<lambda>target. case target of
         LV_Indexed tableReg key \<Rightarrow>
           g_bind (g_here (\<lambda>f. stable_name assigned f (receiverTableName (em_expr t)))) (\<lambda>stableReceiver.
           g_bind (if rhsHasCall \<or> \<not> stableReceiver then freezeRegister E tableReg else g_ret tableReg) (\<lambda>tableReg'.
           g_bind (g_here (\<lambda>f. stable_name assigned f (Option.bind (index_key (em_expr t)) expr_name))) (\<lambda>stableLocalName.
           g_bind (if ISK key \<or> \<not> rhsHasCall \<and> stableLocalName then g_ret key else freezeRegister E key) (\<lambda>key'.
             g_ret (LV_Indexed tableReg' key')))))
       | _ \<Rightarrow> g_ret target)"

fun freeze_targets :: "gen_env \<Rightarrow> bool \<Rightarrow> string list \<Rightarrow> emitters list \<Rightarrow> lvalue_ref list gen" where
  "freeze_targets E rhsHasCall assigned [] = g_ret []"
| "freeze_targets E rhsHasCall assigned (t # ts) =
     g_bind (freezeLValue E rhsHasCall assigned t) (\<lambda>l.
     g_bind (freeze_targets E rhsHasCall assigned ts) (\<lambda>ls. g_ret (l # ls)))"

text \<open>A call or \<open>...\<close> whose results go to \<open>wanted\<close> registers from \<open>reg\<close> on.\<close>

definition results_into :: "call_result gen \<Rightarrow> int \<Rightarrow> int \<Rightarrow> call_result gen" where
  "results_into m reg wanted =
     g_bind m (\<lambda>info.
     g_seq (case cx_kind info of
              CK_Call \<Rightarrow> setWantedResults info wanted | CK_Vararg \<Rightarrow> patchArgsAB (cx_instructionPc info) reg (wanted + 1))
       (g_ret info))"

definition discardExpression :: "gen_env \<Rightarrow> int \<Rightarrow> emitters \<Rightarrow> unit gen" where
  "discardExpression E scratchReg v =
     g_seq (setFreeRegAndCheck scratchReg)
    (g_seq (case multi_result E v scratchReg of
              Some m \<Rightarrow> g_bind (results_into m scratchReg 0) (\<lambda>_. g_ret ())
            | None \<Rightarrow> value_into E v scratchReg)
       (setFreeRegAndCheck scratchReg))"

text \<open>The values that have a target, from number \<open>i\<close> on: how many targets have a value then, and the values that are not
  simply in the register of their number.\<close>

fun assign_values ::
  "gen_env \<Rightarrow> nat \<Rightarrow> nat \<Rightarrow> int \<Rightarrow> nat \<Rightarrow> emitters list \<Rightarrow> value_result list \<Rightarrow> (nat \<times> value_result list) gen" where
  "assign_values E nvars nexps valueBase i [] stores = g_ret (i, stores)"
| "assign_values E nvars nexps valueBase i (v # vs) stores =
     (let targetReg = valueBase + int i; wanted = int nvars - int i in
      case (if i + 1 = nexps \<and> nexps \<le> nvars then multi_result E v targetReg else None) of
        Some m \<Rightarrow>
          g_bind (results_into m targetReg wanted) (\<lambda>_.
          g_seq (setFreeRegAndCheck (targetReg + wanted)) (g_ret (nvars, stores)))
      | None \<Rightarrow>
          g_seq (setFreeRegAndCheck targetReg)
         (g_bind (single_value v) (\<lambda>val.
          g_bind (g_here (\<lambda>f. vs = [] \<and> local_register f (em_expr v) \<noteq> None)) (\<lambda>borrowsStableLocal.
          g_bind (if (1 < nvars \<or> 1 < nexps) \<and> \<not> borrowsStableLocal
                  then g_seq (materializeValue E val targetReg) (g_ret (VR_Register targetReg False AK_None)) else g_ret val) (\<lambda>st.
          g_seq (setFreeRegAndCheck (targetReg + 1))
            (assign_values E nvars nexps valueBase (i + 1) vs (stores @ [st])))))))"

definition value_for_store :: "int \<Rightarrow> nat \<Rightarrow> value_result list \<Rightarrow> nat \<Rightarrow> value_result" where
  "value_for_store valueBase assigned stores i =
     (if i < assigned then (if i < length stores then stores ! i else VR_Register (valueBase + int i) False AK_None)
      else VR_Immediate Imm_Nil)"

definition assign_general :: "gen_env \<Rightarrow> emitters list \<Rightarrow> emitters list \<Rightarrow> unit gen" where
  "assign_general E targets values0 =
     (let nvars = length targets; nexps = length values0; direct = min nvars nexps;
          rhsHasCall = list_ex (\<lambda>v. expressionHasCall (em_expr v)) values0 in
      g_bind (g_here (\<lambda>f. concat (map (\<lambda>t. if local_register f (em_expr t) = None then [] else [the (expr_name (em_expr t))]) targets)))
        (\<lambda>assigned.
      g_bind (freeze_targets E rhsHasCall assigned targets) (\<lambda>lvalues.
      g_bind currentReg (\<lambda>valueBase.
      g_bind (assign_values E nvars nexps valueBase 0 (take direct values0) []) (\<lambda>(assignedValues, stores).
      g_seq (g_each (discardExpression E (valueBase + int nvars)) (drop direct values0))
        (g_each (\<lambda>(i, l). emitStore E l (value_for_store valueBase assignedValues stores i))
          (rev (zip [0..<nvars] lvalues))))))))"

definition self_assignment :: "function_state \<Rightarrow> expr list \<Rightarrow> expr list \<Rightarrow> bool" where
  "self_assignment f targets values0 =
     (case (targets, values0) of
        ([t], [v]) \<Rightarrow> expr_name t \<noteq> None \<and> expr_name t = expr_name v \<and> local_register f t \<noteq> None
      | _ \<Rightarrow> False)"

definition emit_assign :: "gen_env \<Rightarrow> emitters list \<Rightarrow> emitters list \<Rightarrow> unit gen" where
  "emit_assign E targets values0 =
     (let ts = map em_expr targets; vs = map em_expr values0 in
      g_bind (g_here (\<lambda>f. self_assignment f ts vs)) (\<lambda>same.
        if same then g_ret ()
        else g_bind (tryEmitLocalNameAssignment E ts vs) (\<lambda>emitted.
          if emitted then g_ret () else assign_general E targets values0)))"

section \<open>Declarations\<close>

text \<open>Whether a declaration without values can leave its registers as they are.\<close>

definition skips_initialization :: "function_state \<Rightarrow> string list \<Rightarrow> bool" where
  "skips_initialization f names \<longleftrightarrow>
     names \<noteq> [] \<and> \<not> fs_forceNil f \<and>
     (code_length f = 0 \<or>
      (case fs_futureReads f of None \<Rightarrow> False | Some reads0 \<Rightarrow> list_all (\<lambda>x. x \<notin> set reads0) names))"

fun local_values :: "gen_env \<Rightarrow> int \<Rightarrow> emitters list \<Rightarrow> unit gen" where
  "local_values E reg [] = g_ret ()"
| "local_values E reg (v # vs) =
     g_seq (value_into E v reg) (g_seq (setFreeRegAndCheck (reg + 1)) (local_values E (reg + 1) vs))"

text \<open>The results of a call at \<open>callBase\<close> go down from the last one or up from the first one.\<close>

definition move_results :: "gen_env \<Rightarrow> int \<Rightarrow> int \<Rightarrow> int \<Rightarrow> unit gen" where
  "move_results E targetReg callBase wanted =
     g_when (targetReg \<noteq> callBase)
       (g_each (\<lambda>j. coded (codeABC E OP_MOVE (targetReg + j) (callBase + j) 0))
         (if callBase < targetReg then rev [0..wanted - 1] else [0..wanted - 1]))"

text \<open>The last value, when there are not more values than names; the answer tells whether all variables are set now.\<close>

definition last_local_value :: "gen_env \<Rightarrow> int \<Rightarrow> int \<Rightarrow> int \<Rightarrow> emitters \<Rightarrow> bool gen" where
  "last_local_value E base nvars nexps v =
     (let targetReg = base + (nexps - 1); wanted = nvars - (nexps - 1) in
      case em_call v of
        Some call \<Rightarrow>
          g_bind (call (-1)) (\<lambda>info.
          g_seq (setWantedResults info wanted)
         (g_seq (move_results E targetReg (cx_baseReg info) wanted)
         (g_seq (setFreeRegAndCheck (base + nvars)) (g_ret True))))
      | None \<Rightarrow>
          if is_vararg (em_expr v) then
            g_bind (emitVarargExpr E) (\<lambda>info.
            g_seq (patchArgsAB (cx_instructionPc info) targetReg (wanted + 1))
           (g_seq (setFreeRegAndCheck (base + nvars)) (g_ret True)))
          else
            g_seq (value_into E v targetReg)
           (g_seq (setFreeRegAndCheck (base + nexps)) (g_ret False)))"

definition local_initializers :: "gen_env \<Rightarrow> int \<Rightarrow> int \<Rightarrow> emitters list \<Rightarrow> bool gen" where
  "local_initializers E base nvars values0 =
     (let nexps = int (length values0) in
      if allInitializersAreNilLiterals (map em_expr values0) then
        g_seq (g_when (0 < nvars) (coded (codeABC E OP_LOADNIL base (base + nvars - 1) 0)))
       (g_seq (setFreeRegAndCheck (base + nvars)) (g_ret True))
      else
        g_seq (local_values E base (take (nat nvars) (butlast values0)))
          (if nexps \<le> nvars then last_local_value E base nvars nexps (last values0) else g_ret False))"

definition emit_local :: "gen_env \<Rightarrow> string list \<Rightarrow> emitters list \<Rightarrow> unit gen" where
  "emit_local E names values0 =
     (let nvars = int (length names); nexps = int (length values0) in
      g_bind activeLocalCount (\<lambda>base.
      g_bind currentReg (\<lambda>saved.
      g_seq (setFreeReg base)
     (g_bind (if values0 = [] then g_here (\<lambda>f. skips_initialization f names) else local_initializers E base nvars values0)
        (\<lambda>allVarsInitialized.
      g_seq (g_when (nexps < nvars \<and> \<not> allVarsInitialized)
               (if nexps = 0 then with_line 0 (coded (codeABC E OP_LOADNIL base (base + nvars - 1) 0))
                else coded (codeABC E OP_LOADNIL (base + nexps) (base + nvars - 1) 0)))
     (g_seq (setFreeReg base)
     (g_seq (g_each (\<lambda>x. coded (addLocalVar x)) names)
     (g_seq (setFreeReg saved) (adjustLocalVars nvars)))))))))"

section \<open>Return\<close>

text \<open>The first register if the values are local variables in consecutive registers.\<close>

definition directLocalReturnBase :: "function_state \<Rightarrow> expr list \<Rightarrow> int option" where
  "directLocalReturnBase f values0 =
     (case those (map (local_register f) values0) of
        None \<Rightarrow> None
      | Some regs \<Rightarrow> if regs = map (\<lambda>i. hd regs + int i) [0..<length regs] then Some (hd regs) else None)"

definition return_last :: "gen_env \<Rightarrow> int \<Rightarrow> int \<Rightarrow> emitters \<Rightarrow> unit gen" where
  "return_last E base nret v =
     (let targetReg = base + (nret - 1) in
      case em_call v of
        Some call \<Rightarrow>
          g_bind (call targetReg) (\<lambda>info.
          g_seq (setOpenMultiRet info)
            (if cx_baseReg info = targetReg then
               g_seq (g_when (nret = 1) (g_bind (instruction_at (cx_instructionPc info)) (\<lambda>inst.
                        patchToABC (cx_instructionPc info) OP_TAILCALL (GETARG_A inst) (GETARG_B inst) 0)))
                 (coded (codeABC E OP_RETURN base 0 0))
             else
               g_seq (patchArgC (cx_instructionPc info) 2)
              (g_seq (coded (codeABC E OP_MOVE targetReg (cx_baseReg info) 0))
                (coded (codeABC E OP_RETURN base (nret + 1) 0)))))
      | None \<Rightarrow>
          if is_vararg (em_expr v) then
            g_bind (emitVarargExpr E) (\<lambda>info.
            g_seq (patchArgsAB (cx_instructionPc info) targetReg 0) (coded (codeABC E OP_RETURN base 0 0)))
          else g_seq (value_into E v targetReg) (coded (codeABC E OP_RETURN base (nret + 1) 0)))"

definition return_values :: "gen_env \<Rightarrow> emitters list \<Rightarrow> unit gen" where
  "return_values E values0 =
     (let nret = int (length values0) in
      g_bind activeLocalCount (\<lambda>base.
      guarding_registers
       (g_seq (setFreeReg base)
       (g_seq (checkStack nret)
       (g_seq (local_values E base (butlast values0))
       (g_seq (setFreeReg (base + (nret - 1)))
         (return_last E base nret (last values0))))))))"

definition emit_return :: "gen_env \<Rightarrow> emitters list \<Rightarrow> unit gen" where
  "emit_return E values0 =
     (if values0 = [] then coded (codeABC E OP_RETURN 0 1 0)
      else g_bind (g_here (\<lambda>f. directLocalReturnBase f (map em_expr values0))) (\<lambda>direct. case direct of
          Some base \<Rightarrow> coded (codeABC E OP_RETURN base (int (length values0) + 1) 0)
        | None \<Rightarrow> return_values E values0))"

section \<open>Control structures\<close>

text \<open>A branch: the condition with its body; the answer is the list of the jumps that skip it.\<close>

definition emit_branch :: "gen_env \<Rightarrow> emitters \<times> statement_emitter list \<Rightarrow> int list gen" where
  "emit_branch E b = g_bind (em_cond (fst b)) (\<lambda>c. g_seq (emit_block E (snd b)) (g_ret (cr_falseList c)))"

definition escape :: "gen_env \<Rightarrow> int \<Rightarrow> int list \<Rightarrow> int list gen" where
  "escape E endLine escapes = g_bind (at_line endLine (emitJump E)) (\<lambda>pc. g_ret (pl_append escapes pc))"

fun emit_elseifs :: "gen_env \<Rightarrow> int \<Rightarrow> (emitters \<times> statement_emitter list) list \<Rightarrow> int list \<Rightarrow> int list \<Rightarrow> (int list \<times> int list) gen" where
  "emit_elseifs E endLine [] escapes flist = g_ret (escapes, flist)"
| "emit_elseifs E endLine (b # bs) escapes flist =
     g_bind (escape E endLine escapes) (\<lambda>escapes1.
     g_seq (patchAllToHere flist)
    (g_bind (emit_branch E b) (\<lambda>flist1. emit_elseifs E endLine bs escapes1 flist1)))"

definition emit_if :: "gen_env \<Rightarrow> (emitters \<times> statement_emitter list) list \<Rightarrow> statement_emitter list \<Rightarrow> int \<Rightarrow> unit gen" where
  "emit_if E branches elseBranch endLine =
     (case branches of
        [] \<Rightarrow> g_ret ()
      | b # bs \<Rightarrow>
          g_bind (emit_branch E b) (\<lambda>flist0.
          g_bind (emit_elseifs E endLine bs [] flist0) (\<lambda>(escapes, flist).
            if elseBranch \<noteq> [] then
              g_bind (escape E endLine escapes) (\<lambda>escapes1.
              g_seq (patchAllToHere flist)
             (g_seq (emit_block E elseBranch) (patchAllToHere escapes1)))
            else patchAllToHere (escapes @ flist))))"

definition emit_while :: "gen_env \<Rightarrow> emitters \<Rightarrow> statement_emitter list \<Rightarrow> unit gen" where
  "emit_while E condition body =
     g_bind getLabel (\<lambda>whileinit.
     g_bind (em_cond condition) (\<lambda>c.
     g_seq (enterBlock True)
    (g_seq (emit_block E body)
    (g_seq (with_line 0 (g_bind (emitJump E) (\<lambda>j. patchList j whileinit)))
    (g_seq (leaveBlock E) (patchAllToHere (cr_falseList c)))))))"

definition emit_call_statement :: "gen_env \<Rightarrow> emitters \<Rightarrow> unit gen" where
  "emit_call_statement E c =
     g_seq (case em_call c of
              Some call \<Rightarrow> g_bind (call (-1)) (\<lambda>info. g_seq (setWantedResults info 0) (freeReg (cx_baseReg info)))
            | None \<Rightarrow> g_bind (em_value c) (\<lambda>_. g_ret ()))
       resetToLocals"

definition emit_break :: "gen_env \<Rightarrow> unit gen" where
  "emit_break E =
     g_bind (g_here findBreakableBlock) (\<lambda>bl. case bl of
         None \<Rightarrow> g_throw ''no loop to break''
       | Some level \<Rightarrow> g_seq (closeScopeUpvalues E level) (g_bind (emitJump E) appendBreakJump))"

fun is_true_literal :: "expr \<Rightarrow> bool" where
  "is_true_literal (BoolExpr p b) = b"
| "is_true_literal _ = False"

definition forcing_nil :: "unit gen \<Rightarrow> unit gen" where
  "forcing_nil m =
     g_bind (g_here fs_forceNil) (\<lambda>saved.
     g_seq (g_change (\<lambda>f. f\<lparr>fs_forceNil := True\<rparr>))
    (g_seq m (g_change (\<lambda>f. f\<lparr>fs_forceNil := saved\<rparr>))))"

text \<open>The body of \<open>repeat\<close> is not a block of its own: the condition sees its variables.\<close>

definition emit_repeat :: "gen_env \<Rightarrow> unit gen list \<Rightarrow> emitters \<Rightarrow> unit gen" where
  "emit_repeat E body condition =
     g_bind getLabel (\<lambda>repeat_init.
     g_seq (enterBlock True)
    (g_bind activeLocalCount (\<lambda>bodyActiveVarCount.
     g_seq (forcing_nil (g_each id body))
       (if is_true_literal (em_expr condition) then g_seq (removeLocalVars E bodyActiveVarCount) (leaveBlock E)
        else
          g_bind (single (if is_nil_literal (em_expr condition) then g_ret (VR_Immediate (Imm_Boolean False)) else em_value condition)) (\<lambda>c.
          g_bind (valueToAnyReg E c) (\<lambda>condReg.
          g_seq (removeLocalVars E bodyActiveVarCount)
         (g_seq (at_line (expr_getLine (em_expr condition))
                   (g_seq (coded (codeABC E OP_TEST condReg 0 0)) (g_bind (emitJump E) (\<lambda>j. patchList j repeat_init))))
           (leaveBlock E))))))))"

definition emit_fornum :: "gen_env \<Rightarrow> string \<Rightarrow> emitters \<Rightarrow> emitters \<Rightarrow> emitters \<Rightarrow> statement_emitter list \<Rightarrow> unit gen" where
  "emit_fornum E var init limit step body =
     g_bind currentReg (\<lambda>base.
     g_seq (value_into E init base)
    (g_seq (setFreeRegAndCheck (base + 1))
    (g_seq (value_into E limit (base + 1))
    (g_seq (setFreeRegAndCheck (base + 2))
    (g_seq (value_into E step (base + 2))
    (g_seq (setFreeRegAndCheck (base + 3))
    (g_seq (enterBlock True)
    (g_seq (setFreeReg base)
    (g_seq (g_each (\<lambda>x. coded (addLocalVar x)) [''(for index)'', ''(for limit)'', ''(for step)'', var])
    (g_seq (adjustLocalVars 4)
    (g_seq (setFreeRegAndCheck (base + 4))
    (g_bind (codeAsBx E OP_FORPREP base 0) (\<lambda>prep.
     g_bind getLabel (\<lambda>bodyStart.
     g_seq (emit_block E body)
    (g_seq (g_when (body \<noteq> []) (coded (codeABC E OP_CLOSE (base + 3) 0 0)))
    (g_bind getLabel (\<lambda>here.
     g_bind (codeAsBx E OP_FORLOOP base (bodyStart - here - 1)) (\<lambda>loop.
     g_seq (fixJump prep loop) (leaveBlock E)))))))))))))))))))"

text \<open>The iterator expressions: the first three fill the registers of the loop, others are evaluated only.\<close>

fun emit_iterators :: "gen_env \<Rightarrow> int \<Rightarrow> int \<Rightarrow> emitters list \<Rightarrow> int gen" where
  "emit_iterators E base filled [] = g_ret filled"
| "emit_iterators E base filled (v # vs) =
     (if filled < 3 then
        let targetReg = base + filled; wanted = 3 - filled in
        case (if vs = [] then multi_result E v targetReg else None) of
          Some m \<Rightarrow> g_bind (results_into m targetReg wanted) (\<lambda>_. g_seq (setFreeRegAndCheck (base + 3)) (g_ret 3))
        | None \<Rightarrow>
            g_seq (value_into E v targetReg)
           (g_seq (setFreeRegAndCheck (base + (filled + 1))) (emit_iterators E base (filled + 1) vs))
      else
        g_bind (single_value v) (\<lambda>val. g_bind (valueToAnyReg E val) (\<lambda>discardReg.
        g_seq (freeReg discardReg) (emit_iterators E base filled vs))))"

definition emit_forin :: "gen_env \<Rightarrow> string list \<Rightarrow> emitters list \<Rightarrow> statement_emitter list \<Rightarrow> unit gen" where
  "emit_forin E vars iterators body =
     g_bind currentReg (\<lambda>base.
     if iterators = [] then g_throw ''CodeGenerator: for-in loop requires iterator expression''
     else
       let nvars = int (length vars) in
       g_seq (setFreeReg base)
      (g_bind (emit_iterators E base 0 iterators) (\<lambda>filled.
       g_seq (g_each (\<lambda>i. materializeValue E (VR_Immediate Imm_Nil) (base + i)) [filled..2])
      (g_seq (setFreeRegAndCheck (base + 3))
      (g_seq (enterBlock True)
      (g_seq (setFreeReg base)
      (g_seq (g_each (\<lambda>x. coded (addLocalVar x)) ([''(for generator)'', ''(for state)'', ''(for control)''] @ vars))
      (g_seq (adjustLocalVars (3 + nvars))
      (g_seq (setFreeRegAndCheck (base + (3 + nvars)))
      (g_bind (emitJump E) (\<lambda>jmpToTfor.
       g_bind getLabel (\<lambda>loopStart.
       g_seq (emit_block E body)
      (g_seq (g_when (0 < nvars) (coded (codeABC E OP_CLOSE (base + 3) 0 0)))
      (g_seq (patchToHere jmpToTfor)
      (g_seq (at_line (expr_getLine (em_expr (hd iterators))) (coded (codeABC E OP_TFORLOOP base 0 nvars)))
      (g_bind getLabel (\<lambda>here.
       g_seq (coded (codeAsBx E OP_JMP 0 (loopStart - here - 1)))
         (leaveBlock E))))))))))))))))))"

section \<open>Function statements\<close>

definition debug_name :: "string list \<Rightarrow> bool \<Rightarrow> string \<Rightarrow> string" where
  "debug_name tablePath isMethod name =
     (case tablePath of
        [] \<Rightarrow> []
      | c # cs \<Rightarrow> foldl (\<lambda>acc x. (if acc = [] then acc else acc @ ''.'') @ x) [] (c # cs) @ (if isMethod then '':'' else ''.'')) @ name"

definition setDebugName :: "addr \<Rightarrow> proto \<Rightarrow> proto" where
  "setDebugName a p = Proto ((proto_data p)\<lparr>pd_debugName := Some a\<rparr>) (sub_protos p)"

definition name_child :: "gen_env \<Rightarrow> int \<Rightarrow> string \<Rightarrow> unit gen" where
  "name_child E i name =
     g_bind (g_intern E name) (\<lambda>a.
       g_change (\<lambda>f. f\<lparr>fs_proto := Proto (fs_data f)
         ((sub_protos (fs_proto f))[nat i := map_option (setDebugName a) (sub_protos (fs_proto f) ! nat i)])\<rparr>))"

definition close_over :: "gen_env \<Rightarrow> int \<Rightarrow> int \<times> upvalue_capture list \<Rightarrow> unit gen" where
  "close_over E reg func = g_seq (coded (codeABx E OP_CLOSURE reg (fst func))) (emitClosureUpvalues E (snd func))"

definition loadNameToReg :: "gen_env \<Rightarrow> string \<Rightarrow> int gen" where
  "loadNameToReg E name =
     g_bind (resolve E name) (\<lambda>ref. case ref of
         SY_Local i \<Rightarrow> g_ret i
       | _ \<Rightarrow> g_bind allocReg (\<lambda>reg. g_seq (materializeValue E (symbolToValue ref) reg) (g_ret reg)))"

definition stringKeyToRK :: "gen_env \<Rightarrow> string \<Rightarrow> int gen" where
  "stringKeyToRK E key = g_bind (stringConstant E key) (\<lambda>k. valueToRK E (VR_Constant k))"

fun walk_path :: "gen_env \<Rightarrow> int \<Rightarrow> string list \<Rightarrow> int gen" where
  "walk_path E tableReg [] = g_ret tableReg"
| "walk_path E tableReg (x # xs) =
     g_bind allocReg (\<lambda>nextReg.
     g_bind (stringKeyToRK E x) (\<lambda>rkKey.
     g_seq (coded (codeABC E OP_GETTABLE nextReg tableReg rkKey))
    (g_seq (g_when (\<not> ISK rkKey) (freeReg rkKey)) (walk_path E nextReg xs))))"

definition store_in_table :: "gen_env \<Rightarrow> string list \<Rightarrow> string \<Rightarrow> int \<times> upvalue_capture list \<Rightarrow> unit gen" where
  "store_in_table E tablePath name func =
     g_bind (loadNameToReg E (hd tablePath)) (\<lambda>reg0.
     g_bind (walk_path E reg0 (tl tablePath)) (\<lambda>tableReg.
     g_bind allocReg (\<lambda>reg.
     g_seq (close_over E reg func)
    (g_bind (stringKeyToRK E name) (\<lambda>rkKey.
     g_seq (coded (codeABC E OP_SETTABLE tableReg rkKey reg)) (g_when (\<not> ISK rkKey) (freeReg rkKey)))))))"

definition store_by_name :: "gen_env \<Rightarrow> string \<Rightarrow> int \<times> upvalue_capture list \<Rightarrow> unit gen" where
  "store_by_name E name func =
     g_bind (resolve E name) (\<lambda>ref.
     g_bind allocReg (\<lambda>reg.
     g_seq (close_over E reg func) (emitStore E (symbolToLValue ref) (VR_Register reg False AK_None))))"

definition emit_function_statement ::
  "gen_env \<Rightarrow> int \<Rightarrow> string \<Rightarrow> string list \<Rightarrow> bool \<Rightarrow> string list \<Rightarrow> bool \<Rightarrow> stmt list \<Rightarrow> bool \<Rightarrow> int \<Rightarrow> statement_emitter list \<Rightarrow> unit gen" where
  "emit_function_statement E line name tablePath isMethod params vararg body isLocal endLine stmts =
     g_bind (if isLocal then addLocalVar name else g_ret (-1)) (\<lambda>localReg.
     g_bind (compileFunction E params vararg (list_ex stmtUsesDirectVararg body) stmts line (last_line line endLine body)) (\<lambda>func.
     g_seq (name_child E (fst func) (debug_name tablePath isMethod name))
       (if isLocal then g_seq (close_over E localReg func) (adjustLocalVars 1)
        else
          g_seq (guarding_registers (if tablePath = [] then store_by_name E name func else store_in_table E tablePath name func))
            (checkStack 0))))"

section \<open>The visitors\<close>

text \<open>An expression that is only a value.\<close>

definition plain :: "gen_env \<Rightarrow> expr \<Rightarrow> value_result gen \<Rightarrow> emitters" where
  "plain E e visit =
     (let line = expr_getLine e; v = at_line line visit in
      \<lparr>em_expr = e, em_value = v, em_cond = at_line line (cond_fallback E v), em_condTrue = at_line line (condTrue_fallback E v),
       em_call = None, em_operands = [v], em_lvalue = no_lvalue, em_object = None\<rparr>)"

definition binary_emitters :: "gen_env \<Rightarrow> location \<Rightarrow> bin_op \<Rightarrow> emitters \<Rightarrow> emitters \<Rightarrow> emitters" where
  "binary_emitters E p op l r =
     (let b = plain E (BinaryExpr p op (em_expr l) (em_expr r)) (emitValueBinary E op l r) in
      b\<lparr>em_cond := at_line (fst p) (cond_binary E op l r (em_value b)),
        em_condTrue := at_line (fst p) (condTrue_binary E op l r (em_value b)),
        em_operands := (if op = B_Concat then em_operands l @ em_operands r else em_operands b)\<rparr>)"

definition unary_emitters :: "gen_env \<Rightarrow> location \<Rightarrow> un_op \<Rightarrow> emitters \<Rightarrow> emitters" where
  "unary_emitters E p op e =
     (let u = plain E (UnaryExpr p op (em_expr e)) (emitValueUnary E op e) in
      u\<lparr>em_cond := at_line (fst p) (cond_unary E op e (em_value u)),
        em_condTrue := at_line (fst p) (condTrue_unary E op e (em_value u))\<rparr>)"

definition paren_value :: "gen_env \<Rightarrow> emitters \<Rightarrow> value_result gen" where
  "paren_value E e =
     g_bind (single_value e) (\<lambda>inner. case inner of
         VR_Immediate i \<Rightarrow> g_ret inner
       | VR_Constant k \<Rightarrow> g_ret inner
       | _ \<Rightarrow> g_bind (valueToAnyReg E inner) (\<lambda>reg. g_ret (VR_Register reg True AK_None)))"

definition paren_emitters :: "gen_env \<Rightarrow> location \<Rightarrow> emitters \<Rightarrow> emitters" where
  "paren_emitters E p e =
     (plain E (ParenExpr p (em_expr e)) (paren_value E e))
       \<lparr>em_cond := at_line (fst p) (em_cond e), em_condTrue := at_line (fst p) (em_condTrue e)\<rparr>"

definition call_value :: "call_result gen \<Rightarrow> value_result gen" where
  "call_value m = g_bind m (\<lambda>info.
     g_ret (VR_MultiRet (case cx_kind info of CK_Call \<Rightarrow> AK_Call | CK_Vararg \<Rightarrow> AK_Vararg) (cx_baseReg info) (cx_instructionPc info)))"

definition call_emitters :: "gen_env \<Rightarrow> location \<Rightarrow> emitters \<Rightarrow> emitters list \<Rightarrow> bool \<Rightarrow> emitters" where
  "call_emitters E p f args m =
     (let call = emitCallExpr E (fst p) f args m in
      (plain E (CallExpr p (em_expr f) (map em_expr args) m) (call_value (call (-1))))\<lparr>em_call := Some call\<rparr>)"

definition statement_at :: "int \<Rightarrow> unit gen \<Rightarrow> unit gen" where
  "statement_at line visit = at_line line (g_seq visit resetToLocals)"

text \<open>The statements of a body with the names they read.\<close>

abbreviation with_reads :: "stmt list \<Rightarrow> unit gen list \<Rightarrow> statement_emitter list" where
  "with_reads body gens \<equiv> zip (map collectStmtReads body) gens"

primrec emit_expr :: "gen_env \<Rightarrow> expr \<Rightarrow> emitters" and emit_stmt :: "gen_env \<Rightarrow> stmt \<Rightarrow> unit gen" where
  "emit_expr E (NilExpr p) = plain E (NilExpr p) (g_ret (VR_Immediate Imm_Nil))"
| "emit_expr E (BoolExpr p b) = plain E (BoolExpr p b) (g_ret (VR_Immediate (Imm_Boolean b)))"
| "emit_expr E (NumberExpr p x) = plain E (NumberExpr p x) (g_ret (VR_Immediate (Imm_Number x)))"
| "emit_expr E (StringExpr p x) = plain E (StringExpr p x) (g_bind (stringConstant E x) (\<lambda>k. g_ret (VR_Constant k)))"
| "emit_expr E (VarargExpr p) = plain E (VarargExpr p) (call_value (emitVarargExpr E))"
| "emit_expr E (NameExpr p x) =
     (plain E (NameExpr p x) (g_bind (resolve E x) (\<lambda>ref. g_ret (symbolToValue ref))))
       \<lparr>em_lvalue := g_bind (resolve E x) (\<lambda>ref. g_ret (symbolToLValue ref))\<rparr>"
| "emit_expr E (BinaryExpr p op l r) = binary_emitters E p op (emit_expr E l) (emit_expr E r)"
| "emit_expr E (UnaryExpr p op e) = unary_emitters E p op (emit_expr E e)"
| "emit_expr E (TableExpr p fs) =
     plain E (TableExpr p fs) (emitValueTable E (map (map_prod (map_option (emit_expr E)) (emit_expr E)) fs))"
| "emit_expr E (CallExpr p f args m) = call_emitters E p (emit_expr E f) (map (emit_expr E) args) m"
| "emit_expr E (IndexExpr p t i) =
     (plain E (IndexExpr p t i) (emitValueIndex E (emit_expr E t) (emit_expr E i)))
       \<lparr>em_lvalue := lvalue_index E (emit_expr E t) (emit_expr E i)\<rparr>"
| "emit_expr E (MemberExpr p t x) =
     (plain E (MemberExpr p t x) (emitValueMember E (emit_expr E t) x))
       \<lparr>em_lvalue := lvalue_member E (emit_expr E t) x, em_object := Some (em_value (emit_expr E t), x)\<rparr>"
| "emit_expr E (FunctionExpr p params vararg body endLine) =
     plain E (FunctionExpr p params vararg body endLine)
       (function_value E (fst p) params vararg body endLine (with_reads body (map (emit_stmt E) body)))"
| "emit_expr E (ParenExpr p e) = paren_emitters E p (emit_expr E e)"
| "emit_stmt E (EmptyStmt p) = statement_at (fst p) (g_ret ())"
| "emit_stmt E (AssignStmt p ts vs) = statement_at (fst p) (emit_assign E (map (emit_expr E) ts) (map (emit_expr E) vs))"
| "emit_stmt E (LocalStmt p names vs) = statement_at (fst p) (emit_local E names (map (emit_expr E) vs))"
| "emit_stmt E (CallStmt p c) = statement_at (fst p) (emit_call_statement E (emit_expr E c))"
| "emit_stmt E (IfStmt p bs els endLine) =
     statement_at (fst p) (emit_if E
       (map2 (\<lambda>(_, body) (c, gens). (c, with_reads body gens)) bs (map (map_prod (emit_expr E) (map (emit_stmt E))) bs))
       (with_reads els (map (emit_stmt E) els)) endLine)"
| "emit_stmt E (WhileStmt p c body endLine) =
     statement_at (fst p) (emit_while E (emit_expr E c) (with_reads body (map (emit_stmt E) body)))"
| "emit_stmt E (RepeatStmt p body c endLine) = statement_at (fst p) (emit_repeat E (map (emit_stmt E) body) (emit_expr E c))"
| "emit_stmt E (ForNumStmt p var i m st body endLine) =
     statement_at (fst p) (emit_fornum E var (emit_expr E i) (emit_expr E m) (emit_expr E st) (with_reads body (map (emit_stmt E) body)))"
| "emit_stmt E (ForInStmt p vars its body endLine) =
     statement_at (fst p) (emit_forin E vars (map (emit_expr E) its) (with_reads body (map (emit_stmt E) body)))"
| "emit_stmt E (FunctionStmt p name tablePath isMethod params vararg body isLocal endLine) =
     statement_at (fst p) (emit_function_statement E (fst p) name tablePath isMethod params vararg body isLocal endLine
       (with_reads body (map (emit_stmt E) body)))"
| "emit_stmt E (ReturnStmt p vs) = statement_at (fst p) (emit_return E (map (emit_expr E) vs))"
| "emit_stmt E (BreakStmt p) = statement_at (fst p) (emit_break E)"
| "emit_stmt E (DoStmt p body endLine) = statement_at (fst p) (emit_block E (with_reads body (map (emit_stmt E) body)))"

section \<open>Chunks\<close>

definition generateUnchecked :: "gen_env \<Rightarrow> stmt list \<Rightarrow> string \<Rightarrow> proto gen" where
  "generateUnchecked E chunk sourceName =
     g_seq (g_charge E (\<lambda>now. cb_consumeFunction now 1))
    (g_seq (g_change (\<lambda>_. new_function_state empty_proto True))
    (g_seq (setSource E sourceName)
    (g_seq (g_bind (g_intern E ''<chunk>'') (\<lambda>a. g_change (update_data (\<lambda>d. d\<lparr>pd_debugName := Some a\<rparr>))))
    (g_seq (emit_block E (with_reads chunk (map (emit_stmt E) chunk)))
    (g_bind (if chunk = [] then g_here fs_line else g_ret (stmt_getEndLine (last chunk))) (\<lambda>finalLine.
     g_seq (at_line finalLine (coded (codeABC E OP_RETURN 0 1 0)))
    (g_seq (attachDebugMetadata E)
       (g_here fs_proto))))))))"

text \<open>A generator made for a chunk and run once: the prototype and the pool, or the error.\<close>

definition tryGenerate ::
  "gen_env \<Rightarrow> compilation_policy \<Rightarrow> exec_policy option \<Rightarrow> string list \<Rightarrow> stmt list \<Rightarrow> string \<Rightarrow> gen_error + proto \<times> string list" where
  "tryGenerate E policy execution pool chunk sourceName =
     (case generateUnchecked E chunk sourceName
        \<lparr>gn_current = new_function_state empty_proto True, gn_parents = [], gn_pool = pool,
         gn_budget = new_compilation_budget policy execution, gn_polls = 0\<rparr> of
        Inl e \<Rightarrow> Inl e
      | Inr (p, s) \<Rightarrow> Inr (p, gn_pool s))"

end
