(* ===== verification/GenJumps.thy ===== *)
theory GenJumps
  imports GenState
begin

text \<open>
  Facts about the code under construction: the setters of the operands rebuild the word that the encoder would have made.
\<close>

section \<open>Operands\<close>

lemma low_bits: "bit (word_of_int x :: u32) n \<Longrightarrow> 0 \<le> x \<Longrightarrow> x < 2 ^ k \<Longrightarrow> n < k"
  by (metis bit_take_bit_iff bit_word_of_int_iff take_bit_int_eq_self)

lemma low_bits_opcode: "bit (word_of_nat (op_index oc) :: u32) n \<Longrightarrow> n < 6"
  using low_bits [of "int (op_index oc)" n 6] op_index_less [of oc] by simp

lemmas low_field_bits = low_bits [where k = 8, simplified] low_bits [where k = 9, simplified] low_bits [where k = 18, simplified] low_bits_opcode

lemma SETARG_CREATE_AsBx:
  assumes "0 \<le> a" "a \<le> MAXARG_A" "- MAXARG_sBx \<le> s" "s \<le> MAXARG_sBx + 1" "- MAXARG_sBx \<le> t" "t \<le> MAXARG_sBx + 1"
  shows "SETARG_sBx (CREATE_AsBx oc a s) t = CREATE_AsBx oc a t"
proof -
  have "set_field 18 14 (CREATE_ABx oc a (s + MAXARG_sBx)) (word_of_int (t + MAXARG_sBx)) = CREATE_ABx oc a (t + MAXARG_sBx)"
    using assms
    by (intro bit_word_eqI)
      (auto simp: CREATE_ABx_def set_field_def layout_simps field_bit_simps bit_mask_iff simp del: bit_of_nat_iff of_int_add dest: low_field_bits)
  then show ?thesis by (simp add: SETARG_set_field CREATE_AsBx_def)
qed

lemma SETARG_CREATE_ABx:
  assumes "0 \<le> a" "a \<le> MAXARG_A" "0 \<le> s" "s \<le> MAXARG_Bx" "0 \<le> t" "t \<le> MAXARG_A"
  shows "SETARG_A (CREATE_ABx oc a s) t = CREATE_ABx oc t s"
  using assms unfolding SETARG_set_field
  by (intro bit_word_eqI)
     (auto simp: CREATE_ABx_def set_field_def layout_simps field_bit_simps bit_mask_iff simp del: bit_of_nat_iff of_int_add dest: low_field_bits)

lemma SETARG_CREATE_ABC:
  assumes "0 \<le> a" "a \<le> MAXARG_A" "0 \<le> b" "b \<le> MAXARG_B" "0 \<le> c" "c \<le> MAXARG_C"
  shows "0 \<le> t \<Longrightarrow> t \<le> MAXARG_A \<Longrightarrow> SETARG_A (CREATE_ABC oc a b c) t = CREATE_ABC oc t b c"
   and "0 \<le> t \<Longrightarrow> t \<le> MAXARG_B \<Longrightarrow> SETARG_B (CREATE_ABC oc a b c) t = CREATE_ABC oc a t c"
   and "0 \<le> t \<Longrightarrow> t \<le> MAXARG_C \<Longrightarrow> SETARG_C (CREATE_ABC oc a b c) t = CREATE_ABC oc a b t"
  using assms unfolding SETARG_set_field
  by (safe intro!: bit_word_eqI,
     auto simp: CREATE_ABC_def set_field_def layout_simps field_bit_simps bit_mask_iff simp del: bit_of_nat_iff of_int_add dest: low_field_bits)

end
