(* ===== verification/GenNames.thy ===== *)
theory GenNames
  imports GenState
begin

text \<open>
  Resolution of names (\<^verbatim>\<open>ScopeManager::resolveUpvalue\<close>, \<^verbatim>\<open>NameBinder::resolve\<close>): captures are shared by name, and following
  the captures from function to function ends at the declaration that the scoping rules ask for.
\<close>

section \<open>What a name means\<close>

text \<open>The innermost enclosing function with a declaration of the name whose scope is open, and its register there. The functions
  are numbered from the inside out.\<close>

fun innermost :: "string \<Rightarrow> function_state list \<Rightarrow> (nat \<times> int) option" where
  "innermost name [] = None"
| "innermost name (p # ps) =
     (if 0 \<le> findLocal name (fs_localVars p) then Some (0, findLocal name (fs_localVars p))
      else map_option (map_prod Suc id) (innermost name ps))"

text \<open>Where an upvalue comes from: a capture names a register of the function around or a capture of that function.\<close>

fun source_of :: "int \<Rightarrow> function_state \<Rightarrow> function_state list \<Rightarrow> (nat \<times> int) option" where
  "source_of i f [] = None"
| "source_of i f (p # ps) =
     (let u = fs_upvalues f ! nat i in
      if uc_inStack u then Some (0, uc_index u) else map_option (map_prod Suc id) (source_of (uc_index u) p ps))"

definition capture_ok :: "function_state \<Rightarrow> upvalue_capture \<Rightarrow> bool" where
  "capture_ok p u \<longleftrightarrow>
     (if uc_inStack u then 0 \<le> uc_index u \<and> findLocal (uc_name u) (fs_localVars p) = uc_index u
      else findLocal (uc_name u) (fs_localVars p) < 0 \<and> 0 \<le> uc_index u \<and> uc_index u < int (length (fs_upvalues p)) \<and>
        uc_name (fs_upvalues p ! nat (uc_index u)) = uc_name u)"

text \<open>The captures of a function and of those around it are at most one for each name and the right one.\<close>

fun captures_ok :: "function_state \<Rightarrow> function_state list \<Rightarrow> bool" where
  "captures_ok f [] \<longleftrightarrow> fs_upvalues f = []"
| "captures_ok f (p # ps) \<longleftrightarrow>
     distinct (map uc_name (fs_upvalues f)) \<and> list_all (capture_ok p) (fs_upvalues f) \<and> captures_ok p ps"

section \<open>Locals\<close>

lemma find_rev_last:
  "find P (rev xs) = Some x \<Longrightarrow> \<exists>before after. xs = before @ x # after \<and> P x \<and> (\<forall>y \<in> set after. \<not> P y)"
proof (induction xs rule: rev_induct)
  case (snoc y xs)
  then show ?case
  proof (cases "P y")
    case False
    then obtain before after where "xs = before @ x # after" "P x" "\<forall>z \<in> set after. \<not> P z" using snoc by auto
    then show ?thesis using False by (intro exI [of _ before] exI [of _ "after @ [y]"]) auto
  next
    case True
    then show ?thesis using snoc.prems by (intro exI [of _ xs] exI [of _ "[]"]) simp
  qed
qed simp

text \<open>The answer is the register of the last open declaration of the name.\<close>

lemma findLocal_last:
  assumes "0 \<le> findLocal name vars"
  shows "\<exists>before v after. vars = before @ v # after \<and> lc_name v = name \<and> lc_endpc v = -1 \<and> lc_reg v = findLocal name vars \<and>
     (\<forall>w \<in> set after. \<not> (lc_name w = name \<and> lc_endpc w = -1))"
proof -
  obtain v where v: "find (\<lambda>v. lc_name v = name \<and> lc_endpc v = -1) (rev vars) = Some v"
    using assms by (auto simp: findLocal_def split: option.splits)
  obtain before after where "vars = before @ v # after" "lc_name v = name \<and> lc_endpc v = -1"
    "\<forall>y \<in> set after. \<not> (lc_name y = name \<and> lc_endpc y = -1)" using find_rev_last [OF v] by blast
  then show ?thesis using v by (intro exI [of _ before] exI [of _ v] exI [of _ after]) (auto simp: findLocal_def)
qed

lemma change_first_cases:
  "(\<exists>before x after. xs = before @ x # after \<and> p x \<and> change_first p u xs = before @ u x # after) \<or>
   ((\<forall>x \<in> set xs. \<not> p x) \<and> change_first p u xs = xs)"
proof (induction xs)
  case (Cons y xs)
  show ?case
  proof (cases "p y")
    case True
    then show ?thesis by (intro disjI1 exI [of _ "[]"]) simp
  next
    case False
    from Cons show ?thesis
    proof
      assume "\<exists>before x after. xs = before @ x # after \<and> p x \<and> change_first p u xs = before @ u x # after"
      then obtain before x after where "xs = before @ x # after" "p x" "change_first p u xs = before @ u x # after" by blast
      then show ?thesis using False by (intro disjI1 exI [of _ "y # before"]) simp
    qed (use False in simp)
  qed
qed simp

lemma find_change_first:
  "(\<And>x. q (u x) = q x) \<Longrightarrow> (\<And>x. g (u x) = g x) \<Longrightarrow>
   map_option g (find q (change_first p u xs)) = map_option g (find q xs)"
  by (induction xs) auto

lemma findLocal_markCaptured [simp]: "findLocal name (markCaptured reg vars) = findLocal name vars"
proof -
  let ?found = "\<lambda>vs. map_option lc_reg (find (\<lambda>v. lc_name v = name \<and> lc_endpc v = -1) (rev vs))"
  have found: "findLocal name vs = (case ?found vs of Some r \<Rightarrow> r | None \<Rightarrow> -1)" for vs
    by (simp add: findLocal_def split: option.splits)
  have "?found (markCaptured reg vars) = ?found vars"
    unfolding markCaptured_def change_last_def rev_rev_ident by (rule find_change_first) simp_all
  then show ?thesis unfolding found by simp
qed

lemma markCaptured_captures:
  assumes "0 \<le> findLocal name vars"
  shows "hasCapturedLocalsFrom (findLocal name vars) (markCaptured (findLocal name vars) vars)"
proof -
  let ?r = "findLocal name vars"
  obtain v where v: "v \<in> set vars" "lc_reg v = ?r" "lc_endpc v = -1" using findLocal_last [OF assms] by (metis in_set_conv_decomp)
  let ?p = "\<lambda>v. lc_reg v = ?r \<and> lc_endpc v = -1" and ?u = "\<lambda>v. v\<lparr>lc_captured := True\<rparr>"
  have "\<not> (\<forall>x \<in> set (rev vars). \<not> ?p x)" using v by auto
  then obtain before x after where "rev vars = before @ x # after" "?p x" "change_first ?p ?u (rev vars) = before @ ?u x # after"
    using change_first_cases [of "rev vars" ?p ?u] by meson
  then show ?thesis unfolding hasCapturedLocalsFrom_def markCaptured_def change_last_def list_ex_iff
    by (intro bexI [of _ "?u x"]) auto
qed

section \<open>Captures\<close>

lemma find_upvalue_Some:
  assumes "0 \<le> find_upvalue name ups"
  shows "find_upvalue name ups < int (length ups)" "uc_name (ups ! nat (find_upvalue name ups)) = name"
proof -
  let ?n = "length (takeWhile (\<lambda>u. uc_name u \<noteq> name) ups)"
  have n: "?n < length ups" "find_upvalue name ups = int ?n" using assms by (auto simp: find_upvalue_def Let_def split: if_splits)
  then show "find_upvalue name ups < int (length ups)" by simp
  have "\<not> (\<lambda>u. uc_name u \<noteq> name) (ups ! ?n)" using n(1) nth_length_takeWhile [of "\<lambda>u. uc_name u \<noteq> name" ups] by auto
  then show "uc_name (ups ! nat (find_upvalue name ups)) = name" using n by simp
qed

lemma find_upvalue_None: "find_upvalue name ups < 0 \<longleftrightarrow> name \<notin> uc_name ` set ups"
proof -
  have "length (takeWhile (\<lambda>u. uc_name u \<noteq> name) ups) < length ups \<longleftrightarrow> name \<in> uc_name ` set ups"
    by (induction ups) auto
  then show ?thesis by (auto simp: find_upvalue_def Let_def)
qed

text \<open>One capture more, or the one that is there: the index names it, and the ones before stay where they were.\<close>

lemma add_upvalue_spec:
  assumes "add_upvalue name inStack index ups = (i, ups')"
  shows "0 \<le> i" "i < int (length ups')" "uc_name (ups' ! nat i) = name" "\<exists>more. ups' = ups @ more"
    "distinct (map uc_name ups) \<Longrightarrow> distinct (map uc_name ups')"
    "set ups' \<subseteq> insert \<lparr>uc_name = name, uc_inStack = inStack, uc_index = index\<rparr> (set ups)"
  using assms find_upvalue_Some [of name ups] find_upvalue_None [of name ups]
  by (auto simp: add_upvalue_def nth_append split: if_splits)

text \<open>A function whose captures only grew, and whose locals may have been marked.\<close>

definition grown :: "function_state \<Rightarrow> function_state \<Rightarrow> bool" where
  "grown p p' \<longleftrightarrow> (\<exists>more. fs_upvalues p' = fs_upvalues p @ more) \<and>
     (\<forall>name. findLocal name (fs_localVars p') = findLocal name (fs_localVars p)) \<and>
     p' = p\<lparr>fs_upvalues := fs_upvalues p', fs_localVars := fs_localVars p'\<rparr>"

lemma grown_refl [simp]: "grown p p"
  by (simp add: grown_def)

lemma grown_captures [simp]: "grown p (p\<lparr>fs_upvalues := fs_upvalues p @ ups\<rparr>)"
  by (simp add: grown_def)

lemma capture_ok_grown: "capture_ok p u \<Longrightarrow> grown p p' \<Longrightarrow> capture_ok p' u"
  by (auto simp: capture_ok_def grown_def nth_append nat_less_iff)

text \<open>A good capture leads to the innermost declaration of its name.\<close>

lemma source_of_capture:
  "captures_ok f ps \<Longrightarrow> 0 \<le> i \<Longrightarrow> i < int (length (fs_upvalues f)) \<Longrightarrow>
   source_of i f ps = innermost (uc_name (fs_upvalues f ! nat i)) ps \<and> source_of i f ps \<noteq> None"
proof (induction ps arbitrary: f i)
  case (Cons p ps)
  let ?u = "fs_upvalues f ! nat i"
  have u: "capture_ok p ?u" using Cons.prems by (auto simp: list_all_iff nat_less_iff)
  show ?case
  proof (cases "uc_inStack ?u")
    case True
    then show ?thesis using u by (auto simp: capture_ok_def Let_def)
  next
    case False
    then have "source_of (uc_index ?u) p ps = innermost (uc_name (fs_upvalues p ! nat (uc_index ?u))) ps \<and>
        source_of (uc_index ?u) p ps \<noteq> None"
      using u Cons.prems by (intro Cons.IH) (auto simp: capture_ok_def)
    then show ?thesis using False u
      by (cases "innermost (uc_name ?u) ps") (auto simp: capture_ok_def Let_def)
  qed
qed simp

lemma innermost_grown: "list_all2 grown ps ps' \<Longrightarrow> innermost name ps' = innermost name ps"
  by (induction rule: list_all2_induct) (auto simp: grown_def)

lemma grown_list_refl [simp]: "list_all2 grown ps ps"
  by (simp add: list_all2_refl)

lemma resolve_upvalue_spec:
  "resolve_upvalue name f ps = (i, f', ps') \<Longrightarrow> captures_ok f ps \<Longrightarrow>
   captures_ok f' ps' \<and> grown f f' \<and> list_all2 grown ps ps' \<and>
   (if innermost name ps = None then i = -1 \<and> f' = f
    else 0 \<le> i \<and> i < int (length (fs_upvalues f')) \<and> uc_name (fs_upvalues f' ! nat i) = name)"
proof (induction ps arbitrary: f i f' ps')
  case (Cons p ps)
  have good: "distinct (map uc_name (fs_upvalues f))" "list_all (capture_ok p) (fs_upvalues f)" "captures_ok p ps"
    using Cons.prems(2) by auto
  show ?case
  proof (cases "0 \<le> findLocal name (fs_localVars p)")
    case True
    let ?r = "findLocal name (fs_localVars p)"
    obtain ups where add: "add_upvalue name True ?r (fs_upvalues f) = (i, ups)"
      and f': "f' = f\<lparr>fs_upvalues := ups\<rparr>" and ps': "ps' = p\<lparr>fs_localVars := markCaptured ?r (fs_localVars p)\<rparr> # ps"
      using Cons.prems(1) True by (auto simp: Let_def split: prod.splits)
    let ?p = "p\<lparr>fs_localVars := markCaptured ?r (fs_localVars p)\<rparr>"
    note spec = add_upvalue_spec [OF add]
    have g: "grown p ?p" by (simp add: grown_def)
    have "captures_ok ?p ps" using good(3) by (cases ps) simp_all
    moreover have "list_all (capture_ok ?p) ups"
      using spec(6) good(2) capture_ok_grown [OF _ g] True by (fastforce simp: list_all_iff capture_ok_def)
    ultimately show ?thesis using spec good g True f' ps' by auto
  next
    case False
    obtain j p' qs where rec: "resolve_upvalue name p ps = (j, p', qs)" by (cases "resolve_upvalue name p ps")
    note IH = Cons.IH [OF rec good(3)]
    then have g: "grown p p'" by blast
    have old: "list_all (capture_ok p') (fs_upvalues f)"
      using good(2) capture_ok_grown [OF _ g] by (auto simp: list_all_iff)
    show ?thesis
    proof (cases "innermost name ps = None")
      case True
      then have "j = -1" using IH by simp
      then have "i = -1" "f' = f" "ps' = p' # qs" using Cons.prems(1) False rec by (simp_all add: Let_def)
      then show ?thesis using IH good old True False by auto
    next
      case inner: False
      then have j: "0 \<le> j" "j < int (length (fs_upvalues p'))" "uc_name (fs_upvalues p' ! nat j) = name" using IH by simp_all
      obtain ups where add: "add_upvalue name False j (fs_upvalues f) = (i, ups)"
        and f': "f' = f\<lparr>fs_upvalues := ups\<rparr>" and ps': "ps' = p' # qs"
        using Cons.prems(1) False rec j(1) by (auto simp: Let_def split: prod.splits)
      note spec = add_upvalue_spec [OF add]
      have "capture_ok p' \<lparr>uc_name = name, uc_inStack = False, uc_index = j\<rparr>"
        using j False g by (auto simp: capture_ok_def grown_def)
      then have "list_all (capture_ok p') ups" using spec(6) old by (auto simp: list_all_iff)
      then show ?thesis using spec good IH inner False f' ps' by auto
    qed
  qed
qed simp

section \<open>Constants for names\<close>

lemma value_eq_string: "value_eq v (VString a) \<longleftrightarrow> v = VString a"
  by (cases v) (auto simp: value_eq_def)

lemma position_Some: "position x ys = Some i \<Longrightarrow> i < length ys \<and> ys ! i = x"
  by (induction ys arbitrary: i) (auto split: if_splits)

lemma intern_pool_answer: "intern_pool x pool = (a, pool') \<Longrightarrow> a < length pool' \<and> pool' ! a = x"
  using position_Some by (auto simp: intern_pool_def split: option.splits)

lemma captures_ok_upvalues: "fs_upvalues f' = fs_upvalues f \<Longrightarrow> captures_ok f' ps = captures_ok f ps"
  by (cases ps) simp_all

lemma stringConstant_answer:
  assumes "stringConstant E name s = Inr (k, s')" "constants_ok (fs_data (gn_current s))"
  shows "(\<exists>a. pd_constants (fs_data (gn_current s')) ! nat k = VString a \<and> gn_pool s' ! a = name) \<and>
    (\<forall>ps. captures_ok (gn_current s') ps = captures_ok (gn_current s) ps) \<and> gn_parents s' = gn_parents s"
  using assms
  by (auto simp: stringConstant_def emit_constant_def g_charge_def g_intern_def g_bind_def g_seq_def g_here_def g_change_def g_ret_def
      update_data_def fs_data_def value_eq_string
      split: sum.splits option.splits prod.splits if_splits dest!: intern_pool_answer addConstant_cases
      intro!: captures_ok_upvalues)

text \<open>C38. A name is resolved by the scoping rules. An open declaration in the function itself is the last one of that name.
  Otherwise the answer is an upvalue exactly if some enclosing function has an open declaration, and following the captures
  from the answered index leads to the innermost of them; the captures of all functions stay right for the names resolved
  before. Otherwise it is the global variable whose name is the constant.\<close>

theorem resolve_correct:
  assumes "captures_ok (gn_current s) (gn_parents s)" "constants_ok (fs_data (gn_current s))" "resolve E name s = Inr (ref, s')"
  shows "captures_ok (gn_current s') (gn_parents s') \<and>
    (case ref of
       SY_Local r \<Rightarrow> \<exists>before v after. fs_localVars (gn_current s) = before @ v # after \<and> lc_name v = name \<and> lc_endpc v = -1 \<and>
         lc_reg v = r \<and> (\<forall>w \<in> set after. \<not> (lc_name w = name \<and> lc_endpc w = -1))
     | SY_Upvalue i \<Rightarrow> findLocal name (fs_localVars (gn_current s)) < 0 \<and> innermost name (gn_parents s) \<noteq> None \<and>
         source_of i (gn_current s') (gn_parents s') = innermost name (gn_parents s)
     | SY_Global k \<Rightarrow> findLocal name (fs_localVars (gn_current s)) < 0 \<and> innermost name (gn_parents s) = None \<and>
         (\<exists>a. pd_constants (fs_data (gn_current s')) ! nat k = VString a \<and> gn_pool s' ! a = name))"
proof -
  let ?f = "gn_current s"
  consider (here) "0 \<le> findLocal name (fs_localVars ?f)"
    | (outside) "findLocal name (fs_localVars ?f) < 0" by linarith
  then show ?thesis
  proof cases
    case here
    then have "ref = SY_Local (findLocal name (fs_localVars ?f))" "s' = s"
      using assms(3) by (auto simp: resolve_def findLocalVar_def g_bind_def g_here_def g_ret_def)
    then show ?thesis using assms(1) findLocal_last [OF here] by simp
  next
    case outside
    obtain i f' ps' where r: "resolve_upvalue name ?f (gn_parents s) = (i, f', ps')" by (cases "resolve_upvalue name ?f (gn_parents s)")
    note spec = resolve_upvalue_spec [OF r assms(1)]
    let ?s = "s\<lparr>gn_current := f', gn_parents := ps'\<rparr>"
    have run: "resolve E name s = (if 0 \<le> i then Inr (SY_Upvalue i, ?s) else g_bind (stringConstant E name) (\<lambda>k. g_ret (SY_Global k)) ?s)"
      using outside r by (simp add: resolve_def findLocalVar_def resolveUpvalue_def g_bind_def g_here_def g_ret_def)
    show ?thesis
    proof (cases "innermost name (gn_parents s) = None")
      case False
      then have i: "0 \<le> i" "i < int (length (fs_upvalues f'))" "uc_name (fs_upvalues f' ! nat i) = name" using spec by simp_all
      then have "source_of i f' ps' = innermost name (gn_parents s)"
        using source_of_capture [of f' ps' i] spec innermost_grown by metis
      moreover have "ref = SY_Upvalue i" "s' = ?s" using assms(3) run i(1) by simp_all
      ultimately show ?thesis using spec outside False by simp
    next
      case True
      then have "i = -1" "f' = ?f" using spec by simp_all
      then have g: "g_bind (stringConstant E name) (\<lambda>k. g_ret (SY_Global k)) ?s = Inr (ref, s')" using assms(3) run by simp
      obtain k where ref: "ref = SY_Global k" and k: "stringConstant E name ?s = Inr (k, s')"
        using g by (auto simp: g_bind_def g_ret_def split: sum.splits)
      show ?thesis using spec outside True stringConstant_answer [OF k] assms(2) \<open>f' = ?f\<close> ref by simp
    qed
  qed
qed

end
