(* ===== verification/GenMoves.thy ===== *)
theory GenMoves
  imports GenStmt GenJumps GenNames VMLoops
begin

text \<open>
  Assignments between local variables: the instructions that \<open>tryEmitLocalNameAssignment\<close> writes, executed by the handler of
  \<open>MOVE\<close>, have the effect of a simultaneous assignment, except for the exchange of two variables.
\<close>

section \<open>Executing moves\<close>

primrec run_moves :: "op_context \<Rightarrow> instruction list \<Rightarrow> unit exec" where
  "run_moves cx [] = ret ()"
| "run_moves cx (i # is) = bind (handleMove cx i) (\<lambda>_. run_moves cx is)"

abbreviation move :: "int \<Rightarrow> int \<Rightarrow> instruction" where
  "move t v \<equiv> CREATE_ABC OP_MOVE t v 0"

text \<open>Registers that both an instruction and the frame can hold.\<close>

definition reachable_reg :: "nat \<Rightarrow> int \<Rightarrow> bool" where
  "reachable_reg n r \<longleftrightarrow> 0 \<le> r \<and> r \<le> MAXARG_A \<and> nat r < n"

lemma run_move:
  assumes "regs_ok m n" "reachable_reg n t" "reachable_reg n v"
  shows "run_moves cx (move t v # is) m = run_moves cx is (set_reg (nat t) (reg m (nat v)) m)"
proof -
  have "GETARG_A (move t v) = t" "GETARG_B (move t v) = v"
    using assms(2,3) by (simp_all add: reachable_reg_def decode_CREATE_ABC layout_numerals)
  then show ?thesis using assms
    by (simp add: handleMove_def bind_def read_reg_ok write_reg_ok proceed_def ret_def reachable_reg_def)
qed

definition moves :: "int list \<Rightarrow> int list \<Rightarrow> instruction list" where
  "moves ts vs = map (\<lambda>(t, v). move t v) (filter (\<lambda>(t, v). t \<noteq> v) (zip ts vs))"

lemma moves_Cons: "moves (t # ts) (v # vs) = (if t = v then moves ts vs else move t v # moves ts vs)"
  by (simp add: moves_def)

text \<open>In turn is as good as at once when no target is a later source.\<close>

lemma run_moves_at_once:
  assumes "length ts = length vs" "regs_ok m n" "list_all (reachable_reg n) (ts @ vs)" "distinct ts" "\<not> overwritten ts vs"
  shows "\<exists>m'. run_moves cx (moves ts vs) m = (Done (), m') \<and> regs_ok m' n \<and>
    (\<forall>i < length ts. reg m' (nat (ts ! i)) = reg m (nat (vs ! i))) \<and>
    (\<forall>r < n. int r \<notin> set ts \<longrightarrow> reg m' r = reg m r)"
  using assms
proof (induction ts vs arbitrary: m rule: list_induct2)
  case Nil
  then show ?case by (simp add: moves_def ret_def)
next
  case (Cons t ts v vs)
  let ?m = "if t = v then m else set_reg (nat t) (reg m (nat v)) m"
  have t: "reachable_reg n t" and v: "reachable_reg n v" and ok: "list_all (reachable_reg n) (ts @ vs)" using Cons.prems by auto
  have fresh: "t \<notin> set ts" "t \<notin> set vs" using Cons.prems by auto
  have m: "regs_ok ?m n" using Cons.prems by simp
  have run: "run_moves cx (moves (t # ts) (v # vs)) m = run_moves cx (moves ts vs) ?m"
    using run_move [OF Cons.prems(1) t v] by (simp add: moves_Cons)
  obtain m' where m': "run_moves cx (moves ts vs) ?m = (Done (), m')" "regs_ok m' n"
    "\<forall>i < length ts. reg m' (nat (ts ! i)) = reg ?m (nat (vs ! i))" "\<forall>r < n. int r \<notin> set ts \<longrightarrow> reg m' r = reg ?m r"
    using Cons.IH [OF m ok] Cons.prems by auto
  have step: "reg ?m r = (if r = nat t then reg m (nat v) else reg m r)" if "r < n" for r
    using that t reg_set_reg [OF Cons.prems(1), of "nat t" r] by (auto simp: reachable_reg_def)
  have old: "reg ?m (nat (vs ! i)) = reg m (nat (vs ! i))" if "i < length vs" for i
  proof -
    have "vs ! i \<in> set vs" using that by simp
    then have "reachable_reg n (vs ! i)" "vs ! i \<noteq> t" using ok fresh by (auto simp: list_all_iff)
    then show ?thesis using step t by (auto simp: reachable_reg_def)
  qed
  have "reg m' (nat t) = reg m (nat v)" using m'(4) fresh(1) step t by (auto simp: reachable_reg_def)
  then have "\<forall>i < length (t # ts). reg m' (nat ((t # ts) ! i)) = reg m (nat ((v # vs) ! i))"
    using m'(3) old Cons.hyps by (auto simp: less_Suc_eq_0_disj)
  moreover have "\<forall>r < n. int r \<notin> set (t # ts) \<longrightarrow> reg m' r = reg m r" using m'(4) step t by (auto simp: reachable_reg_def)
  ultimately show ?case using run m'(1,2) by auto
qed

section \<open>Writing them\<close>

abbreviation code_so_far :: "gen_state \<Rightarrow> instruction list" where
  "code_so_far s \<equiv> pd_code (fs_data (gn_current s))"

text \<open>Without pending jumps an instruction is only appended.\<close>

lemma coded_ABC:
  assumes "coded (codeABC E oc a b c) s = Inr ((), s')" "fs_jpc (gn_current s) = NO_JUMP"
  shows "code_so_far s' = code_so_far s @ [CREATE_ABC oc a b c]" "fs_jpc (gn_current s') = NO_JUMP"
    "fs_freereg (gn_current s') = fs_freereg (gn_current s)" "fs_localVars (gn_current s') = fs_localVars (gn_current s)"
  using assms
  by (auto simp: coded_def codeABC_def codeRaw_def flushPendingJumps_def patchList_def list_turns_def instructionCount_def
      emit_def g_bind_def g_seq_def g_here_def g_change_def g_ret_def g_charge_def update_data_def fs_data_def addInstruction_def
      addLineInfo_def split: sum.splits option.splits prod.splits)

lemma move_in_turn_code:
  assumes "move_in_turn E ts vs s = Inr ((), s')" "fs_jpc (gn_current s) = NO_JUMP" "length ts = length vs"
  shows "code_so_far s' = code_so_far s @ moves ts vs"
  using assms(3,1,2)
proof (induction ts vs arbitrary: s rule: list_induct2)
  case (Cons t ts v vs)
  show ?case
  proof (cases "t = v")
    case True
    then show ?thesis using Cons by (simp add: move_in_turn_def g_when_def g_seq_def g_bind_def g_ret_def moves_Cons)
  next
    case False
    then obtain s1 where s1: "coded (codeABC E OP_MOVE t v 0) s = Inr ((), s1)" "move_in_turn E ts vs s1 = Inr ((), s')"
      using Cons.prems(1) by (auto simp: move_in_turn_def g_when_def g_seq_def g_bind_def split: sum.splits)
    then show ?thesis using Cons.IH [OF s1(2)] coded_ABC [OF s1(1) Cons.prems(2)] False by (simp add: moves_Cons)
  qed
qed (simp add: move_in_turn_def moves_def g_ret_def)

lemma find_open_local:
  "list_all (\<lambda>v. lc_endpc v = -1 \<longrightarrow> 0 \<le> lc_reg v \<and> lc_reg v < k) vars \<Longrightarrow> 0 \<le> findLocal x vars \<Longrightarrow> findLocal x vars < k"
  using findLocal_last [of x vars] by (fastforce simp: list_all_iff)

lemma those_local_registers:
  "those (map (local_register f) es) = Some rs \<Longrightarrow>
   list_all (\<lambda>v. lc_endpc v = -1 \<longrightarrow> 0 \<le> lc_reg v \<and> lc_reg v < k) (fs_localVars f) \<Longrightarrow>
   length rs = length es \<and> list_all (\<lambda>r. 0 \<le> r \<and> r < k) rs"
proof (induction es arbitrary: rs)
  case (Cons e es)
  then obtain r rs' where r: "local_register f e = Some r" "those (map (local_register f) es) = Some rs'" "rs = r # rs'"
    by (auto split: option.splits)
  then have "0 \<le> r \<and> r < k" using find_open_local [OF Cons.prems(2)]
    by (auto simp: local_register_def Let_def split: option.splits if_splits)
  then show ?case using Cons.IH [OF r(2) Cons.prems(2)] r(3) by simp
qed simp

text \<open>The state in which the code is executed: the open locals have registers below the free one, and the frame has room.\<close>

definition room_for_locals :: "gen_state \<Rightarrow> vm \<Rightarrow> nat \<Rightarrow> bool" where
  "room_for_locals s m n \<longleftrightarrow>
     list_all (\<lambda>v. lc_endpc v = -1 \<longrightarrow> 0 \<le> lc_reg v \<and> lc_reg v < fs_freereg (gn_current s)) (fs_localVars (gn_current s)) \<and>
     0 \<le> fs_freereg (gn_current s) \<and> fs_freereg (gn_current s) \<le> MAXARG_A \<and> fs_jpc (gn_current s) = NO_JUMP \<and>
     regs_ok m n \<and> nat (fs_freereg (gn_current s)) < n"

lemma local_moves_ranges:
  assumes "local_moves (gn_current s) targets values0 = Some (ts, vs)" "room_for_locals s m n"
  shows "length ts = length targets" "length vs = length targets" "list_all (reachable_reg n) (ts @ vs)"
    "\<And>r. r \<in> set (ts @ vs) \<Longrightarrow> 0 \<le> r \<and> r < fs_freereg (gn_current s)" "reachable_reg n (fs_freereg (gn_current s))"
proof -
  let ?k = "fs_freereg (gn_current s)"
  have those: "those (map (local_register (gn_current s)) targets) = Some ts" "those (map (local_register (gn_current s)) values0) = Some vs"
    and len: "length targets = length values0"
    using assms(1) by (auto simp: local_moves_def split: if_splits option.splits)
  have range: "list_all (\<lambda>r. 0 \<le> r \<and> r < ?k) ts" "list_all (\<lambda>r. 0 \<le> r \<and> r < ?k) vs" "length ts = length targets" "length vs = length targets"
    using those_local_registers [OF those(1), of ?k] those_local_registers [OF those(2), of ?k] len assms(2)
    by (auto simp: room_for_locals_def)
  then show "length ts = length targets" "length vs = length targets"
    "\<And>r. r \<in> set (ts @ vs) \<Longrightarrow> 0 \<le> r \<and> r < ?k" by (auto simp: list_all_iff)
  have reach: "reachable_reg n r" if "0 \<le> r" "r \<le> ?k" for r
    using that assms(2) by (auto simp: reachable_reg_def room_for_locals_def)
  then show "list_all (reachable_reg n) (ts @ vs)" using range(1,2) by (fastforce simp: list_all_iff)
  show "reachable_reg n ?k" using reach assms(2) by (simp add: room_for_locals_def)
qed

definition is_swap :: "int list \<Rightarrow> int list \<Rightarrow> bool" where
  "is_swap ts vs \<longleftrightarrow> length ts = 2 \<and> ts ! 0 = vs ! 1 \<and> ts ! 1 = vs ! 0"


lemma seq_coded:
  "g_seq (coded m) k s = Inr r \<Longrightarrow> \<exists>s1. coded m s = Inr ((), s1) \<and> k s1 = Inr r"
  by (auto simp: g_seq_def g_bind_def split: sum.splits)

text \<open>C40. The exchange of two local variables, \<open>a, b = b, a\<close>, does nothing: the code saves the first value, which is
  the second target, copies the first target to itself and writes the saved value back to where it came from. Every register
  of a local variable holds what it held before.\<close>

theorem exchange_does_nothing:
  assumes "tryEmitLocalNameAssignment E targets values0 s = Inr (True, s')"
    and "local_moves (gn_current s) targets values0 = Some ([a, b], [b, a])" "a \<noteq> b" "room_for_locals s m n"
  shows "\<exists>code m'. code_so_far s' = code_so_far s @ code \<and> run_moves cx code m = (Done (), m') \<and>
    (\<forall>r < nat (fs_freereg (gn_current s)). reg m' r = reg m r)"
proof -
  let ?k = "fs_freereg (gn_current s)"
  let ?s0 = "s\<lparr>gn_current := fit_stack (?k + 1) ((gn_current s)\<lparr>fs_freereg := ?k + 1\<rparr>)\<rparr>"
  note range = local_moves_ranges [OF assms(2,4)]
  have m: "regs_ok m n" "nat ?k < n" "fs_jpc (gn_current s) = NO_JUMP" using assms(4) by (simp_all add: room_for_locals_def)
  have "g_seq (coded (codeABC E OP_MOVE ?k b 0)) (g_seq (coded (codeABC E OP_MOVE a a 0))
      (g_seq (coded (codeABC E OP_MOVE b ?k 0)) (g_seq (setFreeRegAndCheck ?k) (g_ret True)))) ?s0 = Inr (True, s')"
    using assms(1,2,3)
    by (simp add: tryEmitLocalNameAssignment_def g_bind_def g_here_def currentReg_def reserveRegsAndCheck_def checkStack_def
        g_seq_def g_change_def)
  then obtain s1 s2 s3 where steps: "coded (codeABC E OP_MOVE ?k b 0) ?s0 = Inr ((), s1)" "coded (codeABC E OP_MOVE a a 0) s1 = Inr ((), s2)"
    "coded (codeABC E OP_MOVE b ?k 0) s2 = Inr ((), s3)" "g_seq (setFreeRegAndCheck ?k) (g_ret True) s3 = Inr (True, s')"
    by (blast dest: seq_coded)
  have s0: "fs_jpc (gn_current ?s0) = NO_JUMP" "code_so_far ?s0 = code_so_far s"
    using m(3) by (simp_all add: fit_stack_def update_data_def fs_data_def)
  note c1 = coded_ABC [OF steps(1) s0(1)] note c2 = coded_ABC [OF steps(2) c1(2)] note c3 = coded_ABC [OF steps(3) c2(2)]
  have "code_so_far s' = code_so_far s3"
    using steps(4) by (auto simp: setFreeRegAndCheck_def setFreeReg_def checkStack_def g_seq_def g_bind_def g_change_def g_ret_def
        fit_stack_def update_data_def fs_data_def)
  then have code: "code_so_far s' = code_so_far s @ [move ?k b, move a a, move b ?k]"
    unfolding c3(1) c2(1) c1(1) s0(2) by simp
  have reach: "reachable_reg n a" "reachable_reg n b" "reachable_reg n ?k" and k: "0 \<le> a" "a < ?k" "0 \<le> b" "b < ?k"
    using range(3,4,5) by auto
  let ?m1 = "set_reg (nat ?k) (reg m (nat b)) m"
  let ?m2 = "set_reg (nat a) (reg ?m1 (nat a)) ?m1"
  let ?m3 = "set_reg (nat b) (reg ?m2 (nat ?k)) ?m2"
  have "run_moves cx [move ?k b, move a a, move b ?k] m = (Done (), ?m3)"
    using m(1) by (simp add: run_move [OF _ reach(3,2)] run_move [OF _ reach(1,1)] run_move [OF _ reach(2,3)] ret_def del: run_moves.simps(2))
  moreover have "\<forall>r < nat ?k. reg ?m3 r = reg m r"
    using k m(1,2) by (auto simp: reg_set_reg)
  ultimately show ?thesis using code by blast
qed

end
