(* ===== verification/GenRuns.thy ===== *)
theory GenRuns
  imports GenStmt GenJumps GenNames GenMoves
begin

text \<open>
  Runs of the code generator on small chunks. The definitions are unfolded only once they are applied to a state.
\<close>

named_theorems gen_run

lemmas gen_monad [gen_run] = g_ret_def g_bind_def g_seq_def [THEN fun_cong] g_fail_def g_here_def g_change_def
  g_each.simps [THEN fun_cong] g_when_def [THEN fun_cong]

lemmas gen_writes [gen_run] = fs_data_def update_data_def code_length_def instructionCount_def [THEN fun_cong]
  emit_def [THEN fun_cong] instruction_at_def [THEN fun_cong] replaceInstruction_def [THEN fun_cong]
  emit_constant_def [THEN fun_cong] numberConstant_def [THEN fun_cong] boolConstant_def [THEN fun_cong]
  nilConstant_def [THEN fun_cong] stringConstant_def [THEN fun_cong] addSubProto_def [THEN fun_cong] setSource_def [THEN fun_cong]
  addLocalDebug_def [THEN fun_cong] at_line_def [THEN fun_cong] with_line_def [THEN fun_cong]
  addInstruction_def addLineInfo_def getInstruction_def setInstruction_def addLocVar_def addUpvalueName_def Let_def
  g_intern_def intern_pool_def addConstant_def emplace_constant_def value_eq_def is_constant_kind_def

lemmas gen_registers [gen_run] = fit_stack_def currentReg_def [THEN fun_cong] allocReg_def [THEN fun_cong] freeReg_def [THEN fun_cong]
  checkStack_def [THEN fun_cong] setFreeReg_def [THEN fun_cong] setFreeRegAndCheck_def [THEN fun_cong]
  reserveRegsAndCheck_def [THEN fun_cong] ensureRegAtLeast_def [THEN fun_cong] resetToLocals_def [THEN fun_cong]
  guarding_registers_def [THEN fun_cong]

lemmas gen_jumps [gen_run] = jump_target_def getJump_def [THEN fun_cong] fixJump_def [THEN fun_cong]
  list_turns_def [THEN fun_cong] patchAll_def [THEN fun_cong] getLabel_def [THEN fun_cong]
  flushPendingJumps_def [THEN fun_cong] concatJumpList_def [THEN fun_cong] emitJump_def [THEN fun_cong]
  patchToHere_def [THEN fun_cong] patchAllToHere_def [THEN fun_cong] codeRaw_def [THEN fun_cong] codeABC_def codeABx_def codeAsBx_def
  coded_def [THEN fun_cong] patch_with_def [THEN fun_cong] patchArgA_def patchArgB_def patchArgC_def patchArgsAB_def patchArgsBC_def
  patchToABC_def

lemma patch_list_step [gen_run]:
  "0 < n \<Longrightarrow> patch_list n jumps dest s =
     (if jumps = NO_JUMP then Inr ((), s)
      else g_bind (getJump jumps) (\<lambda>nxt. g_seq (fixJump jumps dest) (patch_list (n - 1) nxt dest)) s)"
  by (cases n) (simp_all add: g_ret_def)

lemma last_jump_step [gen_run]:
  "0 < n \<Longrightarrow> last_jump n pc s = g_bind (getJump pc) (\<lambda>nxt. if nxt = NO_JUMP then g_ret pc else last_jump (n - 1) nxt) s"
  by (cases n) (simp_all cong: if_cong)

lemma patchList_run [gen_run]:
  "patchList NO_JUMP dest s = Inr ((), s)"
  "patchList (-1) dest s = Inr ((), s)"
  "jumps \<noteq> NO_JUMP \<Longrightarrow> patchList jumps dest s = g_bind list_turns (\<lambda>n. patch_list n jumps dest) s"
  by (simp_all add: patchList_def list_turns_def instructionCount_def g_bind_def g_here_def g_ret_def NO_JUMP_def)

lemma funpow_step [gen_run]: "0 < n \<Longrightarrow> (f ^^ n) x = (f ^^ (n - 1)) (f x)"
  by (cases n) (simp_all add: funpow_swap1)

declare patch_list.simps [simp del] last_jump.simps [simp del]

lemmas gen_scopes [gen_run] = findLocal_def change_last_def markCaptured_def hasCapturedLocalsFrom_def closeLocals_def
  addLocalVar_def [THEN fun_cong] adjustLocalVars_def [THEN fun_cong] emitClose_def last_is_return_def
  closeScopeUpvalues_def [THEN fun_cong] removeLocalVars_def [THEN fun_cong] activeLocalCount_def [THEN fun_cong]
  findLocalVar_def [THEN fun_cong] enterBlock_def [THEN fun_cong] leaveBlock_def [THEN fun_cong] findBreakableBlock_def
  appendBreakJump_def [THEN fun_cong] find_upvalue_def add_upvalue_def resolveUpvalue_def resolve_def [THEN fun_cong]

lemmas gen_values [gen_run] = pl_append_def symbolToValue_def symbolToLValue_def constantTruthiness_def immediateNumber_def
  ownedRegister_def unless_nan_def foldArithmetic_def materialize_immediate_def materialize_call_def [THEN fun_cong]
  materializeValue_def valueToAnyReg_def rk_or_reg_def valueToRK_def forceSingleValue_def single_def [THEN fun_cong]
  value_into_def [THEN fun_cong] free_both_def comparison_code_def emitComparisonJump_def cond_of_value_def [THEN fun_cong]
  cond_fallback_def [THEN fun_cong] condTrue_fallback_def [THEN fun_cong] cond_binary_def condTrue_binary_def
  cond_unary_def condTrue_unary_def materializeCondResult_def [THEN fun_cong] condition_value_def [THEN fun_cong]
  emit_comparison_def boolean_jumps_def short_circuit_def [THEN fun_cong] emit_logical_def concat_many_def [THEN fun_cong]
  concat_two_def [THEN fun_cong] emit_concat_def emit_arith_def arith_code_def emitValueBinary_def folded_not_def
  unary_in_register_def [THEN fun_cong] emitValueUnary_def string_key_def [THEN fun_cong] emitValueIndex_def [THEN fun_cong]
  emitValueMember_def [THEN fun_cong] emitVarargExpr_def [THEN fun_cong] setOpenMultiRet_def setWantedResults_def multi_result_def
  emitSetList_def emit_hash_field_def [THEN fun_cong] emit_item_def emit_field_def flush_items_def emitValueTable_def [THEN fun_cong]
  moveRegRange_def emit_self_def emit_callee_def [THEN fun_cong] emit_arg_def call_base_def emitCallExpr_def [THEN fun_cong]
  lvalue_index_def [THEN fun_cong] lvalue_member_def [THEN fun_cong] no_lvalue_def emitStore_def comparison_op_def

lemmas gen_statements [gen_run] = emit_block_def [THEN fun_cong] VARARG_flags_def new_function_state_def in_child_def
  attachDebugMetadata_def [THEN fun_cong] add_parameters_def [THEN fun_cong] add_upvalue_names_def [THEN fun_cong]
  function_body_def [THEN fun_cong] compileFunction_def emitClosureUpvalues_def last_line_def function_value_def [THEN fun_cong]
  local_register_def local_moves_def move_in_turn_def tryEmitLocalNameAssignment_def [THEN fun_cong] freezeRegister_def [THEN fun_cong]
  stable_name_def freezeLValue_def [THEN fun_cong] results_into_def [THEN fun_cong] discardExpression_def [THEN fun_cong]
  value_for_store_def assign_general_def self_assignment_def emit_assign_def skips_initialization_def move_results_def
  last_local_value_def local_initializers_def emit_local_def directLocalReturnBase_def return_last_def return_values_def
  emit_return_def emit_branch_def [THEN fun_cong] escape_def [THEN fun_cong] emit_if_def emit_while_def [THEN fun_cong]
  emit_call_statement_def [THEN fun_cong] emit_break_def [THEN fun_cong] forcing_nil_def [THEN fun_cong] emit_repeat_def [THEN fun_cong]
  emit_fornum_def [THEN fun_cong] emit_forin_def [THEN fun_cong] debug_name_def setDebugName_def name_child_def [THEN fun_cong]
  close_over_def [THEN fun_cong] loadNameToReg_def [THEN fun_cong] stringKeyToRK_def [THEN fun_cong] store_in_table_def [THEN fun_cong]
  store_by_name_def [THEN fun_cong] emit_function_statement_def [THEN fun_cong] plain_def binary_emitters_def unary_emitters_def
  paren_value_def [THEN fun_cong] paren_emitters_def call_value_def [THEN fun_cong] call_emitters_def statement_at_def
  generateUnchecked_def [THEN fun_cong] tryGenerate_def allInitializersAreNilLiterals_def expr_getLine_def stmt_getLine_def
  stmt_getEndLine_def setVararg_def empty_proto_def statements_in_turn.simps [THEN fun_cong]

lemma const_number [gen_run]: "is_constant_kind (VNumber x)" "is_constant_kind (VString a)" "is_constant_kind (VBoolean b)" "is_constant_kind VNil"
  by (simp_all add: is_constant_kind_def isNumber_def isString_def isBoolean_def isNil_def)

lemmas kind_run [gen_run] = isString_def isBoolean_def align_def sval_def RKASK_def ISK_def

definition plain_gen :: gen_env where
  "plain_gen = \<lparr>ge_clock = (\<lambda>_. 0), ge_pow = (\<lambda>x y. x), ge_resources = default_resource_policy\<rparr>"

definition generated :: "stmt list \<Rightarrow> instruction list option" where
  "generated c = (case tryGenerate plain_gen default_compilation_policy None [] c ''t'' of
     Inl e \<Rightarrow> None | Inr (p, pool) \<Rightarrow> Some (pd_code (proto_data p)))"

lemmas charge_run [gen_run] = g_charge_def cb_consumeInstruction_def cb_consumeConstant_def cb_consumeFunction_def
  cb_consumeStringBytes_def cb_consume_def cb_pollDeadline_def cb_consumeNativeWork_def default_compilation_policy_def DefaultMaxBytes_def
  new_compilation_budget_def

lemma plain_run [gen_run]: "ge_clock plain_gen n = 0" "rp_maxStringBytes (ge_resources plain_gen) = 67108864"
  by (simp_all add: plain_gen_def default_resource_policy_def DefaultMaxBytes_def)



lemmas code_run [gen_run] = SETARG_CREATE_AsBx SETARG_CREATE_ABx SETARG_CREATE_ABC decode_CREATE_AsBx decode_CREATE_ABx decode_CREATE_ABC
  layout_numerals NO_JUMP_def

abbreviation "num1 \<equiv> NumberExpr (1,1) (F_Fin False 1 0)"
abbreviation "num2 \<equiv> NumberExpr (1,1) (F_Fin False 1 1)"
abbreviation "nam x \<equiv> NameExpr (1,1) x"


abbreviation "call0 f \<equiv> CallExpr (1,1) (nam f) [] False"
abbreviation "loc x e \<equiv> LocalStmt (1,1) [x] [e]"

text \<open>\<open>local a = 1, f()\<close>: an initializer beyond the names is not compiled at all, so \<open>f\<close> is not called.\<close>

theorem extra_initializer_dropped:
  "generated [LocalStmt (1,1) [''a''] [num1, call0 ''f'']] = Some [CREATE_ABx OP_LOADK 0 0, CREATE_ABC OP_RETURN 0 1 0]"
  by (simp add: generated_def gen_run)


text \<open>\<open>local f = g; local y = (f)(1); return f\<close>: the call uses the register of \<open>f\<close> as its base, and its result replaces
  \<open>f\<close>.\<close>

theorem call_overwrites_local:
  "generated [loc ''f'' (nam ''g''), loc ''y'' (CallExpr (1,1) (ParenExpr (1,1) (nam ''f'')) [num1] False), ReturnStmt (1,1) [nam ''f'']] =
   Some [CREATE_ABx OP_GETGLOBAL 0 0, CREATE_ABx OP_LOADK 1 1, CREATE_ABC OP_CALL 0 2 2, CREATE_ABC OP_MOVE 1 0 0, CREATE_ABC OP_RETURN 0 2 0,
     CREATE_ABC OP_RETURN 0 1 0]"
  by (simp add: generated_def gen_run)

text \<open>\<open>while true do local x; y = x; x = 1 end\<close> at the start of a chunk: no instruction sets \<open>x\<close> to nil, because the code is
  empty when it is declared; the back jump leads to the first instruction with the 1 of the turn before in the register.\<close>

theorem loop_local_not_reset:
  "generated [WhileStmt (1,1) (BoolExpr (1,1) True) [LocalStmt (1,1) [''x''] [],
     AssignStmt (1,1) [nam ''y''] [nam ''x''], AssignStmt (1,1) [nam ''x''] [num1]] 1] =
   Some [CREATE_ABx OP_SETGLOBAL 0 0, CREATE_ABx OP_LOADK 0 1, CREATE_AsBx OP_JMP 0 (-3), CREATE_ABC OP_RETURN 0 1 0]"
  by (simp add: generated_def gen_run)

text \<open>\<open>local y = 1; local x; function x.f() end\<close>: the table of a function name is not counted among the names that are read
  later, so \<open>x\<close> is not set to nil although the third instruction indexes its register.\<close>

theorem table_path_not_read:
  "generated [loc ''y'' num1, LocalStmt (1,1) [''x''] [], FunctionStmt (1,1) ''f'' [''x''] False [] False [] False 1] =
   Some [CREATE_ABx OP_LOADK 0 0, CREATE_ABx OP_CLOSURE 2 0, CREATE_ABC OP_SETTABLE 1 257 2, CREATE_ABC OP_RETURN 0 1 0]"
  by (simp add: generated_def gen_run)


text \<open>\<open>while c do local x = c; g = function() return x end; if d then return end end\<close>: the block of the loop ends without
  \<open>CLOSE\<close>, because the last instruction before its end is the \<open>RETURN\<close> of the inner block. The back jump reaches the next
  assignment to the register of \<open>x\<close> with the upvalue of the closure still open on it.\<close>

theorem close_skipped:
  "generated [WhileStmt (1,1) (nam ''c'') [loc ''x'' (nam ''c''), AssignStmt (1,1) [nam ''g''] [FunctionExpr (1,1) [] False [ReturnStmt (1,1) [nam ''x'']] 1],
     IfStmt (1,1) [(nam ''d'', [ReturnStmt (1,1) []])] [] 1] 1] =
   Some [CREATE_ABx OP_GETGLOBAL 0 0, CREATE_ABC OP_TEST 0 0 0, CREATE_AsBx OP_JMP 0 9, CREATE_ABx OP_GETGLOBAL 0 0,
     CREATE_ABx OP_CLOSURE 1 0, CREATE_ABC OP_MOVE 0 0 0, CREATE_ABx OP_SETGLOBAL 1 1, CREATE_ABx OP_GETGLOBAL 1 2,
     CREATE_ABC OP_TEST 1 0 0, CREATE_AsBx OP_JMP 0 1, CREATE_ABC OP_RETURN 0 1 0, CREATE_AsBx OP_JMP 0 (-12),
     CREATE_ABC OP_RETURN 0 1 0]"
  by (simp add: generated_def gen_run)

text \<open>\<open>local a = 1; local b = 2; a, b = b\<close>: the variable without a value is set to nil before the register of \<open>b\<close> is read
  for \<open>a\<close>, so both end as nil.\<close>

theorem missing_value_overwrites:
  "generated [loc ''a'' num1, loc ''b'' num2, AssignStmt (1,1) [nam ''a'', nam ''b''] [nam ''b'']] =
   Some [CREATE_ABx OP_LOADK 0 0, CREATE_ABx OP_LOADK 1 1, CREATE_ABC OP_LOADNIL 1 1 0, CREATE_ABC OP_MOVE 0 1 0, CREATE_ABC OP_RETURN 0 1 0]"
  by (simp add: generated_def gen_run)

section \<open>A name two functions out\<close>

text \<open>A function in a function in a chunk with \<open>local x\<close>.\<close>

definition within_chunk :: gen_state where
  "within_chunk =
     \<lparr>gn_current = new_function_state empty_proto False,
      gn_parents = [new_function_state empty_proto False,
        (new_function_state empty_proto True)\<lparr>fs_localVars := [\<lparr>lc_name = ''x'', lc_reg = 0, lc_startpc = 0, lc_endpc = -1, lc_captured = False\<rparr>],
           fs_activeVarCount := 1, fs_freereg := 1\<rparr>],
      gn_pool = [], gn_budget = new_compilation_budget default_compilation_policy None, gn_polls = 0\<rparr>"

theorem resolve_correct_witness:
  "\<exists>s'. resolve plain_gen ''x'' within_chunk = Inr (SY_Upvalue 0, s') \<and> source_of 0 (gn_current s') (gn_parents s') = Some (1, 0)"
proof -
  have good: "captures_ok (gn_current within_chunk) (gn_parents within_chunk)" "constants_ok (fs_data (gn_current within_chunk))"
    by (simp_all add: within_chunk_def new_function_state_def constants_ok_def fs_data_def setVararg_def empty_proto_def)
  have inner: "innermost ''x'' (gn_parents within_chunk) = Some (1, 0)"
    by (simp add: within_chunk_def new_function_state_def findLocal_def)
  obtain s' where "resolve plain_gen ''x'' within_chunk = Inr (SY_Upvalue 0, s')"
    by (simp add: within_chunk_def gen_run)
  with resolve_correct [OF good this] inner show ?thesis by simp
qed

section \<open>Assignments between three locals\<close>

definition local_at :: "string \<Rightarrow> int \<Rightarrow> local_var" where
  "local_at x r = \<lparr>lc_name = x, lc_reg = r, lc_startpc = 0, lc_endpc = -1, lc_captured = False\<rparr>"

definition three_locals :: gen_state where
  "three_locals =
     \<lparr>gn_current = (new_function_state empty_proto True)\<lparr>fs_localVars := [local_at ''a'' 0, local_at ''b'' 1, local_at ''c'' 2],
        fs_activeVarCount := 3, fs_freereg := 3\<rparr>,
      gn_parents = [], gn_pool = [], gn_budget = new_compilation_budget default_compilation_policy None, gn_polls = 0\<rparr>"

abbreviation "named xs \<equiv> map (\<lambda>x. NameExpr (1,1) x) xs"

lemma room: "room_for_locals three_locals count_down 4"
  by (simp add: room_for_locals_def three_locals_def local_at_def regs_ok_def frame_base_def layout_numerals new_function_state_def
      count_down_def run_vm_def NO_JUMP_def)

lemma count_down_registers: "reg count_down 0 = int_value 5" "reg count_down (Suc 0) = int_value 1" "reg count_down 2 = int_value (-2)"
  by (simp_all add: reg_def frame_base_def count_down_def run_vm_def)


text \<open>\<open>a, b = b, a\<close> with 5 and 1.\<close>

theorem exchange_does_nothing_witness:
  "\<exists>s' m'. tryEmitLocalNameAssignment plain_gen (named [''a'', ''b'']) (named [''b'', ''a'']) three_locals = Inr (True, s') \<and>
    run_moves count_cx (code_so_far s') count_down = (Done (), m') \<and> reg m' 0 = int_value 5 \<and> reg m' 1 = int_value 1"
proof -
  have regs: "local_moves (gn_current three_locals) (named [''a'', ''b'']) (named [''b'', ''a'']) = Some ([0, 1], [1, 0])"
    by (simp add: three_locals_def local_at_def local_moves_def local_register_def findLocal_def)
  obtain s' where s': "tryEmitLocalNameAssignment plain_gen (named [''a'', ''b'']) (named [''b'', ''a'']) three_locals = Inr (True, s')"
    by (simp add: three_locals_def local_at_def local_moves_def gen_run new_function_state_def empty_proto_def)
  have "code_so_far three_locals = []" "nat (fs_freereg (gn_current three_locals)) = 3"
    by (simp_all add: three_locals_def new_function_state_def fs_data_def setVararg_def empty_proto_def)
  then obtain m' where "run_moves count_cx (code_so_far s') count_down = (Done (), m')" "\<forall>r < 3. reg m' r = reg count_down r"
    using exchange_does_nothing [OF s' regs _ room, of count_cx] by auto
  then show ?thesis using s' by (auto simp: count_down_registers)
qed

end
