(* ===== verification/GenFrame.thy ===== *)
theory GenFrame
  imports GenStmt GenJumps
begin

text \<open>
  An invariant of the code generator and a calculus for it. The open jumps of a block form a chain without repetition, and no
  write touches them but those of their own list; each instruction has a line; variables are declared in the order of the code;
  the prototypes of the functions inside are complete. \<open>ok\<close> says that a part of the generator keeps the invariant and
  never runs into the bound of a list, given the instructions it may change; its rules follow the structure of the code.
\<close>

section \<open>Chains of open jumps\<close>

primrec chain :: "instruction list \<Rightarrow> int \<Rightarrow> int list \<Rightarrow> bool" where
  "chain code l [] \<longleftrightarrow> l = NO_JUMP"
| "chain code l (pc # pcs) \<longleftrightarrow>
     l = pc \<and> 0 \<le> pc \<and> nat pc < length code \<and> chain code (jump_target pc (code ! nat pc)) pcs"

lemma chain_range: "chain code l pcs \<Longrightarrow> pc \<in> set pcs \<Longrightarrow> 0 \<le> pc \<and> nat pc < length code"
  by (induction pcs arbitrary: l) auto

lemma chain_unique: "chain code l pcs \<Longrightarrow> chain code l qs \<Longrightarrow> pcs = qs"
proof (induction pcs arbitrary: l qs)
  case Nil
  then show ?case by (cases qs) (auto simp: NO_JUMP_def)
next
  case (Cons pc pcs)
  then show ?case by (cases qs) (auto simp: NO_JUMP_def)
qed

lemma chain_cong:
  "chain code l pcs \<Longrightarrow> length code \<le> length code' \<Longrightarrow> (\<And>pc. pc \<in> set pcs \<Longrightarrow> code' ! nat pc = code ! nat pc) \<Longrightarrow> chain code' l pcs"
  by (induction pcs arbitrary: l) auto

text \<open>The lists of the blocks share no jump.\<close>

definition chains_ok :: "instruction list \<Rightarrow> block_info list \<Rightarrow> bool" where
  "chains_ok code bs \<longleftrightarrow> (\<exists>ns. list_all2 (\<lambda>b. chain code (bi_breaklist b)) bs ns \<and> distinct (concat ns))"

definition open_in :: "instruction list \<Rightarrow> block_info list \<Rightarrow> int set" where
  "open_in code bs = {pc. \<exists>b \<in> set bs. \<exists>pcs. chain code (bi_breaklist b) pcs \<and> pc \<in> set pcs}"

lemma open_in_chains: "list_all2 (\<lambda>b. chain code (bi_breaklist b)) bs ns \<Longrightarrow> open_in code bs = set (concat ns)"
proof (induction rule: list_all2_induct)
  case (Cons b bs n ns)
  have "{pc. \<exists>pcs. chain code (bi_breaklist b) pcs \<and> pc \<in> set pcs} = set n" using chain_unique [OF Cons(1)] Cons(1) by blast
  moreover have "open_in code (b # bs) = {pc. \<exists>pcs. chain code (bi_breaklist b) pcs \<and> pc \<in> set pcs} \<union> open_in code bs"
    by (auto simp: open_in_def)
  ultimately show ?case using Cons(3) by simp
qed (simp add: open_in_def)

lemma open_in_range: "pc \<in> open_in code bs \<Longrightarrow> 0 \<le> pc \<and> nat pc < length code"
  using chain_range by (fastforce simp: open_in_def)

lemma chains_ok_cong:
  assumes "chains_ok code bs" "length code \<le> length code'" "\<And>pc. pc \<in> open_in code bs \<Longrightarrow> code' ! nat pc = code ! nat pc"
  shows "chains_ok code' bs" "open_in code' bs = open_in code bs"
proof -
  obtain ns where ns: "list_all2 (\<lambda>b. chain code (bi_breaklist b)) bs ns" "distinct (concat ns)"
    using assms(1) by (auto simp: chains_ok_def)
  have agree: "code' ! nat pc = code ! nat pc" if "n \<in> set ns" "pc \<in> set n" for n pc
    using assms(3) that open_in_chains [OF ns(1)] by auto
  have "list_all2 (\<lambda>b. chain code' (bi_breaklist b)) bs ns"
    unfolding list_all2_conv_all_nth
  proof (intro conjI allI impI)
    show "length bs = length ns" using ns(1) by (rule list_all2_lengthD)
    fix i assume i: "i < length bs"
    show "chain code' (bi_breaklist (bs ! i)) (ns ! i)"
      by (rule chain_cong [OF list_all2_nthD [OF ns(1) i] assms(2)])
        (use i list_all2_lengthD [OF ns(1)] agree [of "ns ! i"] in \<open>auto simp: nth_mem\<close>)
  qed
  then show "chains_ok code' bs" "open_in code' bs = open_in code bs"
    using ns open_in_chains by (auto simp: chains_ok_def)
qed

lemma chain_snoc:
  assumes "chain code l (pcs @ [pc])" "distinct (pcs @ [pc])" "chain code' j [j]" "length code \<le> length code'"
    "\<And>q. q \<in> set pcs \<Longrightarrow> code' ! nat q = code ! nat q" "jump_target pc (code' ! nat pc) = j"
  shows "chain code' l (pcs @ [pc, j])"
  using assms by (induction pcs arbitrary: l) auto

section \<open>The invariant\<close>

primrec shaped :: "proto \<Rightarrow> bool" where
  "shaped (Proto d subs) \<longleftrightarrow>
     length (pd_lineInfo d) = length (pd_code d) \<and> pd_code d \<noteq> [] \<and> last (pd_code d) = CREATE_ABC OP_RETURN 0 1 0 \<and>
     sorted_wrt (\<lambda>a b. lv_startpc a \<le> lv_startpc b) (pd_locvars d) \<and> list_all (\<lambda>c. c = Some True) (map (map_option shaped) subs)"

abbreviation fs_code :: "function_state \<Rightarrow> instruction list" where
  "fs_code f \<equiv> pd_code (fs_data f)"

definition open_jumps :: "function_state \<Rightarrow> int set" where
  "open_jumps f = open_in (fs_code f) (fs_blocks f)"

definition declared_in_order :: "function_state \<Rightarrow> bool" where
  "declared_in_order f \<longleftrightarrow> sorted_wrt (\<lambda>a b. lc_startpc a \<le> lc_startpc b) (fs_localVars f) \<and>
     list_all (\<lambda>v. lc_startpc v \<le> code_length f) (fs_localVars f)"

text \<open>\<open>G\<close> is a set of instructions that are left alone for the time being.\<close>

definition well_gen :: "int set \<Rightarrow> function_state \<Rightarrow> bool" where
  "well_gen G f \<longleftrightarrow> fs_jpc f = NO_JUMP \<and> chains_ok (fs_code f) (fs_blocks f) \<and> length (pd_lineInfo (fs_data f)) = length (fs_code f) \<and>
     declared_in_order f \<and> pd_locvars (fs_data f) = [] \<and>
     list_all (\<lambda>c. c = Some True) (map (map_option shaped) (sub_protos (fs_proto f))) \<and>
     (\<forall>pc \<in> G. 0 \<le> pc \<and> pc < code_length f \<and> pc \<notin> open_jumps f)"

text \<open>An instruction that may still be changed.\<close>

definition closed :: "int set \<Rightarrow> function_state \<Rightarrow> int set" where
  "closed G f = {pc. 0 \<le> pc \<and> pc < code_length f \<and> pc \<notin> open_jumps f \<and> pc \<notin> G}"

definition same_block :: "block_info \<Rightarrow> block_info \<Rightarrow> bool" where
  "same_block b b' \<longleftrightarrow> bi_activeVarCount b' = bi_activeVarCount b \<and> bi_isbreakable b' = bi_isbreakable b"

text \<open>How a function grows.\<close>

definition grows :: "int set \<Rightarrow> function_state \<Rightarrow> function_state \<Rightarrow> bool" where
  "grows G f f' \<longleftrightarrow> code_length f \<le> code_length f' \<and> closed G f \<subseteq> closed G f' \<and>
     (\<forall>pc \<in> G. fs_code f' ! nat pc = fs_code f ! nat pc) \<and> list_all2 same_block (fs_blocks f) (fs_blocks f')"

lemma same_block_refl [simp]: "list_all2 same_block bs bs"
  by (simp add: list_all2_refl same_block_def)

lemma same_block_trans: "list_all2 same_block as bs \<Longrightarrow> list_all2 same_block bs cs \<Longrightarrow> list_all2 same_block as cs"
  by (rule list_all2_trans [where ?P1.0 = same_block and ?P2.0 = same_block]) (auto simp: same_block_def)

lemma grows_refl [simp]: "grows G f f"
  by (simp add: grows_def)

lemma grows_trans: "grows G f g \<Longrightarrow> grows G g h \<Longrightarrow> grows G f h"
  unfolding grows_def by (intro conjI) (auto intro: same_block_trans)

text \<open>The functions around it only get captures.\<close>

definition outer :: "function_state \<Rightarrow> function_state \<Rightarrow> bool" where
  "outer p p' \<longleftrightarrow> fs_proto p' = fs_proto p \<and> fs_line p' = fs_line p \<and> fs_freereg p' = fs_freereg p \<and>
     fs_activeVarCount p' = fs_activeVarCount p \<and> fs_blocks p' = fs_blocks p \<and> fs_jpc p' = fs_jpc p \<and>
     fs_futureReads p' = fs_futureReads p \<and> fs_forceNil p' = fs_forceNil p \<and>
     map lc_startpc (fs_localVars p') = map lc_startpc (fs_localVars p)"

lemma outer_refl [simp]: "outer p p"
  by (simp add: outer_def)

lemma outer_trans: "outer p q \<Longrightarrow> outer q r \<Longrightarrow> outer p r"
  by (simp add: outer_def)

lemma outer_list_refl [simp]: "list_all2 outer ps ps"
  by (simp add: list_all2_refl)

lemma outer_list_trans: "list_all2 outer ps qs \<Longrightarrow> list_all2 outer qs rs \<Longrightarrow> list_all2 outer ps rs"
  by (rule list_all2_trans [where ?P1.0 = outer and ?P2.0 = outer]) (auto intro: outer_trans)

text \<open>Writes beside the open jumps keep the invariant.\<close>

lemma well_gen_code:
  assumes "well_gen G f" "fs_jpc f' = NO_JUMP" "fs_blocks f' = fs_blocks f" "fs_localVars f' = fs_localVars f"
    "pd_locvars (fs_data f') = []" "sub_protos (fs_proto f') = sub_protos (fs_proto f)"
    "length (pd_lineInfo (fs_data f')) = length (fs_code f')" "length (fs_code f) \<le> length (fs_code f')"
    "\<And>pc. pc \<in> open_jumps f \<union> G \<Longrightarrow> fs_code f' ! nat pc = fs_code f ! nat pc"
  shows "well_gen G f'" "grows G f f'" "open_jumps f' = open_jumps f"
proof -
  have "chains_ok (fs_code f) (fs_blocks f)" using assms(1) by (simp add: well_gen_def)
  note cong = chains_ok_cong [OF this assms(8), unfolded open_jumps_def [symmetric]]
  have chains: "chains_ok (fs_code f') (fs_blocks f')" and same: "open_jumps f' = open_jumps f"
    using cong assms(3,9) by (auto simp: open_jumps_def)
  show "open_jumps f' = open_jumps f" by (rule same)
  have len: "code_length f \<le> code_length f'" using assms(8) by (simp add: code_length_def)
  then have "declared_in_order f'" using assms(1,4) by (auto simp: well_gen_def declared_in_order_def list_all_iff)
  then show "well_gen G f'" using assms chains same len by (auto simp: well_gen_def)
  show "grows G f f'" using assms same len by (auto simp: grows_def closed_def)
qed

lemma well_gen_emit:
  assumes "well_gen G f" and f'_def: "f' = update_data (\<lambda>d. addLineInfo line (snd (addInstruction inst d))) f"
  shows "well_gen G f'" "grows G f f'" "code_length f \<in> closed G f'" "fs_code f' = fs_code f @ [inst]"
proof -
  have code: "fs_code f' = fs_code f @ [inst]" "pd_lineInfo (fs_data f') = pd_lineInfo (fs_data f) @ [line]"
    "pd_locvars (fs_data f') = pd_locvars (fs_data f)" "sub_protos (fs_proto f') = sub_protos (fs_proto f)"
    "fs_jpc f' = fs_jpc f" "fs_blocks f' = fs_blocks f" "fs_localVars f' = fs_localVars f"
    by (simp_all add: f'_def update_data_def fs_data_def addInstruction_def addLineInfo_def Let_def)
  have range: "0 \<le> pc \<and> nat pc < length (fs_code f)" if "pc \<in> open_jumps f \<union> G" for pc
    using that assms(1) open_in_range by (auto simp: open_jumps_def well_gen_def code_length_def nat_less_iff)
  have agree: "fs_code f' ! nat pc = fs_code f ! nat pc" if "pc \<in> open_jumps f \<union> G" for pc
    using range [OF that] code(1) by (simp add: nth_append)
  note r = well_gen_code [OF assms(1), of f', OF _ code(6,7) _ code(4) _ _ agree]
  show "well_gen G f'" "grows G f f'" using r code assms(1) by (simp_all add: well_gen_def)
  have "open_jumps f' = open_jumps f" using r code assms(1) by (simp add: well_gen_def)
  then show "code_length f \<in> closed G f'"
    using range [of "code_length f"] code(1) by (auto simp: closed_def code_length_def)
  show "fs_code f' = fs_code f @ [inst]" by (rule code(1))
qed

lemma well_gen_replace:
  assumes "well_gen G f" "pc \<in> closed G f" "setInstruction (nat pc) inst (fs_data f) = Some d"
    and f'_def: "f' = update_data (\<lambda>_. d) f"
  shows "well_gen G f'" "grows G f f'" "open_jumps f' = open_jumps f"
proof -
  have d: "d = (fs_data f)\<lparr>pd_code := (fs_code f)[nat pc := inst]\<rparr>"
    using assms(3) by (auto simp: setInstruction_def split: if_splits)
  have code: "fs_code f' = (fs_code f)[nat pc := inst]" "pd_lineInfo (fs_data f') = pd_lineInfo (fs_data f)"
    "pd_locvars (fs_data f') = pd_locvars (fs_data f)" "sub_protos (fs_proto f') = sub_protos (fs_proto f)"
    "fs_jpc f' = fs_jpc f" "fs_blocks f' = fs_blocks f" "fs_localVars f' = fs_localVars f"
    by (simp_all add: f'_def update_data_def d fs_data_def)
  have agree: "fs_code f' ! nat q = fs_code f ! nat q" if "q \<in> open_jumps f \<union> G" for q
  proof -
    have "q \<noteq> pc" "0 \<le> q" "0 \<le> pc"
      using that assms(1,2) open_in_range by (auto simp: closed_def open_jumps_def well_gen_def)
    then show ?thesis using code(1) by (simp add: nth_list_update eq_nat_nat_iff)
  qed
  note r = well_gen_code [OF assms(1), of f', OF _ code(6,7) _ code(4) _ _ agree]
  show "well_gen G f'" "grows G f f'" "open_jumps f' = open_jumps f" using r code assms(1) by (simp_all add: well_gen_def)
qed

section \<open>The calculus\<close>

text \<open>From a state where the invariant holds and the instructions of \<open>A\<close> may be changed: no loop is endless, the invariant holds
  afterwards, and the instructions that the result \<open>x\<close> stands for, \<open>V x\<close>, may be changed.\<close>

definition ends_well :: "int set \<Rightarrow> gen_state \<Rightarrow> ('a \<Rightarrow> int set) \<Rightarrow> gen_error + 'a \<times> gen_state \<Rightarrow> bool" where
  "ends_well G s V r \<longleftrightarrow> (case r of
        Inl e \<Rightarrow> e \<noteq> GE_Endless
      | Inr (x, s') \<Rightarrow> well_gen G (gn_current s') \<and> grows G (gn_current s) (gn_current s') \<and> V x \<subseteq> closed G (gn_current s') \<and>
          list_all2 outer (gn_parents s) (gn_parents s'))"

definition ok :: "int set \<Rightarrow> int set \<Rightarrow> 'a gen \<Rightarrow> ('a \<Rightarrow> int set) \<Rightarrow> bool" where
  "ok G A m V \<longleftrightarrow> (\<forall>s. well_gen G (gn_current s) \<longrightarrow> A \<subseteq> closed G (gn_current s) \<longrightarrow> ends_well G s V (m s))"

named_theorems ok_rules

lemma ends_well_simps [simp]:
  "ends_well G s V (Inl e) \<longleftrightarrow> e \<noteq> GE_Endless"
  "ends_well G s V (Inr (x, s')) \<longleftrightarrow> well_gen G (gn_current s') \<and> grows G (gn_current s) (gn_current s') \<and> V x \<subseteq> closed G (gn_current s') \<and>
     list_all2 outer (gn_parents s) (gn_parents s')"
  by (simp_all add: ends_well_def)

lemma grows_closed: "grows G f f' \<Longrightarrow> A \<subseteq> closed G f \<Longrightarrow> A \<subseteq> closed G f'"
  by (auto simp: grows_def)

lemma ends_well_trans:
  "ends_well G s V r \<Longrightarrow> grows G (gn_current s0) (gn_current s) \<Longrightarrow> list_all2 outer (gn_parents s0) (gn_parents s) \<Longrightarrow> ends_well G s0 V r"
  by (auto simp: ends_well_def split: sum.splits intro: grows_trans outer_list_trans)

lemma okD: "ok G A m V \<Longrightarrow> well_gen G (gn_current s) \<Longrightarrow> A \<subseteq> closed G (gn_current s) \<Longrightarrow> ends_well G s V (m s)"
  by (simp add: ok_def)

lemma ok_bind [ok_rules]:
  assumes "ok G A m V" "\<And>x. ok G (A \<union> V x) (k x) W"
  shows "ok G A (g_bind m k) W"
  unfolding ok_def
proof (intro allI impI)
  fix s :: gen_state assume well_gen: "well_gen G (gn_current s)" and A: "A \<subseteq> closed G (gn_current s)"
  show "ends_well G s W (g_bind m k s)"
  proof (cases "m s")
    case (Inl e)
    then show ?thesis using okD [OF assms(1) well_gen A] by (simp add: g_bind_def)
  next
    case (Inr r)
    obtain x s1 where r: "m s = Inr (x, s1)" using Inr by (cases r) auto
    then have s1: "well_gen G (gn_current s1)" "grows G (gn_current s) (gn_current s1)" "V x \<subseteq> closed G (gn_current s1)"
      "list_all2 outer (gn_parents s) (gn_parents s1)" using okD [OF assms(1) well_gen A] by simp_all
    have "ends_well G s1 W (k x s1)"
      by (rule okD [OF assms(2) s1(1)]) (use s1(2,3) A grows_closed in auto)
    then show ?thesis using r ends_well_trans s1(2,4) by (simp add: g_bind_def)
  qed
qed

lemma ok_weaken:
  assumes "ok G A m V" "A \<subseteq> A'" "\<And>x. W x \<subseteq> A' \<union> V x"
  shows "ok G A' m W"
  unfolding ok_def
proof (intro allI impI)
  fix s :: gen_state assume well_gen: "well_gen G (gn_current s)" and A: "A' \<subseteq> closed G (gn_current s)"
  then have r: "ends_well G s V (m s)" using okD [OF assms(1)] assms(2) by blast
  show "ends_well G s W (m s)"
  proof (cases "m s")
    case (Inr y)
    obtain x s' where y: "m s = Inr (x, s')" using Inr by (cases y) auto
    then have "A' \<subseteq> closed G (gn_current s')" "V x \<subseteq> closed G (gn_current s')" using r grows_closed [OF _ A] by simp_all
    then have "W x \<subseteq> closed G (gn_current s')" using assms(3) by blast
    then show ?thesis using y r by simp
  qed (use r in simp)
qed

abbreviation nothing :: "'a \<Rightarrow> int set" where
  "nothing \<equiv> \<lambda>_. {}"

abbreviation this_pc :: "int \<Rightarrow> int set" where
  "this_pc \<equiv> \<lambda>pc. {pc}"

lemma ok_ret [ok_rules]: "V x \<subseteq> A \<Longrightarrow> ok G A (g_ret x) V"
  by (auto simp: ok_def g_ret_def)

lemma ok_fail [ok_rules]: "e \<noteq> GE_Endless \<Longrightarrow> ok G A (g_fail e) V"
  by (simp add: ok_def g_fail_def)

lemma ok_seq [ok_rules]: "ok G A m nothing \<Longrightarrow> ok G A k W \<Longrightarrow> ok G A (g_seq m k) W"
  unfolding g_seq_def by (rule ok_bind [where V = nothing]) simp_all

lemma ok_here [ok_rules]: "ok G A (g_here h) nothing"
  by (simp add: ok_def g_here_def)

lemma ok_if [ok_rules]: "(c \<Longrightarrow> ok G A m V) \<Longrightarrow> (\<not> c \<Longrightarrow> ok G A k V) \<Longrightarrow> ok G A (if c then m else k) V"
  by simp

lemma ok_when [ok_rules]: "(c \<Longrightarrow> ok G A m nothing) \<Longrightarrow> ok G A (g_when c m) nothing"
  by (simp add: g_when_def ok_ret)

lemma ok_each [ok_rules]: "(\<And>x. x \<in> set xs \<Longrightarrow> ok G A (m x) nothing) \<Longrightarrow> ok G A (g_each m xs) nothing"
  by (induction xs) (auto intro: ok_ret ok_seq)

lemma ok_coded [ok_rules]: "ok G A m V \<Longrightarrow> ok G A (coded m) nothing"
  unfolding coded_def by (rule ok_bind) (auto intro: ok_ret)

text \<open>What concerns neither code, blocks, declarations nor the functions inside.\<close>

definition beside :: "(function_state \<Rightarrow> function_state) \<Rightarrow> bool" where
  "beside u \<longleftrightarrow> (\<forall>f. fs_code (u f) = fs_code f \<and> pd_lineInfo (fs_data (u f)) = pd_lineInfo (fs_data f) \<and>
     pd_locvars (fs_data (u f)) = pd_locvars (fs_data f) \<and> sub_protos (fs_proto (u f)) = sub_protos (fs_proto f) \<and>
     fs_jpc (u f) = fs_jpc f \<and> fs_blocks (u f) = fs_blocks f \<and> map lc_startpc (fs_localVars (u f)) = map lc_startpc (fs_localVars f))"

lemma declared_in_order_map:
  "declared_in_order f \<longleftrightarrow> sorted (map lc_startpc (fs_localVars f)) \<and> (\<forall>pc \<in> set (map lc_startpc (fs_localVars f)). pc \<le> code_length f)"
  by (simp add: declared_in_order_def sorted_map list_all_iff)

lemma well_gen_beside:
  assumes "beside u"
  shows "well_gen G (u f) = well_gen G f" "grows G f (u f)" "closed G (u f) = closed G f"
proof -
  have *: "fs_code (u f) = fs_code f" "pd_lineInfo (fs_data (u f)) = pd_lineInfo (fs_data f)"
     "pd_locvars (fs_data (u f)) = pd_locvars (fs_data f)" "sub_protos (fs_proto (u f)) = sub_protos (fs_proto f)"
     "fs_jpc (u f) = fs_jpc f" "fs_blocks (u f) = fs_blocks f" "map lc_startpc (fs_localVars (u f)) = map lc_startpc (fs_localVars f)"
    using assms by (auto simp: beside_def)
  then show c: "closed G (u f) = closed G f" by (simp add: closed_def open_jumps_def code_length_def)
  show "well_gen G (u f) = well_gen G f"
    unfolding well_gen_def declared_in_order_map using * by (simp add: open_jumps_def code_length_def)
  show "grows G f (u f)" using * c by (simp add: grows_def code_length_def)
qed

lemma ok_beside: "beside u \<Longrightarrow> ok G A (g_change u) nothing"
  by (simp add: ok_def g_change_def well_gen_beside)

lemma beside_data:
  "(\<And>d. pd_code (u d) = pd_code d \<and> pd_lineInfo (u d) = pd_lineInfo d \<and> pd_locvars (u d) = pd_locvars d) \<Longrightarrow> beside (update_data u)"
  by (simp add: beside_def update_data_def fs_data_def)

lemma fit_stack_beside [simp]:
  "fs_code (fit_stack n f) = fs_code f" "pd_lineInfo (fs_data (fit_stack n f)) = pd_lineInfo (fs_data f)"
  "pd_locvars (fs_data (fit_stack n f)) = pd_locvars (fs_data f)" "sub_protos (fs_proto (fit_stack n f)) = sub_protos (fs_proto f)"
  "fs_jpc (fit_stack n f) = fs_jpc f" "fs_blocks (fit_stack n f) = fs_blocks f" "fs_localVars (fit_stack n f) = fs_localVars f"
  by (simp_all add: fit_stack_def update_data_def fs_data_def)

lemma data_of_change [simp]:
  "fs_data (f\<lparr>fs_line := a\<rparr>) = fs_data f" "fs_data (f\<lparr>fs_freereg := a\<rparr>) = fs_data f" "fs_data (f\<lparr>fs_localVars := b\<rparr>) = fs_data f"
  "fs_data (f\<lparr>fs_activeVarCount := a\<rparr>) = fs_data f" "fs_data (f\<lparr>fs_blocks := c\<rparr>) = fs_data f" "fs_data (f\<lparr>fs_jpc := a\<rparr>) = fs_data f"
  "fs_data (f\<lparr>fs_upvalues := d\<rparr>) = fs_data f" "fs_data (f\<lparr>fs_futureReads := e\<rparr>) = fs_data f" "fs_data (f\<lparr>fs_forceNil := g\<rparr>) = fs_data f"
  by (simp_all add: fs_data_def)

lemma ok_registers [ok_rules]:
  "ok G A currentReg nothing" "ok G A allocReg nothing" "ok G A (freeReg r) nothing" "ok G A (checkStack n) nothing"
  "ok G A (setFreeReg r) nothing" "ok G A (setFreeRegAndCheck r) nothing" "ok G A (reserveRegsAndCheck n) nothing"
  "ok G A (ensureRegAtLeast r) nothing" "ok G A resetToLocals nothing"
proof -
  show free: "ok G A (setFreeReg r) nothing" unfolding setFreeReg_def by (rule ok_beside) (simp add: beside_def)
  show check: "ok G A (checkStack n) nothing" for n unfolding checkStack_def by (rule ok_beside) (simp add: beside_def)
  show "ok G A currentReg nothing" unfolding currentReg_def by (rule ok_here)
  then show "ok G A allocReg nothing" unfolding allocReg_def
    by (intro ok_bind [where V = nothing] ok_seq ok_beside ok_ret) (auto simp: beside_def ok_weaken)
  show "ok G A (freeReg r) nothing" unfolding freeReg_def by (rule ok_beside) (simp add: beside_def)
  show "ok G A (setFreeRegAndCheck r) nothing" unfolding setFreeRegAndCheck_def by (intro ok_seq free check)
  show "ok G A (reserveRegsAndCheck n) nothing" unfolding reserveRegsAndCheck_def
    by (intro ok_seq check ok_beside) (simp add: beside_def)
  show "ok G A (ensureRegAtLeast r) nothing" unfolding ensureRegAtLeast_def by (rule ok_beside) (simp add: beside_def)
  show "ok G A resetToLocals nothing" unfolding resetToLocals_def by (rule ok_beside) (simp add: beside_def)
qed

lemma ok_guarding [ok_rules]:
  assumes "ok G A m V"
  shows "ok G A (guarding_registers m) V"
  unfolding guarding_registers_def
proof (rule ok_bind [OF ok_registers(1)])
  fix saved show "ok G (A \<union> {}) (g_bind m (\<lambda>x. g_seq (setFreeReg saved) (g_ret x))) V"
    by (rule ok_bind [OF ok_weaken [OF assms, where W = V]]) (auto intro!: ok_rules)
qed

section \<open>Writing the prototype\<close>

text \<open>Steps that leave the function alone.\<close>

lemma ok_same:
  "(\<And>s. case m s of Inl e \<Rightarrow> e \<noteq> GE_Endless | Inr (x, s') \<Rightarrow> gn_current s' = gn_current s \<and> gn_parents s' = gn_parents s) \<Longrightarrow> ok G A m nothing"
  unfolding ok_def ends_well_def by (fastforce split: sum.splits)

lemma ok_charge [ok_rules]: "ok G A (g_charge E c) nothing"
  by (rule ok_same) (simp add: g_charge_def split: prod.split option.split)

lemma ok_intern [ok_rules]: "ok G A (g_intern E x) nothing"
  by (rule ok_same) (simp add: g_intern_def split: prod.split)

lemma ok_change:
  assumes "\<And>f. well_gen G f \<Longrightarrow> A \<subseteq> closed G f \<Longrightarrow> well_gen G (u f) \<and> grows G f (u f)"
  shows "ok G A (g_change u) nothing"
  using assms by (simp add: ok_def g_change_def)

lemma ok_count [ok_rules]: "ok G A instructionCount nothing" "ok G A getLabel nothing"
  by (simp_all add: instructionCount_def getLabel_def ok_here)

lemma ok_emit [ok_rules]: "ok G A (emit E inst) this_pc"
  unfolding emit_def
proof (rule ok_seq [OF ok_charge], unfold ok_def, intro allI impI)
  fix s :: gen_state assume well_gen: "well_gen G (gn_current s)"
  show "ends_well G s this_pc (g_bind instructionCount (\<lambda>pc. g_seq (g_change (\<lambda>f. update_data (\<lambda>d. addLineInfo (fs_line f)
      (snd (addInstruction inst d))) f)) (g_ret pc)) s)"
    using well_gen_emit [OF well_gen refl, of "fs_line (gn_current s)" inst]
    by (simp add: g_bind_def instructionCount_def g_here_def g_seq_def g_change_def g_ret_def)
qed

lemma ok_instruction [ok_rules]: "ok G A (instruction_at pc) nothing"
  by (rule ok_same) (simp add: instruction_at_def g_fail_def g_bind_def g_here_def g_ret_def split: option.split)

lemma ok_replace [ok_rules]:
  assumes "pc \<in> A"
  shows "ok G A (replaceInstruction pc inst) nothing"
  unfolding ok_def
proof (intro allI impI)
  fix s :: gen_state assume well_gen: "well_gen G (gn_current s)" and A: "A \<subseteq> closed G (gn_current s)"
  show "ends_well G s nothing (replaceInstruction pc inst s)"
    using well_gen_replace [OF well_gen _ _ refl] A assms
    by (auto simp: replaceInstruction_def g_fail_def g_bind_def g_here_def g_change_def split: option.split)
qed

lemma ok_constant [ok_rules]: "ok G A (emit_constant E v) nothing"
  unfolding emit_constant_def
proof (rule ok_seq [OF ok_charge], unfold ok_def, intro allI impI)
  fix s :: gen_state assume well_gen: "well_gen G (gn_current s)"
  let ?f = "gn_current s"
  obtain k d where k: "addConstant v (fs_data ?f) = (k, d)" by (cases "addConstant v (fs_data ?f)")
  have d: "d = (fs_data ?f)\<lparr>pd_constants := pd_constants d, pd_constantMap := pd_constantMap d\<rparr>"
    using k by (auto simp: addConstant_def Let_def split: if_splits option.splits)
  let ?u = "update_data (\<lambda>d'. d'\<lparr>pd_constants := pd_constants d, pd_constantMap := pd_constantMap d\<rparr>)"
  have "beside ?u" by (rule beside_data) simp
  moreover have "update_data (\<lambda>_. d) ?f = ?u ?f" using d by (simp add: update_data_def fs_data_def)
  ultimately show "ends_well G s nothing (g_bind (g_here (\<lambda>f. addConstant v (fs_data f))) (\<lambda>(k, d).
      g_seq (g_change (update_data (\<lambda>_. d))) (g_ret (int k))) s)"
    using well_gen k by (simp add: g_bind_def g_here_def g_seq_def g_change_def g_ret_def well_gen_beside)
qed

lemma ok_constants [ok_rules]:
  "ok G A (numberConstant E x) nothing" "ok G A (boolConstant E b) nothing" "ok G A (nilConstant E) nothing"
  "ok G A (stringConstant E n) nothing"
  unfolding numberConstant_def boolConstant_def nilConstant_def stringConstant_def by (rule ok_rules)+

lemma ok_setSource [ok_rules]: "ok G A (setSource E n) nothing"
  unfolding setSource_def by (rule ok_rules ok_beside beside_data | simp)+

text \<open>The line.\<close>

lemma ok_line: "ok G A (g_change (\<lambda>f. f\<lparr>fs_line := l\<rparr>)) nothing"
  by (rule ok_beside) (simp add: beside_def)

lemma ok_at_line [ok_rules]:
  assumes "ok G A m V"
  shows "ok G A (at_line l m) V"
  unfolding at_line_def
proof (rule ok_bind [OF ok_here], rule ok_seq)
  fix previous
  show "ok G (A \<union> {}) (g_bind m (\<lambda>x. g_seq (g_change (\<lambda>f. f\<lparr>fs_line := previous\<rparr>)) (g_ret x))) V"
    by (rule ok_bind [OF ok_weaken [OF assms, where W = V]]) (auto intro!: ok_rules ok_line)
qed (auto intro!: ok_rules ok_line)

lemma ok_with_line [ok_rules]:
  assumes "ok G A m V"
  shows "ok G A (with_line l m) V"
  unfolding with_line_def
proof (rule ok_bind [OF ok_here], rule ok_seq)
  fix saved
  show "ok G (A \<union> {}) (g_bind m (\<lambda>x. g_seq (g_change (\<lambda>f. f\<lparr>fs_line := saved\<rparr>)) (g_ret x))) V"
    by (rule ok_bind [OF ok_weaken [OF assms, where W = V]]) (auto intro!: ok_rules ok_line)
qed (auto intro!: ok_rules ok_line)

section \<open>Jumps\<close>

lemma ok_getJump [ok_rules]: "ok G A (getJump pc) nothing"
  unfolding getJump_def by (rule ok_rules | simp)+

lemma ok_fixJump [ok_rules]: "pc \<in> A \<Longrightarrow> ok G A (fixJump pc dest) nothing"
  unfolding fixJump_def Let_def by (rule ok_rules | simp)+

lemma ok_patchAll [ok_rules]: "set pcs \<subseteq> A \<Longrightarrow> ok G A (patchAll pcs dest) nothing"
  unfolding patchAll_def by (rule ok_rules | blast)+

lemma ok_patchAllToHere [ok_rules]: "set pcs \<subseteq> A \<Longrightarrow> ok G A (patchAllToHere pcs) nothing"
  unfolding patchAllToHere_def by (rule ok_rules | simp)+

lemma patchList_nothing [simp]: "patchList NO_JUMP dest s = Inr ((), s)"
  by (simp add: patchList_def list_turns_def instructionCount_def g_bind_def g_here_def g_ret_def)

text \<open>No jump is pending between statements, so there is nothing to flush.\<close>

lemma jpc_same: "fs_jpc f = NO_JUMP \<Longrightarrow> f\<lparr>fs_jpc := NO_JUMP\<rparr> = f"
  by (cases f) simp

lemma ok_flush [ok_rules]: "ok G A flushPendingJumps nothing"
  unfolding ok_def
proof (intro allI impI)
  fix s :: gen_state assume well_gen: "well_gen G (gn_current s)"
  then have "fs_jpc (gn_current s) = NO_JUMP" by (simp add: well_gen_def)
  then show "ends_well G s nothing (flushPendingJumps s)"
    using well_gen by (simp add: flushPendingJumps_def instructionCount_def g_bind_def g_here_def g_seq_def g_change_def jpc_same)
qed

lemma ok_code [ok_rules]:
  "ok G A (codeRaw E inst) this_pc" "ok G A (codeABC E oc a b c) this_pc" "ok G A (codeABx E oc a bx) this_pc"
  "ok G A (codeAsBx E oc a sbx) this_pc"
  unfolding codeABC_def codeABx_def codeAsBx_def codeRaw_def by (rule ok_rules)+

lemma ok_patch [ok_rules]:
  "pc \<in> A \<Longrightarrow> ok G A (patch_with u pc) nothing"
  "pc \<in> A \<Longrightarrow> ok G A (patchArgA pc a) nothing" "pc \<in> A \<Longrightarrow> ok G A (patchArgB pc b) nothing"
  "pc \<in> A \<Longrightarrow> ok G A (patchArgC pc c) nothing" "pc \<in> A \<Longrightarrow> ok G A (patchArgsAB pc a b) nothing"
  "pc \<in> A \<Longrightarrow> ok G A (patchArgsBC pc b c) nothing" "pc \<in> A \<Longrightarrow> ok G A (patchToABC pc oc a b c) nothing"
  unfolding patchArgA_def patchArgB_def patchArgC_def patchArgsAB_def patchArgsBC_def patchToABC_def patch_with_def
  by (rule ok_rules | simp)+

end
