(* ===== verification/GenExprEnds.thy ===== *)
theory GenExprEnds
  imports GenFrame GenNames
begin

text \<open>
  The emitters of expressions keep the invariant of \<open>GenFrame\<close>: scopes and names, values, conditions, operators, tables
  and calls.
\<close>

section \<open>Scopes and names\<close>

lemma emitJump_emit: "fs_jpc (gn_current s) = NO_JUMP \<Longrightarrow> emitJump E s = emit E (CREATE_AsBx OP_JMP 0 NO_JUMP) s"
  by (simp add: emitJump_def g_bind_def g_here_def g_seq_def g_change_def jpc_same concatJumpList_def g_ret_def split: sum.split)

lemma ok_emitJump [ok_rules]: "ok G A (emitJump E) this_pc"
  using ok_emit [of G A E "CREATE_AsBx OP_JMP 0 NO_JUMP"] by (simp add: ok_def emitJump_emit well_gen_def)

lemma ok_addLocalVar [ok_rules]: "ok G A (addLocalVar x) nothing"
proof -
  let ?u = "\<lambda>reg f. f\<lparr>fs_localVars := fs_localVars f @
       [\<lparr>lc_name = x, lc_reg = reg, lc_startpc = code_length f, lc_endpc = -1, lc_captured = False\<rparr>]\<rparr>"
  have "ok G A (g_change (?u reg)) nothing" for reg A
  proof (rule ok_change)
    fix f assume well_gen: "well_gen G f"
    have same: "open_jumps (?u reg f) = open_jumps f" "code_length (?u reg f) = code_length f"
      by (simp_all add: open_jumps_def code_length_def)
    have "declared_in_order (?u reg f)"
      using well_gen same(2) by (auto simp: well_gen_def declared_in_order_def sorted_wrt_append list_all_iff)
    then show "well_gen G (?u reg f) \<and> grows G f (?u reg f)"
      using well_gen same by (simp add: well_gen_def grows_def closed_def)
  qed
  note change = this
  show ?thesis unfolding addLocalVar_def by (rule change ok_rules | simp)+
qed

lemma startpcs_change: "(\<And>v. lc_startpc (u v) = lc_startpc v) \<Longrightarrow> map lc_startpc (change_last p u vs) = map lc_startpc vs"
proof -
  assume u: "\<And>v. lc_startpc (u v) = lc_startpc v"
  have "map lc_startpc (change_first p u xs) = map lc_startpc xs" for xs by (induction xs) (simp_all add: u)
  from this [of "rev vs"] show ?thesis by (simp add: change_last_def flip: rev_map)
qed

lemma startpcs_changes: "map lc_startpc ((change_last p (lc_endpc_update u) ^^ n) vs) = map lc_startpc vs"
  by (induction n arbitrary: vs) (simp_all add: startpcs_change)

lemma ok_scopes [ok_rules]:
  "ok G A (adjustLocalVars n) nothing" "ok G A (emitClose E l) nothing" "ok G A (closeScopeUpvalues E l) nothing"
  "ok G A (removeLocalVars E l) nothing" "ok G A activeLocalCount nothing" "ok G A (findLocalVar x) nothing"
proof -
  show "ok G A (adjustLocalVars n) nothing" unfolding adjustLocalVars_def
    by (rule ok_rules ok_beside | simp add: beside_def)+
  show close: "ok G A (emitClose E l) nothing" for A l unfolding emitClose_def by (rule ok_rules)+
  show scope: "ok G A (closeScopeUpvalues E l) nothing" unfolding closeScopeUpvalues_def by (rule close ok_rules)+
  have locals: "ok G A (g_change (closeLocals l pc)) nothing" for A pc
    by (rule ok_beside) (simp add: beside_def closeLocals_def startpcs_changes)
  show "ok G A (removeLocalVars E l) nothing" unfolding removeLocalVars_def by (rule scope locals ok_rules)+
  show "ok G A activeLocalCount nothing" "ok G A (findLocalVar x) nothing" unfolding activeLocalCount_def findLocalVar_def
    by (rule ok_rules)+
qed

lemma outer_mark: "outer p (p\<lparr>fs_localVars := markCaptured r (fs_localVars p)\<rparr>)"
  by (simp add: outer_def markCaptured_def startpcs_change)

lemma resolve_upvalue_outer:
  "resolve_upvalue x f ps = (i, f', ps') \<Longrightarrow> f' = f\<lparr>fs_upvalues := fs_upvalues f'\<rparr> \<and> list_all2 outer ps ps'"
proof (induction ps arbitrary: f i f' ps')
  case (Cons p ps)
  show ?case
  proof (cases "0 \<le> findLocal x (fs_localVars p)")
    case True
    then show ?thesis using Cons.prems
      by (auto simp: Let_def outer_mark split: prod.splits)
  next
    case False
    obtain j p' qs where rec: "resolve_upvalue x p ps = (j, p', qs)" by (cases "resolve_upvalue x p ps")
    have p: "p' = p\<lparr>fs_upvalues := fs_upvalues p'\<rparr>" "list_all2 outer ps qs" using Cons.IH [OF rec] by auto
    have "outer p p'" by (subst p(1)) (simp add: outer_def)
    then show ?thesis using Cons.prems False rec p(2) by (auto simp: Let_def split: prod.splits if_splits)
  qed
qed simp

lemma ok_resolveUpvalue [ok_rules]: "ok G A (resolveUpvalue x) nothing"
  unfolding ok_def
proof (intro allI impI)
  fix s :: gen_state assume well_gen: "well_gen G (gn_current s)"
  obtain i f' ps' where r: "resolve_upvalue x (gn_current s) (gn_parents s) = (i, f', ps')"
    by (cases "resolve_upvalue x (gn_current s) (gn_parents s)")
  have f: "f' = (\<lambda>f. f\<lparr>fs_upvalues := fs_upvalues f'\<rparr>) (gn_current s)" "list_all2 outer (gn_parents s) ps'"
    using resolve_upvalue_outer [OF r] by auto
  have "beside (\<lambda>f. f\<lparr>fs_upvalues := fs_upvalues f'\<rparr>)" by (simp add: beside_def)
  then have "well_gen G f' \<and> grows G (gn_current s) f'" using well_gen_beside [of "\<lambda>f. f\<lparr>fs_upvalues := fs_upvalues f'\<rparr>"] well_gen f(1) by metis
  then show "ends_well G s nothing (resolveUpvalue x s)" using r f(2) by (simp add: resolveUpvalue_def)
qed

lemma ok_resolve [ok_rules]: "ok G A (resolve E x) nothing"
  unfolding resolve_def by (rule ok_rules | simp)+

section \<open>Values\<close>

text \<open>The instructions that a value, a condition or a call stands for.\<close>

definition vr_pcs :: "value_result \<Rightarrow> int set" where
  "vr_pcs v = (case v of VR_Relocatable pc \<Rightarrow> {pc} | VR_MultiRet a b pc \<Rightarrow> {pc} | VR_PendingJump pc \<Rightarrow> {pc} | _ \<Rightarrow> {})"

definition cond_pcs :: "cond_result \<Rightarrow> int set" where
  "cond_pcs c = set (cr_trueList c) \<union> set (cr_falseList c)"

definition call_pcs :: "call_result \<Rightarrow> int set" where
  "call_pcs info = {cx_instructionPc info}"

lemma vr_pcs_simps [simp]:
  "vr_pcs VR_None = {}" "vr_pcs (VR_Immediate i) = {}" "vr_pcs (VR_Constant k) = {}" "vr_pcs (VR_Register r owns a) = {}"
  "vr_pcs (VR_PendingLoad a r k x) = {}" "vr_pcs (VR_Relocatable pc) = {pc}" "vr_pcs (VR_MultiRet a b pc) = {pc}"
  "vr_pcs (VR_PendingJump pc) = {pc}"
  by (simp_all add: vr_pcs_def)

lemma set_pl_append: "set (pl_append pcs pc) \<subseteq> insert pc (set pcs)"
  by (auto simp: pl_append_def)

text \<open>The emitters of an expression that keep the invariant.\<close>

definition good :: "emitters \<Rightarrow> bool" where
  "good e \<longleftrightarrow> (\<forall>G A. ok G A (em_value e) vr_pcs \<and> ok G A (em_cond e) cond_pcs \<and> ok G A (em_condTrue e) cond_pcs \<and>
     (\<forall>call base. em_call e = Some call \<longrightarrow> ok G A (call base) call_pcs) \<and>
     (\<forall>v \<in> set (em_operands e). ok G A v vr_pcs) \<and> ok G A (em_lvalue e) nothing \<and>
     (\<forall>v x. em_object e = Some (v, x) \<longrightarrow> ok G A v vr_pcs))"

lemma goodD [ok_rules]:
  "good e \<Longrightarrow> ok G A (em_value e) vr_pcs" "good e \<Longrightarrow> ok G A (em_cond e) cond_pcs" "good e \<Longrightarrow> ok G A (em_condTrue e) cond_pcs"
  "good e \<Longrightarrow> ok G A (em_lvalue e) nothing"
  by (simp_all add: good_def)

lemma good_call: "good e \<Longrightarrow> em_call e = Some call \<Longrightarrow> ok G A (call base) call_pcs"
  by (simp add: good_def)

lemma good_operand: "good e \<Longrightarrow> v \<in> set (em_operands e) \<Longrightarrow> ok G A v vr_pcs"
  by (simp add: good_def)

lemma good_object: "good e \<Longrightarrow> em_object e = Some (v, x) \<Longrightarrow> ok G A v vr_pcs"
  by (simp add: good_def)

lemma ok_materialize_immediate [ok_rules]: "ok G A (materialize_immediate E i reg) nothing"
  unfolding materialize_immediate_def by (cases i) (auto intro!: ok_rules)

lemma ok_materialize_call [ok_rules]: "pc \<in> A \<Longrightarrow> ok G A (materialize_call E pc reg) nothing"
  unfolding materialize_call_def by (rule ok_rules | simp)+

lemma ok_materializeValue [ok_rules]:
  "vr_pcs val \<subseteq> A \<Longrightarrow> ok G A (materializeValue E val reg) nothing"
  by (cases val) (auto simp: materializeValue_def intro!: ok_rules split: access_kind.split)

lemma ok_valueToAnyReg [ok_rules]: "vr_pcs val \<subseteq> A \<Longrightarrow> ok G A (valueToAnyReg E val) nothing"
  by (cases val) (auto simp: valueToAnyReg_def intro!: ok_rules split: access_kind.split)

lemma ok_rk_or_reg [ok_rules]: "vr_pcs val \<subseteq> A \<Longrightarrow> ok G A (rk_or_reg E val k) nothing"
  unfolding rk_or_reg_def by (auto intro!: ok_rules)

lemma ok_valueToRK [ok_rules]: "vr_pcs val \<subseteq> A \<Longrightarrow> ok G A (valueToRK E val) nothing"
  by (cases val) (auto simp: valueToRK_def intro!: ok_rules split: immediate.split)

lemma ok_forceSingleValue [ok_rules]: "vr_pcs val \<subseteq> A \<Longrightarrow> ok G A (forceSingleValue val) vr_pcs"
  by (cases val) (auto simp: forceSingleValue_def intro!: ok_rules split: access_kind.split)

lemma ok_single [ok_rules]: "ok G A v vr_pcs \<Longrightarrow> ok G A (single v) vr_pcs"
  unfolding single_def by (rule ok_rules | blast)+

lemma ok_value_into [ok_rules]: "good e \<Longrightarrow> ok G A (value_into E e reg) nothing"
  unfolding value_into_def by (rule ok_rules | blast)+

lemma ok_free_both [ok_rules]: "ok G A (free_both a b) nothing"
  unfolding free_both_def by (auto intro!: ok_rules)

section \<open>Conditions\<close>

lemmas ok_splits = option.split payload_truthiness.split call_kind.split access_kind.split prod.split value_result.split

lemma one_jump: "set (pl_append [] pc) \<subseteq> insert pc A"
  using set_pl_append [of "[]" pc] by auto

lemma ok_emitComparisonJump [ok_rules]: "good l \<Longrightarrow> good r \<Longrightarrow> ok G A (emitComparisonJump E op l r b) set"
  unfolding emitComparisonJump_def Let_def
  by (rule ok_rules conjI impI allI | split ok_splits | simp add: one_jump)+

lemma ok_cond_of_value [ok_rules]: "ok G A v vr_pcs \<Longrightarrow> ok G A (cond_of_value E v b) set"
  unfolding cond_of_value_def
  by (assumption | rule ok_rules conjI impI allI | split ok_splits | simp add: one_jump)+

lemma ok_cond_fallbacks [ok_rules]:
  "ok G A v vr_pcs \<Longrightarrow> ok G A (cond_fallback E v) cond_pcs" "ok G A v vr_pcs \<Longrightarrow> ok G A (condTrue_fallback E v) cond_pcs"
  unfolding cond_fallback_def condTrue_fallback_def by (assumption | rule ok_rules | simp add: cond_pcs_def)+

lemma ok_conditions [ok_rules]:
  "good l \<Longrightarrow> good r \<Longrightarrow> ok G A v vr_pcs \<Longrightarrow> ok G A (cond_binary E op l r v) cond_pcs"
  "good l \<Longrightarrow> good r \<Longrightarrow> ok G A v vr_pcs \<Longrightarrow> ok G A (condTrue_binary E op l r v) cond_pcs"
  "good e \<Longrightarrow> ok G A v vr_pcs \<Longrightarrow> ok G A (cond_unary E uop e v) cond_pcs"
  "good e \<Longrightarrow> ok G A v vr_pcs \<Longrightarrow> ok G A (condTrue_unary E uop e v) cond_pcs"
  unfolding cond_binary_def condTrue_binary_def cond_unary_def condTrue_unary_def
  by (assumption | rule ok_rules | force simp: cond_pcs_def)+

lemma ok_materializeCondResult [ok_rules]: "set pcs \<subseteq> A \<Longrightarrow> ok G A (materializeCondResult E pcs reg) nothing"
  unfolding materializeCondResult_def by (rule ok_rules | simp)+

lemma ok_condition_value [ok_rules]: "ok G A m set \<Longrightarrow> ok G A (condition_value E m) vr_pcs"
  unfolding condition_value_def by (assumption | rule ok_rules | simp)+

section \<open>Operators\<close>

lemma ok_emit_comparison [ok_rules]: "good l \<Longrightarrow> good r \<Longrightarrow> ok G A (emit_comparison E op l r) vr_pcs"
  unfolding emit_comparison_def by (assumption | rule ok_rules)+

lemma ok_boolean_jumps [ok_rules]: "good l \<Longrightarrow> good r \<Longrightarrow> ok G A (boolean_jumps op l r) set"
  unfolding boolean_jumps_def by (assumption | rule ok_rules | force simp: cond_pcs_def)+

lemma ok_result_register [ok_rules]:
  "vr_pcs val \<subseteq> A \<Longrightarrow> ok G A (case o1 of Some reg \<Rightarrow> g_ret reg
     | None \<Rightarrow> g_bind allocReg (\<lambda>reg. g_seq (materializeValue E val reg) (g_ret reg))) nothing"
  by (assumption | rule ok_rules conjI impI allI | split ok_splits | force)+

lemma ok_short_circuit [ok_rules]: "good l \<Longrightarrow> good r \<Longrightarrow> ok G A (short_circuit E op l r) vr_pcs"
  unfolding short_circuit_def by (assumption | rule ok_result_register ok_rules | simp)+

lemma ok_emit_logical [ok_rules]: "good l \<Longrightarrow> good r \<Longrightarrow> ok G A (emit_logical E op l r) vr_pcs"
  unfolding emit_logical_def by (assumption | rule ok_rules)+

lemma ok_concat_operands [ok_rules]: "(\<And>v A. v \<in> set vs \<Longrightarrow> ok G A v vr_pcs) \<Longrightarrow> ok G A (concat_operands E target vs) nothing"
  by (induction vs arbitrary: target) (simp_all, (assumption | rule ok_rules | simp)+)

lemma ok_concat_many [ok_rules]: "(\<And>v A. v \<in> set vs \<Longrightarrow> ok G A v vr_pcs) \<Longrightarrow> ok G A (concat_many E vs) vr_pcs"
  unfolding concat_many_def Let_def by (assumption | rule ok_rules | simp)+

lemma ok_concat_two [ok_rules]: "good l \<Longrightarrow> good r \<Longrightarrow> ok G A (concat_two E l r) vr_pcs"
  unfolding concat_two_def by (assumption | rule ok_rules | force)+

lemma ok_emit_concat [ok_rules]: "good l \<Longrightarrow> good r \<Longrightarrow> ok G A (emit_concat E l r) vr_pcs"
  unfolding emit_concat_def Let_def by (assumption | rule ok_rules | auto dest: good_operand)+

lemma ok_emit_arith [ok_rules]: "good l \<Longrightarrow> good r \<Longrightarrow> ok G A (emit_arith E op l r) vr_pcs"
  unfolding emit_arith_def by (assumption | rule ok_rules conjI impI allI | split ok_splits | force)+

lemma ok_emitValueBinary [ok_rules]: "good l \<Longrightarrow> good r \<Longrightarrow> ok G A (emitValueBinary E op l r) vr_pcs"
  unfolding emitValueBinary_def by (assumption | rule ok_rules)+

lemma ok_unary_in_register [ok_rules]: "vr_pcs v \<subseteq> A \<Longrightarrow> ok G A (unary_in_register E oc v) vr_pcs"
  unfolding unary_in_register_def by (assumption | rule ok_rules | simp)+

lemma ok_emitValueUnary [ok_rules]: "good e \<Longrightarrow> ok G A (emitValueUnary E op e) vr_pcs"
  unfolding emitValueUnary_def
  by (assumption | rule ok_rules conjI impI allI | split ok_splits un_op.split | force simp: cond_pcs_def)+

section \<open>Tables and calls\<close>

lemma ok_string_key [ok_rules]: "ok G A (string_key E x) nothing"
  unfolding string_key_def by (rule ok_rules | simp)+

lemma ok_index [ok_rules]:
  "good t \<Longrightarrow> good i \<Longrightarrow> ok G A (emitValueIndex E t i) vr_pcs" "good t \<Longrightarrow> ok G A (emitValueMember E t x) vr_pcs"
  "good t \<Longrightarrow> good i \<Longrightarrow> ok G A (lvalue_index E t i) nothing" "good t \<Longrightarrow> ok G A (lvalue_member E t x) nothing"
  unfolding emitValueIndex_def emitValueMember_def lvalue_index_def lvalue_member_def
  by (assumption | rule ok_rules | force)+

lemma ok_emitVarargExpr [ok_rules]: "ok G A (emitVarargExpr E) call_pcs"
  unfolding emitVarargExpr_def by (rule ok_rules | simp add: call_pcs_def)+

lemma ok_results [ok_rules]:
  "call_pcs info \<subseteq> A \<Longrightarrow> ok G A (setOpenMultiRet info) nothing" "call_pcs info \<subseteq> A \<Longrightarrow> ok G A (setWantedResults info n) nothing"
  unfolding setOpenMultiRet_def setWantedResults_def call_pcs_def
  by (assumption | rule ok_rules conjI impI allI | split ok_splits | force)+

lemma ok_multi_result: "good e \<Longrightarrow> multi_result E e base = Some m \<Longrightarrow> ok G A m call_pcs"
  unfolding multi_result_def by (auto split: option.splits if_splits intro: good_call ok_emitVarargExpr)

definition tc_pcs :: "table_counts \<Rightarrow> int set" where
  "tc_pcs c = (case tc_last c of Some info \<Rightarrow> call_pcs info | None \<Rightarrow> {})"

lemma tc_pcs_update [simp]:
  "tc_pcs (c\<lparr>tc_na := a\<rparr>) = tc_pcs c" "tc_pcs (c\<lparr>tc_nh := a\<rparr>) = tc_pcs c" "tc_pcs (c\<lparr>tc_tostore := a\<rparr>) = tc_pcs c"
  "tc_pcs (c\<lparr>tc_last := Some info\<rparr>) = call_pcs info"
  by (simp_all add: tc_pcs_def)

lemma ok_emitSetList [ok_rules]: "ok G A (emitSetList E t n b) nothing"
  unfolding emitSetList_def by (rule ok_rules)+

lemma ok_emit_hash_field [ok_rules]: "good k \<Longrightarrow> good v \<Longrightarrow> ok G A (emit_hash_field E t k v) nothing"
  unfolding emit_hash_field_def by (assumption | rule ok_rules | force)+

lemma ok_emit_item [ok_rules]: "good v \<Longrightarrow> tc_pcs c \<subseteq> A \<Longrightarrow> ok G A (emit_item E t v c) tc_pcs"
  unfolding emit_item_def Let_def by (assumption | rule ok_rules | force)+

definition good_field :: "emitters option \<times> emitters \<Rightarrow> bool" where
  "good_field fld \<longleftrightarrow> (case fst fld of Some k \<Rightarrow> good k | None \<Rightarrow> True) \<and> good (snd fld)"

lemma ok_emit_field [ok_rules]:
  assumes "good_field fld" "tc_pcs c \<subseteq> A"
  shows "ok G A (emit_field E t l fld c) tc_pcs"
proof (cases fld)
  case (Pair ko v)
  have v: "good v" using assms(1) Pair by (simp add: good_field_def)
  show ?thesis
  proof (cases ko)
    case (Some k)
    have k: "good k" using assms(1) Pair Some by (simp add: good_field_def)
    show ?thesis unfolding Pair Some emit_field_def using assms(2)
      by simp (assumption | rule k v ok_rules | force)+
  next
    case None
    have m: "ok G A m call_pcs" if "(if l then multi_result E v b else None) = Some m" for m b
      using that ok_multi_result [OF v] by (simp split: if_splits)
    show ?thesis unfolding Pair None emit_field_def Let_def using assms(2)
      by (auto split: option.split intro!: ok_bind [OF m] ok_ret ok_emit_item v)
  qed
qed

lemma ok_emit_fields [ok_rules]:
  "list_all good_field fs \<Longrightarrow> tc_pcs c \<subseteq> A \<Longrightarrow> ok G A (emit_fields E t fs c) tc_pcs"
proof (induction fs arbitrary: c A)
  case (Cons f fs)
  then have f: "good_field f" "list_all good_field fs" by simp_all
  show ?case unfolding emit_fields.simps
    by (rule ok_bind [OF ok_emit_field [OF f(1) Cons.prems(2)]], rule Cons.IH [OF f(2)]) simp
qed (simp add: ok_ret)

lemma ok_flush_items [ok_rules]: "tc_pcs c \<subseteq> A \<Longrightarrow> ok G A (flush_items E t c) nothing"
  unfolding flush_items_def Let_def tc_pcs_def
  by (assumption | rule ok_rules conjI impI allI | split ok_splits | force simp: call_pcs_def)+

lemma ok_emitValueTable [ok_rules]: "list_all good_field fs \<Longrightarrow> ok G A (emitValueTable E fs) vr_pcs"
  unfolding emitValueTable_def by (assumption | rule ok_rules | force simp: tc_pcs_def)+

lemma ok_moveRegRange [ok_rules]: "ok G A (moveRegRange E d s n) nothing"
  unfolding moveRegRange_def by (rule ok_rules | simp)+

lemma ok_method_key:
  "ok G A (if k \<le> MAXINDEXRK then g_seq (freeReg r) (g_ret x) else valueToAnyReg E (VR_Constant k)) nothing"
  by (rule ok_rules | simp)+

lemma ok_emit_self [ok_rules]: "good f \<Longrightarrow> ok G A (emit_self E f) nothing"
  unfolding emit_self_def
  by (assumption | erule good_object | rule ok_method_key ok_rules conjI impI allI | split ok_splits | force)+

lemma ok_emit_callee [ok_rules]: "good f \<Longrightarrow> ok G A (emit_callee E f) nothing"
  unfolding emit_callee_def by (assumption | rule ok_rules | force)+

lemma ok_emit_arg [ok_rules]:
  assumes "good a"
  shows "ok G A (emit_arg E t l a) nothing"
proof -
  have m: "ok G A m call_pcs" if "(if l then multi_result E a t else None) = Some m" for m
    using that ok_multi_result [OF assms] by (simp split: if_splits)
  show ?thesis unfolding emit_arg_def
    by (cases "if l then multi_result E a t else None")
      (simp_all, (assumption | rule ok_bind [OF m] assms ok_rules conjI impI allI | split ok_splits | force simp: call_pcs_def)+)
qed

lemma ok_emit_args [ok_rules]: "list_all good as \<Longrightarrow> ok G A (emit_args E t as) nothing"
proof (induction as arbitrary: t A)
  case (Cons a as)
  then have goods: "good a" "list_all good as" by simp_all
  show ?case unfolding emit_args.simps by (rule goods Cons.IH ok_rules | simp)+
qed (simp add: ok_ret)

lemma ok_call_base [ok_rules]: "ok G A (call_base E t b s h d) nothing"
  unfolding call_base_def Let_def by (rule ok_rules | simp)+

lemma ok_callee:
  "good f \<Longrightarrow> ok G A (if m then g_bind (emit_self E f) (\<lambda>base. g_ret (base, False)) else emit_callee E f) nothing"
  by (assumption | rule ok_rules | simp)+

lemma ok_emitCallExpr [ok_rules]: "good f \<Longrightarrow> list_all good as \<Longrightarrow> ok G A (emitCallExpr E l f as m t) call_pcs"
  unfolding emitCallExpr_def Let_def
  by (assumption | rule ok_callee ok_rules conjI impI allI | split ok_splits | force simp: call_pcs_def)+

lemma ok_no_lvalue [ok_rules]: "ok G A no_lvalue nothing"
  unfolding no_lvalue_def by (rule ok_rules | simp)+

lemma ok_emitStore [ok_rules]: "vr_pcs v \<subseteq> A \<Longrightarrow> ok G A (emitStore E t v) nothing"
  unfolding emitStore_def
  by (assumption | rule ok_rules conjI impI allI | split lvalue_ref.split option.split | force)+

end
