(* ===== verification/GenBlocks.thy ===== *)
theory GenBlocks
  imports GenExprEnds
begin

text \<open>
  The loops along the jump lists end, since a list is a chain that is not longer than the code: patching a list, leaving a
  block, and the jumps of \<open>break\<close>, which become the last of the list of the innermost loop.
\<close>

section \<open>Instructions that are left alone\<close>

lemma well_gen_more: "well_gen (G \<union> P) f \<longleftrightarrow> well_gen G f \<and> (\<forall>pc \<in> P. 0 \<le> pc \<and> pc < code_length f \<and> pc \<notin> open_jumps f)"
  by (auto simp: well_gen_def)

lemma ok_framed:
  assumes "ok (G \<union> P) A m V" "well_gen G (gn_current s)" "P \<subseteq> closed G (gn_current s)" "A \<subseteq> closed (G \<union> P) (gn_current s)"
  shows "ends_well G s (\<lambda>x. V x \<union> P) (m s)"
    "\<And>x s' pc. m s = Inr (x, s') \<Longrightarrow> pc \<in> P \<Longrightarrow> fs_code (gn_current s') ! nat pc = fs_code (gn_current s) ! nat pc"
proof -
  have well_gen: "well_gen (G \<union> P) (gn_current s)" using assms(2,3) by (auto simp: well_gen_more closed_def)
  have r: "ends_well (G \<union> P) s V (m s)" by (rule okD [OF assms(1) well_gen assms(4)])
  show "fs_code (gn_current s') ! nat pc = fs_code (gn_current s) ! nat pc" if "m s = Inr (x, s')" "pc \<in> P" for x s' pc
    using r that by (auto simp: grows_def)
  show "ends_well G s (\<lambda>x. V x \<union> P) (m s)"
  proof (cases "m s")
    case (Inr y)
    obtain x s' where y: "m s = Inr (x, s')" using Inr by (cases y) auto
    have i: "well_gen (G \<union> P) (gn_current s')" and g: "grows (G \<union> P) (gn_current s) (gn_current s')"
      and v: "V x \<subseteq> closed (G \<union> P) (gn_current s')" using r y by simp_all
    have less: "closed (G \<union> P) f = closed G f - P" for f by (auto simp: closed_def)
    have p: "P \<subseteq> closed G (gn_current s')" using i assms(3) by (auto simp: well_gen_more closed_def)
    then have "grows G (gn_current s) (gn_current s')" using g by (auto simp: grows_def less)
    then show ?thesis using y r i v p by (auto simp: well_gen_more less)
  qed (use r in simp)
qed

section \<open>Patching a list\<close>

lemma getJump_at: "0 \<le> pc \<Longrightarrow> nat pc < length (fs_code (gn_current s)) \<Longrightarrow>
    getJump pc s = Inr (jump_target pc (fs_code (gn_current s) ! nat pc), s)"
  by (simp add: getJump_def instruction_at_def getInstruction_def g_bind_def g_here_def g_ret_def)

lemma patch_list_ends:
  "chain (fs_code (gn_current s)) l pcs \<Longrightarrow> distinct pcs \<Longrightarrow> well_gen G (gn_current s) \<Longrightarrow> set pcs \<subseteq> closed G (gn_current s) \<Longrightarrow>
   length pcs < n \<Longrightarrow> ends_well G s nothing (patch_list n l dest s)"
proof (induction pcs arbitrary: l s n)
  case Nil
  then show ?case by (cases n) (simp_all add: g_ret_def)
next
  case (Cons pc pcs)
  let ?code = "fs_code (gn_current s)"
  obtain m where n: "n = Suc m" "length pcs < m" using Cons.prems(5) by (cases n) auto
  have l: "l = pc" "0 \<le> pc" "nat pc < length ?code" and rest: "chain ?code (jump_target pc (?code ! nat pc)) pcs"
    using Cons.prems(1) by auto
  have fix_ok: "ok (G \<union> set pcs) {pc} (fixJump pc dest) nothing" by (rule ok_fixJump) simp
  have P: "set pcs \<subseteq> closed G (gn_current s)" and A: "{pc} \<subseteq> closed (G \<union> set pcs) (gn_current s)"
    using Cons.prems(2,4) by (auto simp: closed_def)
  note r = ok_framed [OF fix_ok Cons.prems(3) P A]
  have step: "patch_list n l dest s = g_seq (fixJump pc dest) (patch_list m (jump_target pc (?code ! nat pc)) dest) s"
    using l n by (simp add: g_bind_def getJump_at NO_JUMP_def)
  show ?case
  proof (cases "fixJump pc dest s")
    case (Inl e)
    then show ?thesis unfolding step using r(1) by (simp add: g_seq_def g_bind_def)
  next
    case (Inr y)
    obtain s1 where y: "fixJump pc dest s = Inr ((), s1)" using Inr by (cases y) auto
    have s1: "well_gen G (gn_current s1)" "grows G (gn_current s) (gn_current s1)" "set pcs \<subseteq> closed G (gn_current s1)"
      "list_all2 outer (gn_parents s) (gn_parents s1)" using r(1) y by auto
    have "chain (fs_code (gn_current s1)) (jump_target pc (?code ! nat pc)) pcs"
      using chain_cong [OF rest] r(2) [OF y] s1(2) by (simp add: grows_def code_length_def)
    then have "ends_well G s1 nothing (patch_list m (jump_target pc (?code ! nat pc)) dest s1)"
      using Cons.IH Cons.prems(2) s1 n(2) by simp
    then show ?thesis unfolding step using y ends_well_trans s1(2,4) by (simp add: g_seq_def g_bind_def)
  qed
qed

lemma chain_length: "chain code l pcs \<Longrightarrow> distinct pcs \<Longrightarrow> length pcs \<le> length code"
proof -
  assume c: "chain code l pcs" and d: "distinct pcs"
  have "set pcs \<subseteq> int ` {..<length code}" 
  proof
    fix pc assume "pc \<in> set pcs"
    then have "pc = int (nat pc)" "nat pc < length code" using chain_range [OF c] by auto
    then show "pc \<in> int ` {..<length code}" by blast
  qed
  then have "card (set pcs) \<le> card (int ` {..<length code})" by (rule card_mono [rotated]) simp
  then show ?thesis using d by (simp add: distinct_card card_image)
qed

lemma list_turns_at: "list_turns s = Inr (Suc (length (fs_code (gn_current s))), s)"
  by (simp add: list_turns_def instructionCount_def g_bind_def g_here_def g_ret_def code_length_def)

lemma patchList_ends:
  "chain (fs_code (gn_current s)) l pcs \<Longrightarrow> distinct pcs \<Longrightarrow> well_gen G (gn_current s) \<Longrightarrow> set pcs \<subseteq> closed G (gn_current s) \<Longrightarrow>
   ends_well G s nothing (patchList l dest s)"
  by (simp add: patchList_def g_bind_def list_turns_at patch_list_ends chain_length less_Suc_eq_le del: patch_list.simps)

section \<open>A single new jump\<close>

text \<open>A new jump is a list of its own.\<close>

definition fresh_jump :: "int \<Rightarrow> function_state \<Rightarrow> bool" where
  "fresh_jump j f \<longleftrightarrow> chain (fs_code f) j [j]"

lemma jump_target_new: "jump_target pc (CREATE_AsBx OP_JMP 0 NO_JUMP) = NO_JUMP"
proof -
  have "GETARG_sBx (CREATE_AsBx OP_JMP 0 NO_JUMP) = NO_JUMP"
    by (rule decode_CREATE_AsBx) (simp_all add: NO_JUMP_def layout_simps)
  then show ?thesis by (simp add: jump_target_def)
qed

lemma emitJump_fresh:
  assumes "well_gen G (gn_current s)" "emitJump E s = Inr (j, s')"
  shows "fresh_jump j (gn_current s')" "j = code_length (gn_current s)" "well_gen G (gn_current s')"
    "grows G (gn_current s) (gn_current s')" "j \<in> closed G (gn_current s')" "list_all2 outer (gn_parents s) (gn_parents s')"
    "fs_blocks (gn_current s') = fs_blocks (gn_current s)"
proof -
  have e: "emit E (CREATE_AsBx OP_JMP 0 NO_JUMP) s = Inr (j, s')" using assms by (simp add: emitJump_emit well_gen_def)
  obtain s0 where s0: "g_charge E (\<lambda>now. cb_consumeInstruction now 1) s = Inr ((), s0)"
    using e by (auto simp: emit_def g_seq_def g_bind_def split: sum.splits)
  have same: "gn_current s0 = gn_current s" using s0 by (auto simp: g_charge_def split: prod.splits option.splits)
  have s': "j = code_length (gn_current s)"
    "gn_current s' = update_data (\<lambda>d. addLineInfo (fs_line (gn_current s)) (snd (addInstruction (CREATE_AsBx OP_JMP 0 NO_JUMP) d))) (gn_current s)"
    using e s0 same by (auto simp: emit_def g_seq_def g_bind_def instructionCount_def g_here_def g_change_def g_ret_def)
  then show "j = code_length (gn_current s)" by simp
  note i = well_gen_emit [OF assms(1) s'(2)]
  show "fresh_jump j (gn_current s')"
    using i(4) s'(1) by (simp add: fresh_jump_def code_length_def jump_target_new)
  show "fs_blocks (gn_current s') = fs_blocks (gn_current s)" using s'(2) by (simp add: update_data_def)
  have "ends_well G s this_pc (emitJump E s)" by (rule okD [OF ok_emitJump assms(1)]) (rule empty_subsetI)
  then show "well_gen G (gn_current s')" "grows G (gn_current s) (gn_current s')" "j \<in> closed G (gn_current s')"
    "list_all2 outer (gn_parents s) (gn_parents s')" using assms(2) by simp_all
qed

text \<open>The jump back to the start of a loop.\<close>

lemma ok_jump_back [ok_rules]: "ok G A (g_bind (emitJump E) (\<lambda>j. patchList j dest)) nothing"
  unfolding ok_def
proof (intro allI impI)
  fix s :: gen_state assume well_gen: "well_gen G (gn_current s)"
  show "ends_well G s nothing (g_bind (emitJump E) (\<lambda>j. patchList j dest) s)"
  proof (cases "emitJump E s")
    case (Inl e)
    then show ?thesis using okD [OF ok_emitJump well_gen empty_subsetI, of E] by (simp add: g_bind_def)
  next
    case (Inr y)
    obtain j s1 where y: "emitJump E s = Inr (j, s1)" using Inr by (cases y) auto
    note j = emitJump_fresh [OF well_gen y]
    have "ends_well G s1 nothing (patchList j dest s1)"
      by (rule patchList_ends [where pcs = "[j]"]) (use j in \<open>simp_all add: fresh_jump_def\<close>)
    then show ?thesis using y ends_well_trans j(4,6) by (simp add: g_bind_def)
  qed
qed

section \<open>Blocks\<close>

text \<open>What ends a block: the function grows, and the innermost block is gone.\<close>

definition leaves_well :: "int set \<Rightarrow> gen_state \<Rightarrow> block_info list \<Rightarrow> ('a \<Rightarrow> int set) \<Rightarrow> gen_error + 'a \<times> gen_state \<Rightarrow> bool" where
  "leaves_well G s bs V r \<longleftrightarrow> (case r of
        Inl e \<Rightarrow> e \<noteq> GE_Endless
      | Inr (x, s') \<Rightarrow> well_gen G (gn_current s') \<and> code_length (gn_current s) \<le> code_length (gn_current s') \<and>
          closed G (gn_current s) \<subseteq> closed G (gn_current s') \<and>
          (\<forall>pc \<in> G. fs_code (gn_current s') ! nat pc = fs_code (gn_current s) ! nat pc) \<and>
          list_all2 same_block bs (fs_blocks (gn_current s')) \<and> V x \<subseteq> closed G (gn_current s') \<and>
          list_all2 outer (gn_parents s) (gn_parents s'))"

definition leaves :: "int set \<Rightarrow> int set \<Rightarrow> 'a gen \<Rightarrow> ('a \<Rightarrow> int set) \<Rightarrow> bool" where
  "leaves G A m V \<longleftrightarrow> (\<forall>s b bs. well_gen G (gn_current s) \<longrightarrow> fs_blocks (gn_current s) = b # bs \<longrightarrow>
     A \<subseteq> closed G (gn_current s) \<longrightarrow> leaves_well G s bs V (m s))"

lemma chains_keep:
  "list_all2 (\<lambda>b. chain code (bi_breaklist b)) bs ns \<Longrightarrow> length code \<le> length code' \<Longrightarrow>
   (\<And>pc. pc \<in> set (concat ns) \<Longrightarrow> code' ! nat pc = code ! nat pc) \<Longrightarrow> list_all2 (\<lambda>b. chain code' (bi_breaklist b)) bs ns"
  by (induction rule: list_all2_induct) (auto intro: chain_cong)

lemma ok_enter [ok_rules]:
  assumes "leaves G A m V"
  shows "ok G A (g_seq (enterBlock breakable) m) V"
  unfolding ok_def
proof (intro allI impI)
  fix s :: gen_state assume wf: "well_gen G (gn_current s)" and A: "A \<subseteq> closed G (gn_current s)"
  let ?f = "gn_current s"
  let ?b = "\<lparr>bi_breaklist = NO_JUMP, bi_activeVarCount = fs_activeVarCount ?f, bi_isbreakable = breakable\<rparr>"
  let ?f1 = "?f\<lparr>fs_blocks := ?b # fs_blocks ?f\<rparr>"
  let ?s1 = "s\<lparr>gn_current := ?f1\<rparr>"
  obtain ns where ns: "list_all2 (\<lambda>b. chain (fs_code ?f) (bi_breaklist b)) (fs_blocks ?f) ns" "distinct (concat ns)"
    using wf by (auto simp: well_gen_def chains_ok_def)
  have ns1: "list_all2 (\<lambda>b. chain (fs_code ?f1) (bi_breaklist b)) (fs_blocks ?f1) ([] # ns)" using ns(1) by simp
  have chains: "chains_ok (fs_code ?f1) (fs_blocks ?f1)" unfolding chains_ok_def using ns1 ns(2) by (intro exI [of _ "[] # ns"]) simp
  have jumps: "open_jumps ?f1 = open_jumps ?f" using open_in_chains [OF ns1] open_in_chains [OF ns(1)] by (simp add: open_jumps_def)
  have same: "code_length ?f1 = code_length ?f" "closed G ?f1 = closed G ?f" using jumps by (simp_all add: code_length_def closed_def)
  have wf1: "well_gen G ?f1" using wf chains jumps same by (simp add: well_gen_def declared_in_order_def)
  have "enterBlock breakable s = Inr ((), ?s1)" by (simp add: enterBlock_def g_change_def)
  then have run: "g_seq (enterBlock breakable) m s = m ?s1" by (simp add: g_seq_def g_bind_def)
  show "ends_well G s V (g_seq (enterBlock breakable) m s)"
    using assms [unfolded leaves_def, rule_format, of ?s1 ?b "fs_blocks ?f"] wf1 A same
    unfolding run ends_well_def leaves_well_def grows_def by (cases "m ?s1") (auto split: prod.splits)
qed

lemma leaves_bind:
  assumes "ok G A m V" "\<And>x. leaves G (A \<union> V x) (k x) W"
  shows "leaves G A (g_bind m k) W"
  unfolding leaves_def
proof (intro allI impI)
  fix s :: gen_state and b bs
  assume wf: "well_gen G (gn_current s)" and bs: "fs_blocks (gn_current s) = b # bs" and A: "A \<subseteq> closed G (gn_current s)"
  note r = okD [OF assms(1) wf A]
  show "leaves_well G s bs W (g_bind m k s)"
  proof (cases "m s")
    case (Inl e)
    then show ?thesis using r by (simp add: g_bind_def leaves_well_def)
  next
    case (Inr y)
    obtain x s1 where y: "m s = Inr (x, s1)" using Inr by (cases y) auto
    then have s1: "well_gen G (gn_current s1)" "grows G (gn_current s) (gn_current s1)" "V x \<subseteq> closed G (gn_current s1)"
      "list_all2 outer (gn_parents s) (gn_parents s1)" using r by simp_all
    obtain b1 bs1 where bs1: "fs_blocks (gn_current s1) = b1 # bs1" "list_all2 same_block bs bs1"
      using s1(2) bs by (auto simp: grows_def list_all2_Cons1)
    have "A \<union> V x \<subseteq> closed G (gn_current s1)" using A s1(2,3) by (auto simp: grows_def)
    note r1 = assms(2) [unfolded leaves_def, rule_format, OF s1(1) bs1(1) this]
    show ?thesis
      using r1 y s1(2,4) bs1(2) by (auto simp: leaves_well_def g_bind_def grows_def split: sum.splits intro: same_block_trans outer_list_trans)
  qed
qed

lemma leaves_seq: "ok G A m nothing \<Longrightarrow> leaves G A k W \<Longrightarrow> leaves G A (g_seq m k) W"
  unfolding g_seq_def by (rule leaves_bind [where V = nothing]) simp_all

lemma leaves_if: "(c \<Longrightarrow> leaves G A m V) \<Longrightarrow> (\<not> c \<Longrightarrow> leaves G A k V) \<Longrightarrow> leaves G A (if c then m else k) V"
  by simp

lemma leaves_then:
  assumes "leaves G A m nothing" "ok G A k W"
  shows "leaves G A (g_seq m k) W"
  unfolding leaves_def
proof (intro allI impI)
  fix s :: gen_state and b bs
  assume s: "well_gen G (gn_current s)" "fs_blocks (gn_current s) = b # bs" "A \<subseteq> closed G (gn_current s)"
  note r = assms(1) [unfolded leaves_def, rule_format, OF s]
  show "leaves_well G s bs W (g_seq m k s)"
  proof (cases "m s")
    case (Inl e)
    then show ?thesis using r by (simp add: g_seq_def g_bind_def leaves_well_def)
  next
    case (Inr y)
    obtain s1 where y: "m s = Inr ((), s1)" using Inr by (cases y) auto
    have A: "A \<subseteq> closed G (gn_current s1)" and wf: "well_gen G (gn_current s1)" using r y s(3) by (auto simp: leaves_well_def)
    show ?thesis
      using okD [OF assms(2) wf A] r y
      by (auto simp: leaves_well_def g_seq_def g_bind_def ends_well_def grows_def split: sum.splits intro: same_block_trans outer_list_trans)
  qed
qed

section \<open>Leaving a block\<close>

lemma well_gen_pop:
  assumes "well_gen G f" "fs_blocks f = b # bs"
  obtains pcs where "chain (fs_code f) (bi_breaklist b) pcs" "distinct pcs" "well_gen G (f\<lparr>fs_blocks := bs\<rparr>)"
    "set pcs \<subseteq> closed G (f\<lparr>fs_blocks := bs\<rparr>)" "closed G f \<subseteq> closed G (f\<lparr>fs_blocks := bs\<rparr>)"
proof -
  let ?f = "f\<lparr>fs_blocks := bs\<rparr>"
  obtain ns where ns: "list_all2 (\<lambda>b. chain (fs_code f) (bi_breaklist b)) (b # bs) ns" "distinct (concat ns)"
    using assms by (auto simp: well_gen_def chains_ok_def)
  then obtain pcs ms where p: "ns = pcs # ms" "chain (fs_code f) (bi_breaklist b) pcs"
    "list_all2 (\<lambda>b. chain (fs_code f) (bi_breaklist b)) bs ms" by (auto simp: list_all2_Cons1)
  have jumps: "open_jumps f = set pcs \<union> open_jumps ?f" "open_jumps ?f = set (concat ms)"
    using open_in_chains [OF ns(1)] open_in_chains [OF p(3)] p(1) assms(2) by (simp_all add: open_jumps_def)
  have chains: "chains_ok (fs_code ?f) (fs_blocks ?f)" unfolding chains_ok_def using p(3) ns(2) p(1) by (intro exI [of _ ms]) simp
  have len: "code_length ?f = code_length f" by (simp add: code_length_def)
  have G: "pc \<notin> G" if "pc \<in> set pcs" for pc using that assms(1) jumps by (auto simp: well_gen_def)
  have wf: "well_gen G ?f" using assms(1) chains jumps len by (simp add: well_gen_def declared_in_order_def)
  have "0 \<le> pc \<and> pc < code_length ?f" if "pc \<in> set pcs" for pc
    using chain_range [OF p(2) that] unfolding len unfolding code_length_def by linarith
  then have "set pcs \<subseteq> closed G ?f" using G jumps(2) ns(2) p(1) by (auto simp: closed_def)
  moreover have "closed G f \<subseteq> closed G ?f" using jumps len by (auto simp: closed_def)
  ultimately show thesis using that p(1,2) ns(2) wf by simp
qed

lemma leaves_leaveBlock: "leaves G A (leaveBlock E) nothing"
  unfolding leaves_def
proof (intro allI impI)
  fix s :: gen_state and b bs
  assume wf: "well_gen G (gn_current s)" and bs: "fs_blocks (gn_current s) = b # bs"
  let ?f = "gn_current s"
  let ?s0 = "s\<lparr>gn_current := ?f\<lparr>fs_blocks := bs\<rparr>\<rparr>"
  obtain pcs where pcs: "chain (fs_code ?f) (bi_breaklist b) pcs" "distinct pcs" "well_gen G (gn_current ?s0)"
    "set pcs \<subseteq> closed G (gn_current ?s0)" "closed G ?f \<subseteq> closed G (gn_current ?s0)"
    using well_gen_pop [OF wf bs] by auto
  have run: "leaveBlock E s = g_seq (removeLocalVars E (bi_activeVarCount b)) (g_bind getLabel (\<lambda>here. patchList (bi_breaklist b) here)) ?s0"
    using bs by (simp add: leaveBlock_def g_bind_def g_here_def g_seq_def g_change_def)
  have "ok (G \<union> set pcs) {} (removeLocalVars E (bi_activeVarCount b)) nothing" by (rule ok_rules)
  note r = ok_framed [OF this pcs(3,4) empty_subsetI]
  have "ends_well G ?s0 nothing (leaveBlock E s)"
  proof (cases "removeLocalVars E (bi_activeVarCount b) ?s0")
    case (Inl e)
    then show ?thesis unfolding run using r(1) by (simp add: g_seq_def g_bind_def)
  next
    case (Inr y)
    obtain s1 where y: "removeLocalVars E (bi_activeVarCount b) ?s0 = Inr ((), s1)" using Inr by (cases y) auto
    have s1: "well_gen G (gn_current s1)" "grows G (gn_current ?s0) (gn_current s1)" "set pcs \<subseteq> closed G (gn_current s1)"
      "list_all2 outer (gn_parents ?s0) (gn_parents s1)" using r(1) y by auto
    have "chain (fs_code (gn_current s1)) (bi_breaklist b) pcs"
      using chain_cong [OF pcs(1)] r(2) [OF y] s1(2) by (simp add: grows_def code_length_def)
    then have "ends_well G s1 nothing (patchList (bi_breaklist b) (code_length (gn_current s1)) s1)"
      using patchList_ends pcs(2) s1(1,3) by blast
    then have "ends_well G ?s0 nothing (patchList (bi_breaklist b) (code_length (gn_current s1)) s1)"
      using ends_well_trans s1(2,4) by blast
    then show ?thesis unfolding run using y by (simp add: g_seq_def g_bind_def getLabel_def instructionCount_def g_here_def)
  qed
  then show "leaves_well G s bs nothing (leaveBlock E s)"
    using pcs(5) by (auto simp: ends_well_def leaves_well_def grows_def code_length_def split: sum.splits)
qed

section \<open>Break\<close>

lemma chain_snoc_unique: "chain code l (pcs @ [pc]) \<Longrightarrow> jump_target pc (code ! nat pc) = NO_JUMP"
  by (induction pcs arbitrary: l) auto

lemma last_jump_at:
  "chain (fs_code (gn_current s)) l (pcs @ [pc]) \<Longrightarrow> length pcs < n \<Longrightarrow> last_jump n l s = Inr (pc, s)"
proof (induction pcs arbitrary: l n)
  case Nil
  then show ?case by (cases n) (simp_all add: g_bind_def getJump_at g_ret_def)
next
  case (Cons q pcs)
  then obtain m where m: "n = Suc m" "length pcs < m" by (cases n) auto
  have q: "l = q" "0 \<le> q" "nat q < length (fs_code (gn_current s))"
    and rest: "chain (fs_code (gn_current s)) (jump_target q (fs_code (gn_current s) ! nat q)) (pcs @ [pc])"
    using Cons.prems(1) by auto
  have "jump_target q (fs_code (gn_current s) ! nat q) \<noteq> NO_JUMP" using rest by (cases pcs) (auto simp: NO_JUMP_def)
  then show ?case using q m Cons.IH [OF rest m(2)] by (simp add: g_bind_def getJump_at)
qed

lemma break_kept:
  assumes "well_gen G f" "fs_blocks f = ys @ b # zs" "chain (fs_code f) (bi_breaklist b) n" "j \<in> closed G f"
    and blocks: "fs_blocks f' = ys @ b\<lparr>bi_breaklist := l\<rparr> # zs" and l: "chain (fs_code f') l (n @ [j])"
    and code: "length (fs_code f') = length (fs_code f)" "\<And>pc. pc \<notin> set n \<Longrightarrow> 0 \<le> pc \<Longrightarrow> fs_code f' ! nat pc = fs_code f ! nat pc"
    and same: "fs_jpc f' = fs_jpc f" "pd_lineInfo (fs_data f') = pd_lineInfo (fs_data f)" "fs_localVars f' = fs_localVars f"
    "pd_locvars (fs_data f') = pd_locvars (fs_data f)" "sub_protos (fs_proto f') = sub_protos (fs_proto f)"
  shows "well_gen G f'" "closed G f - {j} \<subseteq> closed G f'" "\<forall>pc \<in> G. fs_code f' ! nat pc = fs_code f ! nat pc"
    "list_all2 same_block (fs_blocks f) (fs_blocks f')" "code_length f' = code_length f"
proof -
  obtain ns where "list_all2 (\<lambda>b. chain (fs_code f) (bi_breaklist b)) (ys @ b # zs) ns" and d: "distinct (concat ns)"
    using assms(1,2) by (auto simp: well_gen_def chains_ok_def)
  then obtain ms n' ks where ns: "ns = ms @ n' # ks" "list_all2 (\<lambda>b. chain (fs_code f) (bi_breaklist b)) ys ms"
    "chain (fs_code f) (bi_breaklist b) n'" "list_all2 (\<lambda>b. chain (fs_code f) (bi_breaklist b)) zs ks"
    by (auto simp: list_all2_append1 list_all2_Cons1)
  have n: "n' = n" using chain_unique [OF ns(3) assms(3)] .
  have all: "list_all2 (\<lambda>b. chain (fs_code f) (bi_breaklist b)) (fs_blocks f) (ms @ n # ks)"
    unfolding assms(2) using ns n by (simp add: list_all2_appendI)
  have jumps: "open_jumps f = set (concat (ms @ n # ks))" unfolding open_jumps_def by (rule open_in_chains [OF all])
  have range: "0 \<le> pc" if "pc \<in> open_jumps f \<union> G" for pc
    using that assms(1) open_in_range by (auto simp: open_jumps_def well_gen_def)
  have agree: "fs_code f' ! nat pc = fs_code f ! nat pc" if "pc \<in> set (concat ms) \<union> set (concat ks) \<union> G" for pc
    by (rule code(2)) (use that d ns(1) n jumps range assms(1) in \<open>auto simp: well_gen_def\<close>)
  have "list_all2 (\<lambda>b. chain (fs_code f') (bi_breaklist b)) ys ms" "list_all2 (\<lambda>b. chain (fs_code f') (bi_breaklist b)) zs ks"
    by (rule chains_keep [OF ns(2)] chains_keep [OF ns(4)]; simp add: code(1) agree)+
  then have all': "list_all2 (\<lambda>b. chain (fs_code f') (bi_breaklist b)) (fs_blocks f') (ms @ (n @ [j]) # ks)"
    unfolding blocks using l by (simp add: list_all2_appendI)
  have jumps': "open_jumps f' = insert j (open_jumps f)"
    unfolding jumps unfolding open_jumps_def open_in_chains [OF all'] by auto
  have j: "j \<notin> open_jumps f" "j \<notin> G" using assms(4) by (auto simp: closed_def)
  have "distinct (concat (ms @ (n @ [j]) # ks))" using d ns(1) n j(1) jumps by auto
  then have chains: "chains_ok (fs_code f') (fs_blocks f')" unfolding chains_ok_def using all' by blast
  show len: "code_length f' = code_length f" using code(1) by (simp add: code_length_def)
  show "well_gen G f'" using assms(1) chains jumps' len same code(1) j(2) by (auto simp: well_gen_def declared_in_order_def)
  show "closed G f - {j} \<subseteq> closed G f'" using jumps' len by (auto simp: closed_def)
  show "\<forall>pc \<in> G. fs_code f' ! nat pc = fs_code f ! nat pc" using agree by blast
  show "list_all2 same_block (fs_blocks f) (fs_blocks f')"
    unfolding assms(2) blocks by (intro list_all2_appendI) (simp_all add: same_block_def)
qed

lemma fixJump_at:
  assumes "0 \<le> pc" "nat pc < length (fs_code (gn_current s))" "fixJump pc dest s = r"
  shows "(\<exists>msg. r = Inl msg \<and> msg \<noteq> GE_Endless) \<or>
    (r = Inr ((), s\<lparr>gn_current := update_data (\<lambda>d. d\<lparr>pd_code := (pd_code d)[nat pc :=
       SETARG_sBx (fs_code (gn_current s) ! nat pc) (dest - (pc + 1))]\<rparr>) (gn_current s)\<rparr>) \<and>
     - MAXARG_sBx \<le> dest - (pc + 1) \<and> dest - (pc + 1) \<le> MAXARG_sBx)"
  using assms
  by (auto simp: fixJump_def instruction_at_def getInstruction_def g_bind_def g_here_def g_ret_def Let_def g_fail_def
      replaceInstruction_def setInstruction_def g_change_def update_data_def fs_data_def)

lemma find_split:
  "find p xs = Some b \<Longrightarrow> \<exists>ys zs. xs = ys @ b # zs \<and> (\<forall>u. change_first p u xs = ys @ u b # zs)"
proof (induction xs)
  case (Cons x xs)
  show ?case
  proof (cases "p x")
    case True
    then have "x = b" "p b" using Cons.prems by simp_all
    then show ?thesis by (intro exI [of _ "[]"] exI [of _ xs]) simp
  next
    case False
    then obtain ys zs where "xs = ys @ b # zs" "\<forall>u. change_first p u xs = ys @ u b # zs" using Cons by auto
    then show ?thesis using False by (intro exI [of _ "x # ys"] exI [of _ zs]) simp
  qed
qed simp

text \<open>The jump becomes the last of the list of the innermost loop.\<close>

lemma chain_extended:
  assumes "chain code l (pcs @ [pc])" "distinct (pcs @ [pc])" "j \<notin> set (pcs @ [pc])" "chain code j [j]"
    "- MAXARG_sBx \<le> j - (pc + 1)" "j - (pc + 1) \<le> MAXARG_sBx"
  shows "chain (code[nat pc := SETARG_sBx (code ! nat pc) (j - (pc + 1))]) l ((pcs @ [pc]) @ [j])"
proof -
  let ?inst = "SETARG_sBx (code ! nat pc) (j - (pc + 1))"
  have pc: "0 \<le> pc" "nat pc < length code" using chain_range [OF assms(1), of pc] by simp_all
  have "GETARG_sBx ?inst = j - (pc + 1)" by (rule SETARG_sBx_decode) (use assms(5,6) in simp_all)
  moreover have "j \<noteq> pc" using assms(3) by auto
  ultimately have target: "jump_target pc ?inst = j" by (simp add: jump_target_def NO_JUMP_def)
  have j: "chain (code[nat pc := ?inst]) j [j]" using assms(4) pc \<open>j \<noteq> pc\<close> by (auto simp: nth_list_update eq_nat_nat_iff)
  have others: "(code[nat pc := ?inst]) ! nat q = code ! nat q" if "q \<in> set pcs" for q
  proof -
    have "q \<noteq> pc" "0 \<le> q" using that assms(2) chain_range [OF assms(1), of q] by auto
    then show ?thesis using pc by (simp add: nth_list_update eq_nat_nat_iff)
  qed
  have "chain (code[nat pc := ?inst]) l (pcs @ [pc, j])"
    by (rule chain_snoc [OF assms(1,2) j _ others]) (use pc target in simp_all)
  then show ?thesis by simp
qed

definition appended :: "int set \<Rightarrow> gen_state \<Rightarrow> int \<Rightarrow> gen_error + unit \<times> gen_state \<Rightarrow> bool" where
  "appended G s j r \<longleftrightarrow> (case r of
       Inl e \<Rightarrow> e \<noteq> GE_Endless
     | Inr (_, s') \<Rightarrow> well_gen G (gn_current s') \<and> closed G (gn_current s) - {j} \<subseteq> closed G (gn_current s') \<and>
         (\<forall>pc \<in> G. fs_code (gn_current s') ! nat pc = fs_code (gn_current s) ! nat pc) \<and>
         list_all2 same_block (fs_blocks (gn_current s)) (fs_blocks (gn_current s')) \<and>
         code_length (gn_current s') = code_length (gn_current s) \<and> gn_parents s' = gn_parents s)"

lemma appendBreakJump_ends:
  assumes wf: "well_gen G (gn_current s)" and fresh: "fresh_jump j (gn_current s)" and j: "j \<in> closed G (gn_current s)"
  shows "appended G s j (appendBreakJump j s)"
proof (cases "find bi_isbreakable (fs_blocks (gn_current s))")
  case None
  then show ?thesis using wf by (auto simp: appended_def appendBreakJump_def g_bind_def g_here_def g_ret_def)
next
  case (Some b)
  let ?f = "gn_current s"
  obtain ys zs where blocks: "fs_blocks ?f = ys @ b # zs"
    "\<And>u. change_first bi_isbreakable u (fs_blocks ?f) = ys @ u b # zs" using find_split [OF Some] by auto
  obtain ns where ns: "list_all2 (\<lambda>b. chain (fs_code ?f) (bi_breaklist b)) (fs_blocks ?f) ns" "distinct (concat ns)"
    using wf by (auto simp: well_gen_def chains_ok_def)
  have "set (concat ns) = open_jumps ?f" using open_in_chains [OF ns(1)] by (simp add: open_jumps_def)
  moreover obtain ms n ks where "ns = ms @ n # ks" "chain (fs_code ?f) (bi_breaklist b) n"
    using ns(1) unfolding blocks(1) by (auto simp: list_all2_append1 list_all2_Cons1)
  ultimately have n: "chain (fs_code ?f) (bi_breaklist b) n" "distinct n" "set n \<subseteq> open_jumps ?f" using ns(2) by auto
  have notin: "j \<notin> set n" using n(3) j by (auto simp: closed_def)
  have "j \<noteq> NO_JUMP" using j by (auto simp: closed_def NO_JUMP_def)
  note unfolds = appendBreakJump_def g_bind_def g_here_def Some concatJumpList_def this
  show ?thesis
  proof (cases n rule: rev_cases)
    case Nil
    let ?s = "s\<lparr>gn_current := ?f\<lparr>fs_blocks := ys @ b\<lparr>bi_breaklist := j\<rparr> # zs\<rparr>\<rparr>"
    have run: "appendBreakJump j s = Inr ((), ?s)"
      using n(1) Nil blocks(2) by (simp add: unfolds g_change_def g_ret_def)
    note kept = break_kept [OF wf blocks(1) n(1) j, of "gn_current ?s" j]
    show ?thesis unfolding run appended_def using kept Nil fresh by (simp add: fresh_jump_def code_length_def)
  next
    case (snoc pcs pc)
    have pc: "0 \<le> pc" "nat pc < length (fs_code ?f)" using chain_range [OF n(1), of pc] snoc by simp_all
    have left: "bi_breaklist b \<noteq> NO_JUMP" using n(1) snoc by (cases pcs) (auto simp: NO_JUMP_def)
    have "length pcs < Suc (length (fs_code ?f))" using chain_length [OF n(1,2)] snoc by simp
    then have last: "last_jump (Suc (length (fs_code ?f))) (bi_breaklist b) s = Inr (pc, s)" using last_jump_at n(1) snoc by blast
    consider (error) e where "fixJump pc j s = Inl e" "e \<noteq> GE_Endless"
      | (fixed) "fixJump pc j s = Inr ((), s\<lparr>gn_current := update_data (\<lambda>d. d\<lparr>pd_code := (pd_code d)[nat pc :=
         SETARG_sBx (fs_code ?f ! nat pc) (j - (pc + 1))]\<rparr>) ?f\<rparr>)" "- MAXARG_sBx \<le> j - (pc + 1)" "j - (pc + 1) \<le> MAXARG_sBx"
      using fixJump_at [OF pc refl] by blast
    then show ?thesis
    proof cases
      case error
      then show ?thesis using last left by (simp add: unfolds g_seq_def list_turns_at appended_def del: last_jump.simps)
    next
      case fixed
      let ?code = "(fs_code ?f)[nat pc := SETARG_sBx (fs_code ?f ! nat pc) (j - (pc + 1))]"
      let ?f1 = "update_data (\<lambda>d. d\<lparr>pd_code := (pd_code d)[nat pc := SETARG_sBx (fs_code ?f ! nat pc) (j - (pc + 1))]\<rparr>) ?f"
      let ?s = "s\<lparr>gn_current := ?f1\<lparr>fs_blocks := ys @ b\<lparr>bi_breaklist := bi_breaklist b\<rparr> # zs\<rparr>\<rparr>"
      have f1: "fs_blocks ?f1 = fs_blocks ?f" "fs_code ?f1 = ?code" "fs_jpc ?f1 = fs_jpc ?f" "fs_localVars ?f1 = fs_localVars ?f"
        "pd_lineInfo (fs_data ?f1) = pd_lineInfo (fs_data ?f)" "pd_locvars (fs_data ?f1) = pd_locvars (fs_data ?f)"
        "sub_protos (fs_proto ?f1) = sub_protos (fs_proto ?f)" by (simp_all add: update_data_def fs_data_def)
      have run: "appendBreakJump j s = Inr ((), ?s)"
        using fixed(1) last left blocks(2)
        by (simp add: unfolds g_seq_def list_turns_at g_change_def g_ret_def f1(1) del: last_jump.simps)
      have l: "chain ?code (bi_breaklist b) (n @ [j])"
        using chain_extended [of "fs_code ?f" "bi_breaklist b" pcs pc j] n snoc notin fresh fixed(2,3) by (simp add: fresh_jump_def)
      have others: "?code ! nat q = fs_code ?f ! nat q" if "q \<notin> set n" "0 \<le> q" for q
        using that pc snoc by (auto simp: nth_list_update eq_nat_nat_iff)
      note kept = break_kept [OF wf blocks(1) n(1) j, of "gn_current ?s" "bi_breaklist b"]
      show ?thesis unfolding run appended_def using kept l others f1 by (simp add: code_length_def)
    qed
  qed
qed

lemma ok_break_jump [ok_rules]: "ok G A (g_bind (emitJump E) appendBreakJump) nothing"
  unfolding ok_def
proof (intro allI impI)
  fix s :: gen_state assume wf: "well_gen G (gn_current s)"
  show "ends_well G s nothing (g_bind (emitJump E) appendBreakJump s)"
  proof (cases "emitJump E s")
    case (Inl e)
    then show ?thesis using okD [OF ok_emitJump wf empty_subsetI, of E] by (simp add: g_bind_def)
  next
    case (Inr y)
    obtain j s1 where y: "emitJump E s = Inr (j, s1)" using Inr by (cases y) auto
    note j = emitJump_fresh [OF wf y]
    have "j \<notin> closed G (gn_current s)" using j(2) by (simp add: closed_def)
    moreover have "appended G s1 j (appendBreakJump j s1)" by (rule appendBreakJump_ends [OF j(3,1,5)])
    ultimately show ?thesis
      using y j(4,6) by (auto simp: g_bind_def appended_def ends_well_def grows_def split: sum.splits intro: same_block_trans)
  qed
qed

lemma ok_emit_break [ok_rules]: "ok G A (emit_break E) nothing"
  unfolding emit_break_def by (rule ok_rules conjI impI allI | split ok_splits | simp)+

end
