(* ===== verification/GenStmtEnds.thy ===== *)
theory GenStmtEnds
  imports GenBlocks
begin

text \<open>
  Statements keep the invariant of the code generator: assignments, declarations, \<open>return\<close> and \<open>if\<close>.
\<close>

section \<open>Blocks and assignments\<close>

definition good_stmts :: "statement_emitter list \<Rightarrow> bool" where
  "good_stmts sts \<longleftrightarrow> (\<forall>st \<in> set sts. \<forall>G A. ok G A (snd st) nothing)"

lemma ok_reads [ok_rules]: "ok G A (g_change (\<lambda>f. f\<lparr>fs_futureReads := r\<rparr>)) nothing" "ok G A (g_change (\<lambda>f. f\<lparr>fs_forceNil := b\<rparr>)) nothing"
  by (rule ok_beside, simp add: beside_def)+

lemma ok_statements_in_turn: "good_stmts sts \<Longrightarrow> ok G A (statements_in_turn sts) nothing"
proof (induction sts)
  case (Cons st sts)
  then have st: "ok G A (snd st) nothing" "good_stmts sts" by (simp_all add: good_stmts_def)
  show ?case unfolding statements_in_turn.simps by (rule st Cons.IH ok_rules)+
qed (simp add: ok_ret)

lemma ok_emit_block [ok_rules]: "good_stmts sts \<Longrightarrow> ok G A (emit_block E sts) nothing"
  unfolding emit_block_def by (assumption | rule ok_statements_in_turn ok_rules)+

lemma ok_tryEmitLocalNameAssignment [ok_rules]: "ok G A (tryEmitLocalNameAssignment E ts vs) nothing"
  unfolding tryEmitLocalNameAssignment_def move_in_turn_def
  by (assumption | rule ok_rules conjI impI allI | split ok_splits | force)+

lemma ok_freezeRegister [ok_rules]: "ok G A (freezeRegister E reg) nothing"
  unfolding freezeRegister_def by (rule ok_rules | simp)+

lemma ok_freeze_if:
  "ok G A (if c then freezeRegister E reg else g_ret reg) nothing" "ok G A (if c then g_ret reg else freezeRegister E reg) nothing"
  by (rule ok_rules | simp)+

lemma ok_freezeLValue [ok_rules]: "good t \<Longrightarrow> ok G A (freezeLValue E c as t) nothing"
  unfolding freezeLValue_def by (assumption | rule ok_freeze_if ok_rules conjI impI allI | split lvalue_ref.split | force)+

lemma ok_freeze_targets [ok_rules]: "list_all good ts \<Longrightarrow> ok G A (freeze_targets E c as ts) nothing"
proof (induction ts arbitrary: A)
  case (Cons t ts)
  then have goods: "good t" "list_all good ts" by simp_all
  show ?case unfolding freeze_targets.simps by (rule goods Cons.IH ok_rules | simp)+
qed (simp add: ok_ret)

lemma ok_results_into [ok_rules]: "ok G A m call_pcs \<Longrightarrow> ok G A (results_into m reg wanted) call_pcs"
  unfolding results_into_def
  by (assumption | rule ok_rules conjI impI allI | split ok_splits | force simp: call_pcs_def)+

lemma ok_discardExpression [ok_rules]:
  assumes "good v"
  shows "ok G A (discardExpression E r v) nothing"
  unfolding discardExpression_def
  by (cases "multi_result E v r")
    (simp_all, (assumption | rule assms ok_multi_result [OF assms] ok_rules | simp)+)

lemma ok_assign_value [ok_rules]:
  "vr_pcs val \<subseteq> A \<Longrightarrow> ok G A (if c then g_seq (materializeValue E val r) (g_ret (VR_Register r False AK_None)) else g_ret val) vr_pcs"
  by (assumption | rule ok_rules | simp)+

definition stores_pcs :: "nat \<times> value_result list \<Rightarrow> int set" where
  "stores_pcs r = \<Union> (vr_pcs ` set (snd r))"

lemma ok_assign_values [ok_rules]:
  "list_all good vs \<Longrightarrow> \<Union> (vr_pcs ` set stores) \<subseteq> A \<Longrightarrow> ok G A (assign_values E nvars nexps base i vs stores) stores_pcs"
proof (induction vs arbitrary: i stores A)
  case Nil
  then show ?case by (simp add: ok_ret stores_pcs_def)
next
  case (Cons v vs)
  then have goods: "good v" "list_all good vs" by simp_all
  have m: "ok G A m call_pcs" if "(if c then multi_result E v t else None) = Some m" for m c t
    using that ok_multi_result [OF goods(1)] by (simp split: if_splits)
  let ?c = "i + 1 = nexps \<and> nexps \<le> nvars"
  show ?case
  proof (cases "if ?c then multi_result E v (base + int i) else None")
    case (Some m)
    show ?thesis unfolding assign_values.simps Let_def Some option.case
      by (rule ok_bind [OF ok_results_into [OF m [OF Some]]] ok_rules)+ (use Cons.prems(2) in \<open>auto simp: stores_pcs_def\<close>)
  next
    case None
    show ?thesis unfolding assign_values.simps Let_def None option.case
      by (rule goods ok_assign_value Cons.IH ok_rules | blast)+ (use Cons.prems(2) in auto)
  qed
qed

lemma store_pcs: "vr_pcs (value_for_store base n stores i) \<subseteq> stores_pcs (k, stores)"
  by (auto simp: value_for_store_def stores_pcs_def intro: bexI [OF _ nth_mem])

lemma good_sub: "list_all good vs \<Longrightarrow> list_all good (take n vs)" "list_all good vs \<Longrightarrow> v \<in> set (drop n vs) \<Longrightarrow> good v"
  "list_all good vs \<Longrightarrow> list_all good (butlast vs)" "list_all good vs \<Longrightarrow> vs \<noteq> [] \<Longrightarrow> good (last vs)"
  "list_all good vs \<Longrightarrow> vs \<noteq> [] \<Longrightarrow> good (hd vs)"
  by (auto simp: list_all_iff dest: in_set_takeD in_set_dropD in_set_butlastD)

lemma ok_stores:
  assumes "stores_pcs r \<subseteq> A" "list_all good vs"
  shows "ok G A (case r of (k, stores) \<Rightarrow>
     g_seq (g_each (discardExpression E reg) (drop n vs))
       (g_each (\<lambda>(i, l). emitStore E l (value_for_store base k stores i)) xs)) nothing"
proof (cases r)
  case (Pair k stores)
  have v: "vr_pcs (value_for_store base k stores i) \<subseteq> A" for i using store_pcs assms(1) Pair by blast
  show ?thesis unfolding Pair prod.case by (rule ok_rules good_sub(2) [OF assms(2)] v allI impI | split prod.split | assumption | simp)+
qed

lemma ok_assign_general [ok_rules]: "list_all good ts \<Longrightarrow> list_all good vs \<Longrightarrow> ok G A (assign_general E ts vs) nothing"
  unfolding assign_general_def Let_def
  by (assumption | rule ok_stores good_sub(1) ok_rules | simp add: stores_pcs_def)+

lemma ok_emit_assign [ok_rules]: "list_all good ts \<Longrightarrow> list_all good vs \<Longrightarrow> ok G A (emit_assign E ts vs) nothing"
  unfolding emit_assign_def Let_def by (assumption | rule ok_rules | simp)+

section \<open>Declarations and return\<close>

lemma ok_local_values [ok_rules]: "list_all good vs \<Longrightarrow> ok G A (local_values E reg vs) nothing"
proof (induction vs arbitrary: reg)
  case (Cons v vs)
  then have goods: "good v" "list_all good vs" by simp_all
  show ?case unfolding local_values.simps by (rule goods Cons.IH ok_rules)+
qed (simp add: ok_ret)

lemma ok_move_results [ok_rules]: "ok G A (move_results E t b n) nothing"
  unfolding move_results_def by (rule ok_rules)+

lemma ok_last_local_value [ok_rules]:
  assumes "good v"
  shows "ok G A (last_local_value E base nvars nexps v) nothing"
proof (cases "em_call v")
  case (Some call)
  show ?thesis unfolding last_local_value_def Let_def Some option.case
    by (rule good_call [OF assms Some] ok_rules | simp)+
next
  case None
  show ?thesis unfolding last_local_value_def Let_def None option.case
    by (rule assms ok_rules | simp add: call_pcs_def)+
qed

lemma ok_local_initializers [ok_rules]:
  assumes "list_all good vs" "vs \<noteq> []"
  shows "ok G A (local_initializers E base nvars vs) nothing"
  unfolding local_initializers_def Let_def
  by (rule good_sub(1,3,4) assms ok_rules | simp)+

lemma ok_local_start: "list_all good vs \<Longrightarrow>
    ok G A (if vs = [] then g_here (\<lambda>f. skips_initialization f names) else local_initializers E base nvars vs) nothing"
  by (assumption | rule ok_rules)+

lemma ok_emit_local [ok_rules]: "list_all good vs \<Longrightarrow> ok G A (emit_local E names vs) nothing"
  unfolding emit_local_def Let_def by (assumption | rule ok_local_start ok_rules)+

lemma ok_return_last [ok_rules]:
  assumes "good v"
  shows "ok G A (return_last E base nret v) nothing"
proof (cases "em_call v")
  case (Some call)
  show ?thesis unfolding return_last_def Let_def Some option.case
    by (rule good_call [OF assms Some] ok_rules | simp add: call_pcs_def)+
next
  case None
  show ?thesis unfolding return_last_def Let_def None option.case
    by (rule assms ok_rules | simp add: call_pcs_def)+
qed

lemma ok_emit_return [ok_rules]:
  assumes "list_all good vs"
  shows "ok G A (emit_return E vs) nothing"
proof (cases "vs = []")
  case False
  have "ok G A (return_values E vs) nothing" for A unfolding return_values_def Let_def
    by (rule good_sub(3,4) [OF assms] False ok_rules)+
  note values_ok = this
  show ?thesis using False unfolding emit_return_def
    by (auto split: option.split intro!: ok_bind [OF ok_here] values_ok ok_rules)
qed (auto simp: emit_return_def intro!: ok_rules)

section \<open>Control structures\<close>

lemma ok_emit_branch [ok_rules]: "good (fst b) \<Longrightarrow> good_stmts (snd b) \<Longrightarrow> ok G A (emit_branch E b) set"
  unfolding emit_branch_def by (assumption | rule ok_rules | force simp: cond_pcs_def)+

lemma ok_escape [ok_rules]: "set escapes \<subseteq> A \<Longrightarrow> ok G A (escape E l escapes) set"
  unfolding escape_def by (rule ok_rules | assumption)+ (use set_pl_append in fastforce)

definition good_branch :: "emitters \<times> statement_emitter list \<Rightarrow> bool" where
  "good_branch b \<longleftrightarrow> good (fst b) \<and> good_stmts (snd b)"

definition branch_pcs :: "int list \<times> int list \<Rightarrow> int set" where
  "branch_pcs r = set (fst r) \<union> set (snd r)"

lemma ok_emit_elseifs [ok_rules]:
  "list_all good_branch bs \<Longrightarrow> set escapes \<subseteq> A \<Longrightarrow> set flist \<subseteq> A \<Longrightarrow> ok G A (emit_elseifs E l bs escapes flist) branch_pcs"
proof (induction bs arbitrary: escapes flist A)
  case Nil
  then show ?case by (auto simp: branch_pcs_def intro!: ok_ret)
next
  case (Cons b bs)
  then have "good_branch b" and bs: "list_all good_branch bs" by simp_all
  then have b: "good (fst b)" "good_stmts (snd b)" by (simp_all add: good_branch_def)
  show ?case unfolding emit_elseifs.simps
    by (rule b bs Cons.IH ok_rules | use Cons.prems in auto)+
qed

lemma ok_if_end:
  assumes "branch_pcs r \<subseteq> A" "good_stmts els"
  shows "ok G A (case r of (escapes, flist) \<Rightarrow>
     if els \<noteq> [] then g_bind (escape E l escapes) (\<lambda>escapes1. g_seq (patchAllToHere flist) (g_seq (emit_block E els) (patchAllToHere escapes1)))
     else patchAllToHere (escapes @ flist)) nothing"
proof (cases r)
  case (Pair escapes flist)
  show ?thesis unfolding Pair prod.case by (rule assms(2) ok_rules | use assms(1) Pair in \<open>force simp: branch_pcs_def\<close>)+
qed

lemma ok_emit_if [ok_rules]:
  assumes "list_all good_branch bs" "good_stmts els"
  shows "ok G A (emit_if E bs els l) nothing"
proof (cases bs)
  case (Cons b bs')
  then have "good_branch b" and bs': "list_all good_branch bs'" using assms(1) by simp_all
  then have goods: "good (fst b)" "good_stmts (snd b)" "list_all good_branch bs'" by (simp_all add: good_branch_def)
  show ?thesis unfolding emit_if_def Cons list.case by (rule goods assms(2) ok_if_end ok_rules | simp)+
qed (simp add: emit_if_def ok_ret)

end
