(* ===== verification/GenLoops.thy ===== *)
theory GenLoops
  imports GenStmtEnds
begin

text \<open>
  Loops keep the invariant of the code generator. The jump over the body of a generic loop is not patched until the instruction
  after the body is emitted.
\<close>

section \<open>Loops\<close>

lemma leaves_last: "ok G A k nothing \<Longrightarrow> leaves G A (g_seq (leaveBlock E) k) nothing"
  by (rule leaves_then leaves_leaveBlock | assumption)+

lemmas loop_rules = leaves_last leaves_leaveBlock leaves_bind leaves_seq leaves_if

lemma ok_emit_while [ok_rules]: "good c \<Longrightarrow> good_stmts body \<Longrightarrow> ok G A (emit_while E c body) nothing"
  unfolding emit_while_def by (assumption | rule ok_rules loop_rules | force simp: cond_pcs_def)+

lemma ok_emit_call_statement [ok_rules]:
  assumes "good c"
  shows "ok G A (emit_call_statement E c) nothing"
  unfolding emit_call_statement_def
  by (cases "em_call c") (simp_all, (rule assms good_call [OF assms] ok_rules | assumption | simp)+)

lemma ok_forcing_nil [ok_rules]: "ok G A m nothing \<Longrightarrow> ok G A (forcing_nil m) nothing"
  unfolding forcing_nil_def by (rule ok_rules | simp)+

lemma ok_repeat_value: "good c \<Longrightarrow> ok G A (if b then g_ret (VR_Immediate (Imm_Boolean False)) else em_value c) vr_pcs"
  by (assumption | rule ok_rules | simp)+

lemma ok_emit_repeat [ok_rules]:
  assumes "good c" "\<And>m G A. m \<in> set body \<Longrightarrow> ok G A m nothing"
  shows "ok G A (emit_repeat E body c) nothing"
  unfolding emit_repeat_def
  by (rule ok_rules loop_rules ok_repeat_value assms | simp add: assms(2))+

lemma ok_emit_fornum [ok_rules]:
  assumes "good i" "good m" "good st" "good_stmts body"
  shows "ok G A (emit_fornum E var i m st body) nothing"
  unfolding emit_fornum_def by (rule ok_rules loop_rules assms | simp)+

text \<open>The jump over the body of a generic loop waits until the next instruction.\<close>

lemma fixJump_jpc:
  assumes "0 \<le> pc" "nat pc < length (fs_code (gn_current s))"
  shows "fixJump pc dest (s\<lparr>gn_current := (gn_current s)\<lparr>fs_jpc := j\<rparr>\<rparr>) =
    (case fixJump pc dest s of Inl e \<Rightarrow> Inl e | Inr (x, s') \<Rightarrow> Inr (x, s'\<lparr>gn_current := (gn_current s')\<lparr>fs_jpc := j\<rparr>\<rparr>))"
  using assms
  by (auto simp: fixJump_def instruction_at_def getInstruction_def g_bind_def g_here_def g_ret_def Let_def g_fail_def
      replaceInstruction_def setInstruction_def g_change_def update_data_def)

lemma patchList_fresh:
  assumes "fresh_jump j (gn_current s)"
  shows "patchList j dest s = fixJump j dest s"
proof -
  obtain n where "length (fs_code (gn_current s)) = Suc n" using assms by (cases "length (fs_code (gn_current s))") (auto simp: fresh_jump_def)
  then show ?thesis using assms
    by (cases "fixJump j dest s")
      (auto simp: fresh_jump_def patchList_def g_bind_def list_turns_at getJump_at g_seq_def g_ret_def NO_JUMP_def)
qed

lemma flush_late:
  assumes "fs_jpc (gn_current s) = NO_JUMP" "fresh_jump j (gn_current s)"
  shows "flushPendingJumps (s\<lparr>gn_current := (gn_current s)\<lparr>fs_jpc := j\<rparr>\<rparr>) = fixJump j (code_length (gn_current s)) s"
proof -
  let ?s = "s\<lparr>gn_current := (gn_current s)\<lparr>fs_jpc := j\<rparr>\<rparr>"
  let ?d = "code_length (gn_current s)"
  have j: "0 \<le> j" "nat j < length (fs_code (gn_current s))" using assms(2) by (simp_all add: fresh_jump_def)
  have "fresh_jump j (gn_current ?s)" using assms(2) by (simp add: fresh_jump_def)
  then have run: "flushPendingJumps ?s = g_seq (fixJump j ?d) (g_change (\<lambda>f. f\<lparr>fs_jpc := NO_JUMP\<rparr>)) ?s"
    by (simp add: flushPendingJumps_def g_bind_def instructionCount_def g_here_def g_seq_def patchList_fresh code_length_def)
  have id: "(update_data u (gn_current s))\<lparr>fs_jpc := NO_JUMP\<rparr> = update_data u (gn_current s)" for u
    by (rule jpc_same) (simp add: update_data_def assms(1))
  show ?thesis
    unfolding run g_seq_def g_bind_def fixJump_jpc [OF j]
    using fixJump_at [OF j refl, of ?d] id by (auto simp: g_change_def)
qed

lemma seq_assoc: "g_seq (g_seq m k) n = g_seq m (g_seq k n)"
  by (rule ext) (simp add: g_seq_def g_bind_def split: sum.split)

lemma seq_at: "m s = m' s' \<Longrightarrow> g_seq m k s = g_seq m' k s'"
  by (simp add: g_seq_def g_bind_def)

lemma at_line_at:
  assumes "fs_line (gn_current s) = fs_line (gn_current s')" "m s = m' s'"
    "m (s\<lparr>gn_current := (gn_current s)\<lparr>fs_line := l\<rparr>\<rparr>) = m' (s'\<lparr>gn_current := (gn_current s')\<lparr>fs_line := l\<rparr>\<rparr>)"
  shows "at_line l m s = at_line l m' s'"
  using assms by (simp add: at_line_def g_seq_def g_bind_def g_here_def g_when_def g_change_def g_ret_def)

lemma coded_codeABC: "coded (codeABC E oc a b c) = g_seq flushPendingJumps (coded (emit E (CREATE_ABC oc a b c)))"
  by (rule ext) (simp add: coded_def codeABC_def codeRaw_def g_seq_def g_bind_def split: sum.split)

lemma late_patch:
  assumes "fs_jpc (gn_current s) = NO_JUMP" "fresh_jump j (gn_current s)"
  shows "g_seq (patchToHere j) (at_line l (coded (codeABC E oc a b c))) s =
     at_line l (g_seq (fixJump j (code_length (gn_current s))) (coded (emit E (CREATE_ABC oc a b c)))) s"
proof -
  let ?s1 = "s\<lparr>gn_current := (gn_current s)\<lparr>fs_jpc := j\<rparr>\<rparr>"
  let ?s2 = "s\<lparr>gn_current := (gn_current s)\<lparr>fs_line := l\<rparr>\<rparr>"
  have "j \<noteq> NO_JUMP" using assms(2) by (auto simp: fresh_jump_def NO_JUMP_def)
  then have "patchToHere j s = Inr ((), ?s1)"
    using assms(1) by (simp add: patchToHere_def g_bind_def g_here_def concatJumpList_def g_ret_def g_change_def)
  then have "g_seq (patchToHere j) (at_line l (coded (codeABC E oc a b c))) s = at_line l (coded (codeABC E oc a b c)) ?s1"
    by (simp add: g_seq_def g_bind_def)
  also have "\<dots> = at_line l (g_seq (fixJump j (code_length (gn_current s))) (coded (emit E (CREATE_ABC oc a b c)))) s"
    unfolding coded_codeABC
  proof (intro at_line_at seq_at)
    show "fs_line (gn_current ?s1) = fs_line (gn_current s)" by simp
    show "flushPendingJumps ?s1 = fixJump j (code_length (gn_current s)) s" by (rule flush_late [OF assms])
    have "flushPendingJumps (?s2\<lparr>gn_current := (gn_current ?s2)\<lparr>fs_jpc := j\<rparr>\<rparr>) = fixJump j (code_length (gn_current ?s2)) ?s2"
      by (rule flush_late) (use assms in \<open>simp_all add: fresh_jump_def\<close>)
    moreover have "f\<lparr>fs_line := l, fs_jpc := j\<rparr> = f\<lparr>fs_jpc := j, fs_line := l\<rparr>" for f :: function_state by (cases f) simp
    ultimately show "flushPendingJumps (?s1\<lparr>gn_current := (gn_current ?s1)\<lparr>fs_line := l\<rparr>\<rparr>) = fixJump j (code_length (gn_current s)) ?s2"
      by (simp add: code_length_def)
  qed
  finally show ?thesis .
qed

text \<open>The jump stays as it is while the body is emitted.\<close>

lemma ok_jump_over:
  assumes "\<And>G A. ok G A m nothing"
  shows "ok G A (g_bind (emitJump E) (\<lambda>j. g_bind getLabel (\<lambda>start.
     g_seq m (g_seq (patchToHere j) (g_seq (at_line l (coded (codeABC E oc a b c))) (g_ret start)))))) nothing"
  unfolding ok_def
proof (intro allI impI)
  fix s :: gen_state assume wf: "well_gen G (gn_current s)"
  let ?k = "\<lambda>j. g_bind getLabel (\<lambda>start. g_seq m (g_seq (patchToHere j) (g_seq (at_line l (coded (codeABC E oc a b c))) (g_ret start))))"
  show "ends_well G s nothing (g_bind (emitJump E) ?k s)"
  proof (cases "emitJump E s")
    case (Inl e)
    then show ?thesis using okD [OF ok_emitJump wf empty_subsetI, of E] by (simp add: g_bind_def)
  next
    case (Inr y)
    obtain j s1 where y: "emitJump E s = Inr (j, s1)" using Inr by (cases y) auto
    note j = emitJump_fresh [OF wf y]
    have "{j} \<subseteq> closed G (gn_current s1)" using j(5) by simp
    note r = ok_framed [OF assms [of "G \<union> {j}" "{}"] j(3) this empty_subsetI]
    have "ends_well G s1 nothing (?k j s1)"
    proof (cases "m s1")
      case (Inl e)
      then show ?thesis using r(1) by (simp add: g_seq_def g_bind_def getLabel_def instructionCount_def g_here_def)
    next
      case (Inr y)
      obtain s2 where y: "m s1 = Inr ((), s2)" using Inr by (cases y) auto
      have s2: "well_gen G (gn_current s2)" "grows G (gn_current s1) (gn_current s2)" "j \<in> closed G (gn_current s2)"
        "list_all2 outer (gn_parents s1) (gn_parents s2)" using r(1) y by auto
      have "chain (fs_code (gn_current s2)) j [j]"
        using chain_cong [of "fs_code (gn_current s1)" j "[j]"] r(2) [OF y] j(1) s2(2)
        by (simp add: fresh_jump_def grows_def code_length_def)
      then have fresh: "fresh_jump j (gn_current s2)" "fs_jpc (gn_current s2) = NO_JUMP"
        using s2(1) by (simp_all add: fresh_jump_def well_gen_def)
      let ?rest = "g_seq (at_line l (g_seq (fixJump j (code_length (gn_current s2))) (coded (emit E (CREATE_ABC oc a b c)))))
          (g_ret (code_length (gn_current s1)))"
      let ?late = "at_line l (coded (codeABC E oc a b c))"
      have "?k j s1 = g_seq (patchToHere j) (g_seq ?late (g_ret (code_length (gn_current s1)))) s2"
        using y by (simp add: g_seq_def [of m] g_bind_def getLabel_def instructionCount_def g_here_def)
      also have "\<dots> = ?rest s2" unfolding seq_assoc [symmetric] by (rule seq_at, rule late_patch [OF fresh(2,1)])
      finally have "?k j s1 = ?rest s2" .
      moreover have "ok G {j} ?rest nothing" by (rule ok_rules | simp)+
      then have "ends_well G s2 nothing (?rest s2)" using okD s2(1,3) by fastforce
      ultimately show ?thesis using ends_well_trans s2(2,4) by metis
    qed
    then show ?thesis using y ends_well_trans j(4,6) by (simp add: g_bind_def)
  qed
qed

lemma ok_emit_iterators [ok_rules]: "list_all good vs \<Longrightarrow> ok G A (emit_iterators E base filled vs) nothing"
proof (induction vs arbitrary: filled A)
  case (Cons v vs)
  then have goods: "good v" "list_all good vs" by simp_all
  have m: "ok G A m call_pcs" if "(if c then multi_result E v t else None) = Some m" for m c t A
    using that ok_multi_result [OF goods(1)] by (simp split: if_splits)
  show ?case
  proof (cases "if vs = [] then multi_result E v (base + filled) else None")
    case (Some n)
    show ?thesis unfolding emit_iterators.simps Let_def Some option.case
      by (rule m [OF Some] goods Cons.IH ok_rules | simp)+
  next
    case None
    show ?thesis unfolding emit_iterators.simps Let_def None option.case
      by (rule goods Cons.IH ok_rules | force)+
  qed
qed (simp add: ok_ret)

lemma gen_bind_assoc: "g_bind (g_bind m f) k = g_bind m (\<lambda>x. g_bind (f x) k)"
  by (rule ext) (simp add: g_bind_def split: sum.split)

lemma ret_bind: "g_bind (g_ret x) k = k x"
  by (rule ext) (simp add: g_bind_def g_ret_def)

lemma leaves_jump_over:
  assumes "\<And>G A. ok G A m1 nothing" "\<And>G A. ok G A m2 nothing" "\<And>start. leaves G A (k start) W"
  shows "leaves G A (g_bind (emitJump E) (\<lambda>j. g_bind getLabel (\<lambda>start.
     g_seq m1 (g_seq m2 (g_seq (patchToHere j) (g_seq (at_line l (coded (codeABC E oc a b c))) (k start))))))) W"
proof -
  let ?p = "g_bind (emitJump E) (\<lambda>j. g_bind getLabel (\<lambda>start.
     g_seq (g_seq m1 m2) (g_seq (patchToHere j) (g_seq (at_line l (coded (codeABC E oc a b c))) (g_ret start)))))"
  have "ok G A ?p nothing" by (rule ok_jump_over) (rule ok_rules assms)+
  then have "leaves G A (g_bind ?p k) W" by (rule leaves_bind) (simp add: assms(3))
  then show ?thesis by (simp add: gen_bind_assoc ret_bind g_seq_def)
qed

lemma ok_emit_forin [ok_rules]:
  assumes "list_all good its" "good_stmts body"
  shows "ok G A (emit_forin E vars its body) nothing"
  unfolding emit_forin_def Let_def
  by (rule leaves_jump_over ok_rules loop_rules assms | simp)+

end
