(* ===== verification/GenTotal.thy ===== *)
theory GenTotal
  imports GenLoops
begin

text \<open>
  The code generator as a whole: the end of a function, functions inside functions, the recursion over the syntax tree, and
  chunks. No loop along a jump list is endless, and every prototype is complete.
\<close>

section \<open>The end of a function\<close>

text \<open>A function is finished by steps that only look at what is complete already.\<close>

definition finishing :: "(function_state \<Rightarrow> bool) \<Rightarrow> 'a gen \<Rightarrow> ('a \<Rightarrow> function_state \<Rightarrow> bool) \<Rightarrow> bool" where
  "finishing P m Q \<longleftrightarrow> (\<forall>s. P (gn_current s) \<longrightarrow> (case m s of
       Inl e \<Rightarrow> e \<noteq> GE_Endless | Inr (x, s') \<Rightarrow> Q x (gn_current s') \<and> list_all2 outer (gn_parents s) (gn_parents s')))"

lemma steps_bind: "finishing P m Q \<Longrightarrow> (\<And>x. finishing (Q x) (k x) R) \<Longrightarrow> finishing P (g_bind m k) R"
  unfolding finishing_def g_bind_def by (fastforce split: sum.splits intro: outer_list_trans)

lemma steps_seq: "finishing P m (\<lambda>_. Q) \<Longrightarrow> finishing Q k R \<Longrightarrow> finishing P (g_seq m k) R"
  unfolding g_seq_def by (rule steps_bind) simp_all

lemma steps_here: "(\<And>v. finishing (\<lambda>f. P f \<and> v = h f) (k v) R) \<Longrightarrow> finishing P (g_bind (g_here h) k) R"
  by (auto simp: finishing_def g_bind_def g_here_def)

lemma steps_change: "(\<And>f. P f \<Longrightarrow> Q (u f)) \<Longrightarrow> finishing P (g_change u) (\<lambda>_. Q)"
  by (simp add: finishing_def g_change_def)

lemma steps_each: "(\<And>x. finishing P (m x) (\<lambda>_. P)) \<Longrightarrow> finishing P (g_each m xs) (\<lambda>_. P)"
proof (induction xs)
  case (Cons x xs)
  then have "finishing P (g_each m xs) (\<lambda>_. P)" "finishing P (m x) (\<lambda>_. P)" by simp_all
  then show ?case using steps_seq by fastforce
qed (simp add: finishing_def g_ret_def)

lemma steps_ok: "ok {} {} m V \<Longrightarrow> finishing (well_gen {}) m (\<lambda>_. well_gen {})"
  by (fastforce simp: finishing_def ok_def ends_well_def split: sum.splits)

lemma steps_intern: "finishing P (g_intern E x) (\<lambda>_. P)"
  by (simp add: finishing_def g_intern_def split: prod.split)

lemma steps_weaken: "finishing P m Q \<Longrightarrow> (\<And>f. P' f \<Longrightarrow> P f) \<Longrightarrow> (\<And>x f. Q x f \<Longrightarrow> Q' x f) \<Longrightarrow> finishing P' m Q'"
  unfolding finishing_def by (fastforce split: sum.splits)

text \<open>A function that has got its last instruction.\<close>

definition returned :: "function_state \<Rightarrow> bool" where
  "returned f \<longleftrightarrow> well_gen {} f \<and> fs_code f \<noteq> [] \<and> last (fs_code f) = CREATE_ABC OP_RETURN 0 1 0"

lemma returned_beside: "beside u \<Longrightarrow> returned f \<Longrightarrow> returned (u f)"
  by (simp add: returned_def well_gen_beside) (simp add: beside_def)

lemma emit_returned: "finishing (well_gen {}) (emit E (CREATE_ABC OP_RETURN 0 1 0)) (\<lambda>_. returned)"
proof -
  have "finishing (well_gen {}) (g_change (\<lambda>f. update_data (\<lambda>d. addLineInfo (fs_line f) (snd (addInstruction (CREATE_ABC OP_RETURN 0 1 0) d))) f))
      (\<lambda>_. returned)"
    using well_gen_emit [OF _ refl] by (intro steps_change) (simp add: returned_def)
  note change = this
  have ret: "finishing returned (g_ret pc) (\<lambda>_. returned)" for pc :: int by (simp add: finishing_def g_ret_def)
  show ?thesis unfolding emit_def
    by (rule steps_seq [OF steps_ok [OF ok_charge]] steps_bind [OF steps_ok [OF ok_count(1)]] steps_seq [OF change] ret)+
qed

lemma code_returned: "finishing (well_gen {}) (coded (codeABC E OP_RETURN 0 1 0)) (\<lambda>_. returned)"
  unfolding coded_codeABC unfolding coded_def
  by (rule steps_seq [OF steps_ok [OF ok_flush]] steps_bind [OF emit_returned])+ (simp add: finishing_def g_ret_def)

lemma line_returned:
  assumes "finishing (well_gen {}) m (\<lambda>_. returned)"
  shows "finishing (well_gen {}) (with_line l m) (\<lambda>_. returned)" "finishing (well_gen {}) (at_line l m) (\<lambda>_. returned)"
proof -
  have restore: "finishing returned (g_seq (g_change (\<lambda>f. f\<lparr>fs_line := saved\<rparr>)) (g_ret x)) (\<lambda>_. returned)" for saved and x :: 'a
    by (rule steps_seq [OF steps_change [where Q = returned]]) (auto intro: returned_beside simp: beside_def finishing_def g_ret_def)
  note rules = steps_bind [OF steps_ok [OF ok_here]] steps_seq [OF steps_ok [OF ok_line]]
    steps_seq [OF steps_ok [OF ok_when [OF ok_line]]] steps_bind [OF assms] restore
  show "finishing (well_gen {}) (with_line l m) (\<lambda>_. returned)" unfolding with_line_def by (rule rules)+
  show "finishing (well_gen {}) (at_line l m) (\<lambda>_. returned)" unfolding at_line_def by (rule rules)+
qed

lemma steps_upvalue_names: "finishing returned (add_upvalue_names E) (\<lambda>_. returned)"
proof -
  have nups: "finishing returned (g_change (update_data (\<lambda>d. d\<lparr>pd_nups := n\<rparr>))) (\<lambda>_. returned)" for n
    by (rule steps_change) (rule returned_beside, rule beside_data, simp)
  have name: "finishing returned (g_change (update_data (\<lambda>d. snd (addUpvalueName (Some a) d)))) (\<lambda>_. returned)" for a
    by (rule steps_change) (rule returned_beside, rule beside_data, simp add: addUpvalueName_def Let_def)
  have each: "finishing returned (g_each (\<lambda>u. g_bind (g_intern E (uc_name u)) (\<lambda>a.
      g_change (update_data (\<lambda>d. snd (addUpvalueName (Some a) d))))) ups) (\<lambda>_. returned)" for ups
    by (rule steps_each steps_bind steps_intern name)+
  show ?thesis unfolding add_upvalue_names_def
    by (rule steps_here, rule steps_weaken, rule steps_seq [OF nups each]) simp_all
qed

text \<open>The variables in the order of their declarations.\<close>

definition described :: "local_var list \<Rightarrow> function_state \<Rightarrow> bool" where
  "described vs f \<longleftrightarrow> length (pd_lineInfo (fs_data f)) = length (fs_code f) \<and> fs_code f \<noteq> [] \<and>
     last (fs_code f) = CREATE_ABC OP_RETURN 0 1 0 \<and> list_all (\<lambda>c. c = Some True) (map (map_option shaped) (sub_protos (fs_proto f))) \<and>
     map lv_startpc (pd_locvars (fs_data f)) = map lc_startpc vs"

lemma described_shaped: "described vs f \<Longrightarrow> sorted_wrt (\<lambda>a b. lc_startpc a \<le> lc_startpc b) vs \<Longrightarrow> shaped (fs_proto f)"
proof -
  assume d: "described vs f" and s: "sorted_wrt (\<lambda>a b. lc_startpc a \<le> lc_startpc b) vs"
  have "sorted (map lv_startpc (pd_locvars (fs_data f)))" using d s by (simp add: described_def sorted_map)
  then show "shaped (fs_proto f)" using d by (cases "fs_proto f") (simp add: described_def fs_data_def sorted_map)
qed

lemma steps_debug:
  "finishing (described us) (g_each (\<lambda>v. addLocalDebug E (lc_name v) (lc_startpc v) (e v) (lc_reg v)) vs) (\<lambda>_. described (us @ vs))"
proof (induction vs arbitrary: us)
  case Nil
  then show ?case by (simp add: finishing_def g_ret_def)
next
  case (Cons v vs)
  have "finishing (described us) (addLocalDebug E (lc_name v) (lc_startpc v) (e v) (lc_reg v)) (\<lambda>_. described (us @ [v]))"
    unfolding addLocalDebug_def
    by (rule steps_bind [OF steps_intern], rule steps_change)
      (simp add: described_def update_data_def fs_data_def addLocVar_def Let_def)
  then show ?case using steps_seq Cons.IH [of "us @ [v]"] by fastforce
qed

lemma steps_attach: "finishing returned (attachDebugMetadata E) (\<lambda>_ f. shaped (fs_proto f))"
  unfolding attachDebugMetadata_def
proof (rule steps_here)
  fix v :: "local_var list \<times> int"
  obtain vars pc where v: "v = (vars, pc)" by (cases v)
  show "finishing (\<lambda>f. returned f \<and> v = (fs_localVars f, code_length f))
     (case v of (vars, pc) \<Rightarrow> g_each (\<lambda>v. addLocalDebug E (lc_name v) (lc_startpc v) (if 0 \<le> lc_endpc v then lc_endpc v else pc) (lc_reg v)) vars)
     (\<lambda>_ f. shaped (fs_proto f))"
  proof (cases "sorted_wrt (\<lambda>a b. lc_startpc a \<le> lc_startpc b) vars")
    case True
    show ?thesis unfolding v prod.case
      by (rule steps_weaken [OF steps_debug [of "[]"]])
        (auto simp: returned_def well_gen_def described_def intro: described_shaped [OF _ True])
  qed (auto simp: v finishing_def returned_def well_gen_def declared_in_order_def)
qed

section \<open>Functions\<close>

lemma ok_params [ok_rules]: "ok G A (add_parameters ps) nothing"
  unfolding add_parameters_def by (rule ok_rules)+

lemma steps_fit: "finishing (\<lambda>f. shaped (fs_proto f)) (g_change (\<lambda>f. fit_stack (n f) f)) (\<lambda>_ f. shaped (fs_proto f))"
proof (rule steps_change)
  fix f :: function_state assume "shaped (fs_proto f)"
  then show "shaped (fs_proto (fit_stack (n f) f))" by (cases "fs_proto f") (simp add: fit_stack_def update_data_def)
qed

lemma steps_function_body:
  assumes "good_stmts body"
  shows "finishing (well_gen {}) (function_body E params c body l) (\<lambda>_ f. shaped (fs_proto f))"
  unfolding function_body_def
  by (rule steps_seq [OF steps_ok [OF ok_params]] steps_seq [OF steps_ok [OF ok_when]] steps_seq [OF steps_ok [OF ok_emit_block [OF assms]]]
      steps_seq [OF line_returned(1) [OF code_returned]] steps_seq [OF steps_upvalue_names] steps_seq [OF steps_attach] steps_fit ok_rules)+

lemma new_well_gen:
  assumes "pd_code d = []" "pd_lineInfo d = []" "pd_locvars d = []"
  shows "well_gen {} (new_function_state d v)"
  using assms
  by (simp add: well_gen_def new_function_state_def chains_ok_def declared_in_order_def fs_data_def setVararg_def)

lemma outer_kept:
  assumes "outer p p'" "well_gen G p"
  shows "well_gen G p'" "grows G p p'"
proof -
  have same: "fs_data p' = fs_data p" "open_jumps p' = open_jumps p" "code_length p' = code_length p"
    using assms(1) by (simp_all add: outer_def fs_data_def open_jumps_def code_length_def)
  then show "well_gen G p'" using assms unfolding well_gen_def declared_in_order_map by (simp add: outer_def)
  show "grows G p p'" using assms(1) same by (simp add: grows_def closed_def outer_def)
qed

lemma ok_in_child:
  assumes "finishing (well_gen {}) m (\<lambda>_ f. shaped (fs_proto f))" "well_gen {} child"
    "\<And>x f. shaped (fs_proto f) \<Longrightarrow> ok G A (k (x, f)) V"
  shows "ok G A (g_bind (in_child child m) k) V"
  unfolding ok_def
proof (intro allI impI)
  fix s :: gen_state assume wf: "well_gen G (gn_current s)" and A: "A \<subseteq> closed G (gn_current s)"
  let ?s0 = "s\<lparr>gn_current := child, gn_parents := gn_current s # gn_parents s\<rparr>"
  have r: "case m ?s0 of Inl e \<Rightarrow> e \<noteq> GE_Endless
     | Inr (x, s') \<Rightarrow> shaped (fs_proto (gn_current s')) \<and> list_all2 outer (gn_current s # gn_parents s) (gn_parents s')"
    using assms(1) [unfolded finishing_def, rule_format, of ?s0] assms(2) by (auto split: sum.splits prod.splits)
  show "ends_well G s V (g_bind (in_child child m) k s)"
  proof (cases "m ?s0")
    case (Inl e)
    then show ?thesis using r by (simp add: g_bind_def in_child_def)
  next
    case (Inr y)
    obtain x s1 where y: "m ?s0 = Inr (x, s1)" using Inr by (cases y) auto
    then obtain p ps where p: "gn_parents s1 = p # ps" "outer (gn_current s) p" "list_all2 outer (gn_parents s) ps"
      and shaped: "shaped (fs_proto (gn_current s1))" using r by (auto simp: list_all2_Cons1)
    let ?s2 = "s1\<lparr>gn_current := p, gn_parents := ps\<rparr>"
    note kept = outer_kept [OF p(2) wf]
    have "A \<subseteq> closed G (gn_current ?s2)" using kept(2) A by (auto simp: grows_def)
    then have "ends_well G ?s2 V (k (x, gn_current s1) ?s2)" using okD [OF assms(3) [OF shaped]] kept(1) by simp
    then have "ends_well G s V (k (x, gn_current s1) ?s2)" by (rule ends_well_trans) (simp_all add: kept(2) p(3))
    then show ?thesis using y p(1) by (simp add: g_bind_def in_child_def)
  qed
qed

lemma well_gen_subs:
  assumes "well_gen G f" "fs_data f' = fs_data f" "fs_blocks f' = fs_blocks f" "fs_localVars f' = fs_localVars f" "fs_jpc f' = fs_jpc f"
    "list_all (\<lambda>c. c = Some True) (map (map_option shaped) (sub_protos (fs_proto f')))"
  shows "well_gen G f'" "grows G f f'"
proof -
  have same: "open_jumps f' = open_jumps f" "code_length f' = code_length f"
    using assms by (simp_all add: open_jumps_def code_length_def)
  then show "well_gen G f'" using assms by (simp add: well_gen_def declared_in_order_def)
  show "grows G f f'" using assms same by (simp add: grows_def closed_def)
qed

lemma ok_addSubProto [ok_rules]:
  assumes "shaped p"
  shows "ok G A (addSubProto p) nothing"
  unfolding addSubProto_def ok_def
proof (intro allI impI)
  fix s :: gen_state assume wf: "well_gen G (gn_current s)"
  obtain i q where add: "addProto (Some p) (fs_proto (gn_current s)) = (i, q)" by (cases "addProto (Some p) (fs_proto (gn_current s))")
  have q: "q = Proto (fs_data (gn_current s)) (sub_protos (fs_proto (gn_current s)) @ [Some p])"
    using add by (cases "fs_proto (gn_current s)") (auto simp: fs_data_def addProto.simps Let_def)
  note r = well_gen_subs [OF wf, of "(gn_current s)\<lparr>fs_proto := q\<rparr>"]
  show "ends_well G s nothing (g_bind (g_here (\<lambda>f. addProto (Some p) (fs_proto f))) (\<lambda>(i, p).
     g_seq (g_change (\<lambda>f. f\<lparr>fs_proto := p\<rparr>)) (g_ret (int i))) s)"
    using r add q assms wf
    by (simp add: g_bind_def g_here_def g_seq_def g_change_def g_ret_def well_gen_def fs_data_def)
qed

lemma ok_compileFunction [ok_rules]:
  assumes "good_stmts body"
  shows "ok G A (compileFunction E params vararg uses body l l') nothing"
proof -
  have child: "well_gen {} ((update_data u (new_function_state d v))\<lparr>fs_line := n\<rparr>)"
    if "beside (update_data u)" "pd_code d = []" "pd_lineInfo d = []" "pd_locvars d = []" for u d v n
  proof -
    have "well_gen {} (update_data u (new_function_state d v))" using well_gen_beside(1) [OF that(1)] new_well_gen [OF that(2-4)] by simp
    moreover have "beside (\<lambda>f. f\<lparr>fs_line := n\<rparr>)" by (simp add: beside_def)
    ultimately show ?thesis using well_gen_beside(1) by blast
  qed
  show ?thesis unfolding compileFunction_def Let_def
    by (rule ok_seq [OF ok_charge] ok_bind [OF ok_here] ok_in_child steps_function_body assms child beside_data ok_rules
       | simp add: empty_proto_def)+
qed

lemma ok_emitClosureUpvalues [ok_rules]: "ok G A (emitClosureUpvalues E ups) nothing"
  unfolding emitClosureUpvalues_def by (rule ok_rules)+

lemma ok_function_value [ok_rules]: "good_stmts sts \<Longrightarrow> ok G A (function_value E l ps v body el sts) vr_pcs"
  unfolding function_value_def by (assumption | rule ok_rules | split prod.split | rule allI impI | simp)+

section \<open>Function statements\<close>

lemma shaped_setDebugName [simp]: "shaped (setDebugName a p) = shaped p"
  by (cases p) (simp add: setDebugName_def)

lemma ok_name_child [ok_rules]: "ok G A (name_child E i x) nothing"
  unfolding name_child_def
proof (rule ok_bind [OF ok_intern], rule ok_change)
  fix a and f :: function_state
  let ?subs = "sub_protos (fs_proto f)"
  let ?f = "f\<lparr>fs_proto := Proto (fs_data f) (?subs[nat i := map_option (setDebugName a) (?subs ! nat i)])\<rparr>"
  assume wf: "well_gen G f"
  then have subs: "list_all (\<lambda>c. map_option shaped c = Some True) ?subs" by (simp add: well_gen_def list_all_iff)
  have "list_all (\<lambda>c. map_option shaped c = Some True) (?subs[nat i := map_option (setDebugName a) (?subs ! nat i)])"
  proof (cases "nat i < length ?subs")
    case True
    then obtain p where "?subs ! nat i = Some p" "shaped p" using subs by (auto simp: list_all_length)
    then show ?thesis using subs by (auto simp: list_all_iff dest: set_update_subset_insert [THEN subsetD])
  next
    case False
    then show ?thesis using subs by (simp add: list_update_beyond not_less)
  qed
  then have "list_all (\<lambda>c. c = Some True) (map (map_option shaped) (sub_protos (fs_proto ?f)))" by (simp add: list_all_iff)
  then show "well_gen G ?f \<and> grows G f ?f" using well_gen_subs [OF wf, of ?f] by (simp add: fs_data_def)
qed

lemma ok_close_over [ok_rules]: "ok G A (close_over E r func) nothing"
  unfolding close_over_def by (rule ok_rules)+

lemma ok_symbol [simp]: "vr_pcs (symbolToValue ref) = {}"
  by (cases ref) (simp_all add: symbolToValue_def)

lemma ok_loadNameToReg [ok_rules]: "ok G A (loadNameToReg E x) nothing"
  unfolding loadNameToReg_def by (rule ok_rules conjI impI allI | split symbol_ref.split | simp)+

lemma ok_stringKeyToRK [ok_rules]: "ok G A (stringKeyToRK E x) nothing"
  unfolding stringKeyToRK_def by (rule ok_rules | simp)+

lemma ok_walk_path [ok_rules]: "ok G A (walk_path E r xs) nothing"
proof (induction xs arbitrary: r A)
  case (Cons x xs)
  show ?case unfolding walk_path.simps by (rule Cons.IH ok_rules)+
qed (simp add: ok_ret)

lemma ok_store_functions [ok_rules]: "ok G A (store_in_table E path x func) nothing" "ok G A (store_by_name E x func) nothing"
  unfolding store_in_table_def store_by_name_def by (rule ok_rules | simp)+

lemma ok_emit_function_statement [ok_rules]:
  assumes "good_stmts sts"
  shows "ok G A (emit_function_statement E l x path m ps v body lo el sts) nothing"
  unfolding emit_function_statement_def by (rule ok_rules assms | simp)+

section \<open>The visitors\<close>

lemma good_plain: "(\<And>G A. ok G A v vr_pcs) \<Longrightarrow> good (plain E e v)"
  unfolding good_def plain_def Let_def by (auto intro!: ok_rules)

lemma good_binary: "good l \<Longrightarrow> good r \<Longrightarrow> good (binary_emitters E p op l r)"
proof -
  assume l: "good l" and r: "good r"
  let ?b = "plain E (BinaryExpr p op (em_expr l) (em_expr r)) (emitValueBinary E op l r)"
  have b: "good ?b" by (rule good_plain) (rule ok_emitValueBinary [OF l r])
  have v: "ok G A (em_value ?b) vr_pcs" for G A by (rule goodD(1) [OF b])
  have "ok G A x vr_pcs" if "x \<in> set (if op = B_Concat then em_operands l @ em_operands r else em_operands ?b)" for x G A
    using that l r b by (auto simp: good_def split: if_splits)
  moreover have "ok G A (at_line (fst p) (cond_binary E op l r (em_value ?b))) cond_pcs"
    "ok G A (at_line (fst p) (condTrue_binary E op l r (em_value ?b))) cond_pcs" for G A
    by (rule ok_at_line ok_conditions l r v)+
  ultimately show ?thesis using b unfolding good_def binary_emitters_def Let_def by simp
qed

lemma good_unary: "good e \<Longrightarrow> good (unary_emitters E p op e)"
proof -
  assume e: "good e"
  let ?u = "plain E (UnaryExpr p op (em_expr e)) (emitValueUnary E op e)"
  have u: "good ?u" by (rule good_plain) (rule ok_emitValueUnary [OF e])
  have v: "ok G A (em_value ?u) vr_pcs" for G A by (rule goodD(1) [OF u])
  have "ok G A (at_line (fst p) (cond_unary E op e (em_value ?u))) cond_pcs"
    "ok G A (at_line (fst p) (condTrue_unary E op e (em_value ?u))) cond_pcs" for G A
    by (rule ok_at_line ok_conditions e v)+
  then show ?thesis using u unfolding good_def unary_emitters_def Let_def by simp
qed

lemma ok_paren_value: "good e \<Longrightarrow> ok G A (paren_value E e) vr_pcs"
  unfolding paren_value_def by (assumption | rule ok_rules conjI impI allI | split ok_splits | force)+

lemma good_paren: "good e \<Longrightarrow> good (paren_emitters E p e)"
proof -
  assume e: "good e"
  have "good (plain E (ParenExpr p (em_expr e)) (paren_value E e))" by (rule good_plain) (rule ok_paren_value [OF e])
  moreover have "ok G A (at_line (fst p) (em_cond e)) cond_pcs" "ok G A (at_line (fst p) (em_condTrue e)) cond_pcs" for G A
    by (rule ok_at_line goodD e)+
  ultimately show ?thesis unfolding good_def paren_emitters_def by simp
qed

lemma ok_call_value: "ok G A m call_pcs \<Longrightarrow> ok G A (call_value m) vr_pcs"
  unfolding call_value_def by (assumption | rule ok_rules | simp add: call_pcs_def)+

lemma good_calls: "good f \<Longrightarrow> list_all good as \<Longrightarrow> good (call_emitters E p f as m)"
proof -
  assume g: "good f" "list_all good as"
  have "good (plain E (CallExpr p (em_expr f) (map em_expr as) m) (call_value (emitCallExpr E (fst p) f as m (-1))))"
    by (rule good_plain ok_call_value ok_emitCallExpr g)+
  then show ?thesis using ok_emitCallExpr [OF g] unfolding good_def call_emitters_def Let_def by simp
qed

lemma good_name: "good ((plain E (NameExpr p x) (g_bind (resolve E x) (\<lambda>ref. g_ret (symbolToValue ref))))
    \<lparr>em_lvalue := g_bind (resolve E x) (\<lambda>ref. g_ret (symbolToLValue ref))\<rparr>)"
proof -
  have "good (plain E (NameExpr p x) (g_bind (resolve E x) (\<lambda>ref. g_ret (symbolToValue ref))))"
    by (rule good_plain) (rule ok_rules | simp)+
  moreover have "ok G A (g_bind (resolve E x) (\<lambda>ref. g_ret (symbolToLValue ref))) nothing" for G A by (rule ok_rules | simp)+
  ultimately show ?thesis unfolding good_def by simp
qed

lemma good_places:
  "good t \<Longrightarrow> good i \<Longrightarrow> good ((plain E (IndexExpr p a b) (emitValueIndex E t i))\<lparr>em_lvalue := lvalue_index E t i\<rparr>)"
  "good t \<Longrightarrow> good ((plain E (MemberExpr p a x) (emitValueMember E t x))\<lparr>em_lvalue := lvalue_member E t x, em_object := Some (em_value t, x)\<rparr>)"
proof -
  assume t: "good t"
  have m: "good (plain E (MemberExpr p a x) (emitValueMember E t x))" by (rule good_plain ok_index t)+
  then show "good ((plain E (MemberExpr p a x) (emitValueMember E t x))\<lparr>em_lvalue := lvalue_member E t x, em_object := Some (em_value t, x)\<rparr>)"
    using ok_index(4) [OF t] goodD(1) [OF t] unfolding good_def by simp
  assume i: "good i"
  have "good (plain E (IndexExpr p a b) (emitValueIndex E t i))" by (rule good_plain ok_index t i)+
  then show "good ((plain E (IndexExpr p a b) (emitValueIndex E t i))\<lparr>em_lvalue := lvalue_index E t i\<rparr>)"
    using ok_index(3) [OF t i] unfolding good_def by simp
qed

lemma ok_statement_at: "ok G A m nothing \<Longrightarrow> ok G A (statement_at l m) nothing"
  unfolding statement_at_def by (rule ok_rules | assumption)+

lemma good_with_reads: "(\<And>st G A. st \<in> set body \<Longrightarrow> ok G A (emit_stmt E st) nothing) \<Longrightarrow> good_stmts (zip (map collectStmtReads body) (map (emit_stmt E) body))"
  by (auto simp: good_stmts_def in_set_zip)

section \<open>Chunks\<close>

lemma map2_self: "map2 f xs (map h xs) = map (\<lambda>x. f x (h x)) xs"
  by (induction xs) simp_all

lemma visitors_good: "good (emit_expr E e)" "ok G A (emit_stmt E st) nothing"
proof (induction e and st arbitrary: and G A)
  case (NilExpr p)
  show ?case by simp (rule good_plain, rule ok_rules, simp)
next
  case (BoolExpr p b)
  show ?case by simp (rule good_plain, rule ok_rules, simp)
next
  case (NumberExpr p x)
  show ?case by simp (rule good_plain, rule ok_rules, simp)
next
  case (StringExpr p x)
  show ?case by simp (rule good_plain, (rule ok_rules | simp)+)
next
  case (VarargExpr p)
  show ?case by simp (rule good_plain ok_call_value ok_emitVarargExpr)+
next
  case (NameExpr p x)
  show ?case unfolding emit_expr.simps by (rule good_name)
next
  case (BinaryExpr p op l r)
  then show ?case by (simp add: good_binary)
next
  case (UnaryExpr p op e)
  then show ?case by (simp add: good_unary)
next
  case (TableExpr p fs)
  have "good_field (map_prod (map_option (emit_expr E)) (emit_expr E) fld)" if "fld \<in> set fs" for fld
    
  proof (cases fld)
    case (Pair k v)
    have "good (emit_expr E v)" using TableExpr(2) [OF that] Pair by simp
    moreover have "good (emit_expr E x)" if "k = Some x" for x using TableExpr(1) [OF \<open>fld \<in> set fs\<close>] Pair that by simp
    ultimately show ?thesis using Pair by (simp add: good_field_def split: option.split)
  qed
  then have fields: "list_all good_field (map (map_prod (map_option (emit_expr E)) (emit_expr E)) fs)" by (simp add: list_all_iff)
  show ?case unfolding emit_expr.simps by (rule good_plain ok_emitValueTable fields)+
next
  case (CallExpr p f args m)
  then show ?case by (simp add: good_calls list_all_iff)
next
  case (IndexExpr p t i)
  then show ?case by (simp add: good_places)
next
  case (MemberExpr p t x)
  then show ?case by (simp add: good_places)
next
  case (FunctionExpr p ps v body l)
  then have "good_stmts (with_reads body (map (emit_stmt E) body))" by (simp add: good_with_reads)
  then show ?case unfolding emit_expr.simps by (intro good_plain ok_function_value)
next
  case (ParenExpr p e)
  then show ?case by (simp add: good_paren)
next
  case (EmptyStmt p)
  show ?case unfolding emit_stmt.simps by (rule ok_statement_at ok_ret empty_subsetI)+
next
  case (AssignStmt p ts vs)
  then show ?case unfolding emit_stmt.simps by (intro ok_statement_at ok_emit_assign) (simp_all add: list_all_iff)
next
  case (LocalStmt p ns vs)
  then show ?case unfolding emit_stmt.simps by (intro ok_statement_at ok_emit_local) (simp_all add: list_all_iff)
next
  case (CallStmt p c)
  then show ?case unfolding emit_stmt.simps by (intro ok_statement_at ok_emit_call_statement)
next
  case (IfStmt p bs els l)
  have "good_stmts (with_reads els (map (emit_stmt E) els))" using IfStmt by (simp add: good_with_reads)
  moreover have "good_branch (case (b, map_prod (emit_expr E) (map (emit_stmt E)) b) of ((_, body), c, gens) \<Rightarrow> (c, with_reads body gens))"
    if "b \<in> set bs" for b
    
  proof (cases b)
    case (Pair c body)
    have "good (emit_expr E c)" using IfStmt(1) [OF that] Pair by simp
    moreover have "good_stmts (with_reads body (map (emit_stmt E) body))" using IfStmt(2) [OF that] Pair by (intro good_with_reads) simp
    ultimately show ?thesis using Pair by (simp add: good_branch_def)
  qed
  then have "list_all good_branch
     (map2 (\<lambda>(_, body) (c, gens). (c, with_reads body gens)) bs (map (map_prod (emit_expr E) (map (emit_stmt E))) bs))"
    unfolding map2_self by (simp add: list_all_iff split_beta)
  ultimately show ?case unfolding emit_stmt.simps by (intro ok_statement_at ok_emit_if)
next
  case (WhileStmt p c body l)
  then have "good_stmts (with_reads body (map (emit_stmt E) body))" by (simp add: good_with_reads)
  then show ?case unfolding emit_stmt.simps using WhileStmt by (intro ok_statement_at ok_emit_while)
next
  case (RepeatStmt p body c l)
  then show ?case unfolding emit_stmt.simps by (intro ok_statement_at ok_emit_repeat) auto
next
  case (ForNumStmt p v i m st body l)
  then have "good_stmts (with_reads body (map (emit_stmt E) body))" by (simp add: good_with_reads)
  then show ?case unfolding emit_stmt.simps using ForNumStmt by (intro ok_statement_at ok_emit_fornum)
next
  case (ForInStmt p vs its body l)
  then have "good_stmts (with_reads body (map (emit_stmt E) body))" by (simp add: good_with_reads)
  then show ?case unfolding emit_stmt.simps using ForInStmt by (intro ok_statement_at ok_emit_forin) (simp_all add: list_all_iff)
next
  case (FunctionStmt p n tp m ps v body lo l)
  then have "good_stmts (with_reads body (map (emit_stmt E) body))" by (simp add: good_with_reads)
  then show ?case unfolding emit_stmt.simps by (intro ok_statement_at ok_emit_function_statement)
next
  case (ReturnStmt p vs)
  then show ?case unfolding emit_stmt.simps by (intro ok_statement_at ok_emit_return) (simp_all add: list_all_iff)
next
  case (BreakStmt p)
  show ?case unfolding emit_stmt.simps by (rule ok_statement_at ok_emit_break)+
next
  case (DoStmt p body l)
  then have "good_stmts (with_reads body (map (emit_stmt E) body))" by (simp add: good_with_reads)
  then show ?case unfolding emit_stmt.simps by (intro ok_statement_at ok_emit_block)
qed

lemma good_body: "good_stmts (with_reads body (map (emit_stmt E) body))"
  by (rule good_with_reads) (rule visitors_good(2))

lemma steps_generate: "finishing (well_gen {}) (generateUnchecked E chunk x) (\<lambda>p _. shaped p)"
proof -
  have new: "finishing (well_gen {}) (g_change (\<lambda>_. new_function_state empty_proto True)) (\<lambda>_. well_gen {})"
    by (rule steps_change) (simp add: new_well_gen empty_proto_def)
  have name: "ok G A (g_bind (g_intern E ''<chunk>'') (\<lambda>a. g_change (update_data (\<lambda>d. d\<lparr>pd_debugName := Some a\<rparr>)))) nothing" for G A
    by (rule ok_rules ok_beside beside_data | simp)+
  have line: "ok G A (if chunk = [] then g_here fs_line else g_ret (stmt_getEndLine (last chunk))) nothing" for G A
    by (rule ok_rules | simp)+
  have end0: "finishing (\<lambda>f. shaped (fs_proto f)) (g_here fs_proto) (\<lambda>p _. shaped p)" by (simp add: finishing_def g_here_def)
  show ?thesis unfolding generateUnchecked_def
    by (rule steps_seq [OF steps_ok [OF ok_charge]] steps_seq [OF new] steps_seq [OF steps_ok [OF ok_setSource]]
        steps_seq [OF steps_ok [OF name]] steps_seq [OF steps_ok [OF ok_emit_block [OF good_body]]] steps_bind [OF steps_ok [OF line]]
        steps_seq [OF line_returned(2) [OF code_returned]] steps_seq [OF steps_attach] end0)+
qed

text \<open>C36. The code generator answers every chunk, in every environment, under every policy and with every pool: it never runs
  into the bound of a loop along a list of jumps. The answer is an error that the code throws itself, or a prototype that is
  complete, and so are the prototypes of all functions inside: each instruction has a line, the last instruction is the
  RETURN of the end of the function, and the local variables are described in the order in which they start.\<close>

theorem generator_ends:
  "case tryGenerate E policy execution pool chunk x of
     Inl e \<Rightarrow> e \<noteq> GE_Endless
   | Inr (p, pool') \<Rightarrow> shaped p"
proof -
  let ?s = "\<lparr>gn_current = new_function_state empty_proto True, gn_parents = [], gn_pool = pool,
         gn_budget = new_compilation_budget policy execution, gn_polls = 0\<rparr>"
  have "well_gen {} (gn_current ?s)" by (simp add: new_well_gen empty_proto_def)
  then show ?thesis using steps_generate [of E chunk x, unfolded finishing_def, rule_format, of ?s]
    by (auto simp: tryGenerate_def split: sum.splits prod.splits)
qed

end
